(* ===== verification/Prelude.thy ===== *)
theory Prelude
  imports Complex_Main "HOL-Library.Multiset"
begin

text \<open>
  What every component of the backend shares: the errors a handler can throw, the outcome of an
  asynchronous operation (an error or a value, with the state it leaves), the database
  transaction wrapper, and the document collections of the database with the operations
  the services use on them (first match, update of the first match, deletion of the first
  match). The lemmas on collections are collected in \<open>coll\<close> so that
  component proofs use them by name.
\<close>

named_theorems coll \<open>laws of document collections\<close>

section \<open>Identifiers\<close>

text \<open>
  A MongoDB object identifier is a number; identifiers are handed out in increasing
  order, as the driver does, so that sorting by \<open>_id\<close> is sorting by creation. An
  identifier that reaches a handler from outside is a string: the 24 lower-case digits that
  \<open>toString\<close> prints (\<open>Hex\<close>), another spelling that \<open>new ObjectId\<close> reads as the same
  identifier, such as upper-case digits (\<open>Alt\<close>, with that spelling), or a
  string that is no identifier (\<open>Junk\<close>). The code sometimes compares the strings and
  sometimes the identifiers they read as.
\<close>

type_synonym oid = nat

datatype raw_id = Hex oid | Alt oid string | Junk string

text \<open>\<open>Types.ObjectId.isValid\<close> and \<open>new Types.ObjectId\<close>.\<close>

fun isValid :: "raw_id \<Rightarrow> bool" where
  "isValid (Junk _) = False"
| "isValid _ = True"

fun read_oid :: "raw_id \<Rightarrow> oid option" where
  "read_oid (Hex n) = Some n"
| "read_oid (Alt n _) = Some n"
| "read_oid (Junk _) = None"

text \<open>The 24 hexadecimal digits of an identifier (\<open>ObjectId.toString\<close>).\<close>

definition hex_digit :: "nat \<Rightarrow> char" where
  "hex_digit d = ''0123456789abcdef'' ! d"

definition oid_str :: "oid \<Rightarrow> string" where
  "oid_str n = map (\<lambda>k. hex_digit (n div 16 ^ k mod 16)) (rev [0..<24])"

fun id_str :: "raw_id \<Rightarrow> string" where
  "id_str (Hex n) = oid_str n"
| "id_str (Alt _ s) = s"
| "id_str (Junk s) = s"

lemma isValid_iff: "isValid r \<longleftrightarrow> (\<exists>n. read_oid r = Some n)"
  by (cases r) auto

lemma isValid_cases [consumes 1, case_names Hex Alt]:
  assumes "read_oid r = Some n"
  obtains "r = Hex n" | s where "r = Alt n s"
  using assms by (cases r) auto

text \<open>The rooms of the realtime server (\<open>realtime.service.ts\<close>) an event is emitted to.\<close>

datatype target =
    UserRoom raw_id
  | ServerRoom oid
  | ChannelRoom oid
  | GameRoomOf raw_id
  | GameUser oid
  | VoiceRoom oid

section \<open>Strings\<close>

definition to_lower :: "char \<Rightarrow> char" where
  "to_lower c = (let n = of_char c :: nat in if 65 \<le> n \<and> n \<le> 90 then char_of (n + 32) else c)"

definition to_upper :: "char \<Rightarrow> char" where
  "to_upper c = (let n = of_char c :: nat in if 97 \<le> n \<and> n \<le> 122 then char_of (n - 32) else c)"

definition toLowerCase :: "string \<Rightarrow> string" where
  "toLowerCase s = List.map to_lower s"

definition toUpperCase :: "string \<Rightarrow> string" where
  "toUpperCase s = List.map to_upper s"

definition is_space :: "char \<Rightarrow> bool" where
  "is_space c = (let n = of_char c :: nat in n = 32 \<or> (9 \<le> n \<and> n \<le> 13) \<or> n = 160)"

definition trim :: "string \<Rightarrow> string" where
  "trim s = rev (dropWhile is_space (rev (dropWhile is_space s)))"

fun nat_str :: "nat \<Rightarrow> string" where
  "nat_str n = (if n < 10 then [char_of (48 + n)] else nat_str (n div 10) @ [char_of (48 + n mod 10)])"

declare nat_str.simps [simp del]

definition int_str :: "int \<Rightarrow> string" where
  "int_str i = (if i < 0 then ''-'' @ nat_str (nat (- i)) else nat_str (nat i))"

text \<open>Decimal numerals are read back, so different numbers print differently.\<close>

definition read_nat :: "string \<Rightarrow> nat" where
  "read_nat s = foldl (\<lambda>a c. a * 10 + (of_char c - 48)) 0 s"

lemma read_nat_str: "read_nat (nat_str n) = n"
proof (induction n rule: nat_str.induct)
  case (1 n)
  show ?case
  proof (cases "n < 10")
    case True
    then show ?thesis by (subst nat_str.simps) (simp add: read_nat_def)
  next
    case False
    have digit: "of_char (char_of (48 + n mod 10) :: char) - 48 = n mod 10"
      by simp
    from False have "read_nat (nat_str n) = read_nat (nat_str (n div 10)) * 10 + n mod 10"
      by (subst nat_str.simps) (simp add: read_nat_def digit)
    then show ?thesis using 1 False by simp
  qed
qed

lemma nat_str_inj: "nat_str m = nat_str n \<Longrightarrow> m = n"
  by (metis read_nat_str)

lemma to_lower_idem [simp]: "to_lower (to_lower c) = to_lower c"
  by (auto simp: to_lower_def Let_def)

lemma toLowerCase_idem [simp]: "toLowerCase (toLowerCase s) = toLowerCase s"
  by (simp add: toLowerCase_def)

lemma dropWhile_nospace: "dropWhile P xs = [] \<or> \<not> P (hd (dropWhile P xs))"
  by (induction xs) auto

section \<open>Errors and outcomes\<close>

datatype http_error =
    BadRequest string
  | Forbidden string
  | NotFound string
  | Unauthorized string
  | Conflict string
  | WsError string

type_synonym ('a, 's) outcome = "(http_error + 'a) \<times> 's"

definition throw :: "http_error \<Rightarrow> 's \<Rightarrow> ('a, 's) outcome" where
  "throw e s = (Inl e, s)"

definition return :: "'a \<Rightarrow> 's \<Rightarrow> ('a, 's) outcome" where
  "return x s = (Inr x, s)"

text \<open>\<open>await m\<close> followed by the rest of the handler: an error of \<open>m\<close> ends the handler.\<close>

definition await :: "('s \<Rightarrow> ('a, 's) outcome) \<Rightarrow> ('a \<Rightarrow> 's \<Rightarrow> ('b, 's) outcome) \<Rightarrow> 's \<Rightarrow> ('b, 's) outcome" where
  "await m k s = (case m s of (Inl e, s') \<Rightarrow> (Inl e, s') | (Inr x, s') \<Rightarrow> k x s')"

text \<open>The idiom \<open>m.then(() => true).catch(() => false)\<close>.\<close>

definition settles :: "('s \<Rightarrow> ('a, 's) outcome) \<Rightarrow> 's \<Rightarrow> bool \<times> 's" where
  "settles m s = (case m s of (Inl _, s') \<Rightarrow> (False, s') | (Inr _, s') \<Rightarrow> (True, s'))"

text \<open>The idiom \<open>await m.catch(() => undefined)\<close>: only the state it leaves matters.\<close>

definition best_effort :: "('s \<Rightarrow> ('a, 's) outcome) \<Rightarrow> 's \<Rightarrow> 's" where
  "best_effort m s = snd (m s)"

text \<open>
  The idiom \<open>Promise.all(xs.map(x => m(x).then(() => true).catch(() => false)))\<close>: every element
  is attempted in turn, whatever became of the earlier ones.
\<close>

fun each :: "('x \<Rightarrow> 's \<Rightarrow> bool \<times> 's) \<Rightarrow> 'x list \<Rightarrow> 's \<Rightarrow> bool list \<times> 's" where
  "each m [] s = ([], s)"
| "each m (x # xs) s =
     (let (b, s) = m x s; (bs, s) = each m xs s in (b # bs, s))"

text \<open>A unit of work in a database transaction: an error rolls the state back.\<close>

definition withTransaction :: "('s \<Rightarrow> ('a, 's) outcome) \<Rightarrow> 's \<Rightarrow> ('a, 's) outcome" where
  "withTransaction work s = (case work s of (Inl e, _) \<Rightarrow> (Inl e, s) | (Inr x, s') \<Rightarrow> (Inr x, s'))"

lemma throw_simps [simp]: "throw e s = (Inl e, s)"
  by (simp add: throw_def)

lemma return_simps [simp]: "return x s = (Inr x, s)"
  by (simp add: return_def)

lemma await_InrD:
  assumes "await m k s = (Inr y, t)"
  obtains x s' where "m s = (Inr x, s')" "k x s' = (Inr y, t)"
  using assms by (auto simp: await_def split: prod.splits sum.splits)

lemma await_snd:
  "P (snd (m s)) \<Longrightarrow> (\<And>x t. m s = (Inr x, t) \<Longrightarrow> P (snd (k x t))) \<Longrightarrow> P (snd (await m k s))"
  by (cases "m s"; cases "fst (m s)") (auto simp: await_def)

lemma await_last: "(\<And>x t. snd (k x t) = t) \<Longrightarrow> snd (await m k s) = snd (m s)"
  by (simp add: await_def split: prod.split sum.split)

lemma withTransaction_error: "withTransaction work s = (Inl e, t) \<Longrightarrow> t = s"
  by (auto simp: withTransaction_def split: prod.splits sum.splits)

lemma withTransaction_Inr [simp]:
  "withTransaction work s = (Inr x, t) \<longleftrightarrow> work s = (Inr x, t)"
  by (auto simp: withTransaction_def split: prod.splits sum.splits)

lemma each_invariant:
  assumes "\<And>x s. I s \<Longrightarrow> I (snd (m x s))" "I s"
  shows "I (snd (each m xs s))"
  using assms(2) by (induction xs arbitrary: s) (auto simp: split_beta assms(1))

lemma length_each [simp]: "length (fst (each m xs s)) = length xs"
  by (induction xs arbitrary: s) (simp_all add: split_beta)

lemma snd_settles: "snd (settles m s) = snd (m s)"
  by (auto simp: settles_def split: prod.splits sum.splits)

lemma fst_settles: "fst (settles m s) \<longleftrightarrow> (\<exists>x. fst (m s) = Inr x)"
  by (auto simp: settles_def split: prod.splits sum.splits)

section \<open>Document collections\<close>

text \<open>
  A collection is the list of its documents in insertion order, which is also the order of
  their identifiers. \<open>findOne\<close> is \<open>List.find\<close>, \<open>find\<close> is \<open>filter\<close>;
  \<open>updateOne\<close> and \<open>deleteOne\<close> act on the first match.
\<close>

fun updateOne :: "('d \<Rightarrow> bool) \<Rightarrow> ('d \<Rightarrow> 'd) \<Rightarrow> 'd list \<Rightarrow> 'd list" where
  "updateOne P f [] = []"
| "updateOne P f (d # ds) = (if P d then f d # ds else d # updateOne P f ds)"

fun deleteOne :: "('d \<Rightarrow> bool) \<Rightarrow> 'd list \<Rightarrow> 'd list" where
  "deleteOne P [] = []"
| "deleteOne P (d # ds) = (if P d then ds else d # deleteOne P ds)"

definition deleteMany :: "('d \<Rightarrow> bool) \<Rightarrow> 'd list \<Rightarrow> 'd list" where
  "deleteMany P ds = filter (\<lambda>d. \<not> P d) ds"

lemma find_Some_iff_mem: "List.find P ds = Some d \<Longrightarrow> d \<in> set ds \<and> P d"
  by (metis find_Some_iff nth_mem)

lemma find_None_iff_all: "List.find P ds = None \<longleftrightarrow> (\<forall>d \<in> set ds. \<not> P d)"
  by (auto simp: find_None_iff)

lemma find_append [coll]:
  "List.find P (xs @ ys) = (case List.find P xs of None \<Rightarrow> List.find P ys | Some x \<Rightarrow> Some x)"
  by (induction xs) auto

lemma updateOne_None [coll]: "List.find P ds = None \<Longrightarrow> updateOne P f ds = ds"
  by (induction ds) (auto split: if_splits)

lemma find_updateOne_same [coll]:
  "(\<And>d. P d \<Longrightarrow> P (f d)) \<Longrightarrow> List.find P (updateOne P f ds) = map_option f (List.find P ds)"
  by (induction ds) auto

lemma find_updateOne_other [coll]:
  "(\<And>d. P d \<Longrightarrow> \<not> Q d \<and> \<not> Q (f d)) \<Longrightarrow> List.find Q (updateOne P f ds) = List.find Q ds"
  by (induction ds) auto

lemma find_updateOne_other_mem:
  "(\<And>d. d \<in> set ds \<Longrightarrow> P d \<Longrightarrow> \<not> Q d \<and> \<not> Q (f d)) \<Longrightarrow> List.find Q (updateOne P f ds) = List.find Q ds"
  by (induction ds) auto

lemma find_deleteOne_other_mem:
  "(\<And>d. d \<in> set ds \<Longrightarrow> P d \<Longrightarrow> \<not> Q d) \<Longrightarrow> List.find Q (deleteOne P ds) = List.find Q ds"
  by (induction ds) auto

lemma map_updateOne [coll]: "(\<And>d. P d \<Longrightarrow> k (f d) = k d) \<Longrightarrow> map k (updateOne P f ds) = map k ds"
  by (induction ds) auto

lemma length_updateOne [simp]: "length (updateOne P f ds) = length ds"
  by (induction ds) auto

lemma sum_updateOne:
  fixes g :: "'d \<Rightarrow> int"
  shows "sum_list (map g (updateOne P f ds)) =
     sum_list (map g ds) + (case List.find P ds of None \<Rightarrow> 0 | Some d \<Rightarrow> g (f d) - g d)"
  by (induction ds) auto

lemma set_updateOne_subset: "set (updateOne P f ds) \<subseteq> set ds \<union> f ` {d \<in> set ds. P d}"
  by (induction ds) auto

lemma mem_updateOne: "\<lbrakk>e \<in> set ds; P e\<rbrakk> \<Longrightarrow> x \<in> set (updateOne P (\<lambda>_. x) ds)"
  by (induction ds) auto

lemma updateOne_all:
  "(\<forall>d \<in> set ds. Q d) \<Longrightarrow> (\<And>d. d \<in> set ds \<Longrightarrow> Q d \<Longrightarrow> P d \<Longrightarrow> Q (f d)) \<Longrightarrow> \<forall>d \<in> set (updateOne P f ds). Q d"
  by (induction ds) auto

lemma set_deleteOne_subset: "set (deleteOne P ds) \<subseteq> set ds"
  by (induction ds) auto

lemma sublist_map_deleteOne_distinct: "distinct (map k ds) \<Longrightarrow> distinct (map k (deleteOne P ds))"
proof (induction ds)
  case Nil
  then show ?case by simp
next
  case (Cons d ds)
  then show ?case using set_deleteOne_subset [of P ds] by auto
qed

text \<open>In a collection keyed by \<open>k\<close>, the document found for a key is the only one with it.\<close>

lemma find_key_unique:
  assumes "distinct (map k ds)" "d \<in> set ds"
  shows "List.find (\<lambda>x. k x = k d) ds = Some d"
  using assms by (induction ds) auto

lemma updateOne_key_map:
  assumes "distinct (map k ds)"
  shows "updateOne (\<lambda>x. k x = i) f ds = map (\<lambda>x. if k x = i then f x else x) ds"
  using assms by (induction ds) (auto intro!: map_idI[symmetric] simp: image_iff)

lemma deleteOne_filter:
  assumes "distinct (map k ds)"
  shows "deleteOne (\<lambda>x. k x = i) ds = filter (\<lambda>x. k x \<noteq> i) ds"
  using assms by (induction ds) (auto intro!: filter_True[symmetric] simp: image_iff)

section \<open>Pages\<close>

text \<open>
  Listings sort by descending identifier, so they read a collection from its end;
  \<open>common/dto/pagination.dto.ts\<close> cuts one page out of it.
\<close>

record 'd PaginatedResult =
  pg_items :: "'d list"
  pg_total :: nat
  pg_page :: nat
  pg_limit :: nat
  hasMore :: bool

definition buildPaginated :: "'d list \<Rightarrow> nat \<Rightarrow> nat \<Rightarrow> nat \<Rightarrow> 'd PaginatedResult" where
  "buildPaginated xs n p l =
     \<lparr>pg_items = xs, pg_total = n, pg_page = p, pg_limit = l, hasMore = (p * l < n)\<rparr>"

definition find_page :: "('d \<Rightarrow> bool) \<Rightarrow> nat \<Rightarrow> nat \<Rightarrow> 'd list \<Rightarrow> 'd PaginatedResult" where
  "find_page P p l ds =
     buildPaginated (take l (drop ((p - 1) * l) (rev (filter P ds)))) (length (filter P ds)) p l"

lemma concat_chunks: "concat (map (\<lambda>k. take l (drop (k * l) xs)) [0..<n]) = take (n * l) xs"
proof (induction n)
  case 0
  then show ?case by simp
next
  case (Suc n)
  have "take (Suc n * l) xs = take (n * l) xs @ take l (drop (n * l) xs)"
    by (simp add: take_add [symmetric] add.commute)
  with Suc show ?case by simp
qed

text \<open>Reading pages one to the first that reports no more gives every match once, newest first.\<close>

lemma find_pages_complete:
  assumes "\<not> hasMore (find_page P n l ds)"
  shows "concat (map (\<lambda>p. pg_items (find_page P p l ds)) [1..<Suc n]) = rev (filter P ds)"
proof -
  have shift: "map (\<lambda>p. pg_items (find_page P p l ds)) [1..<Suc n]
      = map (\<lambda>k. take l (drop (k * l) (rev (filter P ds)))) [0..<n]"
    by (simp add: find_page_def buildPaginated_def map_Suc_upt [symmetric] del: upt_Suc)
  have "length (filter P ds) \<le> n * l"
    using assms by (simp add: find_page_def buildPaginated_def)
  then show ?thesis unfolding shift concat_chunks by simp
qed

section \<open>Arithmetic of the language\<close>

text \<open>\<open>Math.round\<close>: the nearest integer, halves rounded up.\<close>

definition js_round :: "'a :: floor_ceiling \<Rightarrow> int" where
  "js_round x = \<lfloor>x + 1 / 2\<rfloor>"

lemma js_round_of_int [simp]: "js_round (of_int i) = i"
proof -
  have "\<lfloor>of_int i + 1 / 2 :: 'a\<rfloor> = i + \<lfloor>1 / 2 :: 'a\<rfloor>" by simp
  also have "\<lfloor>1 / 2 :: 'a\<rfloor> = 0" by (simp add: floor_eq_iff)
  finally show ?thesis by (simp add: js_round_def)
qed

lemma js_round_mono: "x \<le> y \<Longrightarrow> js_round x \<le> js_round y"
  by (simp add: js_round_def floor_mono)

lemma js_round_bounds: "of_int (js_round x) \<le> x + 1 / 2" "x - 1 / 2 < of_int (js_round x)"
  unfolding js_round_def by linarith+

lemma js_round_le: "x \<le> of_int i \<Longrightarrow> js_round x \<le> i"
  using js_round_mono [of x "of_int i"] by simp

lemma js_round_ge: "of_int i \<le> x \<Longrightarrow> i \<le> js_round x"
  using js_round_mono [of "of_int i" x] by simp

end
