(* ===== verification/Enums.thy ===== *)
theory Enums
  imports Prelude
begin

text \<open>
  The enumerations of \<open>src/common/enums.ts\<close>. Values that several enumerations share
  (\<open>ACTIVE\<close>, \<open>PENDING\<close>) carry the enumeration's initials.
\<close>

datatype AccountStatus = AS_ACTIVE | BANNED | SUSPENDED | AS_PENDING

datatype PresenceStatus = ONLINE | IDLE | DND | OFFLINE

datatype ChannelType = TEXT | VOICE

datatype MemberRole = OWNER | ADMIN | MEMBER

datatype FriendState = FS_PENDING | ACCEPTED | BLOCKED

datatype TxType =
    TOPUP | SPEND | REWARD | REFUND | TRANSFER
  | GAME_STAKE | GAME_PAYOUT | GAME_REFUND

datatype GameType = CARO | TIENLEN | BOMBERMAN

datatype GameMode = RANKED | WAGER | CASUAL

datatype RoomStatus = WAITING | STARTING | IN_PROGRESS | CLOSED

datatype DmMessageType = DM_USER | DM_SYSTEM

text \<open>
  The member roles are ordered by \<open>ROLE_RANK\<close> of \<open>servers.service.ts\<close>:
  the owner above the administrators above the members.
\<close>

fun ROLE_RANK :: "MemberRole \<Rightarrow> nat" where
  "ROLE_RANK OWNER = 3"
| "ROLE_RANK ADMIN = 2"
| "ROLE_RANK MEMBER = 1"

lemma ROLE_RANK_inj: "ROLE_RANK a = ROLE_RANK b \<longleftrightarrow> a = b"
  by (cases a; cases b) auto

instantiation MemberRole :: linorder
begin

definition less_eq_MemberRole :: "MemberRole \<Rightarrow> MemberRole \<Rightarrow> bool" where
  "less_eq_MemberRole a b \<longleftrightarrow> ROLE_RANK a \<le> ROLE_RANK b"

definition less_MemberRole :: "MemberRole \<Rightarrow> MemberRole \<Rightarrow> bool" where
  "less_MemberRole a b \<longleftrightarrow> ROLE_RANK a < ROLE_RANK b"

instance
  by standard (auto simp: less_eq_MemberRole_def less_MemberRole_def ROLE_RANK_inj)

end

end
