(* ===== verification/LevelUtil.thy ===== *)
theory LevelUtil
  imports Prelude
begin

text \<open>
  The level curve of \<open>src/leveling/level.util.ts\<close>: the experience needed for a level, the
  level of an amount of experience, the progress inside a level and the cosmetic
  bracket. The square root of the source is the real square root here: for amounts of
  experience below the level ten million the double computation takes the same floor.
\<close>

section \<open>Levels\<close>

definition totalXpForLevel :: "int \<Rightarrow> int" where
  "totalXpForLevel level = (if level \<le> 1 then 0 else 50 * level * (level - 1))"

definition levelFromXp :: "int \<Rightarrow> int" where
  "levelFromXp xp =
     (if xp \<le> 0 then 1
      else max 1 \<lfloor>(50 + sqrt (2500 + 200 * real_of_int xp)) / 100\<rfloor>)"

text \<open>The cost of one step: from level \<open>L\<close> to the next takes \<open>100 * L\<close>.\<close>

lemma totalXp_step: "1 \<le> L \<Longrightarrow> totalXpForLevel (L + 1) = totalXpForLevel L + 100 * L"
  by (auto simp: totalXpForLevel_def algebra_simps)

lemma totalXp_mono: "a \<le> b \<Longrightarrow> totalXpForLevel a \<le> totalXpForLevel b"
proof -
  assume "a \<le> b"
  have "50 * a * (a - 1) \<le> 50 * b * (b - 1)" if "1 < a"
  proof -
    have "a * (a - 1) \<le> b * (b - 1)" using \<open>a \<le> b\<close> that by (intro mult_mono) auto
    then show ?thesis by (simp add: mult.assoc)
  qed
  with \<open>a \<le> b\<close> show ?thesis by (auto simp: totalXpForLevel_def)
qed

lemma le_sqrt_iff: "0 \<le> a \<Longrightarrow> a \<le> sqrt b \<longleftrightarrow> a\<^sup>2 \<le> b" for a b :: real
  by (metis real_le_rsqrt real_sqrt_le_iff real_sqrt_unique)

text \<open>The quadratic inequality the closed form solves.\<close>

lemma sqrt_level_le:
  assumes "1 \<le> L" "0 \<le> xp"
  shows "real_of_int L \<le> (50 + sqrt (2500 + 200 * real_of_int xp)) / 100
     \<longleftrightarrow> 50 * L * (L - 1) \<le> xp"
proof -
  have "real_of_int L \<le> (50 + sqrt (2500 + 200 * real_of_int xp)) / 100
      \<longleftrightarrow> 100 * real_of_int L - 50 \<le> sqrt (2500 + 200 * real_of_int xp)"
    by (auto simp: field_simps)
  also have "\<dots> \<longleftrightarrow> (100 * real_of_int L - 50)\<^sup>2 \<le> 2500 + 200 * real_of_int xp"
    using assms(1) by (subst le_sqrt_iff) auto
  also have "(100 * real_of_int L - 50)\<^sup>2 = 2500 + 200 * real_of_int (50 * L * (L - 1))"
    by (simp add: power2_eq_square algebra_simps)
  also have "\<dots> \<le> 2500 + 200 * real_of_int xp
      \<longleftrightarrow> real_of_int (50 * L * (L - 1)) \<le> real_of_int xp"
    by linarith
  also have "\<dots> \<longleftrightarrow> 50 * L * (L - 1) \<le> xp" by (rule of_int_le_iff)
  finally show ?thesis .
qed

lemma levelFromXp_ge_iff:
  assumes "1 < L"
  shows "L \<le> levelFromXp xp \<longleftrightarrow> totalXpForLevel L \<le> xp"
proof (cases "xp \<le> 0")
  case True
  have "0 < 50 * L * (L - 1)" using assms by auto
  with True have "\<not> 50 * L * (L - 1) \<le> xp" by linarith
  with True assms show ?thesis by (simp add: levelFromXp_def totalXpForLevel_def)
next
  case False
  then show ?thesis
    using assms sqrt_level_le [of L xp]
    by (auto simp: levelFromXp_def totalXpForLevel_def le_floor_iff le_max_iff_disj)
qed

lemma levelFromXp_ge_1: "1 \<le> levelFromXp xp"
  by (simp add: levelFromXp_def)

lemma levelFromXp_bounds:
  assumes "0 \<le> xp"
  shows "totalXpForLevel (levelFromXp xp) \<le> xp" "xp < totalXpForLevel (levelFromXp xp + 1)"
proof -
  let ?L = "levelFromXp xp"
  show "totalXpForLevel ?L \<le> xp"
  proof (cases "?L = 1")
    case True
    then show ?thesis using assms by (simp add: totalXpForLevel_def)
  next
    case False
    then have "1 < ?L" using levelFromXp_ge_1 [of xp] by linarith
    then show ?thesis using levelFromXp_ge_iff by blast
  qed
  have "\<not> ?L + 1 \<le> levelFromXp xp" by simp
  then show "xp < totalXpForLevel (?L + 1)"
    using levelFromXp_ge_iff [of "?L + 1" xp] levelFromXp_ge_1 [of xp] by linarith
qed

text \<open>The level is the only one whose band contains the experience.\<close>

lemma levelFromXp_unique:
  assumes "1 \<le> L" "totalXpForLevel L \<le> xp" "xp < totalXpForLevel (L + 1)"
  shows "levelFromXp xp = L"
proof -
  have "\<not> L + 1 \<le> levelFromXp xp"
    using levelFromXp_ge_iff [of "L + 1" xp] assms by linarith
  moreover have "L \<le> levelFromXp xp"
    using levelFromXp_ge_iff [of L xp] assms levelFromXp_ge_1 [of xp] by (cases "L = 1") auto
  ultimately show ?thesis by linarith
qed

lemma levelFromXp_total: "1 \<le> L \<Longrightarrow> levelFromXp (totalXpForLevel L) = L"
  by (rule levelFromXp_unique) (simp_all add: totalXp_step)

lemma levelFromXp_mono: "x \<le> y \<Longrightarrow> levelFromXp x \<le> levelFromXp y"
  using levelFromXp_ge_iff [of "levelFromXp x" y] levelFromXp_ge_iff [of "levelFromXp x" x]
    levelFromXp_ge_1 [of x] levelFromXp_ge_1 [of y]
  by (cases "levelFromXp x = 1") auto

section \<open>Cosmetic brackets\<close>

text \<open>
  Names are given without their Vietnamese diacritics. \<open>maxLevel\<close> of the top bracket is
  \<open>Number.MAX_SAFE_INTEGER\<close>.
\<close>

record LevelDef =
  ld_name :: string
  ld_shape :: string
  ld_color :: string
  ld_colorSecondary :: string
  ld_glow :: bool

definition level_def :: "string \<Rightarrow> string \<Rightarrow> string \<Rightarrow> string \<Rightarrow> bool \<Rightarrow> LevelDef" where
  "level_def n sh c c2 g =
     \<lparr>ld_name = n, ld_shape = sh, ld_color = c, ld_colorSecondary = c2, ld_glow = g\<rparr>"

definition LEVEL_BRACKETS :: "LevelDef list" where
  "LEVEL_BRACKETS =
    [level_def ''Tan Binh'' ''circle'' ''#9CA3AF'' ''#D1D5DB'' False,
     level_def ''Hoc Vien'' ''circle'' ''#22C55E'' ''#86EFAC'' False,
     level_def ''Chien Binh'' ''square'' ''#14B8A6'' ''#5EEAD4'' False,
     level_def ''Ky Si'' ''square'' ''#3B82F6'' ''#93C5FD'' False,
     level_def ''Hiep Si'' ''shield'' ''#6366F1'' ''#A5B4FC'' False,
     level_def ''Tinh Anh'' ''shield'' ''#8B5CF6'' ''#C4B5FD'' True,
     level_def ''Cao Thu'' ''hexagon'' ''#A855F7'' ''#D8B4FE'' True,
     level_def ''Bac Thay'' ''hexagon'' ''#EC4899'' ''#F9A8D4'' True,
     level_def ''Huyen Thoai'' ''star'' ''#F59E0B'' ''#FCD34D'' True,
     level_def ''A Than'' ''star'' ''#EF4444'' ''#FCA5A5'' True,
     level_def ''Than Thoai'' ''crown'' ''#F43F5E'' ''#FECDD3'' True]"

record LevelTierStyle =
  ls_bracket :: nat
  ls_minLevel :: int
  ls_maxLevel :: int
  ls_def :: LevelDef

definition levelStyle :: "int \<Rightarrow> LevelTierStyle" where
  "levelStyle level =
     (let L = max 1 level;
          bracket = min (nat ((L - 1) div 10)) (length LEVEL_BRACKETS - 1);
          isTop = (bracket = length LEVEL_BRACKETS - 1)
      in \<lparr>ls_bracket = bracket,
          ls_minLevel = int bracket * 10 + 1,
          ls_maxLevel = (if isTop then 2 ^ 53 - 1 else (int bracket + 1) * 10),
          ls_def = LEVEL_BRACKETS ! bracket\<rparr>)"

lemma length_LEVEL_BRACKETS [simp]: "length LEVEL_BRACKETS = 11"
  by (simp add: LEVEL_BRACKETS_def)

lemma levelStyle_contains:
  assumes "1 \<le> level" "level < 2 ^ 53"
  shows "ls_minLevel (levelStyle level) \<le> level \<and> level \<le> ls_maxLevel (levelStyle level)
     \<and> ls_bracket (levelStyle level) < length LEVEL_BRACKETS"
  using assms by (auto simp: levelStyle_def Let_def min_def max_def)

section \<open>Progress inside a level\<close>

record LevelProgress =
  lp_level :: int
  lp_xp :: int
  lp_xpIntoLevel :: int
  lp_xpForNextLevel :: int
  lp_xpToNextLevel :: int
  lp_progress :: rat
  lp_style :: LevelTierStyle

definition levelProgress :: "int \<Rightarrow> LevelProgress" where
  "levelProgress xp =
     (let safeXp = max 0 xp;
          level = levelFromXp safeXp;
          base = totalXpForLevel level;
          nxt = totalXpForLevel (level + 1);
          span = nxt - base;
          into = safeXp - base
      in \<lparr>lp_level = level, lp_xp = safeXp, lp_xpIntoLevel = into, lp_xpForNextLevel = span,
          lp_xpToNextLevel = max 0 (nxt - safeXp),
          lp_progress = (if span > 0 then min 1 (of_int into / of_int span) else 0),
          lp_style = levelStyle level\<rparr>)"

lemma levelProgress_frame:
  "0 \<le> lp_xpIntoLevel (levelProgress xp)"
  "lp_xpIntoLevel (levelProgress xp) < lp_xpForNextLevel (levelProgress xp)"
  "lp_xpIntoLevel (levelProgress xp) + lp_xpToNextLevel (levelProgress xp)
     = lp_xpForNextLevel (levelProgress xp)"
  "lp_xpForNextLevel (levelProgress xp) = 100 * lp_level (levelProgress xp)"
  using levelFromXp_bounds [of "max 0 xp"] levelFromXp_ge_1 [of "max 0 xp"]
  by (simp_all add: levelProgress_def Let_def totalXp_step max_def split: if_splits)

end
