(* ===== verification/RankUtil.thy ===== *)
theory RankUtil
  imports Prelude
begin

text \<open>
  The rank ladder of \<open>src/leveling/rank.util.ts\<close>: tier and division of an amount of rank
  points, and the ladder index by which \<open>leveling.service.ts\<close> recognises a promotion.
  Display names are given without their Vietnamese diacritics.
\<close>

section \<open>Tiers\<close>

datatype RankTier =
    BRONZE | SILVER | GOLD | PLATINUM | DIAMOND
  | MASTER | GRANDMASTER | CHALLENGER

fun TIER_VN :: "RankTier \<Rightarrow> string" where
  "TIER_VN BRONZE = ''Dong''"
| "TIER_VN SILVER = ''Bac''"
| "TIER_VN GOLD = ''Vang''"
| "TIER_VN PLATINUM = ''Bach Kim''"
| "TIER_VN DIAMOND = ''Kim Cuong''"
| "TIER_VN MASTER = ''Cao Thu''"
| "TIER_VN GRANDMASTER = ''Dai Cao Thu''"
| "TIER_VN CHALLENGER = ''Thach Dau''"

record TierStyle =
  ts_shape :: string
  ts_color :: string
  ts_colorSecondary :: string
  ts_glow :: bool

definition tier_style :: "string \<Rightarrow> string \<Rightarrow> string \<Rightarrow> bool \<Rightarrow> TierStyle" where
  "tier_style sh c c2 g = \<lparr>ts_shape = sh, ts_color = c, ts_colorSecondary = c2, ts_glow = g\<rparr>"

fun TIER_STYLE :: "RankTier \<Rightarrow> TierStyle" where
  "TIER_STYLE BRONZE = tier_style ''shield'' ''#A16207'' ''#D6A45B'' False"
| "TIER_STYLE SILVER = tier_style ''shield'' ''#9CA3AF'' ''#E5E7EB'' False"
| "TIER_STYLE GOLD = tier_style ''shield'' ''#F59E0B'' ''#FCD34D'' False"
| "TIER_STYLE PLATINUM = tier_style ''gem'' ''#14B8A6'' ''#5EEAD4'' True"
| "TIER_STYLE DIAMOND = tier_style ''gem'' ''#38BDF8'' ''#BAE6FD'' True"
| "TIER_STYLE MASTER = tier_style ''crown'' ''#A855F7'' ''#D8B4FE'' True"
| "TIER_STYLE GRANDMASTER = tier_style ''crown'' ''#EF4444'' ''#FCA5A5'' True"
| "TIER_STYLE CHALLENGER = tier_style ''wings'' ''#F43F5E'' ''#FDE68A'' True"

definition ROMAN :: "string list" where
  "ROMAN = ['''', ''I'', ''II'', ''III'', ''IV'']"

definition TIERED :: "RankTier list" where
  "TIERED = [BRONZE, SILVER, GOLD, PLATINUM, DIAMOND]"

abbreviation (input) "DIVISION_RP \<equiv> (100 :: int)"
abbreviation (input) "DIVISIONS \<equiv> (4 :: int)"
abbreviation (input) "TIER_RP \<equiv> (400 :: int)"
abbreviation (input) "TIERED_RP \<equiv> (2000 :: int)"
abbreviation (input) "APEX_BAND \<equiv> (500 :: int)"

record RankInfo =
  rk_tier :: RankTier
  rk_tierName :: string
  rk_tierIndex :: int
  rk_division :: int
  rk_divisionLabel :: string
  rk_label :: string
  rk_rp :: int
  rk_rpIntoDivision :: int
  rk_rpForNextStep :: int
  rk_rpToNextStep :: int
  rk_progress :: rat
  rk_isApex :: bool
  rk_style :: TierStyle

definition apex :: "RankTier \<Rightarrow> int \<Rightarrow> int \<Rightarrow> int \<Rightarrow> int \<Rightarrow> RankInfo" where
  "apex tier tierIndex rp intoBand band =
     \<lparr>rk_tier = tier, rk_tierName = TIER_VN tier, rk_tierIndex = tierIndex,
      rk_division = 0, rk_divisionLabel = '''', rk_label = TIER_VN tier, rk_rp = rp,
      rk_rpIntoDivision = intoBand, rk_rpForNextStep = band,
      rk_rpToNextStep = (if band > 0 then max 0 (band - intoBand) else 0),
      rk_progress = (if band > 0 then min 1 (of_int intoBand / of_int band) else 1),
      rk_isApex = True, rk_style = TIER_STYLE tier\<rparr>"

definition rankFromRp :: "int \<Rightarrow> RankInfo" where
  "rankFromRp rpInput =
     (let rp = max 0 rpInput in
      if rp < TIERED_RP then
        (let tierIndex = rp div TIER_RP;
             tier = TIERED ! nat tierIndex;
             rpInTier = rp - tierIndex * TIER_RP;
             divFromBottom = rpInTier div DIVISION_RP;
             division = DIVISIONS - divFromBottom;
             rpInto = rpInTier - divFromBottom * DIVISION_RP
         in \<lparr>rk_tier = tier, rk_tierName = TIER_VN tier, rk_tierIndex = tierIndex,
             rk_division = division, rk_divisionLabel = ROMAN ! nat division,
             rk_label = TIER_VN tier @ '' '' @ ROMAN ! nat division, rk_rp = rp,
             rk_rpIntoDivision = rpInto, rk_rpForNextStep = DIVISION_RP,
             rk_rpToNextStep = DIVISION_RP - rpInto,
             rk_progress = of_int rpInto / of_int DIVISION_RP,
             rk_isApex = False, rk_style = TIER_STYLE tier\<rparr>)
      else
        (let apexRp = rp - TIERED_RP in
         if apexRp < APEX_BAND then apex MASTER (int (length TIERED)) rp apexRp APEX_BAND
         else if apexRp < APEX_BAND * 2 then
           apex GRANDMASTER (int (length TIERED) + 1) rp (apexRp - APEX_BAND) APEX_BAND
         else apex CHALLENGER (int (length TIERED) + 2) rp (apexRp - APEX_BAND * 2) 0))"

text \<open>The ladder index of \<open>addRankPoints\<close> in \<open>leveling.service.ts\<close>.\<close>

definition ladder :: "RankInfo \<Rightarrow> int" where
  "ladder r = rk_tierIndex r * 1000 + (if rk_isApex r then rk_rp r else (4 - rk_division r) * 100)"

section \<open>The ladder decodes and orders rank points\<close>

lemma length_TIERED [simp]: "length TIERED = 5"
  by (simp add: TIERED_def)

lemmas rank_defs = rankFromRp_def apex_def ladder_def Let_def

lemma division_digit: "0 \<le> rp mod 400 div (100 :: int)" "rp mod 400 div (100 :: int) \<le> 3" for rp :: int
proof -
  have *: "0 \<le> rp mod 400" "rp mod 400 < 400" by simp_all
  show "0 \<le> rp mod 400 div (100 :: int)" using * by (simp add: pos_imp_zdiv_nonneg_iff)
  show "rp mod 400 div (100 :: int) \<le> 3" using zdiv_mono1 [of "rp mod 400" 399 100] * by simp
qed

text \<open>Below the apex the tier, the division and the points into it are the digits of the points.\<close>

lemma rank_fields:
  assumes "0 \<le> rp" "rp < TIERED_RP"
  shows "rk_isApex (rankFromRp rp) = False" "rk_tierIndex (rankFromRp rp) = rp div 400"
    "rk_division (rankFromRp rp) = 4 - rp mod 400 div 100"
    "rk_rpIntoDivision (rankFromRp rp) = rp mod 400 mod 100"
    "rk_label (rankFromRp rp)
       = TIER_VN (TIERED ! nat (rp div 400)) @ '' '' @ ROMAN ! nat (4 - rp mod 400 div 100)"
  using assms by (simp_all add: rank_defs minus_div_mult_eq_mod)

lemma rankFromRp_tiered:
  assumes "0 \<le> rp" "rp < TIERED_RP"
  shows "rk_tierIndex (rankFromRp rp) \<in> {0..4}" "rk_division (rankFromRp rp) \<in> {1..4}"
    "rk_rpIntoDivision (rankFromRp rp) \<in> {0..<100}"
    "rp = 400 * rk_tierIndex (rankFromRp rp) + 100 * (4 - rk_division (rankFromRp rp))
       + rk_rpIntoDivision (rankFromRp rp)"
  using assms division_digit [of rp] zdiv_mono1 [of rp 1999 400]
  by (simp_all add: rank_fields pos_imp_zdiv_nonneg_iff)

lemma rankFromRp_apex:
  assumes "TIERED_RP \<le> rp"
  shows "rk_isApex (rankFromRp rp)" "rk_tierIndex (rankFromRp rp) \<in> {5..7}"
    "rk_rp (rankFromRp rp) = rp" "rk_division (rankFromRp rp) = 0"
  using assms by (auto simp: rank_defs max_def)

lemma ladder_tiered:
  assumes "0 \<le> rp" "rp < TIERED_RP"
  shows "ladder (rankFromRp rp) = 1000 * (rp div 400) + 100 * (rp mod 400 div 100)"
  using assms by (simp add: ladder_def rank_fields)

lemma ladder_apex:
  assumes "TIERED_RP \<le> rp"
  shows "ladder (rankFromRp rp)
     = 1000 * (if rp < 2500 then 5 else if rp < 3000 then 6 else 7) + rp"
  using assms by (auto simp: rank_defs max_def)

lemma digits_unique:
  fixes x y x' y' :: int
  assumes "1000 * x + 100 * y = 1000 * x' + 100 * y'" "0 \<le> y" "y \<le> 3" "0 \<le> y'" "y' \<le> 3"
  shows "x = x' \<and> y = y'"
proof -
  have "10 * (x - x') = y' - y" using assms(1) by (simp add: algebra_simps)
  then have "x = x'" using assms(2-5) by presburger
  with assms(1) show ?thesis by simp
qed

lemma ladder_mono:
  assumes "0 \<le> a" "a \<le> b"
  shows "ladder (rankFromRp a) \<le> ladder (rankFromRp b)"
proof (cases "b < TIERED_RP")
  case True
  have "1000 * (a div 400) + 100 * (a mod 400 div 100) \<le> 1000 * (b div 400) + 100 * (b mod 400 div 100)"
  proof (cases "a div 400 = b div 400")
    case True
    then have "a mod 400 \<le> b mod 400"
      using assms(2) by (metis add_le_cancel_left mult_div_mod_eq)
    then have "a mod 400 div 100 \<le> b mod 400 div 100" by (rule zdiv_mono1) simp
    with True show ?thesis by linarith
  next
    case False
    then have "a div 400 + 1 \<le> b div 400"
      using zdiv_mono1 [OF assms(2), of 400] by linarith
    then show ?thesis using division_digit [of a] division_digit [of b] by linarith
  qed
  with True assms show ?thesis by (simp add: ladder_tiered)
next
  case False
  note b = ladder_apex [of b]
  show ?thesis
  proof (cases "a < TIERED_RP")
    case True
    have "a div 400 \<le> 4" using True by linarith
    then have "ladder (rankFromRp a) \<le> 4300"
      unfolding ladder_tiered [OF assms(1) True] using division_digit [of a] by linarith
    with False b show ?thesis by auto
  next
    case a: False
    then show ?thesis using False b ladder_apex [of a] assms by auto
  qed
qed

text \<open>
  Equal ladder indices below the apex are equal labels; in the apex tiers every point
  changes the index, although the label stays.
\<close>

lemma ladder_eq_tiered_label:
  assumes "0 \<le> a" "a < TIERED_RP" "0 \<le> b" "b < TIERED_RP"
    and "ladder (rankFromRp a) = ladder (rankFromRp b)"
  shows "rk_label (rankFromRp a) = rk_label (rankFromRp b)"
proof -
  note l = assms(5) [unfolded ladder_tiered [OF assms(1,2)] ladder_tiered [OF assms(3,4)]]
  have eqs: "a div 400 = b div 400 \<and> a mod 400 div 100 = b mod 400 div 100"
    by (rule digits_unique [OF l]) (rule division_digit)+
  then show ?thesis using assms(1-4) by (simp add: rank_fields)
qed

lemma ladder_less_iff_apex:
  assumes "TIERED_RP \<le> a" "TIERED_RP \<le> b"
  shows "ladder (rankFromRp a) < ladder (rankFromRp b) \<longleftrightarrow> a < b"
  using assms by (auto simp: ladder_apex)

text \<open>The labels below the apex are all different.\<close>

lemma tier_labels_distinct:
  "distinct (map (\<lambda>(i, j). TIER_VN (TIERED ! i) @ '' '' @ ROMAN ! j) (List.product [0..<5] [1..<5]))"
  by code_simp

lemma tier_label_inj:
  assumes "i < 5" "i' < 5" "j \<in> {1..4}" "j' \<in> {1..4}"
    "TIER_VN (TIERED ! i) @ '' '' @ ROMAN ! j = TIER_VN (TIERED ! i') @ '' '' @ ROMAN ! j'"
  shows "i = i' \<and> j = j'"
proof -
  have "inj_on (\<lambda>(i, j). TIER_VN (TIERED ! i) @ '' '' @ ROMAN ! j) (set (List.product [0..<5] [1..<5]))"
    using tier_labels_distinct distinct_map by blast
  from inj_onD [OF this, of "(i, j)" "(i', j')"] show ?thesis using assms by auto
qed

lemma tiered_label_eq_iff:
  assumes "0 \<le> a" "a < TIERED_RP" "0 \<le> b" "b < TIERED_RP"
  shows "rk_label (rankFromRp a) = rk_label (rankFromRp b)
     \<longleftrightarrow> ladder (rankFromRp a) = ladder (rankFromRp b)"
proof
  assume eq: "rk_label (rankFromRp a) = rk_label (rankFromRp b)"
  have d: "nat (x div 400) < 5" "nat (4 - x mod 400 div 100) \<in> {1..4}" if "0 \<le> x" "x < TIERED_RP" for x
    using that division_digit [of x] zdiv_mono1 [of x 1999 400] by auto
  have "nat (a div 400) = nat (b div 400) \<and> nat (4 - a mod 400 div 100) = nat (4 - b mod 400 div 100)"
    by (rule tier_label_inj [OF d(1) d(1) d(2) d(2)])
       (use assms eq in \<open>simp_all add: rank_fields\<close>)
  then have "a div 400 = b div 400" "a mod 400 div 100 = b mod 400 div 100"
    using assms division_digit [of a] division_digit [of b]
    by (simp_all add: eq_nat_nat_iff pos_imp_zdiv_nonneg_iff)
  then show "ladder (rankFromRp a) = ladder (rankFromRp b)"
    using assms by (simp add: ladder_tiered)
qed (rule ladder_eq_tiered_label [OF assms])

end
