(* ===== verification/Users.thy ===== *)
theory Users
  imports Prelude Enums LevelUtil RankUtil "HOL-Library.Sublist"
begin

text \<open>
  The accounts of \<open>src/users/users.service.ts\<close> and the environment every handler runs in:
  the clock, the identifiers the database hands out and the random numbers
  \<open>Math.random\<close> draws. The state of every other component extends \<open>env_st\<close>.
\<close>

section \<open>State\<close>

record User =
  u_id :: oid
  username :: string
  email :: string
  passwordHash :: string
  displayName :: "string option"
  avatarUrl :: "string option"
  bio :: "string option"
  statusMessage :: "string option"
  balance :: int
  xp :: int
  level :: int
  rankPoints :: int
  status :: AccountStatus
  presence :: PresenceStatus
  desiredPresence :: PresenceStatus
  lastSeenAt :: "int option"
  isAdmin :: bool

text \<open>
  The memberships of servers are read here (to tell every server of a user) and written by the
  servers' service.
\<close>

record ServerMember =
  sm_id :: oid
  sm_serverId :: oid
  sm_userId :: oid
  sm_role :: MemberRole
  sm_nickname :: "string option"
  sm_joinedAt :: int

text \<open>The card of a profile change: the identity card with the two descriptions.\<close>

record UserCard =
  uc_id :: oid
  uc_username :: string
  uc_displayName :: "string option"
  uc_avatarUrl :: "string option"
  uc_level :: int
  uc_levelStyle :: LevelTierStyle
  uc_rank :: RankInfo

datatype user_event = User_updated UserCard "string option" "string option"

record env_st =
  clock :: int
  next_id :: oid
  rand :: "nat \<Rightarrow> rat"
  rand_pos :: nat
  users :: "User list"
  server_members :: "ServerMember list"
  user_log :: "(target \<times> user_event) list"

definition fresh_id :: "'a env_st_scheme \<Rightarrow> oid \<times> 'a env_st_scheme" where
  "fresh_id s = (next_id s, s\<lparr>next_id := Suc (next_id s)\<rparr>)"

definition draw :: "'a env_st_scheme \<Rightarrow> rat \<times> 'a env_st_scheme" where
  "draw s = (rand s (rand_pos s), s\<lparr>rand_pos := Suc (rand_pos s)\<rparr>)"

definition find_user :: "oid \<Rightarrow> 'a env_st_scheme \<Rightarrow> User option" where
  "find_user u s = List.find (\<lambda>d. u_id d = u) (users s)"

definition set_user :: "oid \<Rightarrow> (User \<Rightarrow> User) \<Rightarrow> 'a env_st_scheme \<Rightarrow> 'a env_st_scheme" where
  "set_user u f s = s\<lparr>users := updateOne (\<lambda>d. u_id d = u) f (users s)\<rparr>"

section \<open>Operations\<close>

text \<open>The fields a registration supplies; the schema's defaults fill the rest.\<close>

record NewUser =
  nu_username :: string
  nu_email :: string
  nu_passwordHash :: string
  nu_displayName :: "string option"
  nu_isAdmin :: bool

definition user_of :: "oid \<Rightarrow> NewUser \<Rightarrow> User" where
  "user_of i d =
     \<lparr>u_id = i, username = nu_username d, email = nu_email d, passwordHash = nu_passwordHash d,
      displayName = nu_displayName d, avatarUrl = None, bio = None, statusMessage = None,
      balance = 0, xp = 0, level = 1, rankPoints = 0, status = AS_ACTIVE, presence = OFFLINE,
      desiredPresence = ONLINE, lastSeenAt = None, isAdmin = nu_isAdmin d\<rparr>"

text \<open>The unique indexes on \<open>username\<close> and \<open>email\<close> refuse a duplicate.\<close>

definition create_user :: "NewUser \<Rightarrow> 'a env_st_scheme \<Rightarrow> (User, 'a env_st_scheme) outcome" where
  "create_user d s =
     (if \<exists>u \<in> set (users s). username u = nu_username d \<or> email u = nu_email d
      then throw (Conflict ''E11000 duplicate key'') s
      else let (i, s) = fresh_id s; u = user_of i d in return u (s\<lparr>users := users s @ [u]\<rparr>))"

definition findById :: "raw_id \<Rightarrow> 'a env_st_scheme \<Rightarrow> User option" where
  "findById r s = (case read_oid r of None \<Rightarrow> None | Some u \<Rightarrow> find_user u s)"

definition findByIdOrThrow :: "raw_id \<Rightarrow> 'a env_st_scheme \<Rightarrow> (User, 'a env_st_scheme) outcome" where
  "findByIdOrThrow r s =
     (case findById r s of None \<Rightarrow> throw (NotFound ''User not found'') s | Some u \<Rightarrow> return u s)"

definition findByEmail :: "string \<Rightarrow> 'a env_st_scheme \<Rightarrow> User option" where
  "findByEmail e s = List.find (\<lambda>d. email d = toLowerCase e) (users s)"

definition findByUsername :: "string \<Rightarrow> 'a env_st_scheme \<Rightarrow> User option" where
  "findByUsername n s = List.find (\<lambda>d. username d = n) (users s)"

definition findByIdentifier :: "string \<Rightarrow> 'a env_st_scheme \<Rightarrow> User option" where
  "findByIdentifier i s =
     List.find (if CHR ''@'' \<in> set i then (\<lambda>d. email d = toLowerCase i)
                else (\<lambda>d. username d = i)) (users s)"

definition toCard :: "User \<Rightarrow> UserCard" where
  "toCard u = \<lparr>uc_id = u_id u, uc_username = username u, uc_displayName = displayName u,
     uc_avatarUrl = avatarUrl u, uc_level = level u, uc_levelStyle = levelStyle (level u),
     uc_rank = rankFromRp (rankPoints u)\<rparr>"

text \<open>Every server of the user hears of the change, and the user's own devices.\<close>

definition serversOf :: "oid \<Rightarrow> 'a env_st_scheme \<Rightarrow> oid list" where
  "serversOf u s = map sm_serverId (filter (\<lambda>m. sm_userId m = u) (server_members s))"

definition broadcastProfileUpdate :: "User \<Rightarrow> 'a env_st_scheme \<Rightarrow> 'a env_st_scheme" where
  "broadcastProfileUpdate d s =
     (let e = User_updated (toCard d) (bio d) (statusMessage d)
      in s\<lparr>user_log := user_log s @ map (\<lambda>sid. (ServerRoom sid, e)) (serversOf (u_id d) s)
           @ [(UserRoom (Hex (u_id d)), e)]\<rparr>)"

text \<open>A field absent from the request stays as it is.\<close>

record UpdateProfileDto =
  up_displayName :: "string option"
  up_avatarUrl :: "string option"
  up_bio :: "string option"
  up_statusMessage :: "string option"

definition updateProfile :: "oid \<Rightarrow> UpdateProfileDto \<Rightarrow> 'a env_st_scheme \<Rightarrow> (User, 'a env_st_scheme) outcome" where
  "updateProfile u dto s =
     (let upd = (\<lambda>d. d\<lparr>
        displayName := (case up_displayName dto of None \<Rightarrow> displayName d | x \<Rightarrow> x),
        avatarUrl := (case up_avatarUrl dto of None \<Rightarrow> avatarUrl d | x \<Rightarrow> x),
        bio := (case up_bio dto of None \<Rightarrow> bio d | x \<Rightarrow> x),
        statusMessage := (case up_statusMessage dto of None \<Rightarrow> statusMessage d | x \<Rightarrow> x)\<rparr>);
        s' = set_user u upd s
      in case find_user u s' of None \<Rightarrow> throw (NotFound ''User not found'') s
         | Some d \<Rightarrow> return d (broadcastProfileUpdate d s'))"

definition setPresence :: "oid \<Rightarrow> PresenceStatus \<Rightarrow> 'a env_st_scheme \<Rightarrow> PresenceStatus \<times> 'a env_st_scheme" where
  "setPresence u p s =
     (p, set_user u (\<lambda>d. d\<lparr>presence := p, desiredPresence := p,
           lastSeenAt := (if p = OFFLINE then Some (clock s) else lastSeenAt d)\<rparr>) s)"

definition goOnline :: "oid \<Rightarrow> 'a env_st_scheme \<Rightarrow> PresenceStatus \<times> 'a env_st_scheme" where
  "goOnline u s =
     (let desired = (case find_user u s of None \<Rightarrow> ONLINE | Some d \<Rightarrow> desiredPresence d);
          effective = (if desired = OFFLINE then ONLINE else desired)
      in (effective, set_user u (\<lambda>d. d\<lparr>presence := effective\<rparr>) s))"

definition goOffline :: "oid \<Rightarrow> 'a env_st_scheme \<Rightarrow> 'a env_st_scheme" where
  "goOffline u s = set_user u (\<lambda>d. d\<lparr>presence := OFFLINE, lastSeenAt := Some (clock s)\<rparr>) s"

definition setStatus :: "oid \<Rightarrow> AccountStatus \<Rightarrow> 'a env_st_scheme \<Rightarrow> (User, 'a env_st_scheme) outcome" where
  "setStatus u st s =
     (let s' = set_user u (\<lambda>d. d\<lparr>status := st\<rparr>) s
      in case find_user u s' of None \<Rightarrow> throw (NotFound ''User not found'') s
         | Some d \<Rightarrow> return d s')"

definition setPasswordHash :: "oid \<Rightarrow> string \<Rightarrow> 'a env_st_scheme \<Rightarrow> 'a env_st_scheme" where
  "setPasswordHash u h s = set_user u (\<lambda>d. d\<lparr>passwordHash := h\<rparr>) s"

text \<open>
  The pattern is the query with every metacharacter escaped, matched anywhere and without
  regard to case: the query is a substring of the name.
\<close>

definition search_users :: "string \<Rightarrow> nat \<Rightarrow> 'a env_st_scheme \<Rightarrow> User list" where
  "search_users q n s =
     take n (filter (\<lambda>d. sublist (toLowerCase q) (toLowerCase (username d))) (users s))"

fun status_name :: "AccountStatus \<Rightarrow> string" where
  "status_name AS_ACTIVE = ''ACTIVE''"
| "status_name BANNED = ''BANNED''"
| "status_name SUSPENDED = ''SUSPENDED''"
| "status_name AS_PENDING = ''PENDING''"

definition ensureActive :: "raw_id \<Rightarrow> 'a env_st_scheme \<Rightarrow> (User, 'a env_st_scheme) outcome" where
  "ensureActive r = await (findByIdOrThrow r)
     (\<lambda>u s. if status u \<noteq> AS_ACTIVE then throw (BadRequest (''Account is '' @ status_name (status u))) s
             else return u s)"

section \<open>Projections\<close>

record UserPublic = UserCard +
  pu_bio :: "string option"
  pu_statusMessage :: "string option"
  pu_presence :: PresenceStatus
  pu_status :: AccountStatus
  pu_xp :: int
  pu_rankPoints :: int
  pu_lastSeenAt :: "int option"

definition toPublic :: "User \<Rightarrow> UserPublic" where
  "toPublic u = \<lparr>uc_id = u_id u, uc_username = username u, uc_displayName = displayName u,
     uc_avatarUrl = avatarUrl u, uc_level = level u, uc_levelStyle = levelStyle (level u),
     uc_rank = rankFromRp (rankPoints u), pu_bio = bio u, pu_statusMessage = statusMessage u,
     pu_presence = presence u, pu_status = status u, pu_xp = xp u,
     pu_rankPoints = rankPoints u, pu_lastSeenAt = lastSeenAt u\<rparr>"

text \<open>The cards of the valid identifiers that name a user, keyed by the printed identifier.\<close>

definition getCards :: "raw_id list \<Rightarrow> 'a env_st_scheme \<Rightarrow> (oid \<times> UserCard) list" where
  "getCards ids s =
     (let os = List.map_filter read_oid ids
      in map (\<lambda>u. (u_id u, toCard u)) (filter (\<lambda>u. u_id u \<in> set os) (users s)))"

section \<open>Invariant and laws\<close>

text \<open>
  Accounts have distinct identifiers below the counter, distinct names and addresses, and
  no amount is negative.
\<close>

definition user_ok :: "User \<Rightarrow> bool" where
  "user_ok u \<longleftrightarrow> 0 \<le> balance u \<and> 0 \<le> xp u \<and> 0 \<le> rankPoints u"

definition users_ok :: "'a env_st_scheme \<Rightarrow> bool" where
  "users_ok s \<longleftrightarrow> distinct (map u_id (users s)) \<and> (\<forall>u \<in> set (users s). u_id u < next_id s)
     \<and> distinct (map username (users s)) \<and> distinct (map email (users s))
     \<and> (\<forall>u \<in> set (users s). user_ok u)"

lemma find_user_Some: "find_user u s = Some d \<Longrightarrow> d \<in> set (users s) \<and> u_id d = u"
  by (auto simp: find_user_def dest: find_Some_iff_mem)

lemma find_set_user:
  assumes "\<And>d. u_id (f d) = u_id d"
  shows "find_user v (set_user u f s)
     = (if v = u then map_option f (find_user v s) else find_user v s)"
proof (cases "v = u")
  case True
  then show ?thesis using assms by (simp add: find_user_def set_user_def find_updateOne_same)
next
  case False
  have "List.find (\<lambda>d. u_id d = v) (updateOne (\<lambda>d. u_id d = u) f (users s))
      = List.find (\<lambda>d. u_id d = v) (users s)"
    by (rule find_updateOne_other) (use assms False in auto)
  with False show ?thesis by (simp add: find_user_def set_user_def)
qed

lemma set_user_frame [simp]:
  "next_id (set_user u f s) = next_id s" "clock (set_user u f s) = clock s"
  "rand (set_user u f s) = rand s" "rand_pos (set_user u f s) = rand_pos s"
  by (simp_all add: set_user_def)

lemma find_user_frame:
  "users s' = users s \<Longrightarrow> find_user u s' = find_user u s"
  by (simp add: find_user_def)

lemma set_user_ok:
  assumes "users_ok s" "\<And>d. u_id (f d) = u_id d" "\<And>d. username (f d) = username d"
    "\<And>d. email (f d) = email d" "\<And>d. find_user u s = Some d \<Longrightarrow> user_ok d \<Longrightarrow> user_ok (f d)"
  shows "users_ok (set_user u f s)"
proof -
  have keys: "map k (updateOne (\<lambda>d. u_id d = u) f (users s)) = map k (users s)"
    if "\<And>d. k (f d) = k d" for k :: "User \<Rightarrow> 'b"
    using that by (simp add: map_updateOne)
  have ids: "\<forall>d \<in> set (updateOne (\<lambda>d. u_id d = u) f (users s)). u_id d < next_id s"
    using assms(1,2) by (intro updateOne_all) (auto simp: users_ok_def)
  have found: "find_user u s = Some d" if "d \<in> set (users s)" "u_id d = u" for d
    using find_key_unique [of u_id "users s" d] that assms(1)
    by (simp add: users_ok_def find_user_def)
  have "\<forall>d \<in> set (updateOne (\<lambda>d. u_id d = u) f (users s)). user_ok d"
    using assms(1,5) found by (intro updateOne_all) (auto simp: users_ok_def)
  then show ?thesis
    using assms(1) ids by (simp add: users_ok_def set_user_def keys assms(2-4))
qed

lemma create_user_ok:
  assumes "users_ok s" "create_user d s = (r, t)"
  shows "users_ok t"
  using assms by (fastforce simp: create_user_def users_ok_def Let_def fresh_id_def user_of_def
      user_ok_def split: if_splits)

lemma ensureActive_iff:
  "ensureActive r s = (Inr u, t) \<longleftrightarrow> findById r s = Some u \<and> status u = AS_ACTIVE \<and> t = s"
  by (auto simp: ensureActive_def await_def findByIdOrThrow_def split: option.splits)

text \<open>
  The chosen presence survives a reconnect: after going offline and online again the user
  shows what was chosen, except that a chosen \<open>OFFLINE\<close> becomes \<open>ONLINE\<close>.
\<close>

lemma reconnect_presence:
  assumes "find_user u s = Some d"
  shows "fst (goOnline u (goOffline u (snd (setPresence u p s)))) = (if p = OFFLINE then ONLINE else p)"
    "\<exists>d'. find_user u (snd (goOnline u (goOffline u (snd (setPresence u p s))))) = Some d'
       \<and> presence d' = (if p = OFFLINE then ONLINE else p) \<and> desiredPresence d' = p"
  using assms by (simp_all add: goOnline_def goOffline_def setPresence_def Let_def find_set_user)

lemma getCards_lookup:
  assumes "users_ok s" "find_user u s = Some d" "r \<in> set ids" "read_oid r = Some u"
  shows "map_of (getCards ids s) u = Some (toCard d)"
proof -
  have d: "d \<in> set (users s)" "u_id d = u" using find_user_Some [OF assms(2)] by auto
  let ?us = "filter (\<lambda>x. u_id x \<in> set (List.map_filter read_oid ids)) (users s)"
  have "u \<in> set (List.map_filter read_oid ids)"
    using assms(3,4) by (force simp: List.map_filter_def)
  then have "(u, toCard d) \<in> set (map (\<lambda>x. (u_id x, toCard x)) ?us)" using d by auto
  moreover have "distinct (map fst (map (\<lambda>x. (u_id x, toCard x)) ?us))"
    using assms(1) by (simp add: users_ok_def comp_def distinct_map_filter)
  ultimately show ?thesis by (simp add: getCards_def Let_def)
qed

end
