(* ===== verification/Notifications.thy ===== *)
theory Notifications
  imports Users
begin

text \<open>
  The persistent notifications of \<open>src/notifications/notifications.service.ts\<close>. The
  payloads the rest of the program creates are the constructors of \<open>NotifPayload\<close>; the
  type string of the source is the constructor.
\<close>

section \<open>State\<close>

datatype NotifPayload =
    FRIEND_REQUEST oid oid
  | FRIEND_ACCEPTED oid
  | LEVEL_UP int
  | RANK_UP string
  | DM_MESSAGE oid oid oid string

record Notification =
  n_id :: oid
  n_userId :: oid
  n_payload :: NotifPayload
  n_readAt :: "int option"

record notif_st = env_st +
  notifs :: "Notification list"
  notif_log :: "(target \<times> Notification) list"

section \<open>Operations\<close>

text \<open>
  The identifier must read as one: \<open>new ObjectId\<close> throws otherwise. The document is stored under
  the identifier it reads as, the event goes to the room named by the string.
\<close>

definition notify :: "raw_id \<Rightarrow> NotifPayload \<Rightarrow> 'a notif_st_scheme \<Rightarrow> (Notification, 'a notif_st_scheme) outcome" where
  "notify r p s =
     (case read_oid r of
        None \<Rightarrow> throw (BadRequest ''BSONError'') s
      | Some u \<Rightarrow>
          let (i, s) = fresh_id s;
              doc = \<lparr>n_id = i, n_userId = u, n_payload = p, n_readAt = None\<rparr>
          in return doc (s\<lparr>notifs := notifs s @ [doc], notif_log := notif_log s @ [(UserRoom r, doc)]\<rparr>))"

definition list_notifs :: "oid \<Rightarrow> nat \<Rightarrow> nat \<Rightarrow> 'a notif_st_scheme \<Rightarrow> Notification PaginatedResult" where
  "list_notifs u p l s = find_page (\<lambda>d. n_userId d = u) p l (notifs s)"

definition unreadCount :: "oid \<Rightarrow> 'a notif_st_scheme \<Rightarrow> nat" where
  "unreadCount u s = length (filter (\<lambda>d. n_userId d = u \<and> n_readAt d = None) (notifs s))"

definition markRead_notif :: "oid \<Rightarrow> raw_id \<Rightarrow> 'a notif_st_scheme \<Rightarrow> 'a notif_st_scheme" where
  "markRead_notif u r s =
     (case read_oid r of None \<Rightarrow> s
      | Some i \<Rightarrow> s\<lparr>notifs := updateOne (\<lambda>d. n_id d = i \<and> n_userId d = u)
                                (\<lambda>d. d\<lparr>n_readAt := Some (clock s)\<rparr>) (notifs s)\<rparr>)"

definition markAllRead :: "oid \<Rightarrow> 'a notif_st_scheme \<Rightarrow> 'a notif_st_scheme" where
  "markAllRead u s =
     s\<lparr>notifs := map (\<lambda>d. if n_userId d = u \<and> n_readAt d = None
                           then d\<lparr>n_readAt := Some (clock s)\<rparr> else d) (notifs s)\<rparr>"

section \<open>Laws\<close>

text \<open>Creating a notification changes nothing but the notifications and the counter.\<close>

lemma notify_frame:
  assumes "notify r p s = (x, t)"
  shows "users t = users s" "clock t = clock s" "rand t = rand s" "rand_pos t = rand_pos s"
    "next_id s \<le> next_id t" "users_ok s \<Longrightarrow> users_ok t"
  using assms by (auto simp: notify_def fresh_id_def Let_def users_ok_def less_SucI split: option.splits)

lemma notify_more:
  assumes "notify r p s = (x, t)"
  shows "notif_st.more t = notif_st.more s"
  using assms by (auto simp: notify_def fresh_id_def Let_def split: option.splits)

lemma notify_unread:
  assumes "notify r p s = (Inr d, t)"
  shows "unreadCount u t = unreadCount u s + (if read_oid r = Some u then 1 else 0)"
  using assms by (auto simp: notify_def fresh_id_def Let_def unreadCount_def split: option.splits)

lemma unreadCount_markAllRead:
  "unreadCount u (markAllRead v s) = (if u = v then 0 else unreadCount u s)"
proof -
  let ?f = "\<lambda>d. if n_userId d = v \<and> n_readAt d = None then d\<lparr>n_readAt := Some (clock s)\<rparr> else d"
  let ?P = "\<lambda>d. n_userId d = u \<and> n_readAt d = None"
  have pt: "?P (?f d) \<longleftrightarrow> u \<noteq> v \<and> ?P d" for d :: Notification
    by (cases "u = v"; cases "n_userId d = v"; cases "n_readAt d = None") simp_all
  have "length (filter ?P (map ?f ds)) = (if u = v then 0 else length (filter ?P ds))"
    for ds :: "Notification list"
    unfolding filter_map comp_def pt by simp
  then show ?thesis by (simp add: unreadCount_def markAllRead_def)
qed

text \<open>A user reads only their own notifications: another user's count never changes.\<close>

lemma unreadCount_markRead_other:
  assumes "u \<noteq> v"
  shows "unreadCount u (markRead_notif v r s) = unreadCount u s"
proof -
  have "length (filter (\<lambda>d. n_userId d = u \<and> n_readAt d = None)
        (updateOne (\<lambda>d. n_id d = i \<and> n_userId d = v) (\<lambda>d. d\<lparr>n_readAt := Some c\<rparr>) ds))
      = length (filter (\<lambda>d. n_userId d = u \<and> n_readAt d = None) ds)"
    for i c and ds :: "Notification list"
    using assms by (induction ds) auto
  then show ?thesis by (simp add: unreadCount_def markRead_notif_def split: option.split)
qed

end
