(* ===== verification/Friends.thy ===== *)
theory Friends
  imports Notifications
begin

text \<open>
  The relationships of \<open>src/friends/friends.service.ts\<close>: requests, friendships and blocks
  between two users, one document per pair, with the notification and the realtime event of
  each operation. The caller's own identifier comes from the session and is valid; the
  other identifiers come from the request.
\<close>

section \<open>State\<close>

record Friend =
  f_id :: oid
  requesterId :: oid
  addresseeId :: oid
  f_state :: FriendState

datatype friend_event =
    Friend_request_received oid "UserPublic option" oid
  | Friend_accepted oid "UserPublic option" oid
  | Friend_declined oid "UserPublic option" raw_id
  | Friend_removed oid "UserPublic option"

record friends_st = notif_st +
  friends :: "Friend list"
  friend_log :: "(target \<times> friend_event) list"

section \<open>Operations\<close>

definition between :: "oid \<Rightarrow> oid \<Rightarrow> Friend \<Rightarrow> bool" where
  "between a b d \<longleftrightarrow> (requesterId d = a \<and> addresseeId d = b) \<or> (requesterId d = b \<and> addresseeId d = a)"

definition findBetween :: "oid \<Rightarrow> oid \<Rightarrow> 'a friends_st_scheme \<Rightarrow> Friend option" where
  "findBetween a b s = List.find (between a b) (friends s)"

definition findFriend :: "oid \<Rightarrow> 'a friends_st_scheme \<Rightarrow> Friend option" where
  "findFriend i s = List.find (\<lambda>d. f_id d = i) (friends s)"

text \<open>The string checked and read as an identifier (\<open>oid\<close> of the source).\<close>

definition with_oid :: "raw_id \<Rightarrow> (oid \<Rightarrow> 's \<Rightarrow> ('b, 's) outcome) \<Rightarrow> 's \<Rightarrow> ('b, 's) outcome" where
  "with_oid r k s = (case read_oid r of None \<Rightarrow> throw (BadRequest ''Invalid id'') s | Some i \<Rightarrow> k i s)"

definition emitFriendEvent :: "raw_id \<Rightarrow> (UserPublic option \<Rightarrow> friend_event) \<Rightarrow> oid
    \<Rightarrow> 'a friends_st_scheme \<Rightarrow> 'a friends_st_scheme" where
  "emitFriendEvent to_user ev from s =
     s\<lparr>friend_log := friend_log s @ [(UserRoom to_user, ev (map_option toPublic (find_user from s)))]\<rparr>"

definition insertFriend :: "oid \<Rightarrow> oid \<Rightarrow> FriendState \<Rightarrow> 'a friends_st_scheme \<Rightarrow> Friend \<times> 'a friends_st_scheme" where
  "insertFriend a b st s =
     (let (i, s) = fresh_id s;
          d = \<lparr>f_id = i, requesterId = a, addresseeId = b, f_state = st\<rparr>
      in (d, s\<lparr>friends := friends s @ [d]\<rparr>))"

definition saveFriend :: "Friend \<Rightarrow> 'a friends_st_scheme \<Rightarrow> 'a friends_st_scheme" where
  "saveFriend d s = s\<lparr>friends := updateOne (\<lambda>x. f_id x = f_id d) (\<lambda>_. d) (friends s)\<rparr>"

definition removeFriendDoc :: "oid \<Rightarrow> 'a friends_st_scheme \<Rightarrow> 'a friends_st_scheme" where
  "removeFriendDoc i s = s\<lparr>friends := deleteOne (\<lambda>x. f_id x = i) (friends s)\<rparr>"

definition listFriends :: "oid \<Rightarrow> 'a friends_st_scheme \<Rightarrow> UserPublic list" where
  "listFriends me s =
     (let docs = filter (\<lambda>d. f_state d = ACCEPTED \<and> (requesterId d = me \<or> addresseeId d = me)) (friends s);
          ids = map (\<lambda>d. if requesterId d = me then addresseeId d else requesterId d) docs
      in map toPublic (filter (\<lambda>u. u_id u \<in> set ids) (users s)))"

definition listRequests :: "oid \<Rightarrow> 'a friends_st_scheme \<Rightarrow> Friend list \<times> Friend list" where
  "listRequests me s =
     (filter (\<lambda>d. addresseeId d = me \<and> f_state d = FS_PENDING) (friends s),
      filter (\<lambda>d. requesterId d = me \<and> f_state d = FS_PENDING) (friends s))"

definition accept :: "oid \<Rightarrow> raw_id \<Rightarrow> 'a friends_st_scheme \<Rightarrow> (Friend, 'a friends_st_scheme) outcome" where
  "accept me requestId = with_oid requestId (\<lambda>i s.
     case findFriend i s of
       None \<Rightarrow> throw (NotFound ''Request not found'') s
     | Some d \<Rightarrow>
         if addresseeId d \<noteq> me then throw (NotFound ''Request not found'') s
         else if f_state d \<noteq> FS_PENDING then throw (BadRequest ''Request is not pending'') s
         else
           let d' = d\<lparr>f_state := ACCEPTED\<rparr>;
               s = saveFriend d' s
           in await (notify (Hex (requesterId d)) (FRIEND_ACCEPTED me))
                (\<lambda>_ s. return d' (emitFriendEvent (Hex (requesterId d))
                                    (\<lambda>a. Friend_accepted me a (f_id d)) me s)) s)"

definition sendRequest :: "oid \<Rightarrow> raw_id \<Rightarrow> 'a friends_st_scheme \<Rightarrow> (Friend, 'a friends_st_scheme) outcome" where
  "sendRequest me targetId s =
     (if targetId = Hex me then throw (BadRequest ''Cannot add yourself'') s
      else with_oid targetId (\<lambda>target. await (findByIdOrThrow (Hex target)) (\<lambda>_ s.
        let create = (\<lambda>s.
              let (d, s) = insertFriend me target FS_PENDING s
              in await (notify (Hex target) (FRIEND_REQUEST (f_id d) me))
                   (\<lambda>_ s. return d (emitFriendEvent (Hex target)
                            (\<lambda>a. Friend_request_received me a (f_id d)) me s)) s)
        in case findBetween me target s of
             None \<Rightarrow> create s
           | Some e \<Rightarrow>
               (case f_state e of
                  BLOCKED \<Rightarrow> throw (Forbidden ''Cannot send request'') s
                | ACCEPTED \<Rightarrow> throw (BadRequest ''Already friends'') s
                | FS_PENDING \<Rightarrow>
                    if addresseeId e = me then accept me (Hex (f_id e)) s
                    else throw (BadRequest ''Request already pending'') s))) s)"

definition decline :: "oid \<Rightarrow> raw_id \<Rightarrow> 'a friends_st_scheme \<Rightarrow> (unit, 'a friends_st_scheme) outcome" where
  "decline me requestId = with_oid requestId (\<lambda>i s.
     case findFriend i s of
       None \<Rightarrow> throw (NotFound ''Request not found'') s
     | Some d \<Rightarrow>
         if addresseeId d \<noteq> me then throw (NotFound ''Request not found'') s
         else if f_state d \<noteq> FS_PENDING then throw (BadRequest ''Request is not pending'') s
         else return () (emitFriendEvent (Hex (requesterId d))
                (\<lambda>a. Friend_declined me a requestId) me (removeFriendDoc (f_id d) s)))"

definition removeFriend :: "oid \<Rightarrow> raw_id \<Rightarrow> 'a friends_st_scheme \<Rightarrow> (unit, 'a friends_st_scheme) outcome" where
  "removeFriend me targetId = with_oid targetId (\<lambda>target s.
     case findBetween me target s of
       None \<Rightarrow> throw (NotFound ''Friendship not found'') s
     | Some d \<Rightarrow>
         if f_state d \<noteq> ACCEPTED then throw (NotFound ''Friendship not found'') s
         else return () (emitFriendEvent targetId (Friend_removed me) me (removeFriendDoc (f_id d) s)))"

definition block :: "oid \<Rightarrow> raw_id \<Rightarrow> 'a friends_st_scheme \<Rightarrow> (Friend, 'a friends_st_scheme) outcome" where
  "block me targetId s =
     (if targetId = Hex me then throw (BadRequest ''Cannot block yourself'') s
      else with_oid targetId (\<lambda>target. await (findByIdOrThrow (Hex target)) (\<lambda>_ s.
        case findBetween me target s of
          Some e \<Rightarrow>
            let d = e\<lparr>requesterId := me, addresseeId := target, f_state := BLOCKED\<rparr>
            in return d (saveFriend d s)
        | None \<Rightarrow> (let (d, s) = insertFriend me target BLOCKED s in return d s))) s)"

definition unblock :: "oid \<Rightarrow> raw_id \<Rightarrow> 'a friends_st_scheme \<Rightarrow> (unit, 'a friends_st_scheme) outcome" where
  "unblock me targetId = with_oid targetId (\<lambda>target s.
     case List.find (\<lambda>d. requesterId d = me \<and> addresseeId d = target \<and> f_state d = BLOCKED) (friends s) of
       None \<Rightarrow> throw (NotFound ''Block not found'') s
     | Some d \<Rightarrow> return () (removeFriendDoc (f_id d) s))"

text \<open>\<open>getStatus\<close>; \<open>getFriendStatus\<close> of \<open>users.service.ts\<close> is the same without the errors.\<close>

datatype FriendStatus =
    ST_NONE | FRIENDS | REQUEST_SENT | REQUEST_RECEIVED | ST_BLOCKED | BLOCKED_BY | SELF

definition status_of_doc :: "oid \<Rightarrow> Friend \<Rightarrow> FriendStatus \<times> oid option" where
  "status_of_doc me d =
     (case f_state d of
        ACCEPTED \<Rightarrow> (FRIENDS, Some (f_id d))
      | FS_PENDING \<Rightarrow> (if requesterId d = me then REQUEST_SENT else REQUEST_RECEIVED, Some (f_id d))
      | BLOCKED \<Rightarrow> (if requesterId d = me then ST_BLOCKED else BLOCKED_BY, Some (f_id d)))"

definition getStatus :: "oid \<Rightarrow> raw_id \<Rightarrow> 'a friends_st_scheme
    \<Rightarrow> (FriendStatus \<times> oid option, 'a friends_st_scheme) outcome" where
  "getStatus me targetId s =
     (if targetId = Hex me then return (SELF, None) s
      else with_oid targetId (\<lambda>target s.
        case findBetween me target s of
          None \<Rightarrow> return (ST_NONE, None) s
        | Some d \<Rightarrow> return (status_of_doc me d) s) s)"

definition getFriendStatus :: "raw_id \<Rightarrow> raw_id \<Rightarrow> 'a friends_st_scheme \<Rightarrow> FriendStatus \<times> oid option" where
  "getFriendStatus viewerId targetId s =
     (if viewerId = targetId then (SELF, None)
      else case (read_oid viewerId, read_oid targetId) of
        (Some me, Some other) \<Rightarrow>
          (case findBetween me other s of None \<Rightarrow> (ST_NONE, None) | Some d \<Rightarrow> status_of_doc me d)
      | _ \<Rightarrow> (ST_NONE, None))"

section \<open>Invariant\<close>

text \<open>
  Documents have distinct identifiers below the counter and there is at most one document
  for each unordered pair of users.
\<close>

definition f_pair :: "Friend \<Rightarrow> oid set" where
  "f_pair d = {requesterId d, addresseeId d}"

definition friends_ok :: "'a friends_st_scheme \<Rightarrow> bool" where
  "friends_ok s \<longleftrightarrow> distinct (map f_id (friends s)) \<and> (\<forall>d \<in> set (friends s). f_id d < next_id s)
     \<and> distinct (map f_pair (friends s))"

lemma between_pair: "between a b d \<longleftrightarrow> f_pair d = {a, b}"
  by (auto simp: between_def f_pair_def doubleton_eq_iff)

lemma findBetween_sym: "findBetween a b s = findBetween b a s"
  by (simp add: findBetween_def between_pair [abs_def] insert_commute)

lemma findBetween_None: "findBetween a b s = None \<longleftrightarrow> {a, b} \<notin> f_pair ` set (friends s)"
  by (auto simp: findBetween_def find_None_iff_all between_pair)

lemma findBetween_Some:
  "findBetween a b s = Some d \<Longrightarrow> d \<in> set (friends s) \<and> f_pair d = {a, b}"
  by (auto simp: findBetween_def between_pair dest: find_Some_iff_mem)

lemma findBetween_unique:
  assumes "friends_ok s" "d \<in> set (friends s)" "f_pair d = {a, b}"
  shows "findBetween a b s = Some d"
  using find_key_unique [of f_pair "friends s" d] assms
  by (simp add: friends_ok_def findBetween_def between_pair cong: find_cong)

lemma findFriend_Some: "findFriend i s = Some d \<Longrightarrow> d \<in> set (friends s) \<and> f_id d = i"
  by (auto simp: findFriend_def dest: find_Some_iff_mem)

lemma friends_ok_frame:
  "\<lbrakk>friends_ok s; friends t = friends s; next_id s \<le> next_id t\<rbrakk> \<Longrightarrow> friends_ok t"
  by (auto simp: friends_ok_def)

lemma emit_frame [simp]:
  "friends (emitFriendEvent r ev u s) = friends s" "next_id (emitFriendEvent r ev u s) = next_id s"
  "users (emitFriendEvent r ev u s) = users s"
  by (simp_all add: emitFriendEvent_def)

lemma notify_friends:
  assumes "notify r p s = (x, t)"
  shows "friends t = friends s"
  using assms by (auto simp: notify_def fresh_id_def Let_def split: option.splits)

lemma insertFriend_ok:
  assumes "friends_ok s" "findBetween a b s = None" "insertFriend a b st s = (d, t)"
  shows "friends_ok t" "friends t = friends s @ [d]"
    "d = \<lparr>f_id = next_id s, requesterId = a, addresseeId = b, f_state = st\<rparr>" "users t = users s"
  using assms by (auto simp: insertFriend_def fresh_id_def Let_def friends_ok_def findBetween_None f_pair_def
      intro: less_SucI) (use nat_less_le in fastforce)+

lemma saveFriend_ok:
  assumes "friends_ok s" "findFriend (f_id d) s = Some e" "f_pair d = f_pair e"
  shows "friends_ok (saveFriend d s)"
proof -
  have ids: "map f_id (updateOne (\<lambda>x. f_id x = f_id d) (\<lambda>_. d) (friends s)) = map f_id (friends s)"
    by (rule map_updateOne) simp
  have uniq: "x = e" if "x \<in> set (friends s)" "f_id x = f_id d" for x
    using find_key_unique [of f_id "friends s" x] that assms(1,2)
    by (simp add: friends_ok_def findFriend_def)
  have "map f_pair (updateOne (\<lambda>x. f_id x = f_id d) (\<lambda>_. d) ds) = map f_pair ds"
    if "set ds \<subseteq> set (friends s)" for ds
    using that by (induction ds) (auto simp: assms(3) dest: uniq)
  moreover have "\<forall>x \<in> set (updateOne (\<lambda>x. f_id x = f_id d) (\<lambda>_. d) (friends s)). f_id x < next_id s"
    using assms(1) by (intro updateOne_all) (auto simp: friends_ok_def)
  ultimately show ?thesis using assms(1) by (simp add: friends_ok_def saveFriend_def ids)
qed

lemma removeFriendDoc_ok:
  assumes "friends_ok s"
  shows "friends_ok (removeFriendDoc i s)"
  using assms set_deleteOne_subset [of "\<lambda>x. f_id x = i" "friends s"]
  by (auto simp: friends_ok_def removeFriendDoc_def intro: sublist_map_deleteOne_distinct)

text \<open>Every operation keeps the invariant, whatever it returns.\<close>

lemmas friend_ops = with_oid_def await_def findByIdOrThrow_def

lemma findFriend_of_mem:
  assumes "friends_ok s" "d \<in> set (friends s)"
  shows "findFriend (f_id d) s = Some d"
  using find_key_unique [of f_id "friends s" d] assms by (simp add: friends_ok_def findFriend_def)

lemma notify_friends_ok: "\<lbrakk>friends_ok s; notify r p s = (x, t)\<rbrakk> \<Longrightarrow> friends_ok t"
  using friends_ok_frame notify_friends notify_frame(5) by blast

lemma emit_friends_ok [simp]: "friends_ok (emitFriendEvent r ev u s) = friends_ok s"
  by (simp add: friends_ok_def)

lemma accept_ok: "friends_ok s \<Longrightarrow> friends_ok (snd (accept me r s))"
proof -
  assume s: "friends_ok s"
  have "friends_ok (saveFriend (d\<lparr>f_state := ACCEPTED\<rparr>) s)" if "findFriend i s = Some d" for i d
    using saveFriend_ok [OF s, of "d\<lparr>f_state := ACCEPTED\<rparr>" d] that findFriend_Some [OF that]
    by (simp add: f_pair_def)
  then show ?thesis using s
    by (auto simp: accept_def friend_ops Let_def split: option.splits prod.splits sum.splits
        dest: notify_friends_ok)
qed

lemma insert_friends_ok:
  "\<lbrakk>friends_ok s; findBetween a b s = None; insertFriend a b st s = (d, t)\<rbrakk> \<Longrightarrow> friends_ok t"
  by (rule insertFriend_ok(1))

lemma sendRequest_ok: "friends_ok s \<Longrightarrow> friends_ok (snd (sendRequest me r s))"
  by (auto simp: sendRequest_def friend_ops Let_def accept_ok
      split: option.splits prod.splits sum.splits FriendState.splits
      dest: notify_friends_ok insert_friends_ok)

lemma decline_ok: "friends_ok s \<Longrightarrow> friends_ok (snd (decline me r s))"
  by (simp add: decline_def friend_ops removeFriendDoc_ok split: option.split)

lemma removeFriend_ok: "friends_ok s \<Longrightarrow> friends_ok (snd (removeFriend me r s))"
  by (simp add: removeFriend_def friend_ops removeFriendDoc_ok split: option.split)

lemma unblock_ok: "friends_ok s \<Longrightarrow> friends_ok (snd (unblock me r s))"
  by (simp add: unblock_def friend_ops removeFriendDoc_ok split: option.split)

lemma block_ok: "friends_ok s \<Longrightarrow> friends_ok (snd (block me r s))"
proof -
  assume s: "friends_ok s"
  have "friends_ok (saveFriend (e\<lparr>requesterId := me, addresseeId := b, f_state := BLOCKED\<rparr>) s)"
    if "findBetween me b s = Some e" for e b
    using saveFriend_ok [OF s, of "e\<lparr>requesterId := me, addresseeId := b, f_state := BLOCKED\<rparr>" e]
      findBetween_Some [OF that] findFriend_of_mem [OF s, of e] by (simp add: f_pair_def)
  then show ?thesis using s
    by (auto simp: block_def friend_ops Let_def split: option.splits prod.splits
        dest: insert_friends_ok)
qed

section \<open>Sequences of operations\<close>

datatype friend_op =
    SendRequest raw_id | Accept raw_id | Decline raw_id | RemoveFriend raw_id
  | Block raw_id | Unblock raw_id

fun friend_step :: "oid \<times> friend_op \<Rightarrow> 'a friends_st_scheme \<Rightarrow> 'a friends_st_scheme" where
  "friend_step (me, SendRequest r) s = snd (sendRequest me r s)"
| "friend_step (me, Accept r) s = snd (accept me r s)"
| "friend_step (me, Decline r) s = snd (decline me r s)"
| "friend_step (me, RemoveFriend r) s = snd (removeFriend me r s)"
| "friend_step (me, Block r) s = snd (block me r s)"
| "friend_step (me, Unblock r) s = snd (unblock me r s)"

lemma friend_step_ok: "friends_ok s \<Longrightarrow> friends_ok (friend_step p s)"
  by (cases "(p, s)" rule: friend_step.cases)
     (simp_all add: sendRequest_ok accept_ok decline_ok removeFriend_ok block_ok unblock_ok)

text \<open>What one operation can do to the documents: nothing, or a change of documents of the caller.\<close>

definition touches_only :: "oid \<Rightarrow> 'a friends_st_scheme \<Rightarrow> 'a friends_st_scheme \<Rightarrow> bool" where
  "touches_only me s t \<longleftrightarrow> (\<forall>a b. me \<noteq> a \<longrightarrow> me \<noteq> b \<longrightarrow> findBetween a b t = findBetween a b s)"

lemma touches_same: "friends t = friends s \<Longrightarrow> touches_only me s t"
  by (simp add: touches_only_def findBetween_def)

lemma touches_friends:
  "\<lbrakk>touches_only me s t; friends u = friends t\<rbrakk> \<Longrightarrow> touches_only me s u"
  by (simp add: touches_only_def findBetween_def)

lemma touches_emit [simp]: "touches_only me s (emitFriendEvent r ev u t) = touches_only me s t"
  by (simp add: touches_only_def findBetween_def)

lemma touches_notify: "\<lbrakk>notify r p t = (x, u); touches_only me s t\<rbrakk> \<Longrightarrow> touches_only me s u"
  by (rule touches_friends [OF _ notify_friends])

lemma touches_insert:
  assumes "insertFriend a b st s = (d, t)" "me \<in> {a, b}"
  shows "touches_only me s t"
  using assms by (auto simp: touches_only_def findBetween_def insertFriend_def fresh_id_def Let_def
      find_append between_def split: option.split)

lemma same_id_pair:
  assumes "friends_ok s" "findFriend i s = Some e" "x \<in> set (friends s)" "f_id x = i"
  shows "x = e"
  using findFriend_of_mem [OF assms(1,3)] assms(2,4) by simp

lemma touches_save:
  assumes "friends_ok s" "findFriend (f_id d) s = Some e" "me \<in> f_pair e" "me \<in> f_pair d"
  shows "touches_only me s (saveFriend d s)"
  unfolding touches_only_def findBetween_def saveFriend_def
  using same_id_pair [OF assms(1,2)] assms(3,4)
  by (auto intro!: find_updateOne_other_mem simp: between_pair)

lemma touches_remove:
  assumes "friends_ok s" "findFriend i s = Some e" "me \<in> f_pair e"
  shows "touches_only me s (removeFriendDoc i s)"
  unfolding touches_only_def findBetween_def removeFriendDoc_def
  using same_id_pair [OF assms(1,2)] assms(3)
  by (auto intro!: find_deleteOne_other_mem simp: between_pair)

lemma accept_touches:
  assumes "friends_ok s"
  shows "touches_only me s (snd (accept me r s))"
proof -
  have "touches_only me s (saveFriend (d\<lparr>f_state := ACCEPTED\<rparr>) s)"
    if "findFriend i s = Some d" "addresseeId d = me" for i d
    using touches_save [OF assms, of "d\<lparr>f_state := ACCEPTED\<rparr>" d me] that findFriend_Some [OF that(1)]
    by (simp add: f_pair_def)
  then show ?thesis
    by (auto simp: accept_def friend_ops Let_def touches_same split: option.splits prod.splits sum.splits
        intro: touches_notify)
qed

lemma sendRequest_touches:
  assumes "friends_ok s"
  shows "touches_only me s (snd (sendRequest me r s))"
  using assms
  by (auto simp: sendRequest_def friend_ops Let_def touches_same accept_touches
      split: option.splits prod.splits sum.splits FriendState.splits
      intro: touches_notify touches_insert)

lemma findBetween_findFriend:
  assumes "friends_ok s" "findBetween a b s = Some d"
  shows "findFriend (f_id d) s = Some d" "f_pair d = {a, b}"
  using findBetween_Some [OF assms(2)] findFriend_of_mem [OF assms(1), of d] by auto

lemma friend_step_touches:
  assumes "friends_ok s"
  shows "touches_only me s (friend_step (me, op) s)"
proof (cases op)
  case (Decline r)
  have "touches_only me s (removeFriendDoc i s)"
    if "findFriend i s = Some d" "addresseeId d = me" for i d
    using touches_remove [OF assms that(1), of me] that(2) by (simp add: f_pair_def)
  then show ?thesis using Decline
    using findFriend_Some by (fastforce simp: decline_def friend_ops touches_same split: option.split)
next
  case (RemoveFriend r)
  have "touches_only me s (removeFriendDoc (f_id d) s)" if "findBetween me b s = Some d" for b d
    using touches_remove [OF assms, of "f_id d" d me] findBetween_findFriend [OF assms that] by simp
  then show ?thesis using RemoveFriend
    by (auto simp: removeFriend_def friend_ops touches_same split: option.split)
next
  case (Block r)
  have "touches_only me s (saveFriend (e\<lparr>requesterId := me, addresseeId := b, f_state := BLOCKED\<rparr>) s)"
    if "findBetween me b s = Some e" for b e
    using touches_save [OF assms, of "e\<lparr>requesterId := me, addresseeId := b, f_state := BLOCKED\<rparr>" e me]
      findBetween_findFriend [OF assms that] by (auto simp: f_pair_def doubleton_eq_iff)
  then show ?thesis using Block
    by (auto simp: block_def friend_ops Let_def touches_same split: option.splits prod.splits
        intro: touches_insert)
next
  case (Unblock r)
  have "touches_only me s (removeFriendDoc (f_id d) s)"
    if "List.find (\<lambda>d. requesterId d = me \<and> addresseeId d = b \<and> f_state d = BLOCKED) (friends s) = Some d" for b d
    using touches_remove [OF assms findFriend_of_mem [OF assms], of d me] find_Some_iff_mem [OF that]
    by (simp add: f_pair_def)
  then show ?thesis using Unblock
    by (auto simp: unblock_def friend_ops touches_same split: option.split)
qed (simp_all add: assms sendRequest_touches accept_touches)

section \<open>Blocks\<close>

lemma block_result:
  assumes "block a (Hex b) s = (Inr d, t)" "friends_ok s"
  shows "findBetween a b t = Some d" "requesterId d = a" "addresseeId d = b" "f_state d = BLOCKED"
    "friends_ok t" "users t = users s" "a \<noteq> b"
proof -
  have t: "friends_ok t" using block_ok [OF assms(2), of a "Hex b"] assms(1) by simp
  have ab: "a \<noteq> b" using assms(1) by (auto simp: block_def)
  show "friends_ok t" "a \<noteq> b" using t ab by auto
  have *: "requesterId d = a \<and> addresseeId d = b \<and> f_state d = BLOCKED \<and> users t = users s
      \<and> d \<in> set (friends t)"
  proof (cases "findBetween a b s")
    case None
    then show ?thesis using assms ab
      by (auto simp: block_def friend_ops Let_def insertFriend_def fresh_id_def split: option.splits)
  next
    case (Some e)
    have "findFriend (f_id e) s = Some e" using findBetween_findFriend [OF assms(2) Some] by simp
    then have e: "e \<in> set (friends s)" using findFriend_Some by blast
    have "x \<in> set (updateOne (\<lambda>y. f_id y = f_id e) (\<lambda>_. x) (friends s))" for x
      using e by (rule mem_updateOne) simp
    then show ?thesis using assms(1) Some ab
      by (auto simp: block_def friend_ops Let_def saveFriend_def split: option.splits)
  qed
  then show "requesterId d = a" "addresseeId d = b" "f_state d = BLOCKED" "users t = users s"
    by auto
  show "findBetween a b t = Some d"
    using findBetween_unique [OF t, of d a b] * by (simp add: f_pair_def)
qed

text \<open>
  The guard against adding oneself compares strings: another spelling of the caller's own
  identifier passes it and stores a request from the caller to the caller.
\<close>

lemma self_request_by_spelling:
  assumes "find_user me s \<noteq> None" "findBetween me me s = None"
  shows "\<exists>d t. sendRequest me (Alt me sp) s = (Inr d, t) \<and> requesterId d = me \<and> addresseeId d = me"
  using assms by (auto simp: sendRequest_def friend_ops findById_def Let_def insertFriend_def
      fresh_id_def notify_def split: option.splits)

section \<open>Properties\<close>

fun mirror :: "FriendStatus \<Rightarrow> FriendStatus" where
  "mirror REQUEST_SENT = REQUEST_RECEIVED"
| "mirror REQUEST_RECEIVED = REQUEST_SENT"
| "mirror ST_BLOCKED = BLOCKED_BY"
| "mirror BLOCKED_BY = ST_BLOCKED"
| "mirror x = x"

lemma status_of_doc_mirror:
  assumes "f_pair d = {a, b}" "a \<noteq> b"
  shows "status_of_doc b d = apfst mirror (status_of_doc a d)"
  using assms by (auto simp: status_of_doc_def f_pair_def doubleton_eq_iff split: FriendState.split)

text \<open>A small state for the examples: three accounts and no relationship.\<close>

definition demo_user :: "oid \<Rightarrow> string \<Rightarrow> User" where
  "demo_user i n = user_of i \<lparr>nu_username = n, nu_email = n @ ''@x'', nu_passwordHash = [],
     nu_displayName = None, nu_isAdmin = False\<rparr>"

definition friends0 :: friends_st where
  "friends0 = \<lparr>clock = 0, next_id = 10, rand = (\<lambda>_. 0), rand_pos = 0,
     users = [demo_user 1 ''an'', demo_user 2 ''binh'', demo_user 3 ''chi''],
     server_members = [], user_log = [],
     notifs = [], notif_log = [], friends = [], friend_log = []\<rparr>"

lemma friends0_ok: "friends_ok friends0"
  by (simp add: friends_ok_def friends0_def)

text \<open>
  C27: Whatever operations the users run, in any order, there is never more than one relationship
  document for a pair of users (in either direction), and the document identifiers stay
  distinct.
\<close>

theorem friends_one_document_per_pair:
  assumes "friends_ok s"
  shows "friends_ok (fold friend_step ops s)"
  using assms by (induction ops arbitrary: s) (simp_all add: friend_step_ok)

theorem friends_one_document_per_pair_witness:
  "friends_ok (fold friend_step
     [(1, SendRequest (Hex 2)), (2, SendRequest (Hex 1)), (3, Block (Hex 1)), (1, Block (Hex 3))] friends0)"
  by (rule friends_one_document_per_pair [OF friends0_ok])

text \<open>
  No operation of a user changes the relationship of two other users: whatever identifiers the
  request carries, the document found between any two users different from the caller is
  the same before and after.
\<close>

theorem friend_step_isolated:
  assumes "friends_ok s" "me \<noteq> a" "me \<noteq> b"
  shows "findBetween a b (friend_step (me, op) s) = findBetween a b s"
  using friend_step_touches [OF assms(1)] assms(2,3) by (simp add: touches_only_def)

theorem friend_step_isolated_witness:
  "findBetween 1 2 (friend_step (3, Decline (Hex 10)) (friend_step (1, SendRequest (Hex 2)) friends0))
     = findBetween 1 2 (friend_step (1, SendRequest (Hex 2)) friends0)"
  by (rule friend_step_isolated [OF friend_step_ok [OF friends0_ok]]) simp_all

text \<open>
  The two sides of a relationship see mirrored statuses: a request sent by one is received by
  the other, a block of one is \<open>BLOCKED_BY\<close> for the other, and both are given the same
  request identifier.
\<close>

theorem friend_status_mirrored:
  "getFriendStatus (Hex b) (Hex a) s = apfst mirror (getFriendStatus (Hex a) (Hex b) s)"
  using status_of_doc_mirror [OF conjunct2 [OF findBetween_Some]]
  by (auto simp: getFriendStatus_def findBetween_sym [of b a] split: option.split)

text \<open>
  A block holds against both sides: after a successful block neither of the two can send a
  request to the other, neither can remove a friendship, the blocked user cannot lift the
  block with \<open>unblock\<close>, and each of these attempts leaves the state as it was.
\<close>

theorem block_holds:
  assumes "friends_ok s" "block a (Hex b) s = (Inr d, t)" "find_user a s \<noteq> None"
  shows "sendRequest a (Hex b) t = (Inl (Forbidden ''Cannot send request''), t)
     \<and> sendRequest b (Hex a) t = (Inl (Forbidden ''Cannot send request''), t)
     \<and> removeFriend a (Hex b) t = (Inl (NotFound ''Friendship not found''), t)
     \<and> removeFriend b (Hex a) t = (Inl (NotFound ''Friendship not found''), t)
     \<and> unblock b (Hex a) t = (Inl (NotFound ''Block not found''), t)"
proof -
  note d = block_result [OF assms(2,1)]
  have fb: "findBetween a b t = Some d" "findBetween b a t = Some d"
    using d(1) findBetween_sym by metis+
  have ua: "find_user a t \<noteq> None" using assms(3) d(6) by (simp add: find_user_def)
  have ub: "find_user b t \<noteq> None"
    using assms(2) d(6) by (auto simp: block_def friend_ops findById_def find_user_def split: option.splits if_splits)
  have "x \<in> set (friends t) \<Longrightarrow> requesterId x = b \<Longrightarrow> addresseeId x \<noteq> a" for x
    using findBetween_unique [OF d(5), of x a b] d(1,2,7) by (auto simp: f_pair_def doubleton_eq_iff)
  then have "List.find (\<lambda>x. requesterId x = b \<and> addresseeId x = a \<and> f_state x = BLOCKED) (friends t) = None"
    by (auto simp: find_None_iff_all)
  with fb ua ub d show ?thesis
    by (auto simp: sendRequest_def removeFriend_def unblock_def friend_ops findById_def Let_def
        split: option.split)
qed

theorem block_holds_witness:
  "fst (sendRequest 2 (Hex 1) (snd (block 1 (Hex 2) friends0))) = Inl (Forbidden ''Cannot send request'')"
proof -
  obtain d t where b: "block 1 (Hex 2) friends0 = (Inr d, t)"
    by (simp add: block_def friend_ops findById_def find_user_def friends0_def demo_user_def user_of_def
        findBetween_def insertFriend_def fresh_id_def Let_def)
  have "find_user 1 friends0 \<noteq> None"
    by (simp add: find_user_def friends0_def demo_user_def user_of_def)
  from block_holds [OF friends0_ok b this] b show ?thesis by simp
qed

text \<open>
  A block can be escaped by the blocked user: blocking back overwrites the direction of the one
  document of the pair, and unblocking then deletes it, so that no relationship is
  left although the first user never lifted their block.
\<close>

theorem block_can_be_escaped:
  assumes "friends_ok s" "block a (Hex b) s = (Inr d, t)" "find_user a s \<noteq> None"
  shows "\<exists>d' t' u. block b (Hex a) t = (Inr d', t') \<and> unblock b (Hex a) t' = (Inr (), u)
     \<and> findBetween a b u = None"
proof -
  note d = block_result [OF assms(2,1)]
  have fb: "findBetween b a t = Some d" using d(1) findBetween_sym by metis
  have ua: "find_user a t \<noteq> None" using assms(3) d(6) by (simp add: find_user_def)
  obtain d' t' where b: "block b (Hex a) t = (Inr d', t')"
    using fb ua d(7) by (auto simp: block_def friend_ops findById_def Let_def)
  note d' = block_result [OF b d(5)]
  have mem: "d' \<in> set (friends t')" using d'(1) findBetween_Some by blast
  obtain x where x: "List.find (\<lambda>x. requesterId x = b \<and> addresseeId x = a \<and> f_state x = BLOCKED) (friends t') = Some x"
    using mem d'(2-4) by (cases "List.find (\<lambda>x. requesterId x = b \<and> addresseeId x = a \<and> f_state x = BLOCKED) (friends t')")
      (auto simp: find_None_iff_all)
  then have "x \<in> set (friends t')" "f_pair x = {b, a}" by (auto dest: find_Some_iff_mem simp: f_pair_def)
  then have xd: "x = d'" using findBetween_unique [OF d'(5), of x b a] d'(1) by simp
  have u: "unblock b (Hex a) t' = (Inr (), removeFriendDoc (f_id d') t')"
    using x xd by (simp add: unblock_def friend_ops)
  have "findBetween a b (removeFriendDoc (f_id d') t') = None"
  proof (rule ccontr)
    assume "findBetween a b (removeFriendDoc (f_id d') t') \<noteq> None"
    then obtain y where y: "y \<in> set (friends (removeFriendDoc (f_id d') t'))" "f_pair y = {b, a}"
      using findBetween_Some insert_commute by (metis not_None_eq)
    have "y \<in> set (friends t')" "f_id y \<noteq> f_id d'"
      using y(1) d'(5) by (auto simp: removeFriendDoc_def friends_ok_def deleteOne_filter)
    then show False using findBetween_unique [OF d'(5), of y b a] y(2) d'(1) by simp
  qed
  with b u show ?thesis by blast
qed

theorem block_can_be_escaped_witness:
  "\<exists>d' t' u. block 2 (Hex 1) (snd (block 1 (Hex 2) friends0)) = (Inr d', t')
     \<and> unblock 2 (Hex 1) t' = (Inr (), u) \<and> findBetween 1 2 u = None"
proof -
  obtain d t where b: "block 1 (Hex 2) friends0 = (Inr d, t)"
    by (simp add: block_def friend_ops findById_def find_user_def friends0_def demo_user_def user_of_def
        findBetween_def insertFriend_def fresh_id_def Let_def)
  have "find_user 1 friends0 \<noteq> None"
    by (simp add: find_user_def friends0_def demo_user_def user_of_def)
  from block_can_be_escaped [OF friends0_ok b this] b show ?thesis by simp
qed

end
