(* ===== verification/Dm.thy ===== *)
theory Dm
  imports Friends "HOL-Library.Product_Lexorder" "HOL-Library.Option_ord"
begin

text \<open>
  Direct messages: the at-rest cipher of \<open>src/common/crypto.util.ts\<close> and the conversations and
  messages of \<open>src/dm/dm.service.ts\<close>. The authenticated encryption itself (AES-256-GCM of the
  platform) is the parameter \<open>aead\<close>; the layout of the stored blob is the program's. Blobs are kept
  as their bytes, before the base64 text.
\<close>

section \<open>The at-rest cipher\<close>

record aead =
  seal_gcm :: "string \<Rightarrow> string \<Rightarrow> string \<times> string"
  open_gcm :: "string \<Rightarrow> string \<Rightarrow> string \<Rightarrow> string option"
  iv_bytes :: "nat \<Rightarrow> string"

text \<open>What the platform documents: 12-byte vectors, 16-byte tags, and opening undoes sealing.\<close>

definition aead_ok :: "aead \<Rightarrow> bool" where
  "aead_ok c \<longleftrightarrow> (\<forall>n. length (iv_bytes c n) = 12) \<and> (\<forall>iv p. length (fst (seal_gcm c iv p)) = 16)
     \<and> (\<forall>iv p. open_gcm c iv (fst (seal_gcm c iv p)) (snd (seal_gcm c iv p)) = Some p)"

definition encrypt :: "aead \<Rightarrow> nat \<Rightarrow> string \<Rightarrow> string" where
  "encrypt c n plaintext =
     (let iv = iv_bytes c n; (tag, enc) = seal_gcm c iv plaintext in iv @ tag @ enc)"

definition decrypt :: "aead \<Rightarrow> string \<Rightarrow> string" where
  "decrypt c buf =
     (case open_gcm c (take 12 buf) (take 16 (drop 12 buf)) (drop 28 buf) of
        None \<Rightarrow> '''' | Some p \<Rightarrow> p)"

lemma decrypt_encrypt: "aead_ok c \<Longrightarrow> decrypt c (encrypt c n p) = p"
  by (simp add: aead_ok_def encrypt_def decrypt_def Let_def split_beta)

lemma encrypt_nonempty: "aead_ok c \<Longrightarrow> encrypt c n p \<noteq> []"
  by (auto simp: aead_ok_def encrypt_def Let_def split_beta
      dest!: spec [of "\<lambda>k. length (iv_bytes c k) = 12" n])

section \<open>State\<close>

record DmConversation =
  c_id :: oid
  participants :: "oid list"
  lastMessageAt :: "int option"
  unread :: "raw_id \<Rightarrow> nat option"

record Attachment =
  a_url :: string
  a_type :: string
  a_name :: string
  a_size :: nat
  a_category :: "string option"

record TransferData =
  td_transferId :: string
  td_fromUserId :: oid
  td_toUserId :: raw_id
  td_amount :: int
  td_note :: "string option"

record DmMessage =
  m_id :: oid
  m_conversationId :: oid
  m_senderId :: oid
  m_type :: DmMessageType
  m_content :: string
  m_systemData :: "TransferData option"
  m_attachments :: "Attachment list"
  m_replyToId :: "oid option"
  m_editedAt :: "int option"

datatype dm_event =
    Dm_new oid DmMessage
  | Dm_new_from oid DmMessage "UserCard option" nat
  | Dm_updated oid DmMessage
  | Dm_deleted oid raw_id
  | Dm_read raw_id oid int
  | Dm_typing raw_id oid bool

record dm_st = friends_st +
  convs :: "DmConversation list"
  dm_msgs :: "DmMessage list"
  dm_log :: "(target \<times> dm_event) list"

section \<open>Conversations\<close>

text \<open>String order, for \<open>[a, b].sort()\<close>.\<close>

fun str_le :: "string \<Rightarrow> string \<Rightarrow> bool" where
  "str_le [] _ = True"
| "str_le (_ # _) [] = False"
| "str_le (x # xs) (y # ys) =
     (of_char x < (of_char y :: nat) \<or> (x = y \<and> str_le xs ys))"

definition pairKey :: "raw_id \<Rightarrow> raw_id \<Rightarrow> oid list" where
  "pairKey a b = List.map_filter read_oid (if str_le (id_str a) (id_str b) then [a, b] else [b, a])"

definition decryptMessage :: "aead \<Rightarrow> DmMessage \<Rightarrow> DmMessage" where
  "decryptMessage c d =
     (if m_type d = DM_SYSTEM then d
      else d\<lparr>m_content := (if m_content d = [] then '''' else decrypt c (m_content d))\<rparr>)"

definition assertCanDm :: "oid \<Rightarrow> raw_id \<Rightarrow> 'a dm_st_scheme \<Rightarrow> (unit, 'a dm_st_scheme) outcome" where
  "assertCanDm a r s =
     (case read_oid r of None \<Rightarrow> throw (BadRequest ''BSONError'') s
      | Some b \<Rightarrow>
          if List.find (\<lambda>d. f_state d = BLOCKED \<and> between a b d) (friends s) \<noteq> None
          then throw (Forbidden ''Cannot message this user'') s else return () s)"

text \<open>\<open>$all\<close> of the pair and \<open>$size 2\<close>.\<close>

definition conv_match :: "oid list \<Rightarrow> DmConversation \<Rightarrow> bool" where
  "conv_match ps c \<longleftrightarrow> (\<forall>p \<in> set ps. p \<in> set (participants c)) \<and> length (participants c) = 2"

definition getOrCreateConversation :: "oid \<Rightarrow> raw_id \<Rightarrow> 'a dm_st_scheme
    \<Rightarrow> (DmConversation, 'a dm_st_scheme) outcome" where
  "getOrCreateConversation u other s =
     (if other = Hex u then throw (BadRequest ''Cannot DM yourself'') s
      else await (findByIdOrThrow other) (\<lambda>_ s.
        let ps = pairKey (Hex u) other in
        case List.find (conv_match ps) (convs s) of
          Some c \<Rightarrow> return c s
        | None \<Rightarrow>
            (let (i, s) = fresh_id s;
                 c = \<lparr>c_id = i, participants = ps, lastMessageAt = None, unread = (\<lambda>_. None)\<rparr>
             in return c (s\<lparr>convs := convs s @ [c]\<rparr>))) s)"

definition find_conv :: "oid \<Rightarrow> 'a dm_st_scheme \<Rightarrow> DmConversation option" where
  "find_conv i s = List.find (\<lambda>c. c_id c = i) (convs s)"

definition find_msg :: "oid \<Rightarrow> 'a dm_st_scheme \<Rightarrow> DmMessage option" where
  "find_msg i s = List.find (\<lambda>m. m_id m = i) (dm_msgs s)"

definition requireParticipant :: "raw_id \<Rightarrow> oid \<Rightarrow> 'a dm_st_scheme \<Rightarrow> (DmConversation, 'a dm_st_scheme) outcome" where
  "requireParticipant r u s =
     (case read_oid r of None \<Rightarrow> throw (BadRequest ''Invalid id'') s
      | Some i \<Rightarrow>
         (case find_conv i s of None \<Rightarrow> throw (NotFound ''Conversation not found'') s
          | Some c \<Rightarrow> if u \<in> set (participants c) then return c s
                     else throw (Forbidden ''Not a participant of this conversation'') s))"

definition otherParticipant :: "DmConversation \<Rightarrow> oid \<Rightarrow> oid" where
  "otherParticipant c u = (case List.find (\<lambda>p. p \<noteq> u) (participants c) of Some p \<Rightarrow> p | None \<Rightarrow> u)"

definition emit_participants :: "DmConversation \<Rightarrow> dm_event \<Rightarrow> 'a dm_st_scheme \<Rightarrow> 'a dm_st_scheme" where
  "emit_participants c e s =
     s\<lparr>dm_log := dm_log s @ map (\<lambda>p. (UserRoom (Hex p), e)) (participants c)\<rparr>"

text \<open>The new message's time and the recipient's counter (\<open>$set\<close> and \<open>$inc\<close>).\<close>

definition bump :: "oid \<Rightarrow> raw_id \<Rightarrow> 'a dm_st_scheme \<Rightarrow> 'a dm_st_scheme" where
  "bump i to_id s =
     s\<lparr>convs := updateOne (\<lambda>c. c_id c = i)
        (\<lambda>c. c\<lparr>lastMessageAt := Some (clock s),
               unread := (unread c)(to_id := Some (case unread c to_id of None \<Rightarrow> 1 | Some n \<Rightarrow> n + 1))\<rparr>)
        (convs s)\<rparr>"

text \<open>
  A system message: never throws into the caller's flow; when the conversation cannot be opened
  nothing changes.
\<close>

definition postSystemMessage :: "aead \<Rightarrow> oid \<Rightarrow> raw_id \<Rightarrow> string \<Rightarrow> TransferData
    \<Rightarrow> 'a dm_st_scheme \<Rightarrow> DmMessage option \<times> 'a dm_st_scheme" where
  "postSystemMessage ci sender other txt data s =
     (case getOrCreateConversation sender other s of
        (Inl _, s) \<Rightarrow> (None, s)
      | (Inr c, s) \<Rightarrow>
          (let (i, s) = fresh_id s;
               m = \<lparr>m_id = i, m_conversationId = c_id c, m_senderId = sender, m_type = DM_SYSTEM,
                    m_content = txt, m_systemData = Some data, m_attachments = [],
                    m_replyToId = None, m_editedAt = None\<rparr>;
               s = s\<lparr>dm_msgs := dm_msgs s @ [m]\<rparr>;
               s = bump (c_id c) other s;
               json = decryptMessage ci m
           in (Some json, emit_participants c (Dm_new (c_id c) json) s)))"

record InboxEntry =
  ie_id :: oid
  ie_otherUser :: "oid \<times> UserCard option"
  ie_lastMessageAt :: "int option"
  ie_unread :: nat

definition inbox_entry :: "oid \<Rightarrow> 'a dm_st_scheme \<Rightarrow> DmConversation \<Rightarrow> InboxEntry" where
  "inbox_entry u s c =
     (let other = otherParticipant c u
      in \<lparr>ie_id = c_id c, ie_otherUser = (other, map_of (getCards [Hex other] s) other),
          ie_lastMessageAt = lastMessageAt c,
          ie_unread = (case unread c (Hex u) of None \<Rightarrow> 0 | Some n \<Rightarrow> n)\<rparr>)"

text \<open>Sorted by descending time of the last message, then by descending identifier; no time sorts last.\<close>

definition listConversations :: "oid \<Rightarrow> 'a dm_st_scheme \<Rightarrow> InboxEntry list" where
  "listConversations u s =
     map (inbox_entry u s)
       (rev (sort_key (\<lambda>c. (lastMessageAt c, c_id c)) (filter (\<lambda>c. u \<in> set (participants c)) (convs s))))"

definition startConversation :: "oid \<Rightarrow> raw_id \<Rightarrow> 'a dm_st_scheme \<Rightarrow> (InboxEntry, 'a dm_st_scheme) outcome" where
  "startConversation u other = await (assertCanDm u other) (\<lambda>_.
     await (getOrCreateConversation u other) (\<lambda>c s. return (inbox_entry u s c) s))"

section \<open>Messages\<close>

record SendDmDto =
  sd_toUserId :: raw_id
  sd_content :: "string option"
  sd_attachments :: "Attachment list"
  sd_replyToId :: "raw_id option"

definition opt_oid :: "raw_id option \<Rightarrow> oid option" where
  "opt_oid r = Option.bind r read_oid"

definition card_of :: "oid \<Rightarrow> 'a env_st_scheme \<Rightarrow> UserCard option" where
  "card_of u s = map_of (getCards [Hex u] s) u"

definition send :: "aead \<Rightarrow> oid \<Rightarrow> SendDmDto \<Rightarrow> 'a dm_st_scheme \<Rightarrow> (DmMessage, 'a dm_st_scheme) outcome" where
  "send ci u dto = await (assertCanDm u (sd_toUserId dto)) (\<lambda>_ s.
     let content = trim (case sd_content dto of None \<Rightarrow> '''' | Some x \<Rightarrow> x);
         atts = sd_attachments dto
     in if content = [] \<and> atts = []
        then throw (BadRequest ''A message must have content or at least one attachment'') s
        else await (getOrCreateConversation u (sd_toUserId dto)) (\<lambda>c s.
          let (i, s) = fresh_id s;
              m = \<lparr>m_id = i, m_conversationId = c_id c, m_senderId = u, m_type = DM_USER,
                   m_content = (if content = [] then '''' else encrypt ci i content),
                   m_systemData = None, m_attachments = atts,
                   m_replyToId = opt_oid (sd_replyToId dto), m_editedAt = None\<rparr>;
              s = s\<lparr>dm_msgs := dm_msgs s @ [m]\<rparr>;
              s = bump (c_id c) (sd_toUserId dto) s;
              cnt = (case find_conv (c_id c) s of None \<Rightarrow> 1
                     | Some c' \<Rightarrow> (case unread c' (sd_toUserId dto) of None \<Rightarrow> 1 | Some n \<Rightarrow> n));
              json = decryptMessage ci m;
              card = card_of u s;
              s = s\<lparr>dm_log := dm_log s
                 @ [(UserRoom (sd_toUserId dto), Dm_new_from (c_id c) json card cnt),
                    (UserRoom (Hex u), Dm_new_from (c_id c) json card 0)]\<rparr>;
              preview = (if m_content json \<noteq> [] then take 80 (m_content json) else ''[dinh kem]'');
              s = best_effort (notify (sd_toUserId dto) (DM_MESSAGE (c_id c) (m_id json) u preview)) s
          in return json s) s)"

record DmPage =
  dp_items :: "DmMessage list"
  dp_hasMore :: bool
  dp_nextBefore :: "oid option"

text \<open>\<open>limit || 30\<close>, at most 100; newest first, before the cursor.\<close>

definition history :: "aead \<Rightarrow> oid \<Rightarrow> raw_id \<Rightarrow> raw_id option \<Rightarrow> nat \<Rightarrow> 'a dm_st_scheme
    \<Rightarrow> (DmPage, 'a dm_st_scheme) outcome" where
  "history ci u r before lm = await (requireParticipant r u) (\<lambda>c s.
     let l = min (if lm = 0 then 30 else lm) 100;
         docs = take l (rev (filter (\<lambda>m. m_conversationId m = c_id c
                  \<and> (case opt_oid before of None \<Rightarrow> True | Some b \<Rightarrow> m_id m < b)) (dm_msgs s)))
     in return \<lparr>dp_items = map (decryptMessage ci) docs, dp_hasMore = (length docs = l),
                dp_nextBefore = (if docs = [] then None else Some (m_id (last docs)))\<rparr> s)"

text \<open>What \<open>edit\<close> and \<open>remove\<close> check before they touch a message.\<close>

definition own_message :: "string \<Rightarrow> string \<Rightarrow> oid \<Rightarrow> raw_id \<Rightarrow> 'a dm_st_scheme \<Rightarrow> (DmMessage, 'a dm_st_scheme) outcome" where
  "own_message sys_err own_err u r s =
     (case read_oid r of None \<Rightarrow> throw (NotFound ''Message not found'') s
      | Some i \<Rightarrow>
         (case find_msg i s of None \<Rightarrow> throw (NotFound ''Message not found'') s
          | Some m \<Rightarrow> if m_type m = DM_SYSTEM then throw (Forbidden sys_err) s
                     else if m_senderId m \<noteq> u then throw (Forbidden own_err) s
                     else return m s))"

text \<open>The cipher vector of an edit is drawn like an identifier.\<close>

definition edit :: "aead \<Rightarrow> oid \<Rightarrow> raw_id \<Rightarrow> string \<Rightarrow> 'a dm_st_scheme \<Rightarrow> (DmMessage, 'a dm_st_scheme) outcome" where
  "edit ci u r txt = await (own_message ''System messages cannot be edited''
       ''Only the sender can edit this message'' u r) (\<lambda>m s.
     let (n, s) = fresh_id s;
         m = m\<lparr>m_content := encrypt ci n (trim txt), m_editedAt := Some (clock s)\<rparr>;
         s = s\<lparr>dm_msgs := updateOne (\<lambda>x. m_id x = m_id m) (\<lambda>_. m) (dm_msgs s)\<rparr>;
         json = decryptMessage ci m
     in return json (case find_conv (m_conversationId m) s of None \<Rightarrow> s
                     | Some c \<Rightarrow> emit_participants c (Dm_updated (m_conversationId m) json) s))"

definition markRead :: "oid \<Rightarrow> raw_id \<Rightarrow> 'a dm_st_scheme \<Rightarrow> (unit, 'a dm_st_scheme) outcome" where
  "markRead u r = await (requireParticipant r u) (\<lambda>c s.
     let s = s\<lparr>convs := updateOne (\<lambda>x. c_id x = c_id c) (\<lambda>x. x\<lparr>unread := (unread x)(Hex u := Some 0)\<rparr>) (convs s)\<rparr>
     in return () (s\<lparr>dm_log := dm_log s @ [(UserRoom (Hex (otherParticipant c u)), Dm_read r u (clock s))]\<rparr>))"

definition remove :: "oid \<Rightarrow> raw_id \<Rightarrow> 'a dm_st_scheme \<Rightarrow> (unit, 'a dm_st_scheme) outcome" where
  "remove u r = await (own_message ''System messages cannot be deleted''
       ''Only the sender can delete this message'' u r) (\<lambda>m s.
     let conv = find_conv (m_conversationId m) s;
         s = s\<lparr>dm_msgs := deleteOne (\<lambda>x. m_id x = m_id m) (dm_msgs s)\<rparr>
     in return () (case conv of None \<Rightarrow> s
                   | Some c \<Rightarrow> emit_participants c (Dm_deleted (m_conversationId m) r) s))"

definition typing :: "oid \<Rightarrow> raw_id \<Rightarrow> bool \<Rightarrow> 'a dm_st_scheme \<Rightarrow> (unit, 'a dm_st_scheme) outcome" where
  "typing u r b = await (requireParticipant r u) (\<lambda>c s.
     return () (s\<lparr>dm_log := dm_log s @ [(UserRoom (Hex (otherParticipant c u)), Dm_typing r u b)]\<rparr>))"

section \<open>Conversation lookup\<close>

lemma set_pairKey:
  "read_oid r = Some b \<Longrightarrow> set (pairKey (Hex a) r) = {a, b} \<and> length (pairKey (Hex a) r) = 2"
  by (auto simp: pairKey_def List.map_filter_def)

lemma getOrCreate_cases:
  assumes "getOrCreateConversation u r s = (x, t)"
  obtains (error) e where "x = Inl e" "t = s"
  | (existing) c b where "x = Inr c" "t = s" "c \<in> set (convs s)" "conv_match (pairKey (Hex u) r) c"
      "r \<noteq> Hex u" "read_oid r = Some b"
  | (created) c b where "x = Inr c" "r \<noteq> Hex u" "read_oid r = Some b"
      "c = \<lparr>c_id = next_id s, participants = pairKey (Hex u) r, lastMessageAt = None, unread = (\<lambda>_. None)\<rparr>"
      "t = s\<lparr>next_id := Suc (next_id s), convs := convs s @ [c]\<rparr>"
      "\<forall>c \<in> set (convs s). \<not> conv_match (pairKey (Hex u) r) c"
proof (cases "r = Hex u \<or> findById r s = None")
  case True
  with assms have "\<exists>e. x = Inl e" "t = s"
    by (auto simp: getOrCreateConversation_def await_def findByIdOrThrow_def split: if_splits)
  then show thesis using error by blast
next
  case False
  then obtain d b where d: "findById r s = Some d" "r \<noteq> Hex u" "read_oid r = Some b"
    by (auto simp: findById_def split: option.splits)
  show thesis
  proof (cases "List.find (conv_match (pairKey (Hex u) r)) (convs s)")
    case (Some c)
    with d assms have "x = Inr c" "t = s"
      by (auto simp: getOrCreateConversation_def await_def findByIdOrThrow_def Let_def)
    then show thesis using existing d find_Some_iff_mem [OF Some] by blast
  next
    case None
    with d assms show thesis
      by (intro created) (auto simp: getOrCreateConversation_def await_def findByIdOrThrow_def Let_def
          fresh_id_def find_None_iff_all)
  qed
qed

lemma getOrCreate_frame:
  assumes "getOrCreateConversation u r s = (x, t)"
  shows "dm_msgs t = dm_msgs s" "users t = users s" "friends t = friends s" "next_id s \<le> next_id t"
    "clock t = clock s"
  using assms by (cases rule: getOrCreate_cases; simp)+

lemma notify_dm_frame:
  assumes "notify r p s = (x, t)"
  shows "convs t = convs s" "dm_msgs t = dm_msgs s"
  using assms by (auto simp: notify_def fresh_id_def Let_def split: option.splits)

lemma snd_notify_frame [simp]:
  "convs (snd (notify r p s)) = convs s" "dm_msgs (snd (notify r p s)) = dm_msgs s"
  "users (snd (notify r p s)) = users s"
  by (cases "notify r p s"; simp add: notify_dm_frame notify_frame)+

lemma snd_notify_next: "next_id s \<le> next_id (snd (notify r p s))"
  by (cases "notify r p s"; simp add: notify_frame)

lemma bump_frame [simp]:
  "dm_msgs (bump i r s) = dm_msgs s" "users (bump i r s) = users s" "next_id (bump i r s) = next_id s"
  "friends (bump i r s) = friends s"
  by (simp_all add: bump_def)

lemma bump_keys:
  "map c_id (convs (bump i r s)) = map c_id (convs s)"
  "map participants (convs (bump i r s)) = map participants (convs s)"
  by (simp_all add: bump_def map_updateOne)

lemma emit_participants_frame [simp]:
  "dm_msgs (emit_participants c e s) = dm_msgs s" "convs (emit_participants c e s) = convs s"
  "next_id (emit_participants c e s) = next_id s" "users (emit_participants c e s) = users s"
  by (simp_all add: emit_participants_def)

text \<open>The message a successful \<open>send\<close> stores, before decryption.\<close>

definition sent_msg :: "aead \<Rightarrow> oid \<Rightarrow> SendDmDto \<Rightarrow> oid \<Rightarrow> oid \<Rightarrow> DmMessage" where
  "sent_msg ci u dto cid i =
     (let content = trim (case sd_content dto of None \<Rightarrow> '''' | Some x \<Rightarrow> x)
      in \<lparr>m_id = i, m_conversationId = cid, m_senderId = u, m_type = DM_USER,
          m_content = (if content = [] then '''' else encrypt ci i content),
          m_systemData = None, m_attachments = sd_attachments dto,
          m_replyToId = opt_oid (sd_replyToId dto), m_editedAt = None\<rparr>)"

lemma sent_msg_simps [simp]:
  "m_id (sent_msg ci u dto cid i) = i" "m_conversationId (sent_msg ci u dto cid i) = cid"
  "m_senderId (sent_msg ci u dto cid i) = u" "m_type (sent_msg ci u dto cid i) = DM_USER"
  by (simp_all add: sent_msg_def Let_def)

lemma send_cases:
  assumes "send ci u dto s = (x, t)"
  obtains (error) e where "x = Inl e" "t = s"
  | (sent) c s1 where "x = Inr (decryptMessage ci (sent_msg ci u dto (c_id c) (next_id s1)))"
      "getOrCreateConversation u (sd_toUserId dto) s = (Inr c, s1)"
      "fst (assertCanDm u (sd_toUserId dto) s) = Inr ()"
      "dm_msgs t = dm_msgs s @ [sent_msg ci u dto (c_id c) (next_id s1)]"
      "map c_id (convs t) = map c_id (convs s1)"
      "map participants (convs t) = map participants (convs s1)"
      "next_id s1 < next_id t" "users t = users s"
proof -
  obtain y where a: "assertCanDm u (sd_toUserId dto) s = (y, s)"
    by (cases "assertCanDm u (sd_toUserId dto) s") (auto simp: assertCanDm_def split: option.splits if_splits)
  obtain z s1 where g: "getOrCreateConversation u (sd_toUserId dto) s = (z, s1)" by fastforce
  note fr = getOrCreate_frame [OF g]
  show thesis
  proof (cases y)
    case (Inl e)
    then show thesis using assms a error by (auto simp: send_def await_def)
  next
    case y: (Inr _)
    show thesis
    proof (cases z)
      case (Inl e)
      have "s1 = s" by (rule getOrCreate_cases [OF g]) (use Inl in auto)
      then show thesis using assms a y g Inl error
        by (auto simp: send_def await_def Let_def split: if_splits)
    next
      case (Inr c)
      show thesis
      proof (cases "\<exists>e. x = Inl e")
        case True
        then show thesis using assms a y g Inr error
          by (auto simp: send_def await_def Let_def fresh_id_def split: if_splits)
      next
        case False
        let ?m = "sent_msg ci u dto (c_id c) (next_id s1)"
        let ?s2 = "bump (c_id c) (sd_toUserId dto) (s1\<lparr>next_id := Suc (next_id s1), dm_msgs := dm_msgs s1 @ [?m]\<rparr>)"
        obtain evs p where xt: "x = Inr (decryptMessage ci ?m)"
            "t = snd (notify (sd_toUserId dto) p (?s2\<lparr>dm_log := evs\<rparr>))"
          using assms a y g Inr False
          by (auto simp: send_def await_def Let_def fresh_id_def sent_msg_def best_effort_def split: if_splits)
        show thesis
        proof (rule sent [OF xt(1)])
          show "next_id s1 < next_id t"
            using snd_notify_next [of "?s2\<lparr>dm_log := evs\<rparr>" "sd_toUserId dto" p] xt(2) by simp
        qed (use a y g Inr xt(2) fr in \<open>simp_all add: bump_def map_updateOne\<close>)
      qed
    qed
  qed
qed

section \<open>Invariant\<close>

text \<open>
  Messages are stored in the order of their distinct identifiers; conversations have distinct
  identifiers, two participants, and no two of them have the same participants.
\<close>

definition dm_ok :: "'a dm_st_scheme \<Rightarrow> bool" where
  "dm_ok s \<longleftrightarrow> sorted_wrt (<) (map m_id (dm_msgs s)) \<and> (\<forall>m \<in> set (dm_msgs s). m_id m < next_id s)
     \<and> distinct (map c_id (convs s)) \<and> (\<forall>i \<in> set (map c_id (convs s)). i < next_id s)
     \<and> (\<forall>ps \<in> set (map participants (convs s)). length ps = 2)
     \<and> distinct (map set (map participants (convs s)))"

datatype dm_op =
    DmSend SendDmDto | DmEdit raw_id string | DmRemove raw_id | DmMarkRead raw_id
  | DmTyping raw_id bool | DmStart raw_id | DmSystem raw_id string TransferData

fun dm_step :: "aead \<Rightarrow> oid \<times> dm_op \<Rightarrow> 'a dm_st_scheme \<Rightarrow> 'a dm_st_scheme" where
  "dm_step ci (u, DmSend dto) s = snd (send ci u dto s)"
| "dm_step ci (u, DmEdit r txt) s = snd (edit ci u r txt s)"
| "dm_step ci (u, DmRemove r) s = snd (remove u r s)"
| "dm_step ci (u, DmMarkRead r) s = snd (markRead u r s)"
| "dm_step ci (u, DmTyping r b) s = snd (typing u r b s)"
| "dm_step ci (u, DmStart r) s = snd (startConversation u r s)"
| "dm_step ci (u, DmSystem r txt d) s = snd (postSystemMessage ci u r txt d s)"

lemma dm_ok_cong:
  assumes "dm_ok s" "dm_msgs t = dm_msgs s" "map c_id (convs t) = map c_id (convs s)"
    "map participants (convs t) = map participants (convs s)" "next_id s \<le> next_id t"
  shows "dm_ok t"
  using assms by (fastforce simp: dm_ok_def)

lemma dm_ok_append:
  assumes "dm_ok s" "dm_msgs t = dm_msgs s @ [m]" "map c_id (convs t) = map c_id (convs s)"
    "map participants (convs t) = map participants (convs s)" "m_id m = next_id s" "next_id s < next_id t"
  shows "dm_ok t"
  unfolding dm_ok_def assms(2-4) using assms(1,5,6) by (auto simp: dm_ok_def sorted_wrt_append)

lemma pair_card: "length ps = 2 \<Longrightarrow> {a, b} \<subseteq> set ps \<Longrightarrow> a \<noteq> b \<Longrightarrow> set ps = {a, b}"
  by (auto simp: length_Suc_conv numeral_2_eq_2)

lemma getOrCreate_ok:
  assumes "dm_ok s" "getOrCreateConversation u r s = (x, t)"
  shows "dm_ok t"
  using assms(2)
proof (cases rule: getOrCreate_cases)
  case (created c b)
  have "set ps \<noteq> set (pairKey (Hex u) r)" if "ps \<in> participants ` set (convs s)" for ps
    using that created(6) assms(1) by (auto simp: conv_match_def dm_ok_def)
  then show ?thesis using created(3-5) assms(1) set_pairKey [OF created(3), of u]
    by (fastforce simp: dm_ok_def)
qed (use assms in auto)

lemma send_ok:
  assumes "dm_ok s"
  shows "dm_ok (snd (send ci u dto s))"
proof -
  obtain x t where st: "send ci u dto s = (x, t)" by fastforce
  from st show ?thesis
  proof (cases rule: send_cases)
    case (sent c s1)
    have "dm_ok s1" using getOrCreate_ok [OF assms sent(2)] .
    then have "dm_ok t"
      by (rule dm_ok_append [where m = "sent_msg ci u dto (c_id c) (next_id s1)"])
         (use sent getOrCreate_frame [OF sent(2)] in simp_all)
    with st show ?thesis by simp
  qed (use st assms in simp)
qed

lemma own_message_Inr:
  assumes "own_message e1 e2 u r s = (Inr m, t)"
  shows "t = s" "m \<in> set (dm_msgs s)" "m_type m \<noteq> DM_SYSTEM" "m_senderId m = u" "find_msg (m_id m) s = Some m"
  using assms by (auto simp: own_message_def find_msg_def split: option.splits if_splits
      dest: find_Some_iff_mem)

lemma own_message_cases:
  obtains e where "own_message e1 e2 u r s = (Inl e, s)" | m where "own_message e1 e2 u r s = (Inr m, s)"
  by (cases "own_message e1 e2 u r s") (auto simp: own_message_def split: option.splits if_splits)

text \<open>What an edit and a removal leave of the messages.\<close>

lemma edit_cases:
  obtains (error) e where "edit ci u r txt s = (Inl e, s)"
  | (edited) m t where "edit ci u r txt s = (Inr (decryptMessage ci m), t)" "m_senderId m = u"
      "m_type m \<noteq> DM_SYSTEM" "dm_msgs t = updateOne (\<lambda>x. m_id x = m_id m) (\<lambda>_. m) (dm_msgs s)"
      "\<forall>x. find_msg (m_id m) s = Some x \<longrightarrow> m_senderId x = u \<and> m_type x \<noteq> DM_SYSTEM"
      "convs t = convs s" "next_id s \<le> next_id t"
proof (cases rule: own_message_cases [of "''System messages cannot be edited''"
      "''Only the sender can edit this message''" u r s])
  case (1 e)
  then show thesis using error by (simp add: edit_def await_def)
next
  case (2 m)
  note o = own_message_Inr [OF 2]
  let ?m = "m\<lparr>m_content := encrypt ci (next_id s) (trim txt), m_editedAt := Some (clock s)\<rparr>"
  show thesis
    by (rule edited [of ?m "snd (edit ci u r txt s)"])
       (use 2 o in \<open>auto simp: edit_def await_def Let_def fresh_id_def split: option.split\<close>)
qed

lemma remove_cases:
  obtains (error) e where "remove u r s = (Inl e, s)"
  | (removed) m t where "remove u r s = (Inr (), t)" "m_senderId m = u" "m_type m \<noteq> DM_SYSTEM"
      "find_msg (m_id m) s = Some m" "dm_msgs t = deleteOne (\<lambda>x. m_id x = m_id m) (dm_msgs s)"
      "convs t = convs s" "next_id t = next_id s"
proof (cases rule: own_message_cases [of "''System messages cannot be deleted''"
      "''Only the sender can delete this message''" u r s])
  case (1 e)
  then show thesis using error by (simp add: remove_def await_def)
next
  case (2 m)
  note o = own_message_Inr [OF 2]
  show thesis
    by (rule removed [of "snd (remove u r s)" m])
       (use 2 o in \<open>auto simp: remove_def await_def Let_def split: option.split\<close>)
qed

lemma sorted_deleteOne:
  fixes f :: "'d \<Rightarrow> nat"
  shows "sorted_wrt (<) (map f ds) \<Longrightarrow> sorted_wrt (<) (map f (deleteOne P ds))"
  using set_deleteOne_subset by (induction ds) fastforce+

lemma dm_step_ok:
  assumes "dm_ok s"
  shows "dm_ok (dm_step ci (u, op) s)"
proof (cases op)
  case (DmEdit r tx)
  show ?thesis
  proof (cases rule: edit_cases [of ci u r tx s])
    case (edited m t)
    have ids: "map m_id (dm_msgs t) = map m_id (dm_msgs s)"
      unfolding edited(4) by (rule map_updateOne) simp
    have "m_id ` set (dm_msgs t) = m_id ` set (dm_msgs s)"
      using arg_cong [OF ids, of set] by simp
    moreover have "\<forall>i \<in> m_id ` set (dm_msgs s). i < next_id s" using assms by (simp add: dm_ok_def)
    ultimately have "\<forall>x \<in> set (dm_msgs t). m_id x < next_id s" by blast
    then have "dm_ok t" using edited(7) assms unfolding dm_ok_def ids edited(6) by auto
    then show ?thesis using DmEdit edited(1) by simp
  qed (use DmEdit assms in simp)
next
  case (DmRemove r)
  show ?thesis
  proof (cases rule: remove_cases [of u r s])
    case (removed m t)
    have "dm_ok t" using removed(5-7) assms set_deleteOne_subset [of "\<lambda>x. m_id x = m_id m" "dm_msgs s"]
      by (auto simp: dm_ok_def sorted_deleteOne)
    then show ?thesis using DmRemove removed(1) by simp
  qed (use DmRemove assms in simp)
next
  case (DmMarkRead r)
  then show ?thesis using assms
    by (auto simp: markRead_def await_def requireParticipant_def Let_def map_updateOne
        split: option.split intro: dm_ok_cong [OF assms])
next
  case (DmTyping r b)
  then show ?thesis using assms
    by (auto simp: typing_def await_def requireParticipant_def
        split: option.split intro: dm_ok_cong [OF assms])
next
  case (DmStart r)
  then show ?thesis using assms
    by (auto simp: startConversation_def await_def assertCanDm_def
        split: option.splits prod.splits sum.splits dest: getOrCreate_ok)
next
  case (DmSystem r tx d)
  obtain x t where g: "getOrCreateConversation u r s = (x, t)" by fastforce
  note ok = getOrCreate_ok [OF assms g]
  show ?thesis
  proof (cases x)
    case (Inl e)
    then show ?thesis using DmSystem g ok by (simp add: postSystemMessage_def)
  next
    case (Inr c)
    show ?thesis using DmSystem
      by (auto simp: postSystemMessage_def g Inr Let_def fresh_id_def bump_keys
          intro!: dm_ok_append [OF ok])
  qed
qed (use assms send_ok in auto)

section \<open>Properties\<close>

lemma mem_updateOne_other: "\<lbrakk>x \<in> set ds; \<not> P x\<rbrakk> \<Longrightarrow> x \<in> set (updateOne P f ds)"
  by (induction ds) auto

lemma mem_deleteOne_other: "\<lbrakk>x \<in> set ds; \<not> P x\<rbrakk> \<Longrightarrow> x \<in> set (deleteOne P ds)"
  by (induction ds) auto

lemma find_msg_mem:
  assumes "dm_ok s" "x \<in> set (dm_msgs s)"
  shows "find_msg (m_id x) s = Some x"
proof -
  have "distinct (map m_id (dm_msgs s))"
    using assms(1) strict_sorted_iff by (auto simp: dm_ok_def)
  then show ?thesis unfolding find_msg_def using assms(2) by (rule find_key_unique)
qed

definition plain_aead :: aead where
  "plain_aead = \<lparr>seal_gcm = (\<lambda>_ p. (replicate 16 CHR ''t'', p)), open_gcm = (\<lambda>_ _ c. Some c),
     iv_bytes = (\<lambda>_. replicate 12 CHR ''i'')\<rparr>"

definition dm0 :: dm_st where
  "dm0 = friends_st.extend friends0 \<lparr>
     convs = [\<lparr>c_id = 5, participants = [1, 2], lastMessageAt = None, unread = (\<lambda>_. None)\<rparr>],
     dm_msgs = [\<lparr>m_id = 6, m_conversationId = 5, m_senderId = 1, m_type = DM_SYSTEM, m_content = ''hi'',
       m_systemData = None, m_attachments = [], m_replyToId = None, m_editedAt = None\<rparr>],
     dm_log = []\<rparr>"

lemmas dm0_defs = dm0_def friends_st.extend_def notif_st.extend_def friends0_def demo_user_def user_of_def

lemma dm0_ok: "dm_ok dm0"
  by (simp add: dm_ok_def dm0_defs)

text \<open>
  Whatever the users do with direct messages, each pair of users has at most one conversation,
  every conversation has exactly two participants, and the messages stay in the order of their
  distinct identifiers.
\<close>

theorem dm_one_conversation_per_pair:
  assumes "dm_ok s"
  shows "dm_ok (fold (dm_step ci) ops s)"
  using assms
proof (induction ops arbitrary: s)
  case (Cons p ops)
  then show ?case by (cases p) (simp add: dm_step_ok)
qed simp

theorem dm_one_conversation_per_pair_witness:
  "dm_ok (fold (dm_step plain_aead) [(1, DmStart (Hex 3)), (2, DmRemove (Hex 6)), (3, DmStart (Hex 1))] dm0)"
  by (rule dm_one_conversation_per_pair [OF dm0_ok])

text \<open>
  C29: A user's operation never changes or removes a message of another user, and nobody's operation
  changes or removes a system message: both are still stored, as they were, afterwards.
\<close>

theorem dm_messages_protected:
  assumes "dm_ok s" "x \<in> set (dm_msgs s)" "m_type x = DM_SYSTEM \<or> m_senderId x \<noteq> u"
  shows "x \<in> set (dm_msgs (dm_step ci (u, op) s))"
proof (cases op)
  case (DmSend dto)
  obtain y t where st: "send ci u dto s = (y, t)" by fastforce
  from st show ?thesis by (cases rule: send_cases) (use DmSend st assms in simp_all)
next
  case (DmEdit r tx)
  show ?thesis
  proof (cases rule: edit_cases [of ci u r tx s])
    case (edited m t)
    have "m_id x \<noteq> m_id m" using edited(5) find_msg_mem [OF assms(1,2)] assms(3) by auto
    then show ?thesis using DmEdit edited(1,4) assms(2) mem_updateOne_other by simp
  qed (use DmEdit assms in simp)
next
  case (DmRemove r)
  show ?thesis
  proof (cases rule: remove_cases [of u r s])
    case (removed m t)
    have "m_id x \<noteq> m_id m" using removed(2-4) find_msg_mem [OF assms(1,2)] assms(3) by auto
    then show ?thesis using DmRemove removed(1,5) assms(2) mem_deleteOne_other by simp
  qed (use DmRemove assms in simp)
next
  case (DmSystem r tx d)
  obtain y t where g: "getOrCreateConversation u r s = (y, t)" by fastforce
  show ?thesis using DmSystem assms(2) getOrCreate_frame(1) [OF g]
    by (simp add: postSystemMessage_def g Let_def fresh_id_def split: sum.split)
next
  case (DmStart r)
  obtain y t where g: "getOrCreateConversation u r s = (y, t)" by fastforce
  show ?thesis using DmStart assms(2) getOrCreate_frame(1) [OF g]
    by (auto simp: startConversation_def await_def assertCanDm_def g split: option.split sum.split)
qed (use assms in \<open>simp_all add: markRead_def typing_def await_def requireParticipant_def Let_def split: option.split\<close>)

theorem dm_messages_protected_witness:
  "hd (dm_msgs dm0) \<in> set (dm_msgs (dm_step plain_aead (1, DmRemove (Hex 6)) dm0))"
  by (rule dm_messages_protected [OF dm0_ok]) (simp_all add: dm0_defs)

text \<open>
  Blocking closes direct messages: while either of two users has blocked the other, no message
  is sent and no conversation opened between them under their printed identifiers; the
  attempt is refused and changes nothing.
\<close>

theorem dm_refused_when_blocked:
  assumes "d \<in> set (friends s)" "f_state d = BLOCKED" "between u b d" "sd_toUserId dto = Hex b"
  shows "send ci u dto s = (Inl (Forbidden ''Cannot message this user''), s)
     \<and> startConversation u (Hex b) s = (Inl (Forbidden ''Cannot message this user''), s)"
proof -
  have "List.find (\<lambda>d. f_state d = BLOCKED \<and> between u b d) (friends s) \<noteq> None"
    using assms(1-3) by (auto simp: find_None_iff_all)
  then show ?thesis using assms(4)
    by (simp add: send_def startConversation_def assertCanDm_def await_def)
qed

theorem dm_refused_when_blocked_witness:
  "fst (startConversation 2 (Hex 1) (dm0\<lparr>friends := [\<lparr>f_id = 9, requesterId = 1, addresseeId = 2, f_state = BLOCKED\<rparr>]\<rparr>))
     = Inl (Forbidden ''Cannot message this user'')"
  using dm_refused_when_blocked [of "\<lparr>f_id = 9, requesterId = 1, addresseeId = 2, f_state = BLOCKED\<rparr>"
      "dm0\<lparr>friends := [\<lparr>f_id = 9, requesterId = 1, addresseeId = 2, f_state = BLOCKED\<rparr>]\<rparr>" 2 1
      "\<lparr>sd_toUserId = Hex 1, sd_content = None, sd_attachments = [], sd_replyToId = None\<rparr>"]
  by (simp add: between_def)

lemma conv_of_keys:
  assumes "map c_id (convs t) = map c_id (convs s)"
    "map participants (convs t) = map participants (convs s)" "c \<in> set (convs s)" "dm_ok t"
  shows "\<exists>c'. find_conv (c_id c) t = Some c' \<and> c' \<in> set (convs t) \<and> c_id c' = c_id c
     \<and> participants c' = participants c"
proof -
  obtain k where k: "k < length (convs s)" "convs s ! k = c" using assms(3) by (auto simp: in_set_conv_nth)
  have len: "length (convs t) = length (convs s)" using assms(1) by (metis length_map)
  have "c_id (convs t ! k) = c_id c" "participants (convs t ! k) = participants c"
    using k len assms(1,2) by (metis nth_map)+
  moreover have "convs t ! k \<in> set (convs t)" using k len by simp
  moreover have "find_conv (c_id (convs t ! k)) t = Some (convs t ! k)"
    unfolding find_conv_def by (rule find_key_unique) (use assms(4) calculation in \<open>auto simp: dm_ok_def\<close>)
  ultimately show ?thesis by metis
qed

lemma getOrCreate_result:
  assumes "dm_ok s" "getOrCreateConversation u (Hex b) s = (Inr c, t)"
  shows "c \<in> set (convs t) \<and> set (participants c) = {u, b}"
  using assms(2)
proof (cases rule: getOrCreate_cases)
  case (existing c' b')
  then show ?thesis using assms(1) pair_card [of "participants c'" u b] set_pairKey [of "Hex b" b u]
    by (auto simp: conv_match_def dm_ok_def)
next
  case (created c' b')
  then show ?thesis using set_pairKey [of "Hex b" b u] by simp
qed simp_all

lemma history_newest:
  assumes "find_conv i t = Some c" "u \<in> set (participants c)" "dm_msgs t = ms @ [m]"
    "m_conversationId m = c_id c"
  shows "\<exists>p. history ci u (Hex i) None 0 t = (Inr p, t) \<and> hd (dp_items p) = decryptMessage ci m"
  using assms by (simp add: history_def requireParticipant_def await_def Let_def opt_oid_def)

text \<open>
  A message that was sent can be read: the text a successful send returns is the trimmed request
  text (the cipher round trip), it is stored in the conversation whose participants are exactly
  the two users, and it is the newest entry of the history that either of them reads.
\<close>

theorem dm_send_delivered:
  assumes "aead_ok ci" "dm_ok s" "sd_toUserId dto = Hex b" "send ci u dto s = (Inr m, t)"
  shows "m_content m = trim (case sd_content dto of None \<Rightarrow> '''' | Some x \<Rightarrow> x)
     \<and> (\<exists>c \<in> set (convs t). c_id c = m_conversationId m \<and> set (participants c) = {u, b}
         \<and> (\<forall>v \<in> {u, b}. \<exists>p. history ci v (Hex (c_id c)) None 0 t = (Inr p, t) \<and> hd (dp_items p) = m))"
  using assms(4)
proof (cases rule: send_cases)
  case (sent c s1)
  let ?raw = "sent_msg ci u dto (c_id c) (next_id s1)"
  have m: "m = decryptMessage ci ?raw" using sent(1) by simp
  note g = conjunct1 [OF getOrCreate_result [OF assms(2) sent(2) [unfolded assms(3)]]]
    conjunct2 [OF getOrCreate_result [OF assms(2) sent(2) [unfolded assms(3)]]]
  have t: "dm_ok t" using send_ok [OF assms(2), of ci u dto] assms(4) by simp
  obtain c' where c': "find_conv (c_id c) t = Some c'" "c' \<in> set (convs t)" "c_id c' = c_id c"
      "participants c' = participants c"
    using conv_of_keys [OF sent(5,6) g(1) t] by blast
  have "m_content m = trim (case sd_content dto of None \<Rightarrow> '''' | Some x \<Rightarrow> x)"
    using encrypt_nonempty [OF assms(1)] decrypt_encrypt [OF assms(1)]
    by (auto simp: m decryptMessage_def sent_msg_def Let_def)
  moreover have "m_conversationId m = c_id c" by (simp add: m decryptMessage_def)
  moreover have "\<exists>p. history ci v (Hex (c_id c')) None 0 t = (Inr p, t) \<and> hd (dp_items p) = m"
    if "v \<in> {u, b}" for v
    unfolding c'(3) m by (rule history_newest [OF c'(1) _ sent(4)]) (use that c' g in simp_all)
  ultimately show ?thesis using c' g(2) by metis
qed simp

text \<open>A cipher for the examples: the tag is constant and the text is kept.\<close>

lemma plain_aead_ok: "aead_ok plain_aead"
  by (simp add: aead_ok_def plain_aead_def)

theorem dm_send_delivered_witness:
  "\<exists>m t. send plain_aead 1 \<lparr>sd_toUserId = Hex 2, sd_content = Some '' yo '', sd_attachments = [], sd_replyToId = None\<rparr> dm0
      = (Inr m, t) \<and> m_content m = ''yo''"
proof -
  let ?d = "\<lparr>sd_toUserId = Hex 2, sd_content = Some '' yo '', sd_attachments = [], sd_replyToId = None\<rparr>"
  have trim: "trim '' yo '' = ''yo''" by code_simp
  have "\<exists>m t. send plain_aead 1 ?d dm0 = (Inr m, t)"
    by (simp add: send_def assertCanDm_def await_def getOrCreateConversation_def findByIdOrThrow_def
        findById_def find_user_def Let_def trim conv_match_def pairKey_def List.map_filter_def dm0_defs fresh_id_def)
  then obtain m t where "send plain_aead 1 ?d dm0 = (Inr m, t)" by blast
  with dm_send_delivered [OF plain_aead_ok dm0_ok _ this, of 2] trim show ?thesis by auto
qed

text \<open>
  A message addressed to another spelling of the sender's own identifier passes the self check
  and lands in the first conversation the sender takes part in, whoever the other participant is,
  so a user who was blocked still writes into the conversation with the blocker.
\<close>

theorem dm_self_spelling_misfiled:
  assumes "dm_ok s" "find_user u s \<noteq> None" "findBetween u u s = None"
    "List.find (\<lambda>c. u \<in> set (participants c)) (convs s) = Some c" "trim txt0 \<noteq> []"
  shows "\<exists>m t. send ci u \<lparr>sd_toUserId = Alt u sp, sd_content = Some txt0, sd_attachments = [], sd_replyToId = None\<rparr> s
      = (Inr m, t) \<and> m_conversationId m = c_id c"
proof -
  have noblock: "List.find (\<lambda>d. f_state d = BLOCKED \<and> between u u d) (friends s) = None"
    using assms(3) by (auto simp: findBetween_def find_None_iff_all)
  have "conv_match (pairKey (Hex u) (Alt u sp)) x \<longleftrightarrow> u \<in> set (participants x)" if "x \<in> set (convs s)" for x
    using that assms(1) set_pairKey [of "Alt u sp" u u] by (auto simp: conv_match_def dm_ok_def)
  then have find: "List.find (conv_match (pairKey (Hex u) (Alt u sp))) (convs s) = Some c"
    using assms(4) by (subst find_cong [OF refl, where Q = "\<lambda>c. u \<in> set (participants c)"]) auto
  have u: "findById (Alt u sp) s \<noteq> None" using assms(2) by (simp add: findById_def)
  show ?thesis using noblock find u assms(5)
    by (auto simp: send_def assertCanDm_def await_def getOrCreateConversation_def findByIdOrThrow_def
        Let_def fresh_id_def decryptMessage_def split: option.split)
qed

theorem dm_self_spelling_misfiled_witness:
  "\<exists>m t. send plain_aead 1 \<lparr>sd_toUserId = Alt 1 ''X'', sd_content = Some ''yo'', sd_attachments = [], sd_replyToId = None\<rparr>
      (dm0\<lparr>friends := [\<lparr>f_id = 9, requesterId = 2, addresseeId = 1, f_state = BLOCKED\<rparr>]\<rparr>) = (Inr m, t)
     \<and> m_conversationId m = 5"
proof -
  let ?s = "dm0\<lparr>friends := [\<lparr>f_id = 9, requesterId = 2, addresseeId = 1, f_state = BLOCKED\<rparr>]\<rparr>"
  have "dm_ok ?s" using dm0_ok by (simp add: dm_ok_def)
  moreover have "find_user 1 ?s \<noteq> None" "findBetween 1 1 ?s = None"
    "List.find (\<lambda>c. 1 \<in> set (participants c)) (convs ?s) = Some (hd (convs dm0))"
    by (simp_all add: dm0_defs find_user_def findBetween_def between_def)
  moreover have "trim ''yo'' \<noteq> []" by code_simp
  ultimately show ?thesis using dm_self_spelling_misfiled [of ?s 1 "hd (convs dm0)" "''yo''" plain_aead "''X''"]
    by (simp add: dm0_defs)
qed

end
