(* ===== verification/Wallet.thy ===== *)
theory Wallet
  imports Dm
begin

text \<open>
  The coin ledger of \<open>src/wallet/wallet.service.ts\<close>: every change of a balance is an
  atomic update with a transaction record, and a transfer is a debit and a credit in one database
  transaction. Amounts are whole coins (the request classes admit integers only).
\<close>

section \<open>State\<close>

record Transaction =
  t_id :: oid
  t_userId :: oid
  t_type :: TxType
  t_amount :: int
  t_balanceAfter :: int
  t_reason :: "string option"
  t_refId :: "string option"
  t_transferId :: "string option"

datatype wallet_event = Wallet_transaction int Transaction

record wallet_st = dm_st +
  txs :: "Transaction list"
  wallet_log :: "(target \<times> wallet_event) list"

section \<open>Operations\<close>

definition emitWalletEvent :: "raw_id \<Rightarrow> int \<times> Transaction \<Rightarrow> 'a wallet_st_scheme \<Rightarrow> 'a wallet_st_scheme" where
  "emitWalletEvent r p s =
     s\<lparr>wallet_log := wallet_log s @ [(UserRoom r, Wallet_transaction (fst p) (snd p))]\<rparr>"

definition getBalance :: "oid \<Rightarrow> 'a env_st_scheme \<Rightarrow> (int, 'a env_st_scheme) outcome" where
  "getBalance u s =
     (case find_user u s of None \<Rightarrow> throw (NotFound ''User not found'') s | Some d \<Rightarrow> return (balance d) s)"

definition listTransactions :: "oid \<Rightarrow> nat \<Rightarrow> nat \<Rightarrow> 'a wallet_st_scheme \<Rightarrow> Transaction PaginatedResult" where
  "listTransactions u p l s = find_page (\<lambda>d. t_userId d = u) p l (txs s)"

definition insertTx :: "oid \<Rightarrow> TxType \<Rightarrow> int \<Rightarrow> int \<Rightarrow> string option \<Rightarrow> string option \<Rightarrow> string option
    \<Rightarrow> 'a wallet_st_scheme \<Rightarrow> Transaction \<times> 'a wallet_st_scheme" where
  "insertTx u ty amount after reason refId transferId s =
     (let (i, s) = fresh_id s;
          tx = \<lparr>t_id = i, t_userId = u, t_type = ty, t_amount = amount, t_balanceAfter = after,
                t_reason = reason, t_refId = refId, t_transferId = transferId\<rparr>
      in (tx, s\<lparr>txs := txs s @ [tx]\<rparr>))"

text \<open>
  \<open>credit\<close> and \<open>debit\<close> inside a session of the caller; the guard of \<open>debit\<close> is part of the update's
  filter.
\<close>

definition credit_in :: "raw_id \<Rightarrow> int \<Rightarrow> TxType \<Rightarrow> string option \<Rightarrow> string option \<Rightarrow> string option
    \<Rightarrow> 'a wallet_st_scheme \<Rightarrow> (int \<times> Transaction, 'a wallet_st_scheme) outcome" where
  "credit_in r amount ty reason refId transferId s =
     (if amount \<le> 0 then throw (BadRequest ''amount must be positive'') s
      else case read_oid r of
        None \<Rightarrow> throw (BadRequest ''CastError'') s
      | Some u \<Rightarrow>
          let s' = set_user u (\<lambda>d. d\<lparr>balance := balance d + amount\<rparr>) s in
          (case find_user u s' of
             None \<Rightarrow> throw (NotFound ''User not found'') s
           | Some d \<Rightarrow>
               let (tx, s') = insertTx u ty amount (balance d) reason refId transferId s'
               in return (balance d, tx) s'))"

definition debit_in :: "raw_id \<Rightarrow> int \<Rightarrow> TxType \<Rightarrow> string option \<Rightarrow> string option \<Rightarrow> string option
    \<Rightarrow> 'a wallet_st_scheme \<Rightarrow> (int \<times> Transaction, 'a wallet_st_scheme) outcome" where
  "debit_in r amount ty reason refId transferId s =
     (if amount \<le> 0 then throw (BadRequest ''amount must be positive'') s
      else case read_oid r of
        None \<Rightarrow> throw (BadRequest ''CastError'') s
      | Some u \<Rightarrow>
          (case List.find (\<lambda>d. u_id d = u \<and> amount \<le> balance d) (users s) of
             None \<Rightarrow>
               if find_user u s = None then throw (NotFound ''User not found'') s
               else throw (BadRequest ''Insufficient balance'') s
           | Some d \<Rightarrow>
               let s' = s\<lparr>users := updateOne (\<lambda>d. u_id d = u \<and> amount \<le> balance d)
                                   (\<lambda>d. d\<lparr>balance := balance d - amount\<rparr>) (users s)\<rparr>;
                   (tx, s') = insertTx u ty (- amount) (balance d - amount) reason refId transferId s'
               in return (balance d - amount, tx) s'))"

text \<open>The same in a transaction of their own, with the event after the commit.\<close>

definition credit :: "raw_id \<Rightarrow> int \<Rightarrow> TxType \<Rightarrow> string option \<Rightarrow> string option
    \<Rightarrow> 'a wallet_st_scheme \<Rightarrow> (int \<times> Transaction, 'a wallet_st_scheme) outcome" where
  "credit r amount ty reason refId =
     await (withTransaction (credit_in r amount ty reason refId None))
       (\<lambda>p s. return p (emitWalletEvent r p s))"

definition debit :: "raw_id \<Rightarrow> int \<Rightarrow> TxType \<Rightarrow> string option \<Rightarrow> string option
    \<Rightarrow> 'a wallet_st_scheme \<Rightarrow> (int \<times> Transaction, 'a wallet_st_scheme) outcome" where
  "debit r amount ty reason refId =
     await (withTransaction (debit_in r amount ty reason refId None))
       (\<lambda>p s. return p (emitWalletEvent r p s))"

definition spend :: "oid \<Rightarrow> int \<Rightarrow> string \<Rightarrow> string option \<Rightarrow> 'a wallet_st_scheme
    \<Rightarrow> (int \<times> Transaction, 'a wallet_st_scheme) outcome" where
  "spend u amount reason refId = debit (Hex u) amount SPEND (Some reason) refId"

record TopupTicket =
  tp_amount :: int
  tp_method :: string
  tp_refId :: string

definition createTopup :: "oid \<Rightarrow> int \<Rightarrow> string \<Rightarrow> 'a env_st_scheme \<Rightarrow> TopupTicket" where
  "createTopup u amount method s =
     \<lparr>tp_amount = amount, tp_method = method,
      tp_refId = ''topup_'' @ int_str (clock s) @ ''_'' @ drop 18 (oid_str u)\<rparr>"

definition confirmTopup :: "oid \<Rightarrow> int \<Rightarrow> string \<Rightarrow> 'a wallet_st_scheme
    \<Rightarrow> (int \<times> Transaction, 'a wallet_st_scheme) outcome" where
  "confirmTopup u amount refId = credit (Hex u) amount TOPUP (Some ''Top-up'') (Some refId)"

record TransferDto =
  tr_toUserId :: raw_id
  tr_amount :: int
  tr_note :: "string option"

record TransferReceipt =
  rc_transferId :: string
  rc_fromUserId :: oid
  rc_toUserId :: raw_id
  rc_amount :: int
  rc_note :: "string option"
  rc_createdAt :: int

text \<open>\<open>note || text\<close>: an empty note counts as none.\<close>

definition or_default :: "string option \<Rightarrow> string \<Rightarrow> string" where
  "or_default n d = (case n of None \<Rightarrow> d | Some x \<Rightarrow> if x = [] then d else x)"

definition transfer :: "aead \<Rightarrow> oid \<Rightarrow> TransferDto \<Rightarrow> 'a wallet_st_scheme
    \<Rightarrow> (TransferReceipt, 'a wallet_st_scheme) outcome" where
  "transfer ci from dto s =
     (if tr_toUserId dto = Hex from then throw (BadRequest ''Cannot transfer to yourself'') s
      else
        let (uuid, s) = fresh_id s;
            transferId = ''tf_'' @ nat_str uuid;
            to_user = tr_toUserId dto
        in await (withTransaction
             (await (debit_in (Hex from) (tr_amount dto) TRANSFER
                 (Some (or_default (tr_note dto) (''Transfer to '' @ id_str to_user)))
                 (Some (id_str to_user)) (Some transferId))
               (\<lambda>d. await (credit_in to_user (tr_amount dto) TRANSFER
                   (Some (or_default (tr_note dto) (''Transfer from '' @ oid_str from)))
                   (Some (oid_str from)) (Some transferId))
                 (\<lambda>c. return (d, c)))))
             (\<lambda>(d, c) s.
               let s = emitWalletEvent (Hex from) d s;
                   s = emitWalletEvent to_user c s;
                   (_, s) = postSystemMessage ci from to_user
                     (trim (case tr_note dto of None \<Rightarrow> '''' | Some x \<Rightarrow> x))
                     \<lparr>td_transferId = transferId, td_fromUserId = from, td_toUserId = to_user,
                      td_amount = tr_amount dto, td_note = tr_note dto\<rparr> s
               in return \<lparr>rc_transferId = transferId, rc_fromUserId = from, rc_toUserId = to_user,
                          rc_amount = tr_amount dto, rc_note = tr_note dto, rc_createdAt = clock s\<rparr> s) s)"

record TransferDetail =
  dt_transferId :: string
  dt_amount :: int
  dt_note :: "string option"
  dt_from :: "(oid \<times> UserCard option) option"
  dt_to :: "(oid \<times> UserCard option) option"
  dt_out :: bool
  dt_myBalanceAfter :: "int option"
  dt_myTransactionId :: "oid option"

definition getTransferDetail :: "oid \<Rightarrow> string \<Rightarrow> 'a wallet_st_scheme
    \<Rightarrow> (TransferDetail, 'a wallet_st_scheme) outcome" where
  "getTransferDetail viewer transferId s =
     (let records = sort_key t_amount (filter (\<lambda>t. t_transferId t = Some transferId) (txs s)) in
      if records = [] then throw (NotFound ''Transfer not found'') s
      else
        let deb = List.find (\<lambda>t. t_amount t < 0) records;
            cre = List.find (\<lambda>t. t_amount t > 0) records;
            from = map_option t_userId deb;
            dest = map_option t_userId cre
        in if Some viewer \<noteq> from \<and> Some viewer \<noteq> dest
           then throw (Forbidden ''Not a participant of this transfer'') s
           else
             let card = (\<lambda>u. (u, card_of u s));
                 mine = List.find (\<lambda>t. t_userId t = viewer) records
             in return
               \<lparr>dt_transferId = transferId,
                dt_amount = (case cre of Some c \<Rightarrow> t_amount c
                             | None \<Rightarrow> (case deb of Some d \<Rightarrow> \<bar>t_amount d\<bar> | None \<Rightarrow> 0)),
                dt_note = (case (case deb of Some d \<Rightarrow> Some d | None \<Rightarrow> cre) of Some r \<Rightarrow> t_reason r | None \<Rightarrow> None),
                dt_from = map_option card from, dt_to = map_option card dest,
                dt_out = (Some viewer = from),
                dt_myBalanceAfter = map_option t_balanceAfter mine,
                dt_myTransactionId = map_option t_id mine\<rparr> s)"

definition adminAdjust :: "oid \<Rightarrow> int \<Rightarrow> string \<Rightarrow> 'a wallet_st_scheme
    \<Rightarrow> (int \<times> Transaction, 'a wallet_st_scheme) outcome" where
  "adminAdjust u amount reason s =
     (if amount = 0 then throw (BadRequest ''amount cannot be zero'') s
      else if amount > 0 then credit (Hex u) amount REWARD (Some reason) None s
      else debit (Hex u) \<bar>amount\<bar> REFUND (Some reason) None s)"

section \<open>What a movement does\<close>

definition coins :: "'a env_st_scheme \<Rightarrow> int" where
  "coins s = sum_list (map balance (users s))"

definition balance_of :: "'a env_st_scheme \<Rightarrow> oid \<Rightarrow> int" where
  "balance_of s u = (case find_user u s of None \<Rightarrow> 0 | Some d \<Rightarrow> balance d)"

text \<open>
  Every movement of an amount (negative for a debit): the balance of one existing user moves by
  it, one record of it is appended, and nothing else changes.
\<close>

definition moved :: "raw_id \<Rightarrow> int \<Rightarrow> Transaction \<Rightarrow> 'a wallet_st_scheme \<Rightarrow> 'a wallet_st_scheme \<Rightarrow> bool" where
  "moved r amount tx s t \<longleftrightarrow> (\<exists>u d. read_oid r = Some u \<and> find_user u s = Some d
     \<and> t_userId tx = u \<and> t_amount tx = amount \<and> t_balanceAfter tx = balance d + amount \<and> t_id tx = next_id s
     \<and> 0 \<le> balance d + amount
     \<and> t = s\<lparr>users := updateOne (\<lambda>x. u_id x = u) (\<lambda>x. x\<lparr>balance := balance x + amount\<rparr>) (users s),
             next_id := Suc (next_id s), txs := txs s @ [tx]\<rparr>)"

text \<open>In a collection with distinct identifiers the guard of a debit selects the user or nobody.\<close>

lemma find_guarded:
  fixes ds :: "User list"
  assumes "distinct (map u_id ds)"
  shows "List.find (\<lambda>d. u_id d = u \<and> G d) ds
     = (case List.find (\<lambda>d. u_id d = u) ds of None \<Rightarrow> None | Some d \<Rightarrow> if G d then Some d else None)"
    "\<lbrakk>List.find (\<lambda>d. u_id d = u) ds = Some d; G d\<rbrakk>
       \<Longrightarrow> updateOne (\<lambda>d. u_id d = u \<and> G d) f ds = updateOne (\<lambda>d. u_id d = u) f ds"
proof -
  have none: "List.find (\<lambda>d. u_id d = u \<and> G d) xs = None" if "u \<notin> u_id ` set xs" for xs :: "User list"
    using that by (auto simp: find_None_iff_all)
  show "List.find (\<lambda>d. u_id d = u \<and> G d) ds
     = (case List.find (\<lambda>d. u_id d = u) ds of None \<Rightarrow> None | Some d \<Rightarrow> if G d then Some d else None)"
    using assms
  proof (induction ds)
    case (Cons a ds)
    then show ?case using none [of ds]
      by (cases "u_id a = u \<and> \<not> G a") (auto simp: find_None_iff_all [of "\<lambda>d. u_id d = u"] split: option.split)
  qed simp
  show "\<lbrakk>List.find (\<lambda>d. u_id d = u) ds = Some d; G d\<rbrakk>
       \<Longrightarrow> updateOne (\<lambda>d. u_id d = u \<and> G d) f ds = updateOne (\<lambda>d. u_id d = u) f ds"
    using assms by (induction ds) (auto split: if_splits)
qed

lemma users_ok_ids: "users_ok s \<Longrightarrow> distinct (map u_id (users s))"
  by (simp add: users_ok_def)

lemma find_user_nonneg: "\<lbrakk>users_ok s; find_user u s = Some d\<rbrakk> \<Longrightarrow> 0 \<le> balance d"
  by (auto simp: users_ok_def user_ok_def dest: find_user_Some)

lemma credit_in_cases:
  assumes "users_ok s" "credit_in r amount ty reason refId tid s = (x, t)"
  obtains (error) e where "x = Inl e" "t = s"
  | (ok) tx where "x = Inr (t_balanceAfter tx, tx)" "moved r amount tx s t" "0 < amount"
      "t_type tx = ty" "t_transferId tx = tid" "t_reason tx = reason" "t_refId tx = refId"
proof (cases "amount \<le> 0 \<or> findById r s = None")
  case True
  then show thesis using assms(2) error
    by (auto simp: credit_in_def findById_def Let_def find_set_user split: option.splits if_splits)
next
  case False
  then obtain u d where u: "read_oid r = Some u" "find_user u s = Some d" "0 < amount"
    by (auto simp: findById_def split: option.splits)
  let ?tx = "\<lparr>t_id = next_id s, t_userId = u, t_type = ty, t_amount = amount,
     t_balanceAfter = balance d + amount, t_reason = reason, t_refId = refId, t_transferId = tid\<rparr>"
  have "find_user u (set_user u (\<lambda>x. x\<lparr>balance := balance x + amount\<rparr>) s) = Some (d\<lparr>balance := balance d + amount\<rparr>)"
    using u(2) by (subst find_set_user) simp_all
  then have "x = Inr (balance d + amount, ?tx)" "moved r amount ?tx s t"
    using assms(2) u find_user_nonneg [OF assms(1) u(2)]
    by (auto simp: credit_in_def Let_def insertTx_def fresh_id_def moved_def set_user_def)
  then show thesis using ok [of ?tx] u(3) by simp
qed

lemma debit_in_cases:
  assumes "users_ok s" "debit_in r amount ty reason refId tid s = (x, t)"
  obtains (error) e where "x = Inl e" "t = s"
  | (ok) tx where "x = Inr (t_balanceAfter tx, tx)" "moved r (- amount) tx s t" "0 < amount"
      "t_type tx = ty" "t_transferId tx = tid" "t_reason tx = reason" "t_refId tx = refId"
proof -
  note fg = find_guarded(1) [OF users_ok_ids [OF assms(1)]]
  show thesis
  proof (cases "0 < amount \<and> (\<exists>u d. read_oid r = Some u \<and> find_user u s = Some d \<and> amount \<le> balance d)")
    case False
    then show thesis using assms(2) error
      by (auto simp: debit_in_def fg find_user_def [symmetric] split: option.splits if_splits)
  next
    case True
    then obtain u d where u: "read_oid r = Some u" "find_user u s = Some d" "amount \<le> balance d" "0 < amount"
      by blast
    let ?tx = "\<lparr>t_id = next_id s, t_userId = u, t_type = ty, t_amount = - amount,
       t_balanceAfter = balance d - amount, t_reason = reason, t_refId = refId, t_transferId = tid\<rparr>"
    have upd: "updateOne (\<lambda>d. u_id d = u \<and> amount \<le> balance d) f (users s)
        = updateOne (\<lambda>d. u_id d = u) f (users s)" for f
      by (rule find_guarded(2) [OF users_ok_ids [OF assms(1)]]) (use u(2,3) in \<open>auto simp: find_user_def\<close>)
    have "List.find (\<lambda>d. u_id d = u \<and> amount \<le> balance d) (users s) = Some d"
      using u(2,3) by (simp add: fg find_user_def)
    then have "x = Inr (balance d - amount, ?tx)" "moved r (- amount) ?tx s t"
      using assms(2) u by (auto simp: debit_in_def Let_def insertTx_def fresh_id_def moved_def upd)
    then show thesis using ok [of ?tx] u(4) by simp
  qed
qed

text \<open>A debit succeeds exactly when the user exists and can pay; a credit when the user exists.\<close>

lemma debit_in_success:
  assumes "users_ok s" "find_user u s = Some d" "0 < amount" "amount \<le> balance d"
  shows "\<exists>tx t. debit_in (Hex u) amount ty reason refId tid s = (Inr (balance d - amount, tx), t)"
  using assms find_guarded(1) [OF users_ok_ids [OF assms(1)], of u "\<lambda>d. amount \<le> balance d"]
  by (simp add: debit_in_def find_user_def Let_def insertTx_def fresh_id_def)

lemma credit_in_success:
  assumes "find_user u s = Some d" "0 < amount"
  shows "\<exists>tx t. credit_in (Hex u) amount ty reason refId tid s = (Inr (balance d + amount, tx), t)"
proof -
  have "find_user u (set_user u (\<lambda>x. x\<lparr>balance := balance x + amount\<rparr>) s) = Some (d\<lparr>balance := balance d + amount\<rparr>)"
    using assms(1) by (subst find_set_user) simp_all
  then show ?thesis using assms(2) by (simp add: credit_in_def Let_def insertTx_def fresh_id_def)
qed

section \<open>Consequences of a movement\<close>

lemma moved_coins: "moved r a tx s t \<Longrightarrow> coins t = coins s + a"
  by (auto simp: moved_def coins_def sum_updateOne find_user_def)

lemma moved_balance:
  assumes "moved r a tx s t"
  shows "balance_of t v = balance_of s v + (if read_oid r = Some v then a else 0)"
proof -
  obtain u d where u: "read_oid r = Some u" "find_user u s = Some d"
    "users t = users (set_user u (\<lambda>x. x\<lparr>balance := balance x + a\<rparr>) s)"
    using assms by (auto simp: moved_def set_user_def)
  have "find_user v t = (if v = u then map_option (\<lambda>x. x\<lparr>balance := balance x + a\<rparr>) (find_user v s) else find_user v s)"
    unfolding find_user_def u(3) by (fold find_user_def) (rule find_set_user, simp)
  then show ?thesis using u(1,2) by (auto simp: balance_of_def split: option.split)
qed

lemma moved_users_ok:
  assumes "moved r a tx s t" "users_ok s"
  shows "users_ok t"
proof -
  obtain u d where u: "find_user u s = Some d" "0 \<le> balance d + a"
    "users t = users (set_user u (\<lambda>x. x\<lparr>balance := balance x + a\<rparr>) s)" "next_id t = Suc (next_id s)"
    using assms(1) by (auto simp: moved_def set_user_def)
  have "users_ok (set_user u (\<lambda>x. x\<lparr>balance := balance x + a\<rparr>) s)"
    by (rule set_user_ok [OF assms(2)]) (use u(1,2) in \<open>auto simp: user_ok_def\<close>)
  then show ?thesis using u(3,4) by (auto simp: users_ok_def less_SucI)
qed

text \<open>The books: a user's balance is the sum of the amounts of the user's records.\<close>

definition booked :: "'a wallet_st_scheme \<Rightarrow> oid \<Rightarrow> int" where
  "booked s u = sum_list (map t_amount (filter (\<lambda>t. t_userId t = u) (txs s)))"

definition books_ok :: "'a wallet_st_scheme \<Rightarrow> bool" where
  "books_ok s \<longleftrightarrow> (\<forall>u d. find_user u s = Some d \<longrightarrow> balance d = booked s u)"

lemma moved_books:
  assumes "moved r a tx s t" "books_ok s"
  shows "books_ok t"
proof -
  obtain u d where u: "read_oid r = Some u" "find_user u s = Some d" "t_userId tx = u" "t_amount tx = a"
    "users t = users (set_user u (\<lambda>x. x\<lparr>balance := balance x + a\<rparr>) s)" "txs t = txs s @ [tx]"
    using assms by (auto simp: moved_def set_user_def)
  have f: "find_user v t = (if v = u then map_option (\<lambda>x. x\<lparr>balance := balance x + a\<rparr>) (find_user v s) else find_user v s)" for v
    unfolding find_user_def u(5) by (fold find_user_def) (rule find_set_user, simp)
  show ?thesis unfolding books_ok_def
  proof (intro allI impI)
    fix v e assume e: "find_user v t = Some e"
    show "balance e = booked t v"
    proof (cases "v = u")
      case True
      then show ?thesis using e f [of v] u assms(2) by (auto simp: books_ok_def booked_def)
    next
      case False
      then show ?thesis using e f [of v] u assms(2) by (auto simp: books_ok_def booked_def)
    qed
  qed
qed

section \<open>Transfers\<close>

lemma postSystemMessage_frame:
  assumes "postSystemMessage ci u r tx d s = (x, t)"
  shows "users t = users s" "txs t = txs s" "wallet_log t = wallet_log s" "next_id s \<le> next_id t"
    "clock t = clock s"
proof -
  obtain y s1 where g: "getOrCreateConversation u r s = (y, s1)" by fastforce
  have s1: "users s1 = users s" "txs s1 = txs s" "wallet_log s1 = wallet_log s" "next_id s \<le> next_id s1"
    "clock s1 = clock s"
    by (rule getOrCreate_cases [OF g]; simp)+
  show "users t = users s" "txs t = txs s" "wallet_log t = wallet_log s" "next_id s \<le> next_id t"
    "clock t = clock s"
    using assms s1 by (auto simp: postSystemMessage_def g Let_def fresh_id_def bump_def
        emit_participants_def split: sum.splits)
qed

text \<open>The two movements of a transfer, between the state that drew its identifier and the state it leaves.\<close>

definition transferred :: "oid \<Rightarrow> TransferDto \<Rightarrow> Transaction \<Rightarrow> Transaction
    \<Rightarrow> 'a wallet_st_scheme \<Rightarrow> 'a wallet_st_scheme \<Rightarrow> bool" where
  "transferred from dto tx1 tx2 s t \<longleftrightarrow> (\<exists>s1 s2.
     moved (Hex from) (- tr_amount dto) tx1 (s\<lparr>next_id := Suc (next_id s)\<rparr>) s1
     \<and> moved (tr_toUserId dto) (tr_amount dto) tx2 s1 s2
     \<and> users t = users s2 \<and> txs t = txs s2 \<and> next_id s2 \<le> next_id t
     \<and> t_type tx1 = TRANSFER \<and> t_type tx2 = TRANSFER
     \<and> t_transferId tx1 = Some (''tf_'' @ nat_str (next_id s))
     \<and> t_transferId tx2 = Some (''tf_'' @ nat_str (next_id s)))"

lemma users_ok_next [simp]: "users_ok s \<Longrightarrow> users_ok (s\<lparr>next_id := Suc (next_id s)\<rparr>)"
  by (auto simp: users_ok_def less_SucI)

lemma transfer_cases:
  assumes "users_ok s" "transfer ci from dto s = (x, t)"
  obtains (error) e where "x = Inl e" "t = s \<or> t = s\<lparr>next_id := Suc (next_id s)\<rparr>"
  | (ok) rc tx1 tx2 where "x = Inr rc" "transferred from dto tx1 tx2 s t" "0 < tr_amount dto"
      "tr_toUserId dto \<noteq> Hex from" "rc_transferId rc = ''tf_'' @ nat_str (next_id s)"
      "wallet_log t = wallet_log s @
        [(UserRoom (Hex from), Wallet_transaction (t_balanceAfter tx1) tx1),
         (UserRoom (tr_toUserId dto), Wallet_transaction (t_balanceAfter tx2) tx2)]"
proof (cases "tr_toUserId dto = Hex from")
  case True
  then have "x = Inl (BadRequest ''Cannot transfer to yourself'')" "t = s"
    using assms(2) by (auto simp: transfer_def)
  then show thesis using error by blast
next
  case neq: False
  let ?s0 = "s\<lparr>next_id := Suc (next_id s)\<rparr>" and ?tid = "''tf_'' @ nat_str (next_id s)"
  let ?r1 = "Some (or_default (tr_note dto) (''Transfer to '' @ id_str (tr_toUserId dto)))"
  let ?r2 = "Some (or_default (tr_note dto) (''Transfer from '' @ oid_str from))"
  let ?deb = "debit_in (Hex from) (tr_amount dto) TRANSFER ?r1 (Some (id_str (tr_toUserId dto))) (Some ?tid)"
  let ?cre = "credit_in (tr_toUserId dto) (tr_amount dto) TRANSFER ?r2 (Some (oid_str from)) (Some ?tid)"
  have s0: "users_ok ?s0" using assms(1) by simp
  obtain y s1 where d: "?deb ?s0 = (y, s1)" by fastforce
  from s0 d show thesis
  proof (cases rule: debit_in_cases)
    case (error e)
    then have "x = Inl e \<and> t = ?s0" using assms(2) neq d
      by (auto simp: transfer_def fresh_id_def Let_def await_def withTransaction_def)
    then show thesis using that(1) by blast
  next
    case d': (ok tx1)
    have s1: "users_ok s1" using moved_users_ok [OF d'(2) s0] .
    obtain z s2 where c: "?cre s1 = (z, s2)" by fastforce
    from s1 c show thesis
    proof (cases rule: credit_in_cases)
      case (error e)
      then have "x = Inl e \<and> t = ?s0" using assms(2) neq d d' c
        by (auto simp: transfer_def fresh_id_def Let_def await_def withTransaction_def)
      then show thesis using that(1) by blast
    next
      case c': (ok tx2)
      obtain s3 m u where p: "postSystemMessage ci from (tr_toUserId dto)
          (trim (case tr_note dto of None \<Rightarrow> '''' | Some x \<Rightarrow> x))
          \<lparr>td_transferId = ?tid, td_fromUserId = from, td_toUserId = tr_toUserId dto,
           td_amount = tr_amount dto, td_note = tr_note dto\<rparr> s3 = (m, u)"
        and s3: "s3 = emitWalletEvent (tr_toUserId dto) (t_balanceAfter tx2, tx2)
             (emitWalletEvent (Hex from) (t_balanceAfter tx1, tx1) s2)"
        by fastforce
      note f = postSystemMessage_frame [OF p]
      have "transfer ci from dto s = (Inr \<lparr>rc_transferId = ?tid, rc_fromUserId = from,
          rc_toUserId = tr_toUserId dto, rc_amount = tr_amount dto, rc_note = tr_note dto,
          rc_createdAt = clock u\<rparr>, u)"
        using neq d d' c c' p [unfolded s3]
        by (simp add: transfer_def fresh_id_def Let_def await_def withTransaction_def)
      then have xt: "\<exists>rc. x = Inr rc \<and> rc_transferId rc = ?tid" "t = u" using assms(2) by auto
      have log: "wallet_log s2 = wallet_log s"
        using d'(2) c'(2) by (auto simp: moved_def)
      have "transferred from dto tx1 tx2 s t"
        unfolding transferred_def
        by (intro exI [of _ s1] exI [of _ s2]) (use d' c' f xt(2) s3 in \<open>simp add: emitWalletEvent_def\<close>)
      then show thesis using xt that(2) d'(3) neq f(3) log
        by (auto simp: s3 emitWalletEvent_def)
    qed
  qed
qed

section \<open>Committed credits and debits\<close>

text \<open>The same movement with the event of the commit.\<close>

lemma credit_cases:
  assumes "users_ok s" "credit r amount ty reason refId s = (x, t)"
  obtains (error) e where "x = Inl e" "t = s"
  | (ok) tx s1 where "x = Inr (t_balanceAfter tx, tx)" "moved r amount tx s s1" "0 < amount"
      "t = emitWalletEvent r (t_balanceAfter tx, tx) s1" "t_type tx = ty" "t_refId tx = refId"
proof -
  obtain y s1 where c: "credit_in r amount ty reason refId None s = (y, s1)" by fastforce
  from assms(1) c show thesis
  proof (cases rule: credit_in_cases)
    case (error e)
    then have "x = Inl e \<and> t = s" using assms(2) c
      by (auto simp: credit_def await_def withTransaction_def)
    then show thesis using that(1) by blast
  next
    case (ok tx)
    then have "x = Inr (t_balanceAfter tx, tx) \<and> t = emitWalletEvent r (t_balanceAfter tx, tx) s1"
      using assms(2) c by (auto simp: credit_def await_def withTransaction_def)
    then show thesis using that(2) ok by blast
  qed
qed

lemma debit_cases:
  assumes "users_ok s" "debit r amount ty reason refId s = (x, t)"
  obtains (error) e where "x = Inl e" "t = s"
  | (ok) tx s1 where "x = Inr (t_balanceAfter tx, tx)" "moved r (- amount) tx s s1" "0 < amount"
      "t = emitWalletEvent r (t_balanceAfter tx, tx) s1" "t_type tx = ty" "t_refId tx = refId"
proof -
  obtain y s1 where c: "debit_in r amount ty reason refId None s = (y, s1)" by fastforce
  from assms(1) c show thesis
  proof (cases rule: debit_in_cases)
    case (error e)
    then have "x = Inl e \<and> t = s" using assms(2) c
      by (auto simp: debit_def await_def withTransaction_def)
    then show thesis using that(1) by blast
  next
    case (ok tx)
    then have "x = Inr (t_balanceAfter tx, tx) \<and> t = emitWalletEvent r (t_balanceAfter tx, tx) s1"
      using assms(2) c by (auto simp: debit_def await_def withTransaction_def)
    then show thesis using that(2) ok by blast
  qed
qed

text \<open>What the books, the balances and the accounts depend on.\<close>

lemma emitWallet_frame [simp]:
  "users (emitWalletEvent r p s) = users s" "txs (emitWalletEvent r p s) = txs s"
  "next_id (emitWalletEvent r p s) = next_id s" "coins (emitWalletEvent r p s) = coins s"
  "balance_of (emitWalletEvent r p s) u = balance_of s u"
  "users_ok (emitWalletEvent r p s) = users_ok s" "books_ok (emitWalletEvent r p s) = books_ok s"
  by (simp_all add: emitWalletEvent_def coins_def balance_of_def find_user_def users_ok_def
      books_ok_def booked_def)

lemma coins_users: "users t = users s \<Longrightarrow> coins t = coins s"
  by (simp add: coins_def)

lemma balance_users: "users t = users s \<Longrightarrow> balance_of t u = balance_of s u"
  by (simp add: balance_of_def find_user_def)

lemma users_ok_users: "\<lbrakk>users_ok s; users t = users s; next_id s \<le> next_id t\<rbrakk> \<Longrightarrow> users_ok t"
  by (auto simp: users_ok_def)

lemma books_users: "\<lbrakk>books_ok s; users t = users s; txs t = txs s\<rbrakk> \<Longrightarrow> books_ok t"
  by (simp add: books_ok_def booked_def find_user_def)

text \<open>Together: a sound ledger has sound accounts and books that match the balances.\<close>

definition ledger_ok :: "'a wallet_st_scheme \<Rightarrow> bool" where
  "ledger_ok s \<longleftrightarrow> users_ok s \<and> books_ok s"

lemma ledger_ok_frame:
  "\<lbrakk>ledger_ok s; users t = users s; txs t = txs s; next_id s \<le> next_id t\<rbrakk> \<Longrightarrow> ledger_ok t"
  by (auto simp: ledger_ok_def intro: users_ok_users books_users)

lemma moved_ledger: "\<lbrakk>moved r a tx s t; ledger_ok s\<rbrakk> \<Longrightarrow> ledger_ok t"
  by (simp add: ledger_ok_def moved_users_ok moved_books)

lemma ledger_ok_users: "ledger_ok s \<Longrightarrow> users_ok s"
  by (simp add: ledger_ok_def)

lemma ledger_ok_emit [simp]: "ledger_ok (emitWalletEvent r p s) = ledger_ok s"
  by (simp add: ledger_ok_def)

lemma credit_ledger:
  assumes "ledger_ok s" "credit r amount ty reason refId s = (x, t)"
  shows "ledger_ok t" "coins t = coins s + (if isl x then 0 else amount)"
    "balance_of t u = balance_of s u + (if \<not> isl x \<and> read_oid r = Some u then amount else 0)"
  using ledger_ok_users [OF assms(1)] assms(2) assms(1)
  by (cases rule: credit_cases; simp add: moved_ledger moved_coins moved_balance)+

lemma debit_ledger:
  assumes "ledger_ok s" "debit r amount ty reason refId s = (x, t)"
  shows "ledger_ok t" "coins t = coins s - (if isl x then 0 else amount)"
    "balance_of t u = balance_of s u - (if \<not> isl x \<and> read_oid r = Some u then amount else 0)"
  using ledger_ok_users [OF assms(1)] assms(2) assms(1)
  by (cases rule: debit_cases; simp add: moved_ledger moved_coins moved_balance)+

lemma transfer_ledger:
  assumes "ledger_ok s" "transfer ci from dto s = (x, t)"
  shows "ledger_ok t \<and> coins t = coins s"
  using ledger_ok_users [OF assms(1)] assms(2)
proof (cases rule: transfer_cases)
  case (error e)
  have "ledger_ok (s\<lparr>next_id := Suc (next_id s)\<rparr>)"
    using assms(1) by (rule ledger_ok_frame) simp_all
  then show ?thesis using error(2) assms(1) by (auto simp: coins_def)
next
  case (ok rc tx1 tx2)
  obtain s1 s2 where m: "moved (Hex from) (- tr_amount dto) tx1 (s\<lparr>next_id := Suc (next_id s)\<rparr>) s1"
    "moved (tr_toUserId dto) (tr_amount dto) tx2 s1 s2" "users t = users s2" "txs t = txs s2"
    "next_id s2 \<le> next_id t"
    using ok(2) by (auto simp: transferred_def)
  have "ledger_ok (s\<lparr>next_id := Suc (next_id s)\<rparr>)"
    using assms(1) by (rule ledger_ok_frame) simp_all
  then have "ledger_ok s2" using moved_ledger [OF m(2) moved_ledger [OF m(1)]] by blast
  then have "ledger_ok t" using m(3-5) by (rule ledger_ok_frame)
  moreover have "coins t = coins s" using moved_coins [OF m(1)] moved_coins [OF m(2)] m(3)
    by (simp add: coins_def)
  ultimately show ?thesis by blast
qed

section \<open>Sequences of wallet operations\<close>

datatype wallet_op =
    Spend oid int string "string option" | ConfirmTopup oid int string
  | Transfer oid TransferDto | AdminAdjust oid int string

fun wallet_step :: "aead \<Rightarrow> wallet_op \<Rightarrow> 'a wallet_st_scheme \<Rightarrow> 'a wallet_st_scheme" where
  "wallet_step ci (Spend u a reason ref) s = snd (spend u a reason ref s)"
| "wallet_step ci (ConfirmTopup u a ref) s = snd (confirmTopup u a ref s)"
| "wallet_step ci (Transfer u dto) s = snd (transfer ci u dto s)"
| "wallet_step ci (AdminAdjust u a reason) s = snd (adminAdjust u a reason s)"

lemma wallet_step_ok:
  assumes "ledger_ok s"
  shows "ledger_ok (wallet_step ci op s)"
proof (cases op)
  case (Transfer u dto)
  then show ?thesis using transfer_ledger [OF assms] by (cases "transfer ci u dto s") simp
next
  case (Spend u a reason ref)
  then show ?thesis using debit_ledger(1) [OF assms]
    by (cases "debit (Hex u) a SPEND (Some reason) ref s") (simp add: spend_def)
next
  case (ConfirmTopup u a ref)
  then show ?thesis using credit_ledger(1) [OF assms]
    by (cases "credit (Hex u) a TOPUP (Some ''Top-up'') (Some ref) s") (simp add: confirmTopup_def)
next
  case (AdminAdjust u a reason)
  then show ?thesis
    using credit_ledger(1) [OF assms, of "Hex u" a REWARD "Some reason" None]
      debit_ledger(1) [OF assms, of "Hex u" "- a" REFUND "Some reason" None] assms
    by (cases "credit (Hex u) a REWARD (Some reason) None s";
        cases "debit (Hex u) (- a) REFUND (Some reason) None s") (simp add: adminAdjust_def abs_if)
qed

section \<open>Properties\<close>

definition wallet0 :: wallet_st where
  "wallet0 = dm_st.extend (dm0\<lparr>users := [demo_user 1 ''an''\<lparr>balance := 100\<rparr>,
        demo_user 2 ''binh''\<lparr>balance := 5\<rparr>, demo_user 3 ''chi'']\<rparr>)
     \<lparr>txs = [\<lparr>t_id = 7, t_userId = 1, t_type = TOPUP, t_amount = 100, t_balanceAfter = 100,
               t_reason = None, t_refId = None, t_transferId = None\<rparr>,
             \<lparr>t_id = 8, t_userId = 2, t_type = REWARD, t_amount = 5, t_balanceAfter = 5,
               t_reason = None, t_refId = None, t_transferId = None\<rparr>], wallet_log = []\<rparr>"

lemmas wallet0_defs = wallet0_def dm_st.extend_def dm0_defs

lemma wallet0_ok: "ledger_ok wallet0"
  by (auto simp: ledger_ok_def users_ok_def user_ok_def books_ok_def booked_def find_user_def wallet0_defs
      split: if_splits)

text \<open>
  C1: The books always balance: from a sound ledger, any sequence of spends, top-ups, transfers and
  administrative adjustments, successful or refused, ends in a ledger where no balance is
  negative and every user's balance is the sum of the amounts of that user's transaction records.
\<close>

theorem wallet_books_balance:
  assumes "ledger_ok s"
  shows "ledger_ok (fold (wallet_step ci) ops s)
     \<and> (\<forall>u d. find_user u (fold (wallet_step ci) ops s) = Some d \<longrightarrow>
          0 \<le> balance d \<and> balance d = booked (fold (wallet_step ci) ops s) u)"
proof -
  have "ledger_ok (fold (wallet_step ci) ops s)"
    using assms by (induction ops arbitrary: s) (simp_all add: wallet_step_ok)
  then show ?thesis by (auto simp: ledger_ok_def books_ok_def dest: find_user_nonneg)
qed

theorem wallet_books_balance_witness:
  "ledger_ok (fold (wallet_step plain_aead)
     [Transfer 1 \<lparr>tr_toUserId = Hex 2, tr_amount = 30, tr_note = None\<rparr>,
      Spend 2 1000 ''x'' None, AdminAdjust 3 (- 4) ''y''] wallet0)"
  using wallet_books_balance [OF wallet0_ok] by blast

text \<open>
  A transfer moves coins and creates none: whether it succeeds or fails, the total of all
  balances is unchanged, and when it succeeds the sender's balance falls and the
  recipient's rises by exactly the amount while every other balance stays.
\<close>

theorem transfer_conserves_coins:
  assumes "ledger_ok s" "transfer ci from dto s = (x, t)"
  shows "coins t = coins s
     \<and> (\<forall>rc to. x = Inr rc \<longrightarrow> read_oid (tr_toUserId dto) = Some to \<longrightarrow>
          0 < tr_amount dto \<and>
          (\<forall>v. balance_of t v = balance_of s v - (if v = from then tr_amount dto else 0)
                 + (if v = to then tr_amount dto else 0)))"
proof -
  have "0 < tr_amount dto \<and> (\<forall>v. balance_of t v = balance_of s v - (if v = from then tr_amount dto else 0)
                 + (if v = to then tr_amount dto else 0))"
    if x: "x = Inr rc" and to: "read_oid (tr_toUserId dto) = Some to" for rc to
    using ledger_ok_users [OF assms(1)] assms(2)
  proof (cases rule: transfer_cases)
    case (ok rc' tx1 tx2)
    obtain s1 s2 where m: "moved (Hex from) (- tr_amount dto) tx1 (s\<lparr>next_id := Suc (next_id s)\<rparr>) s1"
      "moved (tr_toUserId dto) (tr_amount dto) tx2 s1 s2" "users t = users s2"
      using ok(2) by (auto simp: transferred_def)
    have "balance_of t v = balance_of s2 v" "balance_of (s\<lparr>next_id := Suc (next_id s)\<rparr>) v = balance_of s v" for v
      using balance_users [OF m(3)] balance_users [of "s\<lparr>next_id := Suc (next_id s)\<rparr>" s] by simp_all
    then show ?thesis using moved_balance [OF m(1)] moved_balance [OF m(2)] ok(3) to by auto
  qed (use x in simp)
  then show ?thesis using transfer_ledger [OF assms] by blast
qed

theorem transfer_conserves_coins_witness:
  "coins (snd (transfer plain_aead 1 \<lparr>tr_toUserId = Hex 2, tr_amount = 30, tr_note = None\<rparr> wallet0)) = coins wallet0"
  using transfer_conserves_coins [OF wallet0_ok]
  by (cases "transfer plain_aead 1 \<lparr>tr_toUserId = Hex 2, tr_amount = 30, tr_note = None\<rparr> wallet0") simp

lemma moved_other_user:
  assumes "moved (Hex i) a tx (s\<lparr>next_id := n\<rparr>) t" "i \<noteq> j"
  shows "find_user j t = find_user j s"
proof -
  have "users t = users (set_user i (\<lambda>x. x\<lparr>balance := balance x + a\<rparr>) s)"
    using assms(1) by (auto simp: moved_def set_user_def)
  then show ?thesis using find_set_user [of "\<lambda>x. x\<lparr>balance := balance x + a\<rparr>" j i s] assms(2) by (simp add: find_user_def)
qed

lemma transfer_guard:
  assumes "users_ok s" "transfer ci i dto s = (Inr rc, t)" "i \<noteq> j" "tr_toUserId dto = Hex j"
  shows "0 < tr_amount dto \<and> find_user i s \<noteq> None \<and> find_user j s \<noteq> None \<and> tr_amount dto \<le> balance_of s i"
  using assms(1,2)
proof (cases rule: transfer_cases)
  case (ok rc' tx1 tx2)
  then obtain s1 where s1: "moved (Hex i) (- tr_amount dto) tx1 (s\<lparr>next_id := Suc (next_id s)\<rparr>) s1" "find_user j s1 \<noteq> None"
    using assms(4) by (auto simp: transferred_def moved_def)
  show ?thesis using moved_other_user [OF s1(1) assms(3)] s1 ok(3) by (auto simp: moved_def find_user_def balance_of_def)
qed simp

lemma transfer_succeeds:
  assumes "users_ok s" "i \<noteq> j" "tr_toUserId dto = Hex j" "0 < tr_amount dto" "find_user i s \<noteq> None" "find_user j s \<noteq> None"
    "tr_amount dto \<le> balance_of s i"
  shows "\<exists>rc t. transfer ci i dto s = (Inr rc, t)"
proof (rule ccontr)
  let ?s0 = "s\<lparr>next_id := Suc (next_id s)\<rparr>" and ?tid = "''tf_'' @ nat_str (next_id s)"
  let ?r1 = "Some (or_default (tr_note dto) (''Transfer to '' @ oid_str j))"
  assume n: "\<nexists>rc t. transfer ci i dto s = (Inr rc, t)"
  have s0: "users_ok ?s0" using assms(1) by simp
  obtain d where d: "find_user i ?s0 = Some d" "tr_amount dto \<le> balance d" using assms(5,7) by (auto simp: balance_of_def find_user_def)
  obtain tx1 s1 where deb: "debit_in (Hex i) (tr_amount dto) TRANSFER ?r1 (Some (oid_str j)) (Some ?tid) ?s0 = (Inr (balance d - tr_amount dto, tx1), s1)"
    using debit_in_success [OF s0 d(1)] assms(4) d(2) by blast
  have m: "moved (Hex i) (- tr_amount dto) tx1 ?s0 s1" using s0 deb by (cases rule: debit_in_cases) auto
  obtain d2 where "find_user j s1 = Some d2" using moved_other_user [OF m assms(2)] assms(6) by auto
  then obtain tx2 s2 where "credit_in (Hex j) (tr_amount dto) TRANSFER (Some (or_default (tr_note dto) (''Transfer from '' @ oid_str i)))
      (Some (oid_str i)) (Some ?tid) s1 = (Inr (balance d2 + tr_amount dto, tx2), s2)"
    using credit_in_success assms(4) by blast
  then show False using n deb assms(2,3)
    by (auto simp: transfer_def fresh_id_def Let_def await_def withTransaction_def split: prod.splits)
qed

definition transfer_record :: "string \<Rightarrow> oid \<Rightarrow> int \<Rightarrow> int \<Rightarrow> Transaction \<Rightarrow> bool" where
  "transfer_record tid u amount after tx \<longleftrightarrow> t_type tx = TRANSFER \<and> t_transferId tx = Some tid
     \<and> t_userId tx = u \<and> t_amount tx = amount \<and> t_balanceAfter tx = after"

lemma balance_of_found: "find_user u s = Some d \<Longrightarrow> balance_of s u = balance d"
  by (simp add: balance_of_def)

lemma transfer_moves:
  assumes "users_ok s" "transfer ci i dto s = (Inr rc, t)" "i \<noteq> j" "tr_toUserId dto = Hex j"
  shows "balance_of t v = balance_of s v - (if v = i then tr_amount dto else 0) + (if v = j then tr_amount dto else 0)"
    "\<exists>tx1 tx2. txs t = txs s @ [tx1, tx2] \<and> transfer_record (rc_transferId rc) i (- tr_amount dto) (balance_of t i) tx1
       \<and> transfer_record (rc_transferId rc) j (tr_amount dto) (balance_of t j) tx2"
proof -
  let ?s0 = "s\<lparr>next_id := Suc (next_id s)\<rparr>"
  obtain tx1 tx2 s1 s2 where m: "moved (Hex i) (- tr_amount dto) tx1 ?s0 s1" "moved (Hex j) (tr_amount dto) tx2 s1 s2"
    and t: "users t = users s2" "txs t = txs s2"
    and tx: "t_type tx1 = TRANSFER" "t_type tx2 = TRANSFER" "t_transferId tx1 = Some (rc_transferId rc)" "t_transferId tx2 = Some (rc_transferId rc)"
    using assms(1,2) by (cases rule: transfer_cases) (use assms(4) in \<open>auto simp: transferred_def\<close>)
  have b0: "balance_of t v = balance_of s2 v" "balance_of ?s0 v = balance_of s v" for v
    using balance_users [OF t(1)] balance_users [of ?s0 s] by simp_all
  have b: "balance_of t v = balance_of s v - (if v = i then tr_amount dto else 0) + (if v = j then tr_amount dto else 0)" for v
    using moved_balance [OF m(1), of v] moved_balance [OF m(2), of v] b0 [of v] by auto
  then show "balance_of t v = balance_of s v - (if v = i then tr_amount dto else 0) + (if v = j then tr_amount dto else 0)" .
  have j: "balance_of s1 j = balance_of s j" using moved_balance [OF m(1), of j] b0(2) assms(3) by simp
  have "t_userId tx1 = i \<and> t_amount tx1 = - tr_amount dto \<and> t_balanceAfter tx1 = balance_of ?s0 i - tr_amount dto \<and> txs s1 = txs s @ [tx1]"
    using m(1) by (auto simp: moved_def balance_of_found)
  moreover have "t_userId tx2 = j \<and> t_amount tx2 = tr_amount dto \<and> t_balanceAfter tx2 = balance_of s1 j + tr_amount dto \<and> txs s2 = txs s1 @ [tx2]"
    using m(2) by (auto simp: moved_def balance_of_found)
  ultimately show "\<exists>tx1 tx2. txs t = txs s @ [tx1, tx2] \<and> transfer_record (rc_transferId rc) i (- tr_amount dto) (balance_of t i) tx1
       \<and> transfer_record (rc_transferId rc) j (tr_amount dto) (balance_of t j) tx2"
    using tx t(2) b [of i] b [of j] b0(2) [of i] j assms(3) by (simp add: transfer_record_def)
qed

text \<open>
  C28: A transfer to another user succeeds exactly when the amount is positive, both users exist and
  the sender can pay. Then the sender has the amount less, the receiver the amount more and nobody else is
  touched, and exactly two records of the transfer are written, one for each, that carry its identifier and the
  two new balances. Otherwise it is refused and no balance, transaction record, wallet
  event, direct message or conversation is left behind.
\<close>

theorem transfer_all_or_nothing:
  assumes "ledger_ok s" "from \<noteq> to" "tr_toUserId dto = Hex to"
  shows "(\<exists>rc t. transfer ci from dto s = (Inr rc, t))
      = (0 < tr_amount dto \<and> find_user from s \<noteq> None \<and> find_user to s \<noteq> None
         \<and> tr_amount dto \<le> balance_of s from)
     \<and> (\<forall>rc t. transfer ci from dto s = (Inr rc, t) \<longrightarrow>
          (\<forall>v. balance_of t v = balance_of s v - (if v = from then tr_amount dto else 0) + (if v = to then tr_amount dto else 0))
          \<and> (\<exists>tx1 tx2. txs t = txs s @ [tx1, tx2]
               \<and> transfer_record (rc_transferId rc) from (- tr_amount dto) (balance_of t from) tx1
               \<and> transfer_record (rc_transferId rc) to (tr_amount dto) (balance_of t to) tx2))
     \<and> (\<forall>e t. transfer ci from dto s = (Inl e, t) \<longrightarrow>
          users t = users s \<and> txs t = txs s \<and> wallet_log t = wallet_log s
          \<and> dm_msgs t = dm_msgs s \<and> convs t = convs s)"
proof (intro conjI allI impI)
  note u = ledger_ok_users [OF assms(1)]
  fix e t assume tr: "transfer ci from dto s = (Inl e, t)"
  have "t = s \<or> t = s\<lparr>next_id := Suc (next_id s)\<rparr>" by (rule transfer_cases [OF u tr]) simp_all
  then show "users t = users s" "txs t = txs s" "wallet_log t = wallet_log s" "dm_msgs t = dm_msgs s" "convs t = convs s" by auto
next
  note u = ledger_ok_users [OF assms(1)]
  show "(\<exists>rc t. transfer ci from dto s = (Inr rc, t)) = (0 < tr_amount dto \<and> find_user from s \<noteq> None \<and> find_user to s \<noteq> None
         \<and> tr_amount dto \<le> balance_of s from)"
    using transfer_guard [OF u _ assms(2,3)] transfer_succeeds [OF u assms(2,3)] by metis
  fix rc t assume "transfer ci from dto s = (Inr rc, t)"
  note mv = transfer_moves [OF u this assms(2,3)]
  show "balance_of t v = balance_of s v - (if v = from then tr_amount dto else 0) + (if v = to then tr_amount dto else 0)" for v
    by (rule mv(1))
  show "\<exists>tx1 tx2. txs t = txs s @ [tx1, tx2] \<and> transfer_record (rc_transferId rc) from (- tr_amount dto) (balance_of t from) tx1
       \<and> transfer_record (rc_transferId rc) to (tr_amount dto) (balance_of t to) tx2" by (rule mv(2))
qed

theorem transfer_all_or_nothing_witness:
  "(\<exists>rc t. transfer plain_aead 1 \<lparr>tr_toUserId = Hex 2, tr_amount = 30, tr_note = None\<rparr> wallet0 = (Inr rc, t))"
  using transfer_all_or_nothing [OF wallet0_ok, of 1 2 "\<lparr>tr_toUserId = Hex 2, tr_amount = 30, tr_note = None\<rparr>"]
  by (simp add: wallet0_defs find_user_def balance_of_def)

text \<open>
  The detail of a transfer discloses one balance, the viewer's own: a successful query leaves
  the state as it is and the balance and record identifier in the answer are those of a record of
  the viewer in that transfer, and a user without a record in it is refused.
\<close>

theorem transfer_detail_discloses_own_balance:
  "case getTransferDetail viewer tid s of
     (Inr d, t) \<Rightarrow> t = s \<and> (\<exists>tx \<in> set (txs s). t_userId tx = viewer \<and> t_transferId tx = Some tid
        \<and> dt_myBalanceAfter d = Some (t_balanceAfter tx) \<and> dt_myTransactionId d = Some (t_id tx))
   | (Inl e, t) \<Rightarrow> t = s"
proof -
  let ?rs = "sort_key t_amount (filter (\<lambda>t. t_transferId t = Some tid) (txs s))"
  let ?mine = "List.find (\<lambda>t. t_userId t = viewer) ?rs"
  let ?deb = "List.find (\<lambda>t. t_amount t < 0) ?rs" and ?cre = "List.find (\<lambda>t. t_amount t > 0) ?rs"
  have party: "\<exists>tx. ?mine = Some tx"
    if "Some viewer = map_option t_userId ?deb \<or> Some viewer = map_option t_userId ?cre"
  proof -
    from that obtain tx where "?deb = Some tx \<or> ?cre = Some tx" "t_userId tx = viewer"
      unfolding eq_commute [of "Some viewer"] map_option_eq_Some by blast
    then have "\<exists>x \<in> set ?rs. t_userId x = viewer" using find_Some_iff_mem by metis
    then have "?mine \<noteq> None" unfolding find_None_iff_all by blast
    then show ?thesis by auto
  qed
  have own: "tx \<in> set (txs s) \<and> t_userId tx = viewer \<and> t_transferId tx = Some tid" if "?mine = Some tx" for tx
    using find_Some_iff_mem [OF that] by simp
  show ?thesis
  proof (cases "?rs = [] \<or> (Some viewer \<noteq> map_option t_userId ?deb \<and> Some viewer \<noteq> map_option t_userId ?cre)")
    case True
    then show ?thesis by (auto simp: getTransferDetail_def Let_def)
  next
    case False
    then obtain tx where "?mine = Some tx" using party by blast
    then show ?thesis using False own [of tx] by (auto simp: getTransferDetail_def Let_def)
  qed
qed

section \<open>The ledger the games rely on\<close>

text \<open>
  Rooms and games move coins through two operations, one that takes an amount from a user and one that
  gives it, each of which tells whether it happened. The laws are those of a house without an
  account: what is taken leaves the users' coins, what is given enters them, and a failed movement
  changes nothing.
\<close>

locale ledger =
  fixes inv :: "'s \<Rightarrow> bool" and total :: "'s \<Rightarrow> int"
    and take_coins :: "oid \<Rightarrow> int \<Rightarrow> 's \<Rightarrow> bool \<times> 's"
    and give_coins :: "oid \<Rightarrow> int \<Rightarrow> 's \<Rightarrow> bool \<times> 's"
  assumes take_inv: "inv s \<Longrightarrow> inv (snd (take_coins u a s))"
    and take_total: "inv s \<Longrightarrow>
          total (snd (take_coins u a s)) = total s - (if fst (take_coins u a s) then a else 0)"
    and give_inv: "inv s \<Longrightarrow> inv (snd (give_coins u a s))"
    and give_total: "\<lbrakk>inv s; 0 \<le> a\<rbrakk> \<Longrightarrow>
          total (snd (give_coins u a s)) = total s + (if fst (give_coins u a s) then a else 0)"
begin

text \<open>Paying a list of users: the coins grow by the payments that went through.\<close>

lemma give_each:
  assumes "inv s" "\<forall>p \<in> set ps. 0 \<le> snd p"
  shows "inv (snd (each (\<lambda>(u, a). give_coins u a) ps s))"
    "total (snd (each (\<lambda>(u, a). give_coins u a) ps s)) = total s
       + sum_list (map2 (\<lambda>b p. if b then snd p else 0) (fst (each (\<lambda>(u, a). give_coins u a) ps s)) ps)"
  using assms
  by (induction ps arbitrary: s) (auto simp: split_beta give_inv give_total)

lemma give_each_bound:
  assumes "inv s" "\<forall>p \<in> set ps. 0 \<le> snd p"
  shows "total s \<le> total (snd (each (\<lambda>(u, a). give_coins u a) ps s))"
    "total (snd (each (\<lambda>(u, a). give_coins u a) ps s)) \<le> total s + sum_list (map snd ps)"
proof -
  have b: "0 \<le> sum_list (map2 (\<lambda>b p. if b then snd p else 0) bs ps)
      \<and> sum_list (map2 (\<lambda>b p. if b then snd p else 0) bs ps) \<le> sum_list (map snd ps)"
    if "length bs = length ps" "\<forall>p \<in> set ps. 0 \<le> snd p" for bs and ps :: "(nat \<times> int) list"
    using that by (induction bs ps rule: list_induct2) auto
  show "total s \<le> total (snd (each (\<lambda>(u, a). give_coins u a) ps s))"
    "total (snd (each (\<lambda>(u, a). give_coins u a) ps s)) \<le> total s + sum_list (map snd ps)"
    using give_each(2) [OF assms]
      b [OF length_each [of "\<lambda>(u, a). give_coins u a" ps s] assms(2)] by linarith+
qed

text \<open>A payment that goes through undoes a collection that went through.\<close>

lemma take_give:
  assumes "inv s" "0 \<le> a" "fst (take_coins u a s)" "fst (give_coins v a (snd (take_coins u a s)))"
  shows "total (snd (give_coins v a (snd (take_coins u a s)))) = total s"
  using assms by (simp add: take_inv take_total give_total)

end

end
