(* ===== verification/Wager.thy ===== *)
theory Wager
  imports Wallet
begin

text \<open>
  The stakes of \<open>src/games/common/wager.service.ts\<close>: a stake is debited into escrow, the pot is
  credited to the winners, and a cancelled game refunds. These operations are the ledger the
  rooms and the games rely on.
\<close>

section \<open>Operations\<close>

definition collectStake :: "oid \<Rightarrow> int \<Rightarrow> string \<Rightarrow> 'a wallet_st_scheme \<Rightarrow> (unit, 'a wallet_st_scheme) outcome" where
  "collectStake u amount refId s =
     (if amount \<le> 0 then throw (BadRequest ''Bet amount must be > 0'') s
      else await (debit (Hex u) amount GAME_STAKE (Some (''Game stake ('' @ refId @ '')'')) (Some refId))
        (\<lambda>_. return ()) s)"

definition payout :: "oid \<Rightarrow> int \<Rightarrow> string \<Rightarrow> 'a wallet_st_scheme \<Rightarrow> (unit, 'a wallet_st_scheme) outcome" where
  "payout u amount refId s =
     (if amount \<le> 0 then return () s
      else await (credit (Hex u) amount GAME_PAYOUT (Some (''Game payout ('' @ refId @ '')'')) (Some refId))
        (\<lambda>_. return ()) s)"

definition refund :: "oid \<Rightarrow> int \<Rightarrow> string \<Rightarrow> 'a wallet_st_scheme \<Rightarrow> (unit, 'a wallet_st_scheme) outcome" where
  "refund u amount refId s =
     (if amount \<le> 0 then return () s
      else await (credit (Hex u) amount GAME_REFUND (Some (''Game refund ('' @ refId @ '')'')) (Some refId))
        (\<lambda>_. return ()) s)"

text \<open>Best effort: the logger swallows a failed refund.\<close>

definition refundMany :: "oid list \<Rightarrow> int \<Rightarrow> string \<Rightarrow> 'a wallet_st_scheme \<Rightarrow> 'a wallet_st_scheme" where
  "refundMany us amount refId s = snd (each (\<lambda>u. settles (refund u amount refId)) us s)"

section \<open>Laws\<close>

lemma collectStake_cases:
  assumes "users_ok s" "collectStake u a ref s = (x, t)"
  obtains (error) e where "x = Inl e" "t = s"
  | (ok) tx s1 where "x = Inr ()" "moved (Hex u) (- a) tx s s1" "0 < a" "t_type tx = GAME_STAKE"
      "t = emitWalletEvent (Hex u) (t_balanceAfter tx, tx) s1"
proof (cases "a \<le> 0")
  case True
  then have "\<exists>e. x = Inl e" "t = s" using assms(2) by (auto simp: collectStake_def)
  then show thesis using error by blast
next
  case False
  obtain y s1 where d: "debit (Hex u) a GAME_STAKE (Some (''Game stake ('' @ ref @ '')'')) (Some ref) s = (y, s1)"
    by fastforce
  from assms(1) d show thesis
  proof (cases rule: debit_cases)
    case (error e)
    then have "x = Inl e \<and> t = s" using assms(2) False d by (auto simp: collectStake_def await_def)
    then show thesis using that(1) by blast
  next
    case (ok tx s2)
    then have "x = Inr () \<and> t = s1" using assms(2) False d by (auto simp: collectStake_def await_def)
    then show thesis using that(2) ok by blast
  qed
qed

text \<open>A payout and a refund are the same movement under two names.\<close>

lemma give_cases:
  assumes "users_ok s" "payout u a ref s = (x, t) \<or> refund u a ref s = (x, t)"
  obtains (error) e where "x = Inl e" "t = s" "0 < a"
  | (nothing) "x = Inr ()" "t = s" "a \<le> 0"
  | (ok) tx s1 where "x = Inr ()" "moved (Hex u) a tx s s1" "0 < a"
      "t = emitWalletEvent (Hex u) (t_balanceAfter tx, tx) s1"
proof (cases "a \<le> 0")
  case True
  then have "x = Inr ()" "t = s" using assms(2) by (auto simp: payout_def refund_def)
  from this True show thesis by (rule that(2))
next
  case False
  then obtain ty reason y s1 where c: "credit (Hex u) a ty reason (Some ref) s = (y, s1)"
    "(x, t) = (case y of Inl e \<Rightarrow> (Inl e, s1) | Inr _ \<Rightarrow> (Inr (), s1))"
    using assms(2) by (fastforce simp: payout_def refund_def await_def split: prod.splits sum.splits)
  from assms(1) c(1) show thesis
  proof (cases rule: credit_cases)
    case (error e)
    then have "x = Inl e \<and> t = s" using c(2) by simp
    then show thesis using that(1) False by simp
  next
    case (ok tx s2)
    then have "x = Inr () \<and> t = s1" using c(2) by simp
    then show thesis using that(3) ok by blast
  qed
qed

lemma collect_law:
  assumes "ledger_ok s"
  shows "ledger_ok (snd (settles (collectStake u a ref) s))"
    "coins (snd (settles (collectStake u a ref) s))
       = coins s - (if fst (settles (collectStake u a ref) s) then a else 0)"
proof -
  obtain x t where c: "collectStake u a ref s = (x, t)" by fastforce
  have "ledger_ok t \<and> coins t = coins s - (if isl x then 0 else a)"
    using ledger_ok_users [OF assms] c
    by (cases rule: collectStake_cases) (simp_all add: assms moved_coins moved_ledger [OF _ assms])
  then show "ledger_ok (snd (settles (collectStake u a ref) s))"
    "coins (snd (settles (collectStake u a ref) s))
       = coins s - (if fst (settles (collectStake u a ref) s) then a else 0)"
    by (auto simp: settles_def c split: sum.splits)
qed

lemma give_law:
  assumes "ledger_ok s" "m = payout u a ref \<or> m = refund u a ref"
  shows "ledger_ok (snd (settles m s))"
    "0 \<le> a \<Longrightarrow> coins (snd (settles m s)) = coins s + (if fst (settles m s) then a else 0)"
proof -
  obtain x t where c: "m s = (x, t)" by fastforce
  then have c': "payout u a ref s = (x, t) \<or> refund u a ref s = (x, t)" using assms(2) by auto
  have "ledger_ok t \<and> (0 \<le> a \<longrightarrow> coins t = coins s + (if isl x then 0 else a))"
    using ledger_ok_users [OF assms(1)] c'
    by (cases rule: give_cases) (auto simp: assms(1) moved_coins moved_ledger [OF _ assms(1)])
  then show "ledger_ok (snd (settles m s))"
    "0 \<le> a \<Longrightarrow> coins (snd (settles m s)) = coins s + (if fst (settles m s) then a else 0)"
    by (auto simp: settles_def c split: sum.splits)
qed

text \<open>The wallet keeps the contract of the ledger, for payouts and for refunds.\<close>

interpretation pay: ledger ledger_ok coins
  "\<lambda>u a. settles (collectStake u a ref)" "\<lambda>u a. settles (payout u a ref)" for ref
  by unfold_locales (auto intro: collect_law(1) give_law(1)
      simp: collect_law(2) give_law(2) [OF _ disjI1 [OF refl]] give_law(2) [OF _ disjI2 [OF refl]])

interpretation ref: ledger ledger_ok coins
  "\<lambda>u a. settles (collectStake u a ref)" "\<lambda>u a. settles (refund u a ref)" for ref
  by unfold_locales (auto intro: collect_law(1) give_law(1)
      simp: collect_law(2) give_law(2) [OF _ disjI1 [OF refl]] give_law(2) [OF _ disjI2 [OF refl]])

text \<open>A refund of an existing user always goes through.\<close>

lemma refund_success:
  assumes "find_user u s \<noteq> None"
  shows "fst (settles (refund u a ref) s)" "fst (settles (payout u a ref) s)"
proof -
  obtain d where d: "find_user u s = Some d" using assms by auto
  have c: "\<exists>p t. credit (Hex u) a ty reason rid s = (Inr p, t)" if "0 < a" for ty reason rid
    using credit_in_success [OF d that, of ty reason rid None]
    by (auto simp: credit_def await_def withTransaction_def)
  show "fst (settles (refund u a ref) s)"
    using c [of GAME_REFUND "Some (''Game refund ('' @ ref @ '')'')" "Some ref"]
    by (auto simp: settles_def refund_def await_def)
  show "fst (settles (payout u a ref) s)"
    using c [of GAME_PAYOUT "Some (''Game payout ('' @ ref @ '')'')" "Some ref"]
    by (auto simp: settles_def payout_def await_def)
qed

end
