(* ===== verification/Leveling.thy ===== *)
theory Leveling
  imports Wager
begin

text \<open>
  Experience, rank points and leaderboards of \<open>src/leveling/leveling.service.ts\<close>. The operations
  never throw into the caller; where they give up they return nothing.
\<close>

section \<open>State\<close>

datatype level_event =
    Level_xp LevelProgress int "string option"
  | Level_up int int int
  | Level_up_of oid oid int
  | Rank_changed RankInfo int "string option"
  | Rank_promoted string string RankInfo
  | Rank_demoted string string RankInfo

record level_st = wallet_st +
  level_log :: "(target \<times> level_event) list"

definition emit_level :: "target \<Rightarrow> level_event \<Rightarrow> 'a level_st_scheme \<Rightarrow> 'a level_st_scheme" where
  "emit_level tg e s = s\<lparr>level_log := level_log s @ [(tg, e)]\<rparr>"

section \<open>Operations\<close>

record XpResult =
  xr_level :: int
  xr_xp :: int
  xr_leveledUp :: bool

definition addXp :: "oid \<Rightarrow> int \<Rightarrow> string option \<Rightarrow> 'a level_st_scheme \<Rightarrow> XpResult option \<times> 'a level_st_scheme" where
  "addXp uid amount reason s =
     (if amount \<le> 0 then (None, s)
      else
        let s = set_user uid (\<lambda>d. d\<lparr>xp := xp d + amount\<rparr>) s
        in case find_user uid s of
             None \<Rightarrow> (None, s)
           | Some updated \<Rightarrow>
               let newLevel = levelFromXp (xp updated);
                   prevLevel = level updated;
                   leveledUp = newLevel > prevLevel;
                   s = (if newLevel \<noteq> prevLevel then set_user uid (\<lambda>d. d\<lparr>level := newLevel\<rparr>) s else s);
                   s = emit_level (UserRoom (Hex uid)) (Level_xp (levelProgress (xp updated)) amount reason) s;
                   s = (if leveledUp then
                          let s = emit_level (UserRoom (Hex uid)) (Level_up newLevel prevLevel (xp updated)) s;
                              s = foldl (\<lambda>s sid. emit_level (ServerRoom sid) (Level_up_of sid uid newLevel) s)
                                    s (serversOf uid s)
                          in best_effort (notify (Hex uid) (LEVEL_UP newLevel)) s
                        else s)
               in (Some \<lparr>xr_level = newLevel, xr_xp = xp updated, xr_leveledUp = leveledUp\<rparr>, s))"

definition getProgress :: "oid \<Rightarrow> 'a env_st_scheme \<Rightarrow> LevelProgress" where
  "getProgress u s = levelProgress (case find_user u s of None \<Rightarrow> 0 | Some d \<Rightarrow> xp d)"

definition getRank :: "oid \<Rightarrow> 'a env_st_scheme \<Rightarrow> RankInfo" where
  "getRank u s = rankFromRp (case find_user u s of None \<Rightarrow> 0 | Some d \<Rightarrow> rankPoints d)"

definition addRankPoints :: "oid \<Rightarrow> int \<Rightarrow> string option \<Rightarrow> 'a level_st_scheme \<Rightarrow> int option \<times> 'a level_st_scheme" where
  "addRankPoints uid delta reason s =
     (if delta = 0 then (None, s)
      else case find_user uid s of
        None \<Rightarrow> (None, s)
      | Some before \<Rightarrow>
          let prevRp = rankPoints before;
              nextRp = max 0 (prevRp + delta);
              s = set_user uid (\<lambda>d. d\<lparr>rankPoints := nextRp\<rparr>) s;
              prevRank = rankFromRp prevRp;
              nextRank = rankFromRp nextRp;
              me = UserRoom (Hex uid);
              s = emit_level me (Rank_changed nextRank delta reason) s;
              s = (if ladder nextRank > ladder prevRank then
                     best_effort (notify (Hex uid) (RANK_UP (rk_label nextRank)))
                       (emit_level me (Rank_promoted (rk_label prevRank) (rk_label nextRank) nextRank) s)
                   else if ladder nextRank < ladder prevRank then
                     emit_level me (Rank_demoted (rk_label prevRank) (rk_label nextRank) nextRank) s
                   else s)
          in (Some nextRp, s))"

section \<open>Leaderboards\<close>

datatype LeaderboardKind = by_xp | by_coins | by_rank

fun sortField :: "LeaderboardKind \<Rightarrow> User \<Rightarrow> int" where
  "sortField by_coins u = balance u"
| "sortField by_rank u = rankPoints u"
| "sortField by_xp u = xp u"

record LeaderboardEntry =
  le_rank :: nat
  le_userId :: oid
  le_user :: "oid \<times> string \<times> string option \<times> string option"
  le_level :: int
  le_xp :: int
  le_coins :: int
  le_rankPoints :: int
  le_tier :: RankInfo
  le_score :: int

definition entry :: "User \<Rightarrow> nat \<Rightarrow> LeaderboardKind \<Rightarrow> LeaderboardEntry" where
  "entry u position kind =
     \<lparr>le_rank = position, le_userId = u_id u,
      le_user = (u_id u, username u, displayName u, avatarUrl u),
      le_level = lp_level (levelProgress (xp u)), le_xp = xp u, le_coins = balance u,
      le_rankPoints = rankPoints u, le_tier = rankFromRp (rankPoints u),
      le_score = (case kind of by_coins \<Rightarrow> balance u | by_rank \<Rightarrow> rankPoints u | by_xp \<Rightarrow> xp u)\<rparr>"

text \<open>Sorted by descending field, ties by ascending identifier.\<close>

definition board :: "LeaderboardKind \<Rightarrow> User list \<Rightarrow> User list" where
  "board kind us = sort_key (\<lambda>u. (- sortField kind u, u_id u)) us"

definition leaderboard :: "LeaderboardKind \<Rightarrow> int \<Rightarrow> 'a env_st_scheme \<Rightarrow> LeaderboardEntry list" where
  "leaderboard kind limit s =
     (let l = nat (min (max limit 1) 100);
          us = take l (board kind (users s))
      in map (\<lambda>(i, u). entry u (i + 1) kind) (zip [0..<length us] us))"

definition myRank :: "oid \<Rightarrow> LeaderboardKind \<Rightarrow> 'a env_st_scheme \<Rightarrow> LeaderboardEntry option" where
  "myRank u kind s =
     (case find_user u s of None \<Rightarrow> None
      | Some me \<Rightarrow>
          let greater = length (filter (\<lambda>d. sortField kind d > sortField kind me
                \<or> (sortField kind d = sortField kind me \<and> u_id d < u_id me)) (users s))
          in Some (entry me (greater + 1) kind))"

section \<open>What the operations do to the accounts\<close>

lemma emit_level_frame [simp]:
  "users (emit_level tg e s) = users s" "txs (emit_level tg e s) = txs s"
  "next_id (emit_level tg e s) = next_id s" "server_members (emit_level tg e s) = server_members s"
  "find_user u (emit_level tg e s) = find_user u s"
  by (simp_all add: emit_level_def find_user_def)

lemma foldl_emit_frame [simp]:
  "users (foldl (\<lambda>s sid. emit_level (f sid) (g sid) s) s xs) = users s"
  "txs (foldl (\<lambda>s sid. emit_level (f sid) (g sid) s) s xs) = txs s"
  "next_id (foldl (\<lambda>s sid. emit_level (f sid) (g sid) s) s xs) = next_id s"
  by (induction xs arbitrary: s) simp_all

lemma notify_txs: "notify r p s = (x, t) \<Longrightarrow> txs t = txs s"
  by (auto simp: notify_def fresh_id_def Let_def split: option.splits)

lemma best_effort_notify [simp]:
  "users (best_effort (notify r p) s) = users s" "txs (best_effort (notify r p) s) = txs s"
  "k \<le> next_id s \<Longrightarrow> k \<le> next_id (best_effort (notify r p) s)"
  using snd_notify_next [of s r p] notify_txs [of r p s "fst (notify r p s)" "snd (notify r p s)"]
  by (simp_all add: best_effort_def)

lemma set_user_txs [simp]: "txs (set_user u f s) = txs s"
  by (simp add: set_user_def)

text \<open>The accounts after \<open>addXp\<close> and \<open>addRankPoints\<close>.\<close>

lemma addXp_users:
  assumes "addXp u a reason s = (r, t)" "0 < a"
  shows "find_user v t = (if v = u then map_option (\<lambda>d. d\<lparr>xp := xp d + a, level := levelFromXp (xp d + a)\<rparr>)
      (find_user u s) else find_user v s)"
    "txs t = txs s" "next_id s \<le> next_id t"
proof -
  let ?s1 = "set_user u (\<lambda>d. d\<lparr>xp := xp d + a\<rparr>) s"
  have f1: "find_user w ?s1 = (if w = u then map_option (\<lambda>d. d\<lparr>xp := xp d + a\<rparr>) (find_user w s) else find_user w s)" for w
    by (rule find_set_user) simp
  have f2: "find_user w (set_user u (\<lambda>d. d\<lparr>level := n\<rparr>) ?s1)
      = (if w = u then map_option (\<lambda>d. d\<lparr>level := n\<rparr>) (find_user w ?s1) else find_user w ?s1)" for w n
    by (rule find_set_user) simp
  have "find_user v t = (if v = u then map_option (\<lambda>d. d\<lparr>xp := xp d + a, level := levelFromXp (xp d + a)\<rparr>)
      (find_user u s) else find_user v s) \<and> txs t = txs s \<and> next_id s \<le> next_id t"
  proof (cases "find_user u s")
    case None
    then show ?thesis using assms f1 by (auto simp: addXp_def Let_def)
  next
    case (Some d)
    have ?thesis if "s2 = (if levelFromXp (xp d + a) \<noteq> level d
          then set_user u (\<lambda>d'. d'\<lparr>level := levelFromXp (xp d + a)\<rparr>) ?s1 else ?s1)" for s2
    proof -
      have fv: "find_user v s2 = (if v = u then map_option (\<lambda>d. d\<lparr>xp := xp d + a, level := levelFromXp (xp d + a)\<rparr>)
          (find_user u s) else find_user v s)"
        using Some by (auto simp: that f1 f2)
      have "users t = users s2 \<and> txs t = txs s2 \<and> next_id s2 \<le> next_id t"
        using assms Some by (auto simp: addXp_def Let_def f1 that)
      then show ?thesis using fv that by (auto simp: find_user_def split: if_splits)
    qed
    then show ?thesis by blast
  qed
  then show "find_user v t = (if v = u then map_option (\<lambda>d. d\<lparr>xp := xp d + a, level := levelFromXp (xp d + a)\<rparr>)
      (find_user u s) else find_user v s)" "txs t = txs s" "next_id s \<le> next_id t" by auto
qed

lemma addRankPoints_users:
  assumes "addRankPoints u delta reason s = (r, t)" "delta \<noteq> 0"
  shows "find_user v t = (if v = u then map_option (\<lambda>d. d\<lparr>rankPoints := max 0 (rankPoints d + delta)\<rparr>)
      (find_user u s) else find_user v s) \<and> txs t = txs s \<and> next_id s \<le> next_id t"
proof (cases "find_user u s")
  case None
  then show ?thesis using assms by (auto simp: addRankPoints_def)
next
  case (Some d)
  let ?s1 = "set_user u (\<lambda>d'. d'\<lparr>rankPoints := max 0 (rankPoints d + delta)\<rparr>) s"
  have "find_user v ?s1 = (if v = u then map_option (\<lambda>d'. d'\<lparr>rankPoints := max 0 (rankPoints d + delta)\<rparr>) (find_user v s)
      else find_user v s)"
    by (rule find_set_user) simp
  moreover have "users t = users ?s1 \<and> txs t = txs s \<and> next_id s \<le> next_id t"
    using assms Some by (auto simp: addRankPoints_def Let_def)
  ultimately show ?thesis using Some by (simp add: find_user_def)
qed

text \<open>The events of a rank change: the change itself, then a promotion or a demotion, if any.\<close>

lemma level_log_simps [simp]:
  "level_log (emit_level tg e s) = level_log s @ [(tg, e)]"
  "level_log (set_user u f s) = level_log s"
  "level_log (best_effort (notify r p) s) = level_log s"
  by (auto simp: emit_level_def set_user_def best_effort_def notify_def fresh_id_def Let_def
      split: option.split)

lemma addRankPoints_log:
  assumes "find_user u s = Some d" "delta \<noteq> 0" "addRankPoints u delta reason s = (r, t)"
  shows "r = Some (max 0 (rankPoints d + delta))"
    "level_log t = level_log s @ [(UserRoom (Hex u), Rank_changed (rankFromRp (max 0 (rankPoints d + delta))) delta reason)]
       @ (let p = rankFromRp (rankPoints d); n = rankFromRp (max 0 (rankPoints d + delta)) in
          if ladder p < ladder n then [(UserRoom (Hex u), Rank_promoted (rk_label p) (rk_label n) n)]
          else if ladder n < ladder p then [(UserRoom (Hex u), Rank_demoted (rk_label p) (rk_label n) n)]
          else [])"
proof -
  have "r = Some (max 0 (rankPoints d + delta)) \<and>
    level_log t = level_log s @ [(UserRoom (Hex u), Rank_changed (rankFromRp (max 0 (rankPoints d + delta))) delta reason)]
       @ (let p = rankFromRp (rankPoints d); n = rankFromRp (max 0 (rankPoints d + delta)) in
          if ladder p < ladder n then [(UserRoom (Hex u), Rank_promoted (rk_label p) (rk_label n) n)]
          else if ladder n < ladder p then [(UserRoom (Hex u), Rank_demoted (rk_label p) (rk_label n) n)]
          else [])"
    using assms(3) by (auto simp: addRankPoints_def Let_def assms(1,2) simp del: max_less_iff_conj)
  then show "r = Some (max 0 (rankPoints d + delta))"
    "level_log t = level_log s @ [(UserRoom (Hex u), Rank_changed (rankFromRp (max 0 (rankPoints d + delta))) delta reason)]
       @ (let p = rankFromRp (rankPoints d); n = rankFromRp (max 0 (rankPoints d + delta)) in
          if ladder p < ladder n then [(UserRoom (Hex u), Rank_promoted (rk_label p) (rk_label n) n)]
          else if ladder n < ladder p then [(UserRoom (Hex u), Rank_demoted (rk_label p) (rk_label n) n)]
          else [])" by auto
qed

section \<open>Positions on a leaderboard\<close>

lemma mem_indexed:
  assumes "e \<in> set (map (\<lambda>(i, u). f i u) (zip [0..<length us] us))"
  shows "\<exists>i < length us. e = f i (us ! i)"
  using assms by (fastforce simp: set_zip)

text \<open>In a list sorted by an injective key the position of an element counts the smaller keys.\<close>

lemma sorted_position:
  fixes k :: "'a \<Rightarrow> 'k :: linorder"
  assumes "sorted_wrt (<) (map k xs)" "i < length xs"
  shows "length (filter (\<lambda>x. k x < k (xs ! i)) xs) = i"
proof -
  have "sorted_wrt (\<lambda>a b. k a < k b) xs" using assms(1) by (simp add: sorted_wrt_map)
  then have lt: "k (xs ! p) < k (xs ! q)" if "p < q" "q < length xs" for p q
    using that by (simp add: sorted_wrt_iff_nth_less)
  have a: "filter (\<lambda>x. k x < k (xs ! i)) (take i xs) = take i xs"
    using assms(2) lt by (auto simp: filter_id_conv in_set_conv_nth)
  have b: "filter (\<lambda>x. k x < k (xs ! i)) (drop i xs) = []"
  proof -
    have "\<not> k x < k (xs ! i)" if x: "x \<in> set (drop i xs)" for x
    proof -
      obtain q where "q < length (drop i xs)" "drop i xs ! q = x"
        using x unfolding in_set_conv_nth by blast
      then have q: "x = xs ! (i + q)" "i + q < length xs" by auto
      then show ?thesis using lt [of i "i + q"] by (cases "q = 0") auto
    qed
    then show ?thesis by (simp add: filter_empty_conv)
  qed
  have "filter (\<lambda>x. k x < k (xs ! i)) xs = filter (\<lambda>x. k x < k (xs ! i)) (take i xs @ drop i xs)" by simp
  also have "\<dots> = take i xs" by (simp only: filter_append a b append_Nil2)
  finally show ?thesis using assms(2) by simp
qed

lemma board_sorted:
  assumes "distinct (map u_id us)"
  shows "sorted_wrt (<) (map (\<lambda>u. (- sortField kind u, u_id u)) (board kind us))"
proof -
  have "inj_on (\<lambda>u. (- sortField kind u, u_id u)) (set us)"
    using assms by (auto simp: distinct_map inj_on_def)
  then have "distinct (map (\<lambda>u. (- sortField kind u, u_id u)) (board kind us))"
    using assms by (auto simp: board_def distinct_map)
  then show ?thesis by (simp add: board_def strict_sorted_iff)
qed

lemma board_position:
  assumes "distinct (map u_id us)" "i < length (board kind us)"
  shows "length (filter (\<lambda>d. sortField kind d > sortField kind (board kind us ! i)
       \<or> (sortField kind d = sortField kind (board kind us ! i) \<and> u_id d < u_id (board kind us ! i))) us) = i"
proof -
  let ?b = "board kind us" and ?k = "\<lambda>u. (- sortField kind u, u_id u)"
  have key: "?k d < ?k e \<longleftrightarrow> sortField kind d > sortField kind e
      \<or> (sortField kind d = sortField kind e \<and> u_id d < u_id e)" for d e
    by (auto simp: less_prod_def)
  have b: "mset ?b = mset us" by (simp add: board_def)
  have "mset (filter (\<lambda>d. ?k d < ?k (?b ! i)) us) = mset (filter (\<lambda>d. ?k d < ?k (?b ! i)) ?b)"
    unfolding mset_filter b ..
  then have "length (filter (\<lambda>d. ?k d < ?k (?b ! i)) us) = length (filter (\<lambda>d. ?k d < ?k (?b ! i)) ?b)"
    by (rule mset_eq_length)
  also have "\<dots> = i" by (rule sorted_position [OF board_sorted [OF assms(1)] assms(2)])
  finally show ?thesis unfolding key .
qed

section \<open>Properties\<close>

datatype level_op = AddXp oid int "string option" | AddRankPoints oid int "string option"

fun level_step :: "level_op \<Rightarrow> 'a level_st_scheme \<Rightarrow> 'a level_st_scheme" where
  "level_step (AddXp u a reason) s = snd (addXp u a reason s)"
| "level_step (AddRankPoints u d reason) s = snd (addRankPoints u d reason s)"

text \<open>The stored level is the level of the stored experience, and nobody is below zero.\<close>

definition levels_ok :: "'a env_st_scheme \<Rightarrow> bool" where
  "levels_ok s \<longleftrightarrow> (\<forall>u d. find_user u s = Some d \<longrightarrow>
     level d = levelFromXp (xp d) \<and> 0 \<le> xp d \<and> 0 \<le> rankPoints d)"

lemma levels_ok_cong: "\<lbrakk>levels_ok s; \<And>v. find_user v t = find_user v s\<rbrakk> \<Longrightarrow> levels_ok t"
  by (simp add: levels_ok_def)

lemma level_step_ok:
  assumes "levels_ok s"
  shows "levels_ok (level_step op s)"
proof (cases op)
  case (AddXp u a reason)
  obtain r t where st: "addXp u a reason s = (r, t)" by fastforce
  show ?thesis
  proof (cases "0 < a")
    case True
    have f: "find_user v t = (if v = u then map_option (\<lambda>d. d\<lparr>xp := xp d + a, level := levelFromXp (xp d + a)\<rparr>)
      (find_user u s) else find_user v s)" for v
      by (rule addXp_users(1) [OF st True])
    have "levels_ok t" unfolding levels_ok_def f
      using assms True by (auto simp: levels_ok_def split: if_splits)
    then show ?thesis using AddXp st by simp
  qed (use AddXp assms in \<open>simp add: addXp_def\<close>)
next
  case (AddRankPoints u a reason)
  obtain r t where st: "addRankPoints u a reason s = (r, t)" by fastforce
  show ?thesis
  proof (cases "a = 0")
    case False
    have f: "find_user v t = (if v = u then map_option (\<lambda>d. d\<lparr>rankPoints := max 0 (rankPoints d + a)\<rparr>)
      (find_user u s) else find_user v s)" for v
      using addRankPoints_users [OF st False] by blast
    have "levels_ok t" unfolding levels_ok_def f
      using assms by (auto simp: levels_ok_def split: if_splits)
    then show ?thesis using AddRankPoints st by simp
  qed (use AddRankPoints assms in \<open>simp add: addRankPoints_def\<close>)
qed

definition level0 :: level_st where
  "level0 = wallet_st.extend (wallet0\<lparr>users := [demo_user 1 ''an''\<lparr>balance := 100, xp := 90, rankPoints := 95\<rparr>,
     demo_user 2 ''binh''\<lparr>balance := 5, xp := 90, rankPoints := 3000\<rparr>, demo_user 3 ''chi'']\<rparr>)
     \<lparr>level_log = []\<rparr>"

lemmas level0_defs = level0_def wallet_st.extend_def wallet0_defs

lemma find_level0: "find_user u level0 =
   (if u = 1 then Some (demo_user 1 ''an''\<lparr>balance := 100, xp := 90, rankPoints := 95\<rparr>)
    else if u = 2 then Some (demo_user 2 ''binh''\<lparr>balance := 5, xp := 90, rankPoints := 3000\<rparr>)
    else if u = 3 then Some (demo_user 3 ''chi'') else None)"
  by (auto simp: find_user_def level0_defs)

lemma level_90: "levelFromXp 90 = 1" "levelFromXp 0 = 1"
  by (rule levelFromXp_unique; simp add: totalXpForLevel_def)+

lemma level0_ok: "levels_ok level0"
  by (simp add: levels_ok_def find_level0 level_90 demo_user_def user_of_def)

text \<open>
  The denormalised level never drifts: after any sequence of experience gains and rank changes the
  stored level of every user is the level of the stored experience, which is the one level
  \<open>L\<close> with \<open>totalXpForLevel L \<le> xp < totalXpForLevel (L + 1)\<close>, and experience and rank points are
  never negative.
\<close>

theorem level_in_sync:
  assumes "levels_ok s" "find_user u (fold level_step ops s) = Some d"
  shows "level d = levelFromXp (xp d) \<and> totalXpForLevel (level d) \<le> xp d
     \<and> xp d < totalXpForLevel (level d + 1) \<and> 0 \<le> rankPoints d"
proof -
  have "levels_ok (fold level_step ops s)"
    using assms(1) by (induction ops arbitrary: s) (simp_all add: level_step_ok)
  then have "level d = levelFromXp (xp d) \<and> 0 \<le> xp d \<and> 0 \<le> rankPoints d"
    using assms(2) by (simp add: levels_ok_def)
  then show ?thesis using levelFromXp_bounds [of "xp d"] by auto
qed

theorem level_in_sync_witness:
  "\<exists>d. find_user 1 (fold level_step [AddXp 1 60 None, AddRankPoints 1 (- 500) None] level0) = Some d
     \<and> level d = levelFromXp (xp d)"
proof -
  let ?s = "fold level_step [AddXp 1 60 None, AddRankPoints 1 (- 500) None] level0"
  obtain d where "find_user 1 ?s = Some d"
    using addXp_users(1) [of 1 60 None level0 "fst (addXp 1 60 None level0)" "snd (addXp 1 60 None level0)" 1]
      addRankPoints_users [of 1 "- 500" None "snd (addXp 1 60 None level0)"
        "fst (addRankPoints 1 (- 500) None (snd (addXp 1 60 None level0)))"
        "snd (addRankPoints 1 (- 500) None (snd (addXp 1 60 None level0)))" 1]
    by (simp add: find_level0)
  with level_in_sync [OF level0_ok this] show ?thesis by blast
qed

text \<open>
  Below the apex tiers a rank change is announced as a promotion or a demotion exactly when the
  rank the user sees changes: the new points are the old ones plus the delta, floored at zero,
  the change event is always sent, and a second event follows if and only if the label of the new
  rank differs from the old one.
\<close>

theorem rank_change_announced:
  assumes "find_user u s = Some d" "delta \<noteq> 0" "0 \<le> rankPoints d" "rankPoints d < 2000"
    "rankPoints d + delta < 2000" "addRankPoints u delta reason s = (r, t)"
  shows "\<exists>more n. r = Some (max 0 (rankPoints d + delta)) \<and> n = rankFromRp (max 0 (rankPoints d + delta))
     \<and> level_log t = level_log s @ (UserRoom (Hex u), Rank_changed n delta reason) # more
     \<and> length more \<le> 1 \<and> (more = [] \<longleftrightarrow> rk_label n = rk_label (rankFromRp (rankPoints d)))"
proof -
  let ?n = "max 0 (rankPoints d + delta)"
  note log = addRankPoints_log [OF assms(1,2,6)]
  have "rk_label (rankFromRp ?n) = rk_label (rankFromRp (rankPoints d))
      \<longleftrightarrow> ladder (rankFromRp ?n) = ladder (rankFromRp (rankPoints d))"
    by (rule tiered_label_eq_iff) (use assms(3-5) in auto)
  then show ?thesis using log by (auto simp: Let_def)
qed

theorem rank_change_announced_witness:
  "\<exists>more n. level_log (snd (addRankPoints 1 10 None level0)) = level_log level0
     @ (UserRoom (Hex 1), Rank_changed n 10 None) # more \<and> length more \<le> 1"
  using rank_change_announced [of 1 level0 "demo_user 1 ''an''\<lparr>balance := 100, xp := 90, rankPoints := 95\<rparr>" 10
      None "fst (addRankPoints 1 10 None level0)" "snd (addRankPoints 1 10 None level0)"]
  by (auto simp: find_level0)

text \<open>
  Inside an apex tier every gain is announced as a promotion, although the rank does not change:
  a user of the top tier who gains points receives a promotion event from a label to the same
  label, and a persistent rank-up notification.
\<close>

theorem apex_gain_announced_as_promotion:
  assumes "find_user u s = Some d" "3000 \<le> rankPoints d" "0 < delta" "addRankPoints u delta reason s = (r, t)"
  shows "\<exists>n. rk_label n = rk_label (rankFromRp (rankPoints d))
     \<and> (UserRoom (Hex u), Rank_promoted (rk_label n) (rk_label n) n) \<in> set (level_log t)
     \<and> (\<exists>x \<in> set (notifs t). n_userId x = u \<and> n_payload x = RANK_UP (rk_label n))"
proof -
  let ?p = "rankFromRp (rankPoints d)" and ?n = "rankFromRp (max 0 (rankPoints d + delta))"
  have lt: "ladder ?p < ladder ?n" using assms(2,3) ladder_less_iff_apex by simp
  have lab: "rk_label ?n = rk_label ?p"
    using assms(2,3) by (simp add: rankFromRp_def apex_def Let_def max_def)
  have "(UserRoom (Hex u), Rank_promoted (rk_label ?p) (rk_label ?n) ?n) \<in> set (level_log t)"
    using addRankPoints_log(2) [OF assms(1) _ assms(4)] assms(3) lt by (simp add: Let_def)
  moreover have "\<exists>x \<in> set (notifs t). n_userId x = u \<and> n_payload x = RANK_UP (rk_label ?n)"
    using assms(1,3,4) lt
    by (auto simp: addRankPoints_def Let_def best_effort_def notify_def fresh_id_def)
  ultimately show ?thesis by (intro exI [of _ ?n]) (simp only: lab simp_thms)
qed

theorem apex_gain_announced_as_promotion_witness:
  "\<exists>n. rk_label n = ''Thach Dau''
     \<and> (UserRoom (Hex 2), Rank_promoted (rk_label n) (rk_label n) n)
         \<in> set (level_log (snd (addRankPoints 2 5 None level0)))"
  using apex_gain_announced_as_promotion [of 2 level0 "demo_user 2 ''binh''\<lparr>balance := 5, xp := 90, rankPoints := 3000\<rparr>" 5
      None "fst (addRankPoints 2 5 None level0)" "snd (addRankPoints 2 5 None level0)"]
  by (auto simp: find_level0 rankFromRp_def apex_def)

text \<open>
  A user's own rank is the position on the leaderboard: every entry a leaderboard lists, for
  whatever field and limit, is exactly what that user's own rank query answers, ties included.
\<close>

theorem my_rank_is_board_position:
  assumes "users_ok s" "e \<in> set (leaderboard kind limit s)"
  shows "myRank (le_userId e) kind s = Some e"
proof -
  let ?b = "board kind (users s)"
  let ?us = "take (nat (min (max limit 1) 100)) ?b"
  have "\<exists>i < length ?us. e = entry (?us ! i) (i + 1) kind"
    by (rule mem_indexed) (use assms(2) in \<open>simp only: leaderboard_def Let_def\<close>)
  then obtain i where i: "i < length ?b" "e = entry (?b ! i) (i + 1) kind"
    by (metis length_take min_less_iff_conj nth_take)
  have d: "distinct (map u_id (users s))" using assms(1) by (simp add: users_ok_def)
  have setb: "set ?b = set (users s)" by (simp add: board_def)
  have "?b ! i \<in> set (users s)" using nth_mem [OF i(1)] unfolding setb .
  then have "find_user (u_id (?b ! i)) s = Some (?b ! i)"
    unfolding find_user_def using find_key_unique [OF d] by blast
  moreover have "le_userId e = u_id (?b ! i)" using i(2) by (simp add: entry_def)
  ultimately show ?thesis using board_position [OF d i(1)] i(2) by (simp add: myRank_def Let_def)
qed

lemma level0_users_ok: "users_ok level0"
  by (auto simp: users_ok_def user_ok_def level0_defs)

theorem my_rank_is_board_position_witness:
  "\<exists>e. e \<in> set (leaderboard by_xp 50 level0) \<and> myRank (le_userId e) by_xp level0 = Some e"
proof -
  have "leaderboard by_xp 50 level0 \<noteq> []"
    by (simp add: leaderboard_def board_def level0_defs)
  then obtain e where "e \<in> set (leaderboard by_xp 50 level0)" by (meson list.set_sel(1))
  with my_rank_is_board_position [OF level0_users_ok this] show ?thesis by blast
qed

end
