(* ===== verification/Rooms.thy ===== *)
theory Rooms
  imports Leveling
begin

text \<open>
  The lobby of \<open>src/games/common/rooms.service.ts\<close>: rooms with their members, the coins staked into
  the pot of a wager room, readiness and the status a room goes through. The checks of
  \<open>join\<close>, \<open>leave\<close> and \<open>cancel\<close> read a document and their updates are separate database calls, so each of
  them is a check on a room that was read and a commit; run back to back they are the operation,
  run apart they are what two concurrent requests can do.
\<close>

section \<open>State\<close>

record RoomMember =
  rm_userId :: oid
  rm_staked :: bool
  rm_ready :: bool
  rm_joinedAt :: int

record GameRoom =
  r_id :: oid
  r_game :: GameType
  r_mode :: GameMode
  r_code :: string
  r_isPrivate :: bool
  r_name :: "string option"
  r_hostId :: oid
  r_betAmount :: int
  r_minPlayers :: nat
  r_maxPlayers :: nat
  r_members :: "RoomMember list"
  r_status :: RoomStatus
  r_pot :: int
  r_gameId :: "oid option"
  r_startedAt :: "int option"
  r_closedAt :: "int option"

record rooms_st = level_st +
  rooms :: "GameRoom list"

record CreateRoomInput =
  ci_game :: GameType
  ci_mode :: GameMode
  ci_betAmount :: "int option"
  ci_maxPlayers :: nat
  ci_minPlayers :: nat
  ci_name :: "string option"
  ci_isPrivate :: "bool option"

section \<open>Operations\<close>

fun codePrefix :: "GameType \<Rightarrow> string" where
  "codePrefix CARO = ''CR''"
| "codePrefix TIENLEN = ''TL''"
| "codePrefix BOMBERMAN = ''BM''"

text \<open>Four upper-case hexadecimal digits of the random bytes.\<close>

definition genCode :: "GameType \<Rightarrow> 'a env_st_scheme \<Rightarrow> string \<times> 'a env_st_scheme" where
  "genCode g s =
     (let (x, s) = draw s;
          n = nat \<lfloor>x * 65536\<rfloor>
      in (codePrefix g @ ''-'' @ toUpperCase (map (\<lambda>k. hex_digit (n div 16 ^ k mod 16)) [3, 2, 1, 0]), s))"

text \<open>The code is drawn again while it is taken, at most five times.\<close>

fun uniqueCode :: "nat \<Rightarrow> GameType \<Rightarrow> string \<Rightarrow> 'a rooms_st_scheme \<Rightarrow> string \<times> 'a rooms_st_scheme" where
  "uniqueCode 0 g code s = (code, s)"
| "uniqueCode (Suc n) g code s =
     (if code \<in> r_code ` set (rooms s)
      then let (code', s') = genCode g s in uniqueCode n g code' s'
      else (code, s))"

definition find_room :: "oid \<Rightarrow> 'a rooms_st_scheme \<Rightarrow> GameRoom option" where
  "find_room i s = List.find (\<lambda>r. r_id r = i) (rooms s)"

definition set_room :: "oid \<Rightarrow> (GameRoom \<Rightarrow> GameRoom) \<Rightarrow> 'a rooms_st_scheme \<Rightarrow> 'a rooms_st_scheme" where
  "set_room i f s = s\<lparr>rooms := updateOne (\<lambda>r. r_id r = i) f (rooms s)\<rparr>"

definition getOrThrow :: "raw_id \<Rightarrow> 'a rooms_st_scheme \<Rightarrow> (GameRoom, 'a rooms_st_scheme) outcome" where
  "getOrThrow r s =
     (case Option.bind (read_oid r) (\<lambda>i. find_room i s) of
        None \<Rightarrow> throw (NotFound ''Room not found'') s | Some room \<Rightarrow> return room s)"

definition getByCode :: "string option \<Rightarrow> 'a rooms_st_scheme \<Rightarrow> (GameRoom, 'a rooms_st_scheme) outcome" where
  "getByCode code s =
     (let trimmed = toUpperCase (trim (case code of None \<Rightarrow> '''' | Some c \<Rightarrow> c))
      in if trimmed = [] then throw (BadRequest ''Room code is required'') s
         else case List.find (\<lambda>r. r_code r = trimmed) (rooms s) of
           None \<Rightarrow> throw (NotFound (''No room found for code '' @ [CHR 0x22] @ trimmed @ [CHR 0x22])) s
         | Some room \<Rightarrow> return room s)"

definition isMember :: "GameRoom \<Rightarrow> oid \<Rightarrow> bool" where
  "isMember room u \<longleftrightarrow> u \<in> rm_userId ` set (r_members room)"

subsection \<open>Joining\<close>

text \<open>What \<open>join\<close> decides on the room it read: an error, nothing to do, or go on.\<close>

datatype join_check = Join_error http_error | Join_member | Join_open

definition join_guard :: "GameRoom \<Rightarrow> oid \<Rightarrow> join_check" where
  "join_guard room u =
     (if r_status room \<noteq> WAITING then Join_error (BadRequest ''Room is not open for joining'')
      else if isMember room u then Join_member
      else if length (r_members room) \<ge> r_maxPlayers room then Join_error (BadRequest ''Room is full'')
      else Join_open)"

text \<open>The stake is collected first; the member is pushed if the room still waits, else refunded.\<close>

definition join_commit :: "GameRoom \<Rightarrow> oid \<Rightarrow> 'a rooms_st_scheme \<Rightarrow> (GameRoom, 'a rooms_st_scheme) outcome" where
  "join_commit room u =
     await (if r_mode room = WAGER
            then await (collectStake u (r_betAmount room) (r_code room)) (\<lambda>_. return True)
            else return False)
       (\<lambda>staked s.
          case find_room (r_id room) s of
            Some cur \<Rightarrow>
              if r_status cur = WAITING then
                let m = \<lparr>rm_userId = u, rm_staked = staked, rm_ready = False, rm_joinedAt = clock s\<rparr>;
                    cur' = cur\<lparr>r_members := r_members cur @ [m],
                               r_pot := r_pot cur + (if staked then r_betAmount room else 0)\<rparr>
                in return cur' (set_room (r_id room) (\<lambda>_. cur') s)
              else await (if staked then refund u (r_betAmount room) (r_code room) else return ())
                     (\<lambda>_. throw (BadRequest ''Room is no longer joinable'')) s
          | None \<Rightarrow> await (if staked then refund u (r_betAmount room) (r_code room) else return ())
                     (\<lambda>_. throw (BadRequest ''Room is no longer joinable'')) s)"

definition join :: "raw_id \<Rightarrow> oid \<Rightarrow> 'a rooms_st_scheme \<Rightarrow> (GameRoom, 'a rooms_st_scheme) outcome" where
  "join r u = await (getOrThrow r) (\<lambda>room.
     case join_guard room u of
       Join_error e \<Rightarrow> throw e
     | Join_member \<Rightarrow> return room
     | Join_open \<Rightarrow> join_commit room u)"

definition create_room :: "oid \<Rightarrow> CreateRoomInput \<Rightarrow> 'a rooms_st_scheme \<Rightarrow> (GameRoom, 'a rooms_st_scheme) outcome" where
  "create_room hostId input s =
     (if ci_minPlayers input < 2 \<or> ci_maxPlayers input < ci_minPlayers input
      then throw (BadRequest ''Invalid player counts'') s
      else
        let bet = (if ci_mode input = WAGER then (case ci_betAmount input of None \<Rightarrow> 0 | Some b \<Rightarrow> b) else 0) in
        if ci_mode input = WAGER \<and> bet \<le> 0 then throw (BadRequest ''Bet amount must be > 0 for wager rooms'') s
        else
          let (code0, s) = genCode (ci_game input) s;
              (code, s) = uniqueCode 5 (ci_game input) code0 s
          in if code \<in> r_code ` set (rooms s) then throw (Conflict ''E11000 duplicate key'') s
             else
               let (i, s) = fresh_id s;
                   room = \<lparr>r_id = i, r_game = ci_game input, r_mode = ci_mode input, r_code = code,
                      r_isPrivate = (case ci_isPrivate input of None \<Rightarrow> False | Some b \<Rightarrow> b),
                      r_name = ci_name input, r_hostId = hostId, r_betAmount = bet,
                      r_minPlayers = ci_minPlayers input, r_maxPlayers = ci_maxPlayers input,
                      r_members = [], r_status = WAITING, r_pot = 0, r_gameId = None,
                      r_startedAt = None, r_closedAt = None\<rparr>
               in await (join (Hex i) hostId) (\<lambda>_. getOrThrow (Hex i)) (s\<lparr>rooms := rooms s @ [room]\<rparr>))"

subsection \<open>Leaving and cancelling\<close>

definition staked_users :: "GameRoom \<Rightarrow> oid list" where
  "staked_users room = map rm_userId (filter rm_staked (r_members room))"

text \<open>\<open>room.save()\<close> writes the two changed fields; the refunds follow the members that were read.\<close>

definition cancel :: "GameRoom \<Rightarrow> 'a rooms_st_scheme \<Rightarrow> 'a rooms_st_scheme" where
  "cancel room s =
     (if r_status room = CLOSED then s
      else
        let s = set_room (r_id room) (\<lambda>r. r\<lparr>r_status := CLOSED, r_closedAt := Some (clock s)\<rparr>) s
        in if r_mode room = WAGER
           then refundMany (staked_users room) (r_betAmount room) (r_code room) s else s)"

datatype leave_check = Leave_error http_error | Leave_absent | Leave_cancel | Leave_open

definition leave_guard :: "GameRoom \<Rightarrow> oid \<Rightarrow> leave_check" where
  "leave_guard room u =
     (if \<not> isMember room u then Leave_absent
      else if r_status room = WAITING \<and> r_hostId room = u then Leave_cancel
      else if r_status room \<noteq> WAITING then Leave_error (BadRequest ''Game already started'')
      else Leave_open)"

text \<open>The pull has no guard on the status, and the refund follows the member that was read.\<close>

definition leave_commit :: "GameRoom \<Rightarrow> oid \<Rightarrow> 'a rooms_st_scheme
    \<Rightarrow> (GameRoom option \<times> bool, 'a rooms_st_scheme) outcome" where
  "leave_commit room u s =
     (let member = List.find (\<lambda>m. rm_userId m = u) (r_members room);
          refundAmt = (case member of Some m \<Rightarrow> if rm_staked m then r_betAmount room else 0 | None \<Rightarrow> 0);
          s = set_room (r_id room) (\<lambda>r. r\<lparr>r_members := filter (\<lambda>m. rm_userId m \<noteq> u) (r_members r),
                                          r_pot := r_pot r - refundAmt\<rparr>) s;
          updated = find_room (r_id room) s
      in await (if refundAmt > 0 then refund u refundAmt (r_code room) else return ())
           (\<lambda>_. return (updated, False)) s)"

definition leave :: "raw_id \<Rightarrow> oid \<Rightarrow> 'a rooms_st_scheme \<Rightarrow> (GameRoom option \<times> bool, 'a rooms_st_scheme) outcome" where
  "leave r u = await (getOrThrow r) (\<lambda>room s.
     case leave_guard room u of
       Leave_error e \<Rightarrow> throw e s
     | Leave_absent \<Rightarrow> return (Some room, False) s
     | Leave_cancel \<Rightarrow> return (None, True) (cancel room s)
     | Leave_open \<Rightarrow> leave_commit room u s)"

subsection \<open>Readiness and the start\<close>

definition setReady :: "raw_id \<Rightarrow> oid \<Rightarrow> bool \<Rightarrow> 'a rooms_st_scheme \<Rightarrow> (GameRoom, 'a rooms_st_scheme) outcome" where
  "setReady r u ready = await (getOrThrow r) (\<lambda>room s.
     if \<not> isMember room u then throw (Forbidden ''Not a member of this room'') s
     else getOrThrow r
       (set_room (r_id room) (\<lambda>x. x\<lparr>r_members := updateOne (\<lambda>m. rm_userId m = u) (\<lambda>m. m\<lparr>rm_ready := ready\<rparr>)
           (r_members x)\<rparr>) s))"

definition beginStart :: "raw_id \<Rightarrow> oid \<Rightarrow> 'a rooms_st_scheme \<Rightarrow> (GameRoom, 'a rooms_st_scheme) outcome" where
  "beginStart r u = await (getOrThrow r) (\<lambda>room s.
     if r_hostId room \<noteq> u then throw (Forbidden ''Only the host can start'') s
     else if r_status room \<noteq> WAITING then throw (BadRequest ''Room is not waiting'') s
     else if length (r_members room) < r_minPlayers room
       then throw (BadRequest (''Need at least '' @ nat_str (r_minPlayers room) @ '' players'')) s
     else if \<not> (\<forall>m \<in> set (r_members room). rm_userId m \<noteq> r_hostId room \<longrightarrow> rm_ready m)
       then throw (BadRequest ''Not all players are ready'') s
     else
       let room' = room\<lparr>r_status := STARTING\<rparr>
       in return room' (set_room (r_id room) (\<lambda>_. room') s))"

definition markInProgress :: "raw_id \<Rightarrow> oid \<Rightarrow> 'a rooms_st_scheme \<Rightarrow> (GameRoom, 'a rooms_st_scheme) outcome" where
  "markInProgress r gameId = await (getOrThrow r) (\<lambda>room s.
     let room' = room\<lparr>r_status := IN_PROGRESS, r_gameId := Some gameId, r_startedAt := Some (clock s)\<rparr>
     in return room' (set_room (r_id room) (\<lambda>_. room') s))"

definition revertToWaiting :: "oid \<Rightarrow> 'a rooms_st_scheme \<Rightarrow> 'a rooms_st_scheme" where
  "revertToWaiting i s =
     s\<lparr>rooms := updateOne (\<lambda>r. r_id r = i \<and> r_status r = STARTING) (\<lambda>r. r\<lparr>r_status := WAITING\<rparr>) (rooms s)\<rparr>"

definition close_room :: "oid \<Rightarrow> 'a rooms_st_scheme \<Rightarrow> 'a rooms_st_scheme" where
  "close_room i s = set_room i (\<lambda>r. r\<lparr>r_status := CLOSED, r_closedAt := Some (clock s)\<rparr>) s"

subsection \<open>Listings\<close>

record RoomView =
  rv_room :: GameRoom
  rv_members :: "(oid \<times> UserCard option \<times> bool \<times> bool) list"

definition publicView :: "GameRoom \<Rightarrow> 'a env_st_scheme \<Rightarrow> RoomView" where
  "publicView room s =
     (let cards = getCards (map (\<lambda>m. Hex (rm_userId m)) (r_members room)) s
      in \<lparr>rv_room = room,
          rv_members = map (\<lambda>m. (rm_userId m, map_of cards (rm_userId m), rm_ready m,
                                 rm_userId m = r_hostId room)) (r_members room)\<rparr>)"

definition listOpen :: "GameType \<Rightarrow> nat \<Rightarrow> 'a rooms_st_scheme \<Rightarrow> RoomView list" where
  "listOpen g l s =
     map (\<lambda>r. publicView r s) (take (min l 100)
       (rev (filter (\<lambda>r. r_game r = g \<and> r_status r = WAITING \<and> \<not> r_isPrivate r) (rooms s))))"

definition myRoom :: "GameType \<Rightarrow> oid \<Rightarrow> 'a rooms_st_scheme \<Rightarrow> RoomView option" where
  "myRoom g u s =
     map_option (\<lambda>r. publicView r s)
       (List.find (\<lambda>r. r_game r = g \<and> r_status r \<in> {WAITING, STARTING, IN_PROGRESS} \<and> isMember r u)
         (rev (rooms s)))"

section \<open>Invariant\<close>

text \<open>
  A sound room has distinct members who are accounts, no more than its maximum; exactly the members of
  a wager room are staked, and its pot is the stake of each of them.
\<close>

definition room_ok :: "'a env_st_scheme \<Rightarrow> GameRoom \<Rightarrow> bool" where
  "room_ok s r \<longleftrightarrow> distinct (map rm_userId (r_members r)) \<and> length (r_members r) \<le> r_maxPlayers r
     \<and> (\<forall>m \<in> set (r_members r). find_user (rm_userId m) s \<noteq> None \<and> rm_staked m = (r_mode r = WAGER))
     \<and> (if r_mode r = WAGER then 0 < r_betAmount r else r_betAmount r = 0)
     \<and> r_pot r = r_betAmount r * int (length (r_members r))"

definition rooms_ok :: "'a rooms_st_scheme \<Rightarrow> bool" where
  "rooms_ok s \<longleftrightarrow> distinct (map r_id (rooms s)) \<and> (\<forall>r \<in> set (rooms s). r_id r < next_id s \<and> room_ok s r)"

text \<open>The coins the house holds: the pots of the rooms that are not closed.\<close>

definition held :: "GameRoom \<Rightarrow> int" where
  "held r = (if r_status r = CLOSED then 0 else r_pot r)"

definition escrow :: "'a rooms_st_scheme \<Rightarrow> int" where
  "escrow s = sum_list (map held (rooms s))"

definition lobby_ok :: "'a rooms_st_scheme \<Rightarrow> bool" where
  "lobby_ok s \<longleftrightarrow> ledger_ok s \<and> rooms_ok s"

abbreviation same_accounts :: "'a env_st_scheme \<Rightarrow> 'b env_st_scheme \<Rightarrow> bool" where
  "same_accounts s t \<equiv> (\<forall>x. (find_user x t = None) = (find_user x s = None))"

lemma room_ok_accounts: "\<lbrakk>room_ok s r; same_accounts s t\<rbrakk> \<Longrightarrow> room_ok t r"
  by (auto simp: room_ok_def)

lemma rooms_ok_frame:
  "\<lbrakk>rooms_ok s; rooms t = rooms s; next_id s \<le> next_id t; same_accounts s t\<rbrakk> \<Longrightarrow> rooms_ok t"
  unfolding rooms_ok_def using room_ok_accounts less_le_trans by metis

lemma find_room_mem: "find_room i s = Some r \<Longrightarrow> r \<in> set (rooms s) \<and> r_id r = i"
  by (auto simp: find_room_def dest: find_Some_iff_mem)

lemma find_room_ok: "\<lbrakk>rooms_ok s; find_room i s = Some r\<rbrakk> \<Longrightarrow> room_ok s r"
  by (auto simp: rooms_ok_def dest: find_room_mem)

lemma find_room_rooms: "rooms t = rooms s \<Longrightarrow> find_room i t = find_room i s"
  by (simp add: find_room_def)

lemma find_set_room:
  assumes "\<And>r. r_id r = i \<Longrightarrow> r_id (f r) = i"
  shows "find_room j (set_room i f s) = (if j = i then map_option f (find_room i s) else find_room j s)"
proof (cases "j = i")
  case True
  have "List.find (\<lambda>r. r_id r = i) (updateOne (\<lambda>r. r_id r = i) f (rooms s))
      = map_option f (List.find (\<lambda>r. r_id r = i) (rooms s))"
    by (rule find_updateOne_same) (rule assms)
  with True show ?thesis by (simp add: find_room_def set_room_def)
next
  case False
  have "List.find (\<lambda>r. r_id r = j) (updateOne (\<lambda>r. r_id r = i) f (rooms s))
      = List.find (\<lambda>r. r_id r = j) (rooms s)"
    by (rule find_updateOne_other) (use assms False in auto)
  with False show ?thesis by (simp add: find_room_def set_room_def)
qed

lemma set_room_frame [simp]:
  "users (set_room i f s) = users s" "txs (set_room i f s) = txs s" "next_id (set_room i f s) = next_id s"
  "clock (set_room i f s) = clock s" "find_user u (set_room i f s) = find_user u s"
  "coins (set_room i f s) = coins s"
  by (simp_all add: set_room_def find_user_def coins_def)

lemma set_room_ledger [simp]: "ledger_ok (set_room i f s) = ledger_ok s"
  by (simp add: ledger_ok_def users_ok_def books_ok_def booked_def)

lemma set_room_ok:
  assumes "rooms_ok s" "\<And>r. r_id r = i \<Longrightarrow> r_id (f r) = i"
    "\<And>r. find_room i s = Some r \<Longrightarrow> room_ok s r \<Longrightarrow> room_ok s (f r)"
  shows "rooms_ok (set_room i f s)"
proof -
  have ids: "map r_id (updateOne (\<lambda>r. r_id r = i) f (rooms s)) = map r_id (rooms s)"
    by (rule map_updateOne) (use assms(2) in auto)
  have found: "find_room i s = Some r" if "r \<in> set (rooms s)" "r_id r = i" for r
    using find_key_unique [of r_id "rooms s" r] that assms(1) by (simp add: rooms_ok_def find_room_def)
  have "\<forall>r \<in> set (updateOne (\<lambda>r. r_id r = i) f (rooms s)). r_id r < next_id s \<and> room_ok s r"
    by (rule updateOne_all) (use assms found in \<open>auto simp: rooms_ok_def\<close>)
  moreover have "room_ok (set_room i f s) r = room_ok s r" for r by (simp add: room_ok_def)
  ultimately show ?thesis using assms(1) by (simp add: rooms_ok_def set_room_def ids room_ok_def find_user_def)
qed

lemma escrow_set_room:
  "escrow (set_room i f s) = escrow s + (case find_room i s of None \<Rightarrow> 0 | Some r \<Rightarrow> held (f r) - held r)"
  by (simp add: escrow_def set_room_def sum_updateOne find_room_def)

lemma escrow_rooms: "rooms t = rooms s \<Longrightarrow> escrow t = escrow s"
  by (simp add: escrow_def)

section \<open>The wallet leaves the rooms alone\<close>

lemma moved_frame:
  assumes "moved r a tx s t"
  shows "rooms t = rooms s" "clock t = clock s" "next_id s \<le> next_id t" "same_accounts s t"
proof -
  obtain u d where u: "t = s\<lparr>users := updateOne (\<lambda>x. u_id x = u) (\<lambda>x. x\<lparr>balance := balance x + a\<rparr>) (users s),
             next_id := Suc (next_id s), txs := txs s @ [tx]\<rparr>"
    using assms by (auto simp: moved_def)
  then show "rooms t = rooms s" "clock t = clock s" "next_id s \<le> next_id t" by simp_all
  have "find_user x t = find_user x (set_user u (\<lambda>x. x\<lparr>balance := balance x + a\<rparr>) s)" for x
    using u by (simp add: find_user_def set_user_def)
  then show "same_accounts s t" by (auto simp: find_set_user)
qed

lemma emitWallet_rooms [simp]:
  "rooms (emitWalletEvent r p s) = rooms s" "clock (emitWalletEvent r p s) = clock s"
  "find_user u (emitWalletEvent r p s) = find_user u s"
  by (simp_all add: emitWalletEvent_def find_user_def)

lemma collectStake_rooms:
  assumes "ledger_ok s" "collectStake u a ref s = (x, t)"
  shows "rooms t = rooms s \<and> clock t = clock s \<and> next_id s \<le> next_id t \<and> same_accounts s t
     \<and> ledger_ok t \<and> coins t = coins s - (if isl x then 0 else a) \<and> (\<not> isl x \<longrightarrow> find_user u s \<noteq> None)
     \<and> (isl x \<longrightarrow> t = s)"
  using ledger_ok_users [OF assms(1)] assms(2)
proof (cases rule: collectStake_cases)
  case (ok tx s1)
  have "find_user u s \<noteq> None" using ok(2) by (auto simp: moved_def)
  then show ?thesis using ok moved_frame [OF ok(2)] moved_ledger [OF ok(2) assms(1)] moved_coins [OF ok(2)]
    by simp
qed (use assms in auto)

lemma give_rooms:
  assumes "ledger_ok s" "payout u a ref s = (x, t) \<or> refund u a ref s = (x, t)"
  shows "rooms t = rooms s \<and> clock t = clock s \<and> next_id s \<le> next_id t \<and> same_accounts s t
     \<and> ledger_ok t \<and> (0 \<le> a \<longrightarrow> coins t = coins s + (if isl x then 0 else a))"
  using ledger_ok_users [OF assms(1)] assms(2)
proof (cases rule: give_cases)
  case (ok tx s1)
  then show ?thesis using moved_frame [OF ok(2)] moved_ledger [OF ok(2) assms(1)] moved_coins [OF ok(2)] by simp
qed (use assms(1) in auto)

lemma refundMany_effect:
  assumes "ledger_ok s" "0 \<le> a" "\<forall>u \<in> set us. find_user u s \<noteq> None"
  shows "rooms (refundMany us a ref s) = rooms s \<and> next_id s \<le> next_id (refundMany us a ref s)
     \<and> same_accounts s (refundMany us a ref s) \<and> ledger_ok (refundMany us a ref s)
     \<and> coins (refundMany us a ref s) = coins s + a * int (length us)"
  using assms(1,3)
proof (induction us arbitrary: s)
  case (Cons u us)
  obtain x t where r: "refund u a ref s = (x, t)" by fastforce
  have ok: "\<not> isl x" using refund_success(1) [of u s a ref] Cons.prems(2) r
    by (auto simp: settles_def split: sum.splits)
  note g = give_rooms [OF Cons.prems(1) disjI2 [OF r]]
  have "refundMany (u # us) a ref s = refundMany us a ref t"
    using r by (simp add: refundMany_def settles_def Let_def split_beta split: sum.split)
  then show ?case using Cons.IH [of t] g ok Cons.prems(2) assms(2) by (auto simp: algebra_simps)
qed (use assms(2) in \<open>simp add: refundMany_def\<close>)

section \<open>Every lobby operation keeps the house in balance\<close>

text \<open>The rooms stay sound, and the coins of the users and of the pots together do not change.\<close>

definition keeps :: "'a rooms_st_scheme \<Rightarrow> 'a rooms_st_scheme \<Rightarrow> bool" where
  "keeps s t \<longleftrightarrow> lobby_ok t \<and> coins t + escrow t = coins s + escrow s \<and> next_id s \<le> next_id t \<and> same_accounts s t"

lemma keeps_refl: "lobby_ok s \<Longrightarrow> keeps s s"
  by (simp add: keeps_def)

lemma keeps_trans: "\<lbrakk>keeps s t; keeps t u\<rbrakk> \<Longrightarrow> keeps s u"
  by (auto simp: keeps_def)

text \<open>An update of one room that does not touch the coins.\<close>

lemma keeps_set_room:
  assumes "lobby_ok s" "\<And>r. r_id r = i \<Longrightarrow> r_id (f r) = i"
    "\<And>r. find_room i s = Some r \<Longrightarrow> room_ok s r \<Longrightarrow> room_ok s (f r) \<and> held (f r) = held r"
  shows "keeps s (set_room i f s)"
proof -
  have r: "rooms_ok s" "ledger_ok s" using assms(1) by (auto simp: lobby_ok_def)
  have "rooms_ok (set_room i f s)"
    by (rule set_room_ok [OF r(1) assms(2)]) (use assms(3) in auto)
  moreover have "escrow (set_room i f s) = escrow s"
    using assms(3) find_room_ok [OF r(1)] by (auto simp: escrow_set_room split: option.split)
  ultimately show ?thesis using r by (simp add: keeps_def lobby_ok_def)
qed

lemma lobby_ok_wallet:
  assumes "lobby_ok s" "rooms t = rooms s" "next_id s \<le> next_id t" "same_accounts s t" "ledger_ok t"
  shows "lobby_ok t"
  using assms rooms_ok_frame by (auto simp: lobby_ok_def)

lemma join_commit_cases:
  assumes "lobby_ok s" "find_room (r_id room) s = Some room" "join_guard room u = Join_open"
    "find_user u s \<noteq> None" "join_commit room u s = (x, t)"
  shows "keeps s t" "\<forall>e. x = Inl e \<longrightarrow> t = s"
proof -
  have g: "r_status room = WAITING" "\<not> isMember room u" "length (r_members room) < r_maxPlayers room"
    using assms(3) by (auto simp: join_guard_def split: if_splits)
  have led: "ledger_ok s" and ro: "rooms_ok s" using assms(1) by (auto simp: lobby_ok_def)
  have rok: "room_ok s room" using find_room_ok [OF ro assms(2)] .
  let ?new = "\<lambda>st c. room\<lparr>r_members := r_members room @ [\<lparr>rm_userId = u, rm_staked = st, rm_ready = False, rm_joinedAt = c\<rparr>],
     r_pot := r_pot room + (if st then r_betAmount room else 0)\<rparr>"
  have new_ok: "room_ok s1 (?new (r_mode room = WAGER) c)" if "same_accounts s s1" for s1 :: "'a rooms_st_scheme" and c
    using rok g assms(4) that by (auto simp: room_ok_def isMember_def algebra_simps)
  have push: "lobby_ok (set_room (r_id room) (\<lambda>_. ?new (r_mode room = WAGER) c) s1)
      \<and> escrow (set_room (r_id room) (\<lambda>_. ?new (r_mode room = WAGER) c) s1)
        = escrow s + (if r_mode room = WAGER then r_betAmount room else 0)"
    if "lobby_ok s1" "rooms s1 = rooms s" "same_accounts s s1" for s1 :: "'a rooms_st_scheme" and c
  proof
    have f: "find_room (r_id room) s1 = Some room" using assms(2) that(2) by (simp add: find_room_def)
    have "rooms_ok (set_room (r_id room) (\<lambda>_. ?new (r_mode room = WAGER) c) s1)"
      by (rule set_room_ok) (use that new_ok in \<open>auto simp: lobby_ok_def\<close>)
    then show "lobby_ok (set_room (r_id room) (\<lambda>_. ?new (r_mode room = WAGER) c) s1)"
      using that(1) by (simp add: lobby_ok_def)
    have "held (?new (r_mode room = WAGER) c) - held room = (if r_mode room = WAGER then r_betAmount room else 0)"
      using g(1) by (simp add: held_def)
    then show "escrow (set_room (r_id room) (\<lambda>_. ?new (r_mode room = WAGER) c) s1)
        = escrow s + (if r_mode room = WAGER then r_betAmount room else 0)"
      using f escrow_rooms [OF that(2)] by (simp add: escrow_set_room)
  qed
  show "keeps s t"
  proof (cases "r_mode room = WAGER")
    case False
    then have "t = set_room (r_id room) (\<lambda>_. ?new (r_mode room = WAGER) (clock s)) s"
      using assms(2,5) g(1) by (auto simp: join_commit_def await_def Let_def)
    then show ?thesis using push [of s "clock s"] assms(1) False by (simp add: keeps_def)
  next
    case True
    obtain y s1 where c: "collectStake u (r_betAmount room) (r_code room) s = (y, s1)" by fastforce
    note cr = collectStake_rooms [OF led c]
    show ?thesis
    proof (cases y)
      case (Inl e)
      then have "t = s" using assms(5) True c cr by (auto simp: join_commit_def await_def)
      then show ?thesis using keeps_refl assms(1) by simp
    next
      case (Inr z)
      have f: "find_room (r_id room) s1 = Some room" using assms(2) cr by (simp add: find_room_def)
      have l1: "lobby_ok s1" using lobby_ok_wallet [OF assms(1)] cr by blast
      have "t = set_room (r_id room) (\<lambda>_. ?new (r_mode room = WAGER) (clock s1)) s1"
        using assms(5) True c Inr f g(1) by (auto simp: join_commit_def await_def Let_def)
      then show ?thesis using push [of s1 "clock s1"] l1 cr Inr True by (simp add: keeps_def)
    qed
  qed
  show "\<forall>e. x = Inl e \<longrightarrow> t = s"
  proof (cases "r_mode room = WAGER")
    case True
    obtain y s1 where c: "collectStake u (r_betAmount room) (r_code room) s = (y, s1)" by fastforce
    note cr = collectStake_rooms [OF led c]
    have "find_room (r_id room) s1 = Some room" using assms(2) cr by (simp add: find_room_def)
    then show ?thesis using assms(5) True c cr g(1)
      by (cases y) (auto simp: join_commit_def await_def Let_def)
  next
    case False
    then show ?thesis using assms(2,5) g(1) by (auto simp: join_commit_def await_def Let_def)
  qed
qed

lemma getOrThrow_cases:
  obtains e where "getOrThrow r s = (Inl e, s)" | room where "getOrThrow r s = (Inr room, s)"
    "find_room (r_id room) s = Some room" "room \<in> set (rooms s)" "read_oid r = Some (r_id room)"
  by (cases "Option.bind (read_oid r) (\<lambda>i. find_room i s)")
     (auto simp: getOrThrow_def Option.bind_eq_Some_conv dest: find_room_mem)

lemma join_keeps:
  assumes "lobby_ok s" "find_user u s \<noteq> None"
  shows "keeps s (snd (join r u s))" "\<forall>e. fst (join r u s) = Inl e \<longrightarrow> snd (join r u s) = s"
proof -
  have "keeps s (snd (join r u s)) \<and> (\<forall>e. fst (join r u s) = Inl e \<longrightarrow> snd (join r u s) = s)"
  proof (cases rule: getOrThrow_cases [of r s])
    case (1 e)
    then show ?thesis using keeps_refl [OF assms(1)] by (simp add: join_def await_def)
  next
    case (2 room)
    show ?thesis
    proof (cases "join_guard room u")
      case Join_open
      obtain x t where j: "join_commit room u s = (x, t)" by fastforce
      show ?thesis using join_commit_cases [OF assms(1) 2(2) Join_open assms(2) j] 2 Join_open j
        by (simp add: join_def await_def)
    qed (use 2 keeps_refl [OF assms(1)] in \<open>simp_all add: join_def await_def\<close>)
  qed
  then show "keeps s (snd (join r u s))" "\<forall>e. fst (join r u s) = Inl e \<longrightarrow> snd (join r u s) = s" by auto
qed

lemma sum_staked: "room_ok s r \<Longrightarrow> r_mode r = WAGER \<Longrightarrow> length (staked_users r) = length (r_members r)"
  by (auto simp: room_ok_def staked_users_def intro!: arg_cong [where f = length] filter_True)

lemma cancel_keeps:
  assumes "lobby_ok s" "find_room (r_id room) s = Some room"
  shows "keeps s (cancel room s)"
proof (cases "r_status room = CLOSED")
  case True
  then show ?thesis using keeps_refl [OF assms(1)] by (simp add: cancel_def)
next
  case False
  have led: "ledger_ok s" and ro: "rooms_ok s" using assms(1) by (auto simp: lobby_ok_def)
  have rok: "room_ok s room" using find_room_ok [OF ro assms(2)] .
  let ?f = "\<lambda>r. r\<lparr>r_status := CLOSED, r_closedAt := Some (clock s)\<rparr>"
  let ?s1 = "set_room (r_id room) ?f s"
  have r1: "rooms_ok ?s1" by (rule set_room_ok [OF ro]) (auto simp: room_ok_def)
  have e1: "escrow ?s1 = escrow s - r_pot room"
    using assms(2) False by (simp add: escrow_set_room held_def)
  show ?thesis
  proof (cases "r_mode room = WAGER")
    case True
    let ?t = "refundMany (staked_users room) (r_betAmount room) (r_code room) ?s1"
    have "\<forall>u \<in> set (staked_users room). find_user u ?s1 \<noteq> None" "0 \<le> r_betAmount room"
      using rok True by (auto simp: staked_users_def room_ok_def)
    then have e: "rooms ?t = rooms ?s1 \<and> next_id ?s1 \<le> next_id ?t \<and> same_accounts ?s1 ?t \<and> ledger_ok ?t
        \<and> coins ?t = coins ?s1 + r_betAmount room * int (length (staked_users room))"
      using refundMany_effect [of ?s1] led by simp
    have "lobby_ok ?t" using lobby_ok_wallet [of ?s1 ?t] e r1 led by (simp add: lobby_ok_def)
    moreover have "r_pot room = r_betAmount room * int (length (staked_users room))"
      using rok sum_staked [OF rok True] by (simp add: room_ok_def)
    ultimately have "keeps s ?t" using e e1 escrow_rooms [of ?t ?s1] by (simp add: keeps_def)
    then show ?thesis using True False by (simp add: cancel_def Let_def)
  next
    case nw: False
    have "r_pot room = 0" using rok nw by (simp add: room_ok_def)
    then have "keeps s ?s1" using r1 led e1 by (simp add: keeps_def lobby_ok_def)
    then show ?thesis using nw False by (simp add: cancel_def Let_def)
  qed
qed

lemma filter_one_out:
  assumes "distinct (map k xs)" "x \<in> set xs"
  shows "length (filter (\<lambda>y. k y \<noteq> k x) xs) = length xs - 1"
proof -
  have "filter (\<lambda>y. k y = k x) xs = [x]" using assms by (induction xs) (auto simp: filter_empty_conv image_iff)
  then show ?thesis using sum_length_filter_compl [of "\<lambda>y. k y = k x" xs] by simp
qed

lemma leave_commit_keeps:
  assumes "lobby_ok s" "find_room (r_id room) s = Some room" "isMember room u" "r_status room \<noteq> CLOSED"
  shows "keeps s (snd (leave_commit room u s))"
proof -
  have led: "ledger_ok s" and ro: "rooms_ok s" using assms(1) by (auto simp: lobby_ok_def)
  have rok: "room_ok s room" using find_room_ok [OF ro assms(2)] .
  obtain m where m: "m \<in> set (r_members room)" "rm_userId m = u" using assms(3) by (auto simp: isMember_def)
  have fm: "List.find (\<lambda>x. rm_userId x = u) (r_members room) = Some m"
    using find_key_unique [of rm_userId "r_members room" m] m rok by (simp add: room_ok_def)
  define a where "a = (if rm_staked m then r_betAmount room else 0)"
  have a: "a = r_betAmount room" "0 \<le> a" "find_user u s \<noteq> None"
    using rok m by (auto simp: a_def room_ok_def)
  let ?f = "\<lambda>r. r\<lparr>r_members := filter (\<lambda>m. rm_userId m \<noteq> u) (r_members r), r_pot := r_pot r - a\<rparr>"
  let ?s1 = "set_room (r_id room) ?f s"
  have len: "length (filter (\<lambda>x. rm_userId x \<noteq> u) (r_members room)) = length (r_members room) - 1"
    "1 \<le> length (r_members room)"
    using filter_one_out [of rm_userId "r_members room" m] m rok by (auto simp: room_ok_def Suc_le_eq)
  have "room_ok s (?f room)"
    using rok len a(1) by (auto simp: room_ok_def distinct_map_filter of_nat_diff algebra_simps)
  then have r1: "rooms_ok ?s1" using assms(2) by (intro set_room_ok [OF ro]) auto
  have e1: "escrow ?s1 = escrow s - a" using assms(2,4) by (simp add: escrow_set_room held_def)
  show ?thesis
  proof (cases "a > 0")
    case False
    then have "keeps s ?s1" using r1 led e1 a(2) by (simp add: keeps_def lobby_ok_def)
    then show ?thesis using False fm
      by (simp add: leave_commit_def Let_def await_def a_def [symmetric] del: a_def cong: if_cong)
  next
    case True
    obtain x t where r: "refund u a (r_code room) ?s1 = (x, t)" by fastforce
    have ok: "\<not> isl x" using refund_success(1) [of u ?s1 a "r_code room"] a(3) r
      by (auto simp: settles_def split: sum.splits)
    have g: "rooms t = rooms ?s1 \<and> next_id ?s1 \<le> next_id t \<and> same_accounts ?s1 t \<and> ledger_ok t \<and> coins t = coins ?s1 + a"
      using give_rooms [OF _ disjI2 [OF r]] led ok a(2) by simp
    have "lobby_ok t" using lobby_ok_wallet [of ?s1 t] g r1 led by (simp add: lobby_ok_def)
    then have "keeps s t" using g e1 escrow_rooms [of t ?s1] by (simp add: keeps_def)
    moreover have "snd (leave_commit room u s) = t"
      using True fm r ok by (auto simp: leave_commit_def Let_def await_def a_def split: sum.splits)
    ultimately show ?thesis by simp
  qed
qed

lemma leave_keeps:
  assumes "lobby_ok s"
  shows "keeps s (snd (leave r u s))"
proof (cases rule: getOrThrow_cases [of r s])
  case (1 e)
  then show ?thesis using keeps_refl [OF assms(1)] by (simp add: leave_def await_def)
next
  case (2 room)
  show ?thesis
  proof (cases "leave_guard room u")
    case Leave_cancel
    then show ?thesis using cancel_keeps [OF assms 2(2)] 2 by (simp add: leave_def await_def)
  next
    case Leave_open
    then have "isMember room u" "r_status room = WAITING" by (auto simp: leave_guard_def split: if_splits)
    then show ?thesis using leave_commit_keeps [OF assms 2(2)] 2 Leave_open by (simp add: leave_def await_def)
  qed (use 2 keeps_refl [OF assms(1)] in \<open>simp_all add: leave_def await_def\<close>)
qed

lemma setReady_keeps:
  assumes "lobby_ok s"
  shows "keeps s (snd (setReady r u b s))"
proof (cases rule: getOrThrow_cases [of r s])
  case (1 e)
  then show ?thesis using keeps_refl [OF assms(1)] by (simp add: setReady_def await_def)
next
  case (2 room)
  let ?f = "\<lambda>x. x\<lparr>r_members := updateOne (\<lambda>m. rm_userId m = u) (\<lambda>m. m\<lparr>rm_ready := b\<rparr>) (r_members x)\<rparr>"
  have ids: "map rm_userId (updateOne (\<lambda>m. rm_userId m = u) (\<lambda>m. m\<lparr>rm_ready := b\<rparr>) ms) = map rm_userId ms" for ms
    by (rule map_updateOne) simp
  have ok: "room_ok s (?f x) \<and> held (?f x) = held x" if x: "room_ok s x" for x
  proof -
    have "\<forall>m \<in> set (updateOne (\<lambda>m. rm_userId m = u) (\<lambda>m. m\<lparr>rm_ready := b\<rparr>) (r_members x)).
        find_user (rm_userId m) s \<noteq> None \<and> rm_staked m = (r_mode x = WAGER)"
      by (rule updateOne_all) (use x in \<open>auto simp: room_ok_def\<close>)
    then show ?thesis using x by (simp add: room_ok_def ids held_def)
  qed
  have k: "keeps s (set_room (r_id room) ?f s)"
    by (rule keeps_set_room [OF assms]) (use ok in auto)
  show ?thesis
  proof (cases "isMember room u")
    case True
    have "snd (getOrThrow r t) = t" for t :: "'a rooms_st_scheme"
      by (cases rule: getOrThrow_cases [of r t]) auto
    then show ?thesis using k 2(1) True by (simp add: setReady_def await_def)
  qed (use 2 keeps_refl [OF assms] in \<open>simp add: setReady_def await_def\<close>)
qed

lemma beginStart_cases:
  obtains (error) e where "beginStart r u s = (Inl e, s)"
  | (started) room where "find_room (r_id room) s = Some room" "room \<in> set (rooms s)"
      "r_hostId room = u" "r_status room = WAITING" "r_minPlayers room \<le> length (r_members room)"
      "\<forall>m \<in> set (r_members room). rm_userId m \<noteq> u \<longrightarrow> rm_ready m" "read_oid r = Some (r_id room)"
      "beginStart r u s = (Inr (room\<lparr>r_status := STARTING\<rparr>),
         set_room (r_id room) (\<lambda>_. room\<lparr>r_status := STARTING\<rparr>) s)"
proof (cases rule: getOrThrow_cases [of r s])
  case (1 e)
  then show thesis using error by (simp add: beginStart_def await_def)
next
  case (2 room)
  show thesis
  proof (cases "r_hostId room = u \<and> r_status room = WAITING \<and> r_minPlayers room \<le> length (r_members room)
      \<and> (\<forall>m \<in> set (r_members room). rm_userId m \<noteq> u \<longrightarrow> rm_ready m)")
    case True
    then show thesis using 2 by (intro started [of room]) (auto simp: beginStart_def await_def Let_def)
  next
    case False
    have "\<exists>e. beginStart r u s = (Inl e, s)"
      using 2(1) False by (auto simp: beginStart_def await_def Let_def)
    then show thesis using error by blast
  qed
qed

lemma room_status_ok [simp]: "room_ok s (room\<lparr>r_status := st\<rparr>) = room_ok s room"
  by (simp add: room_ok_def)

lemma beginStart_keeps:
  assumes "lobby_ok s"
  shows "keeps s (snd (beginStart r u s))"
proof (cases rule: beginStart_cases [of r u s])
  case (started room)
  have "keeps s (set_room (r_id room) (\<lambda>_. room\<lparr>r_status := STARTING\<rparr>) s)"
    by (rule keeps_set_room [OF assms]) (use started in \<open>auto simp: held_def\<close>)
  then show ?thesis using started by simp
qed (use assms keeps_refl in simp)

lemma markInProgress_keeps:
  assumes "lobby_ok s" "\<And>room. Option.bind (read_oid r) (\<lambda>i. find_room i s) = Some room \<Longrightarrow> r_status room \<noteq> CLOSED"
  shows "keeps s (snd (markInProgress r g s))"
proof (cases "Option.bind (read_oid r) (\<lambda>i. find_room i s)")
  case None
  then show ?thesis using keeps_refl [OF assms(1)] by (simp add: markInProgress_def await_def getOrThrow_def)
next
  case (Some room)
  then have f: "find_room (r_id room) s = Some room" by (auto simp: Option.bind_eq_Some_conv dest: find_room_mem)
  have "keeps s (set_room (r_id room) (\<lambda>_. room\<lparr>r_status := IN_PROGRESS, r_gameId := Some g, r_startedAt := Some (clock s)\<rparr>) s)"
    by (rule keeps_set_room [OF assms(1)]) (use f assms(2) [OF Some] in \<open>auto simp: held_def room_ok_def\<close>)
  then show ?thesis using Some by (simp add: markInProgress_def await_def getOrThrow_def Let_def)
qed

lemma revert_keeps:
  assumes "lobby_ok s"
  shows "keeps s (revertToWaiting i s)"
proof -
  have ro: "rooms_ok s" and led: "ledger_ok s" using assms by (auto simp: lobby_ok_def)
  let ?P = "\<lambda>r. r_id r = i \<and> r_status r = STARTING" and ?f = "\<lambda>r. r\<lparr>r_status := WAITING\<rparr>"
  let ?t = "revertToWaiting i s"
  have fr: "users ?t = users s" "txs ?t = txs s" "next_id ?t = next_id s" by (simp_all add: revertToWaiting_def)
  have "map held (updateOne ?P ?f (rooms s)) = map held (rooms s)"
    by (rule map_updateOne) (simp add: held_def)
  then have e: "escrow ?t = escrow s" by (simp add: escrow_def revertToWaiting_def)
  have ids: "map r_id (updateOne ?P ?f (rooms s)) = map r_id (rooms s)"
    by (rule map_updateOne) simp
  have "\<forall>r \<in> set (updateOne ?P ?f (rooms s)). r_id r < next_id s \<and> room_ok s r"
    by (rule updateOne_all) (use ro in \<open>auto simp: rooms_ok_def\<close>)
  then have "rooms_ok ?t" using ro fr by (simp add: rooms_ok_def revertToWaiting_def ids room_ok_def find_user_def)
  moreover have "ledger_ok ?t" using ledger_ok_frame [OF led fr(1,2)] fr(3) by simp
  ultimately show ?thesis using e fr by (simp add: keeps_def lobby_ok_def coins_def find_user_def)
qed

lemma genCode_frame:
  assumes "genCode g s = (c, t)"
  shows "\<exists>k. t = s\<lparr>rand_pos := k\<rparr>"
  using assms by (auto simp: genCode_def draw_def Let_def)

lemma uniqueCode_frame: "uniqueCode n g c s = (c', t) \<Longrightarrow> \<exists>k. t = s\<lparr>rand_pos := k\<rparr>"
proof (induction n arbitrary: c s)
  case 0
  then have "t = s\<lparr>rand_pos := rand_pos s\<rparr>" by simp
  then show ?case by blast
next
  case (Suc n)
  show ?case
  proof (cases "c \<in> r_code ` set (rooms s)")
    case True
    obtain c1 s1 where gc: "genCode g s = (c1, s1)" by fastforce
    obtain k where k: "s1 = s\<lparr>rand_pos := k\<rparr>" using genCode_frame [OF gc] by blast
    have "uniqueCode n g c1 s1 = (c', t)" using Suc.prems True gc by simp
    then obtain k' where "t = s1\<lparr>rand_pos := k'\<rparr>" using Suc.IH by blast
    then show ?thesis using k by auto
  next
    case False
    then have "t = s\<lparr>rand_pos := rand_pos s\<rparr>" using Suc.prems by simp
    then show ?thesis by blast
  qed
qed

lemma keeps_rand: "lobby_ok s \<Longrightarrow> keeps s (s\<lparr>rand_pos := k\<rparr>)"
  by (simp add: keeps_def lobby_ok_def ledger_ok_def users_ok_def books_ok_def booked_def rooms_ok_def
      room_ok_def find_user_def coins_def escrow_def)

text \<open>The room \<open>create\<close> stores before the host joins it.\<close>

definition new_room :: "oid \<Rightarrow> oid \<Rightarrow> string \<Rightarrow> CreateRoomInput \<Rightarrow> GameRoom" where
  "new_room i hostId code input =
     \<lparr>r_id = i, r_game = ci_game input, r_mode = ci_mode input, r_code = code,
      r_isPrivate = (case ci_isPrivate input of None \<Rightarrow> False | Some b \<Rightarrow> b),
      r_name = ci_name input, r_hostId = hostId,
      r_betAmount = (if ci_mode input = WAGER then (case ci_betAmount input of None \<Rightarrow> 0 | Some b \<Rightarrow> b) else 0),
      r_minPlayers = ci_minPlayers input, r_maxPlayers = ci_maxPlayers input,
      r_members = [], r_status = WAITING, r_pot = 0, r_gameId = None,
      r_startedAt = None, r_closedAt = None\<rparr>"

lemma create_cases:
  obtains (error) e k where "create_room hostId input s = (Inl e, s\<lparr>rand_pos := k\<rparr>)"
  | (created) code k where "create_room hostId input s =
       await (join (Hex (next_id s)) hostId) (\<lambda>_. getOrThrow (Hex (next_id s)))
         (s\<lparr>rand_pos := k, next_id := Suc (next_id s), rooms := rooms s @ [new_room (next_id s) hostId code input]\<rparr>)"
       "ci_mode input = WAGER \<longrightarrow> (case ci_betAmount input of None \<Rightarrow> False | Some b \<Rightarrow> 0 < b)"
proof (cases "ci_minPlayers input < 2 \<or> ci_maxPlayers input < ci_minPlayers input
    \<or> ci_mode input = WAGER \<and> (case ci_betAmount input of None \<Rightarrow> 0 | Some b \<Rightarrow> b) \<le> 0")
  case True
  then have "\<exists>e. create_room hostId input s = (Inl e, s\<lparr>rand_pos := rand_pos s\<rparr>)"
    by (auto simp: create_room_def Let_def split: option.splits)
  then show thesis using error by blast
next
  case False
  obtain c1 s1 where gc: "genCode (ci_game input) s = (c1, s1)" by fastforce
  obtain c2 s2 where uc: "uniqueCode 5 (ci_game input) c1 s1 = (c2, s2)" by fastforce
  obtain k where k: "s2 = s\<lparr>rand_pos := k\<rparr>"
    using genCode_frame [OF gc] uniqueCode_frame [OF uc] by auto
  show thesis
  proof (cases "c2 \<in> r_code ` set (rooms s2)")
    case True
    then have "\<exists>e. create_room hostId input s = (Inl e, s\<lparr>rand_pos := k\<rparr>)"
      using False gc uc k by (auto simp: create_room_def Let_def)
    then show thesis using error by blast
  next
    case new: False
    show thesis
      by (rule created [of c2 k])
         (use False gc uc k new in \<open>auto simp: create_room_def Let_def fresh_id_def new_room_def split: option.splits\<close>)
  qed
qed

lemma create_keeps:
  assumes "lobby_ok s" "find_user hostId s \<noteq> None"
  shows "keeps s (snd (create_room hostId input s))"
proof (cases rule: create_cases [of hostId input s])
  case (error e k)
  then show ?thesis using keeps_rand [OF assms(1)] by simp
next
  case (created code k)
  let ?s1 = "s\<lparr>rand_pos := k, next_id := Suc (next_id s), rooms := rooms s @ [new_room (next_id s) hostId code input]\<rparr>"
  have ro: "rooms_ok s" and led: "ledger_ok s" using assms(1) by (auto simp: lobby_ok_def)
  have "room_ok s (new_room (next_id s) hostId code input)"
    using created(2) by (auto simp: room_ok_def new_room_def split: option.splits)
  then have "rooms_ok ?s1" using ro
    by (auto simp: rooms_ok_def room_ok_def find_user_def new_room_def less_SucI)
  moreover have "ledger_ok ?s1" by (rule ledger_ok_frame [OF led]) simp_all
  moreover have "escrow ?s1 = escrow s" by (simp add: escrow_def held_def new_room_def)
  ultimately have k1: "keeps s ?s1" by (simp add: keeps_def lobby_ok_def coins_def find_user_def)
  have k2: "keeps ?s1 (snd (join (Hex (next_id s)) hostId ?s1))"
    by (rule join_keeps) (use k1 assms(2) in \<open>auto simp: keeps_def find_user_def\<close>)
  have "snd (getOrThrow (Hex (next_id s)) t) = t" for t :: "'a rooms_st_scheme"
    by (cases rule: getOrThrow_cases [of "Hex (next_id s)" t]) auto
  then have "snd (create_room hostId input s) = snd (join (Hex (next_id s)) hostId ?s1)"
    unfolding created(1) by (auto simp: await_def split: prod.split sum.split)
  then show ?thesis using keeps_trans [OF k1 k2] by simp
qed

section \<open>Properties\<close>

datatype lobby_op =
    CreateRoom CreateRoomInput | JoinRoom raw_id | LeaveRoom raw_id | SetReady raw_id bool
  | BeginStart raw_id | RevertToWaiting oid

fun lobby_step :: "oid \<times> lobby_op \<Rightarrow> 'a rooms_st_scheme \<Rightarrow> 'a rooms_st_scheme" where
  "lobby_step (u, CreateRoom input) s = snd (create_room u input s)"
| "lobby_step (u, JoinRoom r) s = snd (join r u s)"
| "lobby_step (u, LeaveRoom r) s = snd (leave r u s)"
| "lobby_step (u, SetReady r b) s = snd (setReady r u b s)"
| "lobby_step (u, BeginStart r) s = snd (beginStart r u s)"
| "lobby_step (u, RevertToWaiting i) s = revertToWaiting i s"

lemma lobby_step_keeps:
  assumes "lobby_ok s" "find_user u s \<noteq> None"
  shows "keeps s (lobby_step (u, op) s)"
  by (cases op) (use assms in \<open>simp_all add: create_keeps join_keeps leave_keeps setReady_keeps
      beginStart_keeps revert_keeps\<close>)

text \<open>Example states: three users, one with coins, and a wager room of the first.\<close>

definition demo_room :: GameRoom where
  "demo_room = \<lparr>r_id = 20, r_game = CARO, r_mode = WAGER, r_code = ''CR-0000'', r_isPrivate = False,
     r_name = None, r_hostId = 1, r_betAmount = 10, r_minPlayers = 2, r_maxPlayers = 2,
     r_members = [\<lparr>rm_userId = 1, rm_staked = True, rm_ready = False, rm_joinedAt = 0\<rparr>,
                  \<lparr>rm_userId = 2, rm_staked = True, rm_ready = True, rm_joinedAt = 0\<rparr>],
     r_status = WAITING, r_pot = 20, r_gameId = None, r_startedAt = None, r_closedAt = None\<rparr>"

definition casual_room :: GameRoom where
  "casual_room = demo_room\<lparr>r_mode := CASUAL, r_betAmount := 0, r_pot := 0,
     r_members := [\<lparr>rm_userId = 1, rm_staked = False, rm_ready = False, rm_joinedAt = 0\<rparr>]\<rparr>"

definition lobby0 :: "GameRoom list \<Rightarrow> rooms_st" where
  "lobby0 rs = level_st.extend (wallet_st.extend (wallet0\<lparr>next_id := 30\<rparr>) \<lparr>level_log = []\<rparr>) \<lparr>rooms = rs\<rparr>"

lemmas lobby0_defs = lobby0_def level_st.extend_def wallet_st.extend_def

lemma lobby0_frame: "users (lobby0 rs) = users wallet0" "txs (lobby0 rs) = txs wallet0" "next_id (lobby0 rs) = 30"
  "rooms (lobby0 rs) = rs" "clock (lobby0 rs) = clock wallet0"
  by (simp_all add: lobby0_defs wallet0_defs)

lemma lobby0_users: "find_user u (lobby0 rs) = find_user u wallet0"
  by (simp add: find_user_def lobby0_frame)

lemma lobby0_ledger: "ledger_ok (lobby0 rs)"
  using wallet0_ok by (rule ledger_ok_frame) (simp_all add: lobby0_frame wallet0_defs)

lemma wallet0_find: "find_user 1 wallet0 \<noteq> None" "find_user 2 wallet0 \<noteq> None" "find_user 3 wallet0 \<noteq> None"
  by (simp_all add: find_user_def wallet0_defs)

lemma lobby0_ok: "lobby_ok (lobby0 [demo_room])" "lobby_ok (lobby0 [casual_room])" "lobby_ok (lobby0 [])"
  using lobby0_ledger wallet0_find
  by (simp_all add: lobby_ok_def rooms_ok_def room_ok_def lobby0_users lobby0_frame demo_room_def casual_room_def)

text \<open>
  C2: The lobby neither creates nor destroys coins: through any sequence of creating, joining, leaving,
  cancelling, readying, starting and reverting rooms by existing users, the users' balances plus
  the pots of the rooms not yet closed stay the same, every room has distinct members within its
  capacity, and its pot is the stake of each of its members.
\<close>

theorem lobby_conserves_coins:
  assumes "lobby_ok s" "\<forall>p \<in> set ops. find_user (fst p) s \<noteq> None"
  shows "coins (fold lobby_step ops s) + escrow (fold lobby_step ops s) = coins s + escrow s
     \<and> rooms_ok (fold lobby_step ops s) \<and> ledger_ok (fold lobby_step ops s)"
proof -
  have "keeps s (fold lobby_step ops s)" using assms
  proof (induction ops arbitrary: s)
    case (Cons p ops)
    obtain u op where p: "p = (u, op)" by fastforce
    have k: "keeps s (lobby_step p s)" using lobby_step_keeps [OF Cons.prems(1), of u op] Cons.prems(2) p by simp
    have "\<forall>q \<in> set ops. find_user (fst q) (lobby_step p s) \<noteq> None"
      using Cons.prems(2) k unfolding keeps_def by auto
    then have "keeps (lobby_step p s) (fold lobby_step ops (lobby_step p s))"
      using Cons.IH k unfolding keeps_def by blast
    then show ?case using keeps_trans [OF k] by simp
  qed (simp add: keeps_refl)
  then show ?thesis by (simp add: keeps_def lobby_ok_def)
qed

theorem lobby_conserves_coins_witness:
  "rooms_ok (fold lobby_step [(1, LeaveRoom (Hex 20)), (3, JoinRoom (Hex 20)),
     (1, CreateRoom \<lparr>ci_game = TIENLEN, ci_mode = WAGER, ci_betAmount = Some 7, ci_maxPlayers = 4,
        ci_minPlayers = 2, ci_name = None, ci_isPrivate = None\<rparr>)] (lobby0 [demo_room]))"
  using lobby_conserves_coins [OF lobby0_ok(1), of "[(1, LeaveRoom (Hex 20)), (3, JoinRoom (Hex 20)),
     (1, CreateRoom \<lparr>ci_game = TIENLEN, ci_mode = WAGER, ci_betAmount = Some 7, ci_maxPlayers = 4,
        ci_minPlayers = 2, ci_name = None, ci_isPrivate = None\<rparr>)]"] wallet0_find
  by (simp add: lobby0_users)

text \<open>
  A failed join costs nothing: whatever the reason (the room is closed, full, or the stake
  cannot be paid), the state after the refused request is the state before it.
\<close>

theorem join_refused_changes_nothing:
  assumes "lobby_ok s" "find_user u s \<noteq> None" "join r u s = (Inl e, t)"
  shows "t = s"
  using join_keeps(2) [OF assms(1,2), of r] assms(3) by simp

theorem join_refused_changes_nothing_witness:
  "join (Hex 20) 3 (lobby0 [demo_room]) = (Inl (BadRequest ''Room is full''), lobby0 [demo_room])"
proof -
  have "\<exists>t. join (Hex 20) 3 (lobby0 [demo_room]) = (Inl (BadRequest ''Room is full''), t)"
    by (simp add: join_def await_def getOrThrow_def find_room_def join_guard_def isMember_def lobby0_frame demo_room_def)
  then show ?thesis using join_refused_changes_nothing [OF lobby0_ok(1)] wallet0_find(3)
    by (metis lobby0_users)
qed

text \<open>
  A game starts only with a full table: when \<open>beginStart\<close> succeeds the caller is the host, the
  room was waiting with at least the minimum of members and every other member ready; the room is
  then starting, with the same members and pot, and from then on joining it and leaving it
  through the lobby are refused.
\<close>

theorem start_requires_and_seals:
  assumes "lobby_ok s" "beginStart (Hex i) u s = (Inr room, t)"
  shows "\<exists>old. find_room i s = Some old \<and> r_hostId old = u \<and> r_status old = WAITING
     \<and> r_minPlayers old \<le> length (r_members old)
     \<and> (\<forall>m \<in> set (r_members old). rm_userId m \<noteq> u \<longrightarrow> rm_ready m)
     \<and> room = old\<lparr>r_status := STARTING\<rparr> \<and> find_room i t = Some room
     \<and> (\<forall>v. join (Hex i) v t = (Inl (BadRequest ''Room is not open for joining''), t))
     \<and> (\<forall>v. isMember room v \<longrightarrow> leave (Hex i) v t = (Inl (BadRequest ''Game already started''), t))"
proof (cases rule: beginStart_cases [of "Hex i" u s])
  case (started old)
  have i: "r_id old = i" using started(7) by simp
  have rt: "room = old\<lparr>r_status := STARTING\<rparr>" "t = set_room i (\<lambda>_. room) s"
    using started(8) assms(2) i by auto
  have f: "find_room i t = Some room"
    using started(1) i rt by (simp add: find_set_room)
  have "join (Hex i) v t = (Inl (BadRequest ''Room is not open for joining''), t)" for v
    using f rt(1) by (simp add: join_def await_def getOrThrow_def join_guard_def)
  moreover have "leave (Hex i) v t = (Inl (BadRequest ''Game already started''), t)" if "isMember room v" for v
    using f rt(1) that by (simp add: leave_def await_def getOrThrow_def leave_guard_def)
  ultimately show ?thesis using started i rt(1) f by blast
qed (use assms in simp)

theorem start_requires_and_seals_witness:
  "\<exists>room t. beginStart (Hex 20) 1 (lobby0 [demo_room]) = (Inr room, t)
     \<and> leave (Hex 20) 2 t = (Inl (BadRequest ''Game already started''), t)"
proof -
  obtain room t where b: "beginStart (Hex 20) 1 (lobby0 [demo_room]) = (Inr room, t)"
    by (simp add: beginStart_def await_def getOrThrow_def find_room_def lobby0_frame demo_room_def Let_def)
  from start_requires_and_seals [OF lobby0_ok(1) b] show ?thesis
    using b by (auto simp: find_room_def lobby0_frame demo_room_def isMember_def)
qed

lemma refund_balance:
  assumes "ledger_ok s" "refund u a ref s = (x, t)" "0 \<le> a" "\<not> isl x"
  shows "balance_of t v = balance_of s v + (if v = u then a else 0)"
  using ledger_ok_users [OF assms(1)] disjI2 [OF assms(2)]
proof (cases rule: give_cases [where u = u and a = a and ref = ref])
  case (ok tx s1)
  then show ?thesis using moved_balance [OF ok(2), of v] by simp
qed (use assms in auto)

lemma refundMany_balance:
  fixes s :: "'a rooms_st_scheme"
  assumes "ledger_ok s" "0 \<le> a" "\<forall>u \<in> set us. find_user u s \<noteq> None" "distinct us"
  shows "balance_of (refundMany us a ref s) v = balance_of s v + (if v \<in> set us then a else 0)"
  using assms(1,3,4)
proof (induction us arbitrary: s)
  case (Cons u us)
  obtain x t where r: "refund u a ref s = (x, t)" by fastforce
  have ok: "\<not> isl x" using refund_success(1) [of u s a ref] Cons.prems(2) r
    by (auto simp: settles_def split: sum.splits)
  note g = give_rooms [OF Cons.prems(1) disjI2 [OF r]]
  have "refundMany (u # us) a ref s = refundMany us a ref t"
    using r by (simp add: refundMany_def settles_def Let_def split_beta split: sum.split)
  then show ?case using Cons.IH [of t] g Cons.prems(2,3) refund_balance [OF Cons.prems(1) r assms(2) ok, of v]
    by auto
qed (simp add: refundMany_def)

text \<open>
  When the host leaves a waiting room the room closes and every member, and nobody else, gets the
  stake back, exactly once.
\<close>

theorem host_leave_refunds_members:
  assumes "lobby_ok s" "find_room i s = Some room" "r_status room = WAITING" "isMember room (r_hostId room)"
    "leave (Hex i) (r_hostId room) s = (x, t)"
  shows "x = Inr (None, True)
     \<and> (\<exists>closed. find_room i t = Some closed \<and> r_status closed = CLOSED)
     \<and> (\<forall>v. balance_of t v = balance_of s v + (if isMember room v then r_betAmount room else 0))"
proof -
  have led: "ledger_ok s" and ro: "rooms_ok s" using assms(1) by (auto simp: lobby_ok_def)
  have rok: "room_ok s room" and i: "r_id room = i"
    using find_room_ok [OF ro assms(2)] find_room_mem [OF assms(2)] by auto
  let ?f = "\<lambda>r. r\<lparr>r_status := CLOSED, r_closedAt := Some (clock s)\<rparr>"
  let ?s1 = "set_room i ?f s"
  have l: "x = Inr (None, True)" "t = cancel room s"
    using assms(2-5) by (auto simp: leave_def await_def getOrThrow_def leave_guard_def)
  have f1: "find_room i ?s1 = Some (?f room)" using assms(2) i by (simp add: find_set_room)
  have bal: "balance_of ?s1 v = balance_of s v" for v by (rule balance_users) simp
  show ?thesis
  proof (cases "r_mode room = WAGER")
    case True
    let ?us = "staked_users room"
    have us: "?us = map rm_userId (r_members room)" "0 \<le> r_betAmount room"
      "\<forall>u \<in> set ?us. find_user u ?s1 \<noteq> None" "distinct ?us"
      using rok True by (auto simp: staked_users_def room_ok_def intro!: arg_cong [where f = "map rm_userId"]
          filter_True distinct_map_filter)
    have t: "t = refundMany ?us (r_betAmount room) (r_code room) ?s1"
      using l(2) True assms(3) i by (simp add: cancel_def Let_def)
    have led1: "ledger_ok ?s1" using led by simp
    have "rooms t = rooms ?s1" using refundMany_effect [OF led1 us(2,3)] t by simp
    then have "find_room i t = Some (?f room)" using f1 by (simp add: find_room_def)
    moreover have "balance_of t v = balance_of s v + (if isMember room v then r_betAmount room else 0)" for v
      using refundMany_balance [OF led1 us(2-4), of "r_code room" v] bal t us(1) by (simp add: isMember_def)
    ultimately show ?thesis using l(1) by auto
  next
    case False
    then have "t = ?s1" "r_betAmount room = 0"
      using l(2) assms(3) i rok by (simp_all add: cancel_def Let_def room_ok_def)
    then show ?thesis using l(1) f1 bal by auto
  qed
qed

theorem host_leave_refunds_members_witness:
  "balance_of (snd (leave (Hex 20) 1 (lobby0 [demo_room]))) 2 = balance_of (lobby0 [demo_room]) 2 + 10"
proof -
  have f: "find_room 20 (lobby0 [demo_room]) = Some demo_room"
    by (simp add: find_room_def lobby0_frame demo_room_def)
  have h: "r_hostId demo_room = 1" "r_status demo_room = WAITING" "isMember demo_room 1" "isMember demo_room 2"
    "r_betAmount demo_room = 10"
    by (simp_all add: demo_room_def isMember_def)
  obtain x t where l: "leave (Hex 20) 1 (lobby0 [demo_room]) = (x, t)" by fastforce
  have "leave (Hex 20) (r_hostId demo_room) (lobby0 [demo_room]) = (x, t)" using l h by simp
  from host_leave_refunds_members [OF lobby0_ok(1) f h(2) _ this]
  have "\<forall>v. balance_of t v = balance_of (lobby0 [demo_room]) v + (if isMember demo_room v then 10 else 0)"
    using h by simp
  then show ?thesis using l h(4) by simp
qed

section \<open>What concurrent requests can do\<close>

text \<open>
  Two joins that read a room with one free seat both succeed: the commit of the second checks
  neither the capacity nor the membership again, so the room ends with one member more than its
  maximum, and when both requests are of one user, with that user twice.
\<close>

theorem concurrent_joins_overfill:
  assumes "find_room (r_id room) s = Some room" "r_mode room \<noteq> WAGER"
    "join_guard room u = Join_open" "join_guard room v = Join_open"
    "Suc (length (r_members room)) = r_maxPlayers room"
  shows "\<exists>r1 s1 r2 t. join_commit room u s = (Inr r1, s1) \<and> join_commit room v s1 = (Inr r2, t)
     \<and> find_room (r_id room) t = Some r2 \<and> length (r_members r2) = Suc (r_maxPlayers r2)
     \<and> (u = v \<longrightarrow> \<not> distinct (map rm_userId (r_members r2)))"
proof -
  have w: "r_status room = WAITING" using assms(3) by (auto simp: join_guard_def split: if_splits)
  let ?m = "\<lambda>x. \<lparr>rm_userId = x, rm_staked = False, rm_ready = False, rm_joinedAt = clock s\<rparr>"
  let ?r1 = "room\<lparr>r_members := r_members room @ [?m u], r_pot := r_pot room\<rparr>"
  let ?s1 = "set_room (r_id room) (\<lambda>_. ?r1) s"
  have j1: "join_commit room u s = (Inr ?r1, ?s1)"
    using assms(1,2) w by (simp add: join_commit_def await_def Let_def)
  have f1: "find_room (r_id room) ?s1 = Some ?r1" using assms(1) by (simp add: find_set_room)
  let ?r2 = "?r1\<lparr>r_members := r_members ?r1 @ [?m v], r_pot := r_pot room\<rparr>"
  let ?t = "set_room (r_id room) (\<lambda>_. ?r2) ?s1"
  have j2: "join_commit room v ?s1 = (Inr ?r2, ?t)"
    using f1 assms(2) w by (simp add: join_commit_def await_def Let_def)
  have f2: "find_room (r_id room) ?t = Some ?r2" using f1 by (simp add: find_set_room)
  show ?thesis using j1 j2 f2 assms(5) by auto
qed

theorem concurrent_joins_overfill_witness:
  "\<exists>r1 s1 r2 t. join_commit casual_room 2 (lobby0 [casual_room]) = (Inr r1, s1)
     \<and> join_commit casual_room 3 s1 = (Inr r2, t) \<and> length (r_members r2) = 3 \<and> r_maxPlayers casual_room = 2"
proof -
  have "find_room (r_id casual_room) (lobby0 [casual_room]) = Some casual_room"
    by (simp add: find_room_def lobby0_frame casual_room_def demo_room_def)
  moreover have "r_mode casual_room \<noteq> WAGER" "join_guard casual_room 2 = Join_open" "join_guard casual_room 3 = Join_open"
    "Suc (length (r_members casual_room)) = r_maxPlayers casual_room" "r_maxPlayers casual_room = 2"
    by (simp_all add: casual_room_def demo_room_def join_guard_def isMember_def)
  ultimately obtain r1 s1 r2 t where r: "join_commit casual_room 2 (lobby0 [casual_room]) = (Inr r1, s1)"
    "join_commit casual_room 3 s1 = (Inr r2, t)" "length (r_members r2) = Suc (r_maxPlayers r2)"
    using concurrent_joins_overfill by blast
  have "r_maxPlayers r2 = 2"
    using r(1,2) by (auto simp: join_commit_def await_def Let_def casual_room_def demo_room_def lobby0_frame
        find_room_def set_room_def)
  then show ?thesis using r \<open>r_maxPlayers casual_room = 2\<close> by auto
qed

end
