(* ===== verification/Matchmaking.thy ===== *)
theory Matchmaking
  imports Prelude Enums "HOL-Library.AList"
begin

text \<open>
  The queues of \<open>caro-matchmaking.service.ts\<close>, \<open>tienlen-matchmaking.service.ts\<close> and
  \<open>bomberman-matchmaking.service.ts\<close> (under \<open>src/games\<close>) and the pending invitations of
  \<open>src/games/common/challenge.service.ts\<close>. They live in Redis: a sorted set is the list of its members with their
  scores, a hash is an association list, and a script runs as one step. What a service reads and what a
  script later claims are separate definitions, since other clients act in between.
\<close>

section \<open>Sorted sets\<close>

type_synonym zset = "(oid \<times> int) list"

definition zadd :: "int \<Rightarrow> oid \<Rightarrow> zset \<Rightarrow> zset" where
  "zadd score u z = AList.update u score z"

definition zrem :: "oid \<Rightarrow> zset \<Rightarrow> zset" where
  "zrem u z = AList.delete u z"

definition zscore :: "oid \<Rightarrow> zset \<Rightarrow> int option" where
  "zscore u z = map_of z u"

text \<open>By score, and members of one score in the order of their names.\<close>

definition zrange :: "zset \<Rightarrow> (oid \<times> int) list" where
  "zrange z = sort_key snd (sort_key fst z)"

definition zmembers :: "zset \<Rightarrow> oid set" where
  "zmembers z = fst ` set z"

definition zok :: "zset \<Rightarrow> bool" where
  "zok z \<longleftrightarrow> distinct (map fst z)"

lemma zset_simps [simp]:
  "zmembers (zadd sc u z) = insert u (zmembers z)" "zmembers (zrem u z) = zmembers z - {u}" "set (zrange z) = set z"
  "length (zrange z) = length z"
  by (simp_all add: zmembers_def zadd_def zrem_def zrange_def dom_update delete_keys)
     (auto simp: AList.delete_eq image_iff)

lemma zok_ops [simp]: "zok z \<Longrightarrow> zok (zadd sc u z)" "zok z \<Longrightarrow> zok (zrem u z)"
  by (simp_all add: zok_def zadd_def zrem_def distinct_update distinct_delete)

lemma zscore_iff: "zok z \<Longrightarrow> zscore u z = Some sc \<longleftrightarrow> (u, sc) \<in> set z"
  by (simp add: zscore_def zok_def)

lemma zscore_None: "zscore u z = None \<longleftrightarrow> u \<notin> zmembers z"
  by (simp add: zscore_def zmembers_def map_of_eq_None_iff)

lemma zrange_distinct: "zok z \<Longrightarrow> distinct (map fst (zrange z))"
  by (simp add: zok_def zrange_def distinct_map)

lemma fold_zrem [simp]: "zmembers (fold zrem us z) = zmembers z - set us" "zok z \<Longrightarrow> zok (fold zrem us z)"
  by (induction us arbitrary: z) auto

section \<open>Caro: the opponent nearest in rank points\<close>

record CaroQueue =
  cq_set :: zset
  cq_meta :: "(oid \<times> string \<times> int) list"

definition cq_enqueue :: "oid \<Rightarrow> int \<Rightarrow> string \<Rightarrow> int \<Rightarrow> CaroQueue \<Rightarrow> CaroQueue" where
  "cq_enqueue u rp socketId now q =
     q\<lparr>cq_set := zadd rp u (cq_set q), cq_meta := AList.update u (socketId, now) (cq_meta q)\<rparr>"

definition cq_dequeue :: "oid \<Rightarrow> CaroQueue \<Rightarrow> CaroQueue" where
  "cq_dequeue u q = q\<lparr>cq_set := zrem u (cq_set q), cq_meta := AList.delete u (cq_meta q)\<rparr>"

definition cq_isQueued :: "oid \<Rightarrow> CaroQueue \<Rightarrow> bool" where
  "cq_isQueued u q \<longleftrightarrow> zscore u (cq_set q) \<noteq> None"

definition cq_size :: "CaroQueue \<Rightarrow> nat" where
  "cq_size q = length (cq_set q)"

definition cq_listQueued :: "CaroQueue \<Rightarrow> (oid \<times> int) list" where
  "cq_listQueued q = zrange (cq_set q)"

record QueuedPlayer =
  qp_userId :: oid
  qp_rp :: int
  qp_socketId :: string

text \<open>The first of the candidates at the least distance.\<close>

definition nearer :: "oid \<Rightarrow> int \<Rightarrow> oid \<times> int \<Rightarrow> (oid \<times> int) option \<Rightarrow> (oid \<times> int) option" where
  "nearer u myRp c best =
     (if fst c = u then best
      else case best of
        None \<Rightarrow> Some c
      | Some b \<Rightarrow> if \<bar>snd c - myRp\<bar> < \<bar>snd b - myRp\<bar> then Some c else Some b)"

definition cq_nearest :: "oid \<Rightarrow> CaroQueue \<Rightarrow> (oid \<times> int) option" where
  "cq_nearest u q =
     (case zscore u (cq_set q) of
        None \<Rightarrow> None
      | Some myRp \<Rightarrow> fold (nearer u myRp) (zrange (cq_set q)) None)"

text \<open>The script: both are still queued, and both leave.\<close>

definition cq_claim :: "oid \<Rightarrow> oid \<Rightarrow> CaroQueue \<Rightarrow> bool \<times> CaroQueue" where
  "cq_claim a b q =
     (if zscore a (cq_set q) = None \<or> zscore b (cq_set q) = None then (False, q)
      else (True, q\<lparr>cq_set := zrem b (zrem a (cq_set q))\<rparr>))"

definition cq_tryMatch :: "oid \<Rightarrow> CaroQueue \<Rightarrow> QueuedPlayer option \<times> CaroQueue" where
  "cq_tryMatch u q =
     (case cq_nearest u q of
        None \<Rightarrow> (None, q)
      | Some b \<Rightarrow>
          let (claimed, q) = cq_claim u (fst b) q
          in if \<not> claimed then (None, q)
             else let meta = map_of (cq_meta q) (fst b);
                      q = q\<lparr>cq_meta := AList.delete (fst b) (AList.delete u (cq_meta q))\<rparr>
                  in (Some \<lparr>qp_userId = fst b, qp_rp = snd b,
                       qp_socketId = (case meta of Some m \<Rightarrow> fst m | None \<Rightarrow> '''')\<rparr>, q))"

section \<open>Tien Len: the oldest players of a table size\<close>

record TienLenQueue =
  tq_set :: "nat \<Rightarrow> zset"
  tq_meta :: "nat \<Rightarrow> (oid \<times> string) list"

definition TABLE_SIZES :: "nat list" where
  "TABLE_SIZES = [2, 3, 4]"

definition tq_enqueue :: "nat \<Rightarrow> oid \<Rightarrow> string \<Rightarrow> int \<Rightarrow> TienLenQueue \<Rightarrow> TienLenQueue" where
  "tq_enqueue n u socketId now q =
     q\<lparr>tq_set := (tq_set q)(n := zadd now u (tq_set q n)), tq_meta := (tq_meta q)(n := AList.update u socketId (tq_meta q n))\<rparr>"

definition tq_dequeue :: "oid \<Rightarrow> TienLenQueue \<Rightarrow> TienLenQueue" where
  "tq_dequeue u q =
     fold (\<lambda>n q. q\<lparr>tq_set := (tq_set q)(n := zrem u (tq_set q n)), tq_meta := (tq_meta q)(n := AList.delete u (tq_meta q n))\<rparr>)
       TABLE_SIZES q"

definition tq_isQueued :: "oid \<Rightarrow> TienLenQueue \<Rightarrow> bool" where
  "tq_isQueued u q \<longleftrightarrow> (\<exists>n \<in> set TABLE_SIZES. zscore u (tq_set q n) \<noteq> None)"

definition tq_counts :: "TienLenQueue \<Rightarrow> (nat \<times> nat) list" where
  "tq_counts q = map (\<lambda>n. (n, length (tq_set q n))) TABLE_SIZES"

definition tq_listQueued :: "TienLenQueue \<Rightarrow> (nat \<times> oid list) list" where
  "tq_listQueued q = map (\<lambda>n. (n, map fst (zrange (tq_set q n)))) TABLE_SIZES"

text \<open>The script: when enough wait, the first \<open>n\<close> leave.\<close>

definition tq_claim :: "nat \<Rightarrow> TienLenQueue \<Rightarrow> oid list \<times> TienLenQueue" where
  "tq_claim n q =
     (if length (tq_set q n) < n then ([], q)
      else let us = map fst (take n (zrange (tq_set q n)))
           in (us, q\<lparr>tq_set := (tq_set q)(n := fold zrem us (tq_set q n))\<rparr>))"

definition tq_tryMatch :: "nat \<Rightarrow> TienLenQueue \<Rightarrow> oid list option \<times> TienLenQueue" where
  "tq_tryMatch n q =
     (let (us, q) = tq_claim n q
      in if us = [] \<or> length us < n then (None, q)
         else (Some us, q\<lparr>tq_meta := (tq_meta q)(n := fold AList.delete us (tq_meta q n))\<rparr>))"

section \<open>Bomberman: the players of a table size nearest in rank points\<close>

record BombermanQueue =
  bq_set :: "nat \<Rightarrow> zset"
  bq_meta :: "(oid \<times> nat) list"

definition bq_dequeue :: "oid \<Rightarrow> BombermanQueue \<Rightarrow> BombermanQueue" where
  "bq_dequeue u q =
     (let q = (case map_of (bq_meta q) u of
                 Some n \<Rightarrow> q\<lparr>bq_set := (bq_set q)(n := zrem u (bq_set q n))\<rparr>
               | None \<Rightarrow> fold (\<lambda>n q. q\<lparr>bq_set := (bq_set q)(n := zrem u (bq_set q n))\<rparr>) TABLE_SIZES q)
      in q\<lparr>bq_meta := AList.delete u (bq_meta q)\<rparr>)"

definition bq_enqueue :: "oid \<Rightarrow> nat \<Rightarrow> int \<Rightarrow> BombermanQueue \<Rightarrow> BombermanQueue" where
  "bq_enqueue u n rp q =
     (let q = bq_dequeue u q
      in q\<lparr>bq_set := (bq_set q)(n := zadd rp u (bq_set q n)), bq_meta := AList.update u n (bq_meta q)\<rparr>)"

definition bq_isQueued :: "oid \<Rightarrow> BombermanQueue \<Rightarrow> bool" where
  "bq_isQueued u q \<longleftrightarrow> map_of (bq_meta q) u \<noteq> None"

definition bq_counts :: "BombermanQueue \<Rightarrow> (nat \<times> nat) list" where
  "bq_counts q = map (\<lambda>n. (n, length (bq_set q n))) TABLE_SIZES"

definition bq_listBySize :: "BombermanQueue \<Rightarrow> (nat \<times> (oid \<times> int) list) list" where
  "bq_listBySize q = map (\<lambda>n. (n, zrange (bq_set q n))) TABLE_SIZES"

definition bq_choose :: "oid \<Rightarrow> nat \<Rightarrow> BombermanQueue \<Rightarrow> oid list option" where
  "bq_choose u n q =
     (let pool = zrange (bq_set q n)
      in if length pool < n then None
         else case List.find (\<lambda>p. fst p = u) pool of
           None \<Rightarrow> None
         | Some me \<Rightarrow> Some (map fst (take n (sort_key (\<lambda>p. \<bar>snd p - snd me\<bar>) pool))))"

text \<open>The script: all chosen are still queued, and all leave.\<close>

definition bq_claim :: "nat \<Rightarrow> oid list \<Rightarrow> BombermanQueue \<Rightarrow> bool \<times> BombermanQueue" where
  "bq_claim n us q =
     (if \<exists>u \<in> set us. zscore u (bq_set q n) = None then (False, q)
      else (True, q\<lparr>bq_set := (bq_set q)(n := fold zrem us (bq_set q n))\<rparr>))"

definition bq_tryMatch :: "oid \<Rightarrow> nat \<Rightarrow> BombermanQueue \<Rightarrow> oid list option \<times> BombermanQueue" where
  "bq_tryMatch u n q =
     (case bq_choose u n q of
        None \<Rightarrow> (None, q)
      | Some us \<Rightarrow>
          let (claimed, q) = bq_claim n us q
          in if \<not> claimed then (None, q) else (Some us, q\<lparr>bq_meta := fold AList.delete us (bq_meta q)\<rparr>))"

section \<open>Pending challenges\<close>

record PendingChallenge =
  ch_id :: nat
  ch_game :: GameType
  ch_fromUserId :: oid
  ch_toUserId :: raw_id
  ch_mode :: GameMode
  ch_betAmount :: int
  ch_createdAt :: int

definition CHALLENGE_TTL_MS :: int where "CHALLENGE_TTL_MS = 45000"

type_synonym challenges = "PendingChallenge list"

text \<open>A key is gone when its time to live is over.\<close>

definition ch_get :: "int \<Rightarrow> nat \<Rightarrow> challenges \<Rightarrow> PendingChallenge option" where
  "ch_get now i cs = List.find (\<lambda>c. ch_id c = i \<and> now < ch_createdAt c + CHALLENGE_TTL_MS) cs"

definition ch_remove :: "nat \<Rightarrow> challenges \<Rightarrow> challenges" where
  "ch_remove i cs = filter (\<lambda>c. ch_id c \<noteq> i) cs"

text \<open>\<open>GETDEL\<close>.\<close>

definition ch_claim :: "int \<Rightarrow> nat \<Rightarrow> challenges \<Rightarrow> PendingChallenge option \<times> challenges" where
  "ch_claim now i cs = (ch_get now i cs, ch_remove i cs)"

definition ch_create :: "nat \<Rightarrow> GameType \<Rightarrow> oid \<Rightarrow> raw_id \<Rightarrow> GameMode \<Rightarrow> int \<Rightarrow> int \<Rightarrow> challenges
    \<Rightarrow> PendingChallenge \<times> challenges" where
  "ch_create i game u v mode bet now cs =
     (let c = \<lparr>ch_id = i, ch_game = game, ch_fromUserId = u, ch_toUserId = v, ch_mode = mode, ch_betAmount = bet,
               ch_createdAt = now\<rparr>
      in (c, ch_remove i cs @ [c]))"

end
