(* ===== verification/Sockets.thy ===== *)
theory Sockets
  imports Rooms Matchmaking
begin

text \<open>
  The socket side of a game, as the gateways of Caro, Tien Len and Bomberman share it: connected clients
  with what a gateway keeps on them, the rooms of the socket server, and the handlers for the lobby, for
  coin rooms and for invitations, which read the same in \<open>caro.gateway.ts\<close>, \<open>tienlen.gateway.ts\<close> and
  \<open>bomberman.gateway.ts\<close> (under \<open>src/games\<close>) up to the name of the game. The state of a gateway is the
  state of its game service beside its queue and its clients; the guard is
  \<open>src/common/guards/ws-jwt.guard.ts\<close>, given what the handshake token of the client says.
\<close>

section \<open>State\<close>

record AuthUser =
  au_id :: oid
  au_username :: string

text \<open>The rooms of a namespace: each client has one of its own; the names of the last two contain what a client wrote.\<close>

datatype channel = Own_room string | Lobby_room | User_room raw_id | Room_room raw_id | Game_room raw_id

record Client =
  cl_user :: "AuthUser option"
  cl_game :: "raw_id option"
  cl_rooms :: "channel list"

text \<open>The card of the sender, or its name when the account has none.\<close>

type_synonym sender = "UserCard + AuthUser"

datatype 'c gw_event =
    Queue_count 'c
  | Challenge_received nat sender GameMode int
  | Challenge_accepted nat oid oid
  | Challenge_declined nat oid
  | Room_updated RoomView
  | Room_closed raw_id
  | Room_started raw_id oid
  | Bad_token string

record ('s, 'q, 'c) gateway =
  gw_service :: 's
  gw_queue :: 'q
  gw_challenges :: challenges
  gw_clients :: "string \<rightharpoonup> Client"
  gw_log :: "(channel \<times> 'c gw_event) list"

text \<open>An operation of the service, or of the queue, run by a handler.\<close>

definition service :: "('s \<Rightarrow> ('a, 's) outcome) \<Rightarrow> ('s, 'q, 'c, 'z) gateway_scheme \<Rightarrow> ('a, ('s, 'q, 'c, 'z) gateway_scheme) outcome" where
  "service m g = (let (x, s) = m (gw_service g) in (x, g\<lparr>gw_service := s\<rparr>))"

definition on_service :: "('s \<Rightarrow> 's) \<Rightarrow> ('s, 'q, 'c, 'z) gateway_scheme \<Rightarrow> ('s, 'q, 'c, 'z) gateway_scheme" where
  "on_service f g = g\<lparr>gw_service := f (gw_service g)\<rparr>"

definition on_queue :: "('q \<Rightarrow> 'q) \<Rightarrow> ('s, 'q, 'c, 'z) gateway_scheme \<Rightarrow> ('s, 'q, 'c, 'z) gateway_scheme" where
  "on_queue f g = g\<lparr>gw_queue := f (gw_queue g)\<rparr>"

definition emit_to :: "channel \<Rightarrow> 'c gw_event \<Rightarrow> ('s, 'q, 'c, 'z) gateway_scheme \<Rightarrow> ('s, 'q, 'c, 'z) gateway_scheme" where
  "emit_to ch e g = g\<lparr>gw_log := gw_log g @ [(ch, e)]\<rparr>"

definition on_client :: "string \<Rightarrow> (Client \<Rightarrow> Client) \<Rightarrow> ('s, 'q, 'c, 'z) gateway_scheme \<Rightarrow> ('s, 'q, 'c, 'z) gateway_scheme" where
  "on_client c f g = g\<lparr>gw_clients := (gw_clients g)(c := map_option f (gw_clients g c))\<rparr>"

definition join_channel :: "string \<Rightarrow> channel \<Rightarrow> ('s, 'q, 'c, 'z) gateway_scheme \<Rightarrow> ('s, 'q, 'c, 'z) gateway_scheme" where
  "join_channel c ch = on_client c (\<lambda>k. k\<lparr>cl_rooms := List.insert ch (cl_rooms k)\<rparr>)"

definition leave_channel :: "string \<Rightarrow> channel \<Rightarrow> ('s, 'q, 'c, 'z) gateway_scheme \<Rightarrow> ('s, 'q, 'c, 'z) gateway_scheme" where
  "leave_channel c ch = on_client c (\<lambda>k. k\<lparr>cl_rooms := removeAll ch (cl_rooms k)\<rparr>)"

section \<open>Clients\<close>

definition user_of_client :: "string \<Rightarrow> ('s, 'q, 'c, 'z) gateway_scheme \<Rightarrow> AuthUser option" where
  "user_of_client c g = Option.bind (gw_clients g c) cl_user"

definition userOf :: "string \<Rightarrow> ('s, 'q, 'c, 'z) gateway_scheme \<Rightarrow> (AuthUser, ('s, 'q, 'c, 'z) gateway_scheme) outcome" where
  "userOf c g = (case user_of_client c g of None \<Rightarrow> throw (WsError ''Unauthorized'') g | Some u \<Rightarrow> return u g)"

text \<open>A client whose token names nobody is told so and disconnected.\<close>

definition handleConnection :: "AuthUser option \<Rightarrow> string \<Rightarrow> ('s, 'q, 'c, 'z) gateway_scheme \<Rightarrow> ('s, 'q, 'c, 'z) gateway_scheme" where
  "handleConnection token c g =
     (case token of
        None \<Rightarrow> emit_to (Own_room c) (Bad_token ''Invalid token'') (g\<lparr>gw_clients := (gw_clients g)(c := None)\<rparr>)
      | Some u \<Rightarrow>
          join_channel c (User_room (Hex (au_id u)))
            (g\<lparr>gw_clients := (gw_clients g)(c \<mapsto> \<lparr>cl_user = Some u, cl_game = None, cl_rooms = []\<rparr>)\<rparr>))"

definition canActivate :: "AuthUser option \<Rightarrow> string \<Rightarrow> ('s, 'q, 'c, 'z) gateway_scheme \<Rightarrow> (unit, ('s, 'q, 'c, 'z) gateway_scheme) outcome" where
  "canActivate token c g =
     (if user_of_client c g \<noteq> None then return () g
      else case token of
        None \<Rightarrow> throw (WsError ''Unauthorized'') g
      | Some u \<Rightarrow> return () (on_client c (\<lambda>k. k\<lparr>cl_user := Some u\<rparr>) g))"

text \<open>What every gateway does of a disconnect before it turns to the game of the client.\<close>

definition leave_queue :: "(oid \<Rightarrow> 'q \<Rightarrow> bool) \<Rightarrow> (oid \<Rightarrow> 'q \<Rightarrow> 'q) \<Rightarrow> (('s, 'q, 'c, 'z) gateway_scheme \<Rightarrow> 'c) \<Rightarrow> oid
    \<Rightarrow> ('s, 'q, 'c, 'z) gateway_scheme \<Rightarrow> ('s, 'q, 'c, 'z) gateway_scheme" where
  "leave_queue queued dequeue counts u g =
     (let was = queued u (gw_queue g); g = on_queue (dequeue u) g
      in if was then emit_to Lobby_room (Queue_count (counts g)) g else g)"

definition handleDisconnect :: "(oid \<Rightarrow> 'q \<Rightarrow> bool) \<Rightarrow> (oid \<Rightarrow> 'q \<Rightarrow> 'q) \<Rightarrow> (('s, 'q, 'c, 'z) gateway_scheme \<Rightarrow> 'c)
    \<Rightarrow> (raw_id \<Rightarrow> oid \<Rightarrow> 's \<Rightarrow> 's) \<Rightarrow> string \<Rightarrow> ('s, 'q, 'c, 'z) gateway_scheme \<Rightarrow> ('s, 'q, 'c, 'z) gateway_scheme" where
  "handleDisconnect queued dequeue counts drop_out c g =
     (let gone = \<lambda>g. g\<lparr>gw_clients := (gw_clients g)(c := None)\<rparr> in
      case user_of_client c g of
        None \<Rightarrow> gone g
      | Some u \<Rightarrow>
          let g = leave_queue queued dequeue counts (au_id u) g
          in gone (case Option.bind (gw_clients g c) cl_game of
                     Some r \<Rightarrow> on_service (drop_out r (au_id u)) g
                   | None \<Rightarrow> g))"

section \<open>Coin rooms\<close>

definition floor_bet :: "rat option \<Rightarrow> int" where
  "floor_bet b = (case b of None \<Rightarrow> 0 | Some x \<Rightarrow> \<lfloor>x\<rfloor>)"

text \<open>A table size the client may ask for, else the default.\<close>

definition table_size :: "nat \<Rightarrow> nat option \<Rightarrow> nat" where
  "table_size d n = (case n of Some k \<Rightarrow> if k \<in> set TABLE_SIZES then k else d | None \<Rightarrow> d)"

definition room_create :: "CreateRoomInput \<Rightarrow> string \<Rightarrow> ('r rooms_st_scheme, 'q, 'c, 'z) gateway_scheme
    \<Rightarrow> (GameRoom, ('r rooms_st_scheme, 'q, 'c, 'z) gateway_scheme) outcome" where
  "room_create input c = await (userOf c) (\<lambda>u. await (service (create_room (au_id u) input))
     (\<lambda>room g. return room (join_channel c (Room_room (Hex (r_id room))) g)))"

definition room_view :: "GameRoom \<Rightarrow> ('r rooms_st_scheme, 'q, 'c, 'z) gateway_scheme \<Rightarrow> RoomView" where
  "room_view room g = publicView room (gw_service g)"

definition room_join :: "raw_id option \<Rightarrow> string option \<Rightarrow> string \<Rightarrow> ('r rooms_st_scheme, 'q, 'c, 'z) gateway_scheme
    \<Rightarrow> (RoomView, ('r rooms_st_scheme, 'q, 'c, 'z) gateway_scheme) outcome" where
  "room_join roomId code c = await (userOf c) (\<lambda>u.
     await (service (case roomId of Some r \<Rightarrow> getOrThrow r | None \<Rightarrow> getByCode (Some (case code of Some x \<Rightarrow> x | None \<Rightarrow> ''''))))
       (\<lambda>room. await (service (join (Hex (r_id room)) (au_id u)))
         (\<lambda>room g.
            let ch = Room_room (Hex (r_id room)); g = join_channel c ch g; view = room_view room g
            in return view (emit_to ch (Room_updated view) g))))"

definition room_leave :: "raw_id \<Rightarrow> string \<Rightarrow> ('r rooms_st_scheme, 'q, 'c, 'z) gateway_scheme
    \<Rightarrow> (bool, ('r rooms_st_scheme, 'q, 'c, 'z) gateway_scheme) outcome" where
  "room_leave r c = await (userOf c) (\<lambda>u. await (service (leave r (au_id u)))
     (\<lambda>(room, cancelled) g.
        let g = (if cancelled then emit_to (Room_room r) (Room_closed r) g
                 else case room of
                   Some x \<Rightarrow> emit_to (Room_room r) (Room_updated (room_view x g)) g
                 | None \<Rightarrow> g)
        in return cancelled (leave_channel c (Room_room r) g)))"

definition room_ready :: "raw_id \<Rightarrow> bool \<Rightarrow> string \<Rightarrow> ('r rooms_st_scheme, 'q, 'c, 'z) gateway_scheme
    \<Rightarrow> (RoomView, ('r rooms_st_scheme, 'q, 'c, 'z) gateway_scheme) outcome" where
  "room_ready r ready c = await (userOf c) (\<lambda>u. await (service (setReady r (au_id u) ready))
     (\<lambda>room g. let view = room_view room g in return view (emit_to (Room_room r) (Room_updated view) g)))"

fun message_of :: "http_error \<Rightarrow> string" where
  "message_of (BadRequest m) = m"
| "message_of (Forbidden m) = m"
| "message_of (NotFound m) = m"
| "message_of (Unauthorized m) = m"
| "message_of (Conflict m) = m"
| "message_of (WsError m) = m"

definition or_message :: "string \<Rightarrow> string \<Rightarrow> string" where
  "or_message m d = (if m = '''' then d else m)"

definition revert_room :: "raw_id \<Rightarrow> 'r rooms_st_scheme \<Rightarrow> 'r rooms_st_scheme" where
  "revert_room r s = (case read_oid r of Some i \<Rightarrow> revertToWaiting i s | None \<Rightarrow> s)"

text \<open>The room is sealed, the game launched from it; a launch that fails gives the room back.\<close>

definition room_start :: "(GameRoom \<Rightarrow> 'r rooms_st_scheme \<Rightarrow> (oid, 'r rooms_st_scheme) outcome) \<Rightarrow> raw_id \<Rightarrow> string
    \<Rightarrow> ('r rooms_st_scheme, 'q, 'c, 'z) gateway_scheme \<Rightarrow> (oid, ('r rooms_st_scheme, 'q, 'c, 'z) gateway_scheme) outcome" where
  "room_start launch r c = await (userOf c) (\<lambda>u. await (service (beginStart r (au_id u)))
     (\<lambda>room g.
        case service (launch room) g of
          (Inr gameId, g) \<Rightarrow> return gameId (emit_to (Room_room r) (Room_started r gameId) g)
        | (Inl e, g) \<Rightarrow> throw (WsError (or_message (message_of e) ''Failed to start game'')) (on_service (revert_room r) g)))"

section \<open>Invitations\<close>

definition sender_of :: "AuthUser \<Rightarrow> 'r env_st_scheme \<Rightarrow> sender" where
  "sender_of u s = (case map_of (getCards [Hex (au_id u)] s) (au_id u) of Some c \<Rightarrow> Inl c | None \<Rightarrow> Inr u)"

text \<open>The random name of an invitation is a fresh identifier.\<close>

definition challenge_send :: "GameType \<Rightarrow> GameMode \<Rightarrow> int \<Rightarrow> raw_id option \<Rightarrow> string
    \<Rightarrow> ('r env_st_scheme, 'q, 'c, 'z) gateway_scheme \<Rightarrow> (nat, ('r env_st_scheme, 'q, 'c, 'z) gateway_scheme) outcome" where
  "challenge_send game mode bet opponent c = await (userOf c) (\<lambda>u.
     case opponent of
       None \<Rightarrow> throw (WsError ''Invalid opponent'')
     | Some r \<Rightarrow>
         if r = Hex (au_id u) then throw (WsError ''Invalid opponent'')
         else await (service (findByIdOrThrow r)) (\<lambda>_ g.
           let (i, s) = fresh_id (gw_service g);
               (k, ks) = ch_create i game (au_id u) r mode bet (clock s) (gw_challenges g);
               g = g\<lparr>gw_service := s, gw_challenges := ks\<rparr>
           in return i (emit_to (User_room r) (Challenge_received i (sender_of u s) mode bet) g)))"

text \<open>The invitation is taken out of the store before anything about it is checked.\<close>

definition challenge_accept :: "GameType \<Rightarrow> (PendingChallenge \<Rightarrow> oid \<Rightarrow> 'r env_st_scheme \<Rightarrow> (oid, 'r env_st_scheme) outcome) \<Rightarrow> nat \<Rightarrow> string
    \<Rightarrow> ('r env_st_scheme, 'q, 'c, 'z) gateway_scheme \<Rightarrow> (oid, ('r env_st_scheme, 'q, 'c, 'z) gateway_scheme) outcome" where
  "challenge_accept game launch i c = await (userOf c) (\<lambda>u g.
     let (found, ks) = ch_claim (clock (gw_service g)) i (gw_challenges g); g = g\<lparr>gw_challenges := ks\<rparr> in
     case found of
       None \<Rightarrow> throw (WsError ''Challenge expired or not found'') g
     | Some k \<Rightarrow>
         if ch_game k \<noteq> game then throw (WsError ''Challenge expired or not found'') g
         else if ch_toUserId k \<noteq> Hex (au_id u) then throw (WsError ''This challenge is not addressed to you'') g
         else await (service (launch k (au_id u))) (\<lambda>gameId g.
           return gameId (emit_to (User_room (Hex (ch_fromUserId k))) (Challenge_accepted (ch_id k) gameId (au_id u)) g)) g)"

definition challenge_decline :: "nat \<Rightarrow> string \<Rightarrow> ('r env_st_scheme, 'q, 'c, 'z) gateway_scheme
    \<Rightarrow> (unit, ('r env_st_scheme, 'q, 'c, 'z) gateway_scheme) outcome" where
  "challenge_decline i c = await (userOf c) (\<lambda>u g.
     case ch_get (clock (gw_service g)) i (gw_challenges g) of
       None \<Rightarrow> return () g
     | Some k \<Rightarrow>
         if ch_toUserId k \<noteq> Hex (au_id u) then throw (WsError ''This challenge is not addressed to you'') g
         else return () (emit_to (User_room (Hex (ch_fromUserId k))) (Challenge_declined (ch_id k) (au_id u))
                (g\<lparr>gw_challenges := ch_remove (ch_id k) (gw_challenges g)\<rparr>)))"

end
