(* ===== verification/CaroLogic.thy ===== *)
theory CaroLogic
  imports Prelude
begin

text \<open>
  The rules of Caro, \<open>src/games/caro/caro.logic.ts\<close>: a flat board of fifteen rows of fifteen
  cells, and five in a row wins. The coordinates of a move are numbers the client sends, and nothing
  checks that they are whole, so they are rationals here; a cell of the board is read by the
  number \<open>15 * row + col\<close>, and a number that is no index reads as \<open>undefined\<close>.
\<close>

section \<open>Operations\<close>

text \<open>A cell is empty (zero) or holds the mark of the first (one) or second player (two).\<close>

type_synonym cell = nat
type_synonym board = "cell list"

definition BOARD_SIZE :: nat where "BOARD_SIZE = 15"

definition WIN_COUNT :: nat where "WIN_COUNT = 5"

definition createBoard :: board where
  "createBoard = replicate (BOARD_SIZE * BOARD_SIZE) 0"

definition idx :: "rat \<Rightarrow> rat \<Rightarrow> rat" where
  "idx row col = row * of_nat BOARD_SIZE + col"

definition inBounds :: "rat \<Rightarrow> rat \<Rightarrow> bool" where
  "inBounds row col \<longleftrightarrow> 0 \<le> row \<and> row < of_nat BOARD_SIZE \<and> 0 \<le> col \<and> col < of_nat BOARD_SIZE"

text \<open>\<open>board[i]\<close>.\<close>

definition cell_at :: "board \<Rightarrow> rat \<Rightarrow> cell option" where
  "cell_at b i =
     (if of_int \<lfloor>i\<rfloor> = i \<and> 0 \<le> i \<and> i < of_nat (length b) then Some (b ! nat \<lfloor>i\<rfloor>) else None)"

text \<open>
  The run of a mark that starts next to a cell: up to four further cells in one direction, stopping
  at the first that is off the board or holds something else.
\<close>

definition marked :: "board \<Rightarrow> cell \<Rightarrow> rat \<Rightarrow> rat \<Rightarrow> bool" where
  "marked b mark r c \<longleftrightarrow> inBounds r c \<and> cell_at b (idx r c) = Some mark"

definition run_from :: "board \<Rightarrow> cell \<Rightarrow> rat \<Rightarrow> rat \<Rightarrow> int \<Rightarrow> int \<Rightarrow> rat list" where
  "run_from b mark row col dr dc =
     (let pos = (\<lambda>s::nat. (row + of_int dr * of_nat s, col + of_int dc * of_nat s))
      in map (\<lambda>s. idx (fst (pos s)) (snd (pos s)))
           (takeWhile (\<lambda>s. marked b mark (fst (pos s)) (snd (pos s))) [1..<WIN_COUNT]))"

definition directions :: "(int \<times> int) list" where
  "directions = [(0, 1), (1, 0), (1, 1), (1, - 1)]"

definition cells_through :: "board \<Rightarrow> rat \<Rightarrow> rat \<Rightarrow> cell \<Rightarrow> int \<times> int \<Rightarrow> rat list" where
  "cells_through b row col mark d =
     rev (run_from b mark row col (- fst d) (- snd d)) @ idx row col # run_from b mark row col (fst d) (snd d)"

definition findWinningLine :: "board \<Rightarrow> rat \<Rightarrow> rat \<Rightarrow> cell \<Rightarrow> rat list option" where
  "findWinningLine b row col mark =
     List.find (\<lambda>cells. WIN_COUNT \<le> length cells) (map (cells_through b row col mark) directions)"

datatype MoveResult = Refused string | Win "rat list" | Draw | Placed

definition applyMove :: "board \<Rightarrow> rat \<Rightarrow> rat \<Rightarrow> cell \<Rightarrow> MoveResult \<times> board" where
  "applyMove b row col mark =
     (if \<not> inBounds row col then (Refused ''Out of bounds'', b)
      else let i = idx row col in
        if cell_at b i \<noteq> Some 0 then (Refused ''Cell already taken'', b)
        else let b = b[nat \<lfloor>i\<rfloor> := mark] in
          case findWinningLine b row col mark of
            Some line \<Rightarrow> (Win line, b)
          | None \<Rightarrow> if \<forall>c \<in> set b. c \<noteq> 0 then (Draw, b) else (Placed, b))"

section \<open>The rules on whole coordinates\<close>

text \<open>The square in row \<open>i\<close> and column \<open>j\<close> holds \<open>m\<close>; five of them in a row from there.\<close>

definition square :: "board \<Rightarrow> cell \<Rightarrow> int \<Rightarrow> int \<Rightarrow> bool" where
  "square b m i j \<longleftrightarrow> 0 \<le> i \<and> i < 15 \<and> 0 \<le> j \<and> j < 15 \<and> b ! nat (15 * i + j) = m"

definition five_from :: "board \<Rightarrow> cell \<Rightarrow> int \<Rightarrow> int \<Rightarrow> int \<times> int \<Rightarrow> bool" where
  "five_from b m i j d \<longleftrightarrow> (\<forall>t \<in> set [0..4]. square b m (i + t * fst d) (j + t * snd d))"

definition has_five :: "board \<Rightarrow> cell \<Rightarrow> bool" where
  "has_five b m \<longleftrightarrow> (\<exists>i \<in> set [0..14]. \<exists>j \<in> set [0..14]. \<exists>d \<in> set directions. five_from b m i j d)"

section \<open>Runs\<close>

lemma le_takeWhile_nth: "s \<le> length (takeWhile P xs) \<longleftrightarrow> s \<le> length xs \<and> (\<forall>i < s. P (xs ! i))"
proof (induction xs arbitrary: s)
  case (Cons x xs)
  then show ?case by (cases s) (auto simp: All_less_Suc2)
qed auto

lemma le_takeWhile_iff: "s \<le> length (takeWhile P [1..<Suc k]) \<longleftrightarrow> s \<le> k \<and> (\<forall>u \<in> {1..s}. P u)"
proof -
  have "(\<forall>i < s. P ([1..<Suc k] ! i)) \<longleftrightarrow> (\<forall>u \<in> {1..s}. P u)" if "s \<le> k"
  proof -
    have "(\<forall>i < s. P ([1..<Suc k] ! i)) \<longleftrightarrow> (\<forall>i < s. P (Suc i))"
      using that by (auto simp del: upt_Suc)
    then show ?thesis
      by (metis Suc_le_eq Suc_le_D One_nat_def atLeastAtMost_iff le0 not_less_eq_eq)
  qed
  then show ?thesis unfolding le_takeWhile_nth by auto
qed

lemma run_length:
  "s \<le> length (run_from b m row col dr dc) \<longleftrightarrow>
     s \<le> 4 \<and> (\<forall>u \<in> {1..s}. marked b m (row + of_int dr * of_nat u) (col + of_int dc * of_nat u))"
proof -
  have "WIN_COUNT = Suc 4" by (simp add: WIN_COUNT_def)
  then have w: "[1..<WIN_COUNT] = [1..<Suc 4]" by (rule arg_cong)
  show ?thesis unfolding run_from_def Let_def length_map w fst_conv snd_conv le_takeWhile_iff by (rule refl)
qed

lemma length_run: "length (run_from b m row col dr dc) \<le> 4"
  using run_length [of "length (run_from b m row col dr dc)" b m row col dr dc] by simp

text \<open>Two runs of lengths \<open>f\<close> and \<open>b\<close> around a cell hold a window of five.\<close>

lemma window:
  assumes "f \<le> 4" "b \<le> (4 :: nat)"
  shows "4 \<le> f + b \<longleftrightarrow> (\<exists>k \<le> 4. k \<le> b \<and> 4 - k \<le> f)"
proof
  assume "4 \<le> f + b"
  then show "\<exists>k \<le> 4. k \<le> b \<and> 4 - k \<le> f" using assms by (intro exI [of _ "4 - f"]) auto
qed auto

lemma marked_iff_square:
  assumes "length b = 225"
  shows "marked b m (of_int i) (of_int j) \<longleftrightarrow> square b m i j"
proof -
  have e: "idx (of_int i) (of_int j) = of_int (15 * i + j)" by (simp add: idx_def BOARD_SIZE_def)
  have "cell_at b (of_int (15 * i + j)) = Some m \<longleftrightarrow> b ! nat (15 * i + j) = m"
    if "0 \<le> i" "i < 15" "0 \<le> j" "j < 15"
  proof -
    have "0 \<le> 15 * i + j" "15 * i + j < 225" using that by linarith+
    then have "(of_int (15 * i + j) :: rat) < 225" "(0::rat) \<le> of_int (15 * i + j)"
      by (metis of_int_less_numeral_iff) (simp only: of_int_0_le_iff \<open>0 \<le> 15 * i + j\<close>)
    then show ?thesis using assms by (simp only: cell_at_def floor_of_int) simp
  qed
  then show ?thesis unfolding marked_def e
    by (auto simp: inBounds_def BOARD_SIZE_def square_def)
qed

text \<open>The run from a whole cell, in squares.\<close>

lemma run_squares:
  assumes "length b = 225"
  shows "s \<le> length (run_from b m (of_int i) (of_int j) dr dc) \<longleftrightarrow>
     s \<le> 4 \<and> (\<forall>u \<in> {1..s}. square b m (i + dr * int u) (j + dc * int u))"
proof -
  have "marked b m (of_int i + of_int dr * of_nat u) (of_int j + of_int dc * of_nat u)
      \<longleftrightarrow> square b m (i + dr * int u) (j + dc * int u)" for u
    using marked_iff_square [OF assms, of m "i + dr * int u" "j + dc * int u"] by simp
  then show ?thesis by (simp add: run_length)
qed

section \<open>Lines\<close>

text \<open>A window of five through a square, as a run behind it, the square, and a run before it.\<close>

lemma five_split:
  assumes "k \<le> (4 :: nat)"
  shows "five_from b m (i - int k * di) (j - int k * dj) (di, dj) \<longleftrightarrow>
     square b m i j \<and> (\<forall>u \<in> {1..k}. square b m (i + - di * int u) (j + - dj * int u))
       \<and> (\<forall>u \<in> {1..4 - k}. square b m (i + di * int u) (j + dj * int u))"
    (is "_ \<longleftrightarrow> ?R")
proof -
  define Q where "Q o' = square b m (i + o' * di) (j + o' * dj)" for o' :: int
  have l: "five_from b m (i - int k * di) (j - int k * dj) (di, dj) \<longleftrightarrow> (\<forall>t \<in> {0..4}. Q (t - int k))"
    by (simp add: five_from_def Q_def algebra_simps)
  have r: "?R \<longleftrightarrow> Q 0 \<and> (\<forall>u \<in> {1..k}. Q (- int u)) \<and> (\<forall>u \<in> {1..4 - k}. Q (int u))"
    by (simp add: Q_def algebra_simps)
  show ?thesis unfolding l r
  proof safe
    assume a: "\<forall>t \<in> {0..4}. Q (t - int k)"
    show "Q 0" using bspec [OF a, of "int k"] assms by simp
    show "Q (- int u)" if "u \<in> {1..k}" for u
      using bspec [OF a, of "int k - int u"] assms that by simp
    show "Q (int u)" if "u \<in> {1..4 - k}" for u
      using bspec [OF a, of "int k + int u"] assms that by force
  next
    fix t :: int
    assume a: "Q 0" "\<forall>u \<in> {1..k}. Q (- int u)" "\<forall>u \<in> {1..4 - k}. Q (int u)" and t: "t \<in> {0..4}"
    consider "t = int k" | "t < int k" | "int k < t" by linarith
    then show "Q (t - int k)"
    proof cases
      case 2
      then have "nat (int k - t) \<in> {1..k}" using t by auto
      then show ?thesis using bspec [OF a(2)] 2 by fastforce
    next
      case 3
      then show ?thesis using bspec [OF a(3), of "nat (t - int k)"] t assms by (simp add: nat_le_iff of_nat_diff)
    qed (use a(1) in simp)
  qed
qed

lemma cells_through_iff:
  assumes "length b = 225" "square b m i j"
  shows "WIN_COUNT \<le> length (cells_through b (of_int i) (of_int j) m d) \<longleftrightarrow>
     (\<exists>k \<le> (4 :: nat). five_from b m (i - int k * fst d) (j - int k * snd d) d)"
proof -
  obtain di dj where d: "d = (di, dj)" by (cases d)
  let ?B = "length (run_from b m (of_int i) (of_int j) (- di) (- dj))"
  let ?F = "length (run_from b m (of_int i) (of_int j) di dj)"
  have "WIN_COUNT \<le> length (cells_through b (of_int i) (of_int j) m d) \<longleftrightarrow> 4 \<le> ?F + ?B"
    by (auto simp: cells_through_def WIN_COUNT_def d)
  also have "\<dots> \<longleftrightarrow> (\<exists>k \<le> 4. k \<le> ?B \<and> 4 - k \<le> ?F)"
    by (rule window [OF length_run length_run])
  also have "\<dots> \<longleftrightarrow> (\<exists>k \<le> (4 :: nat). five_from b m (i - int k * di) (j - int k * dj) (di, dj))"
    by (intro ex_cong1 conj_cong refl) (simp add: run_squares [OF assms(1)] five_split assms(2))
  finally show ?thesis by (simp add: d)
qed

lemma findWinningLine_iff:
  assumes "length b = 225" "square b m i j"
  shows "findWinningLine b (of_int i) (of_int j) m \<noteq> None \<longleftrightarrow>
     (\<exists>d \<in> set directions. \<exists>k \<le> (4 :: nat). five_from b m (i - int k * fst d) (j - int k * snd d) d)"
proof -
  have "findWinningLine b (of_int i) (of_int j) m \<noteq> None \<longleftrightarrow>
      (\<exists>d \<in> set directions. WIN_COUNT \<le> length (cells_through b (of_int i) (of_int j) m d))"
    by (simp add: findWinningLine_def find_None_iff_all)
  then show ?thesis by (simp add: cells_through_iff [OF assms])
qed

section \<open>A move changes one square\<close>

lemma square_update:
  assumes "length b = 225" "0 \<le> i" "i < 15" "0 \<le> j" "j < 15"
  shows "square (b[nat (15 * i + j) := m]) m' p q \<longleftrightarrow> (if p = i \<and> q = j then m = m' else square b m' p q)"
proof (cases "0 \<le> p \<and> p < 15 \<and> 0 \<le> q \<and> q < 15")
  case True
  have n: "nat (15 * i + j) < 225" using assms by linarith
  have "nat (15 * p + q) = nat (15 * i + j) \<longleftrightarrow> p = i \<and> q = j"
  proof
    assume "nat (15 * p + q) = nat (15 * i + j)"
    then have e: "15 * p + q = 15 * i + j" using True assms by linarith
    then have "p - i < 1" "i - p < 1" using True assms by linarith+
    then show "p = i \<and> q = j" using e by simp
  qed simp
  then show ?thesis using True n assms(1) by (auto simp: square_def nth_list_update)
next
  case False
  then show ?thesis using assms by (auto simp: square_def)
qed

lemma five_update:
  assumes "length b = 225" "0 \<le> i" "i < 15" "0 \<le> j" "j < 15" "five_from (b[nat (15 * i + j) := m]) m' p q d"
  shows "five_from b m' p q d \<or> m' = m \<and> (\<exists>k \<le> (4 :: nat). p = i - int k * fst d \<and> q = j - int k * snd d)"
proof (cases "\<exists>t \<in> {0..4}. p + t * fst d = i \<and> q + t * snd d = j")
  case True
  then obtain t where t: "t \<in> {0..4}" "p + t * fst d = i" "q + t * snd d = j" by blast
  have "m = m'" using assms(6) t by (auto simp: five_from_def square_update [OF assms(1-5)])
  moreover have "p = i - int (nat t) * fst d" "q = j - int (nat t) * snd d" "nat t \<le> 4" using t by auto
  ultimately show ?thesis by blast
next
  case False
  then show ?thesis using assms(6) by (auto simp: five_from_def square_update [OF assms(1-5)])
qed

text \<open>A window of five starts on the board.\<close>

lemma has_five_iff: "has_five b m \<longleftrightarrow> (\<exists>i j. \<exists>d \<in> set directions. five_from b m i j d)"
proof
  assume "\<exists>i j. \<exists>d \<in> set directions. five_from b m i j d"
  then obtain i j d where f: "d \<in> set directions" "five_from b m i j d" by blast
  then have "square b m i j" by (auto simp: five_from_def dest: bspec [of _ _ 0])
  then have "i \<in> set [0..14]" "j \<in> set [0..14]" by (auto simp: square_def)
  then show "has_five b m" using f unfolding has_five_def by blast
qed (auto simp: has_five_def)

section \<open>Moves\<close>

lemma cell_at_int:
  assumes "length b = 225" "0 \<le> i" "i < 15" "0 \<le> j" "j < 15"
  shows "cell_at b (idx (of_int i) (of_int j)) = Some (b ! nat (15 * i + j))" "inBounds (of_int i) (of_int j)"
    "nat \<lfloor>idx (of_int i) (of_int j)\<rfloor> = nat (15 * i + j)"
proof -
  have e: "idx (of_int i) (of_int j) = of_int (15 * i + j)" by (simp add: idx_def BOARD_SIZE_def)
  have m: "marked b (b ! nat (15 * i + j)) (of_int i) (of_int j)"
    using assms by (simp add: marked_iff_square square_def)
  then show "cell_at b (idx (of_int i) (of_int j)) = Some (b ! nat (15 * i + j))" "inBounds (of_int i) (of_int j)"
    by (simp_all add: marked_def)
  show "nat \<lfloor>idx (of_int i) (of_int j)\<rfloor> = nat (15 * i + j)" unfolding e floor_of_int ..
qed

lemma applyMove_placed:
  assumes "length b = 225" "0 \<le> i" "i < 15" "0 \<le> j" "j < 15" "b ! nat (15 * i + j) = 0"
  shows "applyMove b (of_int i) (of_int j) m =
    (let b' = b[nat (15 * i + j) := m] in
       case findWinningLine b' (of_int i) (of_int j) m of
         Some line \<Rightarrow> (Win line, b')
       | None \<Rightarrow> if \<forall>c \<in> set b'. c \<noteq> 0 then (Draw, b') else (Placed, b'))"
  unfolding applyMove_def Let_def cell_at_int [OF assms(1-5)] using assms(6) cell_at_int(2) [OF assms(1-5)] by simp

lemma caro_five_facts:
  assumes "length b = 225" "0 \<le> i" "i < 15" "0 \<le> j" "j < 15" "b ! nat (15 * i + j) = 0"
    and "\<not> has_five b m"
  shows "((\<exists>line. fst (applyMove b (of_int i) (of_int j) m) = Win line)
            \<longleftrightarrow> has_five (snd (applyMove b (of_int i) (of_int j) m)) m)
       \<and> (fst (applyMove b (of_int i) (of_int j) m) = Draw
            \<longleftrightarrow> \<not> has_five (snd (applyMove b (of_int i) (of_int j) m)) m
              \<and> 0 \<notin> set (snd (applyMove b (of_int i) (of_int j) m)))
       \<and> (\<forall>m'. m' \<noteq> m \<longrightarrow> \<not> has_five b m' \<longrightarrow> \<not> has_five (snd (applyMove b (of_int i) (of_int j) m)) m')"
proof -
  let ?b = "b[nat (15 * i + j) := m]"
  have five: "has_five ?b m' \<longleftrightarrow> m' = m \<and> findWinningLine ?b (of_int i) (of_int j) m \<noteq> None"
    if "\<not> has_five b m'" for m'
  proof -
    have sq: "square ?b m i j" using square_update [OF assms(1-5)] by simp
    have w: "findWinningLine ?b (of_int i) (of_int j) m \<noteq> None \<longleftrightarrow>
        (\<exists>d \<in> set directions. \<exists>k \<le> (4 :: nat). five_from ?b m (i - int k * fst d) (j - int k * snd d) d)"
      by (rule findWinningLine_iff) (simp_all add: assms(1) sq)
    show ?thesis
    proof
      assume "has_five ?b m'"
      then obtain p q d where f: "d \<in> set directions" "five_from ?b m' p q d" by (auto simp: has_five_iff)
      then have "\<not> five_from b m' p q d" using that by (auto simp: has_five_iff)
      then have "m' = m" "\<exists>k \<le> (4 :: nat). p = i - int k * fst d \<and> q = j - int k * snd d"
        using five_update [OF assms(1-5) f(2)] by blast+
      then show "m' = m \<and> findWinningLine ?b (of_int i) (of_int j) m \<noteq> None" unfolding w using f by blast
    next
      assume a: "m' = m \<and> findWinningLine ?b (of_int i) (of_int j) m \<noteq> None"
      then obtain d k where "d \<in> set directions" "five_from ?b m (i - int k * fst d) (j - int k * snd d) d"
        unfolding w by blast
      then show "has_five ?b m'" using a unfolding has_five_iff by blast
    qed
  qed
  show ?thesis
  proof (cases "findWinningLine ?b (of_int i) (of_int j) m")
    case None
    then show ?thesis unfolding applyMove_placed [OF assms(1-6)] Let_def using five [OF assms(7)] five by auto
  next
    case (Some l)
    then show ?thesis unfolding applyMove_placed [OF assms(1-6)] Let_def using five [OF assms(7)] five by auto
  qed
qed

text \<open>
  C24: On whole coordinates the win test is exact: when no player had five in a row before, a move to an
  empty square is answered with a win just when the mover now has five in a row anywhere on the
  board, with a draw just when there is none and the board is full, and the other player gains no
  five by it.
\<close>

theorem caro_win_iff_five:
  assumes "length b = 225" "0 \<le> i" "i < 15" "0 \<le> j" "j < 15" "b ! nat (15 * i + j) = 0"
    and "\<not> has_five b m"
  shows "((\<exists>line. fst (applyMove b (of_int i) (of_int j) m) = Win line)
            \<longleftrightarrow> has_five (snd (applyMove b (of_int i) (of_int j) m)) m)
       \<and> (fst (applyMove b (of_int i) (of_int j) m) = Draw
            \<longleftrightarrow> \<not> has_five (snd (applyMove b (of_int i) (of_int j) m)) m
              \<and> 0 \<notin> set (snd (applyMove b (of_int i) (of_int j) m)))
       \<and> (\<forall>m'. m' \<noteq> m \<longrightarrow> \<not> has_five b m' \<longrightarrow> \<not> has_five (snd (applyMove b (of_int i) (of_int j) m)) m')"
  using caro_five_facts [OF assms] .

text \<open>Nobody has five in a row on the empty board.\<close>

lemma createBoard_simps [simp]: "length createBoard = 225" "set createBoard = {0}" "n < 225 \<Longrightarrow> createBoard ! n = 0"
  by (simp_all add: createBoard_def BOARD_SIZE_def)

lemma no_five_createBoard: "m \<noteq> 0 \<Longrightarrow> \<not> has_five createBoard m"
proof
  assume m: "m \<noteq> 0" and "has_five createBoard m"
  then obtain i j d where "five_from createBoard m i j d" by (auto simp: has_five_iff)
  then have "square createBoard m i j" by (auto simp: five_from_def dest: bspec [of _ _ 0])
  then have "0 \<le> i" "i < 15" "0 \<le> j" "j < 15" "createBoard ! nat (15 * i + j) = m" by (auto simp: square_def)
  moreover have "nat (15 * i + j) < 225" using calculation by linarith
  ultimately show False using m by simp
qed

theorem caro_win_iff_five_witness:
  "(\<exists>line. fst (applyMove createBoard 7 7 1) = Win line) \<longleftrightarrow> has_five (snd (applyMove createBoard 7 7 1)) 1"
  using caro_win_iff_five [of createBoard 7 7 1] by (simp add: no_five_createBoard)

text \<open>The winning line, whatever the coordinates: five to nine cells, all holding the mark.\<close>

lemma set_run_from:
  assumes "x \<in> set (run_from b m row col dr dc)"
  obtains u where "1 \<le> u" "u \<le> 4" "x = idx (row + of_int dr * of_nat u) (col + of_int dc * of_nat u)"
    "marked b m (row + of_int dr * of_nat u) (col + of_int dc * of_nat u)"
  using assms by (fastforce simp: run_from_def Let_def WIN_COUNT_def dest: set_takeWhileD)

lemma winning_line_marked:
  assumes "findWinningLine b row col m = Some l" "cell_at b (idx row col) = Some m"
  shows "5 \<le> length l \<and> length l \<le> 9 \<and> idx row col \<in> set l \<and> (\<forall>x \<in> set l. cell_at b x = Some m)"
proof -
  obtain d where d: "l = cells_through b row col m d" "5 \<le> length l"
    using find_Some_iff_mem [OF assms(1) [unfolded findWinningLine_def]] by (auto simp: WIN_COUNT_def)
  have "\<forall>x \<in> set l. cell_at b x = Some m"
    using assms(2) by (auto simp: d(1) cells_through_def marked_def elim!: set_run_from)
  then show ?thesis
    using d length_run [of b m row col "fst d" "snd d"] length_run [of b m row col "- fst d" "- snd d"]
    by (auto simp: cells_through_def)
qed

text \<open>A move that is not refused takes one empty cell.\<close>

lemma cell_at_update: "cell_at b x = Some c \<Longrightarrow> cell_at (b[nat \<lfloor>x\<rfloor> := m]) x = Some m"
  by (auto simp: cell_at_def split: if_splits)

lemma cell_at_SomeD: "cell_at b x = Some c \<Longrightarrow> nat \<lfloor>x\<rfloor> < length b \<and> b ! nat \<lfloor>x\<rfloor> = c \<and> x = of_nat (nat \<lfloor>x\<rfloor>)"
  by (auto simp: cell_at_def split: if_splits)

lemma applyMove_cases:
  assumes "applyMove b row col m = (r, b')"
  obtains (refused) e where "r = Refused e" "b' = b"
  | (taken) "nat \<lfloor>idx row col\<rfloor> < length b" "b ! nat \<lfloor>idx row col\<rfloor> = 0" "b' = b[nat \<lfloor>idx row col\<rfloor> := m]"
      "cell_at b' (idx row col) = Some m"
      "\<And>e. r \<noteq> Refused e" "r = Draw \<Longrightarrow> 0 \<notin> set b'" "\<And>l. r = Win l \<Longrightarrow> findWinningLine b' row col m = Some l"
      "r = Placed \<Longrightarrow> 0 \<in> set b'" "r = Placed \<or> r = Draw \<Longrightarrow> findWinningLine b' row col m = None"
proof (cases "inBounds row col \<and> cell_at b (idx row col) = Some 0")
  case False
  then show ?thesis using assms refused by (auto simp: applyMove_def Let_def split: if_splits)
next
  case True
  then show ?thesis using assms cell_at_SomeD [of b "idx row col" 0]
      cell_at_update [of b "idx row col" 0 m]
    by (intro taken) (auto simp: applyMove_def Let_def split: if_splits option.splits)
qed

text \<open>
  Two cells at the end of the top row and two at the start of the next: a move to row
  four fifths and column zero lands between them on the flat board and wins.
\<close>

definition wrapped_board :: board where
  "wrapped_board = createBoard[13 := 1, 14 := 1, 15 := 1, 16 := 1]"

lemma wrapped_squares:
  "square (wrapped_board[12 := 1]) 1 i j \<longleftrightarrow> (i = 0 \<and> 12 \<le> j \<and> j \<le> 14) \<or> (i = 1 \<and> 0 \<le> j \<and> j \<le> 1)"
proof -
  have "wrapped_board[12 := 1] ! n = 1 \<longleftrightarrow> n \<in> {12..16}" if "n < 225" for n
    using that by (auto simp: wrapped_board_def nth_list_update)
  then have w: "wrapped_board[12 := 1] ! nat (15 * i + j) = 1 \<longleftrightarrow> 12 \<le> 15 * i + j \<and> 15 * i + j \<le> 16"
    if "0 \<le> i" "i < 15" "0 \<le> j" "j < 15"
  proof -
    have "nat (15 * i + j) < 225" using that by linarith
    moreover have "nat (15 * i + j) \<in> {12..16} \<longleftrightarrow> 12 \<le> 15 * i + j \<and> 15 * i + j \<le> 16" using that by auto
    ultimately show ?thesis using \<open>\<And>n. n < 225 \<Longrightarrow> _\<close> by blast
  qed
  show ?thesis
  proof (cases "0 \<le> i \<and> i < 15 \<and> 0 \<le> j \<and> j < 15")
    case True
    then have "12 \<le> 15 * i + j \<and> 15 * i + j \<le> 16 \<longleftrightarrow> (i = 0 \<and> 12 \<le> j \<and> j \<le> 14) \<or> (i = 1 \<and> 0 \<le> j \<and> j \<le> 1)"
      by presburger
    then show ?thesis using True w unfolding square_def by blast
  qed (auto simp: square_def)
qed

text \<open>
  The win test trusts coordinates that are not whole: a move to row 4/5, column 0 is accepted, fills
  the cell of the top row's thirteenth column, and wins with a line that leaves the top row at its end and
  goes on in the second row, though nobody has five in a row.
\<close>

theorem fractional_move_wins_across_edge:
  "applyMove wrapped_board (4 / 5) 0 1 = (Win [12, 13, 14, 15, 16], wrapped_board[12 := 1])
   \<and> \<not> has_five (wrapped_board[12 := 1]) 1"
proof
  show "applyMove wrapped_board (4 / 5) 0 1 = (Win [12, 13, 14, 15, 16], wrapped_board[12 := 1])"
    by code_simp
  show "\<not> has_five (wrapped_board[12 := 1]) 1"
  proof
    assume "has_five (wrapped_board[12 := 1]) 1"
    then obtain i j d where d: "d \<in> set directions" and f: "five_from (wrapped_board[12 := 1]) 1 i j d"
      by (auto simp: has_five_iff)
    have "square (wrapped_board[12 := 1]) 1 i j" "square (wrapped_board[12 := 1]) 1 (i + 4 * fst d) (j + 4 * snd d)"
      using f by (auto simp: five_from_def dest: bspec [of _ _ 0] bspec [of _ _ 4])
    then show False using d unfolding wrapped_squares by (auto simp: directions_def)
  qed
qed

end
