(* ===== verification/Elo.thy ===== *)
theory Elo
  imports Prelude
begin

text \<open>
  The rating exchange of ranked Caro, \<open>src/games/caro/elo.util.ts\<close>, over the real numbers with
  \<open>Math.round\<close> as \<open>js_round\<close>. Ratings are rank points, scores are one, one half or zero.
\<close>

section \<open>Operations\<close>

definition expected :: "int \<Rightarrow> int \<Rightarrow> real" where
  "expected ratingA ratingB = 1 / (1 + 10 powr ((real_of_int ratingB - real_of_int ratingA) / 400))"

definition eloDelta :: "int \<Rightarrow> int \<Rightarrow> real \<Rightarrow> real \<Rightarrow> int" where
  "eloDelta ratingA ratingB scoreA k = js_round (k * (scoreA - expected ratingA ratingB))"

record EloOutcome =
  winnerDelta :: int
  loserDelta :: int

definition rankedOutcome :: "int \<Rightarrow> int \<Rightarrow> EloOutcome" where
  "rankedOutcome winnerRp loserRp =
     (let w = eloDelta winnerRp loserRp 1 32;
          l = eloDelta loserRp winnerRp 0 32
      in \<lparr>winnerDelta = max 1 w, loserDelta = min (- 1) l\<rparr>)"

definition drawOutcome :: "int \<Rightarrow> int \<Rightarrow> int \<times> int" where
  "drawOutcome rpA rpB = (eloDelta rpA rpB (1 / 2) 32, eloDelta rpB rpA (1 / 2) 32)"

section \<open>Laws\<close>

lemma expected_bounds: "0 < expected a b" "expected a b < 1"
  by (simp_all add: expected_def field_simps add_pos_pos)

text \<open>The two expectations add up to one.\<close>

lemma expected_swap: "expected b a = 1 - expected a b"
proof -
  define x where "x = (10 :: real) powr ((real_of_int b - real_of_int a) / 400)"
  have x: "0 < x" by (simp add: x_def)
  have y: "(10 :: real) powr ((real_of_int a - real_of_int b) / 400) = 1 / x"
    unfolding x_def by (simp add: powr_minus_divide [symmetric] minus_divide_left)
  have e: "expected b a = 1 / (1 + 1 / x)" "expected a b = 1 / (1 + x)"
    by (simp_all only: expected_def y x_def)
  have "1 / (1 + 1 / x) = x / (1 + x)" "1 - 1 / (1 + x) = x / (1 + x)"
    using x by (simp_all add: field_simps)
  then show ?thesis unfolding e by simp
qed

lemma expected_mono: "a \<le> a' \<Longrightarrow> expected a b \<le> expected a' b"
proof -
  assume "a \<le> a'"
  then have "(10 :: real) powr ((real_of_int b - real_of_int a') / 400)
      \<le> 10 powr ((real_of_int b - real_of_int a) / 400)"
    by (simp add: divide_right_mono)
  then show ?thesis by (simp add: expected_def frac_le add_pos_pos)
qed

text \<open>Rounding opposite numbers gives opposite results, up to one at a half.\<close>

lemma js_round_opposite: "0 \<le> js_round x + js_round (- x)" "js_round x + js_round (- x) \<le> 1" for x :: real
  unfolding js_round_def by linarith+

lemma eloDelta_opposite:
  "eloDelta b a (1 - sc) k = js_round (- (k * (sc - expected a b)))"
  by (simp add: eloDelta_def expected_swap [of b a] algebra_simps)

text \<open>
  A decided ranked game always moves rank points in the right direction and by at most the
  factor 32: the winner gains between 1 and 32 points, the loser loses between 1 and 32, and the
  two changes cancel except for at most one point that rounding creates.
\<close>

theorem ranked_outcome_bounds:
  "winnerDelta (rankedOutcome w l) \<in> {1..32} \<and> loserDelta (rankedOutcome w l) \<in> {-32..-1}
     \<and> winnerDelta (rankedOutcome w l) + loserDelta (rankedOutcome w l) \<in> {0..1}"
proof -
  let ?x = "32 * (1 - expected w l)"
  have x: "0 < ?x" "?x < 32" using expected_bounds [of w l] by auto
  have w: "eloDelta w l 1 32 = js_round ?x" by (simp add: eloDelta_def)
  have l: "eloDelta l w 0 32 = js_round (- ?x)"
    using eloDelta_opposite [of l w 1 32] by simp
  have "0 \<le> js_round ?x" "js_round ?x \<le> 32" "- 32 \<le> js_round (- ?x)" "js_round (- ?x) \<le> 0"
    using x js_round_ge [of 0 ?x] js_round_le [of ?x 32] js_round_ge [of "- 32" "- ?x"]
      js_round_le [of "- ?x" 0] by simp_all
  then show ?thesis using js_round_opposite [of ?x]
    by (auto simp: rankedOutcome_def Let_def w l)
qed

text \<open>
  The stronger the winner already was, the fewer points the win brings: against the same
  opponent, a winner with more rank points gains at most as much, and beating a stronger
  opponent gains at least as much.
\<close>

theorem ranked_outcome_monotone:
  assumes "w \<le> w'" "l' \<le> l"
  shows "winnerDelta (rankedOutcome w' l') \<le> winnerDelta (rankedOutcome w l)"
proof -
  have "expected w l \<le> expected w' l" using expected_mono [OF assms(1)] .
  also have "\<dots> \<le> expected w' l'"
    using expected_mono [OF assms(2), of w'] expected_swap [of w' l] expected_swap [of w' l'] by linarith
  finally have "eloDelta w' l' 1 32 \<le> eloDelta w l 1 32"
    unfolding eloDelta_def by (intro js_round_mono) simp
  then show ?thesis by (auto simp: rankedOutcome_def Let_def)
qed

theorem ranked_outcome_monotone_witness:
  "winnerDelta (rankedOutcome 1400 900) \<le> winnerDelta (rankedOutcome 1000 1000)"
  by (rule ranked_outcome_monotone) simp_all

text \<open>A draw: the stronger player does not gain, and the changes cancel up to one point.\<close>

lemma draw_outcome:
  assumes "b \<le> a"
  shows "fst (drawOutcome a b) \<le> 0" "0 \<le> snd (drawOutcome a b)"
    "fst (drawOutcome a b) + snd (drawOutcome a b) \<in> {0..1}"
proof -
  let ?x = "32 * (1 / 2 - expected a b)"
  have x: "?x \<le> 0"
    using expected_mono [OF assms, of b] by (simp add: expected_def)
  have a: "fst (drawOutcome a b) = js_round ?x" by (simp add: drawOutcome_def eloDelta_def)
  have b: "snd (drawOutcome a b) = js_round (- ?x)"
    using eloDelta_opposite [of b a "1 / 2" 32] by (simp add: drawOutcome_def)
  show "fst (drawOutcome a b) \<le> 0" using js_round_le [of ?x 0] x a by simp
  show "0 \<le> snd (drawOutcome a b)" using js_round_ge [of 0 "- ?x"] x b by simp
  show "fst (drawOutcome a b) + snd (drawOutcome a b) \<in> {0..1}"
    using js_round_opposite [of ?x] a b by simp
qed

end
