(* ===== verification/GameMoney.thy ===== *)
theory GameMoney
  imports Rooms
begin

text \<open>
  What the three games need of the components they pay through: stakes, payouts and rank points touch
  the accounts, their records and their events, and leave the rooms, the clock and the games'
  own state alone. The part of a state that a component does not know is its \<open>more\<close> field.
\<close>

named_theorems money \<open>frames of the operations games pay with\<close>

text \<open>Equal unknown parts make all fields of the extensions equal.\<close>

lemma wallet_more:
  "wallet_st.more t = wallet_st.more s \<Longrightarrow> level_st.more t = level_st.more s \<and> level_log t = level_log s"
  by (cases s; cases t) simp

lemma level_more:
  "level_st.more t = level_st.more s \<Longrightarrow> rooms t = rooms s \<and> rooms_st.more t = rooms_st.more s"
  by (cases s; cases t) simp

lemma emitWallet_more [simp]: "wallet_st.more (emitWalletEvent r p s) = wallet_st.more s"
  by (simp add: emitWalletEvent_def)

lemma debit_more:
  "wallet_st.more (snd (debit r a ty reason ref s)) = wallet_st.more s
   \<and> clock (snd (debit r a ty reason ref s)) = clock s \<and> next_id s \<le> next_id (snd (debit r a ty reason ref s))"
  by (auto simp: debit_def debit_in_def await_def withTransaction_def insertTx_def fresh_id_def Let_def emitWalletEvent_def
      split: option.split)

lemma credit_more:
  "wallet_st.more (snd (credit r a ty reason ref s)) = wallet_st.more s
   \<and> clock (snd (credit r a ty reason ref s)) = clock s \<and> next_id s \<le> next_id (snd (credit r a ty reason ref s))"
  by (auto simp: credit_def credit_in_def await_def withTransaction_def insertTx_def fresh_id_def Let_def set_user_def
      emitWalletEvent_def split: option.split)

lemma await_unit: "snd (await m (\<lambda>_. return ()) s) = snd (m s)"
  by (auto simp: await_def split: prod.split sum.split)

lemma collectStake_more [money]:
  "wallet_st.more (snd (collectStake u a ref s)) = wallet_st.more s" "clock (snd (collectStake u a ref s)) = clock s"
  "next_id s \<le> next_id (snd (collectStake u a ref s))"
  by (simp_all add: collectStake_def await_unit debit_more)

lemma payout_more [money]:
  "wallet_st.more (snd (payout u a ref s)) = wallet_st.more s" "clock (snd (payout u a ref s)) = clock s"
  "next_id s \<le> next_id (snd (payout u a ref s))"
  by (simp_all add: payout_def await_unit credit_more)

lemma refund_more [money]:
  "wallet_st.more (snd (refund u a ref s)) = wallet_st.more s" "clock (snd (refund u a ref s)) = clock s"
  "next_id s \<le> next_id (snd (refund u a ref s))"
  by (simp_all add: refund_def await_unit credit_more)

lemma notify_level: "level_st.more (snd (notify r p s)) = level_st.more s" "clock (snd (notify r p s)) = clock s"
  by (auto simp: notify_def fresh_id_def Let_def split: option.split)

lemma addRankPoints_more [money]:
  "level_st.more (snd (addRankPoints u d reason s)) = level_st.more s" "clock (snd (addRankPoints u d reason s)) = clock s"
  "next_id s \<le> next_id (snd (addRankPoints u d reason s))"
proof -
  show "level_st.more (snd (addRankPoints u d reason s)) = level_st.more s" "clock (snd (addRankPoints u d reason s)) = clock s"
    by (auto simp: addRankPoints_def Let_def emit_level_def set_user_def best_effort_def notify_level split: option.split)
  show "next_id s \<le> next_id (snd (addRankPoints u d reason s))"
    using addRankPoints_users [of u d reason s] by (cases "d = 0") (auto simp: addRankPoints_def prod_eq_iff)
qed

text \<open>A step that leaves all but the accounts alone.\<close>

definition only_accounts :: "'a level_st_scheme \<Rightarrow> 'a level_st_scheme \<Rightarrow> bool" where
  "only_accounts s t \<longleftrightarrow> level_st.more t = level_st.more s \<and> clock t = clock s \<and> next_id s \<le> next_id t"

lemma only_accounts_refl [simp]: "only_accounts s s"
  by (simp add: only_accounts_def)

lemma only_accounts_trans: "\<lbrakk>only_accounts s t; only_accounts t u\<rbrakk> \<Longrightarrow> only_accounts s u"
  by (simp add: only_accounts_def)

lemma only_accounts_payments [money]:
  "only_accounts s (best_effort (payout u a ref) s)" "only_accounts s (snd (settles (collectStake u a ref) s))"
  "only_accounts s (snd (addRankPoints u d reason s))"
  using wallet_more [OF payout_more(1) [where s = s]] wallet_more [OF collectStake_more(1) [where s = s]]
  by (simp_all add: only_accounts_def money best_effort_def snd_settles)

section \<open>Balanced payments\<close>

text \<open>
  A step that changes the coins of the users by \<open>d\<close> and keeps their ledger, the accounts, the rooms
  and everything a game stores.
\<close>

definition paid :: "int \<Rightarrow> 'a rooms_st_scheme \<Rightarrow> 'a rooms_st_scheme \<Rightarrow> bool" where
  "paid d s t \<longleftrightarrow> ledger_ok t \<and> same_accounts s t \<and> next_id s \<le> next_id t \<and> coins t = coins s + d
     \<and> level_st.more t = level_st.more s \<and> clock t = clock s"

lemma paid_rooms: "paid d s t \<Longrightarrow> rooms t = rooms s \<and> rooms_st.more t = rooms_st.more s \<and> escrow t = escrow s"
  using level_more [of t s] escrow_rooms [of t s] by (simp add: paid_def)

lemma paid_refl: "ledger_ok s \<Longrightarrow> paid 0 s s"
  by (simp add: paid_def)

lemma paid_trans: "\<lbrakk>paid d s t; paid e t u\<rbrakk> \<Longrightarrow> paid (d + e) s u"
  by (auto simp: paid_def)

lemma paid_ledger: "paid d s t \<Longrightarrow> ledger_ok t"
  by (simp add: paid_def)

lemma paid_account: "\<lbrakk>paid d s t; find_user u s \<noteq> None\<rbrakk> \<Longrightarrow> find_user u t \<noteq> None"
  by (simp add: paid_def)

lemma paid_collect:
  assumes "ledger_ok s" "settles (collectStake u a ref) s = (b, t)"
  shows "paid (if b then - a else 0) s t"
proof -
  obtain x where c: "collectStake u a ref s = (x, t)" "b \<longleftrightarrow> \<not> isl x"
    using assms(2) by (auto simp: settles_def split: prod.splits sum.splits)
  have "wallet_st.more t = wallet_st.more s" using collectStake_more(1) [where u = u and a = a and ref = ref and s = s] c(1) by simp
  then have "level_st.more t = level_st.more s" by (metis wallet_more)
  then show ?thesis using collectStake_rooms [OF assms(1) c(1)] c(2) by (auto simp: paid_def)
qed

lemma paid_payout:
  assumes "ledger_ok s" "0 \<le> a" "find_user u s \<noteq> None"
  shows "paid a s (best_effort (payout u a ref) s)"
proof -
  obtain x t where p: "payout u a ref s = (x, t)" by fastforce
  have "\<not> isl x" using refund_success(2) [OF assms(3), of a ref] p by (auto simp: settles_def split: sum.splits)
  moreover have "wallet_st.more t = wallet_st.more s" using payout_more(1) [where u = u and a = a and ref = ref and s = s] p by simp
  then have "level_st.more t = level_st.more s" by (metis wallet_more)
  ultimately show ?thesis using give_rooms [OF assms(1) disjI1 [OF p]] p assms(2)
    by (auto simp: paid_def best_effort_def)
qed

text \<open>A stake moved from one player to another leaves the coins as they were.\<close>

lemma paid_swap:
  assumes "ledger_ok s" "0 \<le> a" "find_user w s \<noteq> None" "settles (collectStake u a ref) s = (b, t)"
  shows "paid 0 s (if b then best_effort (payout w a ref) t else t)"
proof -
  have c: "paid (if b then - a else 0) s t" by (rule paid_collect [OF assms(1,4)])
  show ?thesis
  proof (cases b)
    case True
    have "paid a t (best_effort (payout w a ref) t)"
      by (rule paid_payout [OF paid_ledger [OF c] assms(2) paid_account [OF c assms(3)]])
    then show ?thesis using True paid_trans [OF c] by fastforce
  qed (use c in simp)
qed

lemma balances_set_user:
  assumes "\<And>d. u_id (f d) = u_id d" "\<And>d. balance (f d) = balance d"
  shows "coins (set_user u f s) = coins s" "books_ok (set_user u f s) = books_ok s"
proof -
  show "coins (set_user u f s) = coins s"
    unfolding coins_def set_user_def by (simp add: map_updateOne assms(2))
  have "find_user v (set_user u f s) = (if v = u then map_option f (find_user v s) else find_user v s)" for v
    by (rule find_set_user) (rule assms(1))
  then show "books_ok (set_user u f s) = books_ok s"
    by (auto simp: books_ok_def booked_def assms(2))
qed

lemma paid_points:
  assumes "ledger_ok s"
  shows "paid 0 s (snd (addRankPoints u d reason s))"
proof (cases "d = 0 \<or> find_user u s = None")
  case True
  then show ?thesis using paid_refl [OF assms] by (auto simp: addRankPoints_def)
next
  case False
  then obtain x where x: "find_user u s = Some x" by auto
  obtain r t where a: "addRankPoints u d reason s = (r, t)" by fastforce
  let ?f = "\<lambda>d'. d'\<lparr>rankPoints := max 0 (rankPoints x + d)\<rparr>"
  let ?s = "set_user u ?f s"
  have u: "users t = users ?s" "txs t = txs ?s" "next_id ?s \<le> next_id t"
    using a False x by (auto simp: addRankPoints_def Let_def)
  have "users_ok ?s"
    by (rule set_user_ok) (use assms x in \<open>auto simp: ledger_ok_def user_ok_def users_ok_def dest: find_user_Some\<close>)
  moreover have "books_ok ?s" using balances_set_user(2) [of ?f u s] assms by (simp add: ledger_ok_def)
  ultimately have "ledger_ok ?s" by (simp add: ledger_ok_def)
  then have "ledger_ok t" using u by (rule ledger_ok_frame)
  moreover have "coins t = coins s" using balances_set_user(1) [of ?f u s] coins_users [OF u(1)] by simp
  moreover have "same_accounts s t"
    using addRankPoints_users [OF a] False by auto
  moreover have "next_id s \<le> next_id t" using addRankPoints_users [OF a] False by blast
  ultimately show ?thesis using addRankPoints_more [where u = u and d = d and reason = reason and s = s] a by (simp add: paid_def)
qed

lemma paid_refund:
  assumes "ledger_ok s" "0 \<le> a" "find_user u s \<noteq> None"
  shows "paid a s (best_effort (refund u a ref) s)"
proof -
  obtain x t where p: "refund u a ref s = (x, t)" by fastforce
  have "\<not> isl x" using refund_success(1) [OF assms(3), of a ref] p by (auto simp: settles_def split: sum.splits)
  moreover have "wallet_st.more t = wallet_st.more s" using refund_more(1) [where u = u and a = a and ref = ref and s = s] p by simp
  then have "level_st.more t = level_st.more s" by (metis wallet_more)
  ultimately show ?thesis using give_rooms [OF assms(1) disjI2 [OF p]] p assms(2)
    by (auto simp: paid_def best_effort_def)
qed

text \<open>Whom a payment reaches: the winner of a pot alone, and rank points nobody.\<close>

lemma payout_balance:
  assumes "ledger_ok s" "0 \<le> a" "find_user u s \<noteq> None"
  shows "balance_of (best_effort (payout u a ref) s) v = balance_of s v + (if v = u then a else 0)"
proof -
  obtain x t where p: "payout u a ref s = (x, t)" by fastforce
  have x: "\<not> isl x" using refund_success(2) [OF assms(3), of a ref] p by (auto simp: settles_def split: sum.splits)
  have "balance_of t v = balance_of s v + (if v = u then a else 0)"
    using ledger_ok_users [OF assms(1)] disjI1 [OF p]
  proof (cases rule: give_cases [where u = u and a = a and ref = ref])
    case (ok tx s1)
    then show ?thesis using moved_balance [OF ok(2), of v] by simp
  qed (use assms(2) x in auto)
  then show ?thesis using p by (simp add: best_effort_def)
qed

lemma points_balance: "balance_of (snd (addRankPoints u d reason s)) v = balance_of s v"
proof (cases "d = 0")
  case False
  then show ?thesis using addRankPoints_users [of u d reason s, where v = v]
    by (cases "find_user v s") (auto simp: balance_of_def prod_eq_iff)
qed (simp add: addRankPoints_def)

section \<open>The end of a game\<close>

text \<open>
  A game that pays out \<open>d\<close> and then closes its room, whose pot is \<open>d\<close>: the coins of the users and of
  the open rooms together are what they were.
\<close>

lemma close_room_escrow:
  "find_room i s = Some room \<Longrightarrow> escrow (close_room i s) = escrow s - held room"
  by (simp add: close_room_def escrow_set_room held_def)

lemma find_close_room:
  "find_room i s = Some room \<Longrightarrow> r_id room = i \<Longrightarrow> \<exists>c. find_room i (close_room i s) = Some c \<and> r_status c = CLOSED"
  by (simp add: close_room_def find_set_room)

lemma close_conserves:
  assumes "paid d s u" "users v = users u" "txs v = txs u" "next_id v = next_id u" "rooms v = rooms u"
    "find_room i s = Some room" "r_status room \<noteq> CLOSED" "r_pot room = d"
  shows "coins (close_room i v) + escrow (close_room i v) = coins s + escrow s \<and> ledger_ok (close_room i v)
     \<and> (\<exists>c. find_room i (close_room i v) = Some c \<and> r_status c = CLOSED)"
proof -
  have ru: "rooms u = rooms s" "escrow u = escrow s" using paid_rooms [OF assms(1)] by simp_all
  have fr: "find_room i v = Some room" using assms(5,6) ru(1) by (simp add: find_room_def)
  have rid: "r_id room = i" using find_room_mem [OF assms(6)] by simp
  have "escrow (close_room i v) = escrow v - held room" by (rule close_room_escrow [OF fr])
  moreover have "held room = d" using assms(7,8) by (simp add: held_def)
  moreover have "escrow v = escrow s" using escrow_rooms [OF assms(5)] ru(2) by simp
  moreover have "coins (close_room i v) = coins u" using assms(2) by (simp add: close_room_def coins_def)
  moreover have "coins u = coins s + d" using assms(1) by (simp add: paid_def)
  moreover have "ledger_ok (close_room i v)"
    by (rule ledger_ok_frame [OF paid_ledger [OF assms(1)]]) (simp_all add: close_room_def assms)
  ultimately show ?thesis using find_close_room [OF fr rid] by simp
qed

end
