(* ===== verification/Stores.thy ===== *)
theory Stores
  imports Prelude
begin

text \<open>
  The contract between a service and the collection of its documents: saving a document replaces
  the stored one of the same identifier, and a lookup finds the document of an identifier. What
  holds of every stored document is kept by an operation that saves a document for which it holds.
\<close>

definition stored_ok :: "('d \<Rightarrow> oid) \<Rightarrow> ('d \<Rightarrow> bool) \<Rightarrow> oid \<Rightarrow> 'd list \<Rightarrow> bool" where
  "stored_ok key P n ds \<longleftrightarrow> distinct (map key ds) \<and> (\<forall>d \<in> set ds. key d < n \<and> P d)"

lemma stored_ok_append:
  "\<lbrakk>stored_ok key P n ds; key d = n; P d; n < m\<rbrakk> \<Longrightarrow> stored_ok key P m (ds @ [d])"
  by (force simp: stored_ok_def)

locale documents =
  fixes key :: "'d \<Rightarrow> oid" and docs :: "'s \<Rightarrow> 'd list" and fresh :: "'s \<Rightarrow> oid"
    and save :: "'d \<Rightarrow> 's \<Rightarrow> 's" and look :: "oid \<Rightarrow> 's \<Rightarrow> 'd option"
  assumes docs_save: "docs (save d s) = updateOne (\<lambda>x. key x = key d) (\<lambda>_. d) (docs s)"
    and fresh_save: "fresh (save d s) = fresh s"
    and look: "look i s = List.find (\<lambda>d. key d = i) (docs s)"
begin

lemma look_SomeD: "look i s = Some d \<Longrightarrow> d \<in> set (docs s) \<and> key d = i"
  by (auto simp: look dest: find_Some_iff_mem)

lemma look_docs: "docs t = docs s \<Longrightarrow> look i t = look i s"
  by (simp add: look)

lemma look_save:
  assumes "look (key d) s \<noteq> None"
  shows "look i (save d s) = (if i = key d then Some d else look i s)"
proof (cases "i = key d")
  case True
  have "List.find (\<lambda>x. key x = key d) (updateOne (\<lambda>x. key x = key d) (\<lambda>_. d) (docs s))
      = map_option (\<lambda>_. d) (List.find (\<lambda>x. key x = key d) (docs s))"
    by (rule find_updateOne_same) simp
  then show ?thesis using assms True by (auto simp: look docs_save)
next
  case False
  then show ?thesis by (simp add: look docs_save) (rule find_updateOne_other, auto)
qed

lemma ok_look: "\<lbrakk>stored_ok key P n (docs s); look i s = Some d\<rbrakk> \<Longrightarrow> P d \<and> key d = i \<and> key d < n"
  using look_SomeD by (auto simp: stored_ok_def)

lemma ok_same: "\<lbrakk>stored_ok key P (fresh s) (docs s); docs t = docs s; fresh s \<le> fresh t\<rbrakk> \<Longrightarrow> stored_ok key P (fresh t) (docs t)"
  by (auto simp: stored_ok_def)

lemma ok_save:
  assumes "stored_ok key P (fresh s) (docs s)" "P d" "key d < fresh s"
    "docs t = docs (save d s)" "fresh s \<le> fresh t"
  shows "stored_ok key P (fresh t) (docs t)"
proof -
  let ?ds = "updateOne (\<lambda>x. key x = key d) (\<lambda>_. d) (docs s)"
  have "map key ?ds = map key (docs s)" by (rule map_updateOne) simp
  moreover have "\<forall>x \<in> set ?ds. key x < fresh s \<and> P x"
    using assms(1-3) by (intro updateOne_all) (auto simp: stored_ok_def)
  ultimately show ?thesis using assms by (auto simp: stored_ok_def docs_save)
qed

end

end
