(* ===== verification/CaroGame.thy ===== *)
theory CaroGame
  imports CaroLogic Elo GameMoney Stores
begin

text \<open>
  The service of \<open>src/games/caro/caro.service.ts\<close> around the rules of CaroLogic: the stored games, moves,
  resignations, the turn clock and the disconnect grace, ends with their rating exchange or pot, and
  the views. A pending timer is an entry with the time it fires; firing it is a call of its handler.
  Timers are keyed, as in the source, by the spelling of the game identifier the client used.
\<close>

section \<open>State\<close>

datatype CaroStatus = ACTIVE | FINISHED | ABORTED

datatype CaroEndReason = WIN | RESIGN | TIMEOUT | DISCONNECT | DRAW | NO_MOVES

record CaroMove =
  mv_by :: cell
  mv_row :: rat
  mv_col :: rat
  mv_at :: int

record CaroGame =
  c_id :: oid
  c_playerX :: oid
  c_playerO :: oid
  c_ranked :: bool
  c_mode :: GameMode
  c_betAmount :: int
  c_pot :: int
  c_roomId :: "oid option"
  c_status :: CaroStatus
  c_board :: board
  c_moves :: "CaroMove list"
  c_turn :: cell
  c_winner :: "oid option"
  c_endReason :: "CaroEndReason option"
  c_winningLine :: "rat list option"
  c_rpChange :: "(oid \<rightharpoonup> int) option"
  c_endedAt :: "int option"

record PublicPlayer =
  pp_id :: oid
  pp_username :: string
  pp_displayName :: "string option"
  pp_avatarUrl :: "string option"

record CaroView =
  cv_id :: oid
  cv_board :: board
  cv_moves :: "CaroMove list"
  cv_turn :: cell
  cv_status :: CaroStatus
  cv_ranked :: bool
  cv_mode :: GameMode
  cv_betAmount :: int
  cv_pot :: int
  cv_roomId :: "oid option"
  cv_X :: PublicPlayer
  cv_O :: PublicPlayer
  cv_winner :: "oid option"
  cv_endReason :: "CaroEndReason option"
  cv_winningLine :: "rat list option"
  cv_rpChange :: "(oid \<rightharpoonup> int) option"

datatype caro_event =
    Caro_matched CaroView
  | Caro_move oid cell rat rat cell
  | Caro_disconnected oid
  | Caro_reconnected oid
  | Caro_end CaroView

record caro_st = rooms_st +
  caro_games :: "CaroGame list"
  caro_timers :: "raw_id \<rightharpoonup> int"
  caro_dcTimers :: "raw_id \<times> oid \<rightharpoonup> int"
  caro_log :: "(target \<times> caro_event) list"

definition TURN_SECONDS :: int where "TURN_SECONDS = 30"

definition RECONNECT_GRACE_MS :: int where "RECONNECT_GRACE_MS = 30000"

definition find_caro :: "oid \<Rightarrow> 'a caro_st_scheme \<Rightarrow> CaroGame option" where
  "find_caro i s = List.find (\<lambda>g. c_id g = i) (caro_games s)"

definition save_caro :: "CaroGame \<Rightarrow> 'a caro_st_scheme \<Rightarrow> 'a caro_st_scheme" where
  "save_caro g s = s\<lparr>caro_games := updateOne (\<lambda>x. c_id x = c_id g) (\<lambda>_. g) (caro_games s)\<rparr>"

interpretation caro: documents c_id caro_games next_id save_caro find_caro
  by unfold_locales (simp_all add: save_caro_def find_caro_def)

definition broadcast :: "raw_id \<Rightarrow> caro_event \<Rightarrow> 'a caro_st_scheme \<Rightarrow> 'a caro_st_scheme" where
  "broadcast r e s = s\<lparr>caro_log := caro_log s @ [(GameRoomOf r, e)]\<rparr>"

definition clearTimer :: "raw_id \<Rightarrow> 'a caro_st_scheme \<Rightarrow> 'a caro_st_scheme" where
  "clearTimer r s = s\<lparr>caro_timers := (caro_timers s)(r := None)\<rparr>"

definition startTurnTimer :: "raw_id \<Rightarrow> 'a caro_st_scheme \<Rightarrow> 'a caro_st_scheme" where
  "startTurnTimer r s =
     (let s = clearTimer r s in s\<lparr>caro_timers := (caro_timers s)(r \<mapsto> clock s + TURN_SECONDS * 1000)\<rparr>)"

definition clearDcTimer :: "raw_id \<times> oid \<Rightarrow> 'a caro_st_scheme \<Rightarrow> 'a caro_st_scheme" where
  "clearDcTimer k s = s\<lparr>caro_dcTimers := (caro_dcTimers s)(k := None)\<rparr>"

definition getGameOrThrow :: "raw_id \<Rightarrow> 'a caro_st_scheme \<Rightarrow> (CaroGame, 'a caro_st_scheme) outcome" where
  "getGameOrThrow r s =
     (case Option.bind (read_oid r) (\<lambda>i. find_caro i s) of
        None \<Rightarrow> throw (NotFound ''Game not found'') s | Some g \<Rightarrow> return g s)"

text \<open>The mark of a participant, zero for anyone else, and the participant that is not \<open>u\<close>.\<close>

definition markOf :: "CaroGame \<Rightarrow> oid \<Rightarrow> cell" where
  "markOf g u = (if c_playerX g = u then 1 else if c_playerO g = u then 2 else 0)"

definition opponentOf :: "CaroGame \<Rightarrow> oid \<Rightarrow> oid" where
  "opponentOf g u = (if c_playerX g = u then c_playerO g else c_playerX g)"

section \<open>Views\<close>

definition toPlayer :: "(oid \<times> UserCard) list \<Rightarrow> oid \<Rightarrow> PublicPlayer" where
  "toPlayer cards u =
     (case map_of cards u of
        Some c \<Rightarrow> \<lparr>pp_id = u, pp_username = uc_username c, pp_displayName = uc_displayName c,
                   pp_avatarUrl = uc_avatarUrl c\<rparr>
      | None \<Rightarrow> \<lparr>pp_id = u, pp_username = ''unknown'', pp_displayName = None, pp_avatarUrl = None\<rparr>)"

definition caro_view :: "CaroGame \<Rightarrow> 'a env_st_scheme \<Rightarrow> CaroView" where
  "caro_view g s =
     (let cards = getCards [Hex (c_playerX g), Hex (c_playerO g)] s
      in \<lparr>cv_id = c_id g, cv_board = c_board g, cv_moves = c_moves g, cv_turn = c_turn g,
          cv_status = c_status g, cv_ranked = c_ranked g, cv_mode = c_mode g,
          cv_betAmount = c_betAmount g, cv_pot = c_pot g, cv_roomId = c_roomId g,
          cv_X = toPlayer cards (c_playerX g), cv_O = toPlayer cards (c_playerO g),
          cv_winner = c_winner g, cv_endReason = c_endReason g, cv_winningLine = c_winningLine g,
          cv_rpChange = c_rpChange g\<rparr>)"

section \<open>Launching\<close>

definition new_caro :: "oid \<Rightarrow> oid \<Rightarrow> oid \<Rightarrow> GameMode \<Rightarrow> int \<Rightarrow> oid option \<Rightarrow> CaroGame" where
  "new_caro i x o' mode bet roomId =
     \<lparr>c_id = i, c_playerX = x, c_playerO = o', c_ranked = (mode = RANKED), c_mode = mode,
      c_betAmount = bet, c_pot = bet * 2, c_roomId = roomId, c_status = ACTIVE, c_board = createBoard,
      c_moves = [], c_turn = 1, c_winner = None, c_endReason = None, c_winningLine = None,
      c_rpChange = None, c_endedAt = None\<rparr>"

text \<open>The options of \<open>createGame\<close>; the older \<open>ranked\<close> flag counts when no mode is given.\<close>

record CaroOptions =
  co_mode :: "GameMode option"
  co_ranked :: "bool option"
  co_betAmount :: "int option"
  co_roomId :: "oid option"

definition mode_of :: "CaroOptions \<Rightarrow> GameMode" where
  "mode_of opts =
     (case co_mode opts of Some m \<Rightarrow> m | None \<Rightarrow> if co_ranked opts = Some False then CASUAL else RANKED)"

definition caro_bet :: "CaroOptions \<Rightarrow> int" where
  "caro_bet opts =
     (if mode_of opts = WAGER then (case co_betAmount opts of Some b \<Rightarrow> b | None \<Rightarrow> 0) else 0)"

definition createGame :: "oid \<Rightarrow> oid \<Rightarrow> CaroOptions \<Rightarrow> 'a caro_st_scheme \<Rightarrow> CaroGame \<times> 'a caro_st_scheme" where
  "createGame x o' opts s =
     (let (i, s) = fresh_id s;
          g = new_caro i x o' (mode_of opts) (caro_bet opts) (co_roomId opts);
          s = s\<lparr>caro_games := caro_games s @ [g]\<rparr>;
          view = caro_view g s;
          s = s\<lparr>caro_log := caro_log s @ [(GameUser x, Caro_matched view), (GameUser o', Caro_matched view)]\<rparr>
      in (g, startTurnTimer (Hex i) s))"

definition launchFromRoom :: "GameRoom \<Rightarrow> 'a caro_st_scheme \<Rightarrow> (CaroGame, 'a caro_st_scheme) outcome" where
  "launchFromRoom room s =
     (case map rm_userId (r_members room) of
        [a, b] \<Rightarrow>
          let (q, s) = draw s;
              (x, o') = (if q < 1 / 2 then (a, b) else (b, a));
              (g, s) = createGame x o' \<lparr>co_mode = Some (r_mode room), co_ranked = None,
                 co_betAmount = Some (r_betAmount room), co_roomId = Some (r_id room)\<rparr> s
          in await (markInProgress (Hex (r_id room)) (c_id g)) (\<lambda>_. return g) s
      | _ \<Rightarrow> throw (BadRequest ''Caro requires exactly 2 players'') s)"

section \<open>Ends\<close>

definition points_of :: "oid \<Rightarrow> 'a env_st_scheme \<Rightarrow> int" where
  "points_of u s = (case find_user u s of None \<Rightarrow> 0 | Some d \<Rightarrow> rankPoints d)"

definition caro_ref :: "CaroGame \<Rightarrow> string" where
  "caro_ref g = ''caro:'' @ oid_str (c_id g)"

definition end_doc :: "oid option \<Rightarrow> CaroEndReason \<Rightarrow> int \<Rightarrow> CaroGame \<Rightarrow> CaroGame" where
  "end_doc winner reason now g =
     g\<lparr>c_status := FINISHED, c_winner := winner, c_endReason := Some reason, c_endedAt := Some now\<rparr>"

text \<open>A decided game: the rating exchange, or the whole pot for the winner.\<close>

definition winner_rewards :: "CaroGame \<Rightarrow> oid \<Rightarrow> 'a level_st_scheme \<Rightarrow> CaroGame \<times> 'a level_st_scheme" where
  "winner_rewards g w s =
     (let l = opponentOf g w in
      if c_mode g = RANKED then
        let out = rankedOutcome (points_of w s) (points_of l s);
            g = g\<lparr>c_rpChange := Some [w \<mapsto> winnerDelta out, l \<mapsto> loserDelta out]\<rparr>;
            (_, s) = addRankPoints w (winnerDelta out) (Some ''caro_win'') s;
            (_, s) = addRankPoints l (loserDelta out) (Some ''caro_loss'') s
        in (g, s)
      else if c_mode g = WAGER \<and> c_pot g > 0 then (g, best_effort (payout w (c_pot g) (caro_ref g)) s)
      else (g, s))"

text \<open>A drawn game: the rating exchange of a draw, or each player's own stake back.\<close>

definition draw_rewards :: "CaroGame \<Rightarrow> 'a level_st_scheme \<Rightarrow> CaroGame \<times> 'a level_st_scheme" where
  "draw_rewards g s =
     (let x = c_playerX g; o' = c_playerO g in
      if c_mode g = RANKED then
        let (dx, do') = drawOutcome (points_of x s) (points_of o' s);
            g = g\<lparr>c_rpChange := Some [x \<mapsto> dx, o' \<mapsto> do']\<rparr>;
            (_, s) = addRankPoints x dx (Some ''caro_draw'') s;
            (_, s) = addRankPoints o' do' (Some ''caro_draw'') s
        in (g, s)
      else if c_mode g = WAGER \<and> c_pot g > 0 then
        let s = best_effort (refund x (c_betAmount g) (caro_ref g)) s;
            s = best_effort (refund o' (c_betAmount g) (caro_ref g)) s
        in (g, s)
      else (g, s))"

definition publish_caro :: "CaroGame \<Rightarrow> 'a caro_st_scheme \<Rightarrow> 'a caro_st_scheme" where
  "publish_caro g s =
     (let s = save_caro g s;
          s = broadcast (Hex (c_id g)) (Caro_end (caro_view g s)) s
      in case c_roomId g of Some r \<Rightarrow> close_room r s | None \<Rightarrow> s)"

definition finish :: "CaroGame \<Rightarrow> oid \<Rightarrow> CaroEndReason \<Rightarrow> 'a caro_st_scheme \<Rightarrow> CaroGame \<times> 'a caro_st_scheme" where
  "finish g winnerId reason s =
     (let s = clearTimer (Hex (c_id g)) s;
          (g, s) = winner_rewards (end_doc (Some winnerId) reason (clock s) g) winnerId s
      in (g, publish_caro g s))"

definition finishDraw :: "CaroGame \<Rightarrow> 'a caro_st_scheme \<Rightarrow> CaroGame \<times> 'a caro_st_scheme" where
  "finishDraw g s =
     (let s = clearTimer (Hex (c_id g)) s;
          (g, s) = draw_rewards (end_doc None DRAW (clock s) g) s
      in (g, publish_caro g s))"

section \<open>Moves\<close>

definition caro_guard :: "CaroGame \<Rightarrow> oid \<Rightarrow> http_error + cell" where
  "caro_guard g u =
     (if c_status g \<noteq> ACTIVE then Inl (BadRequest ''Game is not active'')
      else if markOf g u = 0 then Inl (Forbidden ''Not a player in this game'')
      else if c_turn g \<noteq> markOf g u then Inl (BadRequest ''Not your turn'')
      else Inr (markOf g u))"

definition record_move :: "CaroGame \<Rightarrow> cell \<Rightarrow> rat \<Rightarrow> rat \<Rightarrow> board \<Rightarrow> int \<Rightarrow> CaroGame" where
  "record_move g mark row col b now =
     g\<lparr>c_board := b, c_moves := c_moves g @ [\<lparr>mv_by = mark, mv_row = row, mv_col = col, mv_at = now\<rparr>]\<rparr>"

definition move :: "raw_id \<Rightarrow> oid \<Rightarrow> rat \<Rightarrow> rat \<Rightarrow> 'a caro_st_scheme \<Rightarrow> (CaroView, 'a caro_st_scheme) outcome" where
  "move r u row col = await (getGameOrThrow r) (\<lambda>g s.
     case caro_guard g u of
       Inl e \<Rightarrow> throw e s
     | Inr mark \<Rightarrow>
         let (result, b) = applyMove (c_board g) row col mark;
             moved = record_move g mark row col b (clock s)
         in case result of
              Refused e \<Rightarrow> throw (BadRequest e) s
            | Win line \<Rightarrow>
                let (g, s) = finish (moved\<lparr>c_winningLine := Some line\<rparr>) u WIN s in return (caro_view g s) s
            | Draw \<Rightarrow> let (g, s) = finishDraw moved s in return (caro_view g s) s
            | Placed \<Rightarrow>
                let g = moved\<lparr>c_turn := (if mark = 1 then 2 else 1)\<rparr>;
                    s = startTurnTimer r (save_caro g s);
                    s = broadcast r (Caro_move u mark row col (c_turn g)) s
                in return (caro_view g s) s)"

section \<open>Resignations, timeouts and disconnects\<close>

definition resign :: "raw_id \<Rightarrow> oid \<Rightarrow> 'a caro_st_scheme \<Rightarrow> (CaroView, 'a caro_st_scheme) outcome" where
  "resign r u = await (getGameOrThrow r) (\<lambda>g s.
     if c_status g \<noteq> ACTIVE then throw (BadRequest ''Game is not active'') s
     else if markOf g u = 0 then throw (Forbidden ''Not a player in this game'') s
     else let (g, s) = finish g (opponentOf g u) RESIGN s in return (caro_view g s) s)"

definition onDisconnect :: "raw_id \<Rightarrow> oid \<Rightarrow> 'a caro_st_scheme \<Rightarrow> 'a caro_st_scheme" where
  "onDisconnect r u s =
     (case Option.bind (read_oid r) (\<lambda>i. find_caro i s) of
        None \<Rightarrow> s
      | Some g \<Rightarrow>
          if c_status g \<noteq> ACTIVE \<or> markOf g u = 0 then s
          else let s = clearDcTimer (r, u) (broadcast r (Caro_disconnected u) s)
               in s\<lparr>caro_dcTimers := (caro_dcTimers s)((r, u) \<mapsto> clock s + RECONNECT_GRACE_MS)\<rparr>)"

definition onReconnect :: "raw_id \<Rightarrow> oid \<Rightarrow> 'a caro_st_scheme \<Rightarrow> 'a caro_st_scheme" where
  "onReconnect r u s = broadcast r (Caro_reconnected u) (clearDcTimer (r, u) s)"

definition forfeitDisconnected :: "raw_id \<Rightarrow> oid \<Rightarrow> 'a caro_st_scheme \<Rightarrow> 'a caro_st_scheme" where
  "forfeitDisconnected r u s =
     (case Option.bind (read_oid r) (\<lambda>i. find_caro i s) of
        None \<Rightarrow> s
      | Some g \<Rightarrow> if c_status g \<noteq> ACTIVE then s else snd (finish g (opponentOf g u) DISCONNECT s))"

definition onTurnTimeout :: "raw_id \<Rightarrow> 'a caro_st_scheme \<Rightarrow> 'a caro_st_scheme" where
  "onTurnTimeout r s =
     (case Option.bind (read_oid r) (\<lambda>i. find_caro i s) of
        None \<Rightarrow> s
      | Some g \<Rightarrow>
          if c_status g \<noteq> ACTIVE then s
          else let loser = (if c_turn g = 1 then c_playerX g else c_playerO g)
               in snd (finish g (opponentOf g loser) TIMEOUT s))"

section \<open>Lookups\<close>

definition caro_plays :: "oid \<Rightarrow> CaroGame \<Rightarrow> bool" where
  "caro_plays u g \<longleftrightarrow> c_playerX g = u \<or> c_playerO g = u"

definition myActiveGame :: "oid \<Rightarrow> 'a caro_st_scheme \<Rightarrow> CaroView option" where
  "myActiveGame u s =
     map_option (\<lambda>g. caro_view g s) (List.find (\<lambda>g. c_status g = ACTIVE \<and> caro_plays u g) (rev (caro_games s)))"

definition caro_history :: "oid \<Rightarrow> nat \<Rightarrow> 'a caro_st_scheme \<Rightarrow> CaroView list" where
  "caro_history u l s =
     map (\<lambda>g. caro_view g s)
       (take (min l 50) (rev (filter (\<lambda>g. c_status g = FINISHED \<and> caro_plays u g) (caro_games s))))"

end
