(* ===== verification/CaroGateway.thy ===== *)
theory CaroGateway
  imports Sockets CaroGame
begin

text \<open>
  \<open>src/games/caro/caro.gateway.ts\<close>: the handlers of the namespace \<open>/ws-caro\<close>, one definition per
  message. Each runs after the guard \<open>canActivate\<close> of its client.
\<close>

type_synonym caro_counts = "nat \<times> (oid \<times> int \<times> sender) list"

type_synonym 'r caro_gw = "('r caro_st_scheme, CaroQueue, caro_counts) gateway"

section \<open>Lobby and queue\<close>

text \<open>The card of a queued user, or a nameless stand-in.\<close>

definition card_of :: "(oid \<times> UserCard) list \<Rightarrow> oid \<Rightarrow> sender" where
  "card_of cards u = (case map_of cards u of Some c \<Rightarrow> Inl c | None \<Rightarrow> Inr \<lparr>au_id = u, au_username = ''unknown''\<rparr>)"

definition queuedPlayers :: "'r caro_gw \<Rightarrow> (oid \<times> int \<times> sender) list" where
  "queuedPlayers g =
     (let queued = cq_listQueued (gw_queue g); cards = getCards (map (Hex \<circ> fst) queued) (gw_service g)
      in map (\<lambda>(u, rp). (u, rp, card_of cards u)) queued)"

definition caro_counts :: "'r caro_gw \<Rightarrow> caro_counts" where
  "caro_counts g = (cq_size (gw_queue g), queuedPlayers g)"

definition broadcastQueueCount :: "'r caro_gw \<Rightarrow> 'r caro_gw" where
  "broadcastQueueCount g = emit_to Lobby_room (Queue_count (caro_counts g)) g"

definition onLobbyJoin :: "string \<Rightarrow> 'r caro_gw \<Rightarrow> (caro_counts, 'r caro_gw) outcome" where
  "onLobbyJoin c g = (let g = join_channel c Lobby_room g in return (caro_counts g) g)"

definition onLobbyLeave :: "string \<Rightarrow> 'r caro_gw \<Rightarrow> (unit, 'r caro_gw) outcome" where
  "onLobbyLeave c g = return () (leave_channel c Lobby_room g)"

text \<open>The answer to a player who joined the queue: waiting, or in a game.\<close>

datatype 'c queue_reply = Queued 'c | Matched oid

definition rankPoints_of :: "raw_id \<Rightarrow> 'r env_st_scheme \<Rightarrow> int" where
  "rankPoints_of r s = (case findById r s of Some d \<Rightarrow> rankPoints d | None \<Rightarrow> 0)"

text \<open>\<open>Math.random() < 0.5 ? [a, b] : [b, a]\<close>\<close>

definition first_mover :: "oid \<Rightarrow> oid \<Rightarrow> 'r env_st_scheme \<Rightarrow> (oid \<times> oid) \<times> 'r env_st_scheme" where
  "first_mover a b s = (let (q, s) = draw s in (if q < 1 / 2 then (a, b) else (b, a), s))"

definition start_between :: "oid \<Rightarrow> oid \<Rightarrow> GameMode \<Rightarrow> 'r caro_st_scheme \<Rightarrow> (oid, 'r caro_st_scheme) outcome" where
  "start_between a b mode s =
     (let ((x, o'), s) = first_mover a b s;
          (game, s) = createGame x o' \<lparr>co_mode = Some mode, co_ranked = None, co_betAmount = None, co_roomId = None\<rparr> s
      in return (c_id game) s)"

definition onQueueJoin :: "string \<Rightarrow> 'r caro_gw \<Rightarrow> (caro_counts queue_reply, 'r caro_gw) outcome" where
  "onQueueJoin c = await (userOf c) (\<lambda>u g.
     let rp = rankPoints_of (Hex (au_id u)) (gw_service g);
         g = on_queue (cq_enqueue (au_id u) rp c (clock (gw_service g))) g;
         g = join_channel c Lobby_room g;
         (opp, q) = cq_tryMatch (au_id u) (gw_queue g);
         g = g\<lparr>gw_queue := q\<rparr>
     in case opp of
          None \<Rightarrow> let g = broadcastQueueCount g in return (Queued (caro_counts g)) g
        | Some p \<Rightarrow> await (service (start_between (au_id u) (qp_userId p) RANKED))
            (\<lambda>gameId g. return (Matched gameId) (broadcastQueueCount g)) g)"

definition onQueueLeave :: "string \<Rightarrow> 'r caro_gw \<Rightarrow> (nat, 'r caro_gw) outcome" where
  "onQueueLeave c = await (userOf c) (\<lambda>u g.
     let g = broadcastQueueCount (on_queue (cq_dequeue (au_id u)) g) in return (cq_size (gw_queue g)) g)"

definition onQueueCount :: "'r caro_gw \<Rightarrow> (caro_counts, 'r caro_gw) outcome" where
  "onQueueCount g = return (caro_counts g) g"

section \<open>Invitations\<close>

definition onChallenge :: "raw_id option \<Rightarrow> bool option \<Rightarrow> string \<Rightarrow> 'r caro_gw \<Rightarrow> (nat, 'r caro_gw) outcome" where
  "onChallenge opponent ranked = challenge_send CARO (if ranked = Some True then RANKED else CASUAL) 0 opponent"

definition caro_challenge_start :: "PendingChallenge \<Rightarrow> oid \<Rightarrow> 'r caro_st_scheme \<Rightarrow> (oid, 'r caro_st_scheme) outcome" where
  "caro_challenge_start k u = start_between (ch_fromUserId k) u (ch_mode k)"

definition onChallengeAccept :: "nat \<Rightarrow> string \<Rightarrow> 'r caro_gw \<Rightarrow> (oid, 'r caro_gw) outcome" where
  "onChallengeAccept = challenge_accept CARO caro_challenge_start"

definition onChallengeDecline :: "nat \<Rightarrow> string \<Rightarrow> 'r caro_gw \<Rightarrow> (unit, 'r caro_gw) outcome" where
  "onChallengeDecline = challenge_decline"

section \<open>Coin rooms\<close>

definition caro_room_input :: "rat option \<Rightarrow> bool option \<Rightarrow> string option \<Rightarrow> CreateRoomInput" where
  "caro_room_input bet isPrivate name =
     \<lparr>ci_game = CARO, ci_mode = (if floor_bet bet > 0 then WAGER else CASUAL), ci_betAmount = Some (floor_bet bet),
      ci_maxPlayers = 2, ci_minPlayers = 2, ci_name = name,
      ci_isPrivate = Some (case isPrivate of Some b \<Rightarrow> b | None \<Rightarrow> False)\<rparr>"

definition onRoomCreate :: "rat option \<Rightarrow> bool option \<Rightarrow> string option \<Rightarrow> string \<Rightarrow> 'r caro_gw \<Rightarrow> (RoomView, 'r caro_gw) outcome" where
  "onRoomCreate bet isPrivate name c =
     await (room_create (caro_room_input bet isPrivate name) c) (\<lambda>room g. return (room_view room g) g)"

definition onRoomJoin :: "raw_id option \<Rightarrow> string option \<Rightarrow> string \<Rightarrow> 'r caro_gw \<Rightarrow> (RoomView, 'r caro_gw) outcome" where
  "onRoomJoin = room_join"

definition onRoomLeave :: "raw_id \<Rightarrow> string \<Rightarrow> 'r caro_gw \<Rightarrow> (bool, 'r caro_gw) outcome" where
  "onRoomLeave = room_leave"

definition onRoomReady :: "raw_id \<Rightarrow> bool \<Rightarrow> string \<Rightarrow> 'r caro_gw \<Rightarrow> (RoomView, 'r caro_gw) outcome" where
  "onRoomReady = room_ready"

definition caro_launch :: "GameRoom \<Rightarrow> 'r caro_st_scheme \<Rightarrow> (oid, 'r caro_st_scheme) outcome" where
  "caro_launch room = await (launchFromRoom room) (\<lambda>game. return (c_id game))"

definition onRoomStart :: "raw_id \<Rightarrow> string \<Rightarrow> 'r caro_gw \<Rightarrow> (oid, 'r caro_gw) outcome" where
  "onRoomStart = room_start caro_launch"

section \<open>In a game\<close>

definition onJoinGame :: "raw_id \<Rightarrow> string \<Rightarrow> 'r caro_gw \<Rightarrow> (CaroView, 'r caro_gw) outcome" where
  "onJoinGame r c = await (userOf c) (\<lambda>u. await (service (getGameOrThrow r)) (\<lambda>game g.
     let g = on_client c (\<lambda>k. k\<lparr>cl_game := Some r\<rparr>) (join_channel c (Game_room r) g);
         g = on_service (onReconnect r (au_id u)) g
     in return (caro_view game (gw_service g)) g))"

definition leave_game :: "raw_id \<Rightarrow> string \<Rightarrow> ('s, 'q, 'c, 'z) gateway_scheme \<Rightarrow> ('s, 'q, 'c, 'z) gateway_scheme" where
  "leave_game r c g =
     on_client c (\<lambda>k. if cl_game k = Some r then k\<lparr>cl_game := None\<rparr> else k) (leave_channel c (Game_room r) g)"

definition onLeaveGame :: "raw_id \<Rightarrow> string \<Rightarrow> 'r caro_gw \<Rightarrow> (raw_id, 'r caro_gw) outcome" where
  "onLeaveGame r c g = return r (leave_game r c g)"

definition onMove :: "raw_id \<Rightarrow> rat \<Rightarrow> rat \<Rightarrow> string \<Rightarrow> 'r caro_gw \<Rightarrow> (CaroView, 'r caro_gw) outcome" where
  "onMove r row col c = await (userOf c) (\<lambda>u. service (move r (au_id u) row col))"

definition onResign :: "raw_id \<Rightarrow> string \<Rightarrow> 'r caro_gw \<Rightarrow> (CaroView, 'r caro_gw) outcome" where
  "onResign r c = await (userOf c) (\<lambda>u. service (resign r (au_id u)))"

definition caro_handleDisconnect :: "string \<Rightarrow> 'r caro_gw \<Rightarrow> 'r caro_gw" where
  "caro_handleDisconnect = handleDisconnect cq_isQueued cq_dequeue caro_counts onDisconnect"

end
