(* ===== verification/GatewayLaws.thy ===== *)
theory GatewayLaws
  imports Sockets GameMoney
begin

text \<open>
  What the handlers shared by the gateways promise to whatever game service they run: the lobby leaves
  the games alone and never seats a player twice, a room that is started either has its game or is as it
  was, and an invitation starts at most one game, between two different players.
\<close>

section \<open>The lobby leaves the games alone\<close>

definition seated_once :: "'r rooms_st_scheme \<Rightarrow> bool" where
  "seated_once s \<longleftrightarrow> (\<forall>r \<in> set (rooms s). distinct (map rm_userId (r_members r)))"

definition lobby_frame :: "'r rooms_st_scheme \<Rightarrow> 'r rooms_st_scheme \<Rightarrow> bool" where
  "lobby_frame s t \<longleftrightarrow> rooms_st.more t = rooms_st.more s \<and> next_id s \<le> next_id t \<and> clock t = clock s \<and> rand t = rand s
     \<and> (seated_once s \<longrightarrow> seated_once t)"

lemma lobby_frame_refl [simp]: "lobby_frame s s"
  by (simp add: lobby_frame_def)

lemma lobby_frame_trans: "\<lbrakk>lobby_frame s t; lobby_frame t u\<rbrakk> \<Longrightarrow> lobby_frame s u"
  by (auto simp: lobby_frame_def)

lemma wallet_rand: "rand (snd (debit r a ty reason ref s)) = rand s" "rand (snd (credit r a ty reason ref s)) = rand s"
  by (auto simp: debit_def debit_in_def credit_def credit_in_def await_def withTransaction_def insertTx_def fresh_id_def Let_def
      set_user_def emitWalletEvent_def split: option.split)

lemma pays_rand [money]:
  "rand (snd (collectStake u a ref s)) = rand s" "rand (snd (refund u a ref s)) = rand s" "rand (snd (payout u a ref s)) = rand s"
  by (simp_all add: collectStake_def refund_def payout_def await_unit wallet_rand)

lemma lobby_frame_wallet:
  "\<lbrakk>wallet_st.more t = wallet_st.more s; clock t = clock s; next_id s \<le> next_id t; rand t = rand s\<rbrakk> \<Longrightarrow> lobby_frame s t"
  using wallet_more [of t s] level_more [of t s] by (auto simp: lobby_frame_def seated_once_def)

lemma lobby_frame_pays:
  "lobby_frame s (snd (collectStake u a ref s))" "lobby_frame s (snd (refund u a ref s))" "lobby_frame s (snd (payout u a ref s))"
  by (rule lobby_frame_wallet; simp add: money)+

lemma lobby_frame_set_room:
  assumes "\<And>r. r \<in> set (rooms s) \<Longrightarrow> r_id r = i \<Longrightarrow> seated_once s \<Longrightarrow> distinct (map rm_userId (r_members (f r)))"
  shows "lobby_frame s (set_room i f s)"
proof -
  have "seated_once (set_room i f s)" if "seated_once s"
  proof -
    have "\<forall>r \<in> set (updateOne (\<lambda>r. r_id r = i) f (rooms s)). distinct (map rm_userId (r_members r))"
      by (rule updateOne_all) (use that assms in \<open>simp_all add: seated_once_def\<close>)
    then show ?thesis by (simp add: seated_once_def set_room_def)
  qed
  then show ?thesis by (simp add: lobby_frame_def) (simp add: set_room_def)
qed

text \<open>A handler's steps one after the other.\<close>

lemma lobby_frame_each:
  assumes "\<And>u s. lobby_frame s (snd (m u s))"
  shows "lobby_frame s (snd (each m us s))"
proof (induction us arbitrary: s)
  case (Cons u us)
  then show ?case using lobby_frame_trans [OF assms [of s u]] by (simp add: split_beta)
qed simp

lemma lobby_frame_refundMany: "lobby_frame s (refundMany us a ref s)"
  unfolding refundMany_def by (rule lobby_frame_each) (simp add: snd_settles lobby_frame_pays)

lemma getOrThrow_state [simp]: "snd (getOrThrow r s) = s"
  by (auto simp: getOrThrow_def split: option.split)

lemma getByCode_state [simp]: "snd (getByCode r s) = s"
  by (auto simp: getByCode_def Let_def split: option.split)

lemma getOrThrow_find: "getOrThrow r s = (Inr room, t) \<Longrightarrow> t = s \<and> find_room (r_id room) s = Some room \<and> read_oid r = Some (r_id room)"
  by (auto simp: getOrThrow_def bind_eq_Some_conv split: option.splits dest: find_room_mem)

lemma seated_onceD: "\<lbrakk>seated_once s; find_room i s = Some r\<rbrakk> \<Longrightarrow> distinct (map rm_userId (r_members r))"
  using find_room_mem by (fastforce simp: seated_once_def)

lemma join_commit_frame:
  assumes "find_room (r_id room) s = Some room" "\<not> isMember room u"
  shows "lobby_frame s (snd (join_commit room u s))"
  unfolding join_commit_def
proof (rule await_snd)
  let ?pay = "if r_mode room = WAGER then await (collectStake u (r_betAmount room) (r_code room)) (\<lambda>_. return True) else return False"
  have pay: "snd (?pay s) = (if r_mode room = WAGER then snd (collectStake u (r_betAmount room) (r_code room) s) else s)"
    by (auto simp: await_def split: prod.split sum.split)
  have f: "lobby_frame s (snd (?pay s))" unfolding pay by (simp add: lobby_frame_pays)
  then show "lobby_frame s (snd (?pay s))" .
  fix staked t
  assume "?pay s = (Inr staked, t)"
  then have t: "lobby_frame s t" using f by simp
  have "rooms t = rooms s"
  proof -
    have "wallet_st.more (snd (?pay s)) = wallet_st.more s" unfolding pay by (simp add: money)
    then have "wallet_st.more t = wallet_st.more s" using \<open>?pay s = _\<close> by simp
    then show ?thesis using wallet_more level_more by blast
  qed
  then have here: "find_room (r_id room) t = Some room" using assms(1) by (simp add: find_room_def)
  have given_back: "lobby_frame t (snd (await (if staked then refund u (r_betAmount room) (r_code room) else return ())
      (\<lambda>_. throw (BadRequest ''Room is no longer joinable'')) t))"
    by (simp add: await_last lobby_frame_pays)
  show "lobby_frame s (snd (case find_room (r_id room) t of
      Some cur \<Rightarrow> if r_status cur = WAITING then
          let m = \<lparr>rm_userId = u, rm_staked = staked, rm_ready = False, rm_joinedAt = clock t\<rparr>;
              cur' = cur\<lparr>r_members := r_members cur @ [m], r_pot := r_pot cur + (if staked then r_betAmount room else 0)\<rparr>
          in return cur' (set_room (r_id room) (\<lambda>_. cur') t)
        else await (if staked then refund u (r_betAmount room) (r_code room) else return ())
               (\<lambda>_. throw (BadRequest ''Room is no longer joinable'')) t
    | None \<Rightarrow> await (if staked then refund u (r_betAmount room) (r_code room) else return ())
               (\<lambda>_. throw (BadRequest ''Room is no longer joinable'')) t))"
  proof (cases "r_status room = WAITING")
    case True
    have "distinct (map rm_userId (r_members room))" if "seated_once t" using seated_onceD [OF that here] .
    then have "lobby_frame t (set_room (r_id room) (\<lambda>_. room\<lparr>r_members := r_members room @
        [\<lparr>rm_userId = u, rm_staked = staked, rm_ready = False, rm_joinedAt = clock t\<rparr>],
        r_pot := r_pot room + (if staked then r_betAmount room else 0)\<rparr>) t)"
      using assms(2) by (intro lobby_frame_set_room) (auto simp: isMember_def)
    then show ?thesis using lobby_frame_trans [OF t] here True by (simp add: Let_def)
  qed (use lobby_frame_trans [OF t given_back] here in simp)
qed

lemma join_frame: "lobby_frame s (snd (join r u s))"
proof -
  have "lobby_frame s (snd ((case join_guard room u of Join_error e \<Rightarrow> throw e | Join_member \<Rightarrow> return room
      | Join_open \<Rightarrow> join_commit room u) t))" if "getOrThrow r s = (Inr room, t)" for room t
  proof -
    have t: "t = s" "find_room (r_id room) s = Some room" using getOrThrow_find [OF that] by simp_all
    show ?thesis
    proof (cases "join_guard room u")
      case Join_open
      then have "\<not> isMember room u" by (auto simp: join_guard_def split: if_splits)
      then show ?thesis using join_commit_frame [OF t(2)] Join_open t(1) by simp
    qed (simp_all add: t(1))
  qed
  then show ?thesis unfolding join_def by (rule await_snd [rotated]) simp_all
qed

lemma distinct_members: "r \<in> set (rooms s) \<Longrightarrow> seated_once s \<Longrightarrow> distinct (map rm_userId (r_members r))"
  by (simp add: seated_once_def)

lemma cancel_frame: "lobby_frame s (cancel room s)"
proof -
  let ?s = "set_room (r_id room) (\<lambda>r. r\<lparr>r_status := CLOSED, r_closedAt := Some (clock s)\<rparr>) s"
  have "lobby_frame s ?s" by (rule lobby_frame_set_room) (simp add: distinct_members)
  then show ?thesis using lobby_frame_trans [OF _ lobby_frame_refundMany] by (auto simp: cancel_def Let_def)
qed

lemma leave_commit_frame: "lobby_frame s (snd (leave_commit room u s))"
proof -
  let ?refund = "case List.find (\<lambda>m. rm_userId m = u) (r_members room) of
      Some m \<Rightarrow> if rm_staked m then r_betAmount room else 0 | None \<Rightarrow> 0"
  let ?s = "set_room (r_id room) (\<lambda>r. r\<lparr>r_members := filter (\<lambda>m. rm_userId m \<noteq> u) (r_members r), r_pot := r_pot r - ?refund\<rparr>) s"
  have "lobby_frame s ?s" by (rule lobby_frame_set_room) (simp add: distinct_members distinct_map_filter)
  moreover have "lobby_frame ?s (snd (leave_commit room u s))"
    unfolding leave_commit_def Let_def by (subst await_last) (simp_all add: lobby_frame_pays)
  ultimately show ?thesis by (rule lobby_frame_trans)
qed

lemma leave_frame: "lobby_frame s (snd (leave r u s))"
proof -
  have "lobby_frame s (snd (case leave_guard room u of Leave_error e \<Rightarrow> throw e t | Leave_absent \<Rightarrow> return (Some room, False) t
      | Leave_cancel \<Rightarrow> return (None, True) (cancel room t) | Leave_open \<Rightarrow> leave_commit room u t))"
    if "getOrThrow r s = (Inr room, t)" for room t
    using getOrThrow_find [OF that] by (cases "leave_guard room u") (simp_all add: cancel_frame leave_commit_frame)
  then show ?thesis unfolding leave_def by (rule await_snd [rotated]) simp_all
qed

lemma setReady_frame: "lobby_frame s (snd (setReady r u ready s))"
proof -
  let ?s = "\<lambda>room. set_room (r_id room) (\<lambda>x. x\<lparr>r_members := updateOne (\<lambda>m. rm_userId m = u) (\<lambda>m. m\<lparr>rm_ready := ready\<rparr>) (r_members x)\<rparr>) s"
  have f: "lobby_frame s (?s room)" for room
  proof (rule lobby_frame_set_room)
    fix x
    assume "x \<in> set (rooms s)" "seated_once s"
    moreover have "map rm_userId (updateOne (\<lambda>m. rm_userId m = u) (\<lambda>m. m\<lparr>rm_ready := ready\<rparr>) (r_members x)) = map rm_userId (r_members x)"
      by (rule map_updateOne) simp
    ultimately show "distinct (map rm_userId (r_members (x\<lparr>r_members := updateOne (\<lambda>m. rm_userId m = u) (\<lambda>m. m\<lparr>rm_ready := ready\<rparr>) (r_members x)\<rparr>)))"
      by (simp add: distinct_members)
  qed
  show ?thesis unfolding setReady_def by (rule await_snd) (use f in \<open>auto dest!: getOrThrow_find\<close>)
qed

lemma beginStart_InrD:
  assumes "beginStart r u s = (Inr room, t)"
  obtains old where "read_oid r = Some (r_id old)" "find_room (r_id old) s = Some old" "r_status old = WAITING" "r_hostId old = u"
    "room = old\<lparr>r_status := STARTING\<rparr>" "t = set_room (r_id old) (\<lambda>_. room) s"
proof -
  obtain old where g: "getOrThrow r s = (Inr old, s)"
    using assms by (cases "getOrThrow r s"; cases "fst (getOrThrow r s)") (auto simp: beginStart_def await_def getOrThrow_def split: option.splits)
  then show ?thesis using assms getOrThrow_find [OF g] that [of old]
    by (auto simp: beginStart_def await_def Let_def split: if_splits)
qed

lemma beginStart_InlD: "beginStart r u s = (Inl e, t) \<Longrightarrow> t = s"
  by (auto simp: beginStart_def await_def getOrThrow_def Let_def split: option.splits if_splits)

lemma beginStart_frame: "lobby_frame s (snd (beginStart r u s))"
proof (cases "beginStart r u s")
  case (Pair x t)
  show ?thesis
  proof (cases x)
    case (Inr room)
    then obtain old where o: "find_room (r_id old) s = Some old" "room = old\<lparr>r_status := STARTING\<rparr>" "t = set_room (r_id old) (\<lambda>_. room) s"
      using Pair beginStart_InrD by metis
    show ?thesis unfolding Pair snd_conv o(3)
      by (rule lobby_frame_set_room) (use o(2) seated_onceD [OF _ o(1)] in simp)
  qed (use Pair beginStart_InlD in fastforce)
qed

lemma revert_frame: "lobby_frame s (revert_room r s)"
proof -
  have "seated_once (revertToWaiting i s)" if "seated_once s" for i
  proof -
    have "\<forall>r \<in> set (updateOne (\<lambda>r. r_id r = i \<and> r_status r = STARTING) (\<lambda>r. r\<lparr>r_status := WAITING\<rparr>) (rooms s)).
        distinct (map rm_userId (r_members r))"
      by (rule updateOne_all) (use that in \<open>simp_all add: seated_once_def\<close>)
    then show ?thesis by (simp add: seated_once_def revertToWaiting_def)
  qed
  then show ?thesis by (auto simp: lobby_frame_def revert_room_def revertToWaiting_def split: option.split)
qed

lemma mark_frame: "lobby_frame s (snd (markInProgress r gameId s))"
proof -
  have f: "lobby_frame s (set_room (r_id room) (\<lambda>_. room\<lparr>r_status := IN_PROGRESS, r_gameId := Some gameId, r_startedAt := Some (clock s)\<rparr>) s)"
    if "find_room (r_id room) s = Some room" for room
    by (rule lobby_frame_set_room) (use seated_onceD [OF _ that] in simp)
  show ?thesis unfolding markInProgress_def by (rule await_snd) (use f in \<open>auto dest!: getOrThrow_find simp: Let_def\<close>)
qed

lemma mark_found:
  assumes "find_room i s \<noteq> None"
  shows "\<exists>new t. markInProgress (Hex i) gameId s = (Inr new, t) \<and> find_room i t = Some new
    \<and> r_status new = IN_PROGRESS \<and> r_gameId new = Some gameId"
proof -
  obtain room where r: "find_room i s = Some room" using assms by blast
  have "r_id room = i" using find_room_mem [OF r] by simp
  then show ?thesis using r by (simp add: markInProgress_def await_def getOrThrow_def Let_def find_set_room)
qed

lemma genCode_lobby: "lobby_frame s (snd (genCode game s))"
  by (simp add: lobby_frame_def genCode_def draw_def Let_def seated_once_def)

lemma uniqueCode_lobby: "lobby_frame s (snd (uniqueCode n game code s))"
proof (induction n arbitrary: code s)
  case (Suc n)
  then show ?case using lobby_frame_trans [OF genCode_lobby [of s game]] by (simp add: split_beta)
qed simp

lemma create_frame: "lobby_frame s (snd (create_room u input s))"
proof -
  obtain code s1 where c1: "genCode (ci_game input) s = (code, s1)" by fastforce
  obtain code' s2 where c2: "uniqueCode 5 (ci_game input) code s1 = (code', s2)" by fastforce
  have s2: "lobby_frame s s2" using lobby_frame_trans [OF genCode_lobby [of s "ci_game input"], of s2] uniqueCode_lobby [of s1 5 "ci_game input" code] c1 c2 by simp
  have add: "lobby_frame s2 (s2\<lparr>next_id := Suc (next_id s2), rooms := rooms s2 @ [room]\<rparr>)" if "r_members room = []" for room
    using that by (simp add: lobby_frame_def seated_once_def)
  have "lobby_frame s (snd (await (join (Hex i) u) (\<lambda>_. getOrThrow (Hex i)) t))" if "lobby_frame s2 t" for t i
    using lobby_frame_trans [OF lobby_frame_trans [OF s2 that] join_frame [of t "Hex i" u]]
    by (simp add: await_last)
  then show ?thesis using add s2 c1 c2 by (simp add: create_room_def fresh_id_def Let_def)
qed

lemma revert_started:
  assumes "find_room i s = Some old" "r_status old = WAITING" "rooms v = rooms (set_room i (\<lambda>_. old\<lparr>r_status := STARTING\<rparr>) s)"
  shows "rooms (revertToWaiting i v) = rooms s"
proof -
  have i: "r_id old = i" using find_room_mem [OF assms(1)] by simp
  have "updateOne (\<lambda>r. r_id r = i \<and> r_status r = STARTING) (\<lambda>r. r\<lparr>r_status := WAITING\<rparr>)
      (updateOne (\<lambda>r. r_id r = i) (\<lambda>_. old\<lparr>r_status := STARTING\<rparr>) (rooms s)) = rooms s"
    using assms(1) unfolding find_room_def
  proof (induction "rooms s" arbitrary: s)
    case (Cons x ds)
    show ?case
    proof (cases "r_id x = i")
      case True
      then have "x = old" using Cons.prems Cons.hyps(2) [symmetric] by simp
      then show ?thesis using Cons.hyps(2) [symmetric] i assms(2) by simp
    next
      case False
      then show ?thesis using Cons.hyps(1) [of "s\<lparr>rooms := ds\<rparr>"] Cons.prems Cons.hyps(2) [symmetric] by simp
    qed
  qed (simp flip: Nil)
  then show ?thesis using assms(3) by (simp add: revertToWaiting_def set_room_def)
qed

text \<open>The games never change who sits in a room.\<close>

definition seating :: "'a rooms_st_scheme \<Rightarrow> (oid \<times> oid list) list" where
  "seating s = map (\<lambda>r. (r_id r, map rm_userId (r_members r))) (rooms s)"

lemma seated_once_iff: "seated_once s \<longleftrightarrow> (\<forall>p \<in> set (seating s). distinct (snd p))"
  by (simp add: seated_once_def seating_def)

lemma find_room_seating: "find_room i s \<noteq> None \<longleftrightarrow> i \<in> fst ` set (seating s)"
  by (auto simp: find_room_def seating_def image_image find_None_iff_all)

lemma seating_rooms: "rooms t = rooms s \<Longrightarrow> seating t = seating s"
  by (simp add: seating_def)

lemma seating_accounts: "only_accounts s t \<Longrightarrow> seating t = seating s"
  using level_more [of t s] by (simp add: only_accounts_def seating_def)

lemma seating_close [simp]: "seating (close_room i s) = seating s"
  unfolding seating_def close_room_def set_room_def by (simp add: map_updateOne)

lemma seating_await:
  assumes "\<And>x t. m s = (x, t) \<Longrightarrow> t = s" "\<And>x. seating (snd (k x s)) = seating s"
  shows "seating (snd (await m k s)) = seating s"
proof (cases "m s")
  case (Pair x t)
  then show ?thesis using assms(1) [OF Pair] assms(2) by (simp add: await_def split: sum.split)
qed

section \<open>The contract of a game service\<close>

text \<open>
  What a gateway relies on: the lobby cannot spoil the games; a room that is launched is in progress with the
  new game, or its launch left the rooms alone; a launch between different players keeps the games sound. Luck is what
  the source of randomness has to satisfy.
\<close>

definition invites_ok :: "challenges \<Rightarrow> bool" where
  "invites_ok ks \<longleftrightarrow> (\<forall>k \<in> set ks. ch_toUserId k \<noteq> Hex (ch_fromUserId k))"

lemma invites_ok_ops:
  "invites_ok ks \<Longrightarrow> invites_ok (ch_remove i ks)"
  "invites_ok ks \<Longrightarrow> r \<noteq> Hex u \<Longrightarrow> invites_ok (snd (ch_create i game u r mode bet now ks))"
  by (auto simp: invites_ok_def ch_remove_def ch_create_def Let_def)

lemma ch_get_mem: "ch_get now i ks = Some k \<Longrightarrow> k \<in> set ks \<and> ch_id k = i"
  by (auto simp: ch_get_def find_Some_iff)

text \<open>A gateway is sound when its games and its queue are, no room seats a player twice and no invitation is to its sender.\<close>

definition gw_ok :: "('r rooms_st_scheme \<Rightarrow> bool) \<Rightarrow> ('q \<Rightarrow> bool) \<Rightarrow> ('r rooms_st_scheme, 'q, 'c, 'z) gateway_scheme \<Rightarrow> bool" where
  "gw_ok sound Q g \<longleftrightarrow> sound (gw_service g) \<and> seated_once (gw_service g) \<and> invites_ok (gw_challenges g) \<and> Q (gw_queue g)"

lemma gateway_frame [simp]:
  "gw_service (join_channel c ch g) = gw_service g" "gw_challenges (join_channel c ch g) = gw_challenges g"
  "gw_service (leave_channel c ch g) = gw_service g" "gw_challenges (leave_channel c ch g) = gw_challenges g"
  "gw_service (emit_to ch e g) = gw_service g" "gw_challenges (emit_to ch e g) = gw_challenges g"
  "gw_service (on_queue f g) = gw_service g" "gw_challenges (on_queue f g) = gw_challenges g"
  "gw_service (on_client c h g) = gw_service g" "gw_challenges (on_client c h g) = gw_challenges g"
  "gw_service (on_service k g) = k (gw_service g)" "gw_challenges (on_service k g) = gw_challenges g"
  "gw_service (handleConnection token c g) = gw_service g" "gw_challenges (handleConnection token c g) = gw_challenges g"
  "gw_service (leave_queue queued dequeue counts u g) = gw_service g"
  "gw_challenges (leave_queue queued dequeue counts u g) = gw_challenges g"
  by (simp_all add: join_channel_def leave_channel_def emit_to_def on_queue_def on_client_def on_service_def handleConnection_def
      leave_queue_def Let_def split: option.split)

lemma gateway_queue [simp]:
  "gw_queue (join_channel c ch g) = gw_queue g" "gw_queue (leave_channel c ch g) = gw_queue g" "gw_queue (emit_to ch e g) = gw_queue g"
  "gw_queue (on_queue f g) = f (gw_queue g)" "gw_queue (on_client c h g) = gw_queue g" "gw_queue (on_service k g) = gw_queue g"
  "gw_queue (handleConnection token c g) = gw_queue g" "gw_queue (leave_queue queued dequeue counts u g) = dequeue u (gw_queue g)"
  by (simp_all add: join_channel_def leave_channel_def emit_to_def on_queue_def on_client_def on_service_def handleConnection_def
      leave_queue_def Let_def split: option.split)

lemma gw_ok_same [simp]:
  "gw_ok P Q (join_channel c ch g) = gw_ok P Q g" "gw_ok P Q (leave_channel c ch g) = gw_ok P Q g" "gw_ok P Q (emit_to ch e g) = gw_ok P Q g"
  "gw_ok P Q (on_client c h g) = gw_ok P Q g" "gw_ok P Q (handleConnection token c g) = gw_ok P Q g"
  "gw_ok P Q (g\<lparr>gw_clients := cs\<rparr>) = gw_ok P Q g"
  by (simp_all add: gw_ok_def)

lemma gw_ok_queue:
  "gw_ok P Q g \<Longrightarrow> Q (f (gw_queue g)) \<Longrightarrow> gw_ok P Q (on_queue f g)" "gw_ok P Q g \<Longrightarrow> Q q \<Longrightarrow> gw_ok P Q (g\<lparr>gw_queue := q\<rparr>)"
  "gw_ok P Q g \<Longrightarrow> Q (dequeue u (gw_queue g)) \<Longrightarrow> gw_ok P Q (leave_queue queued dequeue counts u g)"
  by (simp_all add: gw_ok_def)

lemma handleDisconnect_ok:
  fixes g :: "('r rooms_st_scheme, 'q, 'c, 'z) gateway_scheme"
  assumes "gw_ok P Q g" "\<And>u q. Q q \<Longrightarrow> Q (dequeue u q)"
    "\<And>r u h. gw_ok P Q (h :: ('r rooms_st_scheme, 'q, 'c, 'z) gateway_scheme) \<Longrightarrow> gw_ok P Q (on_service (drop_out r u) h)"
  shows "gw_ok P Q (handleDisconnect queued dequeue counts drop_out c g)"
proof -
  have "gw_ok P Q (leave_queue queued dequeue counts u g)" for u
    using gw_ok_queue(3) [OF assms(1)] assms(1,2) by (simp add: gw_ok_def)
  then show ?thesis using assms(1,3) by (auto simp: handleDisconnect_def Let_def split: option.split)
qed

lemma canActivate_ok: "gw_ok P Q g \<Longrightarrow> gw_ok P Q (snd (canActivate token c g))"
  by (simp add: canActivate_def split: option.split)

lemma await_ok:
  assumes "P (snd (m g))" "\<And>x h. m g = (Inr x, h) \<Longrightarrow> P h \<Longrightarrow> P (snd (k x h))"
  shows "P (snd (await m k g))"
  by (rule await_snd) (use assms in \<open>auto dest: assms(2)\<close>)

lemma userOf_InrD: "userOf c g = (Inr u, h) \<Longrightarrow> h = g \<and> user_of_client c g = Some u"
  by (simp add: userOf_def split: option.splits)

lemma await_user:
  assumes "P g" "\<And>u. user_of_client c g = Some u \<Longrightarrow> P (snd (k u g))"
  shows "P (snd (await (userOf c) k g))"
  using assms by (auto simp: await_def userOf_def split: option.split)

lemma snd_service: "snd (service m g) = g\<lparr>gw_service := snd (m (gw_service g))\<rparr>"
  by (simp add: service_def split_beta)

locale game_service =
  fixes sound :: "'r rooms_st_scheme \<Rightarrow> bool"
    and lucky :: "'r rooms_st_scheme \<Rightarrow> bool"
    and launch :: "GameRoom \<Rightarrow> 'r rooms_st_scheme \<Rightarrow> (oid, 'r rooms_st_scheme) outcome"
    and invite :: "PendingChallenge \<Rightarrow> oid \<Rightarrow> 'r rooms_st_scheme \<Rightarrow> (oid, 'r rooms_st_scheme) outcome"
  assumes sound_lobby: "lobby_frame s t \<Longrightarrow> sound s \<Longrightarrow> sound t"
    and lucky_lobby: "lobby_frame s t \<Longrightarrow> lucky s \<Longrightarrow> lucky t"
    and launch_sound: "sound s \<Longrightarrow> lucky s \<Longrightarrow> distinct (map rm_userId (r_members room)) \<Longrightarrow> sound (snd (launch room s))"
    and launch_seats: "seated_once s \<Longrightarrow> seated_once (snd (launch room s))"
    and invite_sound: "sound s \<Longrightarrow> lucky s \<Longrightarrow> ch_fromUserId k \<noteq> u \<Longrightarrow> sound (snd (invite k u s))"
    and invite_seats: "seated_once s \<Longrightarrow> seated_once (snd (invite k u s))"
    and launched: "launch room s = (Inr gameId, t) \<Longrightarrow> find_room (r_id room) s = Some room \<Longrightarrow>
      \<exists>new. find_room (r_id room) t = Some new \<and> r_status new = IN_PROGRESS \<and> r_gameId new = Some gameId"
    and not_launched: "launch room s = (Inl e, t) \<Longrightarrow> find_room (r_id room) s = Some room \<Longrightarrow> rooms t = rooms s"
begin

lemma gw_ok_lobby: "gw_ok sound Q g \<Longrightarrow> lobby_frame (gw_service g) s \<Longrightarrow> gw_ok sound Q (g\<lparr>gw_service := s\<rparr>)"
  using sound_lobby by (auto simp: gw_ok_def lobby_frame_def)

lemma serve_lobby:
  assumes "gw_ok sound Q g" "\<And>s. lobby_frame s (snd (m s))" "\<And>x h. gw_ok sound Q h \<Longrightarrow> gw_ok sound Q (snd (k x h))"
  shows "gw_ok sound Q (snd (await (service m) k g))"
proof (rule await_ok)
  show "gw_ok sound Q (snd (service m g))" unfolding snd_service by (rule gw_ok_lobby [OF assms(1) assms(2)])
qed (rule assms(3))

lemma room_create_ok: "gw_ok sound Q g \<Longrightarrow> gw_ok sound Q (snd (room_create input c g))"
  unfolding room_create_def by (rule await_user) (auto intro!: serve_lobby create_frame)

lemma room_join_ok: "gw_ok sound Q g \<Longrightarrow> gw_ok sound Q (snd (room_join roomId code c g))"
  unfolding room_join_def by (rule await_user) (auto intro!: serve_lobby join_frame simp: Let_def split: option.split)

lemma room_leave_ok: "gw_ok sound Q g \<Longrightarrow> gw_ok sound Q (snd (room_leave r c g))"
  unfolding room_leave_def by (rule await_user) (auto intro!: serve_lobby leave_frame simp: Let_def split: option.split)

lemma room_ready_ok: "gw_ok sound Q g \<Longrightarrow> gw_ok sound Q (snd (room_ready r ready c g))"
  unfolding room_ready_def by (rule await_user) (auto intro!: serve_lobby setReady_frame simp: Let_def)

lemma room_start_ok:
  assumes "gw_ok sound Q g" "lucky (gw_service g)"
  shows "gw_ok sound Q (snd (room_start launch r c g))"
  unfolding room_start_def
proof (rule await_user [where P = "gw_ok sound Q", OF assms(1)], rule await_ok [where P = "gw_ok sound Q"])
  fix u
  show b: "gw_ok sound Q (snd (service (beginStart r (au_id u)) g))"
    unfolding snd_service by (rule gw_ok_lobby [OF assms(1) beginStart_frame])
  fix room h
  assume h: "service (beginStart r (au_id u)) g = (Inr room, h)" and ok: "gw_ok sound Q h"
  obtain t where t: "beginStart r (au_id u) (gw_service g) = (Inr room, t)" "h = g\<lparr>gw_service := t\<rparr>"
    using h by (cases "beginStart r (au_id u) (gw_service g)") (auto simp: service_def)
  obtain old where o: "find_room (r_id old) (gw_service g) = Some old" "room = old\<lparr>r_status := STARTING\<rparr>"
    using beginStart_InrD [OF t(1)] by metis
  have d: "distinct (map rm_userId (r_members room))" using seated_onceD [OF _ o(1)] assms(1) o(2) by (simp add: gw_ok_def)
  have l: "lucky t" using lucky_lobby [OF beginStart_frame assms(2)] t(1) by (metis snd_conv)
  have launched: "gw_ok sound Q (h\<lparr>gw_service := snd (launch room t)\<rparr>)"
    using launch_sound [OF _ l d] launch_seats ok t(2) by (simp add: gw_ok_def)
  show "gw_ok sound Q (snd (case service (launch room) h of
      (Inr gameId, g) \<Rightarrow> return gameId (emit_to (Room_room r) (Room_started r gameId) g)
    | (Inl e, g) \<Rightarrow> throw (WsError (or_message (message_of e) ''Failed to start game'')) (on_service (revert_room r) g)))"
  proof (cases "launch room t")
    case (Pair x v)
    have v: "gw_ok sound Q (h\<lparr>gw_service := v\<rparr>)" using launched Pair by simp
    have "gw_ok sound Q (h\<lparr>gw_service := revert_room r v\<rparr>)" using gw_ok_lobby [OF v] revert_frame [of v r] by simp
    then show ?thesis using v Pair t(2) by (cases x) (simp_all add: service_def on_service_def)
  qed
qed

lemma challenge_send_ok:
  assumes "gw_ok sound Q g"
  shows "gw_ok sound Q (snd (challenge_send game mode bet opponent c g))"
  unfolding challenge_send_def
proof (rule await_user [where P = "gw_ok sound Q", OF assms])
  fix u
  have f: "gw_ok sound Q (snd (await (service (findByIdOrThrow r)) (\<lambda>_ g.
      let (i, s) = fresh_id (gw_service g);
          (k, ks) = ch_create i game (au_id u) r mode bet (clock s) (gw_challenges g);
          g = g\<lparr>gw_service := s, gw_challenges := ks\<rparr>
      in return i (emit_to (User_room r) (Challenge_received i (sender_of u s) mode bet) g)) g))" if "r \<noteq> Hex (au_id u)" for r
  proof (rule serve_lobby [OF assms])
    show "lobby_frame s (snd (findByIdOrThrow r s))" for s by (simp add: findByIdOrThrow_def split: option.split)
    fix x h
    assume h: "gw_ok sound Q h"
    obtain i s where i: "fresh_id (gw_service h) = (i, s)" by fastforce
    have s: "lobby_frame (gw_service h) s" using i by (auto simp: fresh_id_def lobby_frame_def seated_once_def)
    obtain k ks where k: "ch_create i game (au_id u) r mode bet (clock s) (gw_challenges h) = (k, ks)" by fastforce
    have "invites_ok ks" using invites_ok_ops(2) [OF _ that, of "gw_challenges h" i game mode bet "clock s"] h k by (simp add: gw_ok_def)
    then show "gw_ok sound Q (snd (let (i, s) = fresh_id (gw_service h);
          (k, ks) = ch_create i game (au_id u) r mode bet (clock s) (gw_challenges h);
          g = h\<lparr>gw_service := s, gw_challenges := ks\<rparr>
      in return i (emit_to (User_room r) (Challenge_received i (sender_of u s) mode bet) g)))"
      using gw_ok_lobby [OF h s] i k by (simp add: gw_ok_def)
  qed
  show "gw_ok sound Q (snd ((case opponent of None \<Rightarrow> throw (WsError ''Invalid opponent'')
     | Some r \<Rightarrow> if r = Hex (au_id u) then throw (WsError ''Invalid opponent'')
         else await (service (findByIdOrThrow r)) (\<lambda>_ g.
           let (i, s) = fresh_id (gw_service g);
               (k, ks) = ch_create i game (au_id u) r mode bet (clock s) (gw_challenges g);
               g = g\<lparr>gw_service := s, gw_challenges := ks\<rparr>
           in return i (emit_to (User_room r) (Challenge_received i (sender_of u s) mode bet) g))) g))"
    using assms f by (simp split: option.split)
qed

lemma challenge_accept_ok:
  assumes "gw_ok sound Q g" "lucky (gw_service g)"
  shows "gw_ok sound Q (snd (challenge_accept game invite i c g))"
  unfolding challenge_accept_def ch_claim_def Let_def prod.case
proof (rule await_user [where P = "gw_ok sound Q", OF assms(1)])
  fix u
  let ?g = "g\<lparr>gw_challenges := ch_remove i (gw_challenges g)\<rparr>"
  have ok: "gw_ok sound Q ?g" using assms(1) invites_ok_ops(1) by (simp add: gw_ok_def)
  show "gw_ok sound Q (snd (case ch_get (clock (gw_service g)) i (gw_challenges g) of
       None \<Rightarrow> throw (WsError ''Challenge expired or not found'') ?g
     | Some k \<Rightarrow>
         if ch_game k \<noteq> game then throw (WsError ''Challenge expired or not found'') ?g
         else if ch_toUserId k \<noteq> Hex (au_id u) then throw (WsError ''This challenge is not addressed to you'') ?g
         else await (service (invite k (au_id u))) (\<lambda>gameId g.
           return gameId (emit_to (User_room (Hex (ch_fromUserId k))) (Challenge_accepted (ch_id k) gameId (au_id u)) g)) ?g))"
  proof (cases "ch_get (clock (gw_service g)) i (gw_challenges g)")
    case (Some k)
    have k: "ch_toUserId k \<noteq> Hex (ch_fromUserId k)" using ch_get_mem [OF Some] assms(1) by (simp add: gw_ok_def invites_ok_def)
    have "gw_ok sound Q (snd (await (service (invite k (au_id u))) (\<lambda>gameId g.
           return gameId (emit_to (User_room (Hex (ch_fromUserId k))) (Challenge_accepted (ch_id k) gameId (au_id u)) g)) ?g))"
      if "ch_toUserId k = Hex (au_id u)"
    proof (rule await_ok [where P = "gw_ok sound Q"])
      have "ch_fromUserId k \<noteq> au_id u" using k that by auto
      then show "gw_ok sound Q (snd (service (invite k (au_id u)) ?g))"
        unfolding snd_service using invite_sound [OF _ assms(2)] invite_seats ok by (simp add: gw_ok_def)
    qed simp
    then show ?thesis using ok Some by simp
  qed (use ok in simp)
qed

lemma challenge_decline_ok: "gw_ok sound Q g \<Longrightarrow> gw_ok sound Q (snd (challenge_decline i c g))"
  unfolding challenge_decline_def
  by (rule await_user) (auto simp: gw_ok_def invites_ok_ops(1) split: option.split)

text \<open>A start, from the outside: the game is there and the room with it, or the rooms are as they were.\<close>

lemma room_start_outcome:
  assumes "room_start launch r c g = (x, h)"
  shows "case x of
      Inl e \<Rightarrow> rooms (gw_service h) = rooms (gw_service g)
    | Inr gameId \<Rightarrow> \<exists>u old new. user_of_client c g = Some u \<and> read_oid r = Some (r_id old)
        \<and> find_room (r_id old) (gw_service g) = Some old \<and> r_hostId old = au_id u \<and> r_status old = WAITING
        \<and> find_room (r_id old) (gw_service h) = Some new \<and> r_status new = IN_PROGRESS \<and> r_gameId new = Some gameId"
proof (cases "user_of_client c g")
  case (Some u)
  obtain y t where b: "beginStart r (au_id u) (gw_service g) = (y, t)" by fastforce
  show ?thesis
  proof (cases y)
    case (Inl e)
    then show ?thesis using assms Some b beginStart_InlD [of r "au_id u" "gw_service g" e t]
      by (auto simp: room_start_def await_def userOf_def service_def)
  next
    case (Inr room)
    then obtain old where o: "read_oid r = Some (r_id old)" "find_room (r_id old) (gw_service g) = Some old" "r_status old = WAITING"
      "r_hostId old = au_id u" "room = old\<lparr>r_status := STARTING\<rparr>" "t = set_room (r_id old) (\<lambda>_. room) (gw_service g)"
      using beginStart_InrD b by metis
    have here: "find_room (r_id room) t = Some room" using o by (simp add: find_set_room)
    obtain z v where l: "launch room t = (z, v)" by fastforce
    show ?thesis
    proof (cases z)
      case (Inr gameId)
      then obtain new where n: "find_room (r_id room) v = Some new" "r_status new = IN_PROGRESS" "r_gameId new = Some gameId"
        using launched [OF _ here] l by blast
      have x: "x = Inr gameId" "gw_service h = v"
        using Inr l assms Some b \<open>y = Inr room\<close> by (auto simp: room_start_def await_def userOf_def service_def)
      show ?thesis unfolding x sum.case using Some o n by (intro exI [of _ u] exI [of _ old] exI [of _ new]) simp
    next
      case (Inl e)
      then have "rooms v = rooms t" using not_launched [OF _ here] l by blast
      then have "rooms (revert_room r v) = rooms (gw_service g)" using revert_started o by (simp add: revert_room_def)
      then show ?thesis using Inl l assms Some b \<open>y = Inr room\<close>
        by (auto simp: room_start_def await_def userOf_def service_def on_service_def)
    qed
  qed
qed (use assms in \<open>auto simp: room_start_def await_def userOf_def\<close>)

end

end
