(* ===== verification/CaroLaws.thy ===== *)
theory CaroLaws
  imports CaroGame
begin

text \<open>
  What holds of the Caro service: the board is the replay of the recorded moves, the marks
  alternate, a finished game was decided the way its record says, no game takes more than 225
  moves, and its end pays out exactly its pot.
\<close>

section \<open>Sound games\<close>

definition cell_no :: "CaroMove \<Rightarrow> nat" where
  "cell_no m = nat \<lfloor>idx (mv_row m) (mv_col m)\<rfloor>"

definition replay :: "CaroMove list \<Rightarrow> board" where
  "replay ms = foldl (\<lambda>b m. b[cell_no m := mv_by m]) createBoard ms"

definition mark_at :: "nat \<Rightarrow> cell" where
  "mark_at k = (if even k then 1 else 2)"

definition player_of :: "CaroGame \<Rightarrow> cell \<Rightarrow> oid" where
  "player_of g mark = (if mark = 1 then c_playerX g else c_playerO g)"

text \<open>Each move took an empty cell, and the players moved in turns.\<close>

definition moves_ok :: "CaroGame \<Rightarrow> bool" where
  "moves_ok g \<longleftrightarrow> c_board g = replay (c_moves g) \<and> distinct (map cell_no (c_moves g))
     \<and> (\<forall>m \<in> set (c_moves g). cell_no m < 225)
     \<and> map mv_by (c_moves g) = map mark_at [0..<length (c_moves g)]
     \<and> c_playerX g \<noteq> c_playerO g"

definition whole :: "CaroMove \<Rightarrow> bool" where
  "whole m \<longleftrightarrow> (\<exists>i j. mv_row m = of_int i \<and> mv_col m = of_int j \<and> 0 \<le> i \<and> i < 15 \<and> 0 \<le> j \<and> j < 15)"

definition whole_moves :: "CaroGame \<Rightarrow> bool" where
  "whole_moves g \<longleftrightarrow> (\<forall>m \<in> set (c_moves g). whole m)"

text \<open>A running game has no result, a player to move and room on the board; with whole moves nobody has five.\<close>

definition running_ok :: "CaroGame \<Rightarrow> bool" where
  "running_ok g \<longleftrightarrow> c_status g = ACTIVE \<and> c_turn g = mark_at (length (c_moves g)) \<and> length (c_moves g) < 225
     \<and> c_winner g = None \<and> c_endReason g = None
     \<and> (whole_moves g \<longrightarrow> \<not> has_five (c_board g) 1 \<and> \<not> has_five (c_board g) 2)"

text \<open>How a game ended, and what then holds of its last position.\<close>

definition won_ok :: "CaroGame \<Rightarrow> bool" where
  "won_ok g \<longleftrightarrow> (\<exists>l. c_winningLine g = Some l \<and> 5 \<le> length l \<and> c_moves g \<noteq> []
     \<and> (let mark = mark_at (length (c_moves g) - 1)
        in (\<forall>x \<in> set l. cell_at (c_board g) x = Some mark) \<and> c_winner g = Some (player_of g mark)
           \<and> (whole_moves g \<longrightarrow> has_five (c_board g) mark \<and> \<not> has_five (c_board g) (3 - mark))))"

definition drawn_ok :: "CaroGame \<Rightarrow> bool" where
  "drawn_ok g \<longleftrightarrow> length (c_moves g) = 225 \<and> c_winner g = None
     \<and> (whole_moves g \<longrightarrow> \<not> has_five (c_board g) 1 \<and> \<not> has_five (c_board g) 2)"

definition over_ok :: "CaroGame \<Rightarrow> bool" where
  "over_ok g \<longleftrightarrow> c_status g = FINISHED \<and>
     (case c_endReason g of
        Some WIN \<Rightarrow> won_ok g
      | Some DRAW \<Rightarrow> drawn_ok g
      | Some TIMEOUT \<Rightarrow> c_winner g = Some (player_of g (3 - c_turn g))
      | Some RESIGN \<Rightarrow> c_winner g = Some (c_playerX g) \<or> c_winner g = Some (c_playerO g)
      | Some DISCONNECT \<Rightarrow> c_winner g = Some (c_playerX g) \<or> c_winner g = Some (c_playerO g)
      | _ \<Rightarrow> False)"

definition caro_ok :: "CaroGame \<Rightarrow> bool" where
  "caro_ok g \<longleftrightarrow> moves_ok g \<and> (running_ok g \<or> over_ok g)"

section \<open>Replays\<close>

lemma length_replay [simp]: "length (replay ms) = 225"
proof -
  have "length (foldl (\<lambda>b m. b[cell_no m := mv_by m]) b ms) = length b" for b
    by (induction ms arbitrary: b) simp_all
  then show ?thesis by (simp add: replay_def)
qed

lemma replay_snoc [simp]: "replay (ms @ [m]) = (replay ms)[cell_no m := mv_by m]"
  by (simp add: replay_def)

text \<open>The empty cells are those no move took.\<close>

lemma replay_nth:
  "\<lbrakk>\<forall>m \<in> set ms. cell_no m < 225; \<forall>m \<in> set ms. mv_by m \<noteq> 0; n < 225\<rbrakk>
   \<Longrightarrow> replay ms ! n = 0 \<longleftrightarrow> n \<notin> cell_no ` set ms"
proof (induction ms rule: rev_induct)
  case Nil
  then show ?case by (simp add: replay_def)
next
  case (snoc m ms)
  then show ?case by (auto simp: nth_list_update)
qed

lemma full_board:
  assumes "\<forall>m \<in> set ms. cell_no m < 225" "\<forall>m \<in> set ms. mv_by m \<noteq> 0" "distinct (map cell_no ms)"
  shows "length ms \<le> 225" "0 \<in> set (replay ms) \<longleftrightarrow> length ms < 225"
proof -
  have sub: "cell_no ` set ms \<subseteq> {..<225}" using assms(1) by auto
  have card: "card (cell_no ` set ms) = length ms"
    using assms(3) by (metis distinct_card length_map set_map)
  show "length ms \<le> 225" using card_mono [OF _ sub] card by simp
  have "0 \<in> set (replay ms) \<longleftrightarrow> (\<exists>n < 225. n \<notin> cell_no ` set ms)"
    using replay_nth [OF assms(1,2)] by (auto simp: in_set_conv_nth)
  also have "\<dots> \<longleftrightarrow> cell_no ` set ms \<noteq> {..<225}" using sub by auto
  also have "\<dots> \<longleftrightarrow> length ms < 225"
  proof
    assume "cell_no ` set ms \<noteq> {..<225}"
    then have "card (cell_no ` set ms) \<noteq> card {..<225::nat}" using card_subset_eq [OF _ sub] by blast
    then show "length ms < 225" using card \<open>length ms \<le> 225\<close> by simp
  next
    assume "length ms < 225"
    then have "card (cell_no ` set ms) \<noteq> card {..<225::nat}" using card by simp
    then show "cell_no ` set ms \<noteq> {..<225}" by metis
  qed
  finally show "0 \<in> set (replay ms) \<longleftrightarrow> length ms < 225" .
qed

lemma mark_at_cases: "mark_at k = 1 \<or> mark_at k = 2" "mark_at (Suc k) = 3 - mark_at k" "mark_at k \<noteq> 0"
  by (auto simp: mark_at_def)

lemma moves_okD:
  assumes "moves_ok g"
  shows "\<forall>m \<in> set (c_moves g). mv_by m \<noteq> 0" "length (c_board g) = 225" "length (c_moves g) \<le> 225"
    "0 \<in> set (c_board g) \<longleftrightarrow> length (c_moves g) < 225"
proof -
  have "\<forall>x \<in> set (map mv_by (c_moves g)). x \<noteq> 0"
    using assms mark_at_cases(3) unfolding moves_ok_def by (metis (no_types, lifting) imageE set_map)
  then show nz: "\<forall>m \<in> set (c_moves g). mv_by m \<noteq> 0" by simp
  show "length (c_board g) = 225" using assms by (simp add: moves_ok_def)
  show "length (c_moves g) \<le> 225" "0 \<in> set (c_board g) \<longleftrightarrow> length (c_moves g) < 225"
    using full_board [OF _ nz] assms by (simp_all add: moves_ok_def)
qed

section \<open>A move\<close>

lemma record_move_ok:
  assumes "moves_ok g" "applyMove (c_board g) row col (mark_at (length (c_moves g))) = (res, b)" "\<And>e. res \<noteq> Refused e"
  shows "moves_ok (record_move g (mark_at (length (c_moves g))) row col b now)"
  using assms(2)
proof (cases rule: applyMove_cases)
  case (taken)
  let ?m = "\<lparr>mv_by = mark_at (length (c_moves g)), mv_row = row, mv_col = col, mv_at = now\<rparr>"
  have c: "cell_no ?m = nat \<lfloor>idx row col\<rfloor>" by (simp add: cell_no_def)
  have lt: "cell_no ?m < 225" using taken(1) moves_okD(2) [OF assms(1)] by (simp add: c)
  have "cell_no ?m \<notin> cell_no ` set (c_moves g)"
    using replay_nth [OF _ moves_okD(1) [OF assms(1)] lt] taken(2) assms(1) by (auto simp: moves_ok_def c)
  then show ?thesis using assms(1) taken(3) lt by (auto simp: moves_ok_def record_move_def c)
qed (use assms(3) in simp)

lemma whole_record:
  "whole_moves (record_move g mark row col b now) \<longleftrightarrow> whole_moves g
     \<and> (\<exists>i j. row = of_int i \<and> col = of_int j \<and> 0 \<le> i \<and> i < 15 \<and> 0 \<le> j \<and> j < 15)"
  by (auto simp: whole_moves_def record_move_def whole_def)

text \<open>What a move to whole coordinates makes of the fives on the board.\<close>

lemma whole_move_fives:
  assumes "length b = 225" "applyMove b (of_int i) (of_int j) m = (res, b')" "0 \<le> i" "i < 15" "0 \<le> j" "j < 15"
    "\<And>e. res \<noteq> Refused e" "\<not> has_five b m" "\<not> has_five b (3 - m)" "m = 1 \<or> m = 2"
  shows "\<not> has_five b' (3 - m)" "(\<exists>l. res = Win l) \<longleftrightarrow> has_five b' m"
proof -
  have z: "b ! nat (15 * i + j) = 0"
    using assms(2)
  proof (cases rule: applyMove_cases)
    case taken
    then show ?thesis using cell_at_int(3) [OF assms(1,3-6)] by simp
  qed (use assms(7) in simp)
  have "3 - m \<noteq> m" using assms(10) by auto
  then show "\<not> has_five b' (3 - m)" "(\<exists>l. res = Win l) \<longleftrightarrow> has_five b' m"
    using caro_five_facts [OF assms(1,3-6) z assms(8)] assms(2,9) by auto
qed

text \<open>
  An accepted move of the player to move, whatever its outcome: the moves stay sound, and with whole
  moves the mover has five just when the move won.
\<close>

lemma move_effect:
  assumes "moves_ok g" "running_ok g" "applyMove (c_board g) row col (c_turn g) = (res, b)" "\<And>e. res \<noteq> Refused e"
    and h_def: "h = record_move g (c_turn g) row col b now"
  shows "moves_ok h" "length (c_moves h) = Suc (length (c_moves g))"
    "whole_moves h \<Longrightarrow> \<not> has_five (c_board h) (3 - c_turn g) \<and> ((\<exists>l. res = Win l) \<longleftrightarrow> has_five (c_board h) (c_turn g))"
proof -
  have t: "c_turn g = mark_at (length (c_moves g))" using assms(2) by (simp add: running_ok_def)
  show "moves_ok h" unfolding h_def t by (rule record_move_ok [OF assms(1) assms(3) [unfolded t] assms(4)])
  show "length (c_moves h) = Suc (length (c_moves g))" by (simp add: h_def record_move_def)
  assume "whole_moves h"
  then obtain i j where w: "whole_moves g" "row = of_int i" "col = of_int j" "0 \<le> i" "i < 15" "0 \<le> j" "j < 15"
    unfolding h_def whole_record by blast
  have n: "\<not> has_five (c_board g) 1" "\<not> has_five (c_board g) 2" using assms(2) w(1) by (simp_all add: running_ok_def)
  have "c_turn g = 1 \<or> c_turn g = 2" using t mark_at_cases by simp
  then have n': "\<not> has_five (c_board g) (c_turn g)" "\<not> has_five (c_board g) (3 - c_turn g)" using n by auto
  show "\<not> has_five (c_board h) (3 - c_turn g) \<and> ((\<exists>l. res = Win l) \<longleftrightarrow> has_five (c_board h) (c_turn g))"
    using whole_move_fives [OF moves_okD(2) [OF assms(1)] _ w(4-7) assms(4) n'] assms(3) w(2,3) \<open>c_turn g = 1 \<or> c_turn g = 2\<close>
    by (simp add: h_def record_move_def)
qed

section \<open>Outcomes\<close>

lemma caro_ok_changes [simp]: "caro_ok (g\<lparr>c_rpChange := rp\<rparr>) = caro_ok g"
  by (simp add: caro_ok_def moves_ok_def running_ok_def over_ok_def won_ok_def drawn_ok_def whole_moves_def
      player_of_def cong: option.case_cong CaroEndReason.case_cong)

lemma end_doc_simps [simp]:
  "c_moves (end_doc w e t g) = c_moves g" "c_board (end_doc w e t g) = c_board g" "c_id (end_doc w e t g) = c_id g"
  "c_playerX (end_doc w e t g) = c_playerX g" "c_playerO (end_doc w e t g) = c_playerO g"
  "c_status (end_doc w e t g) = FINISHED" "c_winner (end_doc w e t g) = w" "c_endReason (end_doc w e t g) = Some e"
  "c_turn (end_doc w e t g) = c_turn g" "c_winningLine (end_doc w e t g) = c_winningLine g"
  "c_mode (end_doc w e t g) = c_mode g" "c_pot (end_doc w e t g) = c_pot g" "c_betAmount (end_doc w e t g) = c_betAmount g"
  "c_roomId (end_doc w e t g) = c_roomId g"
  "moves_ok (end_doc w e t g) = moves_ok g" "whole_moves (end_doc w e t g) = whole_moves g"
  "won_ok (end_doc w e t g) \<longleftrightarrow> won_ok (g\<lparr>c_winner := w\<rparr>)"
  by (simp_all add: end_doc_def moves_ok_def whole_moves_def won_ok_def player_of_def)

lemma record_simps [simp]:
  "c_moves (record_move g m r c b t) = c_moves g @ [\<lparr>mv_by = m, mv_row = r, mv_col = c, mv_at = t\<rparr>]"
  "c_board (record_move g m r c b t) = b" "c_id (record_move g m r c b t) = c_id g"
  "c_playerX (record_move g m r c b t) = c_playerX g" "c_playerO (record_move g m r c b t) = c_playerO g"
  "c_status (record_move g m r c b t) = c_status g" "c_winner (record_move g m r c b t) = c_winner g"
  "c_endReason (record_move g m r c b t) = c_endReason g" "c_turn (record_move g m r c b t) = c_turn g"
  "c_mode (record_move g m r c b t) = c_mode g" "c_pot (record_move g m r c b t) = c_pot g"
  "c_betAmount (record_move g m r c b t) = c_betAmount g" "c_roomId (record_move g m r c b t) = c_roomId g"
  by (simp_all add: record_move_def)

lemma field_moves [simp]:
  "moves_ok (g\<lparr>c_turn := k\<rparr>) = moves_ok g" "moves_ok (g\<lparr>c_winningLine := l\<rparr>) = moves_ok g"
  "whole_moves (g\<lparr>c_turn := k\<rparr>) = whole_moves g" "whole_moves (g\<lparr>c_winningLine := l\<rparr>) = whole_moves g"
  "whole_moves (g\<lparr>c_winner := w\<rparr>) = whole_moves g"
  by (simp_all add: moves_ok_def whole_moves_def)

lemma caro_guardD:
  assumes "caro_guard g u = Inr mark"
  shows "c_status g = ACTIVE" "mark = c_turn g" "u = player_of g mark" "mark \<noteq> 0"
  using assms by (auto simp: caro_guard_def player_of_def markOf_def split: if_splits)

lemma running_turn: "running_ok g \<Longrightarrow> c_turn g = 1 \<or> c_turn g = 2"
  using mark_at_cases by (simp add: running_ok_def)

lemma caro_ok_active: "\<lbrakk>caro_ok g; c_status g = ACTIVE\<rbrakk> \<Longrightarrow> moves_ok g \<and> running_ok g"
  by (auto simp: caro_ok_def over_ok_def)

lemma placed_ok:
  assumes "moves_ok g" "running_ok g" "applyMove (c_board g) row col (c_turn g) = (Placed, b)"
  shows "caro_ok (record_move g (c_turn g) row col b now\<lparr>c_turn := (if c_turn g = 1 then 2 else 1)\<rparr>)"
proof -
  let ?h = "record_move g (c_turn g) row col b now"
  note e = move_effect [OF assms _ refl, of now, simplified]
  have "0 \<in> set (c_board ?h)"
    using assms(3) by (cases rule: applyMove_cases) auto
  then have "length (c_moves ?h) < 225" using moves_okD(4) [OF e(1)] by simp
  then show ?thesis using assms(2) e running_turn [OF assms(2)] mark_at_cases(2) [of "length (c_moves g)"]
    by (auto simp: caro_ok_def running_ok_def numeral_2_eq_2)
qed

lemma draw_ok:
  assumes "moves_ok g" "running_ok g" "applyMove (c_board g) row col (c_turn g) = (Draw, b)"
  shows "caro_ok (end_doc None DRAW t (record_move g (c_turn g) row col b now))"
proof -
  let ?h = "record_move g (c_turn g) row col b now"
  note e = move_effect [OF assms _ refl, of now, simplified]
  have "0 \<notin> set (c_board ?h)"
    using assms(3) by (cases rule: applyMove_cases) auto
  then have "length (c_moves ?h) = 225" using moves_okD(3,4) [OF e(1)] by simp
  then show ?thesis using e running_turn [OF assms(2)]
    by (auto simp: caro_ok_def over_ok_def drawn_ok_def numeral_2_eq_2)
qed

lemma win_ok:
  assumes "moves_ok g" "running_ok g" "applyMove (c_board g) row col (c_turn g) = (Win l, b)" "u = player_of g (c_turn g)"
  shows "caro_ok (end_doc (Some u) WIN t (record_move g (c_turn g) row col b now\<lparr>c_winningLine := Some l\<rparr>))"
proof -
  let ?h = "record_move g (c_turn g) row col b now"
  note e = move_effect [OF assms(1-3) _ refl, of now, simplified]
  have "5 \<le> length l \<and> (\<forall>x \<in> set l. cell_at b x = Some (c_turn g))"
    using assms(3)
  proof (cases rule: applyMove_cases)
    case taken
    then show ?thesis using winning_line_marked [OF taken(7) [OF refl] taken(4)] by blast
  qed simp
  moreover have "c_turn g = mark_at (length (c_moves g))" using assms(2) by (simp add: running_ok_def)
  ultimately show ?thesis using e assms(4)
    by (auto simp: caro_ok_def over_ok_def won_ok_def player_of_def)
qed

lemma given_up_ok:
  assumes "moves_ok g" "w = c_playerX g \<or> w = c_playerO g" "e = RESIGN \<or> e = DISCONNECT"
  shows "caro_ok (end_doc (Some w) e t g)"
  using assms by (auto simp: caro_ok_def over_ok_def)

lemma timed_out_ok:
  assumes "moves_ok g" "running_ok g"
  shows "caro_ok (end_doc (Some (opponentOf g (if c_turn g = 1 then c_playerX g else c_playerO g))) TIMEOUT t g)"
  using assms running_turn [OF assms(2)]
  by (auto simp: caro_ok_def over_ok_def player_of_def opponentOf_def moves_ok_def)

lemma opponent_cases: "opponentOf g u = c_playerX g \<or> opponentOf g u = c_playerO g"
  by (simp add: opponentOf_def)

section \<open>Stored games\<close>

lemma rooms_more_caro:
  "rooms_st.more t = rooms_st.more s \<Longrightarrow>
     caro_games t = caro_games s \<and> caro_timers t = caro_timers s \<and> caro_dcTimers t = caro_dcTimers s \<and> caro_log t = caro_log s"
  by (cases s; cases t) simp

lemma only_accounts_caro:
  "only_accounts s t \<Longrightarrow> caro_games t = caro_games s \<and> caro_timers t = caro_timers s
     \<and> caro_dcTimers t = caro_dcTimers s \<and> caro_log t = caro_log s \<and> next_id s \<le> next_id t \<and> clock t = clock s"
  using rooms_more_caro level_more by (metis only_accounts_def)

text \<open>Recording the changes of the rank points sets one field.\<close>

definition rp_only :: "CaroGame \<Rightarrow> CaroGame \<Rightarrow> bool" where
  "rp_only g g' \<longleftrightarrow> (\<exists>rp. g' = g\<lparr>c_rpChange := rp\<rparr>)"

lemma rp_only_simps [simp]: "rp_only g (g\<lparr>c_rpChange := rp\<rparr>)" "rp_only g g"
proof -
  show "rp_only g (g\<lparr>c_rpChange := rp\<rparr>)" unfolding rp_only_def by blast
  have "g = g\<lparr>c_rpChange := c_rpChange g\<rparr>" by simp
  then show "rp_only g g" unfolding rp_only_def by blast
qed

lemma rp_onlyD: "rp_only g g' \<Longrightarrow> c_id g' = c_id g \<and> caro_ok g' = caro_ok g"
  by (auto simp: rp_only_def)

lemma winner_rewards_frame:
  assumes "winner_rewards g w s = (g', t)"
  shows "only_accounts s t \<and> rp_only g g'"
  using assms only_accounts_payments(1) only_accounts_trans [OF only_accounts_payments(3) only_accounts_payments(3)]
  by (auto simp: winner_rewards_def Let_def split_beta split: if_splits)

lemma refund_only: "only_accounts s (best_effort (refund u a ref) s)"
  using wallet_more [OF refund_more(1) [where s = s]]
  by (simp add: only_accounts_def money best_effort_def)

lemma draw_rewards_frame:
  assumes "draw_rewards g s = (g', t)"
  shows "only_accounts s t \<and> rp_only g g'"
  using assms only_accounts_trans [OF refund_only refund_only]
    only_accounts_trans [OF only_accounts_payments(3) only_accounts_payments(3)]
  by (auto simp: draw_rewards_def Let_def split_beta split: if_splits)

lemma caro_frame [simp]:
  "caro_games (broadcast r e s) = caro_games s" "caro_games (clearTimer r s) = caro_games s"
  "caro_games (startTurnTimer r s) = caro_games s" "caro_games (clearDcTimer k s) = caro_games s"
  "caro_games (close_room i s) = caro_games s"
  "next_id (broadcast r e s) = next_id s" "next_id (clearTimer r s) = next_id s"
  "next_id (startTurnTimer r s) = next_id s" "next_id (clearDcTimer k s) = next_id s"
  "next_id (close_room i s) = next_id s" "next_id (save_caro g s) = next_id s" "clock (clearTimer r s) = clock s"
  by (simp_all add: broadcast_def clearTimer_def startTurnTimer_def clearDcTimer_def close_room_def save_caro_def
      set_room_def Let_def)

text \<open>An end saves the decided game, with the points it changed.\<close>

definition ends_as :: "CaroGame \<Rightarrow> CaroGame \<Rightarrow> 'a caro_st_scheme \<Rightarrow> 'a caro_st_scheme \<Rightarrow> bool" where
  "ends_as h g' s t \<longleftrightarrow> rp_only h g'
     \<and> caro_games t = updateOne (\<lambda>x. c_id x = c_id g') (\<lambda>_. g') (caro_games s) \<and> next_id s \<le> next_id t"

lemma finish_ends:
  assumes "finish g w e s = (g', t)"
  shows "ends_as (end_doc (Some w) e (clock s) g) g' s t"
proof -
  obtain u where f: "winner_rewards (end_doc (Some w) e (clock s) g) w (clearTimer (Hex (c_id g)) s) = (g', u)"
    "t = publish_caro g' u"
    using assms by (auto simp: finish_def Let_def split: prod.splits)
  then show ?thesis using winner_rewards_frame [OF f(1)] only_accounts_caro
    by (auto simp: ends_as_def publish_caro_def Let_def save_caro_def split: option.split dest!: only_accounts_caro)
qed

lemma finishDraw_ends:
  assumes "finishDraw g s = (g', t)"
  shows "ends_as (end_doc None DRAW (clock s) g) g' s t"
proof -
  obtain u where f: "draw_rewards (end_doc None DRAW (clock s) g) (clearTimer (Hex (c_id g)) s) = (g', u)"
    "t = publish_caro g' u"
    using assms by (auto simp: finishDraw_def Let_def split: prod.splits)
  then show ?thesis using draw_rewards_frame [OF f(1)]
    by (auto simp: ends_as_def publish_caro_def Let_def save_caro_def split: option.split dest!: only_accounts_caro)
qed

definition caros_ok :: "'a caro_st_scheme \<Rightarrow> bool" where
  "caros_ok s \<longleftrightarrow> stored_ok c_id caro_ok (next_id s) (caro_games s)"

lemmas caros_okD = caro.ok_look [where P = caro_ok and n = "next_id s" and s = s for s, folded caros_ok_def]
lemmas caros_ok_same = caro.ok_same [where P = caro_ok, folded caros_ok_def]
lemmas caros_ok_save = caro.ok_save [where P = caro_ok, folded caros_ok_def]

section \<open>The rules of a game\<close>

text \<open>
  One step of a game as a whole document: a stone placed, a win, a draw, a game given up or lost on
  time. Only a running game takes a step.
\<close>

inductive caro_rule :: "CaroGame \<Rightarrow> CaroGame \<Rightarrow> bool" where
  place: "\<lbrakk>c_status g = ACTIVE; applyMove (c_board g) row col (c_turn g) = (Placed, b)\<rbrakk>
    \<Longrightarrow> caro_rule g (record_move g (c_turn g) row col b now\<lparr>c_turn := (if c_turn g = 1 then 2 else 1)\<rparr>)"
| win: "\<lbrakk>c_status g = ACTIVE; applyMove (c_board g) row col (c_turn g) = (Win l, b);
    rp_only (end_doc (Some (player_of g (c_turn g))) WIN now
      (record_move g (c_turn g) row col b now\<lparr>c_winningLine := Some l\<rparr>)) h\<rbrakk> \<Longrightarrow> caro_rule g h"
| draw: "\<lbrakk>c_status g = ACTIVE; applyMove (c_board g) row col (c_turn g) = (Draw, b);
    rp_only (end_doc None DRAW now (record_move g (c_turn g) row col b now)) h\<rbrakk> \<Longrightarrow> caro_rule g h"
| give_up: "\<lbrakk>c_status g = ACTIVE; e = RESIGN \<or> e = DISCONNECT; rp_only (end_doc (Some (opponentOf g u)) e now g) h\<rbrakk>
    \<Longrightarrow> caro_rule g h"
| time_out: "\<lbrakk>c_status g = ACTIVE;
    rp_only (end_doc (Some (opponentOf g (if c_turn g = 1 then c_playerX g else c_playerO g))) TIMEOUT now g) h\<rbrakk>
    \<Longrightarrow> caro_rule g h"

lemma caro_rule_ok: "\<lbrakk>caro_rule g h; caro_ok g\<rbrakk> \<Longrightarrow> caro_ok h"
proof (induction rule: caro_rule.induct)
  case (place g row col b now)
  then show ?case using placed_ok caro_ok_active by blast
next
  case (win g row col l b now h)
  then show ?case using win_ok [OF _ _ win(2) refl] caro_ok_active rp_onlyD by blast
next
  case (draw g row col b now h)
  then show ?case using draw_ok [OF _ _ draw(2)] caro_ok_active rp_onlyD by blast
next
  case (give_up g e u now h)
  then show ?case using given_up_ok [OF _ opponent_cases] caro_ok_active rp_onlyD by blast
next
  case (time_out g now h)
  then show ?case using timed_out_ok caro_ok_active rp_onlyD by blast
qed

text \<open>A game only ever grows by moves, and never changes once it is over.\<close>

definition evolves :: "CaroGame \<Rightarrow> CaroGame \<Rightarrow> bool" where
  "evolves g h \<longleftrightarrow> h = g \<or> c_status g = ACTIVE \<and> length (c_moves g) \<le> length (c_moves h)
     \<and> take (length (c_moves g)) (c_moves h) = c_moves g \<and> c_playerX h = c_playerX g \<and> c_playerO h = c_playerO g
     \<and> c_mode h = c_mode g \<and> c_pot h = c_pot g \<and> c_betAmount h = c_betAmount g \<and> c_roomId h = c_roomId g"

lemma evolves_trans: "\<lbrakk>evolves g h; evolves h k\<rbrakk> \<Longrightarrow> evolves g k"
  unfolding evolves_def by (auto simp: min_def) (metis min.absorb1 take_take)

lemma caro_rule_evolves: "caro_rule g h \<Longrightarrow> evolves g h \<and> c_id h = c_id g"
  by (induction rule: caro_rule.induct) (auto simp: evolves_def rp_only_def)

section \<open>Every operation is a step of at most one game\<close>

definition idle :: "'a caro_st_scheme \<Rightarrow> 'a caro_st_scheme \<Rightarrow> bool" where
  "idle s t \<longleftrightarrow> caro_games t = caro_games s \<and> next_id s \<le> next_id t"

definition carries_out :: "oid \<Rightarrow> 'a caro_st_scheme \<Rightarrow> 'a caro_st_scheme \<Rightarrow> bool" where
  "carries_out i s t \<longleftrightarrow> (\<exists>g h. find_caro i s = Some g \<and> caro_rule g h
     \<and> caro_games t = caro_games (save_caro h s) \<and> next_id s \<le> next_id t)"

lemma carries_outI:
  assumes "find_caro i s = Some g" "ends_as k h s t" "\<And>h. rp_only k h \<Longrightarrow> caro_rule g h"
  shows "carries_out i s t"
  unfolding carries_out_def using assms
  by (intro exI [of _ g] exI [of _ h]) (auto simp: ends_as_def save_caro_def)

lemma idle_refl [simp]: "idle s s"
  by (simp add: idle_def)

lemma getCaro_cases:
  obtains (found) i g where "read_oid r = Some i" "find_caro i s = Some g" "getGameOrThrow r s = (Inr g, s)"
  | (missing) e where "getGameOrThrow r s = (Inl e, s)"
  by (cases "Option.bind (read_oid r) (\<lambda>i. find_caro i s)") (auto simp: getGameOrThrow_def bind_eq_Some_conv)

lemma move_effect_cases:
  assumes "move r u row col s = (x, t)"
  obtains (refused) e where "x = Inl e" "t = s"
  | (accepted) v i where "x = Inr v" "read_oid r = Some i" "carries_out i s t"
      "\<exists>g h. find_caro i s = Some g \<and> find_caro i t = Some h \<and> length (c_moves h) = Suc (length (c_moves g))"
proof (cases rule: getCaro_cases [of r s])
  case (found i g)
  show ?thesis
  proof (cases "caro_guard g u")
    case (Inl e)
    then show ?thesis using refused [of e] assms found by (auto simp: move_def await_def)
  next
    case (Inr mark)
    obtain res b where a: "applyMove (c_board g) row col mark = (res, b)" by fastforce
    note gd = caro_guardD [OF Inr]
    note rule = a [unfolded gd(2)]
    let ?h = "record_move g mark row col b (clock s)"
    have m: "(x, t) = (case res of
          Refused e \<Rightarrow> throw (BadRequest e) s
        | Win line \<Rightarrow> let (g, s) = finish (?h\<lparr>c_winningLine := Some line\<rparr>) u WIN s in return (caro_view g s) s
        | Draw \<Rightarrow> let (g, s) = finishDraw ?h s in return (caro_view g s) s
        | Placed \<Rightarrow>
            let g = ?h\<lparr>c_turn := (if mark = 1 then 2 else 1)\<rparr>;
                s = startTurnTimer r (save_caro g s);
                s = broadcast r (Caro_move u mark row col (c_turn g)) s
            in return (caro_view g s) s)"
      unfolding assms [symmetric] using found(3) Inr a
      by (simp add: move_def await_def Let_def cong: MoveResult.case_cong)
    have gi: "c_id g = i" using caro.look_SomeD [OF found(2)] by simp
    have saved: "\<exists>g h. find_caro i s = Some g \<and> find_caro i t = Some h \<and> length (c_moves h) = Suc (length (c_moves g))"
      if "caro_games t = caro_games (save_caro h s)" "c_id h = i" "length (c_moves h) = Suc (length (c_moves g))" for h
      using caro.look_docs [OF that(1), of i] caro.look_save [of h s i] found(2) that(2,3) by auto
    have ended: "\<exists>g h. find_caro i s = Some g \<and> find_caro i t = Some h \<and> length (c_moves h) = Suc (length (c_moves g))"
      if "ends_as k h s t" "c_id k = i" "length (c_moves k) = Suc (length (c_moves g))" for k h
      by (rule saved [of h]) (use that in \<open>auto simp: ends_as_def rp_only_def save_caro_def\<close>)
    show ?thesis
    proof (cases res)
      case (Refused e)
      then show ?thesis using refused m by simp
    next
      case (Win l)
      obtain g' t' where f: "finish (?h\<lparr>c_winningLine := Some l\<rparr>) u WIN s = (g', t')" by fastforce
      then have x: "x = Inr (caro_view g' t)" "t = t'" using m Win by (simp_all add: Let_def)
      note e = finish_ends [OF f, folded x(2)]
      have "carries_out i s t"
        by (rule carries_outI [OF found(2) e]) (rule caro_rule.win [OF gd(1) rule [unfolded Win]], use gd(2,3) in simp)
      then show ?thesis using accepted [OF x(1) found(1)] ended [OF e] gi by simp
    next
      case Draw
      obtain g' t' where f: "finishDraw ?h s = (g', t')" by fastforce
      then have x: "x = Inr (caro_view g' t)" "t = t'" using m Draw by (simp_all add: Let_def)
      note e = finishDraw_ends [OF f, folded x(2)]
      have "carries_out i s t"
        by (rule carries_outI [OF found(2) e]) (rule caro_rule.draw [OF gd(1) rule [unfolded Draw]], use gd(2) in simp)
      then show ?thesis using accepted [OF x(1) found(1)] ended [OF e] gi by simp
    next
      case Placed
      let ?g = "?h\<lparr>c_turn := (if mark = 1 then 2 else 1)\<rparr>"
      have x: "\<exists>v. x = Inr v" "caro_games t = caro_games (save_caro ?g s)" "next_id t = next_id s"
        using m Placed by (simp_all add: Let_def)
      have "caro_rule g ?g" using caro_rule.place [OF gd(1) rule [unfolded Placed]] gd(2) by simp
      then have "carries_out i s t" unfolding carries_out_def using found(2) x(2,3) by auto
      then show ?thesis using accepted found(1) saved [OF x(2)] x(1) gi by auto
    qed
  qed
qed (use refused assms in \<open>auto simp: move_def await_def\<close>)

lemma finish_carries_out:
  assumes "find_caro i s = Some g" "\<And>h. rp_only (end_doc (Some w) e (clock s) g) h \<Longrightarrow> caro_rule g h"
  shows "carries_out i s (snd (finish g w e s))"
proof -
  obtain g' t where f: "finish g w e s = (g', t)" by fastforce
  show ?thesis using carries_outI [OF assms(1) finish_ends [OF f] assms(2)] f by simp
qed

lemma resign_effect:
  assumes "resign r u s = (x, t)"
  obtains (refused) e where "x = Inl e" "t = s" | (accepted) v i where "x = Inr v" "read_oid r = Some i" "carries_out i s t"
proof (cases rule: getCaro_cases [of r s])
  case (found i g)
  show ?thesis
  proof (cases "c_status g = ACTIVE \<and> markOf g u \<noteq> 0")
    case True
    have "carries_out i s (snd (finish g (opponentOf g u) RESIGN s))"
      by (rule finish_carries_out [OF found(2)]) (rule give_up, use True in auto)
    then show ?thesis using accepted found(1,3) True assms by (auto simp: resign_def await_def split_beta)
  qed (use refused found(3) assms in \<open>auto simp: resign_def await_def split: if_splits\<close>)
qed (use refused assms in \<open>auto simp: resign_def await_def\<close>)

lemma timers_effect:
  "idle s (forfeitDisconnected r u s) \<or> (\<exists>i. carries_out i s (forfeitDisconnected r u s))"
  "idle s (onTurnTimeout r s) \<or> (\<exists>i. carries_out i s (onTurnTimeout r s))"
proof -
  have "carries_out i s (snd (finish g (opponentOf g u) DISCONNECT s))"
    if "find_caro i s = Some g" "c_status g = ACTIVE" for i g
    by (rule finish_carries_out [OF that(1)]) (rule give_up, use that in auto)
  then show "idle s (forfeitDisconnected r u s) \<or> (\<exists>i. carries_out i s (forfeitDisconnected r u s))"
    unfolding forfeitDisconnected_def by (auto simp: bind_eq_Some_conv split: option.split)
  have t: "carries_out i s (snd (finish g w TIMEOUT s))"
    if "find_caro i s = Some g" "c_status g = ACTIVE" "w = opponentOf g (if c_turn g = 1 then c_playerX g else c_playerO g)" for i g w
    by (rule finish_carries_out [OF that(1)]) (rule time_out, use that in auto)
  show "idle s (onTurnTimeout r s) \<or> (\<exists>i. carries_out i s (onTurnTimeout r s))"
  proof (cases "Option.bind (read_oid r) (\<lambda>i. find_caro i s)")
    case (Some g)
    then obtain i where i: "find_caro i s = Some g" by (auto simp: bind_eq_Some_conv)
    show ?thesis
    proof (cases "c_status g = ACTIVE")
      case True
      then show ?thesis using t [OF i True refl] Some unfolding onTurnTimeout_def Let_def
        by (simp only: option.case simp_thms if_False) blast
    qed (use Some in \<open>simp add: onTurnTimeout_def\<close>)
  qed (simp add: onTurnTimeout_def)
qed

lemma connection_idle: "idle s (onDisconnect r u s)" "idle s (onReconnect r u s)"
  by (auto simp: idle_def onDisconnect_def onReconnect_def Let_def split: option.split)

lemma new_caro_ok: "x \<noteq> o' \<Longrightarrow> caro_ok (new_caro i x o' mode bet room)"
  by (simp add: new_caro_def caro_ok_def moves_ok_def running_ok_def replay_def mark_at_def no_five_createBoard)

inductive caro_step :: "'a caro_st_scheme \<Rightarrow> 'a caro_st_scheme \<Rightarrow> bool" where
  create: "x \<noteq> o' \<Longrightarrow> caro_step s (snd (createGame x o' opts s))"
| moves: "caro_step s (snd (move r u row col s))"
| resigns: "caro_step s (snd (resign r u s))"
| times_out: "caro_step s (onTurnTimeout r s)"
| disconnects: "caro_step s (onDisconnect r u s)"
| reconnects: "caro_step s (onReconnect r u s)"
| forfeits: "caro_step s (forfeitDisconnected r u s)"

text \<open>So a step leaves the games alone, adds a new one, or takes one of them through one step of the rules.\<close>

lemma caro_step_cases:
  assumes "caro_step s t"
  obtains (idle) "idle s t" | (rule) i where "carries_out i s t"
  | (new) g where "caro_games t = caro_games s @ [g]" "c_id g = next_id s" "next_id t = Suc (next_id s)" "caro_ok g"
  using assms
proof (cases rule: caro_step.cases)
  case (create x o' opts)
  then show ?thesis using new [of "new_caro (next_id s) x o' (mode_of opts) (caro_bet opts) (co_roomId opts)"] new_caro_ok
    by (simp add: createGame_def fresh_id_def Let_def) (simp add: new_caro_def)
next
  case (moves r u row col)
  obtain x where m: "move r u row col s = (x, t)" using moves by (cases "move r u row col s") simp
  then show ?thesis by (cases rule: move_effect_cases) (use idle rule in auto)
next
  case (resigns r u)
  obtain x where m: "resign r u s = (x, t)" using resigns by (cases "resign r u s") simp
  then show ?thesis by (cases rule: resign_effect) (use idle rule in auto)
next
  case (times_out r)
  then show ?thesis using timers_effect(2) idle rule by blast
next
  case (forfeits r u)
  then show ?thesis using timers_effect(1) idle rule by blast
qed (use connection_idle idle in blast)+

lemma caro_step_ok:
  assumes "caro_step s t" "caros_ok s"
  shows "caros_ok t"
  using assms(1)
proof (cases rule: caro_step_cases)
  case (rule i)
  then obtain g h where r: "find_caro i s = Some g" "caro_rule g h" "caro_games t = caro_games (save_caro h s)" "next_id s \<le> next_id t"
    unfolding carries_out_def by blast
  have "caro_ok g" "c_id g < next_id s" using caros_okD [OF assms(2) r(1)] by blast+
  then show ?thesis using caros_ok_save [OF assms(2) _ _ r(3,4)] caro_rule_ok [OF r(2)] caro_rule_evolves [OF r(2)] by simp
next
  case (new g)
  then show ?thesis using stored_ok_append [of c_id caro_ok "next_id s" "caro_games s" g "Suc (next_id s)"] assms(2)
    by (simp add: caros_ok_def)
qed (use assms(2) in \<open>auto simp: idle_def intro: caros_ok_same\<close>)

text \<open>
  Whatever the players, the clocks and the connections do, in any order, every stored game of Caro
  stays sound: the board is the replay of the recorded moves, which took different empty cells in
  turns; a running game has no winner and, if its moves were to whole coordinates, nobody has five in
  a row; a game recorded as won has a line of at least five cells of the player who moved last; a draw is
  a full board; and a timeout is won by the player who was not to move.
\<close>

theorem caro_games_stay_sound:
  assumes "caros_ok s" "caro_step\<^sup>*\<^sup>* s t"
  shows "caros_ok t"
  using assms(2) by (induction rule: rtranclp_induct) (use assms(1) caro_step_ok in auto)

section \<open>Games end and stay ended\<close>

lemma caro_step_evolves:
  assumes "caro_step s t" "caros_ok s" "find_caro i s = Some g"
  shows "\<exists>h. find_caro i t = Some h \<and> evolves g h"
  using assms(1)
proof (cases rule: caro_step_cases)
  case idle
  then show ?thesis using caro.look_docs [of t s i] assms(3) by (auto simp: idle_def evolves_def)
next
  case (rule j)
  then obtain k h where r: "find_caro j s = Some k" "caro_rule k h" "caro_games t = caro_games (save_caro h s)"
    unfolding carries_out_def by blast
  have "c_id h = j" using caro.look_SomeD [OF r(1)] caro_rule_evolves [OF r(2)] by simp
  then have "find_caro i t = (if i = j then Some h else find_caro i s)"
    using caro.look_docs [OF r(3)] caro.look_save [of h s i] r(1) by simp
  then show ?thesis using assms(3) r(1) caro_rule_evolves [OF r(2)] by (cases "i = j") (auto simp: evolves_def)
next
  case (new h)
  then show ?thesis using assms(3) by (auto simp: caro.look find_append evolves_def)
qed

text \<open>
  C26: The result of a game is final and its record only grows: whatever happens later, a stored game is
  still stored with the same players and stakes and with its moves as a beginning of the later
  ones, and once it is over nothing of it changes any more.
\<close>

theorem caro_results_final:
  assumes "caros_ok s" "find_caro i s = Some g" "caro_step\<^sup>*\<^sup>* s t"
  shows "\<exists>h. find_caro i t = Some h \<and> evolves g h \<and> (c_status g \<noteq> ACTIVE \<longrightarrow> h = g)"
proof -
  have "caros_ok t \<and> (\<exists>h. find_caro i t = Some h \<and> evolves g h)"
    using assms(3)
  proof (induction rule: rtranclp_induct)
    case base
    then show ?case using assms(1,2) by (auto simp: evolves_def)
  next
    case (step t u)
    then show ?case using caro_step_ok caro_step_evolves evolves_trans by blast
  qed
  then show ?thesis by (auto simp: evolves_def)
qed

text \<open>A run in which \<open>n\<close> moves of game \<open>i\<close> are accepted, with anything else in between.\<close>

inductive caro_run :: "oid \<Rightarrow> nat \<Rightarrow> 'a caro_st_scheme \<Rightarrow> 'a caro_st_scheme \<Rightarrow> bool" for i where
  start: "caro_run i 0 s s"
| other: "\<lbrakk>caro_run i n s t; caro_step t u\<rbrakk> \<Longrightarrow> caro_run i n s u"
| accepted: "\<lbrakk>caro_run i n s t; read_oid r = Some i; move r p row col t = (Inr v, u)\<rbrakk> \<Longrightarrow> caro_run i (Suc n) s u"

text \<open>
  C25: No game takes more than 225 moves: in any run from a sound state, whatever else happens, the
  moves a game has taken and the moves accepted for it add up to at most the cells of the board.
\<close>

theorem caro_game_ends:
  assumes "caros_ok s" "find_caro i s = Some g" "caro_run i n s t"
  shows "length (c_moves g) + n \<le> 225"
proof -
  have "caros_ok t \<and> (\<exists>h. find_caro i t = Some h \<and> length (c_moves g) + n \<le> length (c_moves h))"
    using assms(3,1,2)
  proof (induction rule: caro_run.induct)
    case (other n s t u)
    then obtain h where h: "find_caro i t = Some h" "length (c_moves g) + n \<le> length (c_moves h)" "caros_ok t" by blast
    obtain k where "find_caro i u = Some k" "evolves h k" using caro_step_evolves [OF other.hyps(2) h(3,1)] by blast
    then show ?case using h caro_step_ok [OF other.hyps(2) h(3)] by (auto simp: evolves_def)
  next
    case (accepted n s t r p row col v u)
    then obtain h where h: "find_caro i t = Some h" "length (c_moves g) + n \<le> length (c_moves h)" "caros_ok t" by blast
    have "caro_step t u" using caro_step.moves [of t r p row col] accepted.hyps(3) by simp
    then have "caros_ok u" using caro_step_ok h(3) by blast
    moreover have "\<exists>k. find_caro i u = Some k \<and> length (c_moves k) = Suc (length (c_moves h))"
      using accepted.hyps(3)
    proof (cases rule: move_effect_cases)
      case (accepted v j)
      then show ?thesis using h(1) \<open>read_oid r = Some i\<close> by auto
    qed auto
    ultimately show ?case using h(2) by auto
  qed auto
  then obtain h where h: "caros_ok t" "find_caro i t = Some h" "length (c_moves g) + n \<le> length (c_moves h)" by blast
  then have "moves_ok h" using caros_okD [OF h(1,2)] by (simp add: caro_ok_def)
  then show ?thesis using moves_okD(3) h(3) by fastforce
qed

section \<open>Coins\<close>

lemma paid_points2:
  fixes s :: "'a rooms_st_scheme"
  assumes "ledger_ok s"
  shows "paid 0 s (snd (addRankPoints v e q (snd (addRankPoints u d r s))))"
  using paid_trans [OF paid_points [OF assms] paid_points [OF paid_ledger [OF paid_points [OF assms]]]] by simp

lemma winner_rewards_paid:
  fixes s :: "'a rooms_st_scheme"
  assumes "ledger_ok s" "find_user w s \<noteq> None" "0 \<le> c_pot g" "c_mode g \<noteq> WAGER \<longrightarrow> c_pot g = 0"
    "winner_rewards g w s = (g', t)"
  shows "paid (c_pot g) s t"
  using assms paid_payout [OF assms(1,3,2)] paid_points2 [OF assms(1)] paid_refl [OF assms(1)]
  by (auto simp: winner_rewards_def Let_def split_beta split: if_splits)

lemma draw_rewards_paid:
  fixes s :: "'a rooms_st_scheme"
  assumes "ledger_ok s" "find_user (c_playerX g) s \<noteq> None" "find_user (c_playerO g) s \<noteq> None" "0 \<le> c_betAmount g"
    "c_pot g = 2 * c_betAmount g" "c_mode g \<noteq> WAGER \<longrightarrow> c_pot g = 0" "draw_rewards g s = (g', t)"
  shows "paid (c_pot g) s t"
proof -
  note x = paid_refund [OF assms(1,4,2), of "caro_ref g"]
  have both: "paid (2 * c_betAmount g) s (best_effort (refund (c_playerO g) (c_betAmount g) (caro_ref g))
       (best_effort (refund (c_playerX g) (c_betAmount g) (caro_ref g)) s))"
    using paid_trans [OF x paid_refund [OF paid_ledger [OF x] assms(4) paid_account [OF x assms(3)]]] by simp
  show ?thesis using assms both paid_points2 [OF assms(1)] paid_refl [OF assms(1)]
    by (auto simp: draw_rewards_def Let_def split_beta split: if_splits)
qed

lemma publish_conserves:
  assumes "paid d s u" "c_roomId g = Some i" "find_room i s = Some room" "r_status room \<noteq> CLOSED" "r_pot room = d"
  shows "coins (publish_caro g u) + escrow (publish_caro g u) = coins s + escrow s \<and> ledger_ok (publish_caro g u)
     \<and> (\<exists>c. find_room i (publish_caro g u) = Some c \<and> r_status c = CLOSED)"
proof -
  define v where "v = broadcast (Hex (c_id g)) (Caro_end (caro_view g (save_caro g u))) (save_caro g u)"
  have "users v = users u" "txs v = txs u" "next_id v = next_id u" "rooms v = rooms u"
    by (simp_all add: v_def broadcast_def save_caro_def)
  note c = close_conserves [OF assms(1) this assms(3-5)]
  have "publish_caro g u = close_room i v" using assms(2) by (simp add: publish_caro_def Let_def v_def)
  then show ?thesis using c by simp
qed

lemma clearTimer_money:
  "ledger_ok (clearTimer r s) = ledger_ok s" "find_user u (clearTimer r s) = find_user u s"
  "coins (clearTimer r s) = coins s" "escrow (clearTimer r s) = escrow s" "find_room i (clearTimer r s) = find_room i s"
  by (simp_all add: clearTimer_def ledger_ok_def users_ok_def books_ok_def booked_def find_user_def coins_def escrow_def find_room_def)

text \<open>
  However a game of Caro ends, its pot goes from its room to the players: after a win, a resignation,
  a timeout or a disconnect the winner has it, after a draw each player has the stake back, and the
  coins of all users and of the open rooms together are what they were. (The players have accounts,
  the pot is both stakes and is the room's.)
\<close>

theorem caro_end_conserves_coins:
  assumes "ledger_ok s" "find_user (c_playerX g) s \<noteq> None" "find_user (c_playerO g) s \<noteq> None"
    "0 \<le> c_betAmount g" "c_pot g = 2 * c_betAmount g" "c_mode g \<noteq> WAGER \<longrightarrow> c_pot g = 0"
    "c_roomId g = Some i" "find_room i s = Some room" "r_status room \<noteq> CLOSED" "r_pot room = c_pot g"
    "w = c_playerX g \<or> w = c_playerO g"
    "t = snd (finish g w e s) \<or> t = snd (finishDraw g s)"
  shows "coins t + escrow t = coins s + escrow s \<and> ledger_ok t \<and> (\<exists>c. find_room i t = Some c \<and> r_status c = CLOSED)"
proof -
  let ?s = "clearTimer (Hex (c_id g)) s"
  note m = clearTimer_money [where r = "Hex (c_id g)" and s = s]
  have pot: "0 \<le> c_pot g" using assms(4,5) by simp
  have acc: "find_user w ?s \<noteq> None" using assms(2,3,11) m(2) by auto
  from assms(12) show ?thesis
  proof
    assume t: "t = snd (finish g w e s)"
    obtain h u where h: "winner_rewards (end_doc (Some w) e (clock s) g) w ?s = (h, u)" by fastforce
    then have "t = publish_caro h u" using t by (simp add: finish_def Let_def)
    moreover have "paid (c_pot g) ?s u"
      using winner_rewards_paid [OF _ acc _ _ h] assms(1,6) pot m(1) by simp
    moreover have "c_roomId h = Some i" using winner_rewards_frame [OF h] assms(7) by (auto simp: rp_only_def)
    ultimately show ?thesis using publish_conserves [of "c_pot g" ?s u h i room] assms(8-10) m(3-5) by simp
  next
    assume t: "t = snd (finishDraw g s)"
    obtain h u where h: "draw_rewards (end_doc None DRAW (clock s) g) ?s = (h, u)" by fastforce
    then have "t = publish_caro h u" using t by (simp add: finishDraw_def Let_def)
    moreover have "paid (c_pot g) ?s u"
      using draw_rewards_paid [OF _ _ _ _ _ _ h] assms(1-6) m(1,2) by simp
    moreover have "c_roomId h = Some i" using draw_rewards_frame [OF h] assms(7) by (auto simp: rp_only_def)
    ultimately show ?thesis using publish_conserves [of "c_pot g" ?s u h i room] assms(8-10) m(3-5) by simp
  qed
qed

section \<open>Where the service falls short\<close>

text \<open>
  A move sent with another spelling of the game identifier (upper-case digits, say) does not
  restart the clock of the turn: the timer of the usual spelling keeps running, now against the
  opponent, and when it fires the mover wins on time.
\<close>

theorem respelled_move_steals_the_clock:
  assumes "caros_ok s" "move (Alt i spelling) u row col s = (Inr v, t)" "cv_status v = ACTIVE"
  shows "caro_timers t (Hex i) = caro_timers s (Hex i)
     \<and> (\<exists>h. find_caro i (onTurnTimeout (Hex i) t) = Some h \<and> c_winner h = Some u \<and> c_endReason h = Some TIMEOUT)"
proof (cases rule: getCaro_cases [of "Alt i spelling" s])
  case (found j g)
  then have fg: "find_caro i s = Some g" by simp
  have gi: "c_id g = i" using caro.look_SomeD [OF fg] by simp
  obtain mark where gd: "caro_guard g u = Inr mark"
    using assms(2) found(3) by (cases "caro_guard g u") (auto simp: move_def await_def)
  obtain res b where a: "applyMove (c_board g) row col mark = (res, b)" by fastforce
  let ?h = "record_move g mark row col b (clock s)"
  have res: "res = Placed"
  proof -
    have fin: "finish k w e s = (h, t') \<Longrightarrow> c_status h = FINISHED" "finishDraw k s = (h, t') \<Longrightarrow> c_status h = FINISHED"
      for k w e h t'
      using finish_ends [of k w e s h t'] finishDraw_ends [of k s h t'] by (auto simp: ends_as_def rp_only_def)
    show ?thesis using assms(2,3) found(3) gd a
      by (cases res) (auto simp: move_def await_def Let_def caro_view_def split: prod.splits dest!: fin)
  qed
  define k where "k = ?h\<lparr>c_turn := (if mark = 1 then 2 else 1)\<rparr>"
  have t: "t = broadcast (Alt i spelling) (Caro_move u mark row col (c_turn k)) (startTurnTimer (Alt i spelling) (save_caro k s))"
    using assms(2) found(3) gd a res by (simp add: move_def await_def Let_def k_def)
  have clock: "caro_timers t (Hex i) = caro_timers s (Hex i)"
    by (simp add: t broadcast_def startTurnTimer_def clearTimer_def save_caro_def)
  note g = caro_guardD [OF gd]
  have ok: "moves_ok g" "running_ok g" using caros_okD [OF assms(1) fg] caro_ok_active g(1) by blast+
  have kf: "find_caro i t = Some k" "c_status k = ACTIVE" "c_id k = i"
    using caro.look_docs [of t "save_caro k s" i] caro.look_save [of k s i] fg gi g(1) by (simp_all add: t k_def)
  have xo: "c_playerX g \<noteq> c_playerO g" using ok(1) by (simp add: moves_ok_def)
  have w: "opponentOf k (if c_turn k = 1 then c_playerX k else c_playerO k) = u"
    using running_turn [OF ok(2)] g(2,3) xo by (auto simp: k_def opponentOf_def player_of_def)
  obtain h t' where f: "finish k u TIMEOUT t = (h, t')" by fastforce
  have o': "onTurnTimeout (Hex i) t = t'" using kf w f by (simp add: onTurnTimeout_def Let_def)
  have e: "ends_as (end_doc (Some u) TIMEOUT (clock t) k) h t t'" by (rule finish_ends [OF f])
  have h: "c_id h = i" "c_winner h = Some u" "c_endReason h = Some TIMEOUT" "caro_games t' = caro_games (save_caro h t)"
    using e kf(3) by (auto simp: ends_as_def rp_only_def save_caro_def)
  have "find_caro i t' = Some h"
    using caro.look_docs [OF h(4), of i] caro.look_save [of h t i] kf(1) h(1) by simp
  then show ?thesis using clock o' h by auto
qed (use assms(2) in \<open>auto simp: move_def await_def\<close>)

section \<open>Examples\<close>

definition first_game :: CaroGame where
  "first_game = new_caro 26 1 2 WAGER 10 (Some 20)"

definition in_play_room :: GameRoom where
  "in_play_room = demo_room\<lparr>r_status := IN_PROGRESS\<rparr>"

definition caro0 :: caro_st where
  "caro0 = rooms_st.extend (lobby0 [in_play_room])
     \<lparr>caro_games = [first_game], caro_timers = Map.empty, caro_dcTimers = Map.empty, caro_log = []\<rparr>"

lemma caro0_frame [simp]:
  "caro_games caro0 = [first_game]" "next_id caro0 = 30" "users caro0 = users wallet0" "txs caro0 = txs wallet0"
  "rooms caro0 = [in_play_room]" "find_user u caro0 = find_user u wallet0"
  by (simp_all add: caro0_def rooms_st.extend_def lobby0_frame lobby0_defs wallet0_defs find_user_def)

lemma first_game_id [simp]: "c_id first_game = 26"
  by (simp add: first_game_def new_caro_def)

lemma caro0_ok: "caros_ok caro0"
proof -
  have "caro_ok first_game" unfolding first_game_def by (rule new_caro_ok) simp
  then show ?thesis by (simp add: caros_ok_def stored_ok_def)
qed

lemma caro0_game: "find_caro 26 caro0 = Some first_game"
  by (simp add: find_caro_def)

lemma first_stone: "applyMove createBoard 7 7 1 = (Placed, createBoard[112 := 1])"
  by code_simp

lemma first_move:
  assumes "read_oid r = Some 26"
  shows "\<exists>v t. move r 1 7 7 caro0 = (Inr v, t) \<and> cv_status v = ACTIVE"
proof -
  have g: "c_board first_game = createBoard" "caro_guard first_game 1 = Inr 1"
    by (simp_all add: first_game_def new_caro_def caro_guard_def markOf_def)
  have "getGameOrThrow r caro0 = (Inr first_game, caro0)" using assms by (simp add: getGameOrThrow_def caro0_game)
  then show ?thesis
    using g first_stone by (simp add: move_def await_def Let_def caro_view_def) (simp add: first_game_def new_caro_def)
qed

theorem caro_games_stay_sound_witness:
  "caros_ok (onTurnTimeout (Hex 26) (snd (move (Hex 26) 1 7 7 caro0)))"
proof -
  let ?t = "snd (move (Hex 26) 1 7 7 caro0)"
  have "caro_step\<^sup>*\<^sup>* caro0 ?t" by (rule r_into_rtranclp) (rule caro_step.moves)
  then have "caro_step\<^sup>*\<^sup>* caro0 (onTurnTimeout (Hex 26) ?t)"
    by (rule rtranclp.rtrancl_into_rtrancl) (rule caro_step.times_out)
  then show ?thesis by (rule caro_games_stay_sound [OF caro0_ok])
qed

theorem caro_results_final_witness:
  "\<exists>h. find_caro 26 (snd (resign (Hex 26) 2 caro0)) = Some h \<and> evolves first_game h"
proof -
  have "caro_step\<^sup>*\<^sup>* caro0 (snd (resign (Hex 26) 2 caro0))" by (rule r_into_rtranclp) (rule caro_step.resigns)
  then show ?thesis using caro_results_final [OF caro0_ok caro0_game] by blast
qed

theorem caro_game_ends_witness: "\<exists>t. caro_run 26 1 caro0 t \<and> length (c_moves first_game) + 1 \<le> 225"
proof -
  obtain v t where m: "move (Hex 26) 1 7 7 caro0 = (Inr v, t)" using first_move [of "Hex 26"] by auto
  have r: "caro_run 26 1 caro0 t"
    using caro_run.accepted [OF caro_run.start [of 26 caro0] _ m] by simp
  then show ?thesis using caro_game_ends [OF caro0_ok caro0_game r] by blast
qed

theorem caro_end_conserves_coins_witness:
  "coins (snd (finishDraw first_game caro0)) + escrow (snd (finishDraw first_game caro0)) = coins caro0 + escrow caro0"
proof -
  have l: "ledger_ok caro0" using wallet0_ok by (rule ledger_ok_frame) (simp_all add: wallet0_defs)
  have o': "c_playerX first_game = 1" "c_playerO first_game = 2" "c_betAmount first_game = 10" "c_pot first_game = 20"
    "c_mode first_game = WAGER" "c_roomId first_game = Some 20"
    by (simp_all add: first_game_def new_caro_def)
  have r: "find_room 20 caro0 = Some in_play_room" "r_status in_play_room \<noteq> CLOSED" "r_pot in_play_room = 20"
    by (simp_all add: find_room_def in_play_room_def demo_room_def)
  show ?thesis
    using caro_end_conserves_coins [OF l, where g = first_game and i = 20 and room = in_play_room and w = 1 and e = RESIGN
        and t = "snd (finishDraw first_game caro0)"] o' r wallet0_find by simp
qed

theorem respelled_move_steals_the_clock_witness:
  "\<exists>h. find_caro 26 (onTurnTimeout (Hex 26) (snd (move (Alt 26 ''00000000000000000000001A'') 1 7 7 caro0))) = Some h
     \<and> c_winner h = Some 1"
proof -
  obtain v t where m: "move (Alt 26 ''00000000000000000000001A'') 1 7 7 caro0 = (Inr v, t)" "cv_status v = ACTIVE"
    using first_move [of "Alt 26 ''00000000000000000000001A''"] by auto
  then show ?thesis using respelled_move_steals_the_clock [OF caro0_ok m] by auto
qed

end
