(* ===== verification/QueueLaws.thy ===== *)
theory QueueLaws
  imports Matchmaking
begin

text \<open>
  What the matchmaking queues promise: whatever the clients do and however their requests interleave, a
  place in a queue is handed out at most once; the opponent found is the nearest, the table found the
  oldest, and a player of Bomberman waits for one table size at a time.
\<close>

section \<open>The contract of a queue\<close>

text \<open>
  The contract of the three scripts: joining adds a single place, leaving adds none, and a claim hands out
  places that were there and takes them away.
\<close>

datatype ('e, 'd, 'c) queue_op = Enqueue 'e | Dequeue 'd | Claim 'c

fun serve :: "('e \<Rightarrow> 'q \<Rightarrow> 'q) \<Rightarrow> ('d \<Rightarrow> 'q \<Rightarrow> 'q) \<Rightarrow> ('c \<Rightarrow> 'q \<Rightarrow> 'k set \<times> 'q)
    \<Rightarrow> ('e, 'd, 'c) queue_op list \<Rightarrow> 'q \<Rightarrow> 'k set list \<times> 'q" where
  "serve enq deq claim [] q = ([], q)"
| "serve enq deq claim (Enqueue e # ops) q = serve enq deq claim ops (enq e q)"
| "serve enq deq claim (Dequeue d # ops) q = serve enq deq claim ops (deq d q)"
| "serve enq deq claim (Claim c # ops) q =
     (let (K, q) = claim c q; (Ks, q) = serve enq deq claim ops q in (K # Ks, q))"

text \<open>How often a place was handed out, and how often it was taken.\<close>

definition handed :: "'k \<Rightarrow> 'k set list \<Rightarrow> nat" where
  "handed k Ks = length (filter (\<lambda>K. k \<in> K) Ks)"

definition joined :: "('e \<Rightarrow> 'k) \<Rightarrow> 'k \<Rightarrow> ('e, 'd, 'c) queue_op list \<Rightarrow> nat" where
  "joined place k ops = length (filter (\<lambda>x. case x of Enqueue e \<Rightarrow> place e = k | _ \<Rightarrow> False) ops)"

locale claim_queue =
  fixes waiting :: "'q \<Rightarrow> 'k set"
    and place :: "'e \<Rightarrow> 'k"
    and enq :: "'e \<Rightarrow> 'q \<Rightarrow> 'q"
    and deq :: "'d \<Rightarrow> 'q \<Rightarrow> 'q"
    and claim :: "'c \<Rightarrow> 'q \<Rightarrow> 'k set \<times> 'q"
  assumes waiting_enq: "waiting (enq e q) \<subseteq> insert (place e) (waiting q)"
    and waiting_deq: "waiting (deq d q) \<subseteq> waiting q"
    and claim_taken: "fst (claim c q) \<subseteq> waiting q"
    and waiting_claim: "waiting (snd (claim c q)) \<subseteq> waiting q - fst (claim c q)"
begin

lemma handed_at_most_joined:
  "handed k (fst (serve enq deq claim ops q)) \<le> joined place k ops + (if k \<in> waiting q then 1 else 0)"
proof (induction ops arbitrary: q)
  case (Cons x ops)
  show ?case
  proof (cases x)
    case (Enqueue e)
    then show ?thesis using Cons [of "enq e q"] waiting_enq [of e q] by (auto simp: joined_def split: if_splits)
  next
    case (Dequeue d)
    then show ?thesis using Cons [of "deq d q"] waiting_deq [of d q] by (auto simp: joined_def split: if_splits)
  next
    case (Claim c)
    then show ?thesis using Cons [of "snd (claim c q)"] claim_taken [of c q] waiting_claim [of c q]
      by (auto simp: handed_def joined_def split_beta split: if_splits)
  qed
qed (simp add: handed_def joined_def)

end

section \<open>The three queues keep it\<close>

text \<open>
  A claim is the script of a service on the players its caller chose, however stale that choice is.
\<close>

definition cq_claims :: "oid \<times> oid \<Rightarrow> CaroQueue \<Rightarrow> oid set \<times> CaroQueue" where
  "cq_claims p q = (let (ok, q) = cq_claim (fst p) (snd p) q in (if ok then {fst p, snd p} else {}, q))"

definition tq_claims :: "nat \<Rightarrow> TienLenQueue \<Rightarrow> (nat \<times> oid) set \<times> TienLenQueue" where
  "tq_claims n q = (let (us, q) = tq_claim n q in (Pair n ` set us, q))"

definition bq_claims :: "nat \<times> oid list \<Rightarrow> BombermanQueue \<Rightarrow> (nat \<times> oid) set \<times> BombermanQueue" where
  "bq_claims p q = (let (ok, q) = bq_claim (fst p) (snd p) q in (if ok then Pair (fst p) ` set (snd p) else {}, q))"

definition seats_of :: "(nat \<Rightarrow> zset) \<Rightarrow> (nat \<times> oid) set" where
  "seats_of f = {(n, u). u \<in> zmembers (f n)}"

lemma seats_of_upd: "seats_of (f(n := z)) = {(m, u). m \<noteq> n \<and> (m, u) \<in> seats_of f} \<union> Pair n ` zmembers z"
  by (auto simp: seats_of_def split: if_splits)

lemma tq_dequeue_set: "(n, v) \<in> seats_of (tq_set (tq_dequeue u q)) \<longleftrightarrow> (n, v) \<in> seats_of (tq_set q) \<and> (n \<in> set TABLE_SIZES \<longrightarrow> v \<noteq> u)"
  by (auto simp: tq_dequeue_def TABLE_SIZES_def seats_of_def)

lemma bq_dequeue_sub: "seats_of (bq_set (bq_dequeue u q)) \<subseteq> seats_of (bq_set q)"
  by (auto simp: bq_dequeue_def TABLE_SIZES_def seats_of_def Let_def split: option.splits if_splits)

interpretation cq: claim_queue "\<lambda>q. zmembers (cq_set q)" "\<lambda>(u, rp, sock, now). u" "\<lambda>(u, rp, sock, now). cq_enqueue u rp sock now"
  cq_dequeue cq_claims
proof (unfold_locales, goal_cases)
  case (3 c q)
  then show ?case by (auto simp: cq_claims_def cq_claim_def zscore_None)
next
  case (4 c q)
  then show ?case by (auto simp: cq_claims_def cq_claim_def)
qed (auto simp: cq_enqueue_def cq_dequeue_def)

lemma claimed_first: "(us, q') = tq_claim n q \<Longrightarrow> set us \<subseteq> zmembers (tq_set q n)"
  by (auto simp: tq_claim_def Let_def zmembers_def split: if_splits dest!: in_set_takeD)

interpretation tq: claim_queue "\<lambda>q. seats_of (tq_set q)" "\<lambda>(n, u, sock, now). (n, u)" "\<lambda>(n, u, sock, now). tq_enqueue n u sock now"
  tq_dequeue tq_claims
proof (unfold_locales, goal_cases)
  case (2 d q)
  then show ?case by (auto simp: tq_dequeue_set)
next
  case (3 c q)
  then show ?case using claimed_first [of "fst (tq_claim c q)" "snd (tq_claim c q)" c q]
    by (auto simp: tq_claims_def split_beta seats_of_def)
next
  case (4 c q)
  then show ?case by (auto simp: tq_claims_def tq_claim_def Let_def seats_of_upd) (auto simp: seats_of_def)
qed (auto simp: tq_enqueue_def seats_of_def split: if_splits)

interpretation bq: claim_queue "\<lambda>q. seats_of (bq_set q)" "\<lambda>(u, n, rp). (n, u)" "\<lambda>(u, n, rp). bq_enqueue u n rp"
  bq_dequeue bq_claims
proof (unfold_locales, goal_cases)
  case (1 e q)
  obtain u n rp where e: "e = (u, n, rp)" by (cases e) auto
  show ?case using bq_dequeue_sub [of u q] by (auto simp: e bq_enqueue_def Let_def seats_of_upd) (auto simp: seats_of_def)
next
  case (2 d q)
  then show ?case by (rule bq_dequeue_sub)
next
  case (3 c q)
  then show ?case by (auto simp: bq_claims_def bq_claim_def zscore_None seats_of_def split: if_splits)
next
  case (4 c q)
  then show ?case by (auto simp: bq_claims_def bq_claim_def seats_of_upd split: if_splits) (auto simp: seats_of_def)
qed

section \<open>What a match picks\<close>

text \<open>
  C19: The queues of the three games hand out each place once: through any interleaving of joining,
  leaving and claiming by any number of servers, with claims that rest on stale reads, a player is given to
  matches at most as many times as the player joined.
\<close>

theorem queue_place_handed_once:
  "handed u (fst (serve (\<lambda>(u, rp, sock, now). cq_enqueue u rp sock now) cq_dequeue cq_claims caro_ops cq))
       \<le> joined (\<lambda>(u, rp, sock, now). u) u caro_ops + (if u \<in> zmembers (cq_set cq) then 1 else 0)
   \<and> handed (n, u) (fst (serve (\<lambda>(n, u, sock, now). tq_enqueue n u sock now) tq_dequeue tq_claims tienlen_ops tq))
       \<le> joined (\<lambda>(n, u, sock, now). (n, u)) (n, u) tienlen_ops + (if u \<in> zmembers (tq_set tq n) then 1 else 0)
   \<and> handed (n, u) (fst (serve (\<lambda>(u, n, rp). bq_enqueue u n rp) bq_dequeue bq_claims bomber_ops bq))
       \<le> joined (\<lambda>(u, n, rp). (n, u)) (n, u) bomber_ops + (if u \<in> zmembers (bq_set bq n) then 1 else 0)"
  using cq.handed_at_most_joined tq.handed_at_most_joined [of "(n, u)"] bq.handed_at_most_joined [of "(n, u)"]
  by (simp add: seats_of_def)

subsection \<open>Caro\<close>

lemma fold_nearer:
  "case fold (nearer u r) xs b of
     None \<Rightarrow> b = None \<and> (\<forall>x \<in> set xs. fst x = u)
   | Some y \<Rightarrow> (b = Some y \<or> (y \<in> set xs \<and> fst y \<noteq> u))
       \<and> (\<forall>x \<in> set xs. fst x \<noteq> u \<longrightarrow> \<bar>snd y - r\<bar> \<le> \<bar>snd x - r\<bar>)
       \<and> (\<forall>x. b = Some x \<longrightarrow> \<bar>snd y - r\<bar> \<le> \<bar>snd x - r\<bar>)"
proof (induction xs arbitrary: b)
  case (Cons x xs)
  consider (me) "fst x = u" | (first) "fst x \<noteq> u" "b = None"
    | (better) b' where "fst x \<noteq> u" "b = Some b'" "\<bar>snd x - r\<bar> < \<bar>snd b' - r\<bar>"
    | (worse) b' where "fst x \<noteq> u" "b = Some b'" "\<bar>snd b' - r\<bar> \<le> \<bar>snd x - r\<bar>"
    by (cases b) force+
  then show ?case
  proof cases
    case me
    then have "nearer u r x b = b" by (simp add: nearer_def)
    then show ?thesis using Cons [of "b"] me by (cases "fold (nearer u r) xs b") auto
  next
    case first
    then have "nearer u r x b = Some x" by (simp add: nearer_def)
    then show ?thesis using Cons [of "Some x"] first by (cases "fold (nearer u r) xs (Some x)") auto
  next
    case better
    then have "nearer u r x b = Some x" by (simp add: nearer_def)
    then show ?thesis using Cons [of "Some x"] better by (cases "fold (nearer u r) xs (Some x)") auto
  next
    case (worse b')
    then have "nearer u r x b = Some b'" by (simp add: nearer_def)
    then show ?thesis using Cons [of "Some b'"] worse by (cases "fold (nearer u r) xs (Some b')") auto
  qed
qed (simp split: option.splits)

text \<open>
  The opponent found for a queued Caro player is the nearest in rank points among all others in the
  queue, and exactly the two leave it; none is found only when nobody else is queued.
\<close>

theorem caro_match_is_nearest:
  assumes "zok (cq_set q)" "(u, rp) \<in> set (cq_set q)"
  shows "case cq_tryMatch u q of
      (None, q') \<Rightarrow> q' = q \<and> zmembers (cq_set q) = {u}
    | (Some p, q') \<Rightarrow> (qp_userId p, qp_rp p) \<in> set (cq_set q) \<and> qp_userId p \<noteq> u
        \<and> (\<forall>(v, r) \<in> set (cq_set q). v \<noteq> u \<longrightarrow> \<bar>qp_rp p - rp\<bar> \<le> \<bar>r - rp\<bar>)
        \<and> zmembers (cq_set q') = zmembers (cq_set q) - {u, qp_userId p}"
proof -
  have me: "zscore u (cq_set q) = Some rp" using assms by (simp add: zscore_iff)
  show ?thesis
  proof (cases "cq_nearest u q")
    case None
    have "\<forall>x \<in> set (cq_set q). fst x = u" using fold_nearer [where u = u and r = rp and xs = "zrange (cq_set q)" and b = None] None me
      by (simp add: cq_nearest_def)
    then have "zmembers (cq_set q) = {u}" using assms(2) by (force simp: zmembers_def)
    then show ?thesis using None by (simp add: cq_tryMatch_def)
  next
    case (Some b)
    have b: "b \<in> set (cq_set q)" "fst b \<noteq> u" "\<forall>x \<in> set (cq_set q). fst x \<noteq> u \<longrightarrow> \<bar>snd b - rp\<bar> \<le> \<bar>snd x - rp\<bar>"
      using fold_nearer [where u = u and r = rp and xs = "zrange (cq_set q)" and b = None] Some me by (simp_all add: cq_nearest_def)
    have there: "zscore (fst b) (cq_set q) = Some (snd b)" using assms(1) b(1) by (simp add: zscore_iff)
    show ?thesis using Some b me there by (auto simp: cq_tryMatch_def cq_claim_def Let_def)
  qed
qed

subsection \<open>Tien Len\<close>

lemma zrange_sorted: "sorted (map snd (zrange z))"
  by (simp add: zrange_def)

lemma sorted_split:
  assumes "sorted (map f xs)" "x \<in> set (take n xs)" "y \<in> set (drop n xs)"
  shows "f x \<le> f y"
proof -
  have "sorted (map f (take n xs) @ map f (drop n xs))" using assms(1) by (simp flip: map_append)
  then show ?thesis using assms(2, 3) by (auto simp: sorted_append)
qed

lemma oldest_claimed:
  assumes "zok (tq_set q n)" "0 < n"
  shows "case tq_tryMatch n q of
      (None, q') \<Rightarrow> q' = q \<and> length (tq_set q n) < n
    | (Some us, q') \<Rightarrow> length us = n \<and> distinct us \<and> set us \<subseteq> zmembers (tq_set q n)
        \<and> zmembers (tq_set q' n) = zmembers (tq_set q n) - set us
        \<and> (\<forall>(u, joined) \<in> set (tq_set q n). \<forall>(v, later) \<in> set (tq_set q n). u \<in> set us \<longrightarrow> v \<notin> set us \<longrightarrow> joined \<le> later)"
proof (cases "length (tq_set q n) < n")
  case True
  then show ?thesis by (simp add: tq_tryMatch_def tq_claim_def)
next
  case False
  let ?z = "zrange (tq_set q n)" and ?us = "map fst (take n (zrange (tq_set q n)))"
  have d: "distinct (map fst ?z)" using assms(1) by (rule zrange_distinct)
  have us: "length ?us = n" "distinct ?us" using False d by (simp_all flip: take_map)
  have ne: "?us \<noteq> []" using us(1) assms(2) by (metis length_0_conv less_irrefl)
  have sub: "set ?us \<subseteq> zmembers (tq_set q n)"
    using set_take_subset [of n ?z] by (auto simp: zmembers_def)
  have "snd x \<le> snd y" if xy: "x \<in> set (tq_set q n)" "y \<in> set (tq_set q n)" "fst x \<in> set ?us" "fst y \<notin> set ?us" for x y
  proof (rule sorted_split [OF zrange_sorted])
    have "x \<in> set ?z" "y \<in> set ?z" using xy by simp_all
    moreover have "x \<notin> set (drop n ?z)"
    proof
      assume "x \<in> set (drop n ?z)"
      moreover obtain x' where "x' \<in> set (take n ?z)" "fst x' = fst x" using xy(3) by auto
      moreover have "distinct (map fst (take n ?z) @ map fst (drop n ?z))" using d by (simp flip: map_append)
      ultimately show False by force
    qed
    moreover have "set ?z = set (take n ?z) \<union> set (drop n ?z)" by (metis append_take_drop_id set_append)
    ultimately show "x \<in> set (take n ?z)" "y \<in> set (drop n ?z)" using xy(4) by auto
  qed
  then have order: "\<forall>(u, joined) \<in> set (tq_set q n). \<forall>(v, later) \<in> set (tq_set q n). u \<in> set ?us \<longrightarrow> v \<notin> set ?us \<longrightarrow> joined \<le> later"
    by fastforce
  have "tq_tryMatch n q = (Some ?us, q\<lparr>tq_set := (tq_set q)(n := fold zrem ?us (tq_set q n)),
      tq_meta := (tq_meta q)(n := fold AList.delete ?us (tq_meta q n))\<rparr>)"
    using False us(1) ne by (simp add: tq_tryMatch_def tq_claim_def Let_def)
  moreover have "zmembers (tq_set (q\<lparr>tq_set := (tq_set q)(n := fold zrem ?us (tq_set q n)),
      tq_meta := (tq_meta q)(n := fold AList.delete ?us (tq_meta q n))\<rparr>) n) = zmembers (tq_set q n) - set ?us"
    by (simp del: set_map)
  ultimately show ?thesis using us sub order by (simp only: prod.case option.case simp_thms)
qed

text \<open>
  A Tien Len table of n is made as soon as n players wait for one: it takes n different players, the
  longest waiting ones, out of the queue, and otherwise changes nothing.
\<close>

theorem tienlen_match_is_oldest:
  assumes "zok (tq_set q n)" "0 < n"
  shows "case tq_tryMatch n q of
      (None, q') \<Rightarrow> q' = q \<and> length (tq_set q n) < n
    | (Some us, q') \<Rightarrow> length us = n \<and> distinct us \<and> set us \<subseteq> zmembers (tq_set q n)
        \<and> zmembers (tq_set q' n) = zmembers (tq_set q n) - set us
        \<and> (\<forall>(u, joined) \<in> set (tq_set q n). \<forall>(v, later) \<in> set (tq_set q n). u \<in> set us \<longrightarrow> v \<notin> set us \<longrightarrow> joined \<le> later)"
  by (rule oldest_claimed [OF assms])

text \<open>
  Players matched at one Tien Len table size stay queued at every other size they had joined.
\<close>

theorem tienlen_match_leaves_other_queues:
  assumes "tq_tryMatch n q = (r, q')" "m \<noteq> n"
  shows "tq_set q' m = tq_set q m"
  using assms by (auto simp: tq_tryMatch_def tq_claim_def Let_def split: if_splits)

subsection \<open>Bomberman\<close>

text \<open>The entry of a user in the hash names the one sorted set the user is in.\<close>

definition bq_ok :: "BombermanQueue \<Rightarrow> bool" where
  "bq_ok q \<longleftrightarrow> (\<forall>n u. u \<in> zmembers (bq_set q n) \<longleftrightarrow> n \<in> set TABLE_SIZES \<and> map_of (bq_meta q) u = Some n)
     \<and> (\<forall>n. zok (bq_set q n))"

lemma delete_map_of: "map_of (fold AList.delete us xs) u = (if u \<in> set us then None else map_of xs u)"
  by (induction us arbitrary: xs) (auto simp: delete_conv')

lemma bq_dequeue_out:
  assumes "bq_ok q"
  shows "map_of (bq_meta (bq_dequeue u q)) = (map_of (bq_meta q))(u := None)"
    "zmembers (bq_set (bq_dequeue u q) n) = zmembers (bq_set q n) - {u}" "zok (bq_set (bq_dequeue u q) n)"
  using assms by (auto simp: bq_dequeue_def bq_ok_def TABLE_SIZES_def Let_def delete_conv' split: option.splits)

lemma bq_dequeue_ok: "bq_ok q \<Longrightarrow> bq_ok (bq_dequeue u q)"
  by (simp add: bq_ok_def [of "bq_dequeue u q"] bq_dequeue_out) (auto simp: bq_ok_def)

lemma bq_enqueue_ok:
  assumes "bq_ok q" "n \<in> set TABLE_SIZES"
  shows "bq_ok (bq_enqueue u n rp q)"
  unfolding bq_ok_def
proof (intro conjI allI)
  fix m v
  have "v \<in> zmembers (bq_set q m) \<longleftrightarrow> m \<in> set TABLE_SIZES \<and> map_of (bq_meta q) v = Some m" using assms(1) by (simp add: bq_ok_def)
  then show "v \<in> zmembers (bq_set (bq_enqueue u n rp q) m) \<longleftrightarrow>
      m \<in> set TABLE_SIZES \<and> map_of (bq_meta (bq_enqueue u n rp q)) v = Some m"
    using assms(2) bq_dequeue_out [OF assms(1)] by (auto simp: bq_enqueue_def Let_def update_conv')
  show "zok (bq_set (bq_enqueue u n rp q) m)" using bq_dequeue_out(3) [OF assms(1)] by (simp add: bq_enqueue_def Let_def)
qed

lemma bq_choose_sub: "bq_choose u n q = Some us \<Longrightarrow> set us \<subseteq> zmembers (bq_set q n)"
  by (force simp: bq_choose_def Let_def zmembers_def split: if_splits option.splits dest!: in_set_takeD)

lemma bq_tryMatch_ok:
  assumes "bq_ok q"
  shows "bq_ok (snd (bq_tryMatch u n q))"
proof (cases "bq_choose u n q")
  case (Some us)
  have "\<forall>v \<in> set us. map_of (bq_meta q) v = Some n" using bq_choose_sub [OF Some] assms by (auto simp: bq_ok_def)
  then show ?thesis using Some assms by (auto simp: bq_tryMatch_def bq_claim_def bq_ok_def delete_map_of Let_def split: if_splits)
qed (simp add: bq_tryMatch_def assms)

datatype bq_op = Bq_enqueue oid nat int | Bq_dequeue oid | Bq_match oid nat

fun bq_step :: "bq_op \<Rightarrow> BombermanQueue \<Rightarrow> BombermanQueue" where
  "bq_step (Bq_enqueue u n rp) q = (if n \<in> set TABLE_SIZES then bq_enqueue u n rp q else q)"
| "bq_step (Bq_dequeue u) q = bq_dequeue u q"
| "bq_step (Bq_match u n) q = snd (bq_tryMatch u n q)"

lemma bq_step_ok: "bq_ok q \<Longrightarrow> bq_ok (bq_step x q)"
  by (cases x) (simp_all add: bq_enqueue_ok bq_dequeue_ok bq_tryMatch_ok)

text \<open>
  A Bomberman player waits for at most one table size, and is then known as queued, through any
  sequence of joins, leaves and matches.
\<close>

theorem bomber_waits_for_one_size:
  assumes "bq_ok q" "u \<in> zmembers (bq_set (fold bq_step ops q) n)" "u \<in> zmembers (bq_set (fold bq_step ops q) m)"
  shows "n = m \<and> bq_isQueued u (fold bq_step ops q)"
proof -
  have "bq_ok (fold bq_step ops q)" using assms(1) by (induction ops arbitrary: q) (simp_all add: bq_step_ok)
  then show ?thesis using assms(2, 3) by (auto simp: bq_ok_def bq_isQueued_def)
qed

text \<open>
  The Bomberman match found for a player need not include the player: at equal rank points the
  players whose names come first are taken.
\<close>

theorem bomber_match_may_leave_caller:
  assumes "a < b" "b < u" "bq_set q 2 = [(a, rp), (b, rp), (u, rp)]"
  shows "fst (bq_tryMatch u 2 q) = Some [a, b]"
  using assms by (simp add: bq_tryMatch_def bq_choose_def bq_claim_def zrange_def zscore_def Let_def eval_nat_numeral)

section \<open>Examples\<close>

definition caro_queue :: CaroQueue where
  "caro_queue = \<lparr>cq_set = [(1, 100), (2, 250), (3, 120)], cq_meta = []\<rparr>"

theorem caro_match_is_nearest_witness: "map_option qp_userId (fst (cq_tryMatch 1 caro_queue)) = Some 3"
proof -
  have q: "zok (cq_set caro_queue)" "(1, 100) \<in> set (cq_set caro_queue)" by code_simp+
  obtain p q' where m: "cq_tryMatch 1 caro_queue = (Some p, q')"
    using caro_match_is_nearest [OF q] by (cases "cq_tryMatch 1 caro_queue"; cases "fst (cq_tryMatch 1 caro_queue)")
      (auto simp: caro_queue_def zmembers_def)
  have p: "(qp_userId p, qp_rp p) \<in> set (cq_set caro_queue)" "qp_userId p \<noteq> 1"
    "\<forall>(v, r) \<in> set (cq_set caro_queue). v \<noteq> 1 \<longrightarrow> \<bar>qp_rp p - 100\<bar> \<le> \<bar>r - 100\<bar>"
    using caro_match_is_nearest [OF q] unfolding m by simp_all
  have "\<bar>qp_rp p - 100\<bar> \<le> 20" using p(3) by (simp add: caro_queue_def)
  then show ?thesis using p(1, 2) m by (auto simp: caro_queue_def)
qed

definition tienlen_queue :: TienLenQueue where
  "tienlen_queue = (tq_enqueue 3 1 ''s1'' 20 (tq_enqueue 2 2 ''s2'' 30 (tq_enqueue 2 1 ''s1'' 10
     \<lparr>tq_set = \<lambda>n. [], tq_meta = \<lambda>n. []\<rparr>)))"

lemma tienlen_queue_sets: "tq_set tienlen_queue 2 = [(1, 10), (2, 30)]" "tq_set tienlen_queue 3 = [(1, 20)]"
  by code_simp+

theorem tienlen_match_is_oldest_witness: "map_option length (fst (tq_tryMatch 2 tienlen_queue)) = Some 2"
proof -
  have q: "zok (tq_set tienlen_queue 2)" "0 < (2 :: nat)" by (simp_all add: tienlen_queue_sets zok_def)
  show ?thesis using tienlen_match_is_oldest [OF q] by (auto simp: tienlen_queue_sets split: prod.splits option.splits)
qed

theorem tienlen_match_leaves_other_queues_witness:
  "fst (tq_tryMatch 2 tienlen_queue) = Some [1, 2] \<and> 1 \<in> zmembers (tq_set (snd (tq_tryMatch 2 tienlen_queue)) 3)"
proof
  show "fst (tq_tryMatch 2 tienlen_queue) = Some [1, 2]" by code_simp
  have "tq_set (snd (tq_tryMatch 2 tienlen_queue)) 3 = tq_set tienlen_queue 3"
    by (rule tienlen_match_leaves_other_queues [where n = 2]) (simp_all add: prod_eq_iff)
  then show "1 \<in> zmembers (tq_set (snd (tq_tryMatch 2 tienlen_queue)) 3)" by (simp add: tienlen_queue_sets zmembers_def)
qed

definition bomber_queue :: BombermanQueue where
  "bomber_queue = \<lparr>bq_set = \<lambda>n. if n = 2 then [(1, 0), (2, 0), (3, 0)] else [], bq_meta = [(1, 2), (2, 2), (3, 2)]\<rparr>"

lemma bomber_queue_ok: "bq_ok bomber_queue"
  by (simp add: bq_ok_def bomber_queue_def zmembers_def zok_def TABLE_SIZES_def insert_compr [symmetric]) (auto simp: image_iff)

theorem bomber_waits_for_one_size_witness: "bq_isQueued 1 (fold bq_step [Bq_enqueue 1 3 0] bomber_queue)"
proof -
  have "1 \<in> zmembers (bq_set (fold bq_step [Bq_enqueue 1 3 0] bomber_queue) 3)"
    by (simp add: bq_enqueue_def Let_def TABLE_SIZES_def)
  from bomber_waits_for_one_size [OF bomber_queue_ok this this] show ?thesis by simp
qed

theorem bomber_match_may_leave_caller_witness: "fst (bq_tryMatch 3 2 bomber_queue) = Some [1, 2]"
  by (rule bomber_match_may_leave_caller [of 1 2 3 bomber_queue 0]) (simp_all add: bomber_queue_def)

end
