(* ===== verification/CaroGatewayLaws.thy ===== *)
theory CaroGatewayLaws
  imports CaroGateway GatewayLaws CaroLaws QueueLaws
begin

text \<open>
  The gateway of Caro keeps what its service promises: whatever the clients send, in any order, every game
  is sound and between two different players.
\<close>

section \<open>The service under the gateway\<close>

lemma caro_seating [simp]:
  "seating (broadcast r e s) = seating s" "seating (clearTimer r s) = seating s" "seating (startTurnTimer r s) = seating s"
  "seating (clearDcTimer k s) = seating s" "seating (save_caro g s) = seating s" "seating (onReconnect r u s) = seating s"
  "seating (snd (createGame x y opts s)) = seating s" "seating (s\<lparr>caro_dcTimers := d\<rparr>) = seating s"
  by (simp_all add: broadcast_def save_caro_def clearTimer_def startTurnTimer_def clearDcTimer_def onReconnect_def createGame_def
      fresh_id_def Let_def seating_def)

lemma seating_publish [simp]: "seating (publish_caro g s) = seating s"
  by (simp add: publish_caro_def Let_def split: option.split)

lemma caro_seating_finish [simp]: "seating (snd (finish g w e s)) = seating s" "seating (snd (finishDraw g s)) = seating s"
proof -
  obtain g' u where r: "winner_rewards (end_doc (Some w) e (clock s) g) w (clearTimer (Hex (c_id g)) s) = (g', u)" by fastforce
  then show "seating (snd (finish g w e s)) = seating s"
    using seating_accounts [OF conjunct1 [OF winner_rewards_frame [OF r]]] by (simp add: finish_def Let_def)
  obtain h v where d: "draw_rewards (end_doc None DRAW (clock s) g) (clearTimer (Hex (c_id g)) s) = (h, v)" by fastforce
  then show "seating (snd (finishDraw g s)) = seating s"
    using seating_accounts [OF conjunct1 [OF draw_rewards_frame [OF d]]] by (simp add: finishDraw_def Let_def)
qed

lemma caro_getGame_state: "getGameOrThrow r s = (x, t) \<Longrightarrow> t = s"
  by (auto simp: getGameOrThrow_def split: option.splits)

lemmas caro_seating_op = seating_await [where m = "getGameOrThrow r" for r, OF caro_getGame_state]

lemma caro_step_seating: "caro_step s t \<Longrightarrow> seating t = seating s"
proof (induction rule: caro_step.induct)
  case (moves s r u row col)
  show ?case unfolding move_def
    by (rule caro_seating_op) (simp_all add: Let_def split_beta split: sum.split MoveResult.split)
next
  case (resigns s r u)
  show ?case unfolding resign_def by (rule caro_seating_op) (simp_all add: Let_def split_beta)
qed (simp_all add: onDisconnect_def onTurnTimeout_def forfeitDisconnected_def Let_def split: option.split)

lemma caros_ok_lobby: "lobby_frame s t \<Longrightarrow> caros_ok s \<Longrightarrow> caros_ok t"
  using rooms_more_caro [of t s] caros_ok_same [of s t] by (simp add: lobby_frame_def)

lemma caro_launch_cases:
  assumes "caro_launch room s = (x, t)"
  obtains (refused) e where "x = Inl e" "t = s"
  | (started) u v opts game s1 s2 y where "{u, v} = rm_userId ` set (r_members room)" "distinct (map rm_userId (r_members room)) \<longrightarrow> u \<noteq> v"
      "lobby_frame s s1" "rooms s1 = rooms s" "createGame u v opts s1 = (game, s2)"
      "markInProgress (Hex (r_id room)) (c_id game) s2 = (y, t)" "x = (case y of Inl e \<Rightarrow> Inl e | Inr _ \<Rightarrow> Inr (c_id game))"
proof (cases "\<exists>a b. map rm_userId (r_members room) = [a, b]")
  case True
  then obtain a b where m: "map rm_userId (r_members room) = [a, b]" by (elim exE)
  obtain q s1 where d: "draw s = (q, s1)" by fastforce
  have s1: "lobby_frame s s1" "rooms s1 = rooms s" using d by (auto simp: draw_def lobby_frame_def seated_once_def)
  obtain u v where uv: "(if q < 1 / 2 then (a, b) else (b, a)) = (u, v)" by fastforce
  let ?opts = "\<lparr>co_mode = Some (r_mode room), co_ranked = None, co_betAmount = Some (r_betAmount room), co_roomId = Some (r_id room)\<rparr>"
  obtain game s2 where c: "createGame u v ?opts s1 = (game, s2)" by fastforce
  obtain y t' where k: "markInProgress (Hex (r_id room)) (c_id game) s2 = (y, t')" by fastforce
  have "t' = t" "x = (case y of Inl e \<Rightarrow> Inl e | Inr _ \<Rightarrow> Inr (c_id game))"
    using assms m d uv c k by (auto simp: caro_launch_def launchFromRoom_def await_def split_beta split: sum.splits)
  moreover have "{u, v} = set (map rm_userId (r_members room))" "distinct (map rm_userId (r_members room)) \<longrightarrow> u \<noteq> v"
    using uv by (auto simp: m split: if_splits)
  ultimately show ?thesis using started s1 c k by simp
next
  case False
  then have "caro_launch room s = (Inl (BadRequest ''Caro requires exactly 2 players''), s)"
    by (auto simp: caro_launch_def launchFromRoom_def await_def split: list.split)
  then show ?thesis using refused assms by simp
qed

lemma createGame_rooms: "createGame u v opts s = (g, t) \<Longrightarrow> rooms t = rooms s"
  by (auto simp: createGame_def fresh_id_def Let_def startTurnTimer_def clearTimer_def)

lemma start_between_ok: "a \<noteq> b \<Longrightarrow> caros_ok s \<Longrightarrow> caros_ok (snd (start_between a b mode s))"
  and start_between_seating: "seating (snd (start_between a b mode s)) = seating s"
proof -
  obtain x y s1 where f: "first_mover a b s = ((x, y), s1)" by (metis prod_cases3 surj_pair)
  have s1: "lobby_frame s s1" "seating s1 = seating s"
    using f by (auto simp: first_mover_def draw_def lobby_frame_def seated_once_def seating_def Let_def split: if_splits)
  let ?opts = "\<lparr>co_mode = Some mode, co_ranked = None, co_betAmount = None, co_roomId = None\<rparr>"
  have e: "snd (start_between a b mode s) = snd (createGame x y ?opts s1)" using f by (simp add: start_between_def Let_def split_beta)
  show "seating (snd (start_between a b mode s)) = seating s" by (simp add: e s1(2))
  assume "a \<noteq> b" "caros_ok s"
  then have "x \<noteq> y" using f by (auto simp: first_mover_def split: if_splits prod.splits)
  then show "caros_ok (snd (start_between a b mode s))"
    unfolding e using caro_step_ok [OF caro_step.create] caros_ok_lobby [OF s1(1) \<open>caros_ok s\<close>] by blast
qed

interpretation caro_gw: game_service caros_ok "\<lambda>_. True" caro_launch caro_challenge_start
proof (unfold_locales, goal_cases)
  case (1 s t)
  then show ?case by (rule caros_ok_lobby)
next
  case (3 s room)
  obtain x t where l: "caro_launch room s = (x, t)" by fastforce
  then show ?case
  proof (cases rule: caro_launch_cases)
    case (started u v opts game s1 s2 y)
    have "caros_ok (snd (createGame u v opts s1))"
      using caro_step_ok [OF caro_step.create] started(2) 3(3) caros_ok_lobby [OF started(3) 3(1)] by blast
    then have "caros_ok t" using caros_ok_lobby [OF mark_frame] started(5,6) by (metis snd_conv)
    then show ?thesis using l by simp
  qed (use l 3 in simp)
next
  case (4 s room)
  obtain x t where l: "caro_launch room s = (x, t)" by fastforce
  then show ?case
  proof (cases rule: caro_launch_cases)
    case (started u v opts game s1 s2 y)
    have "seated_once s2" using 4 started(3) createGame_rooms [OF started(5)] by (simp add: lobby_frame_def seated_once_def)
    then have "seated_once t" using mark_frame [of s2 "Hex (r_id room)" "c_id game"] started(6) by (simp add: lobby_frame_def)
    then show ?thesis using l by simp
  qed (use l 4 in simp)
next
  case (5 s k u)
  then show ?case unfolding caro_challenge_start_def by (intro start_between_ok)
next
  case (6 s k u)
  then show ?case by (simp add: caro_challenge_start_def start_between_seating seated_once_iff)
next
  case (7 room s gameId t)
  from 7(1) show ?case
  proof (cases rule: caro_launch_cases)
    case (started u v opts game s1 s2 y)
    have "find_room (r_id room) s2 = Some room" using 7(2) createGame_rooms [OF started(5)] started(4) by (simp add: find_room_def)
    then have "find_room (r_id room) s2 \<noteq> None" by simp
    from mark_found [OF this, of "c_id game"] show ?thesis using started(6,7) by (auto split: sum.splits)
  qed simp
next
  case (8 room s e t)
  from 8(1) show ?case
  proof (cases rule: caro_launch_cases)
    case (started u v opts game s1 s2 y)
    have "find_room (r_id room) s2 = Some room" using 8(2) createGame_rooms [OF started(5)] started(4) by (simp add: find_room_def)
    then have "find_room (r_id room) s2 \<noteq> None" by simp
    from mark_found [OF this, of "c_id game"] show ?thesis using started(6,7) by (auto split: sum.splits)
  qed simp
qed simp_all

section \<open>The gateway\<close>

lemma cq_match_other: "cq_tryMatch u q = (Some p, q') \<Longrightarrow> qp_userId p \<noteq> u"
proof -
  assume m: "cq_tryMatch u q = (Some p, q')"
  then obtain b rp where b: "cq_nearest u q = Some b" "zscore u (cq_set q) = Some rp" "qp_userId p = fst b"
    by (auto simp: cq_tryMatch_def cq_nearest_def Let_def split: option.splits prod.splits if_splits)
  then show ?thesis using fold_nearer [where u = u and r = rp and xs = "zrange (cq_set q)" and b = None]
    by (simp add: cq_nearest_def)
qed

text \<open>One event of the gateway: a message of a client, a timer, or the work of somebody else in the lobby.\<close>

inductive caro_gw_step :: "'r caro_gw \<Rightarrow> 'r caro_gw \<Rightarrow> bool" where
  connects: "caro_gw_step g (handleConnection token c g)"
| authenticates: "caro_gw_step g (snd (canActivate token c g))"
| disconnects: "caro_gw_step g (caro_handleDisconnect c g)"
| joins_lobby: "caro_gw_step g (snd (onLobbyJoin c g))"
| leaves_lobby: "caro_gw_step g (snd (onLobbyLeave c g))"
| joins_queue: "caro_gw_step g (snd (onQueueJoin c g))"
| leaves_queue: "caro_gw_step g (snd (onQueueLeave c g))"
| challenges: "caro_gw_step g (snd (onChallenge opponent ranked c g))"
| accepts: "caro_gw_step g (snd (onChallengeAccept i c g))"
| declines: "caro_gw_step g (snd (onChallengeDecline i c g))"
| creates_room: "caro_gw_step g (snd (onRoomCreate bet isPrivate name c g))"
| joins_room: "caro_gw_step g (snd (onRoomJoin roomId code c g))"
| leaves_room: "caro_gw_step g (snd (onRoomLeave r c g))"
| readies: "caro_gw_step g (snd (onRoomReady r ready c g))"
| starts: "caro_gw_step g (snd (onRoomStart r c g))"
| joins_game: "caro_gw_step g (snd (onJoinGame r c g))"
| leaves_game: "caro_gw_step g (snd (onLeaveGame r c g))"
| moves: "caro_gw_step g (snd (onMove r row col c g))"
| resigns: "caro_gw_step g (snd (onResign r c g))"
| times_out: "caro_gw_step g (on_service (onTurnTimeout r) g)"
| forfeits: "caro_gw_step g (on_service (forfeitDisconnected r u) g)"
| elsewhere: "lobby_frame (gw_service g) s \<Longrightarrow> caro_gw_step g (g\<lparr>gw_service := s\<rparr>)"
| waits: "caro_gw_step g (on_service (\<lambda>s. s\<lparr>clock := now\<rparr>) g)"

lemma caro_gw_ok_step:
  assumes "gw_ok caros_ok (\<lambda>_. True) g" "caro_step (gw_service g) s"
  shows "gw_ok caros_ok (\<lambda>_. True) (g\<lparr>gw_service := s\<rparr>)"
  using assms caro_step_ok [OF assms(2)] caro_step_seating [OF assms(2)] by (simp add: gw_ok_def seated_once_iff)

lemma caro_match_ok:
  assumes "gw_ok caros_ok (\<lambda>_. True) g" "a \<noteq> b"
  shows "gw_ok caros_ok (\<lambda>_. True) (g\<lparr>gw_service := snd (start_between a b mode (gw_service g))\<rparr>)"
  using assms start_between_ok [OF assms(2), of "gw_service g" mode]
  by (simp add: gw_ok_def seated_once_iff start_between_seating)

lemma caro_service_step_ok:
  assumes "gw_ok caros_ok (\<lambda>_. True) g" "caro_step (gw_service g) (snd (m (gw_service g)))"
  shows "gw_ok caros_ok (\<lambda>_. True) (snd (service m g))"
  unfolding snd_service by (rule caro_gw_ok_step [OF assms])

lemma gw_ok_queue_counts [simp]: "gw_ok P Q (broadcastQueueCount g) = gw_ok P Q g"
  by (simp add: broadcastQueueCount_def)

lemma caro_onQueueJoin_ok:
  assumes "gw_ok caros_ok (\<lambda>_. True) g"
  shows "gw_ok caros_ok (\<lambda>_. True) (snd (onQueueJoin c g))"
  unfolding onQueueJoin_def
proof (rule await_user [where P = "gw_ok caros_ok (\<lambda>_. True)", OF assms])
  fix u
  define h where "h = join_channel c Lobby_room
      (on_queue (cq_enqueue (au_id u) (rankPoints_of (Hex (au_id u)) (gw_service g)) c (clock (gw_service g))) g)"
  obtain opp q where m: "cq_tryMatch (au_id u) (gw_queue h) = (opp, q)" by fastforce
  let ?h = "h\<lparr>gw_queue := q\<rparr>"
  have ok: "gw_ok caros_ok (\<lambda>_. True) ?h" using assms by (simp add: h_def gw_ok_queue)
  have "gw_ok caros_ok (\<lambda>_. True) (snd (case opp of
      None \<Rightarrow> let g = broadcastQueueCount ?h in return (Queued (caro_counts g)) g
    | Some p \<Rightarrow> await (service (start_between (au_id u) (qp_userId p) RANKED))
        (\<lambda>gameId g. return (Matched gameId) (broadcastQueueCount g)) ?h))"
  proof (cases opp)
    case (Some p)
    then have "au_id u \<noteq> qp_userId p" using cq_match_other [of "au_id u" "gw_queue h" p q] m by auto
    then have "gw_ok caros_ok (\<lambda>_. True) (snd (service (start_between (au_id u) (qp_userId p) RANKED) ?h))"
      unfolding snd_service by (rule caro_match_ok [OF ok])
    then show ?thesis unfolding Some option.case by (rule await_ok [where P = "gw_ok caros_ok (\<lambda>_. True)"]) simp
  qed (use ok in \<open>simp add: Let_def\<close>)
  then show "gw_ok caros_ok (\<lambda>_. True) (snd (let rp = rankPoints_of (Hex (au_id u)) (gw_service g);
         g = on_queue (cq_enqueue (au_id u) rp c (clock (gw_service g))) g;
         g = join_channel c Lobby_room g;
         (opp, q) = cq_tryMatch (au_id u) (gw_queue g);
         g = g\<lparr>gw_queue := q\<rparr>
     in case opp of
          None \<Rightarrow> let g = broadcastQueueCount g in return (Queued (caro_counts g)) g
        | Some p \<Rightarrow> await (service (start_between (au_id u) (qp_userId p) RANKED))
            (\<lambda>gameId g. return (Matched gameId) (broadcastQueueCount g)) g))"
    using m unfolding h_def by (simp add: Let_def)
qed

lemma caro_onJoinGame_ok:
  assumes "gw_ok caros_ok (\<lambda>_. True) g"
  shows "gw_ok caros_ok (\<lambda>_. True) (snd (onJoinGame r c g))"
  unfolding onJoinGame_def
proof (rule await_user [where P = "gw_ok caros_ok (\<lambda>_. True)", OF assms], rule await_ok [where P = "gw_ok caros_ok (\<lambda>_. True)"])
  show "gw_ok caros_ok (\<lambda>_. True) (snd (service (getGameOrThrow r) g))"
    using assms caro_getGame_state [of r "gw_service g"] by (simp add: snd_service prod_eq_iff)
  fix u game h
  assume "gw_ok caros_ok (\<lambda>_. True) h"
  then have "gw_ok caros_ok (\<lambda>_. True) (h\<lparr>gw_service := onReconnect r (au_id u) (gw_service h)\<rparr>)"
    by (rule caro_gw_ok_step) (rule caro_step.reconnects)
  then show "gw_ok caros_ok (\<lambda>_. True) (snd (let g = on_client c (\<lambda>k. k\<lparr>cl_game := Some r\<rparr>) (join_channel c (Game_room r) h);
      g = on_service (onReconnect r (au_id u)) g in return (caro_view game (gw_service g)) g))"
    by (simp add: gw_ok_def Let_def)
qed

lemma caro_handleDisconnect_ok:
  assumes "gw_ok caros_ok (\<lambda>_. True) g"
  shows "gw_ok caros_ok (\<lambda>_. True) (caro_handleDisconnect c g)"
  unfolding caro_handleDisconnect_def
proof (rule handleDisconnect_ok [OF assms])
  fix r u and h :: "'a caro_gw"
  assume "gw_ok caros_ok (\<lambda>_. True) h"
  then show "gw_ok caros_ok (\<lambda>_. True) (on_service (onDisconnect r u) h)"
    unfolding on_service_def by (rule caro_gw_ok_step) (rule caro_step.disconnects)
qed

lemma caro_gw_step_ok: "caro_gw_step g h \<Longrightarrow> gw_ok caros_ok (\<lambda>_. True) g \<Longrightarrow> gw_ok caros_ok (\<lambda>_. True) h"
proof (induction rule: caro_gw_step.induct)
  case (creates_room g bet isPrivate name c)
  show ?case unfolding onRoomCreate_def
    by (rule await_ok [where P = "gw_ok caros_ok (\<lambda>_. True)"]) (simp_all add: creates_room caro_gw.room_create_ok)
next
  case (moves g r row col c)
  show ?case unfolding onMove_def
    by (rule await_user [where P = "gw_ok caros_ok (\<lambda>_. True)", OF moves]) (intro caro_service_step_ok moves caro_step.moves)
next
  case (resigns g r c)
  show ?case unfolding onResign_def
    by (rule await_user [where P = "gw_ok caros_ok (\<lambda>_. True)", OF resigns]) (intro caro_service_step_ok resigns caro_step.resigns)
next
  case (times_out g r)
  show ?case unfolding on_service_def by (rule caro_gw_ok_step [OF times_out]) (rule caro_step.times_out)
next
  case (forfeits g r u)
  show ?case unfolding on_service_def by (rule caro_gw_ok_step [OF forfeits]) (rule caro_step.forfeits)
next
  case (elsewhere g s)
  then show ?case using caro_gw.gw_ok_lobby by blast
next
  case (leaves_queue g c)
  show ?case unfolding onQueueLeave_def
    by (rule await_user [where P = "gw_ok caros_ok (\<lambda>_. True)", OF leaves_queue]) (simp add: leaves_queue Let_def gw_ok_queue)
next
  case (waits g now)
  then show ?case by (simp add: gw_ok_def on_service_def seated_once_def caros_ok_def)
qed (simp_all add: canActivate_ok caro_handleDisconnect_ok onLobbyJoin_def onLobbyLeave_def caro_onQueueJoin_ok onChallenge_def
      onChallengeAccept_def onChallengeDecline_def onRoomJoin_def onRoomLeave_def onRoomReady_def onRoomStart_def caro_onJoinGame_ok
      onLeaveGame_def leave_game_def Let_def caro_gw.challenge_send_ok caro_gw.challenge_accept_ok caro_gw.challenge_decline_ok
      caro_gw.room_join_ok caro_gw.room_leave_ok caro_gw.room_ready_ok caro_gw.room_start_ok)

text \<open>
  C12: The Caro gateway, whatever the clients send: from a sound state, any sequence of its handlers, of
  timers and of lobby operations made through the other gateways leaves a sound state. Every game is
  between two different players with the turn and the board its moves give it, no room seats a player
  twice, and no invitation is addressed to its sender.
\<close>

theorem caro_gateway_sound:
  assumes "gw_ok caros_ok (\<lambda>_. True) g" "caro_gw_step\<^sup>*\<^sup>* g h"
  shows "gw_ok caros_ok (\<lambda>_. True) h"
  using assms(2) by (induction rule: rtranclp_induct) (use assms(1) caro_gw_step_ok in auto)

end
