(* ===== verification/TienLenLogic.thy ===== *)
theory TienLenLogic
  imports Prelude
begin

text \<open>
  The rules of Tien Len Mien Nam, \<open>src/games/tienlen/tienlen.logic.ts\<close>: cards are the numbers 0 to 51,
  the rank is the quotient and the suit the remainder by four. The random source of the deal is a
  function from the number of the draw to a value in the unit interval.
\<close>

section \<open>Cards and combinations\<close>

type_synonym card = nat

abbreviation "DECK_SIZE \<equiv> (52 :: nat)"

datatype ComboType = SINGLE | PAIR | TRIPLE | STRAIGHT | PAIR_STRAIGHT | FOUR

record Combo =
  cb_type :: ComboType
  cb_cards :: "card list"
  cb_rankValue :: card
  cb_length :: nat

definition rankOf :: "card \<Rightarrow> nat" where "rankOf c = c div 4"

definition suitOf :: "card \<Rightarrow> nat" where "suitOf c = c mod 4"

definition THREE_OF_SPADES :: card where "THREE_OF_SPADES = 0"

text \<open>The Fisher-Yates loop, from the last position down; \<open>k\<close> counts the draws.\<close>

definition swap_at :: "nat \<Rightarrow> nat \<Rightarrow> 'a list \<Rightarrow> 'a list" where
  "swap_at i j xs = xs[i := xs ! j, j := xs ! i]"

fun shuffle_loop :: "(nat \<Rightarrow> rat) \<Rightarrow> nat \<Rightarrow> nat \<Rightarrow> card list \<Rightarrow> card list" where
  "shuffle_loop rng k 0 deck = deck"
| "shuffle_loop rng k (Suc i) deck =
     (let j = nat \<lfloor>rng k * of_nat (Suc i + 1)\<rfloor>
      in shuffle_loop rng (Suc k) i (swap_at (Suc i) j deck))"

definition shuffledDeck :: "(nat \<Rightarrow> rat) \<Rightarrow> card list" where
  "shuffledDeck rng = shuffle_loop rng 0 (DECK_SIZE - 1) [0..<DECK_SIZE]"

text \<open>Card \<open>i\<close> of the deck goes to hand \<open>i mod n\<close>.\<close>

definition deal :: "nat \<Rightarrow> (nat \<Rightarrow> rat) \<Rightarrow> card list list" where
  "deal n rng =
     (let deck = shuffledDeck rng
      in map (\<lambda>h. sort (map ((!) deck) (filter (\<lambda>i. i mod n = h) [0..<13 * n]))) [0..<n])"

fun lowest_from :: "nat \<Rightarrow> card option \<times> nat \<Rightarrow> card list list \<Rightarrow> nat" where
  "lowest_from i (best, who) [] = who"
| "lowest_from i (best, who) (hand # hands) =
     (if hand \<noteq> [] \<and> (case best of None \<Rightarrow> True | Some b \<Rightarrow> hd hand < b)
      then lowest_from (Suc i) (Some (hd hand), i) hands
      else lowest_from (Suc i) (best, who) hands)"

definition holderOfLowest :: "card list list \<Rightarrow> nat" where
  "holderOfLowest hands = lowest_from 0 (None, 0) hands"

definition isStraight :: "nat list \<Rightarrow> bool" where
  "isStraight ranks \<longleftrightarrow> 12 \<notin> set ranks \<and> (\<forall>i \<in> {1..<length ranks}. ranks ! i = ranks ! (i - 1) + 1)"

text \<open>
  The source reads one position past the end of a list of odd length, where it finds
  \<open>undefined\<close> and answers no; it is only called on even lengths.
\<close>

definition isPairStraight :: "card list \<Rightarrow> bool" where
  "isPairStraight sorted_cards =
     (let ranks = map rankOf sorted_cards; n = length sorted_cards
      in 12 \<notin> set ranks
       \<and> (\<forall>i \<in> set (filter even [0..<n]). i + 1 < n \<and> ranks ! i = ranks ! (i + 1))
       \<and> (\<forall>i \<in> set (filter even [2..<n]). ranks ! i = ranks ! (i - 2) + 1))"

definition combo :: "ComboType \<Rightarrow> card list \<Rightarrow> Combo" where
  "combo ty cs = \<lparr>cb_type = ty, cb_cards = cs, cb_rankValue = last cs, cb_length = length cs\<rparr>"

definition identifyCombo :: "card list \<Rightarrow> Combo option" where
  "identifyCombo cards =
     (if cards = [] then None
      else
        let sorted_cards = sort cards;
            ranks = map rankOf sorted_cards;
            n = length sorted_cards
        in if \<forall>r \<in> set ranks. r = hd ranks then
             (if n = 1 then Some (combo SINGLE sorted_cards)
              else if n = 2 then Some (combo PAIR sorted_cards)
              else if n = 3 then Some (combo TRIPLE sorted_cards)
              else if n = 4 then Some (combo FOUR sorted_cards)
              else None)
           else if 3 \<le> n \<and> isStraight ranks then Some (combo STRAIGHT sorted_cards)
           else if 6 \<le> n \<and> even n \<and> isPairStraight sorted_cards then Some (combo PAIR_STRAIGHT sorted_cards)
           else None)"

definition pairStraightLength :: "Combo \<Rightarrow> rat" where
  "pairStraightLength c = of_nat (cb_length c) / 2"

definition is_two_of :: "ComboType \<Rightarrow> Combo \<Rightarrow> bool" where
  "is_two_of ty c \<longleftrightarrow> cb_type c = ty \<and> rankOf (hd (cb_cards c)) = 12"

definition canBeat :: "Combo \<Rightarrow> Combo option \<Rightarrow> bool" where
  "canBeat cand cur =
     (case cur of None \<Rightarrow> True
      | Some c \<Rightarrow>
          let single_two = is_two_of SINGLE c;
              pair_two = is_two_of PAIR c;
              normal = (cb_type cand = cb_type c \<and> cb_length cand = cb_length c
                        \<and> cb_rankValue cand > cb_rankValue c)
          in if cb_type cand = FOUR \<and> (single_two \<or> pair_two) then True
             else if cb_type cand = FOUR \<and> cb_type c = PAIR_STRAIGHT \<and> pairStraightLength c = 3 then True
             else if cb_type cand = FOUR \<and> cb_type c = FOUR then cb_rankValue cand > cb_rankValue c
             else if cb_type cand = PAIR_STRAIGHT \<and> pairStraightLength cand = 3 \<and> single_two then True
             else if cb_type cand = PAIR_STRAIGHT \<and> pairStraightLength cand = 4
                     \<and> (single_two \<or> pair_two \<or> cb_type c = FOUR) then True
             else normal)"

fun take_cards :: "card list \<Rightarrow> card list \<Rightarrow> card list option" where
  "take_cards S [] = Some S"
| "take_cards S (c # cs) = (if c \<in> set S then take_cards (remove1 c S) cs else None)"

definition removeCards :: "card list \<Rightarrow> card list \<Rightarrow> card list option" where
  "removeCards hand cards = map_option sort (take_cards (remdups hand) cards)"

section \<open>Chops, instant wins and rotten twos\<close>

definition isRedSuit :: "card \<Rightarrow> bool" where "isRedSuit c \<longleftrightarrow> 2 \<le> suitOf c"

definition choppedHeoCards :: "Combo \<Rightarrow> Combo option \<Rightarrow> card list" where
  "choppedHeoCards cand cur =
     (case cur of None \<Rightarrow> []
      | Some c \<Rightarrow>
          if \<not> is_two_of SINGLE c \<and> \<not> is_two_of PAIR c then []
          else if cb_type cand = FOUR \<or> (cb_type cand = PAIR_STRAIGHT \<and> 3 \<le> pairStraightLength cand)
          then filter (\<lambda>x. rankOf x = 12) (cb_cards c) else [])"

definition detectChop :: "Combo \<Rightarrow> Combo option \<Rightarrow> nat" where
  "detectChop cand cur = length (choppedHeoCards cand cur)"

record HeoBreakdown =
  hb_black :: nat
  hb_red :: nat
  hb_units :: nat

definition chopHeoBreakdown :: "card list \<Rightarrow> HeoBreakdown" where
  "chopHeoBreakdown heo =
     (let red = length (filter isRedSuit heo); black = length (filter (\<lambda>c. \<not> isRedSuit c) heo)
      in \<lparr>hb_black = black, hb_red = red, hb_units = black + red * 2\<rparr>)"

datatype InstantWin = FOUR_TWOS | SIX_PAIRS | DRAGON | FIVE_PAIR_RUN

definition freq :: "card list \<Rightarrow> nat \<Rightarrow> nat" where
  "freq hand r = length (filter (\<lambda>c. rankOf c = r) hand)"

definition detectInstantWin :: "card list \<Rightarrow> InstantWin option" where
  "detectInstantWin hand =
     (if freq hand 12 = 4 then Some FOUR_TWOS
      else if \<forall>r \<in> {0..11}. 1 \<le> freq hand r then Some DRAGON
      else if 6 \<le> sum_list (map (\<lambda>r. freq hand r div 2) [0..<13]) then Some SIX_PAIRS
      else if \<exists>start \<in> {0..7}. \<forall>r \<in> {start..<start + 5}. 2 \<le> freq hand r then Some FIVE_PAIR_RUN
      else None)"

definition rottenHeoCards :: "card list \<Rightarrow> card list" where
  "rottenHeoCards hand = filter (\<lambda>c. rankOf c = 12) hand"

section \<open>Shuffling and dealing\<close>

text \<open>A source of draws in the unit interval, as \<open>Math.random\<close> is documented.\<close>

definition unit_rng :: "(nat \<Rightarrow> rat) \<Rightarrow> bool" where
  "unit_rng rng \<longleftrightarrow> (\<forall>k. 0 \<le> rng k \<and> rng k < 1)"

lemma draw_index:
  assumes "unit_rng rng"
  shows "nat \<lfloor>rng k * of_nat (Suc i + 1)\<rfloor> < Suc i + 1"
proof -
  have r: "0 \<le> rng k" "rng k < 1" using assms by (auto simp: unit_rng_def)
  have "rng k * of_nat (Suc i + 1) < 1 * of_nat (Suc i + 1)"
    using r by (intro mult_strict_right_mono) auto
  then have "\<lfloor>rng k * of_nat (Suc i + 1)\<rfloor> < int (Suc i + 1)"
    by (simp only: floor_less_iff of_int_of_nat_eq mult_1)
  then show ?thesis by linarith
qed

lemma mset_swap_at: "\<lbrakk>i < length xs; j < length xs\<rbrakk> \<Longrightarrow> mset (swap_at i j xs) = mset xs"
  by (simp add: swap_at_def mset_swap)

lemma shuffle_loop_perm:
  assumes "unit_rng rng" "i < length deck"
  shows "mset (shuffle_loop rng k i deck) = mset deck"
  using assms(2)
proof (induction i arbitrary: k deck)
  case (Suc i)
  let ?j = "nat \<lfloor>rng k * of_nat (Suc i + 1)\<rfloor>"
  have "?j < length deck" using draw_index [OF assms(1), of k i] Suc.prems by linarith
  then have "mset (swap_at (Suc i) ?j deck) = mset deck" using Suc.prems by (rule mset_swap_at [rotated])
  moreover have "i < length (swap_at (Suc i) ?j deck)" using Suc.prems by (simp add: swap_at_def)
  ultimately show ?case using Suc.IH by (simp add: Let_def)
qed simp

lemma shuffledDeck_perm: "unit_rng rng \<Longrightarrow> mset (shuffledDeck rng) = mset [0..<DECK_SIZE]"
  unfolding shuffledDeck_def by (rule shuffle_loop_perm) simp_all

lemma mset_split_mod:
  assumes "0 < n"
  shows "mset (concat (map (\<lambda>h. filter (\<lambda>i. i mod n = h) xs) [0..<n])) = mset xs"
proof (induction xs)
  case (Cons x xs)
  have "mset (concat (map (\<lambda>h. filter (\<lambda>i. i mod n = h) (x # xs)) [0..<m]))
      = mset (concat (map (\<lambda>h. filter (\<lambda>i. i mod n = h) xs) [0..<m])) + (if x mod n < m then {#x#} else {#})" for m
    by (induction m) (auto simp: less_Suc_eq)
  then show ?case using Cons assms by simp
qed simp

lemma count_mod:
  assumes "h < n"
  shows "length (filter (\<lambda>i. i mod n = h) [0..<m * n]) = m"
proof (induction m)
  case (Suc m)
  have split: "[0..<Suc m * n] = [0..<m * n] @ map ((+) (m * n)) [0..<n]"
  proof -
    have "[0..<Suc m * n] = [0..<m * n] @ [m * n..<m * n + n]"
      using upt_add_eq_append [of 0 "m * n" n] by (simp add: add.commute)
    also have "[m * n..<m * n + n] = map ((+) (m * n)) [0..<n]"
      by (rule nth_equalityI) auto
    finally show ?thesis .
  qed
  have "filter (\<lambda>i. i mod n = h) (map ((+) (m * n)) [0..<n]) = map ((+) (m * n)) (filter (\<lambda>i. i = h) [0..<n])"
    unfolding filter_map by (intro arg_cong [where f = "map _"] filter_cong) (auto simp: comp_def)
  moreover have "filter (\<lambda>i. i = h) [0..<n] = [h]"
    using assms by (induction n) (auto simp: less_Suc_eq)
  ultimately show ?case using Suc unfolding split by simp
qed simp

lemma deal_hands:
  assumes "unit_rng rng" "n \<le> 4"
  shows "length (deal n rng) = n"
    "h < n \<Longrightarrow> length (deal n rng ! h) = 13 \<and> sorted (deal n rng ! h)"
    "mset (concat (deal n rng)) = mset (take (13 * n) (shuffledDeck rng))"
proof -
  let ?deck = "shuffledDeck rng"
  have len: "length ?deck = 52"
    using shuffledDeck_perm [OF assms(1)] by (metis diff_zero length_upt size_mset)
  show "length (deal n rng) = n" by (simp add: deal_def Let_def)
  show "h < n \<Longrightarrow> length (deal n rng ! h) = 13 \<and> sorted (deal n rng ! h)"
    using count_mod [of h n 13] by (simp add: deal_def Let_def)
  have "mset (concat (map (\<lambda>h. sort (map ((!) ?deck) (filter (\<lambda>i. i mod n = h) [0..<13 * n]))) hs))
      = image_mset ((!) ?deck) (mset (concat (map (\<lambda>h. filter (\<lambda>i. i mod n = h) [0..<13 * n]) hs)))" for hs
    by (induction hs) auto
  then have "mset (concat (deal n rng)) = image_mset ((!) ?deck) (mset [0..<13 * n])"
    using mset_split_mod [of n "[0..<13 * n]"] by (cases "n = 0") (auto simp: deal_def Let_def)
  also have "\<dots> = mset (map ((!) ?deck) [0..<13 * n])" by simp
  also have "map ((!) ?deck) [0..<13 * n] = take (13 * n) ?deck"
    using assms(2) len by (intro nth_equalityI) auto
  finally show "mset (concat (deal n rng)) = mset (take (13 * n) ?deck)" .
qed

lemma deal_facts:
  assumes "unit_rng rng" "n \<le> 4"
  shows "length (deal n rng) = n \<and> (\<forall>h \<in> set (deal n rng). length h = 13 \<and> sorted h)
     \<and> distinct (concat (deal n rng)) \<and> set (concat (deal n rng)) \<subseteq> {0..<52}
     \<and> (n = 4 \<longrightarrow> mset (concat (deal n rng)) = mset [0..<52])"
proof -
  note d = deal_hands [OF assms]
  note p = shuffledDeck_perm [OF assms(1)]
  have dist: "distinct (shuffledDeck rng)" using p by (metis distinct_upt mset_eq_imp_distinct_iff)
  have setd: "set (shuffledDeck rng) = {0..<52}" using p by (metis mset_eq_setD atLeastLessThan_upt)
  have len: "length (shuffledDeck rng) = 52" using p by (metis diff_zero length_upt size_mset)
  have "\<forall>h \<in> set (deal n rng). length h = 13 \<and> sorted h"
    using d(1,2) by (auto simp: in_set_conv_nth)
  moreover have "distinct (concat (deal n rng))"
    using mset_eq_imp_distinct_iff [OF d(3)] dist by simp
  moreover have "set (concat (deal n rng)) \<subseteq> {0..<52}"
    using mset_eq_setD [OF d(3)] set_take_subset [of "13 * n" "shuffledDeck rng"] setd by auto
  moreover have "n = 4 \<Longrightarrow> mset (concat (deal n rng)) = mset [0..<52]"
    using d(3) p len by simp
  ultimately show ?thesis using d(1) by blast
qed

text \<open>
  A deal hands out the deck without loss or duplication: whatever the random source draws, each of
  the two to four players gets thirteen cards in ascending order, no card is in two hands or
  twice in one, every card is one of the 52, and with four players the whole deck is dealt.
\<close>

theorem deal_partitions_deck:
  assumes "unit_rng rng" "n \<le> 4"
  shows "length (deal n rng) = n \<and> (\<forall>h \<in> set (deal n rng). length h = 13 \<and> sorted h)
     \<and> distinct (concat (deal n rng)) \<and> set (concat (deal n rng)) \<subseteq> {0..<52}
     \<and> (n = 4 \<longrightarrow> mset (concat (deal n rng)) = mset [0..<52])"
  by (rule deal_facts [OF assms])

theorem deal_partitions_deck_witness:
  "distinct (concat (deal 3 (\<lambda>_. 1 / 2)))"
  using deal_partitions_deck [of "\<lambda>_. 1 / 2" 3] by (simp add: unit_rng_def)

section \<open>Removing played cards\<close>

lemma take_cards_eq:
  assumes "distinct S"
  shows "take_cards S cs = (if distinct cs \<and> set cs \<subseteq> set S then Some (filter (\<lambda>c. c \<notin> set cs) S) else None)"
  using assms
proof (induction cs arbitrary: S)
  case (Cons c cs)
  have "filter (\<lambda>x. x \<notin> set cs) (remove1 c S) = filter (\<lambda>x. x \<notin> set (c # cs)) S"
    using Cons.prems by (auto simp: distinct_remove1_removeAll removeAll_filter_not_eq intro!: filter_cong)
  moreover have "set cs \<subseteq> set (remove1 c S) \<longleftrightarrow> set cs \<subseteq> set S \<and> c \<notin> set cs" if "c \<in> set S"
    using Cons.prems by auto
  ultimately show ?case using Cons by auto
qed simp

lemma removeCards_eq:
  assumes "distinct hand" "sorted hand"
  shows "removeCards hand cs
     = (if distinct cs \<and> set cs \<subseteq> set hand then Some (filter (\<lambda>c. c \<notin> set cs) hand) else None)"
  using assms by (simp add: removeCards_def take_cards_eq distinct_remdups_id sorted_wrt_filter sorted_sort_id)

lemma removeCards_mset:
  assumes "distinct hand" "sorted hand" "removeCards hand cs = Some h"
  shows "mset h + mset cs = mset hand" "sorted h" "distinct h" "set h \<subseteq> set hand"
proof -
  have cs: "distinct cs" "set cs \<subseteq> set hand" "h = filter (\<lambda>c. c \<notin> set cs) hand"
    using assms by (auto simp: removeCards_eq split: if_splits)
  have "mset (filter (\<lambda>c. c \<in> set cs) hand) = mset cs"
    using cs(1,2) assms(1) by (intro set_eq_iff_mset_eq_distinct [THEN iffD1]) auto
  then show "mset h + mset cs = mset hand"
    using cs(3) multiset_partition [of "mset hand" "\<lambda>c. c \<in> set cs"] by (simp add: add.commute)
  show "sorted h" "distinct h" "set h \<subseteq> set hand"
    using cs(3) assms(1,2) by (auto simp: sorted_wrt_filter)
qed

section \<open>Combinations\<close>

text \<open>
  The rules as a reference definition on the ascending cards: one to four cards of one rank, a run of
  at least three consecutive ranks below the two, or at least three consecutive pairs below the two.
\<close>

definition doubles :: "nat \<Rightarrow> nat \<Rightarrow> nat list" where
  "doubles r k = concat (map (\<lambda>x. [x, x]) [r..<r + k])"

fun is_combo :: "ComboType \<Rightarrow> card list \<Rightarrow> bool" where
  "is_combo SINGLE cs \<longleftrightarrow> length cs = 1"
| "is_combo PAIR cs \<longleftrightarrow> length cs = 2 \<and> (\<forall>c \<in> set cs. rankOf c = rankOf (hd cs))"
| "is_combo TRIPLE cs \<longleftrightarrow> length cs = 3 \<and> (\<forall>c \<in> set cs. rankOf c = rankOf (hd cs))"
| "is_combo FOUR cs \<longleftrightarrow> length cs = 4 \<and> (\<forall>c \<in> set cs. rankOf c = rankOf (hd cs))"
| "is_combo STRAIGHT cs \<longleftrightarrow> (\<exists>r k. 3 \<le> k \<and> r + k \<le> 12 \<and> map rankOf cs = [r..<r + k])"
| "is_combo PAIR_STRAIGHT cs \<longleftrightarrow> (\<exists>r k. 3 \<le> k \<and> r + k \<le> 12 \<and> map rankOf cs = doubles r k)"

lemma rankOf_less: "c < 52 \<Longrightarrow> rankOf c < 13"
  by (simp add: rankOf_def)

lemma length_doubles [simp]: "length (doubles r k) = 2 * k"
  by (induction k) (simp_all add: doubles_def)

lemma nth_doubles: "j < 2 * k \<Longrightarrow> doubles r k ! j = r + j div 2"
proof (induction k)
  case (Suc k)
  have d: "doubles r (Suc k) = doubles r k @ [r + k, r + k]" by (simp add: doubles_def)
  have "j < 2 * k \<or> j = 2 * k \<or> j = Suc (2 * k)" using Suc.prems by auto
  then consider "j < 2 * k" | "j = 2 * k" | "j = Suc (2 * k)" by blast
  then show ?case using Suc.IH by cases (simp_all add: d nth_append)
qed simp

lemma set_doubles: "set (doubles r k) = {r..<r + k}"
  by (auto simp: doubles_def)

lemma straight_nth:
  assumes "\<forall>i \<in> {1..<length xs}. xs ! i = xs ! (i - 1) + (1 :: nat)" "i < length xs"
  shows "xs ! i = xs ! 0 + i"
  using assms(2) by (induction i) (use assms(1) in \<open>auto dest!: bspec\<close>)

lemma isStraight_iff:
  assumes "xs \<noteq> []" "\<forall>x \<in> set xs. x < 13"
  shows "isStraight xs \<longleftrightarrow> (\<exists>r. r + length xs \<le> 12 \<and> xs = [r..<r + length xs])"
proof
  assume s: "isStraight xs"
  have nth: "xs ! i = xs ! 0 + i" if "i < length xs" for i
    using straight_nth [OF _ that] s by (simp add: isStraight_def)
  have last: "xs ! (length xs - 1) \<in> set xs" using assms(1) by simp
  then have "xs ! (length xs - 1) < 13" using assms(2) by blast
  moreover have "xs ! (length xs - 1) \<noteq> 12" using last s unfolding isStraight_def by metis
  ultimately have "xs ! (length xs - 1) < 12" by linarith
  then have "xs ! 0 + length xs \<le> 12" using nth [of "length xs - 1"] assms(1) by (cases xs) auto
  moreover have "xs = [xs ! 0..<xs ! 0 + length xs]"
    by (rule nth_equalityI) (auto simp: nth)
  ultimately show "\<exists>r. r + length xs \<le> 12 \<and> xs = [r..<r + length xs]" by blast
next
  assume "\<exists>r. r + length xs \<le> 12 \<and> xs = [r..<r + length xs]"
  then obtain r where r: "r + length xs \<le> 12" "xs = [r..<r + length xs]" by blast
  have "[r..<r + length xs] ! i = r + i" if "i < length xs" for i using that by simp
  then have "xs ! i = r + i" if "i < length xs" for i using that r(2) by metis
  moreover have "set xs = {r..<r + length xs}" using arg_cong [OF r(2), of set] by simp
  then have "12 \<notin> set xs" using r(1) by auto
  ultimately show "isStraight xs" by (auto simp: isStraight_def)
qed

lemma isPairStraight_iff:
  assumes "length cs = 2 * k" "0 < k" "\<forall>c \<in> set cs. c < 52"
  shows "isPairStraight cs \<longleftrightarrow> (\<exists>r. r + k \<le> 12 \<and> map rankOf cs = doubles r k)"
proof
  let ?R = "map rankOf cs"
  assume p: "isPairStraight cs"
  have pair: "?R ! i = ?R ! (i + 1)" if "even i" "i < 2 * k" for i
  proof -
    have "\<forall>i \<in> set (filter even [0..<length cs]). i + 1 < length cs \<and> ?R ! i = ?R ! (i + 1)"
      using p unfolding isPairStraight_def Let_def by blast
    then show ?thesis using that assms(1) by simp
  qed
  have nxt: "?R ! i = ?R ! (i - 2) + 1" if i: "even i" "2 \<le> i" "i < 2 * k" for i
  proof -
    have a: "\<forall>i \<in> set (filter even [2..<length cs]). ?R ! i = ?R ! (i - 2) + 1"
      using p unfolding isPairStraight_def Let_def by blast
    have "i \<in> set (filter even [2..<length cs])" using i assms(1) by simp
    then show ?thesis by (rule bspec [OF a])
  qed
  have ev: "?R ! (2 * i) = ?R ! 0 + i" if "i < k" for i
    using that
  proof (induction i)
    case (Suc i)
    have "?R ! (2 * Suc i) = ?R ! (2 * i) + 1" using nxt [of "2 * Suc i"] Suc.prems by simp
    then show ?case using Suc by simp
  qed simp
  have nth: "?R ! j = ?R ! 0 + j div 2" if j: "j < 2 * k" for j
  proof (cases "even j")
    case True
    then obtain i where "j = 2 * i" by blast
    then show ?thesis using ev [of i] j by simp
  next
    case False
    then obtain i where i: "j = Suc (2 * i)" using oddE by (metis Suc_eq_plus1)
    then show ?thesis using ev [of i] pair [of "2 * i"] j by simp
  qed
  have mem: "?R ! (2 * (k - 1)) \<in> set ?R" using assms(1,2) by (intro nth_mem) simp
  then have "?R ! (2 * (k - 1)) < 13" using assms(3) rankOf_less by auto
  moreover have "?R ! (2 * (k - 1)) \<noteq> 12" using mem p unfolding isPairStraight_def Let_def by metis
  ultimately have "?R ! 0 + k \<le> 12" using ev [of "k - 1"] assms(2) by simp
  moreover have "?R = doubles (?R ! 0) k"
  proof (rule nth_equalityI)
    fix j assume "j < length ?R"
    then have "j < 2 * k" using assms(1) by simp
    then show "?R ! j = doubles (?R ! 0) k ! j" unfolding nth_doubles [OF \<open>j < 2 * k\<close>] by (rule nth)
  qed (use assms(1) in simp)
  ultimately show "\<exists>r. r + k \<le> 12 \<and> ?R = doubles r k" by blast
next
  let ?R = "map rankOf cs"
  assume "\<exists>r. r + k \<le> 12 \<and> ?R = doubles r k"
  then obtain r where r: "r + k \<le> 12" "?R = doubles r k" by blast
  have nth: "?R ! j = r + j div 2" if "j < 2 * k" for j using that r(2) nth_doubles by metis
  have "set ?R = {r..<r + k}" unfolding r(2) by (rule set_doubles)
  then have A: "12 \<notin> set ?R" using r(1) by auto
  have B: "i + 1 < 2 * k \<and> ?R ! i = ?R ! (i + 1)" if "even i" "i < 2 * k" for i
  proof -
    from that(1) obtain m where m: "i = 2 * m" by blast
    with that(2) have "i + 1 < 2 * k" by simp
    then show ?thesis using nth [of i] nth [of "i + 1"] that(2) m by simp
  qed
  have C: "?R ! i = ?R ! (i - 2) + 1" if i: "even i" "2 \<le> i" "i < 2 * k" for i
  proof -
    from i(1) obtain m where m: "i = 2 * m" by blast
    then obtain m' where "m = Suc m'" using i(2) by (cases m) auto
    then show ?thesis using nth [of i] nth [of "i - 2"] i(3) m by simp
  qed
  show "isPairStraight cs"
    unfolding isPairStraight_def Let_def assms(1)
  proof (intro conjI ballI)
    fix i assume "i \<in> set (filter even [0..<2 * k])"
    then have "even i" "i < 2 * k" by auto
    then show "i + 1 < 2 * k" "?R ! i = ?R ! (i + 1)" using B by blast+
  next
    fix i assume "i \<in> set (filter even [2..<2 * k])"
    then have "even i" "2 \<le> i" "i < 2 * k" by auto
    then show "?R ! i = ?R ! (i - 2) + 1" by (rule C)
  qed (rule A)
qed

lemma same_rank_straight:
  assumes "map rankOf cs = [r..<r + k]" "3 \<le> k"
  shows "\<not> (\<forall>c \<in> set cs. rankOf c = rankOf (hd cs))"
proof
  assume a: "\<forall>c \<in> set cs. rankOf c = rankOf (hd cs)"
  have "set [r..<r + k] = rankOf ` set cs" using assms(1) by (metis list.set_map)
  then have "{r, Suc r} \<subseteq> rankOf ` set cs" using assms(2) by auto
  then show False using a by auto
qed

lemma same_rank_pairs:
  assumes "map rankOf cs = doubles r k" "3 \<le> k"
  shows "\<not> (\<forall>c \<in> set cs. rankOf c = rankOf (hd cs))"
proof
  assume a: "\<forall>c \<in> set cs. rankOf c = rankOf (hd cs)"
  have "set (doubles r k) = rankOf ` set cs" using assms(1) by (metis list.set_map)
  then have "{r, Suc r} \<subseteq> rankOf ` set cs" using assms(2) by (auto simp: set_doubles)
  then show False using a by auto
qed

lemma straight_not_pairs:
  "\<lbrakk>map rankOf cs = [r..<r + k]; map rankOf cs = doubles r' k'; 3 \<le> k'\<rbrakk> \<Longrightarrow> False"
  using nth_doubles [of 0 k' r'] nth_doubles [of 1 k' r'] length_doubles [of r' k']
  by (auto simp: upt_rec [of r] split: if_splits)

lemma combo_type_ex:
  "(\<exists>ty. P ty) \<longleftrightarrow> P SINGLE \<or> P PAIR \<or> P TRIPLE \<or> P STRAIGHT \<or> P PAIR_STRAIGHT \<or> P FOUR"
  by (metis ComboType.exhaust)

lemma straight_shape:
  assumes "s \<noteq> []" "\<forall>x \<in> set (map rankOf s). x < 13"
  shows "is_combo STRAIGHT s \<longleftrightarrow> 3 \<le> length s \<and> isStraight (map rankOf s)"
proof -
  have "(\<exists>r k. 3 \<le> k \<and> r + k \<le> 12 \<and> map rankOf s = [r..<r + k])
      \<longleftrightarrow> 3 \<le> length s \<and> (\<exists>r. r + length s \<le> 12 \<and> map rankOf s = [r..<r + length s])"
  proof
    assume "\<exists>r k. 3 \<le> k \<and> r + k \<le> 12 \<and> map rankOf s = [r..<r + k]"
    then obtain r k where k: "3 \<le> k" "r + k \<le> 12" "map rankOf s = [r..<r + k]" by blast
    have "length s = k" using arg_cong [OF k(3), of length] by simp
    then show "3 \<le> length s \<and> (\<exists>r. r + length s \<le> 12 \<and> map rankOf s = [r..<r + length s])" using k by metis
  qed blast
  then show ?thesis using isStraight_iff [of "map rankOf s"] assms by simp
qed

lemma pairs_shape:
  assumes "\<forall>c \<in> set s. c < 52"
  shows "is_combo PAIR_STRAIGHT s \<longleftrightarrow> 6 \<le> length s \<and> even (length s) \<and> isPairStraight s"
proof
  assume "is_combo PAIR_STRAIGHT s"
  then obtain r k where k: "3 \<le> k" "r + k \<le> 12" "map rankOf s = doubles r k" by auto
  then have "length s = 2 * k" by (metis length_doubles length_map)
  then show "6 \<le> length s \<and> even (length s) \<and> isPairStraight s" using isPairStraight_iff [of s k] assms k by auto
next
  assume a: "6 \<le> length s \<and> even (length s) \<and> isPairStraight s"
  then obtain k where "length s = 2 * k" by blast
  then show "is_combo PAIR_STRAIGHT s" using isPairStraight_iff [of s k] assms a by auto
qed

text \<open>The shapes exclude each other.\<close>

lemma shapes_exclusive:
  "is_combo STRAIGHT s \<Longrightarrow> \<not> (\<forall>c \<in> set s. rankOf c = rankOf (hd s))"
  "is_combo PAIR_STRAIGHT s \<Longrightarrow> \<not> (\<forall>c \<in> set s. rankOf c = rankOf (hd s)) \<and> \<not> is_combo STRAIGHT s"
proof -
  assume "is_combo STRAIGHT s"
  then obtain r k where "3 \<le> k" "map rankOf s = [r..<r + k]" by auto
  then show "\<not> (\<forall>c \<in> set s. rankOf c = rankOf (hd s))" using same_rank_straight by blast
next
  assume "is_combo PAIR_STRAIGHT s"
  then obtain r k where k: "3 \<le> k" "map rankOf s = doubles r k" by auto
  then have "\<not> is_combo STRAIGHT s" using straight_not_pairs by (metis is_combo.simps(5))
  then show "\<not> (\<forall>c \<in> set s. rankOf c = rankOf (hd s)) \<and> \<not> is_combo STRAIGHT s" using same_rank_pairs k by blast
qed

text \<open>
  C37: A selection of cards is recognised exactly when the rules allow it, and as what the rules call it:
  \<open>identifyCombo\<close> agrees with the reference definition on every list of cards of the deck, in whatever
  order they are given, and the strength it reports is the highest card.
\<close>

theorem identifyCombo_correct:
  assumes "\<forall>c \<in> set cards. c < 52" "cards \<noteq> []"
  shows "identifyCombo cards = Some cb \<longleftrightarrow> (\<exists>ty. is_combo ty (sort cards) \<and> cb = combo ty (sort cards))"
proof -
  let ?s = "sort cards"
  have ne: "?s \<noteq> []" using assms(2) by (metis sort_key_simps(1) set_empty set_sort)
  have lt: "\<forall>c \<in> set ?s. c < 52" "\<forall>x \<in> set (map rankOf ?s). x < 13" using assms(1) rankOf_less by auto
  have hd: "hd (map rankOf ?s) = rankOf (hd ?s)" using ne by (simp add: hd_map)
  note str = straight_shape [OF ne lt(2)] and ps = pairs_shape [OF lt(1)] and excl = shapes_exclusive [of ?s]
  have one: "length ?s = 1 \<Longrightarrow> \<forall>c \<in> set ?s. rankOf c = rankOf (hd ?s)" by (cases ?s) auto
  have same: "(\<forall>r \<in> set (map rankOf ?s). r = hd (map rankOf ?s)) \<longleftrightarrow> (\<forall>c \<in> set ?s. rankOf c = rankOf (hd ?s))"
    unfolding hd by auto
  note ex = combo_type_ex [where P = "\<lambda>ty. is_combo ty ?s \<and> cb = combo ty ?s"]
  show ?thesis
  proof (cases "\<forall>c \<in> set ?s. rankOf c = rankOf (hd ?s)")
    case True
    then have "\<not> is_combo STRAIGHT ?s" "\<not> is_combo PAIR_STRAIGHT ?s" using excl by blast+
    then show ?thesis unfolding ex unfolding identifyCombo_def Let_def same
      using True assms(2) by (auto simp del: is_combo.simps(5,6))
  next
    case False
    then have "\<not> is_combo SINGLE ?s" using one by auto
    then show ?thesis unfolding ex unfolding identifyCombo_def Let_def same
      using False assms(2) excl(2) str ps by (auto simp del: is_combo.simps(5,6))
  qed
qed

theorem identifyCombo_correct_witness:
  "identifyCombo [17, 8, 5, 9, 4, 16] = Some (combo PAIR_STRAIGHT (sort [17, 8, 5, 9, 4, 16])) \<longleftrightarrow>
     (\<exists>ty. is_combo ty (sort [17, 8, 5, 9, 4, 16])
        \<and> combo PAIR_STRAIGHT (sort [17, 8, 5, 9, 4, 16]) = combo ty (sort [17, 8, 5, 9, 4, 16]))"
  by (rule identifyCombo_correct) simp_all

lemma identifyCombo_perm:
  assumes "mset xs = mset ys"
  shows "identifyCombo xs = identifyCombo ys"
proof -
  have "sort xs = sort ys" using assms by (metis sorted_list_of_multiset_mset)
  moreover have "xs = [] \<longleftrightarrow> ys = []" using assms by auto
  ultimately show ?thesis by (simp add: identifyCombo_def)
qed

text \<open>What is known of a recognised combination.\<close>

lemma identify_facts:
  assumes "identifyCombo cards = Some cb"
  shows "cb_cards cb = sort cards" "cb_length cb = length cards" "cb_rankValue cb = last (sort cards)"
    "cards \<noteq> []"
    "cb_type cb = SINGLE \<longleftrightarrow> length cards = 1"
    "cb_type cb = PAIR \<longleftrightarrow> length cards = 2"
    "cb_type cb \<in> {TRIPLE, FOUR} \<Longrightarrow> length cards \<in> {3, 4}"
    "cb_type cb = STRAIGHT \<Longrightarrow> 3 \<le> length cards"
    "cb_type cb = PAIR_STRAIGHT \<Longrightarrow> 6 \<le> length cards \<and> even (length cards)"
  using assms by (auto simp: identifyCombo_def Let_def combo_def split: if_splits)

section \<open>Beating\<close>

text \<open>
  The order of play has no cycles of two: no combination can be played on another that could be
  played on it, bombs included, and nothing beats itself.
\<close>

theorem canBeat_asymmetric:
  "\<not> (canBeat a (Some b) \<and> canBeat b (Some a))"
  by (cases "cb_type a"; cases "cb_type b")
     (auto simp: canBeat_def is_two_of_def Let_def split: if_splits)

text \<open>Four pairs beat four of a kind, which beats three pairs, which four pairs do not beat.\<close>

lemma canBeat_not_transitive:
  "canBeat (combo PAIR_STRAIGHT [0,1,4,5,8,9,12,13]) (Some (combo FOUR [16,17,18,19]))"
  "canBeat (combo FOUR [16,17,18,19]) (Some (combo PAIR_STRAIGHT [20,21,24,25,28,29]))"
  "\<not> canBeat (combo PAIR_STRAIGHT [0,1,4,5,8,9,12,13]) (Some (combo PAIR_STRAIGHT [20,21,24,25,28,29]))"
  by (simp_all add: canBeat_def combo_def is_two_of_def Let_def pairStraightLength_def)

text \<open>
  What beats a single two: a higher two, four of a kind, and runs of exactly three or four pairs.
  A longer run of pairs does not, although such a run counts as a bomb when chops are priced.
\<close>

theorem beats_single_two_iff:
  assumes "identifyCombo cards = Some cand" "48 \<le> two" "two < 52" "\<forall>c \<in> set cards. c < 52"
  shows "canBeat cand (Some (combo SINGLE [two])) \<longleftrightarrow>
     (\<exists>c. cards = [c] \<and> two < c) \<or> cb_type cand = FOUR
     \<or> (cb_type cand = PAIR_STRAIGHT \<and> length cards \<in> {6, 8})"
proof -
  note f = identify_facts [OF assms(1)]
  have two: "two div 4 = 12" using assms(2,3) by auto
  have len: "pairStraightLength cand = of_nat (length cards) / 2" by (simp add: pairStraightLength_def f(2))
  have "canBeat cand (Some (combo SINGLE [two])) \<longleftrightarrow>
      (cb_type cand = SINGLE \<and> length cards = 1 \<and> two < last (sort cards)) \<or> cb_type cand = FOUR
      \<or> (cb_type cand = PAIR_STRAIGHT \<and> (length cards = 6 \<or> length cards = 8))"
    using f(2,3) two
    by (cases "cb_type cand") (auto simp: canBeat_def combo_def is_two_of_def Let_def rankOf_def len field_simps)
  moreover have "(length cards = 1 \<and> two < last (sort cards)) \<longleftrightarrow> (\<exists>c. cards = [c] \<and> two < c)"
    by (auto simp: length_Suc_conv)
  ultimately show ?thesis using f(5) by auto
qed

theorem beats_single_two_iff_witness:
  "canBeat (combo PAIR_STRAIGHT [0,1,4,5,8,9,12,13,16,17]) (Some (combo SINGLE [50])) = False
     \<and> choppedHeoCards (combo PAIR_STRAIGHT [0,1,4,5,8,9,12,13,16,17]) (Some (combo SINGLE [50])) = [50]"
proof -
  have i: "identifyCombo [0,1,4,5,8,9,12,13,16,17] = Some (combo PAIR_STRAIGHT [0,1,4,5,8,9,12,13,16,17])"
    by code_simp
  show ?thesis using beats_single_two_iff [OF i, of 50]
    by (simp add: combo_def choppedHeoCards_def is_two_of_def rankOf_def pairStraightLength_def)
qed

text \<open>A chop is priced only when two is beaten, and then every two of the beaten play is counted.\<close>

lemma choppedHeo_twos:
  "choppedHeoCards cand (Some c) \<noteq> [] \<Longrightarrow> set (choppedHeoCards cand (Some c)) \<subseteq> {x \<in> set (cb_cards c). rankOf x = 12}"
  by (auto simp: choppedHeoCards_def split: if_splits)

lemma chop_units_eq: "hb_units (chopHeoBreakdown heo) = sum_list (map (\<lambda>c. if isRedSuit c then 2 else 1) heo)"
  by (induction heo) (simp_all add: chopHeoBreakdown_def Let_def)

lemma chop_units_bounds: "length heo \<le> hb_units (chopHeoBreakdown heo)" "hb_units (chopHeoBreakdown heo) \<le> 2 * length heo"
  unfolding chop_units_eq by (induction heo) auto

section \<open>The first lead\<close>

lemma lowest_from_inv:
  assumes "\<forall>h \<in> set hands. sorted h"
    "case best of None \<Rightarrow> True | Some b \<Rightarrow> who < i"
  shows "(lowest_from i (best, who) hands = who \<and> (\<forall>h \<in> set hands. h \<noteq> [] \<longrightarrow> (\<exists>b. best = Some b \<and> b \<le> hd h)))
    \<or> (\<exists>j < length hands. lowest_from i (best, who) hands = i + j \<and> hands ! j \<noteq> []
        \<and> (\<forall>h \<in> set hands. h \<noteq> [] \<longrightarrow> hd (hands ! j) \<le> hd h)
        \<and> (case best of None \<Rightarrow> True | Some b \<Rightarrow> hd (hands ! j) < b))"
  using assms
proof (induction hands arbitrary: i best who)
  case (Cons h hs)
  show ?case
  proof (cases "h \<noteq> [] \<and> (case best of None \<Rightarrow> True | Some b \<Rightarrow> hd h < b)")
    case True
    have "(lowest_from (Suc i) (Some (hd h), i) hs = i \<and> (\<forall>x \<in> set hs. x \<noteq> [] \<longrightarrow> (\<exists>b. Some (hd h) = Some b \<and> b \<le> hd x)))
      \<or> (\<exists>j < length hs. lowest_from (Suc i) (Some (hd h), i) hs = Suc i + j \<and> hs ! j \<noteq> []
        \<and> (\<forall>x \<in> set hs. x \<noteq> [] \<longrightarrow> hd (hs ! j) \<le> hd x) \<and> hd (hs ! j) < hd h)"
      using Cons.IH [where best = "Some (hd h)" and who = i and i = "Suc i"] Cons.prems(1) by simp
    then show ?thesis
    proof
      assume a: "lowest_from (Suc i) (Some (hd h), i) hs = i \<and> (\<forall>x \<in> set hs. x \<noteq> [] \<longrightarrow> (\<exists>b. Some (hd h) = Some b \<and> b \<le> hd x))"
      show ?thesis by (rule disjI2, rule exI [of _ 0]) (use a True in \<open>auto split: option.splits\<close>)
    next
      assume "\<exists>j < length hs. lowest_from (Suc i) (Some (hd h), i) hs = Suc i + j \<and> hs ! j \<noteq> []
        \<and> (\<forall>x \<in> set hs. x \<noteq> [] \<longrightarrow> hd (hs ! j) \<le> hd x) \<and> hd (hs ! j) < hd h"
      then obtain j where j: "j < length hs" "lowest_from (Suc i) (Some (hd h), i) hs = Suc i + j" "hs ! j \<noteq> []"
        "\<forall>x \<in> set hs. x \<noteq> [] \<longrightarrow> hd (hs ! j) \<le> hd x" "hd (hs ! j) < hd h" by blast
      show ?thesis by (rule disjI2, rule exI [of _ "Suc j"]) (use j True in \<open>auto split: option.splits\<close>)
    qed
  next
    case False
    have l: "lowest_from i (best, who) (h # hs) = lowest_from (Suc i) (best, who) hs" using False by auto
    have "(lowest_from (Suc i) (best, who) hs = who \<and> (\<forall>x \<in> set hs. x \<noteq> [] \<longrightarrow> (\<exists>b. best = Some b \<and> b \<le> hd x)))
      \<or> (\<exists>j < length hs. lowest_from (Suc i) (best, who) hs = Suc i + j \<and> hs ! j \<noteq> []
        \<and> (\<forall>x \<in> set hs. x \<noteq> [] \<longrightarrow> hd (hs ! j) \<le> hd x)
        \<and> (case best of None \<Rightarrow> True | Some b \<Rightarrow> hd (hs ! j) < b))"
      using Cons.IH [where best = best and who = who and i = "Suc i"] Cons.prems by (auto split: option.splits)
    then show ?thesis
    proof
      assume a: "lowest_from (Suc i) (best, who) hs = who \<and> (\<forall>x \<in> set hs. x \<noteq> [] \<longrightarrow> (\<exists>b. best = Some b \<and> b \<le> hd x))"
      show ?thesis by (rule disjI1) (use a False l in \<open>auto split: option.splits\<close>)
    next
      assume "\<exists>j < length hs. lowest_from (Suc i) (best, who) hs = Suc i + j \<and> hs ! j \<noteq> []
        \<and> (\<forall>x \<in> set hs. x \<noteq> [] \<longrightarrow> hd (hs ! j) \<le> hd x)
        \<and> (case best of None \<Rightarrow> True | Some b \<Rightarrow> hd (hs ! j) < b)"
      then obtain j where j: "j < length hs" "lowest_from (Suc i) (best, who) hs = Suc i + j" "hs ! j \<noteq> []"
        "\<forall>x \<in> set hs. x \<noteq> [] \<longrightarrow> hd (hs ! j) \<le> hd x"
        "case best of None \<Rightarrow> True | Some b \<Rightarrow> hd (hs ! j) < b" by blast
      show ?thesis by (rule disjI2, rule exI [of _ "Suc j"]) (use j False l in \<open>auto split: option.splits\<close>)
    qed
  qed
qed simp

lemma holderOfLowest_least:
  assumes "\<forall>h \<in> set hands. sorted h \<and> h \<noteq> []" "hands \<noteq> []"
  shows "holderOfLowest hands < length hands"
    "\<forall>h \<in> set hands. \<forall>c \<in> set h. hd (hands ! holderOfLowest hands) \<le> c"
proof -
  have "(\<exists>j < length hands. holderOfLowest hands = j \<and> (\<forall>h \<in> set hands. h \<noteq> [] \<longrightarrow> hd (hands ! j) \<le> hd h))"
    using lowest_from_inv [where hands = hands and best = None and who = 0 and i = 0] assms by (auto simp: holderOfLowest_def neq_Nil_conv)
  then have j: "holderOfLowest hands < length hands" "\<forall>h \<in> set hands. hd (hands ! holderOfLowest hands) \<le> hd h"
    using assms(1) by auto
  then show "holderOfLowest hands < length hands" by simp
  have "hd h \<le> c" if "h \<in> set hands" "c \<in> set h" for h c
  proof -
    have "sorted h" "h = hd h # tl h" using that(1) assms(1) by auto
    then have "\<forall>x \<in> set (tl h). hd h \<le> x" by (metis sorted_simps(2))
    then show ?thesis using that(2) \<open>h = hd h # tl h\<close> by (metis order_refl set_ConsD)
  qed
  then show "\<forall>h \<in> set hands. \<forall>c \<in> set h. hd (hands ! holderOfLowest hands) \<le> c"
    using j(2) by (meson le_trans)
qed

end
