(* ===== verification/TienLenTable.thy ===== *)
theory TienLenTable
  imports TienLenLogic Enums
begin

text \<open>
  The table of a Tien Len game: the document of
  \<open>src/games/tienlen/schemas/tienlen-game.schema.ts\<close> and the operations of
  \<open>src/games/tienlen/tienlen.service.ts\<close> that only change the document (a play, a pass, whose turn it
  is, a resignation, the final standing). A reference to a seat object is its position in the
  list of seats. The service around them is the theory TienLenGame.
\<close>

section \<open>The document\<close>

datatype TienLenStatus = ACTIVE | FINISHED | ABORTED

record TienLenSeat =
  s_userId :: oid
  s_seat :: nat
  s_hand :: "card list"
  s_handCount :: nat
  s_finishedRank :: nat
  s_passed :: bool
  s_connected :: bool

record TienLenPlay =
  pl_seat :: nat
  pl_userId :: oid
  pl_cards :: "card list"
  pl_comboType :: "ComboType option"
  pl_at :: int

record Chop =
  ch_chopper :: oid
  ch_victim :: oid
  ch_heoCount :: nat
  ch_black :: nat
  ch_red :: nat
  ch_at :: int

record TienLenGame =
  g_id :: oid
  g_roomId :: "oid option"
  g_mode :: GameMode
  g_betAmount :: int
  g_pot :: int
  g_status :: TienLenStatus
  g_seats :: "TienLenSeat list"
  g_turn :: nat
  g_openingCard :: card
  g_currentCombo :: "card list"
  g_currentComboType :: "ComboType option"
  g_leadSeat :: nat
  g_history :: "TienLenPlay list"
  g_finishOrder :: "nat list"
  g_resignedSeats :: "nat list"
  g_rpChange :: "(oid \<rightharpoonup> int) option"
  g_coinChange :: "(oid \<rightharpoonup> int) option"
  g_chops :: "Chop list"
  g_instantWin :: "(oid \<times> InstantWin) option"
  g_endedAt :: "int option"

section \<open>Operations\<close>

definition seatOf :: "TienLenGame \<Rightarrow> oid \<Rightarrow> nat option" where
  "seatOf g u = List.find (\<lambda>i. s_userId (g_seats g ! i) = u) [0..<length (g_seats g)]"

definition activeSeats :: "TienLenGame \<Rightarrow> TienLenSeat list" where
  "activeSeats g = filter (\<lambda>s. s_handCount s > 0) (g_seats g)"

definition upd_seat :: "nat \<Rightarrow> (TienLenSeat \<Rightarrow> TienLenSeat) \<Rightarrow> TienLenGame \<Rightarrow> TienLenGame" where
  "upd_seat i f g = g\<lparr>g_seats := (g_seats g)[i := f (g_seats g ! i)]\<rparr>"

definition currentComboObj :: "TienLenGame \<Rightarrow> Combo option" where
  "currentComboObj g = (if g_currentCombo g = [] then None else identifyCombo (g_currentCombo g))"

text \<open>The seats in the order of the loops over \<open>(from + i) % n\<close>, \<open>i\<close> from 1 to \<open>n\<close>.\<close>

definition ring :: "nat \<Rightarrow> nat \<Rightarrow> nat list" where
  "ring n k = map (\<lambda>i. (k + i) mod n) [1..<Suc n]"

definition nextActiveSeat :: "TienLenGame \<Rightarrow> nat \<Rightarrow> nat" where
  "nextActiveSeat g k =
     (case List.find (\<lambda>c. s_handCount (g_seats g ! c) > 0) (ring (length (g_seats g)) k) of
        Some c \<Rightarrow> c | None \<Rightarrow> k)"

definition resetTrick :: "TienLenGame \<Rightarrow> TienLenGame" where
  "resetTrick g =
     (let g = g\<lparr>g_currentCombo := [], g_currentComboType := None,
                g_seats := map (\<lambda>s. s\<lparr>s_passed := False\<rparr>) (g_seats g)\<rparr>
      in if g_leadSeat g < length (g_seats g) \<and> s_handCount (g_seats g ! g_leadSeat g) > 0
         then g\<lparr>g_turn := g_leadSeat g\<rparr>
         else g\<lparr>g_turn := nextActiveSeat g (g_leadSeat g)\<rparr>)"

fun advance_loop :: "TienLenGame \<Rightarrow> nat list \<Rightarrow> TienLenGame" where
  "advance_loop g [] = resetTrick g"
| "advance_loop g (cand # cands) =
     (let s = g_seats g ! cand
      in if s_handCount s = 0 then advance_loop g cands
         else if cand = g_leadSeat g then resetTrick g
         else if s_passed s then advance_loop g cands
         else g\<lparr>g_turn := cand\<rparr>)"

definition advanceTurn :: "TienLenGame \<Rightarrow> nat \<Rightarrow> TienLenGame" where
  "advanceTurn g fromSeat = advance_loop g (ring (length (g_seats g)) fromSeat)"

definition applyPlay :: "TienLenGame \<Rightarrow> nat \<Rightarrow> Combo \<Rightarrow> card list \<Rightarrow> int \<Rightarrow> TienLenGame" where
  "applyPlay g i cb newHand now =
     (let me = g_seats g ! i;
          g = upd_seat i (\<lambda>s. s\<lparr>s_hand := newHand, s_handCount := length newHand\<rparr>) g;
          g = g\<lparr>g_currentCombo := cb_cards cb, g_currentComboType := Some (cb_type cb), g_leadSeat := s_seat me\<rparr>;
          g = g\<lparr>g_seats := map (\<lambda>s. if s_handCount s > 0 then s\<lparr>s_passed := False\<rparr> else s) (g_seats g)\<rparr>;
          g = g\<lparr>g_history := g_history g @
                [\<lparr>pl_seat = s_seat me, pl_userId = s_userId me, pl_cards = cb_cards cb,
                  pl_comboType = Some (cb_type cb), pl_at = now\<rparr>]\<rparr>;
          g = (if newHand = []
               then (upd_seat i (\<lambda>s. s\<lparr>s_finishedRank := length (g_finishOrder g) + 1\<rparr>) g)
                      \<lparr>g_finishOrder := g_finishOrder g @ [s_seat me]\<rparr>
               else g)
      in advanceTurn g (s_seat me))"

definition applyPass :: "TienLenGame \<Rightarrow> nat \<Rightarrow> int \<Rightarrow> TienLenGame" where
  "applyPass g i now =
     (let me = g_seats g ! i;
          g = upd_seat i (\<lambda>s. s\<lparr>s_passed := True\<rparr>) g;
          g = g\<lparr>g_history := g_history g @
                [\<lparr>pl_seat = s_seat me, pl_userId = s_userId me, pl_cards = [], pl_comboType = None, pl_at = now\<rparr>]\<rparr>
      in advanceTurn g (s_seat me))"

definition maybeFinish :: "TienLenGame \<Rightarrow> bool" where
  "maybeFinish g \<longleftrightarrow> length (activeSeats g) \<le> 1"

definition forceFinishLast :: "TienLenGame \<Rightarrow> nat \<Rightarrow> TienLenGame" where
  "forceFinishLast g i =
     (let k = s_seat (g_seats g ! i);
          g = upd_seat i (\<lambda>s. s\<lparr>s_handCount := 0, s_hand := [], s_finishedRank := 0\<rparr>) g
      in if k \<in> set (g_resignedSeats g) then g else g\<lparr>g_resignedSeats := g_resignedSeats g @ [k]\<rparr>)"

text \<open>What \<open>resign\<close> and \<open>forfeitDisconnected\<close> do next while the game goes on.\<close>

definition hand_on :: "TienLenGame \<Rightarrow> nat \<Rightarrow> TienLenGame" where
  "hand_on g k =
     (if g_leadSeat g = k then resetTrick (g\<lparr>g_leadSeat := nextActiveSeat g k\<rparr>)
      else if g_turn g = k then g\<lparr>g_turn := nextActiveSeat g k\<rparr>
      else g)"

text \<open>The guards of \<open>play\<close>: those before the turn timer is stopped, and those after.\<close>

definition turn_guard :: "TienLenGame \<Rightarrow> oid \<Rightarrow> http_error + nat" where
  "turn_guard g u =
     (if g_status g \<noteq> ACTIVE then Inl (BadRequest ''Game is not active'')
      else case seatOf g u of
        None \<Rightarrow> Inl (Forbidden ''Not a player in this game'')
      | Some i \<Rightarrow> if g_turn g \<noteq> s_seat (g_seats g ! i) then Inl (BadRequest ''Not your turn'') else Inr i)"

definition play_guard :: "TienLenGame \<Rightarrow> nat \<Rightarrow> card list \<Rightarrow> http_error + (Combo \<times> card list)" where
  "play_guard g i cards =
     (case identifyCombo cards of
        None \<Rightarrow> Inl (BadRequest ''Invalid card combination'')
      | Some cb \<Rightarrow>
          if g_history g \<noteq> [] \<and> \<not> canBeat cb (currentComboObj g)
          then Inl (BadRequest ''Your combo does not beat the table'')
          else case removeCards (s_hand (g_seats g ! i)) cards of
            None \<Rightarrow> Inl (BadRequest ''You do not have those cards'')
          | Some newHand \<Rightarrow> Inr (cb, newHand))"

subsection \<open>The final standing\<close>

text \<open>\<open>for (const s of xs) if (!order.includes(s)) order.push(s)\<close>.\<close>

definition push_new :: "nat list \<Rightarrow> nat list \<Rightarrow> nat list" where
  "push_new order xs = foldl (\<lambda>acc x. if x \<in> set acc then acc else acc @ [x]) order xs"

definition finalOrder :: "TienLenGame \<Rightarrow> nat list" where
  "finalOrder g =
     push_new (push_new (push_new (push_new [] (g_finishOrder g)) (map s_seat (activeSeats g)))
       (rev (g_resignedSeats g))) (map s_seat (g_seats g))"

text \<open>\<open>indexOf\<close>, which is -1 for an absent element, plus one.\<close>

definition placeOf :: "nat list \<Rightarrow> nat \<Rightarrow> nat" where
  "placeOf order k = (case List.find (\<lambda>i. order ! i = k) [0..<length order] of Some i \<Rightarrow> i + 1 | None \<Rightarrow> 0)"

definition standings :: "nat list \<Rightarrow> int \<Rightarrow> TienLenGame \<Rightarrow> TienLenGame" where
  "standings order now g =
     g\<lparr>g_finishOrder := order,
       g_seats := map (\<lambda>s. s\<lparr>s_finishedRank := placeOf order (s_seat s)\<rparr>) (g_seats g),
       g_status := FINISHED, g_endedAt := Some now\<rparr>"

definition RP_SPREAD :: int where "RP_SPREAD = 24"

text \<open>The linear score from +1 for the first to -1 for the last, as a rank-point change.\<close>

definition place_delta :: "nat \<Rightarrow> nat \<Rightarrow> int" where
  "place_delta n place =
     js_round (of_int RP_SPREAD *
       (if n > 1 then (of_nat n - 2 * of_nat place + 1) / (of_nat n - 1) else 0) :: rat)"

record Rotten =
  ro_userId :: oid
  ro_black :: nat
  ro_red :: nat
  ro_units :: nat

definition winnerUid :: "TienLenGame \<Rightarrow> oid option" where
  "winnerUid g =
     (case g_finishOrder g of [] \<Rightarrow> None
      | w # _ \<Rightarrow> map_option s_userId (List.find (\<lambda>s. s_seat s = w) (g_seats g)))"

definition rotten_of :: "TienLenGame \<Rightarrow> Rotten list" where
  "rotten_of g =
     List.map_filter (\<lambda>s.
       if Some (s_userId s) = winnerUid g then None
       else let heo = rottenHeoCards (s_hand s); bd = chopHeoBreakdown heo
            in if heo = [] then None
               else Some \<lparr>ro_userId = s_userId s, ro_black = hb_black bd, ro_red = hb_red bd,
                          ro_units = hb_units bd\<rparr>) (g_seats g)"

definition rottenUnits :: "Rotten list \<Rightarrow> nat" where
  "rottenUnits rs = sum_list (map ro_units rs)"

text \<open>\<open>changes[k] = (changes[k] ?? 0) + d\<close> on a record keyed by user.\<close>

definition add_change :: "oid \<Rightarrow> int \<Rightarrow> (oid \<rightharpoonup> int) \<Rightarrow> (oid \<rightharpoonup> int)" where
  "add_change k d m = m(k \<mapsto> (case m k of Some x \<Rightarrow> x | None \<Rightarrow> 0) + d)"

definition rp_places :: "TienLenGame \<Rightarrow> (oid \<rightharpoonup> int)" where
  "rp_places g = foldl (\<lambda>m s. m(s_userId s \<mapsto> place_delta (length (g_seats g)) (placeOf (g_finishOrder g) (s_seat s))))
     Map.empty (g_seats g)"

definition rp_changes :: "int \<Rightarrow> TienLenGame \<Rightarrow> (oid \<rightharpoonup> int)" where
  "rp_changes rpPerUnit g =
     (let rs = rotten_of g; m = rp_places g
      in if rottenUnits rs > 0 then
           let m = foldl (\<lambda>m r. add_change (ro_userId r) (- (rpPerUnit * int (ro_units r))) m) m rs
           in case winnerUid g of Some w \<Rightarrow> add_change w (rpPerUnit * int (rottenUnits rs)) m | None \<Rightarrow> m
         else m)"

section \<open>Invariant\<close>

text \<open>
  A sound table: two to four seats numbered by their position, with distinct players; the hands are
  sorted, counted right, and together with the cards played they are distinct cards of the deck;
  the card on the table is a combination. While the game is active the players who are out
  are exactly those who emptied their hand and those who resigned, at least two are in, and one of
  those has the turn.
\<close>

definition played :: "TienLenGame \<Rightarrow> card list" where
  "played g = concat (map pl_cards (g_history g))"

definition hands :: "TienLenGame \<Rightarrow> card list list" where
  "hands g = map s_hand (g_seats g)"

definition table_ok :: "TienLenGame \<Rightarrow> bool" where
  "table_ok g \<longleftrightarrow>
     length (g_seats g) \<in> {2..4} \<and> map s_seat (g_seats g) = [0..<length (g_seats g)]
     \<and> (\<forall>s \<in> set (g_seats g). s_handCount s = length (s_hand s) \<and> sorted (s_hand s))
     \<and> distinct (map s_userId (g_seats g))
     \<and> distinct (concat (hands g) @ played g) \<and> (\<forall>c \<in> set (concat (hands g) @ played g). c < DECK_SIZE)
     \<and> g_turn g < length (g_seats g) \<and> g_leadSeat g < length (g_seats g)
     \<and> (g_currentCombo g \<noteq> [] \<longrightarrow> identifyCombo (g_currentCombo g) \<noteq> None)"

definition out_seats :: "TienLenGame \<Rightarrow> nat list" where
  "out_seats g = g_finishOrder g @ g_resignedSeats g"

definition live_ok :: "TienLenGame \<Rightarrow> bool" where
  "live_ok g \<longleftrightarrow> distinct (out_seats g)
     \<and> set (out_seats g) = {i. i < length (g_seats g) \<and> s_hand (g_seats g ! i) = []}
     \<and> s_hand (g_seats g ! g_turn g) \<noteq> [] \<and> 2 \<le> length (activeSeats g)"

definition final_ok :: "TienLenGame \<Rightarrow> bool" where
  "final_ok g \<longleftrightarrow> mset (g_finishOrder g) = mset [0..<length (g_seats g)]
     \<and> (\<forall>s \<in> set (g_seats g). s_finishedRank s = placeOf (g_finishOrder g) (s_seat s))"

definition game_ok :: "TienLenGame \<Rightarrow> bool" where
  "game_ok g \<longleftrightarrow> table_ok g \<and> (case g_status g of ACTIVE \<Rightarrow> live_ok g | FINISHED \<Rightarrow> final_ok g | ABORTED \<Rightarrow> False)"

section \<open>Whose turn it is\<close>

text \<open>What the turn mechanics leaves alone.\<close>

definition key :: "TienLenSeat \<Rightarrow> oid \<times> nat \<times> card list \<times> nat" where
  "key s = (s_userId s, s_seat s, s_hand s, s_handCount s)"

definition same_cards :: "TienLenGame \<Rightarrow> TienLenGame \<Rightarrow> bool" where
  "same_cards g h \<longleftrightarrow> map key (g_seats h) = map key (g_seats g) \<and> played h = played g
     \<and> g_finishOrder h = g_finishOrder g \<and> g_resignedSeats h = g_resignedSeats g
     \<and> g_status h = g_status g"

lemma same_cards_seats:
  assumes "same_cards g h"
  shows "length (g_seats h) = length (g_seats g)" "map s_userId (g_seats h) = map s_userId (g_seats g)"
    "map s_seat (g_seats h) = map s_seat (g_seats g)" "map s_hand (g_seats h) = map s_hand (g_seats g)"
    "map s_handCount (g_seats h) = map s_handCount (g_seats g)"
proof -
  have k: "map key (g_seats h) = map key (g_seats g)" using assms by (simp add: same_cards_def)
  show "length (g_seats h) = length (g_seats g)" using k by (rule map_eq_imp_length_eq)
  have m: "map (f \<circ> key) (g_seats h) = map (f \<circ> key) (g_seats g)" for f :: "_ \<Rightarrow> 'x"
    using k by (metis map_map)
  show "map s_userId (g_seats h) = map s_userId (g_seats g)" using m [of fst] by (simp add: key_def comp_def)
  show "map s_seat (g_seats h) = map s_seat (g_seats g)" using m [of "fst \<circ> snd"] by (simp add: key_def comp_def)
  show "map s_hand (g_seats h) = map s_hand (g_seats g)"
    using m [of "fst \<circ> snd \<circ> snd"] by (simp add: key_def comp_def)
  show "map s_handCount (g_seats h) = map s_handCount (g_seats g)"
    using m [of "snd \<circ> snd \<circ> snd"] by (simp add: key_def comp_def)
qed

lemma same_cards_nth:
  assumes "same_cards g h" "i < length (g_seats g)"
  shows "s_hand (g_seats h ! i) = s_hand (g_seats g ! i)" "s_handCount (g_seats h ! i) = s_handCount (g_seats g ! i)"
    "s_seat (g_seats h ! i) = s_seat (g_seats g ! i)" "s_userId (g_seats h ! i) = s_userId (g_seats g ! i)"
  using same_cards_seats [OF assms(1)] assms(2) by (metis nth_map)+

lemma same_cards_refl [simp]: "same_cards g g"
  by (simp add: same_cards_def)

lemma same_cards_trans: "\<lbrakk>same_cards g h; same_cards h k\<rbrakk> \<Longrightarrow> same_cards g k"
  by (simp add: same_cards_def)

lemma length_filter_map_eq:
  "map f xs = map f ys \<Longrightarrow> length (filter (\<lambda>x. P (f x)) xs) = length (filter (\<lambda>y. P (f y)) ys)"
  by (metis (mono_tags, lifting) filter_cong filter_map length_map o_def)

lemma same_cards_active: "same_cards g h \<Longrightarrow> length (activeSeats h) = length (activeSeats g)"
  using length_filter_map_eq [of s_handCount "g_seats h" "g_seats g" "\<lambda>k. 0 < k"] same_cards_seats(5) [of g h]
  by (simp add: activeSeats_def)

lemma same_cards_table:
  assumes "same_cards g h" "table_ok g" "g_turn h < length (g_seats g)" "g_leadSeat h < length (g_seats g)"
    "g_currentCombo h = [] \<or> g_currentCombo h = g_currentCombo g"
  shows "table_ok h"
proof -
  note k = same_cards_seats [OF assms(1)]
  have "\<forall>s \<in> set (g_seats h). s_handCount s = length (s_hand s) \<and> sorted (s_hand s)"
    using assms(2) same_cards_nth [OF assms(1)] k(1) by (auto simp: table_ok_def all_set_conv_all_nth)
  then show ?thesis
    using assms k by (auto simp: table_ok_def hands_def same_cards_def)
qed

lemma ring_mem: "0 < n \<Longrightarrow> x \<in> set (ring n k) \<longleftrightarrow> x < n"
proof -
  assume n: "0 < n"
  have "x \<in> set (ring n k)" if "x < n"
  proof -
    obtain m where m: "m = k mod n" "m < n" using n by simp
    define i where "i = (if m < x then x - m else n + x - m)"
    have i: "1 \<le> i" "i \<le> n" using that m(2) by (auto simp: i_def)
    have "m + i = x \<or> m + i = n + x" using m(2) that by (auto simp: i_def)
    then have "(k mod n + i) mod n = x" using that m(1) by auto
    then have "x = (k + i) mod n" by (simp add: mod_add_left_eq)
    moreover have "i \<in> set [1..<Suc n]" using i by auto
    ultimately show ?thesis unfolding ring_def set_map by blast
  qed
  then show ?thesis using n by (auto simp: ring_def)
qed

text \<open>A table at which somebody still holds cards has a next active seat.\<close>

lemma nextActiveSeat_active:
  assumes "i < length (g_seats g)" "0 < s_handCount (g_seats g ! i)"
  shows "nextActiveSeat g k < length (g_seats g)" "0 < s_handCount (g_seats g ! nextActiveSeat g k)"
proof -
  let ?n = "length (g_seats g)"
  have n: "0 < ?n" using assms(1) by auto
  have "List.find (\<lambda>c. 0 < s_handCount (g_seats g ! c)) (ring ?n k) \<noteq> None"
    using assms ring_mem [OF n, of i k] by (auto simp: find_None_iff)
  then obtain c where c: "List.find (\<lambda>c. 0 < s_handCount (g_seats g ! c)) (ring ?n k) = Some c" by auto
  then have "c \<in> set (ring ?n k) \<and> 0 < s_handCount (g_seats g ! c)" by (rule find_Some_iff_mem)
  then show "nextActiveSeat g k < ?n" "0 < s_handCount (g_seats g ! nextActiveSeat g k)"
    using c ring_mem [OF n] by (auto simp: nextActiveSeat_def)
qed

lemma resetTrick_cards: "same_cards g (resetTrick g)"
  by (simp add: resetTrick_def same_cards_def key_def comp_def Let_def played_def)

lemma resetTrick_fields [simp]:
  "g_leadSeat (resetTrick g) = g_leadSeat g" "g_currentCombo (resetTrick g) = []"
  "\<forall>s \<in> set (g_seats (resetTrick g)). \<not> s_passed s"
  by (auto simp: resetTrick_def Let_def)

lemma resetTrick_turn:
  assumes "i < length (g_seats g)" "0 < s_handCount (g_seats g ! i)"
  shows "g_turn (resetTrick g) < length (g_seats g)" "0 < s_handCount (g_seats g ! g_turn (resetTrick g))"
proof -
  define h where "h = g\<lparr>g_currentCombo := [], g_currentComboType := None,
    g_seats := map (\<lambda>s. s\<lparr>s_passed := False\<rparr>) (g_seats g)\<rparr>"
  have l: "length (g_seats h) = length (g_seats g)" "g_leadSeat h = g_leadSeat g" by (simp_all add: h_def)
  have eq: "s_handCount (g_seats h ! j) = s_handCount (g_seats g ! j)" if "j < length (g_seats g)" for j
    using that by (simp add: h_def)
  have n: "nextActiveSeat h (g_leadSeat g) < length (g_seats g)"
    "0 < s_handCount (g_seats g ! nextActiveSeat h (g_leadSeat g))"
    using nextActiveSeat_active [of i h "g_leadSeat g"] assms eq l by auto
  have "g_turn (resetTrick g) = (if g_leadSeat g < length (g_seats g) \<and> s_handCount (g_seats h ! g_leadSeat g) > 0
      then g_leadSeat g else nextActiveSeat h (g_leadSeat g))"
    using l by (simp add: resetTrick_def Let_def h_def [symmetric])
  then show "g_turn (resetTrick g) < length (g_seats g)" "0 < s_handCount (g_seats g ! g_turn (resetTrick g))"
    using n eq by (auto split: if_splits)
qed

text \<open>The loop stops at an active seat that has not passed, or the trick ends.\<close>

lemma advance_loop_cases:
  "advance_loop g cands = resetTrick g
   \<or> (\<exists>c \<in> set cands. advance_loop g cands = g\<lparr>g_turn := c\<rparr>
        \<and> 0 < s_handCount (g_seats g ! c) \<and> c \<noteq> g_leadSeat g \<and> \<not> s_passed (g_seats g ! c))"
proof (induction cands)
  case (Cons c cands)
  show ?case
  proof (cases "s_handCount (g_seats g ! c) = 0 \<or> c \<noteq> g_leadSeat g \<and> s_passed (g_seats g ! c)")
    case True
    then have "advance_loop g (c # cands) = advance_loop g cands" by (auto simp: Let_def)
    then show ?thesis using Cons.IH by auto
  qed (auto simp: Let_def)
qed simp

lemma advanceTurn_cases:
  assumes "0 < length (g_seats g)"
  obtains (turn) c where "c < length (g_seats g)" "advanceTurn g k = g\<lparr>g_turn := c\<rparr>"
      "0 < s_handCount (g_seats g ! c)" "c \<noteq> g_leadSeat g" "\<not> s_passed (g_seats g ! c)"
  | (reset) "advanceTurn g k = resetTrick g"
  using advance_loop_cases [of g "ring (length (g_seats g)) k"] ring_mem [OF assms] that
  unfolding advanceTurn_def by blast

lemma advanceTurn_effect:
  assumes "i < length (g_seats g)" "0 < s_handCount (g_seats g ! i)"
  shows "same_cards g (advanceTurn g k)" "g_turn (advanceTurn g k) < length (g_seats g)"
    "0 < s_handCount (g_seats g ! g_turn (advanceTurn g k))" "g_leadSeat (advanceTurn g k) = g_leadSeat g"
    "g_currentCombo (advanceTurn g k) \<in> {[], g_currentCombo g}"
proof -
  have n: "0 < length (g_seats g)" using assms(1) by linarith
  have "same_cards g (advanceTurn g k) \<and> g_turn (advanceTurn g k) < length (g_seats g)
      \<and> 0 < s_handCount (g_seats g ! g_turn (advanceTurn g k)) \<and> g_leadSeat (advanceTurn g k) = g_leadSeat g
      \<and> g_currentCombo (advanceTurn g k) \<in> {[], g_currentCombo g}"
    using n resetTrick_turn [OF assms] resetTrick_cards [of g]
    by (cases rule: advanceTurn_cases [of g k]) (auto simp: same_cards_def played_def)
  then show "same_cards g (advanceTurn g k)" "g_turn (advanceTurn g k) < length (g_seats g)"
    "0 < s_handCount (g_seats g ! g_turn (advanceTurn g k))" "g_leadSeat (advanceTurn g k) = g_leadSeat g"
    "g_currentCombo (advanceTurn g k) \<in> {[], g_currentCombo g}" by blast+
qed

section \<open>Every move keeps the table sound\<close>

lemma upd_seat_simps [simp]:
  "length (g_seats (upd_seat i f g)) = length (g_seats g)"
  "g_turn (upd_seat i f g) = g_turn g" "g_leadSeat (upd_seat i f g) = g_leadSeat g"
  "g_history (upd_seat i f g) = g_history g" "g_finishOrder (upd_seat i f g) = g_finishOrder g"
  "g_resignedSeats (upd_seat i f g) = g_resignedSeats g" "g_status (upd_seat i f g) = g_status g"
  "g_currentCombo (upd_seat i f g) = g_currentCombo g" "g_betAmount (upd_seat i f g) = g_betAmount g"
  "g_seats (upd_seat i f g) = (g_seats g)[i := f (g_seats g ! i)]"
  by (simp_all add: upd_seat_def)

lemma map_update_same: "k y = k (xs ! i) \<Longrightarrow> map k (xs[i := y]) = map k xs"
  by (cases "i < length xs") (auto intro!: nth_equalityI simp: nth_list_update)

lemma table_okD:
  assumes "table_ok g" "i < length (g_seats g)"
  shows "s_seat (g_seats g ! i) = i" "s_handCount (g_seats g ! i) = length (s_hand (g_seats g ! i))"
    "sorted (s_hand (g_seats g ! i))" "distinct (s_hand (g_seats g ! i))"
proof -
  have m: "map s_seat (g_seats g) = [0..<length (g_seats g)]" and d: "distinct (concat (hands g))"
    using assms(1) by (auto simp: table_ok_def)
  show "s_seat (g_seats g ! i) = i" using arg_cong [OF m, of "\<lambda>xs. xs ! i"] assms(2) by simp
  have "s_hand (g_seats g ! i) \<in> set (hands g)" using assms(2) by (simp add: hands_def)
  then show "distinct (s_hand (g_seats g ! i))" using d by (simp add: distinct_concat_iff)
  show "s_handCount (g_seats g ! i) = length (s_hand (g_seats g ! i))" "sorted (s_hand (g_seats g ! i))"
    using assms nth_mem [OF assms(2)] by (auto simp: table_ok_def)
qed

lemma active_count:
  assumes "table_ok g"
  shows "length (activeSeats g) = card {i. i < length (g_seats g) \<and> s_hand (g_seats g ! i) \<noteq> []}"
proof -
  have "length (activeSeats g) = length (filter (\<lambda>s. s_hand s \<noteq> []) (g_seats g))"
    using assms by (auto simp: activeSeats_def table_ok_def intro!: arg_cong [where f = length] filter_cong)
  then show ?thesis by (simp add: length_filter_conv_card)
qed

text \<open>With two active seats there is one besides any given seat.\<close>

lemma other_active:
  assumes "table_ok g" "2 \<le> length (activeSeats g)"
  obtains j where "j < length (g_seats g)" "j \<noteq> i" "s_hand (g_seats g ! j) \<noteq> []"
proof -
  let ?A = "{i. i < length (g_seats g) \<and> s_hand (g_seats g ! i) \<noteq> []}"
  have "\<not> ?A \<subseteq> {i}" using assms active_count [OF assms(1)] card_mono [of "{i}" ?A] by auto
  then show ?thesis using that by blast
qed

lemma mset_concat_update:
  "i < length xs \<Longrightarrow> mset (concat (xs[i := y])) + mset (xs ! i) = mset (concat xs) + mset y"
proof (induction xs arbitrary: i)
  case (Cons x xs)
  show ?case
  proof (cases i)
    case 0
    then show ?thesis by (simp add: ac_simps)
  next
    case (Suc k)
    then have "mset (concat (xs[k := y])) + mset (xs ! k) = mset (concat xs) + mset y"
      using Cons by simp
    then show ?thesis using Suc by (simp only: list_update_code nth_Cons_Suc concat.simps mset_append add.assoc list_update.simps nat.case)
  qed
qed simp

lemma distinct_submset: "\<lbrakk>mset xs \<subseteq># mset ys; distinct ys\<rbrakk> \<Longrightarrow> distinct xs"
proof -
  assume s: "mset xs \<subseteq># mset ys" and d: "distinct ys"
  have "count (mset xs) a \<le> 1" for a
    using mset_subset_eq_count [OF s, of a] d
    by (metis One_nat_def distinct_count_atmost_1 le_trans le_numeral_extra(4) zero_le)
  then show ?thesis
    unfolding distinct_count_atmost_1 using count_greater_zero_iff [of "mset xs"]
    by (metis One_nat_def Suc_leI le_antisym not_in_iff set_mset_mset)
qed

text \<open>
  The state of a table while the game is active, but for whose turn it is: what a move
  establishes before the turn is advanced.
\<close>

definition standing_ok :: "TienLenGame \<Rightarrow> bool" where
  "standing_ok g \<longleftrightarrow> distinct (out_seats g)
     \<and> set (out_seats g) = {i. i < length (g_seats g) \<and> s_hand (g_seats g ! i) = []}"

lemma live_ok_iff:
  "live_ok g \<longleftrightarrow> standing_ok g \<and> s_hand (g_seats g ! g_turn g) \<noteq> [] \<and> \<not> maybeFinish g"
  unfolding live_ok_def standing_ok_def maybeFinish_def not_le One_nat_def Suc_le_eq numeral_2_eq_2 by blast

lemma same_cards_standing:
  assumes "same_cards g h" "standing_ok g"
  shows "standing_ok h"
proof -
  have "{i. i < length (g_seats h) \<and> s_hand (g_seats h ! i) = []} = {i. i < length (g_seats g) \<and> s_hand (g_seats g ! i) = []}"
    using same_cards_nth(1) [OF assms(1)] same_cards_seats(1) [OF assms(1)] by (intro Collect_cong) auto
  moreover have "out_seats h = out_seats g" using assms(1) by (simp add: out_seats_def same_cards_def)
  ultimately show ?thesis using assms(2) by (simp only: standing_ok_def)
qed

text \<open>Advancing the turn on a sound table with an active seat.\<close>

lemma advance_ok:
  assumes "table_ok g" "standing_ok g" "j < length (g_seats g)" "s_hand (g_seats g ! j) \<noteq> []"
  shows "table_ok (advanceTurn g k) \<and> standing_ok (advanceTurn g k)
     \<and> s_hand (g_seats (advanceTurn g k) ! g_turn (advanceTurn g k)) \<noteq> []
     \<and> same_cards g (advanceTurn g k)"
proof -
  have c: "0 < s_handCount (g_seats g ! j)" using assms table_okD(2) by simp
  note e = advanceTurn_effect [OF assms(3) c, of k]
  have "table_ok (advanceTurn g k)"
    using assms(1) e(5) by (intro same_cards_table [OF e(1)]) (auto simp: e(2,4) table_ok_def)
  moreover have "s_hand (g_seats g ! g_turn (advanceTurn g k)) \<noteq> []"
    using e(2,3) table_okD(2) [OF assms(1)] by auto
  ultimately show ?thesis
    using same_cards_standing [OF e(1) assms(2)] same_cards_nth(1) [OF e(1,2)] e(1) by simp
qed

lemma reset_ok:
  assumes "table_ok g" "standing_ok g" "j < length (g_seats g)" "s_hand (g_seats g ! j) \<noteq> []"
  shows "table_ok (resetTrick g) \<and> standing_ok (resetTrick g)
     \<and> s_hand (g_seats (resetTrick g) ! g_turn (resetTrick g)) \<noteq> []
     \<and> same_cards g (resetTrick g)"
proof -
  have c: "0 < s_handCount (g_seats g ! j)" using assms table_okD(2) by simp
  note e = resetTrick_cards [of g] resetTrick_turn [OF assms(3) c]
  have "table_ok (resetTrick g)"
    using assms(1) by (intro same_cards_table [OF e(1)]) (auto simp: e(2) table_ok_def)
  moreover have "s_hand (g_seats g ! g_turn (resetTrick g)) \<noteq> []"
    using e(2,3) table_okD(2) [OF assms(1)] by auto
  ultimately show ?thesis
    using same_cards_standing [OF e(1) assms(2)] same_cards_nth(1) [OF e(1,2)] e(1) by simp
qed

subsection \<open>Playing cards\<close>

text \<open>The document of \<open>applyPlay\<close> just before the turn is advanced.\<close>

definition laid :: "TienLenGame \<Rightarrow> nat \<Rightarrow> Combo \<Rightarrow> card list \<Rightarrow> int \<Rightarrow> TienLenGame" where
  "laid g i cb newHand now =
     (let me = g_seats g ! i;
          g = upd_seat i (\<lambda>s. s\<lparr>s_hand := newHand, s_handCount := length newHand\<rparr>) g;
          g = g\<lparr>g_currentCombo := cb_cards cb, g_currentComboType := Some (cb_type cb), g_leadSeat := s_seat me\<rparr>;
          g = g\<lparr>g_seats := map (\<lambda>s. if s_handCount s > 0 then s\<lparr>s_passed := False\<rparr> else s) (g_seats g)\<rparr>;
          g = g\<lparr>g_history := g_history g @
                [\<lparr>pl_seat = s_seat me, pl_userId = s_userId me, pl_cards = cb_cards cb,
                  pl_comboType = Some (cb_type cb), pl_at = now\<rparr>]\<rparr>
      in if newHand = []
         then (upd_seat i (\<lambda>s. s\<lparr>s_finishedRank := length (g_finishOrder g) + 1\<rparr>) g)
                \<lparr>g_finishOrder := g_finishOrder g @ [s_seat me]\<rparr>
         else g)"

lemma applyPlay_laid: "applyPlay g i cb h now = advanceTurn (laid g i cb h now) (s_seat (g_seats g ! i))"
  by (simp add: applyPlay_def laid_def Let_def)

lemma laid_fields [simp]:
  "g_turn (laid g i cb h now) = g_turn g" "g_leadSeat (laid g i cb h now) = s_seat (g_seats g ! i)"
  "g_currentCombo (laid g i cb h now) = cb_cards cb" "g_status (laid g i cb h now) = g_status g"
  "g_resignedSeats (laid g i cb h now) = g_resignedSeats g"
  "g_finishOrder (laid g i cb h now) = g_finishOrder g @ (if h = [] then [s_seat (g_seats g ! i)] else [])"
  "played (laid g i cb h now) = played g @ cb_cards cb"
  "length (g_seats (laid g i cb h now)) = length (g_seats g)"
  by (simp_all add: laid_def Let_def played_def)

lemma laid_seats:
  assumes "i < length (g_seats g)"
  shows "hands (laid g i cb h now) = (hands g)[i := h]"
    "map s_userId (g_seats (laid g i cb h now)) = map s_userId (g_seats g)"
    "map s_seat (g_seats (laid g i cb h now)) = map s_seat (g_seats g)"
    "map s_handCount (g_seats (laid g i cb h now)) = (map s_handCount (g_seats g))[i := length h]"
  unfolding hands_def
  by (intro nth_equalityI; use assms in \<open>auto simp: laid_def Let_def nth_list_update\<close>)+

lemma laid_passed:
  assumes "i < length (g_seats g)" "j < length (g_seats g)" "s_handCount (g_seats (laid g i cb h now) ! j) > 0"
  shows "\<not> s_passed (g_seats (laid g i cb h now) ! j)"
  using assms by (auto simp: laid_def Let_def nth_list_update split: if_splits)

text \<open>The guards found the turn's seat, a combination of the hand's cards and the rest of the hand.\<close>

lemma seatOf_SomeD:
  assumes "seatOf g u = Some i"
  shows "i < length (g_seats g)" "s_userId (g_seats g ! i) = u"
  using find_Some_iff_mem [OF assms [unfolded seatOf_def]] by auto

lemma turn_guard_Inr:
  assumes "turn_guard g u = Inr i" "table_ok g"
  shows "g_status g = ACTIVE" "i < length (g_seats g)" "g_turn g = i" "s_userId (g_seats g ! i) = u"
  using assms seatOf_SomeD [of g u i] table_okD(1) [OF assms(2), of i]
  by (auto simp: turn_guard_def split: if_splits option.splits)

lemma play_guard_Inr:
  assumes "play_guard g i cards = Inr (cb, h)" "table_ok g" "i < length (g_seats g)"
  shows "identifyCombo cards = Some cb" "mset h + mset (cb_cards cb) = mset (s_hand (g_seats g ! i))"
    "sorted h" "cb_cards cb = sort cards" "cb_cards cb \<noteq> []"
    "identifyCombo (cb_cards cb) = Some cb" "g_history g = [] \<or> canBeat cb (currentComboObj g)"
proof -
  have c: "identifyCombo cards = Some cb" and r: "removeCards (s_hand (g_seats g ! i)) cards = Some h"
    and b: "g_history g = [] \<or> canBeat cb (currentComboObj g)"
    using assms(1) by (auto simp: play_guard_def split: option.splits if_splits)
  note f = identify_facts [OF c]
  show "identifyCombo cards = Some cb" "g_history g = [] \<or> canBeat cb (currentComboObj g)" by (fact c, fact b)
  show "cb_cards cb = sort cards" by (fact f(1))
  show "cb_cards cb \<noteq> []" using f(1,4) by (metis mset_sort mset_zero_iff)
  show "identifyCombo (cb_cards cb) = Some cb" using identifyCombo_perm [of "sort cards" cards] c f(1) by simp
  show "mset h + mset (cb_cards cb) = mset (s_hand (g_seats g ! i))" "sorted h"
    using removeCards_mset [OF table_okD(4,3) [OF assms(2,3)] r] f(1) by simp_all
qed

lemma laid_ok:
  assumes "table_ok g" "standing_ok g" "i < length (g_seats g)" "play_guard g i cards = Inr (cb, h)"
  shows "table_ok (laid g i cb h now) \<and> standing_ok (laid g i cb h now)"
proof -
  note p = play_guard_Inr [OF assms(4,1,3)] and l = laid_seats [OF assms(3), of cb h now]
  let ?g = "laid g i cb h now"
  have i: "s_seat (g_seats g ! i) = i" by (rule table_okD(1) [OF assms(1,3)])
  have "mset (concat (hands ?g)) + mset (hands g ! i) = mset (concat (hands g)) + mset h"
    using mset_concat_update [of i "hands g" h] assms(3) l(1) by (simp add: hands_def)
  then have ms: "mset (concat (hands ?g) @ played ?g) = mset (concat (hands g) @ played g)"
    using p(2) assms(3) by (simp add: hands_def algebra_simps) (metis add.assoc add_right_cancel add.commute)
  have hc: "s_handCount s = length (s_hand s) \<and> sorted (s_hand s)" if s: "s \<in> set (g_seats ?g)" for s
  proof -
    obtain j where j: "s = g_seats ?g ! j" "j < length (g_seats g)"      using s by (auto simp: in_set_conv_nth)
    have "s_handCount s = (map s_handCount (g_seats g))[i := length h] ! j" "s_hand s = (hands g)[i := h] ! j"
      using l(1,4) j by (metis nth_map laid_fields(8), metis hands_def nth_map laid_fields(8))
    then show ?thesis using j table_okD(2,3) [OF assms(1) j(2)] p(3) assms(3)
      by (auto simp: nth_list_update hands_def)
  qed
  have dist: "distinct (concat (hands ?g) @ played ?g)" and deck: "\<forall>c \<in> set (concat (hands ?g) @ played ?g). c < DECK_SIZE"
    using assms(1) mset_eq_imp_distinct_iff [OF ms] mset_eq_setD [OF ms] unfolding table_ok_def by blast+
  have "table_ok ?g"
    unfolding table_ok_def using assms(1,3) dist deck hc l(2,3) i p(6) by (simp add: table_ok_def)
  moreover have "standing_ok ?g"
  proof -
    have hd: "s_hand (g_seats ?g ! j) = (if j = i then h else s_hand (g_seats g ! j))" if "j < length (g_seats g)" for j
      using arg_cong [OF l(1), of "\<lambda>xs. xs ! j"] that assms(3) by (simp add: hands_def nth_list_update)
    have ne: "s_hand (g_seats g ! i) \<noteq> []" using p(2,5) by auto
    then have "i \<notin> set (out_seats g)" using assms(2) by (simp add: standing_ok_def)
    moreover have "{j. j < length (g_seats g) \<and> s_hand (g_seats ?g ! j) = []}
        = {j. j < length (g_seats g) \<and> s_hand (g_seats g ! j) = []} \<union> (if h = [] then {i} else {})"
      using ne assms(3) hd by (auto split: if_splits)
    ultimately show ?thesis using assms(2) i by (auto simp: standing_ok_def out_seats_def)
  qed
  ultimately show ?thesis by simp
qed

text \<open>A play: the card conservation, and the table it leaves.\<close>

lemma laid_mset:
  assumes "table_ok g" "i < length (g_seats g)" "play_guard g i cards = Inr (cb, h)"
  shows "mset (concat (hands (laid g i cb h now))) + mset (cb_cards cb) = mset (concat (hands g))"
proof -
  have "mset (concat (hands (laid g i cb h now))) + mset (hands g ! i) = mset (concat (hands g)) + mset h"
    using mset_concat_update [of i "hands g" h] assms(2) laid_seats(1) [OF assms(2)] by (simp add: hands_def)
  moreover have "mset (hands g ! i) = mset h + mset (cb_cards cb)"
    using play_guard_Inr(2) [OF assms(3,1,2)] assms(2) by (simp add: hands_def)
  ultimately have "(mset (concat (hands (laid g i cb h now))) + mset (cb_cards cb)) + mset h = mset (concat (hands g)) + mset h"
    by (simp add: ac_simps)
  then show ?thesis by simp
qed

definition moved_ok :: "TienLenGame \<Rightarrow> TienLenGame \<Rightarrow> bool" where
  "moved_ok g g' \<longleftrightarrow> table_ok g' \<and> standing_ok g' \<and> s_hand (g_seats g' ! g_turn g') \<noteq> []
     \<and> g_status g' = g_status g"

lemma applyPlay_ok:
  assumes "table_ok g" "live_ok g" "i < length (g_seats g)" "play_guard g i cards = Inr (cb, h)"
  shows "moved_ok g (applyPlay g i cb h now)"
    "same_cards (laid g i cb h now) (applyPlay g i cb h now)"
proof -
  let ?g = "laid g i cb h now"
  have ok: "table_ok ?g" "standing_ok ?g"
    using laid_ok [OF assms(1) _ assms(3,4)] assms(2) by (simp_all add: live_ok_iff)
  obtain j where j: "j < length (g_seats g)" "j \<noteq> i" "s_hand (g_seats g ! j) \<noteq> []"
    using other_active [OF assms(1)] assms(2) unfolding live_ok_def by blast
  have "s_hand (g_seats ?g ! j) = (hands g)[i := h] ! j"
    using laid_seats(1) [OF assms(3), of cb h now] j(1) by (metis hands_def laid_fields(8) nth_map)
  then have "s_hand (g_seats ?g ! j) \<noteq> []" using j by (simp add: hands_def)
  note a = advance_ok [OF ok _ this, of "s_seat (g_seats g ! i)"]
  show "moved_ok g (applyPlay g i cb h now)" "same_cards ?g (applyPlay g i cb h now)"
    using a j(1) by (simp_all add: moved_ok_def applyPlay_laid same_cards_def)
qed

subsection \<open>Passing, resigning and handing on\<close>

definition passing :: "TienLenGame \<Rightarrow> nat \<Rightarrow> int \<Rightarrow> TienLenGame" where
  "passing g i now =
     (let me = g_seats g ! i; g = upd_seat i (\<lambda>s. s\<lparr>s_passed := True\<rparr>) g
      in g\<lparr>g_history := g_history g @
           [\<lparr>pl_seat = s_seat me, pl_userId = s_userId me, pl_cards = [], pl_comboType = None, pl_at = now\<rparr>]\<rparr>)"

lemma applyPass_passing: "applyPass g i now = advanceTurn (passing g i now) (s_seat (g_seats g ! i))"
  by (simp add: applyPass_def passing_def Let_def)

lemma passing_cards: "same_cards g (passing g i now)"
  by (simp add: passing_def Let_def same_cards_def key_def map_update_same played_def)

lemma passing_fields [simp]:
  "g_turn (passing g i now) = g_turn g" "g_leadSeat (passing g i now) = g_leadSeat g"
  "g_currentCombo (passing g i now) = g_currentCombo g"
  "g_seats (passing g i now) = (g_seats g)[i := (g_seats g ! i)\<lparr>s_passed := True\<rparr>]"
  by (simp_all add: passing_def Let_def)

lemma applyPass_ok:
  assumes "table_ok g" "live_ok g"
  shows "moved_ok g (applyPass g i now)" "same_cards g (applyPass g i now)"
proof -
  let ?g = "passing g i now"
  have ok: "table_ok ?g" "standing_ok ?g"
    using same_cards_table [OF passing_cards assms(1)] same_cards_standing [OF passing_cards] assms
    by (simp_all add: table_ok_def live_ok_iff)
  have t: "g_turn g < length (g_seats g)" using assms(1) by (simp add: table_ok_def)
  have "s_hand (g_seats ?g ! g_turn g) \<noteq> []"
    using assms(2) same_cards_nth(1) [OF passing_cards t] by (simp add: live_ok_def)
  note a = advance_ok [OF ok _ this, of "s_seat (g_seats g ! i)"]
  have "same_cards ?g (applyPass g i now)" using a t by (simp add: applyPass_passing)
  then show "same_cards g (applyPass g i now)" using same_cards_trans [OF passing_cards] by blast
  then show "moved_ok g (applyPass g i now)"
    using a t by (simp add: moved_ok_def applyPass_passing same_cards_def)
qed

lemma force_fields [simp]:
  "g_turn (forceFinishLast g i) = g_turn g" "g_leadSeat (forceFinishLast g i) = g_leadSeat g"
  "g_currentCombo (forceFinishLast g i) = g_currentCombo g" "g_status (forceFinishLast g i) = g_status g"
  "g_finishOrder (forceFinishLast g i) = g_finishOrder g" "played (forceFinishLast g i) = played g"
  "length (g_seats (forceFinishLast g i)) = length (g_seats g)"
  by (simp_all add: forceFinishLast_def Let_def played_def)

lemma force_seats:
  "g_seats (forceFinishLast g i) = (g_seats g)[i := (g_seats g ! i)\<lparr>s_handCount := 0, s_hand := [], s_finishedRank := 0\<rparr>]"
  by (simp add: forceFinishLast_def Let_def)

lemma force_ok:
  assumes "table_ok g" "standing_ok g" "i < length (g_seats g)" "s_hand (g_seats g ! i) \<noteq> []"
  shows "table_ok (forceFinishLast g i) \<and> standing_ok (forceFinishLast g i)"
proof -
  let ?g = "forceFinishLast g i"
  let ?s = "(g_seats g ! i)\<lparr>s_handCount := 0, s_hand := [], s_finishedRank := 0\<rparr>"
  have i: "s_seat (g_seats g ! i) = i" by (rule table_okD(1) [OF assms(1,3)])
  have h: "hands ?g = (hands g)[i := []]" by (simp add: hands_def force_seats map_update)
  have "mset (concat (hands ?g)) + mset (hands g ! i) = mset (concat (hands g))"
    using mset_concat_update [of i "hands g" "[]"] assms(3) h by (simp add: hands_def)
  then have sub: "mset (concat (hands ?g)) \<subseteq># mset (concat (hands g))" by (metis mset_subset_eq_add_left)
  then have sub: "mset (concat (hands ?g) @ played ?g) \<subseteq># mset (concat (hands g) @ played g)" by simp
  have "distinct (concat (hands ?g) @ played ?g)" "\<forall>c \<in> set (concat (hands ?g) @ played ?g). c < DECK_SIZE"
    using distinct_submset [OF sub] set_mset_mono [OF sub] assms(1) unfolding table_ok_def set_mset_mset by blast+
  moreover have "\<forall>s \<in> set (g_seats ?g). s_handCount s = length (s_hand s) \<and> sorted (s_hand s)"
    using assms(1) set_update_subset_insert [of "g_seats g" i ?s] by (auto simp: force_seats table_ok_def)
  moreover have "map s_seat (g_seats ?g) = map s_seat (g_seats g)" "map s_userId (g_seats ?g) = map s_userId (g_seats g)"
    by (simp_all add: force_seats map_update_same)
  ultimately have "table_ok ?g" using assms(1) by (simp add: table_ok_def)
  moreover have "standing_ok ?g"
  proof -
    have out: "i \<notin> set (out_seats g)" using assms by (simp add: standing_ok_def)
    then have o: "out_seats ?g = out_seats g @ [i]"
      using i by (auto simp: out_seats_def forceFinishLast_def Let_def)
    have "{j. j < length (g_seats g) \<and> s_hand (g_seats ?g ! j) = []}
        = insert i {j. j < length (g_seats g) \<and> s_hand (g_seats g ! j) = []}"
      using assms(3) by (auto simp: force_seats nth_list_update)
    then show ?thesis using assms(2) out o by (simp add: standing_ok_def)
  qed
  ultimately show ?thesis by simp
qed

lemma nextActive_hand:
  assumes "table_ok g" "j < length (g_seats g)" "s_hand (g_seats g ! j) \<noteq> []"
  shows "nextActiveSeat g k < length (g_seats g)" "s_hand (g_seats g ! nextActiveSeat g k) \<noteq> []"
proof -
  have "0 < s_handCount (g_seats g ! j)" using assms table_okD(2) by simp
  note n = nextActiveSeat_active [OF assms(2) this, of k]
  show "nextActiveSeat g k < length (g_seats g)" by (fact n(1))
  show "s_hand (g_seats g ! nextActiveSeat g k) \<noteq> []" using n table_okD(2) [OF assms(1)] by auto
qed

lemma table_turn_lead:
  "\<lbrakk>table_ok g; k < length (g_seats g)\<rbrakk> \<Longrightarrow> table_ok (g\<lparr>g_turn := k\<rparr>) \<and> table_ok (g\<lparr>g_leadSeat := k\<rparr>)"
  by (simp add: table_ok_def hands_def played_def)

lemma standing_turn_lead [simp]:
  "standing_ok (g\<lparr>g_turn := k\<rparr>) = standing_ok g" "standing_ok (g\<lparr>g_leadSeat := k\<rparr>) = standing_ok g"
  by (simp_all add: standing_ok_def out_seats_def)

text \<open>After a seat that had the turn or the lead is out, the turn is with a seat that is in.\<close>

lemma hand_on_ok:
  assumes "table_ok g" "standing_ok g" "\<not> maybeFinish g"
    "g_turn g = k \<or> s_hand (g_seats g ! g_turn g) \<noteq> []"
  shows "moved_ok g (hand_on g k)" "length (activeSeats (hand_on g k)) = length (activeSeats g)"
proof -
  obtain j where j: "j < length (g_seats g)" "s_hand (g_seats g ! j) \<noteq> []"
    using other_active [OF assms(1)] assms(3) unfolding maybeFinish_def by force
  note n = nextActive_hand [OF assms(1) j, of k]
  have "moved_ok g (hand_on g k) \<and> length (activeSeats (hand_on g k)) = length (activeSeats g)"
  proof (cases "g_leadSeat g = k")
    case True
    let ?g = "g\<lparr>g_leadSeat := nextActiveSeat g k\<rparr>"
    have ok: "table_ok ?g" "standing_ok ?g" using table_turn_lead [OF assms(1) n(1)] assms(2) by simp_all
    note r = reset_ok [OF ok, of j]
    have "length (activeSeats (resetTrick ?g)) = length (activeSeats ?g)"
      by (rule same_cards_active [OF resetTrick_cards])
    moreover have "g_status (resetTrick ?g) = g_status ?g" using resetTrick_cards by (simp add: same_cards_def)
    ultimately show ?thesis using True r j by (simp add: hand_on_def moved_ok_def activeSeats_def)
  next
    case False
    show ?thesis
    proof (cases "g_turn g = k")
      case True
      then show ?thesis using False n table_turn_lead [OF assms(1) n(1)] assms(2)
        by (simp add: hand_on_def moved_ok_def activeSeats_def)
    next
      case False
      then show ?thesis using \<open>g_leadSeat g \<noteq> k\<close> assms by (simp add: hand_on_def moved_ok_def)
    qed
  qed
  then show "moved_ok g (hand_on g k)" "length (activeSeats (hand_on g k)) = length (activeSeats g)" by auto
qed

section \<open>The final standing\<close>

lemma push_new_set: "set (push_new order xs) = set order \<union> set xs"
  unfolding push_new_def by (induction xs arbitrary: order) auto

lemma push_new_distinct: "distinct order \<Longrightarrow> distinct (push_new order xs)"
  unfolding push_new_def by (induction xs arbitrary: order) auto

lemma push_new_append: "\<lbrakk>distinct xs; set order \<inter> set xs = {}\<rbrakk> \<Longrightarrow> push_new order xs = order @ xs"
  unfolding push_new_def by (induction xs arbitrary: order) auto

lemma push_new_absorb: "set xs \<subseteq> set order \<Longrightarrow> push_new order xs = order"
  unfolding push_new_def by (induction xs arbitrary: order) auto

lemma active_positions:
  assumes "table_ok g"
  shows "map s_seat (activeSeats g) = filter (\<lambda>i. s_hand (g_seats g ! i) \<noteq> []) [0..<length (g_seats g)]"
proof -
  have "activeSeats g = filter (\<lambda>s. s_hand s \<noteq> []) (g_seats g)"
    using assms by (auto simp: activeSeats_def table_ok_def intro!: filter_cong)
  also have "\<dots> = filter (\<lambda>s. s_hand s \<noteq> []) (map ((!) (g_seats g)) [0..<length (g_seats g)])"
    by (simp only: map_nth)
  finally have "map s_seat (activeSeats g)
      = map (\<lambda>i. s_seat (g_seats g ! i)) (filter (\<lambda>i. s_hand (g_seats g ! i) \<noteq> []) [0..<length (g_seats g)])"
    by (simp add: filter_map comp_def)
  also have "\<dots> = filter (\<lambda>i. s_hand (g_seats g ! i) \<noteq> []) [0..<length (g_seats g)]"
    using table_okD(1) [OF assms] by (intro map_idI) auto
  finally show ?thesis .
qed

text \<open>Those who emptied their hand, those still in, and those who resigned in reverse.\<close>

lemma finalOrder_eq:
  assumes "table_ok g" "standing_ok g"
  shows "finalOrder g = g_finishOrder g @ map s_seat (activeSeats g) @ rev (g_resignedSeats g)"
    "mset (finalOrder g) = mset [0..<length (g_seats g)]"
proof -
  let ?a = "map s_seat (activeSeats g)" and ?n = "length (g_seats g)"
  note a = active_positions [OF assms(1)]
  have d: "distinct (g_finishOrder g)" "distinct (g_resignedSeats g)" "set (g_finishOrder g) \<inter> set (g_resignedSeats g) = {}"
    "set (g_finishOrder g) \<union> set (g_resignedSeats g) = {i. i < ?n \<and> s_hand (g_seats g ! i) = []}"
    using assms(2) by (auto simp: standing_ok_def out_seats_def)
  have a': "distinct ?a" "set ?a = {i. i < ?n \<and> s_hand (g_seats g ! i) \<noteq> []}" by (auto simp: a)
  have 1: "push_new [] (g_finishOrder g) = g_finishOrder g" using push_new_append [of "g_finishOrder g" "[]"] d(1) by simp
  have 2: "push_new (g_finishOrder g) ?a = g_finishOrder g @ ?a"
    by (rule push_new_append) (use a' d(4) in blast)+
  have 3: "push_new (g_finishOrder g @ ?a) (rev (g_resignedSeats g)) = (g_finishOrder g @ ?a) @ rev (g_resignedSeats g)"
    by (rule push_new_append) (use a' d in \<open>auto\<close>)
  let ?o = "(g_finishOrder g @ ?a) @ rev (g_resignedSeats g)"
  have set_o: "set ?o = {..<?n}" using a'(2) d(4) by auto
  have "set (map s_seat (g_seats g)) = {..<?n}"
    using assms(1) by (metis atLeast_upt table_ok_def)
  then have "push_new ?o (map s_seat (g_seats g)) = ?o" using set_o by (intro push_new_absorb) simp
  then show f: "finalOrder g = g_finishOrder g @ ?a @ rev (g_resignedSeats g)"
    unfolding finalOrder_def 1 2 3 by simp
  have "distinct ?o" using a' d by auto
  then show "mset (finalOrder g) = mset [0..<?n]"
    using set_o f by (intro set_eq_iff_mset_eq_distinct [THEN iffD1]) auto
qed

definition finish_doc :: "int \<Rightarrow> TienLenGame \<Rightarrow> TienLenGame" where
  "finish_doc now g = standings (finalOrder g) now g"

lemma finish_doc_ok:
  assumes "table_ok g" "standing_ok g"
  shows "game_ok (finish_doc now g)"
proof -
  have "table_ok (finish_doc now g)"
    using assms(1) by (simp add: finish_doc_def standings_def table_ok_def hands_def played_def comp_def)
  then show ?thesis
    using finalOrder_eq(2) [OF assms] by (auto simp: game_ok_def final_ok_def finish_doc_def standings_def)
qed


section \<open>Moves and runs\<close>

text \<open>A move that empties the table to one active player finishes the game.\<close>

definition settle :: "int \<Rightarrow> TienLenGame \<Rightarrow> TienLenGame" where
  "settle now g = (if maybeFinish g then finish_doc now g else g)"

inductive tl_move :: "TienLenGame \<Rightarrow> TienLenGame \<Rightarrow> bool" where
  play: "\<lbrakk>turn_guard g u = Inr i; play_guard g i cards = Inr (cb, h)\<rbrakk>
     \<Longrightarrow> tl_move g (settle end_time (applyPlay g i cb h now))"
| pass: "\<lbrakk>turn_guard g u = Inr i; g_currentCombo g \<noteq> []\<rbrakk> \<Longrightarrow> tl_move g (applyPass g i now)"
| resign: "\<lbrakk>g_status g = ACTIVE; seatOf g u = Some i; s_handCount (g_seats g ! i) \<noteq> 0\<rbrakk>
     \<Longrightarrow> tl_move g (if maybeFinish (forceFinishLast g i) then finish_doc now (forceFinishLast g i)
                   else hand_on (forceFinishLast g i) (s_seat (g_seats g ! i)))"

lemma settle_ok: "moved_ok g h \<Longrightarrow> g_status g = ACTIVE \<Longrightarrow> game_ok (settle now h)"
  using finish_doc_ok [of h now] by (auto simp: settle_def moved_ok_def game_ok_def live_ok_iff)

lemma tl_move_ok:
  assumes "tl_move g h" "game_ok g"
  shows "game_ok h \<and> g_status g = ACTIVE"
  using assms
proof (cases rule: tl_move.cases)
  case (play u i cards cb nh end_time now)
  have t: "table_ok g" using assms(2) by (simp add: game_ok_def)
  note tg = turn_guard_Inr [OF play(2) t]
  have l: "live_ok g" using assms(2) tg(1) by (simp add: game_ok_def)
  show ?thesis using settle_ok [OF applyPlay_ok(1) [OF t l tg(2) play(3)] tg(1)] play(1) tg(1) by simp
next
  case (pass u i now)
  have t: "table_ok g" using assms(2) by (simp add: game_ok_def)
  note tg = turn_guard_Inr [OF pass(2) t]
  have l: "live_ok g" using assms(2) tg(1) by (simp add: game_ok_def)
  have "\<not> maybeFinish (applyPass g i now)"
    using l same_cards_active [OF applyPass_ok(2) [OF t l]] by (simp add: live_ok_iff maybeFinish_def)
  then show ?thesis using applyPass_ok(1) [OF t l, of i now] pass(1) tg(1)
    by (simp add: game_ok_def moved_ok_def live_ok_iff)
next
  case (resign u i now)
  let ?g = "forceFinishLast g i"
  have t: "table_ok g" and l: "live_ok g" using assms(2) resign(2) by (simp_all add: game_ok_def)
  note i = seatOf_SomeD(1) [OF resign(3)]
  have ne: "s_hand (g_seats g ! i) \<noteq> []" using resign(4) table_okD(2) [OF t i] by auto
  have ok: "table_ok ?g" "standing_ok ?g" using force_ok [OF t _ i ne] l by (simp_all add: live_ok_iff)
  show ?thesis
  proof (cases "maybeFinish ?g")
    case True
    then show ?thesis using resign finish_doc_ok [OF ok] by simp
  next
    case False
    have "g_turn g = i \<or> s_hand (g_seats ?g ! g_turn g) \<noteq> []"
      using l by (cases "g_turn g = i") (auto simp: live_ok_def force_seats)
    then have "g_turn ?g = s_seat (g_seats g ! i) \<or> s_hand (g_seats ?g ! g_turn ?g) \<noteq> []"
      using table_okD(1) [OF t i] by simp
    note h = hand_on_ok [OF ok False this]
    have "\<not> maybeFinish (hand_on ?g (s_seat (g_seats g ! i)))" using h(2) False by (simp add: maybeFinish_def)
    then show ?thesis using h(1) False resign(1,2) by (simp add: game_ok_def moved_ok_def live_ok_iff)
  qed
qed

text \<open>
  A potential: ten for every card held, and while a trick is live two for every active seat
  that has not passed, one more if the turn is with a seat that has passed.
\<close>

definition unpassed :: "TienLenGame \<Rightarrow> nat" where
  "unpassed g = length (filter (\<lambda>s. s_handCount s > 0 \<and> \<not> s_passed s) (g_seats g))"

definition trick_potential :: "TienLenGame \<Rightarrow> nat" where
  "trick_potential g = (if g_currentCombo g = [] then 0
     else 2 * unpassed g + (if s_passed (g_seats g ! g_turn g) then 1 else 0))"

definition potential :: "TienLenGame \<Rightarrow> nat" where
  "potential g = 10 * length (concat (hands g)) + trick_potential g"

lemma trick_potential_le:
  assumes "length (g_seats g) \<le> 4"
  shows "trick_potential g \<le> 9"
proof -
  have "unpassed g \<le> 4" using assms unfolding unpassed_def by (rule le_trans [OF length_filter_le])
  then show ?thesis by (simp add: trick_potential_def)
qed

lemma cards_le_deck: "table_ok g \<Longrightarrow> length (concat (hands g)) \<le> 52"
proof -
  assume t: "table_ok g"
  then have d: "distinct (concat (hands g))" and s: "set (concat (hands g)) \<subseteq> {..<52}"
    by (auto simp: table_ok_def)
  show ?thesis using card_mono [OF _ s] distinct_card [OF d] by simp
qed

text \<open>Fewer cards are fewer points, whatever the trick.\<close>

lemma potential_fewer_cards:
  "\<lbrakk>length (concat (hands h)) < length (concat (hands g)); length (g_seats h) \<le> 4\<rbrakk> \<Longrightarrow> potential h < potential g"
  using trick_potential_le [of h] by (simp add: potential_def)

lemma hands_same: "same_cards g h \<Longrightarrow> hands h = hands g"
  using same_cards_seats(4) by (simp add: hands_def)

lemma hands_finish [simp]: "hands (finish_doc now g) = hands g" "g_seats (finish_doc now g) = map (\<lambda>s. s\<lparr>s_finishedRank := placeOf (finalOrder g) (s_seat s)\<rparr>) (g_seats g)"
  by (simp_all add: finish_doc_def standings_def hands_def comp_def)

lemma length_filter_update:
  "\<lbrakk>i < length xs; P (xs ! i); \<not> P y\<rbrakk> \<Longrightarrow> Suc (length (filter P (xs[i := y]))) = length (filter P xs)"
proof (induction xs arbitrary: i)
  case (Cons x xs)
  then show ?case by (cases i) auto
qed simp

lemma pass_potential:
  assumes "table_ok g" "live_ok g" "g_currentCombo g \<noteq> []"
  shows "potential (applyPass g (g_turn g) now) < potential g"
proof -
  let ?i = "g_turn g" and ?p = "passing g (g_turn g) now" and ?P = "\<lambda>s. s_handCount s > 0 \<and> \<not> s_passed s"
  have i: "?i < length (g_seats g)" using assms(1) by (simp add: table_ok_def)
  have hc: "s_handCount (g_seats g ! ?i) > 0" using assms(1,2) table_okD(2) [OF assms(1) i] by (simp add: live_ok_def)
  have h: "hands (applyPass g ?i now) = hands g" using hands_same [OF applyPass_ok(2) [OF assms(1,2)]] .
  have pos: "0 < trick_potential g"
  proof (cases "s_passed (g_seats g ! ?i)")
    case False
    then have "g_seats g ! ?i \<in> set (filter ?P (g_seats g))" using i hc by simp
    then have "0 < unpassed g" unfolding unpassed_def by (metis length_pos_if_in_set)
    then show ?thesis using assms(3) by (simp add: trick_potential_def)
  qed (use assms(3) in \<open>simp add: trick_potential_def\<close>)
  have len: "0 < length (g_seats ?p)" using i by auto
  have "trick_potential (applyPass g ?i now) < trick_potential g"
  proof (cases rule: advanceTurn_cases [OF len, of "s_seat (g_seats g ! ?i)"])
    case (1 c)
    have c: "applyPass g ?i now = ?p\<lparr>g_turn := c\<rparr>" by (simp only: applyPass_passing 1)
    have u: "unpassed (?p\<lparr>g_turn := c\<rparr>) = length (filter ?P ((g_seats g)[?i := (g_seats g ! ?i)\<lparr>s_passed := True\<rparr>]))"
      by (simp add: unpassed_def)
    have np: "\<not> s_passed ((g_seats g)[?i := (g_seats g ! ?i)\<lparr>s_passed := True\<rparr>] ! c)" using 1 by simp
    show ?thesis
    proof (cases "s_passed (g_seats g ! ?i)")
      case True
      have "(g_seats g ! ?i)\<lparr>s_passed := True\<rparr> = g_seats g ! ?i" using True by (cases "g_seats g ! ?i") simp
      then have "(g_seats g)[?i := (g_seats g ! ?i)\<lparr>s_passed := True\<rparr>] = g_seats g" by (simp only: list_update_id)
      then show ?thesis unfolding c using np u True assms(3) by (simp add: trick_potential_def unpassed_def)
    next
      case False
      have "Suc (unpassed (?p\<lparr>g_turn := c\<rparr>)) = unpassed g"
        unfolding u unfolding unpassed_def by (rule length_filter_update) (use i hc False in auto)
      then show ?thesis unfolding c using np assms(3) by (simp add: trick_potential_def)
    qed
  next
    case 2
    then have "applyPass g ?i now = resetTrick ?p" by (simp only: applyPass_passing)
    then show ?thesis using pos by (simp add: trick_potential_def)
  qed
  then show ?thesis using h by (simp add: potential_def)
qed

text \<open>Every move lowers the potential.\<close>

lemma applyPlay_potential:
  assumes "table_ok g" "live_ok g" "i < length (g_seats g)" "play_guard g i cards = Inr (cb, h)"
  shows "potential (settle end_time (applyPlay g i cb h now)) < potential g"
proof -
  let ?a = "applyPlay g i cb h now"
  note a = applyPlay_ok [OF assms, of now]
  have t: "table_ok (settle end_time ?a)"
    using a(1) finish_doc_ok [of ?a end_time] by (auto simp: settle_def moved_ok_def game_ok_def)
  have e: "hands (settle end_time ?a) = hands (laid g i cb h now)"
    using hands_same [OF a(2)] by (simp add: settle_def)
  have "length (concat (hands (laid g i cb h now))) + length (cb_cards cb) = length (concat (hands g))"
    using laid_mset [OF assms(1,3,4), of now] by (metis mset_append size_mset length_append)
  moreover have "0 < length (cb_cards cb)" using play_guard_Inr(5) [OF assms(4,1,3)] by blast
  ultimately have "length (concat (hands (settle end_time ?a))) < length (concat (hands g))" unfolding e by linarith
  then show ?thesis using t by (intro potential_fewer_cards) (auto simp: table_ok_def)
qed

lemma resign_potential:
  assumes "table_ok g" "i < length (g_seats g)" "s_hand (g_seats g ! i) \<noteq> []" "hands h = hands (forceFinishLast g i)"
    "length (g_seats h) \<le> 4"
  shows "potential h < potential g"
proof -
  have "hands (forceFinishLast g i) = (hands g)[i := []]" by (simp add: hands_def force_seats map_update)
  then have "mset (concat (hands h)) + mset (s_hand (g_seats g ! i)) = mset (concat (hands g))"
    using mset_concat_update [of i "hands g" "[]"] assms(2,4) by (simp add: hands_def)
  then have "length (concat (hands h)) + length (s_hand (g_seats g ! i)) = length (concat (hands g))"
    by (metis mset_append size_mset length_append)
  moreover have "0 < length (s_hand (g_seats g ! i))" using assms(3) by simp
  ultimately have "length (concat (hands h)) < length (concat (hands g))" by linarith
  then show ?thesis using assms(5) by (rule potential_fewer_cards)
qed

lemma hands_hand_on: "hands (hand_on g k) = hands g"
  using hands_same [OF resetTrick_cards [of "g\<lparr>g_leadSeat := nextActiveSeat g k\<rparr>"]]
  by (simp add: hand_on_def hands_def)

lemma tl_move_potential:
  assumes "tl_move g h" "game_ok g"
  shows "potential h < potential g"
proof -
  have t: "table_ok g" and l: "live_ok g" and ok: "table_ok h"
    using assms tl_move_ok [OF assms] by (auto simp: game_ok_def)
  show ?thesis
    using assms(1)
  proof (cases rule: tl_move.cases)
    case (play u i cards cb nh end_time now)
    then show ?thesis using applyPlay_potential [OF t l turn_guard_Inr(2) [OF play(2) t] play(3)] by simp
  next
    case (pass u i now)
    then show ?thesis using pass_potential [OF t l pass(3)] turn_guard_Inr(3) [OF pass(2) t] by simp
  next
    case (resign u i now)
    note i = seatOf_SomeD(1) [OF resign(3)]
    have "s_hand (g_seats g ! i) \<noteq> []" using resign(4) table_okD(2) [OF t i] by auto
    then show ?thesis using resign(1) ok
      by (intro resign_potential [OF t i]) (auto simp: hands_hand_on table_ok_def)
  qed
qed

text \<open>
  C10: Every Tien Len game ends: no sequence of accepted plays, passes and resignations from a sound
  game has more than 529 moves.
\<close>

theorem tienlen_game_ends:
  assumes "game_ok g" "(tl_move ^^ n) g h"
  shows "n \<le> 529"
proof -
  have "potential h + n \<le> potential g \<and> game_ok h"
    using assms(2)
  proof (induction n arbitrary: h)
    case (Suc n)
    then obtain k where "(tl_move ^^ n) g k" "tl_move k h" by auto
    then show ?case using Suc.IH tl_move_potential [of k h] tl_move_ok [of k h] by force
  qed (use assms(1) in simp)
  moreover have "table_ok g" using assms(1) by (simp add: game_ok_def)
  then have "length (g_seats g) \<le> 4" "length (concat (hands g)) \<le> 52"
    using cards_le_deck by (auto simp: table_ok_def)
  then have "potential g \<le> 529" using trick_potential_le [of g] by (simp add: potential_def)
  ultimately show ?thesis by simp
qed

text \<open>A game of two for the examples.\<close>

definition seat_of :: "oid \<Rightarrow> nat \<Rightarrow> card list \<Rightarrow> TienLenSeat" where
  "seat_of u k h = \<lparr>s_userId = u, s_seat = k, s_hand = h, s_handCount = length h, s_finishedRank = 0,
     s_passed = False, s_connected = True\<rparr>"

definition duel :: TienLenGame where
  "duel = \<lparr>g_id = 25, g_roomId = Some 20, g_mode = WAGER, g_betAmount = 10, g_pot = 20, g_status = ACTIVE,
     g_seats = [seat_of 1 0 [0, 4], seat_of 2 1 [5, 49]], g_turn = 0, g_openingCard = 0, g_currentCombo = [],
     g_currentComboType = None, g_leadSeat = 0, g_history = [], g_finishOrder = [], g_resignedSeats = [],
     g_rpChange = None, g_coinChange = None, g_chops = [], g_instantWin = None, g_endedAt = None\<rparr>"

lemma duel_table: "table_ok duel"
  by (simp add: table_ok_def duel_def seat_of_def hands_def played_def)

lemma duel_standing: "standing_ok duel"
proof -
  have "s_hand (g_seats duel ! i) \<noteq> []" if "i < length (g_seats duel)" for i
    using that by (cases i) (auto simp: duel_def seat_of_def)
  moreover have "out_seats duel = []" by (simp add: out_seats_def duel_def)
  ultimately show ?thesis by (auto simp: standing_ok_def)
qed

lemma duel_ok: "game_ok duel"
proof -
  have "\<not> maybeFinish duel" "s_hand (g_seats duel ! g_turn duel) \<noteq> []" "g_status duel = ACTIVE"
    by (simp_all add: maybeFinish_def activeSeats_def duel_def seat_of_def)
  then show ?thesis using duel_table duel_standing by (simp add: game_ok_def live_ok_iff)
qed

lemma duel_guards:
  "turn_guard duel 1 = Inr 0" "play_guard duel 0 [0] = Inr (combo SINGLE [0], [4])"
  "play_guard duel 0 [0, 4] = Inl (BadRequest ''Invalid card combination'')"
  by (simp_all add: turn_guard_def seatOf_def play_guard_def duel_def seat_of_def identifyCombo_def Let_def
      removeCards_def combo_def isStraight_def rankOf_def)

theorem tienlen_game_ends_witness:
  "\<exists>h. (tl_move ^^ 1) duel h \<and> (1 :: nat) \<le> 529"
proof -
  have "(tl_move ^^ 1) duel (settle 0 (applyPlay duel 0 (combo SINGLE [0]) [4] 0))"
    unfolding One_nat_def
    by (rule relpowp_Suc_I) (simp, rule tl_move.play [OF duel_guards(1,2)])
  with tienlen_game_ends [OF duel_ok this] show ?thesis by blast
qed

text \<open>
  With three players, the one to act resigning hands the turn to the player whose combination is on
  the table: the trick does not end.
\<close>

definition trio :: TienLenGame where
  "trio = duel\<lparr>g_seats := [seat_of 1 0 [0, 4], (seat_of 2 1 [5, 49])\<lparr>s_passed := True\<rparr>, seat_of 3 2 [6, 10]],
     g_turn := 2, g_leadSeat := 0, g_currentCombo := [20]\<rparr>"

lemma resign_returns_trick_to_lead:
  "g_turn (hand_on (forceFinishLast trio 2) 2) = g_leadSeat (hand_on (forceFinishLast trio 2) 2)"
  "g_currentCombo (hand_on (forceFinishLast trio 2) 2) = [20]"
  by (simp_all add: hand_on_def forceFinishLast_def trio_def duel_def seat_of_def Let_def upd_seat_def nextActiveSeat_def
      ring_def upt_rec)

end
