(* ===== verification/TienLenGame.thy ===== *)
theory TienLenGame
  imports TienLenTable GameMoney Stores
begin

text \<open>
  The service of \<open>src/games/tienlen/tienlen.service.ts\<close> around the table of TienLenTable: the stored
  games, the turn timers and the disconnect timers, the events, the chop penalties, and the
  rewards at the end. A timer that has fired is no longer pending; the gateway passes the game
  identifier as the client spelt it, and timers and event rooms are keyed by that
  spelling. Amounts of rank points and coins are configuration.
\<close>

section \<open>State\<close>

record TienLenConfig =
  chopHeoBetRatio :: rat
  chopHeoRp :: int
  rottenHeoBetRatio :: rat
  rottenHeoRp :: int
  instantWinRp :: int

record ChopEvent =
  ce_chopper :: oid
  ce_victim :: oid
  ce_heoCount :: nat
  ce_black :: nat
  ce_red :: nat
  ce_units :: nat
  ce_heoCards :: "card list"

record PlayerView =
  pv_seat :: nat
  pv_userId :: oid
  pv_user :: "UserCard option"
  pv_handCount :: nat
  pv_passed :: bool
  pv_connected :: bool
  pv_place :: "nat option"
  pv_hand :: "card list option"

record TienLenView =
  tv_id :: oid
  tv_mode :: GameMode
  tv_betAmount :: int
  tv_pot :: int
  tv_roomId :: "oid option"
  tv_status :: TienLenStatus
  tv_turn :: nat
  tv_openingCard :: card
  tv_currentCombo :: "card list"
  tv_currentComboType :: "ComboType option"
  tv_leadSeat :: nat
  tv_finishOrder :: "nat list"
  tv_rpChange :: "(oid \<rightharpoonup> int) option"
  tv_coinChange :: "(oid \<rightharpoonup> int) option"
  tv_chops :: "Chop list"
  tv_instantWin :: "(oid \<times> InstantWin) option"
  tv_players :: "PlayerView list"
  tv_myHand :: "card list option"

datatype tl_event =
    TL_matched TienLenView
  | TL_play nat oid "card list" ComboType nat nat "card list" "ChopEvent option"
  | TL_pass nat oid nat bool bool
  | TL_chop_coins ChopEvent int bool
  | TL_chop_rp ChopEvent int
  | TL_resigned oid nat nat bool
  | TL_reconnected oid
  | TL_disconnected oid
  | TL_end TienLenView
  | TL_rotten "oid option" "Rotten list"

record tl_st = rooms_st +
  tl_games :: "TienLenGame list"
  tl_timers :: "raw_id \<rightharpoonup> int"
  tl_dcTimers :: "raw_id \<times> oid \<rightharpoonup> int"
  tl_log :: "(target \<times> tl_event) list"

definition find_game :: "oid \<Rightarrow> 'a tl_st_scheme \<Rightarrow> TienLenGame option" where
  "find_game i s = List.find (\<lambda>g. g_id g = i) (tl_games s)"

definition save_game :: "TienLenGame \<Rightarrow> 'a tl_st_scheme \<Rightarrow> 'a tl_st_scheme" where
  "save_game g s = s\<lparr>tl_games := updateOne (\<lambda>x. g_id x = g_id g) (\<lambda>_. g) (tl_games s)\<rparr>"

interpretation tl: documents g_id tl_games next_id save_game find_game
  by unfold_locales (simp_all add: save_game_def find_game_def)

definition broadcast :: "raw_id \<Rightarrow> tl_event \<Rightarrow> 'a tl_st_scheme \<Rightarrow> 'a tl_st_scheme" where
  "broadcast r e s = s\<lparr>tl_log := tl_log s @ [(GameRoomOf r, e)]\<rparr>"

definition TL_TURN_SECONDS :: int where "TL_TURN_SECONDS = 30"

definition TL_RECONNECT_GRACE_MS :: int where "TL_RECONNECT_GRACE_MS = 30000"

definition clearTimer :: "raw_id \<Rightarrow> 'a tl_st_scheme \<Rightarrow> 'a tl_st_scheme" where
  "clearTimer r s = s\<lparr>tl_timers := (tl_timers s)(r := None)\<rparr>"

definition startTurnTimer :: "raw_id \<Rightarrow> 'a tl_st_scheme \<Rightarrow> 'a tl_st_scheme" where
  "startTurnTimer r s =
     (let s = clearTimer r s in s\<lparr>tl_timers := (tl_timers s)(r \<mapsto> clock s + TL_TURN_SECONDS * 1000)\<rparr>)"

definition clearDcTimer :: "raw_id \<times> oid \<Rightarrow> 'a tl_st_scheme \<Rightarrow> 'a tl_st_scheme" where
  "clearDcTimer k s = s\<lparr>tl_dcTimers := (tl_dcTimers s)(k := None)\<rparr>"

definition getGameOrThrow :: "raw_id \<Rightarrow> 'a tl_st_scheme \<Rightarrow> (TienLenGame, 'a tl_st_scheme) outcome" where
  "getGameOrThrow r s =
     (case Option.bind (read_oid r) (\<lambda>i. find_game i s) of
        None \<Rightarrow> throw (NotFound ''Game not found'') s | Some g \<Rightarrow> return g s)"

section \<open>Views\<close>

text \<open>The hand of a player is in the view of that player only.\<close>

definition tl_view :: "TienLenGame \<Rightarrow> oid option \<Rightarrow> 'a env_st_scheme \<Rightarrow> TienLenView" where
  "tl_view g viewer s =
     (let cards = getCards (map (\<lambda>x. Hex (s_userId x)) (g_seats g)) s;
          place = (\<lambda>k. if k \<in> set (g_finishOrder g) then Some (placeOf (g_finishOrder g) k) else None)
      in \<lparr>tv_id = g_id g, tv_mode = g_mode g, tv_betAmount = g_betAmount g, tv_pot = g_pot g,
          tv_roomId = g_roomId g, tv_status = g_status g, tv_turn = g_turn g,
          tv_openingCard = g_openingCard g, tv_currentCombo = g_currentCombo g,
          tv_currentComboType = g_currentComboType g, tv_leadSeat = g_leadSeat g,
          tv_finishOrder = g_finishOrder g, tv_rpChange = g_rpChange g, tv_coinChange = g_coinChange g,
          tv_chops = g_chops g, tv_instantWin = g_instantWin g,
          tv_players = map (\<lambda>x.
            \<lparr>pv_seat = s_seat x, pv_userId = s_userId x, pv_user = map_of cards (s_userId x),
             pv_handCount = s_handCount x, pv_passed = s_passed x, pv_connected = s_connected x,
             pv_place = place (s_seat x),
             pv_hand = (if viewer = Some (s_userId x) then Some (s_hand x) else None)\<rparr>)
            (sort_key s_seat (g_seats g)),
          tv_myHand = Option.bind viewer (\<lambda>v.
            map_option s_hand (List.find (\<lambda>x. s_userId x = v) (g_seats g)))\<rparr>)"

section \<open>Rewards\<close>

text \<open>\<open>Promise.all(seats.map(s => addRankPoints(...)))\<close>, in the order of the seats.\<close>

definition award_points :: "TienLenGame \<Rightarrow> (oid \<rightharpoonup> int) \<Rightarrow> string \<Rightarrow> 'a level_st_scheme \<Rightarrow> 'a level_st_scheme" where
  "award_points g changes reason s =
     foldl (\<lambda>s x. snd (addRankPoints (s_userId x)
        (case changes (s_userId x) of Some d \<Rightarrow> d | None \<Rightarrow> 0) (Some reason) s)) s (g_seats g)"

definition coins_start :: "TienLenGame \<Rightarrow> (oid \<rightharpoonup> int)" where
  "coins_start g = foldl (\<lambda>m x. m(s_userId x \<mapsto> - g_betAmount g)) Map.empty (g_seats g)"

definition rotten_price :: "TienLenConfig \<Rightarrow> TienLenGame \<Rightarrow> int" where
  "rotten_price cfg g = max 1 (js_round (of_int (g_betAmount g) * rottenHeoBetRatio cfg))"

fun pay_rotten :: "int \<Rightarrow> string \<Rightarrow> oid \<Rightarrow> Rotten list \<Rightarrow> (oid \<rightharpoonup> int) \<Rightarrow> 'a wallet_st_scheme
    \<Rightarrow> (oid \<rightharpoonup> int) \<times> 'a wallet_st_scheme" where
  "pay_rotten price ref w [] changes s = (changes, s)"
| "pay_rotten price ref w (r # rs) changes s =
     (let amount = price * int (ro_units r)
      in if amount \<le> 0 then pay_rotten price ref w rs changes s
         else let (debited, s) = settles (collectStake (ro_userId r) amount ref) s
              in if debited
                 then pay_rotten price ref w rs (add_change w amount (add_change (ro_userId r) (- amount) changes))
                        (best_effort (payout w amount ref) s)
                 else pay_rotten price ref w rs changes s)"

definition applyRottenHeoCoins :: "TienLenConfig \<Rightarrow> TienLenGame \<Rightarrow> Rotten list \<Rightarrow> oid option
    \<Rightarrow> (oid \<rightharpoonup> int) \<Rightarrow> 'a wallet_st_scheme \<Rightarrow> (oid \<rightharpoonup> int) \<times> 'a wallet_st_scheme" where
  "applyRottenHeoCoins cfg g rs w changes s =
     (case w of None \<Rightarrow> (changes, s)
      | Some w \<Rightarrow> if rs = [] then (changes, s)
                  else pay_rotten (rotten_price cfg g) (''tienlen-rotten:'' @ oid_str (g_id g)) w rs changes s)"

definition pot_ref :: "TienLenGame \<Rightarrow> string" where
  "pot_ref g = ''tienlen:'' @ oid_str (g_id g)"

text \<open>The rewards of a finished game: points for the places, or the pot for the winner, and rotten twos.\<close>

definition end_rewards :: "TienLenConfig \<Rightarrow> TienLenGame \<Rightarrow> 'a level_st_scheme \<Rightarrow> TienLenGame \<times> 'a level_st_scheme" where
  "end_rewards cfg g s =
     (if g_mode g = RANKED then
        let m = rp_changes (rottenHeoRp cfg) g
        in (g\<lparr>g_rpChange := Some m\<rparr>, award_points g m ''tienlen'' s)
      else if g_mode g = WAGER \<and> g_pot g > 0 then
        let m = coins_start g;
            (m, s) = (case winnerUid g of None \<Rightarrow> (m, s)
              | Some u \<Rightarrow> (m(u \<mapsto> g_pot g - g_betAmount g), best_effort (payout u (g_pot g) (pot_ref g)) s));
            (m, s) = applyRottenHeoCoins cfg g (rotten_of g) (winnerUid g) m s
        in (g\<lparr>g_coinChange := Some m\<rparr>, s)
      else (g, s))"

text \<open>The game is saved, its end announced, and its room closed.\<close>

definition publish_end :: "TienLenGame \<Rightarrow> Rotten list \<Rightarrow> 'a tl_st_scheme \<Rightarrow> 'a tl_st_scheme" where
  "publish_end g rs s =
     (let s = save_game g s;
          s = broadcast (Hex (g_id g)) (TL_end (tl_view g None s)) s;
          s = (if rottenUnits rs > 0 then broadcast (Hex (g_id g)) (TL_rotten (winnerUid g) rs) s else s)
      in case g_roomId g of Some r \<Rightarrow> close_room r s | None \<Rightarrow> s)"

definition finish :: "TienLenConfig \<Rightarrow> TienLenGame \<Rightarrow> 'a tl_st_scheme \<Rightarrow> TienLenGame \<times> 'a tl_st_scheme" where
  "finish cfg g s =
     (let s = clearTimer (Hex (g_id g)) s;
          (g, s) = end_rewards cfg (finish_doc (clock s) g) s
      in (g, publish_end g (rotten_of g) s))"

definition instant_changes :: "TienLenConfig \<Rightarrow> nat \<Rightarrow> TienLenGame \<Rightarrow> (oid \<rightharpoonup> int)" where
  "instant_changes cfg winnerSeat g =
     foldl (\<lambda>m x. m(s_userId x \<mapsto>
        place_delta (length (g_seats g)) (placeOf (g_finishOrder g) (s_seat x))
          + (if s_seat x = winnerSeat then instantWinRp cfg else 0))) Map.empty (g_seats g)"

definition instant_rewards :: "TienLenConfig \<Rightarrow> TienLenGame \<Rightarrow> nat \<Rightarrow> oid \<Rightarrow> 'a level_st_scheme
    \<Rightarrow> TienLenGame \<times> 'a level_st_scheme" where
  "instant_rewards cfg g winnerSeat winnerId s =
     (if g_mode g = RANKED then
        let m = instant_changes cfg winnerSeat g
        in (g\<lparr>g_rpChange := Some m\<rparr>, award_points g m ''tienlen_instant'' s)
      else if g_mode g = WAGER \<and> g_pot g > 0 then
        (g\<lparr>g_coinChange := Some ((coins_start g)(winnerId \<mapsto> g_pot g - g_betAmount g))\<rparr>,
         best_effort (payout winnerId (g_pot g) (pot_ref g)) s)
      else (g, s))"

definition instant_order :: "TienLenGame \<Rightarrow> nat \<Rightarrow> nat list" where
  "instant_order g winnerSeat = winnerSeat # filter (\<lambda>k. k \<noteq> winnerSeat) (map s_seat (g_seats g))"

definition finishInstantWin :: "TienLenConfig \<Rightarrow> TienLenGame \<Rightarrow> nat \<Rightarrow> oid \<Rightarrow> InstantWin
    \<Rightarrow> 'a tl_st_scheme \<Rightarrow> TienLenGame \<times> 'a tl_st_scheme" where
  "finishInstantWin cfg g winnerSeat winnerId kind s =
     (let s = clearTimer (Hex (g_id g)) s;
          g = standings (instant_order g winnerSeat) (clock s) g;
          (g, s) = instant_rewards cfg (g\<lparr>g_instantWin := Some (winnerId, kind)\<rparr>) winnerSeat winnerId s
      in (g, publish_end g [] s))"

section \<open>Launching\<close>

fun findInstantWin_from :: "nat \<Rightarrow> card list list \<Rightarrow> (nat \<times> InstantWin) option" where
  "findInstantWin_from i [] = None"
| "findInstantWin_from i (h # hs) =
     (case detectInstantWin h of Some kind \<Rightarrow> Some (i, kind) | None \<Rightarrow> findInstantWin_from (Suc i) hs)"

definition findInstantWin :: "card list list \<Rightarrow> (nat \<times> InstantWin) option" where
  "findInstantWin hs = findInstantWin_from 0 hs"

text \<open>The shuffle draws 51 random numbers.\<close>

definition draw_deal :: "nat \<Rightarrow> 'a env_st_scheme \<Rightarrow> card list list \<times> 'a env_st_scheme" where
  "draw_deal n s = (deal n (\<lambda>k. rand s (rand_pos s + k)), s\<lparr>rand_pos := rand_pos s + 51\<rparr>)"

definition new_seat :: "oid \<Rightarrow> nat \<Rightarrow> card list \<Rightarrow> TienLenSeat" where
  "new_seat u i h = \<lparr>s_userId = u, s_seat = i, s_hand = h, s_handCount = length h, s_finishedRank = 0,
                     s_passed = False, s_connected = True\<rparr>"

definition new_game :: "oid \<Rightarrow> oid list \<Rightarrow> GameMode \<Rightarrow> int \<Rightarrow> oid option \<Rightarrow> card list list \<Rightarrow> TienLenGame" where
  "new_game i us mode bet roomId hs =
     (let starter = holderOfLowest hs
      in \<lparr>g_id = i, g_roomId = roomId, g_mode = mode, g_betAmount = bet, g_pot = bet * int (length us),
          g_status = ACTIVE, g_seats = map (\<lambda>k. new_seat (us ! k) k (hs ! k)) [0..<length us],
          g_turn = starter, g_openingCard = hd (hs ! starter), g_currentCombo = [],
          g_currentComboType = None, g_leadSeat = starter, g_history = [], g_finishOrder = [],
          g_resignedSeats = [], g_rpChange = None, g_coinChange = None, g_chops = [],
          g_instantWin = None, g_endedAt = None\<rparr>)"

definition matched_all :: "TienLenGame \<Rightarrow> oid list \<Rightarrow> 'a tl_st_scheme \<Rightarrow> 'a tl_st_scheme" where
  "matched_all g us s =
     foldl (\<lambda>s u. s\<lparr>tl_log := tl_log s @ [(GameUser u, TL_matched (tl_view g (Some u) s))]\<rparr>) s us"

definition bet_of :: "GameMode \<Rightarrow> int option \<Rightarrow> int" where
  "bet_of mode betAmount = (if mode = WAGER then (case betAmount of Some b \<Rightarrow> b | None \<Rightarrow> 0) else 0)"

definition createGame :: "TienLenConfig \<Rightarrow> oid list \<Rightarrow> GameMode \<Rightarrow> int option \<Rightarrow> oid option
    \<Rightarrow> 'a tl_st_scheme \<Rightarrow> (TienLenGame, 'a tl_st_scheme) outcome" where
  "createGame cfg userIds mode betAmount roomId s =
     (let n = length userIds in
      if n < 2 \<or> 4 < n then throw (BadRequest ''Tien Len needs 2 to 4 players'') s
      else
        let bet = bet_of mode betAmount;
            (hs, s) = draw_deal n s;
            (i, s) = fresh_id s;
            g = new_game i userIds mode bet roomId hs;
            s = s\<lparr>tl_games := tl_games s @ [g]\<rparr>
        in case findInstantWin hs of
             Some (seat, kind) \<Rightarrow>
               let (g', s) = finishInstantWin cfg g seat (userIds ! seat) kind (matched_all g userIds s)
               in return g' s
           | None \<Rightarrow> return g (startTurnTimer (Hex i) (matched_all g userIds s)))"

definition launchFromRoom :: "TienLenConfig \<Rightarrow> GameRoom \<Rightarrow> 'a tl_st_scheme \<Rightarrow> (TienLenGame, 'a tl_st_scheme) outcome" where
  "launchFromRoom cfg room =
     await (createGame cfg (map rm_userId (r_members room)) (r_mode room) (Some (r_betAmount room)) (Some (r_id room)))
       (\<lambda>g. await (markInProgress (Hex (r_id room)) (g_id g)) (\<lambda>_. return g))"

section \<open>Moves\<close>

text \<open>The bomb played on a two: the victim is the seat that laid it.\<close>

definition chop_event :: "TienLenGame \<Rightarrow> oid \<Rightarrow> Combo \<Rightarrow> ChopEvent option" where
  "chop_event g u cb =
     (let heo = choppedHeoCards cb (currentComboObj g); bd = chopHeoBreakdown heo
      in if heo \<noteq> [] \<and> g_leadSeat g < length (g_seats g) \<and> s_userId (g_seats g ! g_leadSeat g) \<noteq> u
         then Some \<lparr>ce_chopper = u, ce_victim = s_userId (g_seats g ! g_leadSeat g), ce_heoCount = length heo,
                    ce_black = hb_black bd, ce_red = hb_red bd, ce_units = hb_units bd, ce_heoCards = heo\<rparr>
         else None)"

definition push_chop :: "ChopEvent option \<Rightarrow> int \<Rightarrow> TienLenGame \<Rightarrow> TienLenGame" where
  "push_chop ce now g =
     (case ce of None \<Rightarrow> g
      | Some c \<Rightarrow> g\<lparr>g_chops := g_chops g @
          [\<lparr>ch_chopper = ce_chopper c, ch_victim = ce_victim c, ch_heoCount = ce_heoCount c,
            ch_black = ce_black c, ch_red = ce_red c, ch_at = now\<rparr>]\<rparr>)"

definition chop_price :: "TienLenConfig \<Rightarrow> TienLenGame \<Rightarrow> int" where
  "chop_price cfg g = max 1 (js_round (of_int (g_betAmount g) * chopHeoBetRatio cfg))"

definition applyChopPenalty :: "TienLenConfig \<Rightarrow> TienLenGame \<Rightarrow> ChopEvent \<Rightarrow> 'a tl_st_scheme \<Rightarrow> 'a tl_st_scheme" where
  "applyChopPenalty cfg g c s =
     (if g_mode g = WAGER then
        let amount = chop_price cfg g * int (ce_units c)
        in if amount \<le> 0 then s
           else let ref = ''tienlen-chop:'' @ oid_str (g_id g);
                    (debited, s) = settles (collectStake (ce_victim c) amount ref) s
                in if debited
                   then broadcast (Hex (g_id g)) (TL_chop_coins c amount False)
                          (best_effort (payout (ce_chopper c) amount ref) s)
                   else broadcast (Hex (g_id g)) (TL_chop_coins c 0 True) s
      else if g_mode g = RANKED then
        let amount = chopHeoRp cfg * int (ce_units c)
        in if amount \<le> 0 then s
           else let s = snd (addRankPoints (ce_chopper c) amount (Some ''tienlen_chop'') s);
                    s = snd (addRankPoints (ce_victim c) (- amount) (Some ''tienlen_chopped'') s)
                in broadcast (Hex (g_id g)) (TL_chop_rp c amount) s
      else s)"

text \<open>The document after the cards are laid, and the state after they are announced and a chop paid.\<close>

definition play_doc :: "TienLenGame \<Rightarrow> oid \<Rightarrow> nat \<Rightarrow> Combo \<Rightarrow> card list \<Rightarrow> int \<Rightarrow> TienLenGame" where
  "play_doc g u i cb newHand now = applyPlay (push_chop (chop_event g u cb) now g) i cb newHand now"

definition announce_play :: "TienLenConfig \<Rightarrow> raw_id \<Rightarrow> oid \<Rightarrow> nat \<Rightarrow> Combo \<Rightarrow> nat \<Rightarrow> ChopEvent option \<Rightarrow> TienLenGame
    \<Rightarrow> 'a tl_st_scheme \<Rightarrow> 'a tl_st_scheme" where
  "announce_play cfg r u i cb n ce g s =
     (let s = save_game g s;
          s = broadcast r (TL_play (s_seat (g_seats g ! i)) u (cb_cards cb) (cb_type cb)
                n (g_turn g) (g_currentCombo g) ce) s
      in case ce of Some c \<Rightarrow> applyChopPenalty cfg g c s | None \<Rightarrow> s)"

definition play_commit :: "TienLenConfig \<Rightarrow> raw_id \<Rightarrow> oid \<Rightarrow> TienLenGame \<Rightarrow> 'a tl_st_scheme
    \<Rightarrow> (TienLenView, 'a tl_st_scheme) outcome" where
  "play_commit cfg r u g s =
     (if maybeFinish g
      then let (g, s) = finish cfg g s in return (tl_view g (Some u) s) s
      else let s = startTurnTimer r (save_game g s) in return (tl_view g (Some u) s) s)"

text \<open>The timer is stopped before the cards are looked at.\<close>

definition play :: "TienLenConfig \<Rightarrow> raw_id \<Rightarrow> oid \<Rightarrow> card list \<Rightarrow> 'a tl_st_scheme \<Rightarrow> (TienLenView, 'a tl_st_scheme) outcome" where
  "play cfg r u cards = await (getGameOrThrow r) (\<lambda>g s.
     case turn_guard g u of
       Inl e \<Rightarrow> throw e s
     | Inr i \<Rightarrow>
         if cards = [] then throw (BadRequest ''No cards played'') s
         else let s = clearTimer r s in
           (case play_guard g i cards of
              Inl e \<Rightarrow> throw e s
            | Inr (cb, newHand) \<Rightarrow>
                let g' = play_doc g u i cb newHand (clock s)
                in play_commit cfg r u g'
                     (announce_play cfg r u i cb (length newHand) (chop_event g u cb) g' s)))"

definition pass :: "raw_id \<Rightarrow> oid \<Rightarrow> 'a tl_st_scheme \<Rightarrow> (TienLenView, 'a tl_st_scheme) outcome" where
  "pass r u = await (getGameOrThrow r) (\<lambda>g s.
     case turn_guard g u of
       Inl e \<Rightarrow> throw e s
     | Inr i \<Rightarrow>
         if g_currentCombo g = [] then throw (BadRequest ''You must lead - cannot pass on a free turn'') s
         else let s = clearTimer r s;
                  g = applyPass g i (clock s);
                  s = save_game g s;
                  s = broadcast r (TL_pass (s_seat (g_seats g ! i)) u (g_turn g) (g_currentCombo g = []) False) s;
                  s = startTurnTimer r s
              in return (tl_view g (Some u) s) s)"

section \<open>Disconnects, resignations and timeouts\<close>

definition autoSkip :: "raw_id \<Rightarrow> nat \<Rightarrow> 'a tl_st_scheme \<Rightarrow> (unit, 'a tl_st_scheme) outcome" where
  "autoSkip r k s =
     (case Option.bind (read_oid r) (\<lambda>i. find_game i s) of
        None \<Rightarrow> return () s
      | Some g \<Rightarrow>
          if g_status g \<noteq> ACTIVE \<or> g_turn g \<noteq> k \<or> length (g_seats g) \<le> k then return () s
          else let g' = (if g_currentCombo g = []
                         then let c = nextActiveSeat g k in g\<lparr>g_leadSeat := c, g_turn := c\<rparr>
                         else applyPass g k (clock s));
                   s = startTurnTimer r (save_game g' s)
               in return () (broadcast r (TL_pass k (s_userId (g_seats g' ! k)) (g_turn g')
                    (g_currentCombo g' = []) True) s))"

text \<open>The callback of the turn timer. With cards in the hand there is a first one to lead.\<close>

definition onTimeout :: "TienLenConfig \<Rightarrow> raw_id \<Rightarrow> 'a tl_st_scheme \<Rightarrow> 'a tl_st_scheme" where
  "onTimeout cfg r s =
     (case Option.bind (read_oid r) (\<lambda>i. find_game i s) of
        None \<Rightarrow> s
      | Some g \<Rightarrow>
          if g_status g \<noteq> ACTIVE \<or> length (g_seats g) \<le> g_turn g then s
          else let seat = g_seats g ! g_turn g in
            if s_handCount seat = 0 then s
            else if \<not> s_connected seat then best_effort (autoSkip r (s_seat seat)) s
            else if g_currentCombo g = []
            then best_effort (play cfg r (s_userId seat) (take 1 (s_hand seat))) s
            else best_effort (pass r (s_userId seat)) s)"

definition resign :: "TienLenConfig \<Rightarrow> raw_id \<Rightarrow> oid \<Rightarrow> 'a tl_st_scheme \<Rightarrow> (TienLenView, 'a tl_st_scheme) outcome" where
  "resign cfg r u = await (getGameOrThrow r) (\<lambda>g s.
     if g_status g \<noteq> ACTIVE then throw (BadRequest ''Game is not active'') s
     else case seatOf g u of
       None \<Rightarrow> throw (Forbidden ''Not a player in this game'') s
     | Some i \<Rightarrow>
         if s_handCount (g_seats g ! i) = 0 then throw (BadRequest ''Already finished'') s
         else let s = clearTimer r s; g = forceFinishLast g i in
           if maybeFinish g
           then let (g, s) = finish cfg g s in return (tl_view g (Some u) s) s
           else let k = s_seat (g_seats g ! i);
                    g = hand_on g k;
                    s = startTurnTimer r (save_game g s);
                    s = broadcast r (TL_resigned u k (g_turn g) False) s
                in return (tl_view g (Some u) s) s)"

definition onReconnect :: "raw_id \<Rightarrow> oid \<Rightarrow> 'a tl_st_scheme \<Rightarrow> 'a tl_st_scheme" where
  "onReconnect r u s =
     (case Option.bind (read_oid r) (\<lambda>i. find_game i s) of
        None \<Rightarrow> s
      | Some g \<Rightarrow>
          let s = clearDcTimer (r, u) s;
              s = (case seatOf g u of
                     Some i \<Rightarrow> if s_connected (g_seats g ! i) then s
                               else save_game (upd_seat i (\<lambda>x. x\<lparr>s_connected := True\<rparr>) g) s
                   | None \<Rightarrow> s)
          in broadcast r (TL_reconnected u) s)"

definition onDisconnect :: "raw_id \<Rightarrow> oid \<Rightarrow> 'a tl_st_scheme \<Rightarrow> 'a tl_st_scheme" where
  "onDisconnect r u s =
     (case Option.bind (read_oid r) (\<lambda>i. find_game i s) of
        None \<Rightarrow> s
      | Some g \<Rightarrow>
          if g_status g \<noteq> ACTIVE then s
          else case seatOf g u of
            None \<Rightarrow> s
          | Some i \<Rightarrow>
              if s_handCount (g_seats g ! i) = 0 then s
              else let g = upd_seat i (\<lambda>x. x\<lparr>s_connected := False\<rparr>) g;
                       s = broadcast r (TL_disconnected u) (save_game g s);
                       k = s_seat (g_seats g ! i);
                       s = (if g_turn g = k then best_effort (autoSkip r k) s else s);
                       s = clearDcTimer (r, u) s
                   in s\<lparr>tl_dcTimers := (tl_dcTimers s)((r, u) \<mapsto> clock s + TL_RECONNECT_GRACE_MS)\<rparr>)"

definition forfeitDisconnected :: "TienLenConfig \<Rightarrow> raw_id \<Rightarrow> oid \<Rightarrow> 'a tl_st_scheme \<Rightarrow> 'a tl_st_scheme" where
  "forfeitDisconnected cfg r u s =
     (let s = clearDcTimer (r, u) s in
      case Option.bind (read_oid r) (\<lambda>i. find_game i s) of
        None \<Rightarrow> s
      | Some g \<Rightarrow>
          if g_status g \<noteq> ACTIVE then s
          else case seatOf g u of
            None \<Rightarrow> s
          | Some i \<Rightarrow>
              if s_handCount (g_seats g ! i) = 0 then s
              else let g = forceFinishLast g i in
                if maybeFinish g then snd (finish cfg g s)
                else let k = s_seat (g_seats g ! i);
                         g = hand_on g k;
                         s = startTurnTimer r (save_game g s)
                     in broadcast r (TL_resigned u k (g_turn g) True) s)"

section \<open>Lookups\<close>

definition plays_in :: "oid \<Rightarrow> TienLenGame \<Rightarrow> bool" where
  "plays_in u g \<longleftrightarrow> u \<in> s_userId ` set (g_seats g)"

definition myActiveGame :: "oid \<Rightarrow> 'a tl_st_scheme \<Rightarrow> TienLenView option" where
  "myActiveGame u s =
     map_option (\<lambda>g. tl_view g (Some u) s)
       (List.find (\<lambda>g. g_status g = ACTIVE \<and> plays_in u g) (rev (tl_games s)))"

definition tl_history :: "oid \<Rightarrow> nat \<Rightarrow> 'a tl_st_scheme \<Rightarrow> TienLenView list" where
  "tl_history u l s =
     map (\<lambda>g. tl_view g (Some u) s)
       (take (min l 50) (rev (filter (\<lambda>g. g_status g = FINISHED \<and> plays_in u g) (tl_games s))))"

end
