(* ===== verification/TienLenGateway.thy ===== *)
theory TienLenGateway
  imports Sockets TienLenGame
begin

text \<open>
  \<open>src/games/tienlen/tienlen.gateway.ts\<close>: the handlers of the namespace \<open>/ws-tienlen\<close>, one definition
  per message. Each runs after the guard \<open>canActivate\<close> of its client.
\<close>

type_synonym tl_counts = "(nat \<times> nat) list \<times> (nat \<times> (oid \<times> sender) list) list"

type_synonym 'r tl_gw = "('r tl_st_scheme, TienLenQueue, tl_counts) gateway"

section \<open>Lobby and queue\<close>

definition tl_card_of :: "(oid \<times> UserCard) list \<Rightarrow> oid \<Rightarrow> sender" where
  "tl_card_of cards u = (case map_of cards u of Some c \<Rightarrow> Inl c | None \<Rightarrow> Inr \<lparr>au_id = u, au_username = ''unknown''\<rparr>)"

definition tl_queuedPlayers :: "'r tl_gw \<Rightarrow> (nat \<times> (oid \<times> sender) list) list" where
  "tl_queuedPlayers g =
     (let queued = tq_listQueued (gw_queue g);
          cards = getCards (map Hex (remdups (concat (map snd queued)))) (gw_service g)
      in map (\<lambda>(n, us). (n, map (\<lambda>u. (u, tl_card_of cards u)) us)) queued)"

definition tl_counts :: "'r tl_gw \<Rightarrow> tl_counts" where
  "tl_counts g = (tq_counts (gw_queue g), tl_queuedPlayers g)"

definition broadcastCounts :: "'r tl_gw \<Rightarrow> 'r tl_gw" where
  "broadcastCounts g = emit_to Lobby_room (Queue_count (tl_counts g)) g"

definition onLobbyJoin :: "string \<Rightarrow> 'r tl_gw \<Rightarrow> (tl_counts, 'r tl_gw) outcome" where
  "onLobbyJoin c g = (let g = join_channel c Lobby_room g in return (tl_counts g) g)"

definition onLobbyLeave :: "string \<Rightarrow> 'r tl_gw \<Rightarrow> (unit, 'r tl_gw) outcome" where
  "onLobbyLeave c g = return () (leave_channel c Lobby_room g)"

definition onQueueCount :: "'r tl_gw \<Rightarrow> (tl_counts, 'r tl_gw) outcome" where
  "onQueueCount g = return (tl_counts g) g"

text \<open>The answer to a player who joined the queue: waiting for a table of that size, or in a game.\<close>

datatype queue_reply = Queued nat "(nat \<times> nat) list" | Matched oid

definition onQueueJoin :: "TienLenConfig \<Rightarrow> nat option \<Rightarrow> string \<Rightarrow> 'r tl_gw \<Rightarrow> (queue_reply, 'r tl_gw) outcome" where
  "onQueueJoin cfg sz c = await (userOf c) (\<lambda>u g.
     let n = table_size 4 sz;
         g = on_queue (tq_enqueue n (au_id u) c (clock (gw_service g))) g;
         g = join_channel c Lobby_room g;
         (matched, q) = tq_tryMatch n (gw_queue g);
         g = g\<lparr>gw_queue := q\<rparr>
     in case matched of
          None \<Rightarrow> let g = broadcastCounts g in return (Queued n (tq_counts (gw_queue g))) g
        | Some us \<Rightarrow> await (service (createGame cfg us RANKED None None))
            (\<lambda>game g. return (Matched (g_id game)) (broadcastCounts g)) g)"

definition onQueueLeave :: "string \<Rightarrow> 'r tl_gw \<Rightarrow> ((nat \<times> nat) list, 'r tl_gw) outcome" where
  "onQueueLeave c = await (userOf c) (\<lambda>u g.
     let g = broadcastCounts (on_queue (tq_dequeue (au_id u)) g) in return (tq_counts (gw_queue g)) g)"

section \<open>Invitations\<close>

definition wager_mode :: "bool option \<Rightarrow> int \<Rightarrow> GameMode" where
  "wager_mode ranked bet = (if ranked = Some True then RANKED else if bet > 0 then WAGER else CASUAL)"

definition onChallenge :: "raw_id option \<Rightarrow> bool option \<Rightarrow> rat option \<Rightarrow> string \<Rightarrow> 'r tl_gw \<Rightarrow> (nat, 'r tl_gw) outcome" where
  "onChallenge opponent ranked bet =
     challenge_send TIENLEN (wager_mode ranked (floor_bet bet)) (floor_bet bet) opponent"

definition challenge_ref :: "PendingChallenge \<Rightarrow> string" where
  "challenge_ref k = ''tienlen-challenge:'' @ nat_str (ch_id k)"

text \<open>Both stakes, the challenger's first; when one is missing the other goes back.\<close>

definition collect_both :: "PendingChallenge \<Rightarrow> oid \<Rightarrow> 'r wallet_st_scheme \<Rightarrow> (unit, 'r wallet_st_scheme) outcome" where
  "collect_both k u s =
     (let a = ch_fromUserId k; bet = ch_betAmount k; ref = challenge_ref k;
          (okFrom, s) = settles (collectStake a bet ref) s;
          (okTo, s) = (if okFrom then settles (collectStake u bet ref) s else (False, s))
      in if \<not> okFrom \<or> \<not> okTo
         then let charged = (if okFrom then [a] else []) @ (if okTo then [u] else [])
              in throw (WsError ''Both players need enough coins for the bet'') (refundMany charged bet ref s)
         else return () s)"

definition tl_challenge_start :: "TienLenConfig \<Rightarrow> PendingChallenge \<Rightarrow> oid \<Rightarrow> 'r tl_st_scheme \<Rightarrow> (oid, 'r tl_st_scheme) outcome" where
  "tl_challenge_start cfg k u =
     await (if ch_mode k = WAGER \<and> ch_betAmount k > 0 then collect_both k u else return ()) (\<lambda>_.
     await (createGame cfg [ch_fromUserId k, u] (ch_mode k) (Some (ch_betAmount k)) None) (\<lambda>game. return (g_id game)))"

definition onChallengeAccept :: "TienLenConfig \<Rightarrow> nat \<Rightarrow> string \<Rightarrow> 'r tl_gw \<Rightarrow> (oid, 'r tl_gw) outcome" where
  "onChallengeAccept cfg = challenge_accept TIENLEN (tl_challenge_start cfg)"

definition onChallengeDecline :: "nat \<Rightarrow> string \<Rightarrow> 'r tl_gw \<Rightarrow> (unit, 'r tl_gw) outcome" where
  "onChallengeDecline = challenge_decline"

section \<open>Coin rooms\<close>

definition tl_room_input :: "rat option \<Rightarrow> nat option \<Rightarrow> bool option \<Rightarrow> bool option \<Rightarrow> string option \<Rightarrow> CreateRoomInput" where
  "tl_room_input bet maxPlayers ranked isPrivate name =
     \<lparr>ci_game = TIENLEN, ci_mode = wager_mode ranked (floor_bet bet), ci_betAmount = Some (floor_bet bet),
      ci_maxPlayers = table_size 4 maxPlayers, ci_minPlayers = 2, ci_name = name,
      ci_isPrivate = Some (case isPrivate of Some b \<Rightarrow> b | None \<Rightarrow> False)\<rparr>"

definition onRoomCreate :: "rat option \<Rightarrow> nat option \<Rightarrow> bool option \<Rightarrow> bool option \<Rightarrow> string option \<Rightarrow> string
    \<Rightarrow> 'r tl_gw \<Rightarrow> (RoomView, 'r tl_gw) outcome" where
  "onRoomCreate bet maxPlayers ranked isPrivate name c =
     await (room_create (tl_room_input bet maxPlayers ranked isPrivate name) c) (\<lambda>room g. return (room_view room g) g)"

definition onRoomJoin :: "raw_id option \<Rightarrow> string option \<Rightarrow> string \<Rightarrow> 'r tl_gw \<Rightarrow> (RoomView, 'r tl_gw) outcome" where
  "onRoomJoin = room_join"

definition onRoomLeave :: "raw_id \<Rightarrow> string \<Rightarrow> 'r tl_gw \<Rightarrow> (bool, 'r tl_gw) outcome" where
  "onRoomLeave = room_leave"

definition onRoomReady :: "raw_id \<Rightarrow> bool \<Rightarrow> string \<Rightarrow> 'r tl_gw \<Rightarrow> (RoomView, 'r tl_gw) outcome" where
  "onRoomReady = room_ready"

definition tl_launch :: "TienLenConfig \<Rightarrow> GameRoom \<Rightarrow> 'r tl_st_scheme \<Rightarrow> (oid, 'r tl_st_scheme) outcome" where
  "tl_launch cfg room = await (launchFromRoom cfg room) (\<lambda>game. return (g_id game))"

definition onRoomStart :: "TienLenConfig \<Rightarrow> raw_id \<Rightarrow> string \<Rightarrow> 'r tl_gw \<Rightarrow> (oid, 'r tl_gw) outcome" where
  "onRoomStart cfg = room_start (tl_launch cfg)"

section \<open>In a game\<close>

definition onJoinGame :: "raw_id \<Rightarrow> string \<Rightarrow> 'r tl_gw \<Rightarrow> (TienLenView, 'r tl_gw) outcome" where
  "onJoinGame r c = await (userOf c) (\<lambda>u. await (service (getGameOrThrow r)) (\<lambda>game g.
     let g = on_client c (\<lambda>k. k\<lparr>cl_game := Some r\<rparr>) (join_channel c (Game_room r) g);
         g = on_service (onReconnect r (au_id u)) g
     in return (tl_view game (Some (au_id u)) (gw_service g)) g))"

definition onLeaveGame :: "raw_id \<Rightarrow> string \<Rightarrow> 'r tl_gw \<Rightarrow> (raw_id, 'r tl_gw) outcome" where
  "onLeaveGame r c g =
     return r (on_client c (\<lambda>k. if cl_game k = Some r then k\<lparr>cl_game := None\<rparr> else k) (leave_channel c (Game_room r) g))"

definition onPlay :: "TienLenConfig \<Rightarrow> raw_id \<Rightarrow> card list \<Rightarrow> string \<Rightarrow> 'r tl_gw \<Rightarrow> (TienLenView, 'r tl_gw) outcome" where
  "onPlay cfg r cards c = await (userOf c) (\<lambda>u. service (play cfg r (au_id u) cards))"

definition onPass :: "raw_id \<Rightarrow> string \<Rightarrow> 'r tl_gw \<Rightarrow> (TienLenView, 'r tl_gw) outcome" where
  "onPass r c = await (userOf c) (\<lambda>u. service (pass r (au_id u)))"

definition onResign :: "TienLenConfig \<Rightarrow> raw_id \<Rightarrow> string \<Rightarrow> 'r tl_gw \<Rightarrow> (TienLenView, 'r tl_gw) outcome" where
  "onResign cfg r c = await (userOf c) (\<lambda>u. service (resign cfg r (au_id u)))"

definition tl_handleDisconnect :: "string \<Rightarrow> 'r tl_gw \<Rightarrow> 'r tl_gw" where
  "tl_handleDisconnect = handleDisconnect tq_isQueued tq_dequeue tl_counts onDisconnect"

end
