(* ===== verification/TienLenLaws.thy ===== *)
theory TienLenLaws
  imports TienLenGame
begin

text \<open>
  What holds of the Tien Len service: every stored game stays sound through every operation, the
  views do not show the hands of others, the rewards balance, and what goes wrong when a play is
  rejected or a game is won on the deal.
\<close>

section \<open>Stored games\<close>

text \<open>The tables of the games are what the other components leave alone.\<close>

lemma rooms_more_tl:
  "rooms_st.more t = rooms_st.more s \<Longrightarrow>
     tl_games t = tl_games s \<and> tl_timers t = tl_timers s \<and> tl_dcTimers t = tl_dcTimers s \<and> tl_log t = tl_log s"
  by (cases s; cases t) simp

lemma only_accounts_tl:
  "only_accounts s t \<Longrightarrow> tl_games t = tl_games s \<and> tl_timers t = tl_timers s \<and> tl_dcTimers t = tl_dcTimers s
     \<and> tl_log t = tl_log s \<and> next_id s \<le> next_id t \<and> clock t = clock s"
  using rooms_more_tl level_more by (metis only_accounts_def)

lemma only_accounts_award: "only_accounts s (award_points g m r s)"
  unfolding award_points_def
proof (induction "g_seats g" arbitrary: g s)
  case (Cons x xs)
  have IH: "only_accounts s (foldl (\<lambda>s x. snd (addRankPoints (s_userId x)
      (case m (s_userId x) of Some d \<Rightarrow> d | None \<Rightarrow> 0) (Some r) s)) s xs)" for s :: "'a level_st_scheme"
    using Cons.hyps(1) [of "g\<lparr>g_seats := xs\<rparr>"] by simp
  show ?case unfolding Cons.hyps(2) [symmetric]
    using only_accounts_trans [OF only_accounts_payments(3) IH] by simp
qed simp

lemma only_accounts_rotten: "only_accounts s (snd (pay_rotten price ref w rs m s))"
proof (induction rs arbitrary: m s)
  case (Cons r rs)
  obtain b t where c: "settles (collectStake (ro_userId r) (price * int (ro_units r)) ref) s = (b, t)" by fastforce
  have "only_accounts s t" using only_accounts_payments(2) c by (metis snd_conv)
  then show ?case
    using Cons.IH only_accounts_trans [OF _ Cons.IH] only_accounts_trans only_accounts_payments(1) c
    by (auto simp: Let_def split_beta) blast+
qed simp

text \<open>Recording the changes sets at most two fields.\<close>

definition with_changes :: "TienLenGame \<Rightarrow> TienLenGame \<Rightarrow> bool" where
  "with_changes g g' \<longleftrightarrow> (\<exists>rp cc. g' = g\<lparr>g_rpChange := rp, g_coinChange := cc\<rparr>)"

lemma changes_ex:
  "with_changes g (g\<lparr>g_rpChange := rp\<rparr>)" "with_changes g (g\<lparr>g_coinChange := cc\<rparr>)" "with_changes g g"
proof -
  have "g\<lparr>g_rpChange := rp\<rparr> = g\<lparr>g_rpChange := rp, g_coinChange := g_coinChange g\<rparr>"
    "g\<lparr>g_coinChange := cc\<rparr> = g\<lparr>g_rpChange := g_rpChange g, g_coinChange := cc\<rparr>"
    "g = g\<lparr>g_rpChange := g_rpChange g, g_coinChange := g_coinChange g\<rparr>" by simp_all
  then show "with_changes g (g\<lparr>g_rpChange := rp\<rparr>)" "with_changes g (g\<lparr>g_coinChange := cc\<rparr>)" "with_changes g g"
    unfolding with_changes_def by blast+
qed

lemma end_rewards_frame:
  assumes "end_rewards cfg g s = (g', t)"
  shows "only_accounts s t \<and> with_changes g g'"
proof -
  note upd = changes_ex [of g]
  have rot: "only_accounts s (snd (applyRottenHeoCoins cfg g rs w m s))" for rs w m s
    using only_accounts_rotten by (auto simp: applyRottenHeoCoins_def split: option.split)
  consider (ranked) "g_mode g = RANKED" | (wager) "g_mode g \<noteq> RANKED" "g_mode g = WAGER \<and> g_pot g > 0"
    | (none) "g_mode g \<noteq> RANKED" "\<not> (g_mode g = WAGER \<and> g_pot g > 0)" by blast
  then show ?thesis
  proof cases
    case ranked
    then show ?thesis using assms upd(1) only_accounts_award by (auto simp: end_rewards_def Let_def)
  next
    case wager
    show ?thesis
    proof (cases "winnerUid g")
      case None
      then show ?thesis using assms wager upd(2) rot by (auto simp: end_rewards_def Let_def split_beta)
    next
      case (Some u)
      then show ?thesis
        using assms wager upd(2) only_accounts_trans [OF only_accounts_payments(1) rot]
        by (auto simp: end_rewards_def Let_def split_beta)
    qed
  next
    case none
    then show ?thesis using assms upd(3) by (auto simp: end_rewards_def)
  qed
qed

lemma instant_rewards_frame:
  assumes "instant_rewards cfg g k w s = (g', t)"
  shows "only_accounts s t \<and> with_changes g g'"
proof -
  note upd = changes_ex [of g]
  show ?thesis using assms upd only_accounts_award only_accounts_payments(1)
    by (auto simp: instant_rewards_def Let_def split: if_splits)
qed

text \<open>The amounts recorded at the end are not part of the table.\<close>

lemma table_changes [simp]:
  "table_ok (g\<lparr>g_rpChange := rp, g_coinChange := cc\<rparr>) = table_ok g"
  "final_ok (g\<lparr>g_rpChange := rp, g_coinChange := cc\<rparr>) = final_ok g"
  "standing_ok (g\<lparr>g_rpChange := rp, g_coinChange := cc\<rparr>) = standing_ok g"
  "table_ok (g\<lparr>g_instantWin := iw\<rparr>) = table_ok g" "final_ok (g\<lparr>g_instantWin := iw\<rparr>) = final_ok g"
  "table_ok (g\<lparr>g_chops := ch\<rparr>) = table_ok g" "standing_ok (g\<lparr>g_chops := ch\<rparr>) = standing_ok g"
  by (simp_all add: table_ok_def final_ok_def standing_ok_def hands_def played_def out_seats_def)

definition tl_ok :: "'a tl_st_scheme \<Rightarrow> bool" where
  "tl_ok s \<longleftrightarrow> distinct (map g_id (tl_games s)) \<and> (\<forall>g \<in> set (tl_games s). g_id g < next_id s \<and> game_ok g)"

lemma tl_ok_stored: "tl_ok s \<longleftrightarrow> stored_ok g_id game_ok (next_id s) (tl_games s)"
  by (simp add: tl_ok_def stored_ok_def)

lemmas find_game_SomeD = tl.look_SomeD
lemmas tl_okD = tl.ok_look [where P = game_ok and n = "next_id s" and s = s for s, folded tl_ok_stored]
lemmas tl_ok_same = tl.ok_same [where P = game_ok, folded tl_ok_stored]
lemmas tl_ok_save = tl.ok_save [where P = game_ok, folded tl_ok_stored]

lemma tl_frame [simp]:
  "tl_games (broadcast r e s) = tl_games s" "tl_games (clearTimer r s) = tl_games s"
  "tl_games (startTurnTimer r s) = tl_games s" "tl_games (clearDcTimer k s) = tl_games s"
  "tl_games (close_room i s) = tl_games s" "tl_games (save_game g s) = updateOne (\<lambda>x. g_id x = g_id g) (\<lambda>_. g) (tl_games s)"
  "next_id (broadcast r e s) = next_id s" "next_id (clearTimer r s) = next_id s"
  "next_id (startTurnTimer r s) = next_id s" "next_id (clearDcTimer k s) = next_id s"
  "next_id (close_room i s) = next_id s" "next_id (save_game g s) = next_id s"
  "clock (clearTimer r s) = clock s" "clock (broadcast r e s) = clock s" "clock (save_game g s) = clock s"
  by (simp_all add: broadcast_def clearTimer_def startTurnTimer_def clearDcTimer_def close_room_def set_room_def
      save_game_def Let_def)

lemma tl_timers_frame:
  "tl_timers (broadcast r e s) = tl_timers s" "tl_timers (clearTimer r s) = (tl_timers s)(r := None)"
  "tl_timers (startTurnTimer r s) = (tl_timers s)(r \<mapsto> clock s + TL_TURN_SECONDS * 1000)"
  "tl_timers (save_game g s) = tl_timers s" "clock (startTurnTimer r s) = clock s"
  by (simp_all add: broadcast_def clearTimer_def startTurnTimer_def save_game_def Let_def)

lemma publish_end_frame [simp]:
  "tl_games (publish_end g rs s) = tl_games (save_game g s)" "next_id (publish_end g rs s) = next_id s"
  by (simp_all add: publish_end_def Let_def split: option.split)

lemma updateOne_twice: "updateOne (\<lambda>x. k x = k g) (\<lambda>_. g) (updateOne (\<lambda>x. k x = k g) (\<lambda>_. h) ds)
   = (if k h = k g then updateOne (\<lambda>x. k x = k g) (\<lambda>_. g) ds
      else updateOne (\<lambda>x. k x = k g) (\<lambda>_. g) (updateOne (\<lambda>x. k x = k g) (\<lambda>_. h) ds))"
  by (induction ds) auto

lemma finish_effect:
  assumes "finish cfg g s = (g', t)" "table_ok g" "standing_ok g"
  shows "game_ok g'" "g_id g' = g_id g" "tl_games t = tl_games (save_game g' s)" "next_id s \<le> next_id t"
    "g_status g' = FINISHED"
proof -
  obtain h u where h: "end_rewards cfg (finish_doc (clock s) g) (clearTimer (Hex (g_id g)) s) = (h, u)" by fastforce
  note f = end_rewards_frame [OF h]
  obtain rp cc where e: "h = (finish_doc (clock s) g)\<lparr>g_rpChange := rp, g_coinChange := cc\<rparr>"
    using f unfolding with_changes_def by blast
  have g': "g' = h" "t = publish_end h (rotten_of h) u" using assms(1) h by (auto simp: finish_def Let_def)
  note a = only_accounts_tl [OF conjunct1 [OF f]]
  have ok: "game_ok (finish_doc (clock s) g)" by (rule finish_doc_ok [OF assms(2,3)])
  have st: "g_status (finish_doc (clock s) g) = FINISHED" "g_id (finish_doc (clock s) g) = g_id g"
    by (simp_all add: finish_doc_def standings_def)
  show "game_ok g'" using ok st by (simp add: g'(1) e game_ok_def)
  show "g_id g' = g_id g" "g_status g' = FINISHED" using st by (simp_all add: g'(1) e)
  show "tl_games t = tl_games (save_game g' s)" "next_id s \<le> next_id t" using a g' by simp_all
qed

section \<open>Every operation keeps the stored games sound\<close>

lemma chop_frame:
  "tl_games (applyChopPenalty cfg g c s) = tl_games s \<and> next_id s \<le> next_id (applyChopPenalty cfg g c s)
   \<and> tl_timers (applyChopPenalty cfg g c s) = tl_timers s"
proof -
  obtain b t where st: "settles (collectStake (ce_victim c) (chop_price cfg g * int (ce_units c))
      (''tienlen-chop:'' @ oid_str (g_id g))) s = (b, t)" by fastforce
  have 1: "only_accounts s t" using only_accounts_payments(2) st by (metis snd_conv)
  note 2 = only_accounts_trans [OF 1 only_accounts_payments(1)]
  have 3: "only_accounts s (snd (addRankPoints v e r' (snd (addRankPoints u d r s))))" for u d r v e r'
    by (rule only_accounts_trans [OF only_accounts_payments(3) only_accounts_payments(3)])
  show ?thesis
    using only_accounts_tl [OF 1] only_accounts_tl [OF 2] only_accounts_tl [OF 3]
    unfolding applyChopPenalty_def Let_def st by (simp add: broadcast_def)
qed

lemma push_chop_ok [simp]:
  "table_ok (push_chop ce now g) = table_ok g" "live_ok (push_chop ce now g) = live_ok g"
  "play_guard (push_chop ce now g) = play_guard g" "g_id (push_chop ce now g) = g_id g"
  "g_seats (push_chop ce now g) = g_seats g" "g_status (push_chop ce now g) = g_status g"
  by (auto simp: push_chop_def live_ok_def out_seats_def activeSeats_def play_guard_def [abs_def] currentComboObj_def
      split: option.split intro!: ext)

lemma resetTrick_id [simp]: "g_id (resetTrick g) = g_id g"
  by (simp add: resetTrick_def Let_def)

lemma advance_loop_id: "g_id (advance_loop g cs) = g_id g"
  by (induction cs) (auto simp: Let_def)

lemma apply_id [simp]: "g_id (applyPlay g i cb h now) = g_id g" "g_id (applyPass g i now) = g_id g"
  "g_id (forceFinishLast g i) = g_id g" "g_id (hand_on g k) = g_id g" "g_id (upd_seat i f g) = g_id g"
  "g_id (advanceTurn g k) = g_id g"
  by (simp_all add: applyPlay_laid applyPass_passing advanceTurn_def advance_loop_id laid_def passing_def Let_def
      forceFinishLast_def hand_on_def upd_seat_def)

lemma getGame_cases:
  obtains (none) e where "getGameOrThrow r s = (Inl e, s)" "Option.bind (read_oid r) (\<lambda>i. find_game i s) = None"
  | (some) g where "getGameOrThrow r s = (Inr g, s)" "find_game (g_id g) s = Some g" "read_oid r = Some (g_id g)"
proof (cases "Option.bind (read_oid r) (\<lambda>i. find_game i s)")
  case None
  then show ?thesis using none by (simp add: getGameOrThrow_def)
next
  case (Some g)
  then obtain i where "read_oid r = Some i" "find_game i s = Some g" by (auto simp: bind_eq_Some_conv)
  then show ?thesis using some [of g] find_game_SomeD [of i s g] Some by (simp add: getGameOrThrow_def)
qed

text \<open>What a play does to the stored games.\<close>

lemma announce_frame:
  "tl_games (announce_play cfg r u i cb n ce g s) = tl_games (save_game g s)
   \<and> next_id s \<le> next_id (announce_play cfg r u i cb n ce g s) \<and> tl_timers (announce_play cfg r u i cb n ce g s) = tl_timers s"
  using chop_frame [of cfg g _ "broadcast r (TL_play (s_seat (g_seats g ! i)) u (cb_cards cb) (cb_type cb)
        n (g_turn g) (g_currentCombo g) ce) (save_game g s)"]
  by (cases ce) (simp_all add: announce_play_def Let_def tl_timers_frame)

lemma play_cases:
  assumes "play cfg r u cards s = (x, t)"
  obtains (error) e where "x = Inl e" "tl_games t = tl_games s" "next_id t = next_id s"
  | (finished) g i cb h v g' where "find_game (g_id g) s = Some g" "read_oid r = Some (g_id g)"
      "turn_guard g u = Inr i" "play_guard g i cards = Inr (cb, h)" "x = Inr v"
      "maybeFinish (play_doc g u i cb h (clock s))"
      "finish cfg (play_doc g u i cb h (clock s))
         (announce_play cfg r u i cb (length h) (chop_event g u cb) (play_doc g u i cb h (clock s)) (clearTimer r s)) = (g', t)"
  | (goes_on) g i cb h v where "find_game (g_id g) s = Some g" "read_oid r = Some (g_id g)"
      "turn_guard g u = Inr i" "play_guard g i cards = Inr (cb, h)" "x = Inr v"
      "\<not> maybeFinish (play_doc g u i cb h (clock s))"
      "tl_games t = tl_games (save_game (play_doc g u i cb h (clock s)) s)" "next_id s \<le> next_id t"
      "tl_timers t = (tl_timers s)(r \<mapsto> clock t + TL_TURN_SECONDS * 1000)"
proof (cases rule: getGame_cases [of r s])
  case (none e)
  then show ?thesis using assms error by (auto simp: play_def await_def)
next
  case (some g)
  show ?thesis
  proof (cases "turn_guard g u")
    case (Inl e)
    then show ?thesis using assms some error by (auto simp: play_def await_def)
  next
    case (Inr i)
    show ?thesis
    proof (cases "cards = [] \<or> isl (play_guard g i cards)")
      case True
      then show ?thesis using assms some Inr error
        by (auto simp: play_def await_def isl_def Let_def split: if_splits)
    next
      case False
      then obtain cb h where pg: "play_guard g i cards = Inr (cb, h)" by (cases "play_guard g i cards") auto
      define a where "a = play_doc g u i cb h (clock s)"
      define s1 where "s1 = announce_play cfg r u i cb (length h) (chop_event g u cb) a (clearTimer r s)"
      have p: "play_commit cfg r u a s1 = (x, t)"
        using assms some Inr pg False by (simp add: play_def await_def Let_def a_def s1_def)
      show ?thesis
      proof (cases "maybeFinish a")
        case True
        obtain g' t' where fin: "finish cfg a s1 = (g', t')" by fastforce
        have xt: "x = Inr (tl_view g' (Some u) t')" "t = t'" using p True fin by (auto simp: play_commit_def)
        show ?thesis
          by (rule finished [OF some(2,3) Inr pg xt(1)]) (use True fin xt in \<open>simp_all add: a_def s1_def\<close>)
      next
        case False
        have xt: "x = Inr (tl_view a (Some u) t)" "t = startTurnTimer r (save_game a s1)"
          using p False by (auto simp: play_commit_def Let_def)
        note f = announce_frame [of cfg r u i cb "length h" "chop_event g u cb" a "clearTimer r s", folded s1_def]
        show ?thesis
          by (rule goes_on [OF some(2,3) Inr pg xt(1)])
             (use False f xt(2) in \<open>simp_all add: a_def tl_timers_frame updateOne_twice\<close>)
      qed
    qed
  qed
qed

text \<open>Chops and recorded amounts aside, a document is its table.\<close>

definition erase :: "TienLenGame \<Rightarrow> TienLenGame" where
  "erase g = g\<lparr>g_chops := [], g_rpChange := None, g_coinChange := None, g_instantWin := None\<rparr>"

lemma erase_ok [simp]: "table_ok (erase g) = table_ok g" "standing_ok (erase g) = standing_ok g"
  "live_ok (erase g) = live_ok g" "final_ok (erase g) = final_ok g" "g_id (erase g) = g_id g" "g_status (erase g) = g_status g"
  by (simp_all add: erase_def table_ok_def standing_ok_def live_ok_def final_ok_def hands_def played_def
      out_seats_def activeSeats_def)

lemma erase_game_ok [simp]: "game_ok (erase g) = game_ok g"
  by (simp add: game_ok_def split: TienLenStatus.split)

lemma erase_changes: "with_changes g h \<Longrightarrow> erase h = erase g"
  by (auto simp: with_changes_def erase_def)

lemma chops_reset: "resetTrick (g\<lparr>g_chops := c\<rparr>) = (resetTrick g)\<lparr>g_chops := c\<rparr>"
  by (simp add: resetTrick_def Let_def nextActiveSeat_def cong: conj_cong)

lemma chops_advance: "advance_loop (g\<lparr>g_chops := c\<rparr>) cs = (advance_loop g cs)\<lparr>g_chops := c\<rparr>"
  by (induction cs) (simp_all add: Let_def chops_reset)

lemma chops_play: "applyPlay (g\<lparr>g_chops := c\<rparr>) i cb h now = (applyPlay g i cb h now)\<lparr>g_chops := c\<rparr>"
proof -
  have "laid (g\<lparr>g_chops := c\<rparr>) i cb h now = (laid g i cb h now)\<lparr>g_chops := c\<rparr>"
    by (simp add: laid_def Let_def upd_seat_def)
  then show ?thesis by (simp add: applyPlay_laid advanceTurn_def chops_advance)
qed

lemma play_doc_eq: "\<exists>c. play_doc g u i cb h now = (applyPlay g i cb h now)\<lparr>g_chops := c\<rparr>"
proof (cases "chop_event g u cb")
  case None
  then show ?thesis by (intro exI [of _ "g_chops (applyPlay g i cb h now)"]) (simp add: play_doc_def push_chop_def)
next
  case (Some ce)
  then show ?thesis using chops_play by (simp add: play_doc_def push_chop_def) blast
qed

lemma finish_chops: "finish_doc now (g\<lparr>g_chops := c\<rparr>) = (finish_doc now g)\<lparr>g_chops := c\<rparr>"
  by (simp add: finish_doc_def standings_def finalOrder_def activeSeats_def)

lemma maybeFinish_chops [simp]: "maybeFinish (g\<lparr>g_chops := c\<rparr>) = maybeFinish g"
  by (simp add: maybeFinish_def activeSeats_def)

lemma erase_play_doc:
  "maybeFinish (play_doc g u i cb h now) = maybeFinish (applyPlay g i cb h now)"
  "erase (play_doc g u i cb h now) = erase (applyPlay g i cb h now)"
  "erase (finish_doc now (play_doc g u i cb h now)) = erase (finish_doc now (applyPlay g i cb h now))"
proof -
  obtain c where "play_doc g u i cb h now = (applyPlay g i cb h now)\<lparr>g_chops := c\<rparr>" using play_doc_eq by blast
  then show "maybeFinish (play_doc g u i cb h now) = maybeFinish (applyPlay g i cb h now)"
    "erase (play_doc g u i cb h now) = erase (applyPlay g i cb h now)"
    "erase (finish_doc now (play_doc g u i cb h now)) = erase (finish_doc now (applyPlay g i cb h now))"
    by (simp_all add: erase_def finish_chops)
qed

text \<open>
  A step of the service on one game: its stored document becomes \<open>h\<close>, no other game changes.
\<close>

definition steps_to :: "'a tl_st_scheme \<Rightarrow> TienLenGame \<Rightarrow> TienLenGame \<Rightarrow> 'a tl_st_scheme \<Rightarrow> bool" where
  "steps_to s g h t \<longleftrightarrow> find_game (g_id g) s = Some g \<and> g_id h = g_id g
     \<and> tl_games t = tl_games (save_game h s) \<and> next_id s \<le> next_id t"

lemma steps_to_ok: "\<lbrakk>steps_to s g h t; tl_ok s; game_ok h\<rbrakk> \<Longrightarrow> tl_ok t"
  using tl_ok_save [of s h t] tl_okD [of s "g_id g" g] by (simp add: steps_to_def)

lemma steps_to_find: "steps_to s g h t \<Longrightarrow> find_game i t = (if i = g_id g then Some h else find_game i s)"
proof -
  assume a: "steps_to s g h t"
  then have f: "find_game i t = List.find (\<lambda>x. g_id x = i) (updateOne (\<lambda>x. g_id x = g_id g) (\<lambda>_. h) (tl_games s))"
    by (simp add: steps_to_def find_game_def)
  show ?thesis
  proof (cases "i = g_id g")
    case True
    have "List.find (\<lambda>x. g_id x = g_id g) (updateOne (\<lambda>x. g_id x = g_id g) (\<lambda>_. h) (tl_games s))
        = map_option (\<lambda>_. h) (List.find (\<lambda>x. g_id x = g_id g) (tl_games s))"
      by (rule find_updateOne_same) (use a in \<open>simp add: steps_to_def\<close>)
    then show ?thesis using a True f by (simp add: steps_to_def find_game_def)
  next
    case False
    have "List.find (\<lambda>x. g_id x = i) (updateOne (\<lambda>x. g_id x = g_id g) (\<lambda>_. h) (tl_games s)) = find_game i s"
      unfolding find_game_def by (rule find_updateOne_other) (use a False in \<open>auto simp: steps_to_def\<close>)
    then show ?thesis using False f by simp
  qed
qed

lemma updateOne_twice_game:
  "g_id h = g_id g \<Longrightarrow> updateOne (\<lambda>x. g_id x = g_id g) (\<lambda>_. g) (updateOne (\<lambda>x. g_id x = g_id h) (\<lambda>_. h) ds)
     = updateOne (\<lambda>x. g_id x = g_id g) (\<lambda>_. g) ds"
  using updateOne_twice [of g_id g h ds] by simp

lemma finish_steps:
  assumes "find_game (g_id g) s = Some g" "g_id h = g_id g" "table_ok h" "standing_ok h"
    "finish cfg h s1 = (g', t)" "tl_games s1 = tl_games s \<or> tl_games s1 = tl_games (save_game h s)" "next_id s \<le> next_id s1"
  shows "steps_to s g g' t" "game_ok g'" "erase g' = erase (finish_doc (clock s1) h)"
proof -
  note f = finish_effect [OF assms(5,3,4)]
  have "tl_games t = tl_games (save_game g' s)"
    using f(2,3) assms(2,6) updateOne_twice_game [of h g'] by auto
  then show "steps_to s g g' t" using f(2,4) assms(1,2,7) by (simp add: steps_to_def)
  show "game_ok g'" by (rule f(1))
  obtain x u where e: "end_rewards cfg (finish_doc (clock s1) h) (clearTimer (Hex (g_id h)) s1) = (x, u)" by fastforce
  then have "x = g'" using assms(5) by (simp add: finish_def Let_def)
  then show "erase g' = erase (finish_doc (clock s1) h)" using erase_changes end_rewards_frame [OF e] by blast
qed

text \<open>An operation of the service carries out a move of the table of one game.\<close>

definition carries_out :: "'a tl_st_scheme \<Rightarrow> 'a tl_st_scheme \<Rightarrow> bool" where
  "carries_out s t \<longleftrightarrow> (\<exists>g h m. steps_to s g h t \<and> tl_move g m \<and> erase h = erase m)"

lemma carries_out_ok:
  assumes "carries_out s t" "tl_ok s"
  shows "tl_ok t"
proof -
  obtain g h m where m: "steps_to s g h t" "tl_move g m" "erase h = erase m" using assms(1) by (auto simp: carries_out_def)
  have "game_ok g" using m(1) assms(2) tl_okD by (auto simp: steps_to_def)
  then have "game_ok m" using tl_move_ok [OF m(2)] by blast
  then have "game_ok h" using m(3) by (metis erase_game_ok)
  then show ?thesis by (rule steps_to_ok [OF m(1) assms(2)])
qed

lemma play_carries_out:
  assumes "tl_ok s" "play cfg r u cards s = (Inr v, t)"
  shows "carries_out s t"
  using assms(2)
proof (cases rule: play_cases)
  case (finished g i cb h v' g')
  let ?p = "play_doc g u i cb h (clock s)" and ?a = "applyPlay g i cb h (clock s)"
  let ?s1 = "announce_play cfg r u i cb (length h) (chop_event g u cb) ?p (clearTimer r s)"
  have t: "table_ok g" and g: "game_ok g" using tl_okD [OF assms(1) finished(1)] by (auto simp: game_ok_def)
  note tg = turn_guard_Inr [OF finished(3) t]
  have l: "live_ok g" using g tg(1) by (simp add: game_ok_def)
  note a = applyPlay_ok(1) [OF t l tg(2) finished(4), of "clock s"]
  have "table_ok ?p" "standing_ok ?p" using a erase_play_doc(2) [of g u i cb h "clock s"]
    by (metis erase_ok(1) moved_ok_def, metis erase_ok(2) moved_ok_def)
  moreover have "g_id ?p = g_id g" using erase_play_doc(2) [of g u i cb h "clock s"] by (metis apply_id(1) erase_ok(5))
  moreover have "tl_games ?s1 = tl_games (save_game ?p s)" "next_id s \<le> next_id ?s1"
    using announce_frame [of cfg r u i cb "length h" "chop_event g u cb" ?p "clearTimer r s"] by simp_all
  ultimately have f: "steps_to s g g' t" "erase g' = erase (finish_doc (clock ?s1) ?p)"
    using finish_steps [OF finished(1) _ _ _ finished(7)] by blast+
  have "erase g' = erase (settle (clock ?s1) ?a)"
    using f(2) finished(6) erase_play_doc(1) [of g u i cb h "clock s"]
      play_doc_eq [of g u i cb h "clock s"] by (auto simp: settle_def erase_def finish_chops)
  then show ?thesis using f(1) tl_move.play [OF finished(3,4)] unfolding carries_out_def by blast
next
  case (goes_on g i cb h v')
  have "erase (play_doc g u i cb h (clock s)) = erase (settle 0 (applyPlay g i cb h (clock s)))"
    using goes_on(6) erase_play_doc by (simp add: settle_def)
  moreover have "g_id (play_doc g u i cb h (clock s)) = g_id g"
    by (simp add: play_doc_def)
  ultimately show ?thesis using goes_on(1,7,8) tl_move.play [OF goes_on(3,4)]
    unfolding carries_out_def steps_to_def by blast
qed (use assms in simp)

lemma pass_carries_out:
  assumes "pass r u s = (Inr v, t)"
  shows "carries_out s t"
proof (cases rule: getGame_cases [of r s])
  case (some g)
  then obtain i where i: "turn_guard g u = Inr i" "g_currentCombo g \<noteq> []"
    using assms by (cases "turn_guard g u") (auto simp: pass_def await_def split: if_splits)
  have "tl_games t = tl_games (save_game (applyPass g i (clock s)) s) \<and> next_id t = next_id s"
    using assms some i by (auto simp: pass_def await_def Let_def)
  then show ?thesis using some(2) tl_move.pass [OF i, of "clock s"]
    unfolding carries_out_def steps_to_def by (metis apply_id(2) order_refl)
qed (use assms in \<open>auto simp: pass_def await_def\<close>)

lemma forced_out:
  assumes "tl_ok s" "find_game (g_id g) s = Some g" "g_status g = ACTIVE" "seatOf g u = Some i"
    "s_handCount (g_seats g ! i) \<noteq> 0"
  shows "maybeFinish (forceFinishLast g i) \<Longrightarrow> finish cfg (forceFinishLast g i) s1 = (g', t) \<Longrightarrow>
       tl_games s1 = tl_games s \<Longrightarrow> next_id s \<le> next_id s1 \<Longrightarrow> carries_out s t"
    "\<not> maybeFinish (forceFinishLast g i) \<Longrightarrow>
       tl_games t = tl_games (save_game (hand_on (forceFinishLast g i) (s_seat (g_seats (forceFinishLast g i) ! i))) s) \<Longrightarrow>
       next_id s \<le> next_id t \<Longrightarrow> carries_out s t"
proof -
  have t: "table_ok g" and l: "live_ok g" using tl_okD [OF assms(1,2)] assms(3) by (auto simp: game_ok_def)
  note i = seatOf_SomeD(1) [OF assms(4)]
  have "s_hand (g_seats g ! i) \<noteq> []" using assms(5) table_okD(2) [OF t i] by auto
  then have ok: "table_ok (forceFinishLast g i)" "standing_ok (forceFinishLast g i)"
    using force_ok [OF t _ i] l by (simp_all add: live_ok_iff)
  note mv = tl_move.resign [OF assms(3-5)]
  show "carries_out s t" if "maybeFinish (forceFinishLast g i)" "finish cfg (forceFinishLast g i) s1 = (g', t)"
    "tl_games s1 = tl_games s" "next_id s \<le> next_id s1"
  proof -
    note f = finish_steps [OF assms(2) _ ok that(2) disjI1 [OF that(3)] that(4)]
    show ?thesis using f(1,3) mv [of "clock s1"] that(1) unfolding carries_out_def by auto
  qed
  have e: "s_seat (g_seats (forceFinishLast g i) ! i) = s_seat (g_seats g ! i)"
    using i by (simp add: force_seats)
  show "carries_out s t" if "\<not> maybeFinish (forceFinishLast g i)"
    "tl_games t = tl_games (save_game (hand_on (forceFinishLast g i) (s_seat (g_seats (forceFinishLast g i) ! i))) s)"
    "next_id s \<le> next_id t"
    unfolding carries_out_def steps_to_def
    by (intro exI [of _ g] exI [of _ "hand_on (forceFinishLast g i) (s_seat (g_seats g ! i))"] conjI)
       (use that mv [of 0] assms(2) e in auto)
qed

lemma resign_carries_out:
  assumes "tl_ok s" "resign cfg r u s = (Inr v, t)"
  shows "carries_out s t"
proof (cases rule: getGame_cases [of r s])
  case (some g)
  obtain i where i: "g_status g = ACTIVE" "seatOf g u = Some i" "s_handCount (g_seats g ! i) \<noteq> 0"
    using assms(2) some by (cases "seatOf g u") (auto simp: resign_def await_def split: if_splits)
  note o = forced_out [OF assms(1) some(2) i]
  show ?thesis
  proof (cases "maybeFinish (forceFinishLast g i)")
    case True
    obtain g' t' where f: "finish cfg (forceFinishLast g i) (clearTimer r s) = (g', t')" by fastforce
    then have "t = t'" using assms(2) some i True by (simp add: resign_def await_def Let_def)
    then show ?thesis using o(1) [OF True f] by simp
  next
    case False
    show ?thesis by (rule o(2) [OF False]) (use assms(2) some i False in \<open>auto simp: resign_def await_def Let_def\<close>)
  qed
qed (use assms in \<open>auto simp: resign_def await_def\<close>)

lemma forfeit_carries_out:
  assumes "tl_ok s"
  shows "carries_out s (forfeitDisconnected cfg r u s)
     \<or> (tl_games (forfeitDisconnected cfg r u s) = tl_games s \<and> next_id (forfeitDisconnected cfg r u s) = next_id s)"
proof -
  let ?s = "clearDcTimer (r, u) s" and ?t = "forfeitDisconnected cfg r u s"
  have fg: "find_game k ?s = find_game k s" for k by (simp add: find_game_def)
  show ?thesis
  proof (cases rule: getGame_cases [of r s])
    case (none e)
    then show ?thesis by (simp add: forfeitDisconnected_def fg)
  next
    case (some g)
    show ?thesis
    proof (cases "g_status g = ACTIVE \<and> (\<exists>i. seatOf g u = Some i \<and> s_handCount (g_seats g ! i) \<noteq> 0)")
      case True
      then obtain i where i: "g_status g = ACTIVE" "seatOf g u = Some i" "s_handCount (g_seats g ! i) \<noteq> 0" by blast
      note o = forced_out [OF assms some(2) i]
      have "carries_out s ?t"
      proof (cases "maybeFinish (forceFinishLast g i)")
        case True
        obtain g' t' where f: "finish cfg (forceFinishLast g i) ?s = (g', t')" by fastforce
        then have "?t = t'" using some i True by (simp add: forfeitDisconnected_def Let_def fg)
        then show ?thesis using o(1) [OF True f] by simp
      next
        case False
        show ?thesis by (rule o(2) [OF False]) (use some i False in \<open>auto simp: forfeitDisconnected_def Let_def fg\<close>)
      qed
      then show ?thesis by blast
    next
      case False
      then show ?thesis using some by (auto simp: forfeitDisconnected_def Let_def fg split: option.split)
    qed
  qed
qed

text \<open>A skipped turn: a pass on a live trick, else the lead goes to the next player who is in.\<close>

lemma autoSkip_ok:
  assumes "tl_ok s"
  shows "tl_ok (snd (autoSkip r k s))"
proof (cases rule: getGame_cases [of r s])
  case (some g)
  show ?thesis
  proof (cases "g_status g \<noteq> ACTIVE \<or> g_turn g \<noteq> k \<or> length (g_seats g) \<le> k")
    case True
    then show ?thesis using some assms by (simp add: autoSkip_def)
  next
    case False
    define h where "h = (if g_currentCombo g = [] then (let c = nextActiveSeat g k in g\<lparr>g_leadSeat := c, g_turn := c\<rparr>)
        else applyPass g k (clock s))"
    have st: "g_status g = ACTIVE" using False by simp
    have t: "table_ok g" and l: "live_ok g" using tl_okD [OF assms some(2)] st by (auto simp: game_ok_def)
    obtain j where j: "j < length (g_seats g)" "s_hand (g_seats g ! j) \<noteq> []"
      using l t by (auto simp: live_ok_def table_ok_def)
    note n = nextActive_hand [OF t j, of k]
    have "game_ok h"
    proof (cases "g_currentCombo g = []")
      case True
      then show ?thesis using n l st table_turn_lead [OF t n(1)] t
        by (auto simp: h_def game_ok_def live_ok_def out_seats_def activeSeats_def Let_def table_ok_def hands_def played_def)
    next
      case False
      have "\<not> maybeFinish (applyPass g k (clock s))"
        using l same_cards_active [OF applyPass_ok(2) [OF t l]] by (simp add: live_ok_iff maybeFinish_def)
      then show ?thesis using applyPass_ok(1) [OF t l, of k "clock s"] False st
        by (simp add: h_def game_ok_def moved_ok_def live_ok_iff)
    qed
    moreover have "g_id h = g_id g" by (simp add: h_def Let_def)
    moreover have "tl_games (snd (autoSkip r k s)) = tl_games (save_game h s) \<and> next_id (snd (autoSkip r k s)) = next_id s"
      using False some by (simp add: autoSkip_def Let_def h_def)
    ultimately show ?thesis using some(2) by (intro steps_to_ok [OF _ assms]) (simp_all add: steps_to_def)
  qed
qed (use assms in \<open>simp add: autoSkip_def\<close>)

lemma play_ok: "tl_ok s \<Longrightarrow> tl_ok (snd (play cfg r u cards s))"
proof -
  assume s: "tl_ok s"
  obtain x t where p: "play cfg r u cards s = (x, t)" by fastforce
  show ?thesis
  proof (cases x)
    case (Inl e)
    show ?thesis by (cases rule: play_cases [OF p]) (use p Inl tl_ok_same [OF s, of t] in auto)
  next
    case (Inr v)
    then show ?thesis using carries_out_ok [OF play_carries_out [OF s]] p s by auto
  qed
qed

lemma pass_ok: "tl_ok s \<Longrightarrow> tl_ok (snd (pass r u s))"
proof -
  assume s: "tl_ok s"
  obtain x t where p: "pass r u s = (x, t)" by fastforce
  show ?thesis
  proof (cases x)
    case (Inl e)
    then have "t = s" using p
      by (cases rule: getGame_cases [of r s]) (auto simp: pass_def await_def Let_def split: sum.splits if_splits)
    then show ?thesis using p s by simp
  next
    case (Inr v)
    then show ?thesis using carries_out_ok [OF pass_carries_out s] p by auto
  qed
qed

lemma resign_ok: "tl_ok s \<Longrightarrow> tl_ok (snd (resign cfg r u s))"
proof -
  assume s: "tl_ok s"
  obtain x t where p: "resign cfg r u s = (x, t)" by fastforce
  show ?thesis
  proof (cases x)
    case (Inl e)
    then have "t = s" using p
      by (cases rule: getGame_cases [of r s])
         (auto simp: resign_def await_def Let_def split: option.splits if_splits prod.splits)
    then show ?thesis using p s by simp
  next
    case (Inr v)
    then show ?thesis using carries_out_ok [OF resign_carries_out [OF s]] p s by auto
  qed
qed

lemma forfeit_ok: "tl_ok s \<Longrightarrow> tl_ok (forfeitDisconnected cfg r u s)"
  using forfeit_carries_out [of s cfg r u] carries_out_ok tl_ok_same by (metis order_refl)

lemma onTimeout_ok: "tl_ok s \<Longrightarrow> tl_ok (onTimeout cfg r s)"
  by (auto simp: onTimeout_def Let_def best_effort_def play_ok pass_ok autoSkip_ok split: option.split)

lemma connected_ok:
  assumes "game_ok g"
  shows "game_ok (upd_seat i (\<lambda>x. x\<lparr>s_connected := b\<rparr>) g)"
proof -
  let ?g = "upd_seat i (\<lambda>x. x\<lparr>s_connected := b\<rparr>) g"
  have sc: "same_cards g ?g" by (simp add: same_cards_def key_def map_update_same played_def)
  have t: "table_ok g" using assms by (simp add: game_ok_def)
  have t': "table_ok ?g" using t by (intro same_cards_table [OF sc t]) (auto simp: table_ok_def)
  have "live_ok ?g" if "live_ok g"
  proof -
    have turn: "g_turn g < length (g_seats g)" using t by (simp add: table_ok_def)
    show ?thesis using that same_cards_standing [OF sc] same_cards_nth(1) [OF sc turn] same_cards_active [OF sc]
      by (simp add: live_ok_iff maybeFinish_def)
  qed
  moreover have "final_ok ?g" if "final_ok g"
    using that set_update_subset_insert [of "g_seats g" i "(g_seats g ! i)\<lparr>s_connected := b\<rparr>"]
    by (cases "i < length (g_seats g)") (auto simp: final_ok_def not_less list_update_beyond)
  ultimately show ?thesis using assms t' by (auto simp: game_ok_def split: TienLenStatus.splits)
qed

lemma onReconnect_ok: "tl_ok s \<Longrightarrow> tl_ok (onReconnect r u s)"
proof -
  assume s: "tl_ok s"
  show ?thesis
  proof (cases rule: getGame_cases [of r s])
    case (some g)
    have g: "game_ok g" "g_id g < next_id s" using tl_okD [OF s some(2)] by auto
    have 1: "tl_ok t" if "tl_games t = tl_games s" "next_id t = next_id s" for t :: "'a tl_st_scheme"
      using tl_ok_same [OF s that(1)] that(2) by simp
    have 2: "tl_ok t" if "tl_games t = tl_games (save_game (upd_seat i (\<lambda>x. x\<lparr>s_connected := True\<rparr>) g) s)"
      "next_id t = next_id s" for t :: "'a tl_st_scheme" and i
      by (rule tl_ok_save [OF s connected_ok [OF g(1)], of i True]) (use that g in simp_all)
    have e: "onReconnect r u s = broadcast r (TL_reconnected u) (case seatOf g u of None \<Rightarrow> clearDcTimer (r, u) s
        | Some i \<Rightarrow> if s_connected (g_seats g ! i) then clearDcTimer (r, u) s
                   else save_game (upd_seat i (\<lambda>x. x\<lparr>s_connected := True\<rparr>) g) (clearDcTimer (r, u) s))"
      using some by (simp add: onReconnect_def Let_def split: option.split)
    show ?thesis
    proof (cases "\<exists>i. seatOf g u = Some i \<and> \<not> s_connected (g_seats g ! i)")
      case True
      then obtain i where "seatOf g u = Some i" "\<not> s_connected (g_seats g ! i)" by blast
      then show ?thesis unfolding e by (intro 2 [of _ i]) simp_all
    next
      case False
      then show ?thesis unfolding e by (intro 1) (auto split: option.split)
    qed
  qed (use s in \<open>simp add: onReconnect_def\<close>)
qed

lemma onDisconnect_ok: "tl_ok s \<Longrightarrow> tl_ok (onDisconnect r u s)"
proof -
  assume s: "tl_ok s"
  show ?thesis
  proof (cases rule: getGame_cases [of r s])
    case (some g)
    have g: "game_ok g" "g_id g < next_id s" using tl_okD [OF s some(2)] by auto
    have 2: "tl_ok (broadcast r e (save_game (upd_seat i (\<lambda>x. x\<lparr>s_connected := False\<rparr>) g) s))" for e i
      by (rule tl_ok_save [OF s connected_ok [OF g(1)], of i False]) (use g in simp_all)
    have 3: "tl_ok (clearDcTimer k t\<lparr>tl_dcTimers := m\<rparr>)" if "tl_ok t" for k m and t :: "'a tl_st_scheme"
      by (rule tl_ok_same [OF that]) (simp_all add: clearDcTimer_def)
    show ?thesis
    proof (cases "seatOf g u")
      case None
      then show ?thesis using some s by (simp add: onDisconnect_def)
    next
      case (Some i)
      then show ?thesis using some s
        by (simp add: onDisconnect_def Let_def best_effort_def 2 3 autoSkip_ok [OF 2])
    qed
  qed (use s in \<open>simp add: onDisconnect_def\<close>)
qed

section \<open>A dealt game is sound\<close>

lemma new_game_ok:
  assumes "unit_rng rng" "length us \<in> {2..4}" "distinct us" "hs = deal (length us) rng"
  shows "game_ok (new_game i us mode bet roomId hs)"
proof -
  let ?n = "length us" and ?g = "new_game i us mode bet roomId hs"
  have n: "?n \<le> 4" "0 < ?n" using assms(2) by auto
  note d = deal_facts [OF assms(1) n(1), folded assms(4)]
  have len: "length hs = ?n" using d by simp
  have h: "length (hs ! k) = 13 \<and> sorted (hs ! k)" if "k < ?n" for k using d that len by (metis nth_mem)
  have ne: "\<forall>h \<in> set hs. sorted h \<and> h \<noteq> []" using d by force
  have st: "holderOfLowest hs < ?n" using holderOfLowest_least(1) [OF ne] len n(2) by force
  have hands: "hands ?g = hs"
    unfolding hands_def by (intro nth_equalityI) (simp_all add: new_game_def Let_def new_seat_def len)
  have fields: "length (g_seats ?g) = ?n" "g_history ?g = []" "g_turn ?g = holderOfLowest hs"
    "g_leadSeat ?g = holderOfLowest hs" "g_currentCombo ?g = []" "g_status ?g = ACTIVE" "out_seats ?g = []"
    "map s_seat (g_seats ?g) = [0..<?n]" "map s_userId (g_seats ?g) = us"
    by (auto simp: new_game_def Let_def out_seats_def new_seat_def comp_def intro: nth_equalityI)
  have seat: "g_seats ?g ! k = new_seat (us ! k) k (hs ! k)" if "k < ?n" for k
    using that by (simp add: new_game_def Let_def)
  have "\<forall>s \<in> set (g_seats ?g). s_handCount s = length (s_hand s) \<and> sorted (s_hand s)"
    using h by (auto simp: new_game_def Let_def new_seat_def)
  then have t: "table_ok ?g"
    using d assms(2,3) st fields hands by (auto simp: table_ok_def played_def)
  have ne: "s_hand (g_seats ?g ! k) \<noteq> []" if "k < ?n" for k
    using h [OF that] seat [OF that] by (auto simp: new_seat_def)
  have "{k. k < length (g_seats ?g) \<and> s_hand (g_seats ?g ! k) \<noteq> []} = {..<?n}" using ne fields(1) by auto
  then have "length (activeSeats ?g) = ?n" using active_count [OF t] by simp
  then have "live_ok ?g"
    using fields ne st assms(2) by (auto simp: live_ok_def)
  then show ?thesis using t fields(6) by (simp add: game_ok_def)
qed

lemma findInstantWin_from_SomeD:
  "findInstantWin_from i hs = Some (k, kind) \<Longrightarrow> i \<le> k \<and> k < i + length hs \<and> detectInstantWin (hs ! (k - i)) = Some kind"
proof (induction hs arbitrary: i)
  case (Cons h hs)
  show ?case
  proof (cases "detectInstantWin h")
    case None
    then have "Suc i \<le> k \<and> k < Suc i + length hs \<and> detectInstantWin (hs ! (k - Suc i)) = Some kind"
      using Cons.IH [of "Suc i"] Cons.prems by simp
    then show ?thesis by (auto simp: nth_Cons' Suc_diff_le)
  qed (use Cons.prems in simp)
qed simp

text \<open>An instant win ends the game with the winner first and the others in the order of the seats.\<close>

lemma instant_order_perm:
  assumes "table_ok g" "k < length (g_seats g)"
  shows "mset (instant_order g k) = mset [0..<length (g_seats g)]"
proof -
  have m: "map s_seat (g_seats g) = [0..<length (g_seats g)]" using assms(1) by (simp add: table_ok_def)
  have "distinct (instant_order g k)" "set (instant_order g k) = {0..<length (g_seats g)}"
    using assms(2) by (auto simp: instant_order_def m)
  then show ?thesis by (intro set_eq_iff_mset_eq_distinct [THEN iffD1]) auto
qed

lemma matched_frame [simp]:
  "tl_games (matched_all g us s) = tl_games s" "next_id (matched_all g us s) = next_id s"
  "clock (matched_all g us s) = clock s" "rooms (matched_all g us s) = rooms s"
  unfolding matched_all_def by (induction us arbitrary: s) simp_all

lemma finishInstant_effect:
  assumes "finishInstantWin cfg g k w kind s = (g', t)" "table_ok g" "k < length (g_seats g)"
  shows "game_ok g'" "g_id g' = g_id g" "g_status g' = FINISHED" "tl_games t = tl_games (save_game g' s)" "next_id s \<le> next_id t"
proof -
  let ?s = "clearTimer (Hex (g_id g)) s" and ?g = "standings (instant_order g k) (clock s) g"
  obtain h u where h: "instant_rewards cfg (?g\<lparr>g_instantWin := Some (w, kind)\<rparr>) k w ?s = (h, u)" by fastforce
  note f = instant_rewards_frame [OF h]
  obtain rp cc where e: "h = ?g\<lparr>g_instantWin := Some (w, kind)\<rparr>\<lparr>g_rpChange := rp, g_coinChange := cc\<rparr>"
    using f unfolding with_changes_def by blast
  have g': "g' = h" "t = publish_end h [] u" using assms(1) h by (auto simp: finishInstantWin_def Let_def)
  note a = only_accounts_tl [OF conjunct1 [OF f]]
  have "table_ok ?g" using assms(2) by (simp add: standings_def table_ok_def hands_def played_def comp_def)
  moreover have "final_ok ?g"
    using instant_order_perm [OF assms(2,3)] by (simp add: final_ok_def standings_def)
  moreover have st: "g_status ?g = FINISHED" "g_id ?g = g_id g" by (simp_all add: standings_def)
  ultimately show "game_ok g'" "g_id g' = g_id g" "g_status g' = FINISHED"
    by (simp_all add: g'(1) e game_ok_def)
  show "tl_games t = tl_games (save_game g' s)" "next_id s \<le> next_id t" using a g' by simp_all
qed

lemma unit_rng_shift: "unit_rng f \<Longrightarrow> unit_rng (\<lambda>k. f (n + k))"
  by (simp add: unit_rng_def)

lemma createGame_cases:
  assumes "unit_rng (rand s)" "distinct us" "createGame cfg us mode bet roomId s = (x, t)"
  obtains (error) e where "x = Inl e" "t = s"
  | (dealt) g hs where "game_ok g" "g_status g = ACTIVE" "x = Inr g" "g_id g = next_id s"
      "tl_games t = tl_games s @ [g]" "next_id s < next_id t" "findInstantWin hs = None"
      "hs = fst (draw_deal (length us) s)" "hands g = hs" "tl_timers t (Hex (g_id g)) \<noteq> None"
  | (instant) g hs k kind g' where "game_ok g'" "g_status g' = FINISHED" "x = Inr g'" "g_id g' = next_id s"
      "tl_games t = updateOne (\<lambda>x. g_id x = g_id g') (\<lambda>_. g') (tl_games s @ [g])" "next_id s < next_id t"
      "hs = fst (draw_deal (length us) s)" "findInstantWin hs = Some (k, kind)" "game_ok g" "g_id g = next_id s"
proof (cases "length us < 2 \<or> 4 < length us")
  case True
  then show ?thesis using assms(3) error by (auto simp: createGame_def)
next
  case False
  obtain hs s1 where dd: "draw_deal (length us) s = (hs, s1)" by fastforce
  have s1: "hs = deal (length us) (\<lambda>k. rand s (rand_pos s + k))" "tl_games s1 = tl_games s" "next_id s1 = next_id s"
    using dd by (auto simp: draw_deal_def)
  define g where "g = new_game (next_id s) us mode (bet_of mode bet) roomId hs"
  define s2 where "s2 = matched_all g us (s1\<lparr>next_id := Suc (next_id s), tl_games := tl_games s @ [g]\<rparr>)"
  have g: "game_ok g"
    unfolding g_def by (rule new_game_ok [OF unit_rng_shift [OF assms(1)] _ assms(2) s1(1)]) (use False in auto)
  have gf: "g_id g = next_id s" "g_status g = ACTIVE" "length (g_seats g) = length us"
    by (simp_all add: g_def new_game_def Let_def)
  have t: "table_ok g" using g by (simp add: game_ok_def)
  have s2: "tl_games s2 = tl_games s @ [g]" "next_id s2 = Suc (next_id s)" by (simp_all add: s2_def)
  have c: "(x, t) = (case findInstantWin hs of
      Some (k, kind) \<Rightarrow> (case finishInstantWin cfg g k (us ! k) kind s2 of (g', s) \<Rightarrow> (Inr g', s))
    | None \<Rightarrow> (Inr g, startTurnTimer (Hex (next_id s)) s2))"
  proof -
    have "createGame cfg us mode bet roomId s = (case findInstantWin hs of
        Some (k, kind) \<Rightarrow> (case finishInstantWin cfg g k (us ! k) kind s2 of (g', s) \<Rightarrow> (Inr g', s))
      | None \<Rightarrow> (Inr g, startTurnTimer (Hex (next_id s)) s2))"
      unfolding createGame_def Let_def dd using False
      by (simp add: fresh_id_def s1(2,3) g_def [symmetric] s2_def [symmetric] split: option.split prod.split)
    then show ?thesis using assms(3) by simp
  qed
  show ?thesis
  proof (cases "findInstantWin hs")
    case None
    have "length hs = length us" by (simp add: s1(1) deal_def Let_def)
    then have h: "hands g = hs"
      unfolding hands_def g_def by (intro nth_equalityI) (simp_all add: new_game_def Let_def new_seat_def)
    have xt: "x = Inr g" "t = startTurnTimer (Hex (next_id s)) s2" using c None by auto
    have "tl_timers t (Hex (g_id g)) \<noteq> None" by (simp add: xt(2) gf(1) startTurnTimer_def Let_def)
    moreover have "tl_games t = tl_games s @ [g]" "next_id s < next_id t" by (simp_all add: xt(2) s2)
    ultimately show ?thesis using dealt [OF g gf(2) xt(1) gf(1) _ _ None _ h] dd by (metis fst_conv)
  next
    case (Some p)
    obtain k kind where p: "p = (k, kind)" by fastforce
    obtain g' t' where f: "finishInstantWin cfg g k (us ! k) kind s2 = (g', t')" by fastforce
    have "k < length hs" using findInstantWin_from_SomeD [of 0 hs k kind] Some p by (simp add: findInstantWin_def)
    then have k: "k < length (g_seats g)" using gf(3) by (simp add: s1(1) deal_def Let_def)
    note e = finishInstant_effect [OF f t k]
    show ?thesis
      by (rule instant [of g' g hs k kind]) (use c Some p f e gf s2 g dd in auto)
  qed
qed

section \<open>Sequences of operations\<close>

inductive tl_step :: "'a tl_st_scheme \<Rightarrow> 'a tl_st_scheme \<Rightarrow> bool" where
  create: "\<lbrakk>unit_rng (rand s); distinct us\<rbrakk> \<Longrightarrow> tl_step s (snd (createGame cfg us mode bet roomId s))"
| plays: "tl_step s (snd (play cfg r u cards s))"
| passes: "tl_step s (snd (pass r u s))"
| resigns: "tl_step s (snd (resign cfg r u s))"
| times_out: "tl_step s (onTimeout cfg r s)"
| disconnects: "tl_step s (onDisconnect r u s)"
| reconnects: "tl_step s (onReconnect r u s)"
| forfeits: "tl_step s (forfeitDisconnected cfg r u s)"

lemma createGame_ok:
  assumes "tl_ok s" "unit_rng (rand s)" "distinct us"
  shows "tl_ok (snd (createGame cfg us mode bet roomId s))"
proof -
  obtain x t where c: "createGame cfg us mode bet roomId s = (x, t)" by fastforce
  have fresh: "next_id s \<notin> set (map g_id (tl_games s))" using assms(1) by (auto simp: tl_ok_def)
  show ?thesis
    using assms(2,3) c
  proof (cases rule: createGame_cases)
    case (dealt g hs)
    then show ?thesis using assms(1) c fresh by (auto simp: tl_ok_def less_trans [OF _ dealt(6)])
  next
    case (instant g hs k kind g')
    let ?ds = "updateOne (\<lambda>x. g_id x = g_id g') (\<lambda>_. g') (tl_games s @ [g])"
    have "map g_id ?ds = map g_id (tl_games s @ [g])" by (rule map_updateOne) simp
    moreover have "\<forall>x \<in> set ?ds. g_id x < next_id t \<and> game_ok x"
      using assms(1) instant by (intro updateOne_all) (auto simp: tl_ok_def less_trans [OF _ instant(6)])
    ultimately show ?thesis using assms(1) c instant fresh by (auto simp: tl_ok_def)
  qed (use assms c in simp)
qed

lemma tl_step_ok: "\<lbrakk>tl_step s t; tl_ok s\<rbrakk> \<Longrightarrow> tl_ok t"
  by (induction rule: tl_step.induct)
     (auto intro: createGame_ok play_ok pass_ok resign_ok onTimeout_ok onDisconnect_ok onReconnect_ok forfeit_ok)

text \<open>
  Whatever the clients, the timers and the connections do, in any order, every stored game of Tien Len
  stays sound: no card is in two places, the hands are counted right, the turn is with a player
  who holds cards, the players out are those who emptied their hand or resigned, and a finished
  game places each seat exactly once. (The source of randomness is in the unit interval.)
\<close>

theorem tienlen_games_stay_sound:
  assumes "tl_ok s" "tl_step\<^sup>*\<^sup>* s t"
  shows "tl_ok t"
  using assms(2) by (induction rule: rtranclp_induct) (use assms(1) tl_step_ok in auto)

text \<open>
  C9: The service implements the rules: an accepted play, pass or resignation changes exactly one stored
  game, and its table by exactly one move of the rules (chop records and reward amounts aside).
\<close>

theorem tienlen_service_refines_rules:
  assumes "tl_ok s"
  shows "(\<forall>v t. play cfg r u cards s = (Inr v, t) \<longrightarrow> carries_out s t)
     \<and> (\<forall>v t. pass r u s = (Inr v, t) \<longrightarrow> carries_out s t)
     \<and> (\<forall>v t. resign cfg r u s = (Inr v, t) \<longrightarrow> carries_out s t)"
  using play_carries_out [OF assms] pass_carries_out resign_carries_out [OF assms] by blast

section \<open>Views\<close>

text \<open>A game with the hands of everybody but the viewer erased: what the viewer may know of it.\<close>

definition seen_by :: "oid option \<Rightarrow> TienLenGame \<Rightarrow> TienLenGame" where
  "seen_by viewer g = g\<lparr>g_seats := map (\<lambda>x. if viewer = Some (s_userId x) then x else x\<lparr>s_hand := []\<rparr>) (g_seats g)\<rparr>"

lemma sort_key_map: "(\<And>x. k (f x) = k x) \<Longrightarrow> sort_key k (map f xs) = map f (sort_key k xs)"
proof -
  assume k: "\<And>x. k (f x) = k x"
  have "insort_key k (f x) (map f ys) = map f (insort_key k x ys)" for x ys by (induction ys) (simp_all add: k)
  then show ?thesis by (induction xs) simp_all
qed

lemma view_of_seen: "tl_view g viewer s = tl_view (seen_by viewer g) viewer s"
proof -
  let ?f = "\<lambda>x. if viewer = Some (s_userId x) then x else x\<lparr>s_hand := []\<rparr>"
  have "s_userId (?f x) = s_userId x" "s_seat (?f x) = s_seat x" for x by simp_all
  note f = this
  have mine: "map_option s_hand (List.find (\<lambda>x. s_userId x = v) (map (\<lambda>x. if v = s_userId x then x else x\<lparr>s_hand := []\<rparr>) xs))
      = map_option s_hand (List.find (\<lambda>x. s_userId x = v) xs)" for v xs
    by (induction xs) simp_all
  have "Option.bind viewer (\<lambda>v. map_option s_hand (List.find (\<lambda>x. s_userId x = v) (map ?f (g_seats g))))
      = Option.bind viewer (\<lambda>v. map_option s_hand (List.find (\<lambda>x. s_userId x = v) (g_seats g)))"
    by (cases viewer) (simp_all add: mine)
  then show ?thesis
    unfolding tl_view_def Let_def seen_by_def
    by (simp add: sort_key_map [of s_seat ?f, OF f(2)] comp_def f(1) if_distrib [of s_hand] cong: if_cong)
qed

text \<open>
  C38: A view is a function of the public part of a game and the viewer's own hand: it is the same when the hands
  of all others are erased (a spectator is shown no hand at all). The public part names one card of
  a hand, the opening card, the lowest that was dealt; two deals with the same hand for the viewer, the same
  holder of the lowest card and the same lowest card look the same.
\<close>

theorem view_hides_hands:
  "tl_view g viewer s = tl_view (seen_by viewer g) viewer s
   \<and> (map length hs' = map length hs \<and> length hs = length us
       \<and> holderOfLowest hs' = holderOfLowest hs \<and> hd (hs' ! holderOfLowest hs) = hd (hs ! holderOfLowest hs)
       \<and> (\<forall>k < length us. viewer = Some (us ! k) \<longrightarrow> hs' ! k = hs ! k)
      \<longrightarrow> tl_view (new_game i us mode bet r hs') viewer s = tl_view (new_game i us mode bet r hs) viewer s)"
proof (intro conjI impI, rule view_of_seen, elim conjE)
  assume d: "map length hs' = map length hs" "length hs = length us" "holderOfLowest hs' = holderOfLowest hs"
    "hd (hs' ! holderOfLowest hs) = hd (hs ! holderOfLowest hs)" "\<forall>k < length us. viewer = Some (us ! k) \<longrightarrow> hs' ! k = hs ! k"
  have "length (hs' ! k) = length (hs ! k)" if "k < length us" for k
    using arg_cong [OF d(1), of "\<lambda>xs. xs ! k"] map_eq_imp_length_eq [OF d(1)] d(2) that by simp
  then have "seen_by viewer (new_game i us mode bet r hs') = seen_by viewer (new_game i us mode bet r hs)"
    using d(3-5) by (auto simp: seen_by_def new_game_def new_seat_def Let_def)
  then show "tl_view (new_game i us mode bet r hs') viewer s = tl_view (new_game i us mode bet r hs) viewer s"
    by (metis view_of_seen)
qed

section \<open>Rank points\<close>

text \<open>The sum of the recorded changes over the players.\<close>

definition total :: "(oid \<rightharpoonup> int) \<Rightarrow> oid list \<Rightarrow> int" where
  "total m us = sum_list (map (\<lambda>u. case m u of Some d \<Rightarrow> d | None \<Rightarrow> 0) us)"

lemma total_add_change: "\<lbrakk>distinct us; k \<in> set us\<rbrakk> \<Longrightarrow> total (add_change k d m) us = total m us + d"
proof (induction us)
  case (Cons u us)
  have other: "total (add_change k d m) us = total m us" if "k \<notin> set us"
    unfolding total_def using that by (intro arg_cong [where f = sum_list] map_cong) (auto simp: add_change_def)
  show ?case using Cons other by (cases "k = u") (auto simp: total_def add_change_def split: option.split)
qed simp

lemma total_fold_changes:
  "\<lbrakk>distinct us; \<forall>x \<in> set rs. k x \<in> set us\<rbrakk>
   \<Longrightarrow> total (foldl (\<lambda>m x. add_change (k x) (d x) m) m rs) us = total m us + sum_list (map d rs)"
  by (induction rs arbitrary: m) (simp_all add: total_add_change)

lemma foldl_update_map:
  "distinct (map k xs) \<Longrightarrow> foldl (\<lambda>m x. m(k x \<mapsto> f x)) m xs = m ++ map_of (map (\<lambda>x. (k x, f x)) xs)"
proof (induction xs arbitrary: m)
  case (Cons x xs)
  then have "k x \<notin> dom (map_of (map (\<lambda>x. (k x, f x)) xs))" by (auto simp: dom_map_of_conv_image_fst)
  then show ?case using Cons by (simp add: map_add_upd_left map_add_upd del: fun_upd_apply)
qed simp

lemma total_foldl_update:
  assumes "distinct (map k xs)"
  shows "total (foldl (\<lambda>m x. m(k x \<mapsto> f x)) Map.empty xs) (map k xs) = sum_list (map f xs)"
proof -
  have "map_of (map (\<lambda>x. (k x, f x)) xs) (k x) = Some (f x)" if "x \<in> set xs" for x
    using assms that by (intro map_of_is_SomeI) (auto simp: comp_def)
  then show ?thesis
    unfolding foldl_update_map [OF assms] total_def map_map by (intro arg_cong [where f = sum_list] map_cong) auto
qed

text \<open>The places are all of 1 to n, so their scores cancel out.\<close>

lemma placeOf_nth: "\<lbrakk>distinct order; i < length order\<rbrakk> \<Longrightarrow> placeOf order (order ! i) = i + 1"
proof -
  assume a: "distinct order" "i < length order"
  have "List.find (\<lambda>j. order ! j = order ! i) [0..<length order] = Some i"
    using a by (auto simp: find_Some_iff nth_eq_iff_index_eq intro!: exI [of _ i])
  then show ?thesis by (simp add: placeOf_def)
qed

lemma sum_places:
  fixes f :: "nat \<Rightarrow> int"
  assumes "mset order = mset [0..<n]"
  shows "sum_list (map (\<lambda>i. f (placeOf order i)) [0..<n]) = sum_list (map f [1..<Suc n])"
proof -
  have d: "distinct order" using assms by (metis distinct_upt mset_eq_imp_distinct_iff)
  have len: "length order = n" using assms by (metis diff_zero length_upt size_mset)
  have "mset (map (\<lambda>i. f (placeOf order i)) [0..<n]) = mset (map (\<lambda>i. f (placeOf order i)) order)"
    using assms by simp
  then have "sum_list (map (\<lambda>i. f (placeOf order i)) [0..<n]) = sum_list (map (\<lambda>i. f (placeOf order i)) order)"
    by (metis sum_mset_sum_list)
  also have "map (\<lambda>i. f (placeOf order i)) order = map f [1..<Suc n]"
    using placeOf_nth [OF d] len by (intro nth_equalityI) (simp_all del: upt_Suc)
  finally show ?thesis .
qed

lemma place_deltas: "n \<in> {2..4} \<Longrightarrow> sum_list (map (place_delta n) [1..<Suc n]) = 0"
proof -
  assume "n \<in> {2..4}"
  then consider "n = 2" | "n = 3" | "n = 4" by fastforce
  moreover have "\<lfloor>49 / 2 :: rat\<rfloor> = 24" "\<lfloor>- (47 / 2) :: rat\<rfloor> = - 24" "\<lfloor>1 / 2 :: rat\<rfloor> = 0" "\<lfloor>17 / 2 :: rat\<rfloor> = 8"
    "\<lfloor>- (15 / 2) :: rat\<rfloor> = - 8" by (simp_all add: floor_eq_iff)
  ultimately show ?thesis
    by cases (simp_all add: place_delta_def RP_SPREAD_def js_round_def upt_rec)
qed


lemma winner_seat:
  assumes "table_ok g" "mset (g_finishOrder g) = mset [0..<length (g_seats g)]"
  obtains w k where "winnerUid g = Some w" "k < length (g_seats g)" "w = s_userId (g_seats g ! k)"
proof -
  have n: "0 < length (g_seats g)" using assms(1) by (auto simp: table_ok_def)
  have "length (g_finishOrder g) = length (g_seats g)" using arg_cong [OF assms(2), of size] by simp
  then obtain k ks where k: "g_finishOrder g = k # ks" using n by (cases "g_finishOrder g") auto
  have "k \<in> set [0..<length (g_seats g)]" using k mset_eq_setD [OF assms(2)] by auto
  then have kn: "k < length (g_seats g)" by simp
  have "List.find (\<lambda>s. s_seat s = s_seat (g_seats g ! k)) (g_seats g) = Some (g_seats g ! k)"
    by (rule find_key_unique) (use assms(1) kn in \<open>auto simp: table_ok_def\<close>)
  then have "winnerUid g = Some (s_userId (g_seats g ! k))"
    using k table_okD(1) [OF assms(1) kn] by (simp add: winnerUid_def)
  then show ?thesis using that kn by blast
qed

lemma rotten_users: "r \<in> set (rotten_of g) \<Longrightarrow> ro_userId r \<in> s_userId ` set (g_seats g)"
  by (auto simp: rotten_of_def List.map_filter_def Let_def split: if_splits)

lemma total_places:
  assumes "table_ok g" "mset (g_finishOrder g) = mset [0..<length (g_seats g)]"
  shows "total (rp_places g) (map s_userId (g_seats g)) = 0"
proof -
  let ?n = "length (g_seats g)"
  have d: "distinct (map s_userId (g_seats g))" and n: "?n \<in> {2..4}" and m: "map s_seat (g_seats g) = [0..<?n]"
    using assms(1) by (auto simp: table_ok_def)
  have "total (rp_places g) (map s_userId (g_seats g))
      = sum_list (map (\<lambda>i. place_delta ?n (placeOf (g_finishOrder g) i)) (map s_seat (g_seats g)))"
    unfolding rp_places_def total_foldl_update [OF d] by (simp add: comp_def)
  also have "\<dots> = 0" unfolding m sum_places [OF assms(2)] by (rule place_deltas [OF n])
  finally show ?thesis .
qed

text \<open>
  A ranked game is a zero-sum game: the rank points recorded for the places and for rotten twos add
  up to zero over the players, whatever the penalty per two.
\<close>

theorem ranked_changes_zero_sum:
  assumes "game_ok g" "g_status g = FINISHED"
  shows "total (rp_changes rp g) (map s_userId (g_seats g)) = 0"
proof -
  have t: "table_ok g" and p: "mset (g_finishOrder g) = mset [0..<length (g_seats g)]"
    using assms by (auto simp: game_ok_def final_ok_def)
  have d: "distinct (map s_userId (g_seats g))" using t by (simp add: table_ok_def)
  obtain w k where w: "winnerUid g = Some w" "k < length (g_seats g)" "w = s_userId (g_seats g ! k)"
    using winner_seat [OF t p] .
  have wu: "w \<in> set (map s_userId (g_seats g))" using w by auto
  have ru: "\<forall>r \<in> set (rotten_of g). ro_userId r \<in> set (map s_userId (g_seats g))" using rotten_users by auto
  have "sum_list (map (\<lambda>r. - (rp * int (ro_units r))) rs) = - (rp * int (rottenUnits rs))" for rs
    by (induction rs) (simp_all add: rottenUnits_def algebra_simps)
  then show ?thesis
    unfolding rp_changes_def Let_def w(1)
    by (simp add: total_add_change [OF d wu] total_fold_changes [OF d ru] total_places [OF t p])
qed

section \<open>Coins\<close>

lemma paid_award: "ledger_ok s \<Longrightarrow> paid 0 s (award_points g m r s)"
  for s :: "'a rooms_st_scheme"
proof -
  assume s: "ledger_ok s"
  have "paid 0 s (foldl (\<lambda>s x. snd (addRankPoints (s_userId x)
      (case m (s_userId x) of Some d \<Rightarrow> d | None \<Rightarrow> 0) (Some r) s)) s xs)" if "ledger_ok s" for xs and s :: "'a rooms_st_scheme"
    using that
  proof (induction xs arbitrary: s)
    case (Cons x xs)
    note p = paid_points [OF Cons.prems, of "s_userId x" "case m (s_userId x) of Some d \<Rightarrow> d | None \<Rightarrow> 0" "Some r"]
    show ?case using paid_trans [OF p Cons.IH [OF paid_ledger [OF p]]] by simp
  qed (simp add: paid_refl)
  then show ?thesis using s by (simp add: award_points_def)
qed

lemma paid_rotten:
  fixes s :: "'a rooms_st_scheme"
  assumes "ledger_ok s" "find_user w s \<noteq> None"
  shows "paid 0 s (snd (pay_rotten price ref w rs m s))"
  using assms
proof (induction rs arbitrary: m s)
  case (Cons r rs)
  let ?a = "price * int (ro_units r)"
  obtain b t where c: "settles (collectStake (ro_userId r) ?a ref) s = (b, t)" by fastforce
  show ?case
  proof (cases "?a \<le> 0")
    case True
    then show ?thesis using Cons.IH [OF Cons.prems] by simp
  next
    case False
    note p = paid_swap [OF Cons.prems(1) _ Cons.prems(2) c]
    show ?thesis
    proof (cases b)
      case True
      then have p': "paid 0 s (best_effort (payout w ?a ref) t)" using p False by simp
      have "paid (0 + 0) s (snd (pay_rotten price ref w rs m' (best_effort (payout w ?a ref) t)))" for m'
        by (rule paid_trans [OF p' Cons.IH [OF paid_ledger [OF p'] paid_account [OF p' Cons.prems(2)]]])
      then show ?thesis using True False c by (simp add: Let_def)
    next
      case b: False
      then have p': "paid 0 s t" using p False by simp
      have "paid (0 + 0) s (snd (pay_rotten price ref w rs m' t))" for m'
        by (rule paid_trans [OF p' Cons.IH [OF paid_ledger [OF p'] paid_account [OF p' Cons.prems(2)]]])
      then show ?thesis using b False c by (simp add: Let_def)
    qed
  qed
qed (simp add: paid_refl)

lemma end_rewards_paid:
  fixes s :: "'a rooms_st_scheme"
  assumes "ledger_ok s" "table_ok g" "mset (g_finishOrder g) = mset [0..<length (g_seats g)]"
    "\<forall>x \<in> set (g_seats g). find_user (s_userId x) s \<noteq> None" "0 \<le> g_pot g" "g_mode g \<noteq> WAGER \<longrightarrow> g_pot g = 0"
    "end_rewards cfg g s = (g', t)"
  shows "paid (g_pot g) s t"
proof -
  obtain w k where w: "winnerUid g = Some w" "k < length (g_seats g)" "w = s_userId (g_seats g ! k)"
    using winner_seat [OF assms(2,3)] .
  have acc: "find_user w s \<noteq> None" using assms(4) w by auto
  consider (ranked) "g_mode g = RANKED" | (wager) "g_mode g = WAGER" "0 < g_pot g" | (none) "g_mode g \<noteq> RANKED" "g_pot g = 0"
    using assms(5,6) by fastforce
  then show ?thesis
  proof cases
    case ranked
    then show ?thesis using paid_award [OF assms(1)] assms(6,7) by (auto simp: end_rewards_def Let_def)
  next
    case wager
    let ?s1 = "best_effort (payout w (g_pot g) (pot_ref g)) s"
    have p: "paid (g_pot g) s ?s1" by (rule paid_payout [OF assms(1,5) acc])
    have r: "paid 0 ?s1 (snd (applyRottenHeoCoins cfg g rs (Some w) m ?s1))" for rs m
      using paid_rotten [OF paid_ledger [OF p] paid_account [OF p acc]] paid_refl [OF paid_ledger [OF p]]
      by (simp add: applyRottenHeoCoins_def)
    have "t = snd (applyRottenHeoCoins cfg g (rotten_of g) (Some w) ((coins_start g)(w \<mapsto> g_pot g - g_betAmount g)) ?s1)"
      using assms(7) wager w(1) by (auto simp: end_rewards_def Let_def split_beta simp del: fun_upd_apply)
    then show ?thesis using paid_trans [OF p r] by simp
  next
    case none
    then show ?thesis using paid_refl [OF assms(1)] assms(7) by (auto simp: end_rewards_def)
  qed
qed

text \<open>
  C11: When a game ends, its pot goes from the room to the players and no coin is made or lost: the coins of
  all users and of the open rooms together are what they were, rotten-two payments included, and
  the room is closed. (The players have accounts and the game's pot is the room's.)
\<close>

theorem finish_conserves_coins:
  assumes "ledger_ok s" "table_ok g" "standing_ok g" "finish cfg g s = (g', t)"
    "\<forall>x \<in> set (g_seats g). find_user (s_userId x) s \<noteq> None" "0 \<le> g_pot g" "g_mode g \<noteq> WAGER \<longrightarrow> g_pot g = 0"
    "g_roomId g = Some i" "find_room i s = Some room" "r_status room \<noteq> CLOSED" "r_pot room = g_pot g"
  shows "coins t + escrow t = coins s + escrow s \<and> ledger_ok t
     \<and> (\<exists>c. find_room i t = Some c \<and> r_status c = CLOSED)"
proof -
  let ?s = "clearTimer (Hex (g_id g)) s" and ?g = "finish_doc (clock s) g"
  obtain h u where h: "end_rewards cfg ?g ?s = (h, u)" by fastforce
  have t: "t = publish_end h (rotten_of h) u" using assms(4) h by (auto simp: finish_def Let_def)
  have base: "ledger_ok ?s" "find_user v ?s = find_user v s" "coins ?s = coins s" "escrow ?s = escrow s" "rooms ?s = rooms s" for v
    using assms(1) by (simp_all add: clearTimer_def ledger_ok_def users_ok_def books_ok_def booked_def find_user_def
        coins_def escrow_def)
  have gf: "g_pot ?g = g_pot g" "g_mode ?g = g_mode g" "g_roomId ?g = g_roomId g" "length (g_seats ?g) = length (g_seats g)"
    "g_finishOrder ?g = finalOrder g" by (simp_all add: finish_doc_def standings_def)
  have "table_ok ?g" using finish_doc_ok [OF assms(2,3)] by (simp add: game_ok_def)
  moreover have "\<forall>x \<in> set (g_seats ?g). find_user (s_userId x) ?s \<noteq> None" using assms(5) base(2) by auto
  ultimately have p: "paid (g_pot g) ?s u"
    using end_rewards_paid [OF base(1) _ _ _ _ _ h] finalOrder_eq(2) [OF assms(2,3)] gf assms(6,7) by simp
  obtain rp cc where "h = ?g\<lparr>g_rpChange := rp, g_coinChange := cc\<rparr>"
    using end_rewards_frame [OF h] unfolding with_changes_def by blast
  then have room: "g_roomId h = Some i" using gf(3) assms(8) by simp
  define v where "v = (if rottenUnits (rotten_of h) > 0
     then broadcast (Hex (g_id h)) (TL_rotten (winnerUid h) (rotten_of h))
            (broadcast (Hex (g_id h)) (TL_end (tl_view h None (save_game h u))) (save_game h u))
     else broadcast (Hex (g_id h)) (TL_end (tl_view h None (save_game h u))) (save_game h u))"
  have tv: "t = close_room i v" using t room by (simp add: publish_end_def Let_def v_def)
  have v: "users v = users u" "txs v = txs u" "next_id v = next_id u" "rooms v = rooms u"
    by (simp_all add: v_def broadcast_def save_game_def)
  have fr: "find_room i ?s = Some room" using assms(9) base(5) by (simp add: find_room_def)
  show ?thesis unfolding tv using close_conserves [OF p v fr assms(10,11)] base(3,4) by simp
qed

section \<open>Where the service falls short\<close>

text \<open>
  A play rejected for its cards stops the clock: the turn timer of the game was stopped before the
  cards were looked at and is not started again, so the game, unchanged and still active, has
  no timer that would ever end the turn of a player who goes idle.
\<close>

theorem rejected_play_stops_clock:
  assumes "find_game i s = Some g" "read_oid r = Some i" "turn_guard g u = Inr k" "cards \<noteq> []"
    "play_guard g k cards = Inl e"
  shows "\<exists>t. play cfg r u cards s = (Inl e, t) \<and> tl_timers t r = None
     \<and> find_game i t = Some g \<and> g_status g = ACTIVE"
proof -
  have "getGameOrThrow r s = (Inr g, s)" using assms(1,2) by (simp add: getGameOrThrow_def)
  then have "play cfg r u cards s = (Inl e, clearTimer r s)"
    using assms(3-5) by (simp add: play_def await_def Let_def)
  moreover have "g_status g = ACTIVE" using assms(3) by (auto simp: turn_guard_def split: if_splits)
  ultimately show ?thesis using assms(1) by (auto simp: clearTimer_def find_game_def)
qed

lemma rooms_frame [simp]:
  "rooms (broadcast r e s) = rooms s" "rooms (clearTimer r s) = rooms s" "rooms (save_game g s) = rooms s"
  "rooms (startTurnTimer r s) = rooms s"
  by (simp_all add: broadcast_def clearTimer_def save_game_def startTurnTimer_def Let_def)

text \<open>
  A room whose game is won on the deal stays in progress for ever: the instant win closes the room,
  and \<open>launchFromRoom\<close> then marks it in progress without looking, so a finished game holds
  its room, with the pot already paid out still counted as the room's.
\<close>

theorem instant_win_reopens_room:
  assumes "unit_rng (rand s)" "distinct (map rm_userId (r_members room))" "length (r_members room) \<in> {2..4}"
    "find_room (r_id room) s = Some room"
    "findInstantWin (fst (draw_deal (length (r_members room)) s)) = Some w"
  shows "\<exists>g t room'. launchFromRoom cfg room s = (Inr g, t) \<and> g_status g = FINISHED
     \<and> find_room (r_id room) t = Some room' \<and> r_status room' = IN_PROGRESS \<and> r_pot room' = r_pot room"
proof -
  let ?us = "map rm_userId (r_members room)" and ?n = "length (r_members room)"
  obtain k kind where w: "w = (k, kind)" by fastforce
  obtain hs s1 where dd: "draw_deal ?n s = (hs, s1)" by fastforce
  define g where "g = new_game (next_id s) ?us (r_mode room) (bet_of (r_mode room) (Some (r_betAmount room)))
      (Some (r_id room)) hs"
  define s2 where "s2 = matched_all g ?us (s1\<lparr>next_id := Suc (next_id s), tl_games := tl_games s @ [g]\<rparr>)"
  have s1: "hs = deal ?n (\<lambda>k. rand s (rand_pos s + k))" "rooms s1 = rooms s" "next_id s1 = next_id s" "tl_games s1 = tl_games s"
    using dd by (auto simp: draw_deal_def)
  obtain g' t' where f: "finishInstantWin cfg g k (?us ! k) kind s2 = (g', t')" by fastforce
  have c: "createGame cfg ?us (r_mode room) (Some (r_betAmount room)) (Some (r_id room)) s = (Inr g', t')"
    unfolding createGame_def Let_def using assms(3,5) w dd
    by (simp add: fresh_id_def s1(3,4) g_def [symmetric] s2_def [symmetric] f)
  have "game_ok g" unfolding g_def
    by (rule new_game_ok [OF unit_rng_shift [OF assms(1)]]) (use assms(2,3) s1(1) in simp_all)
  then have tg: "table_ok g" by (simp add: game_ok_def)
  have "k < length hs" using findInstantWin_from_SomeD [of 0 hs k kind] assms(5) w dd by (simp add: findInstantWin_def)
  then have k: "k < length (g_seats g)" by (simp add: g_def new_game_def Let_def s1(1) deal_def)
  have st: "g_status g' = FINISHED" by (rule finishInstant_effect(3) [OF f tg k])
  let ?g = "standings (instant_order g k) (clock s2) g\<lparr>g_instantWin := Some (?us ! k, kind)\<rparr>"
  obtain h u where h: "instant_rewards cfg ?g k (?us ! k) (clearTimer (Hex (g_id g)) s2) = (h, u)" by fastforce
  have gt: "t' = publish_end h [] u" using f h by (auto simp: finishInstantWin_def Let_def)
  obtain rp cc where e: "h = ?g\<lparr>g_rpChange := rp, g_coinChange := cc\<rparr>"
    using instant_rewards_frame [OF h] unfolding with_changes_def by blast
  have hr: "g_roomId h = Some (r_id room)" by (simp add: e standings_def g_def new_game_def Let_def)
  have "level_st.more u = level_st.more (clearTimer (Hex (g_id g)) s2)"
    using instant_rewards_frame [OF h] by (simp add: only_accounts_def)
  then have ru: "rooms u = rooms s" using level_more [of u "clearTimer (Hex (g_id g)) s2"] by (simp add: s2_def s1(2))
  define v where "v = broadcast (Hex (g_id h)) (TL_end (tl_view h None (save_game h u))) (save_game h u)"
  have t': "t' = close_room (r_id room) v"
    unfolding gt publish_end_def Let_def by (simp add: rottenUnits_def hr v_def)
  have fv: "find_room (r_id room) v = Some room" using assms(4) ru by (simp add: find_room_def v_def)
  let ?c = "room\<lparr>r_status := CLOSED, r_closedAt := Some (clock v)\<rparr>"
  have fc: "find_room (r_id room) t' = Some ?c" using fv by (simp add: t' close_room_def find_set_room)
  let ?m = "?c\<lparr>r_status := IN_PROGRESS, r_gameId := Some (g_id g'), r_startedAt := Some (clock t')\<rparr>"
  have "markInProgress (Hex (r_id room)) (g_id g') t' = (Inr ?m, set_room (r_id room) (\<lambda>_. ?m) t')"
    using fc by (simp add: markInProgress_def await_def getOrThrow_def Let_def)
  then have "launchFromRoom cfg room s = (Inr g', set_room (r_id room) (\<lambda>_. ?m) t')"
    using c by (simp add: launchFromRoom_def await_def)
  moreover have "find_room (r_id room) (set_room (r_id room) (\<lambda>_. ?m) t') = Some ?m"
    using fc by (simp add: find_set_room)
  ultimately show ?thesis using st by (intro exI [of _ g'] exI [of _ ?m] exI conjI) auto
qed

text \<open>
  A resignation may hand the turn to a player who has already passed, or back to the player whose
  combination is on the table; a play or a pass never does.
\<close>

definition fair_turn :: "TienLenGame \<Rightarrow> bool" where
  "fair_turn g \<longleftrightarrow> (g_currentCombo g \<noteq> [] \<longrightarrow>
     g_turn g \<noteq> g_leadSeat g \<and> \<not> s_passed (g_seats g ! g_turn g))"

lemma advance_fair: "0 < length (g_seats g) \<Longrightarrow> fair_turn (advanceTurn g k)"
  by (cases rule: advanceTurn_cases [of g k]) (auto simp: fair_turn_def)


section \<open>Examples\<close>

definition cfg0 :: TienLenConfig where
  "cfg0 = \<lparr>chopHeoBetRatio = 1 / 2, chopHeoRp = 5, rottenHeoBetRatio = 1 / 2, rottenHeoRp = 5, instantWinRp = 10\<rparr>"

definition playing_room :: GameRoom where
  "playing_room = demo_room\<lparr>r_status := IN_PROGRESS\<rparr>"

definition tl0 :: tl_st where
  "tl0 = rooms_st.extend (lobby0 [playing_room])
     \<lparr>tl_games = [duel], tl_timers = Map.empty, tl_dcTimers = Map.empty, tl_log = []\<rparr>"

lemma tl0_frame [simp]:
  "tl_games tl0 = [duel]" "next_id tl0 = 30" "users tl0 = users wallet0" "txs tl0 = txs wallet0"
  "rooms tl0 = [playing_room]" "find_user u tl0 = find_user u wallet0"
  by (simp_all add: tl0_def rooms_st.extend_def lobby0_frame lobby0_defs wallet0_defs find_user_def)

lemma tl0_ok: "tl_ok tl0"
  using duel_ok by (simp add: tl_ok_def) (simp add: duel_def)

lemma tl0_ledger: "ledger_ok tl0"
  using wallet0_ok by (rule ledger_ok_frame) (simp_all add: wallet0_defs)

lemma tl0_game: "find_game 25 tl0 = Some duel"
  by (simp add: find_game_def duel_def)

lemma play_succeeds:
  assumes "find_game i s = Some g" "read_oid r = Some i" "turn_guard g u = Inr k" "cards \<noteq> []"
    "play_guard g k cards = Inr (cb, h)"
  obtains v t where "play cfg r u cards s = (Inr v, t)"
proof -
  have "getGameOrThrow r s = (Inr g, s)" using assms(1,2) by (simp add: getGameOrThrow_def)
  then have "play cfg r u cards s = play_commit cfg r u (play_doc g u k cb h (clock s))
      (announce_play cfg r u k cb (length h) (chop_event g u cb) (play_doc g u k cb h (clock s)) (clearTimer r s))"
    using assms(3-5) by (simp add: play_def await_def Let_def)
  then show ?thesis using that by (auto simp: play_commit_def Let_def split: prod.splits if_splits)
qed

theorem tienlen_games_stay_sound_witness:
  "tl_ok (onTimeout cfg0 (Hex 25) (snd (play cfg0 (Hex 25) 1 [0] tl0)))"
proof -
  let ?t = "snd (play cfg0 (Hex 25) 1 [0] tl0)"
  have "tl_step\<^sup>*\<^sup>* tl0 ?t" by (rule r_into_rtranclp) (rule tl_step.plays)
  then have "tl_step\<^sup>*\<^sup>* tl0 (onTimeout cfg0 (Hex 25) ?t)"
    by (rule rtranclp.rtrancl_into_rtrancl) (rule tl_step.times_out)
  then show ?thesis by (rule tienlen_games_stay_sound [OF tl0_ok])
qed

theorem tienlen_service_refines_rules_witness:
  "carries_out tl0 (snd (play cfg0 (Hex 25) 1 [0] tl0))"
proof -
  obtain v t where p: "play cfg0 (Hex 25) 1 [0] tl0 = (Inr v, t)"
    by (rule play_succeeds [OF tl0_game _ duel_guards(1) _ duel_guards(2)]) auto
  then show ?thesis
    using tienlen_service_refines_rules [OF tl0_ok, of cfg0 "Hex 25" 1 "[0]"] by auto
qed

theorem view_hides_hands_witness:
  "tl_view (new_game 9 [1, 2] CASUAL 0 None [[0, 4], [5, 11]]) (Some 1) tl0 = tl_view (new_game 9 [1, 2] CASUAL 0 None [[0, 4], [6, 10]]) (Some 1) tl0"
proof -
  have "holderOfLowest [[0, 4], [5, 11]] = 0" "holderOfLowest [[0, 4], [6, 10]] = 0" by code_simp+
  then show ?thesis using view_hides_hands [of duel "Some 1" tl0 "[[0, 4], [5, 11]]" "[[0, 4], [6, 10]]" "[1, 2]" 9 CASUAL 0 None]
    by (simp add: less_Suc_eq)
qed

theorem ranked_changes_zero_sum_witness:
  "total (rp_changes 5 (finish_doc 0 (forceFinishLast duel 0))) [1, 2] = 0"
proof -
  have f: "table_ok (forceFinishLast duel 0)" "standing_ok (forceFinishLast duel 0)"
    using force_ok [OF duel_table duel_standing, of 0] by (auto simp: duel_def seat_of_def)
  have "map s_userId (g_seats (finish_doc 0 (forceFinishLast duel 0))) = [1, 2]"
    by (simp add: force_seats duel_def seat_of_def)
  then show ?thesis
    using ranked_changes_zero_sum [OF finish_doc_ok [OF f], of 0 5] by (simp add: finish_doc_def standings_def)
qed

theorem finish_conserves_coins_witness:
  "coins (snd (finish cfg0 duel tl0)) + escrow (snd (finish cfg0 duel tl0)) = coins tl0 + escrow tl0"
proof -
  obtain g' t where f: "finish cfg0 duel tl0 = (g', t)" by fastforce
  have d: "\<forall>x \<in> set (g_seats duel). find_user (s_userId x) tl0 \<noteq> None"
    using wallet0_find by (simp add: duel_def seat_of_def)
  have r: "find_room 20 tl0 = Some playing_room" by (simp add: find_room_def playing_room_def demo_room_def)
  have m: "0 \<le> g_pot duel" "g_mode duel \<noteq> WAGER \<longrightarrow> g_pot duel = 0" "g_roomId duel = Some 20"
    "r_status playing_room \<noteq> CLOSED" "r_pot playing_room = g_pot duel"
    by (simp_all add: duel_def playing_room_def demo_room_def)
  show ?thesis
    using finish_conserves_coins [OF tl0_ledger duel_table duel_standing f d m(1-3) r m(4,5)] f by simp
qed

theorem rejected_play_stops_clock_witness:
  "\<exists>t. play cfg0 (Hex 25) 1 [0, 4] tl0 = (Inl (BadRequest ''Invalid card combination''), t)
     \<and> tl_timers t (Hex 25) = None"
  using rejected_play_stops_clock [OF tl0_game _ duel_guards(1) _ duel_guards(3), of "Hex 25" cfg0] by auto

text \<open>Draws that leave the deck in order deal six pairs to the first of two players.\<close>

definition in_order :: "nat \<Rightarrow> rat" where
  "in_order k = (if k \<le> 50 then 1 - 1 / (52 - of_nat k) else 0)"

lemma in_order_shuffle:
  "\<lbrakk>k + i = 51; i < length xs\<rbrakk> \<Longrightarrow> shuffle_loop in_order k i xs = xs"
proof (induction i arbitrary: k)
  case (Suc i)
  have k: "k \<le> 50" and m: "52 - of_nat k = (of_nat (Suc i + 1) :: rat)" using Suc.prems(1) by (simp, linarith)
  have "in_order k * of_nat (Suc i + 1) = (of_nat (Suc i) :: rat)"
    unfolding in_order_def m using k by (simp add: field_simps)
  then have "nat \<lfloor>in_order k * of_nat (Suc i + 1)\<rfloor> = Suc i" by simp
  moreover have "swap_at (Suc i) (Suc i) xs = xs" by (simp add: swap_at_def)
  ultimately show ?case using Suc by (simp add: Let_def)
qed simp

lemma in_order_deal: "findInstantWin (deal 2 in_order) \<noteq> None"
proof -
  have "shuffledDeck in_order = [0..<52]"
    unfolding shuffledDeck_def by (rule in_order_shuffle) simp_all
  then have "detectInstantWin (deal 2 in_order ! 0) \<noteq> None"
    by (simp add: deal_def upt_rec detectInstantWin_def freq_def rankOf_def)
  moreover have "length (deal 2 in_order) = 2" by (simp add: deal_def Let_def)
  ultimately show ?thesis
    by (cases "deal 2 in_order") (auto simp: findInstantWin_def split: option.splits)
qed

theorem instant_win_reopens_room_witness:
  "\<exists>g t room'. launchFromRoom cfg0 playing_room (tl0\<lparr>rand := in_order, rand_pos := 0\<rparr>) = (Inr g, t)
     \<and> g_status g = FINISHED \<and> find_room 20 t = Some room' \<and> r_status room' = IN_PROGRESS"
proof -
  let ?s = "tl0\<lparr>rand := in_order, rand_pos := 0\<rparr>"
  have u: "unit_rng (rand ?s)" by (auto simp: unit_rng_def in_order_def field_simps)
  have m: "distinct (map rm_userId (r_members playing_room))" "length (r_members playing_room) = 2"
    "r_id playing_room = 20" by (simp_all add: playing_room_def demo_room_def)
  have r: "find_room (r_id playing_room) ?s = Some playing_room" by (simp add: find_room_def)
  obtain w where w: "findInstantWin (fst (draw_deal (length (r_members playing_room)) ?s)) = Some w"
    using in_order_deal by (auto simp: draw_deal_def m(2))
  show ?thesis using instant_win_reopens_room [OF u m(1) _ r w, of cfg0] m by auto
qed

end
