(* ===== verification/TienLenGatewayLaws.thy ===== *)
theory TienLenGatewayLaws
  imports TienLenGateway GatewayLaws TienLenLaws QueueLaws
begin

text \<open>
  The gateway of Tien Len keeps what its service promises, and an invitation to a game for coins that is
  accepted takes the stakes of both players or of neither.
\<close>

section \<open>The service under the gateway\<close>

lemma tl_seating [simp]:
  "seating (broadcast r e s) = seating s" "seating (clearTimer r s) = seating s" "seating (startTurnTimer r s) = seating s"
  "seating (clearDcTimer k s) = seating s" "seating (save_game g s) = seating s" "seating (s\<lparr>tl_dcTimers := d\<rparr>) = seating s"
  "seating (matched_all g us s) = seating s"
  by (simp_all add: broadcast_def save_game_def clearTimer_def startTurnTimer_def clearDcTimer_def Let_def seating_def)

lemma seating_publish_end [simp]: "seating (publish_end g rs s) = seating s"
  by (simp add: publish_end_def Let_def split: option.split)

lemma tl_seating_finish [simp]: "seating (snd (finish cfg g s)) = seating s"
proof -
  obtain h u where h: "end_rewards cfg (finish_doc (clock s) g) (clearTimer (Hex (g_id g)) s) = (h, u)" by fastforce
  show ?thesis using seating_accounts [OF conjunct1 [OF end_rewards_frame [OF h]]] h by (simp add: finish_def Let_def)
qed

lemma seating_instant [simp]: "seating (snd (finishInstantWin cfg g k w kind s)) = seating s"
proof -
  obtain h u where h: "instant_rewards cfg (standings (instant_order g k) (clock s) g\<lparr>g_instantWin := Some (w, kind)\<rparr>) k w
      (clearTimer (Hex (g_id g)) s) = (h, u)" by fastforce
  show ?thesis using seating_accounts [OF conjunct1 [OF instant_rewards_frame [OF h]]] h by (simp add: finishInstantWin_def Let_def)
qed

lemma seating_chop [simp]: "seating (applyChopPenalty cfg g c s) = seating s"
proof -
  obtain b t where st: "settles (collectStake (ce_victim c) (chop_price cfg g * int (ce_units c))
      (''tienlen-chop:'' @ oid_str (g_id g))) s = (b, t)" by fastforce
  have 1: "only_accounts s t" using only_accounts_payments(2) st by (metis snd_conv)
  note 2 = only_accounts_trans [OF 1 only_accounts_payments(1)]
  have 3: "only_accounts s (snd (addRankPoints v e r' (snd (addRankPoints u d r s))))" for u d r v e r'
    by (rule only_accounts_trans [OF only_accounts_payments(3) only_accounts_payments(3)])
  show ?thesis using seating_accounts [OF 1] seating_accounts [OF 2] seating_accounts [OF 3]
    unfolding applyChopPenalty_def Let_def st by simp
qed

lemma tl_seating_createGame [simp]: "seating (snd (createGame cfg us mode bet roomId s)) = seating s"
  by (simp add: createGame_def draw_deal_def fresh_id_def Let_def split_beta split: option.split) (simp add: seating_def)

lemma tl_getGame_state: "getGameOrThrow r s = (x, t) \<Longrightarrow> t = s"
  by (auto simp: getGameOrThrow_def split: option.splits)

lemmas tl_seating_op = seating_await [where m = "getGameOrThrow r" for r, OF tl_getGame_state]

lemma seating_play [simp]: "seating (snd (play cfg r u cards s)) = seating s"
  unfolding play_def
  by (rule tl_seating_op)
     (simp_all add: Let_def split_beta play_commit_def announce_play_def split: sum.split option.split)

lemma seating_pass [simp]: "seating (snd (pass r u s)) = seating s"
  unfolding pass_def by (rule tl_seating_op) (simp_all add: Let_def split: sum.split)

lemma seating_autoSkip [simp]: "seating (snd (autoSkip r k s)) = seating s"
  by (simp add: autoSkip_def Let_def split: option.split)

lemma tl_step_seating: "tl_step s t \<Longrightarrow> seating t = seating s"
proof (induction rule: tl_step.induct)
  case (resigns s cfg r u)
  show ?case unfolding resign_def by (rule tl_seating_op) (simp_all add: Let_def split_beta split: option.split)
qed (simp_all add: onTimeout_def onDisconnect_def onReconnect_def forfeitDisconnected_def best_effort_def Let_def split: option.split)

lemma tl_ok_lobby: "lobby_frame s t \<Longrightarrow> tl_ok s \<Longrightarrow> tl_ok t"
  using rooms_more_tl [of t s] tl_ok_same [of s t] by (simp add: lobby_frame_def)

lemma collect_both_frame: "lobby_frame s (snd (collect_both k u s))"
proof -
  have c: "lobby_frame s t" if "settles (collectStake v a ref) s = (b, t)" for v a ref b t and s :: "'a rooms_st_scheme"
    using that lobby_frame_pays(1) [of s v a ref] by (metis snd_conv snd_settles)
  obtain b s1 where b: "settles (collectStake (ch_fromUserId k) (ch_betAmount k) (challenge_ref k)) s = (b, s1)" by fastforce
  obtain d s2 where d: "(if b then settles (collectStake u (ch_betAmount k) (challenge_ref k)) s1 else (False, s1)) = (d, s2)" by fastforce
  have "lobby_frame s s2" using lobby_frame_trans [OF c [OF b]] c d by (auto split: if_splits)
  then show ?thesis using lobby_frame_trans [OF _ lobby_frame_refundMany] b d by (auto simp: collect_both_def Let_def)
qed


lemma tl_launch_cases:
  assumes "tl_launch cfg room s = (x, t)"
  obtains (refused) e where "x = Inl e" "t = snd (createGame cfg (map rm_userId (r_members room)) (r_mode room) (Some (r_betAmount room)) (Some (r_id room)) s)"
      "\<exists>e. fst (createGame cfg (map rm_userId (r_members room)) (r_mode room) (Some (r_betAmount room)) (Some (r_id room)) s) = Inl e"
  | (started) game s1 y where
      "createGame cfg (map rm_userId (r_members room)) (r_mode room) (Some (r_betAmount room)) (Some (r_id room)) s = (Inr game, s1)"
      "markInProgress (Hex (r_id room)) (g_id game) s1 = (y, t)" "x = (case y of Inl e \<Rightarrow> Inl e | Inr _ \<Rightarrow> Inr (g_id game))"
proof -
  obtain z s1 where c: "createGame cfg (map rm_userId (r_members room)) (r_mode room) (Some (r_betAmount room)) (Some (r_id room)) s = (z, s1)"
    by fastforce
  show ?thesis
  proof (cases z)
    case (Inl e)
    then show ?thesis using refused [of e] assms c by (simp add: tl_launch_def launchFromRoom_def await_def)
  next
    case (Inr game)
    obtain y t' where m: "markInProgress (Hex (r_id room)) (g_id game) s1 = (y, t')" by fastforce
    have "t' = t" "x = (case y of Inl e \<Rightarrow> Inl e | Inr _ \<Rightarrow> Inr (g_id game))"
      using assms c Inr m by (auto simp: tl_launch_def launchFromRoom_def await_def split: sum.splits)
    then show ?thesis using started c Inr m by simp
  qed
qed

lemma tl_createGame_refused: "createGame cfg us mode bet roomId s = (Inl e, t) \<Longrightarrow> t = s"
  by (auto simp: createGame_def Let_def split_beta split: if_splits option.splits)

lemma tl_createGame_found:
  "createGame cfg us mode bet roomId s = (x, t) \<Longrightarrow> find_room i s \<noteq> None \<Longrightarrow> find_room i t \<noteq> None"
  using tl_seating_createGame [of cfg us mode bet roomId s] by (simp only: find_room_seating snd_conv)

interpretation tl_gw: game_service tl_ok "\<lambda>s. unit_rng (rand s)" "tl_launch cfg" "tl_challenge_start cfg" for cfg
proof (unfold_locales, goal_cases)
  case (1 s t)
  then show ?case by (rule tl_ok_lobby)
next
  case (2 s t)
  then show ?case by (simp add: lobby_frame_def)
next
  case (3 s room)
  let ?c = "createGame cfg (map rm_userId (r_members room)) (r_mode room) (Some (r_betAmount room)) (Some (r_id room)) s"
  have ok: "tl_ok (snd ?c)" by (rule createGame_ok [OF 3])
  obtain x t where l: "tl_launch cfg room s = (x, t)" by fastforce
  then show ?case
  proof (cases rule: tl_launch_cases)
    case (refused e)
    then show ?thesis using ok l by simp
  next
    case (started game s1 y)
    then show ?thesis using ok tl_ok_lobby [OF mark_frame, of s1 "Hex (r_id room)" "g_id game"] l by simp
  qed
next
  case (4 s room)
  let ?c = "createGame cfg (map rm_userId (r_members room)) (r_mode room) (Some (r_betAmount room)) (Some (r_id room)) s"
  have ok: "seated_once (snd ?c)" using 4 by (simp add: seated_once_iff)
  obtain x t where l: "tl_launch cfg room s = (x, t)" by fastforce
  then show ?case
  proof (cases rule: tl_launch_cases)
    case (refused e)
    then show ?thesis using ok l by simp
  next
    case (started game s1 y)
    then show ?thesis using ok mark_frame [of s1 "Hex (r_id room)" "g_id game"] l by (simp add: lobby_frame_def)
  qed
next
  case (5 s k u)
  let ?m = "if ch_mode k = WAGER \<and> ch_betAmount k > 0 then collect_both k u else return ()"
  have m: "lobby_frame s (snd (?m s))" by (simp add: collect_both_frame)
  show ?case unfolding tl_challenge_start_def
  proof (rule await_snd [where P = tl_ok])
    show "tl_ok (snd (?m s))" by (rule tl_ok_lobby [OF m 5(1)])
    fix x t
    assume "?m s = (Inr x, t)"
    then have "tl_ok t" "unit_rng (rand t)" using m 5 tl_ok_lobby by (auto simp: lobby_frame_def)
    then show "tl_ok (snd (await (createGame cfg [ch_fromUserId k, u] (ch_mode k) (Some (ch_betAmount k)) None) (\<lambda>game. return (g_id game)) t))"
      using createGame_ok [of t "[ch_fromUserId k, u]"] 5(3) by (simp add: await_last)
  qed
next
  case (6 s k u)
  let ?m = "if ch_mode k = WAGER \<and> ch_betAmount k > 0 then collect_both k u else return ()"
  have m: "lobby_frame s (snd (?m s))" by (simp add: collect_both_frame)
  show ?case unfolding tl_challenge_start_def
  proof (rule await_snd [where P = seated_once])
    show "seated_once (snd (?m s))" using m 6 by (simp add: lobby_frame_def)
    fix x t
    assume "?m s = (Inr x, t)"
    then have "seated_once t" using m 6 by (auto simp: lobby_frame_def)
    then show "seated_once (snd (await (createGame cfg [ch_fromUserId k, u] (ch_mode k) (Some (ch_betAmount k)) None) (\<lambda>game. return (g_id game)) t))"
      by (simp add: await_last seated_once_iff)
  qed
next
  case (7 room s gameId t)
  from 7(1) show ?case
  proof (cases rule: tl_launch_cases)
    case (started game s1 y)
    have "find_room (r_id room) s1 \<noteq> None" using tl_createGame_found [OF started(1)] 7(2) by simp
    from mark_found [OF this, of "g_id game"] show ?thesis using started(2,3) by (auto split: sum.splits)
  qed simp
next
  case (8 room s e t)
  from 8(1) show ?case
  proof (cases rule: tl_launch_cases)
    case (refused e')
    then show ?thesis using tl_createGame_refused by (metis prod.collapse)
  next
    case (started game s1 y)
    have "find_room (r_id room) s1 \<noteq> None" using tl_createGame_found [OF started(1)] 8(2) by simp
    from mark_found [OF this, of "g_id game"] show ?thesis using started(2,3) by (auto split: sum.splits)
  qed
qed

section \<open>The gateway\<close>

definition tq_ok :: "TienLenQueue \<Rightarrow> bool" where
  "tq_ok q \<longleftrightarrow> (\<forall>n. zok (tq_set q n))"

lemma tq_ok_ops: "tq_ok q \<Longrightarrow> tq_ok (tq_enqueue n u sock now q)" "tq_ok q \<Longrightarrow> tq_ok (tq_dequeue u q)"
  by (auto simp: tq_ok_def tq_enqueue_def tq_dequeue_def TABLE_SIZES_def)

lemma tq_match_ok:
  assumes "tq_ok q" "tq_tryMatch n q = (r, q')" "n \<in> set TABLE_SIZES"
  shows "tq_ok q'" "r = Some us \<Longrightarrow> distinct us"
proof -
  have "0 < n" using assms(3) by (auto simp: TABLE_SIZES_def)
  then show "r = Some us \<Longrightarrow> distinct us" using oldest_claimed [of q n] assms by (simp add: tq_ok_def)
  show "tq_ok q'" using assms(1,2) by (auto simp: tq_ok_def tq_tryMatch_def tq_claim_def Let_def split: if_splits)
qed

inductive tl_gw_step :: "'r tl_gw \<Rightarrow> 'r tl_gw \<Rightarrow> bool" where
  connects: "tl_gw_step g (handleConnection token c g)"
| authenticates: "tl_gw_step g (snd (canActivate token c g))"
| disconnects: "tl_gw_step g (tl_handleDisconnect c g)"
| joins_lobby: "tl_gw_step g (snd (onLobbyJoin c g))"
| leaves_lobby: "tl_gw_step g (snd (onLobbyLeave c g))"
| joins_queue: "unit_rng (rand (gw_service g)) \<Longrightarrow> tl_gw_step g (snd (onQueueJoin cfg sz c g))"
| leaves_queue: "tl_gw_step g (snd (onQueueLeave c g))"
| challenges: "tl_gw_step g (snd (onChallenge opponent ranked bet c g))"
| accepts: "unit_rng (rand (gw_service g)) \<Longrightarrow> tl_gw_step g (snd (onChallengeAccept cfg i c g))"
| declines: "tl_gw_step g (snd (onChallengeDecline i c g))"
| creates_room: "tl_gw_step g (snd (onRoomCreate bet maxPlayers ranked isPrivate name c g))"
| joins_room: "tl_gw_step g (snd (onRoomJoin roomId code c g))"
| leaves_room: "tl_gw_step g (snd (onRoomLeave r c g))"
| readies: "tl_gw_step g (snd (onRoomReady r ready c g))"
| starts: "unit_rng (rand (gw_service g)) \<Longrightarrow> tl_gw_step g (snd (onRoomStart cfg r c g))"
| joins_game: "tl_gw_step g (snd (onJoinGame r c g))"
| leaves_game: "tl_gw_step g (snd (onLeaveGame r c g))"
| plays: "tl_gw_step g (snd (onPlay cfg r cards c g))"
| passes: "tl_gw_step g (snd (onPass r c g))"
| resigns: "tl_gw_step g (snd (onResign cfg r c g))"
| times_out: "tl_gw_step g (on_service (onTimeout cfg r) g)"
| forfeits: "tl_gw_step g (on_service (forfeitDisconnected cfg r u) g)"
| elsewhere: "lobby_frame (gw_service g) s \<Longrightarrow> tl_gw_step g (g\<lparr>gw_service := s\<rparr>)"
| waits: "tl_gw_step g (on_service (\<lambda>s. s\<lparr>clock := now\<rparr>) g)"

lemma tl_gw_ok_step:
  assumes "gw_ok tl_ok tq_ok g" "tl_step (gw_service g) s"
  shows "gw_ok tl_ok tq_ok (g\<lparr>gw_service := s\<rparr>)"
  using assms tl_step_ok [OF assms(2)] tl_step_seating [OF assms(2)] by (simp add: gw_ok_def seated_once_iff)

lemma tl_service_step_ok:
  assumes "gw_ok tl_ok tq_ok g" "tl_step (gw_service g) (snd (m (gw_service g)))"
  shows "gw_ok tl_ok tq_ok (snd (service m g))"
  unfolding snd_service by (rule tl_gw_ok_step [OF assms])

lemma tl_gw_ok_counts [simp]: "gw_ok P Q (broadcastCounts g) = gw_ok P Q g"
  by (simp add: broadcastCounts_def)

lemma table_size_mem: "d \<in> set TABLE_SIZES \<Longrightarrow> table_size d n \<in> set TABLE_SIZES"
  by (simp add: table_size_def split: option.split)

lemma tl_onQueueJoin_ok:
  assumes "gw_ok tl_ok tq_ok g" "unit_rng (rand (gw_service g))"
  shows "gw_ok tl_ok tq_ok (snd (onQueueJoin cfg sz c g))"
  unfolding onQueueJoin_def
proof (rule await_user [where P = "gw_ok tl_ok tq_ok", OF assms(1)])
  fix u
  let ?n = "table_size 4 sz"
  define h where "h = join_channel c Lobby_room (on_queue (tq_enqueue ?n (au_id u) c (clock (gw_service g))) g)"
  obtain matched q where m: "tq_tryMatch ?n (gw_queue h) = (matched, q)" by fastforce
  let ?h = "h\<lparr>gw_queue := q\<rparr>"
  have h: "gw_ok tl_ok tq_ok h" "gw_service h = gw_service g"
    using assms(1) by (simp_all add: h_def gw_ok_queue gw_ok_def tq_ok_ops)
  have n: "?n \<in> set TABLE_SIZES" by (rule table_size_mem) (simp add: TABLE_SIZES_def)
  note q = tq_match_ok [OF _ m n]
  have ok: "gw_ok tl_ok tq_ok ?h" by (rule gw_ok_queue(2) [OF h(1)], rule q(1)) (use h(1) in \<open>simp add: gw_ok_def\<close>)
  have "gw_ok tl_ok tq_ok (snd (case matched of
      None \<Rightarrow> let g = broadcastCounts ?h in return (Queued ?n (tq_counts (gw_queue g))) g
    | Some us \<Rightarrow> await (service (createGame cfg us RANKED None None))
        (\<lambda>game g. return (Matched (g_id game)) (broadcastCounts g)) ?h))"
  proof (cases matched)
    case (Some us)
    then have "distinct us" using q(2) h(1) by (simp add: gw_ok_def)
    then have "gw_ok tl_ok tq_ok (snd (service (createGame cfg us RANKED None None) ?h))"
      using assms(2) h(2) by (intro tl_service_step_ok [OF ok] tl_step.create) simp_all
    then show ?thesis unfolding Some option.case by (rule await_ok [where P = "gw_ok tl_ok tq_ok"]) simp
  qed (use ok in \<open>simp add: Let_def\<close>)
  then show "gw_ok tl_ok tq_ok (snd (let n = table_size 4 sz;
         g = on_queue (tq_enqueue n (au_id u) c (clock (gw_service g))) g;
         g = join_channel c Lobby_room g;
         (matched, q) = tq_tryMatch n (gw_queue g);
         g = g\<lparr>gw_queue := q\<rparr>
     in case matched of
          None \<Rightarrow> let g = broadcastCounts g in return (Queued n (tq_counts (gw_queue g))) g
        | Some us \<Rightarrow> await (service (createGame cfg us RANKED None None))
            (\<lambda>game g. return (Matched (g_id game)) (broadcastCounts g)) g))"
    using m unfolding h_def by (simp add: Let_def)
qed

lemma tl_onJoinGame_ok:
  assumes "gw_ok tl_ok tq_ok g"
  shows "gw_ok tl_ok tq_ok (snd (onJoinGame r c g))"
  unfolding onJoinGame_def
proof (rule await_user [where P = "gw_ok tl_ok tq_ok", OF assms], rule await_ok [where P = "gw_ok tl_ok tq_ok"])
  show "gw_ok tl_ok tq_ok (snd (service (getGameOrThrow r) g))"
    using assms tl_getGame_state [of r "gw_service g"] by (simp add: snd_service prod_eq_iff)
  fix u game h
  assume "gw_ok tl_ok tq_ok h"
  then have "gw_ok tl_ok tq_ok (h\<lparr>gw_service := onReconnect r (au_id u) (gw_service h)\<rparr>)"
    by (rule tl_gw_ok_step) (rule tl_step.reconnects)
  then show "gw_ok tl_ok tq_ok (snd (let g = on_client c (\<lambda>k. k\<lparr>cl_game := Some r\<rparr>) (join_channel c (Game_room r) h);
      g = on_service (onReconnect r (au_id u)) g in return (tl_view game (Some (au_id u)) (gw_service g)) g))"
    by (simp add: gw_ok_def Let_def)
qed

lemma tl_handleDisconnect_ok:
  assumes "gw_ok tl_ok tq_ok g"
  shows "gw_ok tl_ok tq_ok (tl_handleDisconnect c g)"
  unfolding tl_handleDisconnect_def
proof (rule handleDisconnect_ok [OF assms tq_ok_ops(2)])
  fix r u and h :: "'a tl_gw"
  assume "gw_ok tl_ok tq_ok h"
  then show "gw_ok tl_ok tq_ok (on_service (onDisconnect r u) h)"
    unfolding on_service_def by (rule tl_gw_ok_step) (rule tl_step.disconnects)
qed

lemma tl_gw_step_ok: "tl_gw_step g h \<Longrightarrow> gw_ok tl_ok tq_ok g \<Longrightarrow> gw_ok tl_ok tq_ok h"
proof (induction rule: tl_gw_step.induct)
  case (creates_room g bet maxPlayers ranked isPrivate name c)
  show ?case unfolding onRoomCreate_def
    by (rule await_ok [where P = "gw_ok tl_ok tq_ok"]) (simp_all add: creates_room tl_gw.room_create_ok)
next
  case (plays g cfg r cards c)
  show ?case unfolding onPlay_def
    by (rule await_user [where P = "gw_ok tl_ok tq_ok", OF plays]) (intro tl_service_step_ok plays tl_step.plays)
next
  case (passes g r c)
  show ?case unfolding onPass_def
    by (rule await_user [where P = "gw_ok tl_ok tq_ok", OF passes]) (intro tl_service_step_ok passes tl_step.passes)
next
  case (resigns g cfg r c)
  show ?case unfolding onResign_def
    by (rule await_user [where P = "gw_ok tl_ok tq_ok", OF resigns]) (intro tl_service_step_ok resigns tl_step.resigns)
next
  case (times_out g cfg r)
  show ?case unfolding on_service_def by (rule tl_gw_ok_step [OF times_out]) (rule tl_step.times_out)
next
  case (forfeits g cfg r u)
  show ?case unfolding on_service_def by (rule tl_gw_ok_step [OF forfeits]) (rule tl_step.forfeits)
next
  case (elsewhere g s)
  then show ?case using tl_gw.gw_ok_lobby by blast
next
  case (leaves_queue g c)
  show ?case unfolding onQueueLeave_def
    by (rule await_user [where P = "gw_ok tl_ok tq_ok", OF leaves_queue])
       (use leaves_queue gw_ok_queue(1) [OF leaves_queue] in \<open>simp add: Let_def tq_ok_ops gw_ok_def [of tl_ok tq_ok g]\<close>)
next
  case (waits g now)
  then show ?case by (simp add: gw_ok_def on_service_def seated_once_def tl_ok_def)
qed (simp_all add: canActivate_ok tl_handleDisconnect_ok onLobbyJoin_def onLobbyLeave_def tl_onQueueJoin_ok onChallenge_def
      onChallengeAccept_def onChallengeDecline_def onRoomJoin_def onRoomLeave_def onRoomReady_def onRoomStart_def tl_onJoinGame_ok
      onLeaveGame_def Let_def tl_gw.challenge_send_ok tl_gw.challenge_accept_ok tl_gw.challenge_decline_ok
      tl_gw.room_join_ok tl_gw.room_leave_ok tl_gw.room_ready_ok tl_gw.room_start_ok)

text \<open>
  C8: The Tien Len gateway, whatever the clients send: from a sound state, any sequence of its handlers, of
  timers and of lobby operations made through the other gateways leaves a sound state. Every game keeps the
  invariant of its table, no room seats a player twice, no invitation is addressed to its sender, and
  each queue holds a player once.
\<close>

theorem tienlen_gateway_sound:
  assumes "gw_ok tl_ok tq_ok g" "tl_gw_step\<^sup>*\<^sup>* g h"
  shows "gw_ok tl_ok tq_ok h"
  using assms(2) by (induction rule: rtranclp_induct) (use assms(1) tl_gw_step_ok in auto)

section \<open>Stakes of an invitation\<close>

lemma matched_users [simp]: "users (matched_all g us s) = users s" "txs (matched_all g us s) = txs s"
  unfolding matched_all_def by (induction us arbitrary: s) simp_all

lemma publish_end_free:
  assumes "g_roomId g = None"
  shows "users (publish_end g rs s) = users s" "txs (publish_end g rs s) = txs s" "next_id (publish_end g rs s) = next_id s"
  using assms by (simp_all add: publish_end_def Let_def broadcast_def save_game_def)

text \<open>A game won with the deal pays its pot to the winner at once.\<close>

lemma instant_money:
  assumes "ledger_ok s" "find_user w s \<noteq> None" "g_mode g = WAGER" "0 < g_pot g" "g_roomId g = None"
    "finishInstantWin cfg g k w kind s = (g', t)"
  shows "ledger_ok t" "coins t = coins s + g_pot g" "g_pot g' = g_pot g" "g_status g' = FINISHED" "g_id g' = g_id g"
    "tl_games t = updateOne (\<lambda>x. g_id x = g_id g') (\<lambda>_. g') (tl_games s)"
    "balance_of t v = balance_of s v + (if v = w then g_pot g else 0)"
    "map s_userId (g_seats g') = map s_userId (g_seats g)" "g_instantWin g' = Some (w, kind)"
proof -
  let ?g = "standings (instant_order g k) (clock s) g\<lparr>g_instantWin := Some (w, kind)\<rparr>" and ?s = "clearTimer (Hex (g_id g)) s"
  obtain h u where r: "instant_rewards cfg ?g k w ?s = (h, u)" by fastforce
  have e: "g' = h" "t = publish_end h [] u" using assms(6) r by (auto simp: finishInstantWin_def Let_def)
  have gf: "g_mode ?g = WAGER" "g_pot ?g = g_pot g" "g_roomId ?g = None" "g_id ?g = g_id g" "g_status ?g = FINISHED"
    using assms(3,5) by (simp_all add: standings_def)
  have h: "h = ?g\<lparr>g_coinChange := Some ((coins_start ?g)(w \<mapsto> g_pot ?g - g_betAmount ?g))\<rparr>"
    "u = best_effort (payout w (g_pot ?g) (pot_ref ?g)) ?s"
    using r gf assms(4) by (simp_all add: instant_rewards_def)
  show f: "g_pot g' = g_pot g" "g_status g' = FINISHED" "g_id g' = g_id g" using gf by (simp_all add: e(1) h(1))
  show "map s_userId (g_seats g') = map s_userId (g_seats g)" "g_instantWin g' = Some (w, kind)"
    by (simp_all add: e(1) h(1) standings_def comp_def)
  have room: "g_roomId h = None" using gf(3) by (simp add: h(1))
  have l: "ledger_ok ?s" using ledger_ok_frame [OF assms(1), of ?s] by (simp add: clearTimer_def)
  have w: "find_user w ?s \<noteq> None" using assms(2) by (simp add: clearTimer_def find_user_def)
  have p: "paid (g_pot g) ?s u" using paid_payout [OF l _ w] assms(4) gf(2) by (simp add: h(2) less_imp_le)
  have free: "users t = users u" "txs t = txs u" "next_id t = next_id u" using publish_end_free [OF room] e(2) by simp_all
  show "ledger_ok t" using ledger_ok_frame [OF paid_ledger [OF p] free(1,2)] free(3) by simp
  show "coins t = coins s + g_pot g" using p coins_users [OF free(1)] coins_users [of ?s s] by (simp add: paid_def clearTimer_def)
  have "balance_of u v = balance_of ?s v + (if v = w then g_pot g else 0)"
    using payout_balance [OF l _ w, of "g_pot g" "pot_ref ?g" v] assms(4) by (simp add: h(2) gf(2))
  then show "balance_of t v = balance_of s v + (if v = w then g_pot g else 0)"
    using balance_users [OF free(1), of v] balance_users [of ?s s v] by (simp add: clearTimer_def)
  have "tl_games u = tl_games s" using rooms_more_tl [of u ?s] paid_rooms [OF p] by (simp add: clearTimer_def)
  then show "tl_games t = updateOne (\<lambda>x. g_id x = g_id g') (\<lambda>_. g') (tl_games s)" by (simp add: e)
qed

lemma find_appended:
  "g_id g \<notin> set (map g_id gs) \<Longrightarrow> List.find (\<lambda>x. g_id x = g_id g) (gs @ [g]) = Some g"
  by (induction gs) auto

text \<open>
  The coins a new game without a room moves: none while it is played, and its whole pot to the player whose dealt
  hand wins it at once.
\<close>

lemma createGame_money:
  assumes "ledger_ok s" "\<forall>v \<in> set us. find_user v s \<noteq> None" "0 < bet" "\<forall>g \<in> set (tl_games s). g_id g < next_id s"
    "createGame cfg us WAGER (Some bet) None s = (Inr g', t)"
  shows "ledger_ok t \<and> g_pot g' = bet * int (length us) \<and> find_game (g_id g') t = Some g' \<and> map s_userId (g_seats g') = us
    \<and> (case g_instantWin g' of
         None \<Rightarrow> g_status g' = ACTIVE \<and> (\<forall>v. balance_of t v = balance_of s v)
       | Some (w, kind) \<Rightarrow> g_status g' = FINISHED \<and> w \<in> set us \<and> (\<forall>v. balance_of t v = balance_of s v + (if v = w then g_pot g' else 0)))
    \<and> coins t = coins s + (if g_status g' = ACTIVE then 0 else bet * int (length us))"
proof -
  let ?n = "length us"
  have n: "\<not> (?n < 2 \<or> 4 < ?n)" using assms(5) by (auto simp: createGame_def)
  then have "0 < int ?n" by linarith
  then have pos: "0 < bet * int ?n" using assms(3) by simp
  obtain hs s1 where dd: "draw_deal ?n s = (hs, s1)" by fastforce
  have s1: "hs = deal ?n (\<lambda>k. rand s (rand_pos s + k))" "users s1 = users s" "txs s1 = txs s" "next_id s1 = next_id s"
      "tl_games s1 = tl_games s"
    using dd by (auto simp: draw_deal_def)
  define g where "g = new_game (next_id s) us WAGER bet None hs"
  define s2 where "s2 = matched_all g us (s1\<lparr>next_id := Suc (next_id s), tl_games := tl_games s1 @ [g]\<rparr>)"
  have g: "g_status g = ACTIVE" "g_pot g = bet * int ?n" "g_id g = next_id s" "g_mode g = WAGER" "g_roomId g = None"
    "g_instantWin g = None" by (simp_all add: g_def new_game_def Let_def)
  have seats: "map s_userId (g_seats g) = us"
    by (simp add: g_def new_game_def Let_def new_seat_def comp_def map_nth)
  have s2: "users s2 = users s" "txs s2 = txs s" "next_id s2 = Suc (next_id s)" "tl_games s2 = tl_games s @ [g]"
    by (simp_all add: s2_def s1)
  have fresh: "g_id g \<notin> set (map g_id (tl_games s))" using assms(4) by (auto simp: g(3))
  have led: "ledger_ok s2" using ledger_ok_frame [OF assms(1) s2(1,2)] s2(3) by simp
  have c: "(Inr g', t) = (case findInstantWin hs of
      Some (k, kind) \<Rightarrow> (case finishInstantWin cfg g k (us ! k) kind s2 of (g', s) \<Rightarrow> (Inr g', s))
    | None \<Rightarrow> (Inr g, startTurnTimer (Hex (next_id s)) s2))"
    using assms(5) n dd by (simp add: createGame_def Let_def fresh_id_def s1(4) g_def [symmetric] s2_def [symmetric] bet_of_def
        split: option.splits prod.splits)
  show ?thesis
  proof (cases "findInstantWin hs")
    case None
    then have e: "g' = g" "t = startTurnTimer (Hex (next_id s)) s2" using c by simp_all
    have f: "users t = users s2" "txs t = txs s2" "next_id s2 \<le> next_id t" "tl_games t = tl_games s2"
      by (simp_all add: e startTurnTimer_def clearTimer_def Let_def)
    have "find_game (g_id g') t = Some g'" using find_appended [OF fresh] by (simp add: find_game_def f(4) s2(4) e(1))
    then show ?thesis using ledger_ok_frame [OF led f(1-3)] f(1) s2(1) coins_users [of t s] balance_users [of t s] g e(1) seats by simp
  next
    case (Some p)
    then obtain k kind where k: "findInstantWin hs = Some (k, kind)" by (cases p) simp
    have "k < length hs" using findInstantWin_from_SomeD [of 0 hs k kind] k by (simp add: findInstantWin_def)
    then have "us ! k \<in> set us" by (simp add: s1(1) deal_def Let_def)
    then have w: "us ! k \<in> set us" "find_user (us ! k) s2 \<noteq> None" using assms(2) by (simp_all add: find_user_def s2(1))
    have f: "finishInstantWin cfg g k (us ! k) kind s2 = (g', t)" using c k by (auto split: prod.splits)
    have p: "0 < g_pot g" using pos g(2) by simp
    note m = instant_money [OF led w(2) g(4) p g(5) f]
    have "find_game (g_id g') t = Some g'"
      unfolding find_game_def m(6) s2(4) using find_appended [OF fresh] m(5) by (simp add: find_updateOne_same)
    then show ?thesis using m(1-5,7-9) g(2) w(1) seats coins_users [of s2 s] balance_users [of s2 s] s2(1) by simp
  qed
qed

lemma collect_balance:
  fixes s :: "'a rooms_st_scheme"
  assumes "ledger_ok s" "settles (collectStake u a ref) s = (b, t)"
  shows "balance_of t v = balance_of s v - (if b \<and> v = u then a else 0)" "ledger_ok t" "same_accounts s t"
    "coins t = coins s - (if b then a else 0)" "b \<Longrightarrow> find_user u s \<noteq> None" "\<not> b \<Longrightarrow> t = s"
proof -
  obtain x where c: "collectStake u a ref s = (x, t)" "b \<longleftrightarrow> \<not> isl x"
    using assms(2) by (auto simp: settles_def split: prod.splits sum.splits)
  show "ledger_ok t" "same_accounts s t" "coins t = coins s - (if b then a else 0)" "b \<Longrightarrow> find_user u s \<noteq> None" "\<not> b \<Longrightarrow> t = s"
    using collectStake_rooms [OF assms(1) c(1)] c(2) by auto
  show "balance_of t v = balance_of s v - (if b \<and> v = u then a else 0)"
    using ledger_ok_users [OF assms(1)] c(1)
  proof (cases rule: collectStake_cases)
    case (ok tx s1)
    then show ?thesis using moved_balance [OF ok(2), of v] c(2) by simp
  qed (use c(2) in auto)
qed

text \<open>Either both stakes are taken, or every balance is what it was.\<close>

lemma collect_both_money:
  fixes s :: "'a rooms_st_scheme"
  assumes "ledger_ok s" "collect_both k u s = (x, t)" "ch_fromUserId k \<noteq> u" "0 < ch_betAmount k"
  shows "ledger_ok t \<and> same_accounts s t \<and> (\<forall>v. balance_of t v = balance_of s v - (if \<not> isl x \<and> v \<in> {ch_fromUserId k, u} then ch_betAmount k else 0))
    \<and> coins t = coins s - (if isl x then 0 else 2 * ch_betAmount k) \<and> (\<not> isl x \<longrightarrow> (\<forall>v \<in> {ch_fromUserId k, u}. find_user v s \<noteq> None))"
proof -
  let ?a = "ch_fromUserId k" and ?bet = "ch_betAmount k" and ?ref = "challenge_ref k"
  obtain b s1 where b: "settles (collectStake ?a ?bet ?ref) s = (b, s1)" by fastforce
  note one = collect_balance [OF assms(1) b]
  show ?thesis
  proof (cases b)
    case False
    then have "x = Inl (WsError ''Both players need enough coins for the bet'')" "t = s"
      using assms(2) b one(6) by (auto simp: collect_both_def refundMany_def)
    then show ?thesis using assms(1) by simp
  next
    case True
    obtain d s2 where d: "settles (collectStake u ?bet ?ref) s1 = (d, s2)" by fastforce
    note two = collect_balance [OF one(2) d]
    show ?thesis
    proof (cases d)
      case True
      then have "x = Inr ()" "t = s2" using assms(2) b d \<open>b\<close> by (auto simp: collect_both_def)
      then show ?thesis using True \<open>b\<close> one(1,3-5) two(1-5) assms(3) by simp
    next
      case False
      then have e: "x = Inl (WsError ''Both players need enough coins for the bet'')" "t = refundMany [?a] ?bet ?ref s1"
        using assms(2) b d \<open>b\<close> two(6) by (auto simp: collect_both_def)
      have acc: "\<forall>v \<in> set [?a]. find_user v s1 \<noteq> None" using one(3,5) \<open>b\<close> by simp
      have "balance_of t v = balance_of s v" for v
        using refundMany_balance [OF one(2) _ acc, of ?bet ?ref v] assms(4) one(1) \<open>b\<close> by (simp add: e(2))
      then show ?thesis using refundMany_effect [OF one(2) _ acc, of ?bet ?ref] assms(4) one(3,4) \<open>b\<close> e by simp
    qed
  qed
qed

text \<open>
  C18: Accepting a wager invitation to Tien Len between two users: when it fails, every balance is what it was;
  when it succeeds, the game stored under the identifier seats the two, its pot is two stakes, and each of the two,
  and nobody else, has one stake less. Only when a dealt hand decides the game at once the winner has the pot already.
\<close>

theorem wager_invite_takes_both_stakes:
  assumes "ledger_ok s" "tl_ok s" "ch_mode k = WAGER" "0 < ch_betAmount k" "ch_fromUserId k \<noteq> u" "tl_challenge_start cfg k u s = (x, t)"
  shows "case x of
      Inl e \<Rightarrow> (\<forall>v. balance_of t v = balance_of s v)
    | Inr gameId \<Rightarrow> \<exists>g. find_game gameId t = Some g \<and> map s_userId (g_seats g) = [ch_fromUserId k, u] \<and> g_pot g = 2 * ch_betAmount k
        \<and> (\<forall>v. balance_of t v = balance_of s v - (if v \<in> {ch_fromUserId k, u} then ch_betAmount k else 0)
             + (case g_instantWin g of Some (w, kind) \<Rightarrow> if v = w then g_pot g else 0 | None \<Rightarrow> 0))
        \<and> (case g_instantWin g of Some (w, kind) \<Rightarrow> w \<in> {ch_fromUserId k, u} \<and> g_status g = FINISHED | None \<Rightarrow> g_status g = ACTIVE)"
proof -
  obtain y s1 where c: "collect_both k u s = (y, s1)" by fastforce
  note m = collect_both_money [OF assms(1) c assms(5,4)]
  show ?thesis
  proof (cases y)
    case (Inl e)
    then have "x = Inl e" "t = s1" using assms(3,4,6) c by (auto simp: tl_challenge_start_def await_def)
    then show ?thesis using m Inl by simp
  next
    case (Inr unit)
    obtain z s2 where g: "createGame cfg [ch_fromUserId k, u] WAGER (Some (ch_betAmount k)) None s1 = (z, s2)" by fastforce
    have "\<not> isl z" using g by (auto simp: createGame_def Let_def split_beta split: option.splits)
    then obtain game where z: "z = Inr game" by (cases z) simp_all
    have x: "x = Inr (g_id game)" "t = s2" using assms(3,4,6) c Inr g z by (auto simp: tl_challenge_start_def await_def)
    have acc: "\<forall>v \<in> set [ch_fromUserId k, u]. find_user v s1 \<noteq> None" using m Inr by auto
    have "tl_ok s1" using tl_ok_lobby [OF collect_both_frame assms(2), of k u] c by simp
    then have old: "\<forall>g \<in> set (tl_games s1). g_id g < next_id s1" by (simp add: tl_ok_def)
    have "ledger_ok s1" using m by simp
    note money = createGame_money [OF this acc assms(4) old g [unfolded z]]
    show ?thesis unfolding x sum.case by (intro exI [of _ game]) (use money m Inr in \<open>auto split: option.splits\<close>)
  qed
qed

end
