(* ===== verification/BomberLogic.thy ===== *)
theory BomberLogic
  imports Prelude "HOL-Library.AList"
begin

text \<open>
  The rules of Bomberman, \<open>src/games/bomberman/bomberman.logic.ts\<close>: maps, movement with its
  collisions, bombs, chained explosions, power-ups, deaths and placements. Coordinates and speeds are
  exact rationals (the rounding of floating-point numbers is not modelled); random numbers come
  from a stream with a position in it. Two bombs are the same object when their identifiers are.
\<close>

section \<open>Data\<close>

datatype Tile = EMPTY | WALL | BRICK

datatype PowerType = BOMB | FLAME | SPEED

record BPlayer =
  b_userId :: oid
  b_seat :: nat
  b_x :: rat
  b_y :: rat
  b_alive :: bool
  b_maxBombs :: nat
  b_flame :: nat
  b_speed :: rat
  b_bombsOut :: nat
  b_dx :: int
  b_dy :: int
  b_diedAt :: "int option"
  b_standingBomb :: "(int \<times> int) option"

record Bomb =
  bo_id :: nat
  bo_ownerId :: oid
  bo_col :: int
  bo_row :: int
  bo_flame :: nat
  bo_fuseAt :: int

record Flame =
  fl_col :: int
  fl_row :: int
  fl_until :: int

record PowerUp =
  pu_col :: int
  pu_row :: int
  pu_type :: PowerType

record BombermanState =
  cols :: int
  rows :: int
  grid :: "Tile list"
  players :: "BPlayer list"
  bombs :: "Bomb list"
  flames :: "Flame list"
  powerups :: "PowerUp list"
  startedAt :: int
  finished :: bool
  deathOrder :: "nat list"

definition FUSE_MS :: int where "FUSE_MS = 2200"
definition FLAME_MS :: int where "FLAME_MS = 600"
definition PLAYER_RADIUS :: rat where "PLAYER_RADIUS = 34 / 100"
definition BASE_SPEED :: rat where "BASE_SPEED = 42 / 10"
definition SPEED_STEP :: rat where "SPEED_STEP = 9 / 10"
definition MAX_SPEED :: rat where "MAX_SPEED = 8"
definition START_BOMBS :: nat where "START_BOMBS = 1"
definition START_FLAME :: nat where "START_FLAME = 2"
definition MAX_BOMBS :: nat where "MAX_BOMBS = 8"
definition MAX_FLAME :: nat where "MAX_FLAME = 9"
definition POWERUP_DROP_CHANCE :: rat where "POWERUP_DROP_CHANCE = 42 / 100"

text \<open>\<open>Math.random\<close>: a stream and the position of the next number.\<close>

type_synonym rng = "(nat \<Rightarrow> rat) \<times> nat"

definition random_number :: "rng \<Rightarrow> rat \<times> rng" where
  "random_number q = (fst q (snd q), (fst q, Suc (snd q)))"

section \<open>Maps\<close>

definition spawnCorners :: "int \<Rightarrow> int \<Rightarrow> (int \<times> int) list" where
  "spawnCorners cs rs = [(1, 1), (cs - 2, rs - 2), (cs - 2, 1), (1, rs - 2)]"

definition tileAt :: "BombermanState \<Rightarrow> int \<Rightarrow> int \<Rightarrow> Tile" where
  "tileAt st col row =
     (if col < 0 \<or> row < 0 \<or> cols st \<le> col \<or> rows st \<le> row then WALL
      else grid st ! nat (row * cols st + col))"

record MapDef =
  md_id :: string
  md_cols :: int
  md_rows :: int
  md_brickDensity :: rat
  md_layout :: "string list option"

definition MAPS :: "MapDef list" where
  "MAPS =
    [\<lparr>md_id = ''classic'', md_cols = 13, md_rows = 11, md_brickDensity = 72 / 100, md_layout = None\<rparr>,
     \<lparr>md_id = ''arena'', md_cols = 15, md_rows = 13, md_brickDensity = 6 / 10, md_layout = None\<rparr>,
     \<lparr>md_id = ''cross'', md_cols = 13, md_rows = 11, md_brickDensity = 55 / 100, md_layout = Some
       [''#############'',
        ''#...........#'',
        ''#.#.#.#.#.#.#'',
        ''#...........#'',
        ''#.#.#.###.#.#'',
        ''#.....#.....#'',
        ''#.#.#.###.#.#'',
        ''#...........#'',
        ''#.#.#.#.#.#.#'',
        ''#...........#'',
        ''#############'']\<rparr>,
     \<lparr>md_id = ''maze'', md_cols = 15, md_rows = 13, md_brickDensity = 5 / 10, md_layout = Some
       [''###############'',
        ''#.....#.#.....#'',
        ''#.###.#.#.###.#'',
        ''#.#.......#.#.#'',
        ''#.#.##.##.#.#.#'',
        ''#.....#.#.....#'',
        ''##.##.#.#.##.##'',
        ''#.....#.#.....#'',
        ''#.#.##.##.#.#.#'',
        ''#.#.......#.#.#'',
        ''#.###.#.#.###.#'',
        ''#.....#.#.....#'',
        ''###############'']\<rparr>]"

definition getMap :: "string option \<Rightarrow> MapDef" where
  "getMap i = (case List.find (\<lambda>m. Some (md_id m) = i) MAPS of Some m \<Rightarrow> m | None \<Rightarrow> hd MAPS)"

definition isSpawnSafe :: "int \<Rightarrow> int \<Rightarrow> int \<Rightarrow> int \<Rightarrow> bool" where
  "isSpawnSafe col row cs rs \<longleftrightarrow> (\<exists>c \<in> set (spawnCorners cs rs). \<bar>fst c - col\<bar> + \<bar>snd c - row\<bar> \<le> 1)"

text \<open>The cells of rows and columns from \<open>a\<close> to \<open>b\<close>, in the order of the nested loops.\<close>

definition cells_of :: "int \<Rightarrow> int \<Rightarrow> int \<Rightarrow> int \<Rightarrow> (int \<times> int) list" where
  "cells_of r1 r2 c1 c2 = concat (map (\<lambda>r. map (Pair r) [c1..c2]) [r1..r2])"

text \<open>A brick with the given chance.\<close>

definition maybe_brick :: "rat \<Rightarrow> nat \<Rightarrow> Tile list \<times> rng \<Rightarrow> Tile list \<times> rng" where
  "maybe_brick p i gq =
     (let (x, q) = random_number (snd gq) in (if x < p then (fst gq)[i := BRICK] else fst gq, q))"

text \<open>A fixed layout: its walls, and bricks sprinkled on the empty cells off the spawn corners.\<close>

definition layout_tile :: "string list \<Rightarrow> int \<times> int \<Rightarrow> Tile" where
  "layout_tile layout rc =
     (let r = nat (fst rc); c = nat (snd rc);
          line = (if r < length layout then layout ! r else []);
          ch = (if c < length line then line ! c else CHR ''#'')
      in if ch = CHR ''#'' then WALL else EMPTY)"

definition sprinkle :: "MapDef \<Rightarrow> int \<times> int \<Rightarrow> Tile list \<times> rng \<Rightarrow> Tile list \<times> rng" where
  "sprinkle d rc gq =
     (let i = nat (fst rc * md_cols d + snd rc)
      in if fst gq ! i = EMPTY \<and> \<not> isSpawnSafe (snd rc) (fst rc) (md_cols d) (md_rows d)
         then maybe_brick (md_brickDensity d * (6 / 10)) i gq else gq)"

text \<open>The procedural map: border, pillars on even cells, bricks elsewhere.\<close>

definition classic_cell :: "MapDef \<Rightarrow> int \<times> int \<Rightarrow> Tile list \<times> rng \<Rightarrow> Tile list \<times> rng" where
  "classic_cell d rc gq =
     (let r = fst rc; c = snd rc; i = nat (r * md_cols d + c);
          border = (c = 0 \<or> r = 0 \<or> c = md_cols d - 1 \<or> r = md_rows d - 1);
          pillar = (c mod 2 = 0 \<and> r mod 2 = 0)
      in if border \<or> pillar then ((fst gq)[i := WALL], snd gq)
         else if \<not> isSpawnSafe c r (md_cols d) (md_rows d) then maybe_brick (md_brickDensity d) i gq
         else gq)"

definition build_grid :: "MapDef \<Rightarrow> rng \<Rightarrow> Tile list \<times> rng" where
  "build_grid d q =
     (let empty = replicate (nat (md_cols d * md_rows d)) EMPTY;
          all = cells_of 0 (md_rows d - 1) 0 (md_cols d - 1)
      in case md_layout d of
           Some layout \<Rightarrow>
             fold (sprinkle d) (cells_of 1 (md_rows d - 2) 1 (md_cols d - 2)) (map (layout_tile layout) all, q)
         | None \<Rightarrow> fold (classic_cell d) all (empty, q))"

definition spawn_player :: "int \<Rightarrow> int \<Rightarrow> oid \<Rightarrow> nat \<Rightarrow> BPlayer" where
  "spawn_player cs rs u seat =
     (let c = spawnCorners cs rs ! (seat mod 4)
      in \<lparr>b_userId = u, b_seat = seat, b_x = of_int (fst c), b_y = of_int (snd c), b_alive = True,
          b_maxBombs = START_BOMBS, b_flame = START_FLAME, b_speed = BASE_SPEED, b_bombsOut = 0,
          b_dx = 0, b_dy = 0, b_diedAt = None, b_standingBomb = None\<rparr>)"

definition createState :: "string \<Rightarrow> oid list \<Rightarrow> int \<Rightarrow> rng \<Rightarrow> BombermanState \<times> rng" where
  "createState mapId us now q =
     (let d = getMap (Some mapId); (g, q) = build_grid d q
      in (\<lparr>cols = md_cols d, rows = md_rows d, grid = g,
           players = map (\<lambda>k. spawn_player (md_cols d) (md_rows d) (us ! k) k) [0..<length us],
           bombs = [], flames = [], powerups = [], startedAt = now, finished = False, deathOrder = []\<rparr>, q))"

section \<open>Movement\<close>

definition bomb_at :: "BombermanState \<Rightarrow> int \<Rightarrow> int \<Rightarrow> Bomb option" where
  "bomb_at st col row = List.find (\<lambda>b. bo_col b = col \<and> bo_row b = row) (bombs st)"

definition blocked :: "BombermanState \<Rightarrow> int \<Rightarrow> int \<Rightarrow> BPlayer \<Rightarrow> bool" where
  "blocked st col row p =
     (if tileAt st col row = WALL \<or> tileAt st col row = BRICK then True
      else bomb_at st col row \<noteq> None \<and> b_standingBomb p \<noteq> Some (col, row))"

text \<open>The tiles the square of a player around a position overlaps.\<close>

definition touched :: "rat \<Rightarrow> rat \<Rightarrow> (int \<times> int) list" where
  "touched x y =
     concat (map (\<lambda>c. map (Pair c) [js_round (y - PLAYER_RADIUS)..js_round (y + PLAYER_RADIUS)])
       [js_round (x - PLAYER_RADIUS)..js_round (x + PLAYER_RADIUS)])"

definition collideAxis :: "BombermanState \<Rightarrow> BPlayer \<Rightarrow> rat \<Rightarrow> rat \<Rightarrow> rat \<times> rat" where
  "collideAxis st p nx ny =
     (if \<exists>t \<in> set (touched nx ny). blocked st (fst t) (snd t) p then (b_x p, b_y p) else (nx, ny))"

definition aabbOverlapsTile :: "BPlayer \<Rightarrow> int \<Rightarrow> int \<Rightarrow> bool" where
  "aabbOverlapsTile p col row \<longleftrightarrow>
     js_round (b_x p - PLAYER_RADIUS) \<le> col \<and> col \<le> js_round (b_x p + PLAYER_RADIUS)
     \<and> js_round (b_y p - PLAYER_RADIUS) \<le> row \<and> row \<le> js_round (b_y p + PLAYER_RADIUS)"

text \<open>The pull towards the middle of the corridor on one axis, no further than the step.\<close>

definition centering :: "rat \<Rightarrow> rat \<Rightarrow> rat" where
  "centering v dst =
     (let diff = of_int (js_round v) - v
      in if \<bar>diff\<bar> < 1 / 1000 then 0 else sgn diff * min dst \<bar>diff\<bar>)"

definition centerX :: "BombermanState \<Rightarrow> rat \<Rightarrow> BPlayer \<Rightarrow> BPlayer" where
  "centerX st dst p = (let step = centering (b_x p) dst in
     if step = 0 then p else p\<lparr>b_x := fst (collideAxis st p (b_x p + step) (b_y p))\<rparr>)"

definition centerY :: "BombermanState \<Rightarrow> rat \<Rightarrow> BPlayer \<Rightarrow> BPlayer" where
  "centerY st dst p = (let step = centering (b_y p) dst in
     if step = 0 then p else p\<lparr>b_y := snd (collideAxis st p (b_x p) (b_y p + step))\<rparr>)"

definition leave_bomb :: "BPlayer \<Rightarrow> BPlayer" where
  "leave_bomb p =
     (case b_standingBomb p of
        Some (c, r) \<Rightarrow> if aabbOverlapsTile p c r then p else p\<lparr>b_standingBomb := None\<rparr>
      | None \<Rightarrow> p)"

definition movePlayer :: "BombermanState \<Rightarrow> rat \<Rightarrow> BPlayer \<Rightarrow> BPlayer" where
  "movePlayer st dt p =
     (if \<not> b_alive p then p
      else if b_dx p = 0 \<and> b_dy p = 0 then p
      else
        let p = leave_bomb p;
            dst = b_speed p * dt;
            p = (if b_dx p \<noteq> 0
                 then centerY st dst (p\<lparr>b_x := fst (collideAxis st p (b_x p + of_int (b_dx p) * dst) (b_y p))\<rparr>)
                 else p)
        in if b_dy p \<noteq> 0
           then centerX st dst (p\<lparr>b_y := snd (collideAxis st p (b_x p) (b_y p + of_int (b_dy p) * dst))\<rparr>)
           else p)"

section \<open>Bombs\<close>

definition upd_player :: "nat \<Rightarrow> (BPlayer \<Rightarrow> BPlayer) \<Rightarrow> BombermanState \<Rightarrow> BombermanState" where
  "upd_player k f st = st\<lparr>players := (players st)[k := f (players st ! k)]\<rparr>"

text \<open>The bomb of player \<open>k\<close>, with a fresh identifier \<open>i\<close>.\<close>

definition placeBomb :: "nat \<Rightarrow> nat \<Rightarrow> int \<Rightarrow> BombermanState \<Rightarrow> Bomb option \<times> BombermanState" where
  "placeBomb i k now st =
     (let p = players st ! k; col = js_round (b_x p); row = js_round (b_y p)
      in if \<not> b_alive p then (None, st)
         else if b_maxBombs p \<le> b_bombsOut p then (None, st)
         else if tileAt st col row \<noteq> EMPTY then (None, st)
         else if bomb_at st col row \<noteq> None then (None, st)
         else
           let b = \<lparr>bo_id = i, bo_ownerId = b_userId p, bo_col = col, bo_row = row, bo_flame = b_flame p,
                    bo_fuseAt = now + FUSE_MS\<rparr>
           in (Some b, upd_player k (\<lambda>p. p\<lparr>b_bombsOut := b_bombsOut p + 1, b_standingBomb := Some (col, row)\<rparr>)
                         (st\<lparr>bombs := bombs st @ [b]\<rparr>)))"

text \<open>An explosion in progress: the world, the bombs detonated so far, and the bricks they destroyed.\<close>

record Brick =
  br_col :: int
  br_row :: int
  br_drop :: "PowerType option"

record Blast =
  world :: BombermanState
  detonated :: "Bomb list"
  destroyedBricks :: "Brick list"
  luck :: rng

definition randomPower :: "rng \<Rightarrow> PowerType \<times> rng" where
  "randomPower q =
     (let (r, q) = random_number q in (if r < 4 / 10 then BOMB else if r < 8 / 10 then FLAME else SPEED, q))"

text \<open>A flame on a cell, and a bomb there that has not gone off yet goes off by \<open>rec\<close>.\<close>

definition push_flame :: "int \<Rightarrow> int \<Rightarrow> int \<Rightarrow> Blast \<Rightarrow> Blast" where
  "push_flame now col row x =
     x\<lparr>world := (world x)\<lparr>flames := flames (world x) @ [\<lparr>fl_col = col, fl_row = row, fl_until = now + FLAME_MS\<rparr>]\<rparr>\<rparr>"

definition chained :: "Bomb \<Rightarrow> int \<Rightarrow> int \<Rightarrow> Blast \<Rightarrow> Bomb option" where
  "chained b col row x =
     List.find (\<lambda>c. c \<noteq> b \<and> bo_col c = col \<and> bo_row c = row \<and> c \<notin> set (detonated x)) (bombs (world x))"

definition addFlame :: "(Bomb \<Rightarrow> Blast \<Rightarrow> Blast) \<Rightarrow> int \<Rightarrow> Bomb \<Rightarrow> int \<Rightarrow> int \<Rightarrow> Blast \<Rightarrow> Blast" where
  "addFlame rec now b col row x =
     (let x = push_flame now col row x
      in case chained b col row x of None \<Rightarrow> x | Some c \<Rightarrow> rec c x)"

definition break_brick :: "int \<Rightarrow> int \<Rightarrow> Blast \<Rightarrow> Blast" where
  "break_brick c r x =
     (let (v, q) = random_number (luck x);
          (drop, q) = (if v < POWERUP_DROP_CHANCE then (let (t, q) = randomPower q in (Some t, q)) else (None, q));
          st = world x;
          st = st\<lparr>grid := (grid st)[nat (r * cols st + c) := EMPTY]\<rparr>;
          st = (case drop of Some t \<Rightarrow> st\<lparr>powerups := powerups st @ [\<lparr>pu_col = c, pu_row = r, pu_type = t\<rparr>]\<rparr>
                | None \<Rightarrow> st)
      in x\<lparr>world := st, destroyedBricks := destroyedBricks x @ [\<lparr>br_col = c, br_row = r, br_drop = drop\<rparr>],
           luck := q\<rparr>)"

text \<open>One arm of the cross: it stops before a wall and at the first brick.\<close>

fun arm :: "(Bomb \<Rightarrow> Blast \<Rightarrow> Blast) \<Rightarrow> int \<Rightarrow> Bomb \<Rightarrow> (int \<times> int) list \<Rightarrow> Blast \<Rightarrow> Blast" where
  "arm rec now b [] x = x"
| "arm rec now b ((c, r) # cells) x =
     (case tileAt (world x) c r of
        WALL \<Rightarrow> x
      | BRICK \<Rightarrow> break_brick c r x
      | EMPTY \<Rightarrow> arm rec now b cells (addFlame rec now b c r x))"

definition arm_cells :: "Bomb \<Rightarrow> int \<times> int \<Rightarrow> (int \<times> int) list" where
  "arm_cells b d = map (\<lambda>k. (bo_col b + fst d * k, bo_row b + snd d * k)) [1..int (bo_flame b)]"

definition free_owner :: "Bomb \<Rightarrow> BombermanState \<Rightarrow> BombermanState" where
  "free_owner b st =
     st\<lparr>players := updateOne (\<lambda>p. b_userId p = bo_ownerId b) (\<lambda>p. p\<lparr>b_bombsOut := b_bombsOut p - 1\<rparr>) (players st)\<rparr>"

definition explode :: "(Bomb \<Rightarrow> Blast \<Rightarrow> Blast) \<Rightarrow> int \<Rightarrow> Bomb \<Rightarrow> Blast \<Rightarrow> Blast" where
  "explode rec now b x =
     (if b \<in> set (detonated x) then x
      else
        let x = x\<lparr>detonated := detonated x @ [b], world := free_owner b (world x)\<rparr>;
            x = addFlame rec now b (bo_col b) (bo_row b) x
        in fold (\<lambda>d. arm rec now b (arm_cells b d)) [(1, 0), (- 1, 0), (0, 1), (0, - 1)] x)"

text \<open>The recursion of the chain, with fuel: each level detonates a further bomb.\<close>

primrec detonate :: "nat \<Rightarrow> int \<Rightarrow> Bomb \<Rightarrow> Blast \<Rightarrow> Blast" where
  "detonate 0 now b x = x"
| "detonate (Suc n) now b x = explode (detonate n now) now b x"

section \<open>The world of a tick\<close>

definition applyPower :: "PowerType \<Rightarrow> BPlayer \<Rightarrow> BPlayer" where
  "applyPower t p =
     (case t of
        BOMB \<Rightarrow> p\<lparr>b_maxBombs := min MAX_BOMBS (b_maxBombs p + 1)\<rparr>
      | FLAME \<Rightarrow> p\<lparr>b_flame := min MAX_FLAME (b_flame p + 1)\<rparr>
      | SPEED \<Rightarrow> p\<lparr>b_speed := min MAX_SPEED (b_speed p + SPEED_STEP)\<rparr>)"

definition explode_due :: "int \<Rightarrow> BombermanState \<Rightarrow> rng \<Rightarrow> Blast option \<times> BombermanState \<times> rng" where
  "explode_due now st q =
     (let due = filter (\<lambda>b. bo_fuseAt b \<le> now) (bombs st)
      in if due = [] then (None, st, q)
         else
           let x = fold (detonate (length (bombs st)) now) due
                     \<lparr>world = st, detonated = [], destroyedBricks = [], luck = q\<rparr>;
               w = world x
           in (Some x, w\<lparr>bombs := filter (\<lambda>b. b \<notin> set (detonated x)) (bombs w)\<rparr>, luck x))"

definition expire_flames :: "int \<Rightarrow> BombermanState \<Rightarrow> BombermanState" where
  "expire_flames now st = st\<lparr>flames := filter (\<lambda>f. now < fl_until f) (flames st)\<rparr>"

definition on_tile :: "BPlayer \<Rightarrow> int \<Rightarrow> int \<Rightarrow> bool" where
  "on_tile p c r \<longleftrightarrow> js_round (b_x p) = c \<and> js_round (b_y p) = r"

definition pickup :: "nat \<Rightarrow> (nat \<times> PowerType) list \<times> BombermanState \<Rightarrow> (nat \<times> PowerType) list \<times> BombermanState" where
  "pickup k ps =
     (let st = snd ps; p = players st ! k; here = (\<lambda>u. on_tile p (pu_col u) (pu_row u))
      in if \<not> b_alive p then ps
         else case List.find here (powerups st) of
           None \<Rightarrow> ps
         | Some u \<Rightarrow> (fst ps @ [(b_seat p, pu_type u)],
             upd_player k (applyPower (pu_type u)) (st\<lparr>powerups := deleteOne here (powerups st)\<rparr>)))"

definition burn :: "int \<Rightarrow> nat \<Rightarrow> nat list \<times> BombermanState \<Rightarrow> nat list \<times> BombermanState" where
  "burn now k ds =
     (let st = snd ds; p = players st ! k
      in if \<not> b_alive p then ds
         else if \<exists>f \<in> set (flames st). on_tile p (fl_col f) (fl_row f)
         then (fst ds @ [b_seat p],
               (upd_player k (\<lambda>p. p\<lparr>b_alive := False, b_diedAt := Some now\<rparr>) st)
                 \<lparr>deathOrder := (if b_seat p \<in> set (deathOrder st) then deathOrder st else deathOrder st @ [b_seat p])\<rparr>)
         else ds)"

record TickResult =
  tk_explosion :: "Blast option"
  tk_pickups :: "(nat \<times> PowerType) list"
  tk_deaths :: "nat list"

definition tickWorld :: "int \<Rightarrow> BombermanState \<Rightarrow> rng \<Rightarrow> TickResult \<times> BombermanState \<times> rng" where
  "tickWorld now st q =
     (let (ex, st, q) = explode_due now st q;
          st = expire_flames now st;
          (ups, st) = fold pickup [0..<length (players st)] ([], st);
          (dead, st) = fold (burn now) [0..<length (players st)] ([], st)
      in (\<lparr>tk_explosion = ex, tk_pickups = ups, tk_deaths = dead\<rparr>, st, q))"

definition aliveCount :: "BombermanState \<Rightarrow> nat" where
  "aliveCount st = length (filter b_alive (players st))"

text \<open>Seats from best to worst; a seat without a place gets the last one.\<close>

definition place_order :: "BombermanState \<Rightarrow> nat list" where
  "place_order st = map b_seat (filter b_alive (players st)) @ rev (deathOrder st)"

definition placements :: "BombermanState \<Rightarrow> (nat \<times> nat) list" where
  "placements st =
     foldl (\<lambda>m p. if b_seat p \<in> fst ` set m then m else AList.update (b_seat p) (length (players st)) m)
       (foldl (\<lambda>m i. AList.update (place_order st ! i) (i + 1) m) [] [0..<length (place_order st)]) (players st)"

end
