(* ===== verification/BomberGame.thy ===== *)
theory BomberGame
  imports BomberLogic GameMoney Stores
begin

text \<open>
  The service of \<open>src/games/bomberman/bomberman.service.ts\<close>: matches live in memory, a tick moves the
  players and the world and ends a match that is decided or out of time, and only the result is stored.
  The interval of a match and the later deletion of a finished one are entries of the state; firing them is
  a call of \<open>tick\<close> and of \<open>forget\<close>. Live matches are keyed by the string of an identifier, so only its
  canonical spelling finds them.
\<close>

section \<open>State\<close>

datatype BombermanStatus = ACTIVE | FINISHED | ABORTED

record BombermanGame =
  bg_id :: oid
  bg_players :: "oid list"
  bg_mapId :: string
  bg_mode :: GameMode
  bg_betAmount :: int
  bg_pot :: int
  bg_roomId :: "oid option"
  bg_status :: BombermanStatus
  bg_winner :: "oid option"
  bg_placements :: "(oid \<times> nat) list"
  bg_rankingUserIds :: "oid list"
  bg_rpChange :: "(oid \<times> int) list option"
  bg_coinChange :: "(oid \<times> int) list option"
  bg_endedAt :: "int option"

record LiveMatch =
  lm_gameId :: oid
  lm_mode :: GameMode
  lm_betAmount :: int
  lm_pot :: int
  lm_roomId :: "oid option"
  lm_mapId :: string
  lm_state :: BombermanState
  lm_loop :: bool
  lm_lastTick :: int
  lm_finished :: bool

record PlayerSnapshot =
  ps_seat :: nat
  ps_userId :: oid
  ps_x :: rat
  ps_y :: rat
  ps_alive :: bool
  ps_dx :: int
  ps_dy :: int
  ps_bombs :: nat
  ps_flame :: nat
  ps_speedTiles :: rat

record Snapshot =
  sn_t :: int
  sn_players :: "PlayerSnapshot list"
  sn_bombs :: "(int \<times> int \<times> oid \<times> int) list"
  sn_flames :: "(int \<times> int) list"
  sn_powerups :: "PowerUp list"

record MatchView =
  mv_id :: oid
  mv_mapId :: string
  mv_cols :: int
  mv_rows :: int
  mv_grid :: "Tile list"
  mv_mode :: GameMode
  mv_betAmount :: int
  mv_pot :: int
  mv_roomId :: "oid option"
  mv_startedAt :: int
  mv_players :: "(nat \<times> oid \<times> UserCard option \<times> int \<times> int) list"

record EndView =
  ev_id :: oid
  ev_mode :: GameMode
  ev_pot :: int
  ev_winner :: "oid option"
  ev_placements :: "(oid \<times> nat) list"
  ev_ranking :: "(oid \<times> UserCard option \<times> nat option) list"
  ev_rpChange :: "(oid \<times> int) list option"
  ev_coinChange :: "(oid \<times> int) list option"

datatype bm_event =
    Bm_matched MatchView
  | Bm_bomb int int oid int
  | Bm_explode "(int \<times> int) list" "Brick list"
  | Bm_pickup nat PowerType
  | Bm_death nat
  | Bm_state Snapshot
  | Bm_end EndView

record bm_st = rooms_st +
  bm_games :: "BombermanGame list"
  bm_matches :: "LiveMatch list"
  bm_forget :: "oid \<rightharpoonup> int"
  bm_seq :: nat
  bm_log :: "(target \<times> bm_event) list"

definition ROUND_LIMIT_MS :: int where "ROUND_LIMIT_MS = 3 * 60 * 1000"

definition RP_SPREAD :: rat where "RP_SPREAD = 28"

definition find_match :: "oid \<Rightarrow> 'a bm_st_scheme \<Rightarrow> LiveMatch option" where
  "find_match i s = List.find (\<lambda>m. lm_gameId m = i) (bm_matches s)"

definition save_match :: "LiveMatch \<Rightarrow> 'a bm_st_scheme \<Rightarrow> 'a bm_st_scheme" where
  "save_match m s = s\<lparr>bm_matches := updateOne (\<lambda>x. lm_gameId x = lm_gameId m) (\<lambda>_. m) (bm_matches s)\<rparr>"

interpretation bm: documents lm_gameId bm_matches next_id save_match find_match
  by unfold_locales (simp_all add: save_match_def find_match_def)

text \<open>\<open>this.matches.get(gameId)\<close>: the key is the string \<open>toString\<close> prints.\<close>

definition get_match :: "raw_id \<Rightarrow> 'a bm_st_scheme \<Rightarrow> LiveMatch option" where
  "get_match r s = (case r of Hex i \<Rightarrow> find_match i s | _ \<Rightarrow> None)"

definition bm_emit :: "target \<Rightarrow> bm_event \<Rightarrow> 'a bm_st_scheme \<Rightarrow> 'a bm_st_scheme" where
  "bm_emit t e s = s\<lparr>bm_log := bm_log s @ [(t, e)]\<rparr>"

definition broadcast :: "oid \<Rightarrow> bm_event \<Rightarrow> 'a bm_st_scheme \<Rightarrow> 'a bm_st_scheme" where
  "broadcast i e s = bm_emit (GameRoomOf (Hex i)) e s"

text \<open>The random numbers of the environment, as the rules of the game draw them.\<close>

definition luck_of :: "'a env_st_scheme \<Rightarrow> rng" where
  "luck_of s = (rand s, rand_pos s)"

section \<open>Views\<close>

definition round2 :: "rat \<Rightarrow> rat" where
  "round2 x = of_int (js_round (x * 100)) / 100"

definition snapshot :: "LiveMatch \<Rightarrow> int \<Rightarrow> Snapshot" where
  "snapshot m now =
     (let st = lm_state m in
      \<lparr>sn_t = now,
       sn_players = map (\<lambda>p. \<lparr>ps_seat = b_seat p, ps_userId = b_userId p, ps_x = round2 (b_x p), ps_y = round2 (b_y p),
         ps_alive = b_alive p, ps_dx = b_dx p, ps_dy = b_dy p, ps_bombs = b_maxBombs p, ps_flame = b_flame p,
         ps_speedTiles = round2 (b_speed p)\<rparr>) (players st),
       sn_bombs = map (\<lambda>b. (bo_col b, bo_row b, bo_ownerId b, max 0 (bo_fuseAt b - now))) (bombs st),
       sn_flames = map (\<lambda>f. (fl_col f, fl_row f)) (flames st),
       sn_powerups = powerups st\<rparr>)"

definition matchedView :: "LiveMatch \<Rightarrow> 'a env_st_scheme \<Rightarrow> MatchView" where
  "matchedView m s =
     (let st = lm_state m; cards = getCards (map (\<lambda>p. Hex (b_userId p)) (players st)) s in
      \<lparr>mv_id = lm_gameId m, mv_mapId = lm_mapId m, mv_cols = cols st, mv_rows = rows st, mv_grid = grid st,
       mv_mode = lm_mode m, mv_betAmount = lm_betAmount m, mv_pot = lm_pot m, mv_roomId = lm_roomId m,
       mv_startedAt = startedAt st,
       mv_players = map (\<lambda>p. (b_seat p, b_userId p, map_of cards (b_userId p), js_round (b_x p), js_round (b_y p)))
         (players st)\<rparr>)"

definition liveView :: "raw_id \<Rightarrow> 'a bm_st_scheme \<Rightarrow> (MatchView \<times> Snapshot) option" where
  "liveView r s = map_option (\<lambda>m. (matchedView m s, snapshot m (clock s))) (get_match r s)"

section \<open>Creation\<close>

record BombermanOptions =
  bp_mode :: "GameMode option"
  bp_betAmount :: "int option"
  bp_roomId :: "oid option"
  bp_mapId :: "string option"

definition match_mode :: "BombermanOptions \<Rightarrow> GameMode" where
  "match_mode opts = (case bp_mode opts of Some m \<Rightarrow> m | None \<Rightarrow> RANKED)"

definition match_bet :: "BombermanOptions \<Rightarrow> int" where
  "match_bet opts =
     (if match_mode opts = WAGER then (case bp_betAmount opts of Some b \<Rightarrow> b | None \<Rightarrow> 0) else 0)"

definition new_record :: "oid \<Rightarrow> oid list \<Rightarrow> BombermanOptions \<Rightarrow> BombermanGame" where
  "new_record i us opts =
     \<lparr>bg_id = i, bg_players = us, bg_mapId = md_id (getMap (bp_mapId opts)), bg_mode = match_mode opts,
      bg_betAmount = match_bet opts, bg_pot = match_bet opts * int (length us), bg_roomId = bp_roomId opts,
      bg_status = ACTIVE, bg_winner = None, bg_placements = [], bg_rankingUserIds = [], bg_rpChange = None,
      bg_coinChange = None, bg_endedAt = None\<rparr>"

definition new_match :: "oid \<Rightarrow> oid list \<Rightarrow> BombermanOptions \<Rightarrow> BombermanState \<Rightarrow> int \<Rightarrow> LiveMatch" where
  "new_match i us opts st now =
     \<lparr>lm_gameId = i, lm_mode = match_mode opts, lm_betAmount = match_bet opts,
      lm_pot = match_bet opts * int (length us), lm_roomId = bp_roomId opts, lm_mapId = md_id (getMap (bp_mapId opts)),
      lm_state = st, lm_loop = True, lm_lastTick = now, lm_finished = False\<rparr>"

definition createGame :: "oid list \<Rightarrow> BombermanOptions \<Rightarrow> 'a bm_st_scheme \<Rightarrow> (BombermanGame, 'a bm_st_scheme) outcome" where
  "createGame us opts s =
     (if length us < 2 \<or> 4 < length us then throw (BadRequest ''Bomberman requires 2-4 players'') s
      else
        let (i, s) = fresh_id s;
            doc = new_record i us opts;
            (st, q) = createState (bg_mapId doc) us (clock s) (luck_of s);
            m = new_match i us opts st (clock s);
            s = s\<lparr>rand_pos := snd q, bm_games := bm_games s @ [doc], bm_matches := bm_matches s @ [m]\<rparr>;
            view = matchedView m s
        in return doc (foldl (\<lambda>s u. bm_emit (GameUser u) (Bm_matched view) s) s us))"

definition launchFromRoom :: "GameRoom \<Rightarrow> string option \<Rightarrow> 'a bm_st_scheme \<Rightarrow> (BombermanGame, 'a bm_st_scheme) outcome" where
  "launchFromRoom room mapId =
     await (createGame (map rm_userId (r_members room))
        \<lparr>bp_mode = Some (r_mode room), bp_betAmount = Some (r_betAmount room), bp_roomId = Some (r_id room), bp_mapId = mapId\<rparr>)
       (\<lambda>doc. await (markInProgress (Hex (r_id room)) (bg_id doc)) (\<lambda>_. return doc))"

section \<open>Input\<close>

text \<open>The match a player takes part in and the player's index, while it is not finished.\<close>

definition seat_in :: "LiveMatch \<Rightarrow> oid \<Rightarrow> nat option" where
  "seat_in m u = List.find (\<lambda>k. b_userId (players (lm_state m) ! k) = u) [0..<length (players (lm_state m))]"

definition playing :: "raw_id \<Rightarrow> oid \<Rightarrow> 'a bm_st_scheme \<Rightarrow> (LiveMatch \<times> nat) option" where
  "playing r u s =
     (case get_match r s of
        None \<Rightarrow> None
      | Some m \<Rightarrow> if lm_finished m then None else map_option (Pair m) (seat_in m u))"

definition with_state :: "LiveMatch \<Rightarrow> BombermanState \<Rightarrow> LiveMatch" where
  "with_state m st = m\<lparr>lm_state := st\<rparr>"

definition clamp1 :: "rat \<Rightarrow> int" where
  "clamp1 d = max (- 1) (min 1 (js_round d))"

definition setInput :: "raw_id \<Rightarrow> oid \<Rightarrow> rat \<Rightarrow> rat \<Rightarrow> 'a bm_st_scheme \<Rightarrow> 'a bm_st_scheme" where
  "setInput r u dx dy s =
     (case playing r u s of
        None \<Rightarrow> s
      | Some (m, k) \<Rightarrow>
          if \<not> b_alive (players (lm_state m) ! k) then s
          else save_match (with_state m
                 (upd_player k (\<lambda>p. p\<lparr>b_dx := clamp1 dx, b_dy := clamp1 dy\<rparr>) (lm_state m))) s)"

definition dropBomb :: "raw_id \<Rightarrow> oid \<Rightarrow> 'a bm_st_scheme \<Rightarrow> 'a bm_st_scheme" where
  "dropBomb r u s =
     (case playing r u s of
        None \<Rightarrow> s
      | Some (m, k) \<Rightarrow>
          (case placeBomb (bm_seq s) k (clock s) (lm_state m) of
             (None, _) \<Rightarrow> s
           | (Some b, st) \<Rightarrow>
               broadcast (lm_gameId m) (Bm_bomb (bo_col b) (bo_row b) (bo_ownerId b) (bo_fuseAt b - clock s))
                 (save_match (with_state m st) (s\<lparr>bm_seq := Suc (bm_seq s)\<rparr>))))"

text \<open>The death of a player that leaves.\<close>

definition drop_dead :: "int \<Rightarrow> nat \<Rightarrow> BombermanState \<Rightarrow> BombermanState" where
  "drop_dead now k st =
     (upd_player k (\<lambda>p. p\<lparr>b_alive := False, b_diedAt := Some now\<rparr>) st)
       \<lparr>deathOrder := (if b_seat (players st ! k) \<in> set (deathOrder st) then deathOrder st
                       else deathOrder st @ [b_seat (players st ! k)])\<rparr>"

definition killPlayer :: "raw_id \<Rightarrow> oid \<Rightarrow> 'a bm_st_scheme \<Rightarrow> 'a bm_st_scheme" where
  "killPlayer r u s =
     (case playing r u s of
        None \<Rightarrow> s
      | Some (m, k) \<Rightarrow>
          if \<not> b_alive (players (lm_state m) ! k) then s
          else save_match (with_state m (drop_dead (clock s) k (lm_state m))) s)"

section \<open>The end of a match\<close>

text \<open>\<open>ranking[0]\<close>: nothing for an empty list.\<close>

fun hd_option :: "'x list \<Rightarrow> 'x option" where
  "hd_option [] = None"
| "hd_option (x # xs) = Some x"

text \<open>Seats by place, and the users on them.\<close>

definition seat_user :: "BombermanState \<Rightarrow> nat \<Rightarrow> oid option" where
  "seat_user st k = map_option b_userId (List.find (\<lambda>p. b_seat p = k) (rev (players st)))"

definition ranking_of :: "BombermanState \<Rightarrow> oid list" where
  "ranking_of st = List.map_filter (\<lambda>e. seat_user st (fst e)) (sort_key snd (placements st))"

definition placementsByUser :: "BombermanState \<Rightarrow> (oid \<times> nat) list" where
  "placementsByUser st =
     foldl (\<lambda>m e. case seat_user st (fst e) of Some u \<Rightarrow> AList.update u (snd e) m | None \<Rightarrow> m) [] (placements st)"

text \<open>The points for a place among \<open>n\<close>: from the whole spread for the first to its opposite for the last.\<close>

definition place_points :: "nat \<Rightarrow> nat \<Rightarrow> int" where
  "place_points n place =
     js_round (RP_SPREAD * (if 1 < n then of_int (int n - 2 * int place + 1) / of_int (int n - 1) else 0))"

definition match_ref :: "LiveMatch \<Rightarrow> string" where
  "match_ref m = ''bomberman:'' @ oid_str (lm_gameId m)"

definition match_rewards :: "LiveMatch \<Rightarrow> 'a level_st_scheme
    \<Rightarrow> (oid \<times> int) list option \<times> (oid \<times> int) list option \<times> 'a level_st_scheme" where
  "match_rewards m s =
     (let st = lm_state m; n = length (players st); w = hd_option (ranking_of st) in
      if lm_mode m = RANKED then
        let rp = map (\<lambda>e. (fst e, place_points n (snd e))) (placementsByUser st)
        in (Some rp, None, foldl (\<lambda>s e. snd (addRankPoints (fst e) (snd e) (Some ''bomberman'') s)) s rp)
      else if lm_mode m = WAGER \<and> lm_pot m > 0 then
        let coin = foldl (\<lambda>c p. AList.update (b_userId p) (- lm_betAmount m) c) [] (players st)
        in (case w of
              None \<Rightarrow> (None, Some coin, s)
            | Some u \<Rightarrow> (None, Some (AList.update u (lm_pot m - lm_betAmount m) coin),
                best_effort (payout u (lm_pot m) (match_ref m)) s))
      else (None, None, s))"

definition result_doc :: "LiveMatch \<Rightarrow> (oid \<times> int) list option \<Rightarrow> (oid \<times> int) list option \<Rightarrow> int
    \<Rightarrow> BombermanGame \<Rightarrow> BombermanGame" where
  "result_doc m rp coin now d =
     d\<lparr>bg_status := FINISHED, bg_winner := hd_option (ranking_of (lm_state m)),
       bg_placements := placementsByUser (lm_state m), bg_rankingUserIds := ranking_of (lm_state m),
       bg_rpChange := rp, bg_coinChange := coin, bg_endedAt := Some now\<rparr>"

definition end_view :: "LiveMatch \<Rightarrow> (oid \<times> int) list option \<Rightarrow> (oid \<times> int) list option \<Rightarrow> 'a env_st_scheme \<Rightarrow> EndView" where
  "end_view m rp coin s =
     (let st = lm_state m; cards = getCards (map (\<lambda>p. Hex (b_userId p)) (players st)) s in
      \<lparr>ev_id = lm_gameId m, ev_mode = lm_mode m, ev_pot = lm_pot m, ev_winner = hd_option (ranking_of st),
       ev_placements = placementsByUser st,
       ev_ranking = map (\<lambda>u. (u, map_of cards u, map_of (placementsByUser st) u)) (ranking_of st),
       ev_rpChange = rp, ev_coinChange = coin\<rparr>)"

definition finish :: "oid \<Rightarrow> 'a bm_st_scheme \<Rightarrow> 'a bm_st_scheme" where
  "finish i s =
     (case find_match i s of
        None \<Rightarrow> s
      | Some m \<Rightarrow>
          if lm_finished m then s
          else
            let m = m\<lparr>lm_finished := True, lm_loop := False\<rparr>;
                s = save_match m s;
                (rp, coin, s) = match_rewards m s;
                s = s\<lparr>bm_games := updateOne (\<lambda>d. bg_id d = i) (result_doc m rp coin (clock s)) (bm_games s)\<rparr>;
                s = broadcast i (Bm_end (end_view m rp coin s)) s;
                s = (case lm_roomId m of Some r \<Rightarrow> close_room r s | None \<Rightarrow> s)
            in s\<lparr>bm_forget := (bm_forget s)(i \<mapsto> clock s + 15000)\<rparr>)"

definition forget :: "oid \<Rightarrow> 'a bm_st_scheme \<Rightarrow> 'a bm_st_scheme" where
  "forget i s = s\<lparr>bm_matches := filter (\<lambda>m. lm_gameId m \<noteq> i) (bm_matches s), bm_forget := (bm_forget s)(i := None)\<rparr>"

section \<open>Ticks\<close>

definition move_all :: "rat \<Rightarrow> BombermanState \<Rightarrow> BombermanState" where
  "move_all dt st = fold (\<lambda>k st. upd_player k (movePlayer st dt) st) [0..<length (players st)] st"

definition tick_dt :: "LiveMatch \<Rightarrow> int \<Rightarrow> rat" where
  "tick_dt m now = min (1 / 10) (of_int (now - lm_lastTick m) / 1000)"

definition announce :: "oid \<Rightarrow> BombermanState \<Rightarrow> TickResult \<Rightarrow> 'a bm_st_scheme \<Rightarrow> 'a bm_st_scheme" where
  "announce i st res s =
     (let s = (case tk_explosion res of
                 None \<Rightarrow> s
               | Some x \<Rightarrow> if detonated x = [] then s
                   else broadcast i (Bm_explode (map (\<lambda>f. (fl_col f, fl_row f)) (flames st)) (destroyedBricks x)) s);
          s = foldl (\<lambda>s e. broadcast i (Bm_pickup (fst e) (snd e)) s) s (tk_pickups res)
      in foldl (\<lambda>s k. broadcast i (Bm_death k) s) s (tk_deaths res))"

definition is_over :: "BombermanState \<Rightarrow> int \<Rightarrow> bool" where
  "is_over st now \<longleftrightarrow> aliveCount st \<le> 1 \<or> now - startedAt st > ROUND_LIMIT_MS"

definition tick :: "oid \<Rightarrow> 'a bm_st_scheme \<Rightarrow> 'a bm_st_scheme" where
  "tick i s =
     (case find_match i s of
        None \<Rightarrow> s
      | Some m \<Rightarrow>
          if lm_finished m then s
          else
            let now = clock s;
                (res, st, q) = tickWorld now (move_all (tick_dt m now) (lm_state m)) (luck_of s);
                m = m\<lparr>lm_lastTick := now, lm_state := st\<rparr>;
                s = announce i st res (save_match m (s\<lparr>rand_pos := snd q\<rparr>))
            in if is_over st now then finish i s
               else broadcast i (Bm_state (snapshot m now)) s)"

section \<open>Lookups\<close>

definition bm_active :: "oid \<Rightarrow> 'a bm_st_scheme \<Rightarrow> (MatchView \<times> Snapshot) option" where
  "bm_active u s =
     (case List.find (\<lambda>m. \<not> lm_finished m \<and> u \<in> b_userId ` set (players (lm_state m))) (bm_matches s) of
        None \<Rightarrow> None | Some m \<Rightarrow> liveView (Hex (lm_gameId m)) s)"

definition bm_history :: "oid \<Rightarrow> nat \<Rightarrow> 'a bm_st_scheme \<Rightarrow> (BombermanGame \<times> (oid \<times> UserCard option \<times> nat option) list) list" where
  "bm_history u l s =
     (let games = take (min l 50) (rev (filter (\<lambda>g. bg_status g = FINISHED \<and> u \<in> set (bg_players g)) (bm_games s)));
          cards = getCards (map Hex (remdups (concat (map bg_players games)))) s
      in map (\<lambda>g. (g, map (\<lambda>p. (p, map_of cards p, map_of (bg_placements g) p)) (bg_players g))) games)"

end
