(* ===== verification/BomberGateway.thy ===== *)
theory BomberGateway
  imports Sockets BomberGame
begin

text \<open>
  \<open>src/games/bomberman/bomberman.gateway.ts\<close>: the handlers of the namespace \<open>/ws-bomberman\<close>, one
  definition per message. Each runs after the guard \<open>canActivate\<close> of its client. The players of a match are
  seated in the order \<open>sort(() => Math.random() - 0.5)\<close> leaves them in; the language says of that order
  only that it is some order of the same players, so the order is a parameter \<open>shuffle\<close>.
\<close>

type_synonym bm_counts = "(nat \<times> nat) list \<times> (nat \<times> (oid \<times> int \<times> sender) list) list"

text \<open>The gateway also remembers the map chosen for a room, under the name of the room.\<close>

record ('s, 'q, 'c) bm_gateway = "('s, 'q, 'c) gateway" +
  roomMaps :: "raw_id \<rightharpoonup> string"

type_synonym 'r bm_gw = "('r bm_st_scheme, BombermanQueue, bm_counts) bm_gateway"

section \<open>Lobby and queue\<close>

definition bm_card_of :: "(oid \<times> UserCard) list \<Rightarrow> oid \<Rightarrow> sender" where
  "bm_card_of cards u = (case map_of cards u of Some c \<Rightarrow> Inl c | None \<Rightarrow> Inr \<lparr>au_id = u, au_username = ''unknown''\<rparr>)"

definition bm_queuedPlayers :: "'r bm_gw \<Rightarrow> (nat \<times> (oid \<times> int \<times> sender) list) list" where
  "bm_queuedPlayers g =
     (let bySize = bq_listBySize (gw_queue g);
          cards = getCards (map Hex (remdups (concat (map (map fst \<circ> snd) bySize)))) (gw_service g)
      in map (\<lambda>(n, us). (n, map (\<lambda>(u, rp). (u, rp, bm_card_of cards u)) us)) bySize)"

definition bm_counts :: "'r bm_gw \<Rightarrow> bm_counts" where
  "bm_counts g = (bq_counts (gw_queue g), bm_queuedPlayers g)"

definition broadcastCounts :: "'r bm_gw \<Rightarrow> 'r bm_gw" where
  "broadcastCounts g = emit_to Lobby_room (Queue_count (bm_counts g)) g"

definition onLobbyJoin :: "string \<Rightarrow> 'r bm_gw \<Rightarrow> (bm_counts, 'r bm_gw) outcome" where
  "onLobbyJoin c g = (let g = join_channel c Lobby_room g in return (bm_counts g) g)"

definition onLobbyLeave :: "string \<Rightarrow> 'r bm_gw \<Rightarrow> (unit, 'r bm_gw) outcome" where
  "onLobbyLeave c g = return () (leave_channel c Lobby_room g)"

definition onQueueCount :: "'r bm_gw \<Rightarrow> (bm_counts, 'r bm_gw) outcome" where
  "onQueueCount g = return (bm_counts g) g"

datatype queue_reply = Queued nat bm_counts | Matched oid

definition profile_points :: "oid \<Rightarrow> 'r env_st_scheme \<Rightarrow> int" where
  "profile_points u s = (case findById (Hex u) s of Some d \<Rightarrow> rankPoints d | None \<Rightarrow> 0)"

text \<open>Some order of the same players.\<close>

definition reorder :: "(oid list \<Rightarrow> oid list) \<Rightarrow> oid list \<Rightarrow> oid list" where
  "reorder shuffle us = (if mset (shuffle us) = mset us then shuffle us else us)"

definition match_options :: "GameMode \<Rightarrow> BombermanOptions" where
  "match_options mode = \<lparr>bp_mode = Some mode, bp_betAmount = None, bp_roomId = None, bp_mapId = None\<rparr>"

definition onQueueJoin :: "(oid list \<Rightarrow> oid list) \<Rightarrow> nat option \<Rightarrow> string \<Rightarrow> 'r bm_gw \<Rightarrow> (queue_reply, 'r bm_gw) outcome" where
  "onQueueJoin shuffle sz c = await (userOf c) (\<lambda>u g.
     let n = table_size 2 sz;
         g = on_queue (bq_enqueue (au_id u) n (profile_points (au_id u) (gw_service g))) g;
         g = join_channel c Lobby_room g;
         (matched, q) = bq_tryMatch (au_id u) n (gw_queue g);
         g = g\<lparr>gw_queue := q\<rparr>
     in case matched of
          None \<Rightarrow> let g = broadcastCounts g in return (Queued n (bm_counts g)) g
        | Some us \<Rightarrow> await (service (createGame (reorder shuffle us) (match_options RANKED)))
            (\<lambda>game g. return (Matched (bg_id game)) (broadcastCounts g)) g)"

definition onQueueLeave :: "string \<Rightarrow> 'r bm_gw \<Rightarrow> ((nat \<times> nat) list, 'r bm_gw) outcome" where
  "onQueueLeave c = await (userOf c) (\<lambda>u g.
     let g = broadcastCounts (on_queue (bq_dequeue (au_id u)) g) in return (bq_counts (gw_queue g)) g)"

section \<open>Invitations\<close>

definition onChallenge :: "raw_id option \<Rightarrow> bool option \<Rightarrow> string \<Rightarrow> 'r bm_gw \<Rightarrow> (nat, 'r bm_gw) outcome" where
  "onChallenge opponent ranked = challenge_send BOMBERMAN (if ranked = Some False then CASUAL else RANKED) 0 opponent"

definition bm_challenge_start :: "(oid list \<Rightarrow> oid list) \<Rightarrow> PendingChallenge \<Rightarrow> oid \<Rightarrow> 'r bm_st_scheme \<Rightarrow> (oid, 'r bm_st_scheme) outcome" where
  "bm_challenge_start shuffle k u =
     await (createGame (reorder shuffle [ch_fromUserId k, u]) (match_options (ch_mode k))) (\<lambda>game. return (bg_id game))"

definition onChallengeAccept :: "(oid list \<Rightarrow> oid list) \<Rightarrow> nat \<Rightarrow> string \<Rightarrow> 'r bm_gw \<Rightarrow> (oid, 'r bm_gw) outcome" where
  "onChallengeAccept shuffle = challenge_accept BOMBERMAN (bm_challenge_start shuffle)"

definition onChallengeDecline :: "nat \<Rightarrow> string \<Rightarrow> 'r bm_gw \<Rightarrow> (unit, 'r bm_gw) outcome" where
  "onChallengeDecline = challenge_decline"

section \<open>Coin rooms\<close>

definition bm_room_input :: "rat option \<Rightarrow> nat option \<Rightarrow> bool option \<Rightarrow> string option \<Rightarrow> CreateRoomInput" where
  "bm_room_input bet maxPlayers isPrivate name =
     \<lparr>ci_game = BOMBERMAN, ci_mode = (if floor_bet bet > 0 then WAGER else CASUAL), ci_betAmount = Some (floor_bet bet),
      ci_maxPlayers = table_size 4 maxPlayers, ci_minPlayers = 2, ci_name = name,
      ci_isPrivate = Some (case isPrivate of Some b \<Rightarrow> b | None \<Rightarrow> False)\<rparr>"

definition remember_map :: "oid \<Rightarrow> string option \<Rightarrow> 'r bm_gw \<Rightarrow> 'r bm_gw" where
  "remember_map i mapId g =
     (case mapId of Some m \<Rightarrow> if m = '''' then g else g\<lparr>roomMaps := (roomMaps g)(Hex i \<mapsto> m)\<rparr> | None \<Rightarrow> g)"

definition onRoomCreate :: "rat option \<Rightarrow> nat option \<Rightarrow> string option \<Rightarrow> bool option \<Rightarrow> string option \<Rightarrow> string
    \<Rightarrow> 'r bm_gw \<Rightarrow> (RoomView, 'r bm_gw) outcome" where
  "onRoomCreate bet maxPlayers mapId isPrivate name c =
     await (room_create (bm_room_input bet maxPlayers isPrivate name) c)
       (\<lambda>room g. let g = remember_map (r_id room) mapId g in return (room_view room g) g)"

definition onRoomJoin :: "raw_id option \<Rightarrow> string option \<Rightarrow> string \<Rightarrow> 'r bm_gw \<Rightarrow> (RoomView, 'r bm_gw) outcome" where
  "onRoomJoin = room_join"

definition forget_map :: "raw_id \<Rightarrow> 'r bm_gw \<Rightarrow> 'r bm_gw" where
  "forget_map r g = g\<lparr>roomMaps := (roomMaps g)(r := None)\<rparr>"

definition onRoomLeave :: "raw_id \<Rightarrow> string \<Rightarrow> 'r bm_gw \<Rightarrow> (bool, 'r bm_gw) outcome" where
  "onRoomLeave r c = await (room_leave r c)
     (\<lambda>cancelled g. return cancelled (if cancelled then forget_map r g else g))"

definition onRoomReady :: "raw_id \<Rightarrow> bool \<Rightarrow> string \<Rightarrow> 'r bm_gw \<Rightarrow> (RoomView, 'r bm_gw) outcome" where
  "onRoomReady = room_ready"

definition bm_launch :: "string option \<Rightarrow> GameRoom \<Rightarrow> 'r bm_st_scheme \<Rightarrow> (oid, 'r bm_st_scheme) outcome" where
  "bm_launch mapId room = await (launchFromRoom room mapId) (\<lambda>game. return (bg_id game))"

definition onRoomStart :: "raw_id \<Rightarrow> string \<Rightarrow> 'r bm_gw \<Rightarrow> (oid, 'r bm_gw) outcome" where
  "onRoomStart r c g = await (room_start (bm_launch (roomMaps g r)) r c)
     (\<lambda>gameId g. return gameId (forget_map r g)) g"

section \<open>In a game\<close>

definition onJoinGame :: "raw_id \<Rightarrow> string \<Rightarrow> 'r bm_gw \<Rightarrow> ((MatchView \<times> Snapshot) option, 'r bm_gw) outcome" where
  "onJoinGame r c g =
     (let g = on_client c (\<lambda>k. k\<lparr>cl_game := Some r\<rparr>) (join_channel c (Game_room r) g)
      in return (liveView r (gw_service g)) g)"

definition onLeaveGame :: "raw_id \<Rightarrow> string \<Rightarrow> 'r bm_gw \<Rightarrow> (raw_id, 'r bm_gw) outcome" where
  "onLeaveGame r c = await (userOf c) (\<lambda>u g.
     return r (on_client c (\<lambda>k. if cl_game k = Some r then k\<lparr>cl_game := None\<rparr> else k)
       (leave_channel c (Game_room r) (on_service (killPlayer r (au_id u)) g))))"

definition or_zero :: "rat option \<Rightarrow> rat" where
  "or_zero d = (case d of Some x \<Rightarrow> x | None \<Rightarrow> 0)"

definition onInput :: "raw_id \<Rightarrow> rat option \<Rightarrow> rat option \<Rightarrow> string \<Rightarrow> 'r bm_gw \<Rightarrow> (unit, 'r bm_gw) outcome" where
  "onInput r dx dy c = await (userOf c) (\<lambda>u g. return () (on_service (setInput r (au_id u) (or_zero dx) (or_zero dy)) g))"

definition onBomb :: "raw_id \<Rightarrow> string \<Rightarrow> 'r bm_gw \<Rightarrow> (unit, 'r bm_gw) outcome" where
  "onBomb r c = await (userOf c) (\<lambda>u g. return () (on_service (dropBomb r (au_id u)) g))"

definition bm_handleDisconnect :: "string \<Rightarrow> 'r bm_gw \<Rightarrow> 'r bm_gw" where
  "bm_handleDisconnect = handleDisconnect bq_isQueued bq_dequeue bm_counts killPlayer"

end
