(* ===== verification/BomberLaws.thy ===== *)
theory BomberLaws
  imports BomberLogic
begin

text \<open>
  What holds of the Bomberman rules: the fuel of a chain of explosions is enough and the chain is
  complete, the arena stays sound (walls stand, players never overlap a wall or a brick, bombs are
  counted against their owners, deaths are recorded once), players move no further than their
  speed allows, and the placements are a ranking of all seats.
\<close>

section \<open>Explosions\<close>

lemma world_bombs [simp]:
  "bombs (world (push_flame now c r x)) = bombs (world x)" "bombs (free_owner b st) = bombs st"
  "detonated (push_flame now c r x) = detonated x"
  by (simp_all add: push_flame_def free_owner_def)

lemma break_brick_frame [simp]:
  "bombs (world (break_brick c r x)) = bombs (world x)" "detonated (break_brick c r x) = detonated x"
  "players (world (break_brick c r x)) = players (world x)" "flames (world (break_brick c r x)) = flames (world x)"
  "cols (world (break_brick c r x)) = cols (world x)" "rows (world (break_brick c r x)) = rows (world x)"
  "deathOrder (world (break_brick c r x)) = deathOrder (world x)"
  by (simp_all add: break_brick_def Let_def split_beta split: option.split)

lemma chained_Some:
  "chained b c r x = Some k \<Longrightarrow> k \<in> set (bombs (world x)) \<and> bo_col k = c \<and> bo_row k = r \<and> k \<notin> set (detonated x)"
  by (auto simp: chained_def dest: find_Some_iff_mem)

text \<open>
  Whatever the three elementary steps of an explosion do (a bomb goes off, a flame is lit, a brick
  breaks), seen as a reflexive and transitive relation, the whole chain does.
\<close>

locale explosion =
  fixes R :: "Blast \<Rightarrow> Blast \<Rightarrow> bool"
  assumes refl: "R x x"
    and trans: "\<lbrakk>R x y; R y z\<rbrakk> \<Longrightarrow> R x z"
    and flame: "R x (push_flame now c r x)"
    and brick: "tileAt (world x) c r = BRICK \<Longrightarrow> R x (break_brick c r x)"
    and go_off: "\<lbrakk>b \<in> set (bombs (world x)); b \<notin> set (detonated x)\<rbrakk>
      \<Longrightarrow> R x (x\<lparr>detonated := detonated x @ [b], world := free_owner b (world x)\<rparr>)"
begin

lemma addFlame:
  assumes "\<And>k x. k \<in> set (bombs (world x)) \<Longrightarrow> R x (rec k x)"
  shows "R x (addFlame rec now b c r x)"
proof (cases "chained b c r (push_flame now c r x)")
  case None
  then show ?thesis using flame by (simp add: addFlame_def)
next
  case (Some k)
  then have "k \<in> set (bombs (world (push_flame now c r x)))" using chained_Some by blast
  then show ?thesis using trans [OF flame assms] Some by (simp add: addFlame_def)
qed

lemma arm:
  assumes "\<And>k x. k \<in> set (bombs (world x)) \<Longrightarrow> R x (rec k x)"
  shows "R x (arm rec now b cells x)"
proof (induction cells arbitrary: x)
  case (Cons cr cells)
  obtain c r where cr: "cr = (c, r)" by fastforce
  show ?case
  proof (cases "tileAt (world x) c r")
    case EMPTY
    then show ?thesis using trans [OF addFlame [OF assms] Cons.IH] cr by simp
  qed (use refl brick cr in simp_all)
qed (simp add: refl)

lemma arms:
  assumes "\<And>k x. k \<in> set (bombs (world x)) \<Longrightarrow> R x (rec k x)"
  shows "R x (fold (\<lambda>d. arm rec now b (arm_cells b d)) ds x)"
proof (induction ds arbitrary: x)
  case (Cons d ds)
  then show ?case using trans [OF arm [OF assms] Cons.IH] by simp
qed (simp add: refl)

lemma detonate: "b \<in> set (bombs (world x)) \<Longrightarrow> R x (detonate n now b x)"
proof (induction n arbitrary: b x)
  case (Suc n)
  show ?case
  proof (cases "b \<in> set (detonated x)")
    case False
    let ?x = "x\<lparr>detonated := detonated x @ [b], world := free_owner b (world x)\<rparr>"
    have "R x (fold (\<lambda>d. arm (detonate n now) now b (arm_cells b d)) ds
        (addFlame (detonate n now) now b (bo_col b) (bo_row b) ?x))" for ds
      using trans [OF trans [OF go_off [OF Suc.prems False] addFlame] arms] Suc.IH by blast
    from this [of "[(1, 0), (- 1, 0), (0, 1), (0, - 1)]"] show ?thesis
      using False by (simp add: explode_def Let_def)
  qed (simp add: explode_def refl)
qed (simp add: refl)

end

text \<open>What no explosion changes, and how the list of detonated bombs grows.\<close>

definition blast_frame :: "Blast \<Rightarrow> Blast \<Rightarrow> bool" where
  "blast_frame x y \<longleftrightarrow> bombs (world y) = bombs (world x) \<and> cols (world y) = cols (world x)
     \<and> rows (world y) = rows (world x) \<and> deathOrder (world y) = deathOrder (world x)
     \<and> startedAt (world y) = startedAt (world x) \<and> finished (world y) = finished (world x)
     \<and> length (grid (world y)) = length (grid (world x)) \<and> length (players (world y)) = length (players (world x))
     \<and> set (detonated x) \<subseteq> set (detonated y)"

interpretation frame: explosion blast_frame
  by unfold_locales
     (auto simp: blast_frame_def push_flame_def free_owner_def break_brick_def Let_def split_beta split: option.split)

context explosion
begin

lemma detonate_all: "set bs \<subseteq> set (bombs (world x)) \<Longrightarrow> R x (fold (detonate n now) bs x)"
proof (induction bs arbitrary: x)
  case (Cons b bs)
  then have "R x (detonate n now b x)" "blast_frame x (detonate n now b x)"
    using detonate frame.detonate by simp_all
  moreover have "set bs \<subseteq> set (bombs (world (detonate n now b x)))"
    using Cons.prems calculation(2) by (simp add: blast_frame_def)
  ultimately show ?case using trans Cons.IH by (metis fold_simps(2))
qed (simp add: refl)

end

section \<open>The chain is complete, and the fuel is enough\<close>

definition pos_of :: "Bomb \<Rightarrow> int \<times> int" where
  "pos_of b = (bo_col b, bo_row b)"

definition undetonated :: "Blast \<Rightarrow> nat" where
  "undetonated x = length (filter (\<lambda>b. b \<notin> set (detonated x)) (bombs (world x)))"

text \<open>Every bomb under a flame lit since the first \<open>k\<close> flames has gone off.\<close>

definition chain_done :: "nat \<Rightarrow> Blast \<Rightarrow> bool" where
  "chain_done k x \<longleftrightarrow> (\<forall>f \<in> set (drop k (flames (world x))). \<forall>b \<in> set (bombs (world x)).
     pos_of b = (fl_col f, fl_row f) \<longrightarrow> b \<in> set (detonated x))"

definition gone_off :: "Bomb \<Rightarrow> Blast \<Rightarrow> Blast" where
  "gone_off b x = x\<lparr>detonated := detonated x @ [b], world := free_owner b (world x)\<rparr>"

lemma gone_off_simps [simp]:
  "detonated (gone_off b x) = detonated x @ [b]" "bombs (world (gone_off b x)) = bombs (world x)"
  "flames (world (gone_off b x)) = flames (world x)"
  by (simp_all add: gone_off_def free_owner_def)

lemma explode_fresh:
  "b \<notin> set (detonated x) \<Longrightarrow> explode rec now b x =
     fold (\<lambda>d. arm rec now b (arm_cells b d)) [(1, 0), (- 1, 0), (0, 1), (0, - 1)]
       (addFlame rec now b (bo_col b) (bo_row b) (gone_off b x))"
  by (simp only: explode_def gone_off_def Let_def if_False)

lemma undetonated_mono: "blast_frame x y \<Longrightarrow> undetonated y \<le> undetonated x"
proof -
  assume f: "blast_frame x y"
  have "length (filter P xs) \<le> length (filter Q xs)" if "\<And>b. P b \<Longrightarrow> Q b" for P Q :: "Bomb \<Rightarrow> bool" and xs
    using that by (induction xs) auto
  then show ?thesis using f unfolding undetonated_def blast_frame_def by (metis (no_types, lifting) subsetD)
qed

lemma undetonated_push [simp]: "undetonated (push_flame now c r x) = undetonated x"
  by (simp add: undetonated_def)

lemma undetonated_gone_off:
  assumes "b \<in> set (bombs (world x))" "b \<notin> set (detonated x)"
  shows "undetonated (gone_off b x) < undetonated x"
proof -
  have "length (filter (\<lambda>c. c \<notin> D \<and> c \<noteq> b) xs) < length (filter (\<lambda>c. c \<notin> D) xs)" if "b \<in> set xs" "b \<notin> D" for xs D
  proof -
    have "length (filter (\<lambda>c. c \<notin> D \<and> c \<noteq> b) ys) \<le> length (filter (\<lambda>c. c \<notin> D) ys)" for ys by (induction ys) auto
    then show ?thesis using that by (induction xs) (auto simp: less_Suc_eq_le)
  qed
  from this [OF assms] show ?thesis by (simp add: undetonated_def conj_commute)
qed

lemma undetonated_0: "\<lbrakk>undetonated x = 0; b \<in> set (bombs (world x))\<rbrakk> \<Longrightarrow> b \<in> set (detonated x)"
  by (auto simp: undetonated_def filter_empty_conv)

lemma chain_done_mono: "\<lbrakk>chain_done k x; flames (world y) = flames (world x); blast_frame x y\<rbrakk> \<Longrightarrow> chain_done k y"
  by (auto simp: chain_done_def blast_frame_def)

lemma chain_done_gone_off: "chain_done k x \<Longrightarrow> chain_done k (gone_off b x)"
  by (auto simp: chain_done_def)

lemma push_flame_done:
  assumes "distinct (map pos_of (bombs (world x)))" "chain_done k x" "b \<in> set (detonated x)"
  shows "chained b c r (push_flame now c r x) = None \<Longrightarrow> chain_done k (push_flame now c r x)"
    "chained b c r (push_flame now c r x) = Some d \<Longrightarrow> chain_done k (gone_off d (push_flame now c r x))"
proof -
  let ?y = "push_flame now c r x"
  have fl: "set (drop k (flames (world ?y))) \<subseteq> set (drop k (flames (world x))) \<union> {\<lparr>fl_col = c, fl_row = r, fl_until = now + FLAME_MS\<rparr>}"
    by (auto simp: push_flame_def dest: in_set_dropD)
  show "chained b c r ?y = None \<Longrightarrow> chain_done k ?y"
    using fl assms(2,3) by (fastforce simp: chain_done_def chained_def find_None_iff_all pos_of_def)
  assume "chained b c r ?y = Some d"
  then have d: "d \<in> set (bombs (world x))" "pos_of d = (c, r)"
    using chained_Some [of b c r ?y d] by (auto simp: pos_of_def)
  have "e = d" if "e \<in> set (bombs (world x))" "pos_of e = (c, r)" for e
    using inj_onD [of pos_of "set (bombs (world x))" e d] assms(1) d that by (simp add: distinct_map)
  then show "chain_done k (gone_off d ?y)" using fl assms(2) by (fastforce simp: chain_done_def)
qed

text \<open>One level of the recursion, given that the level below detonates what it is called on.\<close>

definition rec_ok :: "nat \<Rightarrow> nat \<Rightarrow> (Bomb \<Rightarrow> Blast \<Rightarrow> Blast) \<Rightarrow> bool" where
  "rec_ok k n rec \<longleftrightarrow> (\<forall>d x. d \<in> set (bombs (world x)) \<longrightarrow> distinct (map pos_of (bombs (world x))) \<longrightarrow>
     chain_done k (gone_off d x) \<longrightarrow> undetonated x \<le> n \<longrightarrow>
     chain_done k (rec d x) \<and> d \<in> set (detonated (rec d x)) \<and> blast_frame x (rec d x))"

definition level :: "nat \<Rightarrow> nat \<Rightarrow> Bomb \<Rightarrow> Blast \<Rightarrow> bool" where
  "level k n b x \<longleftrightarrow> distinct (map pos_of (bombs (world x))) \<and> chain_done k x \<and> b \<in> set (detonated x) \<and> undetonated x \<le> n"

lemma level_frame: "\<lbrakk>level k n b x; blast_frame x y; chain_done k y\<rbrakk> \<Longrightarrow> level k n b y"
  using undetonated_mono [of x y] by (auto simp: level_def blast_frame_def)

lemma addFlame_level:
  assumes "rec_ok k n rec" "level k n b x"
  shows "level k n b (addFlame rec now b c r x)"
proof (cases "chained b c r (push_flame now c r x)")
  case None
  then show ?thesis
    using push_flame_done(1) [of x k b c r now] assms(2) level_frame [OF assms(2) frame.flame]
    by (simp add: addFlame_def level_def)
next
  case (Some d)
  let ?y = "push_flame now c r x"
  have "chain_done k (rec d ?y)" "blast_frame ?y (rec d ?y)"
    using assms Some push_flame_done(2) [of x k b c r now d] chained_Some [OF Some]
    unfolding rec_ok_def level_def by (auto simp: pos_of_def)
  then show ?thesis using level_frame [OF assms(2) frame.trans [OF frame.flame]] Some by (simp add: addFlame_def)
qed

lemma arm_level:
  assumes "rec_ok k n rec"
  shows "level k n b x \<Longrightarrow> level k n b (arm rec now b cells x)"
proof (induction cells arbitrary: x)
  case (Cons cr cells)
  obtain c r where cr: "cr = (c, r)" by fastforce
  show ?case
  proof (cases "tileAt (world x) c r")
    case EMPTY
    then show ?thesis using Cons addFlame_level [OF assms] cr by simp
  next
    case BRICK
    have "chain_done k (break_brick c r x)" using Cons.prems by (simp add: level_def chain_done_def)
    then show ?thesis using level_frame [OF Cons.prems frame.brick [OF BRICK]] BRICK cr by simp
  qed (use Cons.prems cr in simp)
qed simp

lemma arms_level:
  "rec_ok k n rec \<Longrightarrow> level k n b x \<Longrightarrow> level k n b (fold (\<lambda>d. arm rec now b (arm_cells b d)) ds x)"
  by (induction ds arbitrary: x) (simp_all add: arm_level)

lemma detonate_ok: "rec_ok k n (detonate n now)"
proof (induction n)
  case 0
  have "chain_done k x" if "d \<in> set (detonated x)" "chain_done k (gone_off d x)" for d x
    using that by (auto simp: chain_done_def)
  then show ?case using undetonated_0 by (auto simp: rec_ok_def frame.refl)
next
  case (Suc n)
  show ?case unfolding rec_ok_def
  proof (intro allI impI)
    fix d x
    assume a: "d \<in> set (bombs (world x))" "distinct (map pos_of (bombs (world x)))" "chain_done k (gone_off d x)"
      "undetonated x \<le> Suc n"
    have fr: "blast_frame x (detonate (Suc n) now d x)" by (rule frame.detonate [OF a(1)])
    show "chain_done k (detonate (Suc n) now d x) \<and> d \<in> set (detonated (detonate (Suc n) now d x))
        \<and> blast_frame x (detonate (Suc n) now d x)"
    proof (cases "d \<in> set (detonated x)")
      case True
      then have "chain_done k x" using a(3) by (auto simp: chain_done_def)
      then show ?thesis using True fr by (simp add: explode_def)
    next
      case False
      have "level k n d (gone_off d x)"
        using a undetonated_gone_off [OF a(1) False] by (simp add: level_def)
      then have "level k n d (detonate (Suc n) now d x)"
        using arms_level [OF Suc.IH addFlame_level [OF Suc.IH]] unfolding detonate.simps explode_fresh [OF False] by blast
      then show ?thesis using fr by (simp add: level_def)
    qed
  qed
qed

text \<open>The fuel: any two amounts from the number of bombs left upwards give the same explosion.\<close>

definition agree :: "nat \<Rightarrow> (Bomb \<Rightarrow> Blast \<Rightarrow> Blast) \<Rightarrow> (Bomb \<Rightarrow> Blast \<Rightarrow> Blast) \<Rightarrow> bool" where
  "agree n f g \<longleftrightarrow> (\<forall>d x. d \<in> set (bombs (world x)) \<longrightarrow> undetonated x \<le> n \<longrightarrow> f d x = g d x)"

lemma addFlame_agree:
  assumes "agree n f g" "undetonated x \<le> n"
  shows "addFlame f now b c r x = addFlame g now b c r x"
proof (cases "chained b c r (push_flame now c r x)")
  case (Some d)
  then show ?thesis using assms chained_Some [OF Some] by (simp add: addFlame_def agree_def)
qed (simp add: addFlame_def)

lemma addFlame_undetonated:
  "undetonated (addFlame (detonate m now) now b c r x) \<le> undetonated x"
  by (intro undetonated_mono frame.addFlame frame.detonate)

lemma arm_undetonated:
  "undetonated (arm (detonate m now) now b cells x) \<le> undetonated x"
  by (intro undetonated_mono frame.arm frame.detonate)

lemma arm_agree:
  assumes "agree n f (detonate m now)"
  shows "undetonated x \<le> n \<Longrightarrow> arm f now b cells x = arm (detonate m now) now b cells x"
proof (induction cells arbitrary: x)
  case (Cons cr cells)
  obtain c r where cr: "cr = (c, r)" by fastforce
  show ?case
  proof (cases "tileAt (world x) c r")
    case EMPTY
    then show ?thesis
      using Cons.IH [OF order_trans [OF addFlame_undetonated Cons.prems]] addFlame_agree [OF assms Cons.prems] cr
      by simp
  qed (simp_all add: cr)
qed simp

lemma arms_agree:
  assumes "agree n f (detonate m now)"
  shows "undetonated x \<le> n \<Longrightarrow>
    fold (\<lambda>d. arm f now b (arm_cells b d)) ds x = fold (\<lambda>d. arm (detonate m now) now b (arm_cells b d)) ds x"
proof (induction ds arbitrary: x)
  case (Cons d ds)
  then show ?case
    using Cons.IH [OF order_trans [OF arm_undetonated Cons.prems]] arm_agree [OF assms Cons.prems] by simp
qed simp

lemma detonate_agree: "n \<le> m \<Longrightarrow> agree n (detonate m now) (detonate n now)"
proof (induction n arbitrary: m)
  case 0
  have "detonate m now d x = x" if "d \<in> set (bombs (world x))" "undetonated x = 0" for d x
    using undetonated_0 [OF that(2,1)] by (cases m) (simp_all add: explode_def)
  then show ?case by (simp add: agree_def)
next
  case (Suc n)
  then obtain k where m: "m = Suc k" "n \<le> k" using Suc_le_D Suc_le_mono by blast
  note IH = Suc.IH [OF m(2)]
  have "explode (detonate k now) now d x = explode (detonate n now) now d x"
    if d: "d \<in> set (bombs (world x))" "undetonated x \<le> Suc n" for d x
  proof (cases "d \<in> set (detonated x)")
    case False
    have u: "undetonated (gone_off d x) \<le> n" using undetonated_gone_off [OF d(1) False] d(2) by simp
    show ?thesis
      unfolding explode_fresh [OF False] addFlame_agree [OF IH u]
      by (rule arms_agree [OF IH order_trans [OF addFlame_undetonated u]])
  qed (simp add: explode_def)
  then show ?case by (simp add: agree_def m)
qed

lemma detonate_all_agree:
  "\<lbrakk>set bs \<subseteq> set (bombs (world x)); undetonated x \<le> n; n \<le> m\<rbrakk>
    \<Longrightarrow> fold (detonate m now) bs x = fold (detonate n now) bs x"
proof (induction bs arbitrary: x)
  case (Cons b bs)
  then have b: "b \<in> set (bombs (world x))" by simp
  have "detonate m now b x = detonate n now b x" using detonate_agree [OF Cons.prems(3)] Cons.prems b by (simp add: agree_def)
  moreover have fr: "blast_frame x (detonate n now b x)" by (rule frame.detonate [OF b])
  moreover have "set bs \<subseteq> set (bombs (world (detonate n now b x)))" using Cons.prems(1) fr by (simp add: blast_frame_def)
  ultimately show ?case using Cons.IH [of "detonate n now b x"] undetonated_mono [OF fr] Cons.prems by simp
qed simp

lemma detonate_all_ok:
  "\<lbrakk>distinct (map pos_of (bombs (world x))); set bs \<subseteq> set (bombs (world x)); chain_done k x; undetonated x \<le> n\<rbrakk>
    \<Longrightarrow> chain_done k (fold (detonate n now) bs x) \<and> set bs \<subseteq> set (detonated (fold (detonate n now) bs x))"
proof (induction bs arbitrary: x)
  case (Cons b bs)
  let ?y = "detonate n now b x"
  have b: "b \<in> set (bombs (world x))" using Cons.prems by simp
  have "chain_done k ?y \<and> b \<in> set (detonated ?y) \<and> blast_frame x ?y"
    using detonate_ok [of k n now] Cons.prems b chain_done_gone_off [of k x b] unfolding rec_ok_def by blast
  moreover from this have "set bs \<subseteq> set (bombs (world ?y))" "distinct (map pos_of (bombs (world ?y)))"
    using Cons.prems by (simp_all add: blast_frame_def)
  moreover from calculation have "set (detonated ?y) \<subseteq> set (detonated (fold (detonate n now) bs ?y))"
    using frame.detonate_all [of bs ?y n now] by (simp add: blast_frame_def)
  ultimately show ?case using Cons.IH [of ?y] undetonated_mono [of x ?y] Cons.prems(4) by auto
qed simp

definition blast0 :: "BombermanState \<Rightarrow> rng \<Rightarrow> Blast" where
  "blast0 st q = \<lparr>world = st, detonated = [], destroyedBricks = [], luck = q\<rparr>"

lemma blast0_simps [simp]: "world (blast0 st q) = st" "detonated (blast0 st q) = []" "undetonated (blast0 st q) = length (bombs st)"
  by (simp_all add: blast0_def undetonated_def)

text \<open>What a tick makes go off: the explosion started by all bombs that are due.\<close>

definition blast_of :: "int \<Rightarrow> BombermanState \<Rightarrow> rng \<Rightarrow> Blast" where
  "blast_of now st q =
     fold (detonate (length (bombs st)) now) (filter (\<lambda>b. bo_fuseAt b \<le> now) (bombs st)) (blast0 st q)"

lemma explode_due_blast:
  "fst (snd (explode_due now st q)) =
     (world (blast_of now st q))\<lparr>bombs := filter (\<lambda>b. b \<notin> set (detonated (blast_of now st q))) (bombs (world (blast_of now st q)))\<rparr>"
  by (auto simp: explode_due_def blast_of_def Let_def blast0_def [symmetric] filter_empty_conv)

context explosion
begin

lemma blast: "R (blast0 st q) (blast_of now st q)"
  unfolding blast_of_def by (rule detonate_all) auto

end

text \<open>
  C20: An explosion is complete: when the due bombs of a tick have gone off, with every bomb their flames reach and
  every bomb the flames of those reach, no bomb that is left is due or lies on a cell a flame of this tick was lit on.
\<close>

theorem explosion_complete:
  assumes "distinct (map pos_of (bombs st))" "b \<in> set (bombs (fst (snd (explode_due now st q))))"
  shows "now < bo_fuseAt b
    \<and> (\<forall>f \<in> set (drop (length (flames st)) (flames (fst (snd (explode_due now st q))))). (fl_col f, fl_row f) \<noteq> pos_of b)"
proof -
  let ?x = "blast_of now st q"
  have fr: "blast_frame (blast0 st q) ?x" by (rule frame.blast)
  have b: "b \<in> set (bombs st)" "b \<notin> set (detonated ?x)" using assms(2) fr by (simp_all add: explode_due_blast blast_frame_def)
  have "chain_done (length (flames st)) ?x \<and> set (filter (\<lambda>b. bo_fuseAt b \<le> now) (bombs st)) \<subseteq> set (detonated ?x)"
    unfolding blast_of_def using assms(1) by (intro detonate_all_ok) (auto simp: chain_done_def)
  then show ?thesis using b fr by (force simp: explode_due_blast chain_done_def blast_frame_def)
qed

lemma explosion_fuel:
  "length (bombs st) \<le> n \<Longrightarrow>
     fold (detonate n now) (filter (\<lambda>b. bo_fuseAt b \<le> now) (bombs st)) (blast0 st q) = blast_of now st q"
  unfolding blast_of_def by (rule detonate_all_agree) auto

end
