(* ===== verification/BomberArena.thy ===== *)
theory BomberArena
  imports BomberLaws
begin

text \<open>
  The arena of Bomberman stays sound: the invariant of a match's world, that a new world has it,
  and that moving, placing a bomb, leaving the match and the world's tick keep it.
\<close>

section \<open>Tiles\<close>

text \<open>Bricks may become empty; every other tile stays what it is.\<close>

definition tiles_wear :: "BombermanState \<Rightarrow> BombermanState \<Rightarrow> bool" where
  "tiles_wear s t \<longleftrightarrow> cols t = cols s \<and> rows t = rows s \<and> length (grid t) = length (grid s)
     \<and> (\<forall>i < length (grid s). grid t ! i = grid s ! i \<or> (grid s ! i = BRICK \<and> grid t ! i = EMPTY))"

definition grid_ok :: "BombermanState \<Rightarrow> bool" where
  "grid_ok s \<longleftrightarrow> 0 \<le> cols s \<and> 0 \<le> rows s \<and> int (length (grid s)) = cols s * rows s"

lemma tiles_wear_refl [simp]: "tiles_wear s s"
  by (simp add: tiles_wear_def)

lemma tiles_wear_trans: "\<lbrakk>tiles_wear s t; tiles_wear t u\<rbrakk> \<Longrightarrow> tiles_wear s u"
  unfolding tiles_wear_def by (metis Tile.distinct(1))

lemma tile_index:
  assumes "grid_ok s" "0 \<le> c" "0 \<le> r" "c < cols s" "r < rows s"
  shows "nat (r * cols s + c) < length (grid s)"
proof -
  have "(r + 1) * cols s \<le> rows s * cols s" using assms by (intro mult_right_mono) auto
  then have "r * cols s + c < rows s * cols s" using assms(4) by (simp add: algebra_simps)
  moreover have "0 \<le> r * cols s + c" using assms(2,3,4) by simp
  ultimately show ?thesis using assms(1) by (simp add: grid_ok_def nat_less_iff mult.commute)
qed

lemma tileAt_inside: "tileAt s c r \<noteq> WALL \<Longrightarrow> 0 \<le> c \<and> 0 \<le> r \<and> c < cols s \<and> r < rows s \<and> tileAt s c r = grid s ! nat (r * cols s + c)"
  by (auto simp: tileAt_def split: if_splits)

lemma tiles_wear_tileAt:
  assumes "tiles_wear s t" "grid_ok s"
  shows "tileAt s c r = EMPTY \<Longrightarrow> tileAt t c r = EMPTY" "tileAt t c r = WALL \<longleftrightarrow> tileAt s c r = WALL"
    "tileAt t c r = BRICK \<Longrightarrow> tileAt s c r = BRICK"
  using assms tile_index [OF assms(2), of c r] by (fastforce simp: tileAt_def tiles_wear_def split: if_splits)+

lemma tiles_wear_grid: "tiles_wear s t \<Longrightarrow> grid_ok s \<Longrightarrow> grid_ok t"
  by (simp add: grid_ok_def tiles_wear_def)

lemma tiles_wear_same: "\<lbrakk>cols t = cols s; rows t = rows s; grid t = grid s\<rbrakk> \<Longrightarrow> tiles_wear s t"
  by (simp add: tiles_wear_def)

lemma break_brick_wears:
  assumes "tileAt (world x) c r = BRICK"
  shows "tiles_wear (world x) (world (break_brick c r x))"
proof -
  let ?i = "nat (r * cols (world x) + c)"
  have "grid (world (break_brick c r x)) = (grid (world x))[?i := EMPTY]"
    by (simp add: break_brick_def Let_def split_beta split: option.split)
  moreover have "grid (world x) ! ?i = BRICK" using tileAt_inside [of "world x" c r] assms by simp
  moreover have "xs[k := y] ! i = xs ! i \<or> i = k \<and> xs[k := y] ! i = y" for xs :: "Tile list" and k y i
    by (cases "k < length xs") (auto simp: nth_list_update not_less list_update_beyond)
  ultimately show ?thesis unfolding tiles_wear_def by (metis break_brick_frame(5,6) length_list_update)
qed

section \<open>The invariant\<close>

text \<open>No tile the square of a player overlaps is a wall or a brick.\<close>

definition clear_at :: "BombermanState \<Rightarrow> rat \<Rightarrow> rat \<Rightarrow> bool" where
  "clear_at s x y \<longleftrightarrow> (\<forall>t \<in> set (touched x y). tileAt s (fst t) (snd t) = EMPTY)"

definition clear_of_walls :: "BombermanState \<Rightarrow> BPlayer \<Rightarrow> bool" where
  "clear_of_walls s p \<longleftrightarrow> clear_at s (b_x p) (b_y p)"

definition player_ok :: "BPlayer \<Rightarrow> bool" where
  "player_ok p \<longleftrightarrow> START_BOMBS \<le> b_maxBombs p \<and> b_maxBombs p \<le> MAX_BOMBS
     \<and> START_FLAME \<le> b_flame p \<and> b_flame p \<le> MAX_FLAME \<and> BASE_SPEED \<le> b_speed p \<and> b_speed p \<le> MAX_SPEED
     \<and> \<bar>b_dx p\<bar> \<le> 1 \<and> \<bar>b_dy p\<bar> \<le> 1 \<and> b_bombsOut p \<le> b_maxBombs p"

definition seats_ok :: "BPlayer list \<Rightarrow> bool" where
  "seats_ok ps \<longleftrightarrow> map b_seat ps = [0..<length ps] \<and> distinct (map b_userId ps)"

definition deaths_ok :: "BPlayer list \<Rightarrow> nat list \<Rightarrow> bool" where
  "deaths_ok ps ds \<longleftrightarrow> distinct ds \<and> set ds = {k. k < length ps \<and> \<not> b_alive (ps ! k)}"

definition bombs_ok :: "BombermanState \<Rightarrow> bool" where
  "bombs_ok s \<longleftrightarrow> distinct (map pos_of (bombs s)) \<and> distinct (map bo_id (bombs s))
     \<and> (\<forall>b \<in> set (bombs s). tileAt s (bo_col b) (bo_row b) = EMPTY)"

text \<open>Every player has as many bombs out as the list \<open>bs\<close> has bombs of theirs.\<close>

definition bombs_of :: "oid \<Rightarrow> Bomb list \<Rightarrow> nat" where
  "bombs_of u bs = length (filter (\<lambda>b. bo_ownerId b = u) bs)"

definition counted :: "Bomb list \<Rightarrow> BPlayer list \<Rightarrow> bool" where
  "counted bs ps \<longleftrightarrow> (\<forall>p \<in> set ps. b_bombsOut p = bombs_of (b_userId p) bs)"

definition players_ok :: "BombermanState \<Rightarrow> bool" where
  "players_ok s \<longleftrightarrow> (\<forall>p \<in> set (players s). player_ok p \<and> clear_of_walls s p)"

definition arena_ok :: "BombermanState \<Rightarrow> bool" where
  "arena_ok s \<longleftrightarrow> grid_ok s \<and> seats_ok (players s) \<and> players_ok s \<and> bombs_ok s
     \<and> counted (bombs s) (players s) \<and> deaths_ok (players s) (deathOrder s)"

lemma clear_of_walls_wear: "\<lbrakk>clear_of_walls s p; tiles_wear s t; grid_ok s\<rbrakk> \<Longrightarrow> clear_of_walls t p"
  using tiles_wear_tileAt(1) by (fastforce simp: clear_of_walls_def clear_at_def)

lemma seat_nth: "\<lbrakk>seats_ok ps; k < length ps\<rbrakk> \<Longrightarrow> b_seat (ps ! k) = k"
  unfolding seats_ok_def by (metis add_0 nth_map nth_upt)

text \<open>The same players in the same seats, alive as before.\<close>

definition same_seats :: "BPlayer list \<Rightarrow> BPlayer list \<Rightarrow> bool" where
  "same_seats ps qs \<longleftrightarrow> list_all2 (\<lambda>p q. b_seat q = b_seat p \<and> b_userId q = b_userId p \<and> b_alive q = b_alive p) ps qs"

lemma same_seats_ok: "same_seats ps qs \<Longrightarrow> seats_ok qs = seats_ok ps \<and> deaths_ok qs ds = deaths_ok ps ds"
proof -
  assume a: "same_seats ps qs"
  then have "map b_seat qs = map b_seat ps" "map b_userId qs = map b_userId ps" "length qs = length ps"
    by (auto simp: same_seats_def list_all2_conv_all_nth intro: nth_equalityI)
  moreover have "b_alive (qs ! k) = b_alive (ps ! k)" if "k < length ps" for k
    using a that by (auto simp: same_seats_def list_all2_conv_all_nth)
  ultimately show ?thesis by (auto simp: seats_ok_def deaths_ok_def)
qed

lemma same_seats_upd:
  assumes "k < length ps" "b_seat (f (ps ! k)) = b_seat (ps ! k)" "b_userId (f (ps ! k)) = b_userId (ps ! k)"
    "b_alive (f (ps ! k)) = b_alive (ps ! k)"
  shows "same_seats ps (ps[k := f (ps ! k)])"
  using assms by (auto simp: same_seats_def list_all2_conv_all_nth nth_list_update)

lemma upd_player_simps [simp]:
  "cols (upd_player k f s) = cols s" "rows (upd_player k f s) = rows s" "grid (upd_player k f s) = grid s"
  "bombs (upd_player k f s) = bombs s" "flames (upd_player k f s) = flames s" "powerups (upd_player k f s) = powerups s"
  "deathOrder (upd_player k f s) = deathOrder s" "startedAt (upd_player k f s) = startedAt s"
  "players (upd_player k f s) = (players s)[k := f (players s ! k)]"
  by (simp_all add: upd_player_def)

lemma tileAt_frame: "\<lbrakk>cols t = cols s; rows t = rows s; grid t = grid s\<rbrakk> \<Longrightarrow> tileAt t = tileAt s"
  by (intro ext) (simp add: tileAt_def)

lemma bombs_ok_frame: "\<lbrakk>cols t = cols s; rows t = rows s; grid t = grid s; bombs t = bombs s\<rbrakk> \<Longrightarrow> bombs_ok t = bombs_ok s"
  by (simp add: bombs_ok_def tileAt_frame [of t s])

lemma clear_of_walls_frame: "\<lbrakk>cols t = cols s; rows t = rows s; grid t = grid s\<rbrakk> \<Longrightarrow> clear_of_walls t = clear_of_walls s"
  by (intro ext) (simp add: clear_of_walls_def clear_at_def tileAt_frame [of t s])

lemma set_update_all: "\<lbrakk>\<forall>p \<in> set ps. P p; P x\<rbrakk> \<Longrightarrow> \<forall>p \<in> set (ps[k := x]). P p"
  using set_update_subset_insert [of ps k x] by blast

text \<open>A change of one player that keeps who they are, their bombs out, their bounds and their place.\<close>

lemma arena_ok_player:
  assumes "arena_ok s" "k < length (players s)" and "p = players s ! k"
    and "b_seat (f p) = b_seat p" "b_userId (f p) = b_userId p" "b_alive (f p) = b_alive p" "b_bombsOut (f p) = b_bombsOut p"
    and "player_ok (f p)" "clear_of_walls s (f p)"
  shows "arena_ok (upd_player k f s)"
proof -
  have p: "p \<in> set (players s)" using assms(2,3) by simp
  have "seats_ok (players (upd_player k f s)) \<and> deaths_ok (players (upd_player k f s)) (deathOrder s)"
    using same_seats_ok [OF same_seats_upd [of k "players s" f]] assms by (simp add: arena_ok_def)
  moreover have "players_ok (upd_player k f s)"
    unfolding players_ok_def clear_of_walls_frame [of "upd_player k f s" s, OF upd_player_simps(1-3)] upd_player_simps
    by (rule set_update_all) (use assms(1,3,8,9) in \<open>simp_all add: players_ok_def arena_ok_def\<close>)
  moreover have "counted (bombs s) (players (upd_player k f s))"
    unfolding counted_def upd_player_simps
    by (rule set_update_all) (use assms(1,3,5,7) p in \<open>simp_all add: counted_def arena_ok_def\<close>)
  ultimately show ?thesis
    using assms(1) bombs_ok_frame [of "upd_player k f s" s] by (simp add: arena_ok_def grid_ok_def)
qed

section \<open>Movement\<close>

lemma touched_iff:
  "(c, r) \<in> set (touched x y) \<longleftrightarrow> js_round (x - PLAYER_RADIUS) \<le> c \<and> c \<le> js_round (x + PLAYER_RADIUS)
     \<and> js_round (y - PLAYER_RADIUS) \<le> r \<and> r \<le> js_round (y + PLAYER_RADIUS)"
  by (auto simp: touched_def image_iff)

text \<open>
  A slide: a move along one axis by at most \<open>d\<close>, on which every position is clear of walls and bricks.
\<close>

definition slides :: "BombermanState \<Rightarrow> rat \<Rightarrow> rat \<times> rat \<Rightarrow> rat \<times> rat \<Rightarrow> bool" where
  "slides s d a b \<longleftrightarrow> (fst a = fst b \<or> snd a = snd b) \<and> \<bar>fst b - fst a\<bar> \<le> d \<and> \<bar>snd b - snd a\<bar> \<le> d
     \<and> (\<forall>x y. min (fst a) (fst b) \<le> x \<longrightarrow> x \<le> max (fst a) (fst b) \<longrightarrow> min (snd a) (snd b) \<le> y \<longrightarrow>
          y \<le> max (snd a) (snd b) \<longrightarrow> clear_at s x y)"

text \<open>Between two positions less than a tile apart there is no tile that neither end touches.\<close>

lemma round_between:
  fixes a b x :: rat
  assumes "a \<le> x" "x \<le> b" "b - a \<le> 4 / 5" "js_round (x - PLAYER_RADIUS) \<le> c" "c \<le> js_round (x + PLAYER_RADIUS)"
  shows "(js_round (a - PLAYER_RADIUS) \<le> c \<and> c \<le> js_round (a + PLAYER_RADIUS))
    \<or> (js_round (b - PLAYER_RADIUS) \<le> c \<and> c \<le> js_round (b + PLAYER_RADIUS))"
  using assms unfolding js_round_def PLAYER_RADIUS_def by linarith

lemma slides_x:
  assumes "clear_at s a y" "clear_at s b y" "\<bar>b - a\<bar> \<le> d" "d \<le> 4 / 5" "0 \<le> d"
  shows "slides s d (a, y) (b, y)"
proof -
  have "clear_at s x y" if "min a b \<le> x" "x \<le> max a b" for x
    using assms(1-4) that round_between [of a x b] round_between [of b x a]
    by (fastforce simp: clear_at_def touched_iff min_def max_def split: if_splits)
  then show ?thesis using assms(3,5) by (auto simp: slides_def)
qed

lemma slides_y:
  assumes "clear_at s x a" "clear_at s x b" "\<bar>b - a\<bar> \<le> d" "d \<le> 4 / 5" "0 \<le> d"
  shows "slides s d (x, a) (x, b)"
proof -
  have "clear_at s x y" if "min a b \<le> y" "y \<le> max a b" for y
    using assms(1-4) that round_between [of a y b] round_between [of b y a]
    by (fastforce simp: clear_at_def touched_iff min_def max_def split: if_splits)
  then show ?thesis using assms(3,5) by (auto simp: slides_def)
qed

lemma not_blocked: "\<not> blocked s c r p \<Longrightarrow> tileAt s c r = EMPTY"
  by (cases "tileAt s c r") (simp_all add: blocked_def)

lemma collideAxis_cases:
  "collideAxis s p x y = (b_x p, b_y p) \<or> (collideAxis s p x y = (x, y) \<and> clear_at s x y)"
proof (cases "\<exists>t \<in> set (touched x y). blocked s (fst t) (snd t) p")
  case True
  then show ?thesis by (simp add: collideAxis_def)
next
  case False
  then have "clear_at s x y" unfolding clear_at_def by (blast intro: not_blocked)
  then show ?thesis using False by (simp add: collideAxis_def)
qed

definition pos :: "BPlayer \<Rightarrow> rat \<times> rat" where
  "pos p = (b_x p, b_y p)"

text \<open>All of a player but the position.\<close>

definition body :: "BPlayer \<Rightarrow> BPlayer" where
  "body p = p\<lparr>b_x := 0, b_y := 0\<rparr>"

text \<open>One axis of a tick: from a clear position by at most the step to a clear position.\<close>

definition glides :: "BombermanState \<Rightarrow> rat \<Rightarrow> BPlayer \<Rightarrow> BPlayer \<Rightarrow> bool" where
  "glides s d p q \<longleftrightarrow> (clear_of_walls s p \<longrightarrow> slides s d (pos p) (pos q) \<and> clear_of_walls s q)
     \<and> body q = body p"

lemma glides_refl: "0 \<le> d \<Longrightarrow> d \<le> 4 / 5 \<Longrightarrow> glides s d p p"
  using slides_x [of s "b_x p" "b_y p" "b_x p" d] by (simp add: glides_def clear_of_walls_def pos_def)

lemma glides_x:
  assumes "\<bar>x - b_x p\<bar> \<le> d" "d \<le> 4 / 5" "0 \<le> d"
  shows "glides s d p (p\<lparr>b_x := fst (collideAxis s p x (b_y p))\<rparr>)"
  using collideAxis_cases [of s p x "b_y p"]
proof
  assume "collideAxis s p x (b_y p) = (b_x p, b_y p)"
  then show ?thesis using glides_refl [OF assms(3,2), of s p] by simp
next
  assume "collideAxis s p x (b_y p) = (x, b_y p) \<and> clear_at s x (b_y p)"
  then show ?thesis using slides_x [OF _ _ assms] by (simp add: glides_def clear_of_walls_def pos_def body_def)
qed

lemma glides_y:
  assumes "\<bar>y - b_y p\<bar> \<le> d" "d \<le> 4 / 5" "0 \<le> d"
  shows "glides s d p (p\<lparr>b_y := snd (collideAxis s p (b_x p) y)\<rparr>)"
  using collideAxis_cases [of s p "b_x p" y]
proof
  assume "collideAxis s p (b_x p) y = (b_x p, b_y p)"
  then show ?thesis using glides_refl [OF assms(3,2), of s p] by simp
next
  assume "collideAxis s p (b_x p) y = (b_x p, y) \<and> clear_at s (b_x p) y"
  then show ?thesis using slides_y [OF _ _ assms] by (simp add: glides_def clear_of_walls_def pos_def body_def)
qed

lemma centering_bound: "0 \<le> d \<Longrightarrow> \<bar>centering v d\<bar> \<le> d"
  by (auto simp: centering_def Let_def abs_mult sgn_if)

lemma glides_center:
  assumes "d \<le> 4 / 5" "0 \<le> d"
  shows "glides s d p (centerX s d p)" "glides s d p (centerY s d p)"
  using glides_x [of "b_x p + centering (b_x p) d" p d s] glides_y [of "b_y p + centering (b_y p) d" p d s]
    glides_refl [OF assms(2,1)] centering_bound [OF assms(2)] assms
  by (auto simp: centerX_def centerY_def Let_def)

inductive paced :: "BombermanState \<Rightarrow> rat \<Rightarrow> nat \<Rightarrow> rat \<times> rat \<Rightarrow> rat \<times> rat \<Rightarrow> bool" for s d where
  stay: "paced s d 0 a a"
| slide: "\<lbrakk>paced s d n a b; slides s d b c\<rbrakk> \<Longrightarrow> paced s d (Suc n) a c"

lemma leave_bomb_simps [simp]:
  "b_x (leave_bomb p) = b_x p" "b_y (leave_bomb p) = b_y p" "b_alive (leave_bomb p) = b_alive p"
  "b_dx (leave_bomb p) = b_dx p" "b_dy (leave_bomb p) = b_dy p" "b_speed (leave_bomb p) = b_speed p"
  "b_seat (leave_bomb p) = b_seat p" "b_userId (leave_bomb p) = b_userId p" "b_bombsOut (leave_bomb p) = b_bombsOut p"
  "b_maxBombs (leave_bomb p) = b_maxBombs p" "b_flame (leave_bomb p) = b_flame p"
  by (simp_all add: leave_bomb_def split: option.split)

lemma body_fields:
  "body q = body p \<Longrightarrow> b_seat q = b_seat p \<and> b_userId q = b_userId p \<and> b_alive q = b_alive p \<and> b_dx q = b_dx p
     \<and> b_dy q = b_dy p \<and> b_speed q = b_speed p \<and> b_bombsOut q = b_bombsOut p \<and> b_maxBombs q = b_maxBombs p
     \<and> b_flame q = b_flame p \<and> b_standingBomb q = b_standingBomb p \<and> b_diedAt q = b_diedAt p"
  unfolding body_def by (cases p; cases q) simp

text \<open>A tick's movement: two glides for each axis the player presses.\<close>

definition stride :: "BombermanState \<Rightarrow> rat \<Rightarrow> BPlayer \<Rightarrow> BPlayer" where
  "stride s d p =
     (let p = (if b_dx p \<noteq> 0
               then centerY s d (p\<lparr>b_x := fst (collideAxis s p (b_x p + of_int (b_dx p) * d) (b_y p))\<rparr>) else p)
      in if b_dy p \<noteq> 0
         then centerX s d (p\<lparr>b_y := snd (collideAxis s p (b_x p) (b_y p + of_int (b_dy p) * d))\<rparr>) else p)"

lemma movePlayer_stride:
  "movePlayer s dt p = (if \<not> b_alive p \<or> b_dx p = 0 \<and> b_dy p = 0 then p else stride s (b_speed p * dt) (leave_bomb p))"
  by (simp add: movePlayer_def stride_def Let_def)

lemma glides_paced:
  "\<lbrakk>glides s d p q; paced s d n a (pos p); clear_of_walls s p\<rbrakk>
    \<Longrightarrow> paced s d (Suc n) a (pos q) \<and> clear_of_walls s q \<and> body q = body p"
  by (auto simp: glides_def intro: paced.slide)

lemma press_step:
  assumes "\<bar>i\<bar> \<le> 1" "0 \<le> (d :: rat)"
  shows "\<bar>v + of_int i * d - v\<bar> \<le> d"
proof -
  have "i = - 1 \<or> i = 0 \<or> i = 1" using assms(1) by linarith
  then show ?thesis using assms(2) by auto
qed

lemma stride_paced:
  assumes "clear_of_walls s p" "\<bar>b_dx p\<bar> \<le> 1" "\<bar>b_dy p\<bar> \<le> 1" "0 \<le> d" "d \<le> 4 / 5"
  shows "\<exists>n \<le> 4. paced s d n (pos p) (pos (stride s d p)) \<and> clear_of_walls s (stride s d p) \<and> body (stride s d p) = body p"
proof -
  let ?p1 = "p\<lparr>b_x := fst (collideAxis s p (b_x p + of_int (b_dx p) * d) (b_y p))\<rparr>"
  define q where "q = (if b_dx p \<noteq> 0 then centerY s d ?p1 else p)"
  let ?q1 = "q\<lparr>b_y := snd (collideAxis s q (b_x q) (b_y q + of_int (b_dy q) * d))\<rparr>"
  have "\<exists>n \<le> 2. paced s d n (pos p) (pos q) \<and> clear_of_walls s q \<and> body q = body p"
  proof (cases "b_dx p = 0")
    case True
    then show ?thesis using assms(1) paced.stay by (fastforce simp: q_def)
  next
    case False
    have "glides s d p ?p1" by (rule glides_x [OF press_step [OF assms(2,4)] assms(5,4)])
    from glides_paced [OF this paced.stay assms(1)]
    have p1: "paced s d 1 (pos p) (pos ?p1)" "clear_of_walls s ?p1" "body ?p1 = body p" by simp_all
    from glides_paced [OF glides_center(2) [OF assms(5,4)] p1(1,2)] p1(3) show ?thesis
      using False by (auto simp: q_def numeral_2_eq_2)
  qed
  then obtain n where n: "n \<le> 2" "paced s d n (pos p) (pos q)" "clear_of_walls s q" "body q = body p" by blast
  have st: "stride s d p = (if b_dy p \<noteq> 0 then centerX s d ?q1 else q)"
    using body_fields [OF n(4)] by (simp add: stride_def q_def Let_def)
  show ?thesis
  proof (cases "b_dy p = 0")
    case True
    then show ?thesis using n st by (intro exI [of _ n]) simp
  next
    case False
    have dy: "\<bar>b_dy q\<bar> \<le> 1" using body_fields [OF n(4)] assms(3) by simp
    have "glides s d q ?q1" by (rule glides_y [OF press_step [OF dy assms(4)] assms(5,4)])
    from glides_paced [OF this n(2,3)]
    have q1: "paced s d (Suc n) (pos p) (pos ?q1)" "clear_of_walls s ?q1" "body ?q1 = body q" by simp_all
    from glides_paced [OF glides_center(1) [OF assms(5,4)] q1(1,2)] q1(3) n(1,4) show ?thesis
      using False st by (intro exI [of _ "Suc (Suc n)"]) simp
  qed
qed

lemma movePlayer_paced:
  assumes "clear_of_walls s p" "player_ok p" "0 \<le> dt" "dt \<le> 1 / 10"
  shows "\<exists>n \<le> 4. paced s (b_speed p * dt) n (pos p) (pos (movePlayer s dt p)) \<and> clear_of_walls s (movePlayer s dt p)
    \<and> body (movePlayer s dt p) = body (if b_alive p \<and> (b_dx p \<noteq> 0 \<or> b_dy p \<noteq> 0) then leave_bomb p else p)"
proof (cases "\<not> b_alive p \<or> b_dx p = 0 \<and> b_dy p = 0")
  case True
  then show ?thesis using assms(1) paced.stay by (fastforce simp: movePlayer_stride)
next
  case False
  have "0 \<le> b_speed p" "b_speed p \<le> 8" using assms(2) by (auto simp: player_ok_def MAX_SPEED_def BASE_SPEED_def)
  then have "b_speed p * dt \<le> 8 * (1 / 10)" "0 \<le> b_speed p * dt"
    using mult_mono [of "b_speed p" 8 dt "1 / 10"] assms(3,4) by auto
  moreover have "movePlayer s dt p = stride s (b_speed p * dt) (leave_bomb p)" "b_alive p \<and> (b_dx p \<noteq> 0 \<or> b_dy p \<noteq> 0)"
    using False by (auto simp: movePlayer_stride)
  ultimately show ?thesis using stride_paced [of s "leave_bomb p" "b_speed p * dt"] assms(1,2)
    by (auto simp: player_ok_def clear_of_walls_def pos_def)
qed

text \<open>
  C21: A player never goes through a wall or a brick, whatever the latency: a tick's movement is at most four slides
  along one axis, each no longer than speed times the time of the tick, with every position on the way
  clear of walls and bricks, not only the positions the collision test looks at.
\<close>

theorem move_never_crosses_walls:
  assumes "clear_of_walls s p" "player_ok p" "0 \<le> dt" "dt \<le> 1 / 10"
  shows "clear_of_walls s (movePlayer s dt p) \<and> (\<exists>n \<le> 4. paced s (b_speed p * dt) n (pos p) (pos (movePlayer s dt p)))"
  using movePlayer_paced [OF assms] by blast

lemma arena_move:
  assumes "arena_ok s" "k < length (players s)" "0 \<le> dt" "dt \<le> 1 / 10"
  shows "arena_ok (upd_player k (movePlayer s dt) s)"
proof -
  let ?p = "players s ! k"
  have p: "player_ok ?p" "clear_of_walls s ?p" using assms(1,2) by (simp_all add: arena_ok_def players_ok_def)
  have b: "body (movePlayer s dt ?p) = body (if b_alive ?p \<and> (b_dx ?p \<noteq> 0 \<or> b_dy ?p \<noteq> 0) then leave_bomb ?p else ?p)"
    and c: "clear_of_walls s (movePlayer s dt ?p)"
    using movePlayer_paced [OF p(2,1) assms(3,4)] by blast+
  from body_fields [OF b] have f: "b_seat (movePlayer s dt ?p) = b_seat ?p" "b_userId (movePlayer s dt ?p) = b_userId ?p"
    "b_alive (movePlayer s dt ?p) = b_alive ?p" "b_bombsOut (movePlayer s dt ?p) = b_bombsOut ?p"
    "player_ok (movePlayer s dt ?p)"
    using p(1) by (simp_all add: player_ok_def split: if_splits)
  show ?thesis by (rule arena_ok_player [where p = ?p and f = "movePlayer s dt" and s = s and k = k, OF assms(1,2) refl f c])
qed

section \<open>Bombs and explosions\<close>

lemma counted_map:
  assumes "counted bs ps" "\<And>p. p \<in> set ps \<Longrightarrow> b_userId (f p) = b_userId p"
    "\<And>p. p \<in> set ps \<Longrightarrow> b_bombsOut (f p) = bombs_of (b_userId p) cs"
  shows "counted cs (map f ps)"
  using assms by (auto simp: counted_def)

lemma bombs_of_append [simp]: "bombs_of u (bs @ [b]) = bombs_of u bs + (if bo_ownerId b = u then 1 else 0)"
  by (simp add: bombs_of_def)

text \<open>Seen from outside, an update by index of the only player of a user is a map.\<close>

lemma update_user_map:
  assumes "distinct (map b_userId ps)" "k < length ps"
  shows "ps[k := f (ps ! k)] = map (\<lambda>p. if b_userId p = b_userId (ps ! k) then f p else p) ps"
proof (intro nth_equalityI)
  fix i assume i: "i < length (ps[k := f (ps ! k)])"
  then have "b_userId (ps ! i) = b_userId (ps ! k) \<longleftrightarrow> i = k"
    using nth_eq_iff_index_eq [OF assms(1), of i k] assms(2) by simp
  then show "ps[k := f (ps ! k)] ! i = map (\<lambda>p. if b_userId p = b_userId (ps ! k) then f p else p) ps ! i"
    using i assms(2) by (auto simp: nth_list_update)
qed simp

lemma arena_place:
  assumes "arena_ok s" "k < length (players s)" "i \<notin> bo_id ` set (bombs s)"
  shows "arena_ok (snd (placeBomb i k now s))"
proof (cases "fst (placeBomb i k now s)")
  case None
  then show ?thesis using assms(1) by (auto simp: placeBomb_def Let_def split: if_splits)
next
  case (Some b)
  let ?p = "players s ! k"
  let ?c = "js_round (b_x ?p)" and ?r = "js_round (b_y ?p)"
  let ?f = "\<lambda>p. p\<lparr>b_bombsOut := b_bombsOut p + 1, b_standingBomb := Some (?c, ?r)\<rparr>"
  let ?t = "snd (placeBomb i k now s)"
  have g: "b_bombsOut ?p < b_maxBombs ?p" "tileAt s ?c ?r = EMPTY" "bomb_at s ?c ?r = None"
    using Some by (auto simp: placeBomb_def Let_def split: if_splits)
  have t: "bombs ?t = bombs s @ [b]" "players ?t = (players s)[k := ?f ?p]" "grid ?t = grid s" "cols ?t = cols s"
    "rows ?t = rows s" "deathOrder ?t = deathOrder s" and b: "bo_id b = i" "pos_of b = (?c, ?r)" "bo_ownerId b = b_userId ?p"
    using Some by (auto simp: placeBomb_def Let_def pos_of_def split: if_splits)
  have "same_seats (players s) (players ?t)" unfolding t(2) using assms(2) by (intro same_seats_upd) simp_all
  then have "seats_ok (players ?t) \<and> deaths_ok (players ?t) (deathOrder ?t)"
    using same_seats_ok assms(1) t(6) by (simp add: arena_ok_def)
  moreover have "players_ok ?t"
    unfolding players_ok_def clear_of_walls_frame [OF t(4,5,3)] t(2)
    by (rule set_update_all) (use assms(1,2) g(1) in \<open>auto simp: arena_ok_def players_ok_def player_ok_def clear_of_walls_def\<close>)
  moreover have "counted (bombs ?t) (players ?t)"
  proof -
    have "distinct (map b_userId (players s))" using assms(1) by (simp add: arena_ok_def seats_ok_def)
    from update_user_map [OF this assms(2), of ?f] show ?thesis
      using assms(1) b(3) unfolding t(1,2) by (auto simp: arena_ok_def counted_def)
  qed
  moreover have "bombs_ok ?t"
    using assms(1,3) g(2,3) b
    by (auto simp: bombs_ok_def arena_ok_def t(1) tileAt_frame [OF t(4,5,3)] bomb_at_def find_None_iff_all pos_of_def)
  ultimately show ?thesis using assms(1) t by (simp add: arena_ok_def grid_ok_def)
qed

text \<open>The bombs of an explosion that have not gone off.\<close>

definition live_bombs :: "Blast \<Rightarrow> Bomb list" where
  "live_bombs x = filter (\<lambda>b. b \<notin> set (detonated x)) (bombs (world x))"

definition blast_ok :: "Blast \<Rightarrow> bool" where
  "blast_ok x \<longleftrightarrow> grid_ok (world x) \<and> seats_ok (players (world x)) \<and> players_ok (world x) \<and> bombs_ok (world x)
     \<and> counted (live_bombs x) (players (world x)) \<and> deaths_ok (players (world x)) (deathOrder (world x))"

lemma bombs_ok_wear: "\<lbrakk>bombs_ok s; tiles_wear s t; grid_ok s; bombs t = bombs s\<rbrakk> \<Longrightarrow> bombs_ok t"
  using tiles_wear_tileAt(1) by (simp add: bombs_ok_def)

lemma players_ok_wear: "\<lbrakk>players_ok s; tiles_wear s t; grid_ok s; players t = players s\<rbrakk> \<Longrightarrow> players_ok t"
  by (auto simp: players_ok_def intro: clear_of_walls_wear)

text \<open>A bomb that goes off leaves its owner with one bomb less out, and nobody else.\<close>

lemma live_gone_off: "live_bombs (gone_off b x) = filter (\<lambda>c. c \<noteq> b) (live_bombs x)"
  by (auto simp: live_bombs_def intro!: filter_cong)

lemma bombs_of_remove:
  "\<lbrakk>distinct bs; b \<in> set bs\<rbrakk> \<Longrightarrow>
    bombs_of u (filter (\<lambda>c. c \<noteq> b) bs) = (if bo_ownerId b = u then bombs_of u bs - 1 else bombs_of u bs)"
proof -
  assume a: "distinct bs" "b \<in> set bs"
  then obtain ys zs where bs: "bs = ys @ b # zs" "b \<notin> set ys" "b \<notin> set zs"
    by (metis distinct.simps(2) distinct_append in_set_conv_decomp not_distinct_conv_prefix split_list_first)
  have "filter (\<lambda>c. c \<noteq> b) ys = ys" "filter (\<lambda>c. c \<noteq> b) zs = zs"
    using bs(2,3) by (auto simp: filter_id_conv)
  then show ?thesis unfolding bs(1) by (simp add: bombs_of_def)
qed

lemma gone_off_players:
  assumes "distinct (map b_userId (players (world x)))"
  shows "players (world (gone_off b x)) =
    map (\<lambda>p. if b_userId p = bo_ownerId b then p\<lparr>b_bombsOut := b_bombsOut p - 1\<rparr> else p) (players (world x))"
  by (simp add: gone_off_def free_owner_def updateOne_key_map [OF assms])

lemma gone_off_ok:
  assumes "blast_ok x" "b \<in> set (bombs (world x))" "b \<notin> set (detonated x)"
  shows "blast_ok (gone_off b x)"
proof -
  let ?y = "gone_off b x" and ?f = "\<lambda>p. if b_userId p = bo_ownerId b then p\<lparr>b_bombsOut := b_bombsOut p - 1\<rparr> else p"
  have w: "cols (world ?y) = cols (world x)" "rows (world ?y) = rows (world x)" "grid (world ?y) = grid (world x)"
    "deathOrder (world ?y) = deathOrder (world x)" by (simp_all add: gone_off_def free_owner_def)
  have ps: "players (world ?y) = map ?f (players (world x))"
    using assms(1) by (intro gone_off_players) (simp add: blast_ok_def seats_ok_def)
  have "same_seats (players (world x)) (players (world ?y))"
    unfolding ps by (auto simp: same_seats_def list_all2_conv_all_nth)
  then have "seats_ok (players (world ?y)) \<and> deaths_ok (players (world ?y)) (deathOrder (world ?y))"
    using same_seats_ok assms(1) w(4) by (simp add: blast_ok_def)
  moreover have "players_ok (world ?y)"
    using assms(1) unfolding players_ok_def clear_of_walls_frame [OF w(1-3)] ps
    by (auto simp: blast_ok_def players_ok_def player_ok_def clear_of_walls_def)
  moreover have "counted (live_bombs ?y) (players (world ?y))"
  proof -
    have "distinct (bombs (world x))" using assms(1) by (auto simp: blast_ok_def bombs_ok_def distinct_map)
    then have "distinct (live_bombs x)" "b \<in> set (live_bombs x)" using assms(2,3) by (auto simp: live_bombs_def)
    note remove = bombs_of_remove [OF this]
    have "counted (live_bombs x) (players (world x))" using assms(1) by (simp add: blast_ok_def)
    then show ?thesis unfolding ps live_gone_off by (rule counted_map) (use \<open>counted _ _\<close> in \<open>auto simp: remove counted_def\<close>)
  qed
  moreover have "bombs_ok (world ?y)"
    using assms(1) bombs_ok_frame [OF w(1-3), of] by (simp add: blast_ok_def)
  ultimately show ?thesis using assms(1) w by (simp add: blast_ok_def grid_ok_def)
qed

lemma break_brick_ok:
  assumes "blast_ok x" "tileAt (world x) c r = BRICK"
  shows "blast_ok (break_brick c r x)"
proof -
  note wear = break_brick_wears [OF assms(2)]
  have g: "grid_ok (world x)" using assms(1) by (simp add: blast_ok_def)
  show ?thesis
    using assms(1) tiles_wear_grid [OF wear g] players_ok_wear [OF _ wear g] bombs_ok_wear [OF _ wear g]
    by (simp add: blast_ok_def live_bombs_def)
qed

lemma push_flame_ok: "blast_ok x \<Longrightarrow> blast_ok (push_flame now c r x)"
proof -
  assume a: "blast_ok x"
  have f: "cols (world (push_flame now c r x)) = cols (world x)" "rows (world (push_flame now c r x)) = rows (world x)"
    "grid (world (push_flame now c r x)) = grid (world x)" "players (world (push_flame now c r x)) = players (world x)"
    "deathOrder (world (push_flame now c r x)) = deathOrder (world x)"
    by (simp_all add: push_flame_def)
  show ?thesis using a bombs_ok_frame [OF f(1-3)] f clear_of_walls_frame [OF f(1-3)]
    by (simp add: blast_ok_def live_bombs_def grid_ok_def players_ok_def)
qed

text \<open>An explosion keeps the arena and only breaks bricks.\<close>

interpretation sound: explosion "\<lambda>x y. blast_ok x \<longrightarrow> blast_ok y \<and> tiles_wear (world x) (world y)"
proof (unfold_locales, goal_cases)
  case (5 b x)
  show ?case using gone_off_ok [of x b] 5
    by (auto simp: gone_off_def free_owner_def tiles_wear_def)
next
  case (3 x now c r)
  show ?case using push_flame_ok by (simp add: push_flame_def tiles_wear_same)
qed (auto simp: break_brick_ok break_brick_wears intro: tiles_wear_trans)

lemma arena_blast0: "arena_ok s \<Longrightarrow> blast_ok (blast0 s q)"
  by (simp add: arena_ok_def blast_ok_def live_bombs_def)

lemma arena_explode:
  assumes "arena_ok s"
  shows "arena_ok (fst (snd (explode_due now s q)))" "tiles_wear s (fst (snd (explode_due now s q)))"
proof -
  let ?x = "blast_of now s q" and ?t = "fst (snd (explode_due now s q))"
  have x: "blast_ok ?x" "tiles_wear s (world ?x)" using sound.blast [of s q now] arena_blast0 [OF assms] by auto
  have t: "cols ?t = cols (world ?x)" "rows ?t = rows (world ?x)" "grid ?t = grid (world ?x)"
    "players ?t = players (world ?x)" "deathOrder ?t = deathOrder (world ?x)" "bombs ?t = live_bombs ?x"
    by (simp_all add: explode_due_blast live_bombs_def)
  show "arena_ok ?t" using x(1) clear_of_walls_frame [OF t(1-3)]
    by (auto simp: arena_ok_def blast_ok_def t grid_ok_def players_ok_def bombs_ok_def tileAt_frame [OF t(1-3)]
        live_bombs_def intro: distinct_map_filter)
  show "tiles_wear s ?t" using x(2) t(1-3) by (simp add: tiles_wear_def)
qed

section \<open>The rest of a tick\<close>

lemma arena_ok_frame:
  "\<lbrakk>arena_ok s; cols t = cols s; rows t = rows s; grid t = grid s; players t = players s; bombs t = bombs s;
    deathOrder t = deathOrder s\<rbrakk> \<Longrightarrow> arena_ok t"
  using bombs_ok_frame [of t s] clear_of_walls_frame [of t s] by (simp add: arena_ok_def grid_ok_def players_ok_def)

lemma applyPower_simps [simp]:
  "b_seat (applyPower t p) = b_seat p" "b_userId (applyPower t p) = b_userId p" "b_alive (applyPower t p) = b_alive p"
  "b_bombsOut (applyPower t p) = b_bombsOut p" "b_x (applyPower t p) = b_x p" "b_y (applyPower t p) = b_y p"
  by (simp_all add: applyPower_def split: PowerType.split)

lemma applyPower_ok: "player_ok p \<Longrightarrow> player_ok (applyPower t p)"
  by (cases t) (auto simp: player_ok_def applyPower_def START_BOMBS_def START_FLAME_def MAX_BOMBS_def MAX_FLAME_def
      BASE_SPEED_def MAX_SPEED_def SPEED_STEP_def)

lemma pickup_cases:
  obtains "pickup k us = us"
  | u where "b_alive (players (snd us) ! k)" "on_tile (players (snd us) ! k) (pu_col u) (pu_row u)" "u \<in> set (powerups (snd us))"
    "snd (pickup k us) = upd_player k (applyPower (pu_type u)) ((snd us)\<lparr>powerups :=
       deleteOne (\<lambda>u. on_tile (players (snd us) ! k) (pu_col u) (pu_row u)) (powerups (snd us))\<rparr>)"
proof (cases "b_alive (players (snd us) ! k)")
  case alive: True
  show thesis
  proof (cases "List.find (\<lambda>u. on_tile (players (snd us) ! k) (pu_col u) (pu_row u)) (powerups (snd us))")
    case (Some u)
    from find_Some_iff_mem [OF Some] that(2) [of u] alive Some show thesis by (simp add: pickup_def Let_def)
  qed (use that(1) alive in \<open>simp add: pickup_def Let_def\<close>)
qed (use that(1) in \<open>simp add: pickup_def Let_def\<close>)

lemma arena_pickup:
  assumes "arena_ok (snd us)" "k < length (players (snd us))"
  shows "arena_ok (snd (pickup k us)) \<and> grid (snd (pickup k us)) = grid (snd us)
    \<and> length (players (snd (pickup k us))) = length (players (snd us))"
proof (cases k us rule: pickup_cases)
  case (2 u)
  let ?p = "players (snd us) ! k" and ?f = "applyPower (pu_type u)"
  let ?s = "(snd us)\<lparr>powerups := deleteOne (\<lambda>u. on_tile (players (snd us) ! k) (pu_col u) (pu_row u)) (powerups (snd us))\<rparr>"
  have s: "arena_ok ?s" by (rule arena_ok_frame [OF assms(1)]) simp_all
  have p: "player_ok ?p" "clear_of_walls ?s ?p" using s assms(2) by (auto simp: arena_ok_def players_ok_def)
  have "arena_ok (upd_player k ?f ?s)"
    by (rule arena_ok_player [where p = ?p, OF s]) (use assms(2) p applyPower_ok in \<open>simp_all add: clear_of_walls_def\<close>)
  then show ?thesis using 2(4) by simp
qed (use assms in simp)

lemma deaths_ok_die:
  assumes "deaths_ok ps ds" "k < length ps" "b_alive (ps ! k)" "\<not> b_alive p"
  shows "deaths_ok (ps[k := p]) (ds @ [k])"
  using assms by (auto simp: deaths_ok_def nth_list_update)

text \<open>The death of a player, as the tick and a player's leaving record it.\<close>

definition die :: "int \<Rightarrow> nat \<Rightarrow> BombermanState \<Rightarrow> BombermanState" where
  "die now k s =
     (upd_player k (\<lambda>p. p\<lparr>b_alive := False, b_diedAt := Some now\<rparr>) s)\<lparr>deathOrder := deathOrder s @ [k]\<rparr>"

lemma seats_upd:
  assumes "seats_ok ps" "k < length ps" "b_seat (f (ps ! k)) = b_seat (ps ! k)" "b_userId (f (ps ! k)) = b_userId (ps ! k)"
  shows "seats_ok (ps[k := f (ps ! k)])"
proof -
  have "map g (ps[k := f (ps ! k)]) = map g ps" if "g (f (ps ! k)) = g (ps ! k)" for g :: "BPlayer \<Rightarrow> nat"
    using that assms(2) by (intro nth_equalityI) (auto simp: nth_list_update)
  then show ?thesis using assms by (simp add: seats_ok_def)
qed

lemma arena_die:
  assumes "arena_ok s" "k < length (players s)" "b_alive (players s ! k)"
  shows "arena_ok (die now k s)"
proof -
  let ?f = "\<lambda>p. p\<lparr>b_alive := False, b_diedAt := Some now\<rparr>"
  have p: "players s ! k \<in> set (players s)" using assms(2) by simp
  have d: "cols (die now k s) = cols s" "rows (die now k s) = rows s" "grid (die now k s) = grid s" "bombs (die now k s) = bombs s"
    "players (die now k s) = (players s)[k := ?f (players s ! k)]" "deathOrder (die now k s) = deathOrder s @ [k]"
    by (simp_all add: die_def)
  have "players_ok (die now k s)"
    unfolding players_ok_def clear_of_walls_frame [OF d(1-3)] d(5)
    by (rule set_update_all) (use assms(1) p in \<open>simp_all add: arena_ok_def players_ok_def player_ok_def clear_of_walls_def\<close>)
  moreover have "counted (bombs s) (players (die now k s))"
    unfolding counted_def d(5)
    by (rule set_update_all) (use assms(1) p in \<open>simp_all add: arena_ok_def counted_def\<close>)
  ultimately show ?thesis
    using assms seats_upd [of "players s" k ?f] deaths_ok_die [of "players s" "deathOrder s" k "?f (players s ! k)"]
      bombs_ok_frame [OF d(1-4)] by (simp add: arena_ok_def d grid_ok_def)
qed

lemma burn_die:
  assumes "arena_ok (snd ds)" "k < length (players (snd ds))"
  shows "burn now k ds =
    (if b_alive (players (snd ds) ! k) \<and> (\<exists>f \<in> set (flames (snd ds)). on_tile (players (snd ds) ! k) (fl_col f) (fl_row f))
     then (fst ds @ [k], die now k (snd ds)) else ds)"
proof -
  have "b_seat (players (snd ds) ! k) = k" using seat_nth assms by (simp add: arena_ok_def)
  moreover have "k \<notin> set (deathOrder (snd ds))" if "b_alive (players (snd ds) ! k)"
    using that assms by (simp add: arena_ok_def deaths_ok_def)
  ultimately show ?thesis by (simp add: burn_def Let_def die_def)
qed

text \<open>The players a pass over the seats up to \<open>n\<close> burns.\<close>

definition in_flames :: "BombermanState \<Rightarrow> nat \<Rightarrow> bool" where
  "in_flames s k \<longleftrightarrow> b_alive (players s ! k) \<and> (\<exists>f \<in> set (flames s). on_tile (players s ! k) (fl_col f) (fl_row f))"

lemma die_simps [simp]:
  "flames (die now k s) = flames s" "length (players (die now k s)) = length (players s)" "grid (die now k s) = grid s"
  "cols (die now k s) = cols s" "rows (die now k s) = rows s" "deathOrder (die now k s) = deathOrder s @ [k]"
  "players (die now k s) = (players s)[k := (players s ! k)\<lparr>b_alive := False, b_diedAt := Some now\<rparr>]"
  by (simp_all add: die_def)

definition burnt :: "int \<Rightarrow> nat \<Rightarrow> BombermanState \<Rightarrow> BombermanState" where
  "burnt now n s = s\<lparr>players := map (\<lambda>k. if k < n \<and> in_flames s k
       then (players s ! k)\<lparr>b_alive := False, b_diedAt := Some now\<rparr> else players s ! k) [0..<length (players s)],
     deathOrder := deathOrder s @ filter (in_flames s) [0..<n]\<rparr>"

lemma burn_fold:
  assumes "arena_ok s"
  shows "n \<le> length (players s) \<Longrightarrow>
    fold (burn now) [0..<n] ([], s) = (filter (in_flames s) [0..<n], burnt now n s) \<and> arena_ok (burnt now n s)"
proof (induction n)
  case 0
  have "burnt now 0 s = s" by (simp add: burnt_def map_nth)
  then show ?case using assms by simp
next
  case (Suc n)
  let ?t = "burnt now n s"
  have IH: "fold (burn now) [0..<n] ([], s) = (filter (in_flames s) [0..<n], ?t)" "arena_ok ?t"
    and n: "n < length (players ?t)" "players ?t ! n = players s ! n" "flames ?t = flames s"
    using Suc by (simp_all add: burnt_def)
  have step: "burn now n (filter (in_flames s) [0..<n], ?t)
      = (if in_flames s n then (filter (in_flames s) [0..<n] @ [n], die now n ?t) else (filter (in_flames s) [0..<n], ?t))"
    using burn_die [of "(filter (in_flames s) [0..<n], ?t)" n now] IH(2) n by (simp add: in_flames_def)
  show ?case
  proof (cases "in_flames s n")
    case True
    have ps: "players (burnt now (Suc n) s) = (players ?t)[n := (players s ! n)\<lparr>b_alive := False, b_diedAt := Some now\<rparr>]"
      using True Suc.prems
      by (intro nth_equalityI) (auto simp: burnt_def nth_list_update less_Suc_eq simp del: upt_Suc)
    have b: "burnt now (Suc n) s = die now n ?t"
      using ps True n(2) by (simp add: burnt_def die_def upd_player_def)
    have "b_alive (players ?t ! n)" using True n(2) by (simp add: in_flames_def)
    then show ?thesis using step True IH arena_die [OF IH(2) n(1)] b by simp
  next
    case False
    then have "(k < Suc n \<and> in_flames s k) = (k < n \<and> in_flames s k)" for k by (auto simp: less_Suc_eq)
    then have "burnt now (Suc n) s = ?t" using False by (simp add: burnt_def)
    then show ?thesis using step False IH by simp
  qed
qed

text \<open>What a tick does to the world before anyone burns.\<close>

definition before_burning :: "int \<Rightarrow> BombermanState \<Rightarrow> rng \<Rightarrow> BombermanState" where
  "before_burning now s q =
     (let s = expire_flames now (fst (snd (explode_due now s q)))
      in snd (fold pickup [0..<length (players s)] ([], s)))"

lemma pickup_fold:
  assumes "arena_ok s" "set ks \<subseteq> {0..<length (players s)}"
  shows "arena_ok (snd (fold pickup ks ([], s))) \<and> tiles_wear s (snd (fold pickup ks ([], s)))
    \<and> length (players (snd (fold pickup ks ([], s)))) = length (players s)
    \<and> flames (snd (fold pickup ks ([], s))) = flames s"
proof (rule fold_invariant [where Q = "\<lambda>k. k < length (players s)"])
  fix k and us :: "(nat \<times> PowerType) list \<times> BombermanState"
  assume k: "k < length (players s)"
    and us: "arena_ok (snd us) \<and> tiles_wear s (snd us) \<and> length (players (snd us)) = length (players s) \<and> flames (snd us) = flames s"
  have "tiles_wear (snd us) (snd (pickup k us)) \<and> flames (snd (pickup k us)) = flames (snd us)"
    by (cases k us rule: pickup_cases) (simp_all add: tiles_wear_same)
  then show "arena_ok (snd (pickup k us)) \<and> tiles_wear s (snd (pickup k us))
      \<and> length (players (snd (pickup k us))) = length (players s) \<and> flames (snd (pickup k us)) = flames s"
    using arena_pickup [of us k] k us tiles_wear_trans by simp blast
qed (use assms in auto)

lemma before_burning_ok:
  assumes "arena_ok s"
  shows "arena_ok (before_burning now s q)" "tiles_wear s (before_burning now s q)"
    "\<forall>f \<in> set (flames (before_burning now s q)). now < fl_until f"
proof -
  let ?e = "fst (snd (explode_due now s q))" and ?x = "expire_flames now (fst (snd (explode_due now s q)))"
  have x: "arena_ok ?x" "tiles_wear s ?x"
    using arena_ok_frame [OF arena_explode(1) [OF assms, of now q], of ?x] arena_explode(2) [OF assms, of now q]
    by (simp_all add: expire_flames_def tiles_wear_def)
  have "\<forall>f \<in> set (flames ?x). now < fl_until f" by (simp add: expire_flames_def)
  then show "arena_ok (before_burning now s q)" "tiles_wear s (before_burning now s q)"
      "\<forall>f \<in> set (flames (before_burning now s q)). now < fl_until f"
    using pickup_fold [OF x(1), of "[0..<length (players ?x)]"] tiles_wear_trans [OF x(2)]
    unfolding before_burning_def Let_def by auto
qed

lemma length_before_burning: "arena_ok s \<Longrightarrow> length (players (before_burning now s q)) = length (players (fst (snd (explode_due now s q))))"
proof -
  assume a: "arena_ok s"
  let ?x = "expire_flames now (fst (snd (explode_due now s q)))"
  have "arena_ok ?x" by (rule arena_ok_frame [OF arena_explode(1) [OF a, of now q]]) (simp_all add: expire_flames_def)
  from pickup_fold [OF this, of "[0..<length (players ?x)]"] show ?thesis
    unfolding before_burning_def Let_def by (simp add: expire_flames_def)
qed

lemma tickWorld_burnt:
  fixes now :: int and q :: rng
  assumes "arena_ok s"
  defines "w \<equiv> before_burning now s q"
  shows "fst (snd (tickWorld now s q)) = burnt now (length (players w)) w
    \<and> tk_deaths (fst (tickWorld now s q)) = filter (in_flames w) [0..<length (players w)]"
proof -
  let ?s = "expire_flames now (fst (snd (explode_due now s q)))"
  have "fold (burn now) [0..<length (players w)] ([], w) = (filter (in_flames w) [0..<length (players w)], burnt now (length (players w)) w)"
    using burn_fold [OF before_burning_ok(1) [OF assms(1)], of "length (players w)" now q now] w_def by simp
  then show ?thesis
    unfolding tickWorld_def w_def before_burning_def Let_def by (simp add: split_beta)
qed

text \<open>The world's tick keeps the arena sound and only turns bricks into empty tiles.\<close>

lemma arena_tick:
  assumes "arena_ok s"
  shows "arena_ok (fst (snd (tickWorld now s q))) \<and> tiles_wear s (fst (snd (tickWorld now s q)))"
proof -
  let ?w = "before_burning now s q"
  have t: "fst (snd (tickWorld now s q)) = burnt now (length (players ?w)) ?w" using tickWorld_burnt [OF assms] by blast
  have "arena_ok (burnt now (length (players ?w)) ?w)"
    using burn_fold [OF before_burning_ok(1) [OF assms], of "length (players ?w)" now q now] by simp
  moreover have "tiles_wear s (burnt now (length (players ?w)) ?w)"
    using before_burning_ok(2) [OF assms, of now q] by (simp add: burnt_def tiles_wear_def)
  ultimately show ?thesis unfolding t by simp
qed

text \<open>
  A tick kills exactly those who stand in fire: afterwards no living player is on a burning tile, everyone the
  tick reports dead is dead on a burning tile, and the dead are recorded in the order of death, lower seats first within
  a tick. No flame outlives its time.
\<close>

theorem tick_burns_exactly:
  assumes "arena_ok s" "tickWorld now s q = (r, t, q')"
  shows "(\<forall>p \<in> set (players t). b_alive p \<longrightarrow> (\<forall>f \<in> set (flames t). \<not> on_tile p (fl_col f) (fl_row f)))
    \<and> (\<forall>k \<in> set (tk_deaths r). \<not> b_alive (players t ! k) \<and> (\<exists>f \<in> set (flames t). on_tile (players t ! k) (fl_col f) (fl_row f)))
    \<and> (\<forall>f \<in> set (flames t). now < fl_until f)
    \<and> sorted (tk_deaths r) \<and> (\<exists>ds. deathOrder t = ds @ tk_deaths r)"
proof -
  let ?w = "before_burning now s q"
  have t: "t = burnt now (length (players ?w)) ?w" and r: "tk_deaths r = filter (in_flames ?w) [0..<length (players ?w)]"
    using tickWorld_burnt [OF assms(1), of now q] assms(2) by simp_all
  have fl: "flames t = flames ?w" by (simp add: t burnt_def)
  have p: "players t = map (\<lambda>k. if in_flames ?w k then (players ?w ! k)\<lparr>b_alive := False, b_diedAt := Some now\<rparr>
      else players ?w ! k) [0..<length (players ?w)]"
    unfolding t by (simp add: burnt_def cong: map_cong)
  have "\<not> on_tile p (fl_col f) (fl_row f)" if pf: "p \<in> set (players t)" "b_alive p" "f \<in> set (flames t)" for p f
  proof -
    obtain k where "p = players ?w ! k" "\<not> in_flames ?w k" using pf(1,2) unfolding p by (auto split: if_splits)
    then show ?thesis using pf(2,3) unfolding fl in_flames_def by blast
  qed
  moreover have "\<not> b_alive (players t ! k) \<and> (\<exists>f \<in> set (flames t). on_tile (players t ! k) (fl_col f) (fl_row f))"
    if "k \<in> set (tk_deaths r)" for k
  proof -
    have k: "k < length (players ?w)" "in_flames ?w k" using that by (auto simp: r)
    then have "players t ! k = (players ?w ! k)\<lparr>b_alive := False, b_diedAt := Some now\<rparr>" by (simp add: p)
    then show ?thesis using k(2) by (auto simp: in_flames_def fl on_tile_def)
  qed
  moreover have "sorted (tk_deaths r)" by (simp add: r sorted_wrt_filter)
  moreover have "\<exists>ds. deathOrder t = ds @ tk_deaths r" by (simp add: t r burnt_def)
  ultimately show ?thesis using before_burning_ok(3) [OF assms(1), of now q] unfolding fl by blast
qed

section \<open>A new arena\<close>

lemma arena_new:
  assumes "grid_ok s" "distinct us" "players s = map (\<lambda>k. spawn_player (cols s) (rows s) (us ! k) k) [0..<length us]"
    "bombs s = []" "deathOrder s = []" "\<forall>c \<in> set (spawnCorners (cols s) (rows s)). tileAt s (fst c) (snd c) = EMPTY"
  shows "arena_ok s"
proof -
  have corner: "spawnCorners cs rs ! (k mod 4) \<in> set (spawnCorners cs rs)" for cs rs k
    by (rule nth_mem) (simp add: spawnCorners_def)
  have round: "js_round (of_int i - PLAYER_RADIUS) = i" "js_round (of_int i + PLAYER_RADIUS) = i" for i
    unfolding js_round_def PLAYER_RADIUS_def by linarith+
  have "player_ok (spawn_player cs rs u k) \<and> b_bombsOut (spawn_player cs rs u k) = 0 \<and> b_alive (spawn_player cs rs u k)
      \<and> b_seat (spawn_player cs rs u k) = k \<and> b_userId (spawn_player cs rs u k) = u
      \<and> touched (b_x (spawn_player cs rs u k)) (b_y (spawn_player cs rs u k)) = [spawnCorners cs rs ! (k mod 4)]" for cs rs u k
    by (simp add: spawn_player_def Let_def player_ok_def touched_def round START_BOMBS_def START_FLAME_def BASE_SPEED_def
        MAX_BOMBS_def MAX_FLAME_def MAX_SPEED_def)
  note sp = this
  have "map (\<lambda>k. us ! k) [0..<length us] = us" by (simp add: map_nth)
  then have "seats_ok (players s)" using assms(2) sp by (simp add: seats_ok_def assms(3) comp_def)
  moreover have "players_ok s"
    using sp corner assms(6) unfolding assms(3) players_ok_def clear_of_walls_def clear_at_def by simp
  moreover have "counted (bombs s) (players s)" using sp unfolding assms(3,4) counted_def bombs_of_def by simp
  moreover have "deaths_ok (players s) (deathOrder s)" using sp unfolding assms(3,5) deaths_ok_def by simp
  ultimately show ?thesis using assms(1,4) by (simp add: arena_ok_def bombs_ok_def)
qed

lemma getMap_mem: "getMap i \<in> set MAPS"
  by (auto simp: getMap_def MAPS_def split: option.split dest: find_Some_iff_mem)

lemma index_inj:
  assumes "nat (r * n + c) = nat (r' * n + c')" "0 \<le> c" "c < n" "0 \<le> c'" "c' < n" "0 \<le> r" "0 \<le> r'"
  shows "r = r' \<and> c = (c' :: int)"
proof -
  have "0 \<le> r * n" "0 \<le> r' * n" using assms by auto
  then have e: "r * n + c = r' * n + c'" using assms(1,2,4) by (simp add: nat_eq_iff)
  have "(r * n + c) div n = r" "(r' * n + c') div n = r'" using assms(2-5) by (simp_all add: div_pos_pos_trivial)
  with e have "r = r'" by simp
  then show ?thesis using e by simp
qed

lemma cells_of_mem: "(r, c) \<in> set (cells_of r1 r2 c1 c2) \<longleftrightarrow> r1 \<le> r \<and> r \<le> r2 \<and> c1 \<le> c \<and> c \<le> c2"
  by (auto simp: cells_of_def image_iff)

lemma length_cells_of: "length (cells_of 0 (m - 1) 0 (n - 1)) = nat m * nat n"
  by (simp add: cells_of_def length_concat comp_def sum_list_triv)

lemma maybe_brick_fst: "fst (maybe_brick p i gq) = fst gq \<or> fst (maybe_brick p i gq) = (fst gq)[i := BRICK]"
  by (simp add: maybe_brick_def split_beta Let_def)

lemma keep_cell:
  "nat (r * n + c) \<noteq> i \<Longrightarrow> fst (maybe_brick p (nat (r * n + c)) gq) ! i = fst gq ! i"
  using maybe_brick_fst [of p "nat (r * n + c)" gq] by auto

text \<open>A spawn corner of a map with borders and pillars on even cells is never filled.\<close>

definition corner_at :: "MapDef \<Rightarrow> int \<times> int \<Rightarrow> nat" where
  "corner_at d c = nat (snd c * md_cols d + fst c)"

lemma spawn_safe: "c \<in> set (spawnCorners cs rs) \<Longrightarrow> isSpawnSafe (fst c) (snd c) cs rs"
  by (auto simp: isSpawnSafe_def intro!: bexI [of _ c])

lemma cell_keeps_corner:
  assumes "odd (md_cols d)" "odd (md_rows d)" "5 \<le> md_cols d" "5 \<le> md_rows d"
    "c \<in> set (spawnCorners (md_cols d) (md_rows d))" "rc \<in> set (cells_of 0 (md_rows d - 1) 0 (md_cols d - 1))"
  shows "fst (classic_cell d rc gq) ! corner_at d c = fst gq ! corner_at d c
     \<and> fst (sprinkle d rc gq) ! corner_at d c = fst gq ! corner_at d c"
proof -
  obtain r k where rc: "rc = (r, k)" by fastforce
  have k: "0 \<le> r" "r \<le> md_rows d - 1" "0 \<le> k" "k \<le> md_cols d - 1" using assms(6) by (simp_all add: rc cells_of_mem)
  have c: "0 < fst c" "fst c < md_cols d - 1" "0 < snd c" "snd c < md_rows d - 1" "odd (fst c)" "odd (snd c)"
    using assms(1-5) by (auto simp: spawnCorners_def)
  show ?thesis
  proof (cases "k = fst c \<and> r = snd c")
    case True
    then have "isSpawnSafe k r (md_cols d) (md_rows d)" using spawn_safe [OF assms(5)] by simp
    moreover have "k \<noteq> 0" "r \<noteq> 0" "k \<noteq> md_cols d - 1" "r \<noteq> md_rows d - 1" "k mod 2 \<noteq> 0"
      using True c by (auto simp: even_iff_mod_2_eq_zero)
    ultimately show ?thesis by (simp add: classic_cell_def sprinkle_def Let_def rc)
  next
    case False
    then have "nat (r * md_cols d + k) \<noteq> corner_at d c"
      using index_inj [of r "md_cols d" k "snd c" "fst c"] k c by (auto simp: corner_at_def)
    then show ?thesis by (simp add: classic_cell_def sprinkle_def Let_def rc keep_cell)
  qed
qed

lemma cell_length:
  "length (fst (classic_cell d rc gq)) = length (fst gq)" "length (fst (sprinkle d rc gq)) = length (fst gq)"
proof -
  have "length (fst (maybe_brick p i gq)) = length (fst gq)" for p i
    using maybe_brick_fst [of p i gq] by auto
  then show "length (fst (classic_cell d rc gq)) = length (fst gq)" "length (fst (sprinkle d rc gq)) = length (fst gq)"
    by (simp_all add: classic_cell_def sprinkle_def Let_def)
qed

definition map_ok :: "MapDef \<Rightarrow> bool" where
  "map_ok d \<longleftrightarrow> odd (md_cols d) \<and> odd (md_rows d) \<and> 5 \<le> md_cols d \<and> 5 \<le> md_rows d
     \<and> (case md_layout d of None \<Rightarrow> True
        | Some l \<Rightarrow> list_all (\<lambda>c. map (layout_tile l) (cells_of 0 (md_rows d - 1) 0 (md_cols d - 1)) ! corner_at d c = EMPTY)
            (spawnCorners (md_cols d) (md_rows d)))"

lemma maps_ok: "list_all map_ok MAPS"
  by code_simp

lemma build_grid_ok:
  assumes "map_ok d"
  shows "length (fst (build_grid d q)) = nat (md_cols d * md_rows d)"
    "c \<in> set (spawnCorners (md_cols d) (md_rows d)) \<Longrightarrow> fst (build_grid d q) ! corner_at d c = EMPTY"
proof -
  let ?n = "nat (md_cols d * md_rows d)" and ?cells = "cells_of 0 (md_rows d - 1) 0 (md_cols d - 1)"
  let ?I = "\<lambda>gq :: Tile list \<times> rng. length (fst gq) = ?n \<and> (\<forall>c \<in> set (spawnCorners (md_cols d) (md_rows d)). fst gq ! corner_at d c = EMPTY)"
  have odd: "odd (md_cols d)" "odd (md_rows d)" "5 \<le> md_cols d" "5 \<le> md_rows d" using assms by (simp_all add: map_ok_def)
  note keeps = cell_keeps_corner [OF odd]
  have step: "?I (classic_cell d rc gq)" "?I (sprinkle d rc gq)" if "rc \<in> set ?cells" "?I gq" for rc gq
    using that(2) keeps [OF _ that(1), of _ gq] cell_length [of d rc gq] by metis+
  have sub: "rc \<in> set ?cells" if "rc \<in> set (cells_of 1 (md_rows d - 2) 1 (md_cols d - 2))" for rc
  proof -
    obtain r c where "rc = (r, c)" by fastforce
    then show ?thesis using that by (simp add: cells_of_mem)
  qed
  have cl: "?I (fold (classic_cell d) ?cells gq)" "?I (fold (sprinkle d) (cells_of 1 (md_rows d - 2) 1 (md_cols d - 2)) gq)" if "?I gq" for gq
    by (rule fold_invariant [where Q = "\<lambda>rc. rc \<in> set ?cells" and P = ?I], assumption, rule that, erule step(1), assumption)
       (rule fold_invariant [where Q = "\<lambda>rc. rc \<in> set ?cells" and P = ?I], erule sub, rule that, erule step(2), assumption)
  have at: "corner_at d c < ?n" if "c \<in> set (spawnCorners (md_cols d) (md_rows d))" for c
  proof -
    have c: "0 \<le> fst c" "fst c < md_cols d" "0 \<le> snd c" "snd c + 1 \<le> md_rows d"
      using that odd by (auto simp: spawnCorners_def)
    then have "snd c * md_cols d + fst c < (snd c + 1) * md_cols d" "(snd c + 1) * md_cols d \<le> md_rows d * md_cols d"
      "0 \<le> snd c * md_cols d + fst c"
      using mult_right_mono [OF c(4), of "md_cols d"] odd(3) by (simp_all add: distrib_right)
    then show ?thesis by (simp add: corner_at_def nat_less_iff mult.commute)
  qed
  have "?I (build_grid d q)"
  proof (cases "md_layout d")
    case None
    then show ?thesis using cl(1) [of "(replicate ?n EMPTY, q)"] at by (simp add: build_grid_def)
  next
    case (Some l)
    have "?I (map (layout_tile l) ?cells, q)"
      using assms Some odd by (simp add: map_ok_def list_all_iff length_cells_of nat_mult_distrib mult.commute)
    then show ?thesis using cl(2) Some by (simp add: build_grid_def)
  qed
  then show "length (fst (build_grid d q)) = ?n"
    "c \<in> set (spawnCorners (md_cols d) (md_rows d)) \<Longrightarrow> fst (build_grid d q) ! corner_at d c = EMPTY" by simp_all
qed

lemma arena_createState:
  assumes "distinct us"
  shows "arena_ok (fst (createState m us now q))"
proof -
  let ?d = "getMap (Some m)" and ?s = "fst (createState m us now q)"
  have d: "map_ok ?d" using getMap_mem [of "Some m"] maps_ok by (auto simp: list_all_iff)
  then have odd: "5 \<le> md_cols ?d" "5 \<le> md_rows ?d" by (simp_all add: map_ok_def)
  have s: "cols ?s = md_cols ?d" "rows ?s = md_rows ?d" "grid ?s = fst (build_grid ?d q)"
    "players ?s = map (\<lambda>k. spawn_player (md_cols ?d) (md_rows ?d) (us ! k) k) [0..<length us]"
    "bombs ?s = []" "deathOrder ?s = []"
    by (simp_all add: createState_def Let_def split_beta)
  show ?thesis
  proof (rule arena_new)
    show "grid_ok ?s" using build_grid_ok(1) [OF d, of q] odd by (simp add: grid_ok_def s)
    show "\<forall>c \<in> set (spawnCorners (cols ?s) (rows ?s)). tileAt ?s (fst c) (snd c) = EMPTY"
    proof
      fix c assume "c \<in> set (spawnCorners (cols ?s) (rows ?s))"
      then have c: "c \<in> set (spawnCorners (md_cols ?d) (md_rows ?d))" by (simp add: s)
      then have "0 \<le> fst c \<and> fst c < md_cols ?d \<and> 0 \<le> snd c \<and> snd c < md_rows ?d"
        using odd by (auto simp: spawnCorners_def)
      then show "tileAt ?s (fst c) (snd c) = EMPTY"
        using build_grid_ok(2) [OF d c, of q] by (simp add: s tileAt_def corner_at_def)
    qed
  qed (use assms s in simp_all)
qed

section \<open>What a tick leaves alone\<close>

text \<open>A step of a world that keeps who plays and when it started, and adds no bombs.\<close>

definition same_match :: "BombermanState \<Rightarrow> BombermanState \<Rightarrow> bool" where
  "same_match s t \<longleftrightarrow> map b_userId (players t) = map b_userId (players s) \<and> startedAt t = startedAt s
     \<and> set (bombs t) \<subseteq> set (bombs s)"

lemma same_match_refl: "same_match s s"
  by (simp add: same_match_def)

lemma same_match_trans: "\<lbrakk>same_match s t; same_match t u\<rbrakk> \<Longrightarrow> same_match s u"
  by (auto simp: same_match_def)

lemma same_match_length: "same_match s t \<Longrightarrow> length (players t) = length (players s)"
  unfolding same_match_def by (metis length_map)

interpretation seated: explosion "\<lambda>x y. same_match (world x) (world y)"
proof (unfold_locales, goal_cases)
  case (5 b x)
  have "map b_userId (updateOne P f ps) = map b_userId ps" if "\<And>p. b_userId (f p) = b_userId p" for P f and ps :: "BPlayer list"
    using that by (intro map_updateOne)
  then show ?case by (simp add: same_match_def free_owner_def)
qed (auto simp: same_match_refl same_match_def push_flame_def break_brick_def Let_def split_beta split: option.split
      intro: same_match_trans)

lemma same_match_upd:
  assumes "b_userId (f (players s ! k)) = b_userId (players s ! k)"
  shows "same_match s (upd_player k f s)"
proof -
  have "map b_userId ((players s)[k := f (players s ! k)]) = map b_userId (players s)"
    using assms by (cases "k < length (players s)") (simp_all add: map_update list_update_same_conv list_update_beyond)
  then show ?thesis by (simp add: same_match_def)
qed

lemma same_match_explode: "same_match s (fst (snd (explode_due now s q)))"
proof -
  have "same_match s (world (blast_of now s q))" using seated.blast [of s q now] by simp
  then show ?thesis by (auto simp: explode_due_blast same_match_def)
qed

lemma same_match_pickup: "same_match (snd us) (snd (pickup k us))"
proof (cases k us rule: pickup_cases)
  case (2 u)
  let ?s = "(snd us)\<lparr>powerups := deleteOne (\<lambda>u. on_tile (players (snd us) ! k) (pu_col u) (pu_row u)) (powerups (snd us))\<rparr>"
  have "same_match (snd us) ?s" by (simp add: same_match_def)
  moreover have "same_match ?s (upd_player k (applyPower (pu_type u)) ?s)" by (rule same_match_upd) simp
  ultimately show ?thesis unfolding 2(4) by (rule same_match_trans)
qed (simp add: same_match_refl)

lemma same_match_burn: "same_match (snd ds) (snd (burn now k ds))"
proof -
  have "same_match (snd ds) (upd_player k (\<lambda>p. p\<lparr>b_alive := False, b_diedAt := Some now\<rparr>) (snd ds))"
    by (rule same_match_upd) simp
  then show ?thesis by (auto simp: burn_def Let_def same_match_refl) (auto simp: same_match_def)
qed

lemma same_match_fold:
  assumes "\<And>k z. same_match (snd z) (snd (f k z))"
  shows "same_match (snd z) (snd (fold f ks z))"
proof (induction ks arbitrary: z)
  case (Cons k ks)
  show ?case using same_match_trans [OF assms Cons.IH, of z k] by simp
qed (simp add: same_match_refl)

lemma same_match_tick: "same_match s (fst (snd (tickWorld now s q)))"
proof -
  let ?e = "fst (snd (explode_due now s q))"
  have "same_match s (expire_flames now ?e)"
    using same_match_explode [of s now q] by (simp add: same_match_def expire_flames_def)
  moreover have "same_match (expire_flames now ?e) (snd (fold pickup ks ([], expire_flames now ?e)))" for ks
    using same_match_fold [of pickup "([], expire_flames now ?e)" ks] same_match_pickup by simp
  moreover have "same_match z (snd (fold (burn now) ks ([], z)))" for z ks
    using same_match_fold [of "burn now" "([], z)" ks] same_match_burn by simp
  ultimately show ?thesis
    unfolding tickWorld_def Let_def by (simp add: split_beta) (blast intro: same_match_trans)
qed

end
