(* ===== verification/BomberGameLaws.thy ===== *)
theory BomberGameLaws
  imports BomberArena BomberGame
begin

text \<open>
  What holds of Bomberman matches: places and rewards, matches stay sound under every operation, a match
  that is decided or out of time ends, its pot goes to the winner, and two things players may not expect.
\<close>

section \<open>Places\<close>

lemma update_fresh: "k \<notin> fst ` set al \<Longrightarrow> AList.update k v al = al @ [(k, v)]"
  by (induction al) auto

lemma foldl_update_zip:
  "\<lbrakk>distinct xs; n \<le> length xs\<rbrakk> \<Longrightarrow>
    foldl (\<lambda>m i. AList.update (xs ! i) (i + 1) m) [] [0..<n] = zip (take n xs) [1..<Suc n]"
proof (induction n)
  case (Suc n)
  have "xs ! n \<notin> set (take n xs)"
    using Suc.prems by (auto simp: in_set_conv_nth nth_eq_iff_index_eq)
  then have "xs ! n \<notin> fst ` set (zip (take n xs) [1..<Suc n])" by (auto dest: set_zip_leftD)
  moreover have "zip (take n xs @ [xs ! n]) ([1..<Suc n] @ [Suc n]) = zip (take n xs) [1..<Suc n] @ [(xs ! n, Suc n)]"
    using Suc.prems by (simp del: upt_Suc)
  ultimately show ?case
    using Suc by (simp add: update_fresh take_Suc_conv_app_nth)
qed simp

lemma place_order_perm:
  assumes "seats_ok (players s)" "deaths_ok (players s) (deathOrder s)"
  shows "distinct (place_order s) \<and> set (place_order s) = {0..<length (players s)} \<and> length (place_order s) = length (players s)"
proof -
  let ?n = "length (players s)"
  have seat: "b_seat (players s ! k) = k" if "k < ?n" for k using seat_nth [OF assms(1) that] .
  have "map b_seat (filter b_alive (players s)) = filter (\<lambda>k. b_alive (players s ! k)) [0..<?n]"
  proof -
    have "players s = map ((!) (players s)) [0..<?n]" by (simp add: map_nth)
    then have "filter b_alive (players s) = map ((!) (players s)) (filter (b_alive \<circ> (!) (players s)) [0..<?n])"
      by (metis filter_map)
    then show ?thesis using seat by (simp add: comp_def) (rule map_idI, simp)
  qed
  note alive = this
  have d: "distinct (place_order s)" "set (place_order s) = {0..<?n}"
  proof -
    have "distinct (filter P [0..<n] @ rev ds) \<and> set (filter P [0..<n] @ rev ds) = {0..<n}"
      if "distinct ds" "set ds = {k. k < n \<and> \<not> P k}" for P n and ds :: "nat list"
    proof -
      have "{k. k < n \<and> P k} \<inter> {k. k < n \<and> \<not> P k} = {}" "{k. k < n \<and> P k} \<union> {k. k < n \<and> \<not> P k} = {0..<n}" by auto
      then show ?thesis using that(1) by (simp add: that(2))
    qed
    note this [of "deathOrder s" ?n "\<lambda>k. b_alive (players s ! k)"]
    then show "distinct (place_order s)" "set (place_order s) = {0..<?n}"
      using assms(2) unfolding place_order_def alive deaths_ok_def by simp_all
  qed
  then show ?thesis using distinct_card [OF d(1)] by simp
qed

lemma placements_zip:
  assumes "arena_ok s"
  shows "placements s = zip (place_order s) [1..<Suc (length (players s))]"
proof -
  let ?n = "length (players s)" and ?z = "zip (place_order s) [1..<Suc (length (players s))]"
  note p = place_order_perm [of s]
  have o: "distinct (place_order s)" "set (place_order s) = {0..<?n}" "length (place_order s) = ?n"
    using p assms by (simp_all add: arena_ok_def)
  have z: "foldl (\<lambda>m i. AList.update (place_order s ! i) (i + 1) m) [] [0..<length (place_order s)] = ?z"
    using foldl_update_zip [OF o(1), of ?n] o(3) by simp
  have keys: "fst ` set ?z = {0..<?n}" using o(2,3) by (metis length_map length_upt list.set_map map_fst_zip diff_Suc_1)
  have "b_seat p \<in> fst ` set ?z" if "p \<in> set (players s)" for p
    using that assms seat_nth [of "players s"] unfolding keys by (auto simp: arena_ok_def in_set_conv_nth)
  then have "foldl (\<lambda>m p. if b_seat p \<in> fst ` set m then m else AList.update (b_seat p) ?n m) ?z ps = ?z"
    if "set ps \<subseteq> set (players s)" for ps
    using that by (induction ps) auto
  then show ?thesis unfolding placements_def z by simp
qed

text \<open>
  The places are a ranking: the survivors come first in the order of their seats, then the dead, the last to
  die first; every seat has one place and the places are one to the number of players.
\<close>

theorem placements_ranking:
  assumes "arena_ok s"
  shows "map fst (placements s) = map b_seat (filter b_alive (players s)) @ rev (deathOrder s)
    \<and> map snd (placements s) = [1..<Suc (length (players s))]
    \<and> distinct (map fst (placements s)) \<and> set (map fst (placements s)) = b_seat ` set (players s)"
proof -
  have o: "distinct (place_order s)" "set (place_order s) = {0..<length (players s)}" "length (place_order s) = length (players s)"
    using place_order_perm [of s] assms by (simp_all add: arena_ok_def)
  have "b_seat ` set (players s) = set (map b_seat (players s))" by simp
  also have "\<dots> = {0..<length (players s)}" using assms by (simp add: arena_ok_def seats_ok_def)
  finally show ?thesis using o unfolding placements_zip [OF assms] by (simp add: place_order_def [symmetric] del: upt_Suc)
qed

text \<open>The users of the seats, so the ranking lists every player once.\<close>

lemma seat_user_nth:
  assumes "seats_ok (players s)" "k < length (players s)"
  shows "seat_user s k = Some (b_userId (players s ! k))"
proof -
  have "distinct (map b_seat (rev (players s)))" using assms(1) by (simp add: seats_ok_def rev_map [symmetric])
  from find_key_unique [OF this, of "players s ! k"] show ?thesis
    using seat_nth [OF assms] assms(2) by (simp add: seat_user_def)
qed

lemma sort_zip: "length xs = n \<Longrightarrow> sort_key snd (zip xs [1..<Suc n]) = zip xs [1..<Suc n]"
  by (rule sort_key_id_if_sorted) (simp add: map_snd_zip del: upt_Suc)

lemma ranking_users:
  assumes "arena_ok s"
  shows "ranking_of s = map (\<lambda>k. b_userId (players s ! k)) (place_order s)"
proof -
  have o: "set (place_order s) = {0..<length (players s)}" "length (place_order s) = length (players s)"
    using place_order_perm [of s] assms by (simp_all add: arena_ok_def)
  let ?z = "zip (place_order s) [1..<Suc (length (players s))]"
  have su: "seat_user s k = Some (b_userId (players s ! k))" if "k \<in> set (place_order s)" for k
    using seat_user_nth [of s k] that o(1) assms by (simp add: arena_ok_def)
  have "List.map_filter (\<lambda>e. seat_user s (fst e)) zs = map (\<lambda>e. b_userId (players s ! fst e)) zs"
    if "fst ` set zs \<subseteq> set (place_order s)" for zs :: "(nat \<times> nat) list"
    using that by (induction zs) (simp_all add: List.map_filter_simps su)
  moreover have "fst ` set ?z \<subseteq> set (place_order s)" by (auto dest: set_zip_leftD simp del: upt_Suc)
  ultimately have "ranking_of s = map (\<lambda>e. b_userId (players s ! fst e)) ?z"
    unfolding ranking_of_def placements_zip [OF assms] sort_zip [OF o(2)] by simp
  also have "\<dots> = map (\<lambda>k. b_userId (players s ! k)) (map fst ?z)" by (simp del: upt_Suc)
  also have "map fst ?z = place_order s" using o(2) by (simp del: upt_Suc)
  finally show ?thesis .
qed

lemma ranking_distinct:
  assumes "arena_ok s"
  shows "distinct (ranking_of s) \<and> length (ranking_of s) = length (players s) \<and> set (ranking_of s) = b_userId ` set (players s)"
proof -
  have o: "distinct (place_order s)" "set (place_order s) = {0..<length (players s)}" "length (place_order s) = length (players s)"
    using place_order_perm [of s] assms by (simp_all add: arena_ok_def)
  have u: "distinct (map b_userId (players s))" using assms by (simp add: arena_ok_def seats_ok_def)
  have "inj_on (\<lambda>k. b_userId (players s ! k)) {0..<length (players s)}"
    using u by (intro inj_onI) (metis atLeastLessThan_iff length_map nth_eq_iff_index_eq nth_map)
  moreover have "(\<lambda>k. b_userId (players s ! k)) ` {0..<length (players s)} = b_userId ` set (players s)"
    using nth_image [of "length (players s)" "players s"] by (metis image_image order_refl take_all)
  ultimately show ?thesis using o by (simp add: ranking_users [OF assms] distinct_map)
qed

lemma placementsByUser_zip:
  assumes "arena_ok s"
  shows "placementsByUser s = zip (ranking_of s) [1..<Suc (length (players s))]"
proof -
  let ?u = "\<lambda>k. b_userId (players s ! k)"
  have o: "set (place_order s) = {0..<length (players s)}" "length (place_order s) = length (players s)"
    using place_order_perm [of s] assms by (simp_all add: arena_ok_def)
  have su: "seat_user s k = Some (?u k)" if "k \<in> set (place_order s)" for k
    using seat_user_nth [of s k] that o(1) assms by (simp add: arena_ok_def)
  have "foldl (\<lambda>m e. case seat_user s (fst e) of Some u \<Rightarrow> AList.update u (snd e) m | None \<Rightarrow> m) al zs
      = al @ map (\<lambda>e. (?u (fst e), snd e)) zs"
    if "fst ` set zs \<subseteq> set (place_order s)" "distinct (map fst al @ map (?u \<circ> fst) zs)" for al and zs :: "(nat \<times> nat) list"
    using that
  proof (induction zs arbitrary: al)
    case (Cons e zs)
    have "?u (fst e) \<notin> fst ` set al" using Cons.prems(2) by auto
    then show ?case using Cons su by (simp add: update_fresh)
  qed simp
  note step = this [of "zip (place_order s) [1..<Suc (length (players s))]" "[]"]
  have fst_zip: "map fst (zip (place_order s) [1..<Suc (length (players s))]) = place_order s"
    using o(2) by (simp del: upt_Suc)
  have "map (?u \<circ> fst) (zip (place_order s) [1..<Suc (length (players s))]) = ranking_of s"
    unfolding ranking_users [OF assms] by (metis fst_zip map_map)
  moreover have "fst ` set (zip (place_order s) [1..<Suc (length (players s))]) \<subseteq> set (place_order s)"
    by (auto dest: set_zip_leftD simp del: upt_Suc)
  ultimately have "placementsByUser s = map (\<lambda>e. (?u (fst e), snd e)) (zip (place_order s) [1..<Suc (length (players s))])"
    using step ranking_distinct [OF assms] unfolding placementsByUser_def placements_zip [OF assms] by simp
  then show ?thesis unfolding ranking_users [OF assms] by (simp add: zip_map1 split_beta' del: upt_Suc)
qed

section \<open>Rewards\<close>

lemma place_points_sum: "n \<in> {2..4} \<Longrightarrow> sum_list (map (place_points n) [1..<Suc n]) = 0"
proof -
  assume "n \<in> {2..4}"
  then consider "n = 2" | "n = 3" | "n = 4" by fastforce
  moreover have "\<lfloor>57 / 2 :: rat\<rfloor> = 28" "\<lfloor>- (55 / 2) :: rat\<rfloor> = - 28" "\<lfloor>1 / 2 :: rat\<rfloor> = 0"
    "\<lfloor>59 / 6 :: rat\<rfloor> = 9" "\<lfloor>- (53 / 6) :: rat\<rfloor> = - 9" by (simp_all add: floor_eq_iff)
  ultimately show ?thesis
    by cases (simp_all add: place_points_def RP_SPREAD_def js_round_def upt_rec)
qed

text \<open>
  Ranked points cancel out: the changes of a finished ranked match add up to zero, none is beyond 28 points, there is one
  for every player in the order of the ranking, and only the winner gains the full 28.
\<close>

theorem bomber_points_zero_sum:
  assumes "arena_ok (lm_state m)" "length (players (lm_state m)) \<in> {2..4}" "lm_mode m = RANKED"
    "match_rewards m s = (Some rp, coin, t)"
  shows "sum_list (map snd rp) = 0 \<and> map fst rp = ranking_of (lm_state m)
    \<and> (\<forall>(u, d) \<in> set rp. d \<in> {-28..28})
    \<and> map fst (filter (\<lambda>e. snd e = 28) rp) = [hd (ranking_of (lm_state m))]"
proof -
  let ?st = "lm_state m" and ?n = "length (players (lm_state m))"
  have len: "length (ranking_of ?st) = ?n" using ranking_distinct [OF assms(1)] by simp
  have rp: "rp = zip (ranking_of ?st) (map (place_points ?n) [1..<Suc ?n])"
    using assms(3,4) by (auto simp: match_rewards_def Let_def placementsByUser_zip [OF assms(1)] zip_map2 split_beta' simp del: upt_Suc)
  have snd: "map snd rp = map (place_points ?n) [1..<Suc ?n]" and fst: "map fst rp = ranking_of ?st"
    using len by (simp_all add: rp del: upt_Suc)
  have vals: "map (place_points 2) [1..<Suc 2] = [28, - 28]" "map (place_points 3) [1..<Suc 3] = [28, 0, - 28]"
    "map (place_points 4) [1..<Suc 4] = [28, 9, - 9, - 28]"
    by code_simp+
  consider "?n = 2" | "?n = 3" | "?n = 4" using assms(2) by fastforce
  then have "(\<forall>d \<in> set (map snd rp). d \<in> {-28..28}) \<and> map fst (filter (\<lambda>e. snd e = 28) rp) = [hd (ranking_of ?st)]"
  proof cases
    case 1
    then obtain a b where "ranking_of ?st = [a, b]" using len by (auto simp: numeral_2_eq_2 length_Suc_conv)
    then show ?thesis using rp 1 vals(1) by simp
  next
    case 2
    then obtain a b c where "ranking_of ?st = [a, b, c]" using len by (auto simp: numeral_3_eq_3 length_Suc_conv)
    then show ?thesis using rp 2 vals(2) by simp
  next
    case 3
    then obtain a b c d where "ranking_of ?st = [a, b, c, d]" using len by (auto simp: eval_nat_numeral length_Suc_conv)
    then show ?thesis using rp 3 vals(3) by simp
  qed
  moreover have "sum_list (map snd rp) = 0" unfolding snd using place_points_sum [OF assms(2)] .
  ultimately show ?thesis using fst by auto
qed

lemma paid_points_list:
  fixes s :: "'a rooms_st_scheme"
  shows "ledger_ok s \<Longrightarrow> paid 0 s (foldl (\<lambda>s e. snd (addRankPoints (fst e) (snd e) reason s)) s rp)"
proof (induction rp arbitrary: s)
  case (Cons e rp)
  have p: "paid 0 s (snd (addRankPoints (fst e) (snd e) reason s))" by (rule paid_points [OF Cons.prems])
  show ?case using paid_trans [OF p Cons.IH [OF paid_ledger [OF p]]] by simp
qed (simp add: paid_refl)

lemma match_rewards_paid:
  fixes s :: "'a rooms_st_scheme"
  assumes "ledger_ok s" "arena_ok (lm_state m)" "players (lm_state m) \<noteq> []"
    "\<forall>p \<in> set (players (lm_state m)). find_user (b_userId p) s \<noteq> None"
    "0 \<le> lm_pot m" "lm_mode m \<noteq> WAGER \<longrightarrow> lm_pot m = 0" "match_rewards m s = (rp, coin, t)"
  shows "paid (lm_pot m) s t"
proof -
  have r: "length (ranking_of (lm_state m)) = length (players (lm_state m))"
    "set (ranking_of (lm_state m)) = b_userId ` set (players (lm_state m))"
    using ranking_distinct [OF assms(2)] by simp_all
  then obtain w ws where w: "ranking_of (lm_state m) = w # ws" using assms(3) by (cases "ranking_of (lm_state m)") auto
  then have "w \<in> b_userId ` set (players (lm_state m))" using r(2) by auto
  then have acc: "find_user w s \<noteq> None" using assms(4) by blast
  consider (ranked) "lm_mode m = RANKED" | (wager) "lm_mode m = WAGER" "0 < lm_pot m" | (none) "lm_mode m \<noteq> RANKED" "lm_pot m = 0"
    using assms(5,6) by fastforce
  then show ?thesis
  proof cases
    case ranked
    then show ?thesis using paid_points_list [OF assms(1)] assms(6,7) by (auto simp: match_rewards_def Let_def)
  next
    case wager
    then show ?thesis using paid_payout [OF assms(1,5) acc] assms(7) w by (auto simp: match_rewards_def Let_def)
  next
    case none
    then show ?thesis using paid_refl [OF assms(1)] assms(7) by (auto simp: match_rewards_def Let_def)
  qed
qed

text \<open>
  Who has won a decided match: the one player still alive, or the one who died last when nobody is.
\<close>

definition match_winner :: "BombermanState \<Rightarrow> oid option" where
  "match_winner st =
     (case filter b_alive (players st) of
        [] \<Rightarrow> map_option b_userId (List.find (\<lambda>p. b_seat p = last (deathOrder st)) (players st))
      | [p] \<Rightarrow> Some (b_userId p)
      | _ \<Rightarrow> None)"

lemma decided_winner:
  assumes "arena_ok st" "players st \<noteq> []" "aliveCount st \<le> 1"
  shows "match_winner st = hd_option (ranking_of st)"
proof -
  have seats: "seats_ok (players st)" and len: "length (place_order st) = length (players st)"
    and set: "set (place_order st) = {0..<length (players st)}"
    using place_order_perm [of st] assms(1) by (simp_all add: arena_ok_def)
  have d: "distinct (map b_seat (players st))" using seats by (simp add: seats_ok_def)
  show ?thesis
  proof (cases "filter b_alive (players st)")
    case Nil
    then have o: "place_order st = rev (deathOrder st)" by (simp add: place_order_def)
    then have ne: "deathOrder st \<noteq> []" using len assms(2) by auto
    then have last: "last (deathOrder st) < length (players st)" using set o by auto
    have "List.find (\<lambda>p. b_seat p = last (deathOrder st)) (players st) = Some (players st ! last (deathOrder st))"
      using find_key_unique [OF d, of "players st ! last (deathOrder st)"] seat_nth [OF seats last] last by simp
    moreover have "hd_option (ranking_of st) = Some (b_userId (players st ! last (deathOrder st)))"
      unfolding ranking_users [OF assms(1)] o using ne by (cases "deathOrder st" rule: rev_cases) simp_all
    ultimately show ?thesis using Nil by (simp add: match_winner_def)
  next
    case (Cons p ps)
    then have ps: "ps = []" using assms(3) by (simp add: aliveCount_def)
    have "p \<in> set (players st)" using Cons by (metis list.set_intros(1) mem_Collect_eq set_filter)
    then obtain k where k: "k < length (players st)" "players st ! k = p" by (auto simp: in_set_conv_nth)
    then have "players st ! b_seat p = p" using seat_nth [OF seats k(1)] by simp
    then show ?thesis unfolding ranking_users [OF assms(1)] place_order_def using Cons ps by (simp add: match_winner_def)
  qed
qed

lemma points_balance_list: "balance_of (foldl (\<lambda>s e. snd (addRankPoints (fst e) (snd e) reason s)) s rp) v = balance_of s v"
  by (induction rp arbitrary: s) (simp_all add: points_balance)

text \<open>The whole pot goes to the first of the ranking, and nobody else's balance moves.\<close>

lemma match_rewards_balance:
  fixes s :: "'a rooms_st_scheme"
  assumes "ledger_ok s" "arena_ok (lm_state m)" "players (lm_state m) \<noteq> []"
    "\<forall>p \<in> set (players (lm_state m)). find_user (b_userId p) s \<noteq> None"
    "0 \<le> lm_pot m" "lm_mode m \<noteq> WAGER \<longrightarrow> lm_pot m = 0" "match_rewards m s = (rp, coin, t)"
  shows "\<exists>w. hd_option (ranking_of (lm_state m)) = Some w \<and> w \<in> b_userId ` set (players (lm_state m))
    \<and> (\<forall>v. balance_of t v = balance_of s v + (if v = w then lm_pot m else 0))"
proof -
  have r: "length (ranking_of (lm_state m)) = length (players (lm_state m))"
    "set (ranking_of (lm_state m)) = b_userId ` set (players (lm_state m))"
    using ranking_distinct [OF assms(2)] by simp_all
  then obtain w ws where w: "ranking_of (lm_state m) = w # ws" using assms(3) by (cases "ranking_of (lm_state m)") auto
  then have mem: "w \<in> b_userId ` set (players (lm_state m))" using r(2) by auto
  then have acc: "find_user w s \<noteq> None" using assms(4) by blast
  consider (ranked) "lm_mode m = RANKED" | (wager) "lm_mode m = WAGER" "0 < lm_pot m" | (none) "lm_mode m \<noteq> RANKED" "lm_pot m = 0"
    using assms(5,6) by fastforce
  then have "balance_of t v = balance_of s v + (if v = w then lm_pot m else 0)" for v
  proof cases
    case ranked
    then show ?thesis using points_balance_list assms(6,7) by (auto simp: match_rewards_def Let_def)
  next
    case wager
    then show ?thesis using payout_balance [OF assms(1,5) acc] assms(7) w by (auto simp: match_rewards_def Let_def)
  next
    case none
    then show ?thesis using assms(7) by (auto simp: match_rewards_def Let_def)
  qed
  then show ?thesis using mem w by simp
qed

lemma only_accounts_rewards: "only_accounts s (snd (snd (match_rewards m s)))"
proof -
  have "only_accounts s (foldl (\<lambda>s e. snd (addRankPoints (fst e) (snd e) reason s)) s rp)" for reason and rp :: "(oid \<times> int) list"
    by (induction rp arbitrary: s) (auto intro: only_accounts_trans only_accounts_payments(3))
  then show ?thesis
    by (auto simp: match_rewards_def Let_def only_accounts_payments(1) split: option.split)
qed

lemma rooms_more_bm:
  "rooms_st.more t = rooms_st.more s \<Longrightarrow>
     bm_games t = bm_games s \<and> bm_matches t = bm_matches s \<and> bm_forget t = bm_forget s \<and> bm_seq t = bm_seq s \<and> bm_log t = bm_log s"
  by (cases s; cases t) simp

lemma only_accounts_bm:
  "only_accounts s t \<Longrightarrow> bm_games t = bm_games s \<and> bm_matches t = bm_matches s \<and> bm_forget t = bm_forget s
     \<and> bm_seq t = bm_seq s \<and> next_id s \<le> next_id t \<and> clock t = clock s"
  using rooms_more_bm level_more by (metis only_accounts_def)

lemma bm_frame [simp]:
  "bm_games (broadcast i e s) = bm_games s" "bm_matches (broadcast i e s) = bm_matches s" "bm_forget (broadcast i e s) = bm_forget s"
  "bm_seq (broadcast i e s) = bm_seq s" "next_id (broadcast i e s) = next_id s" "clock (broadcast i e s) = clock s"
  "users (broadcast i e s) = users s" "txs (broadcast i e s) = txs s" "rooms (broadcast i e s) = rooms s"
  "bm_games (close_room k s) = bm_games s" "bm_matches (close_room k s) = bm_matches s" "bm_forget (close_room k s) = bm_forget s"
  "bm_seq (close_room k s) = bm_seq s" "next_id (close_room k s) = next_id s" "clock (close_room k s) = clock s"
  "bm_games (save_match m s) = bm_games s" "bm_forget (save_match m s) = bm_forget s" "bm_seq (save_match m s) = bm_seq s"
  "next_id (save_match m s) = next_id s" "clock (save_match m s) = clock s" "users (save_match m s) = users s"
  "txs (save_match m s) = txs s" "rooms (save_match m s) = rooms s"
  by (simp_all add: broadcast_def bm_emit_def close_room_def set_room_def save_match_def)

definition ended :: "LiveMatch \<Rightarrow> LiveMatch" where
  "ended m = m\<lparr>lm_finished := True, lm_loop := False\<rparr>"

lemma ended_simps [simp]:
  "lm_gameId (ended m) = lm_gameId m" "lm_state (ended m) = lm_state m" "lm_mode (ended m) = lm_mode m"
  "lm_betAmount (ended m) = lm_betAmount m" "lm_pot (ended m) = lm_pot m" "lm_roomId (ended m) = lm_roomId m"
  "lm_finished (ended m)" "\<not> lm_loop (ended m)" "lm_lastTick (ended m) = lm_lastTick m"
  by (simp_all add: ended_def)

text \<open>The stages of \<open>finish\<close>: rewards are paid on \<open>save_match\<close>'s state, the rest is bookkeeping before the room closes.\<close>

lemma finish_stages:
  assumes "find_match i s = Some m" "\<not> lm_finished m" "match_rewards (ended m) (save_match (ended m) s) = (rp, coin, u)"
  obtains v where "users v = users u" "txs v = txs u" "next_id v = next_id u" "rooms v = rooms u" "clock v = clock u"
    "bm_games v = updateOne (\<lambda>d. bg_id d = i) (result_doc (ended m) rp coin (clock u)) (bm_games u)"
    "bm_matches v = bm_matches u" "bm_seq v = bm_seq u" "bm_forget v = bm_forget u"
    "finish i s = (case lm_roomId m of Some r \<Rightarrow> close_room r v | None \<Rightarrow> v)
       \<lparr>bm_forget := (bm_forget u)(i \<mapsto> clock u + 15000)\<rparr>"
proof -
  define d where "d = u\<lparr>bm_games := updateOne (\<lambda>d. bg_id d = i) (result_doc (ended m) rp coin (clock u)) (bm_games u)\<rparr>"
  define v where "v = broadcast i (Bm_end (end_view (ended m) rp coin d)) d"
  have "finish i s = (case lm_roomId m of Some r \<Rightarrow> close_room r v | None \<Rightarrow> v)
       \<lparr>bm_forget := (bm_forget u)(i \<mapsto> clock u + 15000)\<rparr>"
    using assms unfolding finish_def ended_def [symmetric] Let_def
    by (auto simp: d_def v_def split: option.split)
  moreover have "users v = users u" "txs v = txs u" "next_id v = next_id u" "rooms v = rooms u" "clock v = clock u"
    "bm_games v = updateOne (\<lambda>d. bg_id d = i) (result_doc (ended m) rp coin (clock u)) (bm_games u)"
    "bm_matches v = bm_matches u" "bm_seq v = bm_seq u" "bm_forget v = bm_forget u"
    by (simp_all add: v_def d_def)
  ultimately show thesis using that by blast
qed

lemma match_finish_effect:
  assumes "find_match i s = Some m" "\<not> lm_finished m"
  shows "bm_matches (finish i s) = bm_matches (save_match (ended m) s)" "bm_seq (finish i s) = bm_seq s"
    "clock (finish i s) = clock s" "next_id s \<le> next_id (finish i s)"
    "bm_forget (finish i s) = (bm_forget s)(i \<mapsto> clock s + 15000)"
    "\<exists>rp coin. bm_games (finish i s) = updateOne (\<lambda>d. bg_id d = i) (result_doc (ended m) rp coin (clock s)) (bm_games s)"
proof -
  obtain rp coin u where r: "match_rewards (ended m) (save_match (ended m) s) = (rp, coin, u)" by (metis prod_cases3)
  have "only_accounts (save_match (ended m) s) u" using only_accounts_rewards [of "save_match (ended m) s" "ended m"] r by simp
  note u = only_accounts_bm [OF this, simplified]
  obtain v where v: "next_id v = next_id u" "clock v = clock u"
    "bm_games v = updateOne (\<lambda>d. bg_id d = i) (result_doc (ended m) rp coin (clock u)) (bm_games u)"
    "bm_matches v = bm_matches u" "bm_seq v = bm_seq u"
    "finish i s = (case lm_roomId m of Some r \<Rightarrow> close_room r v | None \<Rightarrow> v)\<lparr>bm_forget := (bm_forget u)(i \<mapsto> clock u + 15000)\<rparr>"
    by (rule finish_stages [OF assms r]) blast
  show "bm_matches (finish i s) = bm_matches (save_match (ended m) s)" "bm_seq (finish i s) = bm_seq s"
    "clock (finish i s) = clock s" "next_id s \<le> next_id (finish i s)"
    "bm_forget (finish i s) = (bm_forget s)(i \<mapsto> clock s + 15000)"
    using u v by (simp_all split: option.split)
  have "bm_games (finish i s) = updateOne (\<lambda>d. bg_id d = i) (result_doc (ended m) rp coin (clock s)) (bm_games s)"
    using u v by (simp split: option.split)
  then show "\<exists>rp coin. bm_games (finish i s) = updateOne (\<lambda>d. bg_id d = i) (result_doc (ended m) rp coin (clock s)) (bm_games s)"
    by blast
qed

text \<open>
  C23: When a match ends, one of its players receives the whole pot and no other balance moves; in a decided match
  this is the last one alive, or the last to die when nobody is. The room that held the pot is closed, so no coin
  is made or lost. (The players have accounts and the match's pot is the room's.)
\<close>

theorem bomber_end_conserves_coins:
  assumes "find_match i s = Some m" "\<not> lm_finished m" "ledger_ok s" "arena_ok (lm_state m)" "players (lm_state m) \<noteq> []"
    "\<forall>p \<in> set (players (lm_state m)). find_user (b_userId p) s \<noteq> None"
    "0 \<le> lm_pot m" "lm_mode m \<noteq> WAGER \<longrightarrow> lm_pot m = 0"
    "lm_roomId m = Some k" "find_room k s = Some room" "r_status room \<noteq> CLOSED" "r_pot room = lm_pot m"
  shows "(\<exists>w \<in> b_userId ` set (players (lm_state m)). (aliveCount (lm_state m) \<le> 1 \<longrightarrow> match_winner (lm_state m) = Some w)
       \<and> (\<forall>v. balance_of (finish i s) v = balance_of s v + (if v = w then lm_pot m else 0)))
     \<and> coins (finish i s) + escrow (finish i s) = coins s + escrow s \<and> ledger_ok (finish i s)
     \<and> (\<exists>c. find_room k (finish i s) = Some c \<and> r_status c = CLOSED)"
proof -
  let ?s = "save_match (ended m) s"
  obtain rp coin u where r: "match_rewards (ended m) ?s = (rp, coin, u)" by (metis prod_cases3)
  have base: "ledger_ok ?s" "find_user v ?s = find_user v s" "coins ?s = coins s" "escrow ?s = escrow s" for v
    using assms(3) by (simp_all add: ledger_ok_def users_ok_def books_ok_def booked_def find_user_def coins_def escrow_def)
  have p: "paid (lm_pot m) ?s u"
    using match_rewards_paid [OF base(1) _ _ _ _ _ r] assms(4-8) base(2) by simp
  obtain v where v: "users v = users u" "txs v = txs u" "next_id v = next_id u" "rooms v = rooms u"
    "finish i s = (case lm_roomId m of Some r \<Rightarrow> close_room r v | None \<Rightarrow> v)\<lparr>bm_forget := (bm_forget u)(i \<mapsto> clock u + 15000)\<rparr>"
    by (rule finish_stages [OF assms(1,2) r]) blast
  have f: "finish i s = (close_room k v)\<lparr>bm_forget := (bm_forget u)(i \<mapsto> clock u + 15000)\<rparr>" using v(5) assms(9) by simp
  have fr: "find_room k ?s = Some room" using assms(10) by (simp add: find_room_def)
  have same: "coins (t\<lparr>bm_forget := b\<rparr>) = coins t" "escrow (t\<lparr>bm_forget := b\<rparr>) = escrow t"
    "ledger_ok (t\<lparr>bm_forget := b\<rparr>) = ledger_ok t" "find_room k (t\<lparr>bm_forget := b\<rparr>) = find_room k t" for t :: "'a bm_st_scheme" and b
    by (simp_all add: coins_def escrow_def ledger_ok_def users_ok_def books_ok_def booked_def find_user_def find_room_def)
  have bal: "balance_of (finish i s) x = balance_of u x" "balance_of ?s x = balance_of s x" for x
    unfolding f using v(1) by (simp_all add: balance_of_def find_user_def close_room_def)
  obtain w where w: "hd_option (ranking_of (lm_state m)) = Some w" "w \<in> b_userId ` set (players (lm_state m))"
    "balance_of u x = balance_of ?s x + (if x = w then lm_pot m else 0)" for x
    using match_rewards_balance [OF base(1) _ _ _ _ _ r, unfolded ended_simps] assms(4-8) base(2) by auto
  have "aliveCount (lm_state m) \<le> 1 \<Longrightarrow> match_winner (lm_state m) = Some w"
    using decided_winner [OF assms(4,5)] w(1) by simp
  then have "\<exists>w \<in> b_userId ` set (players (lm_state m)). (aliveCount (lm_state m) \<le> 1 \<longrightarrow> match_winner (lm_state m) = Some w)
       \<and> (\<forall>v. balance_of (finish i s) v = balance_of s v + (if v = w then lm_pot m else 0))"
    using w(2,3) bal by auto
  moreover have "coins (finish i s) + escrow (finish i s) = coins s + escrow s \<and> ledger_ok (finish i s)
     \<and> (\<exists>c. find_room k (finish i s) = Some c \<and> r_status c = CLOSED)"
    unfolding f same using close_conserves [OF p v(1-4) fr assms(11,12)] base(3,4) by simp
  ultimately show ?thesis by blast
qed

section \<open>Matches stay sound\<close>

definition match_ok :: "nat \<Rightarrow> int \<Rightarrow> LiveMatch \<Rightarrow> bool" where
  "match_ok n now m \<longleftrightarrow> arena_ok (lm_state m) \<and> (\<forall>b \<in> set (bombs (lm_state m)). bo_id b < n)
     \<and> length (players (lm_state m)) \<in> {2..4} \<and> lm_pot m = lm_betAmount m * int (length (players (lm_state m)))
     \<and> lm_lastTick m \<le> now \<and> (lm_loop m \<longleftrightarrow> \<not> lm_finished m)"

definition bm_ok :: "'a bm_st_scheme \<Rightarrow> bool" where
  "bm_ok s \<longleftrightarrow> stored_ok lm_gameId (match_ok (bm_seq s) (clock s)) (next_id s) (bm_matches s)"

text \<open>How a match may change: its parties stay, its walls stand, and once finished it is as it is.\<close>

definition evolves :: "LiveMatch \<Rightarrow> LiveMatch \<Rightarrow> bool" where
  "evolves m m' \<longleftrightarrow> lm_gameId m' = lm_gameId m \<and> lm_mode m' = lm_mode m \<and> lm_betAmount m' = lm_betAmount m
     \<and> lm_pot m' = lm_pot m \<and> lm_roomId m' = lm_roomId m
     \<and> map b_userId (players (lm_state m')) = map b_userId (players (lm_state m))
     \<and> startedAt (lm_state m') = startedAt (lm_state m)
     \<and> tiles_wear (lm_state m) (lm_state m') \<and> (lm_finished m \<longrightarrow> m' = m)"

lemma evolves_refl: "evolves m m"
  by (simp add: evolves_def)

lemma match_evolves_trans: "\<lbrakk>evolves m m'; evolves m' m''\<rbrakk> \<Longrightarrow> evolves m m''"
  unfolding evolves_def by (metis tiles_wear_trans)

text \<open>
  A step of the service on stored matches: they stay sound, identifiers grow, and every match that is
  still there evolved from the one that was.
\<close>

definition serves :: "'a bm_st_scheme \<Rightarrow> 'a bm_st_scheme \<Rightarrow> bool" where
  "serves s t \<longleftrightarrow> bm_ok t \<and> next_id s \<le> next_id t
     \<and> (\<forall>i m'. i < next_id s \<longrightarrow> find_match i t = Some m' \<longrightarrow> (\<exists>m. find_match i s = Some m \<and> evolves m m'))"

lemma serves_trans: "\<lbrakk>serves s t; serves t u\<rbrakk> \<Longrightarrow> serves s u"
proof -
  assume a: "serves s t" "serves t u"
  have "\<exists>m. find_match i s = Some m \<and> evolves m m'" if i: "i < next_id s" "find_match i u = Some m'" for i m'
  proof -
    have "i < next_id t" using a(1) i(1) by (simp add: serves_def)
    then obtain m where m: "find_match i t = Some m" "evolves m m'" using a(2) i(2) unfolding serves_def by blast
    then obtain m0 where "find_match i s = Some m0" "evolves m0 m" using a(1) i(1) unfolding serves_def by blast
    then show ?thesis using match_evolves_trans m(2) by blast
  qed
  then show ?thesis using a by (simp add: serves_def)
qed

lemma match_ok_mono: "\<lbrakk>match_ok n now m; n \<le> n'; now \<le> now'\<rbrakk> \<Longrightarrow> match_ok n' now' m"
  unfolding match_ok_def by (meson order_less_le_trans order_trans)

lemma matches_ok_mono:
  assumes "stored_ok lm_gameId (match_ok n now) k ms" "n \<le> n'" "now \<le> now'" "k \<le> k'"
  shows "stored_ok lm_gameId (match_ok n' now') k' ms"
  using assms match_ok_mono [OF _ assms(2,3)] unfolding stored_ok_def by (meson order_less_le_trans)

lemma serves_frame:
  assumes "bm_ok s" "bm_matches t = bm_matches s" "bm_seq t = bm_seq s" "clock s \<le> clock t" "next_id s \<le> next_id t"
  shows "serves s t"
proof -
  have "bm_ok t"
    using matches_ok_mono [OF assms(1) [unfolded bm_ok_def] order_refl assms(4,5)] assms(2,3) by (simp add: bm_ok_def)
  then show ?thesis using assms(2,5) evolves_refl bm.look_docs [OF assms(2)] by (auto simp: serves_def)
qed

lemma bm_okD: "\<lbrakk>bm_ok s; find_match i s = Some m\<rbrakk> \<Longrightarrow> match_ok (bm_seq s) (clock s) m \<and> lm_gameId m = i \<and> i < next_id s"
  using bm.ok_look [of "match_ok (bm_seq s) (clock s)" "next_id s" s i m] by (auto simp: bm_ok_def)

text \<open>Storing a match that evolved from the stored one.\<close>

lemma serves_save:
  assumes "bm_ok s" "find_match i s = Some m" "evolves m m'" "match_ok n (clock s) m'" "bm_seq s \<le> n"
    "bm_matches t = bm_matches (save_match m' s)" "bm_seq t = n" "clock t = clock s" "next_id s \<le> next_id t"
  shows "serves s t"
proof -
  have i: "lm_gameId m' = i" "i < next_id s" using bm_okD [OF assms(1,2)] assms(3) by (simp_all add: evolves_def)
  have "stored_ok lm_gameId (match_ok n (clock s)) (next_id s) (bm_matches s)"
    using matches_ok_mono [OF assms(1) [unfolded bm_ok_def] assms(5) order_refl order_refl] .
  from bm.ok_save [OF this assms(4) _ assms(6,9)] have "bm_ok t" using i assms(7,8) by (simp add: bm_ok_def)
  moreover have "find_match j t = (if j = i then Some m' else find_match j s)" for j
    using bm.look_save [of m' s j] i assms(2) bm.look_docs [of t "save_match m' s" j] assms(6) by simp
  ultimately show ?thesis using assms(2,3,9) evolves_refl by (auto simp: serves_def split: if_splits)
qed

lemma evolves_state:
  "\<lbrakk>same_match (lm_state m) st; tiles_wear (lm_state m) st; \<not> lm_finished m\<rbrakk> \<Longrightarrow> evolves m (m\<lparr>lm_state := st\<rparr>)"
  "\<lbrakk>same_match (lm_state m) st; tiles_wear (lm_state m) st; \<not> lm_finished m\<rbrakk> \<Longrightarrow> evolves m (m\<lparr>lm_lastTick := k, lm_state := st\<rparr>)"
  by (simp_all add: evolves_def same_match_def)

lemma playingD:
  assumes "playing r u s = Some (m, k)"
  obtains i where "find_match i s = Some m" "\<not> lm_finished m" "k < length (players (lm_state m))"
    "b_userId (players (lm_state m) ! k) = u"
proof -
  have g: "get_match r s = Some m" "\<not> lm_finished m" "seat_in m u = Some k"
    using assms by (auto simp: playing_def split: option.splits if_splits)
  have "k \<in> set [0..<length (players (lm_state m))] \<and> b_userId (players (lm_state m) ! k) = u"
    using find_Some_iff_mem [OF g(3) [unfolded seat_in_def]] .
  moreover obtain i where "find_match i s = Some m" using g(1) by (auto simp: get_match_def split: raw_id.splits)
  ultimately show thesis using that g(2) by simp
qed

lemma clamp1_bound: "\<bar>clamp1 d\<bar> \<le> 1"
  by (simp add: clamp1_def)

lemma setInput_serves:
  assumes "bm_ok s"
  shows "serves s (setInput r u dx dy s)"
proof (cases "playing r u s")
  case None
  then show ?thesis using serves_frame [OF assms] by (simp add: setInput_def)
next
  case (Some mk)
  obtain m k where mk: "mk = (m, k)" by fastforce
  obtain i where i: "find_match i s = Some m" "\<not> lm_finished m" "k < length (players (lm_state m))"
    using playingD [OF Some [unfolded mk]] by blast
  show ?thesis
  proof (cases "b_alive (players (lm_state m) ! k)")
    case True
    let ?f = "\<lambda>p. p\<lparr>b_dx := clamp1 dx, b_dy := clamp1 dy\<rparr>"
    let ?st = "upd_player k ?f (lm_state m)"
    have m: "match_ok (bm_seq s) (clock s) m" using bm_okD [OF assms i(1)] by simp
    then have a: "arena_ok (lm_state m)" by (simp add: match_ok_def)
    have p: "player_ok (players (lm_state m) ! k)" "clear_of_walls (lm_state m) (players (lm_state m) ! k)"
      using a i(3) by (auto simp: arena_ok_def players_ok_def)
    have "arena_ok ?st"
      by (rule arena_ok_player [where p = "players (lm_state m) ! k", OF a i(3) refl])
         (use p clamp1_bound in \<open>simp_all add: player_ok_def clear_of_walls_def\<close>)
    moreover have "same_match (lm_state m) ?st" by (rule same_match_upd) simp
    ultimately have "match_ok (bm_seq s) (clock s) (with_state m ?st)" "evolves m (with_state m ?st)"
      using m i(2) evolves_state(1) [of m ?st] by (simp_all add: match_ok_def with_state_def tiles_wear_same)
    then show ?thesis using Some mk True
      by (intro serves_save [OF assms i(1), of "with_state m ?st" "bm_seq s"]) (simp_all add: setInput_def)
  qed (use Some mk serves_frame [OF assms] in \<open>simp add: setInput_def\<close>)
qed

lemma placeBomb_frame:
  assumes "placeBomb n k now st = (Some b, st')"
  shows "same_match st (st'\<lparr>bombs := bombs st\<rparr>) \<and> tiles_wear st st' \<and> bombs st' = bombs st @ [b] \<and> bo_id b = n"
proof -
  let ?p = "players st ! k"
  let ?f = "\<lambda>p. p\<lparr>b_bombsOut := b_bombsOut p + 1, b_standingBomb := Some (js_round (b_x ?p), js_round (b_y ?p))\<rparr>"
  have e: "st' = upd_player k ?f (st\<lparr>bombs := bombs st @ [b]\<rparr>)" "bo_id b = n"
    using assms by (auto simp: placeBomb_def Let_def split: if_splits)
  have "same_match st (upd_player k ?f st)" by (rule same_match_upd) simp
  then show ?thesis using e by (auto simp: same_match_def tiles_wear_def upd_player_def)
qed

lemma dropBomb_serves:
  assumes "bm_ok s"
  shows "serves s (dropBomb r u s)"
proof (cases "playing r u s")
  case None
  then show ?thesis using serves_frame [OF assms] by (simp add: dropBomb_def)
next
  case (Some mk)
  obtain m k where mk: "mk = (m, k)" by fastforce
  obtain i where i: "find_match i s = Some m" "\<not> lm_finished m" "k < length (players (lm_state m))"
    using playingD [OF Some [unfolded mk]] by blast
  obtain ob st where pb: "placeBomb (bm_seq s) k (clock s) (lm_state m) = (ob, st)" by fastforce
  have m: "match_ok (bm_seq s) (clock s) m" using bm_okD [OF assms i(1)] by simp
  show ?thesis
  proof (cases ob)
    case None
    then show ?thesis using Some mk pb serves_frame [OF assms] by (simp add: dropBomb_def)
  next
    case ob: (Some b)
    have fr: "same_match (lm_state m) (st\<lparr>bombs := bombs (lm_state m)\<rparr>)" "tiles_wear (lm_state m) st"
      "bombs st = bombs (lm_state m) @ [b]" "bo_id b = bm_seq s"
      using placeBomb_frame pb ob by blast+
    have "bm_seq s \<notin> bo_id ` set (bombs (lm_state m))" using m by (auto simp: match_ok_def)
    then have "arena_ok st" using arena_place [of "lm_state m" k "bm_seq s" "clock s"] m i(3) pb by (simp add: match_ok_def)
    moreover have len: "length (players st) = length (players (lm_state m))" using same_match_length [OF fr(1)] by simp
    ultimately have "match_ok (Suc (bm_seq s)) (clock s) (with_state m st)"
      using m fr(3,4) by (auto simp: match_ok_def with_state_def less_SucI)
    moreover have "evolves m (with_state m st)" using fr(1,2) i(2) by (simp add: evolves_def with_state_def same_match_def)
    ultimately show ?thesis using Some mk pb ob
      by (intro serves_save [OF assms i(1), of "with_state m st" "Suc (bm_seq s)"]) (simp_all add: dropBomb_def save_match_def)
  qed
qed

lemma drop_dead_die:
  "\<lbrakk>arena_ok st; k < length (players st); b_alive (players st ! k)\<rbrakk> \<Longrightarrow> drop_dead now k st = die now k st"
  using seat_nth [of "players st" k] by (auto simp: arena_ok_def deaths_ok_def drop_dead_def die_def)

lemma killPlayer_serves:
  assumes "bm_ok s"
  shows "serves s (killPlayer r u s)"
proof (cases "playing r u s")
  case None
  then show ?thesis using serves_frame [OF assms] by (simp add: killPlayer_def)
next
  case (Some mk)
  obtain m k where mk: "mk = (m, k)" by fastforce
  obtain i where i: "find_match i s = Some m" "\<not> lm_finished m" "k < length (players (lm_state m))"
    using playingD [OF Some [unfolded mk]] by blast
  have m: "match_ok (bm_seq s) (clock s) m" using bm_okD [OF assms i(1)] by simp
  then have a: "arena_ok (lm_state m)" by (simp add: match_ok_def)
  show ?thesis
  proof (cases "b_alive (players (lm_state m) ! k)")
    case True
    let ?st = "die (clock s) k (lm_state m)"
    have "same_match (lm_state m) (upd_player k (\<lambda>p. p\<lparr>b_alive := False, b_diedAt := Some (clock s)\<rparr>) (lm_state m))"
      by (rule same_match_upd) simp
    then have sm: "same_match (lm_state m) ?st" by (simp add: same_match_def die_def)
    then have "match_ok (bm_seq s) (clock s) (with_state m ?st)" "evolves m (with_state m ?st)"
      using m i(2) arena_die [OF a i(3) True, of "clock s"] evolves_state(1) [OF sm _ i(2)]
      by (simp_all add: match_ok_def with_state_def tiles_wear_same die_def)
    then show ?thesis using Some mk True drop_dead_die [OF a i(3) True]
      by (intro serves_save [OF assms i(1), of "with_state m ?st" "bm_seq s"]) (simp_all add: killPlayer_def)
  qed (use Some mk serves_frame [OF assms] in \<open>simp add: killPlayer_def\<close>)
qed

text \<open>A tick: first everyone moves, then the world turns.\<close>

lemma move_all_ok:
  assumes "arena_ok st" "0 \<le> dt" "dt \<le> 1 / 10"
  shows "arena_ok (move_all dt st) \<and> same_match st (move_all dt st) \<and> tiles_wear st (move_all dt st)
    \<and> length (players (move_all dt st)) = length (players st)"
  unfolding move_all_def
proof (rule fold_invariant [where Q = "\<lambda>k. k < length (players st)"])
  fix k s
  assume k: "k < length (players st)"
    and s: "arena_ok s \<and> same_match st s \<and> tiles_wear st s \<and> length (players s) = length (players st)"
  have "arena_ok (upd_player k (movePlayer s dt) s)" using s k by (intro arena_move assms(2,3)) auto
  moreover have "b_userId (movePlayer s dt p) = b_userId p" for p
    by (simp add: movePlayer_def Let_def centerX_def centerY_def)
  then have "same_match s (upd_player k (movePlayer s dt) s)" by (rule same_match_upd)
  moreover have "tiles_wear s (upd_player k (movePlayer s dt) s)" by (simp add: tiles_wear_same)
  ultimately show "arena_ok (upd_player k (movePlayer s dt) s) \<and> same_match st (upd_player k (movePlayer s dt) s)
      \<and> tiles_wear st (upd_player k (movePlayer s dt) s) \<and> length (players (upd_player k (movePlayer s dt) s)) = length (players st)"
    using s same_match_trans tiles_wear_trans by (simp add: same_match_length) blast
qed (use assms in \<open>auto simp: same_match_refl\<close>)

text \<open>The world after a tick of a match.\<close>

definition next_world :: "int \<Rightarrow> LiveMatch \<Rightarrow> rng \<Rightarrow> BombermanState" where
  "next_world now m q = fst (snd (tickWorld now (move_all (tick_dt m now) (lm_state m)) q))"

definition ticked :: "int \<Rightarrow> LiveMatch \<Rightarrow> rng \<Rightarrow> LiveMatch" where
  "ticked now m q = m\<lparr>lm_lastTick := now, lm_state := next_world now m q\<rparr>"

lemma ticked_ok:
  assumes "match_ok n now m" "\<not> lm_finished m"
  shows "match_ok n now (ticked now m q) \<and> evolves m (ticked now m q)"
proof -
  let ?st = "move_all (tick_dt m now) (lm_state m)"
  have dt: "0 \<le> tick_dt m now" "tick_dt m now \<le> 1 / 10" using assms(1) by (auto simp: tick_dt_def match_ok_def)
  have mv: "arena_ok ?st" "same_match (lm_state m) ?st" "tiles_wear (lm_state m) ?st"
    using move_all_ok [OF _ dt, of "lm_state m"] assms(1) by (simp_all add: match_ok_def)
  have tk: "arena_ok (next_world now m q)" "tiles_wear ?st (next_world now m q)"
    using arena_tick [OF mv(1), of now q] by (simp_all add: next_world_def)
  have sm: "same_match (lm_state m) (next_world now m q)"
    using same_match_trans [OF mv(2) same_match_tick] by (simp add: next_world_def)
  have w: "tiles_wear (lm_state m) (next_world now m q)" using tiles_wear_trans [OF mv(3) tk(2)] .
  have "set (bombs (next_world now m q)) \<subseteq> set (bombs (lm_state m))" using sm by (simp add: same_match_def)
  then have "match_ok n now (ticked now m q)"
    using assms(1) tk(1) same_match_length [OF sm] by (auto simp: match_ok_def ticked_def)
  then show ?thesis using evolves_state(2) [OF sm w assms(2), of now] by (simp add: ticked_def)
qed

text \<open>The state a tick leaves before it decides whether the match is over.\<close>

lemma broadcast_all:
  "\<lbrakk>\<And>e s. P s \<Longrightarrow> P (broadcast i e s); P s\<rbrakk> \<Longrightarrow> P (foldl (\<lambda>s e. broadcast i (f e) s) s es)"
  by (induction es arbitrary: s) auto

lemma announce_invariant:
  assumes "\<And>e s. P s \<Longrightarrow> P (broadcast i e s)" "P s"
  shows "P (announce i st res s)"
proof -
  have "P (case tk_explosion res of None \<Rightarrow> s | Some x \<Rightarrow> if detonated x = [] then s
      else broadcast i (Bm_explode (map (\<lambda>f. (fl_col f, fl_row f)) (flames st)) (destroyedBricks x)) s)"
    using assms by (auto split: option.split)
  then have "P (foldl (\<lambda>s e. broadcast i (Bm_pickup (fst e) (snd e)) s) (case tk_explosion res of None \<Rightarrow> s
      | Some x \<Rightarrow> if detonated x = [] then s
        else broadcast i (Bm_explode (map (\<lambda>f. (fl_col f, fl_row f)) (flames st)) (destroyedBricks x)) s) (tk_pickups res))"
    by (rule broadcast_all [where P = P, rotated]) (rule assms(1))
  then show ?thesis unfolding announce_def Let_def by (rule broadcast_all [where P = P, rotated]) (rule assms(1))
qed

lemma announce_quiet:
  "bm_matches (announce i st res s) = bm_matches s \<and> bm_games (announce i st res s) = bm_games s
   \<and> bm_seq (announce i st res s) = bm_seq s \<and> clock (announce i st res s) = clock s \<and> next_id (announce i st res s) = next_id s
   \<and> users (announce i st res s) = users s \<and> txs (announce i st res s) = txs s \<and> rooms (announce i st res s) = rooms s
   \<and> bm_forget (announce i st res s) = bm_forget s"
  by (rule announce_invariant [where P = "\<lambda>t. bm_matches t = bm_matches s \<and> bm_games t = bm_games s \<and> bm_seq t = bm_seq s
      \<and> clock t = clock s \<and> next_id t = next_id s \<and> users t = users s \<and> txs t = txs s \<and> rooms t = rooms s
      \<and> bm_forget t = bm_forget s"]) simp_all

lemma bm_announce_frame [simp]:
  "bm_matches (announce i st res s) = bm_matches s" "bm_games (announce i st res s) = bm_games s"
  "bm_seq (announce i st res s) = bm_seq s" "clock (announce i st res s) = clock s" "next_id (announce i st res s) = next_id s"
  "users (announce i st res s) = users s" "txs (announce i st res s) = txs s" "rooms (announce i st res s) = rooms s"
  "bm_forget (announce i st res s) = bm_forget s"
  using announce_quiet by blast+

lemma tick_stages:
  assumes "find_match i s = Some m" "\<not> lm_finished m"
  obtains v where "bm_matches v = bm_matches (save_match (ticked (clock s) m (luck_of s)) s)" "bm_games v = bm_games s"
    "bm_seq v = bm_seq s" "clock v = clock s" "next_id v = next_id s" "users v = users s" "txs v = txs s" "rooms v = rooms s"
    "bm_forget v = bm_forget s"
    "tick i s = (if is_over (next_world (clock s) m (luck_of s)) (clock s) then finish i v
       else broadcast i (Bm_state (snapshot (ticked (clock s) m (luck_of s)) (clock s))) v)"
proof -
  obtain res st q where w: "tickWorld (clock s) (move_all (tick_dt m (clock s)) (lm_state m)) (luck_of s) = (res, st, q)"
    by (metis prod_cases3)
  have st: "st = next_world (clock s) m (luck_of s)" using w by (simp add: next_world_def)
  have t: "m\<lparr>lm_lastTick := clock s, lm_state := st\<rparr> = ticked (clock s) m (luck_of s)" by (simp add: st ticked_def)
  define v where "v = announce i st res (save_match (ticked (clock s) m (luck_of s)) (s\<lparr>rand_pos := snd q\<rparr>))"
  have "tick i s = (if is_over st (clock s) then finish i v
      else broadcast i (Bm_state (snapshot (ticked (clock s) m (luck_of s)) (clock s))) v)"
    using assms w unfolding tick_def Let_def by (simp add: t v_def)
  moreover have "bm_matches v = bm_matches (save_match (ticked (clock s) m (luck_of s)) s)" "bm_games v = bm_games s"
    "bm_seq v = bm_seq s" "clock v = clock s" "next_id v = next_id s" "users v = users s" "txs v = txs s" "rooms v = rooms s"
    "bm_forget v = bm_forget s"
    by (simp_all add: v_def) (simp add: save_match_def)
  ultimately show thesis using that st by blast
qed

lemma find_saved:
  fixes s t :: "'a bm_st_scheme"
  assumes "bm_ok s" "find_match i s = Some m" "lm_gameId m' = lm_gameId m" "bm_matches t = bm_matches (save_match m' s)"
  shows "find_match i t = Some m'"
proof -
  have "lm_gameId m = i" using bm_okD [OF assms(1,2)] by simp
  then show ?thesis using bm.look_save [of m' s i] assms(2,3) bm.look_docs [OF assms(4)] by simp
qed

lemma ended_ok: "match_ok n now m \<Longrightarrow> match_ok n now (ended m)"
  by (simp add: match_ok_def)

lemma finish_serves:
  assumes "bm_ok s"
  shows "serves s (finish i s)"
proof (cases "find_match i s")
  case (Some m)
  show ?thesis
  proof (cases "lm_finished m")
    case False
    have "evolves m (ended m)" using False by (simp add: evolves_def)
    then show ?thesis
      using serves_save [OF assms Some _ ended_ok order_refl match_finish_effect(1-4) [OF Some False]] bm_okD [OF assms Some] by simp
  qed (use Some serves_frame [OF assms] in \<open>simp add: finish_def\<close>)
qed (use serves_frame [OF assms] in \<open>simp add: finish_def\<close>)

lemma tick_serves:
  assumes "bm_ok s"
  shows "serves s (tick i s)"
proof (cases "find_match i s")
  case (Some m)
  show ?thesis
  proof (cases "lm_finished m")
    case False
    let ?m = "ticked (clock s) m (luck_of s)"
    have m: "match_ok (bm_seq s) (clock s) ?m" "evolves m ?m"
      using ticked_ok [OF _ False] bm_okD [OF assms Some] by blast+
    obtain v where v: "bm_matches v = bm_matches (save_match ?m s)" "bm_seq v = bm_seq s" "clock v = clock s" "next_id v = next_id s"
      "tick i s = (if is_over (next_world (clock s) m (luck_of s)) (clock s) then finish i v
         else broadcast i (Bm_state (snapshot ?m (clock s))) v)"
      using tick_stages [OF Some False] by metis
    have sv: "serves s v" by (rule serves_save [OF assms Some m(2,1) order_refl v(1-3)]) (simp add: v(4))
    then have ok: "bm_ok v" by (simp add: serves_def)
    have "serves v (tick i s)"
      using finish_serves [OF ok, of i] serves_frame [OF ok, of "broadcast i (Bm_state (snapshot ?m (clock s))) v"] v(5) by simp
    then show ?thesis by (rule serves_trans [OF sv])
  qed (use Some serves_frame [OF assms] in \<open>simp add: tick_def\<close>)
qed (use serves_frame [OF assms] in \<open>simp add: tick_def\<close>)

lemma bm_matched_frame:
  "bm_matches (foldl (\<lambda>s u. bm_emit (GameUser u) (e u) s) s us) = bm_matches s
   \<and> bm_seq (foldl (\<lambda>s u. bm_emit (GameUser u) (e u) s) s us) = bm_seq s
   \<and> clock (foldl (\<lambda>s u. bm_emit (GameUser u) (e u) s) s us) = clock s
   \<and> next_id (foldl (\<lambda>s u. bm_emit (GameUser u) (e u) s) s us) = next_id s"
  by (induction us arbitrary: s) (auto simp: bm_emit_def)

lemma new_match_ok:
  assumes "distinct us" "length us \<in> {2..4}" "st = fst (createState mid us now q)"
  shows "match_ok n now (new_match i us opts st now)"
proof -
  have "arena_ok st" unfolding assms(3) by (rule arena_createState [OF assms(1)])
  moreover have "length (players st) = length us" "bombs st = []"
    unfolding assms(3) by (simp_all add: createState_def Let_def split_beta)
  ultimately show ?thesis using assms(2) by (simp add: match_ok_def new_match_def)
qed

lemma serves_append:
  assumes "bm_ok s" "match_ok (bm_seq s) (clock s) m" "lm_gameId m = next_id s" "bm_matches t = bm_matches s @ [m]"
    "bm_seq t = bm_seq s" "clock t = clock s" "next_id s < next_id t"
  shows "serves s t"
proof -
  have "bm_ok t" using stored_ok_append [of lm_gameId "match_ok (bm_seq s) (clock s)" "next_id s" "bm_matches s" m "next_id t"] assms
    by (simp add: bm_ok_def)
  moreover have "find_match i t = find_match i s" if "i < next_id s" for i
    using that assms(3,4) by (simp add: find_match_def find_append split: option.split)
  ultimately show ?thesis using assms(7) evolves_refl by (auto simp: serves_def)
qed

lemma createGame_serves:
  assumes "bm_ok s" "distinct us"
  shows "serves s (snd (createGame us opts s))"
proof (cases "length us < 2 \<or> 4 < length us")
  case True
  then show ?thesis using serves_frame [OF assms(1)] by (simp add: createGame_def)
next
  case False
  let ?s = "s\<lparr>next_id := Suc (next_id s)\<rparr>"
  obtain st q where st: "createState (md_id (getMap (bp_mapId opts))) us (clock s) (luck_of ?s) = (st, q)" by (metis surj_pair)
  let ?m = "new_match (next_id s) us opts st (clock s)"
  have ok: "match_ok (bm_seq s) (clock s) ?m"
    by (rule new_match_ok [OF assms(2), where mid = "md_id (getMap (bp_mapId opts))" and q = "luck_of ?s"]) (use st False in simp_all)
  have "bm_matches (snd (createGame us opts s)) = bm_matches s @ [?m]" "bm_seq (snd (createGame us opts s)) = bm_seq s"
    "clock (snd (createGame us opts s)) = clock s" "next_id (snd (createGame us opts s)) = Suc (next_id s)"
    using False st by (simp_all add: createGame_def fresh_id_def Let_def new_record_def bm_matched_frame)
  then show ?thesis by (intro serves_append [OF assms(1) ok]) (simp_all add: new_match_def)
qed

lemma forget_serves:
  assumes "bm_ok s"
  shows "serves s (forget i s)"
proof -
  have f: "find_match j (forget i s) = (if j = i then None else find_match j s)" for j
  proof -
    have "List.find (\<lambda>m. lm_gameId m = j) (filter (\<lambda>m. lm_gameId m \<noteq> i) ms)
        = (if j = i then None else List.find (\<lambda>m. lm_gameId m = j) ms)" for ms :: "LiveMatch list"
      by (induction ms) auto
    then show ?thesis by (simp add: find_match_def forget_def)
  qed
  moreover have "bm_ok (forget i s)" using assms by (auto simp: bm_ok_def stored_ok_def forget_def intro: distinct_map_filter)
  ultimately show ?thesis using evolves_refl by (auto simp: serves_def forget_def)
qed

text \<open>Whatever the clients send, in any order, while time passes.\<close>

inductive bm_step :: "'a bm_st_scheme \<Rightarrow> 'a bm_st_scheme \<Rightarrow> bool" where
  creates: "distinct us \<Longrightarrow> bm_step s (snd (createGame us opts s))"
| steers: "bm_step s (setInput r u dx dy s)"
| drops: "bm_step s (dropBomb r u s)"
| quits: "bm_step s (killPlayer r u s)"
| ticks: "bm_step s (tick i s)"
| forgets: "bm_step s (forget i s)"
| waits: "clock s \<le> now \<Longrightarrow> bm_step s (s\<lparr>clock := now\<rparr>)"

lemma bm_step_serves: "\<lbrakk>bm_step s t; bm_ok s\<rbrakk> \<Longrightarrow> serves s t"
proof (induction rule: bm_step.induct)
  case (waits s now)
  then show ?case by (intro serves_frame) simp_all
qed (simp_all add: createGame_serves setInput_serves dropBomb_serves killPlayer_serves tick_serves forget_serves)

lemma bm_run_serves: "\<lbrakk>bm_step\<^sup>*\<^sup>* s t; bm_ok s\<rbrakk> \<Longrightarrow> serves s t"
proof (induction rule: rtranclp_induct)
  case base
  then show ?case by (rule serves_frame) simp_all
next
  case (step t u)
  then have st: "serves s t" by blast
  then have "bm_ok t" by (simp add: serves_def)
  then show ?case using serves_trans [OF st bm_step_serves [OF step.hyps(2)]] by blast
qed

text \<open>
  Live matches stay sound: after any sequence of creations, inputs, bombs, departures, ticks and deletions, in any
  order and at any times, every match has its players in distinct seats within their bounds and clear of walls, bombs
  on distinct empty tiles that are counted against their owners, deaths recorded once, and a running loop
  exactly while it is not finished.
\<close>

theorem bomber_matches_stay_sound:
  assumes "bm_ok s" "bm_step\<^sup>*\<^sup>* s t"
  shows "bm_ok t"
  using bm_run_serves [OF assms(2,1)] by (simp add: serves_def)

text \<open>
  A match keeps its players, its stakes and its walls, bricks are only ever removed, and a finished match never
  changes again.
\<close>

theorem bomber_results_final:
  assumes "bm_ok s" "bm_step\<^sup>*\<^sup>* s t" "find_match i s = Some m" "find_match i t = Some m'"
  shows "lm_mode m' = lm_mode m \<and> lm_pot m' = lm_pot m
    \<and> map b_userId (players (lm_state m')) = map b_userId (players (lm_state m))
    \<and> (\<forall>c r. tileAt (lm_state m') c r = WALL \<longleftrightarrow> tileAt (lm_state m) c r = WALL)
    \<and> (\<forall>c r. tileAt (lm_state m') c r = BRICK \<longrightarrow> tileAt (lm_state m) c r = BRICK)
    \<and> (lm_finished m \<longrightarrow> m' = m)"
proof -
  have i: "i < next_id s" "grid_ok (lm_state m)" using bm_okD [OF assms(1,3)] by (simp_all add: match_ok_def arena_ok_def)
  then have e: "evolves m m'" using bm_run_serves [OF assms(2,1)] assms(3,4) unfolding serves_def by fastforce
  then have w: "tiles_wear (lm_state m) (lm_state m')" by (simp add: evolves_def)
  show ?thesis using e tiles_wear_tileAt(2,3) [OF w i(2)] by (simp add: evolves_def)
qed

section \<open>Every match ends\<close>

lemma result_doc_simps [simp]:
  "bg_id (result_doc m rp coin now d) = bg_id d" "bg_status (result_doc m rp coin now d) = FINISHED"
  "bg_winner (result_doc m rp coin now d) = hd_option (ranking_of (lm_state m))"
  by (simp_all add: result_doc_def)

text \<open>
  C22: Every match ends: a tick ends it exactly when at most one player is alive or three minutes have passed since
  its start. A match that ends stops its loop and is forgotten fifteen seconds later; when at most one player is alive
  it stores as the winner the one alive, or the last to die when nobody is. (Whom a match out of time with several
  survivors stores is below: the comment of the code promises a draw.) Otherwise its record is as it was.
\<close>

theorem tick_decides_match:
  assumes "bm_ok s" "find_match i s = Some m" "\<not> lm_finished m"
    "List.find (\<lambda>d. bg_id d = i) (bm_games s) = Some d"
  shows "\<exists>m' d'. find_match i (tick i s) = Some m' \<and> List.find (\<lambda>d. bg_id d = i) (bm_games (tick i s)) = Some d'
    \<and> (lm_finished m' \<longleftrightarrow> aliveCount (lm_state m') \<le> 1 \<or> clock s - startedAt (lm_state m) > 180000)
    \<and> lm_loop m' = (\<not> lm_finished m')
    \<and> (if lm_finished m' then bm_forget (tick i s) i = Some (clock s + 15000) \<and> bg_status d' = FINISHED
         \<and> (aliveCount (lm_state m') \<le> 1 \<longrightarrow> match_winner (lm_state m') \<noteq> None \<and> bg_winner d' = match_winner (lm_state m')) else d' = d)"
proof -
  let ?m = "ticked (clock s) m (luck_of s)" and ?st = "next_world (clock s) m (luck_of s)"
  have m: "match_ok (bm_seq s) (clock s) ?m" "evolves m ?m"
    using ticked_ok [OF _ assms(3)] bm_okD [OF assms(1,2)] by blast+
  have st: "lm_state ?m = ?st" "lm_gameId ?m = lm_gameId m" "\<not> lm_finished ?m" using assms(3) by (simp_all add: ticked_def)
  have start: "startedAt ?st = startedAt (lm_state m)" using m(2) st(1) by (simp add: evolves_def)
  have a: "arena_ok ?st" "players ?st \<noteq> []" using m(1) st(1) by (auto simp: match_ok_def)
  obtain v where v: "bm_matches v = bm_matches (save_match ?m s)" "bm_games v = bm_games s" "bm_seq v = bm_seq s"
    "clock v = clock s" "next_id v = next_id s"
    "tick i s = (if is_over ?st (clock s) then finish i v else broadcast i (Bm_state (snapshot ?m (clock s))) v)"
    using tick_stages [OF assms(2,3)] by metis
  have ok: "bm_ok v" using serves_save [OF assms(1,2) m(2,1) order_refl v(1,3,4)] v(5) by (simp add: serves_def)
  have fv: "find_match i v = Some ?m" by (rule find_saved [OF assms(1,2) st(2) v(1)])
  have over: "is_over ?st (clock s) \<longleftrightarrow> aliveCount ?st \<le> 1 \<or> clock s - startedAt (lm_state m) > 180000"
    by (simp add: is_over_def ROUND_LIMIT_MS_def start)
  show ?thesis
  proof (cases "is_over ?st (clock s)")
    case False
    have "lm_loop ?m" using m(1) st(3) by (simp add: match_ok_def)
    moreover have "find_match i (tick i s) = Some ?m" using fv v(6) False bm.look_docs [of "tick i s" v i] by simp
    ultimately show ?thesis using False over v(2,6) assms(4) st by auto
  next
    case True
    note fe = match_finish_effect [OF fv st(3)]
    have "find_match i (finish i v) = Some (ended ?m)" by (rule find_saved [OF ok fv _ fe(1)]) simp
    moreover obtain rp coin where g: "bm_games (finish i v) = updateOne (\<lambda>d. bg_id d = i) (result_doc (ended ?m) rp coin (clock v)) (bm_games v)"
      using fe(6) by blast
    have "List.find (\<lambda>d. bg_id d = i) (bm_games (finish i v)) = Some (result_doc (ended ?m) rp coin (clock v) d)"
      unfolding g v(2) using assms(4) by (simp add: find_updateOne_same)
    moreover have "ranking_of ?st \<noteq> []" using ranking_distinct [OF a(1)] a(2) by auto
    then have "hd_option (ranking_of ?st) = Some (hd (ranking_of ?st))" by (cases "ranking_of ?st") auto
    moreover have "aliveCount ?st \<le> 1 \<Longrightarrow> match_winner ?st = hd_option (ranking_of ?st)" by (rule decided_winner [OF a])
    ultimately show ?thesis using True over v(4,6) fe(5) st by auto
  qed
qed

section \<open>What players may not expect\<close>

text \<open>
  A match that runs out of time with everyone alive is not a draw: the ranking is the order of the seats, and
  the whole pot of a wager goes to the player in the first seat.
\<close>

theorem undecided_match_pays_first_seat:
  assumes "arena_ok (lm_state m)" "players (lm_state m) \<noteq> []" "\<forall>p \<in> set (players (lm_state m)). b_alive p"
    "lm_mode m = WAGER" "0 < lm_pot m"
  shows "\<exists>coin. match_rewards m s = (None, Some coin,
      best_effort (payout (b_userId (hd (players (lm_state m)))) (lm_pot m) (match_ref m)) s)
    \<and> map_of coin (b_userId (hd (players (lm_state m)))) = Some (lm_pot m - lm_betAmount m)
    \<and> ranking_of (lm_state m) = map b_userId (players (lm_state m))"
proof -
  let ?st = "lm_state m"
  have "set (deathOrder ?st) = {}" using assms(1,3) by (auto simp: arena_ok_def deaths_ok_def)
  then have "place_order ?st = map b_seat (players ?st)" using assms(3) by (simp add: place_order_def filter_True)
  also have "\<dots> = [0..<length (players ?st)]" using assms(1) by (simp add: arena_ok_def seats_ok_def)
  finally have r: "ranking_of ?st = map b_userId (players ?st)"
    unfolding ranking_users [OF assms(1)] by (intro nth_equalityI) simp_all
  then have "hd_option (ranking_of ?st) = Some (b_userId (hd (players ?st)))" using assms(2) by (cases "players ?st") auto
  then show ?thesis using assms(4,5) r by (simp add: match_rewards_def Let_def update_conv')
qed

text \<open>A bomb of somebody else under a player blocks every move that starts on its tile.\<close>

lemma touched_near:
  assumes "\<bar>x - of_int c\<bar> \<le> 4 / 5" "\<bar>y - of_int r\<bar> \<le> 4 / 5"
  shows "(c, r) \<in> set (touched x y)"
proof -
  have "x - of_int c \<le> 4 / 5" "of_int c - x \<le> 4 / 5" "y - of_int r \<le> 4 / 5" "of_int r - y \<le> 4 / 5"
    using assms by linarith+
  then show ?thesis unfolding touched_iff js_round_def PLAYER_RADIUS_def by linarith
qed

lemma foreign_bomb_blocks:
  assumes "bomb_at s c r \<noteq> None" "b_standingBomb p \<noteq> Some (c, r)" "\<bar>x - of_int c\<bar> \<le> 4 / 5" "\<bar>y - of_int r\<bar> \<le> 4 / 5"
  shows "collideAxis s p x y = (b_x p, b_y p)"
proof -
  have "blocked s c r p" using assms(1,2) by (simp add: blocked_def)
  then show ?thesis using touched_near [OF assms(3,4)] by (force simp: collideAxis_def)
qed

text \<open>
  A bomb placed by another player traps whoever stands in the middle of its tile: since only the placer may step off
  it, no input moves the other one, at any speed, until it goes off.
\<close>

theorem foreign_bomb_traps:
  assumes "placeBomb n k now st = (Some b, t)" "player_ok p" "0 \<le> dt" "dt \<le> 1 / 10"
    "pos p = (of_int (bo_col b), of_int (bo_row b))" "b_standingBomb p \<noteq> Some (bo_col b, bo_row b)"
  shows "pos (movePlayer t dt p) = pos p"
proof -
  let ?c = "bo_col b" and ?r = "bo_row b" and ?d = "b_speed p * dt" and ?p = "leave_bomb p"
  have "b \<in> set (bombs t)" using placeBomb_frame [OF assms(1)] by simp
  then have b: "bomb_at t ?c ?r \<noteq> None" by (auto simp: bomb_at_def find_None_iff_all)
  have sp: "0 \<le> b_speed p" "b_speed p \<le> 8" using assms(2) by (auto simp: player_ok_def BASE_SPEED_def MAX_SPEED_def)
  then have d: "0 \<le> ?d" "?d \<le> 4 / 5" using mult_mono [of "b_speed p" 8 dt "1 / 10"] assms(3,4) by auto
  have at: "b_x p = of_int ?c" "b_y p = of_int ?r" using assms(5) by (simp_all add: pos_def)
  have sb: "b_standingBomb ?p \<noteq> Some (?c, ?r)" using assms(6) by (auto simp: leave_bomb_def split: option.split)
  have near: "\<bar>of_int i * ?d\<bar> \<le> 4 / 5" if "\<bar>i\<bar> \<le> 1" for i :: int
  proof -
    have "\<bar>of_int i * ?d\<bar> \<le> ?d" using press_step [OF that d(1), of 0] by simp
    then show ?thesis using d(2) by linarith
  qed
  have x: "collideAxis t ?p (b_x p + of_int (b_dx p) * ?d) (b_y p) = (b_x p, b_y p)"
    using foreign_bomb_blocks [OF b sb] near [of "b_dx p"] assms(2) by (simp add: at player_ok_def)
  have y: "collideAxis t ?p (b_x p) (b_y p + of_int (b_dy p) * ?d) = (b_x p, b_y p)"
    using foreign_bomb_blocks [OF b sb] near [of "b_dy p"] assms(2) by (simp add: at player_ok_def)
  have c: "centerX t ?d ?p = ?p" "centerY t ?d ?p = ?p"
    by (simp_all add: centerX_def centerY_def centering_def Let_def at)
  have same: "?p\<lparr>b_x := b_x p\<rparr> = ?p" "?p\<lparr>b_y := b_y p\<rparr> = ?p" by (simp_all add: leave_bomb_def split: option.split)
  have "stride t ?d ?p = ?p" by (simp add: stride_def Let_def x y c same)
  then show ?thesis by (simp add: movePlayer_stride pos_def)
qed

section \<open>Examples\<close>

definition fixed_luck :: rng where
  "fixed_luck = (\<lambda>_. 1, 0)"

definition world0 :: BombermanState where
  "world0 = fst (createState ''cross'' [1, 2] 0 fixed_luck)"

definition bomb_of :: "nat \<Rightarrow> oid \<Rightarrow> int \<times> int \<Rightarrow> int \<Rightarrow> Bomb" where
  "bomb_of i u c t = \<lparr>bo_id = i, bo_ownerId = u, bo_col = fst c, bo_row = snd c, bo_flame = 2, bo_fuseAt = t\<rparr>"

text \<open>One bomb goes off in a corner while another one waits in the opposite corner.\<close>

definition mined :: BombermanState where
  "mined = world0\<lparr>bombs := [bomb_of 0 1 (1, 1) 10, bomb_of 1 2 (11, 9) 5000]\<rparr>"

lemma world0_ok: "arena_ok world0"
  unfolding world0_def by (rule arena_createState) simp

lemma world0_players: "players world0 = [spawn_player 13 11 1 0, spawn_player 13 11 2 1]"
  by code_simp

lemma spawned [simp]: "b_userId (spawn_player cs rs u k) = u" "b_alive (spawn_player cs rs u k)"
  by (simp_all add: spawn_player_def Let_def)

theorem explosion_complete_witness:
  "100 < bo_fuseAt (bomb_of 1 2 (11, 9) 5000)
   \<and> pos_of (bomb_of 1 2 (11, 9) 5000)
        \<notin> (\<lambda>f. (fl_col f, fl_row f)) ` set (drop (length (flames mined)) (flames (fst (snd (explode_due 100 mined fixed_luck)))))"
proof -
  have d: "distinct (map pos_of (bombs mined))" by code_simp
  have "bombs (fst (snd (explode_due 100 mined fixed_luck))) = [bomb_of 1 2 (11, 9) 5000]" by code_simp
  then have b: "bomb_of 1 2 (11, 9) 5000 \<in> set (bombs (fst (snd (explode_due 100 mined fixed_luck))))" by simp
  show ?thesis using explosion_complete [OF d b] by (auto simp: image_iff)
qed

text \<open>A player in a corner who presses right and down.\<close>

definition runner :: BPlayer where
  "runner = (spawn_player 13 11 1 0)\<lparr>b_dx := 1, b_dy := 1\<rparr>"

lemma runner_ok: "clear_of_walls world0 runner" "player_ok runner"
  by code_simp+

theorem move_never_crosses_walls_witness:
  "\<exists>n \<le> 4. paced world0 (b_speed runner * (1 / 10)) n (pos runner) (pos (movePlayer world0 (1 / 10) runner))"
  using move_never_crosses_walls [OF runner_ok, of "1 / 10"] by simp

theorem tick_burns_exactly_witness:
  "filter (\<lambda>p. b_alive p \<and> list_ex (\<lambda>f. on_tile p (fl_col f) (fl_row f)) (flames (fst (snd (tickWorld 0 world0 fixed_luck)))))
     (players (fst (snd (tickWorld 0 world0 fixed_luck)))) = []"
proof -
  obtain r t q where t: "tickWorld 0 world0 fixed_luck = (r, t, q)" by (metis prod_cases3)
  from tick_burns_exactly [OF world0_ok this] show ?thesis by (auto simp: t filter_empty_conv list_ex_iff)
qed

theorem placements_ranking_witness: "map snd (placements world0) = [1, 2]"
  using placements_ranking [OF world0_ok] by (simp add: world0_players upt_rec)

text \<open>A wager match of two on that map, in the room that holds its pot.\<close>

definition match0 :: LiveMatch where
  "match0 = \<lparr>lm_gameId = 25, lm_mode = WAGER, lm_betAmount = 10, lm_pot = 20, lm_roomId = Some 20, lm_mapId = ''cross'',
     lm_state = world0, lm_loop = True, lm_lastTick = 0, lm_finished = False\<rparr>"

definition bm0 :: bm_st where
  "bm0 = rooms_st.extend ((lobby0 [demo_room\<lparr>r_status := IN_PROGRESS\<rparr>])\<lparr>clock := 1000\<rparr>)
     \<lparr>bm_games = [(new_record 25 [1, 2] \<lparr>bp_mode = Some WAGER, bp_betAmount = Some 10, bp_roomId = Some 20,
        bp_mapId = Some ''cross''\<rparr>)], bm_matches = [match0], bm_forget = Map.empty, bm_seq = 7, bm_log = []\<rparr>"

lemma bm0_frame [simp]:
  "bm_matches bm0 = [match0]" "next_id bm0 = 30" "clock bm0 = 1000" "bm_seq bm0 = 7" "users bm0 = users wallet0"
  "txs bm0 = txs wallet0" "rooms bm0 = [demo_room\<lparr>r_status := IN_PROGRESS\<rparr>]" "find_user u bm0 = find_user u wallet0"
  by (simp_all add: bm0_def rooms_st.extend_def lobby0_frame lobby0_defs wallet0_defs find_user_def)

lemma bm0_ok: "bm_ok bm0"
proof -
  have "bombs world0 = []" by code_simp
  then show ?thesis using world0_ok by (simp add: bm_ok_def stored_ok_def match_ok_def match0_def world0_players)
qed

lemma bm0_match: "find_match 25 bm0 = Some match0"
  by (simp add: find_match_def match0_def)

theorem bomber_matches_stay_sound_witness:
  "bm_ok (tick 25 (dropBomb (Hex 25) 1 (setInput (Hex 25) 2 1 0 bm0)))"
proof -
  have "bm_step\<^sup>*\<^sup>* bm0 (setInput (Hex 25) 2 1 0 bm0)" by (rule r_into_rtranclp) (rule bm_step.steers)
  then have "bm_step\<^sup>*\<^sup>* bm0 (dropBomb (Hex 25) 1 (setInput (Hex 25) 2 1 0 bm0))"
    by (rule rtranclp.rtrancl_into_rtrancl) (rule bm_step.drops)
  then have "bm_step\<^sup>*\<^sup>* bm0 (tick 25 (dropBomb (Hex 25) 1 (setInput (Hex 25) 2 1 0 bm0)))"
    by (rule rtranclp.rtrancl_into_rtrancl) (rule bm_step.ticks)
  then show ?thesis by (rule bomber_matches_stay_sound [OF bm0_ok])
qed

theorem bomber_results_final_witness:
  "\<exists>m. find_match 25 (tick 25 bm0) = Some m \<and> (\<forall>c r. tileAt (lm_state m) c r = WALL \<longleftrightarrow> tileAt world0 c r = WALL)"
proof -
  have "bm_step\<^sup>*\<^sup>* bm0 (tick 25 bm0)" by (rule r_into_rtranclp) (rule bm_step.ticks)
  moreover obtain m where "find_match 25 (tick 25 bm0) = Some m"
  proof -
    obtain v where "bm_matches v = bm_matches (save_match (ticked (clock bm0) match0 (luck_of bm0)) bm0)" "bm_seq v = bm_seq bm0"
      "clock v = clock bm0" "next_id v = next_id bm0"
      "tick 25 bm0 = (if is_over (next_world (clock bm0) match0 (luck_of bm0)) (clock bm0) then finish 25 v
         else broadcast 25 (Bm_state (snapshot (ticked (clock bm0) match0 (luck_of bm0)) (clock bm0))) v)"
      using tick_stages [OF bm0_match] by (metis (no_types, lifting) match0_def LiveMatch.select_convs(10))
    note v = this
    have v25: "find_match 25 v = Some (ticked (clock bm0) match0 (luck_of bm0))"
      by (rule find_saved [OF bm0_ok bm0_match _ v(1)]) (simp add: ticked_def)
    have "find_match 25 (finish 25 v) = Some (ended (ticked (clock bm0) match0 (luck_of bm0)))"
    proof -
      have "\<not> lm_finished (ticked (clock bm0) match0 (luck_of bm0))" by (simp add: ticked_def match0_def)
      from match_finish_effect(1) [OF v25 this] show ?thesis
        using v(1) by (simp add: find_match_def save_match_def ticked_def match0_def)
    qed
    then show thesis using that v25 v(5) by (cases "is_over (next_world (clock bm0) match0 (luck_of bm0)) (clock bm0)")
      (auto simp: find_match_def)
  qed
  ultimately show ?thesis using bomber_results_final [OF bm0_ok _ bm0_match] by (auto simp: match0_def)
qed

theorem tick_decides_match_witness:
  "\<exists>m'. find_match 25 (tick 25 bm0) = Some m' \<and> (lm_finished m' \<longleftrightarrow> aliveCount (lm_state m') \<le> 1)"
proof -
  have "List.find (\<lambda>d. bg_id d = 25) (bm_games bm0) = Some (hd (bm_games bm0))"
    by (simp add: bm0_def rooms_st.extend_def new_record_def)
  moreover have "startedAt world0 = 0" by code_simp
  ultimately show ?thesis
    using tick_decides_match [OF bm0_ok bm0_match] by (fastforce simp: match0_def)
qed

theorem bomber_end_conserves_coins_witness:
  "coins (finish 25 bm0) + escrow (finish 25 bm0) = coins bm0 + escrow bm0"
proof -
  have l: "ledger_ok bm0" using wallet0_ok by (rule ledger_ok_frame) (simp_all add: wallet0_defs)
  have p: "\<forall>p \<in> set (players (lm_state match0)). find_user (b_userId p) bm0 \<noteq> None"
    using wallet0_find by (simp add: match0_def world0_players)
  have r: "find_room 20 bm0 = Some (demo_room\<lparr>r_status := IN_PROGRESS\<rparr>)" by (simp add: find_room_def demo_room_def)
  show ?thesis
    using bomber_end_conserves_coins [OF bm0_match _ l _ _ p _ _ _ r] world0_ok
    by (simp add: match0_def world0_players demo_room_def)
qed

theorem bomber_points_zero_sum_witness:
  "\<exists>rp. fst (match_rewards (match0\<lparr>lm_mode := RANKED\<rparr>) bm0) = Some rp \<and> sum_list (map snd rp) = 0"
proof -
  obtain x coin t where r: "match_rewards (match0\<lparr>lm_mode := RANKED\<rparr>) bm0 = (x, coin, t)" by (metis prod_cases3)
  then obtain rp where "x = Some rp" by (auto simp: match_rewards_def match0_def Let_def)
  then show ?thesis
    using bomber_points_zero_sum [of "match0\<lparr>lm_mode := RANKED\<rparr>" bm0 rp coin t] r world0_ok
    by (simp add: match0_def world0_players)
qed

theorem undecided_match_pays_first_seat_witness: "ranking_of world0 = [1, 2]"
  using undecided_match_pays_first_seat [of match0 bm0] world0_ok
  by (auto simp: match0_def world0_players)

theorem foreign_bomb_traps_witness:
  "pos (movePlayer (snd (placeBomb 0 0 0 world0)) (1 / 10) (runner\<lparr>b_userId := 2\<rparr>)) = pos runner"
proof -
  obtain b where b: "fst (placeBomb 0 0 0 world0) = Some b" "bo_col b = 1" "bo_row b = 1"
  proof -
    have "fst (placeBomb 0 0 0 world0) = Some (bomb_of 0 1 (1, 1) 2200)" by code_simp
    then show thesis using that by (simp add: bomb_of_def)
  qed
  have "placeBomb 0 0 0 world0 = (Some b, snd (placeBomb 0 0 0 world0))" using b(1) by (simp add: prod_eq_iff)
  from foreign_bomb_traps [OF this, of "runner\<lparr>b_userId := 2\<rparr>" "1 / 10"] b(2,3) runner_ok(2) show ?thesis
    by (simp add: player_ok_def pos_def runner_def spawn_player_def spawnCorners_def Let_def)
qed

end
