(* ===== verification/BomberGatewayLaws.thy ===== *)
theory BomberGatewayLaws
  imports BomberGateway GatewayLaws BomberGameLaws QueueLaws
begin

text \<open>
  The gateway of Bomberman keeps what its service promises: whatever the clients send, in any order, every
  live match is sound.
\<close>

section \<open>The service under the gateway\<close>

lemma bm_seating [simp]:
  "seating (broadcast i e s) = seating s" "seating (save_match m s) = seating s" "seating (bm_emit t e s) = seating s"
  "seating (s\<lparr>bm_seq := n\<rparr>) = seating s" "seating (s\<lparr>bm_games := gs\<rparr>) = seating s" "seating (s\<lparr>bm_forget := f\<rparr>) = seating s"
  "seating (s\<lparr>rand_pos := p\<rparr>) = seating s" "seating (s\<lparr>bm_matches := ms\<rparr>) = seating s" "seating (s\<lparr>clock := now\<rparr>) = seating s"
  by (simp_all add: broadcast_def bm_emit_def save_match_def seating_def)

lemma seating_emits [simp]:
  "seating (foldl (\<lambda>s u. bm_emit (f u) (h u) s) s us) = seating s" "seating (foldl (\<lambda>s u. broadcast i (h u) s) s us) = seating s"
  by (induction us arbitrary: s) simp_all

lemma reorder_perm: "mset (reorder shuffle us) = mset us"
  by (simp add: reorder_def)

lemma reorder_simps [simp]: "distinct (reorder shuffle us) = distinct us" "length (reorder shuffle us) = length us"
  "set (reorder shuffle us) = set us"
  using reorder_perm mset_eq_imp_distinct_iff mset_eq_length mset_eq_setD by blast+

lemma bm_seating_createGame [simp]: "seating (snd (createGame us opts s)) = seating s"
  by (simp add: createGame_def fresh_id_def Let_def split_beta) (simp add: seating_def)

lemma bm_seating_finish [simp]: "seating (finish i s) = seating s"
proof (cases "find_match i s")
  case (Some m)
  show ?thesis
  proof (cases "lm_finished m")
    case False
    obtain rp coin u where r: "match_rewards (ended m) (save_match (ended m) s) = (rp, coin, u)" by (metis prod_cases3)
    have u: "seating u = seating s"
      using seating_accounts [OF only_accounts_rewards [of "save_match (ended m) s" "ended m"]] r by simp
    obtain v where v: "rooms v = rooms u"
      "finish i s = (case lm_roomId m of Some r \<Rightarrow> close_room r v | None \<Rightarrow> v)\<lparr>bm_forget := (bm_forget u)(i \<mapsto> clock u + 15000)\<rparr>"
      by (rule finish_stages [OF Some False r]) blast
    show ?thesis using u seating_rooms [OF v(1)] by (simp add: v(2) split: option.split)
  qed (simp add: finish_def Some)
qed (simp add: finish_def)

lemma bm_step_seating: "bm_step s t \<Longrightarrow> seating t = seating s"
proof (induction rule: bm_step.induct)
  case (ticks s i)
  then show ?case by (simp add: tick_def announce_def Let_def split_beta split: option.split)
qed (simp_all add: setInput_def dropBomb_def killPlayer_def forget_def Let_def split_beta split: option.split)

lemma bm_ok_lobby: "lobby_frame s t \<Longrightarrow> bm_ok s \<Longrightarrow> bm_ok t"
  using rooms_more_bm [of t s] by (auto simp: lobby_frame_def bm_ok_def stored_ok_def)

lemma bm_createGame_ok: "distinct us \<Longrightarrow> bm_ok s \<Longrightarrow> bm_ok (snd (createGame us opts s))"
  using bm_step_serves [OF bm_step.creates, of us s opts] by (simp add: serves_def)

lemma bm_createGame_refused: "createGame us opts s = (Inl e, t) \<Longrightarrow> t = s"
  by (auto simp: createGame_def Let_def split_beta split: if_splits)

lemma bm_createGame_found:
  "createGame us opts s = (x, t) \<Longrightarrow> find_room i s \<noteq> None \<Longrightarrow> find_room i t \<noteq> None"
  using bm_seating_createGame [of us opts s] by (simp only: find_room_seating snd_conv)

definition room_options :: "GameRoom \<Rightarrow> string option \<Rightarrow> BombermanOptions" where
  "room_options room mapId =
     \<lparr>bp_mode = Some (r_mode room), bp_betAmount = Some (r_betAmount room), bp_roomId = Some (r_id room), bp_mapId = mapId\<rparr>"

lemma bm_launch_cases:
  assumes "bm_launch mapId room s = (x, t)"
  obtains (refused) e where "x = Inl e" "t = s"
  | (started) game s1 y where "createGame (map rm_userId (r_members room)) (room_options room mapId) s = (Inr game, s1)"
      "markInProgress (Hex (r_id room)) (bg_id game) s1 = (y, t)" "x = (case y of Inl e \<Rightarrow> Inl e | Inr _ \<Rightarrow> Inr (bg_id game))"
proof -
  obtain z s1 where c: "createGame (map rm_userId (r_members room)) (room_options room mapId) s = (z, s1)" by fastforce
  show ?thesis
  proof (cases z)
    case (Inl e)
    then have "s1 = s" using bm_createGame_refused c by blast
    then show ?thesis using refused [of e] assms c Inl by (simp add: bm_launch_def launchFromRoom_def await_def room_options_def)
  next
    case (Inr game)
    obtain y t' where m: "markInProgress (Hex (r_id room)) (bg_id game) s1 = (y, t')" by fastforce
    have "t' = t" "x = (case y of Inl e \<Rightarrow> Inl e | Inr _ \<Rightarrow> Inr (bg_id game))"
      using assms c Inr m by (auto simp: bm_launch_def launchFromRoom_def await_def room_options_def split: sum.splits)
    then show ?thesis using started c Inr m by simp
  qed
qed

interpretation bm_gw: game_service bm_ok "\<lambda>_. True" "bm_launch mapId" "bm_challenge_start shuffle" for mapId shuffle
proof (unfold_locales, goal_cases)
  case (1 s t)
  then show ?case by (rule bm_ok_lobby)
next
  case (3 s room)
  obtain x t where l: "bm_launch mapId room s = (x, t)" by fastforce
  then show ?case
  proof (cases rule: bm_launch_cases)
    case (started game s1 y)
    then have "bm_ok s1" using bm_createGame_ok [OF 3(3,1), of "room_options room mapId"] by simp
    then show ?thesis using bm_ok_lobby [OF mark_frame, of s1 "Hex (r_id room)" "bg_id game"] started(2) l by simp
  qed (use l 3 in simp)
next
  case (4 s room)
  obtain x t where l: "bm_launch mapId room s = (x, t)" by fastforce
  then show ?case
  proof (cases rule: bm_launch_cases)
    case (started game s1 y)
    have "seated_once s1" using bm_seating_createGame [of "map rm_userId (r_members room)" "room_options room mapId" s] started(1) 4
      by (simp add: seated_once_iff)
    then show ?thesis using mark_frame [of s1 "Hex (r_id room)" "bg_id game"] started(2) l by (simp add: lobby_frame_def)
  qed (use l 4 in simp)
next
  case (5 s k u)
  then show ?case by (simp add: bm_challenge_start_def await_last bm_createGame_ok)
next
  case (6 s k u)
  then show ?case by (simp add: bm_challenge_start_def await_last seated_once_iff)
next
  case (7 room s gameId t)
  from 7(1) show ?case
  proof (cases rule: bm_launch_cases)
    case (started game s1 y)
    have "find_room (r_id room) s1 \<noteq> None" using bm_createGame_found [OF started(1)] 7(2) by simp
    from mark_found [OF this, of "bg_id game"] show ?thesis using started(2,3) by (auto split: sum.splits)
  qed simp
next
  case (8 room s e t)
  from 8(1) show ?case
  proof (cases rule: bm_launch_cases)
    case (started game s1 y)
    have "find_room (r_id room) s1 \<noteq> None" using bm_createGame_found [OF started(1)] 8(2) by simp
    from mark_found [OF this, of "bg_id game"] show ?thesis using started(2,3) by (auto split: sum.splits)
  qed simp
qed simp_all

section \<open>The gateway\<close>

lemma bq_match_distinct:
  assumes "bq_ok q" "bq_tryMatch u n q = (Some us, q')"
  shows "distinct us"
proof -
  obtain me where "us = map fst (take n (sort_key (\<lambda>p. \<bar>snd p - snd me\<bar>) (zrange (bq_set q n))))"
    using assms(2) by (auto simp: bq_tryMatch_def bq_choose_def Let_def split: option.splits if_splits prod.splits)
  moreover have "distinct (map fst (zrange (bq_set q n)))" using assms(1) zrange_distinct by (simp add: bq_ok_def)
  then have "distinct (map fst (sort_key (\<lambda>p. \<bar>snd p - snd me\<bar>) (zrange (bq_set q n))))" by (simp add: distinct_map)
  ultimately show ?thesis by (simp flip: take_map)
qed

inductive bm_gw_step :: "'r bm_gw \<Rightarrow> 'r bm_gw \<Rightarrow> bool" where
  connects: "bm_gw_step g (handleConnection token c g)"
| authenticates: "bm_gw_step g (snd (canActivate token c g))"
| disconnects: "bm_gw_step g (bm_handleDisconnect c g)"
| joins_lobby: "bm_gw_step g (snd (onLobbyJoin c g))"
| leaves_lobby: "bm_gw_step g (snd (onLobbyLeave c g))"
| joins_queue: "bm_gw_step g (snd (onQueueJoin shuffle sz c g))"
| leaves_queue: "bm_gw_step g (snd (onQueueLeave c g))"
| challenges: "bm_gw_step g (snd (onChallenge opponent ranked c g))"
| accepts: "bm_gw_step g (snd (onChallengeAccept shuffle i c g))"
| declines: "bm_gw_step g (snd (onChallengeDecline i c g))"
| creates_room: "bm_gw_step g (snd (onRoomCreate bet maxPlayers mapId isPrivate name c g))"
| joins_room: "bm_gw_step g (snd (onRoomJoin roomId code c g))"
| leaves_room: "bm_gw_step g (snd (onRoomLeave r c g))"
| readies: "bm_gw_step g (snd (onRoomReady r ready c g))"
| starts: "bm_gw_step g (snd (onRoomStart r c g))"
| joins_game: "bm_gw_step g (snd (onJoinGame r c g))"
| leaves_game: "bm_gw_step g (snd (onLeaveGame r c g))"
| steers: "bm_gw_step g (snd (onInput r dx dy c g))"
| drops: "bm_gw_step g (snd (onBomb r c g))"
| ticks: "bm_gw_step g (on_service (tick i) g)"
| forgets: "bm_gw_step g (on_service (forget i) g)"
| elsewhere: "lobby_frame (gw_service g) s \<Longrightarrow> bm_gw_step g (g\<lparr>gw_service := s\<rparr>)"
| waits: "clock (gw_service g) \<le> now \<Longrightarrow> bm_gw_step g (on_service (\<lambda>s. s\<lparr>clock := now\<rparr>) g)"

lemma on_service_ok:
  assumes "gw_ok bm_ok bq_ok g" "bm_step (gw_service g) (f (gw_service g))"
  shows "gw_ok bm_ok bq_ok (on_service f g)"
  using assms bm_step_serves [OF assms(2)] bm_step_seating [OF assms(2)]
  by (simp add: gw_ok_def seated_once_iff serves_def)

lemma bm_service_step_ok:
  assumes "gw_ok bm_ok bq_ok g" "bm_step (gw_service g) (snd (m (gw_service g)))"
  shows "gw_ok bm_ok bq_ok (snd (service m g))"
  using on_service_ok [OF assms(1), of "\<lambda>s. snd (m s)"] assms(2) by (simp add: snd_service on_service_def)

lemma bm_gw_ok_counts [simp]: "gw_ok P Q (broadcastCounts g) = gw_ok P Q g"
  by (simp add: broadcastCounts_def)

lemma gw_ok_maps [simp]: "gw_ok P Q (g\<lparr>roomMaps := m\<rparr>) = gw_ok P Q g" "gw_ok P Q (forget_map r g) = gw_ok P Q g"
  "gw_ok P Q (remember_map i mapId g) = gw_ok P Q g"
  by (simp_all add: gw_ok_def forget_map_def remember_map_def split: option.split)

lemma bm_table_size: "table_size 2 n \<in> set TABLE_SIZES"
  by (simp add: table_size_def TABLE_SIZES_def split: option.split)

lemma bm_onQueueJoin_ok:
  assumes "gw_ok bm_ok bq_ok g"
  shows "gw_ok bm_ok bq_ok (snd (onQueueJoin shuffle sz c g))"
  unfolding onQueueJoin_def
proof (rule await_user [where P = "gw_ok bm_ok bq_ok", OF assms])
  fix u
  let ?n = "table_size 2 sz"
  define h where "h = join_channel c Lobby_room
      (on_queue (bq_enqueue (au_id u) ?n (profile_points (au_id u) (gw_service g))) g)"
  obtain matched q where m: "bq_tryMatch (au_id u) ?n (gw_queue h) = (matched, q)" by fastforce
  let ?h = "h\<lparr>gw_queue := q\<rparr>"
  have h: "gw_ok bm_ok bq_ok h" "bq_ok (gw_queue h)"
    using assms by (simp_all add: h_def gw_ok_queue gw_ok_def bq_enqueue_ok bm_table_size)
  have ok: "gw_ok bm_ok bq_ok ?h" by (rule gw_ok_queue(2) [OF h(1)]) (use bq_tryMatch_ok [OF h(2), of "au_id u" ?n] m in simp)
  have "gw_ok bm_ok bq_ok (snd (case matched of
      None \<Rightarrow> let g = broadcastCounts ?h in return (Queued ?n (bm_counts g)) g
    | Some us \<Rightarrow> await (service (createGame (reorder shuffle us) (match_options RANKED)))
        (\<lambda>game g. return (Matched (bg_id game)) (broadcastCounts g)) ?h))"
  proof (cases matched)
    case (Some us)
    then have "distinct us" using bq_match_distinct [OF h(2)] m by simp
    then have "gw_ok bm_ok bq_ok (snd (service (createGame (reorder shuffle us) (match_options RANKED)) ?h))"
      by (intro bm_service_step_ok [OF ok] bm_step.creates) simp
    then show ?thesis unfolding Some option.case by (rule await_ok [where P = "gw_ok bm_ok bq_ok"]) simp
  qed (use ok in \<open>simp add: Let_def\<close>)
  then show "gw_ok bm_ok bq_ok (snd (let n = table_size 2 sz;
         g = on_queue (bq_enqueue (au_id u) n (profile_points (au_id u) (gw_service g))) g;
         g = join_channel c Lobby_room g;
         (matched, q) = bq_tryMatch (au_id u) n (gw_queue g);
         g = g\<lparr>gw_queue := q\<rparr>
     in case matched of
          None \<Rightarrow> let g = broadcastCounts g in return (Queued n (bm_counts g)) g
        | Some us \<Rightarrow> await (service (createGame (reorder shuffle us) (match_options RANKED)))
            (\<lambda>game g. return (Matched (bg_id game)) (broadcastCounts g)) g))"
    using m unfolding h_def by (simp add: Let_def)
qed

lemma bm_handleDisconnect_ok:
  assumes "gw_ok bm_ok bq_ok g"
  shows "gw_ok bm_ok bq_ok (bm_handleDisconnect c g)"
  unfolding bm_handleDisconnect_def
  by (rule handleDisconnect_ok [OF assms bq_dequeue_ok]) (assumption, rule on_service_ok, assumption, rule bm_step.quits)

lemma bm_gw_step_ok: "bm_gw_step g h \<Longrightarrow> gw_ok bm_ok bq_ok g \<Longrightarrow> gw_ok bm_ok bq_ok h"
proof (induction rule: bm_gw_step.induct)
  case (creates_room g bet maxPlayers mapId isPrivate name c)
  show ?case unfolding onRoomCreate_def
    by (rule await_ok [where P = "gw_ok bm_ok bq_ok"]) (simp_all add: creates_room bm_gw.room_create_ok Let_def)
next
  case (leaves_room g r c)
  show ?case unfolding onRoomLeave_def
    by (rule await_ok [where P = "gw_ok bm_ok bq_ok"]) (simp_all add: leaves_room bm_gw.room_leave_ok)
next
  case (starts g r c)
  show ?case unfolding onRoomStart_def
    by (rule await_ok [where P = "gw_ok bm_ok bq_ok"]) (simp_all add: starts bm_gw.room_start_ok)
next
  case (leaves_game g r c)
  show ?case unfolding onLeaveGame_def
    by (rule await_user [where P = "gw_ok bm_ok bq_ok", OF leaves_game]) (simp add: on_service_ok [OF leaves_game] bm_step.quits)
next
  case (steers g r dx dy c)
  show ?case unfolding onInput_def
    by (rule await_user [where P = "gw_ok bm_ok bq_ok", OF steers]) (simp add: on_service_ok [OF steers] bm_step.steers)
next
  case (drops g r c)
  show ?case unfolding onBomb_def
    by (rule await_user [where P = "gw_ok bm_ok bq_ok", OF drops]) (simp add: on_service_ok [OF drops] bm_step.drops)
next
  case (ticks g i)
  show ?case by (rule on_service_ok [OF ticks]) (rule bm_step.ticks)
next
  case (forgets g i)
  show ?case by (rule on_service_ok [OF forgets]) (rule bm_step.forgets)
next
  case (waits g now)
  show ?case by (rule on_service_ok [OF waits(2)]) (rule bm_step.waits [OF waits(1)])
next
  case (elsewhere g s)
  then show ?case using bm_gw.gw_ok_lobby by blast
next
  case (leaves_queue g c)
  show ?case unfolding onQueueLeave_def
    by (rule await_user [where P = "gw_ok bm_ok bq_ok", OF leaves_queue])
       (use leaves_queue gw_ok_queue(1) [OF leaves_queue] in \<open>simp add: Let_def bq_dequeue_ok gw_ok_def [of bm_ok bq_ok g]\<close>)
qed (simp_all add: canActivate_ok bm_handleDisconnect_ok onLobbyJoin_def onLobbyLeave_def bm_onQueueJoin_ok onChallenge_def
      onChallengeAccept_def onChallengeDecline_def onRoomJoin_def onRoomReady_def onJoinGame_def Let_def
      bm_gw.challenge_send_ok bm_gw.challenge_accept_ok bm_gw.challenge_decline_ok bm_gw.room_join_ok bm_gw.room_ready_ok)

text \<open>
  C13: Every state the Bomberman gateway reaches is well formed: from a sound state, any sequence of its
  handlers, of ticks and of lobby operations made through the other gateways keeps every arena sound, the queue
  in step with its hash, no room seats a player twice and no invitation is addressed to its sender.
\<close>

theorem bomber_gateway_sound:
  assumes "gw_ok bm_ok bq_ok g" "bm_gw_step\<^sup>*\<^sup>* g h"
  shows "gw_ok bm_ok bq_ok h"
  using assms(2) by (induction rule: rtranclp_induct) (use assms(1) bm_gw_step_ok in auto)

end
