(* ===== verification/Gateways.thy ===== *)
theory Gateways
  imports CaroGatewayLaws TienLenGatewayLaws BomberGatewayLaws
begin

text \<open>
  The three gateways together: what a start and an invitation promise whatever the game, and the
  gateways at concrete states.
\<close>

section \<open>Starting a room\<close>

text \<open>The room of the message belonged to the caller and is now in progress with the game; or the rooms are as they were.\<close>

definition started_or_untouched :: "raw_id \<Rightarrow> string \<Rightarrow> ('r rooms_st_scheme, 'q, 'c, 'z) gateway_scheme
    \<Rightarrow> (oid, ('r rooms_st_scheme, 'q, 'c, 'z) gateway_scheme) outcome \<Rightarrow> bool" where
  "started_or_untouched r c g out =
     (case out of
        (Inl e, h) \<Rightarrow> rooms (gw_service h) = rooms (gw_service g)
      | (Inr gameId, h) \<Rightarrow>
          (case (user_of_client c g, read_oid r) of
             (Some u, Some i) \<Rightarrow>
               (case (find_room i (gw_service g), find_room i (gw_service h)) of
                  (Some old, Some new) \<Rightarrow> r_hostId old = au_id u \<and> r_status old = WAITING
                    \<and> r_status new = IN_PROGRESS \<and> r_gameId new = Some gameId
                | _ \<Rightarrow> False)
           | _ \<Rightarrow> False))"

lemma started_or_untouchedI:
  assumes "case x of
      Inl e \<Rightarrow> rooms (gw_service h) = rooms (gw_service g)
    | Inr gameId \<Rightarrow> \<exists>u old new. user_of_client c g = Some u \<and> read_oid r = Some (r_id old)
        \<and> find_room (r_id old) (gw_service g) = Some old \<and> r_hostId old = au_id u \<and> r_status old = WAITING
        \<and> find_room (r_id old) (gw_service h) = Some new \<and> r_status new = IN_PROGRESS \<and> r_gameId new = Some gameId"
  shows "started_or_untouched r c g (x, h)"
  using assms by (auto simp: started_or_untouched_def split: sum.splits)

lemma started_forget_map [simp]:
  "started_or_untouched r c g (await m (\<lambda>x h. return x (forget_map q h)) g) = started_or_untouched r c g (m g)"
proof (cases "m g")
  case (Pair x h)
  then show ?thesis by (cases x) (simp_all add: await_def started_or_untouched_def forget_map_def cong: option.case_cong)
qed

text \<open>
  C17: Starting a room, through any of the three gateways: when it fails, every room is as it was;
  when it succeeds, the caller is the host, the room was waiting, and it is now in progress with the very game
  that was created. No start leaves a room sealed with no game.
\<close>

theorem gateway_start_all_or_nothing:
  "started_or_untouched r c g1 (CaroGateway.onRoomStart r c g1)
   \<and> started_or_untouched r c g2 (TienLenGateway.onRoomStart cfg r c g2)
   \<and> started_or_untouched r c g3 (BomberGateway.onRoomStart r c g3)"
proof (intro conjI)
  show "started_or_untouched r c g1 (CaroGateway.onRoomStart r c g1)"
    unfolding CaroGateway.onRoomStart_def
    using started_or_untouchedI [OF caro_gw.room_start_outcome [OF surjective_pairing]] by simp
  show "started_or_untouched r c g2 (TienLenGateway.onRoomStart cfg r c g2)"
    unfolding TienLenGateway.onRoomStart_def
    using started_or_untouchedI [OF tl_gw.room_start_outcome [OF surjective_pairing]] by simp
  show "started_or_untouched r c g3 (BomberGateway.onRoomStart r c g3)"
    unfolding BomberGateway.onRoomStart_def started_forget_map
    using started_or_untouchedI [OF bm_gw.room_start_outcome [OF surjective_pairing]] by simp
qed

lemma caro_launch_pair:
  assumes "map rm_userId (r_members room) = [a, b]" "find_room (r_id room) s \<noteq> None"
  shows "\<exists>gameId t. caro_launch room s = (Inr gameId, t) \<and> find_caro gameId t \<noteq> None"
proof -
  obtain q s1 where d: "draw s = (q, s1)" by fastforce
  obtain u v where uv: "(if q < 1 / 2 then (a, b) else (b, a)) = (u, v)" by fastforce
  let ?opts = "\<lparr>co_mode = Some (r_mode room), co_ranked = None, co_betAmount = Some (r_betAmount room), co_roomId = Some (r_id room)\<rparr>"
  obtain game s2 where c: "CaroGame.createGame u v ?opts s1 = (game, s2)" by fastforce
  have "rooms s1 = rooms s" using d by (auto simp: draw_def)
  then have "find_room (r_id room) s2 \<noteq> None" using assms(2) createGame_rooms [OF c] by (simp add: find_room_def)
  then obtain new t where k: "markInProgress (Hex (r_id room)) (c_id game) s2 = (Inr new, t)" using mark_found by blast
  have "lobby_frame s2 t" using mark_frame [of s2 "Hex (r_id room)" "c_id game"] k by simp
  then have t: "caro_games t = caro_games s2" using rooms_more_caro [of t s2] by (simp add: lobby_frame_def)
  have "game \<in> set (caro_games s2)" using c by (auto simp: CaroGame.createGame_def fresh_id_def Let_def)
  then have "find_caro (c_id game) t \<noteq> None" by (auto simp: find_caro_def t find_None_iff)
  moreover have "caro_launch room s = (Inr (c_id game), t)"
    using assms(1) d uv c k by (simp add: caro_launch_def CaroGame.launchFromRoom_def await_def split_beta)
  ultimately show ?thesis by blast
qed

text \<open>
  The Caro gateway starts any waiting room of two players of which the second is ready, whatever game
  the room was made for.
\<close>

theorem caro_starts_room_of_any_game:
  assumes "user_of_client c g = Some u" "find_room i (gw_service g) = Some room" "r_hostId room = au_id u" "r_status room = WAITING"
    "map rm_userId (r_members room) = [a, b]" "r_minPlayers room \<le> 2" "a = au_id u \<and> rm_ready (r_members room ! 1)"
  shows "\<exists>gameId h. CaroGateway.onRoomStart (Hex i) c g = (Inr gameId, h) \<and> find_caro gameId (gw_service h) \<noteq> None"
proof -
  have i: "r_id room = i" using find_room_mem [OF assms(2)] by simp
  let ?room = "room\<lparr>r_status := STARTING\<rparr>" and ?t = "set_room i (\<lambda>_. room\<lparr>r_status := STARTING\<rparr>) (gw_service g)"
  obtain m n where ms: "r_members room = [m, n]" "rm_userId m = a" "rm_userId n = b" using assms(5) by auto
  have b: "beginStart (Hex i) (au_id u) (gw_service g) = (Inr ?room, ?t)"
    using assms i ms by (auto simp: beginStart_def await_def getOrThrow_def Let_def)
  have here: "find_room i ?t = Some ?room" using assms(2) i by (simp add: find_set_room)
  obtain z v where l: "caro_launch ?room ?t = (z, v)" by fastforce
  have "\<exists>gameId. z = Inr gameId \<and> find_caro gameId v \<noteq> None"
    using caro_launch_pair [of ?room a b ?t] assms(5) here i l by auto
  then show ?thesis using l b assms(1)
    by (auto simp: CaroGateway.onRoomStart_def room_start_def await_def userOf_def service_def)
qed

section \<open>Invitations\<close>

lemma ch_claim_gone [simp]: "ch_get t i (ch_remove i ks) = None"
  by (auto simp: ch_get_def ch_remove_def find_None_iff)

lemma await_service_challenges:
  "gw_challenges (snd (await (service m) (\<lambda>x g. return (k x) (emit_to ch (e x) g)) g)) = gw_challenges g"
  by (simp add: await_def service_def split_beta split: sum.split)

text \<open>
  An invitation starts at most one game: once somebody has accepted it, whoever asks again, through any
  gateway, is told that it is gone; and it started a game only for its addressee, through the gateway of
  its game.
\<close>

theorem invitation_used_once:
  assumes "user_of_client c g = Some u" "challenge_accept game launch i c g = (x, h)"
  shows "fst (challenge_accept game' launch' i c' h) \<in> {Inl (WsError ''Challenge expired or not found''), Inl (WsError ''Unauthorized'')}
    \<and> (case x of Inl e \<Rightarrow> True
       | Inr gameId \<Rightarrow> \<exists>k \<in> set (gw_challenges g). ch_id k = i \<and> ch_game k = game \<and> ch_toUserId k = Hex (au_id u)
           \<and> \<not> isl (fst (launch k (au_id u) (gw_service g))))"
proof -
  have gone: "gw_challenges h = ch_remove i (gw_challenges g)"
    using assms unfolding challenge_accept_def ch_claim_def
    by (auto simp: await_def userOf_def service_def Let_def split_beta split: option.splits if_splits sum.splits)
  have "fst (challenge_accept game' launch' i c' h) \<in> {Inl (WsError ''Challenge expired or not found''), Inl (WsError ''Unauthorized'')}"
    by (simp add: challenge_accept_def ch_claim_def await_def userOf_def gone split: option.split)
  moreover have "\<exists>k \<in> set (gw_challenges g). ch_id k = i \<and> ch_game k = game \<and> ch_toUserId k = Hex (au_id u)
      \<and> \<not> isl (fst (launch k (au_id u) (gw_service g)))" if x: "x = Inr gameId" for gameId
  proof -
    obtain k where k: "ch_get (clock (gw_service g)) i (gw_challenges g) = Some k" "ch_game k = game" "ch_toUserId k = Hex (au_id u)"
    proof (cases "ch_get (clock (gw_service g)) i (gw_challenges g)")
      case (Some k)
      then have "ch_game k = game \<and> ch_toUserId k = Hex (au_id u)" using assms x
        by (auto simp: challenge_accept_def ch_claim_def await_def userOf_def Let_def split: if_splits)
      then show ?thesis using that Some by blast
    qed (use assms x in \<open>simp add: challenge_accept_def ch_claim_def await_def userOf_def\<close>)
    moreover have "\<not> isl (fst (launch k (au_id u) (gw_service g)))"
      using assms x k unfolding challenge_accept_def ch_claim_def
      by (auto simp: await_def userOf_def service_def Let_def split_beta split: sum.splits)
    ultimately show ?thesis using ch_get_mem [OF k(1)] by blast
  qed
  ultimately show ?thesis by (simp split: sum.split)
qed

text \<open>
  An invitation does not survive being named by a stranger: the stranger is refused, and whoever
  accepts it afterwards, its addressee included, finds it gone.
\<close>

theorem stranger_accept_destroys_invitation:
  assumes "user_of_client c g = Some u" "ch_get (clock (gw_service g)) i (gw_challenges g) = Some k" "ch_toUserId k \<noteq> Hex (au_id u)"
    "ch_game k = game"
  shows "\<exists>h. challenge_accept game launch i c g = (Inl (WsError ''This challenge is not addressed to you''), h)
     \<and> gw_service h = gw_service g \<and> k \<notin> set (gw_challenges h)
     \<and> fst (challenge_accept game launch i c' h) \<in> {Inl (WsError ''Challenge expired or not found''), Inl (WsError ''Unauthorized'')}"
proof -
  let ?h = "g\<lparr>gw_challenges := ch_remove i (gw_challenges g)\<rparr>"
  have a: "challenge_accept game launch i c g = (Inl (WsError ''This challenge is not addressed to you''), ?h)"
    using assms by (simp add: challenge_accept_def ch_claim_def await_def userOf_def)
  have "k \<notin> set (gw_challenges ?h)" using ch_get_mem [OF assms(2)] by (simp add: ch_remove_def)
  moreover have "fst (challenge_accept game launch i c' ?h) \<in> {Inl (WsError ''Challenge expired or not found''), Inl (WsError ''Unauthorized'')}"
    by (simp add: challenge_accept_def ch_claim_def await_def userOf_def split: option.split)
  ultimately show ?thesis using a by auto
qed

section \<open>Examples\<close>

definition client0 :: "oid \<Rightarrow> Client" where
  "client0 u = \<lparr>cl_user = Some \<lparr>au_id = u, au_username = ''an''\<rparr>, cl_game = None, cl_rooms = []\<rparr>"

definition invite0 :: PendingChallenge where
  "invite0 = \<lparr>ch_id = 9, ch_game = TIENLEN, ch_fromUserId = 1, ch_toUserId = Hex 2, ch_mode = WAGER, ch_betAmount = 5, ch_createdAt = 0\<rparr>"

definition gw0 :: "'s \<Rightarrow> 'q \<Rightarrow> ('s, 'q, 'c) gateway" where
  "gw0 s q = \<lparr>gw_service = s, gw_queue = q, gw_challenges = [invite0],
     gw_clients = [''a'' \<mapsto> client0 1, ''b'' \<mapsto> client0 2, ''c'' \<mapsto> client0 3], gw_log = []\<rparr>"

lemma gw0_simps [simp]:
  "gw_service (gw0 s q) = s" "gw_queue (gw0 s q) = q" "gw_challenges (gw0 s q) = [invite0]"
  "user_of_client ''a'' (gw0 s q) = Some \<lparr>au_id = 1, au_username = ''an''\<rparr>"
  "user_of_client ''b'' (gw0 s q) = Some \<lparr>au_id = 2, au_username = ''an''\<rparr>"
  "user_of_client ''c'' (gw0 s q) = Some \<lparr>au_id = 3, au_username = ''an''\<rparr>"
  by (simp_all add: gw0_def user_of_client_def client0_def)

lemma gw0_ok: "P s \<Longrightarrow> seated_once s \<Longrightarrow> Q q \<Longrightarrow> gw_ok P Q (gw0 s q)"
  by (simp add: gw_ok_def invites_ok_def invite0_def)

lemma demo_seated: "rooms s = [demo_room\<lparr>r_status := x\<rparr>] \<Longrightarrow> seated_once s"
  by (simp add: seated_once_def demo_room_def)

definition caro_gw0 :: "(caro_st, CaroQueue, caro_counts) gateway" where
  "caro_gw0 = gw0 caro0 \<lparr>cq_set = [], cq_meta = []\<rparr>"

definition tl_gw0 :: "(tl_st, TienLenQueue, tl_counts) gateway" where
  "tl_gw0 = gw0 tl0 \<lparr>tq_set = (\<lambda>_. []), tq_meta = (\<lambda>_. [])\<rparr>"

definition bm_gw0 :: "(bm_st, BombermanQueue, bm_counts) bm_gateway" where
  "bm_gw0 = gateway.extend (gw0 bm0 \<lparr>bq_set = (\<lambda>_. []), bq_meta = []\<rparr>) \<lparr>roomMaps = Map.empty\<rparr>"

theorem caro_gateway_sound_witness:
  "gw_ok caros_ok (\<lambda>_. True) (snd (CaroGateway.onMove (Hex 26) 7 7 ''a'' (snd (CaroGateway.onQueueJoin ''c'' caro_gw0))))"
proof -
  have "caro_gw_step\<^sup>*\<^sup>* caro_gw0 (snd (CaroGateway.onQueueJoin ''c'' caro_gw0))" by (rule r_into_rtranclp) (rule caro_gw_step.joins_queue)
  then have "caro_gw_step\<^sup>*\<^sup>* caro_gw0 (snd (CaroGateway.onMove (Hex 26) 7 7 ''a'' (snd (CaroGateway.onQueueJoin ''c'' caro_gw0))))"
    by (rule rtranclp.rtrancl_into_rtrancl) (rule caro_gw_step.moves)
  moreover have "gw_ok caros_ok (\<lambda>_. True) caro_gw0"
    unfolding caro_gw0_def by (rule gw0_ok) (use caro0_ok demo_seated [of caro0 IN_PROGRESS] in \<open>simp_all add: in_play_room_def\<close>)
  ultimately show ?thesis using caro_gateway_sound by blast
qed

theorem tienlen_gateway_sound_witness:
  "gw_ok tl_ok tq_ok (snd (TienLenGateway.onResign cfg0 (Hex 25) ''b'' (snd (TienLenGateway.onQueueLeave ''c'' tl_gw0))))"
proof -
  have "tl_gw_step\<^sup>*\<^sup>* tl_gw0 (snd (TienLenGateway.onQueueLeave ''c'' tl_gw0))" by (rule r_into_rtranclp) (rule tl_gw_step.leaves_queue)
  then have "tl_gw_step\<^sup>*\<^sup>* tl_gw0 (snd (TienLenGateway.onResign cfg0 (Hex 25) ''b'' (snd (TienLenGateway.onQueueLeave ''c'' tl_gw0))))"
    by (rule rtranclp.rtrancl_into_rtrancl) (rule tl_gw_step.resigns)
  moreover have "gw_ok tl_ok tq_ok tl_gw0"
    unfolding tl_gw0_def by (rule gw0_ok)
      (use tl0_ok demo_seated [of tl0 IN_PROGRESS] in \<open>simp_all add: playing_room_def tq_ok_def zok_def\<close>)
  ultimately show ?thesis using tienlen_gateway_sound by blast
qed

theorem bomber_gateway_sound_witness:
  "gw_ok bm_ok bq_ok (on_service (tick 25) (snd (BomberGateway.onQueueJoin rev (Some 3) ''c'' bm_gw0)))"
proof -
  have "bm_gw_step\<^sup>*\<^sup>* bm_gw0 (snd (BomberGateway.onQueueJoin rev (Some 3) ''c'' bm_gw0))"
    by (rule r_into_rtranclp) (rule bm_gw_step.joins_queue)
  then have "bm_gw_step\<^sup>*\<^sup>* bm_gw0 (on_service (tick 25) (snd (BomberGateway.onQueueJoin rev (Some 3) ''c'' bm_gw0)))"
    by (rule rtranclp.rtrancl_into_rtrancl) (rule bm_gw_step.ticks)
  moreover have "gw_ok bm_ok bq_ok bm_gw0"
    using gw0_ok [of bm_ok bm0 bq_ok "\<lparr>bq_set = (\<lambda>_. []), bq_meta = []\<rparr>"] bm0_ok demo_seated [of bm0 IN_PROGRESS]
    by (simp add: bm_gw0_def gateway.extend_def gw_ok_def bq_ok_def zok_def zmembers_def)
  ultimately show ?thesis using bomber_gateway_sound by blast
qed

theorem caro_starts_room_of_any_game_witness:
  "\<exists>gameId h. CaroGateway.onRoomStart (Hex 20) ''a'' (caro_gw0\<lparr>gw_service := caro0\<lparr>rooms := [demo_room\<lparr>r_game := TIENLEN\<rparr>]\<rparr>\<rparr>)
     = (Inr gameId, h)"
proof -
  let ?g = "caro_gw0\<lparr>gw_service := caro0\<lparr>rooms := [demo_room\<lparr>r_game := TIENLEN\<rparr>]\<rparr>\<rparr>"
  have u: "user_of_client ''a'' ?g = Some \<lparr>au_id = 1, au_username = ''an''\<rparr>"
    by (simp add: caro_gw0_def gw0_def user_of_client_def client0_def)
  have "find_room 20 (gw_service ?g) = Some (demo_room\<lparr>r_game := TIENLEN\<rparr>)" by (simp add: find_room_def demo_room_def)
  from caro_starts_room_of_any_game [OF u this, of 1 2] show ?thesis by (force simp: demo_room_def)
qed

theorem invitation_used_once_witness:
  "fst (TienLenGateway.onChallengeAccept cfg0 9 ''b'' (snd (TienLenGateway.onChallengeAccept cfg0 9 ''b'' tl_gw0)))
     \<in> {Inl (WsError ''Challenge expired or not found''), Inl (WsError ''Unauthorized'')}"
proof -
  have u: "user_of_client ''b'' tl_gw0 = Some \<lparr>au_id = 2, au_username = ''an''\<rparr>" by (simp add: tl_gw0_def)
  show ?thesis unfolding TienLenGateway.onChallengeAccept_def
    using invitation_used_once [OF u surjective_pairing] by blast
qed

theorem stranger_accept_destroys_invitation_witness:
  "\<exists>h. TienLenGateway.onChallengeAccept cfg0 9 ''c'' tl_gw0 = (Inl (WsError ''This challenge is not addressed to you''), h)
     \<and> invite0 \<notin> set (gw_challenges h)"
proof -
  have u: "user_of_client ''c'' tl_gw0 = Some \<lparr>au_id = 3, au_username = ''an''\<rparr>" by (simp add: tl_gw0_def)
  have "ch_get (clock (gw_service tl_gw0)) 9 (gw_challenges tl_gw0) = Some invite0"
    by (simp add: ch_get_def tl_gw0_def invite0_def CHALLENGE_TTL_MS_def) (simp add: tl0_def rooms_st.extend_def lobby0_defs wallet0_defs)
  from stranger_accept_destroys_invitation [OF u this] show ?thesis
    by (fastforce simp: TienLenGateway.onChallengeAccept_def invite0_def)
qed

lemma collectStake_pays:
  assumes "List.find (\<lambda>d. u_id d = u \<and> a \<le> balance d) (users s) = Some d" "0 < a"
  shows "\<exists>t. settles (collectStake u a ref) s = (True, t)
    \<and> users t = updateOne (\<lambda>d. u_id d = u \<and> a \<le> balance d) (\<lambda>d. d\<lparr>balance := balance d - a\<rparr>) (users s)"
  using assms
  by (simp add: settles_def collectStake_def debit_def debit_in_def withTransaction_def await_def emitWalletEvent_def insertTx_def fresh_id_def Let_def
      split_beta)

theorem wager_invite_takes_both_stakes_witness:
  "\<exists>gameId t. tl_challenge_start cfg0 invite0 2 tl0 = (Inr gameId, t) \<and> find_game gameId t \<noteq> None"
proof -
  obtain x t where c: "tl_challenge_start cfg0 invite0 2 tl0 = (x, t)" by fastforce
  have i: "ch_fromUserId invite0 = 1" "ch_betAmount invite0 = 5" "ch_mode invite0 = WAGER" by (simp_all add: invite0_def)
  obtain s1 where s1: "settles (collectStake 1 5 (challenge_ref invite0)) tl0 = (True, s1)"
      "users s1 = updateOne (\<lambda>d. u_id d = 1 \<and> 5 \<le> balance d) (\<lambda>d. d\<lparr>balance := balance d - 5\<rparr>) (users tl0)"
    using collectStake_pays [of 1 5 tl0] by (fastforce simp: wallet0_defs)
  obtain s2 where s2: "settles (collectStake 2 5 (challenge_ref invite0)) s1 = (True, s2)"
    using collectStake_pays [of 2 5 s1] s1(2) by (fastforce simp: wallet0_defs)
  obtain z s3 where z: "TienLenGame.createGame cfg0 [1, 2] WAGER (Some 5) None s2 = (z, s3)" by fastforce
  then have "\<not> isl z" by (auto simp: TienLenGame.createGame_def Let_def split_beta split: option.splits)
  then obtain game where g: "TienLenGame.createGame cfg0 [1, 2] WAGER (Some 5) None s2 = (Inr game, s3)" using z by (cases z) simp_all
  have "tl_challenge_start cfg0 invite0 2 tl0 = (Inr (g_id game), s3)"
    using s1(1) s2 g by (simp add: tl_challenge_start_def collect_both_def i await_def)
  then show ?thesis
    using wager_invite_takes_both_stakes [OF tl0_ledger tl0_ok, of invite0 2 cfg0 "Inr (g_id game)" s3] by (auto simp: i)
qed

end
