(* ===== verification/Servers.thy ===== *)
theory Servers
  imports Leveling
begin

text \<open>
  \<open>src/servers/servers.service.ts\<close>: servers, their members with a role each, invitations and bans. A server
  is named by the string the client sent, so it is a \<open>raw_id\<close>; the caller is the user of the
  token. A random invite code is an argument. A string that is no identifier makes the driver throw.
\<close>

section \<open>State\<close>

record Server =
  sv_id :: oid
  sv_name :: string
  sv_iconUrl :: "string option"
  sv_ownerId :: oid
  sv_inviteCode :: "string option"
  sv_isDefault :: bool

record ServerBan =
  sb_id :: oid
  sb_serverId :: oid
  sb_userId :: oid
  sb_bannedBy :: oid
  sb_reason :: "string option"

record MemberCard =
  mc_userId :: oid
  mc_role :: MemberRole
  mc_nickname :: "string option"
  mc_joinedAt :: int
  mc_user :: "UserPublic option"

datatype server_event =
    Member_joined raw_id MemberCard
  | Member_left raw_id raw_id
  | Member_updated raw_id MemberRole
  | Nickname_updated raw_id "string option"
  | Member_banned raw_id "string option"
  | You_were_banned raw_id "string option"
  | Server_updated Server
  | Server_deleted raw_id
  | Ownership_transferred raw_id oid raw_id
  | Announcement raw_id string oid int

text \<open>The rooms \<open>server:{id}\<close> and \<open>user:{id}\<close> carry the string they were named by.\<close>

datatype server_room = Server_room raw_id | Member_room raw_id

record servers_st = level_st +
  servers :: "Server list"
  server_bans :: "ServerBan list"
  defaultServerId :: "oid option"
  server_log :: "(server_room \<times> server_event) list"

definition emit_server :: "server_room \<Rightarrow> server_event \<Rightarrow> 'a servers_st_scheme \<Rightarrow> 'a servers_st_scheme" where
  "emit_server r e s = s\<lparr>server_log := server_log s @ [(r, e)]\<rparr>"

definition find_server :: "oid \<Rightarrow> 'a servers_st_scheme \<Rightarrow> Server option" where
  "find_server i s = List.find (\<lambda>d. sv_id d = i) (servers s)"

definition set_server :: "oid \<Rightarrow> (Server \<Rightarrow> Server) \<Rightarrow> 'a servers_st_scheme \<Rightarrow> 'a servers_st_scheme" where
  "set_server i f s = s\<lparr>servers := updateOne (\<lambda>d. sv_id d = i) f (servers s)\<rparr>"

text \<open>\<open>new Types.ObjectId\<close> of a string.\<close>

definition cast_oid :: "raw_id \<Rightarrow> 's \<Rightarrow> (oid, 's) outcome" where
  "cast_oid r s = (case read_oid r of None \<Rightarrow> throw (BadRequest ''CastError'') s | Some i \<Rightarrow> return i s)"

section \<open>Memberships\<close>

definition member_key :: "oid \<Rightarrow> oid \<Rightarrow> ServerMember \<Rightarrow> bool" where
  "member_key i u m \<longleftrightarrow> sm_serverId m = i \<and> sm_userId m = u"

definition getMembership :: "oid \<Rightarrow> oid \<Rightarrow> 'a env_st_scheme \<Rightarrow> ServerMember option" where
  "getMembership i u s = List.find (member_key i u) (server_members s)"

definition set_member :: "oid \<Rightarrow> oid \<Rightarrow> (ServerMember \<Rightarrow> ServerMember) \<Rightarrow> 'a env_st_scheme \<Rightarrow> 'a env_st_scheme" where
  "set_member i u f s = s\<lparr>server_members := updateOne (member_key i u) f (server_members s)\<rparr>"

definition drop_member :: "oid \<Rightarrow> oid \<Rightarrow> 'a env_st_scheme \<Rightarrow> 'a env_st_scheme" where
  "drop_member i u s = s\<lparr>server_members := deleteOne (member_key i u) (server_members s)\<rparr>"

text \<open>The collection has a unique index on server and user.\<close>

definition add_member :: "oid \<Rightarrow> oid \<Rightarrow> MemberRole \<Rightarrow> 'a env_st_scheme \<Rightarrow> (ServerMember, 'a env_st_scheme) outcome" where
  "add_member i u role s =
     (if getMembership i u s \<noteq> None then throw (Conflict ''E11000 duplicate key'') s
      else let (k, s) = fresh_id s;
               m = \<lparr>sm_id = k, sm_serverId = i, sm_userId = u, sm_role = role, sm_nickname = None, sm_joinedAt = clock s\<rparr>
           in return m (s\<lparr>server_members := server_members s @ [m]\<rparr>))"

definition requireMembership :: "raw_id \<Rightarrow> oid \<Rightarrow> 'a env_st_scheme \<Rightarrow> (ServerMember, 'a env_st_scheme) outcome" where
  "requireMembership r u = await (cast_oid r) (\<lambda>i s.
     case getMembership i u s of
       None \<Rightarrow> throw (Forbidden ''Not a member of this server'') s
     | Some m \<Rightarrow> return m s)"

definition requireRole :: "raw_id \<Rightarrow> oid \<Rightarrow> MemberRole \<Rightarrow> 'a env_st_scheme \<Rightarrow> (ServerMember, 'a env_st_scheme) outcome" where
  "requireRole r u minRole = await (requireMembership r u) (\<lambda>m.
     if ROLE_RANK (sm_role m) < ROLE_RANK minRole then throw (Forbidden ''Insufficient role'') else return m)"

definition member_card :: "ServerMember \<Rightarrow> 'a env_st_scheme \<Rightarrow> MemberCard" where
  "member_card m s = \<lparr>mc_userId = sm_userId m, mc_role = sm_role m, mc_nickname = sm_nickname m,
     mc_joinedAt = sm_joinedAt m, mc_user = map_option toPublic (find_user (sm_userId m) s)\<rparr>"

definition broadcastMemberJoined :: "oid \<Rightarrow> ServerMember \<Rightarrow> 'a servers_st_scheme \<Rightarrow> 'a servers_st_scheme" where
  "broadcastMemberJoined i m s = emit_server (Server_room (Hex i)) (Member_joined (Hex i) (member_card m s)) s"

section \<open>The default server\<close>

text \<open>The identifier is kept in the form \<open>toString\<close> prints, and compared as a string.\<close>

definition isDefaultServer :: "raw_id \<Rightarrow> 'a servers_st_scheme \<Rightarrow> bool" where
  "isDefaultServer r s \<longleftrightarrow> (case defaultServerId s of None \<Rightarrow> False | Some d \<Rightarrow> r = Hex d)"

definition new_server :: "oid \<Rightarrow> string \<Rightarrow> string option \<Rightarrow> oid \<Rightarrow> bool \<Rightarrow> Server" where
  "new_server i name icon u d =
     \<lparr>sv_id = i, sv_name = name, sv_iconUrl = icon, sv_ownerId = u, sv_inviteCode = None, sv_isDefault = d\<rparr>"

definition found_server :: "string \<Rightarrow> string option \<Rightarrow> oid \<Rightarrow> bool \<Rightarrow> 'a servers_st_scheme \<Rightarrow> (Server, 'a servers_st_scheme) outcome" where
  "found_server name icon u d = withTransaction (\<lambda>s.
     let (i, s) = fresh_id s; sv = new_server i name icon u d; s = s\<lparr>servers := servers s @ [sv]\<rparr>
     in await (add_member i u OWNER) (\<lambda>_. return sv) s)"

text \<open>At start-up: the configured server, else one already flagged, else a new one for the configured owner.\<close>

definition ensureDefaultServer :: "raw_id option \<Rightarrow> raw_id option \<Rightarrow> 'a servers_st_scheme \<Rightarrow> 'a servers_st_scheme" where
  "ensureDefaultServer configuredId ownerId s =
     (case Option.bind (Option.bind configuredId read_oid) (\<lambda>i. find_server i s) of
        Some sv \<Rightarrow> (set_server (sv_id sv) (\<lambda>d. d\<lparr>sv_isDefault := True\<rparr>) s)\<lparr>defaultServerId := Some (sv_id sv)\<rparr>
      | None \<Rightarrow>
          (case List.find sv_isDefault (servers s) of
             Some sv \<Rightarrow> s\<lparr>defaultServerId := Some (sv_id sv)\<rparr>
           | None \<Rightarrow>
               (case Option.bind ownerId read_oid of
                  None \<Rightarrow> s
                | Some u \<Rightarrow>
                    (case found_server ''HTSS Club'' None u True s of
                       (Inr sv, t) \<Rightarrow> t\<lparr>defaultServerId := Some (sv_id sv)\<rparr>
                     | (Inl _, t) \<Rightarrow> t))))"

definition addUserToDefaultServer :: "oid \<Rightarrow> 'a servers_st_scheme \<Rightarrow> (oid option, 'a servers_st_scheme) outcome" where
  "addUserToDefaultServer u s =
     (case defaultServerId s of
        None \<Rightarrow> return None s
      | Some d \<Rightarrow>
          if getMembership d u s \<noteq> None then return (Some d) s
          else await (add_member d u MEMBER) (\<lambda>m s. return (Some d) (broadcastMemberJoined d m s)) s)"

section \<open>Servers\<close>

definition create_server :: "oid \<Rightarrow> string \<Rightarrow> string option \<Rightarrow> 'a servers_st_scheme \<Rightarrow> (Server, 'a servers_st_scheme) outcome" where
  "create_server u name icon = found_server name icon u False"

definition listForUser :: "oid \<Rightarrow> 'a servers_st_scheme \<Rightarrow> (Server \<times> MemberRole option) list" where
  "listForUser u s =
     (let mine = filter (\<lambda>m. sm_userId m = u) (server_members s)
      in map (\<lambda>sv. (sv, map_of (rev (map (\<lambda>m. (sm_serverId m, sm_role m)) mine)) (sv_id sv)))
           (filter (\<lambda>sv. sv_id sv \<in> sm_serverId ` set mine) (servers s)))"

definition listMembers :: "raw_id \<Rightarrow> oid \<Rightarrow> 'a servers_st_scheme \<Rightarrow> (MemberCard list, 'a servers_st_scheme) outcome" where
  "listMembers r u = await (requireMembership r u) (\<lambda>m s.
     return (map (\<lambda>x. member_card x s) (filter (\<lambda>x. sm_serverId x = sm_serverId m) (server_members s))) s)"

definition serverOrThrow :: "raw_id \<Rightarrow> 'a servers_st_scheme \<Rightarrow> (Server, 'a servers_st_scheme) outcome" where
  "serverOrThrow r = await (cast_oid r) (\<lambda>i s.
     case find_server i s of None \<Rightarrow> throw (NotFound ''Server not found'') s | Some sv \<Rightarrow> return sv s)"

definition getDetail :: "raw_id \<Rightarrow> oid \<Rightarrow> 'a servers_st_scheme \<Rightarrow> (Server \<times> MemberCard list, 'a servers_st_scheme) outcome" where
  "getDetail r u = await (requireMembership r u) (\<lambda>_. await (serverOrThrow r) (\<lambda>sv.
     await (listMembers r u) (\<lambda>ms. return (sv, ms))))"

text \<open>\<open>findByIdAndUpdate\<close> with \<open>new: true\<close>.\<close>

definition update_server_doc :: "raw_id \<Rightarrow> (Server \<Rightarrow> Server) \<Rightarrow> 'a servers_st_scheme \<Rightarrow> (Server, 'a servers_st_scheme) outcome" where
  "update_server_doc r f = await (serverOrThrow r) (\<lambda>sv s.
     return (f sv) (set_server (sv_id sv) (\<lambda>_. f sv) s))"

definition update_server :: "raw_id \<Rightarrow> oid \<Rightarrow> string option \<Rightarrow> string option \<Rightarrow> 'a servers_st_scheme \<Rightarrow> (Server, 'a servers_st_scheme) outcome" where
  "update_server r u name icon = await (requireRole r u ADMIN) (\<lambda>_.
     await (update_server_doc r (\<lambda>d. d\<lparr>sv_name := (case name of None \<Rightarrow> sv_name d | Some x \<Rightarrow> x),
         sv_iconUrl := (case icon of None \<Rightarrow> sv_iconUrl d | x \<Rightarrow> x)\<rparr>))
       (\<lambda>sv s. return sv (emit_server (Server_room r) (Server_updated sv) s)))"

definition delete_server :: "oid \<Rightarrow> 'a servers_st_scheme \<Rightarrow> 'a servers_st_scheme" where
  "delete_server i s = s\<lparr>servers := deleteOne (\<lambda>d. sv_id d = i) (servers s),
     server_members := deleteMany (\<lambda>m. sm_serverId m = i) (server_members s),
     server_bans := deleteMany (\<lambda>b. sb_serverId b = i) (server_bans s)\<rparr>"

definition remove_server :: "raw_id \<Rightarrow> oid \<Rightarrow> 'a servers_st_scheme \<Rightarrow> (unit, 'a servers_st_scheme) outcome" where
  "remove_server r u = await (requireRole r u OWNER) (\<lambda>m s.
     if isDefaultServer r s then throw (Forbidden ''The default server cannot be deleted'') s
     else return () (emit_server (Server_room r) (Server_deleted r) (delete_server (sm_serverId m) s)))"

section \<open>Invitations\<close>

text \<open>The unique sparse index refuses the code of another server.\<close>

definition createInvite :: "string \<Rightarrow> raw_id \<Rightarrow> oid \<Rightarrow> 'a servers_st_scheme \<Rightarrow> (string, 'a servers_st_scheme) outcome" where
  "createInvite code r u = await (requireRole r u ADMIN) (\<lambda>_. await (serverOrThrow r) (\<lambda>sv s.
     if \<exists>d \<in> set (servers s). sv_inviteCode d = Some code \<and> sv_id d \<noteq> sv_id sv
     then throw (Conflict ''E11000 duplicate key'') s
     else return code (set_server (sv_id sv) (\<lambda>d. d\<lparr>sv_inviteCode := Some code\<rparr>) s)))"

definition revokeInvite :: "raw_id \<Rightarrow> oid \<Rightarrow> 'a servers_st_scheme \<Rightarrow> (unit, 'a servers_st_scheme) outcome" where
  "revokeInvite r u = await (requireRole r u ADMIN) (\<lambda>_.
     await (update_server_doc r (\<lambda>d. d\<lparr>sv_inviteCode := None\<rparr>)) (\<lambda>_. return ()))"

definition find_ban :: "oid \<Rightarrow> oid \<Rightarrow> 'a servers_st_scheme \<Rightarrow> ServerBan option" where
  "find_ban i u s = List.find (\<lambda>b. sb_serverId b = i \<and> sb_userId b = u) (server_bans s)"

definition join_server :: "oid \<Rightarrow> string \<Rightarrow> 'a servers_st_scheme \<Rightarrow> (Server, 'a servers_st_scheme) outcome" where
  "join_server u code s =
     (case List.find (\<lambda>d. sv_inviteCode d = Some code) (servers s) of
        None \<Rightarrow> throw (NotFound ''Invalid invite code'') s
      | Some sv \<Rightarrow>
          if find_ban (sv_id sv) u s \<noteq> None then throw (Forbidden ''You are banned from this server'') s
          else if getMembership (sv_id sv) u s \<noteq> None then throw (BadRequest ''Already a member'') s
          else await (add_member (sv_id sv) u MEMBER) (\<lambda>m s. return sv (broadcastMemberJoined (sv_id sv) m s)) s)"

definition leave_server :: "raw_id \<Rightarrow> oid \<Rightarrow> 'a servers_st_scheme \<Rightarrow> (unit, 'a servers_st_scheme) outcome" where
  "leave_server r u = await (requireMembership r u) (\<lambda>m s.
     if isDefaultServer r s then throw (Forbidden ''You cannot leave the default server'') s
     else if sm_role m = OWNER then throw (BadRequest ''Owner cannot leave; transfer ownership or delete the server'') s
     else return () (emit_server (Server_room r) (Member_left r (Hex u)) (drop_member (sm_serverId m) u s)))"

section \<open>Administration of members\<close>

text \<open>The actor ranks above the target, or owns the server.\<close>

definition outranks :: "ServerMember \<Rightarrow> ServerMember \<Rightarrow> bool" where
  "outranks actor m \<longleftrightarrow> ROLE_RANK (sm_role m) < ROLE_RANK (sm_role actor) \<or> sm_role actor = OWNER"

text \<open>The membership of a user the caller names.\<close>

definition target_member :: "oid \<Rightarrow> raw_id \<Rightarrow> string \<Rightarrow> 'a env_st_scheme \<Rightarrow> (ServerMember, 'a env_st_scheme) outcome" where
  "target_member i v missing = await (cast_oid v) (\<lambda>w s.
     case getMembership i w s of None \<Rightarrow> throw (NotFound missing) s | Some m \<Rightarrow> return m s)"

definition updateMemberRole :: "raw_id \<Rightarrow> oid \<Rightarrow> raw_id \<Rightarrow> MemberRole \<Rightarrow> 'a servers_st_scheme \<Rightarrow> (ServerMember, 'a servers_st_scheme) outcome" where
  "updateMemberRole r a v role = await (requireRole r a ADMIN) (\<lambda>actor s.
     if role = OWNER then throw (BadRequest ''Cannot assign OWNER role directly'') s
     else await (target_member (sm_serverId actor) v ''Member not found'') (\<lambda>m s.
       if sm_role m = OWNER then throw (Forbidden ''Cannot change the owner role'') s
       else if \<not> outranks actor m then throw (Forbidden ''Cannot modify a member at or above your role'') s
       else return (m\<lparr>sm_role := role\<rparr>) (emit_server (Server_room r) (Member_updated v role)
              (set_member (sm_serverId m) (sm_userId m) (\<lambda>x. x\<lparr>sm_role := role\<rparr>) s))) s)"

definition kickMember :: "raw_id \<Rightarrow> oid \<Rightarrow> raw_id \<Rightarrow> 'a servers_st_scheme \<Rightarrow> (unit, 'a servers_st_scheme) outcome" where
  "kickMember r a v = await (requireRole r a ADMIN) (\<lambda>actor s.
     if v = Hex a then throw (BadRequest ''Use leave to remove yourself'') s
     else await (target_member (sm_serverId actor) v ''Member not found'') (\<lambda>m s.
       if sm_role m = OWNER then throw (Forbidden ''Cannot kick the owner'') s
       else if \<not> outranks actor m then throw (Forbidden ''Cannot kick a member at or above your role'') s
       else return () (emit_server (Server_room r) (Member_left r v) (drop_member (sm_serverId m) (sm_userId m) s))) s)"

definition hand_over :: "oid \<Rightarrow> oid \<Rightarrow> oid \<Rightarrow> 'a servers_st_scheme \<Rightarrow> 'a servers_st_scheme" where
  "hand_over i a w s =
     (let s = set_member i a (\<lambda>x. x\<lparr>sm_role := ADMIN\<rparr>) s;
          s = set_member i w (\<lambda>x. x\<lparr>sm_role := OWNER\<rparr>) s
      in set_server i (\<lambda>d. d\<lparr>sv_ownerId := w\<rparr>) s)"

definition transferOwnership :: "raw_id \<Rightarrow> oid \<Rightarrow> raw_id \<Rightarrow> 'a servers_st_scheme \<Rightarrow> (unit, 'a servers_st_scheme) outcome" where
  "transferOwnership r a v = await (requireRole r a OWNER) (\<lambda>actor s.
     if v = Hex a then throw (BadRequest ''You already own this server'') s
     else await (target_member (sm_serverId actor) v ''New owner must be a member of the server'') (\<lambda>m.
       withTransaction (\<lambda>s. return () (emit_server (Server_room r) (Ownership_transferred r a v)
         (hand_over (sm_serverId actor) a (sm_userId m) s)))) s)"

definition upsert_ban :: "oid \<Rightarrow> oid \<Rightarrow> oid \<Rightarrow> string option \<Rightarrow> 'a servers_st_scheme \<Rightarrow> 'a servers_st_scheme" where
  "upsert_ban i w a reason s =
     (if find_ban i w s \<noteq> None
      then s\<lparr>server_bans := updateOne (\<lambda>b. sb_serverId b = i \<and> sb_userId b = w)
             (\<lambda>b. b\<lparr>sb_bannedBy := a, sb_reason := (case reason of None \<Rightarrow> sb_reason b | x \<Rightarrow> x)\<rparr>) (server_bans s)\<rparr>
      else let (k, s) = fresh_id s
           in s\<lparr>server_bans := server_bans s @ [\<lparr>sb_id = k, sb_serverId = i, sb_userId = w, sb_bannedBy = a, sb_reason = reason\<rparr>]\<rparr>)"

definition banMember :: "raw_id \<Rightarrow> oid \<Rightarrow> raw_id \<Rightarrow> string option \<Rightarrow> 'a servers_st_scheme \<Rightarrow> (unit, 'a servers_st_scheme) outcome" where
  "banMember r a v reason = await (requireRole r a ADMIN) (\<lambda>actor s.
     if v = Hex a then throw (BadRequest ''You cannot ban yourself'') s
     else if isDefaultServer r s then throw (Forbidden ''Members cannot be banned from the default server'') s
     else await (cast_oid v) (\<lambda>w s.
       let target = getMembership (sm_serverId actor) w s;
           banned = return () (emit_server (Member_room v) (You_were_banned r reason)
             (emit_server (Server_room r) (Member_banned v reason)
               (upsert_ban (sm_serverId actor) w a reason (drop_member (sm_serverId actor) w s))))
       in case target of
            None \<Rightarrow> banned
          | Some m \<Rightarrow>
              if sm_role m = OWNER then throw (Forbidden ''Cannot ban the owner'') s
              else if \<not> outranks actor m then throw (Forbidden ''Cannot ban a member at or above your role'') s
              else banned) s)"

definition unbanMember :: "raw_id \<Rightarrow> oid \<Rightarrow> raw_id \<Rightarrow> 'a servers_st_scheme \<Rightarrow> (unit, 'a servers_st_scheme) outcome" where
  "unbanMember r a v = await (requireRole r a ADMIN) (\<lambda>actor. await (cast_oid v) (\<lambda>w s.
     if find_ban (sm_serverId actor) w s = None then throw (NotFound ''Ban not found'') s
     else return () (s\<lparr>server_bans := deleteOne (\<lambda>b. sb_serverId b = sm_serverId actor \<and> sb_userId b = w) (server_bans s)\<rparr>)))"

text \<open>Newest first, with the public card of the user.\<close>

definition listBans :: "raw_id \<Rightarrow> oid \<Rightarrow> 'a servers_st_scheme \<Rightarrow> ((ServerBan \<times> UserPublic option) list, 'a servers_st_scheme) outcome" where
  "listBans r a = await (requireRole r a ADMIN) (\<lambda>actor s.
     return (map (\<lambda>b. (b, map_option toPublic (find_user (sb_userId b) s)))
       (rev (filter (\<lambda>b. sb_serverId b = sm_serverId actor) (server_bans s)))) s)"

definition clean_nickname :: "string option \<Rightarrow> string option" where
  "clean_nickname n = (case n of None \<Rightarrow> None | Some x \<Rightarrow> if trim x = '''' then None else Some (trim x))"

definition setNickname :: "raw_id \<Rightarrow> oid \<Rightarrow> raw_id \<Rightarrow> string option \<Rightarrow> 'a servers_st_scheme \<Rightarrow> (string option, 'a servers_st_scheme) outcome" where
  "setNickname r a v nickname = await (requireMembership r a) (\<lambda>actor s.
     let isSelf = (v = Hex a) in
     if \<not> isSelf \<and> ROLE_RANK (sm_role actor) < ROLE_RANK ADMIN then throw (Forbidden ''Only admins can change other members nicknames'') s
     else await (if isSelf then return actor else target_member (sm_serverId actor) v ''Member not found'') (\<lambda>m s.
       if \<not> isSelf \<and> \<not> outranks actor m then throw (Forbidden ''Cannot change nickname of a member at or above your role'') s
       else let nick = clean_nickname nickname
            in return nick (emit_server (Server_room r) (Nickname_updated v nick)
                 (set_member (sm_serverId m) (sm_userId m) (\<lambda>x. x\<lparr>sm_nickname := nick\<rparr>) s))) s)"

definition announce_server :: "raw_id \<Rightarrow> oid \<Rightarrow> string \<Rightarrow> 'a servers_st_scheme \<Rightarrow> (unit, 'a servers_st_scheme) outcome" where
  "announce_server r a msg = await (requireRole r a ADMIN) (\<lambda>_ s.
     return () (emit_server (Server_room r) (Announcement r msg a (clock s)) s))"

definition getServerOrThrow :: "raw_id \<Rightarrow> 'a servers_st_scheme \<Rightarrow> (Server, 'a servers_st_scheme) outcome" where
  "getServerOrThrow r s =
     (if \<not> isValid r then throw (BadRequest ''Invalid id'') s else serverOrThrow r s)"

definition listServerIdsForUser :: "oid \<Rightarrow> 'a env_st_scheme \<Rightarrow> oid list" where
  "listServerIdsForUser u s = map sm_serverId (filter (\<lambda>m. sm_userId m = u) (server_members s))"

end
