(* ===== verification/VoicePresence.thy ===== *)
theory VoicePresence
  imports Prelude
begin

text \<open>
  \<open>src/voice-gateway/voice-presence.service.ts\<close>: who is in which voice channel, kept in Redis. A key that
  contains what a client wrote is indexed by the string, a \<open>raw_id\<close>; a set is a list without duplicates, a missing
  key is an empty set, and a script or a \<open>multi\<close> runs as one step.
\<close>

section \<open>State\<close>

record VoiceMemberState =
  vs_muted :: bool
  vs_deafened :: bool
  vs_speaking :: bool
  vs_streaming :: bool

definition DEFAULT_STATE :: VoiceMemberState where
  "DEFAULT_STATE = \<lparr>vs_muted = False, vs_deafened = False, vs_speaking = False, vs_streaming = False\<rparr>"

record voice_redis =
  channelKey :: "raw_id \<Rightarrow> oid list"
  userKey :: "oid \<Rightarrow> raw_id option"
  socketsKey :: "raw_id \<Rightarrow> oid \<Rightarrow> string list"
  stateKey :: "raw_id \<Rightarrow> oid \<Rightarrow> VoiceMemberState option"

text \<open>A key of two parts set to a value.\<close>

definition upd2 :: "'a \<Rightarrow> 'b \<Rightarrow> 'c \<Rightarrow> ('a \<Rightarrow> 'b \<Rightarrow> 'c) \<Rightarrow> 'a \<Rightarrow> 'b \<Rightarrow> 'c" where
  "upd2 x y z f = f(x := (f x)(y := z))"

lemma upd2_apply [simp]: "upd2 x y z f a b = (if a = x \<and> b = y then z else f a b)"
  by (simp add: upd2_def)

section \<open>Operations\<close>

record JoinResult =
  isNewMember :: bool
  full :: bool
  memberCount :: nat

definition voice_join :: "raw_id \<Rightarrow> oid \<Rightarrow> string \<Rightarrow> int \<Rightarrow> voice_redis \<Rightarrow> JoinResult \<times> voice_redis" where
  "voice_join ch u sock limit v =
     (let isMember = u \<in> set (channelKey v ch); count = length (channelKey v ch) in
      if \<not> isMember \<and> limit > 0 \<and> int count \<ge> limit then (\<lparr>isNewMember = False, full = True, memberCount = count\<rparr>, v)
      else
        let v = v\<lparr>channelKey := (channelKey v)(ch := List.insert u (channelKey v ch)), userKey := (userKey v)(u \<mapsto> ch),
                  socketsKey := upd2 ch u (List.insert sock (socketsKey v ch u)) (socketsKey v)\<rparr>
        in (\<lparr>isNewMember = \<not> isMember, full = False, memberCount = length (channelKey v ch)\<rparr>, v))"

definition removeSocket :: "raw_id \<Rightarrow> oid \<Rightarrow> string \<Rightarrow> voice_redis \<Rightarrow> (bool \<times> nat) \<times> voice_redis" where
  "removeSocket ch u sock v =
     (let socks = removeAll sock (socketsKey v ch u); v = v\<lparr>socketsKey := upd2 ch u socks (socketsKey v)\<rparr> in
      if socks = [] then
        ((True, 0), v\<lparr>channelKey := (channelKey v)(ch := removeAll u (channelKey v ch)), stateKey := upd2 ch u None (stateKey v),
           userKey := (if userKey v u = Some ch then (userKey v)(u := None) else userKey v)\<rparr>)
      else ((False, length socks), v))"

definition removeUser :: "raw_id \<Rightarrow> oid \<Rightarrow> voice_redis \<Rightarrow> voice_redis" where
  "removeUser ch u v = v\<lparr>channelKey := (channelKey v)(ch := removeAll u (channelKey v ch)),
     socketsKey := upd2 ch u [] (socketsKey v), stateKey := upd2 ch u None (stateKey v), userKey := (userKey v)(u := None)\<rparr>"

definition getChannelOfUser :: "oid \<Rightarrow> voice_redis \<Rightarrow> raw_id option" where
  "getChannelOfUser u v = userKey v u"

definition voice_count :: "raw_id \<Rightarrow> voice_redis \<Rightarrow> nat" where
  "voice_count ch v = length (channelKey v ch)"

definition setState :: "raw_id \<Rightarrow> oid \<Rightarrow> VoiceMemberState \<Rightarrow> voice_redis \<Rightarrow> voice_redis" where
  "setState ch u st v = v\<lparr>stateKey := upd2 ch u (Some st) (stateKey v)\<rparr>"

definition getState :: "raw_id \<Rightarrow> oid \<Rightarrow> voice_redis \<Rightarrow> VoiceMemberState" where
  "getState ch u v = (case stateKey v ch u of None \<Rightarrow> DEFAULT_STATE | Some st \<Rightarrow> st)"

definition getMembersWithState :: "raw_id \<Rightarrow> voice_redis \<Rightarrow> (oid \<times> VoiceMemberState) list" where
  "getMembersWithState ch v = map (\<lambda>u. (u, getState ch u v)) (channelKey v ch)"

section \<open>Laws\<close>

text \<open>A user is in a channel exactly as long as one of the user's sockets is, and is never there twice.\<close>

definition voice_ok :: "voice_redis \<Rightarrow> bool" where
  "voice_ok v \<longleftrightarrow> (\<forall>ch. distinct (channelKey v ch)) \<and> (\<forall>ch u. u \<in> set (channelKey v ch) \<longleftrightarrow> socketsKey v ch u \<noteq> [])"

lemma insert_not_Nil [simp]: "List.insert x xs \<noteq> []"
  by (auto simp: List.insert_def)

lemma voice_join_ok: "voice_ok v \<Longrightarrow> voice_ok (snd (voice_join ch u sock limit v))"
  by (auto simp: voice_join_def voice_ok_def Let_def)

lemma removeSocket_ok: "voice_ok v \<Longrightarrow> voice_ok (snd (removeSocket ch u sock v))"
  by (auto simp: removeSocket_def voice_ok_def Let_def distinct_removeAll)

lemma removeUser_ok: "voice_ok v \<Longrightarrow> voice_ok (removeUser ch u v)"
  by (auto simp: removeUser_def voice_ok_def distinct_removeAll)

lemma setState_ok: "voice_ok v \<Longrightarrow> voice_ok (setState ch u st v)"
  by (simp add: setState_def voice_ok_def)

lemma voice_join_count:
  assumes "voice_ok v"
  shows "voice_count ch (snd (voice_join c u sock limit v)) \<le> voice_count ch v \<or> (ch = c \<and> (0 < limit \<longrightarrow> int (voice_count ch (snd (voice_join c u sock limit v))) \<le> limit))"
  by (auto simp: voice_join_def voice_count_def Let_def List.insert_def)

lemma remove_count:
  "voice_count ch (snd (removeSocket c u sock v)) \<le> voice_count ch v" "voice_count ch (removeUser c u v) \<le> voice_count ch v"
  by (auto simp: removeSocket_def removeUser_def voice_count_def Let_def removeAll_filter_not_eq)

datatype voice_op =
    Voice_join raw_id oid string int
  | Remove_socket raw_id oid string
  | Remove_user raw_id oid
  | Set_state raw_id oid VoiceMemberState

fun voice_step :: "voice_op \<Rightarrow> voice_redis \<Rightarrow> voice_redis" where
  "voice_step (Voice_join ch u sock limit) v = snd (voice_join ch u sock limit v)"
| "voice_step (Remove_socket ch u sock) v = snd (removeSocket ch u sock v)"
| "voice_step (Remove_user ch u) v = removeUser ch u v"
| "voice_step (Set_state ch u st) v = setState ch u st v"

text \<open>Every join to the channel that may fill it carries the limit.\<close>

fun limited :: "raw_id \<Rightarrow> int \<Rightarrow> voice_op \<Rightarrow> bool" where
  "limited ch n (Voice_join c _ _ limit) = (c = ch \<longrightarrow> 0 < limit \<and> limit \<le> n)"
| "limited ch n _ = True"

lemma voice_step_ok: "voice_ok v \<Longrightarrow> voice_ok (voice_step op v)"
  by (cases op) (simp_all add: voice_join_ok removeSocket_ok removeUser_ok setState_ok)

lemma voice_run_within_limit:
  assumes "voice_ok v" "int (voice_count ch v) \<le> n" "list_all (limited ch n) ops"
  shows "voice_ok (fold voice_step ops v) \<and> int (voice_count ch (fold voice_step ops v)) \<le> n"
  using assms
proof (induction ops arbitrary: v)
  case (Cons op ops)
  have "int (voice_count ch (voice_step op v)) \<le> n"
  proof (cases op)
    case (Voice_join c u sock limit)
    then show ?thesis using voice_join_count [OF Cons.prems(1), of ch c u sock limit] Cons.prems(2,3) by auto
  next
    case (Remove_socket c u sock)
    then show ?thesis using remove_count(1) [of ch c u sock v] Cons.prems(2) by simp
  next
    case (Remove_user c u)
    then show ?thesis using remove_count(2) [of ch c u v] Cons.prems(2) by simp
  next
    case (Set_state c u st)
    then show ?thesis using Cons.prems(2) by (simp add: setState_def voice_count_def)
  qed
  then show ?case using Cons.IH [OF voice_step_ok [OF Cons.prems(1)]] Cons.prems(3) by simp
qed simp

definition voice0 :: voice_redis where
  "voice0 = \<lparr>channelKey = (\<lambda>_. []), userKey = Map.empty, socketsKey = (\<lambda>_ _. []), stateKey = (\<lambda>_ _. None)\<rparr>"

lemma voice0_ok: "voice_ok voice0"
  by (simp add: voice_ok_def voice0_def)

end
