(* ===== verification/Chat.thy ===== *)
theory Chat
  imports Servers VoicePresence
begin

text \<open>
  The data of text and voice channels: the documents of \<open>src/channels/schemas/channel.schema.ts\<close> and
  \<open>src/messages/schemas/message.schema.ts\<close>, the views sent to clients, and the events of the \<open>/ws\<close> namespace.
  A room is named by the string its key was built from.
\<close>

record Channel =
  cn_id :: oid
  cn_serverId :: oid
  cn_name :: string
  cn_type :: ChannelType
  cn_topic :: "string option"
  cn_position :: int
  cn_userLimit :: "int option"

datatype AttachmentCategory = IMAGE | VIDEO | AUDIO | FILE

record MessageAttachment =
  att_url :: string
  att_type :: string
  att_name :: string
  att_size :: nat
  att_category :: "AttachmentCategory option"

record MessageReaction =
  re_emoji :: string
  re_userIds :: "oid list"

record Message =
  ms_id :: oid
  ms_channelId :: oid
  ms_authorId :: oid
  ms_content :: string
  ms_attachments :: "MessageAttachment list"
  ms_replyToId :: "oid option"
  ms_reactions :: "MessageReaction list"
  ms_editedAt :: "int option"

section \<open>Views\<close>

text \<open>A user without a card is shown as unknown, here \<open>None\<close>.\<close>

record VoiceMember =
  vm_userId :: oid
  vm_user :: "UserCard option"
  vm_state :: VoiceMemberState

record ReactionView =
  rv_emoji :: string
  rv_count :: nat
  rv_userIds :: "oid list"
  rv_me :: bool

record ReplyView =
  rp_id :: oid
  rp_authorId :: oid
  rp_author :: "UserCard option"
  rp_content :: string
  rp_hasAttachments :: bool

text \<open>\<open>replyTo\<close> is absent for a message that replies to none, null when the original is gone.\<close>

record MessageView =
  mv_id :: oid
  mv_channelId :: oid
  mv_authorId :: oid
  mv_content :: string
  mv_attachments :: "MessageAttachment list"
  mv_replyToId :: "oid option"
  mv_editedAt :: "int option"
  mv_author :: "UserCard option"
  mv_reactions :: "ReactionView list"
  mv_replyTo :: "ReplyView option option"

section \<open>State\<close>

datatype chat_room = In_server raw_id | In_channel raw_id | In_voice raw_id

datatype chat_event =
    Channel_created Channel
  | Channel_updated Channel
  | Channel_reordered raw_id "Channel list"
  | Channel_deleted raw_id raw_id
  | Voice_channel_closed raw_id
  | Message_new MessageView
  | Message_updated MessageView
  | Message_deleted raw_id oid
  | Reaction_added raw_id raw_id string oid
  | Reaction_removed raw_id raw_id string oid

record chat_st = servers_st +
  channels :: "Channel list"
  messages :: "Message list"
  voice :: voice_redis
  lastXpAt :: "oid \<Rightarrow> int option"
  chat_log :: "(chat_room \<times> chat_event) list"

definition emit_chat :: "chat_room \<Rightarrow> chat_event \<Rightarrow> 'a chat_st_scheme \<Rightarrow> 'a chat_st_scheme" where
  "emit_chat r e s = s\<lparr>chat_log := chat_log s @ [(r, e)]\<rparr>"

end
