(* ===== verification/Channels.thy ===== *)
theory Channels
  imports Chat
begin

text \<open>
  \<open>src/channels/channels.service.ts\<close>: the channels of a server in their order, who may read them and who may change
  them. A channel and a server are named by the string the client sent.
\<close>

section \<open>Access\<close>

definition find_channel :: "oid \<Rightarrow> 'a chat_st_scheme \<Rightarrow> Channel option" where
  "find_channel i s = List.find (\<lambda>c. cn_id c = i) (channels s)"

definition channel_oid :: "raw_id \<Rightarrow> string \<Rightarrow> 's \<Rightarrow> (oid, 's) outcome" where
  "channel_oid r label s = (case read_oid r of None \<Rightarrow> throw (BadRequest (''Invalid '' @ label)) s | Some i \<Rightarrow> return i s)"

definition getByIdOrThrow :: "raw_id \<Rightarrow> 'a chat_st_scheme \<Rightarrow> (Channel, 'a chat_st_scheme) outcome" where
  "getByIdOrThrow r = await (channel_oid r ''id'') (\<lambda>i s.
     case find_channel i s of None \<Rightarrow> throw (NotFound ''Channel not found'') s | Some c \<Rightarrow> return c s)"

definition getServerIdOfChannel :: "raw_id \<Rightarrow> 'a chat_st_scheme \<Rightarrow> oid option" where
  "getServerIdOfChannel r s = Option.bind (read_oid r) (\<lambda>i. map_option cn_serverId (find_channel i s))"

definition assertAccess :: "raw_id \<Rightarrow> oid \<Rightarrow> 'a chat_st_scheme \<Rightarrow> (Channel, 'a chat_st_scheme) outcome" where
  "assertAccess r u = await (getByIdOrThrow r) (\<lambda>c.
     await (requireMembership (Hex (cn_serverId c)) u) (\<lambda>_. return c))"

section \<open>Reading\<close>

text \<open>\<open>sort({ position: 1, _id: 1 })\<close>.\<close>

definition channels_of :: "oid \<Rightarrow> 'a chat_st_scheme \<Rightarrow> Channel list" where
  "channels_of i s = sort_key cn_position (sort_key cn_id (filter (\<lambda>c. cn_serverId c = i) (channels s)))"

definition voiceMembersOf :: "raw_id \<Rightarrow> 'a chat_st_scheme \<Rightarrow> VoiceMember list" where
  "voiceMembersOf r s =
     (let withState = getMembersWithState r (voice s); cards = getCards (map (\<lambda>m. Hex (fst m)) withState) s
      in map (\<lambda>m. \<lparr>vm_userId = fst m, vm_user = map_of cards (fst m), vm_state = snd m\<rparr>) withState)"

definition listForServer :: "raw_id \<Rightarrow> oid \<Rightarrow> 'a chat_st_scheme \<Rightarrow> ((Channel \<times> VoiceMember list option) list, 'a chat_st_scheme) outcome" where
  "listForServer r u = await (requireMembership r u) (\<lambda>m s.
     return (map (\<lambda>c. (c, if cn_type c = VOICE then Some (voiceMembersOf (Hex (cn_id c)) s) else None)) (channels_of (sm_serverId m) s)) s)"

definition getVoiceMembers :: "raw_id \<Rightarrow> oid \<Rightarrow> 'a chat_st_scheme \<Rightarrow> (VoiceMember list, 'a chat_st_scheme) outcome" where
  "getVoiceMembers r u = await (assertAccess r u) (\<lambda>_ s. return (voiceMembersOf r s) s)"

section \<open>Writing\<close>

record CreateChannelDto =
  cc_name :: string
  cc_type :: ChannelType
  cc_topic :: "string option"
  cc_userLimit :: "int option"

definition next_position :: "oid \<Rightarrow> 'a chat_st_scheme \<Rightarrow> int" where
  "next_position i s = (case filter (\<lambda>c. cn_serverId c = i) (channels s) of [] \<Rightarrow> 0 | cs \<Rightarrow> Max (set (map cn_position cs)) + 1)"

definition create_channel :: "raw_id \<Rightarrow> oid \<Rightarrow> CreateChannelDto \<Rightarrow> 'a chat_st_scheme \<Rightarrow> (Channel, 'a chat_st_scheme) outcome" where
  "create_channel r u dto = await (requireRole r u ADMIN) (\<lambda>m s.
     if cc_userLimit dto \<noteq> None \<and> cc_type dto \<noteq> VOICE then throw (BadRequest ''userLimit is only valid for VOICE channels'') s
     else let position = next_position (sm_serverId m) s; (k, s) = fresh_id s;
              c = \<lparr>cn_id = k, cn_serverId = sm_serverId m, cn_name = cc_name dto, cn_type = cc_type dto,
                   cn_topic = cc_topic dto, cn_position = position, cn_userLimit = cc_userLimit dto\<rparr>
          in return c (emit_chat (In_server r) (Channel_created c) (s\<lparr>channels := channels s @ [c]\<rparr>)))"

text \<open>A field of the request is absent or has a value; the limit may also be null, which clears it.\<close>

record UpdateChannelDto =
  up_name :: "string option"
  up_topic :: "string option"
  up_position :: "int option"
  up_userLimit :: "int option option"

definition given :: "'x option \<Rightarrow> 'x \<Rightarrow> 'x" where
  "given x old = (case x of None \<Rightarrow> old | Some y \<Rightarrow> y)"

definition changed :: "UpdateChannelDto \<Rightarrow> Channel \<Rightarrow> Channel" where
  "changed dto c = c\<lparr>cn_name := given (up_name dto) (cn_name c),
     cn_topic := (case up_topic dto of None \<Rightarrow> cn_topic c | t \<Rightarrow> t),
     cn_position := given (up_position dto) (cn_position c),
     cn_userLimit := given (up_userLimit dto) (cn_userLimit c)\<rparr>"

definition set_channel :: "oid \<Rightarrow> (Channel \<Rightarrow> Channel) \<Rightarrow> 'a chat_st_scheme \<Rightarrow> 'a chat_st_scheme" where
  "set_channel i f s = s\<lparr>channels := updateOne (\<lambda>c. cn_id c = i) f (channels s)\<rparr>"

definition update_channel :: "raw_id \<Rightarrow> oid \<Rightarrow> UpdateChannelDto \<Rightarrow> 'a chat_st_scheme \<Rightarrow> (Channel, 'a chat_st_scheme) outcome" where
  "update_channel r u dto = await (getByIdOrThrow r) (\<lambda>c. await (requireRole (Hex (cn_serverId c)) u ADMIN) (\<lambda>_ s.
     if (\<exists>n. up_userLimit dto = Some (Some n)) \<and> cn_type c \<noteq> VOICE then throw (BadRequest ''userLimit is only valid for VOICE channels'') s
     else return (changed dto c) (emit_chat (In_server (Hex (cn_serverId c))) (Channel_updated (changed dto c))
            (set_channel (cn_id c) (changed dto) s))))"

text \<open>The identifiers of a request, all of them or an error.\<close>

fun all_oids :: "raw_id list \<Rightarrow> 's \<Rightarrow> (oid list, 's) outcome" where
  "all_oids [] = return []"
| "all_oids (r # rs) = await (channel_oid r ''channelId'') (\<lambda>i. await (all_oids rs) (\<lambda>is. return (i # is)))"

definition place :: "oid \<Rightarrow> (oid \<times> int) list \<Rightarrow> Channel list \<Rightarrow> Channel list" where
  "place i items cs = fold (\<lambda>(k, p). updateOne (\<lambda>c. cn_id c = k \<and> cn_serverId c = i) (\<lambda>c. c\<lparr>cn_position := p\<rparr>)) items cs"

definition reorder_channels :: "raw_id \<Rightarrow> oid \<Rightarrow> (raw_id \<times> int) list \<Rightarrow> 'a chat_st_scheme \<Rightarrow> (Channel list, 'a chat_st_scheme) outcome" where
  "reorder_channels r u items = await (requireRole r u ADMIN) (\<lambda>m. await (all_oids (map fst items)) (\<lambda>ids s.
     if length (filter (\<lambda>c. cn_id c \<in> set ids \<and> cn_serverId c = sm_serverId m) (channels s)) \<noteq> length ids
     then throw (BadRequest ''All channels must belong to this server'') s
     else await (withTransaction (\<lambda>s. return () (s\<lparr>channels := place (sm_serverId m) (zip ids (map snd items)) (channels s)\<rparr>)))
       (\<lambda>_ s. let cs = channels_of (sm_serverId m) s
              in return cs (emit_chat (In_server r) (Channel_reordered r cs) s)) s))"

definition delete_channel :: "oid \<Rightarrow> 'a chat_st_scheme \<Rightarrow> 'a chat_st_scheme" where
  "delete_channel i s = s\<lparr>channels := deleteOne (\<lambda>c. cn_id c = i) (channels s), messages := deleteMany (\<lambda>m. ms_channelId m = i) (messages s)\<rparr>"

definition evict :: "raw_id \<Rightarrow> 'a chat_st_scheme \<Rightarrow> 'a chat_st_scheme" where
  "evict r s = emit_chat (In_voice r) (Voice_channel_closed r) (s\<lparr>voice := fold (removeUser r) (channelKey (voice s) r) (voice s)\<rparr>)"

definition remove_channel :: "raw_id \<Rightarrow> oid \<Rightarrow> 'a chat_st_scheme \<Rightarrow> (unit, 'a chat_st_scheme) outcome" where
  "remove_channel r u = await (getByIdOrThrow r) (\<lambda>c. await (requireRole (Hex (cn_serverId c)) u ADMIN) (\<lambda>_.
     await (withTransaction (\<lambda>s. return () (delete_channel (cn_id c) s))) (\<lambda>_ s.
       return () (emit_chat (In_server (Hex (cn_serverId c))) (Channel_deleted (Hex (cn_serverId c)) r)
         (if cn_type c = VOICE then evict r s else s)))))"

end
