(* ===== verification/VoiceGateway.thy ===== *)
theory VoiceGateway
  imports Channels
begin

text \<open>
  \<open>src/voice-gateway/voice.gateway.ts\<close> and \<open>src/voice-gateway/sfu.service.ts\<close>: the sockets of the voice namespace join and
  leave channels, announce their microphones and streams, and are given a token for the media server. The library
  that signs that token is a parameter. A channel is named by the string the client sent.
\<close>

section \<open>The media server\<close>

record SfuConfig =
  sfu_url :: string
  sfu_apiKey :: string
  sfu_apiSecret :: string

record SfuCredentials =
  sc_url :: string
  sc_token :: string
  sc_room :: string
  sc_identity :: oid

type_synonym livekit = "string \<Rightarrow> string \<Rightarrow> oid \<Rightarrow> string \<Rightarrow> string \<Rightarrow> string"

definition sfu_isEnabled :: "SfuConfig \<Rightarrow> bool" where
  "sfu_isEnabled cfg \<longleftrightarrow> sfu_url cfg \<noteq> '''' \<and> sfu_apiKey cfg \<noteq> '''' \<and> sfu_apiSecret cfg \<noteq> ''''"

definition roomName :: "raw_id \<Rightarrow> string" where
  "roomName r = ''voice_'' @ id_str r"

definition createToken :: "livekit \<Rightarrow> SfuConfig \<Rightarrow> raw_id \<Rightarrow> oid \<Rightarrow> string \<Rightarrow> SfuCredentials option" where
  "createToken lk cfg r u name =
     (if \<not> sfu_isEnabled cfg then None
      else Some \<lparr>sc_url = sfu_url cfg, sc_token = lk (sfu_apiKey cfg) (sfu_apiSecret cfg) u (if name = '''' then oid_str u else name) (roomName r),
             sc_room = roomName r, sc_identity = u\<rparr>)"

section \<open>State\<close>

record VoiceUser =
  vu_id :: oid
  vu_username :: string
  vu_displayName :: "string option"
  vu_avatarUrl :: "string option"

text \<open>The card of an account, the stand-in for an account without one, or the card made of the token.\<close>

datatype person = Card UserCard | Unknown oid | From_token VoiceUser

record VoiceView =
  vv_userId :: oid
  vv_user :: person
  vv_state :: VoiceMemberState

datatype stream_source = Screen | Camera

text \<open>The rooms \<open>voice:{id}\<close>, such a room without one socket, a socket, and the room of a server in the chat namespace.\<close>

datatype voice_target = Voice_room raw_id | Voice_others raw_id string | Voice_client string | Voice_server oid

datatype voice_event =
    Invalid_token
  | User_joined raw_id VoiceView
  | Channel_joined oid raw_id VoiceView
  | Voice_peers raw_id "VoiceView list"
  | User_left raw_id oid
  | Channel_left oid raw_id oid
  | State_changed oid VoiceMemberState
  | Channel_state oid raw_id oid VoiceMemberState
  | Stream_started raw_id oid person stream_source
  | Stream_stopped raw_id oid

record VoiceClient =
  vc_user :: VoiceUser
  vc_rooms :: "raw_id list"

record voice_st = chat_st +
  voice_clients :: "string \<Rightarrow> VoiceClient option"
  voice_log :: "(voice_target \<times> voice_event) list"

definition emit_voice :: "voice_target \<Rightarrow> voice_event \<Rightarrow> 'a voice_st_scheme \<Rightarrow> 'a voice_st_scheme" where
  "emit_voice r e s = s\<lparr>voice_log := voice_log s @ [(r, e)]\<rparr>"

definition on_voice :: "(voice_redis \<Rightarrow> voice_redis) \<Rightarrow> 'a chat_st_scheme \<Rightarrow> 'a chat_st_scheme" where
  "on_voice f s = s\<lparr>voice := f (voice s)\<rparr>"

definition voice_userOf :: "string \<Rightarrow> 'a voice_st_scheme \<Rightarrow> (VoiceUser, 'a voice_st_scheme) outcome" where
  "voice_userOf c s = (case voice_clients s c of None \<Rightarrow> throw (WsError ''Unauthorized'') s | Some k \<Rightarrow> return (vc_user k) s)"

definition on_voice_rooms :: "string \<Rightarrow> (raw_id list \<Rightarrow> raw_id list) \<Rightarrow> 'a voice_st_scheme \<Rightarrow> 'a voice_st_scheme" where
  "on_voice_rooms c f s = s\<lparr>voice_clients := (voice_clients s)(c := map_option (\<lambda>k. k\<lparr>vc_rooms := f (vc_rooms k)\<rparr>) (voice_clients s c))\<rparr>"

section \<open>Helpers\<close>

text \<open>What goes to the room of the server goes nowhere when the channel no longer exists.\<close>

definition tell_server :: "raw_id \<Rightarrow> (oid \<Rightarrow> voice_event) \<Rightarrow> 'a voice_st_scheme \<Rightarrow> 'a voice_st_scheme" where
  "tell_server r e s = (case getServerIdOfChannel r s of None \<Rightarrow> s | Some i \<Rightarrow> emit_voice (Voice_server i) (e i) s)"

definition stopStreaming :: "raw_id \<Rightarrow> oid \<Rightarrow> 'a voice_st_scheme \<Rightarrow> 'a voice_st_scheme" where
  "stopStreaming r u s =
     (let st = getState r u (voice s) in
      if \<not> vs_streaming st then s
      else let s = on_voice (setState r u (st\<lparr>vs_streaming := False\<rparr>)) s;
               s = emit_voice (Voice_room r) (Stream_stopped r u) s
           in tell_server r (\<lambda>_. Stream_stopped r u) s)"

definition buildMembers :: "raw_id \<Rightarrow> 'a chat_st_scheme \<Rightarrow> VoiceView list" where
  "buildMembers r s =
     (let withState = getMembersWithState r (voice s); cards = getCards (map (\<lambda>m. Hex (fst m)) withState) s
      in map (\<lambda>m. \<lparr>vv_userId = fst m, vv_user = (case map_of cards (fst m) of None \<Rightarrow> Unknown (fst m) | Some k \<Rightarrow> Card k), vv_state = snd m\<rparr>) withState)"

definition handleSocketLeave :: "raw_id \<Rightarrow> oid \<Rightarrow> string \<Rightarrow> 'a voice_st_scheme \<Rightarrow> 'a voice_st_scheme" where
  "handleSocketLeave r u c s =
     (let s = stopStreaming r u s; ((removedMember, _), v) = removeSocket r u c (voice s); s = s\<lparr>voice := v\<rparr>
      in if removedMember then tell_server r (\<lambda>i. Channel_left i r u) (emit_voice (Voice_room r) (User_left r u) s) else s)"

section \<open>Connections\<close>

text \<open>The guard has read the token; the card of the account completes what it says.\<close>

definition voice_connect :: "(oid \<times> string) option \<Rightarrow> string \<Rightarrow> 'a voice_st_scheme \<Rightarrow> 'a voice_st_scheme" where
  "voice_connect token c s =
     (case token of
        None \<Rightarrow> emit_voice (Voice_client c) Invalid_token (s\<lparr>voice_clients := (voice_clients s)(c := None)\<rparr>)
      | Some (u, name) \<Rightarrow>
          let user = (case map_of (getCards [Hex u] s) u of
                None \<Rightarrow> \<lparr>vu_id = u, vu_username = name, vu_displayName = None, vu_avatarUrl = None\<rparr>
              | Some k \<Rightarrow> \<lparr>vu_id = u, vu_username = name, vu_displayName = uc_displayName k, vu_avatarUrl = uc_avatarUrl k\<rparr>)
          in s\<lparr>voice_clients := (voice_clients s)(c \<mapsto> \<lparr>vc_user = user, vc_rooms = []\<rparr>)\<rparr>)"

definition voice_disconnect :: "string \<Rightarrow> 'a voice_st_scheme \<Rightarrow> 'a voice_st_scheme" where
  "voice_disconnect c s =
     (case voice_clients s c of
        None \<Rightarrow> s
      | Some k \<Rightarrow>
          let u = vu_id (vc_user k); s = s\<lparr>voice_clients := (voice_clients s)(c := None)\<rparr>
          in case getChannelOfUser u (voice s) of None \<Rightarrow> s | Some r \<Rightarrow> handleSocketLeave r u c s)"

section \<open>Messages\<close>

record JoinReply =
  jr_channelId :: raw_id
  jr_livekit :: SfuCredentials
  jr_peers :: "VoiceView list"

text \<open>The newcomer, whose card is that of the roster.\<close>

definition newcomer :: "VoiceUser \<Rightarrow> VoiceView list \<Rightarrow> VoiceView" where
  "newcomer user members =
     \<lparr>vv_userId = vu_id user,
      vv_user = (case List.find (\<lambda>m. vv_userId m = vu_id user) members of None \<Rightarrow> From_token user | Some m \<Rightarrow> vv_user m), vv_state = DEFAULT_STATE\<rparr>"

definition leave_previous :: "raw_id \<Rightarrow> oid \<Rightarrow> string \<Rightarrow> 'a voice_st_scheme \<Rightarrow> 'a voice_st_scheme" where
  "leave_previous r u c s =
     (case getChannelOfUser u (voice s) of
        None \<Rightarrow> s
      | Some p \<Rightarrow> if p = r then s else on_voice_rooms c (removeAll p) (handleSocketLeave p u c s))"

definition announce_join :: "Channel \<Rightarrow> raw_id \<Rightarrow> string \<Rightarrow> VoiceView \<Rightarrow> 'a voice_st_scheme \<Rightarrow> 'a voice_st_scheme" where
  "announce_join ch r c m s =
     emit_voice (Voice_server (cn_serverId ch)) (Channel_joined (cn_serverId ch) r m) (emit_voice (Voice_others r c) (User_joined r m) s)"

definition enter_channel :: "livekit \<Rightarrow> SfuConfig \<Rightarrow> Channel \<Rightarrow> raw_id \<Rightarrow> string \<Rightarrow> VoiceUser \<Rightarrow> 'a voice_st_scheme \<Rightarrow> (JoinReply, 'a voice_st_scheme) outcome" where
  "enter_channel lk cfg ch r c user s =
     (let (res, v) = voice_join r (vu_id user) c (case cn_userLimit ch of None \<Rightarrow> 0 | Some n \<Rightarrow> n) (voice s); s = s\<lparr>voice := v\<rparr> in
      if full res then throw (WsError ''Voice channel is full'') s
      else let s = on_voice_rooms c (List.insert r) s in
        case createToken lk cfg r (vu_id user) (vu_username user) of
          None \<Rightarrow> throw (WsError ''Failed to create voice token'') s
        | Some creds \<Rightarrow>
            let members = buildMembers r s;
                s = (if isNewMember res then announce_join ch r c (newcomer user members) s else s);
                peers = filter (\<lambda>m. vv_userId m \<noteq> vu_id user) members
            in return \<lparr>jr_channelId = r, jr_livekit = creds, jr_peers = peers\<rparr> (emit_voice (Voice_client c) (Voice_peers r peers) s))"

definition voice_onJoin :: "livekit \<Rightarrow> SfuConfig \<Rightarrow> raw_id option \<Rightarrow> string \<Rightarrow> 'a voice_st_scheme \<Rightarrow> (JoinReply, 'a voice_st_scheme) outcome" where
  "voice_onJoin lk cfg body c = await (voice_userOf c) (\<lambda>user s.
     case body of
       None \<Rightarrow> throw (WsError ''channelId is required'') s
     | Some r \<Rightarrow>
         if \<not> sfu_isEnabled cfg then throw (WsError ''Voice service (LiveKit) is not configured'') s
         else await (assertAccess r (vu_id user)) (\<lambda>ch s.
           if cn_type ch \<noteq> VOICE then throw (WsError ''Channel is not a voice channel'') s
           else enter_channel lk cfg ch r c user (leave_previous r (vu_id user) c s)) s)"

definition voice_onLeave :: "raw_id option \<Rightarrow> string \<Rightarrow> 'a voice_st_scheme \<Rightarrow> (raw_id, 'a voice_st_scheme) outcome" where
  "voice_onLeave body c = await (voice_userOf c) (\<lambda>user s.
     case body of
       None \<Rightarrow> throw (WsError ''channelId is required'') s
     | Some r \<Rightarrow> return r (handleSocketLeave r (vu_id user) c (on_voice_rooms c (removeAll r) s)))"

definition voice_onToken :: "livekit \<Rightarrow> SfuConfig \<Rightarrow> raw_id option \<Rightarrow> string \<Rightarrow> 'a voice_st_scheme \<Rightarrow> (SfuCredentials, 'a voice_st_scheme) outcome" where
  "voice_onToken lk cfg body c = await (voice_userOf c) (\<lambda>user s.
     case getChannelOfUser (vu_id user) (voice s) of
       None \<Rightarrow> throw (WsError ''Not in this voice channel'') s
     | Some r \<Rightarrow>
         if body \<noteq> Some r then throw (WsError ''Not in this voice channel'') s
         else case createToken lk cfg r (vu_id user) (vu_username user) of
           None \<Rightarrow> throw (WsError ''Voice service not available'') s
         | Some creds \<Rightarrow> return creds s)"

record StatePayload =
  sp_muted :: "bool option"
  sp_deafened :: "bool option"
  sp_speaking :: "bool option"

definition merged :: "StatePayload \<Rightarrow> VoiceMemberState \<Rightarrow> VoiceMemberState" where
  "merged body prev = prev\<lparr>vs_muted := given (sp_muted body) (vs_muted prev), vs_deafened := given (sp_deafened body) (vs_deafened prev),
     vs_speaking := given (sp_speaking body) (vs_speaking prev)\<rparr>"

definition voice_onState :: "StatePayload \<Rightarrow> string \<Rightarrow> 'a voice_st_scheme \<Rightarrow> (bool, 'a voice_st_scheme) outcome" where
  "voice_onState body c = await (voice_userOf c) (\<lambda>user s.
     case getChannelOfUser (vu_id user) (voice s) of
       None \<Rightarrow> return False s
     | Some r \<Rightarrow>
         let st = merged body (getState r (vu_id user) (voice s));
             s = on_voice (setState r (vu_id user) st) s;
             s = emit_voice (Voice_room r) (State_changed (vu_id user) st) s
         in return True (tell_server r (\<lambda>i. Channel_state i r (vu_id user) st) s))"

definition onStreamStart :: "stream_source option \<Rightarrow> string \<Rightarrow> 'a voice_st_scheme \<Rightarrow> (raw_id \<times> stream_source, 'a voice_st_scheme) outcome" where
  "onStreamStart body c = await (voice_userOf c) (\<lambda>user s.
     case getChannelOfUser (vu_id user) (voice s) of
       None \<Rightarrow> throw (WsError ''Join a voice channel first'') s
     | Some r \<Rightarrow>
         let st = (getState r (vu_id user) (voice s))\<lparr>vs_streaming := True\<rparr>;
             s = on_voice (setState r (vu_id user) st) s;
             src = (if body = Some Camera then Camera else Screen);
             e = Stream_started r (vu_id user) (From_token user) src;
             s = emit_voice (Voice_room r) e s
         in return (r, src) (tell_server r (\<lambda>_. e) s))"

definition onStreamStop :: "string \<Rightarrow> 'a voice_st_scheme \<Rightarrow> (bool, 'a voice_st_scheme) outcome" where
  "onStreamStop c = await (voice_userOf c) (\<lambda>user s.
     case getChannelOfUser (vu_id user) (voice s) of
       None \<Rightarrow> return False s
     | Some r \<Rightarrow> return True (stopStreaming r (vu_id user) s))"

end
