(* ===== verification/Messages.thy ===== *)
theory Messages
  imports Channels
begin

text \<open>
  \<open>src/messages/messages.service.ts\<close>: the messages of a channel, their pages, reactions and replies, and the
  experience for writing them. The caller is the user of the token; channels and messages are named by the
  strings the client sent.
\<close>

section \<open>Views\<close>

definition MAX_REACTION_USER_IDS :: nat where
  "MAX_REACTION_USER_IDS = 50"

definition REPLY_PREVIEW_LEN :: nat where
  "REPLY_PREVIEW_LEN = 120"

definition find_message :: "oid \<Rightarrow> 'a chat_st_scheme \<Rightarrow> Message option" where
  "find_message i s = List.find (\<lambda>m. ms_id m = i) (messages s)"

definition shapeReactions :: "MessageReaction list \<Rightarrow> oid \<Rightarrow> ReactionView list" where
  "shapeReactions rs viewer =
     map (\<lambda>r. \<lparr>rv_emoji = re_emoji r, rv_count = length (re_userIds r), rv_userIds = take MAX_REACTION_USER_IDS (re_userIds r),
               rv_me = (viewer \<in> set (re_userIds r))\<rparr>)
       (filter (\<lambda>r. re_userIds r \<noteq> []) rs)"

definition shapeReplyTo :: "Message option \<Rightarrow> (oid \<times> UserCard) list \<Rightarrow> ReplyView option" where
  "shapeReplyTo reply cards = (case reply of None \<Rightarrow> None
     | Some m \<Rightarrow> Some \<lparr>rp_id = ms_id m, rp_authorId = ms_authorId m, rp_author = map_of cards (ms_authorId m),
         rp_content = (if length (ms_content m) > REPLY_PREVIEW_LEN then take REPLY_PREVIEW_LEN (ms_content m) else ms_content m),
         rp_hasAttachments = (ms_attachments m \<noteq> [])\<rparr>)"

definition shape :: "Message \<Rightarrow> oid \<Rightarrow> (oid \<times> UserCard) list \<Rightarrow> (oid \<Rightarrow> Message option) \<Rightarrow> MessageView" where
  "shape d viewer cards replyById =
     \<lparr>mv_id = ms_id d, mv_channelId = ms_channelId d, mv_authorId = ms_authorId d, mv_content = ms_content d,
      mv_attachments = ms_attachments d, mv_replyToId = ms_replyToId d, mv_editedAt = ms_editedAt d,
      mv_author = map_of cards (ms_authorId d), mv_reactions = shapeReactions (ms_reactions d) viewer,
      mv_replyTo = map_option (\<lambda>i. shapeReplyTo (replyById i) cards) (ms_replyToId d)\<rparr>"

definition serializeMany :: "Message list \<Rightarrow> oid \<Rightarrow> 'a chat_st_scheme \<Rightarrow> MessageView list" where
  "serializeMany docs viewer s =
     (let userIds = concat (map (\<lambda>d. ms_authorId d # concat (map re_userIds (ms_reactions d))) docs);
          replyIds = List.map_filter ms_replyToId docs;
          replyDocs = filter (\<lambda>m. ms_id m \<in> set replyIds) (messages s);
          cards = getCards (map Hex (userIds @ map ms_authorId replyDocs)) s
      in map (\<lambda>d. shape d viewer cards (\<lambda>i. List.find (\<lambda>m. ms_id m = i) replyDocs)) docs)"

definition serialize :: "Message \<Rightarrow> oid \<Rightarrow> 'a chat_st_scheme \<Rightarrow> MessageView" where
  "serialize d viewer s = hd (serializeMany [d] viewer s)"

section \<open>Reading\<close>

record MessagePage =
  hp_items :: "MessageView list"
  hp_hasMore :: bool
  hp_nextBefore :: "oid option"

definition page_limit :: "nat option \<Rightarrow> nat" where
  "page_limit l = min (case l of None \<Rightarrow> 30 | Some n \<Rightarrow> if n = 0 then 30 else n) 100"

definition page_docs :: "oid \<Rightarrow> raw_id option \<Rightarrow> nat \<Rightarrow> 'a chat_st_scheme \<Rightarrow> Message list" where
  "page_docs i before n s =
     (let older = (case Option.bind before read_oid of None \<Rightarrow> (\<lambda>_. True) | Some b \<Rightarrow> (\<lambda>m. ms_id m < b))
      in take n (rev (sort_key ms_id (filter (\<lambda>m. ms_channelId m = i \<and> older m) (messages s)))))"

definition message_history :: "raw_id \<Rightarrow> oid \<Rightarrow> raw_id option \<Rightarrow> nat option \<Rightarrow> 'a chat_st_scheme \<Rightarrow> (MessagePage, 'a chat_st_scheme) outcome" where
  "message_history r u before l = await (assertAccess r u) (\<lambda>c s.
     let docs = page_docs (cn_id c) before (page_limit l) s
     in return \<lparr>hp_items = serializeMany docs u s, hp_hasMore = (length docs = page_limit l),
          hp_nextBefore = (if docs = [] then None else Some (ms_id (last docs)))\<rparr> s)"

section \<open>Writing\<close>

definition XP_PER_MESSAGE :: int where
  "XP_PER_MESSAGE = 5"

definition XP_COOLDOWN_MS :: int where
  "XP_COOLDOWN_MS = 60000"

definition awardMessageXp :: "oid \<Rightarrow> 'a chat_st_scheme \<Rightarrow> 'a chat_st_scheme" where
  "awardMessageXp u s =
     (let now = clock s; before = (case lastXpAt s u of None \<Rightarrow> 0 | Some t \<Rightarrow> t)
      in if now - before < XP_COOLDOWN_MS then s
         else snd (addXp u XP_PER_MESSAGE (Some ''message'') (s\<lparr>lastXpAt := (lastXpAt s)(u \<mapsto> now)\<rparr>)))"

record CreateMessageDto =
  cm_content :: "string option"
  cm_attachments :: "MessageAttachment list option"
  cm_replyToId :: "raw_id option"

definition create_message :: "raw_id \<Rightarrow> oid \<Rightarrow> CreateMessageDto \<Rightarrow> 'a chat_st_scheme \<Rightarrow> (MessageView, 'a chat_st_scheme) outcome" where
  "create_message r u dto = await (assertAccess r u) (\<lambda>c s.
     let content = trim (case cm_content dto of None \<Rightarrow> '''' | Some x \<Rightarrow> x);
         attachments = (case cm_attachments dto of None \<Rightarrow> [] | Some as \<Rightarrow> as)
     in if content = '''' \<and> attachments = [] then throw (BadRequest ''A message must have content or at least one attachment'') s
        else let (k, s) = fresh_id s;
                 d = \<lparr>ms_id = k, ms_channelId = cn_id c, ms_authorId = u, ms_content = content, ms_attachments = attachments,
                      ms_replyToId = Option.bind (cm_replyToId dto) read_oid, ms_reactions = [], ms_editedAt = None\<rparr>;
                 s = s\<lparr>messages := messages s @ [d]\<rparr>;
                 json = serialize d u s
             in return json (awardMessageXp u (emit_chat (In_channel r) (Message_new json) s)))"

definition getOrThrow :: "raw_id \<Rightarrow> 'a chat_st_scheme \<Rightarrow> (Message, 'a chat_st_scheme) outcome" where
  "getOrThrow r s = (case Option.bind (read_oid r) (\<lambda>i. find_message i s) of
     None \<Rightarrow> throw (NotFound ''Message not found'') s | Some m \<Rightarrow> return m s)"

definition set_message :: "oid \<Rightarrow> (Message \<Rightarrow> Message) \<Rightarrow> 'a chat_st_scheme \<Rightarrow> 'a chat_st_scheme" where
  "set_message i f s = s\<lparr>messages := updateOne (\<lambda>m. ms_id m = i) f (messages s)\<rparr>"

definition edited :: "string \<Rightarrow> int \<Rightarrow> Message \<Rightarrow> Message" where
  "edited content now m = m\<lparr>ms_content := content, ms_editedAt := Some now\<rparr>"

definition update_message :: "raw_id \<Rightarrow> oid \<Rightarrow> string \<Rightarrow> 'a chat_st_scheme \<Rightarrow> (MessageView, 'a chat_st_scheme) outcome" where
  "update_message r u content = await (getOrThrow r) (\<lambda>m s.
     if ms_authorId m \<noteq> u then throw (Forbidden ''Only the author can edit this message'') s
     else let s = set_message (ms_id m) (edited content (clock s)) s;
              json = serialize (edited content (clock s) m) u s
          in return json (emit_chat (In_channel (Hex (ms_channelId m))) (Message_updated json) s))"

definition remove_message :: "raw_id \<Rightarrow> oid \<Rightarrow> 'a chat_st_scheme \<Rightarrow> (unit, 'a chat_st_scheme) outcome" where
  "remove_message r u = await (getOrThrow r) (\<lambda>m. await (getByIdOrThrow (Hex (ms_channelId m))) (\<lambda>c.
     await (if ms_authorId m \<noteq> u then requireRole (Hex (cn_serverId c)) u ADMIN else requireMembership (Hex (cn_serverId c)) u) (\<lambda>_ s.
       return () (emit_chat (In_channel (Hex (ms_channelId m))) (Message_deleted r (ms_channelId m))
         (s\<lparr>messages := deleteOne (\<lambda>x. ms_id x = ms_id m) (messages s)\<rparr>)))))"

section \<open>Reactions\<close>

definition add_to_group :: "string \<Rightarrow> oid \<Rightarrow> Message \<Rightarrow> Message" where
  "add_to_group emoji u m = m\<lparr>ms_reactions := updateOne (\<lambda>g. re_emoji g = emoji) (\<lambda>g. g\<lparr>re_userIds :=
     (if u \<in> set (re_userIds g) then re_userIds g else re_userIds g @ [u])\<rparr>) (ms_reactions m)\<rparr>"

definition push_group :: "string \<Rightarrow> oid \<Rightarrow> Message \<Rightarrow> Message" where
  "push_group emoji u m = m\<lparr>ms_reactions := ms_reactions m @ [\<lparr>re_emoji = emoji, re_userIds = [u]\<rparr>]\<rparr>"

definition has_emoji :: "string \<Rightarrow> Message \<Rightarrow> bool" where
  "has_emoji emoji m \<longleftrightarrow> emoji \<in> set (map re_emoji (ms_reactions m))"

text \<open>Both reactions start with the access check and the message of that very channel, compared as strings.\<close>

definition message_in :: "raw_id \<Rightarrow> raw_id \<Rightarrow> oid \<Rightarrow> 'a chat_st_scheme \<Rightarrow> (Message, 'a chat_st_scheme) outcome" where
  "message_in r k u = await (assertAccess r u) (\<lambda>_. await (getOrThrow k) (\<lambda>m.
     if Hex (ms_channelId m) \<noteq> r then throw (NotFound ''Message not found in this channel'') else return m))"

definition addReaction :: "raw_id \<Rightarrow> raw_id \<Rightarrow> oid \<Rightarrow> string \<Rightarrow> 'a chat_st_scheme \<Rightarrow> (unit, 'a chat_st_scheme) outcome" where
  "addReaction r k u emoji = await (message_in r k u) (\<lambda>m s.
     return () (emit_chat (In_channel r) (Reaction_added r k emoji u)
       (set_message (ms_id m) (if has_emoji emoji m then add_to_group emoji u else push_group emoji u) s)))"

definition pull_user :: "string \<Rightarrow> oid \<Rightarrow> Message \<Rightarrow> Message" where
  "pull_user emoji u m = m\<lparr>ms_reactions := updateOne (\<lambda>g. re_emoji g = emoji) (\<lambda>g. g\<lparr>re_userIds := removeAll u (re_userIds g)\<rparr>) (ms_reactions m)\<rparr>"

definition drop_empty :: "Message \<Rightarrow> Message" where
  "drop_empty m = m\<lparr>ms_reactions := filter (\<lambda>g. re_userIds g \<noteq> []) (ms_reactions m)\<rparr>"

definition removeReaction :: "raw_id \<Rightarrow> raw_id \<Rightarrow> oid \<Rightarrow> string \<Rightarrow> 'a chat_st_scheme \<Rightarrow> (unit, 'a chat_st_scheme) outcome" where
  "removeReaction r k u emoji = await (message_in r k u) (\<lambda>m s.
     return () (emit_chat (In_channel r) (Reaction_removed r k emoji u)
       (set_message (ms_id m) drop_empty (set_message (ms_id m) (pull_user emoji u) s))))"

end
