(* ===== verification/ServersLaws.thy ===== *)
theory ServersLaws
  imports Servers
begin

text \<open>
  What a server promises about who may do what: an access matrix of roles, owners and bans with guarded
  steps, the service as a refinement of it, and what follows for every sequence of requests.
\<close>

section \<open>The collections\<close>

definition mkey :: "ServerMember \<Rightarrow> oid \<times> oid" where
  "mkey m = (sm_serverId m, sm_userId m)"

definition bkey :: "ServerBan \<Rightarrow> oid \<times> oid" where
  "bkey b = (sb_serverId b, sb_userId b)"

lemma member_key_alt: "member_key i u = (\<lambda>m. mkey m = (i, u))"
  by (auto simp: member_key_def mkey_def)

lemma member_key_abs: "member_key i u = (\<lambda>m. sm_serverId m = i \<and> sm_userId m = u)"
  by (auto simp: member_key_def)

lemma ban_key_alt: "(sb_serverId b = i \<and> sb_userId b = u) = (bkey b = (i, u))"
  by (auto simp: bkey_def)

text \<open>Every user is once in a server, banned once from it; identifiers are below the counter and codes are unique.\<close>

definition codes_unique :: "Server list \<Rightarrow> bool" where
  "codes_unique ds \<longleftrightarrow> (\<forall>d \<in> set ds. \<forall>e \<in> set ds. sv_inviteCode d \<noteq> None \<longrightarrow> sv_inviteCode d = sv_inviteCode e \<longrightarrow> sv_id d = sv_id e)"

definition servers_wf :: "'a servers_st_scheme \<Rightarrow> bool" where
  "servers_wf s \<longleftrightarrow> distinct (map sv_id (servers s)) \<and> distinct (map mkey (server_members s)) \<and> distinct (map bkey (server_bans s))
     \<and> (\<forall>d \<in> set (servers s). sv_id d < next_id s) \<and> (\<forall>m \<in> set (server_members s). sm_serverId m < next_id s)
     \<and> (\<forall>b \<in> set (server_bans s). sb_serverId b < next_id s) \<and> (\<forall>d. defaultServerId s = Some d \<longrightarrow> d < next_id s)
     \<and> codes_unique (servers s)"

text \<open>The same documents, whatever was emitted.\<close>

definition same_servers :: "'a servers_st_scheme \<Rightarrow> 'a servers_st_scheme \<Rightarrow> bool" where
  "same_servers s t \<longleftrightarrow> servers t = servers s \<and> server_members t = server_members s \<and> server_bans t = server_bans s
     \<and> defaultServerId t = defaultServerId s \<and> next_id t = next_id s"

lemma emit_server_frame [simp]:
  "servers (emit_server r e s) = servers s" "server_members (emit_server r e s) = server_members s"
  "server_bans (emit_server r e s) = server_bans s" "defaultServerId (emit_server r e s) = defaultServerId s"
  "next_id (emit_server r e s) = next_id s" "users (emit_server r e s) = users s" "clock (emit_server r e s) = clock s"
  by (simp_all add: emit_server_def)

lemma broadcast_frame [simp]:
  "servers (broadcastMemberJoined i m s) = servers s" "server_members (broadcastMemberJoined i m s) = server_members s"
  "server_bans (broadcastMemberJoined i m s) = server_bans s" "defaultServerId (broadcastMemberJoined i m s) = defaultServerId s"
  "next_id (broadcastMemberJoined i m s) = next_id s"
  by (simp_all add: broadcastMemberJoined_def)

lemma server_ops_frame [simp]:
  "servers (set_member i u f s) = servers s" "server_bans (set_member i u f s) = server_bans s"
  "defaultServerId (set_member i u f s) = defaultServerId s" "next_id (set_member i u f s) = next_id s"
  "servers (drop_member i u s) = servers s" "server_bans (drop_member i u s) = server_bans s"
  "defaultServerId (drop_member i u s) = defaultServerId s" "next_id (drop_member i u s) = next_id s"
  "server_members (set_server i g s) = server_members s" "server_bans (set_server i g s) = server_bans s"
  "defaultServerId (set_server i g s) = defaultServerId s" "next_id (set_server i g s) = next_id s"
  by (simp_all add: set_member_def drop_member_def set_server_def)

lemma getMembership_frame: "server_members t = server_members s \<Longrightarrow> getMembership i u t = getMembership i u s"
  by (simp add: getMembership_def)

lemma getMembership_SomeD: "getMembership i u s = Some m \<Longrightarrow> m \<in> set (server_members s) \<and> sm_serverId m = i \<and> sm_userId m = u"
  by (auto simp: getMembership_def member_key_def dest: find_Some_iff_mem)

lemma getMembership_set:
  assumes "\<And>m. mkey (f m) = mkey m"
  shows "getMembership i u (set_member j v f s) = (if (i, u) = (j, v) then map_option f (getMembership i u s) else getMembership i u s)"
proof (cases "(i, u) = (j, v)")
  case False
  have "List.find (\<lambda>m. mkey m = (i, u)) (updateOne (\<lambda>m. mkey m = (j, v)) f (server_members s)) = List.find (\<lambda>m. mkey m = (i, u)) (server_members s)"
    by (rule find_updateOne_other) (use assms False in auto)
  then show ?thesis using False by (auto simp: getMembership_def set_member_def member_key_alt)
qed (use assms in \<open>auto simp: getMembership_def set_member_def member_key_alt find_updateOne_same\<close>)

lemma getMembership_drop:
  assumes "distinct (map mkey (server_members s))"
  shows "getMembership i u (drop_member j v s) = (if (i, u) = (j, v) then None else getMembership i u s)"
proof (cases "(i, u) = (j, v)")
  case True
  then show ?thesis using deleteOne_filter [OF assms, of "(j, v)"]
    by (auto simp: getMembership_def drop_member_def member_key_alt find_None_iff)
next
  case False
  have "List.find (\<lambda>m. mkey m = (i, u)) (deleteOne (\<lambda>m. mkey m = (j, v)) (server_members s)) = List.find (\<lambda>m. mkey m = (i, u)) (server_members s)"
    by (rule find_deleteOne_other_mem) (use False in auto)
  then show ?thesis using False by (auto simp: getMembership_def drop_member_def member_key_alt)
qed

lemma find_server_set:
  assumes "\<And>d. sv_id (f d) = sv_id d"
  shows "find_server i (set_server j f s) = (if i = j then map_option f (find_server i s) else find_server i s)"
proof (cases "i = j")
  case False
  have "List.find (\<lambda>d. sv_id d = i) (updateOne (\<lambda>d. sv_id d = j) f (servers s)) = List.find (\<lambda>d. sv_id d = i) (servers s)"
    by (rule find_updateOne_other) (use assms False in auto)
  then show ?thesis using False by (simp add: find_server_def set_server_def)
qed (use assms in \<open>simp add: find_server_def set_server_def find_updateOne_same\<close>)

lemma find_server_frame: "servers t = servers s \<Longrightarrow> find_server i t = find_server i s"
  by (simp add: find_server_def)

lemma find_server_SomeD: "find_server i s = Some d \<Longrightarrow> d \<in> set (servers s) \<and> sv_id d = i"
  by (auto simp: find_server_def dest: find_Some_iff_mem)

lemma find_ban_frame: "server_bans t = server_bans s \<Longrightarrow> find_ban i u t = find_ban i u s"
  by (simp add: find_ban_def)

section \<open>The guards\<close>

lemma cast_oid_InrD: "cast_oid r s = (Inr i, t) \<Longrightarrow> read_oid r = Some i \<and> t = s"
  by (auto simp: cast_oid_def split: option.splits)

lemma requireMembership_InrD:
  assumes "requireMembership r u s = (Inr m, t)"
  shows "t = s \<and> read_oid r = Some (sm_serverId m) \<and> getMembership (sm_serverId m) u s = Some m \<and> sm_userId m = u"
proof -
  obtain i where i: "read_oid r = Some i" "getMembership i u s = Some m" "t = s"
    using assms by (auto simp: requireMembership_def await_def cast_oid_def split: option.splits)
  then show ?thesis using getMembership_SomeD [OF i(2)] by simp
qed

lemma requireMembership_state: "snd (requireMembership r u s) = s"
  by (simp add: requireMembership_def await_def cast_oid_def split: option.split)

lemma requireRole_InrD:
  assumes "requireRole r u k s = (Inr m, t)"
  shows "t = s \<and> read_oid r = Some (sm_serverId m) \<and> getMembership (sm_serverId m) u s = Some m \<and> sm_userId m = u \<and> k \<le> sm_role m"
proof -
  have "requireMembership r u s = (Inr m, t) \<and> k \<le> sm_role m"
    using assms by (auto simp: requireRole_def await_def less_eq_MemberRole_def split: prod.splits sum.splits if_splits)
  then show ?thesis using requireMembership_InrD [of r u s m t] by simp
qed

lemma requireRole_state: "snd (requireRole r u k s) = s"
  using requireMembership_state [of r u s]
  by (auto simp: requireRole_def await_def split: prod.splits sum.splits)

lemma target_member_InrD:
  "target_member i v missing s = (Inr m, t) \<Longrightarrow> t = s \<and> getMembership i (sm_userId m) s = Some m \<and> sm_serverId m = i
     \<and> read_oid v = Some (sm_userId m)"
  by (auto simp: target_member_def await_def cast_oid_def dest: getMembership_SomeD split: option.splits)

lemma target_member_state: "snd (target_member i v missing s) = s"
  by (simp add: target_member_def await_def cast_oid_def split: option.split)

lemma serverOrThrow_InrD: "serverOrThrow r s = (Inr sv, t) \<Longrightarrow> t = s \<and> read_oid r = Some (sv_id sv) \<and> find_server (sv_id sv) s = Some sv"
  by (auto simp: serverOrThrow_def await_def cast_oid_def dest: find_server_SomeD split: option.splits)

lemma serverOrThrow_state: "snd (serverOrThrow r s) = s"
  by (simp add: serverOrThrow_def await_def cast_oid_def split: option.split)

text \<open>A handler behind a guard: what holds before and of the rest behind the guard holds after.\<close>

lemma await_guard:
  assumes "snd (m s) = s" "P s" "\<And>x. m s = (Inr x, s) \<Longrightarrow> P (snd (k x s))"
  shows "P (snd (await m k s))"
proof (cases "m s")
  case (Pair x t)
  then show ?thesis using assms by (cases x) (simp_all add: await_def)
qed

lemma cast_guard: "P s \<Longrightarrow> (\<And>i. read_oid r = Some i \<Longrightarrow> P (snd (k i s))) \<Longrightarrow> P (snd (await (cast_oid r) k s))"
  by (rule await_guard) (auto simp: cast_oid_def split: option.splits)

lemma member_guard:
  assumes "P s" "\<And>m. \<lbrakk>getMembership (sm_serverId m) u s = Some m; sm_userId m = u; read_oid r = Some (sm_serverId m)\<rbrakk> \<Longrightarrow> P (snd (k m s))"
  shows "P (snd (await (requireMembership r u) k s))"
  by (rule await_guard) (use assms requireMembership_state in \<open>auto dest: requireMembership_InrD\<close>)

lemma role_guard:
  assumes "P s" "\<And>m. \<lbrakk>getMembership (sm_serverId m) u s = Some m; sm_userId m = u; read_oid r = Some (sm_serverId m); least \<le> sm_role m\<rbrakk> \<Longrightarrow> P (snd (k m s))"
  shows "P (snd (await (requireRole r u least) k s))"
  by (rule await_guard) (use assms requireRole_state in \<open>auto dest: requireRole_InrD\<close>)

lemma target_guard:
  assumes "P s" "\<And>m. \<lbrakk>getMembership i (sm_userId m) s = Some m; sm_serverId m = i; read_oid v = Some (sm_userId m)\<rbrakk> \<Longrightarrow> P (snd (k m s))"
  shows "P (snd (await (target_member i v missing) k s))"
  by (rule await_guard) (use assms target_member_state in \<open>auto dest: target_member_InrD\<close>)

lemma server_guard:
  assumes "P s" "\<And>sv. \<lbrakk>find_server (sv_id sv) s = Some sv; read_oid r = Some (sv_id sv)\<rbrakk> \<Longrightarrow> P (snd (k sv s))"
  shows "P (snd (await (serverOrThrow r) k s))"
  by (rule await_guard) (use assms serverOrThrow_state in \<open>auto dest: serverOrThrow_InrD\<close>)

section \<open>The access matrix\<close>

record acl =
  roles :: "oid \<Rightarrow> oid \<Rightarrow> MemberRole option"
  owner :: "oid \<Rightarrow> oid option"
  banned :: "(oid \<times> oid) set"

definition set_roles :: "oid \<Rightarrow> (oid \<Rightarrow> MemberRole option) \<Rightarrow> acl \<Rightarrow> acl" where
  "set_roles i f A = A\<lparr>roles := (roles A)(i := f)\<rparr>"

text \<open>What a request of a user may do to it; \<open>enrols\<close> is the platform adding the user to the default server.\<close>

inductive acl_step :: "oid option \<Rightarrow> oid \<Rightarrow> acl \<Rightarrow> acl \<Rightarrow> bool" for d :: "oid option" and a :: oid and A :: acl where
  idles: "acl_step d a A A"
| founds: "owner A i = None \<Longrightarrow> roles A i = Map.empty \<Longrightarrow> \<forall>u. (i, u) \<notin> banned A \<Longrightarrow> acl_step d a A ((set_roles i [a \<mapsto> OWNER] A)\<lparr>owner := (owner A)(i \<mapsto> a)\<rparr>)"
| joins: "roles A i a = None \<Longrightarrow> (i, a) \<notin> banned A \<Longrightarrow> owner A i \<noteq> None \<Longrightarrow> acl_step d a A (set_roles i ((roles A i)(a \<mapsto> MEMBER)) A)"
| enrols: "d = Some i \<Longrightarrow> roles A i a = None \<Longrightarrow> acl_step d a A (set_roles i ((roles A i)(a \<mapsto> MEMBER)) A)"
| leaves: "roles A i a = Some r \<Longrightarrow> r \<noteq> OWNER \<Longrightarrow> acl_step d a A (set_roles i ((roles A i)(a := None)) A)"
| assigns: "roles A i a = Some ra \<Longrightarrow> ADMIN \<le> ra \<Longrightarrow> roles A i v = Some rv \<Longrightarrow> rv < ra \<Longrightarrow> r \<noteq> OWNER
    \<Longrightarrow> acl_step d a A (set_roles i ((roles A i)(v \<mapsto> r)) A)"
| kicks: "roles A i a = Some ra \<Longrightarrow> ADMIN \<le> ra \<Longrightarrow> roles A i v = Some rv \<Longrightarrow> rv < ra
    \<Longrightarrow> acl_step d a A (set_roles i ((roles A i)(v := None)) A)"
| bans: "roles A i a = Some ra \<Longrightarrow> ADMIN \<le> ra \<Longrightarrow> (\<forall>rv. roles A i v = Some rv \<longrightarrow> rv < ra)
    \<Longrightarrow> acl_step d a A ((set_roles i ((roles A i)(v := None)) A)\<lparr>banned := insert (i, v) (banned A)\<rparr>)"
| unbans: "roles A i a = Some ra \<Longrightarrow> ADMIN \<le> ra \<Longrightarrow> acl_step d a A (A\<lparr>banned := banned A - {(i, v)}\<rparr>)"
| hands_over: "roles A i a = Some OWNER \<Longrightarrow> roles A i v = Some rv
    \<Longrightarrow> acl_step d a A ((set_roles i ((roles A i)(a \<mapsto> ADMIN, v \<mapsto> OWNER)) A)\<lparr>owner := (owner A)(i \<mapsto> v)\<rparr>)"
| destroys: "roles A i a = Some OWNER
    \<Longrightarrow> acl_step d a A ((set_roles i Map.empty A)\<lparr>owner := (owner A)(i := None), banned := {p \<in> banned A. fst p \<noteq> i}\<rparr>)"

text \<open>One owner each, who is a member; nobody is banned from a server and in it, the default server aside.\<close>

definition acl_ok :: "oid option \<Rightarrow> acl \<Rightarrow> bool" where
  "acl_ok d A \<longleftrightarrow> (\<forall>i u. roles A i u = Some OWNER \<longleftrightarrow> owner A i = Some u)
     \<and> (\<forall>i u. (i, u) \<in> banned A \<longrightarrow> d \<noteq> Some i \<longrightarrow> roles A i u = None)"

lemma role_less: "r < OWNER \<longleftrightarrow> r \<noteq> OWNER" "\<not> OWNER < r" "ADMIN \<le> r \<longleftrightarrow> r \<noteq> MEMBER" "r \<le> OWNER" "MEMBER \<le> r"
  by (cases r; simp add: less_MemberRole_def less_eq_MemberRole_def)+

lemma acl_step_ok: "acl_step d a A B \<Longrightarrow> acl_ok d A \<Longrightarrow> acl_ok d B"
proof (induction rule: acl_step.induct)
  case (assigns i ra v rv r)
  then have "roles A i v \<noteq> Some OWNER" by (auto simp: role_less(2))
  then show ?case using assigns by (force simp: acl_ok_def set_roles_def)
next
  case (kicks i ra v rv)
  then have "roles A i v \<noteq> Some OWNER" by (auto simp: role_less(2))
  then show ?case using kicks by (force simp: acl_ok_def set_roles_def)
next
  case (bans i ra v)
  then have "roles A i v \<noteq> Some OWNER" by (auto simp: role_less(2))
  then show ?case using bans by (force simp: acl_ok_def set_roles_def)
next
  case (hands_over i v rv)
  then have u: "roles A i u = Some OWNER \<longleftrightarrow> u = a" for u by (auto simp: acl_ok_def)
  show ?case unfolding acl_ok_def
  proof (intro conjI allI impI)
    fix j w
    show "roles ((set_roles i ((roles A i)(a \<mapsto> ADMIN, v \<mapsto> OWNER)) A)\<lparr>owner := (owner A)(i \<mapsto> v)\<rparr>) j w = Some OWNER
      \<longleftrightarrow> owner ((set_roles i ((roles A i)(a \<mapsto> ADMIN, v \<mapsto> OWNER)) A)\<lparr>owner := (owner A)(i \<mapsto> v)\<rparr>) j = Some w"
      using u [of w] hands_over(3) by (cases "j = i") (simp_all add: set_roles_def acl_ok_def)
    assume b: "(j, w) \<in> banned ((set_roles i ((roles A i)(a \<mapsto> ADMIN, v \<mapsto> OWNER)) A)\<lparr>owner := (owner A)(i \<mapsto> v)\<rparr>)" "d \<noteq> Some j"
    then have "roles A j w = None" using hands_over(3) by (simp add: acl_ok_def set_roles_def)
    then show "roles ((set_roles i ((roles A i)(a \<mapsto> ADMIN, v \<mapsto> OWNER)) A)\<lparr>owner := (owner A)(i \<mapsto> v)\<rparr>) j w = None"
      using hands_over(1,2) by (auto simp: set_roles_def)
  qed
qed (force simp: acl_ok_def set_roles_def split: if_splits)+

text \<open>Others' roles change by rank alone, and nobody raises one's own beyond what a new member has.\<close>

lemma acl_step_authority:
  assumes "acl_step d a A B" "acl_ok d A" "roles B i v \<noteq> roles A i v" "v \<noteq> a"
  shows "\<exists>ra rv. roles A i a = Some ra \<and> ADMIN \<le> ra \<and> roles A i v = Some rv \<and> rv < ra"
  using assms(1)
proof cases
  case (hands_over j w rv)
  have "roles A j w \<noteq> Some OWNER" if "w \<noteq> a" using assms(2) hands_over that by (auto simp: acl_ok_def)
  then show ?thesis using hands_over assms(3,4) by (auto simp: set_roles_def role_less split: if_splits)
next
  case (destroys j)
  have "roles A j v \<noteq> Some OWNER" using assms(2,4) destroys by (auto simp: acl_ok_def)
  then show ?thesis using destroys assms(3,4) by (cases "roles A j v") (auto simp: set_roles_def role_less split: if_splits)
next
  case (bans j ra w)
  then show ?thesis using assms(3,4) by (cases "roles A j w") (auto simp: set_roles_def split: if_splits)
qed (use assms(3,4) in \<open>auto simp: set_roles_def split: if_splits\<close>)

lemma acl_step_own:
  assumes "acl_step d a A B" "roles B i a = Some r"
  shows "r = MEMBER \<or> owner A i = None \<and> owner B i = Some a \<or> (\<exists>r'. roles A i a = Some r' \<and> r \<le> r')"
  using assms
proof cases
  case (assigns j ra v rv r')
  then show ?thesis using assms(2) by (cases "v = a") (auto simp: set_roles_def split: if_splits)
qed (use assms(2) in \<open>auto simp: set_roles_def role_less split: if_splits\<close>)

section \<open>The service refines the matrix\<close>

definition acl_of :: "'a servers_st_scheme \<Rightarrow> acl" where
  "acl_of s = \<lparr>roles = \<lambda>i u. map_option sm_role (getMembership i u s), owner = \<lambda>i. map_option sv_ownerId (find_server i s),
     banned = bkey ` set (server_bans s)\<rparr>"

definition servers_ok :: "'a servers_st_scheme \<Rightarrow> bool" where
  "servers_ok s \<longleftrightarrow> servers_wf s \<and> acl_ok (defaultServerId s) (acl_of s)"

definition follows :: "oid \<Rightarrow> 'a servers_st_scheme \<Rightarrow> 'a servers_st_scheme \<Rightarrow> bool" where
  "follows a s t \<longleftrightarrow> servers_wf t \<and> defaultServerId t = defaultServerId s \<and> acl_step (defaultServerId s) a (acl_of s) (acl_of t)"

lemma acl_frame:
  "servers t = servers s \<Longrightarrow> server_members t = server_members s \<Longrightarrow> server_bans t = server_bans s \<Longrightarrow> acl_of t = acl_of s"
  by (simp add: acl_of_def getMembership_def find_server_def)

lemma wf_frame:
  "servers t = servers s \<Longrightarrow> server_members t = server_members s \<Longrightarrow> server_bans t = server_bans s
    \<Longrightarrow> defaultServerId t = defaultServerId s \<Longrightarrow> next_id s \<le> next_id t \<Longrightarrow> servers_wf s \<Longrightarrow> servers_wf t"
  by (fastforce simp: servers_wf_def)

lemma acl_emit [simp]: "acl_of (emit_server r e s) = acl_of s" "servers_wf (emit_server r e s) = servers_wf s"
  "acl_of (broadcastMemberJoined i m s) = acl_of s" "servers_wf (broadcastMemberJoined i m s) = servers_wf s"
  by (rule acl_frame; simp | simp add: servers_wf_def)+

lemma follows_emit [simp]: "follows a s (emit_server r e t) = follows a s t" "follows a s (broadcastMemberJoined i m t) = follows a s t"
  by (simp_all add: follows_def)

lemma follows_refl: "servers_wf s \<Longrightarrow> follows a s s"
  by (simp add: follows_def acl_step.idles)

lemma acl_simps [simp]:
  "roles (acl_of s) i u = map_option sm_role (getMembership i u s)" "owner (acl_of s) i = map_option sv_ownerId (find_server i s)"
  "banned (acl_of s) = bkey ` set (server_bans s)"
  by (simp_all add: acl_of_def)

lemma add_member_InrD:
  assumes "add_member i u role s = (Inr m, t)" "servers_wf s" "i < next_id s"
  shows "servers_wf t \<and> defaultServerId t = defaultServerId s \<and> getMembership i u s = None
    \<and> acl_of t = set_roles i ((roles (acl_of s) i)(u \<mapsto> role)) (acl_of s)"
proof -
  let ?m = "\<lparr>sm_id = next_id s, sm_serverId = i, sm_userId = u, sm_role = role, sm_nickname = None, sm_joinedAt = clock s\<rparr>"
  have n: "getMembership i u s = None" and t: "t = s\<lparr>next_id := Suc (next_id s), server_members := server_members s @ [?m]\<rparr>"
    using assms(1) by (auto simp: add_member_def fresh_id_def Let_def split: if_splits)
  have fresh: "(i, u) \<notin> mkey ` set (server_members s)"
    using n by (auto simp: getMembership_def member_key_alt find_None_iff)
  have "servers_wf t" using assms(2,3) fresh by (fastforce simp: servers_wf_def t mkey_def)
  moreover have "getMembership j v t = (if (j, v) = (i, u) then Some ?m else getMembership j v s)" for j v
    using n by (auto simp: getMembership_def t find_append member_key_def split: option.split)
  then have "acl_of t = set_roles i ((roles (acl_of s) i)(u \<mapsto> role)) (acl_of s)"
    by (simp add: acl_of_def set_roles_def t find_server_def fun_eq_iff)
  ultimately show ?thesis using n by (simp add: t)
qed

lemma add_member_InlD: "add_member i u role s = (Inl e, t) \<Longrightarrow> t = s"
  by (auto simp: add_member_def fresh_id_def Let_def split: if_splits)

lemma acl_set_member:
  "acl_of (set_member i u (\<lambda>x. x\<lparr>sm_role := r\<rparr>) s) = set_roles i ((roles (acl_of s) i)(u := map_option (\<lambda>_. r) (roles (acl_of s) i u))) (acl_of s)"
  "acl_of (set_member i u (\<lambda>x. x\<lparr>sm_nickname := n\<rparr>) s) = acl_of s"
proof -
  have "find_server j (set_member i u f s) = find_server j s" for j f by (simp add: find_server_def)
  then show "acl_of (set_member i u (\<lambda>x. x\<lparr>sm_role := r\<rparr>) s) = set_roles i ((roles (acl_of s) i)(u := map_option (\<lambda>_. r) (roles (acl_of s) i u))) (acl_of s)"
    "acl_of (set_member i u (\<lambda>x. x\<lparr>sm_nickname := n\<rparr>) s) = acl_of s"
    by (auto simp: acl_of_def set_roles_def getMembership_set mkey_def fun_eq_iff option.map_comp comp_def)
qed

lemma wf_set_member:
  assumes "servers_wf s" "\<And>m. mkey (f m) = mkey m"
  shows "servers_wf (set_member i u f s)"
proof -
  have k: "map mkey (updateOne (member_key i u) f (server_members s)) = map mkey (server_members s)" by (rule map_updateOne) (rule assms)
  have "\<forall>m \<in> set (updateOne (member_key i u) f (server_members s)). sm_serverId m < next_id s"
    by (rule updateOne_all) (use assms in \<open>auto simp: servers_wf_def mkey_def\<close>)
  then show ?thesis using assms(1) k unfolding servers_wf_def by (simp add: set_member_def)
qed

lemma wf_drop_member: "servers_wf s \<Longrightarrow> servers_wf (drop_member i u s)"
  using set_deleteOne_subset [of "member_key i u" "server_members s"] sublist_map_deleteOne_distinct [of mkey "server_members s" "member_key i u"]
  unfolding servers_wf_def by (auto simp: drop_member_def)

lemma acl_drop_member:
  "servers_wf s \<Longrightarrow> acl_of (drop_member i u s) = set_roles i ((roles (acl_of s) i)(u := None)) (acl_of s)"
  using getMembership_drop [of s _ _ i u]
  by (auto simp: servers_wf_def acl_of_def set_roles_def fun_eq_iff find_server_def)

lemma wf_set_server:
  assumes "servers_wf s" "\<And>d. sv_id (f d) = sv_id d"
    "\<And>d. sv_id d = i \<Longrightarrow> sv_inviteCode (f d) = None \<or> sv_inviteCode (f d) = sv_inviteCode d
       \<or> (\<forall>e \<in> set (servers s). sv_inviteCode e = sv_inviteCode (f d) \<longrightarrow> sv_id e = i)"
  shows "servers_wf (set_server i f s)"
proof -
  let ?ds = "updateOne (\<lambda>d. sv_id d = i) f (servers s)"
  have ds: "?ds = map (\<lambda>d. if sv_id d = i then f d else d) (servers s)"
    by (rule updateOne_key_map) (use assms(1) in \<open>simp add: servers_wf_def\<close>)
  have "map sv_id ?ds = map sv_id (servers s)" by (rule map_updateOne) (rule assms(2))
  moreover have "\<forall>d \<in> set ?ds. sv_id d < next_id s" using assms(1,2) by (auto simp: servers_wf_def ds)
  moreover have "codes_unique ?ds"
    unfolding codes_unique_def
  proof (intro ballI impI)
    fix x y
    assume "x \<in> set ?ds" "y \<in> set ?ds" and code: "sv_inviteCode x \<noteq> None" "sv_inviteCode x = sv_inviteCode y"
    then obtain d e where d: "d \<in> set (servers s)" "x = (if sv_id d = i then f d else d)"
      and e: "e \<in> set (servers s)" "y = (if sv_id e = i then f e else e)" unfolding ds by auto
    have u: "sv_inviteCode d \<noteq> None \<Longrightarrow> sv_inviteCode d = sv_inviteCode e \<Longrightarrow> sv_id d = sv_id e"
      using assms(1) d(1) e(1) unfolding servers_wf_def codes_unique_def by blast
    have f: "sv_id d = sv_id e" if "sv_id d = i" "sv_inviteCode (f d) = sv_inviteCode e" "sv_inviteCode (f d) \<noteq> None"
    proof -
      from assms(3) [OF that(1)] that(3) consider "sv_inviteCode (f d) = sv_inviteCode d"
        | "\<forall>e \<in> set (servers s). sv_inviteCode e = sv_inviteCode (f d) \<longrightarrow> sv_id e = i" by blast
      then show ?thesis
      proof cases
        case 1
        show ?thesis by (rule u) (use 1 that in simp_all)
      next
        case 2
        then show ?thesis using e(1) that(1,2) by metis
      qed
    qed
    have g: "sv_id d = sv_id e" if "sv_id e = i" "sv_inviteCode (f e) = sv_inviteCode d" "sv_inviteCode (f e) \<noteq> None"
    proof -
      from assms(3) [OF that(1)] that(3) consider "sv_inviteCode (f e) = sv_inviteCode e"
        | "\<forall>e' \<in> set (servers s). sv_inviteCode e' = sv_inviteCode (f e) \<longrightarrow> sv_id e' = i" by blast
      then show ?thesis
      proof cases
        case 1
        show ?thesis by (rule u) (use 1 that in simp_all)
      next
        case 2
        then show ?thesis using d(1) that(1,2) by metis
      qed
    qed
    have same: "sv_id d = sv_id e"
    proof (cases "sv_id d = i"; cases "sv_id e = i")
      assume i: "sv_id d = i" "sv_id e \<noteq> i"
      show ?thesis by (rule f) (use i code d(2) e(2) in simp_all)
    next
      assume i: "sv_id d \<noteq> i" "sv_id e = i"
      show ?thesis by (rule g) (use i code d(2) e(2) in simp_all)
    next
      assume i: "sv_id d \<noteq> i" "sv_id e \<noteq> i"
      show ?thesis by (rule u) (use i code d(2) e(2) in simp_all)
    qed simp
    show "sv_id x = sv_id y" unfolding d(2) e(2) using same assms(2) by simp
  qed
  ultimately show ?thesis using assms(1) unfolding servers_wf_def by (simp add: set_server_def)
qed

lemma acl_set_server:
  assumes "\<And>d. sv_id (f d) = sv_id d" "\<And>d. sv_ownerId (f d) = sv_ownerId d"
  shows "acl_of (set_server i f s) = acl_of s"
  using find_server_set [of f _ i s] assms
  by (auto simp: acl_of_def fun_eq_iff getMembership_def option.map_comp comp_def)

lemma codes_unique_subset: "codes_unique ds \<Longrightarrow> set es \<subseteq> set ds \<Longrightarrow> codes_unique es"
  unfolding codes_unique_def by blast

lemma find_server_None: "next_id s \<le> i \<Longrightarrow> servers_wf s \<Longrightarrow> find_server i s = None"
  by (force simp: find_server_def find_None_iff servers_wf_def)

lemma getMembership_None: "next_id s \<le> i \<Longrightarrow> servers_wf s \<Longrightarrow> getMembership i u s = None"
  by (force simp: getMembership_def find_None_iff servers_wf_def member_key_def)

lemma member_bound: "getMembership i u s = Some m \<Longrightarrow> servers_wf s \<Longrightarrow> i < next_id s"
  using getMembership_None [of s i u] by (cases "i < next_id s") auto

lemma find_ban_iff: "find_ban i u s \<noteq> None \<longleftrightarrow> (i, u) \<in> bkey ` set (server_bans s)"
proof -
  have "find_ban i u s = List.find (\<lambda>b. bkey b = (i, u)) (server_bans s)" by (simp add: find_ban_def ban_key_alt)
  then show ?thesis by (auto simp: find_None_iff) (metis image_eqI)
qed

lemma codes_unique_append:
  assumes u: "codes_unique ds" "sv_inviteCode d = None"
  shows "codes_unique (ds @ [d])"
proof (unfold codes_unique_def, intro ballI impI)
  fix x y
  assume mem: "x \<in> set (ds @ [d])" "y \<in> set (ds @ [d])"
    and code: "sv_inviteCode x \<noteq> None" "sv_inviteCode x = sv_inviteCode y"
  then have "x \<in> set ds" "y \<in> set ds" using u(2) by auto
  then show "sv_id x = sv_id y" using u(1) code unfolding codes_unique_def by blast
qed

lemma found_server_follows:
  assumes "servers_wf s"
  shows "follows a s (snd (found_server name icon a False s))"
proof -
  let ?i = "next_id s" and ?sv = "new_server (next_id s) name icon a False"
  let ?t = "s\<lparr>next_id := Suc (next_id s), servers := servers s @ [?sv]\<rparr>"
  have new: "find_server ?i s = None" "getMembership ?i u s = None" for u
    using find_server_None [of s ?i] getMembership_None [of s ?i] assms by simp_all
  have nb: "\<forall>u. (?i, u) \<notin> banned (acl_of s)" using assms by (auto simp: servers_wf_def bkey_def)
  have "codes_unique (servers s @ [?sv])" by (rule codes_unique_append) (use assms in \<open>simp_all add: servers_wf_def new_server_def\<close>)
  moreover have "next_id s \<notin> sv_id ` set (servers s)" using assms by (auto simp: servers_wf_def)
  ultimately have wf: "servers_wf ?t"
    using assms unfolding servers_wf_def by (auto simp: new_server_def less_Suc_eq)
  have acl: "acl_of ?t = (acl_of s)\<lparr>owner := (owner (acl_of s))(?i \<mapsto> a)\<rparr>"
    using new(1) by (auto simp: acl_of_def fun_eq_iff getMembership_def find_server_def find_append new_server_def split: option.split)
  obtain x u where m: "add_member ?i a OWNER ?t = (x, u)" by fastforce
  have "x \<noteq> Inl e" for e using m new(2) [of a] by (auto simp: add_member_def fresh_id_def Let_def getMembership_def)
  then obtain mm where x: "x = Inr mm" by (cases x) auto
  note f = add_member_InrD [OF m [unfolded x] wf]
  have r: "snd (found_server name icon a False s) = u"
    using m x by (simp add: found_server_def withTransaction_def fresh_id_def Let_def await_def)
  have "acl_of u = (set_roles ?i [a \<mapsto> OWNER] (acl_of s))\<lparr>owner := (owner (acl_of s))(?i \<mapsto> a)\<rparr>"
    using f acl new(2) by (simp add: set_roles_def fun_eq_iff)
  moreover have "acl_step (defaultServerId s) a (acl_of s) ((set_roles ?i [a \<mapsto> OWNER] (acl_of s))\<lparr>owner := (owner (acl_of s))(?i \<mapsto> a)\<rparr>)"
    by (rule acl_step.founds) (use new nb in \<open>simp_all add: fun_eq_iff\<close>)
  ultimately show ?thesis using f r by (simp add: follows_def)
qed

text \<open>A role written in a membership, or a membership gone.\<close>

lemma set_role_follows:
  assumes "servers_wf s" "getMembership i a s = Some m" "ADMIN \<le> sm_role m" "getMembership i v s = Some k" "sm_role k < sm_role m" "r \<noteq> OWNER"
  shows "follows a s (set_member i v (\<lambda>x. x\<lparr>sm_role := r\<rparr>) s)"
  using acl_step.assigns [of "acl_of s" i a "sm_role m" v "sm_role k" r "defaultServerId s"] assms
  by (simp add: follows_def acl_set_member wf_set_member mkey_def)

lemma kick_follows:
  assumes "servers_wf s" "getMembership i a s = Some m" "ADMIN \<le> sm_role m" "getMembership i v s = Some k" "sm_role k < sm_role m"
  shows "follows a s (drop_member i v s)"
  using acl_step.kicks [of "acl_of s" i a "sm_role m" v "sm_role k" "defaultServerId s"] assms
  by (simp add: follows_def acl_drop_member wf_drop_member)

lemma leave_follows:
  assumes "servers_wf s" "getMembership i a s = Some m" "sm_role m \<noteq> OWNER"
  shows "follows a s (drop_member i a s)"
  using acl_step.leaves [of "acl_of s" i a "sm_role m" "defaultServerId s"] assms
  by (simp add: follows_def acl_drop_member wf_drop_member)

lemma wf_upsert_ban:
  assumes "servers_wf s" "i < next_id s"
  shows "servers_wf (upsert_ban i w a reason s)" "acl_of (upsert_ban i w a reason s) = (acl_of s)\<lparr>banned := insert (i, w) (banned (acl_of s))\<rparr>"
    "defaultServerId (upsert_ban i w a reason s) = defaultServerId s"
proof -
  let ?f = "\<lambda>b. b\<lparr>sb_bannedBy := a, sb_reason := (case reason of None \<Rightarrow> sb_reason b | x \<Rightarrow> x)\<rparr>"
  let ?bs = "updateOne (\<lambda>b. sb_serverId b = i \<and> sb_userId b = w) ?f (server_bans s)"
  have k: "map bkey ?bs = map bkey (server_bans s)" "map sb_serverId ?bs = map sb_serverId (server_bans s)"
    by (rule map_updateOne, simp add: bkey_def)+
  have "bkey ` set ?bs = bkey ` set (server_bans s)" "sb_serverId ` set ?bs = sb_serverId ` set (server_bans s)"
    using arg_cong [OF k(1), of set] arg_cong [OF k(2), of set] by simp_all
  then have kb: "bkey ` set ?bs = bkey ` set (server_bans s)" "\<forall>b \<in> set ?bs. sb_serverId b < next_id s"
    using assms(1) unfolding servers_wf_def by (simp, metis (mono_tags, lifting) imageE imageI)
  have "servers_wf (upsert_ban i w a reason s) \<and> acl_of (upsert_ban i w a reason s) = (acl_of s)\<lparr>banned := insert (i, w) (banned (acl_of s))\<rparr>
      \<and> defaultServerId (upsert_ban i w a reason s) = defaultServerId s"
  proof (cases "find_ban i w s = None")
    case True
    then have "(i, w) \<notin> bkey ` set (server_bans s)" using find_ban_iff by blast
    then show ?thesis using True assms
      by (fastforce simp: upsert_ban_def fresh_id_def Let_def servers_wf_def bkey_def acl_of_def getMembership_def find_server_def)
  next
    case False
    then have "(i, w) \<in> bkey ` set (server_bans s)" using find_ban_iff by blast
    then show ?thesis using False assms(1) k(1) kb
      by (simp add: upsert_ban_def servers_wf_def acl_of_def getMembership_def find_server_def insert_absorb)
  qed
  then show "servers_wf (upsert_ban i w a reason s)" "acl_of (upsert_ban i w a reason s) = (acl_of s)\<lparr>banned := insert (i, w) (banned (acl_of s))\<rparr>"
    "defaultServerId (upsert_ban i w a reason s) = defaultServerId s" by simp_all
qed

lemma ban_follows:
  assumes "servers_wf s" "getMembership i a s = Some m" "ADMIN \<le> sm_role m" "\<And>k. getMembership i w s = Some k \<Longrightarrow> sm_role k < sm_role m"
  shows "follows a s (upsert_ban i w a reason (drop_member i w s))"
proof -
  have "i < next_id (drop_member i w s)" using member_bound [OF assms(2,1)] by simp
  note u = wf_upsert_ban [OF wf_drop_member [OF assms(1)] this]
  show ?thesis
    using acl_step.bans [of "acl_of s" i a "sm_role m" w "defaultServerId s"] u [of w a reason] acl_drop_member [OF assms(1), of i w] assms(2-4)
    by (auto simp: follows_def set_roles_def)
qed

lemma ban_member_follows:
  "\<lbrakk>servers_wf s; getMembership i a s = Some m; ADMIN \<le> sm_role m; getMembership i w s = Some k; sm_role k < sm_role m\<rbrakk>
    \<Longrightarrow> follows a s (upsert_ban i w a reason (drop_member i w s))"
  by (rule ban_follows) simp_all

section \<open>Requests\<close>

datatype server_op =
    Create_server string "string option"
  | Update_server raw_id "string option" "string option"
  | Remove_server raw_id
  | Create_invite string raw_id
  | Revoke_invite raw_id
  | Join_server string
  | Leave_server raw_id
  | Set_role raw_id raw_id MemberRole
  | Kick raw_id raw_id
  | Transfer raw_id raw_id
  | Ban raw_id raw_id "string option"
  | Unban raw_id raw_id
  | Set_nickname raw_id raw_id "string option"
  | Announce raw_id string
  | Register

text \<open>A request of a user; \<open>Register\<close> is the platform adding a new user to the default server.\<close>

fun server_step :: "oid \<times> server_op \<Rightarrow> 'a servers_st_scheme \<Rightarrow> 'a servers_st_scheme" where
  "server_step (a, Create_server name icon) s = snd (create_server a name icon s)"
| "server_step (a, Update_server r name icon) s = snd (update_server r a name icon s)"
| "server_step (a, Remove_server r) s = snd (remove_server r a s)"
| "server_step (a, Create_invite code r) s = snd (createInvite code r a s)"
| "server_step (a, Revoke_invite r) s = snd (revokeInvite r a s)"
| "server_step (a, Join_server code) s = snd (join_server a code s)"
| "server_step (a, Leave_server r) s = snd (leave_server r a s)"
| "server_step (a, Set_role r v role) s = snd (updateMemberRole r a v role s)"
| "server_step (a, Kick r v) s = snd (kickMember r a v s)"
| "server_step (a, Transfer r v) s = snd (transferOwnership r a v s)"
| "server_step (a, Ban r v reason) s = snd (banMember r a v reason s)"
| "server_step (a, Unban r v) s = snd (unbanMember r a v s)"
| "server_step (a, Set_nickname r v n) s = snd (setNickname r a v n s)"
| "server_step (a, Announce r msg) s = snd (announce_server r a msg s)"
| "server_step (a, Register) s = snd (addUserToDefaultServer a s)"

lemmas role_follows = role_guard [where P = "follows a s" for a s, OF follows_refl]
  and member_follows = member_guard [where P = "follows a s" for a s, OF follows_refl]
  and target_follows = target_guard [where P = "follows a s" for a s, OF follows_refl]
  and server_follows = server_guard [where P = "follows a s" for a s, OF follows_refl]
  and cast_follows = cast_guard [where P = "follows a s" for a s, OF follows_refl]

lemma outranks_less: "outranks m k \<Longrightarrow> sm_role k \<noteq> OWNER \<Longrightarrow> sm_role k < sm_role m"
  by (auto simp: outranks_def less_MemberRole_def role_less(1)) (cases "sm_role k"; simp)

lemma follows_doc:
  assumes "servers_wf s" "\<And>d. sv_id (f d) = sv_id d" "\<And>d. sv_ownerId (f d) = sv_ownerId d"
    "\<And>d. sv_id d = i \<Longrightarrow> sv_inviteCode (f d) = None \<or> sv_inviteCode (f d) = sv_inviteCode d
       \<or> (\<forall>e \<in> set (servers s). sv_inviteCode e = sv_inviteCode (f d) \<longrightarrow> sv_id e = i)"
  shows "follows a s (set_server i f s)"
proof -
  have "servers_wf (set_server i f s)" by (rule wf_set_server) (use assms in auto)
  moreover have "acl_of (set_server i f s) = acl_of s" by (rule acl_set_server) (rule assms(2,3))+
  ultimately show ?thesis by (simp add: follows_def acl_step.idles)
qed

lemma updateOne_found: "(\<And>d. d \<in> set ds \<Longrightarrow> P d \<Longrightarrow> d = x) \<Longrightarrow> updateOne P (\<lambda>_. f x) ds = updateOne P f ds"
  by (induction ds) auto

lemma set_server_found:
  assumes "servers_wf s" "find_server (sv_id sv) s = Some sv"
  shows "set_server (sv_id sv) (\<lambda>_. f sv) s = set_server (sv_id sv) f s"
proof -
  have "d = sv" if "d \<in> set (servers s)" "sv_id d = sv_id sv" for d
    using find_key_unique [of sv_id "servers s" d] that assms by (simp add: servers_wf_def find_server_def)
  then show ?thesis by (simp add: set_server_def updateOne_found)
qed

lemma update_doc_follows:
  assumes "servers_wf s" "\<And>d. sv_id (f d) = sv_id d" "\<And>d. sv_ownerId (f d) = sv_ownerId d"
    "\<And>d. sv_inviteCode (f d) = None \<or> sv_inviteCode (f d) = sv_inviteCode d" "\<And>x t. follows a s t \<Longrightarrow> follows a s (snd (k x t))"
  shows "follows a s (snd (await (update_server_doc r f) k s))"
proof (rule await_snd)
  show "follows a s (snd (update_server_doc r f s))"
    unfolding update_server_doc_def
  proof (rule server_follows [OF assms(1)])
    fix sv
    assume "find_server (sv_id sv) s = Some sv"
    moreover have "follows a s (set_server (sv_id sv) f s)" by (rule follows_doc [OF assms(1-3)]) (use assms(4) in blast)
    ultimately show "follows a s (snd (return (f sv) (set_server (sv_id sv) (\<lambda>_. f sv) s)))"
      by (simp add: set_server_found [OF assms(1)])
  qed
  then show "\<And>x t. update_server_doc r f s = (Inr x, t) \<Longrightarrow> follows a s (snd (k x t))" by (auto intro: assms(5))
qed

lemma update_server_follows: "servers_wf s \<Longrightarrow> follows a s (snd (update_server r a name icon s))"
  unfolding update_server_def by (rule role_follows, assumption, rule update_doc_follows) simp_all

lemma revokeInvite_follows: "servers_wf s \<Longrightarrow> follows a s (snd (revokeInvite r a s))"
  unfolding revokeInvite_def by (rule role_follows, assumption, rule update_doc_follows) simp_all

lemma createInvite_follows:
  assumes "servers_wf s"
  shows "follows a s (snd (createInvite code r a s))"
  unfolding createInvite_def
proof (rule role_follows [OF assms], rule server_follows [OF assms])
  fix sv
  show "follows a s (snd (if \<exists>d \<in> set (servers s). sv_inviteCode d = Some code \<and> sv_id d \<noteq> sv_id sv
      then throw (Conflict ''E11000 duplicate key'') s
      else return code (set_server (sv_id sv) (\<lambda>d. d\<lparr>sv_inviteCode := Some code\<rparr>) s)))"
    using follows_refl [OF assms] follows_doc [OF assms, of "\<lambda>d. d\<lparr>sv_inviteCode := Some code\<rparr>" "sv_id sv" a] by auto
qed

lemma acl_delete_server:
  assumes "servers_wf s"
  shows "servers_wf (delete_server i s)"
    "acl_of (delete_server i s) = (set_roles i Map.empty (acl_of s))\<lparr>owner := (owner (acl_of s))(i := None), banned := {p \<in> banned (acl_of s). fst p \<noteq> i}\<rparr>"
proof -
  have d: "deleteOne (\<lambda>d. sv_id d = i) (servers s) = filter (\<lambda>d. sv_id d \<noteq> i) (servers s)"
    by (rule deleteOne_filter) (use assms in \<open>simp add: servers_wf_def\<close>)
  have "codes_unique (filter (\<lambda>d. sv_id d \<noteq> i) (servers s))"
    by (rule codes_unique_subset [where ds = "servers s"]) (use assms in \<open>auto simp: servers_wf_def\<close>)
  then show "servers_wf (delete_server i s)"
    using assms unfolding servers_wf_def by (simp add: delete_server_def deleteMany_def distinct_map_filter d)
  have fm: "List.find (member_key j u) (filter (\<lambda>m. sm_serverId m \<noteq> i) ms) = (if j = i then None else List.find (member_key j u) ms)" for j u ms
    unfolding member_key_abs by (induction ms) auto
  have fs: "List.find (\<lambda>d. sv_id d = j) (filter (\<lambda>d. sv_id d \<noteq> i) ds) = (if j = i then None else List.find (\<lambda>d. sv_id d = j) ds)" for j ds
    by (induction ds) auto
  have "bkey ` set (filter (\<lambda>b. sb_serverId b \<noteq> i) bs) = {p \<in> bkey ` set bs. fst p \<noteq> i}" for bs
    by (induction bs) (auto simp: bkey_def)
  then show "acl_of (delete_server i s) = (set_roles i Map.empty (acl_of s))\<lparr>owner := (owner (acl_of s))(i := None), banned := {p \<in> banned (acl_of s). fst p \<noteq> i}\<rparr>"
    by (auto simp: acl_of_def getMembership_def find_server_def delete_server_def deleteMany_def d fm fs set_roles_def fun_eq_iff)
qed

lemma remove_server_follows:
  assumes "servers_wf s"
  shows "follows a s (snd (remove_server r a s))"
  unfolding remove_server_def
proof (rule role_follows [OF assms])
  fix m
  assume m: "getMembership (sm_serverId m) a s = Some m" "OWNER \<le> sm_role m"
  have "sm_role m = OWNER" using m(2) by (cases "sm_role m") (simp_all add: less_eq_MemberRole_def)
  then have "roles (acl_of s) (sm_serverId m) a = Some OWNER" using m(1) by simp
  then have "follows a s (delete_server (sm_serverId m) s)"
    using acl_step.destroys [of "acl_of s" "sm_serverId m" a "defaultServerId s"] acl_delete_server [OF assms]
    by (simp add: follows_def delete_server_def)
  then show "follows a s (snd (if isDefaultServer r s then throw (Forbidden ''The default server cannot be deleted'') s
      else return () (emit_server (Server_room r) (Server_deleted r) (delete_server (sm_serverId m) s))))"
    using follows_refl [OF assms] by simp
qed

lemma join_server_follows:
  assumes "servers_wf s"
  shows "follows a s (snd (join_server a code s))"
proof (cases "List.find (\<lambda>d. sv_inviteCode d = Some code) (servers s)")
  case (Some sv)
  then have mem: "sv \<in> set (servers s)" by (auto dest: find_Some_iff_mem)
  then have fs: "find_server (sv_id sv) s \<noteq> None" "sv_id sv < next_id s"
    using find_key_unique [of sv_id "servers s" sv] assms by (auto simp: find_server_def servers_wf_def)
  obtain x t where m: "add_member (sv_id sv) a MEMBER s = (x, t)" by fastforce
  have "follows a s t" if "find_ban (sv_id sv) a s = None" "x = Inr y" for y
  proof -
    note f = add_member_InrD [OF m [unfolded that(2)] assms fs(2)]
    have "(sv_id sv, a) \<notin> banned (acl_of s)" using find_ban_iff [of "sv_id sv" a s] that(1) by simp
    then show ?thesis using f fs(1) acl_step.joins [of "acl_of s" "sv_id sv" a "defaultServerId s"] by (simp add: follows_def)
  qed
  then show ?thesis using Some m follows_refl [OF assms] add_member_InlD [of "sv_id sv" a MEMBER s _ t]
    by (cases x) (auto simp: join_server_def await_def)
qed (simp add: join_server_def follows_refl assms)

lemma register_follows:
  assumes "servers_wf s"
  shows "follows a s (snd (addUserToDefaultServer a s))"
proof (cases "defaultServerId s")
  case (Some d)
  then have "d < next_id s" using assms by (simp add: servers_wf_def)
  obtain x t where m: "add_member d a MEMBER s = (x, t)" by fastforce
  have "follows a s t" if "x = Inr y" for y
    using add_member_InrD [OF m [unfolded that] assms \<open>d < next_id s\<close>] acl_step.enrols [of "defaultServerId s" d "acl_of s" a] Some
    by (simp add: follows_def)
  then show ?thesis using Some m follows_refl [OF assms] add_member_InlD [of d a MEMBER s _ t]
    by (cases x) (auto simp: addUserToDefaultServer_def await_def)
qed (simp add: addUserToDefaultServer_def follows_refl assms)

lemma leave_server_follows: "servers_wf s \<Longrightarrow> follows a s (snd (leave_server r a s))"
  unfolding leave_server_def by (rule member_follows) (auto intro: follows_refl leave_follows)

lemma updateMemberRole_follows:
  assumes "servers_wf s"
  shows "follows a s (snd (updateMemberRole r a v role s))"
  unfolding updateMemberRole_def
proof (rule role_follows [OF assms], goal_cases)
  case (1 m)
  show ?case
  proof (cases "role = OWNER")
    case False
    then show ?thesis by simp (rule target_follows [OF assms], use 1 in \<open>auto intro: follows_refl assms set_role_follows outranks_less\<close>)
  qed (simp add: follows_refl assms)
qed

lemma kickMember_follows:
  assumes "servers_wf s"
  shows "follows a s (snd (kickMember r a v s))"
  unfolding kickMember_def
proof (rule role_follows [OF assms], goal_cases)
  case (1 m)
  show ?case
  proof (cases "v = Hex a")
    case False
    then show ?thesis by simp (rule target_follows [OF assms], use 1 in \<open>auto intro: follows_refl assms kick_follows outranks_less\<close>)
  qed (simp add: follows_refl assms)
qed

lemma banMember_follows:
  assumes "servers_wf s"
  shows "follows a s (snd (banMember r a v reason s))"
  unfolding banMember_def
proof (rule role_follows [OF assms], goal_cases)
  case (1 m)
  show ?case
  proof (cases "v = Hex a \<or> isDefaultServer r s")
    case False
    then show ?thesis
      by simp (rule cast_follows [OF assms], use 1 in \<open>auto simp: Let_def intro: follows_refl assms ban_follows [OF assms] ban_member_follows [OF assms] outranks_less split: option.split\<close>)
  qed (auto simp: follows_refl assms)
qed

lemma unbanMember_follows:
  assumes "servers_wf s"
  shows "follows a s (snd (unbanMember r a v s))"
  unfolding unbanMember_def
proof (rule role_follows [OF assms], rule cast_follows [OF assms], goal_cases)
  case (1 m w)
  let ?i = "sm_serverId m"
  let ?t = "s\<lparr>server_bans := deleteOne (\<lambda>b. sb_serverId b = ?i \<and> sb_userId b = w) (server_bans s)\<rparr>"
  have b: "deleteOne (\<lambda>b. sb_serverId b = ?i \<and> sb_userId b = w) (server_bans s) = filter (\<lambda>b. bkey b \<noteq> (?i, w)) (server_bans s)"
    unfolding ban_key_alt by (rule deleteOne_filter) (use assms in \<open>simp add: servers_wf_def\<close>)
  have "servers_wf ?t" using assms unfolding servers_wf_def by (simp add: b distinct_map_filter)
  moreover have "acl_of ?t = (acl_of s)\<lparr>banned := banned (acl_of s) - {(?i, w)}\<rparr>"
    by (auto simp: acl_of_def getMembership_def find_server_def b)
  ultimately have "follows a s ?t"
    using acl_step.unbans [of "acl_of s" ?i a "sm_role m" "defaultServerId s" w] 1 by (simp add: follows_def)
  then show ?case by (simp add: follows_refl assms)
qed

lemma setNickname_follows:
  assumes "servers_wf s"
  shows "follows a s (snd (setNickname r a v n s))"
proof -
  have nick: "follows a s (set_member i u (\<lambda>x. x\<lparr>sm_nickname := k\<rparr>) s)" for i u k
    using assms by (simp add: follows_def acl_set_member wf_set_member mkey_def acl_step.idles)
  show ?thesis unfolding setNickname_def Let_def
  proof (rule member_follows [OF assms], goal_cases)
    case (1 m)
    show ?case
    proof (cases "v = Hex a")
      case False
      then show ?thesis by simp (intro conjI impI follows_refl assms target_follows; use nick in \<open>simp add: follows_refl assms\<close>)
    qed (use nick in \<open>simp add: await_def\<close>)
  qed
qed

lemma hand_over_follows:
  assumes "servers_ok s" "getMembership i a s = Some m" "sm_role m = OWNER" "getMembership i w s = Some k"
  shows "follows a s (hand_over i a w s)"
proof -
  have wf: "servers_wf s" and ok: "acl_ok (defaultServerId s) (acl_of s)" using assms(1) by (simp_all add: servers_ok_def)
  let ?t = "set_member i w (\<lambda>x. x\<lparr>sm_role := OWNER\<rparr>) (set_member i a (\<lambda>x. x\<lparr>sm_role := ADMIN\<rparr>) s)"
  have t: "servers_wf ?t" using wf by (simp add: wf_set_member mkey_def)
  have h: "hand_over i a w s = set_server i (\<lambda>d. d\<lparr>sv_ownerId := w\<rparr>) ?t" by (simp add: hand_over_def Let_def)
  have "roles (acl_of s) i a = Some OWNER" using assms(2,3) by simp
  then have own: "find_server i s \<noteq> None" using ok by (auto simp: acl_ok_def)
  have "servers_wf (hand_over i a w s)" unfolding h by (rule wf_set_server [OF t]) simp_all
  moreover have "find_server j (set_server i (\<lambda>d. d\<lparr>sv_ownerId := w\<rparr>) ?t) = (if j = i then map_option (\<lambda>d. d\<lparr>sv_ownerId := w\<rparr>) (find_server j s) else find_server j s)" for j
    by (subst find_server_set) (simp_all add: find_server_def)
  then have "acl_of (hand_over i a w s) = (acl_of ?t)\<lparr>owner := (owner (acl_of s))(i \<mapsto> w)\<rparr>"
    using own by (auto simp: h acl_of_def fun_eq_iff getMembership_def)
  then have "acl_of (hand_over i a w s) = (set_roles i ((roles (acl_of s) i)(a \<mapsto> ADMIN, w \<mapsto> OWNER)) (acl_of s))\<lparr>owner := (owner (acl_of s))(i \<mapsto> w)\<rparr>"
    using assms(2,4) by (auto simp: acl_set_member set_roles_def fun_eq_iff)
  ultimately show ?thesis
    using acl_step.hands_over [of "acl_of s" i a w "sm_role k" "defaultServerId s"] assms(2-4) by (simp add: follows_def h)
qed

lemma transferOwnership_follows:
  assumes "servers_ok s"
  shows "follows a s (snd (transferOwnership r a v s))"
proof -
  have wf: "servers_wf s" using assms by (simp add: servers_ok_def)
  show ?thesis unfolding transferOwnership_def
  proof (rule role_follows [OF wf], goal_cases)
    case (1 m)
    then have o: "sm_role m = OWNER" by (cases "sm_role m") (simp_all add: less_eq_MemberRole_def)
    show ?case
    proof (cases "v = Hex a")
      case False
      then show ?thesis
        by simp (rule target_follows [OF wf], use hand_over_follows [OF assms 1(1) o] in \<open>simp add: withTransaction_def\<close>)
    qed (simp add: follows_refl wf)
  qed
qed

lemma server_step_follows:
  assumes "servers_ok s"
  shows "follows a s (server_step (a, op) s)"
proof -
  have wf: "servers_wf s" using assms by (simp add: servers_ok_def)
  have "follows a s (snd (announce_server r a msg s))" for r msg
    unfolding announce_server_def by (rule role_follows [OF wf]) (simp add: follows_refl wf)
  then show ?thesis
    using assms by (cases op)
      (simp_all add: wf create_server_def found_server_follows update_server_follows remove_server_follows createInvite_follows
        revokeInvite_follows join_server_follows leave_server_follows updateMemberRole_follows kickMember_follows
        transferOwnership_follows banMember_follows unbanMember_follows setNickname_follows register_follows)
qed

section \<open>Properties\<close>

lemma server_step_ok: "servers_ok s \<Longrightarrow> servers_ok (server_step p s)"
  using server_step_follows [of s "fst p" "snd p"] acl_step_ok [of "defaultServerId s" "fst p" "acl_of s"]
  by (simp add: servers_ok_def follows_def)

lemma servers_run_ok: "servers_ok s \<Longrightarrow> servers_ok (fold server_step reqs s)"
  by (induction reqs arbitrary: s) (simp_all add: server_step_ok)

text \<open>
  C4: The servers service refines an access matrix: whatever a user requests, the roles, owners and bans change by
  one guarded step of the matrix, or not at all, and the stored documents stay well formed.
\<close>

theorem servers_refine_access_matrix:
  assumes "servers_ok s"
  shows "acl_step (defaultServerId s) a (acl_of s) (acl_of (server_step (a, op) s)) \<and> servers_ok (server_step (a, op) s)"
  using server_step_follows [OF assms] server_step_ok [OF assms] by (simp add: follows_def)

lemma server_step_default: "servers_ok s \<Longrightarrow> defaultServerId (server_step p s) = defaultServerId s"
  using server_step_follows [of s "fst p" "snd p"] by (simp add: follows_def)

lemma servers_run_default: "servers_ok s \<Longrightarrow> defaultServerId (fold server_step reqs s) = defaultServerId s"
  by (induction reqs arbitrary: s) (simp_all add: server_step_ok server_step_default)

text \<open>
  C5: Whatever users request, in any order, exactly the user a server names as its owner has the role of owner
  there, and a user banned from a server is not a member of it; the default server is the exception, in which the
  platform enrols even those whom its admins have banned.
\<close>

theorem servers_keep_owner_and_bans:
  assumes "servers_ok s"
  shows "(map_option sm_role (getMembership i u (fold server_step reqs s)) = Some OWNER
       \<longleftrightarrow> map_option sv_ownerId (find_server i (fold server_step reqs s)) = Some u)
     \<and> (find_ban i u (fold server_step reqs s) = None \<or> defaultServerId s = Some i \<or> getMembership i u (fold server_step reqs s) = None)"
proof -
  let ?t = "fold server_step reqs s"
  have a: "acl_ok (defaultServerId ?t) (acl_of ?t)" using servers_run_ok [OF assms, of reqs] by (simp add: servers_ok_def)
  have "roles (acl_of ?t) i u = Some OWNER \<longleftrightarrow> owner (acl_of ?t) i = Some u" using a unfolding acl_ok_def by blast
  moreover have "(i, u) \<in> banned (acl_of ?t) \<Longrightarrow> defaultServerId ?t \<noteq> Some i \<Longrightarrow> roles (acl_of ?t) i u = None"
    using a unfolding acl_ok_def by blast
  ultimately show ?thesis using find_ban_iff [of i u ?t] servers_run_default [OF assms, of reqs] unfolding acl_simps
    by (metis map_option_is_None)
qed

text \<open>
  C15: A request changes the role of somebody else, or takes it away, only when the caller is an admin of that
  server who ranks above that member. It never leaves the caller with more than the role there was, above that of
  a plain member, except as the owner of a server that this very request founds.
\<close>

theorem server_roles_follow_rank:
  assumes "servers_ok s" "map_option sm_role (getMembership i v (server_step (a, op) s)) \<noteq> map_option sm_role (getMembership i v s)"
  shows "if v \<noteq> a
    then \<exists>m k. getMembership i a s = Some m \<and> ADMIN \<le> sm_role m \<and> getMembership i v s = Some k \<and> sm_role k < sm_role m
    else \<forall>m. getMembership i a (server_step (a, op) s) = Some m \<longrightarrow> sm_role m = MEMBER
           \<or> (\<exists>k. getMembership i a s = Some k \<and> sm_role m \<le> sm_role k)
           \<or> find_server i s = None \<and> map_option sv_ownerId (find_server i (server_step (a, op) s)) = Some a"
proof -
  have st: "acl_step (defaultServerId s) a (acl_of s) (acl_of (server_step (a, op) s))" and ok: "acl_ok (defaultServerId s) (acl_of s)"
    using server_step_follows [OF assms(1), of a op] assms(1) by (simp_all add: follows_def servers_ok_def)
  have "\<exists>m k. getMembership i a s = Some m \<and> ADMIN \<le> sm_role m \<and> getMembership i v s = Some k \<and> sm_role k < sm_role m" if "v \<noteq> a"
    using acl_step_authority [OF st ok, of i v] assms(2) that by auto
  moreover have "sm_role m = MEMBER \<or> (\<exists>k. getMembership i a s = Some k \<and> sm_role m \<le> sm_role k)
      \<or> find_server i s = None \<and> map_option sv_ownerId (find_server i (server_step (a, op) s)) = Some a"
    if "getMembership i a (server_step (a, op) s) = Some m" for m
    using acl_step_own [OF st, of i "sm_role m"] that by auto
  ultimately show ?thesis by simp
qed

lemma requireRole_pass:
  "read_oid r = Some i \<Longrightarrow> getMembership i a s = Some m \<Longrightarrow> k \<le> sm_role m \<Longrightarrow> requireRole r a k s = (Inr m, s)"
  by (simp add: requireRole_def requireMembership_def await_def cast_oid_def less_eq_MemberRole_def)

text \<open>
  The owner of the default server is refused when deleting it by the identifier the service prints, and deletes
  it with all its members by the same identifier in another spelling.
\<close>

theorem default_server_deleted_respelled:
  assumes "servers_wf s" "defaultServerId s = Some i" "getMembership i a s = Some m" "sm_role m = OWNER"
  shows "\<exists>t. remove_server (Hex i) a s = (Inl (Forbidden ''The default server cannot be deleted''), s)
     \<and> remove_server (Alt i spelling) a s = (Inr (), t) \<and> find_server i t = None \<and> getMembership i u t = None"
proof -
  have i: "sm_serverId m = i" using getMembership_SomeD [OF assms(3)] by simp
  have g: "requireRole r a OWNER s = (Inr m, s)" if "read_oid r = Some i" for r
    using requireRole_pass [OF that assms(3)] assms(4) by simp
  let ?t = "emit_server (Server_room (Alt i spelling)) (Server_deleted (Alt i spelling)) (delete_server i s)"
  have "roles (acl_of ?t) i u = None" "owner (acl_of ?t) i = None"
    using acl_delete_server(2) [OF assms(1), of i] by (simp_all add: set_roles_def del: acl_simps)
  then have "find_server i ?t = None" "getMembership i u ?t = None" unfolding acl_simps by (simp_all only: map_option_is_None)
  moreover have "remove_server (Hex i) a s = (Inl (Forbidden ''The default server cannot be deleted''), s)"
    using g [of "Hex i"] assms(2) by (simp add: remove_server_def await_def isDefaultServer_def)
  moreover have "remove_server (Alt i spelling) a s = (Inr (), ?t)"
    using g [of "Alt i spelling"] assms(2) i by (simp add: remove_server_def await_def isDefaultServer_def)
  ultimately show ?thesis by blast
qed

text \<open>
  An admin makes a plain member an admin, without the owner.
\<close>

theorem admin_appoints_admin:
  assumes "getMembership i a s = Some m" "sm_role m = ADMIN" "getMembership i w s = Some k" "sm_role k = MEMBER"
  shows "fst (updateMemberRole (Hex i) a (Hex w) ADMIN s) = Inr (k\<lparr>sm_role := ADMIN\<rparr>)"
proof -
  have i: "sm_serverId m = i" using getMembership_SomeD [OF assms(1)] by simp
  have g: "requireRole (Hex i) a ADMIN s = (Inr m, s)" using requireRole_pass [OF _ assms(1)] assms(2) by simp
  show ?thesis using assms(2-4) i
    by (simp add: updateMemberRole_def await_def g target_member_def cast_oid_def outranks_def)
qed

section \<open>Examples\<close>

definition demo_member :: "oid \<Rightarrow> oid \<Rightarrow> MemberRole \<Rightarrow> ServerMember" where
  "demo_member i u r = \<lparr>sm_id = 0, sm_serverId = i, sm_userId = u, sm_role = r, sm_nickname = None, sm_joinedAt = 0\<rparr>"

definition members0 :: "ServerMember list" where
  "members0 = [demo_member 20 1 OWNER, demo_member 20 2 MEMBER, demo_member 21 1 OWNER, demo_member 21 2 ADMIN, demo_member 21 3 MEMBER]"

definition servers0 :: servers_st where
  "servers0 = level_st.extend (wallet_st.extend (wallet0\<lparr>next_id := 30, server_members := members0\<rparr>) \<lparr>level_log = []\<rparr>)
     \<lparr>servers = [new_server 20 ''club'' None 1 True, (new_server 21 ''den'' None 1 False)\<lparr>sv_inviteCode := Some ''abc''\<rparr>],
      server_bans = [], defaultServerId = Some 20, server_log = []\<rparr>"

lemma servers0_frame [simp]:
  "servers servers0 = [new_server 20 ''club'' None 1 True, (new_server 21 ''den'' None 1 False)\<lparr>sv_inviteCode := Some ''abc''\<rparr>]"
  "server_members servers0 = members0" "server_bans servers0 = []" "defaultServerId servers0 = Some 20" "next_id servers0 = 30"
  by (simp_all add: servers0_def level_st.extend_def wallet_st.extend_def wallet0_defs)

lemma servers0_members:
  "getMembership 20 1 servers0 = Some (demo_member 20 1 OWNER)" "getMembership 21 1 servers0 = Some (demo_member 21 1 OWNER)"
  "getMembership 21 2 servers0 = Some (demo_member 21 2 ADMIN)" "getMembership 21 3 servers0 = Some (demo_member 21 3 MEMBER)"
  by (simp_all add: getMembership_def members0_def demo_member_def member_key_def)

lemma servers0_ok: "servers_ok servers0"
proof -
  have "servers_wf servers0"
    by (simp add: servers_wf_def codes_unique_def members0_def demo_member_def mkey_def new_server_def)
  moreover have "acl_ok (Some 20) (acl_of servers0)"
    by (auto simp: acl_ok_def find_server_def getMembership_def members0_def demo_member_def member_key_def new_server_def split: if_splits)
  ultimately show ?thesis by (simp add: servers_ok_def)
qed

theorem servers_refine_access_matrix_witness:
  "servers_ok (server_step (2, Kick (Hex 21) (Hex 3)) servers0)"
  using servers_refine_access_matrix [OF servers0_ok] by blast

theorem servers_keep_owner_and_bans_witness:
  "map_option sm_role (getMembership 21 1 (fold server_step [(2, Ban (Hex 21) (Hex 3) None), (3, Join_server ''abc''), (2, Kick (Hex 21) (Hex 1))] servers0)) = Some OWNER
   \<longleftrightarrow> map_option sv_ownerId (find_server 21 (fold server_step [(2, Ban (Hex 21) (Hex 3) None), (3, Join_server ''abc''), (2, Kick (Hex 21) (Hex 1))] servers0)) = Some 1"
  using servers_keep_owner_and_bans [OF servers0_ok] by blast

lemma kicked: "getMembership 21 3 (server_step (2, Kick (Hex 21) (Hex 3)) servers0) = None"
proof -
  have "requireRole (Hex 21) 2 ADMIN servers0 = (Inr (demo_member 21 2 ADMIN), servers0)"
    by (rule requireRole_pass [OF _ servers0_members(3)]) (simp_all add: demo_member_def)
  then have "server_step (2, Kick (Hex 21) (Hex 3)) servers0 = emit_server (Server_room (Hex 21)) (Member_left (Hex 21) (Hex 3)) (drop_member 21 3 servers0)"
    by (simp add: kickMember_def await_def target_member_def cast_oid_def outranks_def servers0_members) (simp add: demo_member_def outranks_def servers0_members)
  then show ?thesis using getMembership_drop [of servers0 21 3 21 3] servers0_ok
    by (simp add: servers_ok_def servers_wf_def getMembership_def)
qed

theorem server_roles_follow_rank_witness:
  "\<exists>m k. getMembership 21 2 servers0 = Some m \<and> ADMIN \<le> sm_role m \<and> getMembership 21 3 servers0 = Some k \<and> sm_role k < sm_role m"
  using server_roles_follow_rank [OF servers0_ok, of 21 3 2 "Kick (Hex 21) (Hex 3)"] kicked servers0_members(4) by simp

theorem default_server_deleted_respelled_witness:
  "\<exists>t. remove_server (Alt 20 ''000000000000000000000014'') 1 servers0 = (Inr (), t) \<and> find_server 20 t = None"
proof -
  have wf: "servers_wf servers0" using servers0_ok by (simp add: servers_ok_def)
  have r: "sm_role (demo_member 20 1 OWNER) = OWNER" by (simp add: demo_member_def)
  show ?thesis using default_server_deleted_respelled [OF wf servers0_frame(4) servers0_members(1) r] by blast
qed

theorem admin_appoints_admin_witness:
  "fst (updateMemberRole (Hex 21) 2 (Hex 3) ADMIN servers0) = Inr (demo_member 21 3 ADMIN)"
  using admin_appoints_admin [OF servers0_members(3) _ servers0_members(4)] by (simp add: demo_member_def)

end
