(* ===== verification/ChatLaws.thy ===== *)
theory ChatLaws
  imports Messages ServersLaws
begin

text \<open>
  What channels and messages promise: the collections stay sound, only those entitled change them, the pages of a
  channel show every message once, and writing earns experience once a minute.
\<close>

section \<open>Soundness of the collections\<close>

text \<open>One group for an emoji, with reactors, none twice; a limit only on a voice channel.\<close>

definition reactions_ok :: "MessageReaction list \<Rightarrow> bool" where
  "reactions_ok rs \<longleftrightarrow> distinct (map re_emoji rs) \<and> (\<forall>g \<in> set rs. re_userIds g \<noteq> [] \<and> distinct (re_userIds g))"

definition channel_ok :: "Channel \<Rightarrow> bool" where
  "channel_ok c \<longleftrightarrow> cn_userLimit c = None \<or> cn_type c = VOICE"

definition chat_ok :: "'a chat_st_scheme \<Rightarrow> bool" where
  "chat_ok s \<longleftrightarrow> distinct (map cn_id (channels s)) \<and> (\<forall>c \<in> set (channels s). cn_id c < next_id s \<and> channel_ok c)
     \<and> sorted_wrt (<) (map ms_id (messages s))
     \<and> (\<forall>m \<in> set (messages s). ms_id m < next_id s \<and> ms_channelId m \<in> cn_id ` set (channels s) \<and> reactions_ok (ms_reactions m))"

lemma chat_okI:
  assumes "chat_ok s" "channels t = channels s" "messages t = messages s" "next_id s \<le> next_id t"
  shows "chat_ok t"
  using assms by (force simp: chat_ok_def)

lemma emit_chat_frame [simp]:
  "channels (emit_chat r e s) = channels s" "messages (emit_chat r e s) = messages s" "next_id (emit_chat r e s) = next_id s"
  "voice (emit_chat r e s) = voice s" "lastXpAt (emit_chat r e s) = lastXpAt s" "users (emit_chat r e s) = users s"
  "clock (emit_chat r e s) = clock s" "server_members (emit_chat r e s) = server_members s"
  by (simp_all add: emit_chat_def)

lemma chat_ok_emit [simp]: "chat_ok (emit_chat r e s) = chat_ok s"
  by (simp add: chat_ok_def)

lemma addXp_frame [simp]:
  "channels (snd (addXp u a r s)) = channels s" "messages (snd (addXp u a r s)) = messages s" "lastXpAt (snd (addXp u a r s)) = lastXpAt s"
  "clock (snd (addXp u a r s)) = clock s" "server_members (snd (addXp u a r s)) = server_members s"
proof -
  have e: "channels (foldl (\<lambda>s sid. emit_level (f sid) (g sid) s) s xs) = channels s"
      "messages (foldl (\<lambda>s sid. emit_level (f sid) (g sid) s) s xs) = messages s"
      "lastXpAt (foldl (\<lambda>s sid. emit_level (f sid) (g sid) s) s xs) = lastXpAt s"
      "clock (foldl (\<lambda>s sid. emit_level (f sid) (g sid) s) s xs) = clock s"
      "server_members (foldl (\<lambda>s sid. emit_level (f sid) (g sid) s) s xs) = server_members s" for f g xs and s :: "'a chat_st_scheme"
    by (induction xs arbitrary: s) (simp_all add: emit_level_def)
  have n: "channels (best_effort (notify x p) s) = channels s" "messages (best_effort (notify x p) s) = messages s"
      "lastXpAt (best_effort (notify x p) s) = lastXpAt s" "clock (best_effort (notify x p) s) = clock s"
      "server_members (best_effort (notify x p) s) = server_members s" for x p and s :: "'a chat_st_scheme"
    by (auto simp: best_effort_def notify_def fresh_id_def Let_def split: option.split)
  have l: "channels (emit_level x y s) = channels s" "messages (emit_level x y s) = messages s" "lastXpAt (emit_level x y s) = lastXpAt s"
      "clock (emit_level x y s) = clock s" "channels (set_user v h s) = channels s" "messages (set_user v h s) = messages s"
      "lastXpAt (set_user v h s) = lastXpAt s" "clock (set_user v h s) = clock s" "server_members (set_user v h s) = server_members s"
    for x y v h and s :: "'a chat_st_scheme"
    by (simp_all add: emit_level_def set_user_def)
  show "channels (snd (addXp u a r s)) = channels s" "messages (snd (addXp u a r s)) = messages s" "lastXpAt (snd (addXp u a r s)) = lastXpAt s"
    "clock (snd (addXp u a r s)) = clock s" "server_members (snd (addXp u a r s)) = server_members s"
    by (simp_all add: addXp_def Let_def e n l split: option.split)
qed

lemma addXp_next: "next_id s \<le> next_id (snd (addXp u a r s))"
  using addXp_users(3) [of u a r s "fst (addXp u a r s)" "snd (addXp u a r s)"] by (cases "0 < a") (simp_all add: addXp_def)

lemma award_frame [simp]:
  "channels (awardMessageXp u s) = channels s" "messages (awardMessageXp u s) = messages s" "clock (awardMessageXp u s) = clock s"
  "server_members (awardMessageXp u s) = server_members s"
  by (simp_all add: awardMessageXp_def Let_def)

lemma award_next: "next_id s \<le> next_id (awardMessageXp u s)"
  using addXp_next [of "s\<lparr>lastXpAt := (lastXpAt s)(u \<mapsto> clock s)\<rparr>" u XP_PER_MESSAGE "Some ''message''"]
  by (simp add: awardMessageXp_def Let_def)

section \<open>The guards\<close>

lemma find_channel_SomeD: "find_channel i s = Some c \<Longrightarrow> c \<in> set (channels s) \<and> cn_id c = i"
  by (auto simp: find_channel_def dest: find_Some_iff_mem)

lemma find_message_SomeD: "find_message i s = Some m \<Longrightarrow> m \<in> set (messages s) \<and> ms_id m = i"
  by (auto simp: find_message_def dest: find_Some_iff_mem)

lemma getById_InrD: "Channels.getByIdOrThrow r s = (Inr c, t) \<Longrightarrow> t = s \<and> read_oid r = Some (cn_id c) \<and> find_channel (cn_id c) s = Some c"
  by (auto simp: getByIdOrThrow_def await_def channel_oid_def dest: find_channel_SomeD split: option.splits)

lemma getById_state: "snd (getByIdOrThrow r s) = s"
  by (simp add: getByIdOrThrow_def await_def channel_oid_def split: option.split)

lemma assertAccess_InrD:
  assumes "assertAccess r u s = (Inr c, t)"
  shows "t = s \<and> read_oid r = Some (cn_id c) \<and> find_channel (cn_id c) s = Some c \<and> getMembership (cn_serverId c) u s \<noteq> None"
proof -
  from assms obtain m where 1: "getByIdOrThrow r s = (Inr c, s)" "requireMembership (Hex (cn_serverId c)) u s = (Inr m, t)"
    unfolding assertAccess_def using getById_InrD [of r s] by (elim await_InrD) (fastforce simp: return_def)
  show ?thesis using getById_InrD [OF 1(1)] requireMembership_InrD [OF 1(2)] by auto
qed

lemma assertAccess_state: "snd (assertAccess r u s) = s"
  unfolding assertAccess_def
  by (rule await_guard [where P = "\<lambda>t. t = s"]) (simp_all add: getById_state await_last requireMembership_state)

lemma getOrThrow_InrD: "getOrThrow r s = (Inr m, t) \<Longrightarrow> t = s \<and> read_oid r = Some (ms_id m) \<and> find_message (ms_id m) s = Some m"
  by (auto simp: getOrThrow_def bind_eq_Some_conv dest: find_message_SomeD split: option.splits)

lemma message_state: "snd (getOrThrow r s) = s"
  by (simp add: getOrThrow_def split: option.split)

lemma message_in_InrD:
  assumes "message_in r k u s = (Inr m, t)"
  shows "t = s \<and> r = Hex (ms_channelId m) \<and> read_oid k = Some (ms_id m) \<and> find_message (ms_id m) s = Some m
     \<and> (\<exists>c. assertAccess r u s = (Inr c, s))"
proof -
  from assms obtain c where 1: "assertAccess r u s = (Inr c, s)" "getOrThrow k s = (Inr m, s)" "t = s" "r = Hex (ms_channelId m)"
    unfolding message_in_def using assertAccess_InrD [of r u s] getOrThrow_InrD [of k s]
    by (elim await_InrD) (fastforce simp: throw_def return_def split: if_splits)
  show ?thesis using 1 getOrThrow_InrD [OF 1(2)] by auto
qed

lemma message_in_state: "snd (message_in r k u s) = s"
  unfolding message_in_def
  by (rule await_guard [where P = "\<lambda>t. t = s"]) (simp_all add: assertAccess_state await_last message_state)

lemma channel_guard:
  assumes "P s" "\<And>c. \<lbrakk>find_channel (cn_id c) s = Some c; read_oid r = Some (cn_id c)\<rbrakk> \<Longrightarrow> P (snd (k c s))"
  shows "P (snd (await (getByIdOrThrow r) k s))"
  by (rule await_guard) (use assms getById_state in \<open>auto dest: getById_InrD\<close>)

lemma access_guard:
  assumes "P s" "\<And>c. \<lbrakk>find_channel (cn_id c) s = Some c; read_oid r = Some (cn_id c); getMembership (cn_serverId c) u s \<noteq> None\<rbrakk> \<Longrightarrow> P (snd (k c s))"
  shows "P (snd (await (assertAccess r u) k s))"
  by (rule await_guard) (use assms assertAccess_state in \<open>auto dest: assertAccess_InrD\<close>)

lemma message_guard:
  assumes "P s" "\<And>m. \<lbrakk>find_message (ms_id m) s = Some m; read_oid r = Some (ms_id m)\<rbrakk> \<Longrightarrow> P (snd (k m s))"
  shows "P (snd (await (getOrThrow r) k s))"
  by (rule await_guard) (use assms message_state in \<open>auto dest: getOrThrow_InrD\<close>)

lemma message_in_guard:
  assumes "P s" "\<And>m c. \<lbrakk>find_message (ms_id m) s = Some m; r = Hex (ms_channelId m); assertAccess r u s = (Inr c, s)\<rbrakk> \<Longrightarrow> P (snd (k' m s))"
  shows "P (snd (await (message_in r k u) k' s))"
  by (rule await_guard) (use assms message_in_state in \<open>auto dest: message_in_InrD\<close>)

section \<open>Every operation keeps the collections sound\<close>

lemma messages_distinct: "chat_ok s \<Longrightarrow> distinct (map ms_id (messages s))"
  by (simp add: chat_ok_def strict_sorted_iff)

lemma message_unique: "chat_ok s \<Longrightarrow> find_message i s = Some m \<Longrightarrow> x \<in> set (messages s) \<Longrightarrow> ms_id x = i \<Longrightarrow> x = m"
  using find_key_unique [OF messages_distinct, of s x] by (simp add: find_message_def)

lemma channel_unique: "chat_ok s \<Longrightarrow> find_channel i s = Some c \<Longrightarrow> x \<in> set (channels s) \<Longrightarrow> cn_id x = i \<Longrightarrow> x = c"
  using find_key_unique [of cn_id "channels s" x] by (simp add: find_channel_def chat_ok_def)

lemma set_message_ok:
  assumes "chat_ok s" "\<And>m. ms_id (f m) = ms_id m" "\<And>m. ms_channelId (f m) = ms_channelId m"
    "\<And>m. \<lbrakk>m \<in> set (messages s); ms_id m = i; reactions_ok (ms_reactions m)\<rbrakk> \<Longrightarrow> reactions_ok (ms_reactions (f m))"
  shows "chat_ok (set_message i f s)"
proof -
  have "map ms_id (updateOne (\<lambda>m. ms_id m = i) f (messages s)) = map ms_id (messages s)" by (rule map_updateOne) (rule assms(2))
  moreover have "\<forall>m \<in> set (updateOne (\<lambda>m. ms_id m = i) f (messages s)). m \<in> set (messages s) \<or> (\<exists>x \<in> set (messages s). ms_id x = i \<and> m = f x)"
    using set_updateOne_subset [of "\<lambda>m. ms_id m = i" f "messages s"] by blast
  ultimately show ?thesis using assms unfolding chat_ok_def by (fastforce simp: set_message_def)
qed

lemma set_channel_ok:
  assumes "chat_ok s" "\<And>c. cn_id (f c) = cn_id c" "\<And>c. \<lbrakk>c \<in> set (channels s); cn_id c = i; channel_ok c\<rbrakk> \<Longrightarrow> channel_ok (f c)"
  shows "chat_ok (set_channel i f s)"
proof -
  let ?cs = "updateOne (\<lambda>c. cn_id c = i) f (channels s)"
  have m: "map cn_id ?cs = map cn_id (channels s)" by (rule map_updateOne) (rule assms(2))
  then have "cn_id ` set ?cs = cn_id ` set (channels s)" by (metis set_map)
  moreover have "\<forall>c \<in> set ?cs. c \<in> set (channels s) \<or> (\<exists>x \<in> set (channels s). cn_id x = i \<and> c = f x)"
    using set_updateOne_subset [of "\<lambda>c. cn_id c = i" f "channels s"] by blast
  ultimately show ?thesis using assms m unfolding chat_ok_def by (fastforce simp: set_channel_def)
qed

lemma create_channel_ok:
  assumes "chat_ok s"
  shows "chat_ok (snd (create_channel r u dto s))"
  unfolding create_channel_def
proof (rule role_guard [where P = chat_ok, OF assms], goal_cases)
  case (1 m)
  have "c \<in> set (channels s) \<Longrightarrow> cn_id c < Suc (next_id s)" "m' \<in> set (messages s) \<Longrightarrow> ms_id m' < Suc (next_id s)" for c m'
    using assms by (force simp: chat_ok_def less_Suc_eq)+
  moreover have "next_id s \<notin> cn_id ` set (channels s)" using assms by (force simp: chat_ok_def)
  ultimately show ?case using assms by (auto simp: chat_ok_def Let_def fresh_id_def channel_ok_def)
qed

lemma update_channel_ok:
  assumes "chat_ok s"
  shows "chat_ok (snd (update_channel r u dto s))"
  unfolding update_channel_def
proof (rule channel_guard [where P = chat_ok, OF assms], rule role_guard [where P = chat_ok, OF assms], goal_cases)
  case (1 c m)
  have "chat_ok (set_channel (cn_id c) (changed dto) s)" if "\<nexists>n. up_userLimit dto = Some (Some n) \<and> cn_type c \<noteq> VOICE"
    by (rule set_channel_ok [OF assms])
      (use that channel_unique [OF assms 1(1)] in \<open>auto simp: changed_def channel_ok_def given_def split: option.splits\<close>)
  then show ?case using assms by (auto intro: chat_okI)
qed

lemma place_map:
  assumes "\<And>c p. k (c\<lparr>cn_position := p\<rparr>) = k c"
  shows "map k (place i items cs) = map k cs"
  unfolding place_def by (induction items arbitrary: cs) (auto simp: map_updateOne assms)

lemma place_frame:
  "map cn_id (place i items cs) = map cn_id cs" "map cn_serverId (place i items cs) = map cn_serverId cs"
  "(\<forall>c \<in> set cs. channel_ok c) \<Longrightarrow> \<forall>c \<in> set (place i items cs). channel_ok c"
proof -
  show "map cn_id (place i items cs) = map cn_id cs" "map cn_serverId (place i items cs) = map cn_serverId cs"
    by (simp_all add: place_map)
  show "\<forall>c \<in> set (place i items cs). channel_ok c" if "\<forall>c \<in> set cs. channel_ok c"
    using that unfolding place_def
  proof (induction items arbitrary: cs)
    case (Cons x items)
    have "\<forall>c \<in> set (updateOne (\<lambda>c. cn_id c = fst x \<and> cn_serverId c = i) (\<lambda>c. c\<lparr>cn_position := snd x\<rparr>) cs). channel_ok c"
      by (rule updateOne_all [OF Cons.prems]) (simp add: channel_ok_def)
    then show ?case using Cons.IH by (simp add: case_prod_beta)
  qed simp
qed

lemma reorder_channels_ok:
  assumes "chat_ok s"
  shows "chat_ok (snd (reorder_channels r u items s))"
  unfolding reorder_channels_def
proof (rule role_guard [where P = chat_ok, OF assms], goal_cases)
  case (1 m)
  have all: "snd (all_oids rs s) = s" for rs
    by (induction rs) (auto simp: await_def channel_oid_def split: option.splits prod.splits sum.splits)
  have "chat_ok (s\<lparr>channels := place i ps (channels s)\<rparr>)" for i ps
  proof -
    have "cn_id ` set (place i ps (channels s)) = cn_id ` set (channels s)"
      using place_frame(1) by (metis set_map)
    moreover have "\<forall>c \<in> set (place i ps (channels s)). cn_id c < next_id s"
      using calculation assms unfolding chat_ok_def by (metis (no_types, lifting) imageE imageI)
    ultimately show ?thesis using assms place_frame [where i = i and items = ps and cs = "channels s"] by (simp add: chat_ok_def)
  qed
  then show ?case
    by (intro await_guard [where P = chat_ok]) (simp_all add: all assms withTransaction_def await_def Let_def)
qed

lemma remove_channel_ok:
  assumes "chat_ok s"
  shows "chat_ok (snd (remove_channel r u s))"
  unfolding remove_channel_def
proof (rule channel_guard [where P = chat_ok, OF assms], rule role_guard [where P = chat_ok, OF assms], goal_cases)
  case (1 c m)
  have "deleteOne (\<lambda>x. cn_id x = cn_id c) (channels s) = filter (\<lambda>x. cn_id x \<noteq> cn_id c) (channels s)"
    by (rule deleteOne_filter) (use assms in \<open>simp add: chat_ok_def\<close>)
  then have "chat_ok (delete_channel (cn_id c) s)"
    using assms by (fastforce simp: chat_ok_def delete_channel_def deleteMany_def distinct_map_filter sorted_wrt_filter sorted_wrt_map image_iff)
  then show ?case by (auto simp: withTransaction_def await_def evict_def intro: chat_okI)
qed

lemma create_message_ok:
  assumes "chat_ok s"
  shows "chat_ok (snd (create_message r u dto s))"
  unfolding create_message_def
proof (rule access_guard [where P = chat_ok, OF assms], goal_cases)
  case (1 c)
  have c: "c \<in> set (channels s)" using find_channel_SomeD [OF 1(1)] by simp
  have t: "chat_ok (s\<lparr>next_id := Suc (next_id s), messages := messages s @ [d]\<rparr>)"
    if "ms_id d = next_id s" "ms_channelId d = cn_id c" "ms_reactions d = []" for d
    using assms c that by (force simp: chat_ok_def sorted_wrt_append reactions_ok_def less_Suc_eq)
  show ?case
    by (auto simp: Let_def fresh_id_def assms intro!: chat_okI [OF t] order_trans [OF _ award_next])
qed

lemma update_message_ok: "chat_ok s \<Longrightarrow> chat_ok (snd (update_message r u content s))"
  unfolding update_message_def
  by (rule message_guard [where P = chat_ok], assumption) (simp add: Let_def edited_def set_message_ok)

lemma remove_message_ok:
  assumes "chat_ok s"
  shows "chat_ok (snd (remove_message r u s))"
proof -
  have "chat_ok (s\<lparr>messages := deleteOne (\<lambda>x. ms_id x = i) (messages s)\<rparr>)" for i
    using assms deleteOne_filter [OF messages_distinct [OF assms], of i] by (auto simp: chat_ok_def sorted_wrt_filter sorted_wrt_map)
  then show ?thesis unfolding remove_message_def
    by (intro message_guard [where P = chat_ok] channel_guard [where P = chat_ok] await_guard [where P = chat_ok])
      (simp_all add: assms requireRole_state requireMembership_state)
qed

lemma reactions_ok_add:
  "reactions_ok rs \<Longrightarrow> reactions_ok (updateOne (\<lambda>g. re_emoji g = e) (\<lambda>g. g\<lparr>re_userIds := (if u \<in> set (re_userIds g) then re_userIds g else re_userIds g @ [u])\<rparr>) rs)"
proof -
  let ?f = "\<lambda>g. g\<lparr>re_userIds := (if u \<in> set (re_userIds g) then re_userIds g else re_userIds g @ [u])\<rparr>"
  assume a: "reactions_ok rs"
  have "map re_emoji (updateOne (\<lambda>g. re_emoji g = e) ?f rs) = map re_emoji rs" by (rule map_updateOne) simp
  moreover have "\<forall>g \<in> set (updateOne (\<lambda>g. re_emoji g = e) ?f rs). re_userIds g \<noteq> [] \<and> distinct (re_userIds g)"
    by (rule updateOne_all) (use a in \<open>auto simp: reactions_ok_def\<close>)
  ultimately show ?thesis using a by (simp add: reactions_ok_def)
qed

lemma reactions_ok_pull:
  assumes "reactions_ok rs"
  shows "reactions_ok (filter (\<lambda>g. re_userIds g \<noteq> []) (updateOne (\<lambda>g. re_emoji g = e) (\<lambda>g. g\<lparr>re_userIds := removeAll u (re_userIds g)\<rparr>) rs))"
proof -
  let ?rs = "updateOne (\<lambda>g. re_emoji g = e) (\<lambda>g. g\<lparr>re_userIds := removeAll u (re_userIds g)\<rparr>) rs"
  have "map re_emoji ?rs = map re_emoji rs" by (rule map_updateOne) simp
  then have "distinct (map re_emoji ?rs)" using assms by (simp add: reactions_ok_def)
  moreover have "\<forall>g \<in> set ?rs. distinct (re_userIds g)"
    by (rule updateOne_all) (use assms in \<open>auto simp: reactions_ok_def distinct_removeAll\<close>)
  ultimately show ?thesis by (simp add: reactions_ok_def distinct_map_filter)
qed

lemma addReaction_ok:
  assumes "chat_ok s"
  shows "chat_ok (snd (addReaction r k u emoji s))"
  unfolding addReaction_def
proof (rule message_in_guard [where P = chat_ok, OF assms], goal_cases)
  case (1 m c)
  have "chat_ok (set_message (ms_id m) (if has_emoji emoji m then add_to_group emoji u else push_group emoji u) s)"
    by (rule set_message_ok [OF assms])
      (use message_unique [OF assms 1(1)] in \<open>auto simp: add_to_group_def push_group_def has_emoji_def reactions_ok_add\<close>,
        auto simp: reactions_ok_def)
  then show ?case by simp
qed

lemma set_message_twice:
  "(\<And>m. ms_id (f m) = ms_id m) \<Longrightarrow> set_message i g (set_message i f s) = set_message i (g \<circ> f) s"
proof -
  assume a: "\<And>m. ms_id (f m) = ms_id m"
  have "updateOne (\<lambda>m. ms_id m = i) g (updateOne (\<lambda>m. ms_id m = i) f ds) = updateOne (\<lambda>m. ms_id m = i) (g \<circ> f) ds" for ds
    by (induction ds) (auto simp: a)
  then show ?thesis by (simp add: set_message_def)
qed

lemma removeReaction_ok:
  assumes "chat_ok s"
  shows "chat_ok (snd (removeReaction r k u emoji s))"
  unfolding removeReaction_def
proof (rule message_in_guard [where P = chat_ok, OF assms], goal_cases)
  case (1 m c)
  have "chat_ok (set_message (ms_id m) (drop_empty \<circ> pull_user emoji u) s)"
    by (rule set_message_ok [OF assms]) (simp_all add: drop_empty_def pull_user_def reactions_ok_pull)
  moreover have "set_message (ms_id m) drop_empty (set_message (ms_id m) (pull_user emoji u) s) = set_message (ms_id m) (drop_empty \<circ> pull_user emoji u) s"
    by (rule set_message_twice) (simp add: pull_user_def)
  ultimately show ?case by (auto intro: chat_okI)
qed

text \<open>Requests to the servers service leave channels and messages alone.\<close>

definition keeps_chat :: "'a chat_st_scheme \<Rightarrow> 'a chat_st_scheme \<Rightarrow> bool" where
  "keeps_chat s t \<longleftrightarrow> channels t = channels s \<and> messages t = messages s \<and> lastXpAt t = lastXpAt s \<and> voice t = voice s
     \<and> users t = users s \<and> clock t = clock s \<and> next_id s \<le> next_id t"

lemma keeps_chat_refl: "keeps_chat s s"
  by (simp add: keeps_chat_def)

lemma keeps_ops [simp]:
  "keeps_chat s (emit_server x e t) = keeps_chat s t" "keeps_chat s (set_server i f t) = keeps_chat s t"
  "keeps_chat s (set_member i u g t) = keeps_chat s t" "keeps_chat s (drop_member i u t) = keeps_chat s t"
  "keeps_chat s (delete_server i t) = keeps_chat s t" "keeps_chat s (t\<lparr>server_bans := bs\<rparr>) = keeps_chat s t"
  "keeps_chat s (broadcastMemberJoined i m t) = keeps_chat s t" "keeps_chat s (hand_over i u v t) = keeps_chat s t"
  by (simp_all add: keeps_chat_def emit_server_def set_server_def set_member_def drop_member_def delete_server_def broadcastMemberJoined_def hand_over_def Let_def)

lemma keeps_ban: "keeps_chat s t \<Longrightarrow> keeps_chat s (upsert_ban i u v r t)"
  by (auto simp: keeps_chat_def upsert_ban_def fresh_id_def Let_def)

lemma keeps_add: "keeps_chat s t \<Longrightarrow> add_member i u k t = (x, t') \<Longrightarrow> keeps_chat s t'"
  by (auto simp: keeps_chat_def add_member_def fresh_id_def Let_def throw_def return_def split: if_splits)

lemmas keeps_guards =
  role_guard [where P = "keeps_chat s" for s] member_guard [where P = "keeps_chat s" for s]
  target_guard [where P = "keeps_chat s" for s] server_guard [where P = "keeps_chat s" for s] cast_guard [where P = "keeps_chat s" for s]

lemma keeps_found: "keeps_chat s (snd (found_server name icon u d s))"
proof -
  let ?t = "s\<lparr>next_id := Suc (next_id s), servers := servers s @ [new_server (next_id s) name icon u d]\<rparr>"
  have "keeps_chat s ?t" by (simp add: keeps_chat_def)
  then have "add_member (next_id s) u OWNER ?t = (x, t) \<Longrightarrow> keeps_chat s t" for x t by (rule keeps_add)
  then show ?thesis
    by (auto simp: found_server_def withTransaction_def fresh_id_def Let_def await_def keeps_chat_refl split: prod.split sum.split)
qed

lemma keeps_join: "keeps_chat s (snd (join_server u code s))"
  by (auto simp: join_server_def await_def keeps_chat_refl split: option.split prod.split sum.split intro: keeps_add [OF keeps_chat_refl])

lemma keeps_register: "keeps_chat s (snd (addUserToDefaultServer u s))"
  by (auto simp: addUserToDefaultServer_def await_def keeps_chat_refl split: option.split prod.split sum.split intro: keeps_add [OF keeps_chat_refl])

lemma keeps_doc: "(\<And>x t. keeps_chat s t \<Longrightarrow> keeps_chat s (snd (k x t))) \<Longrightarrow> keeps_chat s (snd (await (update_server_doc r f) k s))"
  unfolding update_server_doc_def
  by (rule await_snd) (rule server_guard [where P = "keeps_chat s"], auto simp: keeps_chat_refl await_def serverOrThrow_def cast_oid_def split: option.splits)

lemma server_step_keeps: "keeps_chat s (server_step p s)"
proof (cases p)
  case (Pair u op)
  show ?thesis unfolding Pair
  proof (cases op)
    case (Create_server n i)
    then show "keeps_chat s (server_step (u, op) s)" by (simp add: create_server_def keeps_found)
  next
    case (Update_server r n i)
    then show "keeps_chat s (server_step (u, op) s)"
      by (simp add: update_server_def) (rule keeps_guards(1), rule keeps_chat_refl, rule keeps_doc, simp)
  next
    case (Revoke_invite r)
    then show "keeps_chat s (server_step (u, op) s)"
      by (simp add: revokeInvite_def) (rule keeps_guards(1), rule keeps_chat_refl, rule keeps_doc, simp)
  next
    case (Create_invite code r)
    then show "keeps_chat s (server_step (u, op) s)"
      by (simp add: createInvite_def) (rule keeps_guards(1), rule keeps_chat_refl, rule keeps_guards(4), simp_all add: keeps_chat_refl)
  next
    case (Set_role r v k)
    then show "keeps_chat s (server_step (u, op) s)"
      by (simp add: updateMemberRole_def) (rule keeps_guards(1), rule keeps_chat_refl, auto simp: keeps_chat_refl intro: keeps_guards(3))
  next
    case (Kick r v)
    then show "keeps_chat s (server_step (u, op) s)"
      by (simp add: kickMember_def) (rule keeps_guards(1), rule keeps_chat_refl, auto simp: keeps_chat_refl intro: keeps_guards(3))
  next
    case (Transfer r v)
    then show "keeps_chat s (server_step (u, op) s)"
      by (simp add: transferOwnership_def)
        (rule keeps_guards(1), rule keeps_chat_refl, auto simp: keeps_chat_refl withTransaction_def intro: keeps_guards(3))
  next
    case (Ban r v reason)
    then show "keeps_chat s (server_step (u, op) s)"
      by (simp add: banMember_def)
        (rule keeps_guards(1), rule keeps_chat_refl, auto simp: keeps_chat_refl keeps_ban Let_def intro!: keeps_guards(5) split: option.split)
  next
    case (Unban r v)
    then show "keeps_chat s (server_step (u, op) s)"
      by (simp add: unbanMember_def) (rule keeps_guards(1), rule keeps_chat_refl, rule keeps_guards(5), auto simp: keeps_chat_refl)
  next
    case (Set_nickname r v n)
    then show "keeps_chat s (server_step (u, op) s)"
      by (simp add: setNickname_def Let_def)
        (rule keeps_guards(2), rule keeps_chat_refl, auto simp: keeps_chat_refl Let_def await_def [of "return m" for m] intro!: keeps_guards(3))
  qed (auto simp: keeps_chat_refl keeps_join keeps_register remove_server_def leave_server_def announce_server_def
      intro!: keeps_guards(1) [OF keeps_chat_refl] keeps_guards(2) [OF keeps_chat_refl])
qed

section \<open>Requests\<close>

datatype chat_op =
    Create_channel raw_id CreateChannelDto
  | Update_channel raw_id UpdateChannelDto
  | Reorder_channels raw_id "(raw_id \<times> int) list"
  | Remove_channel raw_id
  | Create_message raw_id CreateMessageDto
  | Update_message raw_id string
  | Remove_message raw_id
  | Add_reaction raw_id raw_id string
  | Remove_reaction raw_id raw_id string
  | Server_request server_op
  | Time_passes nat

fun chat_step :: "oid \<times> chat_op \<Rightarrow> 'a chat_st_scheme \<Rightarrow> 'a chat_st_scheme" where
  "chat_step (u, Create_channel r dto) s = snd (create_channel r u dto s)"
| "chat_step (u, Update_channel r dto) s = snd (update_channel r u dto s)"
| "chat_step (u, Reorder_channels r items) s = snd (reorder_channels r u items s)"
| "chat_step (u, Remove_channel r) s = snd (remove_channel r u s)"
| "chat_step (u, Create_message r dto) s = snd (create_message r u dto s)"
| "chat_step (u, Update_message r content) s = snd (update_message r u content s)"
| "chat_step (u, Remove_message r) s = snd (remove_message r u s)"
| "chat_step (u, Add_reaction r k emoji) s = snd (addReaction r k u emoji s)"
| "chat_step (u, Remove_reaction r k emoji) s = snd (removeReaction r k u emoji s)"
| "chat_step (u, Server_request op) s = server_step (u, op) s"
| "chat_step (u, Time_passes n) s = s\<lparr>clock := clock s + int n\<rparr>"

lemma chat_step_ok:
  assumes "chat_ok s"
  shows "chat_ok (chat_step p s)"
proof (cases p)
  case (Pair u op)
  have "chat_ok (server_step q s)" for q
    using server_step_keeps [of s q] by (auto simp: keeps_chat_def intro: chat_okI [OF assms])
  then show ?thesis unfolding Pair
    using assms by (cases op) (simp_all add: create_channel_ok update_channel_ok reorder_channels_ok remove_channel_ok
      create_message_ok update_message_ok remove_message_ok addReaction_ok removeReaction_ok, simp add: chat_ok_def)
qed

text \<open>
  C6: Whatever users request of servers, channels and messages, in any order, the collections stay sound: every message
  lies in a stored channel, identifiers are unique and messages in their order, only voice channels have a limit, and a
  message has at most one group for an emoji, with at least one reactor and none twice.
\<close>

theorem chat_stays_sound:
  assumes "chat_ok s"
  shows "chat_ok (fold chat_step reqs s)"
  using assms by (induction reqs arbitrary: s) (simp_all add: chat_step_ok)

section \<open>Experience for messages\<close>

text \<open>
  Time worth experience: what is left of the last minute, at most. Every award uses a minute of it up.
\<close>

definition last_award :: "oid \<Rightarrow> 'a chat_st_scheme \<Rightarrow> int" where
  "last_award u s = (case lastXpAt s u of None \<Rightarrow> 0 | Some t \<Rightarrow> t)"

definition spent_until :: "oid \<Rightarrow> 'a chat_st_scheme \<Rightarrow> int" where
  "spent_until u s = max (last_award u s) (clock s - XP_COOLDOWN_MS)"

definition earned :: "oid \<Rightarrow> 'a chat_st_scheme \<Rightarrow> int" where
  "earned u s = (case find_user u s of None \<Rightarrow> 0 | Some d \<Rightarrow> 12000 * xp d)"

definition xp_frame :: "oid \<Rightarrow> 'a chat_st_scheme \<Rightarrow> 'a chat_st_scheme \<Rightarrow> bool" where
  "xp_frame u s t \<longleftrightarrow> find_user u t = find_user u s \<and> lastXpAt t u = lastXpAt s u \<and> clock t = clock s"

definition xp_step :: "oid \<Rightarrow> 'a chat_st_scheme \<Rightarrow> 'a chat_st_scheme \<Rightarrow> bool" where
  "xp_step u s t \<longleftrightarrow> earned u t - spent_until u t \<le> earned u s - spent_until u s
     \<and> (last_award u s \<le> clock s \<longrightarrow> last_award u t \<le> clock t) \<and> clock s \<le> clock t \<and> (find_user u s \<noteq> None \<longrightarrow> find_user u t \<noteq> None)"

lemma xp_frame_step: "xp_frame u s t \<Longrightarrow> xp_step u s t"
  by (simp add: xp_frame_def xp_step_def earned_def spent_until_def last_award_def)

lemma award_step:
  assumes "find_user u s \<noteq> None"
  shows "xp_step u s (awardMessageXp v s)"
proof (cases "clock s - last_award v s < XP_COOLDOWN_MS")
  case True
  then show ?thesis by (simp add: awardMessageXp_def last_award_def Let_def xp_frame_step xp_frame_def)
next
  case False
  let ?s = "s\<lparr>lastXpAt := (lastXpAt s)(v \<mapsto> clock s)\<rparr>"
  let ?t = "snd (addXp v XP_PER_MESSAGE (Some ''message'') ?s)"
  have t: "awardMessageXp v s = ?t" using False by (simp add: awardMessageXp_def last_award_def Let_def)
  have f: "find_user u ?t = (if u = v then map_option (\<lambda>d. d\<lparr>xp := xp d + 5, level := levelFromXp (xp d + 5)\<rparr>) (find_user u s) else find_user u s)"
    using addXp_users(1) [of v 5 "Some ''message''" ?s "fst (addXp v 5 (Some ''message'') ?s)" "snd (addXp v 5 (Some ''message'') ?s)" u]
    by (auto simp: XP_PER_MESSAGE_def find_user_def)
  show ?thesis
  proof (cases "u = v")
    case True
    then show ?thesis using assms False f unfolding t xp_step_def
      by (auto simp: earned_def spent_until_def last_award_def XP_COOLDOWN_MS_def)
  next
    case False
    then show ?thesis unfolding t by (intro xp_frame_step) (simp add: xp_frame_def f)
  qed
qed

lemma keeps_frame: "keeps_chat s t \<Longrightarrow> xp_frame u s t"
  by (simp add: keeps_chat_def xp_frame_def find_user_def)

lemma xp_frame_simps [simp]:
  "xp_frame u s s" "xp_frame u s (emit_chat r e t) = xp_frame u s t" "xp_frame u s (t\<lparr>channels := cs\<rparr>) = xp_frame u s t"
  "xp_frame u s (t\<lparr>messages := ms\<rparr>) = xp_frame u s t" "xp_frame u s (t\<lparr>voice := v\<rparr>) = xp_frame u s t"
  "xp_frame u s (t\<lparr>next_id := k\<rparr>) = xp_frame u s t" "xp_frame u s (set_message i f t) = xp_frame u s t"
  "xp_frame u s (set_channel i g t) = xp_frame u s t" "xp_frame u s (delete_channel i t) = xp_frame u s t" "xp_frame u s (evict r' t) = xp_frame u s t"
  by (simp_all add: xp_frame_def find_user_def emit_chat_def set_message_def set_channel_def delete_channel_def evict_def)

lemmas frame_guards =
  role_guard [where P = "xp_frame u s" for u s] channel_guard [where P = "xp_frame u s" for u s]
  message_guard [where P = "xp_frame u s" for u s] message_in_guard [where P = "xp_frame u s" for u s]

lemma all_oids_state: "snd (all_oids rs s) = s"
  by (induction rs) (auto simp: await_def channel_oid_def split: option.splits prod.splits sum.splits)

lemma quiet_ops:
  "xp_frame u s (snd (create_channel r v dto s))" "xp_frame u s (snd (update_channel r v dto' s))" "xp_frame u s (snd (reorder_channels r v items s))"
  "xp_frame u s (snd (remove_channel r v s))" "xp_frame u s (snd (update_message r v content s))" "xp_frame u s (snd (remove_message r v s))"
  "xp_frame u s (snd (addReaction r k v emoji s))" "xp_frame u s (snd (removeReaction r k v emoji s))"
proof -
  show "xp_frame u s (snd (create_channel r v dto s))"
    unfolding create_channel_def by (rule frame_guards(1)) (simp_all add: Let_def fresh_id_def)
  show "xp_frame u s (snd (update_channel r v dto' s))"
    unfolding update_channel_def by (rule frame_guards(2), simp, rule frame_guards(1)) simp_all
  show "xp_frame u s (snd (reorder_channels r v items s))"
    unfolding reorder_channels_def by (rule frame_guards(1), simp, rule await_guard [where P = "xp_frame u s"])
      (simp_all add: all_oids_state withTransaction_def await_def Let_def)
  show "xp_frame u s (snd (remove_channel r v s))"
    unfolding remove_channel_def by (rule frame_guards(2), simp, rule frame_guards(1)) (simp_all add: withTransaction_def await_def)
  show "xp_frame u s (snd (update_message r v content s))"
    unfolding update_message_def by (rule frame_guards(3)) (simp_all add: Let_def)
  show "xp_frame u s (snd (remove_message r v s))"
    unfolding remove_message_def
    by (rule frame_guards(3), simp, rule frame_guards(2), simp, rule await_guard [where P = "xp_frame u s"])
      (simp_all add: requireRole_state requireMembership_state)
  show "xp_frame u s (snd (addReaction r k v emoji s))"
    unfolding addReaction_def by (rule frame_guards(4)) simp_all
  show "xp_frame u s (snd (removeReaction r k v emoji s))"
    unfolding removeReaction_def by (rule frame_guards(4)) simp_all
qed

lemma xp_step_after_frame: "xp_frame u s t \<Longrightarrow> xp_step u t t' \<Longrightarrow> xp_step u s t'"
  by (simp add: xp_frame_def xp_step_def earned_def spent_until_def last_award_def)

lemma create_message_step:
  assumes "find_user u s \<noteq> None"
  shows "xp_step u s (snd (create_message r v dto s))"
  unfolding create_message_def
proof (rule access_guard [where P = "xp_step u s"], goal_cases)
  case (2 c)
  have award: "xp_step u s (awardMessageXp v t)" if "xp_frame u s t" for t
    by (rule xp_step_after_frame [OF that], rule award_step) (use that assms in \<open>simp add: xp_frame_def\<close>)
  show ?case by (simp add: Let_def fresh_id_def award) (simp add: xp_frame_step)
qed (simp add: xp_frame_step)

lemma chat_step_xp:
  assumes "find_user u s \<noteq> None"
  shows "xp_step u s (chat_step p s)"
proof (cases p)
  case (Pair v op)
  have tick: "xp_step u s (s\<lparr>clock := clock s + int n\<rparr>)" for n
    using assms by (simp add: xp_step_def earned_def spent_until_def last_award_def find_user_def)
  show ?thesis unfolding Pair
    by (cases op) (simp_all add: quiet_ops xp_frame_step keeps_frame server_step_keeps create_message_step assms tick)
qed

lemma chat_run_xp:
  assumes "find_user u s \<noteq> None"
  shows "xp_step u s (fold chat_step reqs s)"
  using assms
proof (induction reqs arbitrary: s)
  case (Cons p reqs)
  have 1: "xp_step u s (chat_step p s)" by (rule chat_step_xp [OF Cons.prems])
  then have "find_user u (chat_step p s) \<noteq> None" using Cons.prems by (simp add: xp_step_def)
  then have "xp_step u (chat_step p s) (fold chat_step reqs (chat_step p s))" by (rule Cons.IH)
  then show ?case using 1 by (auto simp: xp_step_def)
qed (simp add: xp_frame_step)

text \<open>
  C36: However users write messages and time passes, a user gains at most five points of experience per minute begun:
  12000 milliseconds of time for every point, and one minute in advance.
\<close>

theorem messages_earn_bounded_xp:
  assumes "find_user u s = Some d" "find_user u (fold chat_step reqs s) = Some d'" "last_award u s \<le> clock s"
  shows "12000 * (xp d' - xp d) \<le> clock (fold chat_step reqs s) - clock s + 60000"
proof -
  have "xp_step u s (fold chat_step reqs s)" by (rule chat_run_xp) (simp add: assms(1))
  then show ?thesis using assms by (simp add: xp_step_def earned_def spent_until_def XP_COOLDOWN_MS_def) linarith
qed

section \<open>Pages\<close>

text \<open>A client that reads back from the newest page, as long as there is more.\<close>

fun read_back :: "nat \<Rightarrow> raw_id \<Rightarrow> oid \<Rightarrow> nat option \<Rightarrow> raw_id option \<Rightarrow> 'a chat_st_scheme \<Rightarrow> MessageView list" where
  "read_back 0 r u l before s = []"
| "read_back (Suc fuel) r u l before s =
     (case fst (message_history r u before l s) of
        Inl e \<Rightarrow> []
      | Inr p \<Rightarrow> hp_items p @ (if hp_hasMore p then read_back fuel r u l (map_option Hex (hp_nextBefore p)) s else []))"

definition channel_messages :: "oid \<Rightarrow> 'a chat_st_scheme \<Rightarrow> Message list" where
  "channel_messages i s = filter (\<lambda>m. ms_channelId m = i) (messages s)"

lemma serializeMany_ids: "map mv_id (serializeMany ds u s) = map ms_id ds"
  by (simp add: serializeMany_def Let_def shape_def)

lemma page_limit_pos: "0 < page_limit l" "page_limit l \<le> 100"
  by (auto simp: page_limit_def split: option.split)

lemma page_docs_sorted:
  assumes "chat_ok s"
  shows "page_docs i None n s = take n (rev (channel_messages i s))"
    "page_docs i (Some (Hex b)) n s = take n (filter (\<lambda>m. ms_id m < b) (rev (channel_messages i s)))"
proof -
  have srt: "sort_key ms_id (filter P (messages s)) = filter P (messages s)" for P
    by (rule sort_key_id_if_sorted) (use assms in \<open>simp add: chat_ok_def strict_sorted_iff sorted_filter\<close>)
  show "page_docs i None n s = take n (rev (channel_messages i s))"
    "page_docs i (Some (Hex b)) n s = take n (filter (\<lambda>m. ms_id m < b) (rev (channel_messages i s)))"
    by (simp_all add: page_docs_def Let_def srt channel_messages_def rev_filter conj_commute)
qed

text \<open>Behind the last of some messages, newest first, come the others.\<close>

lemma older_than_last:
  assumes "sorted_wrt (>) (map ms_id (ys @ zs))" "ys \<noteq> []"
  shows "filter (\<lambda>m. ms_id m < ms_id (last ys)) (ys @ zs) = zs"
proof -
  obtain xs y where ys: "ys = xs @ [y]" using assms(2) by (cases ys rule: rev_cases) auto
  have "\<forall>m \<in> set (xs @ [y]). \<not> ms_id m < ms_id y" "\<forall>m \<in> set zs. ms_id m < ms_id y"
    using assms(1) by (auto simp: ys sorted_wrt_append)
  then show ?thesis by (simp add: ys filter_empty_conv)
qed

lemma read_back_rest:
  assumes "chat_ok s" "assertAccess r u s = (Inr c, s)" "rev (channel_messages (cn_id c) s) = ys @ zs"
    "before = (if ys = [] then None else Some (Hex (ms_id (last ys))))" "length zs < fuel"
  shows "map mv_id (read_back fuel r u l before s) = map ms_id zs"
  using assms(3-5)
proof (induction fuel arbitrary: ys zs before)
  case (Suc fuel)
  let ?n = "page_limit l"
  have "sorted_wrt (<) (map ms_id (channel_messages (cn_id c) s))"
    using assms(1) by (simp add: chat_ok_def channel_messages_def sorted_wrt_map sorted_wrt_filter)
  then have srt: "sorted_wrt (>) (map ms_id (ys @ zs))"
    unfolding Suc.prems(1) [symmetric] by (simp add: sorted_wrt_rev rev_map [symmetric] del: rev_map)
  have docs: "page_docs (cn_id c) before ?n s = take ?n zs"
    using Suc.prems older_than_last [OF srt] page_docs_sorted [OF assms(1)] by (cases "ys = []") simp_all
  obtain p where p: "fst (message_history r u before l s) = Inr p" "map mv_id (hp_items p) = map ms_id (take ?n zs)"
      "hp_hasMore p = (length (take ?n zs) = ?n)" "hp_nextBefore p = (if take ?n zs = [] then None else Some (ms_id (last (take ?n zs))))"
    by (simp add: message_history_def await_def assms(2) docs Let_def serializeMany_ids)
  show ?case
  proof (cases "length (take ?n zs) = ?n")
    case True
    then have ne: "take ?n zs \<noteq> []" using page_limit_pos(1) [of l] by auto
    have "map mv_id (read_back fuel r u l (map_option Hex (hp_nextBefore p)) s) = map ms_id (drop ?n zs)"
    proof (rule Suc.IH)
      show "rev (channel_messages (cn_id c) s) = (ys @ take ?n zs) @ drop ?n zs" using Suc.prems(1) by simp
      show "map_option Hex (hp_nextBefore p) = (if ys @ take ?n zs = [] then None else Some (Hex (ms_id (last (ys @ take ?n zs)))))"
        using ne p(4) by simp
      show "length (drop ?n zs) < fuel" using Suc.prems(3) True page_limit_pos(1) [of l] by (cases zs) auto
    qed
    moreover have "map ms_id zs = map ms_id (take ?n zs) @ map ms_id (drop ?n zs)" by (metis append_take_drop_id map_append)
    ultimately show ?thesis using p(1-3) True by simp
  next
    case False
    then have "take ?n zs = zs" by simp
    then show ?thesis using p False by simp
  qed
qed simp

text \<open>
  C16: A client that reads a channel back from the newest page, asking on from the last message shown as long as there is
  more, comes to an end after at most one page per message and one more, and has seen every message of the channel
  exactly once, newest first, whatever page size it asks for.
\<close>

theorem history_shows_every_message_once:
  assumes "chat_ok s" "assertAccess r u s = (Inr c, s)" "length (channel_messages (cn_id c) s) < fuel"
  shows "map mv_id (read_back fuel r u l None s) = rev (map ms_id (channel_messages (cn_id c) s))
     \<and> distinct (map mv_id (read_back fuel r u l None s))"
proof -
  have r: "map mv_id (read_back fuel r u l None s) = rev (map ms_id (channel_messages (cn_id c) s))"
    using read_back_rest [OF assms(1,2), of "[]" "rev (channel_messages (cn_id c) s)" None fuel l] assms(3) by (simp add: rev_map)
  moreover have "distinct (map ms_id (channel_messages (cn_id c) s))"
    using messages_distinct [OF assms(1)] by (simp add: channel_messages_def distinct_map_filter)
  ultimately show ?thesis by simp
qed

section \<open>Authority\<close>

lemma find_message_set:
  "(\<And>m. ms_id (f m) = ms_id m) \<Longrightarrow> find_message i (set_message j f s) = (if i = j then map_option f (find_message i s) else find_message i s)"
  by (auto simp: find_message_def set_message_def find_updateOne_same intro!: find_updateOne_other)

lemma find_channel_set:
  "(\<And>c. cn_id (f c) = cn_id c) \<Longrightarrow> find_channel i (set_channel j f s) = (if i = j then map_option f (find_channel i s) else find_channel i s)"
  by (auto simp: find_channel_def set_channel_def find_updateOne_same intro!: find_updateOne_other)

lemma find_message_frame: "messages t = messages s \<Longrightarrow> find_message i t = find_message i s"
  by (simp add: find_message_def)

lemma find_channel_frame: "channels t = channels s \<Longrightarrow> find_channel i t = find_channel i s"
  by (simp add: find_channel_def)

lemma find_filter_key: "List.find (\<lambda>x. k x = i) (filter (\<lambda>x. k x \<noteq> j) ds) = (if i = j then None else List.find (\<lambda>x. k x = i) ds)"
  by (induction ds) auto

text \<open>An administrator of a server, and a user entitled to what became of a message or a channel.\<close>

definition admin_in :: "oid \<Rightarrow> oid \<Rightarrow> 'a chat_st_scheme \<Rightarrow> bool" where
  "admin_in j u s \<longleftrightarrow> (\<exists>k. getMembership j u s = Some k \<and> ADMIN \<le> sm_role k)"

definition message_auth :: "oid \<Rightarrow> oid \<Rightarrow> 'a chat_st_scheme \<Rightarrow> 'a chat_st_scheme \<Rightarrow> bool" where
  "message_auth i u s t \<longleftrightarrow> (\<forall>m c. find_message i s = Some m \<longrightarrow> find_channel (ms_channelId m) s = Some c \<longrightarrow>
     (case find_message i t of
        Some m' \<Rightarrow> ms_authorId m' = ms_authorId m \<and> ms_channelId m' = ms_channelId m \<and> (ms_content m' = ms_content m \<or> ms_authorId m = u)
      | None \<Rightarrow> admin_in (cn_serverId c) u s \<or> (ms_authorId m = u \<and> getMembership (cn_serverId c) u s \<noteq> None)))"

definition channel_auth :: "oid \<Rightarrow> oid \<Rightarrow> 'a chat_st_scheme \<Rightarrow> 'a chat_st_scheme \<Rightarrow> bool" where
  "channel_auth i u s t \<longleftrightarrow> find_channel i t = find_channel i s
     \<or> (\<exists>j. admin_in j u s \<and> (\<forall>c. find_channel i s = Some c \<longrightarrow> cn_serverId c = j) \<and> (\<forall>c. find_channel i t = Some c \<longrightarrow> cn_serverId c = j))"

definition chat_auth :: "oid \<Rightarrow> oid \<Rightarrow> 'a chat_st_scheme \<Rightarrow> 'a chat_st_scheme \<Rightarrow> bool" where
  "chat_auth i u s t \<longleftrightarrow> message_auth i u s t \<and> channel_auth i u s t"

lemma message_auth_frame: "messages t = messages s \<Longrightarrow> message_auth i u s t"
  by (simp add: message_auth_def find_message_def)

lemma channel_auth_frame: "channels t = channels s \<Longrightarrow> channel_auth i u s t"
  by (simp add: channel_auth_def find_channel_def)

lemma chat_auth_emit [simp]: "chat_auth i u s (emit_chat r e t) = chat_auth i u s t"
  by (simp add: chat_auth_def message_auth_def channel_auth_def find_message_def find_channel_def)

lemma chat_auth_refl [simp]: "chat_auth i u s s"
  by (simp add: chat_auth_def message_auth_frame channel_auth_frame)

lemma chat_auth_message:
  assumes "\<And>m. ms_id (f m) = ms_id m" "\<And>m. ms_authorId (f m) = ms_authorId m" "\<And>m. ms_channelId (f m) = ms_channelId m"
    "\<And>m. find_message j s = Some m \<Longrightarrow> ms_content (f m) = ms_content m \<or> ms_authorId m = u"
  shows "chat_auth i u s (set_message j f s)"
proof -
  have "message_auth i u s (set_message j f s)"
    using assms by (auto simp: message_auth_def find_message_set split: option.split)
  then show ?thesis by (simp add: chat_auth_def channel_auth_frame set_message_def)
qed

lemmas auth_guards =
  role_guard [where P = "chat_auth i u s" for i u s] channel_guard [where P = "chat_auth i u s" for i u s]
  message_guard [where P = "chat_auth i u s" for i u s] message_in_guard [where P = "chat_auth i u s" for i u s]
  access_guard [where P = "chat_auth i u s" for i u s]

lemma create_message_auth:
  assumes "chat_ok s"
  shows "chat_auth i u s (snd (create_message r u dto s))"
  unfolding create_message_def
proof (rule auth_guards(5), simp, goal_cases)
  case (1 c)
  have "chat_auth i u s t" if "messages t = messages s @ [d]" "channels t = channels s" for t d
    using that by (auto simp: chat_auth_def message_auth_def find_message_def find_append intro: channel_auth_frame split: option.split)
  then show ?case by (simp add: Let_def fresh_id_def)
qed

lemma remove_message_auth:
  assumes "chat_ok s"
  shows "chat_auth i u s (snd (remove_message r u s))"
  unfolding remove_message_def
proof (rule auth_guards(3), simp, rule auth_guards(2), simp, rule await_guard [where P = "chat_auth i u s"], goal_cases)
  case (3 m c k)
  let ?t = "s\<lparr>messages := deleteOne (\<lambda>x. ms_id x = ms_id m) (messages s)\<rparr>"
  have "deleteOne (\<lambda>x. ms_id x = ms_id m) (messages s) = filter (\<lambda>x. ms_id x \<noteq> ms_id m) (messages s)"
    by (rule deleteOne_filter [OF messages_distinct [OF assms]])
  then have f: "find_message i ?t = (if i = ms_id m then None else find_message i s)"
    by (simp add: find_message_def find_filter_key)
  have g: "ms_authorId m \<noteq> u \<Longrightarrow> admin_in (cn_serverId c) u s" "ms_authorId m = u \<Longrightarrow> getMembership (cn_serverId c) u s \<noteq> None"
    using 3(5) by (auto simp: admin_in_def dest!: requireRole_InrD requireMembership_InrD)
  have "message_auth i u s ?t" using 3(1-4) g by (auto simp: message_auth_def f split: option.split)
  moreover have "channel_auth i u s ?t" by (rule channel_auth_frame) simp
  ultimately have "chat_auth i u s ?t" unfolding chat_auth_def by blast
  then show ?case by simp
qed (simp_all add: requireRole_state requireMembership_state)

lemma update_channel_auth:
  assumes "chat_ok s"
  shows "chat_auth i u s (snd (update_channel r u dto s))"
  unfolding update_channel_def
proof (rule auth_guards(2), simp, rule auth_guards(1), simp, goal_cases)
  case (1 c m)
  have "admin_in (cn_serverId c) u s" using 1 by (auto simp: admin_in_def)
  moreover have "cn_id (changed dto x) = cn_id x" "cn_serverId (changed dto x) = cn_serverId x" for x by (simp_all add: changed_def)
  ultimately have "channel_auth i u s (set_channel (cn_id c) (changed dto) s)"
    using 1(1) by (auto simp: channel_auth_def find_channel_set)
  moreover have "message_auth i u s (set_channel (cn_id c) (changed dto) s)" by (rule message_auth_frame) (simp add: set_channel_def)
  ultimately have "chat_auth i u s (set_channel (cn_id c) (changed dto) s)" unfolding chat_auth_def by blast
  then show ?case by simp
qed

lemma create_channel_auth:
  assumes "chat_ok s"
  shows "chat_auth i u s (snd (create_channel r u dto s))"
  unfolding create_channel_def
proof (rule auth_guards(1), simp, goal_cases)
  case (1 m)
  have "admin_in (sm_serverId m) u s" using 1 by (auto simp: admin_in_def)
  moreover have "find_channel (next_id s) s = None" using assms by (force simp: chat_ok_def find_channel_def find_None_iff)
  ultimately have "chat_auth i u s t" if "messages t = messages s" "channels t = channels s @ [c]" "cn_serverId c = sm_serverId m" "cn_id c = next_id s" for t c
    using that by (auto simp: chat_auth_def channel_auth_def find_channel_def find_append intro: message_auth_frame split: option.split)
  then show ?case by (simp add: Let_def fresh_id_def)
qed

lemma place_other: "c \<in> set cs \<Longrightarrow> cn_serverId c \<noteq> i \<Longrightarrow> c \<in> set (place i items cs)"
proof (induction items arbitrary: cs)
  case (Cons x items)
  have "c \<in> set (updateOne (\<lambda>c. cn_id c = k \<and> cn_serverId c = i) f ds)" if "c \<in> set ds" for ds k f
    using that Cons.prems(2) by (induction ds) auto
  then show ?case using Cons by (simp add: place_def case_prod_beta)
qed (simp add: place_def)

lemma reorder_channels_auth:
  assumes "chat_ok s"
  shows "chat_auth i u s (snd (reorder_channels r u items s))"
  unfolding reorder_channels_def
proof (rule auth_guards(1), simp, rule await_guard [where P = "chat_auth i u s"], rule all_oids_state, simp, goal_cases)
  case (1 m ids)
  have adm: "admin_in (sm_serverId m) u s" using 1 by (auto simp: admin_in_def)
  have "channel_auth i u s (s\<lparr>channels := place (sm_serverId m) ps (channels s)\<rparr>)" for ps
  proof -
    let ?j = "sm_serverId m"
    let ?cs = "place ?j ps (channels s)"
    have d: "distinct (map cn_id ?cs)" "distinct (map cn_id (channels s))"
      using assms by (simp_all add: place_frame(1) chat_ok_def)
    have srv: "map (\<lambda>c. (cn_id c, cn_serverId c)) ?cs = map (\<lambda>c. (cn_id c, cn_serverId c)) (channels s)"
      by (rule place_map) simp
    show ?thesis
    proof (cases "\<exists>c. find_channel i s = Some c \<and> cn_serverId c \<noteq> ?j")
      case True
      then obtain c where c: "find_channel i s = Some c" "cn_serverId c \<noteq> ?j" by blast
      then have "c \<in> set ?cs" "cn_id c = i" using place_other find_channel_SomeD [OF c(1)] by auto
      then have "List.find (\<lambda>x. cn_id x = i) ?cs = Some c" using find_key_unique [OF d(1)] by auto
      then show ?thesis using c(1) by (simp add: channel_auth_def find_channel_def)
    next
      case False
      have "cn_serverId x = ?j" if "x \<in> set ?cs" "cn_id x = i" for x
      proof -
        have "(i, cn_serverId x) \<in> set (map (\<lambda>c. (cn_id c, cn_serverId c)) (channels s))" unfolding srv [symmetric] using that by force
        then obtain c where "c \<in> set (channels s)" "cn_id c = i" "cn_serverId c = cn_serverId x" by auto
        then show ?thesis using find_key_unique [OF d(2)] False by (auto simp: find_channel_def)
      qed
      then have "\<forall>c. find_channel i (s\<lparr>channels := ?cs\<rparr>) = Some c \<longrightarrow> cn_serverId c = ?j"
        by (auto simp: find_channel_def dest: find_Some_iff_mem)
      then show ?thesis using False adm unfolding channel_auth_def by blast
    qed
  qed
  moreover have "message_auth i u s (s\<lparr>channels := cs\<rparr>)" for cs by (rule message_auth_frame) simp
  ultimately have "chat_auth i u s (s\<lparr>channels := place (sm_serverId m) ps (channels s)\<rparr>)" for ps unfolding chat_auth_def by blast
  then show ?case by (simp add: withTransaction_def await_def Let_def)
qed

lemma remove_channel_auth:
  assumes "chat_ok s"
  shows "chat_auth i u s (snd (remove_channel r u s))"
  unfolding remove_channel_def
proof (rule auth_guards(2), simp, rule auth_guards(1), simp, goal_cases)
  case (1 c m)
  have adm: "admin_in (cn_serverId c) u s" using 1 by (auto simp: admin_in_def)
  have "deleteOne (\<lambda>x. cn_id x = cn_id c) (channels s) = filter (\<lambda>x. cn_id x \<noteq> cn_id c) (channels s)"
    by (rule deleteOne_filter) (use assms in \<open>simp add: chat_ok_def\<close>)
  then have f: "find_channel i (delete_channel (cn_id c) s) = (if i = cn_id c then None else find_channel i s)"
    by (simp add: delete_channel_def find_channel_def find_filter_key)
  have "channel_auth i u s (delete_channel (cn_id c) s)" using adm 1(1) by (auto simp: channel_auth_def f)
  moreover have "find_message i (delete_channel (cn_id c) s) = (case find_message i s of None \<Rightarrow> None | Some x \<Rightarrow> if ms_channelId x = cn_id c then None else Some x)"
  proof -
    have "List.find (\<lambda>x. ms_id x = i) (filter (\<lambda>x. ms_channelId x \<noteq> j) xs)
      = (case List.find (\<lambda>x. ms_id x = i) xs of None \<Rightarrow> None | Some x \<Rightarrow> if ms_channelId x = j then None else Some x)"
      if "distinct (map ms_id xs)" for j xs
      using that
    proof (induction xs)
      case (Cons a xs)
      have n: "\<forall>x \<in> set xs. ms_id x \<noteq> ms_id a"
      proof
        fix x assume "x \<in> set xs"
        then have "ms_id x \<in> ms_id ` set xs" by (rule imageI)
        then show "ms_id x \<noteq> ms_id a" using Cons.prems by force
      qed
      then have "List.find (\<lambda>x. ms_id x = ms_id a) xs = None" by (simp add: find_None_iff_all)
      moreover have "List.find (\<lambda>x. ms_id x = ms_id a) (filter (\<lambda>x. ms_channelId x \<noteq> j) xs) = None"
        using n by (simp add: find_None_iff_all)
      ultimately show ?case using Cons by auto
    qed simp
    then show ?thesis using messages_distinct [OF assms] by (simp add: find_message_def delete_channel_def deleteMany_def)
  qed
  then have "message_auth i u s (delete_channel (cn_id c) s)" using adm 1(1) by (auto simp: message_auth_def split: option.split)
  ultimately have a: "chat_auth i u s (delete_channel (cn_id c) s)" unfolding chat_auth_def by blast
  have "chat_auth i u s (evict r t) = chat_auth i u s t" for t
    by (simp add: evict_def chat_auth_def message_auth_def channel_auth_def find_message_def find_channel_def)
  then show ?case using a by (simp add: withTransaction_def await_def)
qed

text \<open>
  C7: A message keeps its author and channel for ever; its text changes only by a request of its author, and it goes
  away only by a request of its author while a member, or of an administrator of the server. A channel appears, changes
  or goes away only by a request of an administrator of its server.
\<close>

theorem chat_changes_authorised:
  assumes "chat_ok s"
  shows "(\<forall>m c. find_message i s = Some m \<and> find_channel (ms_channelId m) s = Some c \<longrightarrow>
      (case find_message i (chat_step (u, op) s) of
         Some m' \<Rightarrow> ms_authorId m' = ms_authorId m \<and> ms_channelId m' = ms_channelId m \<and> (ms_content m' = ms_content m \<or> ms_authorId m = u)
       | None \<Rightarrow> admin_in (cn_serverId c) u s \<or> (ms_authorId m = u \<and> getMembership (cn_serverId c) u s \<noteq> None)))
    \<and> (find_channel k (chat_step (u, op) s) = find_channel k s
       \<or> (\<exists>j. admin_in j u s \<and> (\<forall>c. find_channel k s = Some c \<longrightarrow> cn_serverId c = j)
            \<and> (\<forall>c. find_channel k (chat_step (u, op) s) = Some c \<longrightarrow> cn_serverId c = j)))"
proof -
  have a: "chat_auth i u s (chat_step (u, op) s)" for i
  proof (cases op)
    case (Server_request x)
    then show ?thesis using server_step_keeps [of s "(u, x)"]
      by (simp add: keeps_chat_def chat_auth_def message_auth_frame channel_auth_frame)
  next
    case (Time_passes n)
    then show ?thesis by (simp add: chat_auth_def message_auth_frame channel_auth_frame)
  next
    case (Update_message r content)
    have "chat_auth i u s (snd (update_message r u content s))"
      unfolding update_message_def
      by (rule auth_guards(3), simp) (auto simp: Let_def edited_def intro!: chat_auth_message)
    then show ?thesis by (simp add: Update_message)
  next
    case (Add_reaction r k e)
    have "chat_auth i u s (snd (addReaction r k u e s))"
      unfolding addReaction_def
      by (rule auth_guards(4), simp) (auto simp: add_to_group_def push_group_def intro!: chat_auth_message)
    then show ?thesis by (simp add: Add_reaction)
  next
    case (Remove_reaction r k e)
    have "set_message j drop_empty (set_message j (pull_user e u) s) = set_message j (drop_empty \<circ> pull_user e u) s" for j
      by (rule set_message_twice) (simp add: pull_user_def)
    then have "chat_auth i u s (snd (removeReaction r k u e s))"
      unfolding removeReaction_def
      by (intro auth_guards(4)) (auto simp: drop_empty_def pull_user_def intro!: chat_auth_message)
    then show ?thesis by (simp add: Remove_reaction)
  qed (simp_all add: assms create_message_auth remove_message_auth update_channel_auth create_channel_auth reorder_channels_auth remove_channel_auth)
  show ?thesis using a [of i] a [of k] unfolding chat_auth_def message_auth_def channel_auth_def by blast
qed

section \<open>Reactions\<close>

text \<open>Who reacted to a message with an emoji.\<close>

definition reactors :: "Message \<Rightarrow> string \<Rightarrow> oid set" where
  "reactors m e = (\<Union>g \<in> {g \<in> set (ms_reactions m). re_emoji g = e}. set (re_userIds g))"

lemma reactors_update:
  assumes "distinct (map re_emoji rs)" "\<And>g. re_emoji (f g) = re_emoji g"
  shows "{g \<in> set (updateOne (\<lambda>g. re_emoji g = e) f rs). re_emoji g = e'} = (if e' = e then f else id) ` {g \<in> set rs. re_emoji g = e'}"
  using assms by (auto simp: updateOne_key_map image_iff)

lemma reactors_add:
  assumes "reactions_ok (ms_reactions m)"
  shows "reactors ((if has_emoji e m then add_to_group e u else push_group e u) m) = (reactors m)(e := insert u (reactors m e))"
proof (cases "has_emoji e m")
  case True
  then obtain g where "g \<in> set (ms_reactions m)" "re_emoji g = e" by (auto simp: has_emoji_def)
  then show ?thesis using assms True
    by (auto simp: reactors_def add_to_group_def reactors_update reactions_ok_def fun_eq_iff split: if_splits)
next
  case False
  have "reactors (push_group e u m) e' = reactors m e' \<union> (if e' = e then {u} else {})" for e'
  proof -
    have "{g \<in> set (ms_reactions m @ [\<lparr>re_emoji = e, re_userIds = [u]\<rparr>]). re_emoji g = e'}
      = {g \<in> set (ms_reactions m). re_emoji g = e'} \<union> (if e' = e then {\<lparr>re_emoji = e, re_userIds = [u]\<rparr>} else {})" by auto
    then show ?thesis by (simp only: reactors_def push_group_def) simp
  qed
  then show ?thesis using False by (auto simp: fun_eq_iff)
qed

lemma find_message_emit [simp]: "find_message i (emit_chat r e s) = find_message i s"
  by (simp add: find_message_def)

lemma reactors_drop: "reactors (drop_empty m) = reactors m"
  by (auto simp: reactors_def drop_empty_def fun_eq_iff)

lemma reactors_pull:
  assumes "reactions_ok (ms_reactions m)"
  shows "reactors (pull_user e u m) = (reactors m)(e := reactors m e - {u})"
  using assms by (auto simp: reactors_def pull_user_def reactors_update reactions_ok_def fun_eq_iff split: if_splits)

lemma reaction_count:
  assumes "reactions_ok rs" "v \<in> set (shapeReactions rs u)"
  shows "rv_count v = card (\<Union>g \<in> {g \<in> set rs. re_emoji g = rv_emoji v}. set (re_userIds g))"
proof -
  obtain g where g: "g \<in> set rs" "rv_emoji v = re_emoji g" "rv_count v = length (re_userIds g)"
    using assms(2) by (auto simp: shapeReactions_def)
  have "{x \<in> set rs. re_emoji x = rv_emoji v} = {g}"
    using assms(1) g by (auto simp: reactions_ok_def distinct_map inj_on_def)
  then show ?thesis using assms(1) g by (simp add: reactions_ok_def distinct_card)
qed

lemma message_in_passed:
  assumes "fst (await (message_in r k u) h s) = Inr y" "find_message i s = Some m" "read_oid k = Some i"
  shows "message_in r k u s = (Inr m, s)"
proof -
  obtain m' t where "message_in r k u s = (Inr m', t)"
    using assms(1) unfolding await_def by (cases "message_in r k u s"; cases "fst (message_in r k u s)") auto
  then show ?thesis using message_in_InrD assms(2,3) by fastforce
qed

text \<open>
  C32: Reactions to a message behave as a set of users for every emoji: adding puts the caller into the set, however
  often, removing takes the caller out, the sets of the other emojis stay, and the count shown is the size of the set.
\<close>

theorem reactions_are_sets:
  assumes "chat_ok s" "find_message i s = Some m" "read_oid k = Some i"
  shows "(fst (addReaction r k u e s) = Inr () \<longrightarrow> (\<exists>m'. find_message i (snd (addReaction r k u e s)) = Some m'
        \<and> reactors m' = (reactors m)(e := insert u (reactors m e))))
    \<and> (fst (removeReaction r k u e s) = Inr () \<longrightarrow> (\<exists>m'. find_message i (snd (removeReaction r k u e s)) = Some m'
        \<and> reactors m' = (reactors m)(e := reactors m e - {u})))
    \<and> (\<forall>v \<in> set (shapeReactions (ms_reactions m) u). rv_count v = card (reactors m (rv_emoji v)))"
proof -
  have ok: "reactions_ok (ms_reactions m)" using assms(1) find_message_SomeD [OF assms(2)] by (auto simp: chat_ok_def)
  have i: "ms_id m = i" using find_message_SomeD [OF assms(2)] by simp
  have 1: "\<exists>m'. find_message i (snd (addReaction r k u e s)) = Some m' \<and> reactors m' = (reactors m)(e := insert u (reactors m e))"
    if "fst (addReaction r k u e s) = Inr ()"
  proof -
    have "message_in r k u s = (Inr m, s)" using that unfolding addReaction_def by (rule message_in_passed [OF _ assms(2,3)])
    then have "find_message i (snd (addReaction r k u e s)) = Some ((if has_emoji e m then add_to_group e u else push_group e u) m)"
      using assms(2) i by (simp add: addReaction_def await_def find_message_set add_to_group_def push_group_def)
    then show ?thesis using reactors_add [OF ok, of e u] by blast
  qed
  have 2: "\<exists>m'. find_message i (snd (removeReaction r k u e s)) = Some m' \<and> reactors m' = (reactors m)(e := reactors m e - {u})"
    if "fst (removeReaction r k u e s) = Inr ()"
  proof -
    have "message_in r k u s = (Inr m, s)" using that unfolding removeReaction_def by (rule message_in_passed [OF _ assms(2,3)])
    then have "find_message i (snd (removeReaction r k u e s)) = Some (drop_empty (pull_user e u m))"
      using assms(2) i by (simp add: removeReaction_def await_def find_message_set drop_empty_def pull_user_def)
    then show ?thesis using reactors_pull [OF ok, of e u] reactors_drop [of "pull_user e u m"] by metis
  qed
  show ?thesis using 1 2 reaction_count [OF ok] by (auto simp: reactors_def)
qed

end
