(* ===== verification/ChatCases.thy ===== *)
theory ChatCases
  imports ChatLaws
begin

text \<open>
  Four behaviours of channels and messages at the edge of what they promise, and the examples on which the laws
  of \<open>ChatLaws\<close> hold.
\<close>

section \<open>Edges\<close>

lemma assertAccess_pass:
  "\<lbrakk>read_oid r = Some i; find_channel i s = Some c; getMembership (cn_serverId c) u s = Some k\<rbrakk> \<Longrightarrow> assertAccess r u s = (Inr c, s)"
  by (simp add: assertAccess_def getByIdOrThrow_def channel_oid_def requireMembership_def cast_oid_def await_def)

lemma assertAccess_refused:
  "\<lbrakk>read_oid r = Some i; find_channel i s = Some c; getMembership (cn_serverId c) u s = None\<rbrakk>
   \<Longrightarrow> assertAccess r u s = (Inl (Forbidden ''Not a member of this server''), s)"
  by (simp add: assertAccess_def getByIdOrThrow_def channel_oid_def requireMembership_def cast_oid_def await_def)

lemma find_same_filter: "List.find P (filter P xs) = List.find P xs"
  by (induction xs) auto

text \<open>
  A message that replies to one in a server the caller is no member of is accepted, and the view returned shows the
  author and the first 120 characters of a message whose channel the caller is refused to read.
\<close>

theorem reply_discloses_foreign_message:
  assumes "chat_ok s" "assertAccess r u s = (Inr c, s)" "cm_content dto = Some x" "trim x \<noteq> ''''" "cm_replyToId dto = Some (Hex j)"
    "find_message j s = Some m" "find_channel (ms_channelId m) s = Some c'" "getMembership (cn_serverId c') u s = None"
  shows "fst (message_history (Hex (ms_channelId m)) u before l s) = Inl (Forbidden ''Not a member of this server'')
    \<and> (\<exists>v rv. fst (create_message r u dto s) = Inr v \<and> mv_replyTo v = Some (Some rv)
         \<and> rp_id rv = j \<and> rp_authorId rv = ms_authorId m \<and> rp_content rv = take 120 (ms_content m))"
proof -
  have j: "ms_id m = j" "j < next_id s" using find_message_SomeD [OF assms(6)] assms(1) by (auto simp: chat_ok_def)
  have "List.find (\<lambda>x. ms_id x = j) (filter (\<lambda>x. ms_id x = j) (messages s)) = Some m"
    using assms(6) find_same_filter [of "\<lambda>x. ms_id x = j" "messages s"] by (simp add: find_message_def)
  then show ?thesis using assms(2-5) j assertAccess_refused [OF _ assms(7,8), of "Hex (ms_channelId m)"]
    by (simp add: message_history_def create_message_def await_def Let_def fresh_id_def serialize_def serializeMany_def shape_def
        shapeReplyTo_def find_append REPLY_PREVIEW_LEN_def)
qed

text \<open>
  An author who is no longer a member of the server is refused when deleting a message, and can still change its text.
\<close>

theorem former_member_edits:
  assumes "find_message j s = Some m" "find_channel (ms_channelId m) s = Some c" "getMembership (cn_serverId c) (ms_authorId m) s = None"
  shows "fst (remove_message (Hex j) (ms_authorId m) s) = Inl (Forbidden ''Not a member of this server'')
    \<and> find_message j (snd (update_message (Hex j) (ms_authorId m) content s)) = Some (edited content (clock s) m)"
proof -
  have j: "ms_id m = j" using find_message_SomeD [OF assms(1)] by simp
  show ?thesis using assms j
    by (simp add: remove_message_def update_message_def getOrThrow_def getByIdOrThrow_def channel_oid_def requireMembership_def cast_oid_def
        await_def Let_def find_message_set edited_def)
qed

text \<open>
  Removing a server leaves all channels and messages stored; its channels are then refused to everybody.
\<close>

theorem removed_server_orphans_channels:
  assumes "remove_server r u s = (Inr (), t)" "read_oid r = Some i" "find_channel k s = Some c" "cn_serverId c = i"
  shows "channels t = channels s \<and> messages t = messages s \<and> fst (assertAccess (Hex k) v t) = Inl (Forbidden ''Not a member of this server'')"
proof -
  obtain m where m: "requireRole r u OWNER s = (Inr m, s)" "t = emit_server (Server_room r) (Server_deleted r) (delete_server (sm_serverId m) s)"
    using assms(1) requireRole_InrD [of r u OWNER s]
    by (auto simp: remove_server_def await_def throw_def return_def split: prod.splits sum.splits if_splits)
  have i: "sm_serverId m = i" using requireRole_InrD [OF m(1)] assms(2) by simp
  have f: "channels t = channels s" "messages t = messages s" by (simp_all add: m(2) emit_server_def delete_server_def)
  have "server_members t = filter (\<lambda>x. sm_serverId x \<noteq> i) (server_members s)" by (simp add: m(2) i delete_server_def deleteMany_def)
  then have "getMembership i v t = None" by (auto simp: getMembership_def member_key_def find_None_iff)
  moreover have "find_channel k t = Some c" using assms(3) f by (simp add: find_channel_def)
  ultimately show ?thesis using f assertAccess_refused [of "Hex k" k t c v] assms(4) by simp
qed

lemma addXp_chat_log [simp]: "chat_log (snd (addXp u a r s)) = chat_log s"
proof -
  have e: "chat_log (foldl (\<lambda>s sid. emit_level (f sid) (g sid) s) s xs) = chat_log s" for f g xs and s :: "'a chat_st_scheme"
    by (induction xs arbitrary: s) (simp_all add: emit_level_def)
  have n: "chat_log (best_effort (notify x p) s) = chat_log s" "chat_log (emit_level y z s) = chat_log s" "chat_log (set_user v h s) = chat_log s"
    for x p y z v h and s :: "'a chat_st_scheme"
    by (auto simp: best_effort_def notify_def fresh_id_def Let_def emit_level_def set_user_def split: option.split)
  show ?thesis by (simp add: addXp_def Let_def e n split: option.split)
qed

text \<open>
  A message sent to a channel by another spelling of its identifier is stored in that channel, but announced to the
  room of that spelling.
\<close>

theorem respelled_message_unheard:
  assumes "assertAccess (Alt i spelling) u s = (Inr c, s)" "cm_content dto = Some x" "trim x \<noteq> ''''"
  shows "\<exists>d v. create_message (Alt i spelling) u dto s = (Inr v, snd (create_message (Alt i spelling) u dto s))
    \<and> messages (snd (create_message (Alt i spelling) u dto s)) = messages s @ [d] \<and> ms_channelId d = i
    \<and> chat_log (snd (create_message (Alt i spelling) u dto s)) = chat_log s @ [(In_channel (Alt i spelling), Message_new v)]"
proof -
  have "cn_id c = i" using assertAccess_InrD [OF assms(1)] by simp
  moreover have "chat_log (awardMessageXp u t) = chat_log t" for t :: "'a chat_st_scheme" by (simp add: awardMessageXp_def Let_def)
  ultimately show ?thesis using assms by (simp add: create_message_def await_def Let_def fresh_id_def) (simp add: emit_chat_def)
qed

section \<open>Examples\<close>

text \<open>Server 20 has the channel 23, where user 3 is no member; server 21 has the text channel 22 and the voice channel 26.\<close>

definition demo_channel :: "oid \<Rightarrow> oid \<Rightarrow> ChannelType \<Rightarrow> int \<Rightarrow> Channel" where
  "demo_channel i j ty p = \<lparr>cn_id = i, cn_serverId = j, cn_name = ''c'', cn_type = ty, cn_topic = None, cn_position = p, cn_userLimit = None\<rparr>"

definition demo_message :: "oid \<Rightarrow> oid \<Rightarrow> oid \<Rightarrow> string \<Rightarrow> Message" where
  "demo_message i c u x = \<lparr>ms_id = i, ms_channelId = c, ms_authorId = u, ms_content = x, ms_attachments = [], ms_replyToId = None,
     ms_reactions = [], ms_editedAt = None\<rparr>"

definition chat0 :: chat_st where
  "chat0 = servers_st.extend servers0
     \<lparr>channels = [demo_channel 22 21 TEXT 0, demo_channel 23 20 TEXT 0, demo_channel 26 21 VOICE 1],
      messages = [demo_message 24 23 1 ''plan'', demo_message 25 22 3 ''hi'', demo_message 27 22 2 ''yo'', demo_message 28 23 3 ''bye''],
      voice = voice0, lastXpAt = Map.empty, chat_log = []\<rparr>"

lemma chat0_frame [simp]:
  "channels chat0 = [demo_channel 22 21 TEXT 0, demo_channel 23 20 TEXT 0, demo_channel 26 21 VOICE 1]"
  "messages chat0 = [demo_message 24 23 1 ''plan'', demo_message 25 22 3 ''hi'', demo_message 27 22 2 ''yo'', demo_message 28 23 3 ''bye'']"
  "server_members chat0 = members0" "next_id chat0 = 30" "servers chat0 = servers servers0" "defaultServerId chat0 = Some 20"
  "users chat0 = users wallet0" "clock chat0 = clock wallet0" "lastXpAt chat0 = Map.empty" "voice chat0 = voice0"
  by (simp_all add: chat0_def servers_st.extend_def servers0_def level_st.extend_def wallet_st.extend_def wallet0_defs)

lemma chat0_members [simp]:
  "getMembership 21 3 chat0 = Some (demo_member 21 3 MEMBER)" "getMembership 20 3 chat0 = None" "getMembership 21 1 chat0 = Some (demo_member 21 1 OWNER)"
  "getMembership 21 2 chat0 = Some (demo_member 21 2 ADMIN)"
  by (simp_all add: getMembership_def members0_def demo_member_def member_key_def)

lemma chat0_found [simp]:
  "find_channel 22 chat0 = Some (demo_channel 22 21 TEXT 0)" "find_channel 23 chat0 = Some (demo_channel 23 20 TEXT 0)"
  "find_message 24 chat0 = Some (demo_message 24 23 1 ''plan'')" "find_message 25 chat0 = Some (demo_message 25 22 3 ''hi'')"
  "find_message 28 chat0 = Some (demo_message 28 23 3 ''bye'')"
  by (simp_all add: find_channel_def find_message_def demo_channel_def demo_message_def)

lemma demo_fields [simp]:
  "cn_id (demo_channel i j ty p) = i" "cn_serverId (demo_channel i j ty p) = j" "cn_userLimit (demo_channel i j ty p) = None"
  "ms_id (demo_message i c u x) = i" "ms_channelId (demo_message i c u x) = c" "ms_authorId (demo_message i c u x) = u"
  "ms_content (demo_message i c u x) = x" "ms_reactions (demo_message i c u x) = []"
  by (simp_all add: demo_channel_def demo_message_def)

lemma chat0_ok: "chat_ok chat0"
  by (simp add: chat_ok_def channel_ok_def reactions_ok_def)

lemma chat0_access: "assertAccess (Hex 22) 3 chat0 = (Inr (demo_channel 22 21 TEXT 0), chat0)"
  by (rule assertAccess_pass [OF _ chat0_found(1), where k = "demo_member 21 3 MEMBER"]) simp_all

lemma chat0_access_respelled:
  "assertAccess (Alt 22 ''000000000000000000000016'') 3 chat0 = (Inr (demo_channel 22 21 TEXT 0), chat0)"
  by (rule assertAccess_pass [OF _ chat0_found(1), where k = "demo_member 21 3 MEMBER"]) simp_all

definition hello :: "raw_id option \<Rightarrow> CreateMessageDto" where
  "hello k = \<lparr>cm_content = Some '' hello '', cm_attachments = None, cm_replyToId = k\<rparr>"

lemma hello_content: "cm_content (hello k) = Some '' hello ''" "cm_replyToId (hello k) = k" "trim '' hello '' \<noteq> ''''"
  by (simp_all add: hello_def trim_def is_space_def Let_def)

theorem chat_stays_sound_witness:
  "chat_ok (fold chat_step [(3, Create_message (Hex 22) (hello None)), (1, Remove_channel (Hex 22)), (3, Add_reaction (Hex 22) (Hex 25) ''+1'')] chat0)"
  by (rule chat_stays_sound [OF chat0_ok])

theorem chat_changes_authorised_witness:
  "find_channel 22 (chat_step (3, Remove_channel (Hex 22)) chat0) = find_channel 22 chat0"
proof -
  have "\<not> admin_in 21 3 chat0" by (simp add: admin_in_def demo_member_def less_eq_MemberRole_def)
  moreover have "find_channel 22 (chat_step (3, Remove_channel (Hex 22)) chat0) = find_channel 22 chat0
      \<or> (\<exists>j. admin_in j 3 chat0 \<and> (\<forall>c. find_channel 22 chat0 = Some c \<longrightarrow> cn_serverId c = j))"
    using chat_changes_authorised [OF chat0_ok, of 25 3 "Remove_channel (Hex 22)" 22] by blast
  ultimately show ?thesis using chat0_found(1) by fastforce
qed

theorem history_shows_every_message_once_witness:
  "map mv_id (read_back 4 (Hex 22) 3 (Some 1) None chat0) = [27, 25]"
  using history_shows_every_message_once [OF chat0_ok chat0_access, of 4 "Some 1"] by (simp add: channel_messages_def)

theorem reactions_are_sets_witness:
  "fst (addReaction (Hex 22) (Hex 25) 2 ''+1'' chat0) = Inr () \<and>
   map_option (\<lambda>m. reactors m ''+1'') (find_message 25 (snd (addReaction (Hex 22) (Hex 25) 2 ''+1'' chat0))) = Some {2}"
proof -
  have a: "assertAccess (Hex 22) 2 chat0 = (Inr (demo_channel 22 21 TEXT 0), chat0)"
    by (rule assertAccess_pass [OF _ chat0_found(1), where k = "demo_member 21 2 ADMIN"]) simp_all
  have ok: "fst (addReaction (Hex 22) (Hex 25) 2 ''+1'' chat0) = Inr ()"
    by (simp add: addReaction_def message_in_def await_def a getOrThrow_def)
  have "reactors (demo_message 25 22 3 ''hi'') e = {}" for e by (simp add: reactors_def)
  then show ?thesis using ok reactions_are_sets [OF chat0_ok, of 25 "demo_message 25 22 3 ''hi''" "Hex 25" "Hex 22" 2 "''+1''"] by auto
qed

theorem reply_discloses_foreign_message_witness:
  "\<exists>v rv. fst (create_message (Hex 22) 3 (hello (Some (Hex 24))) chat0) = Inr v \<and> mv_replyTo v = Some (Some rv) \<and> rp_content rv = ''plan''"
proof -
  have f: "find_channel (ms_channelId (demo_message 24 23 1 ''plan'')) chat0 = Some (demo_channel 23 20 TEXT 0)" by simp
  have g: "getMembership (cn_serverId (demo_channel 23 20 TEXT 0)) 3 chat0 = None" by simp
  show ?thesis
    using reply_discloses_foreign_message [where before = None and l = None, OF chat0_ok chat0_access hello_content(1,3,2) chat0_found(3) f g] by auto
qed

theorem former_member_edits_witness:
  "find_message 28 (snd (update_message (Hex 28) 3 ''changed'' chat0)) = Some (edited ''changed'' (clock chat0) (demo_message 28 23 3 ''bye''))"
  using former_member_edits [OF chat0_found(5), of "demo_channel 23 20 TEXT 0" "''changed''"] by simp

theorem removed_server_orphans_channels_witness:
  "fst (assertAccess (Hex 22) 3 (snd (remove_server (Hex 21) 1 chat0))) = Inl (Forbidden ''Not a member of this server'')"
proof -
  have "requireRole (Hex 21) 1 OWNER chat0 = (Inr (demo_member 21 1 OWNER), chat0)"
    by (rule requireRole_pass [OF _ chat0_members(3)]) (simp_all add: demo_member_def)
  then have "remove_server (Hex 21) 1 chat0 = (Inr (), snd (remove_server (Hex 21) 1 chat0))"
    by (simp add: remove_server_def await_def isDefaultServer_def)
  then show ?thesis using removed_server_orphans_channels [of "Hex 21" 1 chat0 _ 21 22 "demo_channel 22 21 TEXT 0" 3] by simp
qed

theorem respelled_message_unheard_witness:
  "\<exists>d. messages (snd (create_message (Alt 22 ''000000000000000000000016'') 3 (hello None) chat0)) = messages chat0 @ [d] \<and> ms_channelId d = 22"
  using respelled_message_unheard [OF chat0_access_respelled hello_content(1,3), of None] by auto

text \<open>Two messages in the same minute, one award.\<close>

theorem messages_earn_bounded_xp_witness:
  "\<exists>d d'. find_user 3 chat0 = Some d \<and> find_user 3 (fold chat_step (replicate 2 (3, Create_message (Hex 22) (hello None))) chat0) = Some d'
     \<and> 12000 * (xp d' - xp d) \<le> clock (fold chat_step (replicate 2 (3, Create_message (Hex 22) (hello None))) chat0) - clock chat0 + 60000"
proof -
  let ?rs = "replicate 2 (3, Create_message (Hex 22) (hello None))"
  obtain d where d: "find_user 3 chat0 = Some d" by (simp add: find_user_def wallet0_defs)
  then obtain d' where d': "find_user 3 (fold chat_step ?rs chat0) = Some d'"
    using chat_run_xp [of 3 chat0 ?rs] by (auto simp: xp_step_def)
  have "last_award 3 chat0 \<le> clock chat0" by (simp add: last_award_def wallet0_defs)
  then show ?thesis using messages_earn_bounded_xp [OF d d'] d d' by blast
qed

end
