(* ===== verification/VoiceGatewayLaws.thy ===== *)
theory VoiceGatewayLaws
  imports VoiceGateway ChatCases
begin

text \<open>
  What the voice gateway promises: every change of who is in which channel is one of the operations of
  \<open>VoicePresence\<close>, with the limit of the stored channel, for members of its server only; and three behaviours at
  the edge of it.
\<close>

section \<open>Steps\<close>

datatype voice_gw_op =
    Vg_connect "(oid \<times> string) option" string
  | Vg_disconnect string
  | Vg_join "raw_id option" string
  | Vg_leave "raw_id option" string
  | Vg_token "raw_id option" string
  | Vg_state StatePayload string
  | Vg_stream_start "stream_source option" string
  | Vg_stream_stop string

fun voice_gw_step :: "livekit \<Rightarrow> SfuConfig \<Rightarrow> voice_gw_op \<Rightarrow> 'a voice_st_scheme \<Rightarrow> 'a voice_st_scheme" where
  "voice_gw_step lk cfg (Vg_connect token c) s = voice_connect token c s"
| "voice_gw_step lk cfg (Vg_disconnect c) s = voice_disconnect c s"
| "voice_gw_step lk cfg (Vg_join body c) s = snd (voice_onJoin lk cfg body c s)"
| "voice_gw_step lk cfg (Vg_leave body c) s = snd (voice_onLeave body c s)"
| "voice_gw_step lk cfg (Vg_token body c) s = snd (voice_onToken lk cfg body c s)"
| "voice_gw_step lk cfg (Vg_state body c) s = snd (voice_onState body c s)"
| "voice_gw_step lk cfg (Vg_stream_start body c) s = snd (onStreamStart body c s)"
| "voice_gw_step lk cfg (Vg_stream_stop c) s = snd (onStreamStop c s)"

section \<open>The gateway moves by operations of the presence service\<close>

text \<open>\<open>J\<close> holds of the spellings of a channel that the joins use.\<close>

definition in_limits :: "(raw_id \<Rightarrow> bool) \<Rightarrow> 'a chat_st_scheme \<Rightarrow> voice_op list \<Rightarrow> bool" where
  "in_limits J s ops \<longleftrightarrow> (\<forall>r i ch n. read_oid r = Some i \<longrightarrow> find_channel i s = Some ch \<longrightarrow> cn_userLimit ch = Some n \<longrightarrow> 0 < n
     \<longrightarrow> list_all (limited r n) ops) \<and> (\<forall>r u c n. Voice_join r u c n \<in> set ops \<longrightarrow> J r)"

definition voice_moves :: "(raw_id \<Rightarrow> bool) \<Rightarrow> 'a voice_st_scheme \<Rightarrow> 'a voice_st_scheme \<Rightarrow> bool" where
  "voice_moves J s t \<longleftrightarrow> channels t = channels s \<and> (\<exists>ops. voice t = fold voice_step ops (voice s) \<and> in_limits J s ops)"

lemma in_limits_frame: "channels t = channels s \<Longrightarrow> in_limits J t ops = in_limits J s ops"
  by (simp add: in_limits_def find_channel_def)

lemma voice_moves_refl [simp]: "voice_moves J s s"
  unfolding voice_moves_def by (intro conjI exI [of _ "[]"]) (simp_all add: in_limits_def)

lemma voice_moves_trans:
  assumes "voice_moves J r s" "voice_moves J s t"
  shows "voice_moves J r t"
proof -
  obtain xs ys where "voice s = fold voice_step xs (voice r)" "in_limits J r xs" "voice t = fold voice_step ys (voice s)" "in_limits J s ys"
      "channels s = channels r" "channels t = channels s"
    using assms by (auto simp: voice_moves_def)
  then show ?thesis unfolding voice_moves_def
    by (intro conjI exI [of _ "xs @ ys"]) (simp_all add: in_limits_frame [of s r J], simp add: in_limits_def, blast)
qed

lemma voice_moves_op:
  assumes "voice_moves J s t" "channels t' = channels t" "voice t' = voice_step op (voice t)" "in_limits J t [op]"
  shows "voice_moves J s t'"
proof -
  have "voice_moves J t t'" unfolding voice_moves_def by (intro conjI exI [of _ "[op]"]) (use assms in simp_all)
  with assms(1) show ?thesis by (rule voice_moves_trans)
qed

lemma voice_moves_same: "voice_moves J s t \<Longrightarrow> channels t' = channels t \<Longrightarrow> voice t' = voice t \<Longrightarrow> voice_moves J s t'"
  by (simp add: voice_moves_def)

lemma unlimited_ops [simp]: "in_limits J s [Remove_socket r u c]" "in_limits J s [Set_state r u st]"
  by (simp_all add: in_limits_def)

lemma voice_frame [simp]:
  "channels (emit_voice tg ev s) = channels s" "voice (emit_voice tg ev s) = voice s"
  "channels (on_voice_rooms c f s) = channels s" "voice (on_voice_rooms c f s) = voice s"
  "channels (on_voice g cs) = channels cs" "voice (on_voice g cs) = g (voice cs)"
  "channels (tell_server r e' s) = channels s" "voice (tell_server r e' s) = voice s"
  by (simp_all add: emit_voice_def on_voice_rooms_def on_voice_def tell_server_def split: option.split)

lemma set_moves: "voice_moves J s (tell_server r e (emit_voice tg ev (on_voice (setState r u st) s)))"
  by (rule voice_moves_op [of J s s _ "Set_state r u st"]) simp_all

lemma stop_moves: "voice_moves J s (stopStreaming r u s)"
proof (cases "vs_streaming (getState r u (voice s))")
  case True
  show ?thesis
    by (rule voice_moves_op [of J s s _ "Set_state r u ((getState r u (voice s))\<lparr>vs_streaming := False\<rparr>)"])
      (use True in \<open>simp_all add: stopStreaming_def Let_def\<close>)
qed (simp add: stopStreaming_def)

lemma voice_moves_stop: "channels (stopStreaming r u s) = channels s"
  using stop_moves [of "\<lambda>_. True" s r u] by (simp add: voice_moves_def)

lemma leave_moves: "voice_moves J s (handleSocketLeave r u c s)"
  by (rule voice_moves_op [OF stop_moves [of J s r u], of _ "Remove_socket r u c"])
    (simp_all add: handleSocketLeave_def Let_def split: prod.split)

lemma previous_moves: "voice_moves J s (leave_previous r u c s)"
  by (auto simp: leave_previous_def intro: voice_moves_same [OF leave_moves] split: option.split)

lemma enter_moves:
  assumes "find_channel (cn_id ch) s = Some ch" "read_oid r = Some (cn_id ch)" "J r"
  shows "voice_moves J s (snd (enter_channel lk cfg ch r c user s))"
proof (rule voice_moves_op [of J s s _ "Voice_join r (vu_id user) c (case cn_userLimit ch of None \<Rightarrow> 0 | Some n \<Rightarrow> n)"])
  let ?res = "voice_join r (vu_id user) c (case cn_userLimit ch of None \<Rightarrow> 0 | Some n \<Rightarrow> n) (voice s)"
  show "in_limits J s [Voice_join r (vu_id user) c (case cn_userLimit ch of None \<Rightarrow> 0 | Some n \<Rightarrow> n)]"
    using assms by (auto simp: in_limits_def)
  show "channels (snd (enter_channel lk cfg ch r c user s)) = channels s"
    "voice (snd (enter_channel lk cfg ch r c user s)) = voice_step (Voice_join r (vu_id user) c (case cn_userLimit ch of None \<Rightarrow> 0 | Some n \<Rightarrow> n)) (voice s)"
    by (cases ?res; simp add: enter_channel_def Let_def announce_join_def split: option.split)+
qed simp

lemma userOf_guard:
  assumes "P s" "\<And>k. voice_clients s c = Some k \<Longrightarrow> P (snd (h (vc_user k) s))"
  shows "P (snd (await (voice_userOf c) h s))"
  using assms by (simp add: voice_userOf_def await_def split: option.split)

lemma find_channel_moves: "voice_moves J s t \<Longrightarrow> find_channel i t = find_channel i s"
  by (simp add: voice_moves_def find_channel_def)

lemma voice_gw_step_moves:
  assumes "\<And>r c. op = Vg_join (Some r) c \<Longrightarrow> J r"
  shows "voice_moves J s (voice_gw_step lk cfg op s)"
proof (cases op)
  case (Vg_connect token c)
  then show ?thesis by (auto simp: voice_connect_def Let_def intro: voice_moves_same [of J s s] split: option.split)
next
  case (Vg_disconnect c)
  have "voice_moves J s (handleSocketLeave r u c (s\<lparr>voice_clients := k\<rparr>))" for r u k
    by (rule voice_moves_trans [OF voice_moves_same [of J s s] leave_moves]) simp_all
  then show ?thesis using Vg_disconnect
    by (auto simp: voice_disconnect_def Let_def intro: voice_moves_same [of J s s] split: option.split)
next
  case (Vg_join body c)
  have enter: "voice_moves J s (snd (enter_channel lk cfg ch r c u (leave_previous r (vu_id u) c s)))"
    if "find_channel (cn_id ch) s = Some ch" "read_oid r = Some (cn_id ch)" "J r" for ch r u
    by (rule voice_moves_trans [OF previous_moves enter_moves])
      (use that in \<open>simp_all add: find_channel_moves [OF previous_moves]\<close>)
  have "voice_moves J s (snd (voice_onJoin lk cfg body c s))"
    unfolding voice_onJoin_def
  proof (rule userOf_guard [where P = "voice_moves J s"], goal_cases)
    case (2 k)
    show ?case
    proof (cases body)
      case (Some r)
      have j: "J r" using assms [of r c] Vg_join Some by simp
      have "voice_moves J s (snd (await (assertAccess r (vu_id (vc_user k))) (\<lambda>ch s.
          if cn_type ch \<noteq> VOICE then throw (WsError ''Channel is not a voice channel'') s
          else enter_channel lk cfg ch r c (vc_user k) (leave_previous r (vu_id (vc_user k)) c s)) s))"
        by (rule access_guard [where P = "voice_moves J s"]) (simp_all add: enter j)
      then show ?thesis using Some by simp
    qed simp
  qed simp
  then show ?thesis using Vg_join by simp
next
  case (Vg_leave body c)
  have "voice_moves J s (handleSocketLeave r u c (on_voice_rooms c f s))" for r u f
    by (rule voice_moves_trans [OF voice_moves_same [of J s s] leave_moves]) simp_all
  then have "voice_moves J s (snd (voice_onLeave body c s))"
    unfolding voice_onLeave_def by (intro userOf_guard [where P = "voice_moves J s"]) (simp_all split: option.split)
  then show ?thesis using Vg_leave by simp
next
  case (Vg_token body c)
  have "voice_moves J s (snd (voice_onToken lk cfg body c s))"
    unfolding voice_onToken_def by (rule userOf_guard [where P = "voice_moves J s"]) (simp_all split: option.split)
  then show ?thesis using Vg_token by simp
next
  case (Vg_state body c)
  have "voice_moves J s (snd (voice_onState body c s))"
    unfolding voice_onState_def
    by (rule userOf_guard [where P = "voice_moves J s"]) (simp_all add: Let_def set_moves split: option.split)
  then show ?thesis using Vg_state by simp
next
  case (Vg_stream_start body c)
  have "voice_moves J s (snd (onStreamStart body c s))"
    unfolding onStreamStart_def
    by (rule userOf_guard [where P = "voice_moves J s"]) (simp_all add: Let_def set_moves split: option.split)
  then show ?thesis using Vg_stream_start by simp
next
  case (Vg_stream_stop c)
  have "voice_moves J s (snd (onStreamStop c s))"
    unfolding onStreamStop_def by (rule userOf_guard [where P = "voice_moves J s"]) (simp_all add: stop_moves split: option.split)
  then show ?thesis using Vg_stream_stop by simp
qed

lemma gw_step_ok:
  assumes "voice_ok (voice s)"
  shows "voice_ok (voice (voice_gw_step lk cfg op s))"
proof -
  have "voice_ok (fold voice_step ops v)" if "voice_ok v" for ops v
    using that by (induction ops arbitrary: v) (simp_all add: voice_step_ok)
  then show ?thesis using voice_gw_step_moves [of op "\<lambda>_. True" s lk cfg] assms by (auto simp: voice_moves_def)
qed

lemma voice_gw_run_moves:
  assumes "\<And>r c. Vg_join (Some r) c \<in> set ops \<Longrightarrow> J r"
  shows "voice_moves J s (fold (voice_gw_step lk cfg) ops s)"
  using assms
proof (induction ops arbitrary: s)
  case (Cons op ops)
  have "voice_moves J s (voice_gw_step lk cfg op s)" by (rule voice_gw_step_moves) (use Cons.prems in auto)
  moreover have "voice_moves J (voice_gw_step lk cfg op s) (fold (voice_gw_step lk cfg) ops (voice_gw_step lk cfg op s))"
    by (rule Cons.IH) (use Cons.prems in auto)
  ultimately show ?case using voice_moves_trans by simp
qed simp

section \<open>Limits\<close>

text \<open>
  A channel is listed under every spelling of its identifier that a join used: who is in it under any of them, and the
  lists that know the spelling the service prints only.
\<close>

definition present :: "oid \<Rightarrow> voice_redis \<Rightarrow> oid set" where
  "present i v = {u. \<exists>r. read_oid r = Some i \<and> u \<in> set (channelKey v r)}"

definition printed :: "raw_id \<Rightarrow> bool" where
  "printed r \<longleftrightarrow> (\<exists>i. r = Hex i)"

definition printed_only :: "voice_redis \<Rightarrow> bool" where
  "printed_only v \<longleftrightarrow> (\<forall>r. channelKey v r \<noteq> [] \<longrightarrow> printed r)"

lemma printed_only_step:
  assumes "printed_only v" "\<And>r u c n. op = Voice_join r u c n \<Longrightarrow> printed r"
  shows "printed_only (voice_step op v)"
proof (cases op)
  case (Voice_join r u c n)
  then show ?thesis using assms by (auto simp: printed_only_def voice_join_def Let_def)
next
  case (Remove_socket r u c)
  then show ?thesis using assms(1) by (auto simp: printed_only_def removeSocket_def Let_def) (metis removeAll.simps(1))
next
  case (Remove_user r u)
  then show ?thesis using assms(1) by (auto simp: printed_only_def removeUser_def) (metis removeAll.simps(1))
next
  case (Set_state r u st)
  then show ?thesis using assms(1) by (simp add: printed_only_def setState_def)
qed

lemma printed_only_run:
  "printed_only v \<Longrightarrow> \<forall>r u c n. Voice_join r u c n \<in> set ops \<longrightarrow> printed r \<Longrightarrow> printed_only (fold voice_step ops v)"
  by (induction ops arbitrary: v) (simp_all, metis printed_only_step)

lemma present_printed: "printed_only v \<Longrightarrow> present i v = set (channelKey v (Hex i))"
proof -
  assume p: "printed_only v"
  have "r = Hex i" if "read_oid r = Some i" "u \<in> set (channelKey v r)" for r u
  proof -
    have "channelKey v r \<noteq> []" using that(2) by auto
    then obtain j where "r = Hex j" using p unfolding printed_only_def printed_def by blast
    then show ?thesis using that(1) by simp
  qed
  then show ?thesis unfolding present_def by force
qed

text \<open>
  C33: Whatever the sockets of the voice gateway send, in any order: the list of a channel under one spelling of its
  identifier never holds more users than the limit of the channel, a user is listed there exactly as long as one of the
  user's sockets is, and never twice. As long as all joins use the spelling the service prints, this bounds
  the users present in the channel.
\<close>

theorem voice_gateway_keeps_limits:
  assumes "voice_ok (voice s)" "read_oid r = Some i" "find_channel i s = Some ch" "cn_userLimit ch = Some n" "0 < n"
    "int (voice_count r (voice s)) \<le> n"
  shows "voice_ok (voice (fold (voice_gw_step lk cfg) ops s)) \<and> int (voice_count r (voice (fold (voice_gw_step lk cfg) ops s))) \<le> n
    \<and> (r = Hex i \<and> printed_only (voice s) \<and> (\<forall>r' c. Vg_join (Some r') c \<in> set ops \<longrightarrow> printed r')
        \<longrightarrow> int (card (present i (voice (fold (voice_gw_step lk cfg) ops s)))) \<le> n)"
proof -
  let ?t = "fold (voice_gw_step lk cfg) ops s" and ?J = "\<lambda>r. \<exists>c. Vg_join (Some r) c \<in> set ops"
  have "voice_moves ?J s ?t" by (rule voice_gw_run_moves) auto
  then obtain xs where xs: "voice ?t = fold voice_step xs (voice s)" "in_limits ?J s xs" by (auto simp: voice_moves_def)
  have "list_all (limited r n) xs" using xs(2) assms by (auto simp: in_limits_def)
  then have run: "voice_ok (voice ?t) \<and> int (voice_count r (voice ?t)) \<le> n" unfolding xs(1) by (rule voice_run_within_limit [OF assms(1,6)])
  have "int (card (present i (voice ?t))) \<le> n"
    if "r = Hex i" "printed_only (voice s)" "\<forall>r' c. Vg_join (Some r') c \<in> set ops \<longrightarrow> printed r'"
  proof -
    have "printed_only (voice ?t)" unfolding xs(1)
      by (rule printed_only_run [OF that(2)]) (use xs(2) that(3) in \<open>auto simp: in_limits_def\<close>)
    then have "card (present i (voice ?t)) \<le> voice_count r (voice ?t)"
      by (simp add: present_printed voice_count_def that(1) card_length)
    then show ?thesis using run by linarith
  qed
  with run show ?thesis by blast
qed

section \<open>Joining\<close>

lemma enter_channel_InrD:
  assumes "enter_channel lk cfg ch r c user s = (Inr reply, t)"
  shows "voice t = (voice s)\<lparr>channelKey := (channelKey (voice s))(r := List.insert (vu_id user) (channelKey (voice s) r)),
      userKey := (userKey (voice s))(vu_id user \<mapsto> r), socketsKey := upd2 r (vu_id user) (List.insert c (socketsKey (voice s) r (vu_id user))) (socketsKey (voice s))\<rparr>
    \<and> voice_clients t = voice_clients (on_voice_rooms c (List.insert r) s)
    \<and> map vv_userId (jr_peers reply) = filter (\<lambda>v. v \<noteq> vu_id user) (channelKey (voice t) r)
    \<and> createToken lk cfg r (vu_id user) (vu_username user) = Some (jr_livekit reply)"
  using assms
  by (auto simp: enter_channel_def Let_def voice_join_def announce_join_def emit_voice_def on_voice_rooms_def throw_def
      buildMembers_def getMembersWithState_def filter_map o_def split: if_splits option.splits)

lemma voice_onJoin_InrD:
  assumes "voice_onJoin lk cfg (Some r) c s = (Inr reply, t)"
  obtains k ch where "voice_clients s c = Some k" "read_oid r = Some (cn_id ch)" "find_channel (cn_id ch) s = Some ch" "cn_type ch = VOICE"
    "getMembership (cn_serverId ch) (vu_id (vc_user k)) s \<noteq> None" "sfu_isEnabled cfg"
    "enter_channel lk cfg ch r c (vc_user k) (leave_previous r (vu_id (vc_user k)) c s) = (Inr reply, t)"
proof -
  obtain k where k: "voice_clients s c = Some k" "sfu_isEnabled cfg"
      "await (assertAccess r (vu_id (vc_user k))) (\<lambda>ch s. if cn_type ch \<noteq> VOICE then throw (WsError ''Channel is not a voice channel'') s
         else enter_channel lk cfg ch r c (vc_user k) (leave_previous r (vu_id (vc_user k)) c s)) s = (Inr reply, t)"
    using assms by (auto simp: voice_onJoin_def voice_userOf_def await_def [of "voice_userOf c"] throw_def split: option.splits if_splits)
  obtain ch s' where "assertAccess r (vu_id (vc_user k)) s = (Inr ch, s')" "cn_type ch = VOICE"
      "enter_channel lk cfg ch r c (vc_user k) (leave_previous r (vu_id (vc_user k)) c s') = (Inr reply, t)"
    by (rule await_InrD [OF k(3)]) (auto simp: throw_def split: if_splits)
  then show thesis using that [OF k(1) _ _ _ _ k(2)] assertAccess_InrD [of r "vu_id (vc_user k)" s ch s'] by auto
qed

lemma stop_frame [simp]:
  "channelKey (voice (stopStreaming r u s)) = channelKey (voice s)" "userKey (voice (stopStreaming r u s)) = userKey (voice s)"
  "socketsKey (voice (stopStreaming r u s)) = socketsKey (voice s)" "voice_clients (stopStreaming r u s) = voice_clients s"
  by (simp_all add: stopStreaming_def Let_def setState_def tell_server_def emit_voice_def on_voice_def split: option.split)

lemma voice_leave_frame:
  "voice_clients (handleSocketLeave r u c s) = voice_clients s"
  "p \<noteq> r \<or> w \<noteq> u \<Longrightarrow> socketsKey (voice (handleSocketLeave r u c s)) p w = socketsKey (voice s) p w"
  "userKey (voice (handleSocketLeave r u c s)) u = Some p \<Longrightarrow> userKey (voice s) u = Some p"
  "w \<noteq> u \<Longrightarrow> userKey (voice (handleSocketLeave r u c s)) w = userKey (voice s) w"
  "socketsKey (voice (handleSocketLeave r u c s)) r u = removeAll c (socketsKey (voice s) r u)"
  by (auto simp: handleSocketLeave_def Let_def removeSocket_def tell_server_def emit_voice_def split: option.splits if_splits)

text \<open>
  Whoever is let into a voice channel is a member of its server and the channel is one for voice; the caller is then in it,
  with this socket, it is the caller's only current channel, and the peers listed are the others who are in it.
\<close>

theorem voice_join_admits_members:
  assumes "voice_onJoin lk cfg (Some r) c s = (Inr reply, t)" "voice_clients s c = Some k"
  shows "(\<exists>ch. read_oid r = Some (cn_id ch) \<and> find_channel (cn_id ch) s = Some ch \<and> cn_type ch = VOICE
        \<and> getMembership (cn_serverId ch) (vu_id (vc_user k)) s \<noteq> None)
    \<and> vu_id (vc_user k) \<in> set (channelKey (voice t) r) \<and> c \<in> set (socketsKey (voice t) r (vu_id (vc_user k)))
    \<and> getChannelOfUser (vu_id (vc_user k)) (voice t) = Some r
    \<and> map vv_userId (jr_peers reply) = filter (\<lambda>v. v \<noteq> vu_id (vc_user k)) (channelKey (voice t) r)"
proof -
  from assms(1) obtain k' ch where j: "voice_clients s c = Some k'" "read_oid r = Some (cn_id ch)" "find_channel (cn_id ch) s = Some ch"
      "cn_type ch = VOICE" "getMembership (cn_serverId ch) (vu_id (vc_user k')) s \<noteq> None"
      "enter_channel lk cfg ch r c (vc_user k') (leave_previous r (vu_id (vc_user k')) c s) = (Inr reply, t)"
    by (rule voice_onJoin_InrD)
  then have "k' = k" using assms(2) by simp
  with j enter_channel_InrD [OF j(6)] show ?thesis by (auto simp: getChannelOfUser_def)
qed

section \<open>Edges\<close>

text \<open>The socket \<open>c\<close> keeps the user in a channel that is no longer the user's current one.\<close>

definition ghost :: "raw_id \<Rightarrow> oid \<Rightarrow> 'a voice_st_scheme \<Rightarrow> bool" where
  "ghost p u s \<longleftrightarrow> socketsKey (voice s) p u \<noteq> [] \<and> userKey (voice s) u \<noteq> Some p"

lemma ghost_survives: "ghost p u s \<Longrightarrow> ghost p u (voice_disconnect c s)"
proof -
  assume g: "ghost p u s"
  show ?thesis
  proof (cases "voice_clients s c")
    case (Some k)
    let ?w = "vu_id (vc_user k)"
    show ?thesis
    proof (cases "userKey (voice s) ?w")
      case None
      then show ?thesis using g Some by (simp add: voice_disconnect_def ghost_def getChannelOfUser_def Let_def)
    next
      case (Some r)
      let ?s = "s\<lparr>voice_clients := (voice_clients s)(c := None)\<rparr>"
      have d: "voice_disconnect c s = handleSocketLeave r ?w c ?s"
        using \<open>voice_clients s c = Some k\<close> Some by (simp add: voice_disconnect_def getChannelOfUser_def Let_def)
      have "p \<noteq> r \<or> u \<noteq> ?w" using g Some by (auto simp: ghost_def)
      then have "socketsKey (voice (handleSocketLeave r ?w c ?s)) p u = socketsKey (voice s) p u" by (simp add: voice_leave_frame(2))
      moreover have "userKey (voice (handleSocketLeave r ?w c ?s)) u \<noteq> Some p"
        using g voice_leave_frame(3) [of r ?w c ?s p] voice_leave_frame(4) [of u ?w r c ?s] by (cases "u = ?w") (auto simp: ghost_def)
      ultimately show ?thesis using g d by (simp add: ghost_def)
    qed
  qed (use g in \<open>simp add: voice_disconnect_def\<close>)
qed

text \<open>
  A user who is in a channel with one device and joins another with a second one stays in the first channel, whatever
  sockets disconnect afterwards.
\<close>

theorem second_device_leaves_ghost:
  assumes "voice_ok (voice s)" "voice_clients s c = Some k" "voice_onJoin lk cfg (Some r) c s = (Inr reply, t)" "p \<noteq> r"
    "d \<in> set (socketsKey (voice s) p (vu_id (vc_user k)))" "d \<noteq> c"
  shows "vu_id (vc_user k) \<in> set (channelKey (voice (fold voice_disconnect cs t)) p)"
proof -
  let ?u = "vu_id (vc_user k)"
  from assms(3) obtain k' ch where "voice_clients s c = Some k'"
      "enter_channel lk cfg ch r c (vc_user k') (leave_previous r (vu_id (vc_user k')) c s) = (Inr reply, t)"
    by (rule voice_onJoin_InrD)
  then have e: "enter_channel lk cfg ch r c (vc_user k) (leave_previous r ?u c s) = (Inr reply, t)" using assms(2) by simp
  have "d \<in> set (socketsKey (voice (leave_previous r ?u c s)) p ?u)"
    using assms(5,6) by (cases "getChannelOfUser ?u (voice s) = Some p") (auto simp: leave_previous_def voice_leave_frame split: option.split)
  then have g: "ghost p ?u t" using enter_channel_InrD [OF e] assms(4) by (auto simp: ghost_def)
  have "ghost p ?u (fold voice_disconnect cs x) \<and> voice_ok (voice (fold voice_disconnect cs x))" if "ghost p ?u x" "voice_ok (voice x)" for x
    using that
  proof (induction cs arbitrary: x)
    case (Cons a cs)
    then show ?case using gw_step_ok [of x lk cfg "Vg_disconnect a"] by (simp add: ghost_survives)
  qed simp
  moreover have "voice_ok (voice t)" using gw_step_ok [OF assms(1), of lk cfg "Vg_join (Some r) c"] assms(3) by simp
  ultimately have "ghost p ?u (fold voice_disconnect cs t)" "voice_ok (voice (fold voice_disconnect cs t))" using g by blast+
  then show ?thesis by (simp add: ghost_def voice_ok_def)
qed

text \<open>
  Anybody who is connected can name any channel and leave it: the channel and its server are told that a user left who was
  never there and may be no member.
\<close>

theorem stranger_leave_announced:
  assumes "voice_clients s c = Some k" "socketsKey (voice s) r (vu_id (vc_user k)) = []" "getServerIdOfChannel r s = Some i"
  shows "(Voice_room r, User_left r (vu_id (vc_user k))) \<in> set (voice_log (snd (voice_onLeave (Some r) c s)))
    \<and> (Voice_server i, Channel_left i r (vu_id (vc_user k))) \<in> set (voice_log (snd (voice_onLeave (Some r) c s)))"
proof -
  have "getServerIdOfChannel r (x :: 'a voice_st_scheme) = Some i" if "channels x = channels s" for x
    using assms(3) that by (simp add: getServerIdOfChannel_def find_channel_def)
  then show ?thesis using assms(1,2) voice_moves_stop [of r "vu_id (vc_user k)" "on_voice_rooms c (removeAll r) s"]
    by (simp add: voice_onLeave_def voice_userOf_def await_def handleSocketLeave_def Let_def removeSocket_def tell_server_def)
      (simp add: emit_voice_def)
qed

text \<open>
  A full channel is entered all the same under another spelling of its identifier, which passes the check of access and
  names an empty list: the channel then holds more users than its limit.
\<close>

theorem respelled_join_exceeds_limit:
  assumes "voice_clients s c = Some k" "sfu_isEnabled cfg" "find_channel i s = Some ch" "cn_type ch = VOICE" "cn_userLimit ch = Some n" "0 < n"
    "getMembership (cn_serverId ch) (vu_id (vc_user k)) s = Some m" "userKey (voice s) (vu_id (vc_user k)) = None"
    "distinct (channelKey (voice s) (Hex i))" "int (voice_count (Hex i) (voice s)) = n" "vu_id (vc_user k) \<notin> set (channelKey (voice s) (Hex i))"
    "channelKey (voice s) (Alt i sp) = []"
  shows "fst (voice_onJoin lk cfg (Some (Hex i)) c s) = Inl (WsError ''Voice channel is full'')
    \<and> (\<exists>reply t us. voice_onJoin lk cfg (Some (Alt i sp)) c s = (Inr reply, t) \<and> us \<subseteq> present i (voice t) \<and> int (card us) = n + 1)"
proof -
  let ?u = "vu_id (vc_user k)" and ?us = "insert (vu_id (vc_user k)) (set (channelKey (voice s) (Hex i)))"
  have go: "voice_onJoin lk cfg (Some r) c s = enter_channel lk cfg ch r c (vc_user k) s" if "read_oid r = Some i" for r
    using assms(1,2,4,8) assertAccess_pass [OF that assms(3,7)]
    by (simp add: voice_onJoin_def voice_userOf_def await_def leave_previous_def getChannelOfUser_def)
  have full: "fst (voice_onJoin lk cfg (Some (Hex i)) c s) = Inl (WsError ''Voice channel is full'')"
    using assms(5,6,10,11) by (simp add: go enter_channel_def voice_join_def voice_count_def throw_def Let_def)
  have "\<exists>reply t. voice_onJoin lk cfg (Some (Alt i sp)) c s = (Inr reply, t)"
    using assms(2,5,6,12) by (simp add: go enter_channel_def Let_def voice_join_def createToken_def)
  then obtain reply t where t: "voice_onJoin lk cfg (Some (Alt i sp)) c s = (Inr reply, t)" by blast
  then have v: "channelKey (voice t) = (channelKey (voice s))(Alt i sp := [?u])"
    using enter_channel_InrD [of lk cfg ch "Alt i sp" c "vc_user k" s reply t] assms(12) by (simp add: go)
  have "?us \<subseteq> present i (voice t)"
  proof
    fix w
    assume "w \<in> ?us"
    then have "w \<in> set (channelKey (voice t) (Alt i sp)) \<or> w \<in> set (channelKey (voice t) (Hex i))" by (auto simp: v)
    moreover have "read_oid (Alt i sp) = Some i" "read_oid (Hex i) = Some i" by simp_all
    ultimately show "w \<in> present i (voice t)" unfolding present_def by blast
  qed
  moreover have "int (card ?us) = n + 1" using assms(9-11) by (simp add: voice_count_def distinct_card)
  ultimately show ?thesis using full t by blast
qed

section \<open>Examples\<close>

text \<open>
  Channel 26 of server 21 takes two users; user 3 is in it on one socket, in no other channel, and connected with a second
  one; the voice channel 29 takes any number.
\<close>

definition voice_channel :: "oid \<Rightarrow> int option \<Rightarrow> Channel" where
  "voice_channel i n = (demo_channel i 21 VOICE 1)\<lparr>cn_userLimit := n\<rparr>"

definition voice1 :: voice_redis where
  "voice1 = snd (voice_join (Hex 26) 3 ''pc'' 2 voice0)"

definition demo_client :: "oid \<Rightarrow> VoiceClient" where
  "demo_client u = \<lparr>vc_user = \<lparr>vu_id = u, vu_username = ''me'', vu_displayName = None, vu_avatarUrl = None\<rparr>, vc_rooms = []\<rparr>"

definition gateway0 :: voice_st where
  "gateway0 = chat_st.extend (chat0\<lparr>channels := [voice_channel 26 (Some 2), voice_channel 29 None], voice := voice1\<rparr>)
     \<lparr>voice_clients = [''pc'' \<mapsto> demo_client 3, ''tab'' \<mapsto> demo_client 3, ''x'' \<mapsto> demo_client 2], voice_log = []\<rparr>"

definition sfu0 :: SfuConfig where
  "sfu0 = \<lparr>sfu_url = ''wss'', sfu_apiKey = ''k'', sfu_apiSecret = ''s''\<rparr>"

definition signer0 :: livekit where
  "signer0 key secret u name rm = key @ secret @ rm"

lemma gateway0_frame [simp]:
  "channels gateway0 = [voice_channel 26 (Some 2), voice_channel 29 None]" "voice gateway0 = voice1" "server_members gateway0 = members0"
  "voice_clients gateway0 = [''pc'' \<mapsto> demo_client 3, ''tab'' \<mapsto> demo_client 3, ''x'' \<mapsto> demo_client 2]"
  by (simp_all add: gateway0_def chat_st.extend_def)

lemma gateway0_clients [simp]:
  "vu_id (vc_user (demo_client u)) = u" "vu_username (vc_user (demo_client u)) = ''me''"
  by (simp_all add: demo_client_def)

lemma gateway0_member [simp]: "getMembership 21 3 gateway0 = Some (demo_member 21 3 MEMBER)"
  by (simp add: getMembership_def members0_def demo_member_def member_key_def)

lemma gateway0_found [simp]:
  "find_channel 26 gateway0 = Some (voice_channel 26 (Some 2))" "find_channel 29 gateway0 = Some (voice_channel 29 None)"
  by (simp_all add: find_channel_def voice_channel_def)

lemma voice_channel_fields [simp]:
  "cn_id (voice_channel i n) = i" "cn_serverId (voice_channel i n) = 21" "cn_type (voice_channel i n) = VOICE" "cn_userLimit (voice_channel i n) = n"
  by (simp_all add: voice_channel_def demo_channel_def)

lemma voice1_fields [simp]:
  "channelKey voice1 (Hex 26) = [3]" "userKey voice1 3 = Some (Hex 26)" "socketsKey voice1 (Hex 26) 3 = [''pc'']" "socketsKey voice1 r 2 = []"
  by (simp_all add: voice1_def voice_join_def voice0_def Let_def)

lemma voice1_ok: "voice_ok voice1"
  unfolding voice1_def by (rule voice_join_ok [OF voice0_ok])

lemma voice1_printed: "printed_only voice1"
  by (simp add: printed_only_def printed_def voice1_def voice_join_def voice0_def Let_def)

theorem voice_gateway_keeps_limits_witness:
  "int (voice_count (Hex 26) (voice (fold (voice_gw_step signer0 sfu0) [Vg_join (Some (Hex 26)) ''tab'', Vg_join (Some (Hex 26)) ''x''] gateway0))) \<le> 2
   \<and> int (card (present 26 (voice (fold (voice_gw_step signer0 sfu0) [Vg_join (Some (Hex 26)) ''tab'', Vg_join (Some (Hex 26)) ''x''] gateway0)))) \<le> 2"
proof -
  let ?ops = "[Vg_join (Some (Hex 26)) ''tab'', Vg_join (Some (Hex 26)) ''x'']"
  have "voice_ok (voice gateway0)" "int (voice_count (Hex 26) (voice gateway0)) \<le> 2" by (simp_all add: voice1_ok voice_count_def)
  moreover have "\<forall>r c. Vg_join (Some r) c \<in> set ?ops \<longrightarrow> printed r" by (simp add: printed_def)
  ultimately show ?thesis
    using voice_gateway_keeps_limits [of gateway0 "Hex 26" 26 "voice_channel 26 (Some 2)" 2 signer0 sfu0 ?ops] voice1_printed
    by simp
qed

lemma voice_join_pass:
  assumes "read_oid r = Some i" "find_channel i s = Some ch" "cn_type ch = VOICE" "getMembership (cn_serverId ch) (vu_id (vc_user k)) s = Some m"
    "voice_clients s c = Some k" "sfu_isEnabled cfg" "cn_userLimit ch = None"
  obtains reply t where "voice_onJoin lk cfg (Some r) c s = (Inr reply, t)"
proof -
  have "voice_onJoin lk cfg (Some r) c s = enter_channel lk cfg ch r c (vc_user k) (leave_previous r (vu_id (vc_user k)) c s)"
    using assms(3,5,6) assertAccess_pass [OF assms(1,2,4)] by (simp add: voice_onJoin_def voice_userOf_def await_def)
  moreover have "\<exists>reply t. enter_channel lk cfg ch r c user x = (Inr reply, t)" for user x
    using assms(6,7) by (simp add: enter_channel_def Let_def voice_join_def createToken_def)
  ultimately show thesis using that by metis
qed

lemma tab_joins: "\<exists>reply t. voice_onJoin signer0 sfu0 (Some (Hex 29)) ''tab'' gateway0 = (Inr reply, t)"
proof -
  have "sfu_isEnabled sfu0" by (simp add: sfu_isEnabled_def sfu0_def)
  then obtain reply t where "voice_onJoin signer0 sfu0 (Some (Hex 29)) ''tab'' gateway0 = (Inr reply, t)"
    by (rule voice_join_pass [where i = 29 and ch = "voice_channel 29 None" and r = "Hex 29" and s = gateway0 and c = "''tab''"
          and k = "demo_client 3" and m = "demo_member 21 3 MEMBER", rotated 5]) simp_all
  then show ?thesis by blast
qed

theorem voice_join_admits_members_witness:
  "\<exists>t. voice_onJoin signer0 sfu0 (Some (Hex 29)) ''tab'' gateway0 = (fst (voice_onJoin signer0 sfu0 (Some (Hex 29)) ''tab'' gateway0), t)
     \<and> 3 \<in> set (channelKey (voice t) (Hex 29)) \<and> getChannelOfUser 3 (voice t) = Some (Hex 29)"
  using tab_joins voice_join_admits_members [of signer0 sfu0 "Hex 29" "''tab''" gateway0 _ _ "demo_client 3"] by fastforce

theorem second_device_leaves_ghost_witness:
  "3 \<in> set (channelKey (voice (fold voice_disconnect [''tab'', ''pc''] (snd (voice_onJoin signer0 sfu0 (Some (Hex 29)) ''tab'' gateway0)))) (Hex 26))"
  using tab_joins second_device_leaves_ghost [of gateway0 "''tab''" "demo_client 3" signer0 sfu0 "Hex 29" _ _ "Hex 26" "''pc''" "[''tab'', ''pc'']"] voice1_ok
  by fastforce

theorem respelled_join_exceeds_limit_witness:
  "\<exists>reply t us. voice_onJoin signer0 sfu0 (Some (Alt 26 ''1A'')) ''x'' (gateway0\<lparr>channels := [voice_channel 26 (Some 1)]\<rparr>) = (Inr reply, t)
     \<and> us \<subseteq> present 26 (voice t) \<and> card us = 2"
proof -
  have m: "getMembership 21 2 (gateway0\<lparr>channels := [voice_channel 26 (Some 1)]\<rparr>) = Some (demo_member 21 2 ADMIN)"
    by (simp add: getMembership_def members0_def demo_member_def member_key_def)
  have f: "sfu_isEnabled sfu0" "userKey voice1 2 = None" "channelKey voice1 (Alt 26 ''1A'') = []"
    by (simp_all add: sfu_isEnabled_def sfu0_def voice1_def voice_join_def voice0_def Let_def)
  show ?thesis
    using respelled_join_exceeds_limit [of "gateway0\<lparr>channels := [voice_channel 26 (Some 1)]\<rparr>" "''x''" "demo_client 2" sfu0 26 "voice_channel 26 (Some 1)" 1
      "demo_member 21 2 ADMIN" "''1A''" signer0] m f
    by (simp add: find_channel_def voice_count_def)
qed

theorem stranger_leave_announced_witness:
  "(Voice_server 21, Channel_left 21 (Hex 26) 2) \<in> set (voice_log (snd (voice_onLeave (Some (Hex 26)) ''x'' gateway0)))"
proof -
  have "getServerIdOfChannel (Hex 26) gateway0 = Some 21" by (simp add: getServerIdOfChannel_def)
  then show ?thesis using stranger_leave_announced [of gateway0 "''x''" "demo_client 2" "Hex 26" 21] by simp
qed

end
