(* ===== verification/ChatGateway.thy ===== *)
theory ChatGateway
  imports Messages
begin

text \<open>
  \<open>src/chat-gateway/chat.gateway.ts\<close>: the sockets of the \<open>/ws\<close> namespace, the rooms they are in, and the messages
  they send, which the services of channels, messages, direct messages and accounts carry out. The adapter's table of
  rooms is the list of rooms kept with every socket.
\<close>

section \<open>State\<close>

text \<open>The rooms \<open>user:{id}\<close> and \<open>server:{id}\<close> are named by the gateway, \<open>channel:{id}\<close> by what the client sent.\<close>

datatype ws_room = Ws_user oid | Ws_server oid | Ws_channel raw_id

datatype ws_target = Ws_client string | Ws_in ws_room | Ws_others ws_room string

datatype ws_event =
    Ws_invalid_token
  | Presence_changed oid PresenceStatus
  | Ws_typing raw_id oid bool

record WsClient =
  wc_id :: string
  wc_userId :: oid
  wc_username :: string
  wc_rooms :: "ws_room list"

record ws_st = chat_st +
  ws_clients :: "WsClient list"
  ws_log :: "(ws_target \<times> ws_event) list"

definition emit_ws :: "ws_target \<Rightarrow> ws_event \<Rightarrow> 'a ws_st_scheme \<Rightarrow> 'a ws_st_scheme" where
  "emit_ws tg e s = s\<lparr>ws_log := ws_log s @ [(tg, e)]\<rparr>"

definition find_client :: "string \<Rightarrow> 'a ws_st_scheme \<Rightarrow> WsClient option" where
  "find_client c s = List.find (\<lambda>k. wc_id k = c) (ws_clients s)"

definition ws_userOf :: "string \<Rightarrow> 'a ws_st_scheme \<Rightarrow> (WsClient, 'a ws_st_scheme) outcome" where
  "ws_userOf c s = (case find_client c s of None \<Rightarrow> throw (WsError ''Unauthorized'') s | Some k \<Rightarrow> return k s)"

text \<open>\<open>client.join\<close> and \<open>client.leave\<close>.\<close>

definition on_rooms :: "string \<Rightarrow> (ws_room list \<Rightarrow> ws_room list) \<Rightarrow> 'a ws_st_scheme \<Rightarrow> 'a ws_st_scheme" where
  "on_rooms c f s = s\<lparr>ws_clients := updateOne (\<lambda>k. wc_id k = c) (\<lambda>k. k\<lparr>wc_rooms := f (wc_rooms k)\<rparr>) (ws_clients s)\<rparr>"

text \<open>\<open>fetchSockets\<close> of the room of a user.\<close>

definition sockets_of :: "oid \<Rightarrow> 'a ws_st_scheme \<Rightarrow> WsClient list" where
  "sockets_of u s = filter (\<lambda>k. Ws_user u \<in> set (wc_rooms k)) (ws_clients s)"

definition broadcastPresence :: "oid \<Rightarrow> PresenceStatus \<Rightarrow> 'a ws_st_scheme \<Rightarrow> 'a ws_st_scheme" where
  "broadcastPresence u p s = foldl (\<lambda>s sid. emit_ws (Ws_in (Ws_server sid)) (Presence_changed u p) s) s (listServerIdsForUser u s)"

section \<open>Connections\<close>

text \<open>The guard has read the token.\<close>

definition ws_connect :: "(oid \<times> string) option \<Rightarrow> string \<Rightarrow> 'a ws_st_scheme \<Rightarrow> 'a ws_st_scheme" where
  "ws_connect token c s =
     (case token of
        None \<Rightarrow> emit_ws (Ws_client c) Ws_invalid_token s
      | Some (u, name) \<Rightarrow>
          let k = \<lparr>wc_id = c, wc_userId = u, wc_username = name, wc_rooms = Ws_user u # map Ws_server (listServerIdsForUser u s)\<rparr>;
              (p, s) = goOnline u (s\<lparr>ws_clients := ws_clients s @ [k]\<rparr>)
          in broadcastPresence u p s)"

definition ws_disconnect :: "string \<Rightarrow> 'a ws_st_scheme \<Rightarrow> 'a ws_st_scheme" where
  "ws_disconnect c s =
     (case find_client c s of
        None \<Rightarrow> s
      | Some k \<Rightarrow>
          let u = wc_userId k; s = s\<lparr>ws_clients := filter (\<lambda>k. wc_id k \<noteq> c) (ws_clients s)\<rparr>
          in if sockets_of u s = [] then broadcastPresence u OFFLINE (goOffline u s) else s)"

section \<open>Channels\<close>

definition onChannelJoin :: "raw_id \<Rightarrow> string \<Rightarrow> 'a ws_st_scheme \<Rightarrow> (raw_id, 'a ws_st_scheme) outcome" where
  "onChannelJoin r c = await (ws_userOf c) (\<lambda>k. await (assertAccess r (wc_userId k)) (\<lambda>_ s.
     return r (on_rooms c (List.insert (Ws_channel r)) s)))"

definition onChannelLeave :: "raw_id \<Rightarrow> string \<Rightarrow> 'a ws_st_scheme \<Rightarrow> (raw_id, 'a ws_st_scheme) outcome" where
  "onChannelLeave r c s = return r (on_rooms c (removeAll (Ws_channel r)) s)"

definition onMessageSend :: "raw_id \<Rightarrow> CreateMessageDto \<Rightarrow> string \<Rightarrow> 'a ws_st_scheme \<Rightarrow> (MessageView, 'a ws_st_scheme) outcome" where
  "onMessageSend r dto c = await (ws_userOf c) (\<lambda>k. create_message r (wc_userId k) dto)"

definition onMessageEdit :: "raw_id \<Rightarrow> string \<Rightarrow> string \<Rightarrow> 'a ws_st_scheme \<Rightarrow> (MessageView, 'a ws_st_scheme) outcome" where
  "onMessageEdit r content c = await (ws_userOf c) (\<lambda>k. update_message r (wc_userId k) content)"

definition onMessageDelete :: "raw_id \<Rightarrow> string \<Rightarrow> 'a ws_st_scheme \<Rightarrow> (unit, 'a ws_st_scheme) outcome" where
  "onMessageDelete r c = await (ws_userOf c) (\<lambda>k. remove_message r (wc_userId k))"

text \<open>\<open>onTypingStart\<close> and \<open>onTypingStop\<close>, which differ in the flag they send.\<close>

definition onTyping :: "bool \<Rightarrow> raw_id \<Rightarrow> string \<Rightarrow> 'a ws_st_scheme \<Rightarrow> (unit, 'a ws_st_scheme) outcome" where
  "onTyping b r c = await (ws_userOf c) (\<lambda>k s.
     return () (emit_ws (Ws_others (Ws_channel r) c) (Ws_typing r (wc_userId k) b) s))"

section \<open>Presence\<close>

definition onPresenceUpdate :: "PresenceStatus \<Rightarrow> string \<Rightarrow> 'a ws_st_scheme \<Rightarrow> (PresenceStatus, 'a ws_st_scheme) outcome" where
  "onPresenceUpdate p c = await (ws_userOf c) (\<lambda>k s.
     return p (broadcastPresence (wc_userId k) p (snd (setPresence (wc_userId k) p s))))"

section \<open>Direct messages\<close>

definition onDmSend :: "aead \<Rightarrow> SendDmDto \<Rightarrow> string \<Rightarrow> 'a ws_st_scheme \<Rightarrow> (DmMessage, 'a ws_st_scheme) outcome" where
  "onDmSend ci dto c = await (ws_userOf c) (\<lambda>k. send ci (wc_userId k) dto)"

text \<open>\<open>onDmTypingStart\<close> and \<open>onDmTypingStop\<close>.\<close>

definition onDmTyping :: "bool \<Rightarrow> raw_id \<Rightarrow> string \<Rightarrow> 'a ws_st_scheme \<Rightarrow> (unit, 'a ws_st_scheme) outcome" where
  "onDmTyping b r c = await (ws_userOf c) (\<lambda>k. typing (wc_userId k) r b)"

definition onDmRead :: "raw_id \<Rightarrow> string \<Rightarrow> 'a ws_st_scheme \<Rightarrow> (unit, 'a ws_st_scheme) outcome" where
  "onDmRead r c = await (ws_userOf c) (\<lambda>k. markRead (wc_userId k) r)"

end
