(* ===== verification/ChatGatewayLaws.thy ===== *)
theory ChatGatewayLaws
  imports ChatGateway ChatCases
begin

text \<open>
  What the chat gateway promises: the presence of an account follows its sockets; and two behaviours at the edge of it,
  of sockets that stay in rooms and of typing indicators.
\<close>

section \<open>What the services leave alone\<close>

definition presence_of :: "oid \<Rightarrow> 'a env_st_scheme \<Rightarrow> (PresenceStatus \<times> PresenceStatus) option" where
  "presence_of u s = map_option (\<lambda>d. (presence d, desiredPresence d)) (find_user u s)"

definition ws_frame :: "'a ws_st_scheme \<Rightarrow> 'a ws_st_scheme \<Rightarrow> bool" where
  "ws_frame s t \<longleftrightarrow> ws_clients t = ws_clients s \<and> (\<forall>u. presence_of u t = presence_of u s)
     \<and> server_members t = server_members s \<and> channels t = channels s"

lemma ws_frame_refl [simp]: "ws_frame s s"
  by (simp add: ws_frame_def)

lemma ws_frame_trans: "ws_frame r s \<Longrightarrow> ws_frame s t \<Longrightarrow> ws_frame r t"
  by (simp add: ws_frame_def)

lemma presence_set_user:
  "(\<And>d. u_id (f d) = u_id d \<and> presence (f d) = presence d \<and> desiredPresence (f d) = desiredPresence d) \<Longrightarrow> presence_of w (set_user u f s) = presence_of w s"
  by (cases "find_user u s") (auto simp: presence_of_def find_set_user option.map_comp o_def)

lemma ws_set_user_frame [simp]:
  "ws_frame r (set_user u (\<lambda>d. d\<lparr>xp := xp d + a\<rparr>) s) = ws_frame r s" "ws_frame r (set_user u (level_update (\<lambda>_. n)) s) = ws_frame r s"
  by (simp_all add: ws_frame_def presence_set_user) (simp_all add: set_user_def)

lemma presence_users [simp]:
  "presence_of u (s\<lparr>next_id := n\<rparr>) = presence_of u s" "presence_of u (ms\<lparr>messages := m\<rparr>) = presence_of u ms"
  "presence_of u (cs\<lparr>lastXpAt := x\<rparr>) = presence_of u cs" "presence_of u (ns\<lparr>notifs := ds, notif_log := l\<rparr>) = presence_of u ns"
  "presence_of u (ls\<lparr>level_log := ll\<rparr>) = presence_of u ls" "presence_of u (hs\<lparr>chat_log := hl\<rparr>) = presence_of u hs"
  "presence_of u (fs\<lparr>convs := co\<rparr>) = presence_of u fs" "presence_of u (gs\<lparr>dm_msgs := dm\<rparr>) = presence_of u gs"
  "presence_of u (is\<lparr>dm_log := dl\<rparr>) = presence_of u is"
  by (simp_all add: presence_of_def find_user_def)

lemma ws_notify_frame [simp]: "ws_frame r (best_effort (notify x p) s) = ws_frame r s"
  by (auto simp: ws_frame_def best_effort_def notify_def fresh_id_def Let_def presence_of_def find_user_def split: option.split)

lemma ws_emit_level_frame [simp]:
  "ws_frame r (emit_level y z s) = ws_frame r s" "ws_frame r (foldl (\<lambda>s sid. emit_level (f sid) (g sid) s) s xs) = ws_frame r s"
proof -
  show *: "ws_frame r (emit_level y z s) = ws_frame r s" for y z s by (simp add: ws_frame_def emit_level_def)
  show "ws_frame r (foldl (\<lambda>s sid. emit_level (f sid) (g sid) s) s xs) = ws_frame r s" by (induction xs arbitrary: s) (simp_all add: *)
qed

lemma ws_addXp_frame: "ws_frame s (snd (addXp u a x s))"
  by (simp add: addXp_def Let_def split: option.split)


lemma update_frame [simp]:
  "ws_frame r (s\<lparr>messages := m\<rparr>) = ws_frame r s" "ws_frame r (s\<lparr>next_id := n\<rparr>) = ws_frame r s" "ws_frame r (emit_chat rm e s) = ws_frame r s"
  "ws_frame r (set_message i f s) = ws_frame r s" "ws_frame r (s\<lparr>convs := co\<rparr>) = ws_frame r s" "ws_frame r (s\<lparr>dm_msgs := dm\<rparr>) = ws_frame r s"
  "ws_frame r (s\<lparr>dm_log := dl\<rparr>) = ws_frame r s" "ws_frame r (bump i to_id s) = ws_frame r s" "ws_frame r (s\<lparr>lastXpAt := l\<rparr>) = ws_frame r s"
  by (simp_all add: ws_frame_def emit_chat_def set_message_def bump_def)

lemma ws_award_frame: "ws_frame r s \<Longrightarrow> ws_frame r (awardMessageXp u s)"
  by (auto simp: awardMessageXp_def Let_def intro!: ws_frame_trans [OF _ ws_addXp_frame])

lemmas ws_guards =
  access_guard [where P = "ws_frame s" for s] message_guard [where P = "ws_frame s" for s] channel_guard [where P = "ws_frame s" for s]

lemma message_frames:
  "ws_frame s (snd (create_message r u dto s))" "ws_frame s (snd (update_message r u content s))" "ws_frame s (snd (remove_message r u s))"
proof -
  show "ws_frame s (snd (create_message r u dto s))"
    unfolding create_message_def by (rule ws_guards(1)) (simp_all add: Let_def fresh_id_def ws_award_frame)
  show "ws_frame s (snd (update_message r u content s))"
    unfolding update_message_def by (rule ws_guards(2)) (simp_all add: Let_def)
  show "ws_frame s (snd (remove_message r u s))"
    unfolding remove_message_def
    by (rule ws_guards(2), simp, rule ws_guards(3), simp, rule await_guard [where P = "ws_frame s"])
      (simp_all add: requireRole_state requireMembership_state)
qed

lemma open_conv: "ws_frame s (snd (getOrCreateConversation u w s))"
  by (auto simp: getOrCreateConversation_def findByIdOrThrow_def await_def fresh_id_def Let_def throw_def split: option.split)

lemma conv_guard:
  assumes "\<And>c t. ws_frame s t \<Longrightarrow> ws_frame s (snd (k c t))"
  shows "ws_frame s (snd (await (getOrCreateConversation u w) k s))"
proof (rule await_snd [where P = "ws_frame s"])
  show "ws_frame s (snd (k c t))" if "getOrCreateConversation u w s = (Inr c, t)" for c t
    using open_conv [of s u w] that assms by simp
qed (rule open_conv)

lemma dm_frames:
  "ws_frame s (snd (send ci u x s))" "ws_frame s (snd (typing u r b s))" "ws_frame s (snd (markRead u r s))"
proof -
  show "ws_frame s (snd (send ci u x s))"
    unfolding send_def
    by (rule await_guard [where P = "ws_frame s"])
      (auto simp: assertCanDm_def throw_def Let_def fresh_id_def intro!: conv_guard split: option.split)
  show "ws_frame s (snd (typing u r b s))" "ws_frame s (snd (markRead u r s))"
    unfolding typing_def markRead_def
    by (rule await_guard [where P = "ws_frame s"]; simp add: requireParticipant_def throw_def Let_def split: option.split)+
qed

section \<open>Presence\<close>

datatype ws_op =
    Ws_connect "(oid \<times> string) option"
  | Ws_disconnect
  | Channel_join raw_id
  | Channel_leave raw_id
  | Message_send raw_id CreateMessageDto
  | Message_edit raw_id string
  | Message_delete raw_id
  | Typing bool raw_id
  | Presence_update PresenceStatus
  | Dm_send SendDmDto
  | Dm_typing_op bool raw_id
  | Dm_read_op raw_id

text \<open>A socket that connects is new: the adapter gives every connection an identifier of its own.\<close>

fun ws_step :: "aead \<Rightarrow> string \<times> ws_op \<Rightarrow> 'a ws_st_scheme \<Rightarrow> 'a ws_st_scheme" where
  "ws_step ci (c, Ws_connect token) s = (if find_client c s = None then ws_connect token c s else s)"
| "ws_step ci (c, Ws_disconnect) s = ws_disconnect c s"
| "ws_step ci (c, Channel_join r) s = snd (onChannelJoin r c s)"
| "ws_step ci (c, Channel_leave r) s = snd (onChannelLeave r c s)"
| "ws_step ci (c, Message_send r dto) s = snd (onMessageSend r dto c s)"
| "ws_step ci (c, Message_edit r x) s = snd (onMessageEdit r x c s)"
| "ws_step ci (c, Message_delete r) s = snd (onMessageDelete r c s)"
| "ws_step ci (c, Typing b r) s = snd (onTyping b r c s)"
| "ws_step ci (c, Presence_update p) s = snd (onPresenceUpdate p c s)"
| "ws_step ci (c, Dm_send x) s = snd (onDmSend ci x c s)"
| "ws_step ci (c, Dm_typing_op b r) s = snd (onDmTyping b r c s)"
| "ws_step ci (c, Dm_read_op r) s = snd (onDmRead r c s)"

text \<open>An account shows what it chose, or online where it chose to be offline, as long as it has a socket, else offline.\<close>

definition shown :: "bool \<Rightarrow> PresenceStatus \<times> PresenceStatus \<Rightarrow> bool" where
  "shown live p \<longleftrightarrow> (if live then fst p = snd p \<or> fst p = ONLINE \<and> snd p = OFFLINE else fst p = OFFLINE)"

definition live :: "oid \<Rightarrow> 'a ws_st_scheme \<Rightarrow> bool" where
  "live u s \<longleftrightarrow> u \<in> set (map wc_userId (ws_clients s))"

definition ws_ok :: "'a ws_st_scheme \<Rightarrow> bool" where
  "ws_ok s \<longleftrightarrow> distinct (map wc_id (ws_clients s))
     \<and> (\<forall>k \<in> set (ws_clients s). \<forall>u. Ws_user u \<in> set (wc_rooms k) \<longleftrightarrow> u = wc_userId k)
     \<and> (\<forall>u p. presence_of u s = Some p \<longrightarrow> shown (live u s) p)"

lemma ws_ok_frame: "ws_frame s t \<Longrightarrow> ws_ok s \<Longrightarrow> ws_ok t"
  by (simp add: ws_frame_def ws_ok_def live_def)

lemma ws_ok_presence: "ws_ok s \<Longrightarrow> presence_of u s = Some p \<Longrightarrow> shown (live u s) p"
  unfolding ws_ok_def by blast

lemma ws_broadcast_frame [simp]: "ws_frame r (broadcastPresence u p s) = ws_frame r s" "ws_frame r (emit_ws tg e s) = ws_frame r s"
proof -
  show *: "ws_frame r (emit_ws tg e s) = ws_frame r s" for tg e s by (simp add: ws_frame_def emit_ws_def presence_of_def find_user_def)
  have "ws_frame r (foldl (\<lambda>s sid. emit_ws (f sid) (g sid) s) s xs) = ws_frame r s" for f g xs
    by (induction xs arbitrary: s) (simp_all add: *)
  then show "ws_frame r (broadcastPresence u p s) = ws_frame r s" by (simp add: broadcastPresence_def)
qed

lemma ws_ok_broadcast: "ws_ok s \<Longrightarrow> ws_ok (broadcastPresence u p s)" "ws_ok s \<Longrightarrow> ws_ok (emit_ws tg e s)"
  by (rule ws_ok_frame [of s]; simp)+

lemma set_presence_of:
  assumes "\<And>d. u_id (f d) = u_id d"
  shows "presence_of w (set_user u f s) = (if w = u then map_option (\<lambda>d. (presence (f d), desiredPresence (f d))) (find_user u s) else presence_of w s)"
  using assms by (simp add: presence_of_def find_set_user option.map_comp o_def)

lemma presence_clients [simp]: "presence_of u (s\<lparr>ws_clients := ks\<rparr>) = presence_of u s"
  by (simp add: presence_of_def find_user_def)

lemma set_user_clients [simp]: "ws_clients (set_user u f s) = ws_clients s"
  by (simp add: set_user_def)

lemma find_client_NoneD: "find_client c s = None \<Longrightarrow> c \<notin> wc_id ` set (ws_clients s)"
  by (auto simp: find_client_def find_None_iff)

lemma find_client_SomeD: "find_client c s = Some k \<Longrightarrow> k \<in> set (ws_clients s) \<and> wc_id k = c"
  by (simp add: find_client_def find_Some_iff) (metis nth_mem)

lemma connect_ok:
  assumes "ws_ok s" "find_client c s = None"
  shows "ws_ok (ws_connect token c s)"
proof (cases token)
  case (Some a)
  obtain u name where a: "a = (u, name)" by fastforce
  let ?k = "\<lparr>wc_id = c, wc_userId = u, wc_username = name, wc_rooms = Ws_user u # map Ws_server (listServerIdsForUser u s)\<rparr>"
  let ?t = "snd (goOnline u (s\<lparr>ws_clients := ws_clients s @ [?k]\<rparr>))"
  have t: "ws_clients ?t = ws_clients s @ [?k]" "live w ?t \<longleftrightarrow> w = u \<or> live w s" "w \<noteq> u \<Longrightarrow> presence_of w ?t = presence_of w s" for w
    by (auto simp: goOnline_def Let_def set_presence_of live_def)
  have "shown True p" if "presence_of u ?t = Some p" for p
    using that by (auto simp: goOnline_def Let_def set_presence_of shown_def find_user_def split: option.splits if_splits)
  then have "shown (live w ?t) p" if "presence_of w ?t = Some p" for w p
    using that t(2,3) [of w] ws_ok_presence [OF assms(1), of w p] by (cases "w = u") auto
  then have "ws_ok ?t" using assms(1) find_client_NoneD [OF assms(2)] by (auto simp: ws_ok_def t(1))
  then show ?thesis unfolding Some a ws_connect_def
    by (auto simp: split_def Let_def intro: ws_ok_broadcast)
qed (use assms in \<open>simp add: ws_connect_def ws_ok_broadcast\<close>)

lemma disconnect_ok:
  assumes "ws_ok s"
  shows "ws_ok (ws_disconnect c s)"
proof (cases "find_client c s")
  case (Some k)
  let ?s = "s\<lparr>ws_clients := filter (\<lambda>k. wc_id k \<noteq> c) (ws_clients s)\<rparr>"
  have k: "k \<in> set (ws_clients s)" "wc_id k = c" using find_client_SomeD [OF Some] by auto
  have "x = k" if "x \<in> set (ws_clients s)" "wc_id x = c" for x
    using assms that k by (auto simp: ws_ok_def distinct_map inj_on_def)
  then have others: "live u ?s = live u s" if "u \<noteq> wc_userId k" for u
    using that by (auto simp: live_def image_iff)
  have live: "sockets_of (wc_userId k) ?s = [] \<longleftrightarrow> \<not> live (wc_userId k) ?s" "live (wc_userId k) s"
    using assms k by (auto simp: sockets_of_def ws_ok_def filter_empty_conv live_def)
  have d: "distinct (map wc_id (ws_clients ?s))" "\<forall>x \<in> set (ws_clients ?s). \<forall>u. Ws_user u \<in> set (wc_rooms x) \<longleftrightarrow> u = wc_userId x"
    using assms by (auto simp: ws_ok_def distinct_map_filter)
  show ?thesis
  proof (cases "sockets_of (wc_userId k) ?s = []")
    case True
    have "shown (live u ?s) p" if "presence_of u (goOffline (wc_userId k) ?s) = Some p" for u p
    proof (cases "u = wc_userId k")
      case eq: True
      show ?thesis using that True live(1) by (auto simp: eq goOffline_def set_presence_of shown_def)
    next
      case False
      then show ?thesis using that others [of u] ws_ok_presence [OF assms] by (simp add: goOffline_def set_presence_of)
    qed
    then have "ws_ok (goOffline (wc_userId k) ?s)" using d by (simp add: ws_ok_def goOffline_def live_def)
    then show ?thesis using Some True by (simp add: ws_disconnect_def Let_def ws_ok_broadcast)
  next
    case False
    have "shown (live u ?s) p" if "presence_of u s = Some p" for u p
      using that False live others [of u] ws_ok_presence [OF assms that] by (cases "u = wc_userId k") simp_all
    then have "ws_ok ?s" using d by (simp add: ws_ok_def)
    then show ?thesis using Some False by (simp add: ws_disconnect_def Let_def)
  qed
qed (use assms in \<open>simp add: ws_disconnect_def\<close>)

lemma ws_user_guard:
  assumes "P s" "\<And>k. \<lbrakk>k \<in> set (ws_clients s); wc_id k = c\<rbrakk> \<Longrightarrow> P (snd (h k s))"
  shows "P (snd (await (ws_userOf c) h s))"
  using assms by (auto simp: ws_userOf_def await_def throw_def dest: find_client_SomeD split: option.split)

lemma rooms_ok:
  assumes "ws_ok s" "\<And>rs u. Ws_user u \<in> set (f rs) \<longleftrightarrow> Ws_user u \<in> set rs"
  shows "ws_ok (on_rooms c f s)"
proof -
  let ?ks = "updateOne (\<lambda>k. wc_id k = c) (\<lambda>k. k\<lparr>wc_rooms := f (wc_rooms k)\<rparr>) (ws_clients s)"
  have "map wc_id ?ks = map wc_id (ws_clients s)" "map wc_userId ?ks = map wc_userId (ws_clients s)" by (simp_all add: map_updateOne)
  moreover have "\<forall>k \<in> set ?ks. \<forall>u. Ws_user u \<in> set (wc_rooms k) \<longleftrightarrow> u = wc_userId k"
    by (rule updateOne_all) (use assms in \<open>auto simp: ws_ok_def\<close>)
  ultimately show ?thesis using assms(1) by (simp add: ws_ok_def on_rooms_def live_def del: set_map)
qed

lemma update_ok:
  assumes "ws_ok s" "k \<in> set (ws_clients s)"
  shows "ws_ok (snd (setPresence (wc_userId k) p s))"
proof -
  let ?t = "snd (setPresence (wc_userId k) p s)"
  have t: "ws_clients ?t = ws_clients s" "live u ?t = live u s" "u \<noteq> wc_userId k \<Longrightarrow> presence_of u ?t = presence_of u s" for u
    by (simp_all add: setPresence_def live_def set_presence_of)
  have "shown True q" if "presence_of (wc_userId k) ?t = Some q" for q
    using that by (auto simp: setPresence_def set_presence_of shown_def)
  then have "shown (live u ?t) q" if "presence_of u ?t = Some q" for u q
    using that assms t(2,3) [of u] ws_ok_presence [OF assms(1), of u q] by (cases "u = wc_userId k") (auto simp: live_def)
  then show ?thesis using assms(1) by (simp add: ws_ok_def t(1))
qed

lemma ws_step_ok:
  assumes "ws_ok s"
  shows "ws_ok (ws_step ci p s)"
proof (cases p)
  case (Pair c op)
  note guard = ws_user_guard [where P = ws_ok and s = s and c = c, OF assms]
  note frame = ws_ok_frame [OF _ assms]
  show ?thesis unfolding Pair
  proof (cases op)
    case (Channel_join r)
    have "ws_ok (snd (onChannelJoin r c s))" unfolding onChannelJoin_def
      by (rule guard, rule access_guard [where P = ws_ok, OF assms]) (simp add: rooms_ok [OF assms])
    then show "ws_ok (ws_step ci (c, op) s)" by (simp add: Channel_join)
  next
    case (Presence_update q)
    have "ws_ok (snd (onPresenceUpdate q c s))" unfolding onPresenceUpdate_def
      by (rule guard) (simp add: ws_ok_broadcast update_ok [OF assms])
    then show "ws_ok (ws_step ci (c, op) s)" by (simp add: Presence_update)
  qed (simp_all add: assms connect_ok disconnect_ok onChannelLeave_def rooms_ok onMessageSend_def onMessageEdit_def onMessageDelete_def
      onTyping_def onDmSend_def onDmTyping_def onDmRead_def guard frame message_frames dm_frames ws_ok_broadcast)
qed

section \<open>The presence board\<close>

text \<open>
  What presence means, without messages, rooms and accounts: the sockets with the user of each, and for every account
  what it shows and what it chose. An account that connects shows what it chose, or online where that is to
  be offline; its last socket that disconnects takes it offline; and what a connected user sets is shown and chosen.
\<close>

record board =
  board_sockets :: "string \<rightharpoonup> oid"
  board_shown :: "oid \<rightharpoonup> PresenceStatus \<times> PresenceStatus"

definition board_set :: "oid \<Rightarrow> (PresenceStatus \<times> PresenceStatus \<Rightarrow> PresenceStatus \<times> PresenceStatus) \<Rightarrow> board \<Rightarrow> board" where
  "board_set u f b = b\<lparr>board_shown := (board_shown b)(u := map_option f (board_shown b u))\<rparr>"

fun board_rule :: "string \<times> ws_op \<Rightarrow> board \<Rightarrow> board" where
  "board_rule (c, Ws_connect (Some (u, name))) b =
     (if board_sockets b c = None
      then board_set u (\<lambda>(p, q). (if q = OFFLINE then ONLINE else q, q)) (b\<lparr>board_sockets := (board_sockets b)(c \<mapsto> u)\<rparr>) else b)"
| "board_rule (c, Ws_disconnect) b =
     (case board_sockets b c of
        None \<Rightarrow> b
      | Some u \<Rightarrow>
          let b = b\<lparr>board_sockets := (board_sockets b)(c := None)\<rparr>
          in if u \<in> ran (board_sockets b) then b else board_set u (\<lambda>(p, q). (OFFLINE, q)) b)"
| "board_rule (c, Presence_update p) b =
     (case board_sockets b c of None \<Rightarrow> b | Some u \<Rightarrow> board_set u (\<lambda>_. (p, p)) b)"
| "board_rule (c, _) b = b"

definition board_of :: "'a ws_st_scheme \<Rightarrow> board" where
  "board_of s = \<lparr>board_sockets = \<lambda>c. map_option wc_userId (find_client c s), board_shown = \<lambda>u. presence_of u s\<rparr>"

lemma board_frame: "ws_frame s t \<Longrightarrow> board_of t = board_of s"
  by (simp add: board_of_def ws_frame_def find_client_def)

lemma board_broadcast [simp]: "board_of (broadcastPresence u p s) = board_of s" "board_of (emit_ws tg e s) = board_of s"
  by (rule board_frame; simp)+

lemma board_on_rooms: "board_of (on_rooms c f s) = board_of s"
proof -
  have "map_option wc_userId (List.find (\<lambda>k. wc_id k = d) (updateOne (\<lambda>k. wc_id k = c) (\<lambda>k. k\<lparr>wc_rooms := f (wc_rooms k)\<rparr>) ks))
      = map_option wc_userId (List.find (\<lambda>k. wc_id k = d) ks)" for d ks
    by (induction ks) simp_all
  note same = this
  show ?thesis by (simp add: board_of_def on_rooms_def find_client_def same)
qed

lemma presence_changes:
  "presence_of w (snd (goOnline u s)) = (if w = u then map_option (\<lambda>(p, q). (if q = OFFLINE then ONLINE else q, q)) (presence_of u s) else presence_of w s)"
  "presence_of w (goOffline u s) = (if w = u then map_option (\<lambda>(p, q). (OFFLINE, q)) (presence_of u s) else presence_of w s)"
  "presence_of w (snd (setPresence u p s)) = (if w = u then map_option (\<lambda>_. (p, p)) (presence_of u s) else presence_of w s)"
proof -
  show "presence_of w (snd (goOnline u s)) = (if w = u then map_option (\<lambda>(p, q). (if q = OFFLINE then ONLINE else q, q)) (presence_of u s) else presence_of w s)"
    by (simp add: goOnline_def Let_def set_presence_of) (auto simp: presence_of_def split: option.split)
  show "presence_of w (goOffline u s) = (if w = u then map_option (\<lambda>(p, q). (OFFLINE, q)) (presence_of u s) else presence_of w s)"
    by (simp add: goOffline_def set_presence_of) (simp add: presence_of_def option.map_comp o_def)
  show "presence_of w (snd (setPresence u p s)) = (if w = u then map_option (\<lambda>_. (p, p)) (presence_of u s) else presence_of w s)"
    by (simp add: setPresence_def set_presence_of) (simp add: presence_of_def option.map_comp o_def)
qed

lemma client_user:
  "ws_userOf c s = (case find_client c s of None \<Rightarrow> (Inl (WsError ''Unauthorized''), s) | Some k \<Rightarrow> (Inr k, s))"
  by (simp add: ws_userOf_def throw_def split: option.split)

lemma board_connect:
  assumes "find_client c s = None"
  shows "board_of (ws_connect token c s) = board_rule (c, Ws_connect token) (board_of s)"
proof (cases token)
  case None
  then show ?thesis by (simp add: ws_connect_def)
next
  case (Some a)
  obtain u name where a: "a = (u, name)" by fastforce
  define k where "k = \<lparr>wc_id = c, wc_userId = u, wc_username = name, wc_rooms = Ws_user u # map Ws_server (listServerIdsForUser u s)\<rparr>"
  let ?s = "s\<lparr>ws_clients := ws_clients s @ [k]\<rparr>"
  have k: "wc_id k = c" "wc_userId k = u" by (simp_all add: k_def)
  have found: "find_client d ?s = (if d = c then Some k else find_client d s)" for d
    using assms k by (auto simp: find_client_def find_append split: option.split)
  have same: "find_client d (snd (goOnline u ?s)) = find_client d ?s" for d
    by (simp add: goOnline_def Let_def find_client_def)
  have shown: "presence_of w (snd (goOnline u ?s)) = (if w = u then map_option (\<lambda>(p, q). (if q = OFFLINE then ONLINE else q, q)) (presence_of u s) else presence_of w s)" for w
    by (simp add: presence_changes)
  have "ws_connect token c s = broadcastPresence u (fst (goOnline u ?s)) (snd (goOnline u ?s))"
    by (simp add: ws_connect_def Some a k_def split_beta Let_def)
  then show ?thesis using assms
    by (simp add: Some a) (auto simp: board_of_def board_set_def found same shown k fun_eq_iff)
qed

lemma ran_clients:
  assumes "distinct (map wc_id ks)"
  shows "u \<in> ran (\<lambda>c. map_option wc_userId (List.find (\<lambda>k. wc_id k = c) ks)) \<longleftrightarrow> u \<in> wc_userId ` set ks"
proof
  assume "u \<in> ran (\<lambda>c. map_option wc_userId (List.find (\<lambda>k. wc_id k = c) ks))"
  then show "u \<in> wc_userId ` set ks" by (auto simp: ran_def dest: find_Some_iff_mem)
next
  assume "u \<in> wc_userId ` set ks"
  then obtain k where "k \<in> set ks" "wc_userId k = u" by auto
  then show "u \<in> ran (\<lambda>c. map_option wc_userId (List.find (\<lambda>k. wc_id k = c) ks))"
    using find_key_unique [OF assms] by (force simp: ran_def)
qed

lemma find_without: "List.find (\<lambda>k. wc_id k = d) (filter (\<lambda>k. wc_id k \<noteq> c) ks) = (if d = c then None else List.find (\<lambda>k. wc_id k = d) ks)"
  by (induction ks) auto

lemma board_disconnect:
  assumes "ws_ok s"
  shows "board_of (ws_disconnect c s) = board_rule (c, Ws_disconnect) (board_of s)"
proof (cases "find_client c s")
  case None
  then show ?thesis by (simp add: ws_disconnect_def board_of_def)
next
  case (Some k)
  let ?ks = "filter (\<lambda>k. wc_id k \<noteq> c) (ws_clients s)" and ?u = "wc_userId k"
  let ?s = "s\<lparr>ws_clients := ?ks\<rparr>"
  have found: "find_client d ?s = (if d = c then None else find_client d s)" for d by (simp add: find_client_def find_without)
  have off: "find_client d (goOffline ?u ?s) = find_client d ?s" for d by (simp add: goOffline_def find_client_def)
  have shown: "presence_of w (goOffline ?u ?s) = (if w = ?u then map_option (\<lambda>(p, q). (OFFLINE, q)) (presence_of ?u s) else presence_of w s)" for w
    by (simp add: presence_changes)
  have b: "board_of ?s = (board_of s)\<lparr>board_sockets := (board_sockets (board_of s))(c := None)\<rparr>"
    by (auto simp: board_of_def found fun_eq_iff)
  have "board_sockets (board_of ?s) = (\<lambda>d. map_option wc_userId (List.find (\<lambda>k. wc_id k = d) ?ks))" by (simp add: board_of_def find_client_def)
  moreover have "distinct (map wc_id ?ks)" using assms by (simp add: ws_ok_def distinct_map_filter)
  ultimately have "?u \<in> ran (board_sockets (board_of ?s)) \<longleftrightarrow> ?u \<in> wc_userId ` set ?ks" using ran_clients by metis
  moreover have "sockets_of ?u ?s = [] \<longleftrightarrow> ?u \<notin> wc_userId ` set ?ks"
    using assms by (auto simp: sockets_of_def ws_ok_def filter_empty_conv)
  ultimately have last: "sockets_of ?u ?s = [] \<longleftrightarrow> ?u \<notin> ran (board_sockets (board_of ?s))" by simp
  have "board_of (goOffline ?u ?s) = board_set ?u (\<lambda>(p, q). (OFFLINE, q)) (board_of ?s)"
    by (auto simp: board_of_def board_set_def off shown fun_eq_iff)
  moreover have "board_sockets (board_of s) c = Some ?u" using Some by (simp add: board_of_def)
  moreover have "ws_disconnect c s = (if sockets_of ?u ?s = [] then broadcastPresence ?u OFFLINE (goOffline ?u ?s) else ?s)"
    using Some by (simp add: ws_disconnect_def Let_def)
  ultimately show ?thesis using last by (simp add: Let_def b [symmetric])
qed

lemma board_presence:
  "board_of (snd (onPresenceUpdate p c s)) = board_rule (c, Presence_update p) (board_of s)"
proof (cases "find_client c s")
  case (Some k)
  have "presence_of w (snd (setPresence (wc_userId k) p s)) = (if w = wc_userId k then map_option (\<lambda>_. (p, p)) (presence_of w s) else presence_of w s)" for w
    by (simp add: presence_changes)
  moreover have "find_client d (snd (setPresence u p s)) = find_client d s" for d u by (simp add: setPresence_def find_client_def)
  ultimately show ?thesis using Some
    by (simp add: onPresenceUpdate_def client_user await_def) (auto simp: board_of_def board_set_def fun_eq_iff)
qed (simp add: onPresenceUpdate_def client_user await_def board_of_def)

lemma board_step:
  assumes "ws_ok s"
  shows "board_of (ws_step ci op s) = board_rule op (board_of s)"
proof (cases op)
  case (Pair c x)
  have guard: "board_of (snd (await (ws_userOf c) h s)) = board_of s" if "\<And>k. board_of (snd (h k s)) = board_of s" for h :: "_ \<Rightarrow> _ \<Rightarrow> (_, _) outcome"
    by (rule ws_user_guard [where P = "\<lambda>t. board_of t = board_of s"]) (simp_all add: that)
  show ?thesis unfolding Pair
  proof (cases x)
    case (Ws_connect token)
    then show "board_of (ws_step ci (c, x) s) = board_rule (c, x) (board_of s)"
      by (cases "find_client c s = None") (simp_all add: board_connect, cases token, auto simp: board_of_def)
  next
    case (Channel_join r)
    have "board_of (snd (onChannelJoin r c s)) = board_of s" unfolding onChannelJoin_def
      by (rule guard, rule access_guard [where P = "\<lambda>t. board_of t = board_of s"]) (simp_all add: board_on_rooms)
    then show "board_of (ws_step ci (c, x) s) = board_rule (c, x) (board_of s)" by (simp add: Channel_join)
  qed (simp_all add: board_disconnect [OF assms] board_presence onChannelLeave_def board_on_rooms onMessageSend_def onMessageEdit_def
      onMessageDelete_def onTyping_def onDmSend_def onDmTyping_def onDmRead_def guard board_frame message_frames dm_frames)
qed

text \<open>
  C34: The gateway refines the board: whatever its sockets send, connect and disconnect, in any order, what every account
  shows and has chosen changes exactly by the rules of presence above, and nothing else changes it. In particular an
  account without a socket stays offline.
\<close>

theorem presence_follows_sockets:
  assumes "ws_ok s"
  shows "board_of (fold (ws_step ci) ops s) = fold board_rule ops (board_of s) \<and> ws_ok (fold (ws_step ci) ops s)"
  using assms by (induction ops arbitrary: s) (simp_all add: ws_step_ok board_step)

section \<open>Edges\<close>

text \<open>Whether a socket receives what is sent to a room.\<close>

fun hears :: "WsClient \<Rightarrow> chat_room \<Rightarrow> bool" where
  "hears k (In_channel r) \<longleftrightarrow> Ws_channel r \<in> set (wc_rooms k)"
| "hears k (In_server r) \<longleftrightarrow> (\<exists>i. r = Hex i \<and> Ws_server i \<in> set (wc_rooms k))"
| "hears k (In_voice r) \<longleftrightarrow> False"

lemma kick_result:
  assumes "kickMember r a v s = (Inr (), t)"
  obtains i w where "read_oid r = Some i" "read_oid v = Some w" "t = emit_server (Server_room r) (Member_left r v) (drop_member i w s)"
proof -
  obtain actor where a: "requireRole r a ADMIN s = (Inr actor, s)"
      "await (target_member (sm_serverId actor) v ''Member not found'') (\<lambda>m s.
         if sm_role m = OWNER then throw (Forbidden ''Cannot kick the owner'') s
         else if \<not> outranks actor m then throw (Forbidden ''Cannot kick a member at or above your role'') s
         else return () (emit_server (Server_room r) (Member_left r v) (drop_member (sm_serverId m) (sm_userId m) s))) s = (Inr (), t)"
    using assms requireRole_InrD [of r a ADMIN s] unfolding kickMember_def by (elim await_InrD) (fastforce simp: throw_def split: if_splits)
  obtain w m where w: "read_oid v = Some w" "getMembership (sm_serverId actor) w s = Some m"
      "t = emit_server (Server_room r) (Member_left r v) (drop_member (sm_serverId m) (sm_userId m) s)"
    using a(2) by (auto simp: target_member_def cast_oid_def await_def throw_def split: option.splits if_splits)
  have "sm_serverId m = sm_serverId actor" "sm_userId m = w"
    using w(2) by (auto simp: getMembership_def member_key_def find_Some_iff)
  then show thesis using that w requireRole_InrD [OF a(1)] by simp
qed

text \<open>What a socket receives of the events that a step adds to the chat.\<close>

definition receives :: "string \<Rightarrow> 'a ws_st_scheme \<Rightarrow> 'a ws_st_scheme \<Rightarrow> chat_event list" where
  "receives c s t = (case find_client c t of
     None \<Rightarrow> [] | Some k \<Rightarrow> map snd (filter (\<lambda>e. hears k (fst e)) (drop (length (chat_log s)) (chat_log t))))"

text \<open>The socket of a user in the room of a channel, and the operations by which it would get out.\<close>

definition in_room :: "string \<Rightarrow> oid \<Rightarrow> raw_id \<Rightarrow> 'a ws_st_scheme \<Rightarrow> bool" where
  "in_room c u r s \<longleftrightarrow> (\<exists>k. find_client c s = Some k \<and> wc_userId k = u \<and> Ws_channel r \<in> set (wc_rooms k))"

definition stays :: "string \<Rightarrow> raw_id \<Rightarrow> string \<times> ws_op \<Rightarrow> bool" where
  "stays c r op \<longleftrightarrow> op \<noteq> (c, Ws_disconnect) \<and> op \<noteq> (c, Channel_leave r)"

lemma in_room_frame: "ws_clients t = ws_clients s \<Longrightarrow> in_room c u r t = in_room c u r s"
  by (simp add: in_room_def find_client_def)

lemma find_on_rooms:
  "find_client c (on_rooms d f s) = map_option (\<lambda>k. if c = d then k\<lparr>wc_rooms := f (wc_rooms k)\<rparr> else k) (find_client c s)"
proof -
  have "List.find (\<lambda>k. wc_id k = c) (updateOne (\<lambda>k. wc_id k = d) (\<lambda>k. k\<lparr>wc_rooms := f (wc_rooms k)\<rparr>) ks)
      = map_option (\<lambda>k. if c = d then k\<lparr>wc_rooms := f (wc_rooms k)\<rparr> else k) (List.find (\<lambda>k. wc_id k = c) ks)" for ks
    by (induction ks) (auto simp: option.map_ident)
  then show ?thesis by (simp add: find_client_def on_rooms_def)
qed

lemma in_room_rooms:
  assumes "in_room c u r s" "d = c \<Longrightarrow> \<forall>rs. Ws_channel r \<in> set rs \<longrightarrow> Ws_channel r \<in> set (f rs)"
  shows "in_room c u r (on_rooms d f s)"
proof -
  obtain k where k: "find_client c s = Some k" "wc_userId k = u" "Ws_channel r \<in> set (wc_rooms k)" using assms(1) by (auto simp: in_room_def)
  let ?k = "if c = d then k\<lparr>wc_rooms := f (wc_rooms k)\<rparr> else k"
  have "find_client c (on_rooms d f s) = Some ?k" using k(1) by (simp add: find_on_rooms)
  moreover have "wc_userId ?k = u" using k(2) by simp
  moreover have "Ws_channel r \<in> set (wc_rooms ?k)" using k(3) assms(2) by simp
  ultimately show ?thesis unfolding in_room_def by blast
qed

lemma broadcast_keeps [simp]:
  "ws_clients (broadcastPresence u p s) = ws_clients s" "server_members (broadcastPresence u p s) = server_members s"
  "channels (broadcastPresence u p s) = channels s"
  using ws_broadcast_frame(1) [of s u p s] by (simp_all add: ws_frame_def)

text \<open>Nothing a socket sends moves another socket out of a room, changes who is a member, or touches the channels.\<close>

definition keeps_room :: "string \<Rightarrow> raw_id \<Rightarrow> 'a ws_st_scheme \<Rightarrow> 'a ws_st_scheme \<Rightarrow> bool" where
  "keeps_room c r s t \<longleftrightarrow> (\<forall>u. in_room c u r s \<longrightarrow> in_room c u r t) \<and> server_members t = server_members s \<and> channels t = channels s"

lemma keeps_room_refl [simp]: "keeps_room c r s s"
  by (simp add: keeps_room_def)

lemma keeps_room_trans: "keeps_room c r s t \<Longrightarrow> keeps_room c r t x \<Longrightarrow> keeps_room c r s x"
  by (simp add: keeps_room_def)

lemma keeps_room_frame: "ws_frame s t \<Longrightarrow> keeps_room c r s t"
  by (simp add: keeps_room_def ws_frame_def in_room_def find_client_def)

lemma keeps_room_emit [simp]: "keeps_room c r s (emit_ws tg e s)" "keeps_room c r s (broadcastPresence u p s)"
  by (rule keeps_room_frame; simp)+

lemma keeps_room_rooms:
  assumes "d = c \<Longrightarrow> \<forall>rs. Ws_channel r \<in> set rs \<longrightarrow> Ws_channel r \<in> set (f rs)"
  shows "keeps_room c r s (on_rooms d f s)"
proof -
  have "in_room c u r (on_rooms d f s)" if "in_room c u r s" for u by (rule in_room_rooms [OF that assms])
  then show ?thesis by (simp add: keeps_room_def) (simp add: on_rooms_def)
qed

lemma keeps_room_connect:
  assumes "find_client d s = None"
  shows "keeps_room c r s (ws_connect token d s)"
proof (cases token)
  case (Some a)
  obtain u name where a: "a = (u, name)" by fastforce
  define k where "k = \<lparr>wc_id = d, wc_userId = u, wc_username = name, wc_rooms = Ws_user u # map Ws_server (listServerIdsForUser u s)\<rparr>"
  let ?t = "snd (goOnline u (s\<lparr>ws_clients := ws_clients s @ [k]\<rparr>))"
  have "find_client c s = Some x \<Longrightarrow> find_client c ?t = Some x" for x
    by (simp add: goOnline_def Let_def find_client_def find_append)
  then have "in_room c w r s \<Longrightarrow> in_room c w r ?t" for w unfolding in_room_def by blast
  moreover have "server_members ?t = server_members s \<and> channels ?t = channels s" by (simp add: goOnline_def Let_def set_user_def)
  ultimately have "keeps_room c r s ?t" by (simp add: keeps_room_def)
  then have "keeps_room c r s (broadcastPresence u p ?t)" for p by (rule keeps_room_trans) simp
  then show ?thesis by (simp add: ws_connect_def Some a k_def split_beta Let_def)
qed (simp add: ws_connect_def)

lemma keeps_room_disconnect: "d \<noteq> c \<Longrightarrow> keeps_room c r s (ws_disconnect d s)"
  by (auto simp: keeps_room_def ws_disconnect_def Let_def goOffline_def in_room_def find_client_def find_without set_user_def split: option.split)

lemma ws_step_keeps_room:
  assumes "stays c r op"
  shows "keeps_room c r s (ws_step ci op s)"
proof (cases op)
  case (Pair d x)
  note guard = ws_user_guard [where P = "keeps_room c r s" and s = s and c = d, OF keeps_room_refl]
  show ?thesis unfolding Pair
  proof (cases x)
    case (Channel_join q)
    have "keeps_room c r s (snd (onChannelJoin q d s))" unfolding onChannelJoin_def
      by (rule guard, rule access_guard [where P = "keeps_room c r s"]) (simp_all add: keeps_room_rooms)
    then show "keeps_room c r s (ws_step ci (d, x) s)" by (simp add: Channel_join)
  next
    case (Channel_leave q)
    then show "keeps_room c r s (ws_step ci (d, x) s)"
      using assms Pair by (auto simp: onChannelLeave_def stays_def intro!: keeps_room_rooms)
  next
    case (Presence_update p)
    have "keeps_room c r s (snd (onPresenceUpdate p d s))" unfolding onPresenceUpdate_def
      by (rule guard) (simp add: keeps_room_def setPresence_def in_room_def find_client_def, simp add: set_user_def)
    then show "keeps_room c r s (ws_step ci (d, x) s)" by (simp add: Presence_update)
  qed (use assms Pair in \<open>simp_all add: stays_def keeps_room_connect keeps_room_disconnect onMessageSend_def onMessageEdit_def
      onMessageDelete_def onTyping_def onDmSend_def onDmTyping_def onDmRead_def guard keeps_room_frame message_frames dm_frames\<close>)
qed

lemma ws_run_keeps_room: "list_all (stays c r) ops \<Longrightarrow> keeps_room c r s (fold (ws_step ci) ops s)"
proof (induction ops arbitrary: s)
  case (Cons op ops)
  then show ?case using keeps_room_trans [OF ws_step_keeps_room Cons.IH] by simp
qed simp

lemma send_appends:
  assumes "onMessageSend r dto d s = (Inr m, t)"
  shows "chat_log t = chat_log s @ [(In_channel r, Message_new m)] \<and> ws_clients t = ws_clients s"
proof -
  have "\<exists>k :: WsClient. create_message r (wc_userId k) dto s = (Inr m, t)"
    using assms by (auto simp: onMessageSend_def client_user await_def [of "ws_userOf d"] split: option.splits)
  then obtain k :: WsClient where k: "create_message r (wc_userId k) dto s = (Inr m, t)" by blast
  obtain ch where "assertAccess r (wc_userId k) s = (Inr ch, s)"
    using k assertAccess_InrD [of r "wc_userId k" s] unfolding create_message_def by (elim await_InrD) auto
  moreover have "chat_log (awardMessageXp u x) = chat_log x" for u and x :: "'a ws_st_scheme" by (simp add: awardMessageXp_def Let_def)
  ultimately have "chat_log t = chat_log s @ [(In_channel r, Message_new m)]" using k
    by (auto simp: create_message_def await_def Let_def fresh_id_def emit_chat_def throw_def split: if_splits)
  moreover have "ws_clients t = ws_clients s" using message_frames(1) [of s r "wc_userId k" dto] k by (simp add: ws_frame_def)
  ultimately show ?thesis by simp
qed

lemma join_enters:
  assumes "onChannelJoin r c s = (Inr x, t)"
  shows "\<exists>k ch. find_client c s = Some k \<and> in_room c (wc_userId k) r t \<and> read_oid r = Some (cn_id ch) \<and> find_channel (cn_id ch) t = Some ch"
proof -
  obtain k where k: "find_client c s = Some k" "await (assertAccess r (wc_userId k)) (\<lambda>_ s. return r (on_rooms c (List.insert (Ws_channel r)) s)) s = (Inr x, t)"
    using assms by (auto simp: onChannelJoin_def client_user await_def [of "ws_userOf c"] split: option.splits)
  obtain ch s' where a: "assertAccess r (wc_userId k) s = (Inr ch, s')" "t = on_rooms c (List.insert (Ws_channel r)) s'"
    by (rule await_InrD [OF k(2)]) auto
  then have as: "s' = s" "read_oid r = Some (cn_id ch)" "find_channel (cn_id ch) s = Some ch"
    using assertAccess_InrD [of r "wc_userId k" s ch s'] by auto
  have "find_channel (cn_id ch) t = find_channel (cn_id ch) s" "in_room c (wc_userId k) r t"
    using k(1) a(2) as(1) by (simp_all add: on_rooms_def find_channel_def) (simp add: in_room_def find_on_rooms [unfolded on_rooms_def])
  then show ?thesis using k(1) as by auto
qed

text \<open>
  C39: A member who is removed from a server is refused its channels from then on. But a socket that the member put into the
  room of a channel before, and that neither leaves the room nor disconnects, receives every message that is
  sent to the channel under the same spelling of its identifier, whatever else sockets do before and in between.
\<close>

theorem kicked_member_keeps_listening:
  assumes "onChannelJoin (Hex j) c s0 = (Inr x, s)" "find_client c s0 = Some k" "s1 = fold (ws_step ci) before s" "servers_wf s1"
    "kickMember r a v s1 = (Inr (), t)" "read_oid v = Some (wc_userId k)" "find_channel j s = Some ch" "read_oid r = Some (cn_serverId ch)"
    "t1 = fold (ws_step ci) after t" "list_all (stays c (Hex j)) (before @ after)"
  shows "fst (assertAccess (Hex j) (wc_userId k) t1) = Inl (Forbidden ''Not a member of this server'')
    \<and> (\<forall>dto d m t2. onMessageSend (Hex j) dto d t1 = (Inr m, t2) \<longrightarrow> Message_new m \<in> set (receives c t1 t2))"
proof -
  have room: "in_room c (wc_userId k) (Hex j) s" using join_enters [OF assms(1)] assms(2) by auto
  have b: "keeps_room c (Hex j) s s1" unfolding assms(3) by (rule ws_run_keeps_room) (use assms(10) in simp)
  obtain i w where kick: "read_oid r = Some i" "read_oid v = Some w" "t = emit_server (Server_room r) (Member_left r v) (drop_member i w s1)"
    using assms(5) by (rule kick_result)
  have gone: "getMembership (cn_serverId ch) (wc_userId k) t = None"
    using kick assms(4,6,8) getMembership_drop [of s1 i w "cn_serverId ch" "wc_userId k"]
    by (simp add: emit_server_def getMembership_def servers_wf_def)
  have t: "channels t = channels s1" "ws_clients t = ws_clients s1" by (simp_all add: kick(3) emit_server_def drop_member_def)
  have af: "keeps_room c (Hex j) t t1" unfolding assms(9) by (rule ws_run_keeps_room) (use assms(10) in simp)
  have m: "getMembership (cn_serverId ch) (wc_userId k) t1 = None" using gone af by (simp add: getMembership_def keeps_room_def)
  have f: "find_channel j t1 = Some ch" using assms(7) b af t(1) by (simp add: find_channel_def keeps_room_def)
  have "in_room c (wc_userId k) (Hex j) t" using room b in_room_frame [OF t(2)] by (simp add: keeps_room_def)
  then have here: "in_room c (wc_userId k) (Hex j) t1" using af by (simp add: keeps_room_def)
  have "Message_new m \<in> set (receives c t1 t2)" if "onMessageSend (Hex j) dto d t1 = (Inr m, t2)" for dto d m t2
    using send_appends [OF that] here by (auto simp: receives_def in_room_def find_client_def)
  then show ?thesis using assertAccess_refused [of "Hex j" j t1 ch "wc_userId k"] m f by simp
qed

text \<open>
  Whoever is connected can show as typing in any channel: nothing asks whether the sender may read it.
\<close>

theorem typing_needs_no_access:
  assumes "find_client c s = Some k"
  shows "onTyping b r c s = (Inr (), emit_ws (Ws_others (Ws_channel r) c) (Ws_typing r (wc_userId k) b) s)"
  using assms by (simp add: onTyping_def ws_userOf_def await_def)

section \<open>Examples\<close>

text \<open>Nobody is connected; then a socket of user 3, who reads channel 22 of server 21.\<close>

definition ws0 :: ws_st where
  "ws0 = chat_st.extend chat0 \<lparr>ws_clients = [], ws_log = []\<rparr>"

definition reader :: WsClient where
  "reader = \<lparr>wc_id = ''c'', wc_userId = 3, wc_username = ''chi'', wc_rooms = [Ws_user 3, Ws_server 21, Ws_channel (Hex 22)]\<rparr>"

definition ws1 :: ws_st where
  "ws1 = ws0\<lparr>ws_clients := [reader]\<rparr>"

lemma ws1_frame [simp]:
  "server_members ws1 = members0" "channels ws1 = channels chat0" "ws_clients ws1 = [reader]" "wc_userId reader = 3"
  by (simp_all add: ws1_def ws0_def chat_st.extend_def reader_def)

lemma ws1_members:
  "getMembership 21 1 ws1 = Some (demo_member 21 1 OWNER)" "getMembership 21 2 ws1 = Some (demo_member 21 2 ADMIN)"
  "getMembership 21 3 ws1 = Some (demo_member 21 3 MEMBER)"
  by (simp_all add: getMembership_def members0_def demo_member_def member_key_def)

lemma ws1_wf: "servers_wf ws1"
  by (simp add: servers_wf_def codes_unique_def members0_def demo_member_def mkey_def new_server_def ws1_def ws0_def chat_st.extend_def
      chat0_def servers_st.extend_def servers0_def level_st.extend_def wallet_st.extend_def wallet0_defs)

lemma ws0_ok: "ws_ok ws0"
  by (auto simp: ws_ok_def shown_def live_def presence_of_def find_user_def ws0_def chat_st.extend_def demo_user_def user_of_def
      chat0_def servers_st.extend_def servers0_def level_st.extend_def wallet_st.extend_def wallet0_defs)

theorem presence_follows_sockets_witness:
  "ws_ok (fold (ws_step plain_aead) [(''c'', Ws_connect (Some (3, ''chi''))), (''c'', Presence_update DND), (''c'', Ws_disconnect)] ws0)
   \<and> board_shown (board_of (fold (ws_step plain_aead) [(''c'', Ws_connect (Some (3, ''chi''))), (''c'', Presence_update DND)] ws0)) 3 = Some (DND, DND)"
proof -
  have "board_sockets (board_of ws0) = Map.empty" "presence_of 3 ws0 \<noteq> None"
    by (simp_all add: board_of_def find_client_def ws0_def chat_st.extend_def presence_of_def find_user_def
      chat0_def servers_st.extend_def servers0_def level_st.extend_def wallet_st.extend_def wallet0_defs)
  then show ?thesis
    using presence_follows_sockets [OF ws0_ok, of plain_aead "[(''c'', Ws_connect (Some (3, ''chi''))), (''c'', Presence_update DND), (''c'', Ws_disconnect)]"]
      presence_follows_sockets [OF ws0_ok, of plain_aead "[(''c'', Ws_connect (Some (3, ''chi''))), (''c'', Presence_update DND)]"]
    by (auto simp: board_set_def board_of_def)
qed

text \<open>User 3 without the room, and user 2 who writes; user 3 joins the room and is kicked.\<close>

definition reader_out :: WsClient where
  "reader_out = reader\<lparr>wc_rooms := [Ws_user 3, Ws_server 21]\<rparr>"

definition writer :: WsClient where
  "writer = \<lparr>wc_id = ''d'', wc_userId = 2, wc_username = ''duc'', wc_rooms = [Ws_user 2, Ws_server 21]\<rparr>"

definition ws_before :: ws_st where
  "ws_before = ws1\<lparr>ws_clients := [reader_out, writer]\<rparr>"

definition ws2 :: ws_st where
  "ws2 = on_rooms ''c'' (List.insert (Ws_channel (Hex 22))) ws_before"

lemma ws2_frame [simp]:
  "server_members ws2 = members0" "channels ws2 = channels chat0" "server_members ws_before = members0" "channels ws_before = channels chat0"
  "server_members ws1 = members0"
  by (simp_all add: ws2_def ws_before_def on_rooms_def)

lemma ws2_same: "getMembership i u ws2 = getMembership i u ws1" "getMembership i u ws_before = getMembership i u ws1" "servers_wf ws2 = servers_wf ws1"
  by (simp_all add: ws2_def ws_before_def on_rooms_def getMembership_def servers_wf_def)

lemmas ws2_members = ws1_members [folded ws2_same(1)]
lemmas ws2_wf = ws1_wf [folded ws2_same(3)]

lemma ws2_clients: "find_client ''c'' ws_before = Some reader_out" "wc_userId reader_out = 3"
    "ws_clients ws2 = [reader_out\<lparr>wc_rooms := [Ws_channel (Hex 22), Ws_user 3, Ws_server 21]\<rparr>, writer]"
  by (simp_all add: find_client_def ws2_def ws_before_def on_rooms_def reader_out_def reader_def)

lemma reader_joins: "onChannelJoin (Hex 22) ''c'' ws_before = (Inr (Hex 22), ws2)"
proof -
  have "find_channel 22 ws_before = Some (demo_channel 22 21 TEXT 0)" by (simp add: find_channel_def demo_channel_def)
  moreover have "getMembership 21 3 ws_before = Some (demo_member 21 3 MEMBER)" by (simp add: ws2_same ws1_members)
  ultimately have "assertAccess (Hex 22) 3 ws_before = (Inr (demo_channel 22 21 TEXT 0), ws_before)"
    by (intro assertAccess_pass [where i = 22]) (simp_all add: demo_channel_def)
  then show ?thesis by (simp add: onChannelJoin_def client_user ws2_clients await_def ws2_def)
qed

lemma reader_kicked: "\<exists>t. kickMember (Hex 21) 2 (Hex 3) ws2 = (Inr (), t) \<and> getMembership 21 2 t = Some (demo_member 21 2 ADMIN)"
proof -
  have "requireRole (Hex 21) 2 ADMIN ws2 = (Inr (demo_member 21 2 ADMIN), ws2)"
    by (rule requireRole_pass [OF _ ws2_members(2)]) (simp_all add: demo_member_def)
  then have "kickMember (Hex 21) 2 (Hex 3) ws2 = (Inr (), emit_server (Server_room (Hex 21)) (Member_left (Hex 21) (Hex 3)) (drop_member 21 3 ws2))"
    by (simp add: kickMember_def await_def target_member_def cast_oid_def outranks_def ws2_members) (simp add: demo_member_def outranks_def ws2_members)
  moreover have "getMembership 21 2 (emit_server x y (drop_member 21 3 ws2)) = Some (demo_member 21 2 ADMIN)" for x y
    using getMembership_drop [of ws2 21 2 21 3] ws2_wf ws2_members by (simp add: servers_wf_def emit_server_def getMembership_def)
  ultimately show ?thesis by simp
qed

theorem kicked_member_keeps_listening_witness:
  "\<exists>t m (t' :: ws_st). kickMember (Hex 21) 2 (Hex 3) ws2 = (Inr (), t) \<and> fst (assertAccess (Hex 22) 3 t) = Inl (Forbidden ''Not a member of this server'')
     \<and> onMessageSend (Hex 22) (hello None) ''d'' t = (Inr m, t') \<and> Message_new m \<in> set (receives ''c'' t t')"
proof -
  obtain t where t: "kickMember (Hex 21) 2 (Hex 3) ws2 = (Inr (), t)" "getMembership 21 2 t = Some (demo_member 21 2 ADMIN)"
    using reader_kicked by blast
  from t(1) obtain i w where "t = emit_server (Server_room (Hex 21)) (Member_left (Hex 21) (Hex 3)) (drop_member i w ws2)"
    by (rule kick_result)
  then have f: "find_channel 22 t = Some (demo_channel 22 21 TEXT 0)" "find_client ''d'' t = Some writer"
    by (simp_all add: emit_server_def drop_member_def find_channel_def demo_channel_def find_client_def ws2_clients)
      (simp_all add: reader_out_def reader_def writer_def)
  have "assertAccess (Hex 22) 2 t = (Inr (demo_channel 22 21 TEXT 0), t)"
    by (rule assertAccess_pass [OF _ f(1)]) (simp_all add: t(2))
  then obtain m t' where m: "create_message (Hex 22) 2 (hello None) t = (Inr m, t')"
    using hello_content by (simp add: create_message_def await_def Let_def fresh_id_def)
  then have send: "onMessageSend (Hex 22) (hello None) ''d'' t = (Inr m, t')"
    using f(2) by (simp add: onMessageSend_def client_user await_def writer_def)
  have g: "find_channel 22 ws2 = Some (demo_channel 22 21 TEXT 0)" by (simp add: find_channel_def demo_channel_def)
  have "fst (assertAccess (Hex 22) (wc_userId reader_out) t) = Inl (Forbidden ''Not a member of this server'')
      \<and> (\<forall>dto d m t2. onMessageSend (Hex 22) dto d t = (Inr m, t2) \<longrightarrow> Message_new m \<in> set (receives ''c'' t t2))"
    by (rule kicked_member_keeps_listening [where before = "[]" and after = "[]", OF reader_joins ws2_clients(1) _ ws2_wf t(1) _ g])
      (simp_all add: ws2_clients(2))
  then show ?thesis using send t(1) ws2_clients(2) by auto
qed

theorem typing_needs_no_access_witness:
  "(Ws_others (Ws_channel (Hex 23)) ''c'', Ws_typing (Hex 23) 3 True) \<in> set (ws_log (snd (onTyping True (Hex 23) ''c'' ws1)))
   \<and> fst (assertAccess (Hex 23) 3 ws1) = Inl (Forbidden ''Not a member of this server'')"
proof -
  have "find_client ''c'' ws1 = Some reader" by (simp add: find_client_def reader_def)
  moreover have "find_channel 23 ws1 = Some (demo_channel 23 20 TEXT 0)" by (simp add: find_channel_def demo_channel_def)
  moreover have "getMembership 20 3 ws1 = None" by (simp add: getMembership_def members0_def demo_member_def member_key_def)
  ultimately show ?thesis
    using typing_needs_no_access [of "''c''" ws1 reader True "Hex 23"] assertAccess_refused [of "Hex 23" 23 ws1 "demo_channel 23 20 TEXT 0" 3]
    by (simp add: emit_ws_def)
qed

end
