(* ===== verification/Auth.thy ===== *)
theory Auth
  imports Servers
begin

text \<open>
  \<open>src/auth/auth.service.ts\<close>: accounts are registered, sessions opened, rotated and revoked, passwords changed.
  Signing and hashing are libraries, so they are a parameter: a record of functions with the laws \<open>lib_ok\<close>.
  A claim is what a token was signed for; the numbers that \<open>randomUUID\<close> and the salts draw are counted.
\<close>

section \<open>Libraries and configuration\<close>

datatype claims =
    Access_claims oid string string
  | Refresh_claims oid oid nat
  | Reset_claims oid

record crypto =
  jwt_sign :: "string \<Rightarrow> claims \<Rightarrow> int \<Rightarrow> string \<Rightarrow> string"
  jwt_verify :: "string \<Rightarrow> int \<Rightarrow> string \<Rightarrow> claims option"
  jwt_life :: "string \<Rightarrow> int"
  pw_hash :: "nat \<Rightarrow> string \<Rightarrow> string"
  pw_verify :: "string \<Rightarrow> string \<Rightarrow> bool"
  sha256 :: "string \<Rightarrow> string"

text \<open>
  A token verifies under its secret to what it was signed for until its life is over; a password verifies against
  its own hash only; different strings have different digests. This idealises the libraries: a digest is not injective,
  collisions are only infeasible to find, and the life of a token is counted in whole seconds.
\<close>

definition lib_ok :: "crypto \<Rightarrow> bool" where
  "lib_ok L \<longleftrightarrow> (\<forall>k c t ttl now. t \<le> now \<longrightarrow> jwt_verify L k now (jwt_sign L k c t ttl) = (if now < t + jwt_life L ttl then Some c else None))
     \<and> (\<forall>k c t ttl. jwt_sign L k c t ttl \<noteq> '''') \<and> (\<forall>n p q. pw_verify L (pw_hash L n p) q \<longleftrightarrow> p = q) \<and> inj (sha256 L)"

record AuthConfig =
  accessSecret :: string
  refreshSecret :: string
  accessTtl :: string
  refreshTtl :: "string option"
  resetPasswordTtl :: string

definition resetSecret :: "AuthConfig \<Rightarrow> string" where
  "resetSecret cfg = accessSecret cfg @ '':reset:'' @ refreshSecret cfg"

text \<open>The empty string is no setting.\<close>

definition refresh_ttl :: "AuthConfig \<Rightarrow> string" where
  "refresh_ttl cfg = (case refreshTtl cfg of None \<Rightarrow> ''7d'' | Some x \<Rightarrow> if x = '''' then ''7d'' else x)"

definition is_digit :: "char \<Rightarrow> bool" where
  "is_digit c = (let n = of_char c :: nat in 48 \<le> n \<and> n \<le> 57)"

definition ttl_factor :: "char \<Rightarrow> int option" where
  "ttl_factor c = (if c = CHR ''s'' then Some 1000 else if c = CHR ''m'' then Some (60 * 1000)
     else if c = CHR ''h'' then Some (60 * 60 * 1000) else if c = CHR ''d'' then Some (24 * 60 * 60 * 1000) else None)"

definition ttlToMs :: "string \<Rightarrow> int" where
  "ttlToMs ttl =
     (let t = trim ttl; digits = butlast t
      in if digits = [] \<or> \<not> list_all is_digit digits then 7 * 24 * 60 * 60 * 1000
         else case ttl_factor (last t) of None \<Rightarrow> 7 * 24 * 60 * 60 * 1000 | Some f \<Rightarrow> int (read_nat digits) * f)"

section \<open>State\<close>

record Session =
  ss_id :: oid
  ss_userId :: oid
  ss_refreshHash :: string
  ss_userAgent :: "string option"
  ss_ip :: "string option"
  ss_expiresAt :: int
  ss_updatedAt :: int

record auth_st = servers_st +
  sessions :: "Session list"
  uuid :: nat
  disconnected :: "raw_id list"

record IssuedTokens =
  accessToken :: string
  refreshToken :: string
  refreshExpiresAt :: int

type_synonym AuthResult = "User \<times> IssuedTokens"

record SessionContext =
  sc_userAgent :: "string option"
  sc_ip :: "string option"

definition find_session :: "oid \<Rightarrow> 'a auth_st_scheme \<Rightarrow> Session option" where
  "find_session i s = List.find (\<lambda>x. ss_id x = i) (sessions s)"

definition delete_session :: "oid \<Rightarrow> 'a auth_st_scheme \<Rightarrow> 'a auth_st_scheme" where
  "delete_session i s = s\<lparr>sessions := deleteOne (\<lambda>x. ss_id x = i) (sessions s)\<rparr>"

definition fresh_uuid :: "'a auth_st_scheme \<Rightarrow> nat \<times> 'a auth_st_scheme" where
  "fresh_uuid s = (uuid s, s\<lparr>uuid := Suc (uuid s)\<rparr>)"

section \<open>Tokens\<close>

definition signAccess :: "crypto \<Rightarrow> AuthConfig \<Rightarrow> User \<Rightarrow> int \<Rightarrow> string" where
  "signAccess L cfg u now =
     jwt_sign L (accessSecret cfg) (Access_claims (u_id u) (username u) (if isAdmin u then ''ADMIN'' else ''USER'')) now (accessTtl cfg)"

definition signRefresh :: "crypto \<Rightarrow> AuthConfig \<Rightarrow> oid \<Rightarrow> oid \<Rightarrow> 'a auth_st_scheme \<Rightarrow> (string \<times> int) \<times> 'a auth_st_scheme" where
  "signRefresh L cfg u sid s =
     (let (n, s) = fresh_uuid s
      in ((jwt_sign L (refreshSecret cfg) (Refresh_claims u sid n) (clock s) (refresh_ttl cfg), clock s + ttlToMs (refresh_ttl cfg)), s))"

definition issueTokensForUser :: "crypto \<Rightarrow> AuthConfig \<Rightarrow> User \<Rightarrow> SessionContext \<Rightarrow> 'a auth_st_scheme \<Rightarrow> (IssuedTokens, 'a auth_st_scheme) outcome" where
  "issueTokensForUser L cfg u ctx s =
     (let (sid, s) = fresh_id s; ((tok, expires), s) = signRefresh L cfg (u_id u) sid s;
          ss = \<lparr>ss_id = sid, ss_userId = u_id u, ss_refreshHash = sha256 L tok, ss_userAgent = sc_userAgent ctx, ss_ip = sc_ip ctx,
                ss_expiresAt = expires, ss_updatedAt = clock s\<rparr>
      in return \<lparr>accessToken = signAccess L cfg u (clock s), refreshToken = tok, refreshExpiresAt = expires\<rparr>
           (s\<lparr>sessions := sessions s @ [ss]\<rparr>))"

text \<open>An absent or empty field of the context leaves what the session has.\<close>

definition or_kept :: "string option \<Rightarrow> string option \<Rightarrow> string option" where
  "or_kept new old = (case new of None \<Rightarrow> old | Some x \<Rightarrow> if x = '''' then old else Some x)"

definition rotateSession :: "crypto \<Rightarrow> AuthConfig \<Rightarrow> Session \<Rightarrow> User \<Rightarrow> SessionContext \<Rightarrow> 'a auth_st_scheme \<Rightarrow> (IssuedTokens, 'a auth_st_scheme) outcome" where
  "rotateSession L cfg ss u ctx s =
     (let ((tok, expires), s) = signRefresh L cfg (u_id u) (ss_id ss) s;
          s = s\<lparr>sessions := updateOne (\<lambda>x. ss_id x = ss_id ss) (\<lambda>x. x\<lparr>ss_refreshHash := sha256 L tok, ss_expiresAt := expires,
                  ss_userAgent := or_kept (sc_userAgent ctx) (ss_userAgent x), ss_ip := or_kept (sc_ip ctx) (ss_ip x),
                  ss_updatedAt := clock s\<rparr>) (sessions s)\<rparr>
      in return \<lparr>accessToken = signAccess L cfg u (clock s), refreshToken = tok, refreshExpiresAt = expires\<rparr> s)"

definition assertLoginAllowed :: "User \<Rightarrow> 's \<Rightarrow> (unit, 's) outcome" where
  "assertLoginAllowed u = (if status u = BANNED then throw (Forbidden ''Account is banned'')
     else if status u = SUSPENDED then throw (Forbidden ''Account is suspended'') else return ())"

section \<open>Public flows\<close>

record RegisterDto =
  rg_username :: string
  rg_email :: string
  rg_password :: string
  rg_displayName :: "string option"

definition or_username :: "string option \<Rightarrow> string \<Rightarrow> string" where
  "or_username d n = (case d of None \<Rightarrow> n | Some x \<Rightarrow> if x = '''' then n else x)"

definition hash_password :: "crypto \<Rightarrow> string \<Rightarrow> 'a auth_st_scheme \<Rightarrow> string \<times> 'a auth_st_scheme" where
  "hash_password L p s = (let (n, s) = fresh_uuid s in (pw_hash L n p, s))"

definition auth_register :: "crypto \<Rightarrow> AuthConfig \<Rightarrow> RegisterDto \<Rightarrow> SessionContext \<Rightarrow> 'a auth_st_scheme \<Rightarrow> (AuthResult, 'a auth_st_scheme) outcome" where
  "auth_register L cfg dto ctx s =
     (let e = toLowerCase (rg_email dto) in
      if List.find (\<lambda>d. email d = e \<or> username d = rg_username dto) (users s) \<noteq> None
      then throw (Conflict ''Username or email already in use'') s
      else let (h, s) = hash_password L (rg_password dto) s
           in await (create_user \<lparr>nu_username = rg_username dto, nu_email = e, nu_passwordHash = h,
                nu_displayName = Some (or_username (rg_displayName dto) (rg_username dto)), nu_isAdmin = False\<rparr>) (\<lambda>u s.
                await (issueTokensForUser L cfg u ctx) (\<lambda>tk. return (u, tk)) (best_effort (addUserToDefaultServer (u_id u)) s)) s)"

definition auth_login :: "crypto \<Rightarrow> AuthConfig \<Rightarrow> string \<Rightarrow> string \<Rightarrow> SessionContext \<Rightarrow> 'a auth_st_scheme \<Rightarrow> (AuthResult, 'a auth_st_scheme) outcome" where
  "auth_login L cfg ident p ctx s =
     (case findByIdentifier ident s of
        None \<Rightarrow> throw (Unauthorized ''Invalid credentials'') s
      | Some u \<Rightarrow>
          if \<not> pw_verify L (passwordHash u) p then throw (Unauthorized ''Invalid credentials'') s
          else await (assertLoginAllowed u) (\<lambda>_. await (issueTokensForUser L cfg u ctx) (\<lambda>tk. return (u, tk))) s)"

definition auth_refresh :: "crypto \<Rightarrow> AuthConfig \<Rightarrow> string option \<Rightarrow> SessionContext \<Rightarrow> 'a auth_st_scheme \<Rightarrow> (AuthResult, 'a auth_st_scheme) outcome" where
  "auth_refresh L cfg token ctx s =
     (if token = None \<or> token = Some '''' then throw (Unauthorized ''Missing refresh token'') s
      else let t = the token in
        case jwt_verify L (refreshSecret cfg) (clock s) t of
          None \<Rightarrow> throw (Unauthorized ''Invalid refresh token'') s
        | Some (Refresh_claims sub sid _) \<Rightarrow>
            (case find_session sid s of
               None \<Rightarrow> throw (Unauthorized ''Session not found'') s
             | Some ss \<Rightarrow>
                 if ss_userId ss \<noteq> sub then throw (Unauthorized ''Session not found'') s
                 else if ss_expiresAt ss < clock s then throw (Unauthorized ''Session expired'') (delete_session sid s)
                 else if ss_refreshHash ss \<noteq> sha256 L t then throw (Unauthorized ''Refresh token mismatch'') (delete_session sid s)
                 else (case find_user sub s of
                         None \<Rightarrow> throw (Unauthorized ''User not found'') s
                       | Some u \<Rightarrow> await (assertLoginAllowed u) (\<lambda>_. await (rotateSession L cfg ss u ctx) (\<lambda>tk. return (u, tk))) s))
        | Some _ \<Rightarrow> throw (Unauthorized ''Invalid token type'') s)"

definition auth_logout :: "raw_id \<Rightarrow> 'a auth_st_scheme \<Rightarrow> 'a auth_st_scheme" where
  "auth_logout r s = (case read_oid r of None \<Rightarrow> s | Some i \<Rightarrow> delete_session i s)"

text \<open>A token that is no refresh token has no session to end.\<close>

definition logoutByRefreshToken :: "crypto \<Rightarrow> AuthConfig \<Rightarrow> string option \<Rightarrow> 'a auth_st_scheme \<Rightarrow> 'a auth_st_scheme" where
  "logoutByRefreshToken L cfg token s =
     (if token = None \<or> token = Some '''' then s
      else case jwt_verify L (refreshSecret cfg) (clock s) (the token) of
        Some (Refresh_claims _ sid _) \<Rightarrow> auth_logout (Hex sid) s
      | _ \<Rightarrow> s)"

definition logoutAll :: "oid \<Rightarrow> 'a auth_st_scheme \<Rightarrow> 'a auth_st_scheme" where
  "logoutAll u s = s\<lparr>sessions := deleteMany (\<lambda>x. ss_userId x = u) (sessions s)\<rparr>"

definition changePassword :: "crypto \<Rightarrow> oid \<Rightarrow> string \<Rightarrow> string \<Rightarrow> 'a auth_st_scheme \<Rightarrow> (unit, 'a auth_st_scheme) outcome" where
  "changePassword L u oldPassword newPassword = await (findByIdOrThrow (Hex u)) (\<lambda>d s.
     if \<not> pw_verify L (passwordHash d) oldPassword then throw (Unauthorized ''Old password is incorrect'') s
     else let (h, s) = hash_password L newPassword s in return () (logoutAll u (setPasswordHash u h s)))"

definition forgotPassword :: "crypto \<Rightarrow> AuthConfig \<Rightarrow> string \<Rightarrow> 'a auth_st_scheme \<Rightarrow> string option" where
  "forgotPassword L cfg e s =
     map_option (\<lambda>u. jwt_sign L (resetSecret cfg) (Reset_claims (u_id u)) (clock s) (resetPasswordTtl cfg)) (findByEmail e s)"

definition resetPassword :: "crypto \<Rightarrow> AuthConfig \<Rightarrow> string \<Rightarrow> string \<Rightarrow> 'a auth_st_scheme \<Rightarrow> (unit, 'a auth_st_scheme) outcome" where
  "resetPassword L cfg token newPassword s =
     (case jwt_verify L (resetSecret cfg) (clock s) token of
        None \<Rightarrow> throw (Unauthorized ''Invalid or expired reset token'') s
      | Some (Reset_claims sub) \<Rightarrow>
          (case find_user sub s of
             None \<Rightarrow> throw (NotFound ''User not found'') s
           | Some d \<Rightarrow> let (h, s) = hash_password L newPassword s
                       in return () (logoutAll (u_id d) (setPasswordHash (u_id d) h s)))
      | Some _ \<Rightarrow> throw (Unauthorized ''Invalid token type'') s)"

section \<open>Sessions\<close>

definition listSessions :: "oid \<Rightarrow> 'a auth_st_scheme \<Rightarrow> Session list" where
  "listSessions u s = sort_key (\<lambda>x. - ss_updatedAt x) (filter (\<lambda>x. ss_userId x = u) (sessions s))"

definition revokeSession :: "oid \<Rightarrow> raw_id \<Rightarrow> 'a auth_st_scheme \<Rightarrow> (unit, 'a auth_st_scheme) outcome" where
  "revokeSession u r s =
     (case Option.bind (read_oid r) (\<lambda>i. find_session i s) of
        None \<Rightarrow> throw (NotFound ''Session not found'') s
      | Some ss \<Rightarrow> if ss_userId ss \<noteq> u then throw (NotFound ''Session not found'') s
                   else return () (delete_session (ss_id ss) s))"

text \<open>The database drops sessions whose time is over.\<close>

definition expire_sessions :: "'a auth_st_scheme \<Rightarrow> 'a auth_st_scheme" where
  "expire_sessions s = s\<lparr>sessions := deleteMany (\<lambda>x. ss_expiresAt x \<le> clock s) (sessions s)\<rparr>"

definition verifyAccessToken :: "crypto \<Rightarrow> AuthConfig \<Rightarrow> string \<Rightarrow> 'a auth_st_scheme \<Rightarrow> http_error + (oid \<times> string \<times> string)" where
  "verifyAccessToken L cfg token s =
     (case jwt_verify L (accessSecret cfg) (clock s) token of
        None \<Rightarrow> Inl (Unauthorized ''jwt'')
      | Some (Access_claims u n role) \<Rightarrow> Inr (u, n, role)
      | Some _ \<Rightarrow> Inl (Unauthorized ''Invalid token type''))"

text \<open>What the guard of the sockets makes of a handshake token (\<open>src/common/guards/ws-jwt.guard.ts\<close>).\<close>

definition authenticate :: "crypto \<Rightarrow> AuthConfig \<Rightarrow> string option \<Rightarrow> 'a auth_st_scheme \<Rightarrow> (oid \<times> string \<times> string) option" where
  "authenticate L cfg token s =
     (case token of
        None \<Rightarrow> None
      | Some t \<Rightarrow> if t = '''' then None else (case verifyAccessToken L cfg t s of Inl _ \<Rightarrow> None | Inr x \<Rightarrow> Some x))"

section \<open>Administration\<close>

text \<open>\<open>src/admin/admin.service.ts\<close>: the sockets that are closed are those in the room of the identifier as it was spelled.\<close>

definition admin_setStatus :: "raw_id \<Rightarrow> AccountStatus \<Rightarrow> 'a auth_st_scheme \<Rightarrow> (oid \<times> AccountStatus, 'a auth_st_scheme) outcome" where
  "admin_setStatus r st = await (cast_oid r) (\<lambda>u. await (setStatus u st) (\<lambda>d s.
     return (u_id d, status d)
       (if st = BANNED \<or> st = SUSPENDED then (logoutAll u s)\<lparr>disconnected := disconnected s @ [r]\<rparr> else s)))"

text \<open>\<open>src/common/guards/admin.guard.ts\<close>: the flag of the stored account decides, not the role in the token.\<close>

definition admin_guard :: "oid option \<Rightarrow> 'a env_st_scheme \<Rightarrow> (unit, 'a env_st_scheme) outcome" where
  "admin_guard caller s =
     (case caller of
        None \<Rightarrow> throw (Forbidden ''Unauthorized'') s
      | Some u \<Rightarrow> (case find_user u s of
          None \<Rightarrow> throw (Forbidden ''Admin access required'') s
        | Some d \<Rightarrow> if isAdmin d then return () s else throw (Forbidden ''Admin access required'') s))"

end
