(* ===== verification/Uploads.thy ===== *)
theory Uploads
  imports Chat
begin

text \<open>
  \<open>src/uploads/uploads.service.ts\<close>: files sent by users, stored on disk under a random name in a directory that is
  served to everybody. A path on disk is the list of what \<open>join\<close> is given; \<open>randomUUID\<close> is a parameter that
  draws a new string for every number.
\<close>

section \<open>State\<close>

record UploadedFile =
  uf_originalname :: string
  uf_mimetype :: string
  uf_size :: int
  uf_buffer :: string

record StoredFile =
  sf_url :: string
  sf_type :: string
  sf_name :: string
  sf_size :: int
  sf_category :: AttachmentCategory

text \<open>A limit that was not a number in the environment is \<open>None\<close>: a comparison with \<open>NaN\<close> is false.\<close>

record UploadConfig =
  localDir :: string
  publicBaseUrl :: string
  avatarMaxBytes :: "int option"
  attachmentMaxBytes :: "int option"
  videoMaxBytes :: "int option"

record uploads_st =
  disk :: "string list \<Rightarrow> string option"
  drawn :: nat

section \<open>Names and categories\<close>

definition IMAGE_MIME :: "string list" where
  "IMAGE_MIME = [''image/png'', ''image/jpeg'', ''image/jpg'', ''image/webp'', ''image/gif'', ''image/bmp'', ''image/svg+xml'']"

definition categorize :: "string \<Rightarrow> AttachmentCategory" where
  "categorize mime = (if prefix ''image/'' mime then IMAGE else if prefix ''video/'' mime then VIDEO
     else if prefix ''audio/'' mime then AUDIO else FILE)"

fun category_str :: "AttachmentCategory \<Rightarrow> string" where
  "category_str IMAGE = ''IMAGE''"
| "category_str VIDEO = ''VIDEO''"
| "category_str AUDIO = ''AUDIO''"
| "category_str FILE = ''FILE''"

text \<open>
  Node's \<open>extname\<close>: the last component of the path, without trailing separators, from its last dot on, unless that is its
  first character.
\<close>

definition basename :: "string \<Rightarrow> string" where
  "basename p = rev (takeWhile (\<lambda>c. c \<noteq> CHR ''/'') (dropWhile (\<lambda>c. c = CHR ''/'') (rev p)))"

definition extname :: "string \<Rightarrow> string" where
  "extname p =
     (let b = basename p; ext = rev (takeWhile (\<lambda>c. c \<noteq> CHR ''.'') (rev b))
      in if length ext + 1 < length b then CHR ''.'' # ext else '''')"

definition ext_char :: "char \<Rightarrow> bool" where
  "ext_char c \<longleftrightarrow> (let n = of_char c :: nat in 97 \<le> n \<and> n \<le> 122 \<or> 48 \<le> n \<and> n \<le> 57)"

text \<open>The pattern \<open>/^\.[a-z0-9]{1,12}$/\<close>.\<close>

definition safe_ext :: "string \<Rightarrow> bool" where
  "safe_ext e \<longleftrightarrow> (case e of [] \<Rightarrow> False | c # cs \<Rightarrow> c = CHR ''.'' \<and> 1 \<le> length cs \<and> length cs \<le> 12 \<and> list_all ext_char cs)"

definition safeExtension :: "string \<Rightarrow> string" where
  "safeExtension name = (let ext = toLowerCase (extname name) in if ext = '''' \<or> \<not> safe_ext ext then '''' else ext)"

section \<open>Storing\<close>

text \<open>The driver for S3 falls through to the local one.\<close>

definition store :: "(nat \<Rightarrow> string) \<Rightarrow> UploadConfig \<Rightarrow> UploadedFile \<Rightarrow> string \<Rightarrow> 'a uploads_st_scheme \<Rightarrow> (StoredFile, 'a uploads_st_scheme) outcome" where
  "store uuid cfg f folder s =
     (let filename = uuid (drawn s) @ safeExtension (uf_originalname f);
          s = s\<lparr>drawn := Suc (drawn s), disk := (disk s)([localDir cfg, folder, filename] \<mapsto> uf_buffer f)\<rparr>
      in return \<lparr>sf_url = publicBaseUrl cfg @ ''/'' @ folder @ ''/'' @ filename, sf_type = uf_mimetype f, sf_name = uf_originalname f,
                sf_size = uf_size f, sf_category = categorize (uf_mimetype f)\<rparr> s)"

definition exceeds :: "int \<Rightarrow> int option \<Rightarrow> bool" where
  "exceeds n bound = (case bound of None \<Rightarrow> False | Some m \<Rightarrow> n > m)"

definition saveAvatar :: "(nat \<Rightarrow> string) \<Rightarrow> UploadConfig \<Rightarrow> UploadedFile option \<Rightarrow> 'a uploads_st_scheme \<Rightarrow> (StoredFile, 'a uploads_st_scheme) outcome" where
  "saveAvatar uuid cfg file s =
     (case file of
        None \<Rightarrow> throw (BadRequest ''No file uploaded'') s
      | Some f \<Rightarrow>
          if exceeds (uf_size f) (avatarMaxBytes cfg) then throw (BadRequest ''Avatar exceeds size limit'') s
          else if uf_mimetype f \<notin> set IMAGE_MIME then throw (BadRequest ''Avatar must be an image'') s
          else store uuid cfg f ''avatars'' s)"

text \<open>\<open>Math.round(max / (1024 * 1024))\<close>.\<close>

definition megabytes :: "int \<Rightarrow> int" where
  "megabytes n = (2 * n + 1048576) div 2097152"

definition limit_of :: "UploadConfig \<Rightarrow> AttachmentCategory \<Rightarrow> int option" where
  "limit_of cfg c = (if c = VIDEO then videoMaxBytes cfg else attachmentMaxBytes cfg)"

definition saveAttachment :: "(nat \<Rightarrow> string) \<Rightarrow> UploadConfig \<Rightarrow> UploadedFile option \<Rightarrow> 'a uploads_st_scheme \<Rightarrow> (StoredFile, 'a uploads_st_scheme) outcome" where
  "saveAttachment uuid cfg file s =
     (case file of
        None \<Rightarrow> throw (BadRequest ''No file uploaded'') s
      | Some f \<Rightarrow>
          let category = categorize (uf_mimetype f) in
          case limit_of cfg category of
            Some m \<Rightarrow>
              if uf_size f > m then throw (BadRequest (category_str category @ '' attachment exceeds size limit ('' @ nat_str (nat (megabytes m)) @ ''MB)'')) s
              else store uuid cfg f (''attachments/'' @ toLowerCase (category_str category)) s
          | None \<Rightarrow> store uuid cfg f (''attachments/'' @ toLowerCase (category_str category)) s)"

end
