(* ===== verification/Config.thy ===== *)
theory Config
  imports Auth VoiceGateway Uploads
begin

text \<open>
  \<open>src/config/configuration.ts\<close>: the settings, read from the environment. A variable that is absent or empty has its
  default. The tunables of Tien Len, which are read as floating-point numbers, are a parameter of that component.
\<close>

record CookieConfig =
  refreshName :: string
  secure :: bool
  domain :: "string option"

record S3Config =
  s3_endpoint :: "string option"
  s3_region :: string
  s3_bucket :: "string option"
  s3_accessKey :: "string option"
  s3_secretKey :: "string option"
  s3_publicBaseUrl :: "string option"

record AppConfig =
  ac_env :: string
  ac_port :: "int option"
  ac_apiPrefix :: string
  ac_corsOrigins :: "string list"
  ac_mongoUri :: string
  ac_redisUrl :: string
  ac_jwt :: AuthConfig
  ac_cookie :: CookieConfig
  ac_driver :: string
  ac_upload :: UploadConfig
  ac_s3 :: S3Config
  ac_sfuThreshold :: "int option"
  ac_livekit :: SfuConfig
  ac_defaultServerId :: "string option"
  ac_defaultServerOwnerId :: "string option"
  ac_encryptionKey :: string

type_synonym environment = "string \<Rightarrow> string option"

section \<open>Reading\<close>

text \<open>\<open>process.env.X || d\<close> and \<open>process.env.X || undefined\<close>.\<close>

definition env_or :: "environment \<Rightarrow> string \<Rightarrow> string \<Rightarrow> string" where
  "env_or e x d = (case e x of None \<Rightarrow> d | Some v \<Rightarrow> if v = '''' then d else v)"

definition or_undefined :: "environment \<Rightarrow> string \<Rightarrow> string option" where
  "or_undefined e x = (case e x of None \<Rightarrow> None | Some v \<Rightarrow> if v = '''' then None else Some v)"

text \<open>\<open>parseInt(s, 10)\<close>, where \<open>None\<close> is \<open>NaN\<close>: spaces, a sign, and the digits up to the first other character.\<close>

definition parseInt :: "string \<Rightarrow> int option" where
  "parseInt s =
     (let t = dropWhile is_space s;
          (neg, r) = (case t of [] \<Rightarrow> (False, t) | c # cs \<Rightarrow> if c = CHR ''-'' then (True, cs) else if c = CHR ''+'' then (False, cs) else (False, t));
          digits = takeWhile is_digit r
      in if digits = [] then None else Some (if neg then - int (read_nat digits) else int (read_nat digits)))"

text \<open>\<open>s.split(',')\<close>.\<close>

fun split_commas :: "string \<Rightarrow> string list" where
  "split_commas [] = [[]]"
| "split_commas (c # cs) =
     (if c = CHR '','' then [] # split_commas cs
      else case split_commas cs of [] \<Rightarrow> [[c]] | x # xs \<Rightarrow> (c # x) # xs)"

definition origins :: "string \<Rightarrow> string list" where
  "origins s = filter (\<lambda>x. x \<noteq> '''') (map trim (split_commas s))"

section \<open>Settings\<close>

definition settings :: "environment \<Rightarrow> AppConfig" where
  "settings e =
     \<lparr>ac_env = env_or e ''NODE_ENV'' ''development'',
      ac_port = parseInt (env_or e ''PORT'' ''3000''),
      ac_apiPrefix = env_or e ''API_PREFIX'' ''api'',
      ac_corsOrigins = origins (env_or e ''CORS_ORIGINS'' ''http://localhost:5173''),
      ac_mongoUri = env_or e ''MONGO_URI'' ''mongodb://127.0.0.1:27017/htss_club?replicaSet=rs0'',
      ac_redisUrl = env_or e ''REDIS_URL'' ''redis://127.0.0.1:6379'',
      ac_jwt = \<lparr>accessSecret = env_or e ''JWT_ACCESS_SECRET'' ''dev_access_secret'',
                refreshSecret = env_or e ''JWT_REFRESH_SECRET'' ''dev_refresh_secret'',
                accessTtl = env_or e ''JWT_ACCESS_TTL'' ''15m'',
                refreshTtl = Some (env_or e ''JWT_REFRESH_TTL'' ''7d''),
                resetPasswordTtl = env_or e ''RESET_PASSWORD_TTL'' ''30m''\<rparr>,
      ac_cookie = \<lparr>refreshName = env_or e ''REFRESH_COOKIE_NAME'' ''refresh_token'',
                   secure = (env_or e ''COOKIE_SECURE'' ''false'' = ''true''),
                   domain = or_undefined e ''COOKIE_DOMAIN''\<rparr>,
      ac_driver = env_or e ''UPLOAD_DRIVER'' ''local'',
      ac_upload = \<lparr>localDir = env_or e ''UPLOAD_LOCAL_DIR'' ''./uploads-store'',
                   publicBaseUrl = env_or e ''UPLOAD_PUBLIC_BASE_URL'' ''http://localhost:3000/static'',
                   avatarMaxBytes = parseInt (env_or e ''AVATAR_MAX_BYTES'' ''5242880''),
                   attachmentMaxBytes = parseInt (env_or e ''ATTACHMENT_MAX_BYTES'' ''26214400''),
                   videoMaxBytes = parseInt (env_or e ''VIDEO_MAX_BYTES'' ''209715200'')\<rparr>,
      ac_s3 = \<lparr>s3_endpoint = or_undefined e ''S3_ENDPOINT'', s3_region = env_or e ''S3_REGION'' ''us-east-1'',
               s3_bucket = or_undefined e ''S3_BUCKET'', s3_accessKey = or_undefined e ''S3_ACCESS_KEY'',
               s3_secretKey = or_undefined e ''S3_SECRET_KEY'', s3_publicBaseUrl = or_undefined e ''S3_PUBLIC_BASE_URL''\<rparr>,
      ac_sfuThreshold = parseInt (env_or e ''VOICE_SFU_THRESHOLD'' ''8''),
      ac_livekit = \<lparr>sfu_url = env_or e ''LIVEKIT_URL'' '''', sfu_apiKey = env_or e ''LIVEKIT_API_KEY'' '''',
                    sfu_apiSecret = env_or e ''LIVEKIT_API_SECRET'' ''''\<rparr>,
      ac_defaultServerId = or_undefined e ''DEFAULT_SERVER_ID'',
      ac_defaultServerOwnerId = or_undefined e ''DEFAULT_SERVER_OWNER_ID'',
      ac_encryptionKey = env_or e ''DM_ENCRYPTION_KEY'' ''dev_dm_encryption_key_change_me_32b''\<rparr>"

end
