(* ===== verification/AuthController.thy ===== *)
theory AuthController
  imports Config
begin

text \<open>
  \<open>src/auth/auth.controller.ts\<close>, with \<open>src/auth/cookie.util.ts\<close> and \<open>src/auth/strategies/jwt.strategy.ts\<close>: the routes of
  authentication. A reply carries what is to be done with the cookies of the browser. The bounds on the number of
  requests are a decorator of a library and not part of the routes.
\<close>

section \<open>Requests and cookies\<close>

record HttpRequest =
  rq_userAgent :: "string option"
  rq_ip :: "string option"
  rq_cookies :: "string \<Rightarrow> string option"
  rq_bearer :: "string option"

datatype SameSite = Lax | NoRestriction

record CookieOptions =
  co_httpOnly :: bool
  co_secure :: bool
  co_sameSite :: SameSite
  co_domain :: "string option"
  co_expires :: "int option"

datatype cookie_action = Set_cookie string string CookieOptions | Clear_cookie string CookieOptions

definition cookieName :: "AppConfig \<Rightarrow> string" where
  "cookieName cfg = (let n = refreshName (ac_cookie cfg) in if n = '''' then ''refresh_token'' else n)"

definition buildOptions :: "AppConfig \<Rightarrow> int option \<Rightarrow> CookieOptions" where
  "buildOptions cfg expiresAt =
     (let sec = secure (ac_cookie cfg); dom = domain (ac_cookie cfg)
      in \<lparr>co_httpOnly = True, co_secure = sec, co_sameSite = (if sec then NoRestriction else Lax),
          co_domain = (if dom = Some '''' then None else dom), co_expires = expiresAt\<rparr>)"

definition setRefreshCookie :: "AppConfig \<Rightarrow> string \<Rightarrow> int \<Rightarrow> cookie_action" where
  "setRefreshCookie cfg token expiresAt = Set_cookie (cookieName cfg) token (buildOptions cfg (Some expiresAt))"

definition clearRefreshCookie :: "AppConfig \<Rightarrow> cookie_action" where
  "clearRefreshCookie cfg = Clear_cookie (cookieName cfg) (buildOptions cfg None)"

text \<open>\<open>req.cookies?.[cookieName] || dto?.refreshToken\<close>.\<close>

definition request_token :: "AppConfig \<Rightarrow> HttpRequest \<Rightarrow> string option \<Rightarrow> string option" where
  "request_token cfg rq dto = (case rq_cookies rq (cookieName cfg) of None \<Rightarrow> dto | Some x \<Rightarrow> if x = '''' then dto else Some x)"

definition request_ctx :: "HttpRequest \<Rightarrow> SessionContext" where
  "request_ctx rq = \<lparr>sc_userAgent = rq_userAgent rq, sc_ip = rq_ip rq\<rparr>"

text \<open>The guard of the routes for users: the bearer token, verified, is the caller.\<close>

definition caller :: "crypto \<Rightarrow> AppConfig \<Rightarrow> HttpRequest \<Rightarrow> 'a auth_st_scheme \<Rightarrow> (oid, 'a auth_st_scheme) outcome" where
  "caller L cfg rq s =
     (case rq_bearer rq of
        None \<Rightarrow> throw (Unauthorized ''Unauthorized'') s
      | Some t \<Rightarrow> (case verifyAccessToken L (ac_jwt cfg) t s of Inl e \<Rightarrow> throw e s | Inr (u, n, role) \<Rightarrow> return u s))"

section \<open>Replies\<close>

text \<open>\<open>toJSON\<close> leaves the hash of the password out, which here is an empty one.\<close>

definition user_json :: "User \<Rightarrow> User" where
  "user_json u = u\<lparr>passwordHash := ''''\<rparr>"

record AuthReply =
  ar_accessToken :: string
  ar_refreshToken :: string
  ar_refreshExpiresAt :: int
  ar_user :: User

definition signed_in :: "AppConfig \<Rightarrow> AuthResult \<Rightarrow> AuthReply \<times> cookie_action list" where
  "signed_in cfg r = (case r of (u, tk) \<Rightarrow>
     (\<lparr>ar_accessToken = accessToken tk, ar_refreshToken = refreshToken tk, ar_refreshExpiresAt = refreshExpiresAt tk, ar_user = user_json u\<rparr>,
      [setRefreshCookie cfg (refreshToken tk) (refreshExpiresAt tk)]))"

section \<open>Routes\<close>

definition post_register :: "crypto \<Rightarrow> AppConfig \<Rightarrow> RegisterDto \<Rightarrow> HttpRequest \<Rightarrow> 'a auth_st_scheme \<Rightarrow> (AuthReply \<times> cookie_action list, 'a auth_st_scheme) outcome" where
  "post_register L cfg dto rq = await (auth_register L (ac_jwt cfg) dto (request_ctx rq)) (\<lambda>r. return (signed_in cfg r))"

definition post_login :: "crypto \<Rightarrow> AppConfig \<Rightarrow> string \<Rightarrow> string \<Rightarrow> HttpRequest \<Rightarrow> 'a auth_st_scheme \<Rightarrow> (AuthReply \<times> cookie_action list, 'a auth_st_scheme) outcome" where
  "post_login L cfg ident p rq = await (auth_login L (ac_jwt cfg) ident p (request_ctx rq)) (\<lambda>r. return (signed_in cfg r))"

definition post_refresh :: "crypto \<Rightarrow> AppConfig \<Rightarrow> string option \<Rightarrow> HttpRequest \<Rightarrow> 'a auth_st_scheme \<Rightarrow> (AuthReply \<times> cookie_action list, 'a auth_st_scheme) outcome" where
  "post_refresh L cfg dto rq = await (auth_refresh L (ac_jwt cfg) (request_token cfg rq dto) (request_ctx rq)) (\<lambda>r. return (signed_in cfg r))"

definition post_logout :: "crypto \<Rightarrow> AppConfig \<Rightarrow> string option \<Rightarrow> HttpRequest \<Rightarrow> 'a auth_st_scheme \<Rightarrow> (cookie_action list, 'a auth_st_scheme) outcome" where
  "post_logout L cfg dto rq = await (caller L cfg rq) (\<lambda>_ s.
     return [clearRefreshCookie cfg] (logoutByRefreshToken L (ac_jwt cfg) (request_token cfg rq dto) s))"

definition post_logout_all :: "crypto \<Rightarrow> AppConfig \<Rightarrow> HttpRequest \<Rightarrow> 'a auth_st_scheme \<Rightarrow> (cookie_action list, 'a auth_st_scheme) outcome" where
  "post_logout_all L cfg rq = await (caller L cfg rq) (\<lambda>u s. return [clearRefreshCookie cfg] (logoutAll u s))"

definition get_me :: "crypto \<Rightarrow> AppConfig \<Rightarrow> HttpRequest \<Rightarrow> 'a auth_st_scheme \<Rightarrow> (User, 'a auth_st_scheme) outcome" where
  "get_me L cfg rq = await (caller L cfg rq) (\<lambda>u. await (findByIdOrThrow (Hex u)) (\<lambda>d. return (user_json d)))"

definition post_forgot_password :: "crypto \<Rightarrow> AppConfig \<Rightarrow> string \<Rightarrow> 'a auth_st_scheme \<Rightarrow> (string option, 'a auth_st_scheme) outcome" where
  "post_forgot_password L cfg e s =
     (let token = forgotPassword L (ac_jwt cfg) e s in return (if ac_env cfg \<noteq> ''production'' then token else None) s)"

definition post_reset_password :: "crypto \<Rightarrow> AppConfig \<Rightarrow> string \<Rightarrow> string \<Rightarrow> 'a auth_st_scheme \<Rightarrow> (unit, 'a auth_st_scheme) outcome" where
  "post_reset_password L cfg token p = resetPassword L (ac_jwt cfg) token p"

definition post_change_password :: "crypto \<Rightarrow> AppConfig \<Rightarrow> string \<Rightarrow> string \<Rightarrow> HttpRequest \<Rightarrow> 'a auth_st_scheme \<Rightarrow> (cookie_action list, 'a auth_st_scheme) outcome" where
  "post_change_password L cfg oldPassword newPassword rq = await (caller L cfg rq) (\<lambda>u.
     await (changePassword L u oldPassword newPassword) (\<lambda>_. return [clearRefreshCookie cfg]))"

end
