(* ===== verification/UploadsLaws.thy ===== *)
theory UploadsLaws
  imports Uploads
begin

text \<open>
  What the storage of uploads promises: files go to our folders under our names and stay as they are; and two
  behaviours at the edge of it.
\<close>

section \<open>Steps\<close>

datatype upload_op = Save_avatar "UploadedFile option" | Save_attachment "UploadedFile option"

fun upload_step :: "(nat \<Rightarrow> string) \<Rightarrow> UploadConfig \<Rightarrow> upload_op \<Rightarrow> 'a uploads_st_scheme \<Rightarrow> 'a uploads_st_scheme" where
  "upload_step uid cfg (Save_avatar f) s = snd (saveAvatar uid cfg f s)"
| "upload_step uid cfg (Save_attachment f) s = snd (saveAttachment uid cfg f s)"

text \<open>What the code relies on: new identifiers are different from all before, and made of digits, letters and dashes.\<close>

definition uuid_ok :: "(nat \<Rightarrow> string) \<Rightarrow> bool" where
  "uuid_ok uid \<longleftrightarrow> inj uid \<and> (\<forall>n. list_all (\<lambda>c. ext_char c \<or> c = CHR ''-'') (uid n))"

definition folders :: "string set" where
  "folders = {''avatars'', ''attachments/image'', ''attachments/video'', ''attachments/audio'', ''attachments/file''}"

definition upload_path :: "(nat \<Rightarrow> string) \<Rightarrow> UploadConfig \<Rightarrow> nat \<Rightarrow> string list \<Rightarrow> bool" where
  "upload_path uid cfg n p \<longleftrightarrow> (\<exists>folder k e. p = [localDir cfg, folder, uid k @ e] \<and> folder \<in> folders \<and> k < n \<and> (e = '''' \<or> safe_ext e))"

lemma safeExtension_safe: "safeExtension x = '''' \<or> safe_ext (safeExtension x)"
  by (simp add: safeExtension_def Let_def)

lemma category_lower:
  "toLowerCase ''IMAGE'' = ''image''" "toLowerCase ''VIDEO'' = ''video''" "toLowerCase ''AUDIO'' = ''audio''" "toLowerCase ''FILE'' = ''file''"
  by code_simp+

lemma attachments_folder: "''attachments/'' @ toLowerCase (category_str c) \<in> folders"
  by (cases c) (simp_all add: folders_def category_lower)

lemma upload_step_cases:
  "upload_step uid cfg op s = s \<or> (\<exists>f. \<exists>folder \<in> folders. upload_step uid cfg op s = snd (store uid cfg f folder s))"
proof (cases op)
  case (Save_avatar x)
  have "''avatars'' \<in> folders" by (simp add: folders_def)
  then show ?thesis using Save_avatar by (auto simp: saveAvatar_def throw_def split: option.split)
next
  case (Save_attachment x)
  show ?thesis using Save_attachment attachments_folder
    by (cases x; cases "limit_of cfg (categorize (uf_mimetype (the x)))") (auto simp: saveAttachment_def throw_def Let_def)
qed

section \<open>Names\<close>

lemma uuid_prefix:
  assumes "uuid_ok uid" "e = '''' \<or> safe_ext e"
  shows "takeWhile (\<lambda>c. c \<noteq> CHR ''.'') (uid n @ e) = uid n"
proof -
  have "\<not> ext_char CHR ''.''" by code_simp
  then have "\<forall>c \<in> set (uid n). c \<noteq> CHR ''.''" using assms(1) by (fastforce simp: uuid_ok_def list_all_iff)
  then show ?thesis using assms(2) by (auto simp: takeWhile_append safe_ext_def takeWhile_eq_all_conv split: list.splits)
qed

lemma upload_path_mono: "upload_path uid cfg n p \<Longrightarrow> n \<le> m \<Longrightarrow> upload_path uid cfg m p"
  unfolding upload_path_def using order_less_le_trans by blast

lemma fresh_path:
  assumes "uuid_ok uid" "upload_path uid cfg n p" "e = '''' \<or> safe_ext e"
  shows "p \<noteq> [d, folder, uid n @ e]"
proof
  assume p: "p = [d, folder, uid n @ e]"
  obtain k e' where k: "uid n @ e = uid k @ e'" "k < n" "e' = '''' \<or> safe_ext e'" using assms(2) p by (auto simp: upload_path_def)
  have "uid n = uid k" using uuid_prefix [OF assms(1,3), of n] uuid_prefix [OF assms(1) k(3), of k] k(1) by simp
  then show False using assms(1) k(2) by (auto simp: uuid_ok_def dest: injD)
qed

text \<open>Every file lies in one of the folders under a name of ours.\<close>

definition disk_ok :: "(nat \<Rightarrow> string) \<Rightarrow> UploadConfig \<Rightarrow> 'a uploads_st_scheme \<Rightarrow> bool" where
  "disk_ok uid cfg s \<longleftrightarrow> (\<forall>p \<in> dom (disk s). upload_path uid cfg (drawn s) p)"

lemma upload_step_keeps:
  assumes "uuid_ok uid" "disk_ok uid cfg s"
  shows "disk_ok uid cfg (upload_step uid cfg op s) \<and> disk s \<subseteq>\<^sub>m disk (upload_step uid cfg op s)"
proof (cases "upload_step uid cfg op s = s")
  case False
  then obtain f folder where s: "upload_step uid cfg op s = snd (store uid cfg f folder s)" "folder \<in> folders"
    using upload_step_cases [of uid cfg op s] by blast
  let ?e = "safeExtension (uf_originalname f)" and ?t = "snd (store uid cfg f folder s)"
  let ?p = "[localDir cfg, folder, uid (drawn s) @ ?e]"
  have t: "disk ?t = (disk s)(?p \<mapsto> uf_buffer f)" "drawn ?t = Suc (drawn s)" by (simp_all add: store_def Let_def)
  have "upload_path uid cfg (Suc (drawn s)) ?p" using s(2) safeExtension_safe [of "uf_originalname f"] unfolding upload_path_def by blast
  moreover have "upload_path uid cfg (Suc (drawn s)) p" if "p \<in> dom (disk s)" for p
    using assms(2) that upload_path_mono [of uid cfg "drawn s" p "Suc (drawn s)"] by (simp add: disk_ok_def)
  ultimately have "disk_ok uid cfg ?t" by (auto simp: disk_ok_def t)
  moreover have "?p \<notin> dom (disk s)"
    using assms(2) fresh_path [OF assms(1) _ safeExtension_safe] unfolding disk_ok_def by blast
  then have "disk s \<subseteq>\<^sub>m disk ?t" by (auto simp: map_le_def t)
  ultimately show ?thesis by (simp add: s(1))
qed (use assms in simp_all)

text \<open>
  C35: Whatever files users send, with whatever names: every file is written to one of the five folders under a name that the server drew, with
  at most a dot and up to twelve lower-case letters and digits after it, and no file stored before is changed.
\<close>

theorem uploads_confined_and_kept:
  assumes "uuid_ok uid" "disk_ok uid cfg s"
  shows "disk_ok uid cfg (fold (upload_step uid cfg) ops s) \<and> disk s \<subseteq>\<^sub>m disk (fold (upload_step uid cfg) ops s)"
  using assms(2)
proof (induction ops arbitrary: s)
  case (Cons op ops)
  have 1: "disk_ok uid cfg (upload_step uid cfg op s)" "disk s \<subseteq>\<^sub>m disk (upload_step uid cfg op s)"
    using upload_step_keeps [OF assms(1) Cons.prems] by auto
  then show ?case using Cons.IH [OF 1(1)] by (auto intro: map_le_trans)
qed simp

section \<open>Edges\<close>

text \<open>
  The extension of an avatar is that of the name sent, and what is checked is the type sent with it: a page called an image is stored as a
  page, in the directory served to everybody.
\<close>

theorem avatar_stored_as_page:
  assumes "uf_mimetype f = ''image/png''" "uf_originalname f = ''x.html''" "\<not> exceeds (uf_size f) (avatarMaxBytes cfg)"
  shows "disk (snd (saveAvatar uid cfg (Some f) s)) [localDir cfg, ''avatars'', uid (drawn s) @ ''.html''] = Some (uf_buffer f)"
proof -
  have "safeExtension ''x.html'' = ''.html''" by code_simp
  then show ?thesis using assms by (simp add: saveAvatar_def IMAGE_MIME_def store_def Let_def)
qed

text \<open>
  A limit that is no number in the environment is no limit.
\<close>

theorem unreadable_limit_is_none:
  assumes "limit_of cfg (categorize (uf_mimetype f)) = None"
  shows "\<exists>r. fst (saveAttachment uid cfg (Some f) s) = Inr r \<and> sf_size r = uf_size f"
  using assms by (simp add: saveAttachment_def store_def Let_def)

section \<open>Examples\<close>

definition uid0 :: "nat \<Rightarrow> string" where
  "uid0 n = replicate n CHR ''a''"

definition files0 :: uploads_st where
  "files0 = \<lparr>disk = Map.empty, drawn = 0\<rparr>"

definition uploads0 :: UploadConfig where
  "uploads0 = \<lparr>localDir = ''store'', publicBaseUrl = ''http://x/static'', avatarMaxBytes = Some 5242880, attachmentMaxBytes = None, videoMaxBytes = Some 9\<rparr>"

definition page0 :: UploadedFile where
  "page0 = \<lparr>uf_originalname = ''x.html'', uf_mimetype = ''image/png'', uf_size = 70, uf_buffer = ''<html>''\<rparr>"

lemma uid0_ok: "uuid_ok uid0"
proof -
  have "ext_char CHR ''a''" by code_simp
  moreover have "inj uid0" by (rule inj_on_inverseI [of _ length]) (simp add: uid0_def)
  ultimately show ?thesis by (simp add: uuid_ok_def uid0_def list_all_iff)
qed

theorem uploads_confined_and_kept_witness:
  "disk_ok uid0 uploads0 (fold (upload_step uid0 uploads0) [Save_avatar (Some page0), Save_attachment (Some page0), Save_avatar None] files0)"
proof -
  have "disk_ok uid0 uploads0 files0" by (simp add: disk_ok_def files0_def)
  then show ?thesis using uploads_confined_and_kept [OF uid0_ok] by blast
qed

theorem avatar_stored_as_page_witness:
  "disk (snd (saveAvatar uid0 uploads0 (Some page0) files0)) [''store'', ''avatars'', ''.html''] = Some ''<html>''"
  using avatar_stored_as_page [of page0 uploads0 uid0 files0] by (simp add: page0_def uploads0_def exceeds_def files0_def uid0_def)

theorem unreadable_limit_is_none_witness:
  "\<exists>r. fst (saveAttachment uid0 uploads0 (Some page0) files0) = Inr r \<and> sf_size r = 70"
proof -
  have "categorize (uf_mimetype page0) = IMAGE" by (simp add: page0_def categorize_def)
  then show ?thesis using unreadable_limit_is_none [of uploads0 page0 uid0 files0] by (simp add: limit_of_def uploads0_def page0_def)
qed

end
