(* ===== verification/AuthLaws.thy ===== *)
theory AuthLaws
  imports Auth ServersLaws
begin

text \<open>
  What sessions promise: a session belongs to an account that may log in and to the last refresh token handed out
  for it, whatever requests come in; a refresh token works once; a new password ends every session.
\<close>

section \<open>Soundness of the sessions\<close>

definition may_login :: "User \<Rightarrow> bool" where
  "may_login u \<longleftrightarrow> status u \<noteq> BANNED \<and> status u \<noteq> SUSPENDED"

definition refresh_token :: "crypto \<Rightarrow> AuthConfig \<Rightarrow> oid \<Rightarrow> oid \<Rightarrow> nat \<Rightarrow> int \<Rightarrow> string" where
  "refresh_token L cfg u i n t = jwt_sign L (refreshSecret cfg) (Refresh_claims u i n) t (refresh_ttl cfg)"

definition session_ok :: "crypto \<Rightarrow> AuthConfig \<Rightarrow> 'a auth_st_scheme \<Rightarrow> Session \<Rightarrow> bool" where
  "session_ok L cfg s ss \<longleftrightarrow> ss_id ss < next_id s
     \<and> (\<exists>n t. n < uuid s \<and> t \<le> clock s \<and> ss_refreshHash ss = sha256 L (refresh_token L cfg (ss_userId ss) (ss_id ss) n t))
     \<and> (\<exists>u. find_user (ss_userId ss) s = Some u \<and> may_login u)"

definition sessions_ok :: "crypto \<Rightarrow> AuthConfig \<Rightarrow> 'a auth_st_scheme \<Rightarrow> bool" where
  "sessions_ok L cfg s \<longleftrightarrow> distinct (map ss_id (sessions s)) \<and> (\<forall>ss \<in> set (sessions s). session_ok L cfg s ss)"

text \<open>A later state in which every account that could log in still can.\<close>

definition later :: "'a auth_st_scheme \<Rightarrow> 'a auth_st_scheme \<Rightarrow> bool" where
  "later s t \<longleftrightarrow> next_id s \<le> next_id t \<and> uuid s \<le> uuid t \<and> clock s \<le> clock t
     \<and> (\<forall>i u. find_user i s = Some u \<longrightarrow> may_login u \<longrightarrow> (\<exists>u'. find_user i t = Some u' \<and> may_login u'))"

lemma session_ok_later: "session_ok L cfg s ss \<Longrightarrow> later s t \<Longrightarrow> session_ok L cfg t ss"
  unfolding session_ok_def later_def by (meson less_le_trans order_trans)

lemma later_refl [simp]: "later s s"
  by (simp add: later_def)

lemma later_trans: "later r s \<Longrightarrow> later s t \<Longrightarrow> later r t"
  unfolding later_def by (meson order_trans)

lemma sessions_ok_mem: "\<lbrakk>sessions_ok L cfg s; ss \<in> set (sessions s); later s t\<rbrakk> \<Longrightarrow> session_ok L cfg t ss"
  unfolding sessions_ok_def by (blast intro: session_ok_later)

lemma sessions_ok_later: "\<lbrakk>sessions_ok L cfg s; later s t; sessions t = sessions s\<rbrakk> \<Longrightarrow> sessions_ok L cfg t"
  using sessions_ok_mem [of L cfg s _ t] by (simp add: sessions_ok_def [of L cfg t]) (simp add: sessions_ok_def)

lemma sessions_ok_filter: "\<lbrakk>sessions_ok L cfg s; later s t; sessions t = filter P (sessions s)\<rbrakk> \<Longrightarrow> sessions_ok L cfg t"
  using sessions_ok_mem [of L cfg s _ t] by (simp add: sessions_ok_def [of L cfg t]) (simp add: sessions_ok_def distinct_map_filter)

lemma delete_session_ok: "sessions_ok L cfg s \<Longrightarrow> sessions_ok L cfg (delete_session i s)"
  by (rule sessions_ok_filter [where P = "\<lambda>x. ss_id x \<noteq> i"], assumption)
    (auto simp: later_def delete_session_def find_user_def sessions_ok_def deleteOne_filter)

lemma logout_ok: "sessions_ok L cfg s \<Longrightarrow> sessions_ok L cfg (auth_logout r s)"
  by (simp add: auth_logout_def delete_session_ok split: option.split)

lemma find_session_SomeD: "find_session i s = Some ss \<Longrightarrow> ss \<in> set (sessions s) \<and> ss_id ss = i"
  by (auto simp: find_session_def dest: find_Some_iff_mem)

lemma session_unique: "sessions_ok L cfg s \<Longrightarrow> find_session i s = Some ss \<Longrightarrow> x \<in> set (sessions s) \<Longrightarrow> ss_id x = i \<Longrightarrow> x = ss"
  using find_key_unique [of ss_id "sessions s" x] by (simp add: find_session_def sessions_ok_def)

lemma assertLoginAllowed_iff: "assertLoginAllowed u s = (Inr x, t) \<longleftrightarrow> may_login u \<and> t = s"
  by (auto simp: assertLoginAllowed_def may_login_def)

lemma login_guard:
  assumes "P s" "may_login u \<Longrightarrow> P (snd (k s))"
  shows "P (snd (await (assertLoginAllowed u) (\<lambda>_. k) s))"
  by (rule await_guard) (use assms in \<open>auto simp: assertLoginAllowed_iff\<close>, simp add: assertLoginAllowed_def)

section \<open>Opening and rotating sessions\<close>

lemma issueTokens_simps:
  "issueTokensForUser L cfg u ctx s = (Inr \<lparr>accessToken = signAccess L cfg u (clock s),
      refreshToken = refresh_token L cfg (u_id u) (next_id s) (uuid s) (clock s), refreshExpiresAt = clock s + ttlToMs (refresh_ttl cfg)\<rparr>,
    s\<lparr>next_id := Suc (next_id s), uuid := Suc (uuid s), sessions := sessions s @
      [\<lparr>ss_id = next_id s, ss_userId = u_id u, ss_refreshHash = sha256 L (refresh_token L cfg (u_id u) (next_id s) (uuid s) (clock s)),
        ss_userAgent = sc_userAgent ctx, ss_ip = sc_ip ctx, ss_expiresAt = clock s + ttlToMs (refresh_ttl cfg), ss_updatedAt = clock s\<rparr>]\<rparr>)"
  by (simp add: issueTokensForUser_def signRefresh_def fresh_id_def fresh_uuid_def refresh_token_def Let_def)

definition rotated :: "crypto \<Rightarrow> AuthConfig \<Rightarrow> string \<Rightarrow> SessionContext \<Rightarrow> int \<Rightarrow> Session \<Rightarrow> Session" where
  "rotated L cfg tok ctx now x = x\<lparr>ss_refreshHash := sha256 L tok, ss_expiresAt := now + ttlToMs (refresh_ttl cfg),
     ss_userAgent := or_kept (sc_userAgent ctx) (ss_userAgent x), ss_ip := or_kept (sc_ip ctx) (ss_ip x), ss_updatedAt := now\<rparr>"

lemma rotate_simps:
  "rotateSession L cfg ss u ctx s = (let tok = refresh_token L cfg (u_id u) (ss_id ss) (uuid s) (clock s) in
     (Inr \<lparr>accessToken = signAccess L cfg u (clock s), refreshToken = tok, refreshExpiresAt = clock s + ttlToMs (refresh_ttl cfg)\<rparr>,
      s\<lparr>uuid := Suc (uuid s), sessions := updateOne (\<lambda>x. ss_id x = ss_id ss) (rotated L cfg tok ctx (clock s)) (sessions s)\<rparr>))"
  by (simp add: rotateSession_def signRefresh_def fresh_uuid_def refresh_token_def rotated_def [abs_def] Let_def)

lemma issue_ok:
  assumes "sessions_ok L cfg s" "find_user (u_id u) s = Some u" "may_login u"
  shows "sessions_ok L cfg (snd (issueTokensForUser L cfg u ctx s))"
proof -
  let ?t = "snd (issueTokensForUser L cfg u ctx s)"
  have "later s ?t" by (auto simp: later_def issueTokens_simps find_user_def)
  then have "\<forall>ss \<in> set (sessions s). session_ok L cfg ?t ss" using sessions_ok_mem [OF assms(1)] by blast
  moreover have "\<forall>ss \<in> set (sessions s). ss_id ss < next_id s" using assms(1) by (auto simp: sessions_ok_def session_ok_def)
  moreover have "find_user (u_id u) ?t = Some u" using assms(2) by (simp add: issueTokens_simps find_user_def)
  ultimately show ?thesis using assms(1,3)
    by (auto simp: sessions_ok_def session_ok_def issueTokens_simps intro!: exI [of _ "uuid s"] exI [of _ "clock s"])
qed

lemma rotate_ok:
  assumes "sessions_ok L cfg s" "find_session i s = Some ss" "ss_userId ss = u_id u" "find_user (u_id u) s = Some u" "may_login u"
  shows "sessions_ok L cfg (snd (rotateSession L cfg ss u ctx s))"
proof -
  let ?tok = "refresh_token L cfg (u_id u) (ss_id ss) (uuid s) (clock s)"
  let ?t = "snd (rotateSession L cfg ss u ctx s)"
  let ?f = "rotated L cfg ?tok ctx (clock s)"
  have "later s ?t" by (auto simp: later_def rotate_simps find_user_def Let_def)
  then have "session_ok L cfg ?t x" if "x \<in> set (sessions s)" for x using that sessions_ok_mem [OF assms(1)] by blast
  moreover have "session_ok L cfg ?t (?f x)" if "x \<in> set (sessions s)" "ss_id x = ss_id ss" for x
  proof -
    have "x = ss" using session_unique [OF assms(1,2)] that find_session_SomeD [OF assms(2)] by auto
    moreover have "ss_id ss < next_id s" using assms(1) find_session_SomeD [OF assms(2)] by (auto simp: sessions_ok_def session_ok_def)
    moreover have "find_user (u_id u) ?t = Some u" using assms(4) by (simp add: rotate_simps find_user_def Let_def)
    ultimately show ?thesis using assms(3,5)
      by (auto simp: session_ok_def rotated_def rotate_simps Let_def intro!: exI [of _ "uuid s"] exI [of _ "clock s"])
  qed
  moreover have "set (sessions ?t) \<subseteq> set (sessions s) \<union> ?f ` {x \<in> set (sessions s). ss_id x = ss_id ss}"
    by (simp add: rotate_simps Let_def set_updateOne_subset)
  ultimately have "\<forall>x \<in> set (sessions ?t). session_ok L cfg ?t x" by blast
  moreover have "map ss_id (sessions ?t) = map ss_id (sessions s)" by (simp add: rotate_simps Let_def map_updateOne rotated_def)
  ultimately show ?thesis using assms(1) by (simp add: sessions_ok_def)
qed

section \<open>Every request\<close>

lemma hash_password_simps: "hash_password L p s = (pw_hash L (uuid s) p, s\<lparr>uuid := Suc (uuid s)\<rparr>)"
  by (simp add: hash_password_def fresh_uuid_def Let_def)

lemma register_default_frame:
  "users (snd (addUserToDefaultServer i s)) = users s" "sessions (snd (addUserToDefaultServer i s)) = sessions s"
  "uuid (snd (addUserToDefaultServer i s)) = uuid s" "clock (snd (addUserToDefaultServer i s)) = clock s"
  "next_id s \<le> next_id (snd (addUserToDefaultServer i s))"
proof -
  have "users t = users s \<and> sessions t = sessions s \<and> uuid t = uuid s \<and> clock t = clock s \<and> next_id s \<le> next_id t"
    if "add_member d i k s = (x, t)" for d k x t
    using that by (auto simp: add_member_def fresh_id_def Let_def throw_def return_def split: if_splits)
  then show "users (snd (addUserToDefaultServer i s)) = users s" "sessions (snd (addUserToDefaultServer i s)) = sessions s"
    "uuid (snd (addUserToDefaultServer i s)) = uuid s" "clock (snd (addUserToDefaultServer i s)) = clock s"
    "next_id s \<le> next_id (snd (addUserToDefaultServer i s))"
    by (force simp: addUserToDefaultServer_def await_def broadcastMemberJoined_def emit_server_def split: option.split prod.split sum.split)+
qed

text \<open>Accounts have distinct identifiers below the counter.\<close>

definition accounts_ok :: "'a env_st_scheme \<Rightarrow> bool" where
  "accounts_ok s \<longleftrightarrow> distinct (map u_id (users s)) \<and> (\<forall>u \<in> set (users s). u_id u < next_id s)"

definition auth_ok :: "crypto \<Rightarrow> AuthConfig \<Rightarrow> 'a auth_st_scheme \<Rightarrow> bool" where
  "auth_ok L cfg s \<longleftrightarrow> sessions_ok L cfg s \<and> accounts_ok s"

lemma accounts_same: "accounts_ok s \<Longrightarrow> users t = users s \<Longrightarrow> next_id s \<le> next_id t \<Longrightarrow> accounts_ok t"
  by (auto simp: accounts_ok_def)

lemma accounts_set:
  assumes "accounts_ok s" "\<And>d. u_id (f d) = u_id d"
  shows "accounts_ok (set_user u f s)"
proof -
  have "map u_id (updateOne (\<lambda>d. u_id d = u) f (users s)) = map u_id (users s)" by (rule map_updateOne) (rule assms(2))
  moreover have "\<forall>d \<in> set (updateOne (\<lambda>d. u_id d = u) f (users s)). u_id d < next_id s"
    by (rule updateOne_all) (use assms in \<open>auto simp: accounts_ok_def\<close>)
  ultimately show ?thesis using assms(1) by (simp add: accounts_ok_def set_user_def)
qed

lemma account_found: "accounts_ok s \<Longrightarrow> u \<in> set (users s) \<Longrightarrow> find_user (u_id u) s = Some u"
  by (simp add: accounts_ok_def find_user_def find_key_unique)

lemma register_ok:
  assumes "auth_ok L cfg s"
  shows "auth_ok L cfg (snd (auth_register L cfg dto ctx s))"
proof (cases "List.find (\<lambda>d. email d = toLowerCase (rg_email dto) \<or> username d = rg_username dto) (users s)")
  case None
  let ?d = "user_of (next_id s) \<lparr>nu_username = rg_username dto, nu_email = toLowerCase (rg_email dto), nu_passwordHash = pw_hash L (uuid s) (rg_password dto),
    nu_displayName = Some (or_username (rg_displayName dto) (rg_username dto)), nu_isAdmin = False\<rparr>"
  let ?s = "s\<lparr>uuid := Suc (uuid s), next_id := Suc (next_id s), users := users s @ [?d]\<rparr>"
  let ?t = "snd (addUserToDefaultServer (next_id s) ?s)"
  have f: "users ?t = users s @ [?d]" "sessions ?t = sessions s" "uuid ?t = Suc (uuid s)" "clock ?t = clock s" "next_id s < next_id ?t"
    using register_default_frame [where i = "next_id s" and s = ?s] by simp_all
  have acc: "accounts_ok ?t" using assms f by (fastforce simp: auth_ok_def accounts_ok_def user_of_def)
  have "later s ?t" using f by (auto simp: later_def find_user_def find_append)
  then have "sessions_ok L cfg ?t" using assms f by (auto simp: auth_ok_def intro: sessions_ok_later)
  moreover have "find_user (u_id ?d) ?t = Some ?d" by (rule account_found [OF acc]) (simp add: f)
  moreover have "may_login ?d" by (simp add: may_login_def user_of_def)
  ultimately have "sessions_ok L cfg (snd (issueTokensForUser L cfg ?d ctx ?t))" by (rule issue_ok)
  moreover have "accounts_ok (snd (issueTokensForUser L cfg ?d ctx ?t))" by (rule accounts_same [OF acc]) (simp_all add: issueTokens_simps)
  moreover have "\<not> (\<exists>u \<in> set (users s). username u = rg_username dto \<or> email u = toLowerCase (rg_email dto))"
    using None by (auto simp: find_None_iff)
  then have "snd (auth_register L cfg dto ctx s) = snd (issueTokensForUser L cfg ?d ctx ?t)"
    using None by (simp add: auth_register_def Let_def hash_password_simps create_user_def fresh_id_def await_def best_effort_def issueTokens_simps user_of_def)
  ultimately show ?thesis by (simp add: auth_ok_def)
qed (simp add: auth_register_def Let_def assms)

lemma login_ok:
  assumes "auth_ok L cfg s"
  shows "auth_ok L cfg (snd (auth_login L cfg ident p ctx s))"
proof (cases "findByIdentifier ident s")
  case (Some u)
  have u: "u \<in> set (users s)" using Some by (auto simp: findByIdentifier_def dest!: find_Some_iff_mem)
  then have "find_user (u_id u) s = Some u" using assms by (simp add: auth_ok_def account_found)
  then have "auth_ok L cfg (snd (issueTokensForUser L cfg u ctx s))" if "may_login u"
    using issue_ok [OF _ _ that, of L cfg s ctx] assms by (simp add: auth_ok_def) (auto intro: accounts_same simp: issueTokens_simps)
  then show ?thesis using assms Some unfolding auth_login_def
    by (auto intro!: login_guard [where P = "auth_ok L cfg"] simp: await_last)
qed (simp add: auth_login_def assms)

lemma refresh_ok:
  assumes "auth_ok L cfg s"
  shows "auth_ok L cfg (snd (auth_refresh L cfg token ctx s))"
proof -
  have del: "auth_ok L cfg (delete_session i s)" for i
    using delete_session_ok [of L cfg s i] accounts_same [of s "delete_session i s"] assms by (simp add: auth_ok_def delete_session_def)
  have rot: "auth_ok L cfg (snd (rotateSession L cfg ss u ctx s))"
    if "find_session i s = Some ss" "find_user (ss_userId ss) s = Some u" "may_login u" for i ss u
    using rotate_ok [of L cfg s i ss u ctx] that assms find_user_Some [OF that(2)]
    by (auto simp: auth_ok_def rotate_simps Let_def intro: accounts_same [of s])
  show ?thesis unfolding auth_refresh_def Let_def
    by (auto simp: assms del rot await_last intro!: login_guard [where P = "auth_ok L cfg"] split: option.split claims.split)
qed

lemma password_ok:
  assumes "auth_ok L cfg s" "uuid s \<le> k"
  shows "auth_ok L cfg (logoutAll u (setPasswordHash v h (s\<lparr>uuid := k\<rparr>)))"
proof -
  let ?t = "logoutAll u (setPasswordHash v h (s\<lparr>uuid := k\<rparr>))"
  have f: "find_user i ?t = (if i = v then map_option (\<lambda>d. d\<lparr>passwordHash := h\<rparr>) (find_user i s) else find_user i s)" for i
    using find_set_user [of "\<lambda>d. d\<lparr>passwordHash := h\<rparr>" i v "s\<lparr>uuid := k\<rparr>"] by (simp add: logoutAll_def setPasswordHash_def find_user_def)
  have g: "uuid ?t = k" "clock ?t = clock s" "next_id ?t = next_id s" "sessions ?t = filter (\<lambda>x. ss_userId x \<noteq> u) (sessions s)"
    by (simp_all add: logoutAll_def setPasswordHash_def set_user_def deleteMany_def)
  have "later s ?t" unfolding later_def g f using assms(2) by (auto simp: may_login_def)
  then have "sessions_ok L cfg ?t"
    using assms(1) g(4) by (auto simp: auth_ok_def intro: sessions_ok_filter)
  moreover have "accounts_ok (setPasswordHash v h (s\<lparr>uuid := k\<rparr>))" unfolding setPasswordHash_def
    by (rule accounts_set) (use assms in \<open>auto simp: auth_ok_def accounts_ok_def\<close>)
  ultimately show ?thesis by (simp add: auth_ok_def accounts_ok_def logoutAll_def)
qed

lemma changePassword_ok:
  assumes "auth_ok L cfg s"
  shows "auth_ok L cfg (snd (changePassword L u old new s))"
  using assms by (auto simp: changePassword_def await_def findByIdOrThrow_def hash_password_simps password_ok split: option.split)

lemma resetPassword_ok:
  assumes "auth_ok L cfg s"
  shows "auth_ok L cfg (snd (resetPassword L cfg token new s))"
  using assms by (auto simp: resetPassword_def hash_password_simps password_ok split: option.split claims.split)

lemma setStatus_ok:
  assumes "auth_ok L cfg s"
  shows "auth_ok L cfg (snd (admin_setStatus r st s))"
proof (cases "read_oid r")
  case (Some i)
  let ?s = "set_user i (\<lambda>d. d\<lparr>status := st\<rparr>) s"
  have f: "find_user j ?s = (if j = i then map_option (\<lambda>d. d\<lparr>status := st\<rparr>) (find_user j s) else find_user j s)" for j
    by (rule find_set_user) simp
  have acc: "accounts_ok ?s" by (rule accounts_set) (use assms in \<open>simp_all add: auth_ok_def\<close>)
  have ok: "auth_ok L cfg t" if "users t = users ?s" "next_id t = next_id s" "uuid t = uuid s" "clock t = clock s"
      "sessions t = (if st = BANNED \<or> st = SUSPENDED then filter (\<lambda>x. ss_userId x \<noteq> i) (sessions s) else sessions s)" for t
  proof -
    have ft: "find_user j t = find_user j ?s" for j using that(1) by (simp add: find_user_def)
    have keep: "session_ok L cfg t x" if "x \<in> set (sessions t)" for x
    proof -
      have x: "session_ok L cfg s x" "(st = BANNED \<or> st = SUSPENDED) \<Longrightarrow> ss_userId x \<noteq> i"
        using that \<open>sessions t = _\<close> assms by (auto simp: auth_ok_def sessions_ok_def split: if_splits)
      then obtain u where "find_user (ss_userId x) s = Some u" "may_login u" by (auto simp: session_ok_def)
      then have "\<exists>u. find_user (ss_userId x) t = Some u \<and> may_login u" using x(2) by (auto simp: ft f may_login_def)
      then show ?thesis using x(1) \<open>next_id t = _\<close> \<open>uuid t = _\<close> \<open>clock t = _\<close> by (simp add: session_ok_def)
    qed
    have "distinct (map ss_id (sessions t))" using that(5) assms by (simp add: auth_ok_def sessions_ok_def distinct_map_filter)
    moreover have "accounts_ok t" by (rule accounts_same [OF acc that(1)]) (simp add: that(2))
    ultimately show ?thesis using keep by (simp add: auth_ok_def sessions_ok_def)
  qed
  show ?thesis
  proof (cases "find_user i ?s")
    case (Some d)
    then show ?thesis using \<open>read_oid r = Some i\<close>
      by (auto simp: admin_setStatus_def await_def cast_oid_def setStatus_def Let_def intro!: ok)
        (auto simp: logoutAll_def deleteMany_def set_user_def)
  qed (use \<open>read_oid r = Some i\<close> assms in \<open>simp add: admin_setStatus_def await_def cast_oid_def setStatus_def Let_def\<close>)
qed (simp add: admin_setStatus_def await_def cast_oid_def assms)

section \<open>Requests\<close>

datatype auth_op =
    Auth_register RegisterDto SessionContext
  | Auth_login string string SessionContext
  | Auth_refresh "string option" SessionContext
  | Auth_logout raw_id
  | Auth_logout_token "string option"
  | Auth_logout_all oid
  | Auth_change_password oid string string
  | Auth_reset_password string string
  | Auth_revoke oid raw_id
  | Admin_status raw_id AccountStatus
  | Sessions_expire
  | Auth_time nat

fun auth_step :: "crypto \<Rightarrow> AuthConfig \<Rightarrow> auth_op \<Rightarrow> 'a auth_st_scheme \<Rightarrow> 'a auth_st_scheme" where
  "auth_step L cfg (Auth_register dto ctx) s = snd (auth_register L cfg dto ctx s)"
| "auth_step L cfg (Auth_login ident p ctx) s = snd (auth_login L cfg ident p ctx s)"
| "auth_step L cfg (Auth_refresh token ctx) s = snd (auth_refresh L cfg token ctx s)"
| "auth_step L cfg (Auth_logout r) s = auth_logout r s"
| "auth_step L cfg (Auth_logout_token token) s = logoutByRefreshToken L cfg token s"
| "auth_step L cfg (Auth_logout_all u) s = logoutAll u s"
| "auth_step L cfg (Auth_change_password u old new) s = snd (changePassword L u old new s)"
| "auth_step L cfg (Auth_reset_password token new) s = snd (resetPassword L cfg token new s)"
| "auth_step L cfg (Auth_revoke u r) s = snd (revokeSession u r s)"
| "auth_step L cfg (Admin_status r st) s = snd (admin_setStatus r st s)"
| "auth_step L cfg Sessions_expire s = expire_sessions s"
| "auth_step L cfg (Auth_time n) s = s\<lparr>clock := clock s + int n\<rparr>"

lemma auth_ok_filter:
  fixes s t :: "'a auth_st_scheme"
  assumes "auth_ok L cfg s" "sessions t = filter P (sessions s)" "users t = users s" "next_id t = next_id s" "uuid t = uuid s" "clock s \<le> clock t"
  shows "auth_ok L cfg t"
  using assms sessions_ok_filter [of L cfg s t P] accounts_same [of s t] by (simp add: auth_ok_def later_def find_user_def)

lemma delete_session_filter: "auth_ok L cfg s \<Longrightarrow> delete_session i s = s\<lparr>sessions := filter (\<lambda>x. ss_id x \<noteq> i) (sessions s)\<rparr>"
  by (simp add: delete_session_def auth_ok_def sessions_ok_def deleteOne_filter)

lemma logout_auth_ok: "auth_ok L cfg s \<Longrightarrow> auth_ok L cfg (auth_logout r s)"
  by (auto simp: auth_logout_def delete_session_filter intro: auth_ok_filter split: option.split)

lemma auth_step_ok:
  assumes "auth_ok L cfg s"
  shows "auth_ok L cfg (auth_step L cfg op s)"
proof (cases op)
  case (Auth_logout_token token)
  then show ?thesis using assms logout_auth_ok [OF assms]
    by (auto simp: logoutByRefreshToken_def split: option.split claims.split)
next
  case (Auth_revoke u r)
  have "auth_ok L cfg (delete_session i s)" for i using logout_auth_ok [OF assms, of "Hex i"] by (simp add: auth_logout_def)
  then show ?thesis using assms Auth_revoke by (simp add: revokeSession_def split: option.split)
next
  case (Auth_logout_all u)
  then show ?thesis by (auto simp: logoutAll_def deleteMany_def intro: auth_ok_filter [OF assms])
next
  case Sessions_expire
  then show ?thesis by (auto simp: expire_sessions_def deleteMany_def intro: auth_ok_filter [OF assms])
next
  case (Auth_time n)
  have "filter (\<lambda>_. True) (sessions s) = sessions s" by simp
  then show ?thesis using Auth_time by (intro auth_ok_filter [OF assms, where P = "\<lambda>_. True"]) simp_all
qed (simp_all add: assms register_ok login_ok refresh_ok logout_auth_ok changePassword_ok resetPassword_ok setStatus_ok)

section \<open>The last token handed out\<close>

text \<open>The tokens in the reply to a request, and a book of the refresh token each session was last handed.\<close>

fun auth_reply :: "crypto \<Rightarrow> AuthConfig \<Rightarrow> auth_op \<Rightarrow> 'a auth_st_scheme \<Rightarrow> IssuedTokens option" where
  "auth_reply L cfg (Auth_register dto ctx) s = (case fst (auth_register L cfg dto ctx s) of Inr (u, tk) \<Rightarrow> Some tk | Inl e \<Rightarrow> None)"
| "auth_reply L cfg (Auth_login ident p ctx) s = (case fst (auth_login L cfg ident p ctx s) of Inr (u, tk) \<Rightarrow> Some tk | Inl e \<Rightarrow> None)"
| "auth_reply L cfg (Auth_refresh token ctx) s = (case fst (auth_refresh L cfg token ctx s) of Inr (u, tk) \<Rightarrow> Some tk | Inl e \<Rightarrow> None)"
| "auth_reply L cfg _ s = None"

definition hand_out :: "crypto \<Rightarrow> AuthConfig \<Rightarrow> auth_op \<Rightarrow> 'a auth_st_scheme \<Rightarrow> (oid \<rightharpoonup> string) \<Rightarrow> (oid \<rightharpoonup> string)" where
  "hand_out L cfg op s h =
     (case auth_reply L cfg op s of
        None \<Rightarrow> h
      | Some tk \<Rightarrow> (case jwt_verify L (refreshSecret cfg) (clock s) (refreshToken tk) of
          Some (Refresh_claims u sid n) \<Rightarrow> h(sid \<mapsto> refreshToken tk) | _ \<Rightarrow> h))"

definition auth_event :: "crypto \<Rightarrow> AuthConfig \<Rightarrow> auth_op \<Rightarrow> 'a auth_st_scheme \<times> (oid \<rightharpoonup> string) \<Rightarrow> 'a auth_st_scheme \<times> (oid \<rightharpoonup> string)" where
  "auth_event L cfg op p = (auth_step L cfg op (fst p), hand_out L cfg op (fst p) (snd p))"

definition holds_last :: "crypto \<Rightarrow> 'a auth_st_scheme \<Rightarrow> (oid \<rightharpoonup> string) \<Rightarrow> bool" where
  "holds_last L s h \<longleftrightarrow> (\<forall>ss \<in> set (sessions s). \<exists>tok. h (ss_id ss) = Some tok \<and> ss_refreshHash ss = sha256 L tok)"

lemma holds_last_subset: "holds_last L s h \<Longrightarrow> set (sessions t) \<subseteq> set (sessions s) \<Longrightarrow> holds_last L t h"
  by (auto simp: holds_last_def)

lemma refresh_token_reads:
  assumes "lib_ok L" "0 < jwt_life L (refresh_ttl cfg)"
  shows "jwt_verify L (refreshSecret cfg) now (refresh_token L cfg u i n now) = Some (Refresh_claims u i n)"
  using assms by (simp add: lib_ok_def refresh_token_def)

definition opens :: "crypto \<Rightarrow> AuthConfig \<Rightarrow> IssuedTokens \<Rightarrow> 'a auth_st_scheme \<Rightarrow> 'a auth_st_scheme \<Rightarrow> bool" where
  "opens L cfg tk s t \<longleftrightarrow> (\<exists>x u ctx. issueTokensForUser L cfg u ctx x = (Inr tk, t) \<and> sessions x = sessions s \<and> next_id s \<le> next_id x \<and> clock x = clock s)"

lemma opens_holds:
  assumes "lib_ok L" "0 < jwt_life L (refresh_ttl cfg)" "auth_ok L cfg s" "holds_last L s h" "opens L cfg tk s t" "auth_reply L cfg op s = Some tk"
  shows "holds_last L t (hand_out L cfg op s h)"
proof -
  obtain x u ctx where i: "issueTokensForUser L cfg u ctx x = (Inr tk, t)" "sessions x = sessions s" "next_id s \<le> next_id x" "clock x = clock s"
    using assms(5) by (auto simp: opens_def)
  have tk: "refreshToken tk = refresh_token L cfg (u_id u) (next_id x) (uuid x) (clock s)" using i(1,4) by (auto simp: issueTokens_simps)
  have "hand_out L cfg op s h = h(next_id x \<mapsto> refreshToken tk)"
    using refresh_token_reads [OF assms(1,2)] by (simp add: hand_out_def assms(6) tk)
  moreover have "ss_id ss < next_id x" if "ss \<in> set (sessions s)" for ss
    using assms(3) that i(3) by (auto simp: auth_ok_def sessions_ok_def session_ok_def)
  ultimately show ?thesis using assms(4) i tk by (fastforce simp: holds_last_def issueTokens_simps)
qed

lemma register_cases:
  assumes "auth_register L cfg dto ctx s = (x, t)"
  obtains (error) e where "x = Inl e" "sessions t = sessions s" | (ok) u tk where "x = Inr (u, tk)" "opens L cfg tk s t"
proof (cases "List.find (\<lambda>d. email d = toLowerCase (rg_email dto) \<or> username d = rg_username dto) (users s)")
  case None
  let ?d = "user_of (next_id s) \<lparr>nu_username = rg_username dto, nu_email = toLowerCase (rg_email dto), nu_passwordHash = pw_hash L (uuid s) (rg_password dto),
    nu_displayName = Some (or_username (rg_displayName dto) (rg_username dto)), nu_isAdmin = False\<rparr>"
  let ?s = "s\<lparr>uuid := Suc (uuid s), next_id := Suc (next_id s), users := users s @ [?d]\<rparr>"
  let ?t = "snd (addUserToDefaultServer (next_id s) ?s)"
  have f: "sessions ?t = sessions s" "clock ?t = clock s" "next_id s \<le> next_id ?t"
    using register_default_frame [where i = "next_id s" and s = ?s] by simp_all
  obtain tk t' where i: "issueTokensForUser L cfg ?d ctx ?t = (Inr tk, t')" by (simp add: issueTokens_simps)
  have o: "opens L cfg tk s t'" unfolding opens_def by (intro exI conjI) (rule i, rule f(1), rule f(3), rule f(2))
  have "\<not> (\<exists>u \<in> set (users s). username u = rg_username dto \<or> email u = toLowerCase (rg_email dto))"
    using None by (auto simp: find_None_iff)
  then have "auth_register L cfg dto ctx s = (Inr (?d, tk), t')"
    using None i by (simp add: auth_register_def Let_def hash_password_simps create_user_def fresh_id_def await_def best_effort_def user_of_def)
  then have "x = Inr (?d, tk)" "t = t'" using assms by simp_all
  then show ?thesis using ok o by blast
qed (use assms error in \<open>auto simp: auth_register_def Let_def throw_def\<close>)

lemma login_cases:
  assumes "auth_login L cfg ident p ctx s = (x, t)"
  obtains (error) e where "x = Inl e" "sessions t = sessions s" | (ok) u tk where "x = Inr (u, tk)" "opens L cfg tk s t"
proof (cases "findByIdentifier ident s")
  case (Some u)
  obtain tk t' where i: "issueTokensForUser L cfg u ctx s = (Inr tk, t')" by (simp add: issueTokens_simps)
  then have "opens L cfg tk s t'" unfolding opens_def by blast
  moreover have "(\<exists>e. x = Inl e \<and> t = s) \<or> x = Inr (u, tk) \<and> t = t'"
    using assms Some i by (auto simp: auth_login_def await_def assertLoginAllowed_def throw_def return_def split: if_splits)
  ultimately show ?thesis using error ok by blast
qed (use assms error in \<open>auto simp: auth_login_def throw_def\<close>)

lemma rotate_holds:
  assumes "lib_ok L" "0 < jwt_life L (refresh_ttl cfg)" "auth_ok L cfg s" "holds_last L s h" "auth_reply L cfg op s = Some tk"
    "find_session i s = Some ss" "rotateSession L cfg ss u ctx s = (Inr tk, t)"
  shows "holds_last L t (hand_out L cfg op s h)"
proof -
  have t: "refreshToken tk = refresh_token L cfg (u_id u) (ss_id ss) (uuid s) (clock s)"
    "sessions t = updateOne (\<lambda>x. ss_id x = ss_id ss) (rotated L cfg (refreshToken tk) ctx (clock s)) (sessions s)"
    using assms(7) by (auto simp: rotate_simps Let_def)
  have h: "hand_out L cfg op s h = h(ss_id ss \<mapsto> refreshToken tk)"
    using refresh_token_reads [OF assms(1,2)] by (simp add: hand_out_def assms(5) t(1))
  have "distinct (map ss_id (sessions s))" using assms(3) by (simp add: auth_ok_def sessions_ok_def)
  then have "sessions t = map (\<lambda>x. if ss_id x = ss_id ss then rotated L cfg (refreshToken tk) ctx (clock s) x else x) (sessions s)"
    unfolding t(2) by (rule updateOne_key_map)
  then show ?thesis using assms(4) unfolding h by (auto simp: holds_last_def rotated_def)
qed

lemma refresh_InrD:
  assumes "auth_refresh L cfg (Some tok) ctx s = (Inr (u, tk), t)"
  obtains sid n ss where "tok \<noteq> ''''" "jwt_verify L (refreshSecret cfg) (clock s) tok = Some (Refresh_claims (ss_userId ss) sid n)"
    "find_session sid s = Some ss" "ss_refreshHash ss = sha256 L tok" "find_user (ss_userId ss) s = Some u" "may_login u"
    "rotateSession L cfg ss u ctx s = (Inr tk, t)"
proof -
  from assms obtain sub sid n where v: "tok \<noteq> ''''" "jwt_verify L (refreshSecret cfg) (clock s) tok = Some (Refresh_claims sub sid n)"
    by (auto simp: auth_refresh_def split: if_splits option.splits claims.splits)
  with assms obtain ss where ss: "find_session sid s = Some ss" by (auto simp: auth_refresh_def split: option.splits)
  then have h: "ss_userId ss = sub" "ss_refreshHash ss = sha256 L tok"
    using assms v by (auto simp: auth_refresh_def split: if_splits)
  then obtain u' where u': "find_user sub s = Some u'" using assms v ss by (auto simp: auth_refresh_def split: if_splits option.splits)
  then have "await (assertLoginAllowed u') (\<lambda>_. await (rotateSession L cfg ss u' ctx) (\<lambda>tk. return (u', tk))) s = (Inr (u, tk), t)"
    using assms v ss h by (auto simp: auth_refresh_def split: if_splits)
  then have "may_login u' \<and> u' = u \<and> rotateSession L cfg ss u ctx s = (Inr tk, t)"
    by (elim await_InrD) (auto simp: assertLoginAllowed_iff return_def)
  then show thesis using that v ss h u' by blast
qed

lemma refresh_InlD: "auth_refresh L cfg token ctx s = (Inl e, t) \<Longrightarrow> set (sessions t) \<subseteq> set (sessions s)"
  by (auto simp: auth_refresh_def Let_def throw_def return_def delete_session_def await_def assertLoginAllowed_def rotate_simps
      dest: set_deleteOne_subset [THEN subsetD] split: if_splits option.splits claims.splits)

lemma event_holds:
  assumes "lib_ok L" "0 < jwt_life L (refresh_ttl cfg)" "auth_ok L cfg s" "holds_last L s h"
  shows "holds_last L (auth_step L cfg op s) (hand_out L cfg op s h)"
proof (cases op)
  case (Auth_register dto ctx)
  obtain x t where r: "auth_register L cfg dto ctx s = (x, t)" by fastforce
  from r show ?thesis
  proof (cases rule: register_cases)
    case (ok u tk)
    then show ?thesis using opens_holds [OF assms ok(2), of op] r Auth_register by simp
  qed (use r Auth_register holds_last_subset [OF assms(4), of t] in \<open>simp add: hand_out_def\<close>)
next
  case (Auth_login ident p ctx)
  obtain x t where r: "auth_login L cfg ident p ctx s = (x, t)" by fastforce
  from r show ?thesis
  proof (cases rule: login_cases)
    case (ok u tk)
    then show ?thesis using opens_holds [OF assms ok(2), of op] r Auth_login by simp
  qed (use r Auth_login holds_last_subset [OF assms(4), of t] in \<open>simp add: hand_out_def\<close>)
next
  case (Auth_refresh token ctx)
  obtain x t where r: "auth_refresh L cfg token ctx s = (x, t)" by fastforce
  show ?thesis
  proof (cases x)
    case (Inl e)
    then have "holds_last L t h" using holds_last_subset [OF assms(4) refresh_InlD] r by blast
    then show ?thesis using r Inl Auth_refresh by (simp add: hand_out_def)
  next
    case (Inr a)
    obtain u tk where a: "a = (u, tk)" by fastforce
    obtain tok where "token = Some tok" using r Inr by (cases token) (simp_all add: auth_refresh_def throw_def)
    then obtain i ss where "find_session i s = Some ss" "rotateSession L cfg ss u ctx s = (Inr tk, t)"
      using r Inr a by (auto elim: refresh_InrD)
    then show ?thesis using rotate_holds [OF assms, of op tk i ss u ctx t] r Inr a Auth_refresh by simp
  qed
next
  case (Admin_status q st)
  have "set (sessions (snd (admin_setStatus q st s))) \<subseteq> set (sessions s)"
    by (auto simp: admin_setStatus_def await_def cast_oid_def setStatus_def Let_def throw_def return_def logoutAll_def deleteMany_def set_user_def
        split: option.splits if_splits)
  then show ?thesis using Admin_status holds_last_subset [OF assms(4)] by (simp add: hand_out_def)
next
  case (Auth_change_password u old new)
  have "set (sessions (snd (changePassword L u old new s))) \<subseteq> set (sessions s)"
    by (auto simp: changePassword_def await_def findByIdOrThrow_def hash_password_simps throw_def return_def logoutAll_def deleteMany_def
        setPasswordHash_def set_user_def split: option.splits if_splits)
  then show ?thesis using Auth_change_password holds_last_subset [OF assms(4)] by (simp add: hand_out_def)
next
  case (Auth_reset_password token new)
  have "set (sessions (snd (resetPassword L cfg token new s))) \<subseteq> set (sessions s)"
    by (auto simp: resetPassword_def hash_password_simps throw_def return_def logoutAll_def deleteMany_def
        setPasswordHash_def set_user_def split: option.splits claims.splits)
  then show ?thesis using Auth_reset_password holds_last_subset [OF assms(4)] by (simp add: hand_out_def)
qed (use set_deleteOne_subset in \<open>auto simp: hand_out_def logoutByRefreshToken_def auth_logout_def delete_session_def logoutAll_def deleteMany_def
      revokeSession_def expire_sessions_def throw_def return_def intro!: holds_last_subset [OF assms(4)] dest: set_deleteOne_subset [THEN subsetD]
      split: option.splits claims.splits\<close>)

lemma events_keep:
  assumes "lib_ok L" "0 < jwt_life L (refresh_ttl cfg)" "auth_ok L cfg s" "holds_last L s h"
  shows "\<exists>h'. fold (auth_event L cfg) ops (s, h) = (fold (auth_step L cfg) ops s, h') \<and> auth_ok L cfg (fold (auth_step L cfg) ops s)
    \<and> holds_last L (fold (auth_step L cfg) ops s) h'"
  using assms(3,4)
proof (induction ops arbitrary: s h)
  case (Cons op ops)
  then show ?case using Cons.IH [OF auth_step_ok event_holds [OF assms(1,2)], OF Cons.prems(1) Cons.prems] by (simp add: auth_event_def)
qed simp

text \<open>
  C14: Whatever requests come in, in any order, registrations, logins, refreshes, password changes and bans, the sessions
  stay sound: identifiers are unique, and every session belongs to a stored account that is neither banned nor suspended
  and holds the digest of the refresh token that was handed out for it last.
\<close>

theorem banned_accounts_have_no_session:
  assumes "lib_ok L" "0 < jwt_life L (refresh_ttl cfg)" "auth_ok L cfg s" "holds_last L s h"
  shows "\<exists>t h'. fold (auth_event L cfg) ops (s, h) = (t, h') \<and> t = fold (auth_step L cfg) ops s \<and> auth_ok L cfg t
    \<and> (\<forall>ss \<in> set (sessions t). (\<exists>u. find_user (ss_userId ss) t = Some u \<and> status u \<notin> {BANNED, SUSPENDED})
          \<and> (\<exists>tok. h' (ss_id ss) = Some tok \<and> ss_refreshHash ss = sha256 L tok))"
proof -
  let ?t = "fold (auth_step L cfg) ops s"
  obtain h' where h: "fold (auth_event L cfg) ops (s, h) = (?t, h')" "auth_ok L cfg ?t" "holds_last L ?t h'"
    using events_keep [OF assms, of ops] by blast
  have "\<exists>u. find_user (ss_userId ss) ?t = Some u \<and> status u \<notin> {BANNED, SUSPENDED}" if "ss \<in> set (sessions ?t)" for ss
    using h(2) that by (auto simp: auth_ok_def sessions_ok_def session_ok_def may_login_def)
  then show ?thesis using h by (auto simp: holds_last_def)
qed

section \<open>Refresh tokens\<close>

lemma refresh_pass:
  assumes "tok \<noteq> ''''" "jwt_verify L (refreshSecret cfg) (clock s) tok = Some (Refresh_claims (ss_userId ss) sid n)" "find_session sid s = Some ss"
    "clock s \<le> ss_expiresAt ss" "ss_refreshHash ss = sha256 L tok" "find_user (ss_userId ss) s = Some u" "may_login u"
  shows "\<exists>tk t. auth_refresh L cfg (Some tok) ctx s = (Inr (u, tk), t)"
  using assms by (simp add: auth_refresh_def await_def assertLoginAllowed_def may_login_def rotate_simps Let_def)

lemma find_rotated:
  assumes "find_session sid s = Some ss"
  shows "find_session sid (s\<lparr>uuid := k, sessions := updateOne (\<lambda>x. ss_id x = sid) (rotated L cfg tok ctx now) (sessions s)\<rparr>)
    = Some (rotated L cfg tok ctx now ss)"
  using assms by (simp add: find_session_def find_updateOne_same rotated_def)

text \<open>
  C3: A refresh token works once. After a successful refresh the token it returned works in turn; the old one is refused
  as a mismatch although its signature is still valid, and that ends the session, so the new one is refused too.
\<close>

theorem refresh_token_works_once:
  assumes "lib_ok L" "auth_ok L cfg s" "auth_refresh L cfg (Some tok) ctx s = (Inr (u, tk), t)" "clock s \<le> now"
    "jwt_verify L (refreshSecret cfg) now tok \<noteq> None" "now < clock s + jwt_life L (refresh_ttl cfg)" "now \<le> clock s + ttlToMs (refresh_ttl cfg)"
  shows "(\<exists>tk' t'. auth_refresh L cfg (Some (refreshToken tk)) ctx' (t\<lparr>clock := now\<rparr>) = (Inr (u, tk'), t'))
    \<and> (\<exists>t'. auth_refresh L cfg (Some tok) ctx' (t\<lparr>clock := now\<rparr>) = (Inl (Unauthorized ''Refresh token mismatch''), t')
         \<and> fst (auth_refresh L cfg (Some (refreshToken tk)) ctx' t') = Inl (Unauthorized ''Session not found''))"
proof -
  obtain sid n ss where r: "tok \<noteq> ''''" "jwt_verify L (refreshSecret cfg) (clock s) tok = Some (Refresh_claims (ss_userId ss) sid n)"
    "find_session sid s = Some ss" "ss_refreshHash ss = sha256 L tok" "find_user (ss_userId ss) s = Some u" "may_login u"
    "rotateSession L cfg ss u ctx s = (Inr tk, t)"
    by (rule refresh_InrD [OF assms(3)])
  have ids: "ss_id ss = sid" "u_id u = ss_userId ss" using find_session_SomeD [OF r(3)] find_user_Some [OF r(5)] by auto
  have law: "jwt_verify L k now (jwt_sign L k c t ttl) = (if now < t + jwt_life L ttl then Some c else None)" if "t \<le> now" for k c t ttl now
    using assms(1) that by (simp add: lib_ok_def)
  have inj: "sha256 L x = sha256 L y \<Longrightarrow> x = y" for x y using assms(1) by (auto simp: lib_ok_def inj_def)
  have ne: "jwt_sign L k c t0 ttl \<noteq> ''''" for k c t0 ttl using assms(1) by (simp add: lib_ok_def)
  obtain m t0 where m: "m < uuid s" "t0 \<le> clock s" "tok = refresh_token L cfg (ss_userId ss) sid m t0"
    using assms(2) find_session_SomeD [OF r(3)] r(4) inj by (auto simp: auth_ok_def sessions_ok_def session_ok_def)
  let ?new = "refresh_token L cfg (ss_userId ss) sid (uuid s) (clock s)"
  let ?ss = "rotated L cfg ?new ctx (clock s) ss"
  have tk: "refreshToken tk = ?new" and t: "t = s\<lparr>uuid := Suc (uuid s), sessions := updateOne (\<lambda>x. ss_id x = sid) (rotated L cfg ?new ctx (clock s)) (sessions s)\<rparr>"
    using r(7) ids by (auto simp: rotate_simps Let_def)
  let ?t = "t\<lparr>clock := now\<rparr>"
  have ft: "find_session sid ?t = Some ?ss" "find_user (ss_userId ss) ?t = Some u"
    using find_rotated [OF r(3)] r(5) by (simp_all add: t find_session_def find_user_def)
  have vn: "jwt_verify L (refreshSecret cfg) now ?new = Some (Refresh_claims (ss_userId ss) sid (uuid s))"
    using law [OF assms(4)] assms(6) by (simp add: refresh_token_def)
  have vo: "jwt_verify L (refreshSecret cfg) now tok = Some (Refresh_claims (ss_userId ss) sid m)"
    using law [of t0 now] assms(4,5) m by (auto simp: refresh_token_def split: if_splits)
  have "tok \<noteq> ?new" using vn vo m(1) by auto
  then have "sha256 L ?new \<noteq> sha256 L tok" using inj by blast
  then have old: "auth_refresh L cfg (Some tok) ctx' ?t = (Inl (Unauthorized ''Refresh token mismatch''), delete_session sid ?t)"
    using r(1) vo ft assms(7) by (simp add: auth_refresh_def rotated_def)
  have "auth_ok L cfg t" using refresh_ok [OF assms(2), of "Some tok" ctx] assms(3) by simp
  then have "find_session sid (delete_session sid ?t) = None"
    by (simp add: delete_session_def find_session_def auth_ok_def sessions_ok_def deleteOne_filter find_None_iff)
  then have "fst (auth_refresh L cfg (Some ?new) ctx' (delete_session sid ?t)) = Inl (Unauthorized ''Session not found'')"
    using vn ne by (simp add: auth_refresh_def refresh_token_def delete_session_def)
  moreover have "\<exists>tk' t'. auth_refresh L cfg (Some ?new) ctx' ?t = (Inr (u, tk'), t')"
    by (rule refresh_pass [where ss = ?ss and sid = sid]) (use ne vn ft assms(7) r(6) in \<open>simp_all add: refresh_token_def rotated_def\<close>)
  ultimately show ?thesis using old tk by auto
qed

section \<open>Passwords\<close>

lemma find_map_invariant: "(\<And>d. P (g d) = P d) \<Longrightarrow> List.find P (map g ds) = map_option g (List.find P ds)"
  by (induction ds) auto

lemma identifier_after_hash:
  assumes "accounts_ok s" "findByIdentifier ident s = Some d" "users t = updateOne (\<lambda>d. u_id d = u) (\<lambda>d. d\<lparr>passwordHash := h\<rparr>) (users s)"
  shows "findByIdentifier ident t = Some (if u_id d = u then d\<lparr>passwordHash := h\<rparr> else d)"
proof -
  let ?g = "\<lambda>d. if u_id d = u then d\<lparr>passwordHash := h\<rparr> else d"
  have "users t = map ?g (users s)" using assms(1,3) by (simp add: accounts_ok_def updateOne_key_map)
  moreover have "List.find P (map ?g (users s)) = map_option ?g (List.find P (users s))" if "\<And>d. P (d\<lparr>passwordHash := h\<rparr>) = P d" for P
    by (rule find_map_invariant) (simp add: that)
  ultimately show ?thesis using assms(2) unfolding findByIdentifier_def by (cases "CHR ''@'' \<in> set ident") simp_all
qed

text \<open>
  C31: Changing the password ends every session of the account and none of another, and afterwards a login to it fails for
  wrong credentials exactly when the password given is not the new one.
\<close>

theorem password_change_takes_effect:
  assumes "lib_ok L" "auth_ok L cfg s" "changePassword L u old new s = (Inr (), t)" "findByIdentifier ident s = Some d" "u_id d = u"
  shows "(\<forall>ss \<in> set (sessions t). ss_userId ss \<noteq> u) \<and> filter (\<lambda>x. ss_userId x \<noteq> u) (sessions s) = sessions t
    \<and> (fst (auth_login L cfg ident p ctx t) = Inl (Unauthorized ''Invalid credentials'') \<longleftrightarrow> p \<noteq> new)"
proof -
  have t: "t = logoutAll u (setPasswordHash u (pw_hash L (uuid s) new) (s\<lparr>uuid := Suc (uuid s)\<rparr>))"
    using assms(3) by (auto simp: changePassword_def await_def findByIdOrThrow_def hash_password_simps split: option.splits if_splits)
  have ident: "findByIdentifier ident t = Some (d\<lparr>passwordHash := pw_hash L (uuid s) new\<rparr>)"
    using identifier_after_hash [of s ident d t u "pw_hash L (uuid s) new"] assms(2,4,5)
    by (simp add: auth_ok_def t logoutAll_def setPasswordHash_def set_user_def)
  have "pw_verify L (pw_hash L (uuid s) new) p \<longleftrightarrow> new = p" using assms(1) by (simp add: lib_ok_def)
  then have "fst (auth_login L cfg ident p ctx t) = Inl (Unauthorized ''Invalid credentials'') \<longleftrightarrow> p \<noteq> new"
    by (auto simp: auth_login_def ident await_def assertLoginAllowed_def issueTokens_simps)
  then show ?thesis by (simp add: t logoutAll_def setPasswordHash_def set_user_def deleteMany_def)
qed

text \<open>
  A reset token that has set a password sets another one, as long as its signature is valid.
\<close>

theorem reset_token_reusable:
  assumes "resetPassword L cfg tok p s = (Inr (), t)" "jwt_verify L (resetSecret cfg) now tok = jwt_verify L (resetSecret cfg) (clock s) tok"
  shows "\<exists>u d t'. resetPassword L cfg tok p' (t\<lparr>clock := now\<rparr>) = (Inr (), t') \<and> find_user u t' = Some d \<and> passwordHash d = pw_hash L (uuid t) p'"
proof -
  obtain u d where u: "jwt_verify L (resetSecret cfg) (clock s) tok = Some (Reset_claims u)" "find_user u s = Some d" "u_id d = u"
    using assms(1) find_user_Some by (fastforce simp: resetPassword_def split: option.splits claims.splits)
  have t: "t = logoutAll u (setPasswordHash u (pw_hash L (uuid s) p) (s\<lparr>uuid := Suc (uuid s)\<rparr>))"
    using assms(1) u by (auto simp: resetPassword_def hash_password_simps)
  have f: "find_user i (setPasswordHash u h x) = (if i = u then map_option (\<lambda>d. d\<lparr>passwordHash := h\<rparr>) (find_user i x) else find_user i x)"
    for i h and x :: "'a auth_st_scheme"
    unfolding setPasswordHash_def by (rule find_set_user) simp
  have g: "find_user i (logoutAll v x) = find_user i x" "find_user i (x\<lparr>uuid := k\<rparr>) = find_user i x" "find_user i (x\<lparr>clock := n\<rparr>) = find_user i x"
    for i v k n and x :: "'a auth_st_scheme"
    by (simp_all add: logoutAll_def find_user_def)
  have ft: "find_user u (t\<lparr>clock := now\<rparr>) = Some (d\<lparr>passwordHash := pw_hash L (uuid s) p\<rparr>)"
    using u(2) by (simp add: t f g)
  let ?t = "logoutAll u (setPasswordHash u (pw_hash L (uuid t) p') (t\<lparr>clock := now, uuid := Suc (uuid t)\<rparr>))"
  have "resetPassword L cfg tok p' (t\<lparr>clock := now\<rparr>) = (Inr (), ?t)"
    using u(1,3) assms(2) ft by (simp add: resetPassword_def hash_password_simps)
  moreover have "find_user u ?t = Some (d\<lparr>passwordHash := pw_hash L (uuid t) p'\<rparr>)" using ft by (simp add: f g)
  ultimately show ?thesis by fastforce
qed

text \<open>
  Banning an account ends its sessions, and the access token it was given is still accepted until its life is over;
  the sockets that are closed are those of the identifier as the request spelled it.
\<close>

theorem banned_account_keeps_access:
  assumes "lib_ok L" "find_user i s = Some u" "read_oid r = Some i" "clock s \<le> now" "now < clock s + jwt_life L (accessTtl cfg)"
  shows "\<exists>t. admin_setStatus r BANNED s = (Inr (i, BANNED), t) \<and> (\<forall>ss \<in> set (sessions t). ss_userId ss \<noteq> i)
    \<and> authenticate L cfg (Some (signAccess L cfg u (clock s))) (t\<lparr>clock := now\<rparr>) = Some (i, username u, if isAdmin u then ''ADMIN'' else ''USER'')
    \<and> disconnected t = disconnected s @ [r]"
proof -
  have f: "find_user i (set_user i (\<lambda>d. d\<lparr>status := BANNED\<rparr>) s) = Some (u\<lparr>status := BANNED\<rparr>)"
    using find_set_user [of "\<lambda>d. d\<lparr>status := BANNED\<rparr>" i i s] assms(2) by simp
  have "jwt_verify L (accessSecret cfg) now (signAccess L cfg u (clock s)) = Some (Access_claims i (username u) (if isAdmin u then ''ADMIN'' else ''USER''))"
    "signAccess L cfg u (clock s) \<noteq> ''''"
    using assms(1,4,5) find_user_Some [OF assms(2)] unfolding lib_ok_def signAccess_def by auto
  then show ?thesis using assms(3) f find_user_Some [OF assms(2)]
    by (simp add: admin_setStatus_def await_def cast_oid_def setStatus_def Let_def logoutAll_def deleteMany_def authenticate_def verifyAccessToken_def set_user_def)
qed

section \<open>Life times\<close>

lemma digits_nat_str: "list_all is_digit (nat_str n)" "nat_str n \<noteq> []"
proof -
  have "list_all is_digit (nat_str n) \<and> nat_str n \<noteq> []"
  proof (induction n rule: nat_str.induct)
    case (1 n)
    have d: "is_digit (char_of (48 + k))" if "k < 10" for k :: nat using that by (simp add: is_digit_def Let_def)
    show ?case using 1 d [of "n mod 10"] d [of n] by (subst (1 2) nat_str.simps) (simp split: if_split)
  qed
  then show "list_all is_digit (nat_str n)" "nat_str n \<noteq> []" by simp_all
qed

lemma digit_not_space: "is_digit c \<Longrightarrow> \<not> is_space c"
  by (auto simp: is_digit_def is_space_def Let_def)

lemma trim_unpadded:
  assumes "xs \<noteq> []" "\<not> is_space (hd xs)" "\<not> is_space (last xs)"
  shows "trim xs = xs"
proof -
  have d: "dropWhile is_space ys = ys" if "ys \<noteq> []" "\<not> is_space (hd ys)" for ys using that by (cases ys) simp_all
  have "dropWhile is_space (rev xs) = rev xs" by (rule d) (use assms in \<open>simp_all add: hd_rev\<close>)
  then show ?thesis using d [OF assms(1,2)] by (simp add: trim_def)
qed

text \<open>
  A life time written as a decimal numeral followed by s, m, h or d is read back as that many of those units.
\<close>

theorem ttl_is_read_back:
  assumes "ttl_factor c = Some f"
  shows "ttlToMs (nat_str n @ [c]) = int n * f"
proof -
  have "\<not> is_space c" using assms by (auto simp: ttl_factor_def is_space_def split: if_splits)
  moreover have "\<not> is_space (hd (nat_str n))"
    using digits_nat_str [of n] by (intro digit_not_space) (cases "nat_str n"; simp)
  ultimately have "trim (nat_str n @ [c]) = nat_str n @ [c]" using digits_nat_str(2) [of n] by (intro trim_unpadded) simp_all
  then show ?thesis using digits_nat_str [of n] assms by (simp add: ttlToMs_def Let_def read_nat_str)
qed

section \<open>Examples\<close>

text \<open>
  A library with the laws: a field is written as escaped characters and a stop, a number in unary, and read back;
  a token lives an hour; a password is its own hash behind its salt.
\<close>

definition enc :: "string \<Rightarrow> string" where
  "enc x = concat (map (\<lambda>c. [CHR ''x'', c]) x) @ ''.''"

fun dec :: "string \<Rightarrow> (string \<times> string) option" where
  "dec [] = None"
| "dec [c] = (if c = CHR ''.'' then Some ([], []) else None)"
| "dec (c # d # r) = (if c = CHR ''.'' then Some ([], d # r) else map_option (\<lambda>(x, q). (d # x, q)) (dec r))"

lemma dec_enc [simp]: "dec (enc x @ r) = Some (x, r)"
proof (induction x)
  case Nil
  then show ?case by (cases r) (simp_all add: enc_def)
qed (simp add: enc_def)

lemma dec_enc_end [simp]: "dec (enc x) = Some (x, [])"
  using dec_enc [of x "[]"] by simp

definition enc_int :: "int \<Rightarrow> string" where
  "enc_int i = enc (if i < 0 then ''-'' else '''') @ enc (replicate (nat \<bar>i\<bar>) CHR ''1'')"

definition dec_int :: "string \<Rightarrow> (int \<times> string) option" where
  "dec_int x = Option.bind (dec x) (\<lambda>(sg, r). map_option (\<lambda>(n, q). (if sg = '''' then int (length n) else - int (length n), q)) (dec r))"

lemma dec_enc_int [simp]: "dec_int (enc_int i @ r) = Some (i, r)"
  by (simp add: dec_int_def enc_int_def)

lemma dec_enc_int_end [simp]: "dec_int (enc_int i) = Some (i, [])"
  using dec_enc_int [of i "[]"] by simp

fun enc_claims :: "claims \<Rightarrow> string" where
  "enc_claims (Access_claims u n role) = enc ''a'' @ enc_int (int u) @ enc n @ enc role"
| "enc_claims (Refresh_claims u i n) = enc ''r'' @ enc_int (int u) @ enc_int (int i) @ enc_int (int n)"
| "enc_claims (Reset_claims u) = enc ''p'' @ enc_int (int u)"

definition dec_claims :: "string \<Rightarrow> (claims \<times> string) option" where
  "dec_claims x = Option.bind (dec x) (\<lambda>(kind, r). Option.bind (dec_int r) (\<lambda>(u, r).
     if kind = ''a'' then Option.bind (dec r) (\<lambda>(n, r). map_option (\<lambda>(role, r). (Access_claims (nat u) n role, r)) (dec r))
     else if kind = ''r'' then Option.bind (dec_int r) (\<lambda>(i, r). map_option (\<lambda>(n, r). (Refresh_claims (nat u) (nat i) (nat n), r)) (dec_int r))
     else Some (Reset_claims (nat u), r)))"

lemma dec_enc_claims [simp]: "dec_claims (enc_claims c @ r) = Some (c, r)"
  by (cases c) (simp_all add: dec_claims_def)

definition sample_sign :: "string \<Rightarrow> claims \<Rightarrow> int \<Rightarrow> string \<Rightarrow> string" where
  "sample_sign k c t ttl = enc k @ enc_claims c @ enc_int t @ enc ttl"

definition sample_verify :: "string \<Rightarrow> int \<Rightarrow> string \<Rightarrow> claims option" where
  "sample_verify k now tok = Option.bind (dec tok) (\<lambda>(k', r). if k' \<noteq> k then None
     else Option.bind (dec_claims r) (\<lambda>(c, r). Option.bind (dec_int r) (\<lambda>(t, _). if now < t + 3600000 then Some c else None)))"

definition sample_lib :: crypto where
  "sample_lib = \<lparr>jwt_sign = sample_sign, jwt_verify = sample_verify, jwt_life = (\<lambda>_. 3600000), pw_hash = (\<lambda>n p. enc_int (int n) @ p),
     pw_verify = (\<lambda>h q. map_option snd (dec_int h) = Some q), sha256 = id\<rparr>"

lemma sample_verify_sign: "sample_verify k now (sample_sign k c t ttl) = (if now < t + 3600000 then Some c else None)"
  by (simp add: sample_verify_def sample_sign_def)

lemma sample_sign_full: "sample_sign k c t ttl \<noteq> ''''"
  by (simp add: sample_sign_def enc_def)

lemma sample_lib_ok: "lib_ok sample_lib"
  by (simp add: lib_ok_def sample_lib_def sample_verify_sign sample_sign_full)

lemma sample_verify_lib: "jwt_verify sample_lib k now (jwt_sign sample_lib k c t ttl) = (if now < t + 3600000 then Some c else None)"
  by (simp add: sample_lib_def sample_verify_sign)

definition cfg0 :: AuthConfig where
  "cfg0 = \<lparr>accessSecret = ''a'', refreshSecret = ''r'', accessTtl = ''15m'', refreshTtl = Some ''1h'', resetPasswordTtl = ''30m''\<rparr>"

definition ctx0 :: SessionContext where
  "ctx0 = \<lparr>sc_userAgent = None, sc_ip = None\<rparr>"

definition auth0 :: auth_st where
  "auth0 = servers_st.extend (servers0\<lparr>users := [demo_user 1 ''an''\<lparr>passwordHash := enc_int 0 @ ''pw''\<rparr>, demo_user 2 ''binh'']\<rparr>)
     \<lparr>sessions = [\<lparr>ss_id = 25, ss_userId = 1, ss_refreshHash = refresh_token sample_lib cfg0 1 25 0 0, ss_userAgent = None, ss_ip = None,
        ss_expiresAt = 3600000, ss_updatedAt = 0\<rparr>], uuid = 1, disconnected = []\<rparr>"

lemma auth0_users: "users auth0 = [demo_user 1 ''an''\<lparr>passwordHash := enc_int 0 @ ''pw''\<rparr>, demo_user 2 ''binh'']" "next_id auth0 = 30" "clock auth0 = 0"
  "uuid auth0 = 1" "defaultServerId auth0 = Some 20" "disconnected auth0 = []"
  "sessions auth0 = [\<lparr>ss_id = 25, ss_userId = 1, ss_refreshHash = refresh_token sample_lib cfg0 1 25 0 0, ss_userAgent = None, ss_ip = None,
        ss_expiresAt = 3600000, ss_updatedAt = 0\<rparr>]"
  by (simp_all add: auth0_def servers_st.extend_def servers0_def level_st.extend_def wallet_st.extend_def wallet0_defs)

lemma auth0_found: "find_user 1 auth0 = Some (demo_user 1 ''an''\<lparr>passwordHash := enc_int 0 @ ''pw''\<rparr>)"
  by (simp add: find_user_def auth0_users demo_user_def user_of_def)

lemma auth0_ok: "auth_ok sample_lib cfg0 auth0"
proof -
  have "accounts_ok auth0" by (simp add: accounts_ok_def auth0_users demo_user_def user_of_def)
  moreover have "session_ok sample_lib cfg0 auth0 ss" if "ss \<in> set (sessions auth0)" for ss
    using that auth0_found by (auto simp: session_ok_def auth0_users sample_lib_def may_login_def demo_user_def user_of_def intro!: exI [of _ 0])
  ultimately show ?thesis by (simp add: auth_ok_def sessions_ok_def) (simp add: auth0_users)
qed

definition handed0 :: "oid \<rightharpoonup> string" where
  "handed0 = [25 \<mapsto> refresh_token sample_lib cfg0 1 25 0 0]"

lemma auth0_holds: "holds_last sample_lib auth0 handed0" "0 < jwt_life sample_lib (refresh_ttl cfg0)"
  by (simp_all add: holds_last_def handed0_def auth0_users) (simp_all add: sample_lib_def)

theorem banned_accounts_have_no_session_witness:
  "auth_ok sample_lib cfg0 (fst (fold (auth_event sample_lib cfg0) [Admin_status (Hex 1) BANNED, Auth_login ''an'' ''pw'' ctx0, Auth_time 5, Sessions_expire] (auth0, handed0)))"
proof -
  obtain t h' where "fold (auth_event sample_lib cfg0) [Admin_status (Hex 1) BANNED, Auth_login ''an'' ''pw'' ctx0, Auth_time 5, Sessions_expire] (auth0, handed0) = (t, h')"
    "auth_ok sample_lib cfg0 t"
    using banned_accounts_have_no_session [OF sample_lib_ok auth0_holds(2) auth0_ok auth0_holds(1)] by metis
  then show ?thesis by (metis fst_conv)
qed

lemma auth0_refresh: "\<exists>u tk t. auth_refresh sample_lib cfg0 (Some (refresh_token sample_lib cfg0 1 25 0 0)) ctx0 auth0 = (Inr (u, tk), t)"
proof -
  let ?ss = "hd (sessions auth0)"
  have "\<exists>tk t. auth_refresh sample_lib cfg0 (Some (refresh_token sample_lib cfg0 1 25 0 0)) ctx0 auth0
      = (Inr (demo_user 1 ''an''\<lparr>passwordHash := enc_int 0 @ ''pw''\<rparr>, tk), t)"
  proof (rule refresh_pass [where ss = ?ss and sid = 25 and n = 0])
    show "refresh_token sample_lib cfg0 1 25 0 0 \<noteq> ''''" by (simp add: refresh_token_def sample_lib_def sample_sign_full)
    show "jwt_verify sample_lib (refreshSecret cfg0) (clock auth0) (refresh_token sample_lib cfg0 1 25 0 0) = Some (Refresh_claims (ss_userId ?ss) 25 0)"
      by (simp add: refresh_token_def sample_verify_lib auth0_users)
    show "find_session 25 auth0 = Some ?ss" by (simp add: find_session_def auth0_users)
    show "ss_refreshHash ?ss = sha256 sample_lib (refresh_token sample_lib cfg0 1 25 0 0)" by (simp add: auth0_users sample_lib_def)
    show "find_user (ss_userId ?ss) auth0 = Some (demo_user 1 ''an''\<lparr>passwordHash := enc_int 0 @ ''pw''\<rparr>)" using auth0_found by (simp add: auth0_users)
  qed (simp_all add: auth0_users may_login_def demo_user_def user_of_def)
  then show ?thesis by blast
qed

theorem refresh_token_works_once_witness:
  "\<exists>(tk :: IssuedTokens) (t :: auth_st). fst (auth_refresh sample_lib cfg0 (Some (refresh_token sample_lib cfg0 1 25 0 0)) ctx0 (t\<lparr>clock := 1000\<rparr>)) = Inl (Unauthorized ''Refresh token mismatch'')
     \<and> (\<exists>x. fst (auth_refresh sample_lib cfg0 (Some (refreshToken tk)) ctx0 (t\<lparr>clock := 1000\<rparr>)) = Inr x)"
proof -
  obtain u tk t where r: "auth_refresh sample_lib cfg0 (Some (refresh_token sample_lib cfg0 1 25 0 0)) ctx0 auth0 = (Inr (u, tk), t)"
    using auth0_refresh by blast
  have v: "jwt_verify sample_lib (refreshSecret cfg0) 1000 (refresh_token sample_lib cfg0 1 25 0 0) \<noteq> None"
    by (simp add: refresh_token_def sample_verify_lib)
  have "ttlToMs (refresh_ttl cfg0) = 3600000"
    by code_simp
  then have l: "clock auth0 \<le> 1000" "1000 < clock auth0 + jwt_life sample_lib (refresh_ttl cfg0)" "1000 \<le> clock auth0 + ttlToMs (refresh_ttl cfg0)"
    by (simp_all add: auth0_users sample_lib_def)
  show ?thesis using refresh_token_works_once [OF sample_lib_ok auth0_ok r l(1) v l(2,3), of ctx0]
    by - (rule exI [of _ tk], rule exI [of _ t], auto)
qed

theorem password_change_takes_effect_witness:
  "\<exists>t. changePassword sample_lib 1 ''pw'' ''new'' auth0 = (Inr (), t) \<and> sessions t = []
    \<and> fst (auth_login sample_lib cfg0 ''an'' ''pw'' ctx0 t) = Inl (Unauthorized ''Invalid credentials'')"
proof -
  let ?t = "snd (changePassword sample_lib 1 ''pw'' ''new'' auth0)"
  have c: "changePassword sample_lib 1 ''pw'' ''new'' auth0 = (Inr (), ?t)"
    using auth0_found by (simp add: changePassword_def await_def findByIdOrThrow_def findById_def hash_password_simps) (simp add: sample_lib_def)
  have i: "findByIdentifier ''an'' auth0 = Some (demo_user 1 ''an''\<lparr>passwordHash := enc_int 0 @ ''pw''\<rparr>)"
    by (simp add: findByIdentifier_def auth0_users demo_user_def user_of_def)
  have u: "u_id (demo_user 1 ''an''\<lparr>passwordHash := enc_int 0 @ ''pw''\<rparr>) = 1" by (simp add: demo_user_def user_of_def)
  have "sessions ?t = []" using password_change_takes_effect [OF sample_lib_ok auth0_ok c i u] by (simp add: auth0_users)
  moreover have "fst (auth_login sample_lib cfg0 ''an'' ''pw'' ctx0 ?t) = Inl (Unauthorized ''Invalid credentials'')"
    using password_change_takes_effect [OF sample_lib_ok auth0_ok c i u, of "''pw''" ctx0] by simp
  ultimately show ?thesis using c by blast
qed

theorem reset_token_reusable_witness:
  "\<exists>t. resetPassword sample_lib cfg0 (jwt_sign sample_lib (resetSecret cfg0) (Reset_claims 1) 0 ''30m'') ''one'' auth0 = (Inr (), t)
    \<and> fst (resetPassword sample_lib cfg0 (jwt_sign sample_lib (resetSecret cfg0) (Reset_claims 1) 0 ''30m'') ''two'' (t\<lparr>clock := 5\<rparr>)) = Inr ()"
proof -
  let ?tok = "jwt_sign sample_lib (resetSecret cfg0) (Reset_claims 1) 0 ''30m''"
  let ?t = "snd (resetPassword sample_lib cfg0 ?tok ''one'' auth0)"
  have v: "jwt_verify sample_lib (resetSecret cfg0) n ?tok = Some (Reset_claims 1)" if "n < 3600000" for n
    using that by (simp add: sample_verify_lib)
  have r: "resetPassword sample_lib cfg0 ?tok ''one'' auth0 = (Inr (), ?t)"
    using v [of 0] auth0_found by (simp add: resetPassword_def auth0_users hash_password_simps)
  have "jwt_verify sample_lib (resetSecret cfg0) 5 ?tok = jwt_verify sample_lib (resetSecret cfg0) (clock auth0) ?tok"
    using v [of 5] v [of 0] by (simp add: auth0_users)
  then obtain t' where "resetPassword sample_lib cfg0 ?tok ''two'' (?t\<lparr>clock := 5\<rparr>) = (Inr (), t')" using reset_token_reusable [OF r] by blast
  then show ?thesis using r by auto
qed

theorem banned_account_keeps_access_witness:
  "\<exists>t :: auth_st. fst (admin_setStatus (Hex 1) BANNED auth0) = Inr (1, BANNED)
    \<and> authenticate sample_lib cfg0 (Some (signAccess sample_lib cfg0 (demo_user 1 ''an''\<lparr>passwordHash := enc_int 0 @ ''pw''\<rparr>) 0)) (t\<lparr>clock := 1000\<rparr>) \<noteq> None"
proof -
  have l: "clock auth0 \<le> 1000" "1000 < clock auth0 + jwt_life sample_lib (accessTtl cfg0)" by (simp_all add: auth0_users sample_lib_def)
  obtain t where t: "admin_setStatus (Hex 1) BANNED auth0 = (Inr (1, BANNED), t)"
      "authenticate sample_lib cfg0 (Some (signAccess sample_lib cfg0 (demo_user 1 ''an''\<lparr>passwordHash := enc_int 0 @ ''pw''\<rparr>) (clock auth0))) (t\<lparr>clock := 1000\<rparr>) \<noteq> None"
    using banned_account_keeps_access [where cfg = cfg0 and r = "Hex 1", OF sample_lib_ok auth0_found _ l] by auto
  show ?thesis by (intro exI [of _ t]) (use t auth0_users(3) in simp)
qed

theorem ttl_is_read_back_witness: "ttlToMs ''15m'' = 900000"
proof -
  have "nat_str 15 @ [CHR ''m''] = ''15m''" by code_simp
  then show ?thesis using ttl_is_read_back [of "CHR ''m''" 60000 15] by (simp add: ttl_factor_def)
qed

end
