(* ===== verification/ConfigLaws.thy ===== *)
theory ConfigLaws
  imports Config UploadsLaws AuthLaws
begin

text \<open>
  What the settings guarantee: numbers are read back as written, origins are never empty; and what becomes of a server
  that is started without them.
\<close>

lemma parseInt_digits:
  assumes "list_all is_digit ds" "ds \<noteq> []"
  shows "parseInt ds = Some (int (read_nat ds))"
proof -
  obtain c cs where c: "ds = c # cs" using assms(2) by (cases ds) simp_all
  then have "\<not> is_space c" "c \<noteq> CHR ''-''" "c \<noteq> CHR ''+''" using assms(1) digit_not_space [of c] by (auto simp: is_digit_def)
  moreover have "takeWhile is_digit ds = ds" using assms(1) by (simp add: takeWhile_eq_all_conv list_all_iff)
  ultimately show ?thesis using assms(2) by (simp add: parseInt_def c Let_def)
qed

text \<open>
  A limit written as a decimal numeral is the limit that uploads are held to: what is larger is refused and nothing is stored.
\<close>

theorem upload_limit_from_environment:
  assumes "e ''AVATAR_MAX_BYTES'' = Some (nat_str n)" "int n < uf_size f"
  shows "saveAvatar uid (ac_upload (settings e)) (Some f) s = (Inl (BadRequest ''Avatar exceeds size limit''), s)"
proof -
  have "nat_str n \<noteq> '''' \<and> parseInt (nat_str n) = Some (int n)"
    using digits_nat_str [of n] parseInt_digits [of "nat_str n"] by (simp add: read_nat_str)
  then have "avatarMaxBytes (ac_upload (settings e)) = Some (int n)" using assms(1) by (simp add: settings_def env_or_def)
  then show ?thesis using assms(2) by (simp add: saveAvatar_def exceeds_def throw_def)
qed

text \<open>
  A limit that is written with a word lifts the limit: an avatar of any size is stored.
\<close>

theorem misspelt_limit_lifts_it:
  assumes "e ''AVATAR_MAX_BYTES'' = Some x" "x \<noteq> ''''" "parseInt x = None" "uf_mimetype f \<in> set IMAGE_MIME"
  shows "\<exists>r. fst (saveAvatar uid (ac_upload (settings e)) (Some f) s) = Inr r \<and> sf_size r = uf_size f"
  using assms by (simp add: saveAvatar_def exceeds_def settings_def env_or_def store_def Let_def)

text \<open>
  Without the variables for them the secrets are the ones written in the source, in every environment, and so is the key that password
  resets are signed with.
\<close>

theorem missing_secrets_are_public:
  assumes "e ''JWT_ACCESS_SECRET'' = None" "e ''JWT_REFRESH_SECRET'' = None"
  shows "resetSecret (ac_jwt (settings e)) = ''dev_access_secret:reset:dev_refresh_secret''"
    and "signAccess L (ac_jwt (settings e)) u now = jwt_sign L ''dev_access_secret'' (Access_claims (u_id u) (username u) (if isAdmin u then ''ADMIN'' else ''USER'')) now (accessTtl (ac_jwt (settings e)))"
  using assms by (simp_all add: resetSecret_def signAccess_def settings_def env_or_def)

lemma origins_not_empty: "x \<in> set (origins s) \<Longrightarrow> x \<noteq> ''''"
  by (simp add: origins_def)

definition env0 :: environment where
  "env0 = [''AVATAR_MAX_BYTES'' \<mapsto> nat_str 60]"

definition env1 :: environment where
  "env1 = [''AVATAR_MAX_BYTES'' \<mapsto> ''five'']"

theorem upload_limit_from_environment_witness:
  "saveAvatar uid0 (ac_upload (settings env0)) (Some page0) files0 = (Inl (BadRequest ''Avatar exceeds size limit''), files0)"
  using upload_limit_from_environment [of env0 60 page0] by (simp add: env0_def page0_def)

theorem misspelt_limit_lifts_it_witness:
  "\<exists>r. fst (saveAvatar uid0 (ac_upload (settings env1)) (Some page0) files0) = Inr r \<and> sf_size r = 70"
proof -
  have "parseInt ''five'' = None" by code_simp
  then show ?thesis using misspelt_limit_lifts_it [of env1 "''five''" page0 uid0 files0] by (simp add: env1_def page0_def IMAGE_MIME_def)
qed

theorem missing_secrets_are_public_witness:
  "resetSecret (ac_jwt (settings env0)) = ''dev_access_secret:reset:dev_refresh_secret''"
  using missing_secrets_are_public(1) [of env0] by (simp add: env0_def)

end
