(* ===== verification/AuthControllerLaws.thy ===== *)
theory AuthControllerLaws
  imports AuthController ConfigLaws
begin

text \<open>
  What the routes of authentication promise: a browser that signed in stays signed in by its cookie, no reply carries a
  password hash, and what a request for a new password gives away depends on one variable of the environment.
\<close>

section \<open>The cookie of the browser\<close>

text \<open>
  What a browser sends after it has followed the instructions of a reply. It goes by the name of a cookie alone: expiry,
  path, domain and the attribute for secure transport are not modelled.
\<close>

fun browser_step :: "cookie_action \<Rightarrow> (string \<Rightarrow> string option) \<Rightarrow> string \<Rightarrow> string option" where
  "browser_step (Set_cookie n v opts) b = b(n \<mapsto> v)"
| "browser_step (Clear_cookie n opts) b = b(n := None)"

definition browser :: "cookie_action list \<Rightarrow> (string \<Rightarrow> string option) \<Rightarrow> string \<Rightarrow> string option" where
  "browser as b = fold browser_step as b"

lemma login_result:
  assumes "auth_login L cfg ident p ctx s = (Inr (u, tk), t)"
  shows "findByIdentifier ident s = Some u \<and> may_login u \<and> pw_verify L (passwordHash u) p
    \<and> issueTokensForUser L cfg u ctx s = (Inr tk, t)"
  using assms by (auto simp: auth_login_def throw_def await_def assertLoginAllowed_def may_login_def issueTokens_simps split: option.splits if_splits)

lemma issued_refreshes:
  assumes "lib_ok L" "sessions_ok L cfg s" "find_user (u_id u) s = Some u" "may_login u" "issueTokensForUser L cfg u ctx s = (Inr tk, t)"
    "clock s \<le> now" "now < clock s + jwt_life L (refresh_ttl cfg)" "now \<le> clock s + ttlToMs (refresh_ttl cfg)"
  shows "\<exists>tk' t'. auth_refresh L cfg (Some (refreshToken tk)) ctx' (t\<lparr>clock := now\<rparr>) = (Inr (u, tk'), t')"
proof -
  let ?tok = "refresh_token L cfg (u_id u) (next_id s) (uuid s) (clock s)"
  let ?ss = "\<lparr>ss_id = next_id s, ss_userId = u_id u, ss_refreshHash = sha256 L ?tok, ss_userAgent = sc_userAgent ctx, ss_ip = sc_ip ctx,
      ss_expiresAt = clock s + ttlToMs (refresh_ttl cfg), ss_updatedAt = clock s\<rparr>"
  have t: "refreshToken tk = ?tok" "sessions t = sessions s @ [?ss]" "users t = users s" using assms(5) by (auto simp: issueTokens_simps)
  have "\<forall>x \<in> set (sessions s). ss_id x \<noteq> next_id s" using assms(2) by (force simp: sessions_ok_def session_ok_def)
  then have "List.find (\<lambda>x. ss_id x = next_id s) (sessions s) = None" by (simp add: find_None_iff)
  then have "find_session (next_id s) (t\<lparr>clock := now\<rparr>) = Some ?ss" by (simp add: find_session_def t find_append)
  moreover have "?tok \<noteq> ''''" "jwt_verify L (refreshSecret cfg) now ?tok = Some (Refresh_claims (u_id u) (next_id s) (uuid s))"
    using assms(1,6,7) by (simp_all add: lib_ok_def refresh_token_def)
  moreover have "find_user (u_id u) (t\<lparr>clock := now\<rparr>) = Some u" using assms(3) t(3) by (simp add: find_user_def)
  ultimately show ?thesis unfolding t(1)
    by (intro refresh_pass [where ss = ?ss and sid = "next_id s" and n = "uuid s"]) (use assms(4,8) in simp_all)
qed

text \<open>
  C30: A browser that has signed in is signed in again by the cookie of that reply alone, as long as the refresh token lives: it is given
  tokens for the same account, and the reply never carries a password hash.
\<close>

theorem cookie_keeps_browser_signed_in:
  assumes "lib_ok L" "auth_ok L (ac_jwt cfg) s" "post_login L cfg ident p rq s = (Inr (reply, actions), t)" "rq_cookies rq' = browser actions b"
    "clock s \<le> now" "now < clock s + jwt_life L (refresh_ttl (ac_jwt cfg))" "now \<le> clock s + ttlToMs (refresh_ttl (ac_jwt cfg))"
  shows "\<exists>reply' actions' t'. post_refresh L cfg None rq' (t\<lparr>clock := now\<rparr>) = (Inr (reply', actions'), t')
    \<and> ar_user reply' = ar_user reply \<and> passwordHash (ar_user reply') = ''''"
proof -
  obtain u tk where l: "auth_login L (ac_jwt cfg) ident p (request_ctx rq) s = (Inr (u, tk), t)" "(reply, actions) = signed_in cfg (u, tk)"
    using assms(3) unfolding post_login_def by (elim await_InrD) auto
  have r: "findByIdentifier ident s = Some u" "may_login u" "issueTokensForUser L (ac_jwt cfg) u (request_ctx rq) s = (Inr tk, t)"
    using login_result [OF l(1)] by auto
  have "find_user (u_id u) s = Some u"
    using r(1) assms(2) by (auto simp: auth_ok_def findByIdentifier_def account_found dest!: find_Some_iff_mem)
  then obtain tk' t' where "auth_refresh L (ac_jwt cfg) (Some (refreshToken tk)) (request_ctx rq') (t\<lparr>clock := now\<rparr>) = (Inr (u, tk'), t')"
    using issued_refreshes [OF assms(1) _ _ r(2,3) assms(5,6,7)] assms(2) unfolding auth_ok_def by blast
  moreover have "refreshToken tk \<noteq> ''''" using r(3) assms(1) by (auto simp: issueTokens_simps refresh_token_def lib_ok_def)
  then have "request_token cfg rq' None = Some (refreshToken tk)"
    using l(2) assms(4) by (simp add: signed_in_def request_token_def browser_def setRefreshCookie_def)
  ultimately show ?thesis using l(2) by (auto simp: post_refresh_def await_def signed_in_def user_json_def)
qed

section \<open>Requests for a new password\<close>

text \<open>
  In production a request for a new password tells its sender nothing, and nothing is sent to anybody.
\<close>

theorem production_discloses_no_token:
  assumes "ac_env cfg = ''production''"
  shows "post_forgot_password L cfg e s = (Inr None, s)"
  using assms by (simp add: post_forgot_password_def)

text \<open>
  C40: A server started without \<open>NODE_ENV\<close> gives accounts away: whoever knows the address of an account that may log in is handed a
  token, sets a password of choice with it, and is signed in to the account.
\<close>

theorem unset_environment_gives_accounts_away:
  assumes "e ''NODE_ENV'' = None" "lib_ok L" "accounts_ok s" "findByEmail mail s = Some d" "may_login d" "CHR ''@'' \<in> set mail"
    "0 < jwt_life L (resetPasswordTtl (ac_jwt (settings e)))"
  shows "\<exists>token t reply actions t'. post_forgot_password L (settings e) mail s = (Inr (Some token), s)
    \<and> post_reset_password L (settings e) token p s = (Inr (), t)
    \<and> post_login L (settings e) mail p rq t = (Inr (reply, actions), t') \<and> u_id (ar_user reply) = u_id d"
proof -
  let ?cfg = "ac_jwt (settings e)" and ?h = "pw_hash L (uuid s) p"
  let ?tok = "jwt_sign L (resetSecret ?cfg) (Reset_claims (u_id d)) (clock s) (resetPasswordTtl ?cfg)"
  let ?t = "logoutAll (u_id d) (setPasswordHash (u_id d) ?h (s\<lparr>uuid := Suc (uuid s)\<rparr>))"
  have "ac_env (settings e) \<noteq> ''production''" using assms(1) by (simp add: settings_def env_or_def)
  then have 1: "post_forgot_password L (settings e) mail s = (Inr (Some ?tok), s)"
    using assms(4) by (simp add: post_forgot_password_def forgotPassword_def)
  have i: "findByIdentifier mail s = Some d" using assms(4,6) by (simp add: findByIdentifier_def findByEmail_def)
  have f: "find_user (u_id d) s = Some d"
    using assms(3,4) by (auto simp: findByEmail_def account_found dest!: find_Some_iff_mem)
  have "jwt_verify L (resetSecret ?cfg) (clock s) ?tok = Some (Reset_claims (u_id d))" using assms(2,7) by (simp add: lib_ok_def)
  then have 2: "post_reset_password L (settings e) ?tok p s = (Inr (), ?t)"
    using f by (simp add: post_reset_password_def resetPassword_def hash_password_simps)
  have "findByIdentifier mail ?t = Some (d\<lparr>passwordHash := ?h\<rparr>)"
    using identifier_after_hash [OF assms(3) i, of ?t "u_id d" ?h] by (simp add: logoutAll_def setPasswordHash_def set_user_def)
  moreover have "pw_verify L ?h p" using assms(2) by (simp add: lib_ok_def)
  ultimately have "\<exists>reply actions t'. post_login L (settings e) mail p rq ?t = (Inr (reply, actions), t') \<and> u_id (ar_user reply) = u_id d"
    using assms(5) by (simp add: post_login_def auth_login_def await_def assertLoginAllowed_def may_login_def issueTokens_simps signed_in_def user_json_def)
  then show ?thesis using 1 2 by blast
qed

section \<open>Examples\<close>

definition env2 :: environment where
  "env2 = [''JWT_ACCESS_SECRET'' \<mapsto> ''a'', ''JWT_REFRESH_SECRET'' \<mapsto> ''r'', ''JWT_REFRESH_TTL'' \<mapsto> ''1h'']"

definition request0 :: HttpRequest where
  "request0 = \<lparr>rq_userAgent = None, rq_ip = None, rq_cookies = Map.empty, rq_bearer = None\<rparr>"

lemma env2_settings: "ac_jwt (settings env2) = cfg0" "env2 ''NODE_ENV'' = None"
  by (simp_all add: settings_def env2_def env_or_def cfg0_def)

lemma auth0_login: "\<exists>reply actions t. post_login sample_lib (settings env2) ''an'' ''pw'' request0 auth0 = (Inr (reply, actions), t)"
proof -
  have "findByIdentifier ''an'' auth0 = Some (demo_user 1 ''an''\<lparr>passwordHash := enc_int 0 @ ''pw''\<rparr>)"
    by (simp add: findByIdentifier_def auth0_users demo_user_def user_of_def)
  moreover have "pw_verify sample_lib (enc_int 0 @ ''pw'') ''pw''" by (simp add: sample_lib_def)
  moreover have "assertLoginAllowed (demo_user 1 ''an''\<lparr>passwordHash := enc_int 0 @ ''pw''\<rparr>) auth0 = (Inr (), auth0)"
    by (simp add: assertLoginAllowed_def demo_user_def user_of_def)
  ultimately show ?thesis by (simp add: post_login_def auth_login_def await_def issueTokens_simps signed_in_def)
qed

theorem cookie_keeps_browser_signed_in_witness:
  "\<exists>reply actions t reply' actions' t'. post_login sample_lib (settings env2) ''an'' ''pw'' request0 auth0 = (Inr (reply, actions), t)
    \<and> post_refresh sample_lib (settings env2) None (request0\<lparr>rq_cookies := browser actions Map.empty\<rparr>) (t\<lparr>clock := 1000\<rparr>) = (Inr (reply', actions'), t')
    \<and> ar_user reply' = ar_user reply"
proof -
  obtain reply actions t where l: "post_login sample_lib (settings env2) ''an'' ''pw'' request0 auth0 = (Inr (reply, actions), t)" using auth0_login by blast
  have "ttlToMs (refresh_ttl cfg0) = 3600000" by code_simp
  then have "1000 < clock auth0 + jwt_life sample_lib (refresh_ttl (ac_jwt (settings env2)))" "1000 \<le> clock auth0 + ttlToMs (refresh_ttl (ac_jwt (settings env2)))"
    "clock auth0 \<le> 1000" "auth_ok sample_lib (ac_jwt (settings env2)) auth0"
    using auth0_ok by (simp_all add: env2_settings auth0_users sample_lib_def)
  then show ?thesis
    using cookie_keeps_browser_signed_in [OF sample_lib_ok _ l, of "request0\<lparr>rq_cookies := browser actions Map.empty\<rparr>" Map.empty 1000] l by fastforce
qed

theorem production_discloses_no_token_witness:
  "post_forgot_password sample_lib (settings [''NODE_ENV'' \<mapsto> ''production'']) ''an@x'' auth0 = (Inr None, auth0)"
  by (rule production_discloses_no_token) (simp add: settings_def env_or_def)

theorem unset_environment_gives_accounts_away_witness:
  "\<exists>token t reply actions t'. post_forgot_password sample_lib (settings env2) ''an@x'' auth0 = (Inr (Some token), auth0)
    \<and> post_reset_password sample_lib (settings env2) token ''mine'' auth0 = (Inr (), t)
    \<and> post_login sample_lib (settings env2) ''an@x'' ''mine'' request0 t = (Inr (reply, actions), t') \<and> u_id (ar_user reply) = 1"
proof -
  let ?d = "demo_user 1 ''an''\<lparr>passwordHash := enc_int 0 @ ''pw''\<rparr>"
  have "toLowerCase ''an@x'' = ''an@x''" by code_simp
  then have "findByEmail ''an@x'' auth0 = Some ?d" "may_login ?d" "u_id ?d = 1"
    by (simp_all add: findByEmail_def auth0_users demo_user_def user_of_def may_login_def)
  moreover have "accounts_ok auth0" using auth0_ok by (simp add: auth_ok_def)
  ultimately show ?thesis
    using unset_environment_gives_accounts_away [where e = env2, OF env2_settings(2) sample_lib_ok, of auth0 "''an@x''" ?d "''mine''" request0] by (simp add: sample_lib_def)
qed

end
