(* ===== verification/Filters.thy ===== *)
theory Filters
  imports Sockets
begin

text \<open>
  \<open>src/common/filters/all-exceptions.filter.ts\<close> and \<open>src/common/filters/ws-exceptions.filter.ts\<close>: what a client is told of
  an exception that a handler throws, over HTTP and over a socket.
\<close>

section \<open>Exceptions\<close>

text \<open>
  The response of an HTTP exception is a string or an object, whose message is a string, a list of strings (of the
  validation) or absent; a socket exception holds a string or an object. Both are errors, with a message besides.
\<close>

datatype http_response = Resp_text string | Resp_object "(string list + string) option" "string option"

datatype ws_error = Ws_text string | Ws_object "string option" "string option"

datatype exception = Http_exception nat http_response string | Ws_exception ws_error string | Native_error string | Not_an_error

fun statusToCode :: "nat \<Rightarrow> string" where
  "statusToCode st =
     (if st = 400 then ''BAD_REQUEST'' else if st = 401 then ''UNAUTHORIZED'' else if st = 403 then ''FORBIDDEN''
      else if st = 404 then ''NOT_FOUND'' else if st = 409 then ''CONFLICT'' else if st = 429 then ''RATE_LIMITED'' else ''ERROR'')"

text \<open>\<open>x || d\<close> for a string that may be absent.\<close>

definition or_else :: "string option \<Rightarrow> string \<Rightarrow> string" where
  "or_else x d = (case x of None \<Rightarrow> d | Some v \<Rightarrow> or_message v d)"

fun join_commas :: "string list \<Rightarrow> string" where
  "join_commas [] = ''''"
| "join_commas [x] = x"
| "join_commas (x # xs) = x @ '', '' @ join_commas xs"

definition body_message :: "(string list + string) option \<Rightarrow> string \<Rightarrow> string" where
  "body_message m d = (case m of None \<Rightarrow> d | Some (Inl xs) \<Rightarrow> join_commas xs | Some (Inr x) \<Rightarrow> or_message x d)"

section \<open>Over a socket\<close>

record description =
  ds_code :: string
  ds_message :: string
  ds_isServerError :: bool

fun describe :: "exception \<Rightarrow> description" where
  "describe (Http_exception st (Resp_text x) m) = \<lparr>ds_code = statusToCode st, ds_message = x, ds_isServerError = (st \<ge> 500)\<rparr>"
| "describe (Http_exception st (Resp_object b c) m) =
     \<lparr>ds_code = or_else c (statusToCode st), ds_message = body_message b m, ds_isServerError = (st \<ge> 500)\<rparr>"
| "describe (Ws_exception (Ws_text x) n) = \<lparr>ds_code = ''WS_ERROR'', ds_message = x, ds_isServerError = False\<rparr>"
| "describe (Ws_exception (Ws_object m c) n) = \<lparr>ds_code = or_else c ''WS_ERROR'', ds_message = or_else m ''Error'', ds_isServerError = False\<rparr>"
| "describe (Native_error m) = \<lparr>ds_code = ''INTERNAL_ERROR'', ds_message = or_message m ''Internal server error'', ds_isServerError = True\<rparr>"
| "describe Not_an_error = \<lparr>ds_code = ''INTERNAL_ERROR'', ds_message = ''Internal server error'', ds_isServerError = True\<rparr>"

text \<open>The acknowledgement, where the client asked for one, and the event that is sent in any case.\<close>

datatype ws_answer = Ack string string | Exception_event string string

definition ws_catch :: "bool \<Rightarrow> exception \<Rightarrow> ws_answer list" where
  "ws_catch ack e = (let d = describe e in (if ack then [Ack (ds_code d) (ds_message d)] else []) @ [Exception_event (ds_code d) (ds_message d)])"

section \<open>Over HTTP\<close>

text \<open>
  The code starts as that of an internal error, so that the one of the status is never taken for a string response.
\<close>

record envelope =
  en_status :: nat
  en_code :: string
  en_message :: string

fun http_catch :: "exception \<Rightarrow> envelope" where
  "http_catch (Http_exception st (Resp_text x) m) = \<lparr>en_status = st, en_code = or_message ''INTERNAL_ERROR'' (statusToCode st), en_message = x\<rparr>"
| "http_catch (Http_exception st (Resp_object b c) m) =
     \<lparr>en_status = st, en_code = or_message (or_else c (statusToCode st)) (statusToCode st), en_message = body_message b m\<rparr>"
| "http_catch (Native_error m) = \<lparr>en_status = 500, en_code = ''INTERNAL_ERROR'', en_message = m\<rparr>"
| "http_catch Not_an_error = \<lparr>en_status = 500, en_code = ''INTERNAL_ERROR'', en_message = ''Internal server error''\<rparr>"
| "http_catch (Ws_exception w n) = \<lparr>en_status = 500, en_code = ''INTERNAL_ERROR'', en_message = n\<rparr>"

section \<open>Laws\<close>

lemma statusToCode_not_empty: "statusToCode st \<noteq> ''''"
  by simp

text \<open>
  An HTTP exception with an object as response, as all that the services throw are, is described alike over a socket and over HTTP: the same
  code, the same message, and a server error exactly for a status of 500 or more; the code is never empty.
\<close>

theorem filters_agree:
  "ds_code (describe (Http_exception st (Resp_object b c) m)) = en_code (http_catch (Http_exception st (Resp_object b c) m))
   \<and> ds_message (describe (Http_exception st (Resp_object b c) m)) = en_message (http_catch (Http_exception st (Resp_object b c) m))
   \<and> (ds_isServerError (describe (Http_exception st (Resp_object b c) m)) \<longleftrightarrow> 500 \<le> en_status (http_catch (Http_exception st (Resp_object b c) m)))
   \<and> en_code (http_catch (Http_exception st (Resp_object b c) m)) \<noteq> ''''"
  using statusToCode_not_empty [of st] by (simp add: or_else_def or_message_def split: option.split del: statusToCode.simps)

text \<open>
  With a string as response the HTTP code is that of an internal error, whatever the status.
\<close>

theorem text_response_miscoded:
  "en_code (http_catch (Http_exception 403 (Resp_text x) m)) = ''INTERNAL_ERROR'' \<and> ds_code (describe (Http_exception 403 (Resp_text x) m)) = ''FORBIDDEN''"
  by (simp add: or_message_def)

end
