(* ===== verification/Spec2Isabelle.thy ===== *)
theory Spec2Isabelle
  imports Gateways QueueLaws VoiceGatewayLaws ChatGatewayLaws AuthControllerLaws Filters
begin

text \<open>
  A verification development for the backend of HTSSClub: accounts, friends, direct messages, a coin wallet, experience
  and ranks, servers with text and voice channels, and three games that are played in rooms for coins or for rank. The
  program is a NestJS server; its services change documents in MongoDB and keys in Redis, its gateways carry socket
  messages to the services and announce what changed. File names below are relative to \<open>src/\<close>.

  \<^bold>\<open>How the program is modelled.\<close> A request is a function of the state it finds: an operation returns an outcome, which is
  an error or a value, together with the state it leaves (\<open>Prelude\<close>: \<open>throw\<close>, \<open>return\<close>, \<open>await\<close>, \<open>best_effort\<close>,
  \<open>withTransaction\<close>). The state is one record that grows from theory to theory, so that an operation of the accounts runs
  unchanged in a state that has channels or games: \<open>env_st\<close> (clock, next identifier, random stream, accounts, members),
  \<open>notif_st\<close>, \<open>friends_st\<close>, \<open>dm_st\<close>, \<open>wallet_st\<close>, \<open>level_st\<close>; from there \<open>rooms_st\<close> for the games, with \<open>tl_st\<close>, \<open>caro_st\<close>,
  \<open>bm_st\<close>, and \<open>servers_st\<close> for the community, with \<open>chat_st\<close>, \<open>voice_st\<close>, \<open>ws_st\<close> and \<open>auth_st\<close>. A collection is the list
  of its documents in insertion order, an identifier of a document is a number, and an identifier that a client sends is a
  \<open>raw_id\<close>: the spelling the server itself prints, another spelling of the same identifier, or no identifier. That
  distinction is kept wherever the code compares, stores or names a room by the string instead of by what it denotes.
  Events sent to clients are appended to logs with the room they go to. A request runs as one step of the state: sequences of
  steps interleave requests, not the awaits inside one. Where the awaits matter most, the parts are operations of their
  own besides: the check and the commit of joining a room (\<open>Rooms.concurrent_joins_overfill\<close> shows the race between
  two joins), the scripts of matchmaking, the start of a room.

  \<^bold>\<open>Shared parts.\<close> \<open>Prelude\<close>: identifiers, strings, outcomes, collections (\<open>updateOne\<close>, \<open>deleteOne\<close>, \<open>deleteMany\<close>), pages,
  transactions (\<open>common/dto/pagination.dto.ts\<close>, \<open>database/transaction.util.ts\<close>), with the lemmas on collections in \<open>coll\<close>.
  \<open>Stores\<close>: the contract between a service and the collection of its documents, a locale that the three game services
  interpret; likewise \<open>Wallet\<close> states what a ledger keeps, which the stakes interpret, and \<open>QueueLaws\<close> what a queue is. \<open>Enums\<close>: \<open>common/enums.ts\<close>.

  \<^bold>\<open>People and coins.\<close> \<open>Users\<close> (\<open>users/\<close>), \<open>Notifications\<close>, \<open>Friends\<close> (one document for a pair, requests, blocks), \<open>Dm\<close>
  (conversations over a cipher that is a parameter), \<open>Wallet\<close> (every change of a balance has a record; the books balance, a
  transfer happens entirely or not at all), \<open>LevelUtil\<close>, \<open>RankUtil\<close> and \<open>Leveling\<close> (level curve, rank ladder, leaderboards),
  \<open>Wager\<close> and \<open>GameMoney\<close> (stakes and payouts), \<open>Elo\<close> (the exchange of rating points, over the real numbers).

  \<^bold>\<open>Games.\<close> \<open>Rooms\<close> is the lobby (\<open>games/common/rooms.service.ts\<close>): joining, leaving, starting, and the pot; it conserves
  coins. Tien Len: \<open>TienLenLogic\<close> has the rules (combinations are recognised exactly, beating is a strict order between two
  combinations), \<open>TienLenTable\<close> the document of a game and what changes only it (a game ends within 529 moves),
  \<open>TienLenGame\<close> the service with timers, chops, rewards and views, \<open>TienLenLaws\<close> its laws: the service refines the rules of
  the table, the payouts are exactly the pot, views hide other hands. Caro: \<open>CaroLogic\<close> (a win is five in a row exactly),
  \<open>CaroGame\<close>, \<open>CaroLaws\<close> (at most 225 moves, results are final, the end pays out the pot). Bomberman: \<open>BomberLogic\<close> (maps,
  movement, chained explosions), \<open>BomberLaws\<close>, \<open>BomberArena\<close> (the world stays sound, nobody crosses a wall), \<open>BomberGame\<close>
  and \<open>BomberGameLaws\<close> (a decided or overdue match ends; its pot goes to one player, in a decided match
  to the last one alive). \<open>Matchmaking\<close> and \<open>QueueLaws\<close>: the queues and their
  scripts; a place in a queue is handed out once. \<open>Sockets\<close> has what the three game gateways share, \<open>CaroGateway\<close>,
  \<open>TienLenGateway\<close> and \<open>BomberGateway\<close> their handlers; \<open>GatewayLaws\<close> states the interface between gateway and game service
  as a locale with the laws proved once, the three \<open>GatewayLaws\<close> theories interpret them on the three services and show that
  whatever clients send, in any order, every stored game stays sound, and \<open>Gateways\<close> draws what holds for all three.

  \<^bold>\<open>Community.\<close> \<open>Servers\<close> (\<open>servers/servers.service.ts\<close>) with \<open>ServersLaws\<close>: the service refines an access matrix of roles,
  owners and bans. \<open>VoicePresence\<close>, \<open>Chat\<close>, \<open>Channels\<close> and \<open>Messages\<close> with \<open>ChatLaws\<close>: the collections stay sound, changes are
  authorised, the pages of a channel show every message once, reactions are sets, and writing earns a bounded amount of
  experience; \<open>ChatCases\<close> has four edges and the examples. \<open>VoiceGateway\<close> and \<open>VoiceGatewayLaws\<close>: the voice sockets, which
  never fill the list of a channel beyond its limit under one spelling of its identifier, and beyond it under two.
  \<open>ChatGateway\<close> and \<open>ChatGatewayLaws\<close>: the chat sockets and their rooms; the gateway refines a board of who is connected
  and what every account shows, and a socket that is in a room stays there after its user lost access.

  \<^bold>\<open>Access.\<close> \<open>Auth\<close> and \<open>AuthLaws\<close>: sessions and tokens over a library of signing, password hashing and digests that is a
  parameter; a refresh token works once, banned accounts have no session, a new password takes effect. \<open>AuthController\<close>
  and \<open>AuthControllerLaws\<close>: the routes of authentication with their cookie, under the settings that \<open>Config\<close> reads from the
  environment (\<open>config/configuration.ts\<close>, laws in \<open>ConfigLaws\<close>). \<open>Uploads\<close> and \<open>UploadsLaws\<close>: files stay in their folders
  under names the server draws, with an extension the sender chose. \<open>Filters\<close>: what a client is told of an exception.

  \<^bold>\<open>Properties.\<close> The numbered claims C1 to C40 are the promises the program makes, each with an example at a concrete state
  on which its hypotheses hold. Theorems without a number are of the same kind; several of them state where the code
  departs from what it means to do (a second spelling of an identifier, sockets that stay in rooms after a kick, reset
  tokens that can be used twice, a device that leaves its user behind in a voice channel).

  \<^bold>\<open>Bounds and fuel.\<close> An explosion chain recurses with the number of bombs as fuel, and \<open>BomberLaws.explosion_complete\<close> shows
  that it is enough, since every step removes a bomb. Reading a channel back takes at most one page for every message, so
  fuel of the number of messages and one is enough (\<open>ChatLaws.history_shows_every_message_once\<close>). Games of Tien Len and
  Caro are bounded by potentials that every move lowers. A match of Bomberman ends with the first tick after three minutes.

  \<^bold>\<open>Parameters.\<close> What is not code of this repository is an argument: signing and verifying tokens, hashing passwords and the
  digest of refresh tokens (\<open>crypto\<close> with the laws \<open>lib_ok\<close>), the authenticated cipher (\<open>aead\<close> with \<open>aead_ok\<close>), the token of
  the media server (\<open>livekit\<close>), random identifiers (\<open>uuid_ok\<close>), the random part of an invitation, the order a match is
  shuffled to, and the stream of random numbers in the state. Each law is shown to be satisfiable by a concrete function.

  \<^bold>\<open>Idealisations.\<close> Requests that the code splits by awaits are one step here: a friend request, a login, a refresh, the opening
  of a conversation, connecting and disconnecting sockets, the end of a match, and the join of a room where a gateway asks
  for it; two that run at once may do what no sequence of steps does, for instance two documents for one pair of friends.
  \<open>lib_ok\<close> takes digests to be injective, where the library only makes collisions infeasible to find, and the life of a token to
  end at a millisecond, where the library counts whole seconds. The browser of \<open>AuthControllerLaws\<close> keeps and sends a
  cookie by its name only, and ignores its expiry, path, domain and the attribute for secure transport. Fields of socket payloads have
  the types the code declares: that clients may send other values, which nothing checks, is the subject of findings. The stake
  of a room is rounded down by \<open>Sockets.floor_bet\<close>, where the gateways hand it over, and not a second time in \<open>Rooms\<close>.

  \<^bold>\<open>Numbers.\<close> Coins, experience and points are integers, rating exchanges are real numbers, coordinates and random numbers
  are rationals; the rounding of floating-point numbers is not modelled. Time is an integer of milliseconds in the state.

  \<^bold>\<open>Not modelled.\<close> HTTP controllers other than those of authentication, which pass the fields of a request on to one
  operation of a service; validation decorators; the modules, the start-up and the adapters of Redis and of the socket
  server, which are wiring of libraries; the envelope of successful replies; log lines; the three counts on the page of
  the administrator, since creation times of messages are not in the model; the five tunables of Tien Len as they are
  read from the environment, of which two are floating-point numbers (they are a record of that component); specs and
  end-to-end scripts.
\<close>

end
